(* ===== verification/Roboz_Control.thy ===== *)
theory Roboz_Control
  imports Roboz_Base
begin

text \<open>
  The command-token stream of the guarded file CLI: \<open>FileCommand.validate_sequence\<close>
  (\<open>shed/tools/cli_commands/contracts.py\<close>), \<open>split_command\<close> and \<open>next_command\<close>
  (\<open>shed/tools/cli_commands/sequence.py\<close>). The code never builds a syntax tree: it keeps the
  remaining tokens and, after each command, skips to the next reached one. The reference here
  is the zsh reading of the same tokens, a list of pipelines joined by the three connectives,
  evaluated left to right; the section ends with the proof that the token-skipping loop runs
  exactly that program.
\<close>

section \<open>Tokens and the input contract\<close>

datatype token_tag = CMD | FLG | ARG | PTH | CTL

type_synonym token = "string \<times> token_tag"

datatype sequence_error =
    EmptySequence
  | IllTypedToken token
  | ControlMustFollowCommand
  | CommandMustStartWithCMD
  | SeparateWithControl
  | ControlMustPrecedeCommand

definition command_names :: "string list" where
  "command_names =
     [''cp'', ''mv'', ''pwd'', ''cat'', ''head'', ''tail'', ''wc'', ''tee'', ''touch'', ''mkdir'',
      ''grep'', ''rg'', ''ls'', ''find'', ''diff'', ''gio'', ''rm'']"

definition control_operators :: "string list" where
  "control_operators = [''&&'', ''||'', '';'', ''|'']"

definition token_typed :: "token \<Rightarrow> bool" where
  "token_typed t =
     (case snd t of
        CMD \<Rightarrow> fst t \<in> set command_names
      | CTL \<Rightarrow> fst t \<in> set control_operators
      | _ \<Rightarrow> True)"

fun sequence_loop :: "bool \<Rightarrow> token list \<Rightarrow> sequence_error + bool" where
  "sequence_loop expect_command [] = Inr expect_command"
| "sequence_loop expect_command ((value, tag) # tokens) =
     (if tag = CTL then
        (if expect_command then Inl ControlMustFollowCommand else sequence_loop True tokens)
      else if expect_command then
        (if tag \<noteq> CMD then Inl CommandMustStartWithCMD else sequence_loop False tokens)
      else if tag = CMD then Inl SeparateWithControl
      else sequence_loop expect_command tokens)"

definition validate_sequence :: "token list \<Rightarrow> sequence_error + token list" where
  "validate_sequence tokens =
     rbind (sequence_loop True tokens)
       (\<lambda>expect_command. if expect_command then Inl ControlMustPrecedeCommand else Inr tokens)"

text \<open>The whole model: the pydantic field types and length, then the field validator.\<close>

definition file_command :: "token list \<Rightarrow> sequence_error + token list" where
  "file_command tokens =
     (if tokens = [] then Inl EmptySequence
      else case find (\<lambda>t. \<not> token_typed t) tokens of
             Some t \<Rightarrow> Inl (IllTypedToken t)
           | None \<Rightarrow> validate_sequence tokens)"

section \<open>Selecting the next command\<close>

fun first_control :: "token list \<Rightarrow> nat" where
  "first_control [] = 0"
| "first_control ((value, tag) # tokens) = (if tag = CTL then 0 else Suc (first_control tokens))"

definition split_command :: "token list \<Rightarrow> token list \<times> token list" where
  "split_command tokens = (let end = first_control tokens in (take end tokens, drop end tokens))"

definition pipeline_enabled :: "string \<Rightarrow> int \<Rightarrow> bool \<Rightarrow> bool" where
  "pipeline_enabled operator returncode run_pipeline =
     (if operator = ''&&'' then returncode = 0
      else if operator = ''||'' then returncode \<noteq> 0
      else if operator = '';'' then True
      else run_pipeline)"

fun next_loop :: "int \<Rightarrow> bool \<Rightarrow> token list \<Rightarrow> token list \<times> bool" where
  "next_loop returncode run_pipeline [] = ([], False)"
| "next_loop returncode run_pipeline ((operator, tag) # tokens) =
     (if tag \<noteq> CTL then next_loop returncode run_pipeline tokens
      else
        let run_pipeline' = pipeline_enabled operator returncode run_pipeline
        in if run_pipeline' then (tokens, operator = ''|'')
           else next_loop returncode run_pipeline' tokens)"

definition next_command :: "token list \<Rightarrow> int \<Rightarrow> token list \<times> bool" where
  "next_command tokens returncode = next_loop returncode True tokens"

lemma first_control_takeWhile: "take (first_control ts) ts = takeWhile (\<lambda>t. snd t \<noteq> CTL) ts"
  by (induction ts rule: first_control.induct) auto

lemma first_control_dropWhile: "drop (first_control ts) ts = dropWhile (\<lambda>t. snd t \<noteq> CTL) ts"
  by (induction ts rule: first_control.induct) auto

lemma split_command_eq [stream_simps]:
  "split_command ts = (takeWhile (\<lambda>t. snd t \<noteq> CTL) ts, dropWhile (\<lambda>t. snd t \<noteq> CTL) ts)"
  by (simp add: split_command_def Let_def first_control_takeWhile first_control_dropWhile)

lemma length_after_control:
  "dropWhile P ts = t # ts' \<Longrightarrow> length ts' < length ts"
  by (metis Suc_le_eq length_Cons length_dropWhile_le)

lemma length_next_loop: "length (fst (next_loop rc b ts)) \<le> length ts - 1"
proof (induction ts arbitrary: b)
  case (Cons t ts)
  have "length (fst (next_loop rc b' ts)) \<le> length ts" for b'
    using Cons.IH[of b'] by linarith
  then show ?case by (cases t) (simp add: Let_def)
qed simp

lemma next_loop_shorter:
  "next_loop rc b ts = (ts', piped) \<Longrightarrow> ts' \<noteq> [] \<Longrightarrow> length ts' < length ts"
  using length_next_loop[of rc b ts] by (cases ts) auto

lemma next_command_shorter:
  "fst (next_command ts rc) \<noteq> [] \<Longrightarrow> length (fst (next_command ts rc)) < length ts"
  by (metis next_command_def next_loop_shorter prod.collapse)

section \<open>The token-stream machine\<close>

text \<open>
  One command of the stream is run by a parameter: it takes the world, the command's tokens and
  the piped bytes, and returns the world, the exit status and the captured standard output. In
  the program this is resolve, guard and execute, modelled in the theories above this one.
\<close>

type_synonym bytes = "nat list"
type_synonym 'w runner = "'w \<Rightarrow> token list \<Rightarrow> bytes option \<Rightarrow> 'w \<times> int \<times> bytes"

function run_stream :: "'w runner \<Rightarrow> 'w \<Rightarrow> token list \<Rightarrow> bytes option \<Rightarrow> 'w \<times> int" where
  "run_stream run w remaining stdin =
     (let result = run w (fst (split_command remaining)) stdin;
          returncode = fst (snd result);
          next = next_command remaining returncode
      in if fst next = [] then (fst result, returncode)
         else run_stream run (fst result) (fst next)
                (if snd next then Some (snd (snd result)) else None))"
  by pat_completeness auto
termination
  by (relation "measure (\<lambda>(run, w, remaining, stdin). length remaining)")
    (simp_all add: next_command_shorter)

declare run_stream.simps [simp del]

section \<open>The reference: pipelines and connectives\<close>

datatype connective = AndIf | OrIf | Semi

type_synonym pipeline = "token list \<times> token list list"
type_synonym program = "pipeline \<times> (connective \<times> pipeline) list"

fun connective_text :: "connective \<Rightarrow> string" where
  "connective_text AndIf = ''&&''"
| "connective_text OrIf = ''||''"
| "connective_text Semi = '';''"

definition connective_of :: "string \<Rightarrow> connective" where
  "connective_of op = (if op = ''&&'' then AndIf else if op = ''||'' then OrIf else Semi)"

fun reached :: "connective \<Rightarrow> int \<Rightarrow> bool" where
  "reached AndIf rc = (rc = 0)"
| "reached OrIf rc = (rc \<noteq> 0)"
| "reached Semi rc = True"

definition render_stages :: "token list list \<Rightarrow> token list" where
  "render_stages cs = concat (map (\<lambda>c. (''|'', CTL) # c) cs)"

definition render_pipeline :: "pipeline \<Rightarrow> token list" where
  "render_pipeline p = fst p @ render_stages (snd p)"

definition render_rest :: "(connective \<times> pipeline) list \<Rightarrow> token list" where
  "render_rest qs = concat (map (\<lambda>(k, q). (connective_text k, CTL) # render_pipeline q) qs)"

definition render :: "program \<Rightarrow> token list" where
  "render p = render_pipeline (fst p) @ render_rest (snd p)"

fun run_pipeline :: "'w runner \<Rightarrow> 'w \<Rightarrow> token list \<Rightarrow> token list list \<Rightarrow> bytes option \<Rightarrow> 'w \<times> int"
where
  "run_pipeline run w c [] stdin = (case run w c stdin of (w', rc, out) \<Rightarrow> (w', rc))"
| "run_pipeline run w c (d # ds) stdin =
     (case run w c stdin of (w', rc, out) \<Rightarrow> run_pipeline run w' d ds (Some out))"

fun run_rest :: "'w runner \<Rightarrow> 'w \<Rightarrow> int \<Rightarrow> (connective \<times> pipeline) list \<Rightarrow> 'w \<times> int" where
  "run_rest run w rc [] = (w, rc)"
| "run_rest run w rc ((k, (c, cs)) # qs) =
     (if reached k rc
      then (case run_pipeline run w c cs None of (w', rc') \<Rightarrow> run_rest run w' rc' qs)
      else run_rest run w rc qs)"

definition run_program :: "'w runner \<Rightarrow> 'w \<Rightarrow> program \<Rightarrow> 'w \<times> int" where
  "run_program run w p =
     (case run_pipeline run w (fst (fst p)) (snd (fst p)) None of
        (w', rc) \<Rightarrow> run_rest run w' rc (snd p))"

definition command_wf :: "token list \<Rightarrow> bool" where
  "command_wf c \<longleftrightarrow>
     c \<noteq> [] \<and> snd (hd c) = CMD \<and> (\<forall>t \<in> set (tl c). snd t \<noteq> CTL \<and> snd t \<noteq> CMD)"

definition pipeline_wf :: "pipeline \<Rightarrow> bool" where
  "pipeline_wf p \<longleftrightarrow> command_wf (fst p) \<and> (\<forall>c \<in> set (snd p). command_wf c)"

definition program_wf :: "program \<Rightarrow> bool" where
  "program_wf p \<longleftrightarrow> pipeline_wf (fst p) \<and> (\<forall>q \<in> set (snd p). pipeline_wf (snd q))"

function parse :: "token list \<Rightarrow> program" where
  "parse ts =
     (case split_command ts of
        (c, []) \<Rightarrow> ((c, []), [])
      | (c, (op, _) # ts') \<Rightarrow>
          (case parse ts' of
             ((d, ds), qs) \<Rightarrow>
               if op = ''|'' then ((c, d # ds), qs)
               else ((c, []), (connective_of op, (d, ds)) # qs)))"
  by pat_completeness auto
termination
  by (relation "measure length")
    (auto simp: stream_simps dest!: sym[of "_ # _"] dest: length_after_control)

declare parse.simps [simp del]

section \<open>Streams of well-formed programs\<close>

lemma command_wf_no_control: "command_wf c \<Longrightarrow> \<forall>t \<in> set c. snd t \<noteq> CTL"
  by (cases c) (auto simp: command_wf_def)

lemma connective_text_inject [simp]: "connective_of (connective_text k) = k"
  by (cases k) (auto simp: connective_of_def)

lemma connective_text_not_pipe [simp]: "connective_text k \<noteq> ''|''"
  by (cases k) auto

lemma pipeline_enabled_connective [simp]: "pipeline_enabled (connective_text k) rc b = reached k rc"
  by (cases k) (auto simp: pipeline_enabled_def)

lemma pipeline_enabled_pipe [simp]: "pipeline_enabled ''|'' rc b = b"
  by (simp add: pipeline_enabled_def)

lemma next_loop_command [simp]:
  "\<forall>t \<in> set c. snd t \<noteq> CTL \<Longrightarrow> next_loop rc b (c @ ts) = next_loop rc b ts"
  by (induction c) auto

lemma next_loop_skip_stages [simp]:
  "\<forall>c \<in> set cs. command_wf c \<Longrightarrow>
   next_loop rc False (render_stages cs @ ts) = next_loop rc False ts"
  by (induction cs) (auto simp: render_stages_def command_wf_no_control)

lemma next_loop_skip_pipeline [simp]:
  "pipeline_wf p \<Longrightarrow> next_loop rc False (render_pipeline p @ ts) = next_loop rc False ts"
  by (auto simp: render_pipeline_def pipeline_wf_def command_wf_no_control)

lemma render_rest_simps [simp]:
  "render_rest [] = []"
  "render_rest ((k, q) # qs) = (connective_text k, CTL) # render_pipeline q @ render_rest qs"
  by (auto simp: render_rest_def)

text \<open>Which pipeline the skipping loop lands on, read off the program.\<close>

fun select_rest :: "int \<Rightarrow> (connective \<times> pipeline) list \<Rightarrow> token list \<times> bool" where
  "select_rest rc [] = ([], False)"
| "select_rest rc ((k, q) # qs) =
     (if reached k rc then (render_pipeline q @ render_rest qs, False) else select_rest rc qs)"

lemma next_loop_rest_False:
  "\<forall>q \<in> set qs. pipeline_wf (snd q) \<Longrightarrow> next_loop rc False (render_rest qs) = select_rest rc qs"
  by (induction rc qs rule: select_rest.induct) (auto simp: Let_def)

lemma next_loop_rest [simp]:
  "\<forall>q \<in> set qs. pipeline_wf (snd q) \<Longrightarrow> next_loop rc b (render_rest qs) = select_rest rc qs"
  by (cases qs) (auto simp: Let_def next_loop_rest_False)

lemma split_command_rendered [simp]:
  assumes "command_wf c" and "ts = [] \<or> snd (hd ts) = CTL"
  shows "split_command (c @ ts) = (c, ts)"
  using assms command_wf_no_control[of c]
  by (cases ts) (auto simp: stream_simps takeWhile_append dropWhile_append)

lemma hd_render_rest: "render_rest qs = [] \<or> snd (hd (render_rest qs)) = CTL"
  by (cases qs) auto

lemma render_stages_simps [simp]:
  "render_stages [] = []"
  "render_stages (c # cs) = (''|'', CTL) # c @ render_stages cs"
  by (auto simp: render_stages_def)

lemma hd_render_stages:
  "render_stages cs @ render_rest qs = [] \<or> snd (hd (render_stages cs @ render_rest qs)) = CTL"
  using hd_render_rest[of qs] by (cases cs) auto

lemma render_pipeline_not_Nil [simp]: "pipeline_wf q \<Longrightarrow> render_pipeline q \<noteq> []"
  by (auto simp: pipeline_wf_def command_wf_def render_pipeline_def)

section \<open>The stream machine runs the program\<close>

lemma run_stream_rest:
  assumes rest: "\<And>w' rc'. run_pipeline run w c cs stdin = (w', rc') \<Longrightarrow>
      (if fst (select_rest rc' qs) = [] then (w', rc')
       else run_stream run w' (fst (select_rest rc' qs)) None) = run_rest run w' rc' qs"
    and wf: "command_wf c" "\<forall>d \<in> set cs. command_wf d" "\<forall>q \<in> set qs. pipeline_wf (snd q)"
  shows "run_stream run w (c @ render_stages cs @ render_rest qs) stdin =
         (case run_pipeline run w c cs stdin of (w', rc) \<Rightarrow> run_rest run w' rc qs)"
  using assms
proof (induction cs arbitrary: w c stdin)
  case Nil
  obtain w' rc out where r: "run w c stdin = (w', rc, out)"
    by (cases "run w c stdin") auto
  have "snd (select_rest rc qs) = False"
    by (induction rc qs rule: select_rest.induct) auto
  with Nil r hd_render_rest[of qs] command_wf_no_control[OF Nil.prems(2)] show ?case
    by (subst run_stream.simps) (simp add: next_command_def Let_def split: if_splits)
next
  case (Cons d ds)
  obtain w' rc out where r: "run w c stdin = (w', rc, out)"
    by (cases "run w c stdin") auto
  have "run_stream run w (c @ render_stages (d # ds) @ render_rest qs) stdin =
        run_stream run w' (d @ render_stages ds @ render_rest qs) (Some out)"
    using r Cons.prems command_wf_no_control[OF Cons.prems(2)]
    by (subst run_stream.simps) (auto simp: next_command_def Let_def command_wf_def)
  also have "\<dots> = (case run_pipeline run w' d ds (Some out) of (w', rc) \<Rightarrow> run_rest run w' rc qs)"
    using Cons.IH[of w' d "Some out"] Cons.prems r by simp
  finally show ?case using r by simp
qed

lemma run_stream_select:
  "\<forall>q \<in> set qs. pipeline_wf (snd q) \<Longrightarrow>
   (if fst (select_rest rc qs) = [] then (w, rc)
    else run_stream run w (fst (select_rest rc qs)) None) = run_rest run w rc qs"
proof (induction qs arbitrary: w rc)
  case (Cons kq qs)
  obtain k c cs where kq: "kq = (k, (c, cs))" by (metis prod.collapse)
  with Cons.prems have wf: "command_wf c" "\<forall>d \<in> set cs. command_wf d" "pipeline_wf (c, cs)"
    and qs: "\<forall>q \<in> set qs. pipeline_wf (snd q)"
    by (auto simp: pipeline_wf_def)
  show ?case
  proof (cases "reached k rc")
    case True
    have "run_stream run w (c @ render_stages cs @ render_rest qs) None =
          (case run_pipeline run w c cs None of (w', rc) \<Rightarrow> run_rest run w' rc qs)"
      by (rule run_stream_rest) (use wf qs Cons.IH in \<open>auto split: if_splits\<close>)
    with True kq wf show ?thesis by (simp add: render_pipeline_def command_wf_def)
  next
    case False
    with kq Cons.IH[OF qs, of rc w] show ?thesis by (simp split: if_splits)
  qed
qed simp

lemma run_stream_render:
  assumes "program_wf p"
  shows "run_stream run w (render p) None = run_program run w p"
proof -
  obtain c cs qs where p: "p = ((c, cs), qs)" by (metis prod.collapse)
  with assms have wf: "command_wf c" "\<forall>d \<in> set cs. command_wf d"
    and qs: "\<forall>q \<in> set qs. pipeline_wf (snd q)"
    by (auto simp: program_wf_def pipeline_wf_def)
  have "run_stream run w (c @ render_stages cs @ render_rest qs) None =
        (case run_pipeline run w c cs None of (w', rc) \<Rightarrow> run_rest run w' rc qs)"
    by (rule run_stream_rest[OF _ wf qs]) (rule run_stream_select[OF qs])
  with p show ?thesis by (simp add: render_def render_pipeline_def run_program_def)
qed

section \<open>Every accepted stream is a program\<close>

lemma sequence_loop_False_split:
  "sequence_loop False ts = Inr b \<Longrightarrow>
   (\<forall>t \<in> set (takeWhile (\<lambda>t. snd t \<noteq> CTL) ts). snd t \<noteq> CTL \<and> snd t \<noteq> CMD) \<and>
   (case dropWhile (\<lambda>t. snd t \<noteq> CTL) ts of
      [] \<Rightarrow> \<not> b
    | t # ts' \<Rightarrow> snd t = CTL \<and> sequence_loop True ts' = Inr b)"
proof (induction ts)
  case (Cons t ts)
  obtain v tag where t: "t = (v, tag)" by (cases t)
  show ?case
  proof (cases "tag = CTL")
    case True
    with Cons.prems t show ?thesis by simp
  next
    case False
    with Cons t show ?thesis
      by (simp del: dropWhile_eq_Nil_conv split: if_splits)
  qed
qed simp

lemma sequence_loop_True_split:
  assumes "sequence_loop True ts = Inr False"
  obtains "split_command ts = (ts, [])" "command_wf ts"
  | c op ts' where "split_command ts = (c, (op, CTL) # ts')" "command_wf c"
      "sequence_loop True ts' = Inr False" "ts = c @ (op, CTL) # ts'"
proof (cases ts)
  case Nil
  with assms show ?thesis by simp
next
  case (Cons t us)
  with assms have hd: "snd t = CMD" and us: "sequence_loop False us = Inr False"
    by (cases t; auto split: if_splits)+
  note sp = sequence_loop_False_split[OF us]
  show ?thesis
  proof (cases "dropWhile (\<lambda>t. snd t \<noteq> CTL) us")
    case Nil
    then have "takeWhile (\<lambda>t. snd t \<noteq> CTL) us = us"
      by (simp add: dropWhile_eq_Nil_conv takeWhile_eq_all_conv)
    with Nil sp hd Cons show ?thesis
      by (intro that(1)) (auto simp: stream_simps command_wf_def)
  next
    case dw: (Cons s vs)
    then obtain op where s: "s = (op, CTL)"
      using sp by (cases s) auto
    have "us = takeWhile (\<lambda>t. snd t \<noteq> CTL) us @ (op, CTL) # vs"
      using dw s by (metis takeWhile_dropWhile_id)
    with dw s sp hd Cons show ?thesis
      by (intro that(2)[of "t # takeWhile (\<lambda>t. snd t \<noteq> CTL) us" op vs])
        (auto simp: stream_simps command_wf_def)
  qed
qed

lemma connective_text_of: "op \<in> set control_operators \<Longrightarrow> op \<noteq> ''|'' \<Longrightarrow> connective_text (connective_of op) = op"
  by (auto simp: control_operators_def connective_of_def)

lemma parse_accepted:
  "sequence_loop True ts = Inr False \<Longrightarrow> \<forall>t \<in> set ts. token_typed t \<Longrightarrow>
   program_wf (parse ts) \<and> render (parse ts) = ts"
proof (induction ts rule: parse.induct)
  case (1 ts)
  from 1(2) show ?case
  proof (cases rule: sequence_loop_True_split)
    case 1
    then show ?thesis
      by (subst (1 2) parse.simps)
        (simp add: program_wf_def pipeline_wf_def render_def render_pipeline_def)
  next
    case (2 c op ts')
    obtain d ds qs where p: "parse ts' = ((d, ds), qs)" by (metis prod.collapse)
    have "program_wf (parse ts') \<and> render (parse ts') = ts'"
      by (rule "1.IH") (use 2 "1.prems"(2) in auto)
    moreover have "op \<in> set control_operators"
      using 2(4) "1.prems"(2) by (auto simp: token_typed_def)
    ultimately show ?thesis
      using 2(1,2,4) p
      by (subst (1 2) parse.simps)
        (auto simp: program_wf_def pipeline_wf_def render_def render_pipeline_def connective_text_of)
  qed
qed

lemma file_command_accepts:
  "file_command ts = Inr us \<Longrightarrow>
   us = ts \<and> sequence_loop True ts = Inr False \<and> (\<forall>t \<in> set ts. token_typed t)"
  by (auto simp: file_command_def validate_sequence_def result_simps find_None_iff
      split: if_splits option.splits)

section \<open>Properties\<close>

text \<open>
  C1. The guarded CLI runs exactly what zsh would: for every token stream the input model
  accepts, and whatever each single command does to the world, the loop that splits off a
  command, runs it and skips forward with \<open>next_command\<close> ends in the same world with the same
  exit status as evaluating the stream's pipelines and connectives from left to right, with the
  stages of a pipeline connected by their captured output and the status of a pipeline being
  its last stage's.
\<close>

theorem stream_execution_is_program:
  assumes "file_command tokens = Inr accepted"
  shows "run_stream run world accepted None = run_program run world (parse accepted)"
proof -
  from file_command_accepts[OF assms] parse_accepted
  have "program_wf (parse accepted)" and "render (parse accepted) = accepted" by auto
  then show ?thesis using run_stream_render by metis
qed

text \<open>A log of the commands that were reached: each command \<open>cat\<close> fails, the others succeed.\<close>

definition logging_runner :: "string list runner" where
  "logging_runner log c stdin =
     (log @ [fst (hd c)], if fst (hd c) = ''cat'' then 1 else 0, [])"

definition fallback_stream :: "token list" where
  "fallback_stream =
     [(''cat'', CMD), (''primary.txt'', PTH), (''||'', CTL), (''ls'', CMD), (''|'', CTL),
      (''head'', CMD), (''&&'', CTL), (''cat'', CMD), (''&&'', CTL), (''wc'', CMD), ('';'', CTL),
      (''pwd'', CMD)]"

theorem stream_execution_is_program_witness:
  "file_command fallback_stream = Inr fallback_stream \<and>
   run_program logging_runner [] (parse fallback_stream) =
     ([''cat'', ''ls'', ''head'', ''cat'', ''pwd''], 0)"
proof -
  have ok: "file_command fallback_stream = Inr fallback_stream" by code_simp
  have "run_stream logging_runner [] fallback_stream None =
        ([''cat'', ''ls'', ''head'', ''cat'', ''pwd''], 0)"
    by code_simp
  with ok stream_execution_is_program[OF ok, of logging_runner "[]"] show ?thesis by simp
qed

text \<open>
  C2. Reading an accepted token stream as pipelines and connectives loses nothing: the program
  read off it is well formed (every command starts with its only CMD token, every operator
  joins two commands) and printing it gives the stream back, token for token.
\<close>

theorem accepted_stream_roundtrip:
  assumes "file_command tokens = Inr accepted"
  shows "program_wf (parse accepted) \<and> render (parse accepted) = tokens"
  using file_command_accepts[OF assms] parse_accepted by auto

theorem accepted_stream_roundtrip_witness:
  "program_wf (parse fallback_stream) \<and> render (parse fallback_stream) = fallback_stream"
proof -
  have "file_command fallback_stream = Inr fallback_stream" by code_simp
  from accepted_stream_roundtrip[OF this] show ?thesis .
qed

end
