(* ===== verification/Roboz_Tokens.thy ===== *)
theory Roboz_Tokens
  imports Roboz_Control
begin

text \<open>
  Argument validation of the file CLI: \<open>TokenRule\<close>, \<open>ParsedCommand\<close> and \<open>CommandSpec\<close>
  (\<open>shed/tools/cli_commands/contracts.py\<close>) and the parser of \<open>tokens.py\<close>. A regular
  expression applied with \<open>fullmatch\<close> is modelled as the predicate it denotes. Exceptions
  carry the reason and the values a message would name; their English text is not modelled.
\<close>

section \<open>Errors of command preparation\<close>

datatype os_error = ENOENT | ENOTDIR | ELOOP

datatype cli_error =
    UnsupportedToken token string
  | OptionAfterTerminator
  | FlagAfterOperand
  | RepeatedOption string
  | MissingOptionValue string token_tag
  | FirstTokenMustBe string
  | ConflictingOptions string string
  | UnsupportedCommand string
  | InvalidArguments string
  | SymlinkUnsupported "string list"
  | HardLinkUnsupported "string list"
  | WrongFileType "string list"
  | MissingPath "string list"
  | TransferConflict "string list" "string list"
  | TrailingSlash string
  | BadPattern string
  | NoMatches string
  | PreparationTimeout
  | OutOfFuel
  | OSError os_error

section \<open>Rules and specifications\<close>

record token_rule =
  rule_tag :: token_tag
  rule_pattern :: "string \<Rightarrow> bool"
  rule_option :: "string option"
  rule_takes :: "token_tag option"
  rule_ends_options :: bool

record parsed_command =
  pc_tokens :: "token list"
  pc_operands :: "nat list"
  pc_options :: "(string \<times> nat) list"

record command_syntax =
  cs_name :: string
  cs_allowed :: "token_rule list"
  cs_forbidden_pairs :: "(string \<times> string) list"

definition argv :: "parsed_command \<Rightarrow> string list" where
  "argv parsed = map fst (pc_tokens parsed)"

definition has_option :: "parsed_command \<Rightarrow> string \<Rightarrow> bool" where
  "has_option parsed option \<longleftrightarrow> option \<in> set (map fst (pc_options parsed))"

abbreviation operand_rule :: "token_tag \<Rightarrow> (string \<Rightarrow> bool) \<Rightarrow> token_rule" where
  "operand_rule tag pattern \<equiv>
     \<lparr>rule_tag = tag, rule_pattern = pattern, rule_option = None, rule_takes = None,
      rule_ends_options = False\<rparr>"

abbreviation flag_rule :: "string list \<Rightarrow> string \<Rightarrow> token_rule" where
  "flag_rule spellings option \<equiv>
     \<lparr>rule_tag = FLG, rule_pattern = (\<lambda>v. v \<in> set spellings), rule_option = Some option,
      rule_takes = None, rule_ends_options = False\<rparr>"

abbreviation value_rule :: "string list \<Rightarrow> string \<Rightarrow> token_tag \<Rightarrow> token_rule" where
  "value_rule spellings option takes \<equiv>
     \<lparr>rule_tag = FLG, rule_pattern = (\<lambda>v. v \<in> set spellings), rule_option = Some option,
      rule_takes = Some takes, rule_ends_options = False\<rparr>"

definition END_OPTIONS :: token_rule where
  "END_OPTIONS =
     \<lparr>rule_tag = FLG, rule_pattern = (\<lambda>v. v = ''--''), rule_option = Some ''--'',
      rule_takes = None, rule_ends_options = True\<rparr>"

definition path_text :: "string \<Rightarrow> bool" where
  "path_text v \<longleftrightarrow> v \<noteq> [] \<and> (\<forall>c \<in> set v. c \<notin> set ''?[]'' \<and> of_char c \<noteq> (0 :: nat))"

definition PATH_TOKEN :: token_rule where
  "PATH_TOKEN = operand_rule PTH path_text"

definition unsigned_decimal :: "string \<Rightarrow> bool" where
  "unsigned_decimal v \<longleftrightarrow> v \<noteq> [] \<and> (\<forall>c \<in> set v. is_digit c)"

definition no_nul :: "string \<Rightarrow> bool" where
  "no_nul v \<longleftrightarrow> (\<forall>c \<in> set v. of_char c \<noteq> (0 :: nat))"

section \<open>The parser\<close>

definition matching_rule :: "token \<Rightarrow> command_syntax \<Rightarrow> cli_error + token_rule" where
  "matching_rule token spec =
     (case find (\<lambda>rule. snd token = rule_tag rule \<and> rule_pattern rule (fst token))
             (cs_allowed spec) of
        Some rule \<Rightarrow> Inr rule
      | None \<Rightarrow> Inl (UnsupportedToken token (cs_name spec)))"

fun argument_loop ::
  "command_syntax \<Rightarrow> (nat \<times> token) list \<Rightarrow> nat list \<Rightarrow> (string \<times> nat) list \<Rightarrow> bool
     \<Rightarrow> cli_error + nat list \<times> (string \<times> nat) list" where
  "argument_loop spec [] operands options options_ended = Inr (operands, options)"
| "argument_loop spec ((index, token) # arguments) operands options options_ended =
     rbind (matching_rule token spec) (\<lambda>rule.
       case rule_option rule of
         None \<Rightarrow> argument_loop spec arguments (operands @ [index]) options options_ended
       | Some option \<Rightarrow>
           if options_ended then Inl OptionAfterTerminator
           else if operands \<noteq> [] then Inl FlagAfterOperand
           else if option \<in> set (map fst options) then Inl (RepeatedOption option)
           else
             let options' = options @ [(option, index)]; ended = rule_ends_options rule
             in case rule_takes rule of
                  None \<Rightarrow> argument_loop spec arguments operands options' ended
                | Some tag \<Rightarrow>
                    (case arguments of
                       [] \<Rightarrow> Inl (MissingOptionValue (fst token) tag)
                     | (_, following) # arguments' \<Rightarrow>
                         if snd following \<noteq> tag then Inl (MissingOptionValue (fst token) tag)
                         else rbind (matching_rule following spec)
                                (\<lambda>_. argument_loop spec arguments' operands options' ended)))"

definition parse_arguments :: "token list \<Rightarrow> command_syntax \<Rightarrow> cli_error + parsed_command" where
  "parse_arguments tokens spec =
     rbind (argument_loop spec (enumerate 1 (tl tokens)) [] [] False)
       (\<lambda>(operands, options).
          Inr \<lparr>pc_tokens = tokens, pc_operands = operands, pc_options = options\<rparr>)"

fun check_pairs :: "parsed_command \<Rightarrow> (string \<times> string) list \<Rightarrow> cli_error + unit" where
  "check_pairs parsed [] = Inr ()"
| "check_pairs parsed ((left, right) # pairs) =
     (if has_option parsed left \<and> has_option parsed right then Inl (ConflictingOptions left right)
      else check_pairs parsed pairs)"

definition validate_tokens :: "token list \<Rightarrow> command_syntax \<Rightarrow> cli_error + parsed_command" where
  "validate_tokens tokens spec =
     (if tokens = [] \<or> hd tokens \<noteq> (cs_name spec, CMD) then Inl (FirstTokenMustBe (cs_name spec))
      else rbind (parse_arguments tokens spec)
             (\<lambda>parsed. rbind (check_pairs parsed (cs_forbidden_pairs spec)) (\<lambda>_. Inr parsed)))"

section \<open>What a validated command satisfies\<close>

lemma matching_rule_InrD:
  "matching_rule token spec = Inr rule \<Longrightarrow>
   rule \<in> set (cs_allowed spec) \<and> rule_tag rule = snd token \<and> rule_pattern rule (fst token)"
  by (auto simp: matching_rule_def find_Some_iff split: option.splits)

lemma check_pairs_Inr [result_simps]:
  "check_pairs parsed pairs = Inr u \<longleftrightarrow>
   (\<forall>(left, right) \<in> set pairs. \<not> (has_option parsed left \<and> has_option parsed right))"
  by (induction parsed pairs rule: check_pairs.induct) auto

text \<open>
  The loop invariant. A position is covered when it is an operand, an option, or the value of
  an option that takes one; operands come after options, and an operand, an option and an
  option value each match the rule that put them there.
\<close>

definition operand_at :: "command_syntax \<Rightarrow> token list \<Rightarrow> nat \<Rightarrow> bool" where
  "operand_at spec tokens i \<longleftrightarrow>
     (\<exists>rule. matching_rule (tokens ! i) spec = Inr rule \<and> rule_option rule = None)"

definition option_at :: "command_syntax \<Rightarrow> token list \<Rightarrow> string \<Rightarrow> nat \<Rightarrow> bool" where
  "option_at spec tokens option i \<longleftrightarrow>
     (\<exists>rule. matching_rule (tokens ! i) spec = Inr rule \<and> rule_option rule = Some option \<and>
        (\<forall>tag. rule_takes rule = Some tag \<longrightarrow>
           Suc i < length tokens \<and> snd (tokens ! Suc i) = tag \<and>
           (\<exists>rule'. matching_rule (tokens ! Suc i) spec = Inr rule')))"

definition option_value :: "command_syntax \<Rightarrow> token list \<Rightarrow> (string \<times> nat) list \<Rightarrow> nat \<Rightarrow> bool" where
  "option_value spec tokens options j \<longleftrightarrow>
     (\<exists>option i rule. (option, i) \<in> set options \<and> j = Suc i \<and>
        matching_rule (tokens ! i) spec = Inr rule \<and> rule_takes rule \<noteq> None)"

definition arguments_wf ::
  "command_syntax \<Rightarrow> token list \<Rightarrow> nat \<Rightarrow> nat list \<Rightarrow> (string \<times> nat) list \<Rightarrow> bool" where
  "arguments_wf spec tokens n operands options \<longleftrightarrow>
     sorted_wrt (<) operands \<and> distinct (map fst options) \<and>
     (\<forall>i \<in> set operands. 0 < i \<and> i < n \<and> i < length tokens \<and> operand_at spec tokens i) \<and>
     (\<forall>(option, i) \<in> set options.
        0 < i \<and> i < n \<and> i < length tokens \<and> option_at spec tokens option i \<and>
        (\<forall>j \<in> set operands. i < j)) \<and>
     (\<forall>i. 0 < i \<and> i < n \<longrightarrow>
        i \<in> set operands \<or> i \<in> snd ` set options \<or> option_value spec tokens options i)"

lemma option_value_mono:
  "option_value spec tokens options j \<Longrightarrow> option_value spec tokens (options @ added) j"
  by (auto simp: option_value_def)

lemma arguments_wf_operand:
  assumes "arguments_wf spec tokens n operands options" and "0 < n" "n < length tokens"
    and "operand_at spec tokens n"
  shows "arguments_wf spec tokens (Suc n) (operands @ [n]) options"
  using assms unfolding arguments_wf_def
  by (auto simp: sorted_wrt_append less_Suc_eq split: prod.splits)

lemma arguments_wf_option:
  assumes "arguments_wf spec tokens n [] options" and "0 < n" "n < length tokens"
    and "option_at spec tokens option n" "option \<notin> set (map fst options)"
  shows "arguments_wf spec tokens (Suc n) [] (options @ [(option, n)])"
  using assms unfolding arguments_wf_def
  by (auto simp: less_Suc_eq intro: option_value_mono split: prod.splits)

lemma arguments_wf_value:
  assumes "arguments_wf spec tokens (Suc n) [] (options @ [(option, n)])"
    and "matching_rule (tokens ! n) spec = Inr rule" "rule_takes rule = Some tag"
  shows "arguments_wf spec tokens (Suc (Suc n)) [] (options @ [(option, n)])"
proof -
  have "option_value spec tokens (options @ [(option, n)]) (Suc n)"
    using assms(2,3) by (auto simp: option_value_def)
  with assms(1) show ?thesis
    unfolding arguments_wf_def by (auto simp: less_Suc_eq split: prod.splits)
qed

lemma enumerate_drop:
  "n < length ts \<Longrightarrow> enumerate n (drop n ts) = (n, ts ! n) # enumerate (Suc n) (drop (Suc n) ts)"
  by (simp add: Cons_nth_drop_Suc[symmetric] del: drop_Suc)

lemma argument_loop_wf:
  assumes "argument_loop spec (enumerate n (drop n tokens)) operands options ended = Inr (operands', options')"
    and "arguments_wf spec tokens n operands options" and "0 < n" "n \<le> length tokens"
  shows "arguments_wf spec tokens (length tokens) operands' options'"
  using assms
proof (induction "length tokens - n" arbitrary: n operands options ended rule: less_induct)
  case less
  show ?case
  proof (cases "n = length tokens")
    case True
    with less.prems show ?thesis by simp
  next
    case False
    with less.prems(4) have n: "n < length tokens" by simp
    obtain rule where rule: "matching_rule (tokens ! n) spec = Inr rule"
      using less.prems(1) by (auto simp: enumerate_drop[OF n] result_simps)
    show ?thesis
    proof (cases "rule_option rule")
      case None
      then have "operand_at spec tokens n" using rule by (auto simp: operand_at_def)
      with less.prems n have "arguments_wf spec tokens (Suc n) (operands @ [n]) options"
        by (intro arguments_wf_operand) auto
      moreover have "argument_loop spec (enumerate (Suc n) (drop (Suc n) tokens)) (operands @ [n])
          options ended = Inr (operands', options')"
        using less.prems(1) rule None by (simp add: enumerate_drop[OF n])
      ultimately show ?thesis using n less.hyps by (metis Suc_leI diff_less_mono2 lessI zero_less_Suc)
    next
      case (Some option)
      note step = less.prems(1)[unfolded enumerate_drop[OF n], simplified, unfolded rule, simplified,
          unfolded Some, simplified]
      from step have ops: "operands = []" and new: "option \<notin> set (map fst options)"
        by (auto split: if_splits)
      show ?thesis
      proof (cases "rule_takes rule")
        case None
        then have "option_at spec tokens option n"
          using rule Some by (auto simp: option_at_def)
        with less.prems n ops new
        have "arguments_wf spec tokens (Suc n) [] (options @ [(option, n)])"
          by (intro arguments_wf_option) auto
        moreover have "argument_loop spec (enumerate (Suc n) (drop (Suc n) tokens)) []
            (options @ [(option, n)]) (rule_ends_options rule) = Inr (operands', options')"
          using step None ops new by (auto simp: Let_def split: if_splits)
        ultimately show ?thesis using n less.hyps
          by (metis Suc_leI diff_less_mono2 lessI zero_less_Suc)
      next
        case takes: (Some tag)
        have m: "Suc n < length tokens"
        proof (rule ccontr)
          assume "\<not> Suc n < length tokens"
          then have "drop (Suc n) tokens = []" by simp
          with step takes ops new show False by (auto simp: Let_def split: if_splits)
        qed
        obtain rule' where rule': "matching_rule (tokens ! Suc n) spec = Inr rule'"
          and tag: "snd (tokens ! Suc n) = tag"
          and rec: "argument_loop spec (enumerate (Suc (Suc n)) (drop (Suc (Suc n)) tokens)) []
            (options @ [(option, n)]) (rule_ends_options rule) = Inr (operands', options')"
          using step takes ops new
          by (auto simp: Let_def enumerate_drop[OF m] result_simps split: if_splits)
        have "option_at spec tokens option n"
          using rule Some takes m tag rule' by (auto simp: option_at_def)
        with less.prems n ops new
        have "arguments_wf spec tokens (Suc n) [] (options @ [(option, n)])"
          by (intro arguments_wf_option) auto
        from arguments_wf_value[OF this rule takes]
        have "arguments_wf spec tokens (Suc (Suc n)) [] (options @ [(option, n)])" .
        with rec m less.hyps show ?thesis
          by (metis Suc_leI Suc_lessD diff_less_mono2 less_SucI lessI zero_less_Suc)
      qed
    qed
  qed
qed

lemma arguments_wf_start: "arguments_wf spec tokens (Suc 0) [] []"
  by (auto simp: arguments_wf_def)

lemma validate_tokens_InrD:
  assumes "validate_tokens tokens spec = Inr parsed"
  shows "pc_tokens parsed = tokens" and "tokens \<noteq> []" and "hd tokens = (cs_name spec, CMD)"
    and "arguments_wf spec tokens (length tokens) (pc_operands parsed) (pc_options parsed)"
    and "\<forall>(left, right) \<in> set (cs_forbidden_pairs spec).
           \<not> (has_option parsed left \<and> has_option parsed right)"
proof -
  from assms have ne: "tokens \<noteq> []" "hd tokens = (cs_name spec, CMD)"
    and parse: "parse_arguments tokens spec = Inr parsed"
    and pairs: "check_pairs parsed (cs_forbidden_pairs spec) = Inr ()"
    by (auto simp: validate_tokens_def result_simps split: if_splits)
  then obtain operands options where
    loop: "argument_loop spec (enumerate (Suc 0) (drop (Suc 0) tokens)) [] [] False = Inr (operands, options)"
    and parsed: "parsed = \<lparr>pc_tokens = tokens, pc_operands = operands, pc_options = options\<rparr>"
    by (auto simp: parse_arguments_def result_simps drop_Suc)
  have "arguments_wf spec tokens (length tokens) operands options"
    by (rule argument_loop_wf[OF loop arguments_wf_start]) (use ne in \<open>auto simp: Suc_le_eq\<close>)
  then show "arguments_wf spec tokens (length tokens) (pc_operands parsed) (pc_options parsed)"
    by (simp add: parsed)
  from pairs show "\<forall>(left, right) \<in> set (cs_forbidden_pairs spec).
      \<not> (has_option parsed left \<and> has_option parsed right)"
    by (simp add: result_simps)
  show "pc_tokens parsed = tokens" by (simp add: parsed)
qed (use assms in \<open>auto simp: validate_tokens_def split: if_splits\<close>)

end
