(* ===== verification/Roboz_Syntax.thy ===== *)
theory Roboz_Syntax
  imports Roboz_Tokens
begin

text \<open>
  The token policy of each of the seventeen file commands (\<open>commands/*.py\<close>), in the order of
  the rules in the source: the validator takes the first rule whose tag and pattern match.
  The preparation functions that go with them are in the theory of the commands.
\<close>

section \<open>Shared rule groups\<close>

definition READ_TOKENS :: "token_rule list" where
  "READ_TOKENS = [END_OPTIONS, PATH_TOKEN, operand_rule ARG (\<lambda>v. v = ''-'')]"

definition TRANSFER_TOKENS :: "token_rule list" where
  "TRANSFER_TOKENS =
     [value_rule [''-t'', ''--target-directory''] ''-t'' PTH,
      flag_rule [''-T'', ''--no-target-directory''] ''-T'',
      flag_rule [''-v'', ''--verbose''] ''-v'',
      flag_rule [''-f'', ''--force''] ''-f'',
      flag_rule [''--strip-trailing-slashes''] ''--strip-trailing-slashes'',
      END_OPTIONS,
      PATH_TOKEN]"

definition SEARCH_TOKENS :: "token_rule list" where
  "SEARCH_TOKENS =
     [END_OPTIONS,
      PATH_TOKEN,
      operand_rule ARG no_nul,
      flag_rule [''-n'', ''--line-number''] ''-n'',
      flag_rule [''-i'', ''--ignore-case''] ''-i'',
      flag_rule [''-v'', ''--invert-match''] ''-v'',
      flag_rule [''-F'', ''--fixed-strings''] ''-F'',
      flag_rule [''-w'', ''--word-regexp''] ''-w'',
      flag_rule [''-x'', ''--line-regexp''] ''-x'',
      flag_rule [''-c'', ''--count''] ''-c'',
      flag_rule [''-l'', ''--files-with-matches''] ''-l'',
      flag_rule [''-q'', ''--quiet''] ''-q'',
      flag_rule [''-o'', ''--only-matching''] ''-o'',
      flag_rule [''-H'', ''--with-filename''] ''-H'',
      value_rule [''-m'', ''--max-count''] ''-m'' ARG,
      value_rule [''-A'', ''--after-context''] ''-A'' ARG,
      value_rule [''-B'', ''--before-context''] ''-B'' ARG,
      value_rule [''-C'', ''--context''] ''-C'' ARG]"

section \<open>Transfers\<close>

definition CP :: command_syntax where
  "CP = \<lparr>cs_name = ''cp'',
         cs_allowed = TRANSFER_TOKENS @ [flag_rule [''-r'', ''-R'', ''--recursive''] ''-R''],
         cs_forbidden_pairs = [(''-t'', ''-T'')]\<rparr>"

definition MV :: command_syntax where
  "MV = \<lparr>cs_name = ''mv'', cs_allowed = TRANSFER_TOKENS,
         cs_forbidden_pairs = [(''-t'', ''-T'')]\<rparr>"

section \<open>Readers\<close>

definition PWD :: command_syntax where
  "PWD = \<lparr>cs_name = ''pwd'',
          cs_allowed = [END_OPTIONS, flag_rule [''-P'', ''--physical''] ''-P''],
          cs_forbidden_pairs = []\<rparr>"

definition CAT :: command_syntax where
  "CAT = \<lparr>cs_name = ''cat'',
          cs_allowed = READ_TOKENS @
            [flag_rule [''-n'', ''--number''] ''-n'',
             flag_rule [''-b'', ''--number-nonblank''] ''-b'',
             flag_rule [''-s'', ''--squeeze-blank''] ''-s'',
             flag_rule [''-E'', ''--show-ends''] ''-E'',
             flag_rule [''-T'', ''--show-tabs''] ''-T''],
          cs_forbidden_pairs = []\<rparr>"

definition HEAD :: command_syntax where
  "HEAD = \<lparr>cs_name = ''head'',
           cs_allowed = READ_TOKENS @
             [operand_rule ARG unsigned_decimal,
              value_rule [''-n'', ''--lines''] ''-n'' ARG,
              value_rule [''-c'', ''--bytes''] ''-c'' ARG,
              flag_rule [''-q'', ''--quiet'', ''--silent''] ''-q'',
              flag_rule [''-v'', ''--verbose''] ''-v''],
           cs_forbidden_pairs = [(''-n'', ''-c''), (''-q'', ''-v'')]\<rparr>"

definition TAIL :: command_syntax where
  "TAIL = \<lparr>cs_name = ''tail'',
           cs_allowed = READ_TOKENS @
             [operand_rule ARG unsigned_decimal,
              value_rule [''-n'', ''--lines''] ''-n'' ARG,
              value_rule [''-c'', ''--bytes''] ''-c'' ARG,
              flag_rule [''-q'', ''--quiet'', ''--silent''] ''-q'',
              flag_rule [''-v'', ''--verbose''] ''-v''],
           cs_forbidden_pairs = [(''-n'', ''-c''), (''-q'', ''-v'')]\<rparr>"

definition WC :: command_syntax where
  "WC = \<lparr>cs_name = ''wc'',
         cs_allowed = READ_TOKENS @
           [flag_rule [''-l'', ''--lines''] ''-l'',
            flag_rule [''-w'', ''--words''] ''-w'',
            flag_rule [''-c'', ''--bytes''] ''-c'',
            flag_rule [''-m'', ''--chars''] ''-m'',
            flag_rule [''-L'', ''--max-line-length''] ''-L''],
         cs_forbidden_pairs = []\<rparr>"

definition DIFF :: command_syntax where
  "DIFF = \<lparr>cs_name = ''diff'',
           cs_allowed =
             [END_OPTIONS, PATH_TOKEN,
              flag_rule [''-u'', ''--unified''] ''-u'',
              flag_rule [''-q'', ''--brief''] ''-q'',
              flag_rule [''-s'', ''--report-identical-files''] ''-s'',
              flag_rule [''-i'', ''--ignore-case''] ''-i'',
              flag_rule [''-w'', ''--ignore-all-space''] ''-w''],
           cs_forbidden_pairs = []\<rparr>"

section \<open>Writers\<close>

definition TEE :: command_syntax where
  "TEE = \<lparr>cs_name = ''tee'',
          cs_allowed =
            [END_OPTIONS, PATH_TOKEN, operand_rule ARG (\<lambda>v. True),
             flag_rule [''-a'', ''--append''] ''-a''],
          cs_forbidden_pairs = []\<rparr>"

definition TOUCH :: command_syntax where
  "TOUCH = \<lparr>cs_name = ''touch'',
            cs_allowed =
              [END_OPTIONS, PATH_TOKEN, operand_rule ARG no_nul,
               flag_rule [''-a''] ''-a'',
               flag_rule [''-m''] ''-m'',
               flag_rule [''-c'', ''--no-create''] ''-c'',
               value_rule [''-d'', ''--date''] ''-d'' ARG,
               value_rule [''-t''] ''-t'' ARG,
               value_rule [''-r'', ''--reference''] ''-r'' PTH],
            cs_forbidden_pairs = [(''-t'', ''-d''), (''-t'', ''-r'')]\<rparr>"

definition MKDIR :: command_syntax where
  "MKDIR = \<lparr>cs_name = ''mkdir'',
            cs_allowed =
              [END_OPTIONS, PATH_TOKEN,
               flag_rule [''-p'', ''--parents''] ''-p'',
               flag_rule [''-v'', ''--verbose''] ''-v''],
            cs_forbidden_pairs = []\<rparr>"

section \<open>Search and discovery\<close>

definition GREP :: command_syntax where
  "GREP = \<lparr>cs_name = ''grep'',
           cs_allowed = SEARCH_TOKENS @
             [flag_rule [''-E'', ''--extended-regexp''] ''-E'',
              flag_rule [''-h'', ''--no-filename''] ''-h'',
              flag_rule [''-r'', ''--recursive'', ''-R'', ''--dereference-recursive''] ''-r''],
           cs_forbidden_pairs = [(''-E'', ''-F''), (''-H'', ''-h'')]\<rparr>"

definition RG :: command_syntax where
  "RG = \<lparr>cs_name = ''rg'',
         cs_allowed = SEARCH_TOKENS @
           [flag_rule [''-I'', ''--no-filename''] ''-I'',
            flag_rule [''--hidden''] ''--hidden'',
            flag_rule [''--no-ignore''] ''--no-ignore'',
            flag_rule [''-uu''] ''-uu''],
         cs_forbidden_pairs = [(''-H'', ''-I'')]\<rparr>"

definition ls_flag :: "string \<Rightarrow> bool" where
  "ls_flag v \<longleftrightarrow>
     (case v of
        c # letters \<Rightarrow>
          c = CHR ''-'' \<and> letters \<noteq> [] \<and> (\<forall>l \<in> set letters. l \<in> set ''laAhdR1rtSUFpisn'')
      | [] \<Rightarrow> False) \<or>
     v \<in> set [''--all'', ''--almost-all'', ''--human-readable'', ''--directory'',
              ''--recursive'', ''--reverse'', ''--classify'', ''--inode'', ''--size'',
              ''--numeric-uid-gid''] \<or>
     v = ''--''"

definition LS :: command_syntax where
  "LS = \<lparr>cs_name = ''ls'', cs_allowed = [PATH_TOKEN, operand_rule FLG ls_flag],
         cs_forbidden_pairs = []\<rparr>"

definition find_value_options :: "string list" where
  "find_value_options =
     [''-name'', ''-iname'', ''-path'', ''-ipath'', ''-type'', ''-size'', ''-mtime'', ''-mmin'',
      ''-maxdepth'', ''-mindepth'']"

definition find_expression_options :: "string list" where
  "find_expression_options =
     [''-empty'', ''-depth'', ''-xdev'', ''-print'', ''-print0'', ''-prune'', ''-quit'',
      ''-a'', ''-and'', ''-o'', ''-or'', ''!'', ''-not'', ''('', '')'']"

definition FIND :: command_syntax where
  "FIND = \<lparr>cs_name = ''find'',
           cs_allowed =
             [PATH_TOKEN, operand_rule ARG no_nul,
              operand_rule FLG
                (\<lambda>v. v \<in> set (find_value_options @ find_expression_options @ [''-P'', ''--'']))],
           cs_forbidden_pairs = []\<rparr>"

section \<open>Deletion\<close>

definition GIO :: command_syntax where
  "GIO = \<lparr>cs_name = ''gio'',
          cs_allowed =
            [PATH_TOKEN,
             \<lparr>rule_tag = ARG, rule_pattern = (\<lambda>v. v = ''trash''), rule_option = Some ''trash'',
              rule_takes = None, rule_ends_options = False\<rparr>],
          cs_forbidden_pairs = []\<rparr>"

definition RM :: command_syntax where
  "RM = \<lparr>cs_name = ''rm'',
         cs_allowed =
           [END_OPTIONS, PATH_TOKEN,
            flag_rule [''-r'', ''-R'', ''--recursive''] ''-r'',
            flag_rule [''-f'', ''--force''] ''-f''],
         cs_forbidden_pairs = []\<rparr>"

definition COMMANDS :: "command_syntax list" where
  "COMMANDS =
     [CP, MV, PWD, CAT, HEAD, TAIL, WC, TEE, TOUCH, MKDIR, GREP, RG, LS, FIND, DIFF, GIO, RM]"

lemmas command_syntax_defs =
  CP_def MV_def PWD_def CAT_def HEAD_def TAIL_def WC_def TEE_def TOUCH_def MKDIR_def GREP_def
  RG_def LS_def FIND_def DIFF_def GIO_def RM_def

lemmas shared_token_defs = READ_TOKENS_def TRANSFER_TOKENS_def SEARCH_TOKENS_def END_OPTIONS_def PATH_TOKEN_def

definition command_spec :: "string \<Rightarrow> command_syntax option" where
  "command_spec name = find (\<lambda>spec. cs_name spec = name) COMMANDS"

lemma command_spec_name: "command_spec name = Some spec \<Longrightarrow> spec \<in> set COMMANDS \<and> cs_name spec = name"
  by (auto simp: command_spec_def find_Some_iff)

lemma command_spec_names: "map cs_name COMMANDS = [''cp'', ''mv'', ''pwd'', ''cat'', ''head'', ''tail'', ''wc'', ''tee'', ''touch'', ''mkdir'', ''grep'', ''rg'', ''ls'', ''find'', ''diff'', ''gio'', ''rm'']"
  by (simp add: COMMANDS_def command_syntax_defs)

section \<open>Properties\<close>

text \<open>
  What a validated command gives its preparation function, for any command specification:
  every token after the command name is an operand, an option, or the value of an option that
  takes one; operands are in increasing order, each matches a rule without an option and each
  comes after every option; an option appears once, matches its rule, and when it takes a value
  the next token exists, has the required tag and matches a rule; no forbidden pair is present.
\<close>

theorem validated_command_wf:
  assumes "validate_tokens tokens spec = Inr parsed"
  shows "pc_tokens parsed = tokens \<and> tokens \<noteq> [] \<and> hd tokens = (cs_name spec, CMD) \<and>
         arguments_wf spec tokens (length tokens) (pc_operands parsed) (pc_options parsed) \<and>
         (\<forall>(left, right) \<in> set (cs_forbidden_pairs spec).
            \<not> (has_option parsed left \<and> has_option parsed right))"
  using validate_tokens_InrD[OF assms] by blast

definition head_tokens :: "token list" where
  "head_tokens = [(''head'', CMD), (''--lines'', FLG), (''20'', ARG), (''a.txt'', PTH), (''-'', ARG)]"

theorem validated_command_wf_witness:
  "arguments_wf HEAD head_tokens (length head_tokens) [3, 4] [(''-n'', 1)]"
proof -
  have "validate_tokens head_tokens HEAD =
    Inr \<lparr>pc_tokens = head_tokens, pc_operands = [3, 4], pc_options = [(''-n'', 1)]\<rparr>"
    by code_simp
  from validated_command_wf[OF this] show ?thesis
    by simp
qed

end
