(* ===== verification/Roboz_Json.thy ===== *)
theory Roboz_Json
  imports Roboz_Base
begin

text \<open>
  The part of Python's \<open>json\<close> and \<open>repr\<close> that the sources call: \<open>json.loads\<close>,
  \<open>json.dumps\<close> with and without \<open>ensure_ascii\<close>, and \<open>repr\<close> of a string. A number with a
  fraction or an exponent is kept as its lexeme; texts range over the characters U+0000 to
  U+00FF (an escape beyond them is not accepted).
\<close>

datatype json =
    JNull
  | JBool bool
  | JInt int
  | JFloat string
  | JStr string
  | JList "json list"
  | JObj "(string \<times> json) list"

section \<open>Dictionaries in insertion order\<close>

fun dict_set :: "'k \<Rightarrow> 'v \<Rightarrow> ('k \<times> 'v) list \<Rightarrow> ('k \<times> 'v) list" where
  "dict_set k v [] = [(k, v)]"
| "dict_set k v ((k', v') # kvs) = (if k' = k then (k, v) # kvs else (k', v') # dict_set k v kvs)"

definition dict_of :: "('k \<times> 'v) list \<Rightarrow> ('k \<times> 'v) list" where
  "dict_of kvs = foldl (\<lambda>d (k, v). dict_set k v d) [] kvs"

text \<open>\<open>left | right\<close> on dictionaries: the right one wins, new keys go last.\<close>

definition dict_union :: "('k \<times> 'v) list \<Rightarrow> ('k \<times> 'v) list \<Rightarrow> ('k \<times> 'v) list" where
  "dict_union left right = foldl (\<lambda>d (k, v). dict_set k v d) left right"

lemma map_of_dict_set [simp]: "map_of (dict_set k v d) = (map_of d)(k \<mapsto> v)"
  by (induction d) auto

lemma keys_dict_set: "map fst (dict_set k v d) = (if k \<in> set (map fst d) then map fst d else map fst d @ [k])"
  by (induction k v d rule: dict_set.induct) (simp_all add: image_iff)

lemma distinct_dict_set: "distinct (map fst d) \<Longrightarrow> distinct (map fst (dict_set k v d))"
  by (simp add: keys_dict_set)

lemma map_of_dict_union: "map_of (dict_union l r) = map_of l ++ map_of (rev r)"
proof (induction r rule: rev_induct)
  case (snoc kv r)
  then show ?case by (cases kv) (auto simp: dict_union_def map_add_def)
qed (simp add: dict_union_def)

lemma length_dict_set_le: "length (dict_set k v d) \<le> Suc (length d)"
  by (induction d) auto

section \<open>Printing\<close>

definition hex_digit :: "nat \<Rightarrow> char" where
  "hex_digit n = ''0123456789abcdef'' ! n"

definition u_escape :: "nat \<Rightarrow> string" where
  "u_escape n = [char_of (92 :: nat)] @ ''u00'' @ [hex_digit (n div 16), hex_digit (n mod 16)]"

definition json_char :: "bool \<Rightarrow> char \<Rightarrow> string" where
  "json_char ensure_ascii c =
     (let n = (of_char c :: nat); backslash = char_of (92 :: nat) in
        if n = 34 \<or> n = 92 then [backslash, c]
        else if n = 10 then backslash # ''n''
        else if n = 13 then backslash # ''r''
        else if n = 9 then backslash # ''t''
        else if n = 8 then backslash # ''b''
        else if n = 12 then backslash # ''f''
        else if n < 32 \<or> (ensure_ascii \<and> 127 \<le> n) then u_escape n
        else [c])"

definition json_quote :: "bool \<Rightarrow> string \<Rightarrow> string" where
  "json_quote ensure_ascii s =
     [char_of (34 :: nat)] @ concat (map (json_char ensure_ascii) s) @ [char_of (34 :: nat)]"

fun dumps :: "bool \<Rightarrow> json \<Rightarrow> string" where
  "dumps ea JNull = ''null''"
| "dumps ea (JBool b) = (if b then ''true'' else ''false'')"
| "dumps ea (JInt i) = show_int i"
| "dumps ea (JFloat s) = s"
| "dumps ea (JStr s) = json_quote ea s"
| "dumps ea (JList js) = ''['' @ join_with '', '' (map (dumps ea) js) @ '']''"
| "dumps ea (JObj kvs) =
     ''{'' @ join_with '', '' (map (\<lambda>kv. json_quote ea (fst kv) @ '': '' @ dumps ea (snd kv)) kvs)
       @ ''}''"

definition repr_char :: "char \<Rightarrow> char \<Rightarrow> string" where
  "repr_char quote c =
     (let n = (of_char c :: nat); backslash = char_of (92 :: nat) in
        if c = quote \<or> n = 92 then [backslash, c]
        else if n = 10 then backslash # ''n''
        else if n = 13 then backslash # ''r''
        else if n = 9 then backslash # ''t''
        else if n < 32 \<or> (127 \<le> n \<and> n < 161) \<or> n = 173
          then [backslash, CHR ''x'', hex_digit (n div 16), hex_digit (n mod 16)]
        else [c])"

definition py_repr :: "string \<Rightarrow> string" where
  "py_repr s =
     (let single = char_of (39 :: nat); double = char_of (34 :: nat);
          quote = (if single \<in> set s \<and> double \<notin> set s then double else single)
      in [quote] @ concat (map (repr_char quote) s) @ [quote])"

section \<open>Parsing\<close>

definition json_space :: "char \<Rightarrow> bool" where
  "json_space c \<longleftrightarrow> (of_char c :: nat) \<in> {9, 10, 13, 32}"

definition skip_space :: "string \<Rightarrow> string" where
  "skip_space s = dropWhile json_space s"

definition hex_value :: "char \<Rightarrow> nat option" where
  "hex_value c =
     (let n = (of_char c :: nat) in
        if 48 \<le> n \<and> n \<le> 57 then Some (n - 48)
        else if 97 \<le> n \<and> n \<le> 102 then Some (n - 87)
        else if 65 \<le> n \<and> n \<le> 70 then Some (n - 55)
        else None)"

definition simple_escape :: "char \<Rightarrow> char option" where
  "simple_escape c =
     map_of (zip (''nrtbf/'' @ [char_of (34 :: nat), char_of (92 :: nat)])
       (map char_of [10, 13, 9, 8, 12, 47, 34, 92 :: nat])) c"

fun parse_string :: "string \<Rightarrow> (string \<times> string) option" where
  "parse_string [] = None"
| "parse_string (c # s) =
     (let n = (of_char c :: nat) in
        if n = 34 then Some ([], s)
        else if n < 32 then None
        else if n = 92 then
          (case s of
             [] \<Rightarrow> None
           | e # s' \<Rightarrow>
               if e = CHR ''u'' then
                 (case s' of
                    a # b # x # y # s'' \<Rightarrow>
                      (case (hex_value a, hex_value b, hex_value x, hex_value y) of
                         (Some 0, Some 0, Some h, Some l) \<Rightarrow>
                           map_option (apfst (Cons (char_of (16 * h + l)))) (parse_string s'')
                       | _ \<Rightarrow> None)
                  | _ \<Rightarrow> None)
               else (case simple_escape e of
                       None \<Rightarrow> None
                     | Some d \<Rightarrow> map_option (apfst (Cons d)) (parse_string s')))
        else map_option (apfst (Cons c)) (parse_string s))"

definition parse_nat :: "string \<Rightarrow> nat" where
  "parse_nat s = foldl (\<lambda>n c. 10 * n + (of_char c - 48)) 0 s"

definition parse_number :: "string \<Rightarrow> (json \<times> string) option" where
  "parse_number s =
     (let neg = (s \<noteq> [] \<and> hd s = CHR ''-'');
          s1 = (if neg then tl s else s);
          ds = (if s1 \<noteq> [] \<and> hd s1 = CHR ''0'' then ''0'' else takeWhile is_digit s1);
          s2 = drop (length ds) s1;
          frac = (case s2 of c # d # r \<Rightarrow>
                    if c = CHR ''.'' \<and> is_digit d then c # takeWhile is_digit (d # r) else []
                  | _ \<Rightarrow> []);
          s3 = drop (length frac) s2;
          sign = (case s3 of c # d # r \<Rightarrow>
                    if (c = CHR ''e'' \<or> c = CHR ''E'') \<and> (d = CHR ''+'' \<or> d = CHR ''-'') then [c, d]
                    else if c = CHR ''e'' \<or> c = CHR ''E'' then [c] else []
                  | _ \<Rightarrow> []);
          eds = takeWhile is_digit (drop (length sign) s3);
          expo = (if sign = [] \<or> eds = [] then [] else sign @ eds);
          rest = drop (length expo) s3
      in if ds = [] then None
         else if frac = [] \<and> expo = []
           then Some (JInt (if neg then - int (parse_nat ds) else int (parse_nat ds)), rest)
         else Some (JFloat ((if neg then ''-'' else []) @ ds @ frac @ expo), rest))"

fun parse_value :: "nat \<Rightarrow> string \<Rightarrow> (json \<times> string) option"
and parse_items :: "nat \<Rightarrow> string \<Rightarrow> (json list \<times> string) option"
and parse_members :: "nat \<Rightarrow> string \<Rightarrow> ((string \<times> json) list \<times> string) option" where
  "parse_value 0 s = None"
| "parse_value (Suc fuel) s =
     (case s of
        [] \<Rightarrow> None
      | c # r \<Rightarrow>
          if of_char c = (34 :: nat) then map_option (apfst JStr) (parse_string r)
          else if c = CHR ''{'' then
            (case skip_space r of
               d # r' \<Rightarrow>
                 if d = CHR ''}'' then Some (JObj [], r')
                 else map_option (apfst (\<lambda>kvs. JObj (dict_of kvs))) (parse_members fuel (d # r'))
             | [] \<Rightarrow> None)
          else if c = CHR ''['' then
            (case skip_space r of
               d # r' \<Rightarrow>
                 if d = CHR '']'' then Some (JList [], r')
                 else map_option (apfst JList) (parse_items fuel (d # r'))
             | [] \<Rightarrow> None)
          else if prefix ''null'' s then Some (JNull, drop 4 s)
          else if prefix ''true'' s then Some (JBool True, drop 4 s)
          else if prefix ''false'' s then Some (JBool False, drop 5 s)
          else if prefix ''NaN'' s then Some (JFloat ''NaN'', drop 3 s)
          else if prefix ''Infinity'' s then Some (JFloat ''Infinity'', drop 8 s)
          else if prefix ''-Infinity'' s then Some (JFloat ''-Infinity'', drop 9 s)
          else parse_number s)"
| "parse_items 0 s = None"
| "parse_items (Suc fuel) s =
     (case parse_value fuel s of
        None \<Rightarrow> None
      | Some (j, r) \<Rightarrow>
          (case skip_space r of
             c # r' \<Rightarrow>
               if c = CHR '']'' then Some ([j], r')
               else if c = CHR '','' then
                 map_option (apfst (Cons j)) (parse_items fuel (skip_space r'))
               else None
           | [] \<Rightarrow> None))"
| "parse_members 0 s = None"
| "parse_members (Suc fuel) s =
     (case s of
        q # r \<Rightarrow>
          if of_char q \<noteq> (34 :: nat) then None
          else (case parse_string r of
            None \<Rightarrow> None
          | Some (k, r1) \<Rightarrow>
              (case skip_space r1 of
                 c # r2 \<Rightarrow>
                   if c \<noteq> CHR '':'' then None
                   else (case parse_value fuel (skip_space r2) of
                     None \<Rightarrow> None
                   | Some (j, r3) \<Rightarrow>
                       (case skip_space r3 of
                          d # r4 \<Rightarrow>
                            if d = CHR ''}'' then Some ([(k, j)], r4)
                            else if d = CHR '','' then
                              map_option (apfst (Cons (k, j))) (parse_members fuel (skip_space r4))
                            else None
                        | [] \<Rightarrow> None))
               | [] \<Rightarrow> None))
      | [] \<Rightarrow> None)"

text \<open>A value needs at most two units of fuel per character (lemma \<open>parse_fuel_enough\<close>).\<close>

definition loads :: "string \<Rightarrow> json option" where
  "loads s =
     (case parse_value (2 * length s + 2) (skip_space s) of
        Some (j, r) \<Rightarrow> if skip_space r = [] then Some j else None
      | None \<Rightarrow> None)"

lemma loads_example:
  "loads ''{ \"action\": [1, -20, true], \"k\": {}}'' =
     Some (JObj [(''action'', JList [JInt 1, JInt (- 20), JBool True]), (''k'', JObj [])])"
  by code_simp

section \<open>The parser consumes its input, so the fuel suffices\<close>

lemma length_skip_space: "length (skip_space s) \<le> length s"
  by (simp add: skip_space_def length_dropWhile_le)

lemma skip_space_shorter: "skip_space s = c # r \<Longrightarrow> length r < length s"
  using length_skip_space[of s] by simp

lemma length_parse_string: "parse_string s = Some (x, r) \<Longrightarrow> length r < length s"
  by (induction s arbitrary: x r rule: parse_string.induct)
    (auto simp: Let_def split: if_splits list.splits option.splits nat.splits, fastforce+)

lemma length_parse_number:
  assumes "parse_number s = Some (j, r)" shows "length r < length s"
proof -
  define s1 where "s1 = (if s \<noteq> [] \<and> hd s = CHR ''-'' then tl s else s)"
  define ds where "ds = (if s1 \<noteq> [] \<and> hd s1 = CHR ''0'' then ''0'' else takeWhile is_digit s1)"
  have ds: "ds \<noteq> []" and r: "length r \<le> length (drop (length ds) s1)"
    using assms unfolding parse_number_def Let_def s1_def[symmetric] ds_def[symmetric]
    by (auto split: if_splits)
  then have "s1 \<noteq> []" by (auto simp: ds_def)
  with ds r have "length r < length s1" by (cases s1; cases ds) auto
  moreover have "length s1 \<le> length s" by (auto simp: s1_def)
  ultimately show ?thesis by simp
qed


lemma length_parse:
  "(parse_value f s = Some (j, r) \<longrightarrow> length r < length s) \<and>
   (parse_items f s = Some (js, r) \<longrightarrow> length r < length s) \<and>
   (parse_members f s = Some (kvs, r) \<longrightarrow> length r < length s)"
proof (induction f arbitrary: s j js kvs r)
  case (Suc f)
  have V: "parse_value f s = Some (j, r) \<Longrightarrow> length r < length s"
   and I: "parse_items f s = Some (js, r) \<Longrightarrow> length r < length s"
   and M: "parse_members f s = Some (kvs, r) \<Longrightarrow> length r < length s" for s j js kvs r
    using Suc.IH by blast+
  note shorter = skip_space_shorter length_parse_string length_parse_number V I M
  have "parse_value (Suc f) s = Some (j, r) \<Longrightarrow> length r < length s"
    by (auto split: if_splits list.splits dest!: shorter simp: prefix_def)
  moreover have "length r < length s" if items: "parse_items (Suc f) s = Some (js, r)"
  proof -
    from items obtain j0 r0 c r' where pv: "parse_value f s = Some (j0, r0)"
      and ss: "skip_space r0 = c # r'"
      and rest: "r = r' \<or> (\<exists>js'. parse_items f (skip_space r') = Some (js', r))"
      by (auto split: option.splits list.splits if_splits)
    from V[OF pv] skip_space_shorter[OF ss] rest I[of "skip_space r'"] length_skip_space[of r']
    show ?thesis by fastforce
  qed
  moreover have "length r < length s" if members: "parse_members (Suc f) s = Some (kvs, r)"
  proof -
    from members obtain q s0 k r1 c r2 j0 r3 d r4 where s0: "s = q # s0"
      and ps: "parse_string s0 = Some (k, r1)" and s1: "skip_space r1 = c # r2"
      and pv: "parse_value f (skip_space r2) = Some (j0, r3)" and s3: "skip_space r3 = d # r4"
      and rest: "r = r4 \<or> (\<exists>kvs'. parse_members f (skip_space r4) = Some (kvs', r))"
      by (auto split: option.splits list.splits if_splits)
    from length_parse_string[OF ps] skip_space_shorter[OF s1] length_skip_space[of r2] V[OF pv]
      skip_space_shorter[OF s3] rest M[of "skip_space r4"] length_skip_space[of r4] s0
    show ?thesis by fastforce
  qed
  ultimately show ?case by blast
qed simp


lemmas length_parse_value = length_parse[THEN conjunct1, THEN mp]

text \<open>The fuel of \<^const>\<open>loads\<close> is enough: more never changes what is parsed.\<close>

lemma parse_fuel_enough:
  "(2 * length s + 1 \<le> f \<longrightarrow> parse_value (Suc f) s = parse_value f s) \<and>
   (2 * length s + 2 \<le> f \<longrightarrow> parse_items (Suc f) s = parse_items f s) \<and>
   (2 * length s + 2 \<le> f \<longrightarrow> parse_members (Suc f) s = parse_members f s)"
proof (induction f arbitrary: s)
  case (Suc f)
  have V: "2 * length s + 1 \<le> f \<Longrightarrow> parse_value (Suc f) s = parse_value f s"
   and I: "2 * length s + 2 \<le> f \<Longrightarrow> parse_items (Suc f) s = parse_items f s"
   and M: "2 * length s + 2 \<le> f \<Longrightarrow> parse_members (Suc f) s = parse_members f s" for s
    using Suc.IH by blast+
  have "parse_value (Suc (Suc f)) s = parse_value (Suc f) s" if "2 * length s + 1 \<le> Suc f"
  proof (cases s)
    case (Cons c r)
    have inner: "parse_items (Suc f) (d # r') = parse_items f (d # r')"
        "parse_members (Suc f) (d # r') = parse_members f (d # r')"
      if "skip_space r = d # r'" for d r'
      using \<open>2 * length s + 1 \<le> Suc f\<close> skip_space_shorter[OF that] Cons
      by - (rule I, simp, rule M, simp)
    show ?thesis
      unfolding parse_value.simps Cons
      by (auto split: list.split simp: inner simp del: parse_items.simps parse_members.simps)
  qed simp
  moreover have "parse_items (Suc (Suc f)) s = parse_items (Suc f) s" if "2 * length s + 2 \<le> Suc f"
  proof (cases "parse_value f s")
    case (Some jr)
    obtain j r where jr: "jr = (j, r)" by (cases jr)
    have inner: "parse_items (Suc f) (skip_space r') = parse_items f (skip_space r')"
      if "skip_space r = d # r'" for d r'
      using \<open>2 * length s + 2 \<le> Suc f\<close> length_parse_value[of f s j r] Some jr
        skip_space_shorter[OF that] length_skip_space[of r'] by - (rule I, simp)
    from V[of s] that Some jr show ?thesis
      unfolding parse_items.simps(2)[of "Suc f" s] parse_items.simps(2)[of f s]
      by (auto split: list.split simp: inner simp del: parse_items.simps parse_value.simps)
  qed (use V[of s] that in \<open>simp add: parse_items.simps del: parse_value.simps\<close>)
  moreover have "parse_members (Suc (Suc f)) s = parse_members (Suc f) s" if "2 * length s + 2 \<le> Suc f"
  proof (cases s)
    case (Cons q s0)
    have val_eq: "parse_value (Suc f) (skip_space r2) = parse_value f (skip_space r2)"
      if "parse_string s0 = Some (k, r1)" "skip_space r1 = c # r2" for k r1 c r2
      using \<open>2 * length s + 2 \<le> Suc f\<close> Cons length_parse_string[OF that(1)]
        skip_space_shorter[OF that(2)] length_skip_space[of r2] by - (rule V, simp)
    have inner: "parse_members (Suc f) (skip_space r4) = parse_members f (skip_space r4)"
      if "parse_string s0 = Some (k, r1)" "skip_space r1 = c # r2"
        "parse_value f (skip_space r2) = Some (j, r3)" "skip_space r3 = d # r4" for k r1 c r2 j r3 d r4
      using \<open>2 * length s + 2 \<le> Suc f\<close> Cons length_parse_string[OF that(1)]
        skip_space_shorter[OF that(2)] length_skip_space[of r2]
        length_parse_value[OF that(3)] skip_space_shorter[OF that(4)]
        length_skip_space[of r4] by - (rule M, simp)
    show ?thesis
      unfolding Cons parse_members.simps(2)[of "Suc f" "q # s0"] parse_members.simps(2)[of f "q # s0"]
      by (auto split: list.split option.split simp: val_eq inner simp del: parse_members.simps parse_value.simps)
  qed simp
  ultimately show ?case by blast
qed simp

lemma loads_any_fuel:
  "2 * length (skip_space s) + 1 \<le> f \<Longrightarrow>
   parse_value (f + k) (skip_space s) = parse_value f (skip_space s)"
  using parse_fuel_enough by (induction k) auto

end
