(* ===== verification/Roboz_Messages.thy ===== *)
theory Roboz_Messages
  imports Roboz_Json
begin

text \<open>
  Conversation messages (\<open>models/core.py\<close>, \<open>models/messages.py\<close>), truncation policies
  (\<open>models/truncation.py\<close>) and their application when a model request is built
  (\<open>llm/_truncation.py\<close>). A timestamp is its \<open>isoformat(timespec="seconds")\<close> text.
\<close>

section \<open>Messages and truncation rules\<close>

datatype severity = LIGHT | STUB | REMOVE

fun severity_rank :: "severity \<Rightarrow> nat" where
  "severity_rank LIGHT = 1"
| "severity_rank STUB = 2"
| "severity_rank REMOVE = 3"

record truncation =
  threshold :: int
  severity :: severity

type_synonym truncation_spec = "truncation + truncation list"

definition LIGHT_MAX_CHARS :: nat where "LIGHT_MAX_CHARS = 40000"
definition ERROR_RETRY_DISTANCE :: int where "ERROR_RETRY_DISTANCE = 5"
definition GRADED_STUB_DISTANCE :: int where "GRADED_STUB_DISTANCE = 50"
definition GRADED_REMOVE_DISTANCE :: int where "GRADED_REMOVE_DISTANCE = 200"

definition DEFAULT :: truncation_spec where
  "DEFAULT = Inl \<lparr>threshold = 0, severity = LIGHT\<rparr>"

definition NO_TRUNCATION :: truncation_spec where
  "NO_TRUNCATION = Inl \<lparr>threshold = -1, severity = LIGHT\<rparr>"

definition NO_MESSAGE :: truncation_spec where
  "NO_MESSAGE = Inl \<lparr>threshold = 0, severity = REMOVE\<rparr>"

definition ERROR_RETRY :: truncation_spec where
  "ERROR_RETRY = Inr [\<lparr>threshold = 0, severity = LIGHT\<rparr>,
                      \<lparr>threshold = ERROR_RETRY_DISTANCE, severity = REMOVE\<rparr>]"

definition GRADED :: truncation_spec where
  "GRADED = Inr [\<lparr>threshold = 0, severity = LIGHT\<rparr>,
                 \<lparr>threshold = GRADED_STUB_DISTANCE, severity = STUB\<rparr>,
                 \<lparr>threshold = GRADED_REMOVE_DISTANCE, severity = REMOVE\<rparr>]"

datatype role = SYSTEM | ASSISTANT | USER | ERROR

datatype message_kind =
    AUTO_LOAD_BANNER | AUTO_LOADED_SKILL | COMPACTED_CONTEXT | INTERRUPTED_GENERATION
  | LIBRARIAN_ACTIVITY | LIBRARIAN_ROUTINE | STARTUP_CONTEXT | SYSTEM_MESSAGE | USER_NOTIFICATION

definition BOOTSTRAP_MESSAGE_KINDS :: "message_kind list" where
  "BOOTSTRAP_MESSAGE_KINDS = [SYSTEM_MESSAGE, STARTUP_CONTEXT, AUTO_LOAD_BANNER, AUTO_LOADED_SKILL]"

record message =
  msg_role :: role
  content :: string
  images :: "string list"
  caller :: "string option"
  timestamp :: string
  msg_truncation :: truncation_spec
  message_kind :: "message_kind option"

section \<open>Selecting a rule\<close>

definition to_rules_list :: "truncation_spec \<Rightarrow> truncation list" where
  "to_rules_list spec = (case spec of Inl rule \<Rightarrow> [rule] | Inr rules \<Rightarrow> rules)"

text \<open>\<open>max(..., key=...)\<close>: the first of the rules whose key is greatest.\<close>

definition rule_key_less :: "truncation \<Rightarrow> truncation \<Rightarrow> bool" where
  "rule_key_less r s \<longleftrightarrow>
     threshold r < threshold s \<or>
     (threshold r = threshold s \<and> severity_rank (severity r) < severity_rank (severity s))"

fun max_rule :: "truncation \<Rightarrow> truncation list \<Rightarrow> truncation" where
  "max_rule best [] = best"
| "max_rule best (r # rs) = max_rule (if rule_key_less best r then r else best) rs"

definition select_truncation :: "int \<Rightarrow> truncation_spec \<Rightarrow> truncation option" where
  "select_truncation distance rules =
     (case filter (\<lambda>r. 0 \<le> threshold r \<and> threshold r \<le> distance) (to_rules_list rules) of
        [] \<Rightarrow> None
      | r # rs \<Rightarrow> Some (max_rule r rs))"

section \<open>Cutting one message\<close>

definition TRUNCATED_PLACEHOLDER :: string where
  "TRUNCATED_PLACEHOLDER = ''<message truncated>''"

fun truncate_str_values :: "nat \<Rightarrow> json \<Rightarrow> json" where
  "truncate_str_values max_len (JStr s) =
     JStr (if max_len < length s then take max_len s @ ''...'' else s)"
| "truncate_str_values max_len (JObj kvs) =
     JObj (map (\<lambda>kv. (fst kv, truncate_str_values max_len (snd kv))) kvs)"
| "truncate_str_values max_len (JList js) = JList (map (truncate_str_values max_len) js)"
| "truncate_str_values max_len j = j"

text \<open>\<open>str(value)\<close> of a decoded JSON value is needed for one field only, the action.\<close>

definition truncate_content ::
  "(json \<Rightarrow> string) \<Rightarrow> string \<Rightarrow> severity \<Rightarrow> string option" where
  "truncate_content str text sev =
     (case sev of
        REMOVE \<Rightarrow> None
      | STUB \<Rightarrow>
          Some (case loads text of
                  Some (JObj kvs) \<Rightarrow>
                    dumps True (JObj ((''truncated'', JStr TRUNCATED_PLACEHOLDER) #
                      (case map_of kvs ''action'' of
                         Some action \<Rightarrow> [(''action'', JStr (str action))]
                       | None \<Rightarrow> [])))
                | _ \<Rightarrow> TRUNCATED_PLACEHOLDER)
      | LIGHT \<Rightarrow>
          Some (case loads text of
                  Some data \<Rightarrow> dumps True (truncate_str_values LIGHT_MAX_CHARS data)
                | None \<Rightarrow>
                    if LIGHT_MAX_CHARS < length text then take LIGHT_MAX_CHARS text @ ''...''
                    else text))"

definition truncate_message ::
  "message \<Rightarrow> severity \<Rightarrow> (string \<Rightarrow> severity \<Rightarrow> string option) \<Rightarrow> message option" where
  "truncate_message message sev shorten =
     (case shorten (content message) sev of
        None \<Rightarrow> None
      | Some text \<Rightarrow>
          Some (message\<lparr>content := text,
                        images := (if sev = STUB then [] else images message)\<rparr>))"

section \<open>Cutting a conversation\<close>

text \<open>The loop over \<open>enumerate(messages)\<close>; the distance of the newest message is 0.\<close>

fun truncation_loop ::
  "(int \<Rightarrow> truncation_spec \<Rightarrow> truncation option)
     \<Rightarrow> (string \<Rightarrow> severity \<Rightarrow> string option)
     \<Rightarrow> nat \<Rightarrow> (nat \<times> message) list \<Rightarrow> message list" where
  "truncation_loop select_rule shorten n [] = []"
| "truncation_loop select_rule shorten n ((i, message) # rest) =
     (if msg_role message = SYSTEM then message # truncation_loop select_rule shorten n rest
      else
        (case select_rule (int n - 1 - int i) (msg_truncation message) of
           None \<Rightarrow> message # truncation_loop select_rule shorten n rest
         | Some rule \<Rightarrow>
             (case truncate_message message (severity rule) shorten of
                None \<Rightarrow> truncation_loop select_rule shorten n rest
              | Some message' \<Rightarrow> message' # truncation_loop select_rule shorten n rest)))"

definition get_truncated_messages_for_context ::
  "(int \<Rightarrow> truncation_spec \<Rightarrow> truncation option)
     \<Rightarrow> (string \<Rightarrow> severity \<Rightarrow> string option)
     \<Rightarrow> message list \<Rightarrow> message list" where
  "get_truncated_messages_for_context select_rule shorten messages =
     truncation_loop select_rule shorten (length messages) (enumerate 0 messages)"

section \<open>Rendering, filtering, estimating\<close>

datatype render_error = JSONDecodeError | TypeError

definition render_content :: "message \<Rightarrow> render_error + string" where
  "render_content message =
     (if msg_role message = SYSTEM
        then Inr (''timestamp: '' @ timestamp message @ [char_of (10 :: nat), char_of (10 :: nat)]
                  @ content message)
      else (case caller message of
              None \<Rightarrow> Inr (content message)
            | Some name \<Rightarrow>
                let envelope =
                      (''caller'', JStr name) #
                      (if (case message_kind message of
                             None \<Rightarrow> True
                           | Some kind \<Rightarrow> kind \<notin> set BOOTSTRAP_MESSAGE_KINDS)
                       then [(''timestamp'', JStr (timestamp message))] else [])
                in (case loads (content message) of
                      None \<Rightarrow> Inl JSONDecodeError
                    | Some (JObj kvs) \<Rightarrow> Inr (dumps False (JObj (dict_union envelope kvs)))
                    | Some _ \<Rightarrow> Inl TypeError)))"

definition message_matches ::
  "role option \<Rightarrow> string option \<Rightarrow> string option \<Rightarrow> message \<Rightarrow> bool" where
  "message_matches role' action caller' message \<longleftrightarrow>
     (case role' of None \<Rightarrow> True | Some r \<Rightarrow> msg_role message = r) \<and>
     (case caller' of None \<Rightarrow> True | Some c \<Rightarrow> caller message = Some c) \<and>
     (case action of
        None \<Rightarrow> True
      | Some a \<Rightarrow>
          (case loads (content message) of
             Some (JObj kvs) \<Rightarrow> map_of kvs ''action'' = Some (JStr a)
           | _ \<Rightarrow> False))"

definition filter_messages ::
  "message list \<Rightarrow> role option \<Rightarrow> string option \<Rightarrow> string option \<Rightarrow> message list" where
  "filter_messages messages role' action caller' =
     filter (message_matches role' action caller') messages"

definition ceil_div :: "nat \<Rightarrow> nat \<Rightarrow> nat" where
  "ceil_div a b = (a + b - 1) div b"

definition estimate_conversation_tokens ::
  "(json \<Rightarrow> string) \<Rightarrow> message list \<Rightarrow> render_error + nat" where
  "estimate_conversation_tokens str messages =
     rbind (traverse render_content
              (get_truncated_messages_for_context select_truncation (truncate_content str) messages))
       (\<lambda>texts. Inr (sum_list (map (\<lambda>t. ceil_div (length t) 4) texts)))"

section \<open>Lemmas\<close>

lemma rule_key_less_irrefl [simp]: "\<not> rule_key_less r r"
  by (simp add: rule_key_less_def)

lemma rule_key_less_trans: "\<not> rule_key_less s r \<Longrightarrow> \<not> rule_key_less t s \<Longrightarrow> \<not> rule_key_less t r"
  by (auto simp: rule_key_less_def)

lemma max_rule_mem: "max_rule best rs \<in> insert best (set rs)"
  by (induction best rs rule: max_rule.induct) auto

lemma max_rule_max: "r \<in> insert best (set rs) \<Longrightarrow> \<not> rule_key_less (max_rule best rs) r"
proof (induction best rs arbitrary: r rule: max_rule.induct)
  case (2 best s rs)
  let ?b = "if rule_key_less best s then s else best"
  have "\<not> rule_key_less (max_rule ?b rs) ?b" by (rule "2.IH") simp
  moreover have "\<not> rule_key_less ?b best" "\<not> rule_key_less ?b s"
    by (auto simp: rule_key_less_def)
  ultimately have "\<not> rule_key_less (max_rule ?b rs) best" "\<not> rule_key_less (max_rule ?b rs) s"
    by (auto simp: rule_key_less_def split: if_splits)
  with 2 show ?case by auto
qed simp

text \<open>The specification of the selection: an applicable rule no other applicable rule beats.\<close>

definition applicable :: "int \<Rightarrow> truncation_spec \<Rightarrow> truncation \<Rightarrow> bool" where
  "applicable distance rules r \<longleftrightarrow>
     r \<in> set (to_rules_list rules) \<and> 0 \<le> threshold r \<and> threshold r \<le> distance"

lemma select_truncation_None:
  "select_truncation distance rules = None \<longleftrightarrow> (\<forall>r. \<not> applicable distance rules r)"
proof -
  have "select_truncation distance rules = None \<longleftrightarrow>
      filter (\<lambda>r. 0 \<le> threshold r \<and> threshold r \<le> distance) (to_rules_list rules) = []"
    by (simp add: select_truncation_def split: list.split)
  then show ?thesis by (auto simp: filter_empty_conv applicable_def)
qed

lemma select_truncation_Some:
  assumes "select_truncation distance rules = Some r"
  shows "applicable distance rules r" and "applicable distance rules s \<Longrightarrow> \<not> rule_key_less r s"
proof -
  obtain b bs where f: "filter (\<lambda>r. 0 \<le> threshold r \<and> threshold r \<le> distance) (to_rules_list rules) = b # bs"
    and r: "r = max_rule b bs"
    using assms by (auto simp: select_truncation_def split: list.splits)
  have app: "applicable distance rules s \<longleftrightarrow> s \<in> insert b (set bs)" for s
  proof -
    have "applicable distance rules s \<longleftrightarrow>
      s \<in> set (filter (\<lambda>r. 0 \<le> threshold r \<and> threshold r \<le> distance) (to_rules_list rules))"
      by (auto simp: applicable_def)
    then show ?thesis by (simp add: f)
  qed
  show "applicable distance rules r" using max_rule_mem[of b bs] by (simp add: app r)
  show "applicable distance rules s \<Longrightarrow> \<not> rule_key_less r s" by (simp add: app r max_rule_max)
qed

fun strings_bounded :: "nat \<Rightarrow> json \<Rightarrow> bool" where
  "strings_bounded n (JStr s) \<longleftrightarrow> length s \<le> n"
| "strings_bounded n (JObj kvs) \<longleftrightarrow> (\<forall>kv \<in> set kvs. strings_bounded n (snd kv))"
| "strings_bounded n (JList js) \<longleftrightarrow> (\<forall>j \<in> set js. strings_bounded n j)"
| "strings_bounded n j \<longleftrightarrow> True"

lemma truncate_str_values_bounded: "strings_bounded (n + 3) (truncate_str_values n j)"
  by (induction n j rule: truncate_str_values.induct) auto

lemma truncate_str_values_id: "strings_bounded n j \<Longrightarrow> truncate_str_values n j = j"
proof (induction n j rule: truncate_str_values.induct)
  case (2 n kvs)
  then show ?case by (auto intro!: map_idI)
next
  case (3 n js)
  then show ?case by (auto intro!: map_idI)
qed auto

text \<open>What a message keeps through truncation: everything but its text and attachments.\<close>

definition identity :: "message \<Rightarrow> role \<times> string option \<times> string \<times> truncation_spec \<times> message_kind option" where
  "identity m = (msg_role m, caller m, timestamp m, msg_truncation m, message_kind m)"

lemma truncate_message_identity:
  "truncate_message m sev shorten = Some m' \<Longrightarrow> identity m' = identity m"
  by (auto simp: truncate_message_def identity_def split: option.splits)

lemma truncation_loop_subseq:
  "subseq (map identity (truncation_loop select_rule shorten n ims)) (map (\<lambda>im. identity (snd im)) ims)"
  by (induction select_rule shorten n ims rule: truncation_loop.induct)
    (auto split: option.splits dest: truncate_message_identity)

lemma truncation_loop_mem:
  "m' \<in> set (truncation_loop select_rule shorten n ims) \<longleftrightarrow>
   (\<exists>(i, m) \<in> set ims.
      if msg_role m = SYSTEM then m' = m
      else case select_rule (int n - 1 - int i) (msg_truncation m) of
             None \<Rightarrow> m' = m
           | Some rule \<Rightarrow> truncate_message m (severity rule) shorten = Some m')"
  by (induction select_rule shorten n ims rule: truncation_loop.induct)
    (auto split: option.splits if_splits)

lemma set_enumerate0: "(i, m) \<in> set (enumerate 0 ms) \<longleftrightarrow> i < length ms \<and> m = ms ! i"
  by (auto simp: in_set_enumerate_eq)

lemma truncate_content_LIGHT:
  "truncate_content str text LIGHT = Some text' \<Longrightarrow>
   (\<exists>j. loads text = Some j \<and> text' = dumps True (truncate_str_values LIGHT_MAX_CHARS j)) \<or>
   (loads text = None \<and> length text' \<le> LIGHT_MAX_CHARS + 3)"
  by (auto simp: truncate_content_def split: option.splits if_splits)

lemma truncation_loop_system:
  "filter (\<lambda>m. msg_role m = SYSTEM) (truncation_loop select_rule shorten n ims) =
   filter (\<lambda>m. msg_role m = SYSTEM) (map snd ims)"
  by (induction select_rule shorten n ims rule: truncation_loop.induct)
    (auto split: option.splits dest!: truncate_message_identity simp: identity_def)

lemma default_rule:
  "0 \<le> d \<Longrightarrow> select_truncation d DEFAULT = Some \<lparr>threshold = 0, severity = LIGHT\<rparr>"
  by (simp add: select_truncation_def DEFAULT_def to_rules_list_def)

section \<open>Properties\<close>

text \<open>
  The truncation rule chosen for a message is an applicable rule (threshold not negative
  and reached by the message's age) that no applicable rule beats in threshold, then severity;
  no rule is chosen only when none is applicable.
\<close>

theorem select_truncation_best:
  "case select_truncation distance rules of
     None \<Rightarrow> {r. applicable distance rules r} = {}
   | Some r \<Rightarrow> applicable distance rules r \<and>
       {s. applicable distance rules s \<and>
           (threshold r < threshold s \<or>
            threshold r = threshold s \<and> severity_rank (severity r) < severity_rank (severity s))} = {}"
proof (cases "select_truncation distance rules")
  case None
  with select_truncation_None[of distance rules] show ?thesis by simp
next
  case (Some r)
  from select_truncation_Some[OF Some] show ?thesis
    by (auto simp: Some rule_key_less_def)
qed

text \<open>
  Building the model context never reorders, duplicates or re-attributes messages: the
  surviving messages are a subsequence of the conversation in role, caller, timestamp, policy
  and kind, and the system messages all survive untouched.
\<close>

theorem truncated_context_order:
  "subseq (map identity (get_truncated_messages_for_context select_truncation (truncate_content str) messages))
          (map identity messages) \<and>
   filter (\<lambda>m. msg_role m = SYSTEM)
     (get_truncated_messages_for_context select_truncation (truncate_content str) messages) =
   filter (\<lambda>m. msg_role m = SYSTEM) messages"
proof -
  have "map identity (map snd (enumerate 0 messages)) = map identity messages"
    by (simp only: map_snd_enumerate)
  then have "map (\<lambda>im. identity (snd im)) (enumerate 0 messages) = map identity messages"
    by (simp only: map_map comp_def)
  with truncation_loop_subseq[of select_truncation "truncate_content str" "length messages"
      "enumerate 0 messages"]
  show ?thesis
    by (simp add: get_truncated_messages_for_context_def truncation_loop_system)
qed

text \<open>
  The default policy bounds every string value in the context: a message under the default
  policy is, after truncation, either a JSON text all of whose string values have at most
  40003 characters, or a text of at most 40003 characters.
\<close>

theorem default_policy_bounds_strings:
  assumes "m' \<in> set (get_truncated_messages_for_context select_truncation (truncate_content str) messages)"
    and "msg_role m' \<noteq> SYSTEM" and "msg_truncation m' = DEFAULT"
  shows "(\<exists>j. content m' = dumps True j \<and> strings_bounded 40003 j) \<or> length (content m') \<le> 40003"
proof -
  let ?n = "length messages"
  obtain i m where im: "(i, m) \<in> set (enumerate 0 messages)"
    and m': "if msg_role m = SYSTEM then m' = m
      else case select_truncation (int ?n - 1 - int i) (msg_truncation m) of
             None \<Rightarrow> m' = m
           | Some rule \<Rightarrow> truncate_message m (severity rule) (truncate_content str) = Some m'"
    using assms(1) by (auto simp: get_truncated_messages_for_context_def truncation_loop_mem)
  from im have dist: "0 \<le> int ?n - 1 - int i" by (auto simp: set_enumerate0)
  have "identity m' = identity m"
    using m' by (auto split: if_splits option.splits dest: truncate_message_identity)
  then have "msg_role m \<noteq> SYSTEM" and "msg_truncation m = DEFAULT"
    using assms(2,3) by (auto simp: identity_def)
  with m' default_rule[OF dist]
  have "truncate_message m LIGHT (truncate_content str) = Some m'" by simp
  then have "truncate_content str (content m) LIGHT = Some (content m')"
    by (auto simp: truncate_message_def split: option.splits)
  from truncate_content_LIGHT[OF this] truncate_str_values_bounded[of LIGHT_MAX_CHARS]
  show ?thesis by (auto simp: LIGHT_MAX_CHARS_def)
qed

definition plain_message :: "string \<Rightarrow> message" where
  "plain_message text = \<lparr>msg_role = USER, content = text, images = [], caller = None,
     timestamp = ''2026-01-01T00:00:00+00:00'', msg_truncation = DEFAULT, message_kind = None\<rparr>"

theorem default_policy_bounds_strings_witness:
  "(\<exists>j. ''hello'' = dumps True j \<and> strings_bounded 40003 j) \<or> length ''hello'' \<le> 40003"
proof -
  have "plain_message ''hello'' \<in> set (get_truncated_messages_for_context select_truncation
      (truncate_content (dumps False)) [plain_message ''hello''])"
  proof -
    have "loads ''hello'' = None" by code_simp
    then show ?thesis
      by (simp add: get_truncated_messages_for_context_def plain_message_def default_rule
          truncate_message_def truncate_content_def LIGHT_MAX_CHARS_def)
  qed
  from default_policy_bounds_strings[OF this] show ?thesis
    by (simp add: plain_message_def)
qed

lemma parse_string_word:
  "\<forall>c \<in> set w. 35 \<le> (of_char c :: nat) \<and> of_char c \<noteq> (92 :: nat) \<Longrightarrow>
   parse_string (w @ char_of (34 :: nat) # r) = Some (w, r)"
  by (induction w) (auto simp: Let_def)

lemma json_quote_word:
  "\<forall>c \<in> set w. 35 \<le> (of_char c :: nat) \<and> of_char c \<noteq> (92 :: nat) \<and> (of_char c :: nat) < 127 \<Longrightarrow>
   length w < length (json_quote True w)"
  by (induction w) (auto simp: json_quote_def json_char_def Let_def)

definition long_key_text :: "nat \<Rightarrow> string" where
  "long_key_text n = ''{'' @ [char_of (34 :: nat)] @ replicate n CHR ''a'' @ [char_of (34 :: nat)] @ '':0}''"

lemma parse_long_key:
  "parse_value (Suc (Suc (Suc f))) (long_key_text n) = Some (JObj [(replicate n CHR ''a'', JInt 0)], [])"
proof -
  let ?q = "char_of (34 :: nat) :: char"
  have ps: "parse_string (replicate n CHR ''a'' @ ?q # r) = Some (replicate n CHR ''a'', r)" for r
    by (rule parse_string_word) auto
  have value0: "parse_value (Suc f) ''0}'' = Some (JInt 0, ''}'')"
    by (simp add: parse_number_def Let_def is_digit_def parse_nat_def)
  have "parse_members (Suc (Suc f)) (?q # replicate n CHR ''a'' @ ?q # '':0}'') =
      Some ([(replicate n CHR ''a'', JInt 0)], [])"
    using value0 ps
    by (simp add: skip_space_def json_space_def del: parse_value.simps)
  moreover have "?q \<noteq> CHR ''}''" by code_simp
  ultimately show ?thesis
    by (simp add: long_key_text_def skip_space_def json_space_def dict_of_def
        del: parse_members.simps)
qed

lemma loads_long_key: "loads (long_key_text n) = Some (JObj [(replicate n CHR ''a'', JInt 0)])"
proof -
  obtain f where f: "2 * length (long_key_text n) + 2 = Suc (Suc (Suc f))"
    by (auto simp: long_key_text_def intro: that)
  have "skip_space (long_key_text n) = long_key_text n"
    by (simp add: long_key_text_def skip_space_def json_space_def)
  then show ?thesis
    unfolding loads_def f by (simp add: parse_long_key skip_space_def del: parse_value.simps)
qed

text \<open>
  The default policy does not bound the payload, which \<open>models/truncation.py\<close> says it does
  (``no message may carry an unbounded payload into the LLM context by default''): only string
  values are cut, so a message under the default policy reaches the context with a text longer
  than any given bound when its JSON object has a long enough key.
\<close>

theorem default_policy_payload_unbounded:
  "\<exists>m m'. msg_role m = USER \<and> msg_truncation m = DEFAULT \<and>
     get_truncated_messages_for_context select_truncation (truncate_content str) [m] = [m'] \<and>
     n < length (content m')"
proof -
  let ?m = "plain_message (long_key_text n)"
  let ?text = "dumps True (JObj [(replicate n CHR ''a'', JInt 0)])"
  have "get_truncated_messages_for_context select_truncation (truncate_content str) [?m] =
      [?m\<lparr>content := ?text\<rparr>]"
    by (simp add: get_truncated_messages_for_context_def plain_message_def default_rule
        truncate_message_def truncate_content_def loads_long_key)
  moreover have "n < length ?text"
    using json_quote_word[of "replicate n CHR ''a''"] by auto
  ultimately show ?thesis
    by (intro exI[of _ ?m] exI[of _ "?m\<lparr>content := ?text\<rparr>"]) (simp add: plain_message_def)
qed

end
