(* ===== verification/Roboz_Patterns.thy ===== *)
theory Roboz_Patterns
  imports Roboz_Base
begin

text \<open>
  Canonical paths and the pattern matching of permission rules. A canonical absolute path is
  the list of its components. \<open>PurePosixPath.full_match\<close> (Python 3.13) is the standard
  library's: the pattern is normalised as a path, split at the slashes and matched component by
  component, \<open>**\<close> standing for any number of components and \<open>*\<close>, \<open>?\<close> and
  bracket classes for characters inside one component.
\<close>

type_synonym path = "string list"

abbreviation slash :: char where "slash \<equiv> CHR ''/''"

definition posix_abs :: "path \<Rightarrow> string" where
  "posix_abs p = slash # join_with [slash] p"

definition posix_rel :: "path \<Rightarrow> string" where
  "posix_rel p = (if p = [] then ''.'' else join_with [slash] p)"

fun relative_to :: "path \<Rightarrow> path \<Rightarrow> path option" where
  "relative_to p [] = Some p"
| "relative_to [] (b # bs) = None"
| "relative_to (x # p) (b # bs) = (if x = b then relative_to p bs else None)"

definition is_relative_to :: "path \<Rightarrow> path \<Rightarrow> bool" where
  "is_relative_to p base \<longleftrightarrow> prefix base p"

lemma relative_to_Some [path_simps]: "relative_to p base = Some r \<longleftrightarrow> p = base @ r"
  by (induction p base rule: relative_to.induct) auto

lemma relative_to_None [path_simps]: "relative_to p base = None \<longleftrightarrow> \<not> is_relative_to p base"
  by (induction p base rule: relative_to.induct) (auto simp: is_relative_to_def)

section \<open>Characters of one component\<close>

text \<open>The contents of a bracket class: single characters and ranges.\<close>

fun class_has :: "string \<Rightarrow> char \<Rightarrow> bool" where
  "class_has (a # m # b # r) c =
     (if m = CHR ''-'' then (a \<le> c \<and> c \<le> b) \<or> class_has r c
      else c = a \<or> class_has (m # b # r) c)"
| "class_has (a # r) c = (c = a \<or> class_has r c)"
| "class_has [] c = False"

text \<open>
  Reading a class after its opening bracket: an optional \<open>!\<close>, then up to the first closing
  bracket that is not the first character of the contents; \<open>None\<close> when there is none.
\<close>

definition class_body :: "string \<Rightarrow> (string \<times> string) option" where
  "class_body p =
     (case p of
        [] \<Rightarrow> None
      | c # r \<Rightarrow>
          let body = takeWhile (\<lambda>d. d \<noteq> CHR '']'') r; rest = drop (length body) r
          in if rest = [] then None else Some (c # body, tl rest))"

definition parse_class :: "string \<Rightarrow> (bool \<times> string \<times> string) option" where
  "parse_class p =
     (if p \<noteq> [] \<and> hd p = CHR ''!''
      then map_option (\<lambda>(body, rest). (True, body, rest)) (class_body (tl p))
      else map_option (\<lambda>(body, rest). (False, body, rest)) (class_body p))"

lemma class_body_shorter: "class_body p = Some (body, rest) \<Longrightarrow> length rest < length p"
  by (auto simp: class_body_def Let_def split: list.splits if_splits)

lemma parse_class_shorter: "parse_class p = Some (neg, body, rest) \<Longrightarrow> length rest < length p"
  by (cases p) (auto simp: parse_class_def dest!: class_body_shorter split: if_splits)

function match_chars :: "string \<Rightarrow> string \<Rightarrow> bool" where
  "match_chars [] xs = (xs = [])"
| "match_chars (c # p) xs =
     (if c = CHR ''*'' then
        match_chars p xs \<or> (case xs of [] \<Rightarrow> False | x # xs' \<Rightarrow> match_chars (c # p) xs')
      else
        (case xs of
           [] \<Rightarrow> False
         | x # xs' \<Rightarrow>
             if c = CHR ''?'' then match_chars p xs'
             else if c = CHR ''['' then
               (case parse_class p of
                  None \<Rightarrow> x = c \<and> match_chars p xs'
                | Some (negated, body, p') \<Rightarrow>
                    (class_has body x \<noteq> negated) \<and> match_chars p' xs')
             else x = c \<and> match_chars p xs'))"
  by pat_completeness auto
termination
  by (relation "measure (\<lambda>(p, xs). length p + length xs)")
    (auto dest!: sym[of "Some _"] parse_class_shorter)

declare match_chars.simps [simp del]

section \<open>Components\<close>

definition match_component :: "string \<Rightarrow> string \<Rightarrow> bool" where
  "match_component p x = (if p = ''*'' then x \<noteq> [] else match_chars p x)"

fun match_components :: "string list \<Rightarrow> string list \<Rightarrow> bool" where
  "match_components [] xs = (xs = [])"
| "match_components [p] xs =
     (if p = ''**'' then xs \<noteq> []
      else (case xs of [x] \<Rightarrow> match_component p x | _ \<Rightarrow> False))"
| "match_components (p # q # ps) xs =
     (if p = ''**'' then
        match_components (q # ps) xs \<or>
        list_ex (\<lambda>k. join_with [slash] (take k xs) \<noteq> [] \<and> match_components (q # ps) (drop k xs))
          [1..<length xs]
      else
        (case xs of
           x # y # ys \<Rightarrow> match_component p x \<and> match_components (q # ps) (y # ys)
         | _ \<Rightarrow> False))"

text \<open>\<open>str(PurePosixPath(text))\<close> as a pattern: two leading slashes are kept, no others.\<close>

definition pure_path_text :: "string \<Rightarrow> string" where
  "pure_path_text text =
     (let root = (if prefix ''//'' text \<and> \<not> prefix ''///'' text then ''//''
                  else if prefix ''/'' text then ''/'' else '''');
          parts = filter (\<lambda>w. w \<noteq> [] \<and> w \<noteq> ''.'') (split_on slash text)
      in root @ join_with [slash] parts)"

definition full_match :: "string \<Rightarrow> string \<Rightarrow> bool" where
  "full_match text pattern =
     match_components (split_on slash (pure_path_text pattern)) (split_on slash (pure_path_text text))"

text \<open>\<open>glob.escape\<close> (used by the sandbox): metacharacters become one-character classes.\<close>

definition escape_char :: "char \<Rightarrow> string" where
  "escape_char c = (if c \<in> set ''*?['' then [CHR ''['', c, CHR '']''] else [c])"

definition glob_escape :: "string \<Rightarrow> string" where
  "glob_escape s = concat (map escape_char s)"

section \<open>Escaped names match only themselves\<close>

lemma match_chars_literal:
  "c \<notin> set ''*?['' \<Longrightarrow>
   match_chars (c # p) xs = (case xs of [] \<Rightarrow> False | x # xs' \<Rightarrow> x = c \<and> match_chars p xs')"
  by (subst match_chars.simps) (auto split: list.split)

lemma class_body_single: "c \<noteq> CHR '']'' \<or> True \<Longrightarrow> class_body (c # CHR '']'' # p) = Some ([c], p)"
  by (simp add: class_body_def)

lemma match_chars_class:
  "c \<noteq> CHR ''!'' \<Longrightarrow>
   match_chars (CHR ''['' # c # CHR '']'' # p) xs =
     (case xs of [] \<Rightarrow> False | x # xs' \<Rightarrow> x = c \<and> match_chars p xs')"
  by (subst match_chars.simps) (auto simp: parse_class_def class_body_single split: list.split)

lemma match_chars_escape: "match_chars (glob_escape s) xs \<longleftrightarrow> xs = s"
proof (induction s arbitrary: xs)
  case Nil
  then show ?case by (simp add: glob_escape_def match_chars.simps)
next
  case (Cons c s)
  have "match_chars (escape_char c @ glob_escape s) xs =
      (case xs of [] \<Rightarrow> False | x # xs' \<Rightarrow> x = c \<and> match_chars (glob_escape s) xs')"
    by (auto simp: escape_char_def match_chars_literal match_chars_class)
  with Cons.IH show ?case
    by (auto simp: glob_escape_def split: list.splits)
qed

lemma glob_escape_eq_Nil [simp]: "glob_escape s = [] \<longleftrightarrow> s = []"
  by (cases s) (auto simp: glob_escape_def escape_char_def)

lemma glob_escape_not_star: "glob_escape s \<noteq> CHR ''*'' # r"
  by (cases s) (auto simp: glob_escape_def escape_char_def)

lemma match_component_escape [simp]: "match_component (glob_escape w) x \<longleftrightarrow> x = w"
  using glob_escape_not_star[of w] by (simp add: match_component_def match_chars_escape)

lemma match_components_escape:
  "ws \<noteq> [] \<Longrightarrow> match_components (map glob_escape ws) xs \<longleftrightarrow> xs = ws"
proof (induction ws arbitrary: xs)
  case (Cons w ws)
  have star: "glob_escape w \<noteq> ''**''" using glob_escape_not_star[of w] by blast
  show ?case
  proof (cases ws)
    case Nil
    with star show ?thesis by (auto split: list.splits)
  next
    case (Cons v vs)
    with star Cons.IH show ?thesis by (auto split: list.splits)
  qed
qed simp

lemma match_components_escape_below:
  "ws \<noteq> [] \<Longrightarrow> match_components (map glob_escape ws @ [''**'']) xs \<longleftrightarrow> (\<exists>ys. ys \<noteq> [] \<and> xs = ws @ ys)"
proof (induction ws arbitrary: xs)
  case (Cons w ws)
  have star: "glob_escape w \<noteq> ''**''" using glob_escape_not_star[of w] by blast
  show ?case
  proof (cases ws)
    case Nil
    with star show ?thesis by (auto split: list.splits simp: neq_Nil_conv)
  next
    case (Cons v vs)
    with star Cons.IH show ?thesis by (fastforce split: list.splits)
  qed
qed simp

end
