(* ===== verification/Roboz_Files.thy ===== *)
theory Roboz_Files
  imports Roboz_Patterns Roboz_Tokens
begin

text \<open>
  The file system as the preparation code observes it: a tree of nodes, and the operating
  system's path resolution over it. A directory is an association list in enumeration order;
  names that are no directory entry names (empty, dots, or with a slash) are never seen. The
  kernel resolves a path component by component, follows at most forty symbolic links and
  reports \<open>ENOENT\<close>, \<open>ENOTDIR\<close> or \<open>ELOOP\<close>; other failures (permissions of the process,
  I/O) are outside the model, and nothing else changes the tree while a command is prepared.
  On top of it: \<open>os.path.join\<close>, \<open>abspath\<close>, \<open>pathlib.Path\<close> as a list of parts,
  \<open>Path.resolve\<close> (the non-strict \<open>realpath\<close> with its memo of resolved links), and the stat
  predicates the code uses.
\<close>

section \<open>Nodes\<close>

datatype node =
    Reg (st_dev: nat) (st_ino: nat) (st_nlink: nat) (contents: string)
  | Dir (st_dev: nat) (st_ino: nat) (entries: "(string \<times> node) list")
  | Lnk (link_target: string)
  | Special

definition proper_name :: "string \<Rightarrow> bool" where
  "proper_name c \<longleftrightarrow> c \<noteq> [] \<and> c \<noteq> ''.'' \<and> c \<noteq> ''..'' \<and> slash \<notin> set c"

definition entry_names :: "(string \<times> node) list \<Rightarrow> string list" where
  "entry_names es = filter proper_name (dedupe (map fst es))"

fun is_dir_node :: "node \<Rightarrow> bool" where
  "is_dir_node (Dir _ _ _) = True"
| "is_dir_node _ = False"

fun is_reg_node :: "node \<Rightarrow> bool" where
  "is_reg_node (Reg _ _ _ _) = True"
| "is_reg_node _ = False"

fun is_lnk_node :: "node \<Rightarrow> bool" where
  "is_lnk_node (Lnk _) = True"
| "is_lnk_node _ = False"

fun child :: "node \<Rightarrow> string \<Rightarrow> node option" where
  "child (Dir _ _ es) c = (if proper_name c then map_of es c else None)"
| "child _ c = None"

fun node_at :: "node \<Rightarrow> path \<Rightarrow> node option" where
  "node_at n [] = Some n"
| "node_at n (c # p) = (case child n c of None \<Rightarrow> None | Some m \<Rightarrow> node_at m p)"

lemma node_at_append:
  "node_at n (p @ q) = (case node_at n p of None \<Rightarrow> None | Some m \<Rightarrow> node_at m q)"
  by (induction n p rule: node_at.induct) (auto split: option.splits)

lemma node_at_snoc:
  "node_at n (p @ [c]) = (case node_at n p of None \<Rightarrow> None | Some m \<Rightarrow> child m c)"
  by (auto simp: node_at_append split: option.splits)

lemma child_dir: "child n c = Some m \<Longrightarrow> is_dir_node n \<and> proper_name c"
  by (cases n) (auto split: if_splits)

section \<open>Sizes\<close>

text \<open>The number of nodes of a tree bounds every traversal below it.\<close>

fun nodes :: "node \<Rightarrow> nat" where
  "nodes (Dir _ _ es) = Suc (sum_list (map (nodes \<circ> snd) es))"
| "nodes _ = 1"

lemma nodes_pos [simp]: "0 < nodes n"
  by (cases n) auto

lemma sum_filter_le: "sum_list (map f (filter P xs)) \<le> sum_list (map (f :: 'a \<Rightarrow> nat) xs)"
  by (induction xs) auto

lemma sum_dedupe_children:
  "sum_list (map (\<lambda>c. case map_of es c of None \<Rightarrow> 0 | Some m \<Rightarrow> f m) (dedupe (map fst es)))
   \<le> sum_list (map ((f :: 'b \<Rightarrow> nat) \<circ> snd) es)"
proof (induction es)
  case (Cons e es)
  let ?g = "\<lambda>es c. case map_of es c of None \<Rightarrow> 0 | Some m \<Rightarrow> f m"
  have "sum_list (map (?g (e # es)) (filter (\<lambda>y. y \<noteq> fst e) (dedupe (map fst es)))) =
      sum_list (map (?g es) (filter (\<lambda>y. y \<noteq> fst e) (dedupe (map fst es))))"
    by (intro arg_cong[of _ _ sum_list] map_cong) auto
  also have "\<dots> \<le> sum_list (map (?g es) (dedupe (map fst es)))"
    by (rule sum_filter_le)
  finally show ?case using Cons.IH by simp
qed simp

definition weight :: "node option \<Rightarrow> nat" where
  "weight n = (case n of None \<Rightarrow> 0 | Some m \<Rightarrow> nodes m)"

lemma sum_children_weight:
  "sum_list (map (\<lambda>c. weight (child (Dir d i es) c)) (entry_names es)) < nodes (Dir d i es)"
proof -
  have "sum_list (map (\<lambda>c. weight (child (Dir d i es) c)) (entry_names es)) =
      sum_list (map (\<lambda>c. case map_of es c of None \<Rightarrow> 0 | Some m \<Rightarrow> nodes m)
        (filter proper_name (dedupe (map fst es))))"
    by (intro arg_cong[of _ _ sum_list] map_cong) (auto simp: entry_names_def weight_def)
  also have "\<dots> \<le> sum_list (map (\<lambda>c. case map_of es c of None \<Rightarrow> 0 | Some m \<Rightarrow> nodes m)
      (dedupe (map fst es)))"
    by (rule sum_filter_le)
  also have "\<dots> \<le> sum_list (map (nodes \<circ> snd) es)"
    by (rule sum_dedupe_children)
  finally show ?thesis by simp
qed

section \<open>Path resolution by the operating system\<close>

definition skips :: "string \<Rightarrow> bool" where
  "skips c \<longleftrightarrow> c = [] \<or> c = ''.''"

definition link_start :: "string \<Rightarrow> path \<Rightarrow> path" where
  "link_start t p = (if prefix [slash] t then [] else p)"

function trace :: "node \<Rightarrow> nat \<Rightarrow> path \<Rightarrow> string list \<Rightarrow> os_error + path \<times> nat" where
  "trace fs n p [] = Inr (p, n)"
| "trace fs n p (c # cs) =
     (case node_at fs p of
        None \<Rightarrow> Inl ENOENT
      | Some d \<Rightarrow>
          if \<not> is_dir_node d then Inl ENOTDIR
          else if skips c then trace fs n p cs
          else if c = ''..'' then trace fs n (butlast p) cs
          else
            (case child d c of
               None \<Rightarrow> Inl ENOENT
             | Some (Lnk t) \<Rightarrow>
                 (case n of
                    0 \<Rightarrow> Inl ELOOP
                  | Suc k \<Rightarrow> trace fs k (link_start t p) (split_on slash t @ cs))
             | Some _ \<Rightarrow> trace fs n (p @ [c]) cs))"
  by pat_completeness auto
termination
  by (relation "measures [\<lambda>(fs, n, p, cs). n, \<lambda>(fs, n, p, cs). length cs]") auto

declare trace.simps(2) [simp del]

definition LINK_LIMIT :: nat where "LINK_LIMIT = 40"

text \<open>Following every link (\<open>stat\<close>) and all but a terminal one (\<open>lstat\<close>).\<close>

definition fwalk :: "node \<Rightarrow> string list \<Rightarrow> os_error + path" where
  "fwalk fs cs = (case trace fs LINK_LIMIT [] cs of Inl e \<Rightarrow> Inl e | Inr (p, _) \<Rightarrow> Inr p)"

definition lwalk :: "node \<Rightarrow> string list \<Rightarrow> os_error + path" where
  "lwalk fs cs =
     (if cs = [] then Inr []
      else if skips (last cs) \<or> last cs = ''..'' then fwalk fs cs
      else
        (case fwalk fs (butlast cs) of
           Inl e \<Rightarrow> Inl e
         | Inr p \<Rightarrow>
             (case node_at fs p of
                None \<Rightarrow> Inl ENOENT
              | Some d \<Rightarrow>
                  if \<not> is_dir_node d then Inl ENOTDIR
                  else if child d (last cs) = None then Inl ENOENT
                  else Inr (p @ [last cs]))))"

definition node_of :: "node \<Rightarrow> os_error + path \<Rightarrow> os_error + node" where
  "node_of fs r =
     (case r of
        Inl e \<Rightarrow> Inl e
      | Inr p \<Rightarrow> (case node_at fs p of None \<Rightarrow> Inl ENOENT | Some n \<Rightarrow> Inr n))"

definition stat :: "node \<Rightarrow> string list \<Rightarrow> os_error + node" where
  "stat fs cs = node_of fs (fwalk fs cs)"

definition lstat :: "node \<Rightarrow> string list \<Rightarrow> os_error + node" where
  "lstat fs cs = node_of fs (lwalk fs cs)"

definition holds :: "(node \<Rightarrow> bool) \<Rightarrow> os_error + node \<Rightarrow> bool" where
  "holds P r = (case r of Inl e \<Rightarrow> False | Inr n \<Rightarrow> P n)"

definition is_symlink :: "node \<Rightarrow> string list \<Rightarrow> bool" where
  "is_symlink fs cs = holds is_lnk_node (lstat fs cs)"

definition path_exists :: "node \<Rightarrow> string list \<Rightarrow> bool" where
  "path_exists fs cs = holds (\<lambda>_. True) (stat fs cs)"

definition is_dir :: "node \<Rightarrow> string list \<Rightarrow> bool" where
  "is_dir fs cs = holds is_dir_node (stat fs cs)"

definition is_file :: "node \<Rightarrow> string list \<Rightarrow> bool" where
  "is_file fs cs = holds is_reg_node (stat fs cs)"

lemma trace_append:
  "trace fs n p (xs @ ys) =
     (case trace fs n p xs of Inl e \<Rightarrow> Inl e | Inr (q, k) \<Rightarrow> trace fs k q ys)"
proof (induction fs n p xs rule: trace.induct)
  case (2 fs n p c cs)
  show ?case
  proof (cases "node_at fs p")
    case (Some d)
    with 2 show ?thesis
      by (auto simp: trace.simps(2) split: option.splits node.splits nat.splits if_splits)
  qed (simp add: trace.simps(2))
qed simp

lemma node_at_butlast: "node_at fs p = Some m \<Longrightarrow> \<exists>d. node_at fs (butlast p) = Some d"
  by (cases p rule: rev_cases) (auto simp: node_at_snoc split: option.splits)

lemma node_at_butlast_dir:
  "node_at fs p = Some m \<Longrightarrow> p \<noteq> [] \<Longrightarrow> \<exists>d. node_at fs (butlast p) = Some d \<and> is_dir_node d"
  by (cases p rule: rev_cases) (auto simp: node_at_snoc split: option.splits dest: child_dir)

lemma child_not_lnk:
  "child d c = Some m \<Longrightarrow> is_lnk_node m \<longleftrightarrow> (\<exists>t. m = Lnk t)"
  by (cases m) auto

lemma is_lnk_nodeE: "\<not> is_lnk_node m \<Longrightarrow> (\<And>t. m \<noteq> Lnk t)"
  by (cases m) auto

text \<open>A successful resolution ends at a node that is no link.\<close>

lemma trace_node:
  "trace fs n p cs = Inr (q, k) \<Longrightarrow> \<exists>m. node_at fs p = Some m \<and> \<not> is_lnk_node m \<Longrightarrow>
   \<not> is_lnk_node fs \<Longrightarrow> \<exists>m. node_at fs q = Some m \<and> \<not> is_lnk_node m"
proof (induction fs n p cs rule: trace.induct)
  case (2 fs n p c cs)
  from "2.prems"(2) obtain d where d: "node_at fs p = Some d" by blast
  have dir: "is_dir_node d"
    using "2.prems"(1) d by (auto simp: trace.simps(2) split: if_splits)
  have up: "\<exists>m. node_at fs (butlast p) = Some m \<and> \<not> is_lnk_node m"
  proof (cases "p = []")
    case False
    with node_at_butlast_dir[OF d] show ?thesis
      by (metis is_dir_node.simps(3) is_lnk_node.elims(2))
  qed (use d "2.prems"(2) in simp)
  have start: "\<exists>m. node_at fs (link_start t p) = Some m \<and> \<not> is_lnk_node m" for t
    using "2.prems"(2,3) by (auto simp: link_start_def)
  consider "skips c" | "\<not> skips c" "c = ''..''" | "\<not> skips c" "c \<noteq> ''..''" by blast
  then show ?case
  proof cases
    case 1
    with "2.IH"(1)[OF d] dir "2.prems" d show ?thesis by (simp add: trace.simps(2))
  next
    case 2
    with "2.IH"(2)[OF d] dir "2.prems" d up show ?thesis by (simp add: trace.simps(2))
  next
    case 3
    from 3 dir d "2.prems"(1) obtain m where m: "child d c = Some m"
      by (auto simp: trace.simps(2) split: option.splits)
    show ?thesis
    proof (cases "is_lnk_node m")
      case True
      then obtain t where t: "m = Lnk t" by (cases m) auto
      with 3 dir d m "2.prems"(1) obtain j where j: "n = Suc j"
        by (cases n) (auto simp: trace.simps(2))
      from "2.IH"(5)[OF d] 3 dir d m t j "2.prems" start show ?thesis
        by (simp add: trace.simps(2))
    next
      case False
      with 3 dir d m "2.prems"(1) have "trace fs n (p @ [c]) cs = Inr (q, k)"
        by (cases m) (auto simp: trace.simps(2))
      moreover have "\<exists>m. node_at fs (p @ [c]) = Some m \<and> \<not> is_lnk_node m"
        using d m False by (simp add: node_at_snoc)
      ultimately show ?thesis
        using "2.IH"(3) "2.IH"(4) "2.IH"(6) 3 dir d m False "2.prems"(3) by (cases m) auto
    qed
  qed
qed simp

section \<open>Path texts\<close>

text \<open>\<open>os.path.join(str(base), value)\<close> for a canonical base.\<close>

definition os_join :: "path \<Rightarrow> string \<Rightarrow> string" where
  "os_join base value =
     (if prefix [slash] value then value
      else if base = [] then slash # value
      else posix_abs base @ [slash] @ value)"

definition components :: "string \<Rightarrow> string list" where
  "components text = split_on slash text"

text \<open>The parts of \<open>pathlib.Path(text)\<close> after its root.\<close>

definition pure_parts :: "string \<Rightarrow> string list" where
  "pure_parts text = filter (\<lambda>c. \<not> skips c) (components text)"

text \<open>\<open>base / value\<close> for a canonical base.\<close>

definition path_div :: "path \<Rightarrow> string \<Rightarrow> string list" where
  "path_div base value =
     (if prefix [slash] value then pure_parts value else base @ pure_parts value)"

definition basename :: "string \<Rightarrow> string" where
  "basename text = last (components text)"

definition dirname :: "string \<Rightarrow> string" where
  "dirname text =
     (let head = take (length text - length (basename text)) text
      in if rstrip_char slash head = [] then head else rstrip_char slash head)"

text \<open>
  \<open>os.path.abspath\<close> of an absolute text: dots are collapsed lexically, and exactly two leading
  slashes are kept (the first component of the result is then the empty one, so that
  \<open>posix_abs\<close> prints both).
\<close>

fun collapse :: "path \<Rightarrow> string list \<Rightarrow> path" where
  "collapse p [] = p"
| "collapse p (c # cs) =
     (if skips c then collapse p cs
      else if c = ''..'' then collapse (butlast p) cs
      else collapse (p @ [c]) cs)"

definition double_rooted :: "string \<Rightarrow> bool" where
  "double_rooted text \<longleftrightarrow> prefix [slash, slash] text \<and> \<not> prefix [slash, slash, slash] text"

definition abspath :: "string \<Rightarrow> path" where
  "abspath text = (if double_rooted text then [] # collapse [] (components text)
                   else collapse [] (components text))"

section \<open>Non-strict realpath\<close>

text \<open>
  The work list of \<open>posixpath.realpath\<close> holds names to resolve and, below the components of
  a link's target, a mark that the link is resolved once they are done. \<open>seen\<close> maps a link to
  its resolution, or to \<open>None\<close> while it is being resolved (a loop keeps the link's own path).
  Each link of the tree is expanded at most once, which bounds the loop.
\<close>

datatype rest_item = Name string | Resolved path

fun link_paths :: "node \<Rightarrow> path list" where
  "link_paths (Lnk t) = [[]]"
| "link_paths (Dir d i es) = concat (map (\<lambda>e. map ((#) (fst e)) (link_paths (snd e))) es)"
| "link_paths _ = []"

lemma link_paths_complete: "node_at fs p = Some (Lnk t) \<Longrightarrow> p \<in> set (link_paths fs)"
proof (induction fs p rule: node_at.induct)
  case (2 n c p)
  then obtain m where m: "child n c = Some m" and p: "p \<in> set (link_paths m)"
    by (auto split: option.splits)
  then show ?case by (cases n) (auto split: if_splits dest!: map_of_SomeD intro!: bexI)
qed simp

definition unresolved :: "node \<Rightarrow> (path \<times> path option) list \<Rightarrow> nat" where
  "unresolved fs seen = card (set (link_paths fs) - fst ` set seen)"

lemma unresolved_mono: "unresolved fs (e # seen) \<le> unresolved fs seen"
  by (auto simp: unresolved_def intro!: card_mono)

lemma unresolved_less:
  "node_at fs q = Some (Lnk t) \<Longrightarrow> map_of seen q = None \<Longrightarrow>
   unresolved fs ((q, r) # seen) < unresolved fs seen"
  by (auto simp: unresolved_def map_of_eq_None_iff dest!: link_paths_complete
      intro!: psubset_card_mono)

function realpath_loop ::
  "node \<Rightarrow> (path \<times> path option) list \<Rightarrow> path \<Rightarrow> rest_item list \<Rightarrow> path" where
  "realpath_loop fs seen p [] = p"
| "realpath_loop fs seen p (Resolved l # rest) = realpath_loop fs ((l, Some p) # seen) p rest"
| "realpath_loop fs seen p (Name c # rest) =
     (if skips c then realpath_loop fs seen p rest
      else if c = ''..'' then realpath_loop fs seen (butlast p) rest
      else
        (case node_at fs (p @ [c]) of
           Some (Lnk t) \<Rightarrow>
             (case map_of seen (p @ [c]) of
                Some (Some r) \<Rightarrow> realpath_loop fs seen r rest
              | Some None \<Rightarrow> realpath_loop fs seen (p @ [c]) rest
              | None \<Rightarrow>
                  realpath_loop fs ((p @ [c], None) # seen) (link_start t p)
                    (map Name (split_on slash t) @ Resolved (p @ [c]) # rest))
         | _ \<Rightarrow> realpath_loop fs seen (p @ [c]) rest))"
  by pat_completeness auto
termination
  by (relation "(\<lambda>(fs, seen, p, rest). unresolved fs seen) <*mlex*>
      measure (\<lambda>(fs, seen, p, rest). length rest)")
    (auto simp: wf_mlex intro: mlex_less mlex_leq unresolved_mono unresolved_less)

declare realpath_loop.simps(3) [simp del]

definition resolve :: "node \<Rightarrow> string list \<Rightarrow> path" where
  "resolve fs cs = realpath_loop fs [] [] (map Name cs)"

section \<open>Resolution without links\<close>

lemma trace_nolink_collapse: "trace fs 0 p cs = Inr (q, k) \<Longrightarrow> q = collapse p cs"
proof (induction cs arbitrary: p)
  case (Cons c cs)
  then show ?case
    by (auto simp: trace.simps(2) split: option.splits node.splits if_splits)
qed simp

lemma trace_nolink_realpath:
  "trace fs 0 p cs = Inr (q, k) \<Longrightarrow>
   realpath_loop fs seen p (map Name cs @ rest) = realpath_loop fs seen q rest"
proof (induction cs arbitrary: p)
  case (Cons c cs)
  then show ?case
    by (auto simp: trace.simps(2) realpath_loop.simps(3) node_at_snoc
        split: option.splits node.splits if_splits)
qed simp

lemma trace_resolve: "trace fs 0 [] cs = Inr (q, k) \<Longrightarrow> resolve fs cs = q"
  using trace_nolink_realpath[of fs "[]" cs q k "[]" "[]"] by (simp add: resolve_def)

lemma trace_nolinkI:
  "trace fs LINK_LIMIT [] cs = Inr (q, k) \<Longrightarrow> \<forall>i < length cs. \<not> is_symlink fs (take (Suc i) cs) \<Longrightarrow>
   k = LINK_LIMIT \<and> trace fs 0 [] cs = Inr (q, 0)"
proof (induction cs arbitrary: q k rule: rev_induct)
  case (snoc c cs)
  from snoc.prems(1) obtain q1 k1 where tr: "trace fs LINK_LIMIT [] cs = Inr (q1, k1)"
    and last: "trace fs k1 q1 [c] = Inr (q, k)"
    by (auto simp: trace_append split: sum.splits)
  have "\<forall>i < length cs. \<not> is_symlink fs (take (Suc i) cs)"
  proof (intro allI impI)
    fix i assume "i < length cs"
    then show "\<not> is_symlink fs (take (Suc i) cs)" using snoc.prems(2)[rule_format, of i] by simp
  qed
  from snoc.IH[OF tr this] have k1: "k1 = LINK_LIMIT" and tr0: "trace fs 0 [] cs = Inr (q1, 0)"
    by auto
  have nolink: "\<not> is_symlink fs (cs @ [c])"
    using snoc.prems(2) by (auto dest: spec[of _ "length cs"])
  have "trace fs 0 q1 [c] = Inr (q, 0) \<and> k = LINK_LIMIT"
    using last nolink tr k1
    by (auto simp: trace.simps(2) is_symlink_def holds_def lstat_def lwalk_def fwalk_def node_of_def
        node_at_snoc split: option.splits if_splits node.splits)
  then show ?case using tr0 by (simp add: trace_append)
qed simp

text \<open>Components that the kernel skips do not change a resolution that ends at a directory.\<close>

lemma trace_drop_skips:
  "trace fs n p cs = Inr (q, k) \<Longrightarrow> trace fs n p (filter (\<lambda>c. \<not> skips c) cs) = Inr (q, k)"
proof (induction cs arbitrary: n p)
  case (Cons c cs)
  from Cons.prems trace_append[of fs n p "[c]" cs] obtain q1 k1
    where c: "trace fs n p [c] = Inr (q1, k1)" and cs: "trace fs k1 q1 cs = Inr (q, k)"
    by (auto split: sum.splits)
  show ?case
  proof (cases "skips c")
    case True
    with c have "q1 = p" "k1 = n" by (auto simp: trace.simps(2) split: option.splits if_splits)
    with True Cons.IH cs show ?thesis by simp
  next
    case False
    with c Cons.IH[OF cs] trace_append[of fs n p "[c]" "filter (\<lambda>c. \<not> skips c) cs"]
    show ?thesis by simp
  qed
qed simp

lemma trace_start_dir:
  "trace fs n p (c # cs) = Inr (q, k) \<Longrightarrow> \<exists>d. node_at fs p = Some d \<and> is_dir_node d"
  by (auto simp: trace.simps(2) split: option.splits if_splits)

lemma trace_add_skips:
  "trace fs n p (filter (\<lambda>c. \<not> skips c) cs) = Inr (q, k) \<Longrightarrow>
   node_at fs q = Some d \<Longrightarrow> is_dir_node d \<Longrightarrow> trace fs n p cs = Inr (q, k)"
proof (induction cs arbitrary: n p)
  case (Cons c cs)
  show ?case
  proof (cases "skips c")
    case True
    with Cons have tr: "trace fs n p cs = Inr (q, k)" by simp
    have "\<exists>d. node_at fs p = Some d \<and> is_dir_node d"
    proof (cases "filter (\<lambda>c. \<not> skips c) cs")
      case Nil
      with True Cons.prems show ?thesis by simp
    next
      case (Cons c' cs')
      with True \<open>trace fs n p (filter _ (c # cs)) = Inr (q, k)\<close> show ?thesis
        by (auto dest: trace_start_dir)
    qed
    with True tr show ?thesis by (auto simp: trace.simps(2))
  next
    case False
    with Cons.prems(1) trace_append[of fs n p "[c]" "filter (\<lambda>c. \<not> skips c) cs"]
    obtain q1 k1 where "trace fs n p [c] = Inr (q1, k1)"
      and "trace fs k1 q1 (filter (\<lambda>c. \<not> skips c) cs) = Inr (q, k)"
      by (auto split: sum.splits)
    with Cons.IH Cons.prems(2,3) trace_append[of fs n p "[c]" cs] show ?thesis by simp
  qed
qed simp

lemma trace_more_budget:
  "trace fs 0 p cs = Inr (q, k) \<Longrightarrow> k = 0 \<and> trace fs n p cs = Inr (q, n)"
proof (induction cs arbitrary: p)
  case (Cons c cs)
  then show ?case
    by (auto simp: trace.simps(2) split: option.splits node.splits if_splits)
qed simp

lemma nolink_walks:
  assumes "trace fs 0 [] cs = Inr (q, k)" and "\<not> is_lnk_node fs"
  shows "fwalk fs cs = Inr q" and "lwalk fs cs = Inr q"
    and "\<exists>m. node_at fs q = Some m \<and> \<not> is_lnk_node m"
proof -
  from trace_more_budget[OF assms(1)] show f: "fwalk fs cs = Inr q" by (simp add: fwalk_def)
  from trace_node[OF assms(1)] assms(2)
  show m: "\<exists>m. node_at fs q = Some m \<and> \<not> is_lnk_node m" by simp
  show "lwalk fs cs = Inr q"
  proof (cases cs rule: rev_cases)
    case Nil
    with assms(1) show ?thesis by (simp add: lwalk_def)
  next
    case (snoc xs c)
    with assms(1) obtain q1 k1 where tr: "trace fs 0 [] xs = Inr (q1, k1)"
      and c: "trace fs k1 q1 [c] = Inr (q, k)" by (auto simp: trace_append split: sum.splits)
    from trace_more_budget[OF tr] have "fwalk fs xs = Inr q1" and "k1 = 0"
      by (simp_all add: fwalk_def)
    with snoc c f show ?thesis
      by (auto simp: lwalk_def trace.simps(2) split: option.splits if_splits node.splits)
  qed
qed

text \<open>
  The weight of a path is the size of the tree at the entry it names; the children of a
  directory reached without links weigh less than the directory.
\<close>

definition entry_weight :: "node \<Rightarrow> string list \<Rightarrow> nat" where
  "entry_weight fs cs = (case lwalk fs cs of Inl e \<Rightarrow> 0 | Inr q \<Rightarrow> weight (node_at fs q))"

lemma proper_not_skips: "proper_name c \<Longrightarrow> \<not> skips c \<and> c \<noteq> ''..''"
  by (auto simp: proper_name_def skips_def)

lemma entry_weight_child:
  assumes "fwalk fs cs = Inr q" and "node_at fs q = Some (Dir d i es)" and "c \<in> set (entry_names es)"
  shows "entry_weight fs (cs @ [c]) = weight (child (Dir d i es) c)"
proof -
  from assms(3) have c: "proper_name c" "c \<in> fst ` set es" by (auto simp: entry_names_def)
  then obtain m where "map_of es c = Some m"
    by (metis domD dom_map_of_conv_image_fst)
  with c assms(1,2) proper_not_skips[OF c(1)] show ?thesis
    by (simp add: entry_weight_def lwalk_def node_at_snoc)
qed

lemma children_weight:
  assumes "fwalk fs cs = Inr q" and "lwalk fs cs = Inr q" and "node_at fs q = Some (Dir d i es)"
    and "set names \<subseteq> set (entry_names es)" and "distinct names"
  shows "sum_list (map (\<lambda>c. entry_weight fs (cs @ [c])) names) < entry_weight fs cs"
proof -
  have dist: "distinct (entry_names es)" by (simp add: entry_names_def)
  have "sum_list (map (\<lambda>c. entry_weight fs (cs @ [c])) names) =
      (\<Sum>c\<in>set names. entry_weight fs (cs @ [c]))"
    using assms(5) by (simp add: sum_list_distinct_conv_sum_set)
  also have "\<dots> \<le> (\<Sum>c\<in>set (entry_names es). entry_weight fs (cs @ [c]))"
    using assms(4) by (intro sum_mono2) auto
  also have "\<dots> = (\<Sum>c\<in>set (entry_names es). weight (child (Dir d i es) c))"
    using entry_weight_child[OF assms(1,3)] by (intro sum.cong) auto
  also have "\<dots> = sum_list (map (\<lambda>c. weight (child (Dir d i es) c)) (entry_names es))"
    using dist by (simp add: sum_list_distinct_conv_sum_set)
  also have "\<dots> < entry_weight fs cs"
    using sum_children_weight[of d i es] assms(2,3) by (simp add: entry_weight_def weight_def)
  finally show ?thesis .
qed

text \<open>
  The number of pops a stack traversal from an entry needs: one for a missing entry, the number
  of nodes of its tree otherwise. It is the fuel of the traversal loops.
\<close>

definition cost :: "node \<Rightarrow> string list \<Rightarrow> nat" where
  "cost fs cs = max 1 (entry_weight fs cs)"

lemma cost_pos [simp]: "0 < cost fs cs"
  by (simp add: cost_def)

lemma children_cost:
  assumes "fwalk fs cs = Inr q" and "lwalk fs cs = Inr q" and "node_at fs q = Some (Dir d i es)"
    and "set names \<subseteq> set (entry_names es)" and "distinct names"
  shows "sum_list (map (\<lambda>c. cost fs (cs @ [c])) names) < cost fs cs"
proof -
  have "cost fs (cs @ [c]) = entry_weight fs (cs @ [c])" if "c \<in> set names" for c
  proof -
    from that assms(4) have c: "c \<in> set (entry_names es)" by blast
    then have "proper_name c" "c \<in> fst ` set es" by (auto simp: entry_names_def)
    then obtain m where "map_of es c = Some m" by (metis domD dom_map_of_conv_image_fst)
    with entry_weight_child[OF assms(1,3) c] \<open>proper_name c\<close> nodes_pos[of m]
    show ?thesis by (simp add: cost_def weight_def del: nodes_pos)
  qed
  then have "map (\<lambda>c. cost fs (cs @ [c])) names = map (\<lambda>c. entry_weight fs (cs @ [c])) names"
    by simp
  then have "sum_list (map (\<lambda>c. cost fs (cs @ [c])) names) < entry_weight fs cs"
    using children_weight[OF assms] by (simp only:)
  then show ?thesis by (simp add: cost_def)
qed

lemma root_not_link:
  "trace fs n [] cs = Inr (q, k) \<Longrightarrow> node_at fs q = Some m \<Longrightarrow> is_dir_node m \<Longrightarrow> \<not> is_lnk_node fs"
  by (cases cs) (auto dest!: trace_start_dir; cases fs; auto)+

end
