(* ===== verification/Roboz_Paths.thy ===== *)
theory Roboz_Paths
  imports Roboz_Files
begin

text \<open>
  Path checks and source-pattern expansion of the file CLI
  (\<open>shed/tools/cli_commands/paths.py\<close> and the shared checks of \<open>commands/writers.py\<close>).
  A preparation deadline is a budget: the number of \<open>check_deadline()\<close> calls that still pass,
  or \<open>None\<close> for the unlimited check; the clock is monotone, so once one check fails all later
  ones do. A computation over it is a function of type \<open>timed\<close>.
\<close>

section \<open>Deadlines\<close>

type_synonym budget = "nat option"
type_synonym 'a timed = "budget \<Rightarrow> cli_error + 'a \<times> budget"

definition tret :: "'a \<Rightarrow> 'a timed" where
  "tret x b = Inr (x, b)"

definition tbind :: "'a timed \<Rightarrow> ('a \<Rightarrow> 'b timed) \<Rightarrow> 'b timed" where
  "tbind m f b = (case m b of Inl e \<Rightarrow> Inl e | Inr (x, b') \<Rightarrow> f x b')"

definition tlift :: "cli_error + 'a \<Rightarrow> 'a timed" where
  "tlift r b = (case r of Inl e \<Rightarrow> Inl e | Inr x \<Rightarrow> Inr (x, b))"

definition check_deadline :: "unit timed" where
  "check_deadline b =
     (case b of
        None \<Rightarrow> Inr ((), None)
      | Some 0 \<Rightarrow> Inl PreparationTimeout
      | Some (Suc k) \<Rightarrow> Inr ((), Some k))"

fun check_deadlines :: "nat \<Rightarrow> unit timed" where
  "check_deadlines 0 = tret ()"
| "check_deadlines (Suc n) = tbind check_deadline (\<lambda>_. check_deadlines n)"

lemma tret_Inr [result_simps]: "tret x b = Inr (y, b') \<longleftrightarrow> x = y \<and> b = b'"
  by (auto simp: tret_def)

lemma tbind_Inr [result_simps]:
  "tbind m f b = Inr (y, b') \<longleftrightarrow> (\<exists>x b1. m b = Inr (x, b1) \<and> f x b1 = Inr (y, b'))"
  by (auto simp: tbind_def split: sum.splits prod.splits)

lemma tlift_Inr [result_simps]: "tlift r b = Inr (y, b') \<longleftrightarrow> r = Inr y \<and> b = b'"
  by (auto simp: tlift_def split: sum.splits)

lemma tbind_cong [fundef_cong]:
  "m b = m' b' \<Longrightarrow> (\<And>x b1. m' b' = Inr (x, b1) \<Longrightarrow> f x b1 = f' x b1) \<Longrightarrow>
   tbind m f b = tbind m' f' b'"
  by (auto simp: tbind_def split: sum.splits prod.splits)

section \<open>Literal paths\<close>

definition resolve_tool_base :: "node \<Rightarrow> string option \<Rightarrow> cli_error + path" where
  "resolve_tool_base fs base =
     (case base of
        None \<Rightarrow> Inl (InvalidArguments ''Base is required'')
      | Some text \<Rightarrow>
          if \<not> prefix [slash] text then Inl (InvalidArguments ''Base must be absolute'')
          else
            (let resolved = resolve fs (pure_parts text)
             in if is_file fs resolved then Inl (InvalidArguments ''Base needs to be a folder'')
                else Inr resolved))"

definition first_symlink :: "node \<Rightarrow> string list \<Rightarrow> nat \<Rightarrow> nat option" where
  "first_symlink fs cs n = find (\<lambda>i. is_symlink fs (take (Suc i) cs)) [0..<n]"

definition reject_symlink_components :: "node \<Rightarrow> string list \<Rightarrow> cli_error + unit" where
  "reject_symlink_components fs cs =
     (case first_symlink fs cs (length cs) of
        None \<Rightarrow> Inr ()
      | Some i \<Rightarrow> Inl (SymlinkUnsupported (take (Suc i) cs)))"

definition resolve_literal_path :: "node \<Rightarrow> string \<Rightarrow> path \<Rightarrow> cli_error + path" where
  "resolve_literal_path fs value base =
     (let cs = path_div base value
      in rbind (reject_symlink_components fs cs) (\<lambda>_.
           let resolved = resolve fs cs
           in if suffix [slash] value \<and> path_exists fs resolved \<and> \<not> is_dir fs resolved
              then Inl (TrailingSlash value)
              else Inr resolved))"

definition glob_char :: "char \<Rightarrow> bool" where
  "glob_char c \<longleftrightarrow> c \<in> set ''*?[]''"

definition resolve_single_file_path :: "node \<Rightarrow> string \<Rightarrow> path \<Rightarrow> cli_error + path" where
  "resolve_single_file_path fs raw base =
     (if list_ex glob_char raw then Inl (BadPattern raw)
      else if raw = [] \<or> char_of (0 :: nat) \<in> set raw
        then Inl (InvalidArguments ''Path must refer to a regular file'')
      else
        rbind (resolve_literal_path fs raw base) (\<lambda>resolved.
          if suffix [slash] raw \<or> resolved = [] \<or> last resolved \<in> {[], ''.'', ''..''}
          then Inl (InvalidArguments ''Path must refer to a regular file'')
          else Inr resolved))"

text \<open>
  The lexical location of a named entry and, without following a terminal link, its node; the
  parents, with their dots and repeated separators, must not be links.
\<close>

definition inspect_entry_path :: "node \<Rightarrow> string \<Rightarrow> path \<Rightarrow> cli_error + path \<times> node option" where
  "inspect_entry_path fs value base =
     (let text = os_join base value; cs = components text
      in case first_symlink fs cs (length cs - 1) of
           Some i \<Rightarrow> Inl (SymlinkUnsupported (take (Suc i) cs))
         | None \<Rightarrow>
             (case lstat fs cs of
                Inr n \<Rightarrow> Inr (abspath text, Some n)
              | Inl ENOENT \<Rightarrow> Inr (abspath text, None)
              | Inl ENOTDIR \<Rightarrow> Inr (abspath text, None)
              | Inl ELOOP \<Rightarrow> Inl (OSError ELOOP)))"

definition source_path_stat :: "node \<Rightarrow> string \<Rightarrow> path \<Rightarrow> bool \<Rightarrow> cli_error + node option" where
  "source_path_stat fs value base allow_terminal_symlinks =
     (if allow_terminal_symlinks
      then rbind (inspect_entry_path fs value base) (\<lambda>r. Inr (snd r))
      else
        rbind (resolve_literal_path fs value base) (\<lambda>_.
          (case stat fs (pure_parts value) of
             Inr n \<Rightarrow> Inr (Some n)
           | Inl ENOENT \<Rightarrow> Inr None
           | Inl ENOTDIR \<Rightarrow> Inr None
           | Inl ELOOP \<Rightarrow> Inl (OSError ELOOP))))"

section \<open>Regular files and directories\<close>

definition inspect_file_path :: "node \<Rightarrow> string \<Rightarrow> path \<Rightarrow> cli_error + path \<times> node option" where
  "inspect_file_path fs path_arg base =
     rbind (resolve_literal_path fs path_arg base) (\<lambda>resolved.
       (case stat fs (components (os_join base path_arg)) of
          Inl ENOENT \<Rightarrow> Inr (resolved, None)
        | Inl e \<Rightarrow> Inl (OSError e)
        | Inr n \<Rightarrow>
            if \<not> (is_reg_node n \<or> is_dir_node n) then Inl (WrongFileType resolved)
            else if is_reg_node n \<and> 1 < st_nlink n then Inl (HardLinkUnsupported resolved)
            else Inr (resolved, Some n)))"

section \<open>Expansion of source patterns\<close>

definition directory_entries :: "node \<Rightarrow> string list \<Rightarrow> string list timed" where
  "directory_entries fs cs =
     tbind check_deadline (\<lambda>_.
       (case stat fs cs of
          Inl e \<Rightarrow> tlift (Inl (OSError e))
        | Inr (Dir _ _ es) \<Rightarrow>
            tbind (check_deadlines (length (entry_names es))) (\<lambda>_.
              tbind check_deadline (\<lambda>_. tret (entry_names es)))
        | Inr _ \<Rightarrow> tlift (Inl (OSError ENOTDIR))))"

definition starred :: "string \<Rightarrow> bool" where
  "starred c \<longleftrightarrow> CHR ''*'' \<in> set c"

definition split_source_pattern :: "string \<Rightarrow> cli_error + string \<times> string list" where
  "split_source_pattern value =
     (let parts = components value; first = length (takeWhile (\<lambda>c. \<not> starred c) parts)
      in if ''***'' \<in> set (butlast parts) then Inl (BadPattern value)
         else if 1 < count_list (butlast parts) ''**'' then Inl (BadPattern value)
         else Inr (if first = 0 then [] else join_with [slash] (take first parts) @ [slash],
                   drop first parts))"

definition prefix_dir :: "string \<Rightarrow> string" where
  "prefix_dir p = (if rstrip_char slash p = [] then [slash] else rstrip_char slash p)"

definition component_matches :: "string \<Rightarrow> string \<Rightarrow> bool" where
  "component_matches component name \<longleftrightarrow>
     (\<not> prefix ''.'' name \<or> prefix ''.'' component) \<and> match_chars component name"

definition is_dir_entry :: "node option \<Rightarrow> bool" where
  "is_dir_entry n = (case n of None \<Rightarrow> False | Some m \<Rightarrow> is_dir_node m)"

definition expand_source_component ::
  "node \<Rightarrow> string \<Rightarrow> string \<Rightarrow> path \<Rightarrow> string list timed" where
  "expand_source_component fs pre component base =
     tbind check_deadline (\<lambda>_.
       tbind (tlift (source_path_stat fs (prefix_dir pre) base False)) (\<lambda>st.
         if \<not> is_dir_entry st then tret []
         else if \<not> starred component then tret [pre @ component]
         else
           tbind (directory_entries fs (pure_parts pre)) (\<lambda>names.
             tret (map ((@) pre) (filter (component_matches component) names)))))"

text \<open>The directories among the children of one popped prefix, with their trailing slash.\<close>

fun child_prefixes :: "node \<Rightarrow> path \<Rightarrow> bool \<Rightarrow> string list \<Rightarrow> string list timed" where
  "child_prefixes fs base allow [] = tret []"
| "child_prefixes fs base allow (c # cs) =
     tbind check_deadline (\<lambda>_.
       tbind (tlift (source_path_stat fs c base allow)) (\<lambda>st.
         tbind (child_prefixes fs base allow cs) (\<lambda>ds.
           tret (if is_dir_entry st then (c @ [slash]) # ds else ds))))"

definition prefix_step :: "node \<Rightarrow> path \<Rightarrow> bool \<Rightarrow> string \<Rightarrow> string list timed" where
  "prefix_step fs base allow pre =
     tbind (expand_source_component fs pre ''*'' base) (child_prefixes fs base allow)"

text \<open>The traversal stack has its top first; the code appends and pops at the end.\<close>

fun prefix_loop ::
  "node \<Rightarrow> path \<Rightarrow> bool \<Rightarrow> nat \<Rightarrow> string list \<Rightarrow> string list \<Rightarrow> string list timed" where
  "prefix_loop fs base allow fuel [] found b = Inr (found, b)"
| "prefix_loop fs base allow 0 (p # pending) found b = Inl OutOfFuel"
| "prefix_loop fs base allow (Suc fuel) (p # pending) found b =
     (case prefix_step fs base allow p b of
        Inl e \<Rightarrow> Inl e
      | Inr (ds, b') \<Rightarrow> prefix_loop fs base allow fuel (rev ds @ pending) (found @ ds) b')"

definition recursive_directory_prefixes ::
  "node \<Rightarrow> string \<Rightarrow> path \<Rightarrow> bool \<Rightarrow> bool \<Rightarrow> string list timed" where
  "recursive_directory_prefixes fs pre base include_root allow =
     tbind (tlift (source_path_stat fs (prefix_dir pre) base False)) (\<lambda>st.
       if \<not> is_dir_entry st then tret []
       else prefix_loop fs base allow (cost fs (pure_parts pre)) [pre]
         (if include_root then [pre] else []))"

text \<open>A concatenating traversal: the body of the loops over prefixes.\<close>

fun tconcat :: "('a \<Rightarrow> 'b list timed) \<Rightarrow> 'a list \<Rightarrow> 'b list timed" where
  "tconcat f [] = tret []"
| "tconcat f (x # xs) = tbind (f x) (\<lambda>ys. tbind (tconcat f xs) (\<lambda>zs. tret (ys @ zs)))"

text \<open>The loop over the pattern components; \<open>outer\<close> is \<open>bool(literal_prefix) or index > 0\<close>.\<close>

fun expand_components ::
  "node \<Rightarrow> path \<Rightarrow> bool \<Rightarrow> bool \<Rightarrow> string list \<Rightarrow> string list \<Rightarrow> string list timed" where
  "expand_components fs base allow outer [] pres = tret pres"
| "expand_components fs base allow outer (c # cs) pres =
     (if c = ''**'' \<and> cs \<noteq> [] then
        tbind (tconcat (\<lambda>p. recursive_directory_prefixes fs p base
                 (outer \<or> list_ex (\<lambda>r. r \<noteq> []) cs) allow) pres)
          (expand_components fs base allow True cs)
      else
        tbind (tconcat (\<lambda>p. expand_source_component fs p c base) pres) (\<lambda>ms.
          expand_components fs base allow True cs
            (if cs \<noteq> [] then map (\<lambda>m. m @ [slash]) ms else ms)))"

fun existing_matches :: "node \<Rightarrow> path \<Rightarrow> bool \<Rightarrow> string list \<Rightarrow> string list timed" where
  "existing_matches fs base allow [] = tret []"
| "existing_matches fs base allow (p # ps) =
     tbind check_deadline (\<lambda>_.
       tbind (tlift (source_path_stat fs p base allow)) (\<lambda>st.
         tbind (existing_matches fs base allow ps) (\<lambda>rs.
           tret (if st = None then rs else p # rs))))"

definition remove_prefix :: "string \<Rightarrow> string \<Rightarrow> string" where
  "remove_prefix pre text = (if prefix pre text then drop (length pre) text else text)"

definition expand_source_path ::
  "node \<Rightarrow> string \<Rightarrow> path \<Rightarrow> bool \<Rightarrow> bool \<Rightarrow> string list timed" where
  "expand_source_path fs value base preserve_relative allow =
     tbind check_deadline (\<lambda>_.
        if \<not> starred value then tret [if preserve_relative then value else os_join base value]
        else
          tbind (tlift (split_source_pattern value)) (\<lambda>(literal_prefix, cs).
            tbind (expand_components fs base allow (literal_prefix \<noteq> []) cs
                     [os_join base literal_prefix]) (\<lambda>pres.
              tbind (existing_matches fs base allow pres) (\<lambda>results.
                if results = [] then tlift (Inl (NoMatches value))
                else
                  (let shown =
                     (if preserve_relative \<and> \<not> prefix [slash] value
                      then map (remove_prefix (os_join base [])) results else results)
                   in tbind check_deadline (\<lambda>_. tret (sort shown)))))))"

section \<open>Locations are physical\<close>

lemma first_symlink_None: "first_symlink fs cs n = None \<longleftrightarrow> (\<forall>i < n. \<not> is_symlink fs (take (Suc i) cs))"
  by (auto simp: first_symlink_def find_None_iff)

lemma reject_symlink_components_Inr:
  "reject_symlink_components fs cs = Inr u \<longleftrightarrow> (\<forall>i < length cs. \<not> is_symlink fs (take (Suc i) cs))"
  by (auto simp: reject_symlink_components_def first_symlink_None[symmetric] split: option.splits)

lemma resolve_literal_path_InrD:
  "resolve_literal_path fs value base = Inr loc \<Longrightarrow>
   loc = resolve fs (path_div base value) \<and>
   (\<forall>i < length (path_div base value). \<not> is_symlink fs (take (Suc i) (path_div base value)))"
  by (auto simp: resolve_literal_path_def Let_def result_simps reject_symlink_components_Inr
      split: if_splits)

lemma fwalk_Inr: "fwalk fs cs = Inr q \<longleftrightarrow> (\<exists>k. trace fs LINK_LIMIT [] cs = Inr (q, k))"
  by (auto simp: fwalk_def split: sum.splits)

lemma resolve_literal_path_physical:
  assumes "resolve_literal_path fs value base = Inr loc" and "fwalk fs (path_div base value) = Inr q"
  shows "loc = q \<and> trace fs 0 [] (path_div base value) = Inr (q, 0)"
  using resolve_literal_path_InrD[OF assms(1)] assms(2) trace_nolinkI trace_resolve
  by (metis fwalk_Inr)

lemma collapse_append: "collapse p (xs @ ys) = collapse (collapse p xs) ys"
  by (induction p xs rule: collapse.induct) auto

lemma lwalk_snoc:
  "\<not> skips c \<Longrightarrow> c \<noteq> ''..'' \<Longrightarrow> lwalk fs (cs @ [c]) = Inr q \<longleftrightarrow>
   (\<exists>p d m. fwalk fs cs = Inr p \<and> node_at fs p = Some d \<and> is_dir_node d \<and> child d c = Some m \<and>
     q = p @ [c])"
  by (auto simp: lwalk_def split: sum.splits option.splits)

lemma lwalk_special:
  "skips c \<or> c = ''..'' \<Longrightarrow> lwalk fs (cs @ [c]) = fwalk fs (cs @ [c])"
  by (auto simp: lwalk_def)

lemma special_not_symlink:
  assumes "skips c \<or> c = ''..''"
  shows "\<not> is_symlink fs (cs @ [c])"
proof
  assume "is_symlink fs (cs @ [c])"
  then obtain q t where w: "fwalk fs (cs @ [c]) = Inr q" and q: "node_at fs q = Some (Lnk t)"
    by (auto simp: is_symlink_def holds_def lstat_def node_of_def lwalk_special[OF assms]
        split: sum.splits option.splits elim: is_lnk_node.elims)
  then obtain k where tr: "trace fs LINK_LIMIT [] (cs @ [c]) = Inr (q, k)" by (auto simp: fwalk_Inr)
  moreover obtain a as where "cs @ [c] = a # as" by (cases "cs @ [c]") auto
  ultimately have "is_dir_node fs" using trace_start_dir[of fs LINK_LIMIT "[]" a as q k] by auto
  then have "\<not> is_lnk_node fs" by (cases fs) auto
  with trace_node[OF tr] q show False by auto
qed

text \<open>If no component but the last is a link, the entry is where the collapsed text says.\<close>

lemma lwalk_collapse:
  assumes "lwalk fs cs = Inr q" and "\<forall>i < length cs - 1. \<not> is_symlink fs (take (Suc i) cs)"
  shows "q = collapse [] cs"
proof (cases cs rule: rev_cases)
  case Nil
  with assms(1) show ?thesis by (simp add: lwalk_def)
next
  case (snoc xs c)
  have pre: "\<forall>i < length xs. \<not> is_symlink fs (take (Suc i) xs)"
  proof (intro allI impI)
    fix i assume "i < length xs"
    with assms(2)[rule_format, of i] snoc show "\<not> is_symlink fs (take (Suc i) xs)" by simp
  qed
  show ?thesis
  proof (cases "skips c \<or> c = ''..''")
    case True
    have "\<forall>i < length cs. \<not> is_symlink fs (take (Suc i) cs)"
    proof (intro allI impI)
      fix i assume "i < length cs"
      with pre special_not_symlink[OF True, of fs xs] snoc
      show "\<not> is_symlink fs (take (Suc i) cs)" by (cases "i < length xs") auto
    qed
    moreover obtain k where "trace fs LINK_LIMIT [] cs = Inr (q, k)"
      using assms(1) lwalk_special[OF True, of fs xs] snoc by (auto simp: fwalk_Inr)
    ultimately show ?thesis using trace_nolinkI trace_nolink_collapse by blast
  next
    case False
    with assms(1) snoc obtain p where p: "fwalk fs xs = Inr p" "q = p @ [c]"
      by (auto simp: lwalk_snoc)
    then obtain k where "trace fs LINK_LIMIT [] xs = Inr (p, k)" by (auto simp: fwalk_Inr)
    with pre have "p = collapse [] xs" using trace_nolinkI trace_nolink_collapse by blast
    with p snoc False show ?thesis by (simp add: collapse_append)
  qed
qed

lemma inspect_entry_path_physical:
  assumes "inspect_entry_path fs value base = Inr (loc, Some n)"
  shows "\<exists>q. lwalk fs (components (os_join base value)) = Inr q \<and> node_at fs q = Some n \<and>
    loc = (if double_rooted (os_join base value) then [] # q else q)"
proof -
  let ?cs = "components (os_join base value)"
  from assms have pre: "\<forall>i < length ?cs - 1. \<not> is_symlink fs (take (Suc i) ?cs)"
    and st: "lstat fs ?cs = Inr n" and loc: "loc = abspath (os_join base value)"
    by (auto simp: inspect_entry_path_def Let_def first_symlink_None[symmetric]
        split: option.splits sum.splits os_error.splits)
  from st obtain q where q: "lwalk fs ?cs = Inr q" "node_at fs q = Some n"
    by (auto simp: lstat_def node_of_def split: sum.splits option.splits)
  from lwalk_collapse[OF q(1) pre] q loc show ?thesis by (auto simp: abspath_def)
qed


lemma inspect_file_path_Some:
  "inspect_file_path fs t base = Inr (l, Some n) \<longleftrightarrow>
   resolve_literal_path fs t base = Inr l \<and> stat fs (components (os_join base t)) = Inr n \<and>
   (is_reg_node n \<or> is_dir_node n) \<and> \<not> (is_reg_node n \<and> 1 < st_nlink n)"
proof (cases "stat fs (components (os_join base t))")
  case (Inl e)
  then show ?thesis by (cases e) (auto simp: inspect_file_path_def rbind_Inr_iff)
next
  case (Inr m)
  then show ?thesis by (auto simp: inspect_file_path_def rbind_Inr_iff)
qed

lemma inspect_file_path_literal:
  "inspect_file_path fs t base = Inr (l, e) \<Longrightarrow> resolve_literal_path fs t base = Inr l"
proof (cases "stat fs (components (os_join base t))")
  case (Inl err)
  then show "inspect_file_path fs t base = Inr (l, e) \<Longrightarrow> resolve_literal_path fs t base = Inr l"
    by (cases err) (auto simp: inspect_file_path_def rbind_Inr_iff)
next
  case (Inr m)
  then show "inspect_file_path fs t base = Inr (l, e) \<Longrightarrow> resolve_literal_path fs t base = Inr l"
    by (auto simp: inspect_file_path_def rbind_Inr_iff split: if_splits)
qed

section \<open>Texts of prefixes\<close>

lemma split_on_sep: "split_on c (xs @ c # ys) = split_on c xs @ split_on c ys"
proof (induction xs)
  case (Cons x xs)
  obtain w ws where "split_on c xs = w # ws" by (cases "split_on c xs") auto
  with Cons show ?case by auto
qed simp

lemma components_slash: "components (xs @ slash # ys) = components xs @ components ys"
  by (simp add: components_def split_on_sep)

lemma components_name: "slash \<notin> set c \<Longrightarrow> components c = [c]"
  by (simp add: components_def split_on_word)

lemma pure_parts_slash: "pure_parts (xs @ slash # ys) = pure_parts xs @ pure_parts ys"
  by (simp add: pure_parts_def components_slash)

lemma pure_parts_Nil [simp]: "pure_parts [] = []"
  by (simp add: pure_parts_def components_def skips_def)

lemma pure_parts_name: "proper_name c \<Longrightarrow> pure_parts c = [c]"
  by (simp add: pure_parts_def components_name proper_name_def skips_def)

lemma rstrip_char_snoc: "rstrip_char c (xs @ [x]) = (if x = c then rstrip_char c xs else xs @ [x])"
  by (simp add: rstrip_char_def)

lemma pure_parts_rstrip: "pure_parts (rstrip_char slash p) = pure_parts p"
proof (induction p rule: rev_induct)
  case Nil
  then show ?case by (simp add: rstrip_char_def)
next
  case (snoc x xs)
  then show ?case using pure_parts_slash[of xs "[]"] by (auto simp: rstrip_char_snoc)
qed

lemma pure_parts_root [simp]: "pure_parts [slash] = []"
  using pure_parts_slash[of "[]" "[]"] by simp

lemma pure_parts_prefix_dir: "pure_parts (prefix_dir p) = pure_parts p"
  using pure_parts_rstrip[of p] by (auto simp: prefix_dir_def)

lemma prefix_dir_absolute: "prefix [slash] p \<Longrightarrow> prefix [slash] (prefix_dir p)"
  using rstrip_char_prefix[of slash p]
  by (cases "rstrip_char slash p") (auto simp: prefix_dir_def prefix_def)

lemma path_div_absolute: "prefix [slash] value \<Longrightarrow> path_div base value = pure_parts value"
  by (simp add: path_div_def)

section \<open>Traversal fuel\<close>

lemma source_path_stat_dir:
  assumes "source_path_stat fs v base False = Inr (Some n)" and "is_dir_node n" and "prefix [slash] v"
  shows "\<exists>q. node_at fs q = Some n \<and> fwalk fs (pure_parts v) = Inr q \<and> lwalk fs (pure_parts v) = Inr q"
proof -
  from assms(1) obtain loc where loc: "resolve_literal_path fs v base = Inr loc"
    and st: "stat fs (pure_parts v) = Inr n"
    by (auto simp: source_path_stat_def result_simps split: sum.splits os_error.splits)
  from st obtain q where q: "fwalk fs (pure_parts v) = Inr q" "node_at fs q = Some n"
    by (auto simp: stat_def node_of_def split: sum.splits option.splits)
  from resolve_literal_path_physical[OF loc] q(1) path_div_absolute[OF assms(3)]
  have tr: "trace fs 0 [] (pure_parts v) = Inr (q, 0)" by simp
  from nolink_walks[OF tr root_not_link[OF tr q(2) assms(2)]] q show ?thesis by blast
qed

lemma directory_entries_Inr:
  "directory_entries fs cs b = Inr (names, b') \<Longrightarrow>
   \<exists>q d i es. fwalk fs cs = Inr q \<and> node_at fs q = Some (Dir d i es) \<and> names = entry_names es"
  by (auto simp: directory_entries_def result_simps stat_def node_of_def
      split: sum.splits option.splits node.splits)

definition selects_dir :: "node \<Rightarrow> path \<Rightarrow> bool \<Rightarrow> string \<Rightarrow> bool" where
  "selects_dir fs base allow c =
     (case source_path_stat fs c base allow of Inl e \<Rightarrow> False | Inr st \<Rightarrow> is_dir_entry st)"

lemma child_prefixes_Inr:
  "child_prefixes fs base allow cs b = Inr (ds, b') \<Longrightarrow>
   ds = map (\<lambda>c. c @ [slash]) (filter (selects_dir fs base allow) cs)"
  by (induction cs arbitrary: ds b) (auto simp: result_simps selects_dir_def split: if_splits)

lemma prefix_step_cost:
  assumes "prefix_step fs base allow p b = Inr (ds, b')" and "prefix [slash] p" and "suffix [slash] p"
  shows "(\<forall>d \<in> set ds. prefix [slash] d \<and> suffix [slash] d) \<and>
    sum_list (map (\<lambda>d. cost fs (pure_parts d)) ds) < cost fs (pure_parts p)"
proof -
  from assms(1) obtain cs b1 where cs: "expand_source_component fs p ''*'' base b = Inr (cs, b1)"
    and ds: "child_prefixes fs base allow cs b1 = Inr (ds, b')"
    by (auto simp: prefix_step_def result_simps)
  note ds_eq = child_prefixes_Inr[OF ds]
  have "starred ''*''" by (simp add: starred_def)
  with cs consider "cs = []"
    | n names b2 b3 where "source_path_stat fs (prefix_dir p) base False = Inr (Some n)" "is_dir_node n"
        "directory_entries fs (pure_parts p) b2 = Inr (names, b3)"
        "cs = map ((@) p) (filter (component_matches ''*'') names)"
    by (auto simp: expand_source_component_def result_simps is_dir_entry_def
        split: if_splits option.splits)
  then show ?thesis
  proof cases
    case 1
    with ds_eq show ?thesis by simp
  next
    case 2
    from source_path_stat_dir[OF 2(1,2) prefix_dir_absolute[OF assms(2)]] obtain q
      where q: "fwalk fs (pure_parts p) = Inr q" "lwalk fs (pure_parts p) = Inr q"
      by (auto simp: pure_parts_prefix_dir)
    from directory_entries_Inr[OF 2(3)] q obtain d i es
      where es: "node_at fs q = Some (Dir d i es)" "names = entry_names es" by auto
    define names' where
      "names' = filter (selects_dir fs base allow \<circ> (@) p) (filter (component_matches ''*'') names)"
    have ds': "ds = map (\<lambda>c. p @ c @ [slash]) names'"
      by (simp add: ds_eq 2(4) names'_def filter_map)
    have sub: "set names' \<subseteq> set (entry_names es)" and dist: "distinct names'"
      using es(2) by (auto simp: names'_def entry_names_def)
    obtain p' where p': "p = p' @ [slash]" using assms(3) by (auto simp: suffix_def)
    have parts: "pure_parts (p @ c @ [slash]) = pure_parts p @ [c]" if "c \<in> set names'" for c
    proof -
      from that sub have "proper_name c" by (auto simp: entry_names_def)
      then show ?thesis
        using pure_parts_slash[of p' "c @ [slash]"] pure_parts_slash[of c "[]"] pure_parts_slash[of p' "[]"]
        by (simp add: p' pure_parts_name)
    qed
    have "map (\<lambda>d. cost fs (pure_parts d)) ds = map (\<lambda>c. cost fs (pure_parts p @ [c])) names'"
      using parts by (simp add: ds')
    with children_cost[OF q es(1) sub dist]
    have "sum_list (map (\<lambda>d. cost fs (pure_parts d)) ds) < cost fs (pure_parts p)" by simp
    moreover have "\<forall>d \<in> set ds. prefix [slash] d \<and> suffix [slash] d"
      using assms(2) by (auto simp: ds' prefix_def suffix_def)
    ultimately show ?thesis by blast
  qed
qed

lemma prefix_loop_fuel:
  "sum_list (map (\<lambda>p. cost fs (pure_parts p)) pending) \<le> fuel \<Longrightarrow>
   \<forall>p \<in> set pending. prefix [slash] p \<and> suffix [slash] p \<Longrightarrow>
   (\<And>p b. prefix_step fs base allow p b \<noteq> Inl OutOfFuel) \<Longrightarrow>
   prefix_loop fs base allow fuel pending found b \<noteq> Inl OutOfFuel"
proof (induction fs base allow fuel pending found b rule: prefix_loop.induct)
  case (2 fs base allow p pending found b)
  have "0 < cost fs (pure_parts p)" by simp
  with 2(1) show ?case by (simp del: cost_pos)
next
  case (3 fs base allow fuel p pending found b)
  show ?case
  proof (cases "prefix_step fs base allow p b")
    case (Inl e)
    with 3(4)[of p b] show ?thesis by simp
  next
    case (Inr r)
    obtain ds b' where r: "r = (ds, b')" by fastforce
    from prefix_step_cost[OF Inr[unfolded r]] 3(2,3)
    have "sum_list (map (\<lambda>d. cost fs (pure_parts d)) (rev ds @ pending)) \<le> fuel"
      "\<forall>d \<in> set (rev ds @ pending). prefix [slash] d \<and> suffix [slash] d"
      by (auto simp: rev_map[symmetric])
    from 3(1)[OF Inr r[symmetric] this 3(4)] Inr r show ?thesis by simp
  qed
qed simp


definition slashed :: "string \<Rightarrow> bool" where
  "slashed p \<longleftrightarrow> prefix [slash] p \<and> suffix [slash] p"

lemma slashed_append: "slashed p \<Longrightarrow> slashed (p @ c @ [slash])"
  by (cases p) (auto simp: slashed_def suffix_def)

lemma tbind_Inl [result_simps]:
  "tbind m f b = Inl e \<longleftrightarrow> m b = Inl e \<or> (\<exists>x b1. m b = Inr (x, b1) \<and> f x b1 = Inl e)"
  by (auto simp: tbind_def split: sum.splits prod.splits)

lemma basic_Inl [result_simps]:
  "tret x b \<noteq> Inl e"
  "check_deadline b = Inl e \<longleftrightarrow> b = Some 0 \<and> e = PreparationTimeout"
  "tlift r b = Inl e \<longleftrightarrow> r = Inl e"
  by (auto simp: tret_def check_deadline_def tlift_def split: option.splits nat.splits sum.splits)

lemma source_path_stat_not_fuel [simp]: "source_path_stat fs v base allow \<noteq> Inl OutOfFuel"
  by (auto simp: source_path_stat_def inspect_entry_path_def resolve_literal_path_def
      reject_symlink_components_def Let_def result_simps
      split: if_splits option.splits sum.splits os_error.splits)

lemma check_deadlines_not_fuel [simp]: "check_deadlines n b \<noteq> Inl OutOfFuel"
  by (induction n arbitrary: b) (auto simp: result_simps)

lemma directory_entries_not_fuel [simp]: "directory_entries fs cs b \<noteq> Inl OutOfFuel"
  by (auto simp: directory_entries_def result_simps split: sum.splits node.splits)

lemma expand_source_component_not_fuel [simp]:
  "expand_source_component fs p c base b \<noteq> Inl OutOfFuel"
  by (auto simp: expand_source_component_def result_simps)

lemma child_prefixes_not_fuel [simp]: "child_prefixes fs base allow cs b \<noteq> Inl OutOfFuel"
  by (induction cs arbitrary: b) (auto simp: result_simps)

lemma prefix_step_not_fuel [simp]: "prefix_step fs base allow p b \<noteq> Inl OutOfFuel"
  by (auto simp: prefix_step_def result_simps)

lemma prefix_loop_slashed:
  "prefix_loop fs base allow fuel pending found b = Inr (r, b') \<Longrightarrow>
   \<forall>p \<in> set pending \<union> set found. slashed p \<Longrightarrow> \<forall>p \<in> set r. slashed p"
proof (induction fs base allow fuel pending found b rule: prefix_loop.induct)
  case (3 fs base allow fuel p pending found b)
  from 3(2) obtain ds b1 where st: "prefix_step fs base allow p b = Inr (ds, b1)"
    and rest: "prefix_loop fs base allow fuel (rev ds @ pending) (found @ ds) b1 = Inr (r, b')"
    by (auto split: sum.splits prod.splits)
  from prefix_step_cost[OF st] 3(3) have "\<forall>d \<in> set ds. slashed d" by (auto simp: slashed_def)
  with 3(3) have "\<forall>p \<in> set (rev ds @ pending) \<union> set (found @ ds). slashed p" by auto
  from 3(1)[OF st refl rest this] show ?case .
qed auto

lemma recursive_directory_prefixes_slashed:
  assumes "slashed p"
  shows "recursive_directory_prefixes fs p base inc allow b \<noteq> Inl OutOfFuel"
    and "recursive_directory_prefixes fs p base inc allow b = Inr (r, b') \<Longrightarrow> \<forall>q \<in> set r. slashed q"
proof -
  have "prefix_loop fs base allow (cost fs (pure_parts p)) [p] found b1 \<noteq> Inl OutOfFuel" for found b1
    using assms by (intro prefix_loop_fuel prefix_step_not_fuel) (auto simp: slashed_def)
  then show "recursive_directory_prefixes fs p base inc allow b \<noteq> Inl OutOfFuel"
    by (auto simp: recursive_directory_prefixes_def result_simps split: if_splits)
  show "recursive_directory_prefixes fs p base inc allow b = Inr (r, b') \<Longrightarrow> \<forall>q \<in> set r. slashed q"
    using assms
    by (auto simp: recursive_directory_prefixes_def result_simps dest!: prefix_loop_slashed
        split: if_splits)
qed

lemma expand_source_component_extends:
  "expand_source_component fs p c base b = Inr (ms, b') \<Longrightarrow> \<forall>m \<in> set ms. \<exists>x. m = p @ x"
  by (auto simp: expand_source_component_def result_simps split: if_splits)

lemma tconcat_not_fuel:
  "(\<And>x b. x \<in> set xs \<Longrightarrow> f x b \<noteq> Inl OutOfFuel) \<Longrightarrow> tconcat f xs b \<noteq> Inl OutOfFuel"
  by (induction xs arbitrary: b) (auto simp: result_simps)

lemma tconcat_mem:
  "tconcat f xs b = Inr (ys, b') \<Longrightarrow> y \<in> set ys \<Longrightarrow>
   \<exists>x \<in> set xs. \<exists>b1 b2 zs. f x b1 = Inr (zs, b2) \<and> y \<in> set zs"
proof (induction xs arbitrary: ys b)
  case (Cons x xs)
  from Cons.prems(1) obtain y1 b1 y2 where 1: "f x b = Inr (y1, b1)"
    "tconcat f xs b1 = Inr (y2, b')" "ys = y1 @ y2" by (auto simp: result_simps)
  with Cons.prems(2) Cons.IH[OF 1(2)] show ?case by auto
qed (simp add: result_simps)

lemma expand_components_not_fuel:
  "\<forall>p \<in> set ps. slashed p \<Longrightarrow> expand_components fs base allow outer cs ps b \<noteq> Inl OutOfFuel"
proof (induction cs arbitrary: outer ps b)
  case (Cons c cs)
  show ?case
  proof (cases "c = ''**'' \<and> cs \<noteq> []")
    case True
    have "\<forall>q \<in> set r. slashed q"
      if "tconcat (\<lambda>p. recursive_directory_prefixes fs p base inc allow) ps b = Inr (r, b1)" for inc r b1
      using tconcat_mem[OF that] Cons.prems recursive_directory_prefixes_slashed(2) by blast
    moreover have "tconcat (\<lambda>p. recursive_directory_prefixes fs p base inc allow) ps b \<noteq> Inl OutOfFuel"
      for inc
      using Cons.prems recursive_directory_prefixes_slashed(1) by (intro tconcat_not_fuel) blast
    ultimately show ?thesis using True Cons.IH by (auto simp: result_simps)
  next
    case False
    have ms: "\<forall>m \<in> set ms. slashed (m @ [slash])"
      if "tconcat (\<lambda>p. expand_source_component fs p c base) ps b = Inr (ms, b1)" for ms b1
    proof
      fix m assume "m \<in> set ms"
      from tconcat_mem[OF that this] expand_source_component_extends
      obtain p x where "p \<in> set ps" "m = p @ x" by blast
      with Cons.prems slashed_append[of p x] show "slashed (m @ [slash])" by simp
    qed
    have "tconcat (\<lambda>p. expand_source_component fs p c base) ps b \<noteq> Inl OutOfFuel"
      by (rule tconcat_not_fuel) simp
    with False ms Cons.IH show ?thesis
      by (cases cs) (auto simp: result_simps)
  qed
qed (simp add: result_simps)

lemma existing_matches_not_fuel: "existing_matches fs base allow ps b \<noteq> Inl OutOfFuel"
  by (induction ps arbitrary: b) (auto simp: result_simps)

lemma split_source_pattern_slashed:
  "split_source_pattern value = Inr (lit, cs) \<Longrightarrow> slashed (os_join base lit)"
  by (auto simp: split_source_pattern_def Let_def slashed_def os_join_def posix_abs_def prefix_def
      suffix_def split: if_splits)

lemma expand_source_path_not_fuel:
  "expand_source_path fs value base preserve_relative allow b \<noteq> Inl OutOfFuel"
proof -
  have "expand_components fs base allow outer cs [os_join base lit] b1 \<noteq> Inl OutOfFuel"
    if "split_source_pattern value = Inr (lit, cs)" for lit cs outer b1
    using split_source_pattern_slashed[OF that] by (intro expand_components_not_fuel) simp
  moreover have "split_source_pattern value \<noteq> Inl OutOfFuel"
    by (auto simp: split_source_pattern_def Let_def)
  ultimately show ?thesis
    using existing_matches_not_fuel
    by (auto simp: expand_source_path_def result_simps Let_def split: if_splits)
qed

lemma literal_location:
  assumes "resolve_literal_path fs value base = Inr loc"
    and "stat fs (path_div base value) = Inr n"
  shows "node_at fs loc = Some n \<and> loc = collapse [] (path_div base value)"
proof -
  from assms(2) obtain q where q: "fwalk fs (path_div base value) = Inr q" "node_at fs q = Some n"
    by (auto simp: stat_def node_of_def split: sum.splits option.splits)
  from resolve_literal_path_physical[OF assms(1) q(1)] q(2) show ?thesis
    by (auto dest: trace_nolink_collapse)
qed

section \<open>Properties\<close>

text \<open>
  The location that deletion and listing permissions are checked on is where the entry is:
  when \<open>inspect_entry_path\<close> finds an entry, its location, stripped of a double-slash root, leads
  through directories only (no link is followed) to the very node that \<open>lstat\<close> reports.
\<close>

theorem entry_location_is_physical:
  assumes "inspect_entry_path fs value base = Inr (loc, Some n)"
  shows "node_at fs (if double_rooted (os_join base value) then tl loc else loc) = Some n"
  using inspect_entry_path_physical[OF assms] by auto

definition example_tree :: node where
  "example_tree =
     Dir 0 1
       [(''a'', Dir 0 2
          [(''x.py'', Reg 0 3 1 []), (''.h'', Reg 0 4 1 []), (''l'', Lnk ''../b''),
           (''sub'', Dir 0 5 [(''y.py'', Reg 0 6 1 [])])]),
        (''b'', Reg 0 7 1 [])]"

theorem entry_location_is_physical_witness:
  "node_at example_tree [''a'', ''l''] = Some (Lnk ''../b'')"
proof -
  have "inspect_entry_path example_tree ''sub/../l'' [''a''] = Inr ([''a'', ''l''], Some (Lnk ''../b''))"
    by code_simp
  from entry_location_is_physical[OF this] show ?thesis
    by (simp add: double_rooted_def os_join_def posix_abs_def)
qed

text \<open>
  The location of a literal path is the file the operating system would open: when the path
  has a node, \<open>resolve_literal_path\<close> returns the canonical path of that node, and no component
  of it is a link.
\<close>

theorem literal_location_is_physical:
  assumes "resolve_literal_path fs value base = Inr loc"
    and "stat fs (path_div base value) = Inr n"
  shows "node_at fs loc = Some n \<and> loc = collapse [] (path_div base value)"
  by (rule literal_location[OF assms])

theorem literal_location_is_physical_witness:
  "node_at example_tree [''b''] = Some (Reg 0 7 1 [])"
proof -
  have "resolve_literal_path example_tree ''./sub/../../b'' [''a''] = Inr [''b'']" by code_simp
  moreover have "stat example_tree (path_div [''a''] ''./sub/../../b'') = Inr (Reg 0 7 1 [])"
    by code_simp
  ultimately show ?thesis using literal_location_is_physical by blast
qed

text \<open>
  \<open>resolve_literal_path\<close> does not reject every link of a path, as its comment and
  \<open>_reject_symlink_components\<close>'s say: behind a missing directory followed by \<open>..\<close> the
  lexical check sees only missing entries, and normalisation then follows the link.
\<close>

theorem literal_path_through_link:
  "\<exists>fs base value loc t. resolve_literal_path fs value base = Inr loc \<and>
     node_at fs (collapse [] (path_div base value)) = Some (Lnk t) \<and>
     loc \<noteq> collapse [] (path_div base value)"
proof -
  have "resolve_literal_path example_tree ''missing/../l'' [''a''] = Inr [''b'']" by code_simp
  moreover have "node_at example_tree (collapse [] (path_div [''a''] ''missing/../l'')) =
      Some (Lnk ''../b'')" by code_simp
  moreover have "[''b''] \<noteq> collapse [] (path_div [''a''] ''missing/../l'')" by code_simp
  ultimately show ?thesis by blast
qed

text \<open>
  Pattern expansion always ends: with the fuel it is given, the number of nodes below each
  prefix, the traversal of a recursive component never runs out, whatever the file system, the
  pattern and the deadline.
\<close>

theorem expansion_terminates:
  "expand_source_path fs value base preserve_relative allow b \<noteq> Inl OutOfFuel"
  by (rule expand_source_path_not_fuel)

lemma existing_matches_Inr:
  "existing_matches fs base allow ps b = Inr (rs, b') \<Longrightarrow>
   \<forall>r \<in> set rs. r \<in> set ps \<and> (\<exists>n. source_path_stat fs r base allow = Inr (Some n))"
  by (induction ps arbitrary: rs b) (auto simp: result_simps split: if_splits)

lemma expand_components_absolute:
  "expand_components fs base allow outer cs ps b = Inr (rs, b') \<Longrightarrow>
   \<forall>p \<in> set ps. prefix [slash] p \<and> (cs \<noteq> [] \<longrightarrow> slashed p) \<Longrightarrow> \<forall>r \<in> set rs. prefix [slash] r"
proof (induction cs arbitrary: outer ps b)
  case (Cons c cs)
  show ?case
  proof (cases "c = ''**'' \<and> cs \<noteq> []")
    case True
    with Cons.prems(1) obtain ms b1 where ms:
      "tconcat (\<lambda>p. recursive_directory_prefixes fs p base (outer \<or> list_ex (\<lambda>r. r \<noteq> []) cs) allow) ps b
        = Inr (ms, b1)" and rest: "expand_components fs base allow True cs ms b1 = Inr (rs, b')"
      by (auto simp: result_simps)
    have "slashed m" if m: "m \<in> set ms" for m
    proof -
      from tconcat_mem[OF ms m] obtain p b1 b2 zs where "p \<in> set ps" "m \<in> set zs"
        "recursive_directory_prefixes fs p base (outer \<or> list_ex (\<lambda>r. r \<noteq> []) cs) allow b1 =
          Inr (zs, b2)" by blast
      with Cons.prems(2) recursive_directory_prefixes_slashed(2)[OF _ this(3)] show ?thesis by blast
    qed
    then have "\<forall>p \<in> set ms. prefix [slash] p \<and> (cs \<noteq> [] \<longrightarrow> slashed p)"
      by (simp add: slashed_def)
    from Cons.IH[OF rest this] show ?thesis .
  next
    case False
    with Cons.prems(1) obtain ms b1 where ms:
      "tconcat (\<lambda>p. expand_source_component fs p c base) ps b = Inr (ms, b1)"
      and rest: "expand_components fs base allow True cs
        (if cs \<noteq> [] then map (\<lambda>m. m @ [slash]) ms else ms) b1 = Inr (rs, b')"
      by (auto simp: result_simps)
    have ext: "\<exists>p x. p \<in> set ps \<and> m = p @ x" if "m \<in> set ms" for m
      using tconcat_mem[OF ms that] expand_source_component_extends by blast
    have "prefix [slash] m \<and> slashed (m @ [slash])" if m: "m \<in> set ms" for m
    proof -
      from ext[OF m] obtain p x where "p \<in> set ps" "m = p @ x" by blast
      with Cons.prems(2) slashed_append[of p x] show ?thesis by (auto simp: prefix_def)
    qed
    then have "\<forall>p \<in> set (if cs \<noteq> [] then map (\<lambda>m. m @ [slash]) ms else ms).
        prefix [slash] p \<and> (cs \<noteq> [] \<longrightarrow> slashed p)"
      by (auto simp: slashed_def)
    from Cons.IH[OF rest this] show ?thesis .
  qed
qed (auto simp: result_simps)

lemma expand_source_path_starred:
  assumes "expand_source_path fs value base False allow b = Inr (rs, b')" and "starred value"
  shows "\<exists>lit cs ps b1 b2 b3 found. split_source_pattern value = Inr (lit, cs) \<and>
    expand_components fs base allow (lit \<noteq> []) cs [os_join base lit] b1 = Inr (ps, b2) \<and>
    existing_matches fs base allow ps b2 = Inr (found, b3) \<and> found \<noteq> [] \<and> rs = sort found"
proof -
  from assms obtain lc b1 where sp: "split_source_pattern value = Inr lc"
    and rest: "tbind (expand_components fs base allow (fst lc \<noteq> []) (snd lc) [os_join base (fst lc)])
      (\<lambda>pres. tbind (existing_matches fs base allow pres) (\<lambda>results.
        if results = [] then tlift (Inl (NoMatches value))
        else tbind check_deadline (\<lambda>_. tret (sort results)))) b1 = Inr (rs, b')"
    by (auto simp: expand_source_path_def tbind_Inr[where m = check_deadline]
        tbind_Inr[where m = "tlift _"] tlift_Inr Let_def case_prod_beta cong: if_cong)
  from rest obtain ps b2 found b3 where
    "expand_components fs base allow (fst lc \<noteq> []) (snd lc) [os_join base (fst lc)] b1 = Inr (ps, b2)"
    "existing_matches fs base allow ps b2 = Inr (found, b3)"
    "(if found = [] then tlift (Inl (NoMatches value))
      else tbind check_deadline (\<lambda>_. tret (sort found))) b3 = Inr (rs, b')"
    unfolding tbind_Inr[where m = "expand_components _ _ _ _ _ _"]
      tbind_Inr[where m = "existing_matches _ _ _ _"] by blast
  moreover from this(3) have "found \<noteq> []" "rs = sort found"
    by (auto simp: result_simps split: if_splits)
  moreover have "split_source_pattern value = Inr (fst lc, snd lc)" using sp by simp
  ultimately show ?thesis by blast
qed

text \<open>
  Every result of expanding a starred source pattern in its default mode is an absolute path
  of an existing entry that is reached without following any symbolic link, and the results are
  in sorted order and not empty.
\<close>

theorem expansion_is_sound:
  assumes "expand_source_path fs value base False False b = Inr (rs, b')" and "starred value"
  shows "sorted rs \<and> rs \<noteq> [] \<and>
    (\<forall>r \<in> set rs. prefix [slash] r \<and>
      (\<exists>n. stat fs (pure_parts r) = Inr n \<and> node_at fs (collapse [] (pure_parts r)) = Some n))"
proof -
  from expand_source_path_starred[OF assms] obtain lit cs ps b1 b2 b3 rs'
    where sp: "split_source_pattern value = Inr (lit, cs)"
    and ps: "expand_components fs base False (lit \<noteq> []) cs [os_join base lit] b1 = Inr (ps, b2)"
    and ex: "existing_matches fs base False ps b2 = Inr (rs', b3)" "rs' \<noteq> []" "rs = sort rs'"
    by blast
  from split_source_pattern_slashed[OF sp] have "slashed (os_join base lit)" .
  then have "\<forall>p \<in> set [os_join base lit]. prefix [slash] p \<and> (cs \<noteq> [] \<longrightarrow> slashed p)"
    by (simp add: slashed_def)
  from expand_components_absolute[OF ps this] have abs: "\<forall>r \<in> set ps. prefix [slash] r" .
  have "prefix [slash] r \<and> (\<exists>n. stat fs (pure_parts r) = Inr n \<and>
      node_at fs (collapse [] (pure_parts r)) = Some n)" if r: "r \<in> set rs'" for r
  proof -
    from existing_matches_Inr[OF ex(1)] r abs obtain n where a: "prefix [slash] r"
      and "source_path_stat fs r base False = Inr (Some n)" by blast
    then obtain loc where "resolve_literal_path fs r base = Inr loc"
      and st: "stat fs (pure_parts r) = Inr n"
      by (auto simp: source_path_stat_def result_simps split: sum.splits os_error.splits)
    from literal_location[OF this(1)] st a show ?thesis by (auto simp: path_div_absolute)
  qed
  moreover have "rs \<noteq> []" using ex by (metis length_0_conv length_sort)
  ultimately show ?thesis using ex(3) by simp
qed

theorem expansion_is_sound_witness:
  "\<exists>n. stat example_tree [''a'', ''sub'', ''y.py''] = Inr n \<and>
     node_at example_tree (collapse [] [''a'', ''sub'', ''y.py'']) = Some n"
proof -
  have run: "expand_source_path example_tree ''sub/*.py'' [''a''] False False None =
      Inr ([''/a/sub/y.py''], None)"
    by code_simp
  have "starred ''sub/*.py''" by (simp add: starred_def)
  from expansion_is_sound[OF run this]
  have "\<exists>n. stat example_tree (pure_parts ''/a/sub/y.py'') = Inr n \<and>
     node_at example_tree (collapse [] (pure_parts ''/a/sub/y.py'')) = Some n" by simp
  moreover have "pure_parts ''/a/sub/y.py'' = [''a'', ''sub'', ''y.py'']" by code_simp
  ultimately show ?thesis by simp
qed

end
