(* ===== verification/Roboz_UserIO.thy ===== *)
theory Roboz_UserIO
  imports Roboz_Base Complex_Main
begin

text \<open>
  The user-interaction boundary of \<open>runtime/io.py\<close>. The host is a state of any type
  \<open>'h\<close>: the terminal and the \<open>UserIO\<close> object an API host binds are records of functions
  over it (code outside the repository), and every prompt threads it. The two
  \<open>ContextVar\<close>s are the fields of the record \<open>interaction\<close>; the token returned by
  \<open>ContextVar.set\<close> is the value it replaced, which is what \<open>reset\<close> restores.
\<close>

datatype output_channel = CLI | GUI | BOT | API

datatype io_error =
    UserInputUnavailableError string
  | RuntimeError string
  | ValueError string
  | OtherError string

datatype reply = Str string | StrImage string "string list"

fun reply_value :: "reply \<Rightarrow> string" where
  "reply_value (Str s) = s"
| "reply_value (StrImage s _) = s"

type_synonym seconds = rat

record 'h user_io =
  request_input :: "string \<Rightarrow> seconds option \<Rightarrow> bool \<Rightarrow> 'h \<Rightarrow> 'h \<times> (io_error + reply option)"
  notify :: "string \<Rightarrow> 'h \<Rightarrow> 'h \<times> (io_error + unit)"

record 'h terminal =
  print_line :: "string \<Rightarrow> 'h \<Rightarrow> 'h \<times> (io_error + unit)"
  select_ready :: "seconds \<Rightarrow> 'h \<Rightarrow> 'h \<times> (io_error + bool)"
  read_line :: "'h \<Rightarrow> 'h \<times> (io_error + string)"

record 'h interaction =
  current_api_user_io :: "'h user_io option"
  current_output :: "output_channel option"

section \<open>Bindings\<close>

definition bind_api_user_io ::
  "'h user_io \<Rightarrow> 'h interaction \<Rightarrow> ('h user_io option \<times> output_channel option) \<times> 'h interaction" where
  "bind_api_user_io user_io c =
     ((current_api_user_io c, current_output c),
      c\<lparr>current_api_user_io := Some user_io, current_output := Some API\<rparr>)"

definition reset_api_user_io :: "'h user_io option \<times> output_channel option \<Rightarrow> 'h interaction \<Rightarrow> 'h interaction" where
  "reset_api_user_io token c =
     c\<lparr>current_output := snd token\<rparr>\<lparr>current_api_user_io := fst token\<rparr>"

definition bind_output :: "output_channel option \<Rightarrow> 'h interaction \<Rightarrow> output_channel option \<times> 'h interaction" where
  "bind_output out c = (current_output c, c\<lparr>current_output := out\<rparr>)"

definition reset_output :: "output_channel option \<Rightarrow> 'h interaction \<Rightarrow> 'h interaction" where
  "reset_output token c = c\<lparr>current_output := token\<rparr>"

definition get_bound_output :: "output_channel option \<Rightarrow> 'h interaction \<Rightarrow> output_channel option" where
  "get_bound_output default_output c =
     (case current_output c of None \<Rightarrow> default_output | Some out \<Rightarrow> Some out)"

lemma reset_bind_api_user_io:
  "bind_api_user_io user_io c = (token, c') \<Longrightarrow> reset_api_user_io token c' = c"
  by (auto simp: bind_api_user_io_def reset_api_user_io_def)

lemma reset_bind_output: "bind_output out c = (token, c') \<Longrightarrow> reset_output token c' = c"
  by (auto simp: bind_output_def reset_output_def)

section \<open>Interaction\<close>

definition require_api_user_io :: "'h interaction \<Rightarrow> io_error + 'h user_io" where
  "require_api_user_io c =
     (case current_api_user_io c of
        None \<Rightarrow>
          Inl (RuntimeError
            ''Output.API requires a UserIO bound via roboz.runtime.bind_api_user_io'')
      | Some user_io \<Rightarrow> Inr user_io)"

definition require_bound_output :: "'h interaction \<Rightarrow> io_error + output_channel" where
  "require_bound_output c =
     (case current_output c of
        None \<Rightarrow>
          Inl (UserInputUnavailableError
            ''Direct user interaction is unavailable in the current context'')
      | Some out \<Rightarrow> Inr out)"

definition read_line_with_timeout ::
  "'h terminal \<Rightarrow> seconds option \<Rightarrow> 'h \<Rightarrow> 'h \<times> (io_error + string option)" where
  "read_line_with_timeout term timeout h =
     (case timeout of
        None \<Rightarrow>
          (case read_line term h of
             (h', Inl e) \<Rightarrow> (h', Inl e)
           | (h', Inr line) \<Rightarrow> (h', Inr (Some line)))
      | Some t \<Rightarrow>
          (case select_ready term t h of
             (h', Inl e) \<Rightarrow> (h', Inl e)
           | (h', Inr ready) \<Rightarrow>
               if ready then
                 (case read_line term h' of
                    (h'', Inl e) \<Rightarrow> (h'', Inl e)
                  | (h'', Inr line) \<Rightarrow> (h'', Inr (Some line)))
               else (h', Inr None)))"

definition output_text :: "output_channel \<Rightarrow> string" where
  "output_text out =
     (case out of CLI \<Rightarrow> ''Output.CLI'' | GUI \<Rightarrow> ''Output.GUI'' | BOT \<Rightarrow> ''Output.BOT'' | API \<Rightarrow> ''Output.API'')"

definition interact_with_user ::
  "'h terminal \<Rightarrow> 'h interaction \<Rightarrow> string \<Rightarrow> bool \<Rightarrow> seconds option \<Rightarrow> bool \<Rightarrow> 'h
    \<Rightarrow> 'h \<times> (io_error + reply option)" where
  "interact_with_user term c message with_reply timeout accepts_images h =
     (case require_bound_output c of
        Inl e \<Rightarrow> (h, Inl e)
      | Inr out \<Rightarrow>
          (case out of
             CLI \<Rightarrow>
               (case print_line term message h of
                  (h1, Inl e) \<Rightarrow> (h1, Inl e)
                | (h1, Inr _) \<Rightarrow>
                    if \<not> with_reply then (h1, Inr None)
                    else
                      (case read_line_with_timeout term timeout h1 of
                         (h2, Inl e) \<Rightarrow> (h2, Inl e)
                       | (h2, Inr reply) \<Rightarrow> (h2, Inr (map_option Str reply))))
           | API \<Rightarrow>
               (case require_api_user_io c of
                  Inl e \<Rightarrow> (h, Inl e)
                | Inr user_io \<Rightarrow>
                    if with_reply then request_input user_io message timeout accepts_images h
                    else
                      (case notify user_io message h of
                         (h1, Inl e) \<Rightarrow> (h1, Inl e)
                       | (h1, Inr _) \<Rightarrow> (h1, Inr None)))
           | _ \<Rightarrow>
               (h, Inl (ValueError
                 (''The output '' @ output_text out @ '' is not yet implemented'')))))"

lemma interact_unbound:
  "current_output c = None \<Longrightarrow>
   \<exists>e. interact_with_user term c message with_reply timeout images h
     = (h, Inl (UserInputUnavailableError e))"
  by (simp add: interact_with_user_def require_bound_output_def)

end
