(* ===== verification/Roboz_Guard.thy ===== *)
theory Roboz_Guard
  imports Roboz_UserIO Roboz_Messages Roboz_Patterns
begin

text \<open>
  The permission engine of \<open>shed/tools/guard.py\<close> with the models of \<open>shed/models.py\<close> and
  \<open>shed/tools/contexts.py\<close>: rules, the policy verdict of an item, the approval prompts,
  and \<open>guard_items\<close>, which every guarded tool calls before its effect. A rule pattern may be
  a callable of the application; it is a function of the host state, read when the rule is
  evaluated, which is before any prompt. Locations are canonical absolute paths. The interface
  \<open>authorization\<close> states what guarded tools rely on; it is interpreted on \<open>guard_items\<close>.
\<close>

section \<open>Models\<close>

datatype operation = READ | CREATE | DELETE | STAGE

datatype action_verdict = Deny | Allow

datatype guard_status = ALLOWED | DENIED

datatype guard_deny_reason = USER_DECLINED | POLICY_DENIED

record 'p guard_file_single =
  item_operation :: operation
  item_location :: path
  item_value :: 'p

record 'p guard_file_single_result =
  res_location :: path
  res_value :: 'p
  res_verdict :: action_verdict

datatype 'h rule_pattern = Fixed string | Computed "'h \<Rightarrow> string"

record 'h permission_rule =
  pr_pattern :: "'h rule_pattern"
  pr_operations :: "operation list"

definition permission_rule_of ::
  "'h rule_pattern \<Rightarrow> operation list \<Rightarrow> io_error + 'h permission_rule" where
  "permission_rule_of pattern operations =
     (if operations = [] then Inl (ValueError ''operations must not be empty'')
      else Inr \<lparr>pr_pattern = pattern, pr_operations = operations\<rparr>)"

record 'h guard_context =
  gc_base :: "path option"
  takes_precedence :: action_verdict
  deny_rules :: "'h permission_rule list"
  allow_rules :: "'h permission_rule list"
  ask_rules :: "'h permission_rule list"
  default_verdict :: action_verdict
  gc_pipe :: bool

record ('i, 'p) resolved_file_command =
  rfc_original_input :: 'i
  rfc_items :: "'p guard_file_single list"

record ('i, 'p) guard_files_result =
  gr_status :: guard_status
  gr_deny_reason :: "guard_deny_reason option"
  gr_items :: "'p guard_file_single_result list"
  gr_original_input :: 'i
  gr_message :: "string option"
  gr_truncation :: truncation_spec

fun operation_text :: "operation \<Rightarrow> string" where
  "operation_text READ = ''read''"
| "operation_text CREATE = ''create''"
| "operation_text DELETE = ''delete''"
| "operation_text STAGE = ''stage''"

section \<open>Policy\<close>

fun pattern_text :: "'h rule_pattern \<Rightarrow> 'h \<Rightarrow> string" where
  "pattern_text (Fixed p) h = p"
| "pattern_text (Computed f) h = f h"

definition path_matches :: "string \<Rightarrow> string \<Rightarrow> bool" where
  "path_matches text pattern \<longleftrightarrow>
     (suffix ''/**'' pattern \<and> text = take (length pattern - 3) pattern) \<or> full_match text pattern"

definition rule_matches ::
  "'h \<Rightarrow> 'p guard_file_single \<Rightarrow> path \<Rightarrow> 'h permission_rule \<Rightarrow> bool" where
  "rule_matches h item base rule \<longleftrightarrow>
     item_operation item \<in> set (pr_operations rule) \<and>
     (let pattern = pattern_text (pr_pattern rule) h
      in if prefix ''/'' pattern
         then path_matches (posix_abs (item_location item)) pattern
         else (case relative_to (item_location item) base of
                 None \<Rightarrow> False
               | Some rel \<Rightarrow> path_matches (posix_rel rel) pattern))"

definition matches :: "'h \<Rightarrow> 'h permission_rule list \<Rightarrow> 'p guard_file_single \<Rightarrow> path \<Rightarrow> bool" where
  "matches h rules item base = list_ex (rule_matches h item base) rules"

definition policy_verdict :: "bool \<Rightarrow> bool \<Rightarrow> 'h guard_context \<Rightarrow> action_verdict" where
  "policy_verdict allow deny ctx =
     (if allow \<and> deny then takes_precedence ctx
      else if allow then Allow
      else if deny then Deny
      else default_verdict ctx)"

definition item_verdict ::
  "'h guard_context \<Rightarrow> path \<Rightarrow> 'h \<Rightarrow> 'p guard_file_single \<Rightarrow> action_verdict" where
  "item_verdict ctx base h item =
     policy_verdict (matches h (allow_rules ctx) item base)
       (matches h (deny_rules ctx) item base) ctx"

definition denied ::
  "'i \<Rightarrow> 'p guard_file_single \<Rightarrow> string \<Rightarrow> guard_deny_reason \<Rightarrow> ('i, 'p) guard_files_result" where
  "denied inp item message reason =
     \<lparr>gr_status = DENIED, gr_deny_reason = Some reason,
      gr_items = [\<lparr>res_location = item_location item, res_value = item_value item,
                   res_verdict = Deny\<rparr>],
      gr_original_input = inp, gr_message = Some message,
      gr_truncation = Inl \<lparr>threshold = 0, severity = LIGHT\<rparr>\<rparr>"

definition allowed ::
  "'i \<Rightarrow> 'p guard_file_single list \<Rightarrow> string option \<Rightarrow> ('i, 'p) guard_files_result" where
  "allowed inp items message =
     \<lparr>gr_status = ALLOWED, gr_deny_reason = None,
      gr_items = map (\<lambda>item. \<lparr>res_location = item_location item, res_value = item_value item,
                              res_verdict = Allow\<rparr>) items,
      gr_original_input = inp, gr_message = message,
      gr_truncation = Inl \<lparr>threshold = 0, severity = REMOVE\<rparr>\<rparr>"

definition shown_location :: "'p guard_file_single \<Rightarrow> string" where
  "shown_location item = py_repr (posix_abs (item_location item))"

fun check_policy ::
  "'i \<Rightarrow> 'p guard_file_single list \<Rightarrow> 'h guard_context \<Rightarrow> path \<Rightarrow> 'h
    \<Rightarrow> ('i, 'p) guard_files_result option" where
  "check_policy inp [] ctx base h = None"
| "check_policy inp (item # items) ctx base h =
     (if item_verdict ctx base h item = Deny
      then Some (denied inp item
             (''Denied '' @ operation_text (item_operation item) @ '': '' @ shown_location item)
             POLICY_DENIED)
      else check_policy inp items ctx base h)"

section \<open>Approvals\<close>

type_synonym 'h prompter = "string \<Rightarrow> 'h \<Rightarrow> 'h \<times> (io_error + reply option)"

definition prompt_text :: "'p guard_file_single \<Rightarrow> string" where
  "prompt_text item =
     ''Allow '' @ operation_text (item_operation item) @ '' for '' @ shown_location item @ ''? (yes/no)''"

definition affirmative :: "reply option \<Rightarrow> bool" where
  "affirmative reply =
     (case reply of
        None \<Rightarrow> False
      | Some r \<Rightarrow> map lower_char (py_strip (reply_value r)) \<in> {''y'', ''yes''})"

definition newline :: string where "newline = [CHR 0x0A]"

definition exchange_text :: "string \<Rightarrow> reply option \<Rightarrow> string" where
  "exchange_text prompt reply =
     ''Permission prompt: '' @ prompt @ newline @ ''User reply: '' @
     (case reply of None \<Rightarrow> ''(no reply received)''
      | Some r \<Rightarrow> dumps False (JStr (reply_value r))) @ newline @
     ''Decision: '' @ (if affirmative reply then ''allowed'' else ''denied'')"

text \<open>The exceptions \<open>_request_approvals\<close> catches, with their text.\<close>

fun caught_prompt_error :: "io_error \<Rightarrow> string option" where
  "caught_prompt_error (UserInputUnavailableError m) = Some m"
| "caught_prompt_error (RuntimeError m) = Some m"
| "caught_prompt_error (ValueError m) = Some m"
| "caught_prompt_error (OtherError m) = None"

definition declined_text :: "reply option \<Rightarrow> string" where
  "declined_text reply =
     (if reply = None then ''Denied: no reply received to permission prompt.''
      else ''Denied by user response to permission prompt.'')"

text \<open>The loop over the pending items; it returns the accumulated exchanges or a denial.\<close>

fun approval_loop ::
  "'h prompter \<Rightarrow> 'i \<Rightarrow> 'p guard_file_single list \<Rightarrow> string list \<Rightarrow> 'h
    \<Rightarrow> 'h \<times> (io_error + (string list + ('i, 'p) guard_files_result))" where
  "approval_loop ask inp [] exchanges h = (h, Inr (Inl exchanges))"
| "approval_loop ask inp (item # items) exchanges h =
     (let prompt = prompt_text item
      in case ask prompt h of
           (h', Inl e) \<Rightarrow>
             (case caught_prompt_error e of
                None \<Rightarrow> (h', Inl e)
              | Some m \<Rightarrow>
                  (h', Inr (Inr (denied inp item
                     (join_with newline
                       (exchanges @ [''Permission prompt: '' @ prompt @ newline @
                                     ''Approval unavailable: '' @ m]))
                     POLICY_DENIED))))
         | (h', Inr reply) \<Rightarrow>
             if affirmative reply
             then approval_loop ask inp items (exchanges @ [exchange_text prompt reply]) h'
             else (h', Inr (Inr (denied inp item
                    (join_with newline (exchanges @ [exchange_text prompt reply, declined_text reply]))
                    USER_DECLINED))))"

definition pending_items ::
  "'h guard_context \<Rightarrow> path \<Rightarrow> 'h \<Rightarrow> 'p guard_file_single list \<Rightarrow> 'p guard_file_single list" where
  "pending_items ctx base h items = filter (\<lambda>item. matches h (ask_rules ctx) item base) items"

definition request_approvals ::
  "'h prompter \<Rightarrow> 'i \<Rightarrow> 'p guard_file_single list \<Rightarrow> 'h guard_context \<Rightarrow> path \<Rightarrow> 'h
    \<Rightarrow> 'h \<times> (io_error + ('i, 'p) guard_files_result)" where
  "request_approvals ask inp items ctx base h =
     (let pending = pending_items ctx base h items
      in if pending \<noteq> [] \<and> \<not> gc_pipe ctx
         then (h, Inr (denied inp (hd pending)
                 ''Approval unavailable: no interaction context'' POLICY_DENIED))
         else
           (case approval_loop ask inp pending [] h of
              (h', Inl e) \<Rightarrow> (h', Inl e)
            | (h', Inr (Inr denial)) \<Rightarrow> (h', Inr denial)
            | (h', Inr (Inl exchanges)) \<Rightarrow>
                (let message = join_with newline exchanges
                 in (h', Inr (allowed inp items (if message = [] then None else Some message))))))"

definition guard_items ::
  "'h terminal \<Rightarrow> 'h interaction \<Rightarrow> 'p guard_file_single list \<Rightarrow> 'i \<Rightarrow> 'h guard_context \<Rightarrow> 'h
    \<Rightarrow> 'h \<times> (io_error + ('i, 'p) guard_files_result)" where
  "guard_items term c items inp ctx h =
     (case gc_base ctx of
        None \<Rightarrow> (h, Inl (ValueError ''Base is required''))
      | Some base \<Rightarrow>
          (case check_policy inp items ctx base h of
             Some denial \<Rightarrow> (h, Inr denial)
           | None \<Rightarrow>
               request_approvals (\<lambda>prompt. interact_with_user term c prompt True None False)
                 inp items ctx base h))"

section \<open>What approval means\<close>

text \<open>
  A run of prompts in which every item is asked for in order and answered affirmatively; it ends
  in the host state the last answer leaves.
\<close>

inductive approvals :: "'h prompter \<Rightarrow> 'p guard_file_single list \<Rightarrow> 'h \<Rightarrow> 'h \<Rightarrow> bool"
  for ask :: "'h prompter" where
  none: "approvals ask [] h h"
| step: "ask (prompt_text item) h = (h1, Inr (Some r)) \<Longrightarrow> affirmative (Some r) \<Longrightarrow>
    approvals ask items h1 h2 \<Longrightarrow> approvals ask (item # items) h h2"

inductive_simps approvals_Nil [simp]: "approvals ask [] h h'"
inductive_simps approvals_Cons: "approvals ask (item # items) h h'"

lemma affirmative_None [simp]: "\<not> affirmative None"
  by (simp add: affirmative_def)

lemma affirmative_SomeI: "affirmative reply \<Longrightarrow> \<exists>r. reply = Some r \<and> affirmative (Some r)"
  by (cases reply) auto

lemma approval_loop_approved:
  "(\<exists>ex'. approval_loop ask inp items ex h = (h', Inr (Inl ex'))) \<longleftrightarrow> approvals ask items h h'"
proof (induction items arbitrary: ex h)
  case (Cons item items)
  show ?case
  proof (cases "ask (prompt_text item) h")
    case (Pair h1 answer)
    with Cons.IH show ?thesis
      by (cases answer)
        (auto simp: approvals_Cons Let_def split: option.splits intro: affirmative_SomeI)
  qed
qed auto

text \<open>How a prompt that is not answered affirmatively ends the run.\<close>

inductive refused :: "'h prompter \<Rightarrow> 'p guard_file_single \<Rightarrow> 'h \<Rightarrow> 'h \<Rightarrow> guard_deny_reason \<Rightarrow> bool"
  for ask :: "'h prompter" where
  declined: "ask (prompt_text item) h = (h', Inr reply) \<Longrightarrow> \<not> affirmative reply \<Longrightarrow>
    refused ask item h h' USER_DECLINED"
| unavailable: "ask (prompt_text item) h = (h', Inl e) \<Longrightarrow> caught_prompt_error e = Some m \<Longrightarrow>
    refused ask item h h' POLICY_DENIED"

lemma denied_simps [simp]:
  "gr_status (denied inp item m reason) = DENIED"
  "gr_deny_reason (denied inp item m reason) = Some reason"
  "map res_location (gr_items (denied inp item m reason)) = [item_location item]"
  "map res_value (gr_items (denied inp item m reason)) = [item_value item]"
  "map res_verdict (gr_items (denied inp item m reason)) = [Deny]"
  "gr_original_input (denied inp item m reason) = inp"
  by (simp_all add: denied_def)

lemma allowed_simps [simp]:
  "gr_status (allowed inp items m) = ALLOWED"
  "gr_deny_reason (allowed inp items m) = None"
  "map res_location (gr_items (allowed inp items m)) = map item_location items"
  "map res_value (gr_items (allowed inp items m)) = map item_value items"
  "map res_verdict (gr_items (allowed inp items m)) = map (\<lambda>_. Allow) items"
  "gr_original_input (allowed inp items m) = inp"
  by (simp_all add: allowed_def)

lemma approval_loop_denial:
  "approval_loop ask inp items ex h = (h', Inr (Inr d)) \<Longrightarrow>
   \<exists>pre item post h1 m reason. items = pre @ item # post \<and> approvals ask pre h h1 \<and>
     refused ask item h1 h' reason \<and> d = denied inp item m reason"
proof (induction items arbitrary: ex h)
  case (Cons item items)
  obtain h1 answer where ask: "ask (prompt_text item) h = (h1, answer)"
    by fastforce
  show ?case
  proof (cases answer)
    case (Inl e)
    with Cons.prems ask obtain m m' where e: "caught_prompt_error e = Some m"
      and d: "h' = h1" "d = denied inp item m' POLICY_DENIED"
      by (auto simp: Let_def split: option.splits)
    have "refused ask item h h1 POLICY_DENIED"
      using ask Inl e by (auto intro: unavailable)
    with d show ?thesis
      by (intro exI[of _ "[]"]) auto
  next
    case (Inr reply)
    show ?thesis
    proof (cases "affirmative reply")
      case True
      then obtain r where r: "reply = Some r" by (cases reply) auto
      with Cons.prems ask Inr True
      obtain ex' where "approval_loop ask inp items ex' h1 = (h', Inr (Inr d))"
        by (auto simp: Let_def)
      from Cons.IH[OF this] obtain pre item' post h2 m reason
        where "items = pre @ item' # post" "approvals ask pre h1 h2"
          "refused ask item' h2 h' reason" "d = denied inp item' m reason" by blast
      then show ?thesis
        using ask Inr r True by (intro exI[of _ "item # pre"]) (auto simp: approvals_Cons)
    next
      case False
      with Cons.prems ask Inr obtain m' where d: "h' = h1" "d = denied inp item m' USER_DECLINED"
        by (auto simp: Let_def)
      have "refused ask item h h1 USER_DECLINED"
        using ask Inr False by (auto intro: declined)
      with d show ?thesis
        by (intro exI[of _ "[]"]) auto
    qed
  qed
qed simp

lemma check_policy_None:
  "check_policy inp items ctx base h = None \<longleftrightarrow>
   list_all (\<lambda>item. item_verdict ctx base h item = Allow) items"
proof -
  have "v \<noteq> Deny \<longleftrightarrow> v = Allow" for v by (cases v) auto
  then show ?thesis by (induction items) auto
qed

lemma check_policy_Some:
  "check_policy inp items ctx base h = Some d \<Longrightarrow>
   \<exists>pre item post m. items = pre @ item # post \<and>
     list_all (\<lambda>i. item_verdict ctx base h i = Allow) pre \<and>
     item_verdict ctx base h item = Deny \<and> d = denied inp item m POLICY_DENIED"
proof (induction items)
  case (Cons item items)
  show ?case
  proof (cases "item_verdict ctx base h item")
    case Deny
    with Cons.prems show ?thesis by (intro exI[of _ "[]"]) auto
  next
    case Allow
    with Cons obtain pre item' post m where "items = pre @ item' # post"
      "list_all (\<lambda>i. item_verdict ctx base h i = Allow) pre"
      "item_verdict ctx base h item' = Deny" "d = denied inp item' m POLICY_DENIED" by auto
    with Allow show ?thesis by (intro exI[of _ "item # pre"]) auto
  qed
qed simp

definition prompter_of :: "'h terminal \<Rightarrow> 'h interaction \<Rightarrow> 'h prompter" where
  "prompter_of term c = (\<lambda>prompt. interact_with_user term c prompt True None False)"

lemma guard_items_base:
  "gc_base ctx = Some base \<Longrightarrow>
   guard_items term c items inp ctx h =
     (case check_policy inp items ctx base h of
        Some denial \<Rightarrow> (h, Inr denial)
      | None \<Rightarrow> request_approvals (prompter_of term c) inp items ctx base h)"
  by (simp add: guard_items_def prompter_of_def split: option.split)

lemma request_approvals_allowed:
  "(\<exists>r. request_approvals ask inp items ctx base h = (h', Inr r) \<and> gr_status r = ALLOWED) \<longleftrightarrow>
   (pending_items ctx base h items = [] \<or> gc_pipe ctx) \<and>
   approvals ask (pending_items ctx base h items) h h'"
proof -
  let ?pending = "pending_items ctx base h items"
  obtain h1 res where loop: "approval_loop ask inp ?pending [] h = (h1, res)"
    by fastforce
  have no_denial: "gr_status d = DENIED" if "res = Inr (Inr d)" for d
    using approval_loop_denial[of ask inp ?pending "[]" h h1 d] loop that by auto
  have "(\<exists>ex'. res = Inr (Inl ex')) \<and> h1 = h' \<longleftrightarrow> approvals ask ?pending h h'"
    using approval_loop_approved[of ask inp ?pending "[]" h h'] loop by auto
  with loop no_denial show ?thesis
    by (cases res; cases "projr res") (auto simp: request_approvals_def Let_def)
qed

lemma request_approvals_denied:
  "request_approvals ask inp items ctx base h = (h', Inr r) \<Longrightarrow> gr_status r = DENIED \<Longrightarrow>
   (\<exists>m. pending_items ctx base h items \<noteq> [] \<and> \<not> gc_pipe ctx \<and> h' = h \<and>
     r = denied inp (hd (pending_items ctx base h items)) m POLICY_DENIED) \<or>
   (\<exists>pre item post h1 m reason. pending_items ctx base h items = pre @ item # post \<and>
     approvals ask pre h h1 \<and> refused ask item h1 h' reason \<and> r = denied inp item m reason)"
  using approval_loop_denial[of ask inp "pending_items ctx base h items" "[]" h h' r]
  by (auto simp: request_approvals_def Let_def split: if_splits prod.splits sum.splits)

section \<open>Properties\<close>

text \<open>
  C3. \<open>guard_items\<close> allows an effect exactly when a base is configured, the policy allows every
  required item, and every item matched by an ask rule was prompted for in order and answered
  affirmatively, with an interaction context present if there was anything to ask; the result
  then carries every item's location and payload in order, each with verdict allow.
\<close>

theorem guard_allowed_iff:
  "(\<exists>r. guard_items term c items inp ctx h = (h', Inr r) \<and> gr_status r = ALLOWED \<and>
      map res_location (gr_items r) = map item_location items \<and>
      map res_value (gr_items r) = map item_value items) \<longleftrightarrow>
   (\<exists>base. gc_base ctx = Some base \<and>
      list_all (\<lambda>item. item_verdict ctx base h item = Allow) items \<and>
      (pending_items ctx base h items = [] \<or> gc_pipe ctx) \<and>
      approvals (prompter_of term c) (pending_items ctx base h items) h h')"
  (is "?lhs \<longleftrightarrow> ?rhs")
proof (cases "gc_base ctx")
  case None
  then show ?thesis by (simp add: guard_items_def)
next
  case (Some base)
  have payload: "map res_location (gr_items r) = map item_location items \<and>
      map res_value (gr_items r) = map item_value items"
    if "request_approvals (prompter_of term c) inp items ctx base h = (h', Inr r)"
      "gr_status r = ALLOWED" for r
    using that
    by (auto simp: request_approvals_def Let_def split: if_splits prod.splits sum.splits
        dest!: approval_loop_denial)
  have allow: "?lhs \<longleftrightarrow> check_policy inp items ctx base h = None \<and>
      (\<exists>r. request_approvals (prompter_of term c) inp items ctx base h = (h', Inr r) \<and>
        gr_status r = ALLOWED)"
    using payload Some check_policy_Some[of inp items ctx base h]
    by (fastforce simp: guard_items_base split: option.splits)
  show ?thesis
    unfolding allow request_approvals_allowed check_policy_None using Some by simp
qed

lemma guard_items_denied_cases:
  assumes "gc_base ctx = Some base" and "guard_items term c items inp ctx h = (h', Inr r)"
    and "gr_status r = DENIED"
  shows "(\<exists>pre item post m. items = pre @ item # post \<and> h' = h \<and>
            list_all (\<lambda>i. item_verdict ctx base h i = Allow) pre \<and>
            item_verdict ctx base h item = Deny \<and> r = denied inp item m POLICY_DENIED) \<or>
         (\<exists>item m. list_all (\<lambda>i. item_verdict ctx base h i = Allow) items \<and> h' = h \<and>
            \<not> gc_pipe ctx \<and> find (\<lambda>i. matches h (ask_rules ctx) i base) items = Some item \<and>
            r = denied inp item m POLICY_DENIED) \<or>
         (\<exists>pre item post h1 m reason. list_all (\<lambda>i. item_verdict ctx base h i = Allow) items \<and>
            pending_items ctx base h items = pre @ item # post \<and>
            approvals (prompter_of term c) pre h h1 \<and>
            refused (prompter_of term c) item h1 h' reason \<and> r = denied inp item m reason)"
proof (cases "check_policy inp items ctx base h")
  case (Some d)
  with assms(2) have "h' = h" "r = d" by (auto simp: guard_items_base[OF assms(1)])
  with check_policy_Some[OF Some] show ?thesis by auto
next
  case None
  from None assms(2)
  have "request_approvals (prompter_of term c) inp items ctx base h = (h', Inr r)"
    by (simp add: guard_items_base[OF assms(1)])
  from request_approvals_denied[OF this assms(3)] show ?thesis
    using None[unfolded check_policy_None]
      find_hd_filter[of "\<lambda>i. matches h (ask_rules ctx) i base" items]
    by (auto simp: pending_items_def)
qed

text \<open>
  A scripted terminal: the host is the list of lines still to be typed and the list of prompts
  already shown, which the closed instances below run the guard on.
\<close>

definition scripted :: "(string list \<times> string list) terminal" where
  "scripted =
     \<lparr>print_line = (\<lambda>s (lines, shown). ((lines, shown @ [s]), Inr ())),
      select_ready = (\<lambda>t h. (h, Inr True)),
      read_line = (\<lambda>(lines, shown).
        case lines of [] \<Rightarrow> (([], shown), Inr []) | l # ls \<Rightarrow> ((ls, shown), Inr l))\<rparr>"

definition on_terminal :: "'h interaction" where
  "on_terminal = \<lparr>current_api_user_io = None, current_output = Some CLI\<rparr>"

definition example_rules :: "'h guard_context" where
  "example_rules =
     \<lparr>gc_base = Some [''srv'', ''app''], takes_precedence = Deny,
      deny_rules = [\<lparr>pr_pattern = Fixed ''secrets/**'', pr_operations = [READ, CREATE, DELETE]\<rparr>],
      allow_rules = [\<lparr>pr_pattern = Fixed ''/srv/app/**'', pr_operations = [READ, CREATE]\<rparr>],
      ask_rules = [\<lparr>pr_pattern = Fixed ''/srv/app/*.cfg'', pr_operations = [CREATE]\<rparr>],
      default_verdict = Deny, gc_pipe = True\<rparr>"

definition item_at :: "operation \<Rightarrow> path \<Rightarrow> nat guard_file_single" where
  "item_at op p = \<lparr>item_operation = op, item_location = p, item_value = 7\<rparr>"

text \<open>
  C4. A denial names one required item and says truthfully why: either the policy denied that
  item, being the first one it denies, and nothing was prompted; or every item is allowed but the
  item needs approval and no interaction context exists, and nothing was prompted; or all earlier
  approvals were given and this item's prompt was answered in the negative or not at all
  (\<open>USER_DECLINED\<close>), or failed with an exception the guard handles (\<open>POLICY_DENIED\<close>).
\<close>

theorem guard_denied_reason:
  assumes "guard_items term c items inp ctx h = (h', Inr r)" and "gr_status r = DENIED"
  shows "\<exists>base item m reason. gc_base ctx = Some base \<and> item \<in> set items \<and>
    r = denied inp item m reason \<and>
    (h' = h \<and> reason = POLICY_DENIED \<and> item_verdict ctx base h item = Deny \<and>
       find (\<lambda>i. item_verdict ctx base h i = Deny) items = Some item \<or>
     list_all (\<lambda>i. item_verdict ctx base h i = Allow) items \<and>
       (h' = h \<and> reason = POLICY_DENIED \<and> \<not> gc_pipe ctx \<and>
          find (\<lambda>i. matches h (ask_rules ctx) i base) items = Some item \<or>
        (\<exists>pre post h1. pending_items ctx base h items = pre @ item # post \<and>
          approvals (prompter_of term c) pre h h1 \<and>
          refused (prompter_of term c) item h1 h' reason)))"
proof -
  from assms(1) obtain base where base: "gc_base ctx = Some base"
    by (cases "gc_base ctx") (auto simp: guard_items_def)
  have pending: "x \<in> set items" if "pending_items ctx base h items = pre @ x # post" for pre x post
  proof -
    have "x \<in> set (pending_items ctx base h items)" using that by simp
    then show ?thesis by (simp add: pending_items_def)
  qed
  from guard_items_denied_cases[OF base assms]
  consider (policy) pre item post m where "items = pre @ item # post" "h' = h"
      "list_all (\<lambda>i. item_verdict ctx base h i = Allow) pre"
      "item_verdict ctx base h item = Deny" "r = denied inp item m POLICY_DENIED"
    | (no_pipe) item m where "list_all (\<lambda>i. item_verdict ctx base h i = Allow) items" "h' = h"
      "\<not> gc_pipe ctx" "find (\<lambda>i. matches h (ask_rules ctx) i base) items = Some item"
      "r = denied inp item m POLICY_DENIED"
    | (prompt) pre item post h1 m reason
      where "list_all (\<lambda>i. item_verdict ctx base h i = Allow) items"
      "pending_items ctx base h items = pre @ item # post"
      "approvals (prompter_of term c) pre h h1"
      "refused (prompter_of term c) item h1 h' reason" "r = denied inp item m reason"
    by blast
  then show ?thesis
  proof cases
    case policy
    then have "find (\<lambda>i. item_verdict ctx base h i = Deny) items = Some item"
      by (auto intro!: find_first simp: list_all_iff)
    with policy base show ?thesis by (intro exI[of _ base] exI[of _ item] exI) auto
  next
    case no_pipe
    then have "item \<in> set items" by (auto simp: find_Some_iff)
    with no_pipe base show ?thesis by (intro exI[of _ base] exI[of _ item] exI) auto
  next
    case prompt
    from pending[OF prompt(2)] prompt base show ?thesis
      by (intro exI[of _ base] exI[of _ item] exI[of _ m] exI[of _ reason]) auto
  qed
qed

theorem guard_denied_reason_witness:
  "\<exists>h' r. guard_items scripted on_terminal [item_at CREATE [''srv'', ''app'', ''x.cfg'']] (0 :: nat)
      example_rules ([''no''], []) = (h', Inr r) \<and> gr_status r = DENIED \<and>
    (\<exists>reason. refused (prompter_of scripted on_terminal)
      (item_at CREATE [''srv'', ''app'', ''x.cfg'']) ([''no''], []) h' reason)"
proof -
  let ?items = "[item_at CREATE [''srv'', ''app'', ''x.cfg'']]"
  let ?ctx = "example_rules :: (string list \<times> string list) guard_context"
  let ?run = "guard_items scripted on_terminal ?items (0 :: nat) ?ctx ([''no''], [])"
  have status: "(case snd ?run of Inr r \<Rightarrow> gr_status r = DENIED \<and> gr_deny_reason r = Some USER_DECLINED
      | Inl e \<Rightarrow> False)"
    by code_simp
  obtain h' r where run: "?run = (h', Inr r)"
    using status by (cases ?run) (auto split: sum.splits)
  with status have denied: "gr_status r = DENIED" and why: "gr_deny_reason r = Some USER_DECLINED"
    by auto
  have allow: "item_verdict ?ctx [''srv'', ''app''] ([''no''], [])
      (item_at CREATE [''srv'', ''app'', ''x.cfg'']) = Allow"
    by code_simp
  have base: "gc_base ?ctx = Some [''srv'', ''app'']" by (simp add: example_rules_def)
  from guard_denied_reason[OF run denied] base why allow run denied show ?thesis
    by (auto simp: pending_items_def approvals_Cons Cons_eq_append_conv split: if_splits)
qed

text \<open>
  Nothing is asked before the whole policy check has passed: when the policy denies any
  required item, the host is left as it was, no approval being requested, and the result denies
  the first such item.
\<close>

theorem policy_denial_is_silent:
  assumes "gc_base ctx = Some base" and "item \<in> set items" and "item_verdict ctx base h item = Deny"
  shows "\<exists>culprit m. find (\<lambda>i. item_verdict ctx base h i = Deny) items = Some culprit \<and>
    guard_items term c items inp ctx h = (h, Inr (denied inp culprit m POLICY_DENIED))"
proof -
  have "check_policy inp items ctx base h \<noteq> None"
    unfolding check_policy_None list_all_iff using assms(2,3) by (metis action_verdict.distinct(1))
  then obtain d where d: "check_policy inp items ctx base h = Some d" by blast
  from check_policy_Some[OF d] obtain pre culprit post m where
    "items = pre @ culprit # post" "list_all (\<lambda>i. item_verdict ctx base h i = Allow) pre"
    "item_verdict ctx base h culprit = Deny" "d = denied inp culprit m POLICY_DENIED" by blast
  moreover from this have "find (\<lambda>i. item_verdict ctx base h i = Deny) items = Some culprit"
    by (auto intro!: find_first simp: list_all_iff)
  ultimately show ?thesis using d by (auto simp: guard_items_base[OF assms(1)])
qed

theorem policy_denial_is_silent_witness:
  "\<exists>culprit m. guard_items scripted on_terminal
      [item_at CREATE [''srv'', ''app'', ''x.cfg''], item_at READ [''srv'', ''app'', ''secrets'', ''k'']]
      (0 :: nat) example_rules ([''yes''], []) =
    (([''yes''], []), Inr (denied 0 culprit m POLICY_DENIED))"
proof -
  have "item_verdict (example_rules :: (string list \<times> string list) guard_context) [''srv'', ''app'']
      ([''yes''], []) (item_at READ [''srv'', ''app'', ''secrets'', ''k'']) = Deny"
    by code_simp
  moreover have "gc_base (example_rules :: (string list \<times> string list) guard_context) =
      Some [''srv'', ''app'']"
    by (simp add: example_rules_def)
  ultimately show ?thesis
    using policy_denial_is_silent[of "example_rules :: (string list \<times> string list) guard_context"
        "[''srv'', ''app'']" "item_at READ [''srv'', ''app'', ''secrets'', ''k'']"
        "[item_at CREATE [''srv'', ''app'', ''x.cfg''], item_at READ [''srv'', ''app'', ''secrets'', ''k'']]"
        "([''yes''], [])" scripted on_terminal "0 :: nat"]
    by auto
qed

section \<open>The interface of guarded effects\<close>

text \<open>
  What \<open>build_guarded_tool_chain\<close> builds around an executor: the guard runs first, and the
  effect runs in the state the guard leaves when its result is \<open>granted\<close>; otherwise
  \<open>fallback\<close> receives the denial (the end of the chain, or the recording of a failed step).
\<close>

definition guarded_step ::
  "('h \<Rightarrow> 'h \<times> ('e + 'v)) \<Rightarrow> ('v \<Rightarrow> bool) \<Rightarrow> ('v \<Rightarrow> 'h \<Rightarrow> 'h \<times> ('e + 'o))
    \<Rightarrow> ('v \<Rightarrow> 'h \<Rightarrow> 'h \<times> ('e + 'o)) \<Rightarrow> 'h \<Rightarrow> 'h \<times> ('e + 'o)" where
  "guarded_step guard granted effect fallback h =
     (case guard h of
        (h', Inl e) \<Rightarrow> (h', Inl e)
      | (h', Inr v) \<Rightarrow> if granted v then effect v h' else fallback v h')"

definition is_allowed :: "('i, 'p) guard_files_result \<Rightarrow> bool" where
  "is_allowed r \<longleftrightarrow> gr_status r = ALLOWED"

locale authorization =
  fixes authorize :: "'q \<Rightarrow> 'h \<Rightarrow> 'h \<times> ('e + 'v)"
    and granted :: "'v \<Rightarrow> bool"
    and permitted :: "'q \<Rightarrow> 'h \<Rightarrow> bool"
    and approved :: "'q \<Rightarrow> 'h \<Rightarrow> 'h \<Rightarrow> bool"
  assumes granted_permitted: "authorize q h = (h', Inr v) \<Longrightarrow> granted v \<Longrightarrow> permitted q h"
    and granted_approved: "authorize q h = (h', Inr v) \<Longrightarrow> granted v \<Longrightarrow> approved q h h'"
    and forbidden_silent: "\<not> permitted q h \<Longrightarrow> fst (authorize q h) = h"
begin

lemma effect_needs_permission:
  "\<not> permitted q h \<Longrightarrow>
   guarded_step (authorize q) granted effect fallback h =
   guarded_step (authorize q) granted effect' fallback h"
  using granted_permitted by (auto simp: guarded_step_def split: prod.splits sum.splits)

lemma effect_needs_approval:
  "\<nexists>h'. approved q h h' \<Longrightarrow>
   guarded_step (authorize q) granted effect fallback h =
   guarded_step (authorize q) granted effect' fallback h"
  by (cases "authorize q h"; cases "snd (authorize q h)")
    (auto simp: guarded_step_def dest: granted_approved)

lemma forbidden_step:
  assumes "\<not> permitted q h"
  shows "\<exists>r. authorize q h = (h, r) \<and> guarded_step (authorize q) granted effect fallback h =
    (case r of Inl e \<Rightarrow> (h, Inl e) | Inr v \<Rightarrow> fallback v h)"
proof -
  obtain r where r: "authorize q h = (h, r)"
    using forbidden_silent[OF assms] by (metis prod.collapse)
  with granted_permitted assms show ?thesis
    by (auto simp: guarded_step_def split: sum.splits)
qed

end

definition policy_permits :: "'h guard_context \<Rightarrow> 'p guard_file_single list \<Rightarrow> 'h \<Rightarrow> bool" where
  "policy_permits ctx items h =
     (case gc_base ctx of
        None \<Rightarrow> False
      | Some base \<Rightarrow> list_all (\<lambda>item. item_verdict ctx base h item = Allow) items)"

definition asked_and_approved ::
  "'h terminal \<Rightarrow> 'h interaction \<Rightarrow> 'h guard_context \<Rightarrow> 'p guard_file_single list \<Rightarrow> 'h \<Rightarrow> 'h \<Rightarrow> bool" where
  "asked_and_approved term c ctx items h h' \<longleftrightarrow>
     (\<exists>base. gc_base ctx = Some base \<and>
        approvals (prompter_of term c) (pending_items ctx base h items) h h')"

lemma guard_items_granted:
  assumes "guard_items term c items inp ctx h = (h', Inr r)" and "is_allowed r"
  shows "policy_permits ctx items h \<and> asked_and_approved term c ctx items h h'"
proof -
  obtain base where base: "gc_base ctx = Some base"
    using assms(1) by (cases "gc_base ctx") (auto simp: guard_items_def)
  have policy: "check_policy inp items ctx base h = None"
    using assms by (auto simp: guard_items_base[OF base] is_allowed_def dest!: check_policy_Some
        split: option.splits)
  then have "request_approvals (prompter_of term c) inp items ctx base h = (h', Inr r)"
    using assms(1) by (simp add: guard_items_base[OF base])
  with assms(2) request_approvals_allowed[of "prompter_of term c" inp items ctx base h h']
  have "approvals (prompter_of term c) (pending_items ctx base h items) h h'"
    by (auto simp: is_allowed_def)
  with policy base show ?thesis
    by (simp add: policy_permits_def asked_and_approved_def check_policy_None)
qed

lemma guard_items_forbidden:
  "\<not> policy_permits ctx items h \<Longrightarrow> fst (guard_items term c items inp ctx h) = h"
  using check_policy_None[of inp items ctx _ h]
  by (cases "gc_base ctx") (auto simp: policy_permits_def guard_items_def split: option.splits)

interpretation guard: authorization
  "\<lambda>q h. guard_items tm c (snd q) (fst q) ctx h" is_allowed
  "\<lambda>q. policy_permits ctx (snd q)" "\<lambda>q. asked_and_approved tm c ctx (snd q)"
  for tm c ctx
  by unfold_locales (auto dest: guard_items_granted simp: guard_items_forbidden)

end
