(* ===== verification/Roboz_Prepare.thy ===== *)
theory Roboz_Prepare
  imports Roboz_Paths Roboz_Syntax Roboz_Guard
begin

text \<open>
  The preparation functions of the file commands that read, write, list and create
  (\<open>commands/readers.py\<close>, \<open>diff.py\<close>, \<open>pwd.py\<close>, \<open>writers.py\<close>, \<open>tee.py\<close>, \<open>touch.py\<close>,
  \<open>mkdir.py\<close>, \<open>ls.py\<close>, \<open>find.py\<close>). Each turns validated tokens into the argument vector of
  the native command and the filesystem permissions it needs. Searches, deletions and
  transfers, which traverse trees, are in their own theory.
\<close>

section \<open>Prepared commands\<close>

record command_ready =
  cr_command_name :: string
  cr_argv :: "string list"
  cr_base_workdir :: path
  cr_display_command :: string
  cr_stdin :: "string option"

type_synonym requirement = "operation \<times> path"

record prepared_command =
  pc_ready :: command_ready
  pc_operations :: "requirement list"

text \<open>\<open>shlex.join\<close>.\<close>

definition shell_safe :: "char \<Rightarrow> bool" where
  "shell_safe c \<longleftrightarrow> c \<in> set ''abcdefghijklmnopqrstuvwxyzABCDEFGHIJKLMNOPQRSTUVWXYZ0123456789_@%+=:,./-''"

definition shell_quote :: "string \<Rightarrow> string" where
  "shell_quote s =
     (let single = char_of (39 :: nat); double = char_of (34 :: nat)
      in if s = [] then [single, single]
         else if list_all shell_safe s then s
         else [single] @
           concat (map (\<lambda>c. if c = single then [single, double, single, double, single] else [c]) s)
           @ [single])"

definition shell_join :: "string list \<Rightarrow> string" where
  "shell_join args = join_with '' '' (map shell_quote args)"

definition ready_of :: "string \<Rightarrow> string list \<Rightarrow> path \<Rightarrow> string option \<Rightarrow> command_ready" where
  "ready_of name args base stdin =
     \<lparr>cr_command_name = name, cr_argv = args, cr_base_workdir = base,
      cr_display_command = shell_join args, cr_stdin = stdin\<rparr>"

definition first_operand :: "parsed_command \<Rightarrow> nat" where
  "first_operand parsed =
     (case pc_operands parsed of [] \<Rightarrow> length (pc_tokens parsed) | i # _ \<Rightarrow> i)"

definition operand_tokens :: "parsed_command \<Rightarrow> token list" where
  "operand_tokens parsed = map ((!) (pc_tokens parsed)) (pc_operands parsed)"

definition option_argument :: "parsed_command \<Rightarrow> string \<Rightarrow> string option" where
  "option_argument parsed option =
     map_option (\<lambda>i. fst (pc_tokens parsed ! Suc i)) (map_of (pc_options parsed) option)"

text \<open>Expansion without a deadline.\<close>

definition expand_unlimited :: "node \<Rightarrow> string \<Rightarrow> path \<Rightarrow> bool \<Rightarrow> cli_error + string list" where
  "expand_unlimited fs value base preserve_relative =
     (case expand_source_path fs value base preserve_relative False None of
        Inl e \<Rightarrow> Inl e
      | Inr (rs, _) \<Rightarrow> Inr rs)"

section \<open>Readers\<close>

definition read_file :: "node \<Rightarrow> path \<Rightarrow> string \<Rightarrow> cli_error + requirement" where
  "read_file fs base path_arg =
     rbind (resolve_literal_path fs path_arg base) (\<lambda>resolved.
       (case stat fs (pure_parts path_arg) of
          Inl e \<Rightarrow> Inl (OSError e)
        | Inr n \<Rightarrow>
            if \<not> is_reg_node n then Inl (WrongFileType resolved)
            else if 1 < st_nlink n then Inl (HardLinkUnsupported resolved)
            else Inr (READ, resolved)))"

fun read_operands ::
  "node \<Rightarrow> path \<Rightarrow> token list \<Rightarrow> cli_error + (string list \<times> requirement list)" where
  "read_operands fs base [] = Inr ([], [])"
| "read_operands fs base ((value, tag) # ts) =
     (if (value, tag) = (''-'', ARG) then
        rbind (read_operands fs base ts) (\<lambda>(args, ops). Inr (value # args, ops))
      else if tag \<noteq> PTH then Inl (InvalidArguments value)
      else
        rbind (expand_unlimited fs value base False) (\<lambda>paths.
          rbind (traverse (read_file fs base) paths) (\<lambda>reads.
            rbind (read_operands fs base ts) (\<lambda>(args, ops).
              Inr (paths @ args, reads @ ops)))))"

definition prepare_read :: "node \<Rightarrow> parsed_command \<Rightarrow> path \<Rightarrow> cli_error + prepared_command" where
  "prepare_read fs parsed base =
     rbind (read_operands fs base (operand_tokens parsed)) (\<lambda>(args, ops).
       (let full = take (first_operand parsed) (argv parsed) @ args
        in Inr \<lparr>pc_ready = ready_of (hd full) full base (Some []), pc_operations = dedupe ops\<rparr>))"

definition check_count :: "parsed_command \<Rightarrow> string \<Rightarrow> cli_error + unit" where
  "check_count parsed option =
     (case option_argument parsed option of
        None \<Rightarrow> Inr ()
      | Some value \<Rightarrow> require (unsigned_decimal value) (InvalidArguments option))"

definition prepare_counted_read ::
  "node \<Rightarrow> parsed_command \<Rightarrow> path \<Rightarrow> cli_error + prepared_command" where
  "prepare_counted_read fs parsed base =
     rbind (traverse (check_count parsed) [''-n'', ''-c'']) (\<lambda>_. prepare_read fs parsed base)"

definition prepare_diff :: "node \<Rightarrow> parsed_command \<Rightarrow> path \<Rightarrow> cli_error + prepared_command" where
  "prepare_diff fs parsed base =
     rbind (prepare_read fs parsed base) (\<lambda>prepared.
       if length (drop (first_operand parsed) (cr_argv (pc_ready prepared))) \<noteq> 2
       then Inl (InvalidArguments ''diff requires exactly two regular-file operands'')
       else Inr prepared)"

definition insert_second :: "'a \<Rightarrow> 'a list \<Rightarrow> 'a list" where
  "insert_second x xs = take 1 xs @ [x] @ drop 1 xs"

definition prepare_pwd :: "node \<Rightarrow> parsed_command \<Rightarrow> path \<Rightarrow> cli_error + prepared_command" where
  "prepare_pwd fs parsed base =
     (let args = (if has_option parsed ''-P'' then argv parsed
                  else insert_second ''-P'' (argv parsed))
      in Inr \<lparr>pc_ready = ready_of ''pwd'' args base None, pc_operations = [(READ, base)]\<rparr>)"

section \<open>Writers\<close>

definition write_operations ::
  "node \<Rightarrow> string \<Rightarrow> path \<Rightarrow> bool \<Rightarrow> bool \<Rightarrow> bool \<Rightarrow> cli_error + requirement list" where
  "write_operations fs path_arg base allow_directory no_create create_parents =
     rbind (inspect_file_path fs path_arg base) (\<lambda>(resolved, entry).
       (case entry of
          None \<Rightarrow>
            if no_create then Inr [(CREATE, resolved)]
            else if suffix [slash] path_arg \<or> basename path_arg \<in> {''.'', ''..''}
              then Inl (MissingPath resolved)
            else if \<not> create_parents \<and> \<not> is_dir fs (path_div base (dirname path_arg))
              then Inl (MissingPath (path_div base (dirname path_arg)))
            else Inr [(CREATE, resolved)]
        | Some n \<Rightarrow>
            if is_dir_node n then
              (if allow_directory then Inr [(CREATE, resolved)] else Inl (WrongFileType resolved))
            else Inr [(CREATE, resolved), (READ, resolved), (DELETE, resolved)]))"

text \<open>Position 0 alone may be the inline content of \<open>tee\<close>.\<close>

fun tee_operands ::
  "node \<Rightarrow> path \<Rightarrow> nat \<Rightarrow> token list \<Rightarrow> cli_error + (string option \<times> string list \<times> requirement list)" where
  "tee_operands fs base position [] = Inr (None, [], [])"
| "tee_operands fs base position ((value, tag) # ts) =
     (if tag = ARG then
        (if position \<noteq> 0 then Inl (InvalidArguments ''tee accepts one content ARG before destination PTHs'')
         else
           rbind (tee_operands fs base (Suc position) ts) (\<lambda>(_, args, ops).
             Inr (Some value, args, ops)))
      else if starred value then Inl (BadPattern value)
      else
        (let path_arg = os_join base value
         in rbind (write_operations fs path_arg base False False False) (\<lambda>writes.
              rbind (tee_operands fs base (Suc position) ts) (\<lambda>(stdin, args, ops).
                Inr (stdin, path_arg # args, writes @ ops)))))"

definition prepare_tee :: "node \<Rightarrow> parsed_command \<Rightarrow> path \<Rightarrow> cli_error + prepared_command" where
  "prepare_tee fs parsed base =
     rbind (tee_operands fs base 0 (operand_tokens parsed)) (\<lambda>(stdin, args, ops).
       (let full = take (first_operand parsed) (argv parsed) @ args
        in Inr \<lparr>pc_ready = ready_of ''tee'' full base
                    (Some (case stdin of None \<Rightarrow> [] | Some s \<Rightarrow> s)),
                pc_operations = dedupe ops\<rparr>))"

text \<open>\<open>[[CC]YY]MMDDhhmm[.ss]\<close>.\<close>

definition touch_stamp :: "string \<Rightarrow> bool" where
  "touch_stamp s \<longleftrightarrow>
     (let main = takeWhile is_digit s; rest = drop (length main) s
      in length main \<in> {8, 10, 12} \<and>
         (rest = [] \<or> (length rest = 3 \<and> hd rest = CHR ''.'' \<and> list_all is_digit (tl rest))))"

fun touch_operands ::
  "node \<Rightarrow> path \<Rightarrow> bool \<Rightarrow> token list \<Rightarrow> cli_error + (string list \<times> requirement list)" where
  "touch_operands fs base no_create [] = Inr ([], [])"
| "touch_operands fs base no_create ((value, tag) # ts) =
     rbind (expand_unlimited fs value base False) (\<lambda>paths.
       rbind (traverse (\<lambda>p. write_operations fs p base True no_create False) paths) (\<lambda>writes.
         rbind (touch_operands fs base no_create ts) (\<lambda>(args, ops).
           Inr (paths @ args, concat writes @ ops))))"

definition touch_reference ::
  "node \<Rightarrow> parsed_command \<Rightarrow> path \<Rightarrow> string list \<Rightarrow> cli_error + (string list \<times> requirement list)" where
  "touch_reference fs parsed base args =
     (case map_of (pc_options parsed) ''-r'' of
        None \<Rightarrow> Inr (args, [])
      | Some i \<Rightarrow>
          if starred (args ! Suc i) then Inl (BadPattern (args ! Suc i))
          else
            (let reference_arg = os_join base (args ! Suc i)
             in rbind (inspect_file_path fs reference_arg base) (\<lambda>(reference, entry).
                  if entry = None then Inl (MissingPath reference)
                  else Inr (args[Suc i := reference_arg], [(READ, reference)]))))"

definition prepare_touch :: "node \<Rightarrow> parsed_command \<Rightarrow> path \<Rightarrow> cli_error + prepared_command" where
  "prepare_touch fs parsed base =
     (if pc_operands parsed = [] then Inl (InvalidArguments ''touch requires at least one target PTH'')
      else if \<not> list_all (\<lambda>t. snd t = PTH) (operand_tokens parsed)
        then Inl (InvalidArguments ''touch operands must be PTH; ARG is only for -d or -t'')
      else
        (let args = take (first_operand parsed) (argv parsed)
         in rbind (case map_of (pc_options parsed) ''-t'' of
                     None \<Rightarrow> Inr ()
                   | Some i \<Rightarrow> require (touch_stamp (args ! Suc i)) (InvalidArguments ''-t'')) (\<lambda>_.
              rbind (touch_reference fs parsed base args) (\<lambda>(args', reference).
                rbind (touch_operands fs base (has_option parsed ''-c'') (operand_tokens parsed))
                  (\<lambda>(paths, ops).
                    Inr \<lparr>pc_ready = ready_of ''touch'' (args' @ paths) base (Some []),
                         pc_operations = dedupe (reference @ ops)\<rparr>)))))"

section \<open>Directory creation\<close>

fun directory_walk ::
  "node \<Rightarrow> bool \<Rightarrow> path \<Rightarrow> string list \<Rightarrow> cli_error + (path \<times> requirement list)" where
  "directory_walk fs parents current [] = Inr (current, [])"
| "directory_walk fs parents current (part # ps) =
     (let next = (if part = ''..'' then butlast current else current @ [part])
      in case lstat fs next of
           Inl ENOENT \<Rightarrow>
             rbind (directory_walk fs parents next ps) (\<lambda>(final, ops).
               Inr (final, if parents then (CREATE, next) # ops else ops))
         | Inl e \<Rightarrow> Inl (OSError e)
         | Inr n \<Rightarrow>
             if is_lnk_node n then Inl (SymlinkUnsupported next)
             else if \<not> is_dir_node n then Inl (WrongFileType next)
             else directory_walk fs parents next ps)"

definition directory_operations :: "node \<Rightarrow> string \<Rightarrow> bool \<Rightarrow> cli_error + requirement list" where
  "directory_operations fs path_arg parents =
     rbind (directory_walk fs parents [] (pure_parts path_arg)) (\<lambda>(final, ops).
       Inr (ops @ [(CREATE, final)]))"

fun mkdir_operands ::
  "node \<Rightarrow> path \<Rightarrow> bool \<Rightarrow> token list \<Rightarrow> cli_error + (string list \<times> requirement list)" where
  "mkdir_operands fs base parents [] = Inr ([], [])"
| "mkdir_operands fs base parents ((value, tag) # ts) =
     (if starred value then Inl (BadPattern value)
      else
        (let path_arg = os_join base value
         in rbind (directory_operations fs path_arg parents) (\<lambda>ds.
              rbind (mkdir_operands fs base parents ts) (\<lambda>(args, ops).
                Inr (path_arg # args, ds @ ops)))))"

definition prepare_mkdir :: "node \<Rightarrow> parsed_command \<Rightarrow> path \<Rightarrow> cli_error + prepared_command" where
  "prepare_mkdir fs parsed base =
     (if pc_operands parsed = [] then Inl (InvalidArguments ''mkdir requires at least one target PTH'')
      else
        rbind (mkdir_operands fs base (has_option parsed ''-p'') (operand_tokens parsed)) (\<lambda>(args, ops).
          (let full = take (first_operand parsed) (argv parsed) @ args
           in Inr \<lparr>pc_ready = ready_of ''mkdir'' full base (Some []), pc_operations = dedupe ops\<rparr>)))"

section \<open>Listings\<close>

definition listed_path :: "node \<Rightarrow> path \<Rightarrow> string \<Rightarrow> cli_error + requirement" where
  "listed_path fs base path_arg =
     rbind (inspect_file_path fs path_arg base) (\<lambda>(resolved, _). Inr (READ, resolved))"

definition protect_dash :: "string \<Rightarrow> string" where
  "protect_dash path_arg = (if prefix ''-'' path_arg then ''./'' @ path_arg else path_arg)"

fun ls_tokens ::
  "node \<Rightarrow> path \<Rightarrow> bool \<Rightarrow> token list \<Rightarrow> cli_error + (string list \<times> requirement list)" where
  "ls_tokens fs base options_ended [] = Inr ([], [])"
| "ls_tokens fs base options_ended ((value, tag) # ts) =
     (if tag = FLG then
        (if options_ended then Inl (InvalidArguments ''After --, ls accepts only PTH operands'')
         else
           rbind (ls_tokens fs base (value = ''--'') ts) (\<lambda>(args, ops). Inr (value # args, ops)))
      else
        rbind (expand_unlimited fs value base True) (\<lambda>paths.
          rbind (traverse (listed_path fs base) paths) (\<lambda>reads.
            rbind (ls_tokens fs base options_ended ts) (\<lambda>(args, ops).
              Inr (map protect_dash paths @ args, reads @ ops)))))"

definition prepare_ls :: "node \<Rightarrow> parsed_command \<Rightarrow> path \<Rightarrow> cli_error + prepared_command" where
  "prepare_ls fs parsed base =
     rbind (ls_tokens fs base False (tl (pc_tokens parsed))) (\<lambda>(args, ops).
       (let full = ''ls'' # args
        in Inr \<lparr>pc_ready = ready_of ''ls'' full base None,
                pc_operations = dedupe (if ops = [] then [(READ, base)] else ops)\<rparr>))"

fun find_expression :: "token list \<Rightarrow> cli_error + string list" where
  "find_expression [] = Inr []"
| "find_expression ((value, tag) # ts) =
     (if tag \<noteq> FLG \<or> value \<notin> set (find_value_options @ find_expression_options)
      then Inl (InvalidArguments ''find requires roots tagged PTH before its FLG expression'')
      else if value \<in> set find_value_options then
        (case ts of
           (argument, ARG) # ts' \<Rightarrow>
             rbind (find_expression ts') (\<lambda>args. Inr (value # argument # args))
         | _ \<Rightarrow> Inl (InvalidArguments value))
      else rbind (find_expression ts) (\<lambda>args. Inr (value # args)))"

definition find_root_text :: "string \<Rightarrow> string" where
  "find_root_text path_arg =
     (if prefix ''-'' path_arg \<or> path_arg \<in> {''!'', ''('', '')'', '',''}
      then ''./'' @ path_arg else path_arg)"

fun find_roots :: "node \<Rightarrow> path \<Rightarrow> string list \<Rightarrow> cli_error + (string list \<times> requirement list)" where
  "find_roots fs base [] = Inr ([], [])"
| "find_roots fs base (start # rs) =
     rbind (expand_unlimited fs start base True) (\<lambda>paths.
       rbind (traverse (listed_path fs base) paths) (\<lambda>reads.
         rbind (find_roots fs base rs) (\<lambda>(args, ops).
           Inr (map find_root_text paths @ args, reads @ ops))))"

definition prepare_find :: "node \<Rightarrow> parsed_command \<Rightarrow> path \<Rightarrow> cli_error + prepared_command" where
  "prepare_find fs parsed base =
     (let ts = dropWhile (\<lambda>t. t \<in> {(''-P'', FLG), (''--'', FLG)}) (tl (pc_tokens parsed));
          roots = map fst (takeWhile (\<lambda>t. snd t = PTH) ts);
          expression = dropWhile (\<lambda>t. snd t = PTH) ts
      in rbind (find_roots fs base (if roots = [] then [''.''] else roots)) (\<lambda>(paths, ops).
           rbind (find_expression expression) (\<lambda>args.
             (let full = [''find'', ''-P''] @ paths @ args
              in Inr \<lparr>pc_ready = ready_of ''find'' full base None, pc_operations = dedupe ops\<rparr>))))"

section \<open>Properties\<close>

definition regular_read :: "node \<Rightarrow> requirement list \<Rightarrow> string \<Rightarrow> bool" where
  "regular_read fs ops path_arg \<longleftrightarrow>
     (\<exists>loc n. (READ, loc) \<in> set ops \<and> stat fs (pure_parts path_arg) = Inr n \<and>
        is_reg_node n \<and> st_nlink n \<le> 1 \<and> node_at fs loc = Some n)"

lemma regular_read_simps [simp]:
  "regular_read fs (xs @ ys) p \<longleftrightarrow> regular_read fs xs p \<or> regular_read fs ys p"
  "regular_read fs (x # y # ys) p \<longleftrightarrow> regular_read fs [x] p \<or> regular_read fs (y # ys) p"
  "regular_read fs (dedupe xs) p \<longleftrightarrow> regular_read fs xs p"
  by (auto simp: regular_read_def)

lemma expand_source_path_absolute:
  assumes "expand_source_path fs value base False allow b = Inr (rs, b')"
  shows "\<forall>r \<in> set rs. prefix [slash] r"
proof (cases "starred value")
  case False
  with assms show ?thesis
    by (auto simp: expand_source_path_def result_simps os_join_def posix_abs_def)
next
  case True
  from expand_source_path_starred[OF assms True] obtain lit cs ps b1 b2 b3 found where
    sp: "split_source_pattern value = Inr (lit, cs)"
    and ps: "expand_components fs base allow (lit \<noteq> []) cs [os_join base lit] b1 = Inr (ps, b2)"
    and ex: "existing_matches fs base allow ps b2 = Inr (found, b3)" "rs = sort found" by blast
  have "\<forall>p \<in> set [os_join base lit]. prefix [slash] p \<and> (cs \<noteq> [] \<longrightarrow> slashed p)"
    using split_source_pattern_slashed[OF sp] by (simp add: slashed_def)
  from expand_components_absolute[OF ps this] existing_matches_Inr[OF ex(1)] ex(2)
  show ?thesis by auto
qed

lemma expand_unlimited_absolute:
  "expand_unlimited fs v base False = Inr rs \<Longrightarrow> \<forall>r \<in> set rs. prefix [slash] r"
  by (auto simp: expand_unlimited_def dest!: expand_source_path_absolute split: sum.splits)

lemma read_file_Inr:
  assumes "read_file fs base p = Inr op" and "prefix [slash] p"
  shows "regular_read fs [op] p"
proof -
  from assms(1) obtain loc where loc: "resolve_literal_path fs p base = Inr loc"
    and rest: "(case stat fs (pure_parts p) of
         Inl e \<Rightarrow> Inl (OSError e)
       | Inr n \<Rightarrow>
           if \<not> is_reg_node n then Inl (WrongFileType loc)
           else if 1 < st_nlink n then Inl (HardLinkUnsupported loc)
           else Inr (READ, loc)) = Inr op"
    by (auto simp: read_file_def rbind_Inr_iff)
  from rest obtain n where n: "stat fs (pure_parts p) = Inr n" "is_reg_node n" "st_nlink n \<le> 1"
    "op = (READ, loc)"
    by (auto split: sum.splits if_splits)
  from literal_location[OF loc, of n] n(1) assms(2) have "node_at fs loc = Some n"
    by (metis path_div_absolute)
  with n show ?thesis by (auto simp: regular_read_def)
qed

lemma traverse_read_file:
  assumes "traverse (read_file fs base) paths = Inr ops" and "\<forall>p \<in> set paths. prefix [slash] p"
  shows "\<forall>p \<in> set paths. regular_read fs ops p"
  using assms
proof (induction paths arbitrary: ops)
  case (Cons p paths)
  then obtain op ops' where op: "read_file fs base p = Inr op" "ops = op # ops'"
    and rest: "traverse (read_file fs base) paths = Inr ops'"
    by (auto simp: rbind_Inr_iff)
  have "regular_read fs ops p"
    using read_file_Inr[OF op(1)] Cons.prems(2) op(2) by (auto simp: regular_read_def)
  moreover have "regular_read fs ops q" if "q \<in> set paths" for q
    using Cons.IH[OF rest] Cons.prems(2) that op(2) by (fastforce simp: regular_read_def)
  ultimately show ?case by auto
qed simp

lemma read_operands_Inr:
  "read_operands fs base ts = Inr (args, ops) \<Longrightarrow>
   \<forall>a \<in> set args. a = ''-'' \<or> regular_read fs ops a"
proof (induction ts arbitrary: args ops)
  case (Cons t ts)
  obtain v tag where t: "t = (v, tag)" by fastforce
  show ?case
  proof (cases "(v, tag) = (''-'', ARG)")
    case True
    with Cons.prems t obtain args' where "read_operands fs base ts = Inr (args', ops)" "args = v # args'"
      by (auto simp: rbind_Inr_iff)
    with Cons.IH True show ?thesis by auto
  next
    case False
    with Cons.prems t obtain paths reads args' ops' where
      ex: "expand_unlimited fs v base False = Inr paths"
      and reads: "traverse (read_file fs base) paths = Inr reads"
      and rest: "read_operands fs base ts = Inr (args', ops')"
      and eq: "args = paths @ args'" "ops = reads @ ops'"
      by (auto simp: rbind_Inr_iff split: if_splits)
    from traverse_read_file[OF reads expand_unlimited_absolute[OF ex]] Cons.IH[OF rest] eq
    show ?thesis by auto
  qed
qed simp

text \<open>
  C10. The readers \<open>cat\<close>, \<open>head\<close>, \<open>tail\<close>, \<open>wc\<close> and \<open>diff\<close> are handed nothing but standard
  input and regular files with a single name, and each such file has a READ requirement at the
  canonical path of that very file.
\<close>

theorem readers_open_guarded_files:
  assumes "prepare_read fs parsed base = Inr prepared"
  shows "\<exists>args. cr_argv (pc_ready prepared) = take (first_operand parsed) (argv parsed) @ args \<and>
    (\<forall>a \<in> set args. a = ''-'' \<or> regular_read fs (pc_operations prepared) a)"
proof -
  from assms obtain args ops where r: "read_operands fs base (operand_tokens parsed) = Inr (args, ops)"
    and p: "cr_argv (pc_ready prepared) = take (first_operand parsed) (argv parsed) @ args"
      "pc_operations prepared = dedupe ops"
    by (auto simp: prepare_read_def rbind_Inr_iff Let_def ready_of_def)
  from read_operands_Inr[OF r] p show ?thesis by auto
qed

definition cat_tokens :: "token list" where
  "cat_tokens = [(''cat'', CMD), (''*.py'', PTH), (''-'', ARG)]"

theorem readers_open_guarded_files_witness:
  "\<exists>parsed prepared. validate_tokens cat_tokens CAT = Inr parsed \<and>
     prepare_read example_tree parsed [''a''] = Inr prepared \<and>
     cr_argv (pc_ready prepared) = [''cat'', ''/a/x.py'', ''-''] \<and>
     regular_read example_tree (pc_operations prepared) ''/a/x.py''"
proof -
  have run: "(case validate_tokens cat_tokens CAT of Inl e \<Rightarrow> False
      | Inr parsed \<Rightarrow> first_operand parsed = 1 \<and> length (argv parsed) = 3 \<and>
         (case prepare_read example_tree parsed [''a''] of Inl e \<Rightarrow> False
        | Inr prepared \<Rightarrow> cr_argv (pc_ready prepared) = [''cat'', ''/a/x.py'', ''-'']))"
    by code_simp
  then obtain parsed prepared where p: "validate_tokens cat_tokens CAT = Inr parsed"
    "first_operand parsed = 1" "length (argv parsed) = 3"
    "prepare_read example_tree parsed [''a''] = Inr prepared"
    "cr_argv (pc_ready prepared) = [''cat'', ''/a/x.py'', ''-'']"
    by (auto split: sum.splits)
  from readers_open_guarded_files[OF p(4)] p(2,3,5) have
    "regular_read example_tree (pc_operations prepared) ''/a/x.py''"
    by (cases "argv parsed") auto
  with p show ?thesis by auto
qed

text \<open>
  Writing over an existing file needs every permission: \<open>write_operations\<close> always requires
  CREATE at the resolved target; when the target is a regular file, READ and DELETE are required
  at the same location, which is the file's own canonical path, and the file has no other name.
\<close>

theorem overwrite_needs_all_permissions:
  assumes "write_operations fs path_arg base allow_directory no_create create_parents = Inr ops"
  shows "\<exists>loc entry. inspect_file_path fs path_arg base = Inr (loc, entry) \<and> (CREATE, loc) \<in> set ops \<and>
    (\<forall>n. entry = Some n \<longrightarrow> is_reg_node n \<longrightarrow>
      ops = [(CREATE, loc), (READ, loc), (DELETE, loc)] \<and> st_nlink n \<le> 1 \<and>
      resolve_literal_path fs path_arg base = Inr loc)"
proof -
  from assms obtain loc entry where i: "inspect_file_path fs path_arg base = Inr (loc, entry)"
    and rest: "(case entry of
          None \<Rightarrow>
            if no_create then Inr [(CREATE, loc)]
            else if suffix [slash] path_arg \<or> basename path_arg \<in> {''.'', ''..''}
              then Inl (MissingPath loc)
            else if \<not> create_parents \<and> \<not> is_dir fs (path_div base (dirname path_arg))
              then Inl (MissingPath (path_div base (dirname path_arg)))
            else Inr [(CREATE, loc)]
        | Some n \<Rightarrow>
            if is_dir_node n then
              (if allow_directory then Inr [(CREATE, loc)] else Inl (WrongFileType loc))
            else Inr [(CREATE, loc), (READ, loc), (DELETE, loc)]) = Inr ops"
    by (auto simp: write_operations_def rbind_Inr_iff)
  from i inspect_file_path_literal have "resolve_literal_path fs path_arg base = Inr loc" by blast
  moreover from i have "\<forall>n. entry = Some n \<longrightarrow> is_reg_node n \<longrightarrow> st_nlink n \<le> 1"
    by (auto simp: inspect_file_path_Some)
  moreover have "is_reg_node n \<Longrightarrow> \<not> is_dir_node n" for n by (cases n) auto
  ultimately show ?thesis using i rest by (auto split: option.splits if_splits)
qed

theorem overwrite_needs_all_permissions_witness:
  "write_operations example_tree ''/a/x.py'' [''a''] False False False =
     Inr [(CREATE, [''a'', ''x.py'']), (READ, [''a'', ''x.py'']), (DELETE, [''a'', ''x.py''])]"
proof -
  have i: "inspect_file_path example_tree ''/a/x.py'' [''a''] = Inr ([''a'', ''x.py''], Some (Reg 0 3 1 []))"
    by code_simp
  have "(case write_operations example_tree ''/a/x.py'' [''a''] False False False of
      Inr ops \<Rightarrow> True | Inl e \<Rightarrow> False)" by code_simp
  then obtain ops where w: "write_operations example_tree ''/a/x.py'' [''a''] False False False = Inr ops"
    by (auto split: sum.splits)
  from overwrite_needs_all_permissions[OF w] i w show ?thesis by auto
qed

lemma directory_walk_Inr:
  "directory_walk fs True current ps = Inr (final, ops) \<Longrightarrow>
   final = collapse current ps \<and>
   (\<forall>i < length ps. lstat fs (collapse current (take (Suc i) ps)) = Inl ENOENT \<longrightarrow>
      (CREATE, collapse current (take (Suc i) ps)) \<in> set ops)"
  if "\<forall>p \<in> set ps. \<not> skips p"
  using that
proof (induction ps arbitrary: current ops)
  case (Cons part ps)
  let ?next = "if part = ''..'' then butlast current else current @ [part]"
  have skip: "\<not> skips part" "\<forall>p \<in> set ps. \<not> skips p" using Cons.prems(2) by auto
  have coll: "collapse current (part # xs) = collapse ?next xs" for xs using skip(1) by simp
  from Cons.prems(1) obtain ops' where rest: "directory_walk fs True ?next ps = Inr (final, ops')"
    and sub: "\<forall>x. x \<in> set ops' \<longrightarrow> x \<in> set ops"
    and here: "lstat fs ?next = Inl ENOENT \<longrightarrow> (CREATE, ?next) \<in> set ops"
    by (auto simp: Let_def rbind_Inr_iff split: sum.splits os_error.splits if_splits)
  from Cons.IH[OF rest skip(2)] have IH: "final = collapse ?next ps"
    "\<And>i. i < length ps \<Longrightarrow> lstat fs (collapse ?next (take (Suc i) ps)) = Inl ENOENT \<Longrightarrow>
      (CREATE, collapse ?next (take (Suc i) ps)) \<in> set ops'" by blast+
  have created: "(CREATE, collapse current (take (Suc i) (part # ps))) \<in> set ops"
    if "i < length (part # ps)" "lstat fs (collapse current (take (Suc i) (part # ps))) = Inl ENOENT" for i
  proof (cases i)
    case 0
    then have "collapse current (take (Suc i) (part # ps)) = ?next" using coll[of "[]"] by simp
    with that(2) here show ?thesis by simp
  next
    case (Suc j)
    then have eq: "collapse current (take (Suc i) (part # ps)) = collapse ?next (take (Suc j) ps)"
      using coll[of "take (Suc j) ps"] by simp
    from that Suc have "j < length ps" by simp
    from IH(2)[OF this that(2)[unfolded eq]] sub show ?thesis unfolding eq by blast
  qed
  have "final = collapse current (part # ps)" unfolding coll by (rule IH(1))
  with created show ?case by (intro conjI allI impI)
qed simp


text \<open>
  \<open>mkdir -p\<close> is guarded at every level: CREATE is required on the target and on every
  prefix of the operand, dots resolved as the kernel resolves them, that does not exist yet.
\<close>

theorem mkdir_parents_guarded:
  assumes "directory_operations fs path_arg True = Inr ops"
  shows "(CREATE, collapse [] (pure_parts path_arg)) \<in> set ops \<and>
    (\<forall>i < length (pure_parts path_arg).
       lstat fs (collapse [] (take (Suc i) (pure_parts path_arg))) = Inl ENOENT \<longrightarrow>
       (CREATE, collapse [] (take (Suc i) (pure_parts path_arg))) \<in> set ops)"
proof -
  from assms obtain final ops' where
    w: "directory_walk fs True [] (pure_parts path_arg) = Inr (final, ops')"
    and ops: "ops = ops' @ [(CREATE, final)]"
    by (auto simp: directory_operations_def rbind_Inr_iff)
  have "\<forall>p \<in> set (pure_parts path_arg). \<not> skips p" by (auto simp: pure_parts_def)
  from directory_walk_Inr[OF this w] ops show ?thesis by auto
qed

theorem mkdir_parents_guarded_witness:
  "\<exists>ops. directory_operations example_tree ''/a/new/./../new/deep'' True = Inr ops \<and>
     (CREATE, [''a'', ''new'']) \<in> set ops \<and> (CREATE, [''a'', ''new'', ''deep'']) \<in> set ops"
proof -
  have parts: "pure_parts ''/a/new/./../new/deep'' = [''a'', ''new'', ''..'', ''new'', ''deep'']"
    by code_simp
  have "(case directory_operations example_tree ''/a/new/./../new/deep'' True of
      Inr ops \<Rightarrow> True | Inl e \<Rightarrow> False)" by code_simp
  then obtain ops where w: "directory_operations example_tree ''/a/new/./../new/deep'' True = Inr ops"
    by (auto split: sum.splits)
  have missing: "lstat example_tree [''a'', ''new''] = Inl ENOENT" by code_simp
  from mkdir_parents_guarded[OF w, unfolded parts] missing
  have "(CREATE, [''a'', ''new'']) \<in> set ops \<and> (CREATE, [''a'', ''new'', ''deep'']) \<in> set ops"
    by (auto simp: skips_def dest: spec[of _ 1])
  with w show ?thesis by blast
qed

end
