(* ===== verification/Roboz_Trees.thy ===== *)
theory Roboz_Trees
  imports Roboz_Prepare
begin

text \<open>
  The preparation functions that traverse trees: deletion (\<open>commands/deletions.py\<close>, \<open>rm.py\<close>,
  \<open>gio.py\<close>) and search (\<open>search.py\<close>, \<open>grep.py\<close>, \<open>rg.py\<close>); transfers have their own. The work stacks of the source are popped at the end; the model's stacks
  have their top first. Each loop has as fuel the number of nodes below its starting entries.
\<close>

section \<open>Traversal of a work stack\<close>

text \<open>
  The loop \<open>while pending: current = pending.pop()\<close> that deletion and grep share. A step maps the
  popped path, the requirements and the locations seen so far to their new values and the
  children to push. The locale states what a step promises; its lemmas are termination within
  the fuel, and coverage: what is below a visited location is visited, and visited locations
  have their requirement.
\<close>

type_synonym traversal_step =
  "string \<Rightarrow> requirement list \<Rightarrow> path list \<Rightarrow> (requirement list \<times> path list \<times> string list) timed"

fun traverse_stack ::
  "traversal_step \<Rightarrow> nat \<Rightarrow> string list \<Rightarrow> requirement list \<Rightarrow> path list
    \<Rightarrow> (requirement list \<times> path list) timed"
where
  "traverse_stack f fuel [] ops seen b = Inr ((ops, seen), b)"
| "traverse_stack f 0 (current # pending) ops seen b = Inl OutOfFuel"
| "traverse_stack f (Suc fuel) (current # pending) ops seen b =
     (case f current ops seen b of
        Inl e \<Rightarrow> Inl e
      | Inr ((ops', seen', children), b') \<Rightarrow>
          traverse_stack f fuel (children @ pending) ops' seen' b')"

locale traversal =
  fixes f :: traversal_step
    and weigh :: "string \<Rightarrow> nat"
    and valid :: "string \<Rightarrow> bool"
    and located :: "string \<Rightarrow> path option"
    and below :: "path \<Rightarrow> path set"
    and need :: "path \<Rightarrow> requirement"
  assumes weigh_pos: "0 < weigh t"
    and no_fuel_error: "f t ops seen b \<noteq> Inl OutOfFuel"
    and children_valid: "f t ops seen b = Inr ((ops', seen', cs), b') \<Longrightarrow> valid t \<Longrightarrow>
      (\<forall>c \<in> set cs. valid c) \<and> sum_list (map weigh cs) < weigh t"
    and grows: "f t ops seen b = Inr ((ops', seen', cs), b') \<Longrightarrow>
      set ops \<subseteq> set ops' \<and> set seen \<subseteq> set seen'"
    and visits: "f t ops seen b = Inr ((ops', seen', cs), b') \<Longrightarrow> located t = Some l \<Longrightarrow> l \<in> set seen'"
    and records: "f t ops seen b = Inr ((ops', seen', cs), b') \<Longrightarrow> l \<in> set seen' \<Longrightarrow>
      l \<notin> set seen \<Longrightarrow> need l \<in> set ops'"
    and expands: "f t ops seen b = Inr ((ops', seen', cs), b') \<Longrightarrow> valid t \<Longrightarrow> l \<in> set seen' \<Longrightarrow>
      l \<notin> set seen \<Longrightarrow> k \<in> below l \<Longrightarrow> \<exists>c \<in> set cs. located c = Some k"
begin

lemma enough_fuel:
  "sum_list (map weigh pending) \<le> fuel \<Longrightarrow> \<forall>t \<in> set pending. valid t \<Longrightarrow>
   traverse_stack f fuel pending ops seen b \<noteq> Inl OutOfFuel"
proof (induction fuel arbitrary: pending ops seen b)
  case 0
  show ?case
  proof (cases pending)
    case (Cons t ts)
    with 0 weigh_pos[of t] show ?thesis by simp
  qed simp
next
  case (Suc fuel)
  show ?case
  proof (cases pending)
    case (Cons t ts)
    show ?thesis
    proof (cases "f t ops seen b")
      case (Inl e)
      with no_fuel_error[of t ops seen b] Cons show ?thesis by simp
    next
      case (Inr r)
      obtain ops' seen' cs b' where r: "r = ((ops', seen', cs), b')" by (metis prod.collapse)
      from children_valid[OF Inr[unfolded r]] Suc.prems Cons
      have "sum_list (map weigh (cs @ ts)) \<le> fuel" "\<forall>t \<in> set (cs @ ts). valid t" by auto
      from Suc.IH[OF this] Inr r Cons show ?thesis by simp
    qed
  qed simp
qed

lemma coverage:
  assumes "traverse_stack f fuel pending ops seen b = Inr ((ops', seen'), b')"
    and "\<forall>t \<in> set pending. valid t"
    and "\<forall>l \<in> set seen. need l \<in> set ops"
    and "\<forall>l \<in> set seen. \<forall>k \<in> below l. k \<in> set seen \<or> (\<exists>t \<in> set pending. located t = Some k)"
  shows "set ops \<subseteq> set ops' \<and> set seen \<subseteq> set seen' \<and> (\<forall>l \<in> set seen'. need l \<in> set ops') \<and>
    (\<forall>l \<in> set seen'. below l \<subseteq> set seen') \<and>
    (\<forall>t \<in> set pending. \<forall>l. located t = Some l \<longrightarrow> l \<in> set seen')"
  using assms
proof (induction fuel arbitrary: pending ops seen b)
  case 0
  then show ?case by (cases pending) auto
next
  case (Suc fuel)
  show ?case
  proof (cases pending)
    case Nil
    with Suc.prems show ?thesis by auto
  next
    case (Cons t ts)
    with Suc.prems(1) obtain ops1 seen1 cs b1 where st: "f t ops seen b = Inr ((ops1, seen1, cs), b1)"
      and rest: "traverse_stack f fuel (cs @ ts) ops1 seen1 b1 = Inr ((ops', seen'), b')"
      by (auto split: sum.splits prod.splits)
    have t: "valid t" using Suc.prems(2) Cons by simp
    have valid1: "\<forall>t \<in> set (cs @ ts). valid t"
      using children_valid[OF st t] Suc.prems(2) Cons by auto
    have need1: "\<forall>l \<in> set seen1. need l \<in> set ops1"
      using records[OF st] grows[OF st] Suc.prems(3) by blast
    have below1: "\<forall>l \<in> set seen1. \<forall>k \<in> below l.
        k \<in> set seen1 \<or> (\<exists>t \<in> set (cs @ ts). located t = Some k)"
    proof (intro ballI)
      fix l k assume l: "l \<in> set seen1" and k: "k \<in> below l"
      show "k \<in> set seen1 \<or> (\<exists>t \<in> set (cs @ ts). located t = Some k)"
      proof (cases "l \<in> set seen")
        case True
        with Suc.prems(4) k have "k \<in> set seen \<or> (\<exists>t \<in> set pending. located t = Some k)" by blast
        with grows[OF st] visits[OF st] Cons show ?thesis by auto
      next
        case False
        from expands[OF st t l False k] show ?thesis by auto
      qed
    qed
    from Suc.IH[OF rest valid1 need1 below1] grows[OF st] visits[OF st] Cons show ?thesis
      by auto
  qed
qed

end

section \<open>Deletion\<close>

definition text_join :: "string \<Rightarrow> string \<Rightarrow> string" where
  "text_join p name = (if suffix [slash] p then p @ name else p @ [slash] @ name)"

definition delete_step ::
  "node \<Rightarrow> path \<Rightarrow> bool \<Rightarrow> string \<Rightarrow> requirement list \<Rightarrow> path list
    \<Rightarrow> (requirement list \<times> path list \<times> string list) timed" where
  "delete_step fs base recursive current ops seen =
     tbind check_deadline (\<lambda>_.
       tbind (tlift (inspect_entry_path fs current base)) (\<lambda>(location, entry).
         if location \<in> set seen then tret (ops, seen, [])
         else
           (case entry of
              None \<Rightarrow> tret (ops @ [(DELETE, location)], seen, [])
            | Some n \<Rightarrow>
                if \<not> recursive \<or> \<not> is_dir_node n
                then tret (ops @ [(DELETE, location)], location # seen, [])
                else
                  tbind (directory_entries fs (pure_parts current)) (\<lambda>names.
                    tret (ops @ [(DELETE, location)], location # seen,
                      sort (map (text_join (pure_path_text current)) names))))))"

definition text_cost :: "node \<Rightarrow> string \<Rightarrow> nat" where
  "text_cost fs p = cost fs (pure_parts p)"

definition delete_operations ::
  "node \<Rightarrow> string list \<Rightarrow> path \<Rightarrow> bool \<Rightarrow> requirement list timed" where
  "delete_operations fs paths base recursive =
     tbind (traverse_stack (delete_step fs base recursive) (sum_list (map (text_cost fs) paths)) paths [] [])
       (\<lambda>(ops, seen). tbind check_deadline (\<lambda>_. tret (dedupe ops)))"

definition prepare_deletion ::
  "node \<Rightarrow> budget \<Rightarrow> string list \<Rightarrow> string list \<Rightarrow> path \<Rightarrow> bool \<Rightarrow> cli_error + prepared_command" where
  "prepare_deletion fs clock args operands base recursive =
     (case tbind (tconcat (\<lambda>operand. expand_source_path fs operand base False True) operands)
        (\<lambda>paths. tbind (delete_operations fs paths base recursive) (\<lambda>ops. tret (paths, ops))) clock of
        Inl e \<Rightarrow> Inl e
      | Inr ((paths, ops), _) \<Rightarrow>
          (let full = args @ paths
           in Inr \<lparr>pc_ready = ready_of (hd full) full base (Some []), pc_operations = ops\<rparr>))"

definition prepare_rm :: "node \<Rightarrow> budget \<Rightarrow> parsed_command \<Rightarrow> path \<Rightarrow> cli_error + prepared_command" where
  "prepare_rm fs clock parsed base =
     prepare_deletion fs clock (take (first_operand parsed) (argv parsed))
       (map fst (operand_tokens parsed)) base (has_option parsed ''-r'')"

definition prepare_gio :: "node \<Rightarrow> budget \<Rightarrow> parsed_command \<Rightarrow> path \<Rightarrow> cli_error + prepared_command" where
  "prepare_gio fs clock parsed base =
     (if \<not> has_option parsed ''trash'' then Inl (InvalidArguments ''gio requires trash'')
      else
        rbind (prepare_deletion fs clock [''gio'', ''trash''] (map fst (operand_tokens parsed)) base True)
          (\<lambda>prepared.
            Inr (if operand_tokens parsed = [] then prepared\<lparr>pc_operations := [(DELETE, base)]\<rparr>
                 else prepared)))"

section \<open>Search\<close>

fun search_inputs :: "node \<Rightarrow> path \<Rightarrow> token list \<Rightarrow> cli_error + string list" where
  "search_inputs fs base [] = Inr []"
| "search_inputs fs base ((value, tag) # ts) =
     (if tag = PTH then
        rbind (expand_unlimited fs value base False) (\<lambda>paths.
          rbind (search_inputs fs base ts) (\<lambda>rest. Inr (paths @ rest)))
      else if value = ''-'' then
        rbind (search_inputs fs base ts) (\<lambda>rest. Inr (''-'' # rest))
      else Inl (InvalidArguments value))"

definition search_arguments ::
  "node \<Rightarrow> parsed_command \<Rightarrow> path \<Rightarrow> cli_error + (string list \<times> string list)" where
  "search_arguments fs parsed base =
     (case operand_tokens parsed of
        (pattern, ARG) # inputs \<Rightarrow>
          rbind (traverse (check_count parsed) [''-m'', ''-A'', ''-B'', ''-C'']) (\<lambda>_.
            (let first = first_operand parsed;
                 flags = drop 1 (take first (argv parsed));
                 flags' = (if flags \<noteq> [] \<and> last flags = ''--'' then butlast flags else flags)
             in rbind (search_inputs fs base inputs) (\<lambda>paths.
                  Inr ([hd (argv parsed)] @ flags' @ [''-e'', pattern, ''--''], paths))))
      | _ \<Rightarrow> Inl (InvalidArguments ''Search requires a pattern ARG before input PTHs''))"

definition search_ready :: "string list \<Rightarrow> path \<Rightarrow> command_ready" where
  "search_ready args base = ready_of (hd args) args base (Some [])"

definition search_path :: "node \<Rightarrow> string \<Rightarrow> path \<Rightarrow> cli_error + (path \<times> bool)" where
  "search_path fs path_arg base =
     rbind (inspect_file_path fs path_arg base) (\<lambda>(resolved, entry).
       (case entry of
          None \<Rightarrow> Inl (MissingPath resolved)
        | Some n \<Rightarrow> Inr (resolved, is_dir_node n)))"

text \<open>The names of the selected children, in reverse order.\<close>

definition recursive_children :: "node \<Rightarrow> string list \<Rightarrow> bool \<Rightarrow> string list timed" where
  "recursive_children fs directory follow =
     tbind (directory_entries fs directory) (\<lambda>names.
       tbind check_deadline (\<lambda>_.
         tbind check_deadline (\<lambda>_.
           tret (rev (sort (filter (\<lambda>name. follow \<or>
             holds (\<lambda>n. is_reg_node n \<or> is_dir_node n) (lstat fs (directory @ [name]))) names))))))"

definition grep_step ::
  "node \<Rightarrow> path \<Rightarrow> bool \<Rightarrow> bool \<Rightarrow> string \<Rightarrow> requirement list \<Rightarrow> path list
    \<Rightarrow> (requirement list \<times> path list \<times> string list) timed" where
  "grep_step fs base recursive follow path_arg ops seen =
     tbind check_deadline (\<lambda>_.
       tbind (tlift (search_path fs path_arg base)) (\<lambda>(resolved, directory).
         if resolved \<in> set seen then tret (ops, seen, [])
         else if \<not> directory then tret (ops @ [(READ, resolved)], resolved # seen, [])
         else if \<not> recursive
           then tlift (Inl (InvalidArguments ''grep directory inputs require -r/--recursive or -R''))
         else
           tbind (recursive_children fs (pure_parts path_arg) follow) (\<lambda>names.
             tret (ops @ [(READ, resolved)], resolved # seen,
               map (text_join (pure_path_text path_arg)) (rev names)))))"

definition grep_operations ::
  "node \<Rightarrow> string list \<Rightarrow> path \<Rightarrow> bool \<Rightarrow> bool \<Rightarrow> requirement list timed" where
  "grep_operations fs paths base recursive follow =
     (let pending = filter (\<lambda>p. p \<noteq> ''-'') paths
      in tbind (traverse_stack (grep_step fs base recursive follow)
                  (sum_list (map (text_cost fs) pending)) pending [] [])
           (\<lambda>(ops, seen). tbind check_deadline (\<lambda>_. tret ops)))"

definition prepare_grep :: "node \<Rightarrow> budget \<Rightarrow> parsed_command \<Rightarrow> path \<Rightarrow> cli_error + prepared_command" where
  "prepare_grep fs clock parsed base =
     rbind (search_arguments fs parsed base) (\<lambda>(args, inputs).
       (let recursive = has_option parsed ''-r'';
            follow = (case map_of (pc_options parsed) ''-r'' of
                        None \<Rightarrow> False
                      | Some i \<Rightarrow> argv parsed ! i \<in> {''-R'', ''--dereference-recursive''});
            paths = (if inputs = [] then (if recursive then [posix_abs base] else [''-'']) else inputs)
        in case grep_operations fs paths base recursive follow clock of
             Inl e \<Rightarrow> Inl e
           | Inr (ops, _) \<Rightarrow>
               Inr \<lparr>pc_ready = search_ready (args @ paths) base, pc_operations = ops\<rparr>))"

section \<open>ripgrep\<close>

definition IGNORE_NAMES :: "string list" where
  "IGNORE_NAMES = [''.gitignore'', ''.ignore'', ''.rgignore'']"

definition RG_OPTIONS :: "string list" where
  "RG_OPTIONS = [''--no-config'', ''--no-ignore-global'', ''--no-ignore-exclude'']"

fun input_paths :: "node \<Rightarrow> path \<Rightarrow> string list \<Rightarrow> cli_error + (path list \<times> path list)" where
  "input_paths fs base [] = Inr ([], [])"
| "input_paths fs base (p # ps) =
     (if p = ''-'' then input_paths fs base ps
      else
        rbind (search_path fs p base) (\<lambda>(resolved, directory).
          rbind (input_paths fs base ps) (\<lambda>(files, roots).
            Inr (if directory then (files, resolved # roots) else (resolved # files, roots)))))"

definition tree_step ::
  "node \<Rightarrow> path \<Rightarrow> path \<Rightarrow> path list \<Rightarrow> path list \<Rightarrow> (path list \<times> path list \<times> path list) timed" where
  "tree_step fs base current paths directories =
     tbind check_deadline (\<lambda>_.
       tbind (tlift (search_path fs (posix_abs current) base)) (\<lambda>(p, directory).
         if p \<in> set paths then tret (paths, directories, [])
         else if \<not> directory then tret (p # paths, directories, [])
         else
           tbind (recursive_children fs p False) (\<lambda>names.
             tret (p # paths, p # directories, map (\<lambda>name. p @ [name]) (rev names)))))"

fun tree_loop ::
  "node \<Rightarrow> path \<Rightarrow> nat \<Rightarrow> path list \<Rightarrow> path list \<Rightarrow> path list \<Rightarrow> (path list \<times> path list) timed"
where
  "tree_loop fs base fuel [] paths directories b = Inr ((paths, directories), b)"
| "tree_loop fs base 0 (p # pending) paths directories b = Inl OutOfFuel"
| "tree_loop fs base (Suc fuel) (p # pending) paths directories b =
     (case tree_step fs base p paths directories b of
        Inl e \<Rightarrow> Inl e
      | Inr ((paths', directories', children), b') \<Rightarrow>
          tree_loop fs base fuel (children @ pending) paths' directories' b')"

definition tree_paths :: "node \<Rightarrow> path list \<Rightarrow> path \<Rightarrow> (path list \<times> path list) timed" where
  "tree_paths fs roots base = tree_loop fs base (sum_list (map (cost fs) roots)) roots [] []"

definition parents_of :: "path \<Rightarrow> path list" where
  "parents_of p = map (\<lambda>n. take n p) [0..<length p]"

fun ignore_candidates :: "node \<Rightarrow> path \<Rightarrow> (path \<times> string) list \<Rightarrow> path list timed" where
  "ignore_candidates fs base [] = tret []"
| "ignore_candidates fs base ((directory, name) # rest) =
     tbind check_deadline (\<lambda>_.
       tbind (tlift (inspect_file_path fs (posix_abs (directory @ [name])) base)) (\<lambda>(p, entry).
         tbind (ignore_candidates fs base rest) (\<lambda>files.
           tret (case entry of
                   None \<Rightarrow> files
                 | Some n \<Rightarrow> if is_dir_node n then files else p # files))))"

definition ignore_files :: "node \<Rightarrow> path list \<Rightarrow> path list \<Rightarrow> path \<Rightarrow> path list timed" where
  "ignore_files fs roots directories base =
     (let ignore_directories = sort (dedupe (directories @ concat (map parents_of roots)))
      in ignore_candidates fs base (List.product ignore_directories IGNORE_NAMES))"

definition recursive_reads :: "node \<Rightarrow> path list \<Rightarrow> path \<Rightarrow> bool \<Rightarrow> path list timed" where
  "recursive_reads fs roots base ignore =
     tbind (tree_paths fs roots base) (\<lambda>(paths, directories).
       tbind (if ignore then ignore_files fs roots directories base else tret []) (\<lambda>ignored.
         tbind check_deadline (\<lambda>_. tret (sort (dedupe (paths @ ignored))))))"

definition prepare_rg :: "node \<Rightarrow> budget \<Rightarrow> parsed_command \<Rightarrow> path \<Rightarrow> cli_error + prepared_command" where
  "prepare_rg fs clock parsed base =
     rbind (search_arguments fs parsed base) (\<lambda>(args, inputs).
       (let paths = (if inputs = [] then [''-''] else inputs)
        in rbind (input_paths fs base paths) (\<lambda>(files, roots).
             let finish = (\<lambda>options all_files.
               \<lparr>pc_ready = search_ready ([hd args] @ options @ tl args @ paths) base,
                pc_operations = map (\<lambda>p. (READ, p)) (dedupe all_files)\<rparr>)
             in if roots \<noteq> [] then
                  (case recursive_reads fs roots base
                          (\<not> has_option parsed ''--no-ignore'' \<and> \<not> has_option parsed ''-uu'') clock of
                     Inl e \<Rightarrow> Inl e
                   | Inr (reads, _) \<Rightarrow> Inr (finish RG_OPTIONS (files @ reads)))
                else Inr (finish [''--no-config'', ''--no-ignore''] files))))"

section \<open>Entries reached without links\<close>

lemma trace_prefix_nolink:
  assumes "trace fs 0 [] cs = Inr (q, k)" and "\<not> is_lnk_node fs" and "i < length cs"
  shows "\<not> is_symlink fs (take (Suc i) cs)"
proof -
  from assms(1) trace_append[of fs 0 "[]" "take (Suc i) cs" "drop (Suc i) cs"]
  obtain q1 k1 where tr: "trace fs 0 [] (take (Suc i) cs) = Inr (q1, k1)"
    by (auto split: sum.splits)
  from nolink_walks[OF tr assms(2)] show ?thesis
    by (auto simp: is_symlink_def holds_def lstat_def node_of_def)
qed

lemma inspect_dir_nolink:
  assumes "inspect_entry_path fs t base = Inr (loc, Some n)" and "is_dir_node n"
  shows "\<exists>q. trace fs 0 [] (components (os_join base t)) = Inr (q, 0) \<and> node_at fs q = Some n \<and>
    loc = (if double_rooted (os_join base t) then [] # q else q)"
proof -
  let ?cs = "components (os_join base t)"
  from inspect_entry_path_physical[OF assms(1)] obtain q where
    q: "lwalk fs ?cs = Inr q" "node_at fs q = Some n" and
    loc: "loc = (if double_rooted (os_join base t) then [] # q else q)" by blast
  from assms have pre: "\<forall>i < length ?cs - 1. \<not> is_symlink fs (take (Suc i) ?cs)"
    by (auto simp: inspect_entry_path_def Let_def first_symlink_None[symmetric]
        split: option.splits sum.splits os_error.splits)
  have ne: "?cs \<noteq> []" by (simp add: components_def)
  have last: "\<not> is_symlink fs ?cs"
    using q assms(2) by (cases n) (auto simp: is_symlink_def holds_def lstat_def node_of_def)
  have all: "\<forall>i < length ?cs. \<not> is_symlink fs (take (Suc i) ?cs)"
  proof (intro allI impI)
    fix i assume "i < length ?cs"
    with pre last show "\<not> is_symlink fs (take (Suc i) ?cs)"
      by (cases "Suc i = length ?cs") auto
  qed
  obtain xs c where cs: "?cs = xs @ [c]" using ne by (metis append_butlast_last_id)
  have "fwalk fs ?cs = Inr q"
  proof (cases "skips c \<or> c = ''..''")
    case True
    with q(1) lwalk_special[OF True, of fs xs] cs show ?thesis by simp
  next
    case False
    with q(1) cs obtain p d m where p: "fwalk fs xs = Inr p" "node_at fs p = Some d"
      "is_dir_node d" "child d c = Some m" "q = p @ [c]" by (auto simp: lwalk_snoc)
    with q(2) assms(2) have "m = n" by (simp add: node_at_snoc)
    from p(1) obtain k where "trace fs LINK_LIMIT [] xs = Inr (p, k)" by (auto simp: fwalk_Inr)
    with p False \<open>m = n\<close> assms(2) show ?thesis
      by (cases n) (auto simp: fwalk_Inr cs trace_append trace.simps(2))
  qed
  then obtain k where "trace fs LINK_LIMIT [] ?cs = Inr (q, k)" by (auto simp: fwalk_Inr)
  from trace_nolinkI[OF this all] q(2) loc show ?thesis by blast
qed

section \<open>Children of a directory text\<close>

definition root_components :: "string \<Rightarrow> string list" where
  "root_components t = (if double_rooted t then [[], []] else [[]])"

lemma pure_parts_words: "w \<in> set (pure_parts t) \<Longrightarrow> slash \<notin> set w \<and> \<not> skips w"
  by (auto simp: pure_parts_def components_def dest: split_on_no_sep)

lemma pure_path_text_absolute:
  "prefix [slash] t \<Longrightarrow> pure_path_text t =
     (if double_rooted t then [slash, slash] else [slash]) @ join_with [slash] (pure_parts t)"
  by (auto simp: pure_path_text_def double_rooted_def pure_parts_def components_def skips_def Let_def
      intro!: arg_cong[of _ _ "join_with [slash]"] filter_cong)

lemma join_with_snoc: "ws \<noteq> [] \<Longrightarrow> join_with s (ws @ [w]) = join_with s ws @ s @ w"
  by (induction s ws rule: join_with.induct) auto

lemma join_not_slash_end:
  "ws \<noteq> [] \<Longrightarrow> \<forall>w \<in> set ws. w \<noteq> [] \<and> slash \<notin> set w \<Longrightarrow>
   join_with [slash] ws \<noteq> [] \<and> last (join_with [slash] ws) \<noteq> slash"
proof (induction ws rule: rev_induct)
  case (snoc w ws)
  then show ?case by (cases "ws = []") (auto simp: join_with_snoc in_set_conv_nth last_conv_nth)
qed simp

lemma suffix_single: "suffix [c] xs \<longleftrightarrow> xs \<noteq> [] \<and> last xs = c"
  by (cases xs rule: rev_cases) (auto simp: suffix_def)

lemma child_text:
  assumes "prefix [slash] t" and "proper_name c"
  shows "text_join (pure_path_text t) c =
    (if double_rooted t then [slash, slash] else [slash]) @ join_with [slash] (pure_parts t @ [c])"
proof (cases "pure_parts t = []")
  case True
  with assms show ?thesis by (simp add: pure_path_text_absolute text_join_def suffix_def)
next
  case False
  have "join_with [slash] (pure_parts t) \<noteq> [] \<and> last (join_with [slash] (pure_parts t)) \<noteq> slash"
    using False pure_parts_words[of _ t] by (intro join_not_slash_end) (auto simp: skips_def)
  then have "\<not> suffix [slash] (pure_path_text t)"
    using assms(1) by (auto simp: pure_path_text_absolute suffix_single)
  with False assms(1) show ?thesis
    by (simp add: text_join_def pure_path_text_absolute join_with_snoc)
qed

lemma components_Cons_slash: "components (slash # xs) = [] # components xs"
  using components_slash[of "[]" xs] by (simp add: components_def)

lemma child_components:
  assumes "prefix [slash] t" and "proper_name c"
  shows "components (text_join (pure_path_text t) c) = root_components t @ pure_parts t @ [c]"
proof -
  have "components (join_with [slash] (pure_parts t @ [c])) = pure_parts t @ [c]"
    unfolding components_def using pure_parts_words[of _ t] assms(2)
    by (intro split_join) (auto simp: proper_name_def)
  then show ?thesis
    by (simp add: child_text[OF assms] root_components_def components_Cons_slash)
qed

lemma child_double_rooted:
  assumes "prefix [slash] t" and "proper_name c"
  shows "double_rooted (text_join (pure_path_text t) c) = double_rooted t"
proof -
  have "join_with [slash] (pure_parts t @ [c]) \<noteq> [] \<and> hd (join_with [slash] (pure_parts t @ [c])) \<noteq> slash"
  proof (cases "pure_parts t")
    case Nil
    with assms(2) show ?thesis by (cases c) (auto simp: proper_name_def)
  next
    case (Cons w ws)
    with pure_parts_words[of w t] show ?thesis
      by (cases w; cases "ws @ [c]") (auto simp: skips_def)
  qed
  then show ?thesis
    by (cases "join_with [slash] (pure_parts t @ [c])")
      (auto simp: child_text[OF assms] double_rooted_def)
qed

lemma child_absolute: "prefix [slash] t \<Longrightarrow> proper_name c \<Longrightarrow> prefix [slash] (text_join (pure_path_text t) c)"
  by (simp add: child_text)

lemma child_pure_parts:
  assumes "prefix [slash] t" and "proper_name c"
  shows "pure_parts (text_join (pure_path_text t) c) = pure_parts t @ [c]"
proof -
  have "filter (\<lambda>c. \<not> skips c) (root_components t) = []" by (simp add: root_components_def skips_def)
  moreover have "filter (\<lambda>c. \<not> skips c) (pure_parts t @ [c]) = pure_parts t @ [c]"
    using pure_parts_words[of _ t] proper_not_skips[OF assms(2)] by (auto intro!: filter_True)
  ultimately show ?thesis
    unfolding pure_parts_def[of "text_join _ _"] child_components[OF assms] by simp
qed

text \<open>A directory reached without links, by the text that names it.\<close>

lemma dir_text:
  assumes "trace fs 0 [] (components t) = Inr (q, 0)" and "node_at fs q = Some (Dir d i es)"
  shows "fwalk fs (pure_parts t) = Inr q" and "lwalk fs (pure_parts t) = Inr q"
    and "trace fs 0 [] (root_components t @ pure_parts t) = Inr (q, 0)"
proof -
  from trace_drop_skips[OF assms(1)] have tr: "trace fs 0 [] (pure_parts t) = Inr (q, 0)"
    by (simp add: pure_parts_def)
  have nl: "\<not> is_lnk_node fs" using root_not_link[OF assms] by simp
  from nolink_walks[OF tr nl] show "fwalk fs (pure_parts t) = Inr q" "lwalk fs (pure_parts t) = Inr q"
    by simp_all
  have "filter (\<lambda>c. \<not> skips c) (root_components t @ pure_parts t) = pure_parts t"
    using pure_parts_words[of _ t] by (auto simp: root_components_def skips_def intro!: filter_True)
  with trace_add_skips[of fs 0 "[]" "root_components t @ pure_parts t" q 0] tr assms(2)
  show "trace fs 0 [] (root_components t @ pure_parts t) = Inr (q, 0)" by simp
qed

lemma child_text_cost:
  assumes "trace fs 0 [] (components t) = Inr (q, 0)" and "node_at fs q = Some (Dir d i es)"
    and "prefix [slash] t" and "set names \<subseteq> set (entry_names es)" and "distinct names"
  shows "sum_list (map (\<lambda>c. text_cost fs (text_join (pure_path_text t) c)) names) < text_cost fs t"
proof -
  have "map (\<lambda>c. text_cost fs (text_join (pure_path_text t) c)) names =
      map (\<lambda>c. cost fs (pure_parts t @ [c])) names"
    using assms(3,4) by (auto simp: text_cost_def entry_names_def child_pure_parts)
  then have "sum_list (map (\<lambda>c. text_cost fs (text_join (pure_path_text t) c)) names) <
      cost fs (pure_parts t)"
    using children_cost[OF dir_text(1,2)[OF assms(1,2)] assms(2,4,5)] by (simp only:)
  then show ?thesis by (simp add: text_cost_def)
qed

lemma inspect_child:
  assumes "trace fs 0 [] (components t) = Inr (q, 0)" and "node_at fs q = Some (Dir d i es)"
    and "prefix [slash] t" and "child (Dir d i es) c = Some m"
  shows "inspect_entry_path fs (text_join (pure_path_text t) c) base =
    Inr ((if double_rooted t then [] # q else q) @ [c], Some m)"
proof -
  let ?t = "text_join (pure_path_text t) c" and ?cs = "root_components t @ pure_parts t"
  from assms(4) have c: "proper_name c" by (auto split: if_splits)
  have abs: "os_join base ?t = ?t" using child_absolute[OF assms(3) c] by (simp add: os_join_def)
  have cs: "components ?t = ?cs @ [c]" using child_components[OF assms(3) c] by simp
  have nl: "\<not> is_lnk_node fs" using root_not_link[OF assms(1,2)] by simp
  note tr = dir_text(3)[OF assms(1,2)]
  have "first_symlink fs (components ?t) (length (components ?t) - 1) = None"
    unfolding first_symlink_None
  proof (intro allI impI)
    fix i assume "i < length (components ?t) - 1"
    with trace_prefix_nolink[OF tr nl, of i] show "\<not> is_symlink fs (take (Suc i) (components ?t))"
      by (simp add: cs)
  qed
  moreover have "lstat fs (components ?t) = Inr m"
  proof -
    have "fwalk fs ?cs = Inr q" using nolink_walks(1)[OF tr nl] .
    moreover have "\<not> skips c \<and> c \<noteq> ''..''" by (rule proper_not_skips[OF c])
    ultimately have "lwalk fs (?cs @ [c]) = Inr (q @ [c])"
      using assms(2,4) lwalk_snoc[of c fs ?cs "q @ [c]"] by auto
    with assms(2,4) show ?thesis by (simp add: lstat_def node_of_def cs node_at_snoc)
  qed
  moreover have "abspath ?t = (if double_rooted t then [] # q else q) @ [c]"
  proof -
    have "collapse [] (components ?t) = q @ [c]"
      using trace_nolink_collapse[OF tr] proper_not_skips[OF c] by (simp add: cs collapse_append)
    then show ?thesis using child_double_rooted[OF assms(3) c] by (simp add: abspath_def)
  qed
  ultimately show ?thesis by (simp add: inspect_entry_path_def Let_def abs)
qed

section \<open>The deletion loop keeps its contract\<close>

definition strip_root :: "path \<Rightarrow> path" where
  "strip_root l = (case l of [] \<Rightarrow> [] | c # cs \<Rightarrow> if c = [] then cs else l)"

definition entry_location :: "node \<Rightarrow> path \<Rightarrow> string \<Rightarrow> path option" where
  "entry_location fs base t =
     (case inspect_entry_path fs t base of Inr (l, Some n) \<Rightarrow> Some l | _ \<Rightarrow> None)"

definition deleted_below :: "node \<Rightarrow> bool \<Rightarrow> path \<Rightarrow> path set" where
  "deleted_below fs recursive l =
     (if recursive
      then {l @ [c] | c n m. node_at fs (strip_root l) = Some n \<and> child n c = Some m} else {})"

lemma entry_location_Some:
  "entry_location fs base t = Some l \<longleftrightarrow> (\<exists>n. inspect_entry_path fs t base = Inr (l, Some n))"
  by (auto simp: entry_location_def split: sum.splits option.splits)

lemma node_at_proper: "node_at fs (c # p) = Some m \<Longrightarrow> proper_name c"
  by (auto split: option.splits dest: child_dir)

lemma strip_root_location:
  "node_at fs q = Some m \<Longrightarrow> strip_root (if double_rooted t then [] # q else q) = q"
proof (cases q)
  case (Cons c p)
  moreover assume "node_at fs q = Some m"
  ultimately have "proper_name c" using node_at_proper by blast
  with Cons show ?thesis by (simp add: strip_root_def proper_name_def)
qed (simp add: strip_root_def)

text \<open>What one step of the deletion loop does, on each branch.\<close>

lemma delete_step_cases:
  assumes "delete_step fs base recursive t ops seen b = Inr ((ops', seen', cs), b')"
  obtains (seen) l e where "inspect_entry_path fs t base = Inr (l, e)" "l \<in> set seen"
      "ops' = ops" "seen' = seen" "cs = []"
  | (missing) l where "inspect_entry_path fs t base = Inr (l, None)" "l \<notin> set seen"
      "ops' = ops @ [(DELETE, l)]" "seen' = seen" "cs = []"
  | (leaf) l n where "inspect_entry_path fs t base = Inr (l, Some n)" "l \<notin> set seen"
      "ops' = ops @ [(DELETE, l)]" "seen' = l # seen" "cs = []" "\<not> recursive \<or> \<not> is_dir_node n"
  | (dir) l n names b1 b2 where "inspect_entry_path fs t base = Inr (l, Some n)" "l \<notin> set seen"
      "ops' = ops @ [(DELETE, l)]" "seen' = l # seen" "recursive" "is_dir_node n"
      "directory_entries fs (pure_parts t) b1 = Inr (names, b2)"
      "cs = sort (map (text_join (pure_path_text t)) names)"
proof -
  from assms obtain l e b1 where ie: "inspect_entry_path fs t base = Inr (l, e)"
    and rest: "(if l \<in> set seen then tret (ops, seen, [])
         else case e of None \<Rightarrow> tret (ops @ [(DELETE, l)], seen, [])
            | Some n \<Rightarrow>
                if \<not> recursive \<or> \<not> is_dir_node n then tret (ops @ [(DELETE, l)], l # seen, [])
                else tbind (directory_entries fs (pure_parts t)) (\<lambda>names.
                    tret (ops @ [(DELETE, l)], l # seen,
                      sort (map (text_join (pure_path_text t)) names)))) b1
      = Inr ((ops', seen', cs), b')"
    by (auto simp: delete_step_def tbind_Inr[where m = check_deadline] tbind_Inr[where m = "tlift _"]
        tlift_Inr)
  show ?thesis
  proof (cases "l \<in> set seen")
    case True
    with rest have "ops' = ops" "seen' = seen" "cs = []" by (auto simp: result_simps)
    with seen ie True show ?thesis by blast
  next
    case False
    show ?thesis
    proof (cases e)
      case None
      with rest False have "ops' = ops @ [(DELETE, l)]" "seen' = seen" "cs = []"
        by (auto simp: result_simps)
      with missing ie False None show ?thesis by blast
    next
      case (Some n)
      show ?thesis
      proof (cases "\<not> recursive \<or> \<not> is_dir_node n")
        case True
        with rest False Some have "ops' = ops @ [(DELETE, l)]" "seen' = l # seen" "cs = []"
          by (auto simp: result_simps)
        with leaf ie False Some True show ?thesis by blast
      next
        case nonleaf: False
        with rest ie False Some obtain names b2 where
          "directory_entries fs (pure_parts t) b1 = Inr (names, b2)" "ops' = ops @ [(DELETE, l)]"
          "seen' = l # seen" "cs = sort (map (text_join (pure_path_text t)) names)"
          by (auto simp: result_simps)
        with dir ie False Some nonleaf show ?thesis by blast
      qed
    qed
  qed
qed

text \<open>A directory that the loop enters, and the entries the scan returns.\<close>

lemma entered_dir:
  assumes "inspect_entry_path fs t base = Inr (l, Some n)" and "is_dir_node n" and "prefix [slash] t"
    and "directory_entries fs (pure_parts t) b1 = Inr (names, b2)"
  obtains q d i es where "trace fs 0 [] (components t) = Inr (q, 0)" "node_at fs q = Some (Dir d i es)"
    "n = Dir d i es" "names = entry_names es" "l = (if double_rooted t then [] # q else q)"
proof -
  have t: "os_join base t = t" using assms(3) by (simp add: os_join_def)
  from inspect_dir_nolink[OF assms(1,2), unfolded t] obtain q where
    q: "trace fs 0 [] (components t) = Inr (q, 0)" "node_at fs q = Some n"
      "l = (if double_rooted t then [] # q else q)" by blast
  from assms(2) obtain d i es where n: "n = Dir d i es" by (cases n) auto
  from dir_text(1)[OF q(1) q(2)[unfolded n]] directory_entries_Inr[OF assms(4)] q(2) n
  have "names = entry_names es" by auto
  with that q n show ?thesis by blast
qed

lemma inspect_not_fuel [simp]: "inspect_entry_path fs t base \<noteq> Inl OutOfFuel"
  by (auto simp: inspect_entry_path_def Let_def split: option.splits sum.splits os_error.splits)

lemma delete_step_not_fuel: "delete_step fs base recursive t ops seen b \<noteq> Inl OutOfFuel"
  by (auto simp: delete_step_def result_simps split: if_splits option.splits)

lemma child_Some_iff: "(\<exists>m. child (Dir d i es) c = Some m) \<longleftrightarrow> c \<in> set (entry_names es)"
proof -
  have "c \<in> set (entry_names es) \<longleftrightarrow> proper_name c \<and> map_of es c \<noteq> None"
    by (auto simp: entry_names_def map_of_eq_None_iff)
  then show ?thesis by auto
qed

lemma sum_list_insort: "sum_list (map f (insort x xs)) = f x + sum_list (map (f :: 'a :: linorder \<Rightarrow> nat) xs)"
  by (induction xs) auto

lemma sum_list_sort: "sum_list (map f (sort xs)) = sum_list (map (f :: 'a :: linorder \<Rightarrow> nat) xs)"
  by (induction xs) (auto simp: sum_list_insort)

interpretation deletion: traversal "delete_step fs base recursive" "text_cost fs" "prefix [slash]"
  "entry_location fs base" "deleted_below fs recursive" "Pair DELETE"
  for fs base recursive
proof
  show "0 < text_cost fs t" for t by (simp add: text_cost_def)
  show "delete_step fs base recursive t ops seen b \<noteq> Inl OutOfFuel" for t ops seen b
    by (rule delete_step_not_fuel)
next
  fix t ops seen b ops' seen' cs b'
  assume st: "delete_step fs base recursive t ops seen b = Inr ((ops', seen', cs), b')"
  from st show "set ops \<subseteq> set ops' \<and> set seen \<subseteq> set seen'"
    by (cases rule: delete_step_cases) auto
  show "l \<in> set seen'" if "entry_location fs base t = Some l" for l
    using st that by (cases rule: delete_step_cases) (auto simp: entry_location_Some)
  show "(DELETE, l) \<in> set ops'" if "l \<in> set seen'" "l \<notin> set seen" for l
    using st that by (cases rule: delete_step_cases) auto
  show "(\<forall>c \<in> set cs. prefix [slash] c) \<and> sum_list (map (text_cost fs) cs) < text_cost fs t"
    if t: "prefix [slash] t"
    using st
  proof (cases rule: delete_step_cases)
    case (dir l n names b1 b2)
    from entered_dir[OF dir(1,6) t dir(7)] obtain q d i es where
      q: "trace fs 0 [] (components t) = Inr (q, 0)" "node_at fs q = Some (Dir d i es)"
        "names = entry_names es" by metis
    have names: "set names \<subseteq> set (entry_names es)" "distinct names"
      by (auto simp: q(3) entry_names_def)
    have "\<forall>c \<in> set cs. prefix [slash] c"
      using t by (auto simp: dir(8) q(3) entry_names_def child_absolute)
    moreover have "sum_list (map (text_cost fs) cs) < text_cost fs t"
      using child_text_cost[OF q(1,2) t names] by (simp add: dir(8) sum_list_sort comp_def)
    ultimately show ?thesis by blast
  qed (auto simp: text_cost_def)
  show "\<exists>c \<in> set cs. entry_location fs base c = Some k"
    if t: "prefix [slash] t" and l: "l \<in> set seen'" "l \<notin> set seen"
      and k: "k \<in> deleted_below fs recursive l" for l k
    using st
  proof (cases rule: delete_step_cases)
    case (leaf l' n)
    with l have "l' = l" by auto
    from inspect_entry_path_physical[OF leaf(1)] \<open>l' = l\<close>
    have "node_at fs (strip_root l) = Some n" by (auto simp: strip_root_location)
    with k leaf(6) child_dir show ?thesis by (auto simp: deleted_below_def split: if_splits)
  next
    case (dir l' n names b1 b2)
    with l have "l' = l" by auto
    from entered_dir[OF dir(1,6) t dir(7)] obtain q d i es where
      q: "trace fs 0 [] (components t) = Inr (q, 0)" "node_at fs q = Some (Dir d i es)"
        "names = entry_names es" "l = (if double_rooted t then [] # q else q)"
      using \<open>l' = l\<close> by metis
    from k q(2,4) strip_root_location[OF q(2)] obtain c m where
      c: "k = l @ [c]" "child (Dir d i es) c = Some m"
      by (auto simp: deleted_below_def split: if_splits)
    then have "c \<in> set names" using child_Some_iff q(3) by blast
    moreover have "entry_location fs base (text_join (pure_path_text t) c) = Some k"
      using inspect_child[OF q(1,2) t c(2)] c(1) q(4) by (simp add: entry_location_def)
    ultimately show ?thesis using dir(8) by auto
  qed (use l in auto)
qed

section \<open>Properties\<close>

lemma below_chain:
  assumes "\<forall>l \<in> S. deleted_below fs True l \<subseteq> S"
  shows "l \<in> S \<Longrightarrow> node_at fs (strip_root l) = Some n \<Longrightarrow> node_at n r = Some m \<Longrightarrow> l @ r \<in> S"
proof (induction r arbitrary: l n)
  case (Cons c r)
  then obtain n1 where n1: "child n c = Some n1" "node_at n1 r = Some m"
    by (auto split: option.splits)
  then have "c \<noteq> []" using child_dir by (auto simp: proper_name_def)
  then have "strip_root (l @ [c]) = strip_root l @ [c]" by (cases l) (auto simp: strip_root_def)
  with Cons.prems(2) n1(1) have at: "node_at fs (strip_root (l @ [c])) = Some n1"
    by (simp add: node_at_snoc)
  have "l @ [c] \<in> deleted_below fs True l"
    using Cons.prems(2) n1(1) by (auto simp: deleted_below_def)
  with assms Cons.prems(1) have "l @ [c] \<in> S" by blast
  from Cons.IH[OF this at n1(2)] show ?case by simp
qed simp

lemma prepare_deletion_Inr:
  assumes "prepare_deletion fs clock args operands base recursive = Inr prepared"
  obtains paths b1 b2 ops seen where "cr_argv (pc_ready prepared) = args @ paths"
    "\<forall>t \<in> set paths. prefix [slash] t"
    "traverse_stack (delete_step fs base recursive) (sum_list (map (text_cost fs) paths)) paths [] [] b1
      = Inr ((ops, seen), b2)"
    "pc_operations prepared = dedupe ops"
proof -
  from assms obtain paths ops' b1 b2 where
    ex: "tconcat (\<lambda>operand. expand_source_path fs operand base False True) operands clock = Inr (paths, b1)"
    and del: "delete_operations fs paths base recursive b1 = Inr (ops', b2)"
    and prep: "cr_argv (pc_ready prepared) = args @ paths" "pc_operations prepared = ops'"
    by (auto simp: prepare_deletion_def ready_of_def result_simps Let_def split: sum.splits prod.splits)
  have "\<forall>t \<in> set paths. prefix [slash] t"
  proof
    fix t assume "t \<in> set paths"
    from tconcat_mem[OF ex this] expand_source_path_absolute show "prefix [slash] t" by blast
  qed
  moreover from del obtain ops seen b3 where
    "traverse_stack (delete_step fs base recursive) (sum_list (map (text_cost fs) paths)) paths [] [] b1
      = Inr ((ops, seen), b3)" "ops' = dedupe ops"
    by (auto simp: delete_operations_def result_simps)
  ultimately show ?thesis using that[of paths b1 ops seen] prep by auto
qed

text \<open>
  C7. Recursive deletion is guarded in full: when \<open>prepare_deletion\<close> succeeds, every entry of
  the tree below each path handed to the native command, at any depth and of any kind, has a
  DELETE requirement at its own location.
\<close>

theorem deletion_covers_tree:
  assumes "prepare_deletion fs clock args operands base True = Inr prepared"
    and "t \<in> set (drop (length args) (cr_argv (pc_ready prepared)))"
    and "inspect_entry_path fs t base = Inr (loc, Some n)"
    and "node_at n r = Some m"
  shows "(DELETE, loc @ r) \<in> set (pc_operations prepared)"
proof -
  obtain paths b1 b2 ops seen where argv: "cr_argv (pc_ready prepared) = args @ paths"
    and abs: "\<forall>t \<in> set paths. prefix [slash] t"
    and run: "traverse_stack (delete_step fs base True) (sum_list (map (text_cost fs) paths)) paths [] [] b1
      = Inr ((ops, seen), b2)"
    and ops: "pc_operations prepared = dedupe ops"
    by (rule prepare_deletion_Inr[OF assms(1)])
  from deletion.coverage[OF run abs] have need: "\<forall>l \<in> set seen. (DELETE, l) \<in> set ops"
    and below: "\<forall>l \<in> set seen. deleted_below fs True l \<subseteq> set seen"
    and visited: "\<forall>t \<in> set paths. \<forall>l. entry_location fs base t = Some l \<longrightarrow> l \<in> set seen"
    by auto
  have "t \<in> set paths" using assms(2) argv by simp
  moreover have "entry_location fs base t = Some loc" using assms(3) by (simp add: entry_location_def)
  ultimately have "loc \<in> set seen" using visited by blast
  moreover from inspect_entry_path_physical[OF assms(3)]
  have "node_at fs (strip_root loc) = Some n" by (auto simp: strip_root_location)
  ultimately have "loc @ r \<in> set seen" using below_chain[OF below] assms(4) by blast
  with need ops show ?thesis by simp
qed

theorem deletion_covers_tree_witness:
  "\<exists>prepared. prepare_deletion example_tree (Some 50) [''rm'', ''-r''] [''sub/../sub''] [''a''] True =
     Inr prepared \<and> (DELETE, [''a'', ''sub'', ''y.py'']) \<in> set (pc_operations prepared)"
proof -
  have run: "\<exists>prepared.
      prepare_deletion example_tree (Some 50) [''rm'', ''-r''] [''sub/../sub''] [''a''] True = Inr prepared \<and>
      drop (length [''rm'', ''-r'']) (cr_argv (pc_ready prepared)) = [''/a/sub/../sub'']"
  proof -
    have "(case prepare_deletion example_tree (Some 50) [''rm'', ''-r''] [''sub/../sub''] [''a''] True of
        Inr prepared \<Rightarrow> drop (length [''rm'', ''-r'']) (cr_argv (pc_ready prepared)) = [''/a/sub/../sub''] | Inl e \<Rightarrow> False)"
      by code_simp
    then show ?thesis by (auto split: sum.splits)
  qed
  have ins: "inspect_entry_path example_tree ''/a/sub/../sub'' [''a''] =
      Inr ([''a'', ''sub''], Some (Dir 0 5 [(''y.py'', Reg 0 6 1 [])]))" by code_simp
  have at: "node_at (Dir 0 5 [(''y.py'', Reg 0 6 1 [])]) [''y.py''] = Some (Reg 0 6 1 [])" by code_simp
  from run obtain prepared where p:
    "prepare_deletion example_tree (Some 50) [''rm'', ''-r''] [''sub/../sub''] [''a''] True = Inr prepared"
    "''/a/sub/../sub'' \<in> set (drop (length [''rm'', ''-r'']) (cr_argv (pc_ready prepared)))"
    by (metis list.set_intros(1))
  from deletion_covers_tree[OF p ins at] p(1) show ?thesis by auto
qed

lemma delete_operations_not_fuel:
  assumes "\<forall>t \<in> set paths. prefix [slash] t"
  shows "delete_operations fs paths base recursive b \<noteq> Inl OutOfFuel"
  using deletion.enough_fuel[OF order.refl assms]
  by (auto simp: delete_operations_def result_simps)

text \<open>
  The traversal of deletion always ends: within the number of nodes below the expanded
  operands, whatever the file system and the deadline.
\<close>

theorem deletion_terminates:
  "prepare_deletion fs clock args operands base recursive \<noteq> Inl OutOfFuel"
proof -
  have "expand_source_path fs v base False True b \<noteq> Inl OutOfFuel" for v b
    by (rule expand_source_path_not_fuel)
  then have ex: "tconcat (\<lambda>operand. expand_source_path fs operand base False True) operands clock
      \<noteq> Inl OutOfFuel"
    by (intro tconcat_not_fuel) simp
  have "delete_operations fs paths base recursive b1 \<noteq> Inl OutOfFuel"
    if "tconcat (\<lambda>operand. expand_source_path fs operand base False True) operands clock = Inr (paths, b1)"
    for paths b1
    using tconcat_mem[OF that] expand_source_path_absolute
    by (intro delete_operations_not_fuel) blast
  with ex show ?thesis
    by (auto simp: prepare_deletion_def result_simps Let_def split: sum.splits)
qed

section \<open>The search loop keeps its contract\<close>

definition search_location :: "node \<Rightarrow> path \<Rightarrow> string \<Rightarrow> path option" where
  "search_location fs base t =
     (case search_path fs t base of Inr (l, _) \<Rightarrow> Some l | Inl _ \<Rightarrow> None)"

text \<open>The children that recursive grep reads: directories and regular files of one name.\<close>

definition searchable :: "node \<Rightarrow> bool" where
  "searchable n \<longleftrightarrow> is_dir_node n \<or> (is_reg_node n \<and> st_nlink n \<le> 1)"

definition searched_below :: "node \<Rightarrow> path \<Rightarrow> path set" where
  "searched_below fs l =
     {l @ [c] | c n m. node_at fs l = Some n \<and> child n c = Some m \<and> searchable m}"

lemma search_path_iff:
  "search_path fs t base = Inr (l, isdir) \<longleftrightarrow>
   (\<exists>n. inspect_file_path fs t base = Inr (l, Some n) \<and> isdir = is_dir_node n)"
  by (auto simp: search_path_def rbind_Inr_iff split: option.splits)

lemma search_path_Inr:
  assumes "search_path fs t base = Inr (l, isdir)" and "prefix [slash] t"
  obtains n where "resolve_literal_path fs t base = Inr l" "stat fs (components t) = Inr n"
    "isdir = is_dir_node n"
  using assms by (auto simp: search_path_iff inspect_file_path_Some os_join_def)

text \<open>A text that resolves literally and exists is reached without links.\<close>

lemma literal_nolink:
  assumes "resolve_literal_path fs t base = Inr l" and "stat fs (components t) = Inr n"
    and "prefix [slash] t"
  shows "trace fs 0 [] (pure_parts t) = Inr (l, 0) \<and> node_at fs l = Some n"
proof -
  from assms(2) obtain q k where q: "trace fs LINK_LIMIT [] (components t) = Inr (q, k)"
    "node_at fs q = Some n"
    by (auto simp: stat_def node_of_def fwalk_def split: sum.splits option.splits)
  from trace_drop_skips[OF q(1)] have "fwalk fs (pure_parts t) = Inr q"
    by (simp add: pure_parts_def fwalk_def)
  with resolve_literal_path_physical[OF assms(1)] assms(3) q(2) show ?thesis
    by (simp add: path_div_absolute)
qed

lemma absolute_components: "prefix [slash] t \<Longrightarrow> \<exists>xs. components t = [] # xs"
  by (cases t) (auto simp: components_Cons_slash)

lemma literal_dir_trace:
  assumes "trace fs 0 [] (pure_parts t) = Inr (l, 0)" and "node_at fs l = Some (Dir d i es)"
  shows "trace fs 0 [] (components t) = Inr (l, 0)"
  using trace_add_skips[of fs 0 "[]" "components t" l 0] assms by (simp add: pure_parts_def)

lemma trace_snoc_child:
  assumes "trace fs 0 [] cs = Inr (q, 0)" and "node_at fs q = Some (Dir d i es)"
    and "child (Dir d i es) c = Some m" and "\<not> is_lnk_node m"
  shows "trace fs 0 [] (cs @ [c]) = Inr (q @ [c], 0) \<and> node_at fs (q @ [c]) = Some m"
proof -
  have "\<not> skips c \<and> c \<noteq> ''..''" using assms(3) child_dir proper_not_skips by blast
  with assms show ?thesis by (cases m) (auto simp: trace_append trace.simps(2) node_at_snoc)
qed

lemma search_child:
  assumes "trace fs 0 [] (components t) = Inr (q, 0)" and "node_at fs q = Some (Dir d i es)"
    and "prefix [slash] t" and "child (Dir d i es) c = Some m" and "searchable m"
  shows "search_path fs (text_join (pure_path_text t) c) base = Inr (q @ [c], is_dir_node m)"
proof -
  let ?t = "text_join (pure_path_text t) c"
  have c: "proper_name c" using assms(4) by (auto split: if_splits)
  have lnk: "\<not> is_lnk_node m" using assms(5) by (cases m) (auto simp: searchable_def)
  have nl: "\<not> is_lnk_node fs" using root_not_link[OF assms(1,2)] by simp
  have abs: "prefix [slash] ?t" by (rule child_absolute[OF assms(3) c])
  have parts: "pure_parts ?t = pure_parts t @ [c]" by (rule child_pure_parts[OF assms(3) c])
  have tr0: "trace fs 0 [] (pure_parts t) = Inr (q, 0)"
    using trace_drop_skips[OF assms(1)] by (simp add: pure_parts_def)
  from trace_snoc_child[OF tr0 assms(2,4) lnk]
  have tr: "trace fs 0 [] (pure_parts ?t) = Inr (q @ [c], 0)" and m: "node_at fs (q @ [c]) = Some m"
    by (simp_all add: parts)
  have "reject_symlink_components fs (pure_parts ?t) = Inr ()"
    unfolding reject_symlink_components_Inr using trace_prefix_nolink[OF tr nl] by blast
  moreover have "\<not> suffix [slash] ?t"
  proof -
    have "c \<noteq> [] \<and> last c \<noteq> slash" using c by (metis last_in_set proper_name_def)
    then show ?thesis by (auto simp: text_join_def suffix_single)
  qed
  ultimately have lit: "resolve_literal_path fs ?t base = Inr (q @ [c])"
    using trace_resolve[OF tr] by (simp add: resolve_literal_path_def Let_def path_div_absolute[OF abs])
  have "components ?t = (root_components t @ pure_parts t) @ [c]"
    using child_components[OF assms(3) c] by simp
  moreover from trace_snoc_child[OF dir_text(3)[OF assms(1,2)] assms(2,4) lnk]
  have "trace fs 0 [] ((root_components t @ pure_parts t) @ [c]) = Inr (q @ [c], 0)" by blast
  ultimately have "fwalk fs (components ?t) = Inr (q @ [c])" using nolink_walks(1) nl by metis
  with m have "stat fs (components (os_join base ?t)) = Inr m"
    using abs by (simp add: stat_def node_of_def os_join_def)
  with lit assms(5) show ?thesis
    by (cases m) (auto simp: search_path_iff inspect_file_path_Some searchable_def)
qed

lemma grep_step_cases:
  assumes "grep_step fs base recursive follow t ops seen b = Inr ((ops', seen', cs), b')"
  obtains (seen) l isdir where "search_path fs t base = Inr (l, isdir)" "l \<in> set seen"
      "ops' = ops" "seen' = seen" "cs = []"
  | (leaf) l where "search_path fs t base = Inr (l, False)" "l \<notin> set seen"
      "ops' = ops @ [(READ, l)]" "seen' = l # seen" "cs = []"
  | (dir) l names b1 b2 where "search_path fs t base = Inr (l, True)" "l \<notin> set seen"
      "ops' = ops @ [(READ, l)]" "seen' = l # seen" "recursive"
      "recursive_children fs (pure_parts t) follow b1 = Inr (names, b2)"
      "cs = map (text_join (pure_path_text t)) (rev names)"
proof -
  from assms obtain l isdir b1 where ie: "search_path fs t base = Inr (l, isdir)"
    and rest: "(if l \<in> set seen then tret (ops, seen, [])
         else if \<not> isdir then tret (ops @ [(READ, l)], l # seen, [])
         else if \<not> recursive
           then tlift (Inl (InvalidArguments ''grep directory inputs require -r/--recursive or -R''))
         else tbind (recursive_children fs (pure_parts t) follow) (\<lambda>names.
             tret (ops @ [(READ, l)], l # seen,
               map (text_join (pure_path_text t)) (rev names)))) b1
      = Inr ((ops', seen', cs), b')"
    by (auto simp: grep_step_def tbind_Inr[where m = check_deadline] tbind_Inr[where m = "tlift _"]
        tlift_Inr)
  show ?thesis
  proof (cases "l \<in> set seen")
    case True
    with rest have "ops' = ops" "seen' = seen" "cs = []" by (auto simp: result_simps)
    with seen ie True show ?thesis by blast
  next
    case new: False
    show ?thesis
    proof (cases isdir)
      case False
      with rest new have "ops' = ops @ [(READ, l)]" "seen' = l # seen" "cs = []"
        by (auto simp: result_simps)
      with leaf[of l] ie new False show ?thesis by simp
    next
      case True
      with rest new have rec: "recursive" by (auto simp: result_simps split: if_splits)
      with rest new True obtain names b2 where
        "recursive_children fs (pure_parts t) follow b1 = Inr (names, b2)" "ops' = ops @ [(READ, l)]"
        "seen' = l # seen" "cs = map (text_join (pure_path_text t)) (rev names)"
        by (auto simp: result_simps)
      with dir[of l b1 names b2] ie new True rec show ?thesis by simp
    qed
  qed
qed

lemma recursive_children_Inr:
  "recursive_children fs cs follow b1 = Inr (names, b2) \<Longrightarrow>
   \<exists>q d i es. fwalk fs cs = Inr q \<and> node_at fs q = Some (Dir d i es) \<and>
     set names = {c \<in> set (entry_names es). follow \<or>
        holds (\<lambda>n. is_reg_node n \<or> is_dir_node n) (lstat fs (cs @ [c]))} \<and> distinct names"
  by (auto simp: recursive_children_def result_simps entry_names_def dest!: directory_entries_Inr)

lemma grep_entered:
  assumes "search_path fs t base = Inr (l, True)" and "prefix [slash] t"
    and "recursive_children fs (pure_parts t) follow b1 = Inr (names, b2)"
  obtains d i es where "trace fs 0 [] (components t) = Inr (l, 0)" "node_at fs l = Some (Dir d i es)"
    "set names \<subseteq> set (entry_names es)" "distinct names"
    "\<And>c m. child (Dir d i es) c = Some m \<Longrightarrow> is_reg_node m \<or> is_dir_node m \<Longrightarrow> c \<in> set names"
proof -
  obtain n where n: "resolve_literal_path fs t base = Inr l" "stat fs (components t) = Inr n"
    "True = is_dir_node n" by (rule search_path_Inr[OF assms(1,2)])
  from literal_nolink[OF n(1,2) assms(2)] have tr: "trace fs 0 [] (pure_parts t) = Inr (l, 0)"
    and l: "node_at fs l = Some n" by auto
  from n(3) obtain d i es where dir: "n = Dir d i es" by (cases n) auto
  note trc = literal_dir_trace[OF tr l[unfolded dir]]
  from recursive_children_Inr[OF assms(3)] dir_text(1)[OF trc l[unfolded dir]] l dir
  have names: "set names = {c \<in> set (entry_names es). follow \<or>
      holds (\<lambda>n. is_reg_node n \<or> is_dir_node n) (lstat fs (pure_parts t @ [c]))}" "distinct names"
    by auto
  have "c \<in> set names" if m: "child (Dir d i es) c = Some m" "is_reg_node m \<or> is_dir_node m" for c m
  proof -
    have "\<not> is_lnk_node m" using m(2) by (cases m) auto
    from trace_snoc_child[OF tr l[unfolded dir] m(1) this]
    have tc: "trace fs 0 [] (pure_parts t @ [c]) = Inr (l @ [c], 0)" and "node_at fs (l @ [c]) = Some m"
      by auto
    with nolink_walks(2)[OF tc] root_not_link[OF trc l[unfolded dir]]
    have "lstat fs (pure_parts t @ [c]) = Inr m" by (simp add: lstat_def node_of_def)
    with m names child_Some_iff show ?thesis by (auto simp: holds_def)
  qed
  with that trc l dir names show ?thesis by auto
qed

lemma search_path_not_fuel: "search_path fs t base \<noteq> Inl OutOfFuel"
  by (auto simp: search_path_def inspect_file_path_def resolve_literal_path_def
      reject_symlink_components_def Let_def result_simps
      split: if_splits option.splits sum.splits os_error.splits)

lemma recursive_children_not_fuel: "recursive_children fs cs follow b \<noteq> Inl OutOfFuel"
  by (auto simp: recursive_children_def result_simps)

interpretation grep: traversal "grep_step fs base recursive follow" "text_cost fs" "prefix [slash]"
  "search_location fs base" "searched_below fs" "Pair READ"
  for fs base recursive follow
proof
  show "0 < text_cost fs t" for t by (simp add: text_cost_def)
  show "grep_step fs base recursive follow t ops seen b \<noteq> Inl OutOfFuel" for t ops seen b
    using search_path_not_fuel[of fs t base] recursive_children_not_fuel
    by (auto simp: grep_step_def result_simps split: if_splits)
next
  fix t ops seen b ops' seen' cs b'
  assume st: "grep_step fs base recursive follow t ops seen b = Inr ((ops', seen', cs), b')"
  from st show "set ops \<subseteq> set ops' \<and> set seen \<subseteq> set seen'"
    by (cases rule: grep_step_cases) auto
  show "l \<in> set seen'" if "search_location fs base t = Some l" for l
    using st that by (cases rule: grep_step_cases) (auto simp: search_location_def)
  show "(READ, l) \<in> set ops'" if "l \<in> set seen'" "l \<notin> set seen" for l
    using st that by (cases rule: grep_step_cases) auto
  show "(\<forall>c \<in> set cs. prefix [slash] c) \<and> sum_list (map (text_cost fs) cs) < text_cost fs t"
    if t: "prefix [slash] t"
    using st
  proof (cases rule: grep_step_cases)
    case (dir l names b1 b2)
    obtain d i es where q: "trace fs 0 [] (components t) = Inr (l, 0)"
      "node_at fs l = Some (Dir d i es)" "set names \<subseteq> set (entry_names es)" "distinct names"
      by (rule grep_entered[OF dir(1) t dir(6)])
    have "\<forall>c \<in> set cs. prefix [slash] c"
      using t q(3) by (auto simp: dir(7) entry_names_def intro!: child_absolute)
    moreover have "sum_list (map (text_cost fs) cs) < text_cost fs t"
      using child_text_cost[OF q(1,2) t, of "rev names"] q(3,4) by (simp add: dir(7) comp_def)
    ultimately show ?thesis by blast
  qed (auto simp: text_cost_def)
  show "\<exists>c \<in> set cs. search_location fs base c = Some k"
    if t: "prefix [slash] t" and l: "l \<in> set seen'" "l \<notin> set seen" and k: "k \<in> searched_below fs l"
    for l k
    using st
  proof (cases rule: grep_step_cases)
    case (leaf l')
    with l have "l' = l" by auto
    obtain n where n: "resolve_literal_path fs t base = Inr l" "stat fs (components t) = Inr n"
      "False = is_dir_node n" by (rule search_path_Inr[OF leaf(1)[unfolded \<open>l' = l\<close>] t])
    from literal_nolink[OF n(1,2) t] n(3) k child_dir show ?thesis
      by (auto simp: searched_below_def)
  next
    case (dir l' names b1 b2)
    with l have "l' = l" by auto
    obtain d i es where q: "trace fs 0 [] (components t) = Inr (l, 0)"
      "node_at fs l = Some (Dir d i es)"
      "\<And>c m. child (Dir d i es) c = Some m \<Longrightarrow> is_reg_node m \<or> is_dir_node m \<Longrightarrow> c \<in> set names"
      by (rule grep_entered[OF dir(1)[unfolded \<open>l' = l\<close>] t dir(6)]) blast
    from k q(2) obtain c m where c: "k = l @ [c]" "child (Dir d i es) c = Some m" "searchable m"
      by (auto simp: searched_below_def)
    with q(3) have "c \<in> set names" by (auto simp: searchable_def)
    moreover have "search_location fs base (text_join (pure_path_text t) c) = Some k"
      using search_child[OF q(1,2) t c(2,3)] c(1) by (simp add: search_location_def)
    ultimately show ?thesis using dir(7) by auto
  qed (use l in auto)
qed


lemma searched_chain:
  assumes "\<forall>l \<in> S. searched_below fs l \<subseteq> S"
  shows "l \<in> S \<Longrightarrow> node_at fs l = Some n \<Longrightarrow> node_at n r = Some m \<Longrightarrow> searchable m \<Longrightarrow> l @ r \<in> S"
proof (induction r arbitrary: l n)
  case (Cons c r)
  then obtain n1 where n1: "child n c = Some n1" "node_at n1 r = Some m"
    by (auto split: option.splits)
  have "searchable n1"
  proof (cases r)
    case Nil
    with n1 Cons.prems(4) show ?thesis by simp
  next
    case (Cons c' r')
    with n1(2) have "is_dir_node n1" by (auto split: option.splits dest: child_dir)
    then show ?thesis by (simp add: searchable_def)
  qed
  with Cons.prems(2) n1(1) have "l @ [c] \<in> searched_below fs l" by (auto simp: searched_below_def)
  with assms Cons.prems(1) have "l @ [c] \<in> S" by blast
  moreover have "node_at fs (l @ [c]) = Some n1" using Cons.prems(2) n1(1) by (simp add: node_at_snoc)
  ultimately have "(l @ [c]) @ r \<in> S" using Cons.IH n1(2) Cons.prems(4) by blast
  then show ?case by simp
qed simp

lemma search_inputs_absolute:
  "search_inputs fs base ts = Inr ps \<Longrightarrow> \<forall>p \<in> set ps. p = ''-'' \<or> prefix [slash] p"
proof (induction ts arbitrary: ps)
  case (Cons t ts)
  obtain v tag where t: "t = (v, tag)" by fastforce
  show ?case
  proof (cases "tag = PTH")
    case True
    with Cons.prems t obtain as rest where "expand_unlimited fs v base False = Inr as"
      "search_inputs fs base ts = Inr rest" "ps = as @ rest"
      by (auto simp: rbind_Inr_iff)
    with Cons.IH expand_unlimited_absolute show ?thesis by fastforce
  next
    case False
    with Cons.prems t obtain rest where "search_inputs fs base ts = Inr rest" "ps = ''-'' # rest"
      by (auto simp: rbind_Inr_iff split: if_splits)
    with Cons.IH show ?thesis by auto
  qed
qed simp

lemma search_arguments_absolute:
  assumes "search_arguments fs parsed base = Inr (args, inputs)"
  shows "\<forall>p \<in> set inputs. p = ''-'' \<or> prefix [slash] p"
proof -
  from assms obtain pattern ts where "operand_tokens parsed = (pattern, ARG) # ts"
    "search_inputs fs base ts = Inr inputs"
    by (auto simp: search_arguments_def rbind_Inr_iff Let_def
        split: list.splits prod.splits token_tag.splits)
  from search_inputs_absolute[OF this(2)] show ?thesis .
qed

definition grep_inputs :: "parsed_command \<Rightarrow> path \<Rightarrow> string list \<Rightarrow> string list" where
  "grep_inputs parsed base inputs =
     (if inputs = [] then (if has_option parsed ''-r'' then [posix_abs base] else [''-'']) else inputs)"

lemma grep_operations_coverage:
  assumes "grep_operations fs paths base recursive follow b = Inr (ops, b')"
    and "\<forall>p \<in> set paths. p = ''-'' \<or> prefix [slash] p"
    and "t \<in> set paths" and "t \<noteq> ''-''" and "search_path fs t base = Inr (loc, isdir)"
    and "node_at fs loc = Some n" and "node_at n r = Some m" and "searchable m"
  shows "(READ, loc @ r) \<in> set ops"
proof -
  let ?pending = "filter (\<lambda>p. p \<noteq> ''-'') paths"
  from assms(1) obtain seen b1 where
    run: "traverse_stack (grep_step fs base recursive follow) (sum_list (map (text_cost fs) ?pending))
      ?pending [] [] b = Inr ((ops, seen), b1)"
    by (auto simp: grep_operations_def Let_def result_simps)
  have abs: "\<forall>t \<in> set ?pending. prefix [slash] t" using assms(2) by auto
  from grep.coverage[OF run abs] have need: "\<forall>l \<in> set seen. (READ, l) \<in> set ops"
    and below: "\<forall>l \<in> set seen. searched_below fs l \<subseteq> set seen"
    and visited: "\<forall>t \<in> set ?pending. \<forall>l. search_location fs base t = Some l \<longrightarrow> l \<in> set seen"
    by auto
  have "t \<in> set ?pending" using assms(3,4) by simp
  moreover have "search_location fs base t = Some loc" using assms(5) by (simp add: search_location_def)
  ultimately have "loc \<in> set seen" using visited by blast
  from searched_chain[OF below this assms(6-8)] need show ?thesis by blast
qed

text \<open>
  Recursive grep is guarded in full: when \<open>prepare_grep\<close> succeeds, every directory and every
  regular file of the tree below each of its inputs (the base directory when none is given) has
  a READ requirement at its own location.
\<close>

theorem grep_reads_are_guarded:
  assumes "prepare_grep fs clock parsed base = Inr prepared"
    and "search_arguments fs parsed base = Inr (args, inputs)"
    and "t \<in> set (grep_inputs parsed base inputs)" and "t \<noteq> ''-''"
    and "search_path fs t base = Inr (loc, isdir)"
    and "node_at fs loc = Some n" and "node_at n r = Some m" and "searchable m"
  shows "(READ, loc @ r) \<in> set (pc_operations prepared)"
proof -
  from assms(1,2) obtain recursive follow b' where
    run: "grep_operations fs (grep_inputs parsed base inputs) base recursive follow clock =
      Inr (pc_operations prepared, b')"
    by (auto simp: prepare_grep_def grep_inputs_def Let_def split: sum.splits)
  have "\<forall>p \<in> set (grep_inputs parsed base inputs). p = ''-'' \<or> prefix [slash] p"
    using search_arguments_absolute[OF assms(2)] by (auto simp: grep_inputs_def posix_abs_def)
  from grep_operations_coverage[OF run this assms(3-8)] show ?thesis .
qed

definition grep_tokens :: "token list" where
  "grep_tokens = [(''grep'', CMD), (''-r'', FLG), (''x'', ARG), (''sub'', PTH)]"

theorem grep_reads_are_guarded_witness:
  "\<exists>parsed prepared. validate_tokens grep_tokens GREP = Inr parsed \<and>
     prepare_grep example_tree (Some 50) parsed [''a''] = Inr prepared \<and>
     (READ, [''a'', ''sub'', ''y.py'']) \<in> set (pc_operations prepared)"
proof -
  have run: "(case validate_tokens grep_tokens GREP of Inl e \<Rightarrow> False
      | Inr parsed \<Rightarrow> (case prepare_grep example_tree (Some 50) parsed [''a''] of Inl e \<Rightarrow> False
        | Inr prepared \<Rightarrow>
            (case search_arguments example_tree parsed [''a''] of Inl e \<Rightarrow> False
             | Inr (args, inputs) \<Rightarrow> grep_inputs parsed [''a''] inputs = [''/a/sub''])))"
    by code_simp
  have sp: "search_path example_tree ''/a/sub'' [''a''] = Inr ([''a'', ''sub''], True)" by code_simp
  have at: "node_at example_tree [''a'', ''sub''] = Some (Dir 0 5 [(''y.py'', Reg 0 6 1 [])])"
    "node_at (Dir 0 5 [(''y.py'', Reg 0 6 1 [])]) [''y.py''] = Some (Reg 0 6 1 [])"
    by code_simp+
  have "searchable (Reg 0 6 1 [])" by (simp add: searchable_def)
  moreover from run obtain parsed prepared args inputs where
    p: "validate_tokens grep_tokens GREP = Inr parsed"
      "prepare_grep example_tree (Some 50) parsed [''a''] = Inr prepared"
      "search_arguments example_tree parsed [''a''] = Inr (args, inputs)"
      "grep_inputs parsed [''a''] inputs = [''/a/sub'']"
    by (auto split: sum.splits)
  ultimately have "(READ, [''a'', ''sub''] @ [''y.py'']) \<in> set (pc_operations prepared)"
    using grep_reads_are_guarded[OF p(2,3) _ _ sp at] by simp
  with p show ?thesis by auto
qed

end
