(* ===== verification/Roboz_Transfers.thy ===== *)
theory Roboz_Transfers
  imports Roboz_Trees
begin

text \<open>
  Copies and moves (\<open>commands/transfers.py\<close>, \<open>cp.py\<close>, \<open>mv.py\<close>): the interpretation of the
  destination modes, the validation of every source and target entry, the mapping of whole
  trees, and the conflict checks. Sources and targets are canonical paths.
\<close>

type_synonym transfer = "path \<times> path"

definition validate_transfer_source :: "node \<Rightarrow> path \<Rightarrow> cli_error + unit" where
  "validate_transfer_source fs source =
     (if is_symlink fs source then Inl (SymlinkUnsupported source)
      else if is_dir fs source then Inr ()
      else if \<not> is_file fs source then Inl (WrongFileType source)
      else if holds (\<lambda>n. 1 < st_nlink n) (stat fs source) then Inl (HardLinkUnsupported source)
      else Inr ())"

text \<open>\<open>(st_dev, st_ino)\<close>; links and special files, which are rejected before, have none.\<close>

definition file_id :: "node \<Rightarrow> (nat \<times> nat) option" where
  "file_id n =
     (case n of Reg d i _ _ \<Rightarrow> Some (d, i) | Dir d i _ \<Rightarrow> Some (d, i) | _ \<Rightarrow> None)"

definition source_id :: "node \<Rightarrow> path \<Rightarrow> cli_error + (nat \<times> nat) option" where
  "source_id fs source =
     rbind (validate_transfer_source fs source) (\<lambda>_.
       (case stat fs source of Inl e \<Rightarrow> Inl (OSError e) | Inr n \<Rightarrow> Inr (file_id n)))"

definition validate_transfer_target ::
  "node \<Rightarrow> path \<Rightarrow> (nat \<times> nat) option list \<Rightarrow> bool \<Rightarrow> cli_error + unit" where
  "validate_transfer_target fs target source_ids directory =
     (if is_symlink fs target then Inl (SymlinkUnsupported target)
      else
        (case stat fs target of
           Inl _ \<Rightarrow> Inr ()
         | Inr n \<Rightarrow>
             if directory \<and> \<not> is_dir_node n then Inl (WrongFileType target)
             else if \<not> directory \<and> \<not> is_reg_node n then Inl (WrongFileType target)
             else if \<not> directory \<and> 1 < st_nlink n then Inl (HardLinkUnsupported target)
             else if file_id n \<in> set source_ids then Inl (TransferConflict target target)
             else Inr ()))"

fun first_duplicate :: "path list \<Rightarrow> path list \<Rightarrow> path option" where
  "first_duplicate seen [] = None"
| "first_duplicate seen (s # ss) =
     (if s \<in> set seen then Some s else first_duplicate (s # seen) ss)"

fun pairs_of :: "'a list \<Rightarrow> ('a \<times> 'a) list" where
  "pairs_of [] = []"
| "pairs_of (x # xs) = map (Pair x) xs @ pairs_of xs"

definition overlapping :: "path \<times> path \<Rightarrow> bool" where
  "overlapping pq \<longleftrightarrow> is_relative_to (fst pq) (snd pq) \<or> is_relative_to (snd pq) (fst pq)"

definition validate_transfer_overlap :: "transfer list \<Rightarrow> cli_error + unit" where
  "validate_transfer_overlap transfers =
     (let sources = map fst transfers; targets = map snd transfers
      in case first_duplicate [] sources of
           Some s \<Rightarrow> Inl (TransferConflict s s)
         | None \<Rightarrow>
             (case find overlapping (pairs_of targets @ List.product sources targets) of
                Some (l, r) \<Rightarrow> Inl (TransferConflict l r)
              | None \<Rightarrow> Inr ()))"

definition transfer_target :: "path \<Rightarrow> bool \<Rightarrow> string \<Rightarrow> path" where
  "transfer_target destination into_directory name =
     (if into_directory \<and> name \<notin> {''.'', ''..''} then destination @ pure_parts name
      else destination)"

definition map_transfer ::
  "node \<Rightarrow> path \<Rightarrow> bool \<Rightarrow> (nat \<times> nat) option list \<Rightarrow> path \<times> string \<Rightarrow> cli_error + transfer" where
  "map_transfer fs destination into_directory ids sn =
     (let target = transfer_target destination into_directory (snd sn)
      in if \<not> is_dir fs (butlast target) then Inl (MissingPath (butlast target))
         else
           rbind (validate_transfer_target fs target ids (is_dir fs (fst sn))) (\<lambda>_.
             Inr (fst sn, target)))"

definition resolve_transfers ::
  "node \<Rightarrow> path list \<Rightarrow> path \<Rightarrow> bool \<Rightarrow> string list \<Rightarrow> cli_error + transfer list" where
  "resolve_transfers fs sources destination into_directory source_names =
     rbind (traverse (source_id fs) sources) (\<lambda>ids.
       rbind (traverse (map_transfer fs destination into_directory ids) (zip sources source_names))
         (\<lambda>transfers.
           rbind (validate_transfer_overlap transfers) (\<lambda>_. Inr transfers)))"

section \<open>Trees\<close>

text \<open>
  The scan of one source, cached by path: whether it is a directory, and its children's names
  (the source keeps them in reverse order, as its stack wants them).
\<close>

type_synonym scans = "(path \<times> (bool \<times> string list)) list"

definition scan_source ::
  "node \<Rightarrow> path \<Rightarrow> scans \<Rightarrow> (nat \<times> nat) option list
    \<Rightarrow> cli_error + (scans \<times> (nat \<times> nat) option list \<times> string list)" where
  "scan_source fs source scans ids =
     (case map_of scans source of
        Some (_, names) \<Rightarrow> Inr (scans, ids, names)
      | None \<Rightarrow>
          rbind (source_id fs source) (\<lambda>i.
            (case stat fs source of
               Inr (Dir _ _ es) \<Rightarrow>
                 Inr ((source, True, sort (entry_names es)) # scans, ids @ [i], sort (entry_names es))
             | _ \<Rightarrow> Inr ((source, False, []) # scans, ids @ [i], []))))"

fun expand_loop ::
  "node \<Rightarrow> nat \<Rightarrow> transfer list \<Rightarrow> scans \<Rightarrow> (nat \<times> nat) option list \<Rightarrow> transfer list
    \<Rightarrow> cli_error + (transfer list \<times> scans \<times> (nat \<times> nat) option list)" where
  "expand_loop fs fuel [] scans ids expanded = Inr (expanded, scans, ids)"
| "expand_loop fs 0 (st # pending) scans ids expanded = Inl OutOfFuel"
| "expand_loop fs (Suc fuel) ((source, target) # pending) scans ids expanded =
     rbind (scan_source fs source scans ids) (\<lambda>(scans', ids', names).
       expand_loop fs fuel (map (\<lambda>name. (source @ [name], target @ [name])) names @ pending)
         scans' ids' (expanded @ [(source, target)]))"

definition validate_expanded ::
  "node \<Rightarrow> scans \<Rightarrow> (nat \<times> nat) option list \<Rightarrow> transfer \<Rightarrow> cli_error + unit" where
  "validate_expanded fs scans ids st =
     validate_transfer_target fs (snd st) ids
       (case map_of scans (fst st) of Some (directory, _) \<Rightarrow> directory | None \<Rightarrow> False)"

definition expand_transfers :: "node \<Rightarrow> transfer list \<Rightarrow> cli_error + transfer list" where
  "expand_transfers fs transfers =
     rbind (expand_loop fs (sum_list (map (\<lambda>st. cost fs (fst st)) transfers)) transfers [] [] [])
       (\<lambda>(expanded, scans, ids).
         rbind (traverse (validate_expanded fs scans ids) expanded) (\<lambda>_. Inr expanded))"

section \<open>Arguments\<close>

definition source_basename :: "string \<Rightarrow> string" where
  "source_basename value = basename (rstrip_char slash value)"

definition transfer_indices :: "parsed_command \<Rightarrow> cli_error + (nat list \<times> nat)" where
  "transfer_indices parsed =
     (case map_of (pc_options parsed) ''-t'' of
        Some i \<Rightarrow>
          if pc_operands parsed = [] then Inl (InvalidArguments ''Provide at least one source PTH'')
          else Inr (pc_operands parsed, Suc i)
      | None \<Rightarrow>
          if length (pc_operands parsed) < 2
          then Inl (InvalidArguments ''Provide at least one source PTH and a destination PTH'')
          else Inr (butlast (pc_operands parsed), last (pc_operands parsed)))"

text \<open>The argument vector, with each source operand replaced by its expansion.\<close>

definition transfer_argv ::
  "string list \<Rightarrow> (nat \<times> string list) list \<Rightarrow> nat \<Rightarrow> string \<Rightarrow> string list" where
  "transfer_argv arguments source_arguments destination_index destination_value =
     concat (map (\<lambda>(i, v).
       (case map_of source_arguments i of
          Some vs \<Rightarrow> vs
        | None \<Rightarrow> [if i = destination_index then destination_value else v]))
       (enumerate 0 arguments))"

definition expand_argument ::
  "node \<Rightarrow> path \<Rightarrow> string list \<Rightarrow> nat \<Rightarrow> cli_error + (nat \<times> string list)" where
  "expand_argument fs base arguments i =
     rbind (expand_unlimited fs (arguments ! i) base False) (\<lambda>vs. Inr (i, vs))"

definition transfer_arguments ::
  "node \<Rightarrow> parsed_command \<Rightarrow> path \<Rightarrow> cli_error + (string list \<times> transfer list)" where
  "transfer_arguments fs parsed base =
     rbind (transfer_indices parsed) (\<lambda>(source_indices, destination_index).
       (let arguments = argv parsed in
        if starred (arguments ! destination_index) then Inl (BadPattern (arguments ! destination_index))
        else
          rbind (traverse (expand_argument fs base arguments) source_indices) (\<lambda>source_arguments.
            (let source_values = concat (map snd source_arguments);
                 destination_value = os_join base (arguments ! destination_index)
             in if has_option parsed ''-T'' \<and> length source_values \<noteq> 1
                then Inl (InvalidArguments ''-T requires exactly one source'')
                else
                  rbind (traverse (\<lambda>v. resolve_literal_path fs v base) source_values) (\<lambda>sources.
                    rbind (resolve_literal_path fs destination_value base) (\<lambda>destination.
                      if has_option parsed ''-t'' \<and> \<not> is_dir fs destination
                      then Inl (InvalidArguments ''-t requires an existing destination directory'')
                      else if 1 < length sources \<and> \<not> is_dir fs destination
                      then Inl (InvalidArguments ''Multiple sources require an existing destination directory'')
                      else
                        rbind (resolve_transfers fs sources destination
                                 (is_dir fs destination \<and> \<not> has_option parsed ''-T'')
                                 (map source_basename source_values)) (\<lambda>transfers.
                          Inr (transfer_argv arguments source_arguments destination_index
                                 destination_value, transfers))))))))"

definition transfer_requirements :: "node \<Rightarrow> operation \<Rightarrow> transfer \<Rightarrow> requirement list" where
  "transfer_requirements fs source_operation st =
     (case st of
        (source, destination) \<Rightarrow>
          [(source_operation, source), (CREATE, destination)] @
          (if path_exists fs destination \<and>
              (\<not> is_dir fs destination \<or> source_operation = DELETE)
           then [(READ, destination), (DELETE, destination)] else []))"

definition prepared_transfer ::
  "node \<Rightarrow> string list \<Rightarrow> transfer list \<Rightarrow> path \<Rightarrow> operation \<Rightarrow> prepared_command" where
  "prepared_transfer fs args transfers base source_operation =
     \<lparr>pc_ready = ready_of (hd args) args base None,
      pc_operations = dedupe (concat (map (transfer_requirements fs source_operation) transfers))\<rparr>"

definition prepare_cp :: "node \<Rightarrow> parsed_command \<Rightarrow> path \<Rightarrow> cli_error + prepared_command" where
  "prepare_cp fs parsed base =
     rbind (transfer_arguments fs parsed base) (\<lambda>(args, transfers).
       if \<not> has_option parsed ''-R'' \<and> list_ex (\<lambda>st. is_dir fs (fst st)) transfers
       then Inl (InvalidArguments ''Directory copies require -r, -R, or --recursive'')
       else
         rbind (expand_transfers fs transfers) (\<lambda>expanded.
           Inr (prepared_transfer fs args expanded base READ)))"

definition device_of :: "node \<Rightarrow> path \<Rightarrow> nat option" where
  "device_of fs p = (case stat fs p of Inl _ \<Rightarrow> None | Inr n \<Rightarrow> map_option fst (file_id n))"

definition has_children :: "node \<Rightarrow> path \<Rightarrow> bool" where
  "has_children fs p =
     holds (\<lambda>n. case n of Dir _ _ es \<Rightarrow> entry_names es \<noteq> [] | _ \<Rightarrow> False) (stat fs p)"

definition check_move :: "node \<Rightarrow> transfer \<Rightarrow> cli_error + unit" where
  "check_move fs st =
     (if device_of fs (fst st) \<noteq> device_of fs (butlast (snd st))
      then Inl (InvalidArguments ''Cross-filesystem moves are unsupported'')
      else if is_dir fs (snd st) \<and> has_children fs (snd st) then Inl (WrongFileType (snd st))
      else Inr ())"

definition prepare_mv :: "node \<Rightarrow> parsed_command \<Rightarrow> path \<Rightarrow> cli_error + prepared_command" where
  "prepare_mv fs parsed base =
     rbind (transfer_arguments fs parsed base) (\<lambda>(args, transfers).
       rbind (traverse (check_move fs) transfers) (\<lambda>_.
         rbind (expand_transfers fs transfers) (\<lambda>expanded.
           Inr (prepared_transfer fs args expanded base DELETE))))"

section \<open>Paths of nodes\<close>

lemma node_at_trace:
  "node_at fs s = Some n \<Longrightarrow> \<not> is_lnk_node n \<Longrightarrow> trace fs 0 [] s = Inr (s, 0)"
proof (induction s arbitrary: n rule: rev_induct)
  case (snoc c s)
  then obtain d where d: "node_at fs s = Some d" "child d c = Some n"
    by (auto simp: node_at_snoc split: option.splits)
  from child_dir[OF d(2)] obtain dd i es where dir: "d = Dir dd i es" by (cases d) auto
  from snoc.IH[OF d(1)] dir have "trace fs 0 [] s = Inr (s, 0)" by simp
  from trace_snoc_child[OF this d(1)[unfolded dir] d(2)[unfolded dir] snoc.prems(2)] show ?case by simp
qed simp

lemma node_at_root: "node_at fs (c # s) = Some n \<Longrightarrow> \<not> is_lnk_node fs"
  by (cases fs) (auto split: option.splits)

lemma node_at_stat:
  assumes "node_at fs s = Some n" and "\<not> is_lnk_node n"
  shows "stat fs s = Inr n"
proof -
  have nl: "\<not> is_lnk_node fs" using assms node_at_root by (cases s) auto
  from nolink_walks(1)[OF node_at_trace[OF assms] nl] assms(1) show ?thesis
    by (simp add: stat_def node_of_def)
qed

lemma not_symlink_lwalk:
  assumes "fwalk fs cs = Inr q" and "\<not> is_symlink fs cs"
  shows "lwalk fs cs = Inr q"
proof (cases cs rule: rev_cases)
  case Nil
  with assms(1) show ?thesis by (simp add: fwalk_def lwalk_def)
next
  case (snoc xs c)
  show ?thesis
  proof (cases "skips c \<or> c = ''..''")
    case True
    with assms(1) snoc lwalk_special[OF True, of fs xs] show ?thesis by simp
  next
    case False
    from assms(1) snoc obtain p k1 k where tr: "trace fs LINK_LIMIT [] xs = Inr (p, k1)"
      "trace fs k1 p [c] = Inr (q, k)"
      by (auto simp: fwalk_Inr trace_append split: sum.splits)
    then obtain d where d: "node_at fs p = Some d" "is_dir_node d" by (blast dest: trace_start_dir)
    from tr(2) d False obtain m where m: "child d c = Some m"
      by (auto simp: trace.simps(2) split: option.splits)
    have xs: "fwalk fs xs = Inr p" using tr(1) by (auto simp: fwalk_Inr)
    have lw: "lwalk fs cs = Inr (p @ [c])"
      using False xs d m snoc by (auto simp: lwalk_snoc)
    with assms(2) d m have "\<not> is_lnk_node m"
      by (auto simp: is_symlink_def holds_def lstat_def node_of_def node_at_snoc)
    with tr(2) d m False have "q = p @ [c]" by (cases m) (auto simp: trace.simps(2))
    with lw show ?thesis by simp
  qed
qed

section \<open>The scans\<close>

definition scan_of :: "node \<Rightarrow> path \<Rightarrow> string list" where
  "scan_of fs s = (case stat fs s of Inr (Dir _ _ es) \<Rightarrow> sort (entry_names es) | _ \<Rightarrow> [])"

definition scans_ok :: "node \<Rightarrow> scans \<Rightarrow> bool" where
  "scans_ok fs scans \<longleftrightarrow>
     (\<forall>s d names. map_of scans s = Some (d, names) \<longrightarrow> names = scan_of fs s \<and> \<not> is_symlink fs s)"

lemma source_id_Inr: "source_id fs s = Inr i \<Longrightarrow> \<not> is_symlink fs s \<and> (\<exists>n. stat fs s = Inr n)"
  by (auto simp: source_id_def validate_transfer_source_def rbind_Inr_iff split: if_splits sum.splits)

lemma scan_source_Inr:
  assumes "scan_source fs s scans ids = Inr (scans', ids', names)" and "scans_ok fs scans"
  shows "names = scan_of fs s \<and> \<not> is_symlink fs s \<and> scans_ok fs scans'"
proof (cases "map_of scans s")
  case None
  with assms(1) obtain i where i: "source_id fs s = Inr i"
    and rest: "(case stat fs s of
         Inr (Dir _ _ es) \<Rightarrow>
           Inr ((s, True, sort (entry_names es)) # scans, ids @ [i], sort (entry_names es))
       | _ \<Rightarrow> Inr ((s, False, []) # scans, ids @ [i], [])) =
       (Inr (scans', ids', names) :: cli_error + (scans \<times> (nat \<times> nat) option list \<times> string list))"
    by (auto simp: scan_source_def rbind_Inr_iff)
  from rest have "names = scan_of fs s \<and> (\<exists>d. scans' = (s, d, names) # scans)"
    by (auto simp: scan_of_def split: sum.splits node.splits)
  with assms(2) source_id_Inr[OF i] show ?thesis by (auto simp: scans_ok_def split: if_splits)
next
  case (Some dn)
  with assms show ?thesis by (cases dn) (auto simp: scan_source_def scans_ok_def)
qed

lemma scan_of_dir:
  assumes "node_at fs s = Some (Dir d i es)"
  shows "set (scan_of fs s) = set (entry_names es)"
  using node_at_stat[OF assms] by (simp add: scan_of_def)

lemma scan_cost:
  assumes "\<not> is_symlink fs s"
  shows "sum_list (map (\<lambda>c. cost fs (s @ [c])) (scan_of fs s)) < cost fs s"
proof (cases "\<exists>d i es. stat fs s = Inr (Dir d i es)")
  case True
  then obtain d i es where st: "stat fs s = Inr (Dir d i es)" by blast
  then obtain q where q: "fwalk fs s = Inr q" "node_at fs q = Some (Dir d i es)"
    by (auto simp: stat_def node_of_def split: sum.splits option.splits)
  from children_cost[OF q(1) not_symlink_lwalk[OF q(1) assms] q(2), of "scan_of fs s"] st
  show ?thesis by (simp add: scan_of_def entry_names_def)
next
  case False
  then have "scan_of fs s = []" by (auto simp: scan_of_def split: sum.splits node.splits)
  then show ?thesis by simp
qed

lemma scan_source_not_fuel: "scan_source fs s scans ids \<noteq> Inl OutOfFuel"
  by (auto simp: scan_source_def source_id_def validate_transfer_source_def rbind_Inl_iff rbind_Inr_iff
      split: option.splits if_splits sum.splits node.splits)

lemma expand_loop_fuel:
  "sum_list (map (\<lambda>st. cost fs (fst st)) pending) \<le> fuel \<Longrightarrow> scans_ok fs scans \<Longrightarrow>
   expand_loop fs fuel pending scans ids expanded \<noteq> Inl OutOfFuel"
proof (induction fs fuel pending scans ids expanded rule: expand_loop.induct)
  case (2 fs st pending scans ids expanded)
  have "0 < cost fs (fst st)" by simp
  with 2(1) show ?case by (simp del: cost_pos)
next
  case (3 fs fuel source target pending scans ids expanded)
  show ?case
  proof (cases "scan_source fs source scans ids")
    case (Inl e)
    with scan_source_not_fuel[of fs source scans ids] show ?thesis by simp
  next
    case (Inr r)
    obtain scans' ids' names where r: "r = (scans', ids', names)" by (metis prod.collapse)
    from scan_source_Inr[OF Inr[unfolded r] 3(3)] have names: "names = scan_of fs source"
      and nl: "\<not> is_symlink fs source" and ok: "scans_ok fs scans'" by auto
    have "sum_list (map (\<lambda>st. cost fs (fst st))
        (map (\<lambda>name. (source @ [name], target @ [name])) names @ pending)) \<le> fuel"
      using 3(2) scan_cost[OF nl] by (simp add: names comp_def)
    from 3(1)[OF Inr[unfolded r] refl refl this ok] Inr r show ?thesis by simp
  qed
qed simp

lemma expand_loop_covers:
  "expand_loop fs fuel pending scans ids expanded = Inr (res, scans', ids') \<Longrightarrow> scans_ok fs scans \<Longrightarrow>
   set expanded \<subseteq> set res \<and>
   (\<forall>st \<in> set pending. \<forall>n r m. node_at fs (fst st) = Some n \<longrightarrow> node_at n r = Some m \<longrightarrow>
      (fst st @ r, snd st @ r) \<in> set res)"
proof (induction fs fuel pending scans ids expanded rule: expand_loop.induct)
  case (3 fs fuel source target pending scans ids expanded)
  from 3(2) obtain scans1 ids1 names where
    sc: "scan_source fs source scans ids = Inr (scans1, ids1, names)"
    and rest: "expand_loop fs fuel (map (\<lambda>name. (source @ [name], target @ [name])) names @ pending)
      scans1 ids1 (expanded @ [(source, target)]) = Inr (res, scans', ids')"
    by (auto simp: rbind_Inr_iff)
  from scan_source_Inr[OF sc 3(3)] have names: "names = scan_of fs source" and ok: "scans_ok fs scans1"
    by auto
  from 3(1)[OF sc refl refl rest ok] have
    mono: "set expanded \<subseteq> set res" "(source, target) \<in> set res"
    and kids: "\<And>name n r m. name \<in> set names \<Longrightarrow> node_at fs (source @ [name]) = Some n \<Longrightarrow>
      node_at n r = Some m \<Longrightarrow> ((source @ [name]) @ r, (target @ [name]) @ r) \<in> set res"
    and pend: "\<And>st n r m. st \<in> set pending \<Longrightarrow> node_at fs (fst st) = Some n \<Longrightarrow>
      node_at n r = Some m \<Longrightarrow> (fst st @ r, snd st @ r) \<in> set res"
    by (auto simp: ball_Un)
  have "(source @ r, target @ r) \<in> set res" if n: "node_at fs source = Some n" "node_at n r = Some m"
    for n r m
  proof (cases r)
    case Nil
    with mono show ?thesis by simp
  next
    case (Cons c r')
    with n(2) obtain n1 where n1: "child n c = Some n1" "node_at n1 r' = Some m"
      by (auto split: option.splits)
    from child_dir[OF n1(1)] obtain d i es where dir: "n = Dir d i es" by (cases n) auto
    have "c \<in> set names"
      using scan_of_dir[OF n(1)[unfolded dir]] n1(1) child_Some_iff by (auto simp: names dir)
    moreover have "node_at fs (source @ [c]) = Some n1" using n(1) n1(1) by (simp add: node_at_snoc)
    ultimately show ?thesis using kids n1(2) Cons by fastforce
  qed
  with mono pend show ?case by auto
qed auto


lemma expand_transfers_covers:
  assumes "expand_transfers fs transfers = Inr expanded" and "(s, t) \<in> set transfers"
    and "node_at fs s = Some n" and "node_at n r = Some m"
  shows "(s @ r, t @ r) \<in> set expanded"
proof -
  from assms(1) obtain scans ids where
    "expand_loop fs (sum_list (map (\<lambda>st. cost fs (fst st)) transfers)) transfers [] [] [] =
      Inr (expanded, scans, ids)"
    by (auto simp: expand_transfers_def rbind_Inr_iff)
  from expand_loop_covers[OF this] assms(2-4) show ?thesis by (fastforce simp: scans_ok_def)
qed

lemma requirements_of_transfer:
  assumes "(s, t) \<in> set transfers"
  shows "(op, s) \<in> set (pc_operations (prepared_transfer fs args transfers base op)) \<and>
    (CREATE, t) \<in> set (pc_operations (prepared_transfer fs args transfers base op)) \<and>
    (path_exists fs t \<and> (\<not> is_dir fs t \<or> op = DELETE) \<longrightarrow>
      {(READ, t), (DELETE, t)} \<subseteq> set (pc_operations (prepared_transfer fs args transfers base op)))"
  using assms by (fastforce simp: prepared_transfer_def transfer_requirements_def)

section \<open>Properties\<close>

text \<open>
  C8. A copy is guarded in full: when \<open>prepare_cp\<close> succeeds, every entry of every source tree
  has a READ requirement, its image at the destination a CREATE requirement, and an existing
  file that the copy would overwrite READ and DELETE requirements as well.
\<close>

theorem copy_covers_trees:
  assumes "prepare_cp fs parsed base = Inr prepared"
    and "transfer_arguments fs parsed base = Inr (args, transfers)" and "(s, t) \<in> set transfers"
    and "node_at fs s = Some n" and "node_at n r = Some m"
  shows "(READ, s @ r) \<in> set (pc_operations prepared) \<and>
    (CREATE, t @ r) \<in> set (pc_operations prepared) \<and>
    (path_exists fs (t @ r) \<and> \<not> is_dir fs (t @ r) \<longrightarrow>
      {(READ, t @ r), (DELETE, t @ r)} \<subseteq> set (pc_operations prepared))"
proof -
  from assms(1,2) obtain expanded where e: "expand_transfers fs transfers = Inr expanded"
    and p: "prepared = prepared_transfer fs args expanded base READ"
    by (auto simp: prepare_cp_def rbind_Inr_iff split: if_splits)
  from requirements_of_transfer[OF expand_transfers_covers[OF e assms(3-5)], of READ fs args base]
  show ?thesis by (auto simp: p)
qed

definition cp_tokens :: "token list" where
  "cp_tokens = [(''cp'', CMD), (''-r'', FLG), (''sub'', PTH), (''/c'', PTH)]"

theorem copy_covers_trees_witness:
  "\<exists>parsed prepared. validate_tokens cp_tokens CP = Inr parsed \<and>
     prepare_cp example_tree parsed [''a''] = Inr prepared \<and>
     (READ, [''a'', ''sub'', ''y.py'']) \<in> set (pc_operations prepared) \<and>
     (CREATE, [''c'', ''y.py'']) \<in> set (pc_operations prepared)"
proof -
  have run: "(case validate_tokens cp_tokens CP of Inl e \<Rightarrow> False
      | Inr parsed \<Rightarrow> (case prepare_cp example_tree parsed [''a''] of Inl e \<Rightarrow> False
        | Inr prepared \<Rightarrow>
            (case transfer_arguments example_tree parsed [''a''] of Inl e \<Rightarrow> False
             | Inr (args, transfers) \<Rightarrow> transfers = [([''a'', ''sub''], [''c''])])))"
    by code_simp
  have at: "node_at example_tree [''a'', ''sub''] = Some (Dir 0 5 [(''y.py'', Reg 0 6 1 [])])"
    "node_at (Dir 0 5 [(''y.py'', Reg 0 6 1 [])]) [''y.py''] = Some (Reg 0 6 1 [])"
    by code_simp+
  from run obtain parsed prepared args where p: "validate_tokens cp_tokens CP = Inr parsed"
    "prepare_cp example_tree parsed [''a''] = Inr prepared"
    "transfer_arguments example_tree parsed [''a''] = Inr (args, [([''a'', ''sub''], [''c''])])"
    by (auto split: sum.splits)
  from copy_covers_trees[OF p(2,3) _ at] p show ?thesis by auto
qed

text \<open>
  A move is guarded in full: every entry of every moved tree has a DELETE requirement and its
  image a CREATE requirement, and whatever exists at an image READ and DELETE requirements.
\<close>

theorem move_covers_trees:
  assumes "prepare_mv fs parsed base = Inr prepared"
    and "transfer_arguments fs parsed base = Inr (args, transfers)" and "(s, t) \<in> set transfers"
    and "node_at fs s = Some n" and "node_at n r = Some m"
  shows "(DELETE, s @ r) \<in> set (pc_operations prepared) \<and>
    (CREATE, t @ r) \<in> set (pc_operations prepared) \<and>
    (path_exists fs (t @ r) \<longrightarrow> {(READ, t @ r), (DELETE, t @ r)} \<subseteq> set (pc_operations prepared))"
proof -
  from assms(1,2) obtain expanded where e: "expand_transfers fs transfers = Inr expanded"
    and p: "prepared = prepared_transfer fs args expanded base DELETE"
    by (auto simp: prepare_mv_def rbind_Inr_iff)
  from requirements_of_transfer[OF expand_transfers_covers[OF e assms(3-5)], of DELETE fs args base]
  show ?thesis by (auto simp: p)
qed

definition mv_tokens :: "token list" where
  "mv_tokens = [(''mv'', CMD), (''x.py'', PTH), (''sub'', PTH)]"

theorem move_covers_trees_witness:
  "\<exists>parsed prepared. validate_tokens mv_tokens MV = Inr parsed \<and>
     prepare_mv example_tree parsed [''a''] = Inr prepared \<and>
     (DELETE, [''a'', ''x.py'']) \<in> set (pc_operations prepared) \<and>
     (CREATE, [''a'', ''sub'', ''x.py'']) \<in> set (pc_operations prepared)"
proof -
  have run: "(case validate_tokens mv_tokens MV of Inl e \<Rightarrow> False
      | Inr parsed \<Rightarrow> (case prepare_mv example_tree parsed [''a''] of Inl e \<Rightarrow> False
        | Inr prepared \<Rightarrow>
            (case transfer_arguments example_tree parsed [''a''] of Inl e \<Rightarrow> False
             | Inr (args, transfers) \<Rightarrow>
                 transfers = [([''a'', ''x.py''], [''a'', ''sub'', ''x.py''])])))"
    by code_simp
  have at: "node_at example_tree [''a'', ''x.py''] = Some (Reg 0 3 1 [])"
    "node_at (Reg 0 3 1 []) [] = Some (Reg 0 3 1 [])"
    by code_simp+
  from run obtain parsed prepared args where p: "validate_tokens mv_tokens MV = Inr parsed"
    "prepare_mv example_tree parsed [''a''] = Inr prepared"
    "transfer_arguments example_tree parsed [''a''] =
      Inr (args, [([''a'', ''x.py''], [''a'', ''sub'', ''x.py''])])"
    by (auto split: sum.splits)
  from move_covers_trees[OF p(2,3) _ at] p show ?thesis by auto
qed

lemma first_duplicate_None: "first_duplicate seen ss = None \<longleftrightarrow> distinct ss \<and> set seen \<inter> set ss = {}"
  by (induction ss arbitrary: seen) auto

lemma pairs_of_nth: "i < j \<Longrightarrow> j < length xs \<Longrightarrow> (xs ! i, xs ! j) \<in> set (pairs_of xs)"
proof (induction xs arbitrary: i j)
  case (Cons x xs)
  then show ?case by (cases i; cases j) auto
qed simp

lemma validate_transfer_overlap_Inr:
  assumes "validate_transfer_overlap transfers = Inr u"
  shows "distinct (map fst transfers) \<and>
    list_all (\<lambda>st. list_all (\<lambda>st'. \<not> overlapping (fst st, snd st')) transfers) transfers \<and>
    sorted_wrt (\<lambda>st st'. \<not> overlapping (snd st, snd st')) transfers"
proof -
  from assms have dup: "first_duplicate [] (map fst transfers) = None"
    and none: "find overlapping (pairs_of (map snd transfers) @
      List.product (map fst transfers) (map snd transfers)) = None"
    by (auto simp: validate_transfer_overlap_def Let_def split: option.splits)
  from none have pairs: "\<not> overlapping pq" if "pq \<in> set (pairs_of (map snd transfers))" for pq
    using that by (cases pq) (auto simp: find_None_iff)
  from none have cross: "\<not> overlapping (s, t)"
    if "s \<in> set (map fst transfers)" "t \<in> set (map snd transfers)" for s t
    using that by (auto simp: find_None_iff)
  have "sorted_wrt (\<lambda>st st'. \<not> overlapping (snd st, snd st')) transfers"
    unfolding sorted_wrt_iff_nth_less
  proof (intro allI impI)
    fix i j assume "i < j" "j < length transfers"
    with pairs_of_nth[of i j "map snd transfers"] pairs
    show "\<not> overlapping (snd (transfers ! i), snd (transfers ! j))" by simp
  qed
  with dup cross show ?thesis by (auto simp: first_duplicate_None list_all_iff)
qed

text \<open>
  C9. Accepted transfers cannot overwrite each other: the sources are distinct, no destination is
  equal to or nested in another destination, and no destination is equal to, inside, or an
  ancestor of any source.
\<close>

theorem transfers_do_not_overlap:
  assumes "transfer_arguments fs parsed base = Inr (args, transfers)"
  shows "distinct (map fst transfers) \<and>
    sorted_wrt (\<lambda>st st'. \<not> prefix (snd st) (snd st') \<and> \<not> prefix (snd st') (snd st)) transfers \<and>
    list_all (\<lambda>st. list_all (\<lambda>st'. \<not> prefix (fst st) (snd st') \<and> \<not> prefix (snd st') (fst st))
      transfers) transfers"
proof -
  from assms obtain u where "validate_transfer_overlap transfers = Inr u"
    by (auto simp: transfer_arguments_def resolve_transfers_def rbind_Inr_iff Let_def split: if_splits)
  from validate_transfer_overlap_Inr[OF this] show ?thesis
    by (auto simp: overlapping_def is_relative_to_def list_all_iff elim!: sorted_wrt_mono_rel[rotated])
qed

theorem transfers_do_not_overlap_witness:
  "\<not> prefix [''a'', ''x.py''] [''a'', ''sub'', ''x.py'']"
proof -
  have run: "(case validate_tokens mv_tokens MV of Inl e \<Rightarrow> False
      | Inr parsed \<Rightarrow>
            (case transfer_arguments example_tree parsed [''a''] of Inl e \<Rightarrow> False
             | Inr (args, transfers) \<Rightarrow>
                 transfers = [([''a'', ''x.py''], [''a'', ''sub'', ''x.py''])]))"
    by code_simp
  then obtain parsed args where
    "transfer_arguments example_tree parsed [''a''] =
      Inr (args, [([''a'', ''x.py''], [''a'', ''sub'', ''x.py''])])"
    by (auto split: sum.splits)
  from transfers_do_not_overlap[OF this] show ?thesis by auto
qed

end
