(* ===== verification/Roboz_Execute.thy ===== *)
theory Roboz_Execute
  imports Roboz_Transfers
begin

text \<open>
  One guarded step of the file CLI and the chain around it: \<open>command.py\<close> (resolving the next
  command), \<open>execute.py\<close> (running it, recording its frame, selecting the next step or reporting)
  and \<open>guard.build_guarded_tool_chain\<close>. The operating system is the record \<open>machine\<close> over a
  world of any type: the file tree as it is now, how many deadline checks a preparation gets
  before its time is up, executable lookup, and process execution. \<open>decode_text\<close> is
  \<open>bytes.decode("utf-8", "backslashreplace")\<close> and \<open>encode_text\<close> is \<open>str.encode\<close>; \<open>describe\<close> is
  the text of a preparation error.
\<close>

section \<open>The machine\<close>

datatype lookup_outcome = Found string | NotFound | NotPermitted string

datatype process_outcome =
    Completed int bytes bytes
  | TimeoutExpired
  | MissingFile string string
  | ProcessNotPermitted string
  | ExecFormatError string
  | OtherOSError string

record 'w machine =
  file_tree :: "'w \<Rightarrow> node"
  deadline_checks :: "'w \<Rightarrow> nat"
  require_executable :: "string \<Rightarrow> 'w \<Rightarrow> lookup_outcome"
  run_process :: "string list \<Rightarrow> path \<Rightarrow> bytes \<Rightarrow> 'w \<Rightarrow> 'w \<times> process_outcome"
  decode_text :: "bytes \<Rightarrow> string"
  encode_text :: "string \<Rightarrow> bytes"
  describe :: "cli_error \<Rightarrow> string"

record completed_process =
  returncode :: int
  stdout :: bytes
  stderr :: bytes

record command_execution =
  ex_request :: "token list"
  ex_remaining :: "token list"
  ex_stdin :: "bytes option"
  ex_accumulated_output :: string
  ex_permission_history :: string
  ex_failure :: "string option"
  ex_ready :: "command_ready option"
  ex_truncation :: truncation_spec

record report =
  report_value :: string
  report_truncation :: truncation_spec

definition initial_execution :: "token list \<Rightarrow> command_execution" where
  "initial_execution tokens =
     \<lparr>ex_request = tokens, ex_remaining = tokens, ex_stdin = None, ex_accumulated_output = [],
      ex_permission_history = [], ex_failure = None, ex_ready = None, ex_truncation = DEFAULT\<rparr>"

section \<open>Resolving a step\<close>

definition prepare_command ::
  "string \<Rightarrow> node \<Rightarrow> nat \<Rightarrow> parsed_command \<Rightarrow> path \<Rightarrow> cli_error + prepared_command" where
  "prepare_command name fs checks =
     (if name = ''cp'' then prepare_cp fs
      else if name = ''mv'' then prepare_mv fs
      else if name = ''pwd'' then prepare_pwd fs
      else if name \<in> {''cat'', ''wc''} then prepare_read fs
      else if name \<in> {''head'', ''tail''} then prepare_counted_read fs
      else if name = ''tee'' then prepare_tee fs
      else if name = ''touch'' then prepare_touch fs
      else if name = ''mkdir'' then prepare_mkdir fs
      else if name = ''grep'' then prepare_grep fs (Some checks)
      else if name = ''rg'' then prepare_rg fs (Some checks)
      else if name = ''ls'' then prepare_ls fs
      else if name = ''find'' then prepare_find fs
      else if name = ''diff'' then prepare_diff fs
      else if name = ''gio'' then prepare_gio fs (Some checks)
      else prepare_rm fs (Some checks))"

definition prepare_tokens ::
  "node \<Rightarrow> nat \<Rightarrow> token list \<Rightarrow> path \<Rightarrow> cli_error + prepared_command" where
  "prepare_tokens fs checks tokens base =
     (case command_spec (fst (hd tokens)) of
        None \<Rightarrow> Inl (UnsupportedCommand (fst (hd tokens)))
      | Some spec \<Rightarrow>
          rbind (validate_tokens tokens spec) (\<lambda>parsed.
            prepare_command (cs_name spec) fs checks parsed base))"

definition guard_item :: "command_ready \<Rightarrow> requirement \<Rightarrow> command_ready guard_file_single" where
  "guard_item ready req =
     \<lparr>item_operation = fst req, item_location = snd req, item_value = ready\<rparr>"

text \<open>\<open>tokens[0][0]\<close> of an empty command raises \<open>IndexError\<close>, which is not handled.\<close>

definition prepare_step ::
  "'w machine \<Rightarrow> command_execution \<Rightarrow> path \<Rightarrow> 'w
    \<Rightarrow> io_error + (command_execution, command_ready) resolved_file_command" where
  "prepare_step m execution base w =
     (let cleared = execution\<lparr>ex_failure := None, ex_ready := None\<rparr>;
          tokens = fst (split_command (ex_remaining execution))
      in if tokens = [] then Inl (OtherError ''list index out of range'')
         else
           (case prepare_tokens (file_tree m w) (deadline_checks m w) tokens base of
              Inl e \<Rightarrow>
                Inr \<lparr>rfc_original_input = cleared\<lparr>ex_failure := Some (describe m e)\<rparr>, rfc_items = []\<rparr>
            | Inr prepared \<Rightarrow>
                Inr \<lparr>rfc_original_input = cleared\<lparr>ex_ready := Some (pc_ready prepared)\<rparr>,
                     rfc_items = map (guard_item (pc_ready prepared)) (pc_operations prepared)\<rparr>))"

section \<open>Bounded reports\<close>

definition HISTORY_TRUNCATION_MARKER :: string where
  "HISTORY_TRUNCATION_MARKER = ''[earlier command output omitted]'' @ newline"

definition PERMISSION_TRUNCATION_MARKER :: string where
  "PERMISSION_TRUNCATION_MARKER = ''[earlier permission messages omitted]'' @ newline"

definition MAX_PERMISSION_HISTORY_CHARS :: nat where
  "MAX_PERMISSION_HISTORY_CHARS = LIGHT_MAX_CHARS div 2"

lemma report_budgets [code_unfold]:
  "int LIGHT_MAX_CHARS = 40000" "int MAX_PERMISSION_HISTORY_CHARS = 20000"
  by (simp_all add: MAX_PERMISSION_HISTORY_CHARS_def LIGHT_MAX_CHARS_def)

definition MAX_COMMAND_OUTPUT_CHARS :: int where "MAX_COMMAND_OUTPUT_CHARS = 100000"
definition SUBPROCESS_TIMEOUT_SECONDS :: nat where "SUBPROCESS_TIMEOUT_SECONDS = 60"

text \<open>\<open>s[-n:]\<close>.\<close>

definition last_chars :: "int \<Rightarrow> string \<Rightarrow> string" where
  "last_chars n s = (if 0 < n then drop (length s - nat n) s else drop (nat (- n)) s)"

definition bounded_history :: "string \<Rightarrow> int \<Rightarrow> string \<Rightarrow> string" where
  "bounded_history history max_chars marker =
     (if int (length history) \<le> max_chars then history
      else marker @ last_chars (max_chars - int (length marker)) history)"

definition framed_cli_output :: "string \<Rightarrow> string \<Rightarrow> string" where
  "framed_cli_output command_line body =
     ''--- begin: '' @ command_line @ '' ---'' @ newline @
     rstrip_char (CHR 0x0A) body @ newline @ ''--- end: '' @ command_line @ '' ---''"

definition PIPE_STDIN_FROM_PREVIOUS_COMMAND :: string where
  "PIPE_STDIN_FROM_PREVIOUS_COMMAND = ''[stdin: piped from previous command]''"

definition PIPE_OUTPUT_TO_NEXT_COMMAND :: string where
  "PIPE_OUTPUT_TO_NEXT_COMMAND = ''[stdout: piped to next command]''"

definition success_no_output :: "string \<Rightarrow> string" where
  "success_no_output command = ''[success] Command completed with no output: '' @ command"

definition err_timeout :: string where
  "err_timeout = ''Command timed out after '' @ show_int (int SUBPROCESS_TIMEOUT_SECONDS) @ '' seconds''"

definition err_command_not_found :: "string \<Rightarrow> string" where
  "err_command_not_found cmd = ''Command '' @ [CHR 0x27] @ cmd @ [CHR 0x27] @ '' not found''"

definition err_output_too_large :: "nat \<Rightarrow> string" where
  "err_output_too_large actual_chars =
     ''[error] Command output too large ('' @ show_int (int actual_chars) @ '' chars; max '' @
     show_int MAX_COMMAND_OUTPUT_CHARS @
     ''). Chain stopped with no partial output returned.'' @ newline @
     ''Retry with bounded commands: `wc -l`, `head`, `tail`, `rg --count`, `rg --max-count`, or narrower paths. Start bounded reads with `head` or `tail`.''"

definition append_result ::
  "'w machine \<Rightarrow> command_execution \<Rightarrow> string \<Rightarrow> completed_process \<Rightarrow> command_execution" where
  "append_result m execution command result =
     (let tail = snd (split_command (ex_remaining execution));
          piped = (tail \<noteq> [] \<and> hd tail = (''|'', CTL));
          out = decode_text m (stdout result);
          err = decode_text m (stderr result);
          body0 = (if piped then PIPE_OUTPUT_TO_NEXT_COMMAND else out);
          body1 = (if returncode result \<noteq> 0
                   then ''[error] Command failed (exit '' @ show_int (returncode result) @ '')'' @ newline @ body0
                   else if body0 = [] then success_no_output command else body0);
          body2 = (if ex_stdin execution \<noteq> None
                   then PIPE_STDIN_FROM_PREVIOUS_COMMAND @ newline @ body1 else body1);
          body3 = (if err \<noteq> [] then body2 @ newline @ ''stderr:'' @ newline @ err else body2)
      in execution\<lparr>ex_accumulated_output :=
           bounded_history (ex_accumulated_output execution @ framed_cli_output command body3 @ newline)
             (int LIGHT_MAX_CHARS) HISTORY_TRUNCATION_MARKER\<rparr>)"

definition final_result :: "string \<Rightarrow> string \<Rightarrow> truncation_spec \<Rightarrow> string \<Rightarrow> report" where
  "final_result history summary truncation permission_history =
     (let header = ''Overall: '' @ summary @ newline @
            (if permission_history \<noteq> [] then permission_history @ newline else [])
      in \<lparr>report_value = header @
            bounded_history (py_rstrip history) (int LIGHT_MAX_CHARS - int (length header))
              HISTORY_TRUNCATION_MARKER,
          report_truncation = truncation\<rparr>)"

section \<open>Running a command\<close>

text \<open>The result is the text of an exception that is not mapped, or the completed process.\<close>

definition run_command ::
  "'w machine \<Rightarrow> command_ready \<Rightarrow> bytes option \<Rightarrow> 'w \<Rightarrow> 'w \<times> (string + completed_process)" where
  "run_command m ready stdin w =
     (if command_spec (cr_command_name ready) = None
      then (w, Inl (''resolved command has no implementation: '' @ cr_command_name ready))
      else
        (case require_executable m (cr_command_name ready) w of
           NotFound \<Rightarrow>
             (w, Inr \<lparr>returncode = 127, stdout = [],
                      stderr = encode_text m (err_command_not_found (cr_command_name ready))\<rparr>)
         | NotPermitted message \<Rightarrow>
             (w, Inr \<lparr>returncode = 126, stdout = [], stderr = encode_text m message\<rparr>)
         | Found executable \<Rightarrow>
             (let args = executable # drop 1 (cr_argv ready);
                  input = (case stdin of
                             Some data \<Rightarrow> data
                           | None \<Rightarrow> encode_text m (case cr_stdin ready of None \<Rightarrow> [] | Some s \<Rightarrow> s))
              in case run_process m args (cr_base_workdir ready) input w of
                   (w', Completed code out err) \<Rightarrow>
                     (w', Inr \<lparr>returncode = code, stdout = out, stderr = err\<rparr>)
                 | (w', TimeoutExpired) \<Rightarrow>
                     (w', Inr \<lparr>returncode = 124, stdout = [], stderr = encode_text m err_timeout\<rparr>)
                 | (w', MissingFile filename message) \<Rightarrow>
                     if filename \<noteq> executable \<or> \<not> is_dir (file_tree m w') (cr_base_workdir ready)
                     then (w', Inl message)
                     else (w', Inr \<lparr>returncode = 127, stdout = [], stderr = encode_text m message\<rparr>)
                 | (w', ProcessNotPermitted message) \<Rightarrow>
                     (w', Inr \<lparr>returncode = 126, stdout = [], stderr = encode_text m message\<rparr>)
                 | (w', ExecFormatError message) \<Rightarrow>
                     (w', Inr \<lparr>returncode = 126, stdout = [], stderr = encode_text m message\<rparr>)
                 | (w', OtherOSError message) \<Rightarrow> (w', Inl message))))"

type_synonym guarded_command = "(command_execution, command_ready) guard_files_result"

definition step_command :: "command_execution \<Rightarrow> string" where
  "step_command execution =
     (case ex_ready execution of
        Some ready \<Rightarrow> cr_display_command ready
      | None \<Rightarrow> fst (hd (fst (split_command (ex_remaining execution)))))"

definition step_failure :: "guarded_command \<Rightarrow> string option" where
  "step_failure inp =
     (if gr_status inp \<noteq> ALLOWED
      then Some (if gr_message inp \<noteq> None \<and> gr_message inp \<noteq> Some []
                 then ''Permission denied; see permission report above'' else ''Permission denied'')
      else ex_failure (gr_original_input inp))"

definition execution_error :: "command_execution \<Rightarrow> string \<Rightarrow> truncation_spec \<Rightarrow> report" where
  "execution_error execution message truncation =
     final_result (ex_accumulated_output execution @ framed_cli_output (step_command execution) message)
       ''failure (execution error)'' truncation (ex_permission_history execution)"

definition execute_step ::
  "'w machine \<Rightarrow> truncation_spec \<Rightarrow> guarded_command \<Rightarrow> 'w
    \<Rightarrow> 'w \<times> (report + string \<times> completed_process)" where
  "execute_step m truncation inp w =
     (let execution = gr_original_input inp;
          command = step_command execution
      in case step_failure inp of
           Some failure \<Rightarrow>
             (w, Inr (command, \<lparr>returncode = 1, stdout = [], stderr = encode_text m failure\<rparr>))
         | None \<Rightarrow>
             (case ex_ready execution of
                None \<Rightarrow> (w, Inl (execution_error execution ''Missing prepared command'' truncation))
              | Some ready \<Rightarrow>
                  (case run_command m ready (ex_stdin execution) w of
                     (w', Inl message) \<Rightarrow> (w', Inl (execution_error execution message truncation))
                   | (w', Inr result) \<Rightarrow> (w', Inr (command, result)))))"

definition continue_or_finish ::
  "command_execution \<Rightarrow> completed_process \<Rightarrow> truncation_spec \<Rightarrow> report + command_execution" where
  "continue_or_finish execution result truncation =
     (let next = next_command (ex_remaining execution) (returncode result)
      in if fst next \<noteq> []
         then Inr (execution\<lparr>ex_remaining := fst next,
                     ex_stdin := (if snd next then Some (stdout result) else None),
                     ex_truncation := Inl \<lparr>threshold = 0, severity = REMOVE\<rparr>\<rparr>)
         else Inl (final_result (ex_accumulated_output execution)
                ((if returncode result = 0 then ''success'' else ''failure'') @ '' (exit '' @
                 show_int (returncode result) @ '')'')
                truncation (ex_permission_history execution)))"

definition normalized_exit :: "int \<Rightarrow> int" where
  "normalized_exit code = (if 0 \<le> code then code else 128 - code)"

definition completed_result ::
  "'w machine \<Rightarrow> command_execution \<Rightarrow> string \<Rightarrow> completed_process \<Rightarrow> truncation_spec
    \<Rightarrow> report + command_execution" where
  "completed_result m execution command result truncation =
     (let captured = length (decode_text m (stdout result)) + length (decode_text m (stderr result))
      in if MAX_COMMAND_OUTPUT_CHARS < int captured
         then Inl (final_result (err_output_too_large captured)
                (''failure (output too large; exit '' @ show_int (returncode result) @ '')'')
                truncation (ex_permission_history execution))
         else
           (let result' = result\<lparr>returncode := normalized_exit (returncode result)\<rparr>
            in continue_or_finish (append_result m execution command result') result' truncation))"

definition add_permission_history :: "string option \<Rightarrow> command_execution \<Rightarrow> command_execution" where
  "add_permission_history message execution =
     (case message of
        None \<Rightarrow> execution
      | Some text \<Rightarrow>
          if text = [] then execution
          else execution\<lparr>ex_permission_history :=
                 bounded_history
                   (join_with newline (filter (\<lambda>s. s \<noteq> []) [ex_permission_history execution, text]))
                   (int MAX_PERMISSION_HISTORY_CHARS) PERMISSION_TRUNCATION_MARKER\<rparr>)"

definition execute_file_command ::
  "'w machine \<Rightarrow> truncation_spec \<Rightarrow> guarded_command \<Rightarrow> 'w \<Rightarrow> 'w \<times> (report + command_execution)" where
  "execute_file_command m truncation inp w =
     (let execution = add_permission_history (gr_message inp) (gr_original_input inp)
      in case execute_step m truncation (inp\<lparr>gr_original_input := execution\<rparr>) w of
           (w', Inl report) \<Rightarrow> (w', Inl report)
         | (w', Inr (command, result)) \<Rightarrow>
             (w', completed_result m execution command result truncation))"

section \<open>The chain\<close>

text \<open>Resolve, guard, execute; a continuation resolves the next reached command and guards it.\<close>

definition chain_step ::
  "'w machine \<Rightarrow> 'w terminal \<Rightarrow> 'w interaction \<Rightarrow> 'w guard_context \<Rightarrow> truncation_spec \<Rightarrow> path
    \<Rightarrow> command_execution \<Rightarrow> 'w \<Rightarrow> 'w \<times> (io_error + (report + command_execution))" where
  "chain_step m tm c ctx truncation base execution w =
     (case prepare_step m execution base w of
        Inl e \<Rightarrow> (w, Inl e)
      | Inr resolved \<Rightarrow>
          (case guard_items tm c (rfc_items resolved) (rfc_original_input resolved) ctx w of
             (w1, Inl e) \<Rightarrow> (w1, Inl e)
           | (w1, Inr guarded) \<Rightarrow>
               (case execute_file_command m truncation guarded w1 of
                  (w2, outcome) \<Rightarrow> (w2, Inr outcome))))"

end
