(* ===== verification/Roboz_Chain.thy ===== *)
theory Roboz_Chain
  imports Roboz_Execute
begin

text \<open>
  The whole guarded chain of one file-command call: the loop that \<open>build_guarded_tool_chain\<close>
  makes of resolve, guard, execute and continue, its termination, and its agreement with the
  reference reading of the accepted token stream (\<open>Roboz_Control.run_program\<close>).
\<close>

section \<open>The loop\<close>

lemma continue_or_finish_shorter:
  "continue_or_finish execution result tr = Inr execution' \<Longrightarrow>
   length (ex_remaining execution') < length (ex_remaining execution)"
  by (auto simp: continue_or_finish_def Let_def next_command_shorter split: if_splits)

lemma continue_or_finish_Inr:
  "continue_or_finish execution result tr = Inr execution' \<longleftrightarrow>
   fst (next_command (ex_remaining execution) (returncode result)) \<noteq> [] \<and>
   execution' = execution\<lparr>
     ex_remaining := fst (next_command (ex_remaining execution) (returncode result)),
     ex_stdin := (if snd (next_command (ex_remaining execution) (returncode result))
                  then Some (stdout result) else None),
     ex_truncation := Inl \<lparr>threshold = 0, severity = REMOVE\<rparr>\<rparr>"
  by (auto simp: continue_or_finish_def Let_def)

lemma append_result_simps [simp]:
  "ex_remaining (append_result m execution command result) = ex_remaining execution"
  "ex_stdin (append_result m execution command result) = ex_stdin execution"
  "ex_permission_history (append_result m execution command result) = ex_permission_history execution"
  by (simp_all add: append_result_def Let_def)

lemma add_permission_history_simps [simp]:
  "ex_remaining (add_permission_history msg execution) = ex_remaining execution"
  "ex_stdin (add_permission_history msg execution) = ex_stdin execution"
  "ex_ready (add_permission_history msg execution) = ex_ready execution"
  "ex_failure (add_permission_history msg execution) = ex_failure execution"
  "ex_accumulated_output (add_permission_history msg execution) = ex_accumulated_output execution"
  by (simp_all add: add_permission_history_def split: option.splits)

lemma completed_result_shorter:
  "completed_result m execution command result tr = Inr execution' \<Longrightarrow>
   length (ex_remaining execution') < length (ex_remaining execution)"
  by (auto simp: completed_result_def Let_def dest: continue_or_finish_shorter split: if_splits)

lemma guard_items_input:
  "guard_items tm c items inp' ctx h =
   apsnd (map_sum id (gr_original_input_update (\<lambda>_. inp'))) (guard_items tm c items inp ctx h)"
proof -
  have loop: "approval_loop ask inp' is ex h =
      apsnd (map_sum id (map_sum id (gr_original_input_update (\<lambda>_. inp'))))
        (approval_loop ask inp is ex h)" for ask "is" ex h
    by (induction "is" arbitrary: ex h)
      (auto simp: denied_def Let_def split: prod.splits sum.splits option.splits)
  have policy: "check_policy inp' items ctx base h =
      map_option (gr_original_input_update (\<lambda>_. inp')) (check_policy inp items ctx base h)" for base
    by (induction items) (auto simp: denied_def)
  have request: "request_approvals ask inp' items ctx base h =
      apsnd (map_sum id (gr_original_input_update (\<lambda>_. inp')))
        (request_approvals ask inp items ctx base h)" for ask base
    by (auto simp: request_approvals_def Let_def loop[of ask _ "[]" h] denied_def allowed_def
        split: prod.splits sum.splits)
  show ?thesis
    by (auto simp: guard_items_def policy request split: option.splits)
qed

lemma guard_items_keeps_input:
  assumes "guard_items tm c items inp ctx h = (h', Inr r)"
  shows "gr_original_input r = inp"
  using guard_items_input[of tm c items inp ctx h inp] assms
  by (auto dest!: arg_cong[of _ _ gr_original_input])

lemma prepare_step_remaining:
  "prepare_step m execution base w = Inr resolved \<Longrightarrow>
   ex_remaining (rfc_original_input resolved) = ex_remaining execution \<and>
   ex_stdin (rfc_original_input resolved) = ex_stdin execution \<and>
   ex_permission_history (rfc_original_input resolved) = ex_permission_history execution \<and>
   ex_accumulated_output (rfc_original_input resolved) = ex_accumulated_output execution"
  by (auto simp: prepare_step_def Let_def split: if_splits sum.splits)

lemma chain_step_shorter:
  assumes "chain_step m tm c ctx tr base execution w = (w', Inr (Inr execution'))"
  shows "length (ex_remaining execution') < length (ex_remaining execution)"
proof -
  from assms obtain resolved w1 guarded where
    p: "prepare_step m execution base w = Inr resolved" and
    g: "guard_items tm c (rfc_items resolved) (rfc_original_input resolved) ctx w = (w1, Inr guarded)"
    and e: "execute_file_command m tr guarded w1 = (w', Inr execution')"
    by (auto simp: chain_step_def split: sum.splits prod.splits)
  from e have "length (ex_remaining execution') < length (ex_remaining (gr_original_input guarded))"
    by (auto simp: execute_file_command_def Let_def split: prod.splits sum.splits
        dest!: completed_result_shorter)
  with prepare_step_remaining[OF p] guard_items_keeps_input[OF g] show ?thesis by simp
qed

function run_chain ::
  "'w machine \<Rightarrow> 'w terminal \<Rightarrow> 'w interaction \<Rightarrow> 'w guard_context \<Rightarrow> truncation_spec \<Rightarrow> path
    \<Rightarrow> command_execution \<Rightarrow> 'w \<Rightarrow> 'w \<times> (io_error + report)" where
  "run_chain m tm c ctx tr base execution w =
     (case chain_step m tm c ctx tr base execution w of
        (w', Inl e) \<Rightarrow> (w', Inl e)
      | (w', Inr (Inl r)) \<Rightarrow> (w', Inr r)
      | (w', Inr (Inr execution')) \<Rightarrow> run_chain m tm c ctx tr base execution' w')"
  by pat_completeness auto
termination
  by (relation "measure (\<lambda>(m, tm, c, ctx, tr, base, execution, w). length (ex_remaining execution))")
    (auto dest!: sym[of _ "chain_step _ _ _ _ _ _ _ _"] dest: chain_step_shorter)

declare run_chain.simps [simp del]

definition run_file_command ::
  "'w machine \<Rightarrow> 'w terminal \<Rightarrow> 'w interaction \<Rightarrow> 'w guard_context \<Rightarrow> truncation_spec \<Rightarrow> path
    \<Rightarrow> token list \<Rightarrow> 'w \<Rightarrow> 'w \<times> (io_error + report)" where
  "run_file_command m tm c ctx tr base tokens w =
     run_chain m tm c ctx tr base (initial_execution tokens) w"

section \<open>One command, without its bookkeeping\<close>

text \<open>
  What running one command of the stream does: the world it leaves, and either its normalised
  exit status with its captured standard output, or \<open>None\<close> when the whole run stops.
\<close>

definition step_outcome ::
  "'w machine \<Rightarrow> 'w terminal \<Rightarrow> 'w interaction \<Rightarrow> 'w guard_context \<Rightarrow> path
    \<Rightarrow> token list \<Rightarrow> bytes option \<Rightarrow> 'w \<Rightarrow> 'w \<times> (int \<times> bytes) option" where
  "step_outcome m tm c ctx base tokens stdin w =
     (case prepare_step m ((initial_execution tokens)\<lparr>ex_stdin := stdin\<rparr>) base w of
        Inl e \<Rightarrow> (w, None)
      | Inr resolved \<Rightarrow>
          (case guard_items tm c (rfc_items resolved) (rfc_original_input resolved) ctx w of
             (w1, Inl e) \<Rightarrow> (w1, None)
           | (w1, Inr guarded) \<Rightarrow>
               (case execute_step m (Inl \<lparr>threshold = 0, severity = REMOVE\<rparr>) guarded w1 of
                  (w2, Inl r) \<Rightarrow> (w2, None)
                | (w2, Inr (command, result)) \<Rightarrow>
                    (w2, if MAX_COMMAND_OUTPUT_CHARS < int (length (decode_text m (stdout result)) +
                              length (decode_text m (stderr result)))
                         then None
                         else Some (normalized_exit (returncode result), stdout result)))))"

text \<open>As a runner of the token-stream machine; a stopped run stays stopped.\<close>

definition guarded_runner ::
  "'w machine \<Rightarrow> 'w terminal \<Rightarrow> 'w interaction \<Rightarrow> 'w guard_context \<Rightarrow> path \<Rightarrow> ('w \<times> bool) runner"
where
  "guarded_runner m tm c ctx base state tokens stdin =
     (if snd state
      then (case step_outcome m tm c ctx base tokens stdin (fst state) of
              (w', None) \<Rightarrow> ((w', False), 0, [])
            | (w', Some (code, out)) \<Rightarrow> ((w', True), code, out))
      else (state, 0, []))"

definition overall :: "string \<Rightarrow> report \<Rightarrow> bool" where
  "overall summary r \<longleftrightarrow>
     take (length (''Overall: '' @ summary)) (report_value r) = ''Overall: '' @ summary"

definition exit_summary :: "int \<Rightarrow> string" where
  "exit_summary code =
     (if code = 0 then ''success'' else ''failure'') @ '' (exit '' @ show_int code @ '')''"

definition stopped_report :: "report \<Rightarrow> bool" where
  "stopped_report r \<longleftrightarrow> overall (''failure (execution error)'' @ newline) r \<or>
     overall ''failure (output too large; exit '' r"

lemma overall_final_result:
  "overall summary (final_result history (summary @ rest) tr perm)"
  "overall (summary @ newline) (final_result history summary tr perm)"
  by (simp_all add: overall_def final_result_def Let_def)

lemma aborted_stopped [simp]: "stopped_report (execution_error execution message tr)"
  unfolding stopped_report_def execution_error_def by (rule disjI1, rule overall_final_result(2))

lemma oversized_stopped:
  "stopped_report (final_result history (''failure (output too large; exit '' @ rest) tr perm)"
  unfolding stopped_report_def by (rule disjI2, rule overall_final_result(1))

lemma split_command_idem:
  "split_command (fst (split_command ts)) = (fst (split_command ts), [])"
  by (auto simp: stream_simps dropWhile_eq_Nil_conv dest: set_takeWhileD)

lemma execute_step_input:
  assumes "execute_step m tr guarded w = (w', res)"
    and "gr_status guarded' = gr_status guarded" and "gr_message guarded' = gr_message guarded"
    and "ex_failure (gr_original_input guarded') = ex_failure (gr_original_input guarded)"
    and "ex_ready (gr_original_input guarded') = ex_ready (gr_original_input guarded)"
    and "ex_stdin (gr_original_input guarded') = ex_stdin (gr_original_input guarded)"
    and "fst (split_command (ex_remaining (gr_original_input guarded'))) =
         fst (split_command (ex_remaining (gr_original_input guarded)))"
  shows "\<exists>res'. execute_step m tr' guarded' w = (w', res') \<and>
    (case res of
       Inl r \<Rightarrow> stopped_report r \<and> (\<exists>r'. res' = Inl r')
     | Inr cr \<Rightarrow> res' = Inr cr)"
proof -
  have failure: "step_failure guarded' = step_failure guarded"
    using assms by (simp add: step_failure_def)
  have command: "step_command (gr_original_input guarded') = step_command (gr_original_input guarded)"
    by (simp only: step_command_def assms(5,7))
  show ?thesis
    using assms(1) unfolding execute_step_def Let_def failure command assms(5,6)
    by (auto split: option.splits prod.splits sum.splits)
qed

lemma chain_step_outcome:
  assumes "chain_step m tm c ctx tr base execution w = (w', res)"
  shows "case step_outcome m tm c ctx base (fst (split_command (ex_remaining execution)))
      (ex_stdin execution) w of
    (w1, None) \<Rightarrow> w1 = w' \<and> ((\<exists>e. res = Inl e) \<or> (\<exists>r. res = Inr (Inl r) \<and> stopped_report r))
  | (w1, Some (code, out)) \<Rightarrow> w1 = w' \<and> (\<exists>execution2 result.
      ex_remaining execution2 = ex_remaining execution \<and>
      returncode result = code \<and> stdout result = out \<and>
      res = Inr (continue_or_finish execution2 result tr))"
proof -
  let ?tokens = "fst (split_command (ex_remaining execution))"
  let ?bare = "(initial_execution ?tokens)\<lparr>ex_stdin := ex_stdin execution\<rparr>"
  have bare: "ex_remaining ?bare = ?tokens" "ex_stdin ?bare = ex_stdin execution"
    by (simp_all add: initial_execution_def)
  show ?thesis
  proof (cases "prepare_step m execution base w")
    case (Inl e)
    then have "prepare_step m ?bare base w = Inl e"
      by (simp add: prepare_step_def Let_def bare(1) split_command_idem
          split: if_splits sum.splits)
    with Inl assms show ?thesis by (auto simp: chain_step_def step_outcome_def)
  next
    case (Inr resolved)
    have "\<exists>bare'. prepare_step m ?bare base w = Inr bare' \<and> rfc_items bare' = rfc_items resolved \<and>
        ex_failure (rfc_original_input bare') = ex_failure (rfc_original_input resolved) \<and>
        ex_ready (rfc_original_input bare') = ex_ready (rfc_original_input resolved)"
      using Inr unfolding prepare_step_def Let_def
      by (simp add: bare(1) split_command_idem split: if_splits sum.splits)
        (auto split: if_splits sum.splits)
    then obtain bare' where b: "prepare_step m ?bare base w = Inr bare'"
      "rfc_items bare' = rfc_items resolved"
      "ex_failure (rfc_original_input bare') = ex_failure (rfc_original_input resolved)"
      "ex_ready (rfc_original_input bare') = ex_ready (rfc_original_input resolved)" by blast
    note rem = prepare_step_remaining[OF Inr] prepare_step_remaining[OF b(1)]
    obtain w1 answer where g: "guard_items tm c (rfc_items resolved) (rfc_original_input resolved)
        ctx w = (w1, answer)" by fastforce
    have g': "guard_items tm c (rfc_items bare') (rfc_original_input bare') ctx w =
        (w1, map_sum id (gr_original_input_update (\<lambda>_. rfc_original_input bare')) answer)"
      using guard_items_input[of tm c "rfc_items resolved" "rfc_original_input bare'" ctx w
          "rfc_original_input resolved"] g b(2) by simp
    show ?thesis
    proof (cases answer)
      case (Inl e)
      with assms g g' b(1) \<open>prepare_step m execution base w = Inr resolved\<close> show ?thesis
        by (auto simp: chain_step_def step_outcome_def)
    next
      case guarded: (Inr guarded)
      let ?execution = "add_permission_history (gr_message guarded) (gr_original_input guarded)"
      let ?guarded = "guarded\<lparr>gr_original_input := ?execution\<rparr>"
      let ?bare' = "guarded\<lparr>gr_original_input := rfc_original_input bare'\<rparr>"
      note kept = guard_items_keeps_input[OF g[unfolded guarded]]
      obtain w2 outcome where run: "execute_step m tr ?guarded w1 = (w2, outcome)" by fastforce
      have same: "\<exists>res'. execute_step m (Inl \<lparr>threshold = 0, severity = REMOVE\<rparr>) ?bare' w1 = (w2, res') \<and>
          (case outcome of
             Inl r \<Rightarrow> stopped_report r \<and> (\<exists>r'. res' = Inl r')
           | Inr cr \<Rightarrow> res' = Inr cr)"
        by (rule execute_step_input[OF run]) (simp_all add: kept b rem bare split_command_idem)
      have outcome: "step_outcome m tm c ctx base ?tokens (ex_stdin execution) w =
          (case execute_step m (Inl \<lparr>threshold = 0, severity = REMOVE\<rparr>) ?bare' w1 of
             (w2, Inl r) \<Rightarrow> (w2, None)
           | (w2, Inr (command, result)) \<Rightarrow>
               (w2, if MAX_COMMAND_OUTPUT_CHARS < int (length (decode_text m (stdout result)) +
                         length (decode_text m (stderr result)))
                    then None
                    else Some (normalized_exit (returncode result), stdout result)))"
        by (simp add: step_outcome_def b(1) g' guarded del: of_nat_add)
      have res: "(w', res) = (case execute_step m tr ?guarded w1 of
          (w2, Inl r) \<Rightarrow> (w2, Inr (Inl r))
        | (w2, Inr (command, result)) \<Rightarrow>
            (w2, Inr (completed_result m ?execution command result tr)))"
        using assms Inr g guarded
        by (auto simp: chain_step_def execute_file_command_def Let_def split: prod.splits sum.splits)
      have remaining: "ex_remaining ?execution = ex_remaining execution"
        by (simp add: kept rem)
      show ?thesis
      proof (cases outcome)
        case (Inl r)
        with same res run outcome show ?thesis by auto
      next
        case (Inr cr)
        obtain command result where cr: "cr = (command, result)" by (cases cr)
        show ?thesis
        proof (cases "MAX_COMMAND_OUTPUT_CHARS < int (length (decode_text m (stdout result)) +
            length (decode_text m (stderr result)))")
          case True
          with same res run outcome Inr cr show ?thesis
            by (simp add: completed_result_def Let_def oversized_stopped del: append.simps)
        next
          case False
          with same res run outcome Inr cr remaining show ?thesis
            by (auto simp: completed_result_def Let_def intro!: exI[of _ "append_result m ?execution command (result\<lparr>returncode := normalized_exit (returncode result)\<rparr>)"]
                exI[of _ "result\<lparr>returncode := normalized_exit (returncode result)\<rparr>"])
        qed
      qed
    qed
  qed
qed

section \<open>The chain is the token-stream machine\<close>

lemma run_stream_stopped:
  "fst (run_stream (guarded_runner m tm c ctx base) (w, False) ts stdin) = (w, False)"
proof (induction "length ts" arbitrary: ts stdin rule: less_induct)
  case less
  show ?case
    by (subst run_stream.simps)
      (auto simp: guarded_runner_def Let_def intro!: less dest: next_command_shorter)
qed

lemma run_chain_stream:
  "case run_stream (guarded_runner m tm c ctx base) (w, True) (ex_remaining execution)
      (ex_stdin execution) of
    ((w1, ok), code) \<Rightarrow>
      (case run_chain m tm c ctx tr base execution w of
         (w', res) \<Rightarrow> w1 = w' \<and>
           (if ok then \<exists>r. res = Inr r \<and> overall (exit_summary code @ newline) r
            else (\<exists>e. res = Inl e) \<or> (\<exists>r. res = Inr r \<and> stopped_report r)))"
proof (induction m tm c ctx tr base execution w rule: run_chain.induct)
  case (1 m tm c ctx tr base execution w)
  obtain w' res where step: "chain_step m tm c ctx tr base execution w = (w', res)" by fastforce
  note outcome = chain_step_outcome[OF step]
  obtain w1 o1 where so: "step_outcome m tm c ctx base (fst (split_command (ex_remaining execution)))
      (ex_stdin execution) w = (w1, o1)" by fastforce
  show ?case
  proof (cases o1)
    case None
    have "fst (run_stream (guarded_runner m tm c ctx base) (w, True) (ex_remaining execution)
        (ex_stdin execution)) = (w1, False)"
      by (subst run_stream.simps)
        (simp add: guarded_runner_def so None Let_def run_stream_stopped)
    then obtain code where st: "run_stream (guarded_runner m tm c ctx base) (w, True)
        (ex_remaining execution) (ex_stdin execution) = ((w1, False), code)"
      by (metis prod.collapse)
    from None so outcome step show ?thesis
      by (subst run_chain.simps) (auto simp: st)
  next
    case (Some co)
    obtain code out where co: "co = (code, out)" by (cases co)
    from outcome so Some co obtain execution2 result where w1: "w1 = w'" and
      r: "ex_remaining execution2 = ex_remaining execution" "returncode result = code"
      "stdout result = out" "res = Inr (continue_or_finish execution2 result tr)" by auto
    let ?next = "next_command (ex_remaining execution) code"
    have stream: "run_stream (guarded_runner m tm c ctx base) (w, True) (ex_remaining execution)
        (ex_stdin execution) =
        (if fst ?next = [] then ((w', True), code)
         else run_stream (guarded_runner m tm c ctx base) (w', True) (fst ?next)
                (if snd ?next then Some out else None))"
      by (subst run_stream.simps) (simp add: guarded_runner_def so Some co w1 Let_def)
    show ?thesis
    proof (cases "fst ?next = []")
      case True
      with r have "res = Inr (Inl (final_result (ex_accumulated_output execution2) (exit_summary code)
          tr (ex_permission_history execution2)))"
        by (simp add: continue_or_finish_def Let_def exit_summary_def)
      moreover have "overall (exit_summary code @ newline)
          (final_result (ex_accumulated_output execution2) (exit_summary code)
            tr (ex_permission_history execution2))"
        by (rule overall_final_result(2))
      ultimately show ?thesis using True step
        by (subst run_chain.simps) (simp add: stream)
    next
      case False
      then obtain execution' where c: "continue_or_finish execution2 result tr = Inr execution'"
        "ex_remaining execution' = fst ?next"
        "ex_stdin execution' = (if snd ?next then Some out else None)"
        using r continue_or_finish_Inr[of execution2 result tr] by auto
      from "1.IH"[OF step[symmetric] r(4) c(1)] False step r(4) c show ?thesis
        by (subst run_chain.simps) (simp add: stream)
    qed
  qed
qed

section \<open>Bounds of a report\<close>

lemma length_digits_of: "n < 10 ^ Suc k \<Longrightarrow> length (digits_of n) \<le> Suc k"
proof (induction k arbitrary: n)
  case (Suc k)
  then have "n div 10 < 10 ^ Suc k" by simp
  from Suc.IH[OF this] show ?case
    by (subst digits_of.simps) simp
qed (simp add: digits_of.simps)

lemma length_show_int: "\<bar>i\<bar> < 10 ^ 12 \<Longrightarrow> length (show_int i) \<le> 13"
  using length_digits_of[of "nat \<bar>i\<bar>" 11] by (cases "i < 0") (simp_all add: show_int_def nat_less_iff)

lemma length_bounded_history:
  assumes "int (length marker) < n"
  shows "int (length (bounded_history history n marker)) \<le> n"
  using assms by (auto simp: bounded_history_def last_chars_def)

lemma length_final_result:
  assumes "length summary \<le> 100" and "length perm \<le> MAX_PERMISSION_HISTORY_CHARS"
  shows "length (report_value (final_result history summary tr perm)) \<le> LIGHT_MAX_CHARS"
proof -
  let ?header = "''Overall: '' @ summary @ newline @ (if perm \<noteq> [] then perm @ newline else [])"
  have header: "length ?header \<le> 20200"
    using assms by (simp add: MAX_PERMISSION_HISTORY_CHARS_def LIGHT_MAX_CHARS_def newline_def)
  have "int (length (bounded_history (py_rstrip history) (int LIGHT_MAX_CHARS - int (length ?header))
      HISTORY_TRUNCATION_MARKER)) \<le> int LIGHT_MAX_CHARS - int (length ?header)"
    by (rule length_bounded_history)
      (use header in \<open>simp add: LIGHT_MAX_CHARS_def HISTORY_TRUNCATION_MARKER_def newline_def\<close>)
  with header show ?thesis
    by (simp add: final_result_def Let_def LIGHT_MAX_CHARS_def)
qed

definition machine_statuses :: "'w machine \<Rightarrow> bool" where
  "machine_statuses m \<longleftrightarrow> (\<forall>argv dir input w w' code out err.
     run_process m argv dir input w = (w', Completed code out err) \<longrightarrow> \<bar>code\<bar> < 2 ^ 32)"

lemma machine_statusesD:
  "machine_statuses m \<Longrightarrow> run_process m args dir input w = (w', Completed code out err) \<Longrightarrow>
   \<bar>code\<bar> < 2 ^ 32"
  unfolding machine_statuses_def by blast

lemma add_permission_history_bound:
  assumes "length (ex_permission_history execution) \<le> MAX_PERMISSION_HISTORY_CHARS"
  shows "length (ex_permission_history (add_permission_history msg execution)) \<le>
    MAX_PERMISSION_HISTORY_CHARS"
proof -
  have "int (length PERMISSION_TRUNCATION_MARKER) < int MAX_PERMISSION_HISTORY_CHARS"
    by (simp add: PERMISSION_TRUNCATION_MARKER_def newline_def MAX_PERMISSION_HISTORY_CHARS_def
        LIGHT_MAX_CHARS_def)
  note length_bounded_history[OF this]
  with assms show ?thesis
    by (simp add: add_permission_history_def split: option.splits)
qed

lemma run_command_status:
  assumes "machine_statuses m" and "run_command m ready stdin w = (w', Inr result)"
  shows "\<bar>returncode result\<bar> < 2 ^ 32"
  using assms
  by (auto simp: run_command_def Let_def dest: machine_statusesD
      split: if_splits lookup_outcome.splits prod.splits process_outcome.splits)

lemma execute_step_bounds:
  assumes "machine_statuses m" and "execute_step m tr inp w = (w', res)"
    and "length (ex_permission_history (gr_original_input inp)) \<le> MAX_PERMISSION_HISTORY_CHARS"
  shows "case res of Inl r \<Rightarrow> length (report_value r) \<le> LIGHT_MAX_CHARS
    | Inr (command, result) \<Rightarrow> \<bar>returncode result\<bar> < 2 ^ 32"
  using assms(2,3) run_command_status[OF assms(1)]
  by (auto simp: execute_step_def execution_error_def Let_def length_final_result
      split: option.splits prod.splits sum.splits)

lemma exit_text_bound:
  "\<bar>code\<bar> < 2 ^ 34 \<Longrightarrow> length (exit_summary code) \<le> 100"
  "\<bar>code\<bar> < 2 ^ 34 \<Longrightarrow>
    length (''failure (output too large; exit '' @ show_int code @ '')'') \<le> 100"
  using length_show_int[of code] by (auto simp: exit_summary_def)

lemma completed_result_bounds:
  assumes "\<bar>returncode result\<bar> < 2 ^ 32"
    and "length (ex_permission_history execution) \<le> MAX_PERMISSION_HISTORY_CHARS"
  shows "case completed_result m execution command result tr of
      Inl r \<Rightarrow> length (report_value r) \<le> LIGHT_MAX_CHARS
    | Inr execution' \<Rightarrow> length (ex_permission_history execution') \<le> MAX_PERMISSION_HISTORY_CHARS"
proof -
  have code: "\<bar>normalized_exit (returncode result)\<bar> < 2 ^ 34" "\<bar>returncode result\<bar> < 2 ^ 34"
    using assms(1) by (auto simp: normalized_exit_def)
  show ?thesis
    using length_final_result[OF exit_text_bound(1)[OF code(1)] assms(2)]
      length_final_result[OF exit_text_bound(2)[OF code(2)] assms(2)] assms(2)
    by (auto simp: completed_result_def continue_or_finish_def Let_def exit_summary_def)
qed

lemma chain_step_bounds:
  assumes "machine_statuses m"
    and "length (ex_permission_history execution) \<le> MAX_PERMISSION_HISTORY_CHARS"
    and "chain_step m tm c ctx tr base execution w = (w', Inr res)"
  shows "case res of
      Inl r \<Rightarrow> length (report_value r) \<le> LIGHT_MAX_CHARS
    | Inr execution' \<Rightarrow> length (ex_permission_history execution') \<le> MAX_PERMISSION_HISTORY_CHARS"
proof -
  from assms(3) obtain resolved w1 guarded where
    p: "prepare_step m execution base w = Inr resolved" and
    g: "guard_items tm c (rfc_items resolved) (rfc_original_input resolved) ctx w = (w1, Inr guarded)"
    and e: "execute_file_command m tr guarded w1 = (w', res)"
    by (auto simp: chain_step_def split: sum.splits prod.splits)
  let ?execution = "add_permission_history (gr_message guarded) (gr_original_input guarded)"
  have perm: "length (ex_permission_history ?execution) \<le> MAX_PERMISSION_HISTORY_CHARS"
    by (rule add_permission_history_bound)
      (simp add: guard_items_keeps_input[OF g] prepare_step_remaining[OF p] assms(2))
  obtain w2 outcome where run:
    "execute_step m tr (guarded\<lparr>gr_original_input := ?execution\<rparr>) w1 = (w2, outcome)" by fastforce
  show ?thesis
  proof (cases outcome)
    case (Inl r)
    with execute_step_bounds[OF assms(1) run] run e perm show ?thesis
      by (auto simp: execute_file_command_def Let_def)
  next
    case (Inr cr)
    obtain command result where cr: "cr = (command, result)" by (cases cr)
    with execute_step_bounds[OF assms(1) run] Inr perm have "\<bar>returncode result\<bar> < 2 ^ 32" by simp
    from completed_result_bounds[OF this perm] run e Inr cr show ?thesis
      by (auto simp: execute_file_command_def Let_def)
  qed
qed

lemma run_chain_bounds:
  assumes "machine_statuses m"
  shows "length (ex_permission_history execution) \<le> MAX_PERMISSION_HISTORY_CHARS \<Longrightarrow>
    run_chain m tm c ctx tr base execution w = (w', Inr r) \<Longrightarrow>
    length (report_value r) \<le> LIGHT_MAX_CHARS"
  using assms
proof (induction m tm c ctx tr base execution w rule: run_chain.induct)
  case (1 m tm c ctx tr base execution w)
  obtain w1 res where step: "chain_step m tm c ctx tr base execution w = (w1, res)" by fastforce
  show ?case
  proof (cases res)
    case (Inl e)
    with step "1.prems"(2) show ?thesis by (subst (asm) run_chain.simps) simp
  next
    case (Inr out)
    note bounds = chain_step_bounds[OF "1.prems"(3,1) step[unfolded Inr]]
    show ?thesis
    proof (cases out)
      case (Inl r')
      with step Inr bounds "1.prems"(2) show ?thesis by (subst (asm) run_chain.simps) simp
    next
      case out: (Inr execution')
      from "1.prems"(2) step Inr out have "run_chain m tm c ctx tr base execution' w1 = (w', Inr r)"
        by (subst (asm) run_chain.simps) simp
      from "1.IH"[OF step[symmetric] Inr out _ this "1.prems"(3)] bounds out show ?thesis by simp
    qed
  qed
qed

section \<open>Effects need the guard\<close>

lemma guarded_step_fallback:
  "(\<And>v h. \<not> granted v \<Longrightarrow> fallback v h = fallback' v h) \<Longrightarrow>
   guarded_step authorize granted effect fallback h = guarded_step authorize granted effect fallback' h"
  by (auto simp: guarded_step_def split: prod.splits sum.splits)

lemma chain_step_guarded:
  assumes "prepare_step m execution base w = Inr resolved"
  shows "chain_step m tm c ctx tr base execution w =
    guarded_step
      ((\<lambda>q h. guard_items tm c (snd q) (fst q) ctx h) (rfc_original_input resolved, rfc_items resolved))
      is_allowed
      (\<lambda>guarded h. apsnd Inr (execute_file_command m tr guarded h))
      (\<lambda>guarded h. apsnd Inr (execute_file_command m tr guarded h)) w"
  using assms by (auto simp: chain_step_def guarded_step_def split: prod.splits sum.splits)

lemma denied_execution:
  assumes "\<not> is_allowed guarded"
  shows "execute_file_command (m\<lparr>run_process := rp, require_executable := re\<rparr>) tr guarded h =
    execute_file_command m tr guarded h"
proof -
  have "step_failure (guarded\<lparr>gr_original_input := x\<rparr>) \<noteq> None" for x
    using assms by (simp add: step_failure_def is_allowed_def)
  then obtain failure where f: "step_failure (guarded\<lparr>gr_original_input :=
      add_permission_history (gr_message guarded) (gr_original_input guarded)\<rparr>) = Some failure"
    by blast
  have "completed_result (m\<lparr>run_process := rp, require_executable := re\<rparr>) = completed_result m"
    by (intro ext) (simp add: completed_result_def append_result_def Let_def)
  then show ?thesis
    by (simp add: execute_file_command_def execute_step_def Let_def f)
qed

lemma prepare_step_machine [simp]:
  "prepare_step (m\<lparr>run_process := rp, require_executable := re\<rparr>) execution base w =
   prepare_step m execution base w"
  by (simp add: prepare_step_def Let_def split: sum.split)

text \<open>A terminal script as the world; every process that runs is shown.\<close>

definition example_machine :: "(string list \<times> string list) machine" where
  "example_machine =
     \<lparr>file_tree = (\<lambda>_. example_tree), deadline_checks = (\<lambda>_. 100),
      require_executable = (\<lambda>name _. Found (''/bin/'' @ name)),
      run_process = (\<lambda>args dir input (lines, shown).
        ((lines, shown @ [join_with '' '' args]), Completed 0 [111, 107] [])),
      decode_text = map char_of, encode_text = map of_char, describe = (\<lambda>e. ''error'')\<rparr>"

definition remove_tokens :: "string \<Rightarrow> token list" where
  "remove_tokens p = [(''rm'', CMD), (p, PTH)]"

definition protecting_rules :: "'h guard_context" where
  "protecting_rules =
     \<lparr>gc_base = Some [], takes_precedence = Deny,
      deny_rules = [\<lparr>pr_pattern = Fixed ''/a/**'', pr_operations = [DELETE]\<rparr>],
      allow_rules = [], ask_rules = [], default_verdict = Allow, gc_pipe = True\<rparr>"

section \<open>Properties\<close>

text \<open>
  C5. One file-command call does to the world exactly what the accepted token stream says under
  the shell reading: pipelines and connectives evaluated left to right, each reached command being
  resolved, guarded and executed in the world its predecessors left, its normalised exit status
  deciding what is reached next. The call always ends; when no command stops the run its report
  gives the last exit status, and otherwise the call raised or reports an execution error or
  output that was too large.
\<close>

theorem chain_runs_program:
  assumes "file_command tokens = Inr accepted"
  shows "case run_program (guarded_runner m tm c ctx base) (w, True) (parse accepted) of
    ((w1, ok), code) \<Rightarrow>
      (case run_file_command m tm c ctx tr base accepted w of
         (w', res) \<Rightarrow> w' = w1 \<and>
           (if ok then \<exists>r. res = Inr r \<and> overall (exit_summary code @ newline) r
            else (\<exists>e. res = Inl e) \<or> (\<exists>r. res = Inr r \<and> stopped_report r)))"
proof -
  from file_command_accepts[OF assms] parse_accepted
  have "program_wf (parse accepted)" and "render (parse accepted) = accepted" by auto
  then have "run_stream (guarded_runner m tm c ctx base) (w, True) accepted None =
      run_program (guarded_runner m tm c ctx base) (w, True) (parse accepted)"
    using run_stream_render by metis
  with run_chain_stream[where execution = "initial_execution accepted" and m = m and tm = tm and c = c
      and ctx = ctx and base = base and w = w and tr = tr] show ?thesis
    by (auto simp: run_file_command_def initial_execution_def split: prod.splits)
qed

theorem chain_runs_program_witness:
  "\<exists>r. run_file_command example_machine scripted on_terminal protecting_rules DEFAULT []
      [(''pwd'', CMD), (''||'', CTL), (''pwd'', CMD), ('';'', CTL), (''rm'', CMD), (''/b'', PTH)]
      ([], []) = (([], [''/bin/pwd -P'', ''/bin/rm /b'']), Inr r) \<and>
    overall (exit_summary 0 @ newline) r"
proof -
  let ?ts = "[(''pwd'', CMD), (''||'', CTL), (''pwd'', CMD), ('';'', CTL), (''rm'', CMD), (''/b'', PTH)]"
  have ok: "file_command ?ts = Inr ?ts" by code_simp
  have run: "run_program (guarded_runner example_machine scripted on_terminal protecting_rules [])
      (([], []), True) (parse ?ts) = ((([], [''/bin/pwd -P'', ''/bin/rm /b'']), True), 0)"
    by code_simp
  from chain_runs_program[OF ok, where m = example_machine and tm = scripted and c = on_terminal
      and ctx = protecting_rules and base = "[]" and w = "([], [])" and tr = DEFAULT]
  show ?thesis unfolding run by (auto simp del: append.simps split: prod.splits)
qed

text \<open>
  C6. A command runs only when every location it needs is permitted and every prompt for it was
  answered affirmatively: otherwise the step is the same for every executable lookup and every
  process execution, since none is started.
\<close>

theorem unapproved_command_is_not_run:
  assumes "prepare_step m execution base w = Inr resolved"
    and "\<not> (policy_permits ctx (rfc_items resolved) w \<and>
          (\<exists>w1. asked_and_approved tm c ctx (rfc_items resolved) w w1))"
  shows "chain_step (m\<lparr>run_process := rp, require_executable := re\<rparr>) tm c ctx tr base execution w =
    chain_step m tm c ctx tr base execution w"
proof -
  let ?m = "m\<lparr>run_process := rp, require_executable := re\<rparr>"
  let ?q = "(rfc_original_input resolved, rfc_items resolved)"
  let ?authorize = "\<lambda>q h. guard_items tm c (snd q) (fst q) ctx h"
  let ?run = "\<lambda>m guarded h. apsnd Inr (execute_file_command m tr guarded h)"
  have prepared: "prepare_step ?m execution base w = Inr resolved" using assms(1) by simp
  have "guarded_step (?authorize ?q) is_allowed (?run ?m) (?run ?m) w =
      guarded_step (?authorize ?q) is_allowed (?run ?m) (?run m) w"
    by (rule guarded_step_fallback) (simp add: denied_execution)
  also have "\<dots> = guarded_step (?authorize ?q) is_allowed (?run m) (?run m) w"
  proof (cases "policy_permits ctx (rfc_items resolved) w")
    case True
    with assms(2) have "\<nexists>w1. asked_and_approved tm c ctx (snd ?q) w w1" by simp
    then show ?thesis by (rule guard.effect_needs_approval)
  next
    case False
    then have "\<not> policy_permits ctx (snd ?q) w" by simp
    then show ?thesis by (rule guard.effect_needs_permission)
  qed
  finally show ?thesis
    unfolding chain_step_guarded[OF prepared] chain_step_guarded[OF assms(1)] .
qed

theorem unapproved_command_is_not_run_witness:
  "chain_step (example_machine\<lparr>run_process := \<lambda>args dir input world. (([], []), TimeoutExpired),
      require_executable := \<lambda>name world. NotFound\<rparr>) scripted on_terminal protecting_rules DEFAULT []
      (initial_execution (remove_tokens ''/a/x.py'')) ([], []) =
    chain_step example_machine scripted on_terminal protecting_rules DEFAULT []
      (initial_execution (remove_tokens ''/a/x.py'')) ([], [])"
proof -
  have "case prepare_step example_machine (initial_execution (remove_tokens ''/a/x.py'')) [] ([], []) of
      Inl e \<Rightarrow> False
    | Inr r \<Rightarrow> \<not> policy_permits protecting_rules (rfc_items r) ([] :: string list, [] :: string list)"
    by code_simp
  then obtain r where r: "prepare_step example_machine (initial_execution (remove_tokens ''/a/x.py''))
      [] ([], []) = Inr r" "\<not> policy_permits protecting_rules (rfc_items r) ([] :: string list, [] :: string list)"
    by (auto split: sum.splits)
  show ?thesis
    by (rule unapproved_command_is_not_run[OF r(1)]) (simp add: r(2))
qed

text \<open>
  Whatever the commands print and however long the permission transcript grows, the report
  returned to the agent never exceeds \<open>LIGHT_MAX_CHARS\<close>, for exit statuses of a machine word.
\<close>

theorem report_is_bounded:
  assumes "machine_statuses m" and "run_file_command m tm c ctx tr base tokens w = (w', Inr r)"
  shows "length (report_value r) \<le> LIGHT_MAX_CHARS"
  by (rule run_chain_bounds[OF assms(1) _ assms(2)[unfolded run_file_command_def]])
    (simp add: initial_execution_def)

theorem report_is_bounded_witness:
  "\<exists>w' r. run_file_command example_machine scripted on_terminal protecting_rules DEFAULT []
      (remove_tokens ''/a/x.py'') ([], []) = (w', Inr r) \<and> length (report_value r) \<le> LIGHT_MAX_CHARS"
proof -
  have statuses: "machine_statuses example_machine"
    by (auto simp: machine_statuses_def example_machine_def split: prod.splits)
  have "case snd (run_file_command example_machine scripted on_terminal protecting_rules DEFAULT []
      (remove_tokens ''/a/x.py'') ([], [])) of Inr r \<Rightarrow> True | Inl e \<Rightarrow> False"
    by code_simp
  then obtain w' r where run: "run_file_command example_machine scripted on_terminal protecting_rules
      DEFAULT [] (remove_tokens ''/a/x.py'') ([], []) = (w', Inr r)"
    by (cases "run_file_command example_machine scripted on_terminal protecting_rules DEFAULT []
      (remove_tokens ''/a/x.py'') ([], [])") (auto split: sum.splits)
  from run report_is_bounded[OF statuses run] show ?thesis by (intro exI conjI)
qed

text \<open>
  A deny rule can be written around: the entry that \<open>/a/**\<close> protects from deletion is
  guarded under another name when its path starts with two slashes, which
  \<open>os.path.abspath\<close> keeps, and \<open>rm\<close> is then run on the same file.
\<close>

theorem double_slash_escapes_deny_rule:
  "lstat example_tree (path_div [] ''//a/x.py'') = lstat example_tree (path_div [] ''/a/x.py'') \<and>
   fst (run_file_command example_machine scripted on_terminal protecting_rules DEFAULT []
      (remove_tokens ''/a/x.py'') ([], [])) = ([], []) \<and>
   fst (run_file_command example_machine scripted on_terminal protecting_rules DEFAULT []
      (remove_tokens ''//a/x.py'') ([], [])) = ([], [''/bin/rm //a/x.py''])"
proof (intro conjI)
  show "lstat example_tree (path_div [] ''//a/x.py'') = lstat example_tree (path_div [] ''/a/x.py'')"
    by code_simp
  show "fst (run_file_command example_machine scripted on_terminal protecting_rules DEFAULT []
      (remove_tokens ''/a/x.py'') ([], [])) = ([], [])" by code_simp
  show "fst (run_file_command example_machine scripted on_terminal protecting_rules DEFAULT []
      (remove_tokens ''//a/x.py'') ([], [])) = ([], [''/bin/rm //a/x.py''])" by code_simp
qed

end
