(* ===== verification/Roboz_Pipe.thy ===== *)
theory Roboz_Pipe
  imports Roboz_Messages
begin

text \<open>
  The per-agent event pipe of \<open>runtime/pipe.py\<close> with the events of \<open>runtime/events.py\<close>, the
  kinds of \<open>runtime/observability.py\<close> and the control signals of \<open>runtime/_external.py\<close>. The
  rest of the process is a state of any type \<open>'w\<close>. A sink is a number looked up in \<open>deliver\<close>,
  which may raise; \<open>new_uuid\<close> is \<open>uuid4\<close>. Other threads request cancellation and interruption
  at any time: \<open>arrivals\<close> gives the requests made by the time a signal is looked at.
\<close>

section \<open>Events\<close>

text \<open>The exceptions the runtime tells apart; \<open>ProviderRequest True\<close> is a content filter's.\<close>

datatype exn =
    StopAgent
  | KeyboardInterrupt
  | ExternalCallCancelled string
  | ExternalCallInterrupted string
  | ExternalCallTimeout string
  | ProviderRequest bool
  | ImageInputError
  | OtherException string

datatype run_status = RUNNING | COMPLETED | FAILED | CANCELLED

datatype event_category = LLM | TOOL

datatype event_kind =
    EvStarted | EvRetrying | EvSucceeded
  | EvFailed | EvTimedOut | EvCancelled | EvInterrupted
  | ImagesOmitted

datatype event_level = LevelDebug | LevelInfo | LevelWarning | LevelError

fun logging_level :: "event_level \<Rightarrow> nat" where
  "logging_level LevelDebug = 10"
| "logging_level LevelInfo = 20"
| "logging_level LevelWarning = 30"
| "logging_level LevelError = 40"

text \<open>\<open>ObservedFailure\<close>: a failure kind with the level it is reported at.\<close>

record observed_failure =
  of_kind :: event_kind
  of_level :: event_level

definition failure_for :: "exn \<Rightarrow> observed_failure" where
  "failure_for e =
     (case e of
        ProviderRequest _ \<Rightarrow> \<lparr>of_kind = EvFailed, of_level = LevelWarning\<rparr>
      | ExternalCallInterrupted _ \<Rightarrow> \<lparr>of_kind = EvInterrupted, of_level = LevelWarning\<rparr>
      | KeyboardInterrupt \<Rightarrow> \<lparr>of_kind = EvInterrupted, of_level = LevelWarning\<rparr>
      | ExternalCallCancelled _ \<Rightarrow> \<lparr>of_kind = EvCancelled, of_level = LevelWarning\<rparr>
      | _ \<Rightarrow> \<lparr>of_kind = EvFailed, of_level = LevelError\<rparr>)"

datatype lifecycle_kind = Started | Stopped

record endpoint_info =
  api_name :: "string option"
  model_name :: "string option"
  max_context_tokens :: "int option"
  temperature :: "string option"
  output_format :: "string option"

record run_lifecycle =
  lc_kind :: lifecycle_kind
  lc_agent_name :: string
  lc_sequence :: nat
  lc_agent_description :: "string option"
  lc_parent_agent_name :: "string option"
  lc_status :: "run_status option"
  lc_endpoint :: endpoint_info

record message_delta =
  md_message_id :: string
  md_delta :: string
  md_chunk_index :: nat
  md_agent_name :: string
  md_sequence :: nat

record runtime_event =
  re_category :: event_category
  re_kind :: event_kind
  re_level :: event_level
  re_message :: string
  re_sequence :: nat
  re_agent_name :: string
  re_data :: "(string \<times> string) list"

datatype pipe_event =
    MessageEvent message nat "string option"
  | RunLifecycleEvent run_lifecycle
  | ScriptOutputEvent string nat
  | MessageDeltaEvent message_delta
  | RuntimeEvent runtime_event

fun event_sequence :: "pipe_event \<Rightarrow> nat" where
  "event_sequence (MessageEvent m n i) = n"
| "event_sequence (RunLifecycleEvent l) = lc_sequence l"
| "event_sequence (ScriptOutputEvent s n) = n"
| "event_sequence (MessageDeltaEvent d) = md_sequence d"
| "event_sequence (RuntimeEvent e) = re_sequence e"

section \<open>The pipe\<close>

datatype control_request = CancelRequest | InterruptRequest

record 'w environment =
  deliver :: "nat \<Rightarrow> pipe_event \<Rightarrow> 'w \<Rightarrow> 'w \<times> exn option"
  new_uuid :: "'w \<Rightarrow> 'w \<times> string"
  arrivals :: "'w \<Rightarrow> 'w \<times> control_request list"

record 'w pipe =
  dry_run :: bool
  sinks :: "nat list"
  current_agent_name :: string
  current_agent_description :: "string option"
  current_endpoint :: endpoint_info
  sequence :: nat
  current_message_id :: "string option"
  current_message_chunk_index :: nat
  image_omission :: "(string \<times> string) option"
  cancel_signal :: bool
  interrupt_signal :: bool
  outside :: 'w

definition no_endpoint :: endpoint_info where
  "no_endpoint = \<lparr>api_name = None, model_name = None, max_context_tokens = None,
     temperature = None, output_format = None\<rparr>"

definition event_pipe :: "nat list \<Rightarrow> 'w \<Rightarrow> 'w pipe" where
  "event_pipe event_sinks w =
     \<lparr>dry_run = False, sinks = event_sinks, current_agent_name = ''unknown'',
      current_agent_description = None, current_endpoint = no_endpoint, sequence = 0,
      current_message_id = None, current_message_chunk_index = 0, image_omission = None,
      cancel_signal = False, interrupt_signal = False, outside = w\<rparr>"

fun deliver_all :: "'w environment \<Rightarrow> pipe_event \<Rightarrow> nat list \<Rightarrow> 'w \<Rightarrow> 'w \<times> exn option" where
  "deliver_all env event [] w = (w, None)"
| "deliver_all env event (s # ss) w =
     (case deliver env s event w of
        (w', Some e) \<Rightarrow> (w', Some e)
      | (w', None) \<Rightarrow> deliver_all env event ss w')"

definition emit :: "'w environment \<Rightarrow> pipe_event \<Rightarrow> 'w pipe \<Rightarrow> 'w pipe \<times> (exn + unit)" where
  "emit env event p =
     (case deliver_all env event (sinks p) (outside p) of
        (w', None) \<Rightarrow> (p\<lparr>outside := w'\<rparr>, Inr ())
      | (w', Some e) \<Rightarrow> (p\<lparr>outside := w'\<rparr>, Inl e))"

definition advance :: "'w pipe \<Rightarrow> 'w pipe" where
  "advance p = p\<lparr>sequence := Suc (sequence p)\<rparr>"

definition add_sink :: "nat \<Rightarrow> 'w pipe \<Rightarrow> 'w pipe" where
  "add_sink s p = p\<lparr>sinks := sinks p @ [s]\<rparr>"

definition unsubscribe :: "nat \<Rightarrow> 'w pipe \<Rightarrow> 'w pipe" where
  "unsubscribe s p = p\<lparr>sinks := remove1 s (sinks p)\<rparr>"

definition last_of :: "'a list \<Rightarrow> 'a option" where
  "last_of xs = (if xs = [] then None else Some (last xs))"

definition initialize ::
  "'w environment \<Rightarrow> string list \<Rightarrow> bool option \<Rightarrow> string option \<Rightarrow> string option \<Rightarrow> endpoint_info
    \<Rightarrow> 'w pipe \<Rightarrow> 'w pipe \<times> (exn + unit)" where
  "initialize env stack dry name description endpoint p =
     (let p1 = p\<lparr>dry_run := (case dry of None \<Rightarrow> dry_run p | Some d \<Rightarrow> d),
                 current_agent_name := (case name of None \<Rightarrow> ''unknown''
                                        | Some n \<Rightarrow> if n = [] then ''unknown'' else n),
                 current_agent_description := description, sequence := 0,
                 current_endpoint := endpoint, current_message_id := None,
                 current_message_chunk_index := 0, image_omission := None,
                 cancel_signal := False, interrupt_signal := False\<rparr>
      in if dry_run p1 then (p1, Inr ())
         else
           let p2 = advance p1
           in emit env (RunLifecycleEvent
                \<lparr>lc_kind = Started, lc_agent_name = current_agent_name p2,
                 lc_sequence = sequence p2,
                 lc_agent_description = current_agent_description p2,
                 lc_parent_agent_name = last_of stack, lc_status = None,
                 lc_endpoint = current_endpoint p2\<rparr>) p2)"

definition finalize_run ::
  "'w environment \<Rightarrow> string list \<Rightarrow> run_status \<Rightarrow> 'w pipe \<Rightarrow> 'w pipe \<times> (exn + unit)" where
  "finalize_run env stack status p =
     (if dry_run p then (p, Inr ())
      else
        let p1 = advance p
        in emit env (RunLifecycleEvent
             \<lparr>lc_kind = Stopped, lc_agent_name = current_agent_name p1,
              lc_sequence = sequence p1,
              lc_agent_description = current_agent_description p1,
              lc_parent_agent_name =
                (if 2 \<le> length stack then Some (stack ! (length stack - 2)) else None),
              lc_status = Some status, lc_endpoint = current_endpoint p1\<rparr>) p1)"

definition emit_runtime_event ::
  "'w environment \<Rightarrow> event_category \<Rightarrow> event_kind \<Rightarrow> event_level \<Rightarrow> string
    \<Rightarrow> (string \<times> string) list \<Rightarrow> 'w pipe \<Rightarrow> 'w pipe \<times> (exn + unit)" where
  "emit_runtime_event env category kind level text data p =
     (if dry_run p then (p, Inr ())
      else
        let p1 = advance p
        in emit env (RuntimeEvent
             \<lparr>re_category = category, re_kind = kind, re_level = level, re_message = text,
              re_sequence = sequence p1, re_agent_name = current_agent_name p1,
              re_data = data\<rparr>) p1)"

definition omission_text :: "string \<Rightarrow> string" where
  "omission_text model =
     ''Images are omitted for '' @ model @ '' because it cannot read them. '' @
     ''Your conversation text is still available.''"

definition report_image_omission ::
  "'w environment \<Rightarrow> string \<Rightarrow> string \<Rightarrow> bool \<Rightarrow> 'w pipe \<Rightarrow> 'w pipe \<times> (exn + unit)" where
  "report_image_omission env endpoint model omitted p =
     (let selection = (if omitted then Some (endpoint, model) else None);
          previous = image_omission p;
          p1 = p\<lparr>image_omission := selection\<rparr>
      in if selection = None \<or> selection = previous then (p1, Inr ())
         else emit_runtime_event env LLM ImagesOmitted LevelInfo (omission_text model)
                [(''endpoint'', endpoint), (''model'', model)] p1)"

definition start_message :: "'w environment \<Rightarrow> 'w pipe \<Rightarrow> 'w pipe \<times> string" where
  "start_message env p =
     (case new_uuid env (outside p) of
        (w', uuid) \<Rightarrow>
          (p\<lparr>outside := w', current_message_id := Some uuid, current_message_chunk_index := 0\<rparr>, uuid))"

definition emit_message :: "'w environment \<Rightarrow> message \<Rightarrow> 'w pipe \<Rightarrow> 'w pipe \<times> (exn + unit)" where
  "emit_message env m p =
     (let p1 = advance p;
          p2 = (if current_message_id p1 = None then p1
                else p1\<lparr>current_message_id := None, current_message_chunk_index := 0\<rparr>)
      in emit env (MessageEvent m (sequence p2) (current_message_id p1)) p2)"

definition emit_message_delta :: "'w environment \<Rightarrow> string \<Rightarrow> 'w pipe \<Rightarrow> 'w pipe \<times> (exn + unit)" where
  "emit_message_delta env delta p =
     (if dry_run p \<or> delta = [] then (p, Inr ())
      else
        let p1 = (if current_message_id p = None then fst (start_message env p) else p);
            p2 = advance (p1\<lparr>current_message_chunk_index := Suc (current_message_chunk_index p1)\<rparr>)
        in emit env (MessageDeltaEvent
             \<lparr>md_message_id = the (current_message_id p2), md_delta = delta,
              md_chunk_index = current_message_chunk_index p2,
              md_agent_name = current_agent_name p2, md_sequence = sequence p2\<rparr>) p2)"

definition emit_script_output :: "'w environment \<Rightarrow> string \<Rightarrow> 'w pipe \<Rightarrow> 'w pipe \<times> (exn + unit)" where
  "emit_script_output env text p =
     (let p1 = advance p in emit env (ScriptOutputEvent text (sequence p1)) p1)"

section \<open>Control signals\<close>

definition cancel :: "'w pipe \<Rightarrow> 'w pipe" where
  "cancel p = p\<lparr>cancel_signal := True\<rparr>"

definition interrupt :: "'w pipe \<Rightarrow> 'w pipe" where
  "interrupt p = p\<lparr>interrupt_signal := True\<rparr>"

definition clear_interrupt :: "'w pipe \<Rightarrow> 'w pipe" where
  "clear_interrupt p = p\<lparr>interrupt_signal := False\<rparr>"

fun request :: "control_request \<Rightarrow> 'w pipe \<Rightarrow> 'w pipe" where
  "request CancelRequest p = cancel p"
| "request InterruptRequest p = interrupt p"

definition observe :: "'w environment \<Rightarrow> 'w pipe \<Rightarrow> 'w pipe" where
  "observe env p =
     (case arrivals env (outside p) of (w', reqs) \<Rightarrow> fold request reqs (p\<lparr>outside := w'\<rparr>))"

definition raise_if_cancelled :: "'w environment \<Rightarrow> 'w pipe \<Rightarrow> 'w pipe \<times> (exn + unit)" where
  "raise_if_cancelled env p =
     (let p1 = observe env p
      in (p1, if cancel_signal p1 then Inl (ExternalCallCancelled ''External call cancelled'')
              else Inr ()))"

definition raise_if_interrupted :: "'w environment \<Rightarrow> 'w pipe \<Rightarrow> 'w pipe \<times> (exn + unit)" where
  "raise_if_interrupted env p =
     (let p1 = observe env p
      in (p1, if interrupt_signal p1 then Inl (ExternalCallInterrupted ''External call interrupted'')
              else Inr ()))"

section \<open>Numbering\<close>

text \<open>The operations of a run after \<open>initialize\<close>, and an environment that keeps a record.\<close>

datatype pipe_operation =
    OpMessage message
  | OpDelta string
  | OpScript string
  | OpRuntime event_category event_kind event_level string "(string \<times> string) list"
  | OpOmission string string bool
  | OpStartMessage
  | OpCancel | OpInterrupt | OpClearInterrupt
  | OpFinalize "string list" run_status

fun apply_operation :: "'w environment \<Rightarrow> pipe_operation \<Rightarrow> 'w pipe \<Rightarrow> 'w pipe" where
  "apply_operation env (OpMessage m) p = fst (emit_message env m p)"
| "apply_operation env (OpDelta d) p = fst (emit_message_delta env d p)"
| "apply_operation env (OpScript s) p = fst (emit_script_output env s p)"
| "apply_operation env (OpRuntime c k l t d) p = fst (emit_runtime_event env c k l t d p)"
| "apply_operation env (OpOmission e m b) p = fst (report_image_omission env e m b p)"
| "apply_operation env OpStartMessage p = fst (start_message env p)"
| "apply_operation env OpCancel p = cancel p"
| "apply_operation env OpInterrupt p = interrupt p"
| "apply_operation env OpClearInterrupt p = clear_interrupt p"
| "apply_operation env (OpFinalize stack status) p = fst (finalize_run env stack status p)"

definition recording :: "'w environment \<Rightarrow> ((nat \<times> pipe_event) list \<times> 'w) environment" where
  "recording env =
     \<lparr>deliver = (\<lambda>s event (log, w).
        case deliver env s event w of (w', e) \<Rightarrow> ((log @ [(s, event)], w'), e)),
      new_uuid = (\<lambda>(log, w). case new_uuid env w of (w', u) \<Rightarrow> ((log, w'), u)),
      arrivals = (\<lambda>(log, w). case arrivals env w of (w', r) \<Rightarrow> ((log, w'), r))\<rparr>"

definition received :: "nat \<Rightarrow> ((nat \<times> pipe_event) list \<times> 'w) pipe \<Rightarrow> pipe_event list" where
  "received s p = map snd (filter (\<lambda>x. fst x = s) (fst (outside p)))"

lemma deliver_recording:
  assumes "s \<notin> set ss"
  shows "filter (\<lambda>x. fst x = s) (fst (fst (deliver_all (recording env) event ss (log, w)))) =
    filter (\<lambda>x. fst x = s) log"
  using assms
  by (induction ss arbitrary: log w)
    (auto simp: recording_def split: prod.splits option.splits)

lemma emit_received:
  assumes "sinks p = s # ss" and "s \<notin> set ss"
  shows "received s (fst (emit (recording env) event p)) = received s p @ [event]"
proof -
  obtain log w where out: "outside p = (log, w)" by fastforce
  obtain w' e where d: "deliver env s event w = (w', e)" by fastforce
  have "filter (\<lambda>x. fst x = s) (fst (fst (deliver_all (recording env) event (s # ss) (log, w)))) =
      filter (\<lambda>x. fst x = s) log @ [(s, event)]"
    using d deliver_recording[OF assms(2), of env event "log @ [(s, event)]" w']
    by (auto simp: recording_def split: option.splits)
  with assms out show ?thesis
    by (auto simp: emit_def received_def split: prod.splits option.splits)
qed

lemma emit_frame [simp]:
  "sinks (fst (emit env event p)) = sinks p" "dry_run (fst (emit env event p)) = dry_run p"
  by (simp_all add: emit_def split: prod.split option.split)

text \<open>A sink may raise on an event: the emission then fails with what it raised.\<close>

definition sink_raised :: "'w environment \<Rightarrow> nat \<Rightarrow> ((nat \<times> pipe_event) list \<times> 'w) pipe \<Rightarrow> exn \<Rightarrow> bool" where
  "sink_raised env s p x \<longleftrightarrow>
     (\<exists>pre event t w. received s p = pre @ [event] \<and> t \<in> set (sinks p) \<and> snd (deliver env t event w) = Some x)"

lemma deliver_all_raises:
  "deliver_all env event ss w = (w', Some x) \<Longrightarrow> \<exists>t \<in> set ss. \<exists>v. snd (deliver env t event v) = Some x"
proof (induction ss arbitrary: w)
  case (Cons t ss)
  show ?case
  proof (cases "snd (deliver env t event w)")
    case None
    with Cons.prems obtain v where "deliver_all env event ss v = (w', Some x)"
      by (auto split: prod.splits)
    from Cons.IH[OF this] show ?thesis by auto
  next
    case (Some y)
    with Cons.prems show ?thesis by (auto split: prod.splits intro!: exI[of _ w])
  qed
qed simp

lemma emit_refused:
  assumes "sinks p = s # ss" and "s \<notin> set ss" and "emit (recording env) event p = (p', Inl x)"
  shows "sink_raised env s p' x"
proof -
  have "received s p' = received s p @ [event]" "sinks p' = sinks p"
    using emit_received[OF assms(1,2), of env event] emit_frame(1)[of "recording env" event p] assms(3)
    by simp_all
  moreover obtain t v where "t \<in> set (sinks p)" "snd (deliver (recording env) t event v) = Some x"
    using assms(3) deliver_all_raises[of "recording env" event "sinks p" "outside p"]
    by (auto simp: emit_def split: prod.splits option.splits)
  moreover have "snd (deliver (recording env) t event v) = snd (deliver env t event (snd v))"
    by (simp add: recording_def split: prod.split)
  ultimately show ?thesis unfolding sink_raised_def by metis
qed

definition numbered :: "nat \<Rightarrow> ((nat \<times> pipe_event) list \<times> 'w) pipe \<Rightarrow> nat \<Rightarrow> bool" where
  "numbered s p n \<longleftrightarrow>
     \<not> dry_run p \<and> sinks p \<noteq> [] \<and> hd (sinks p) = s \<and> s \<notin> set (tl (sinks p)) \<and>
     map event_sequence (received s p) = [1..<Suc n]"

lemma emit_numbered:
  assumes "numbered s p n" and "event_sequence event = Suc n"
  shows "numbered s (fst (emit (recording env) event p)) (Suc n) \<and>
    sequence (fst (emit (recording env) event p)) = sequence p"
proof -
  obtain ss where ss: "sinks p = s # ss" "s \<notin> set ss"
    using assms(1) by (cases "sinks p") (auto simp: numbered_def)
  obtain log w where out: "outside p = (log, w)" by fastforce
  obtain w' e where d: "deliver env s event w = (w', e)" by fastforce
  have "filter (\<lambda>x. fst x = s) (fst (fst (deliver_all (recording env) event (s # ss) (log, w)))) =
      filter (\<lambda>x. fst x = s) log @ [(s, event)]"
    using d deliver_recording[OF ss(2), of env event "log @ [(s, event)]" w']
    by (auto simp: recording_def split: option.splits)
  with assms ss out show ?thesis
    by (auto simp: emit_def numbered_def received_def split: prod.splits option.splits)
qed

lemma numbered_update:
  "numbered s (advance p) n = numbered s p n"
  "numbered s (p\<lparr>image_omission := x\<rparr>) n = numbered s p n"
  "numbered s (p\<lparr>current_message_id := i, current_message_chunk_index := k\<rparr>) n = numbered s p n"
  "numbered s (p\<lparr>current_message_chunk_index := k\<rparr>) n = numbered s p n"
  "numbered s (p\<lparr>current_message_id := i\<rparr>) n = numbered s p n"
  "numbered s (cancel p) n = numbered s p n"
  "numbered s (interrupt p) n = numbered s p n"
  "numbered s (clear_interrupt p) n = numbered s p n"
  by (simp_all add: numbered_def received_def advance_def cancel_def interrupt_def clear_interrupt_def)

lemma start_message_numbered:
  "numbered s p n \<Longrightarrow> numbered s (fst (start_message (recording env) p)) n"
  "sequence (fst (start_message (recording env) p)) = sequence p"
  by (auto simp: numbered_def received_def start_message_def recording_def split: prod.splits)

lemma sequence_update [simp]:
  "sequence (advance p) = Suc (sequence p)"
  "sequence (cancel p) = sequence p"
  "sequence (interrupt p) = sequence p"
  "sequence (clear_interrupt p) = sequence p"
  by (simp_all add: advance_def cancel_def interrupt_def clear_interrupt_def)

lemma apply_operation_numbered:
  assumes "numbered s p (sequence p)"
  shows "numbered s (apply_operation (recording env) op p)
    (sequence (apply_operation (recording env) op p))"
proof -
  have live: "\<not> dry_run p" using assms by (simp add: numbered_def)
  have emitted: "numbered s (fst (emit (recording env) event q))
      (sequence (fst (emit (recording env) event q)))"
    if "numbered s q (sequence p)" "sequence q = Suc (sequence p)" "event_sequence event = sequence q"
    for event q
    using emit_numbered[of s q "sequence p" event env] that by simp
  have runtime: "numbered s (fst (emit_runtime_event (recording env) c k l t d q))
      (sequence (fst (emit_runtime_event (recording env) c k l t d q)))"
    if "numbered s q (sequence p)" "sequence q = sequence p" for c k l t d q
  proof -
    have "\<not> dry_run q" using that(1) by (simp add: numbered_def)
    with that show ?thesis
      by (auto simp: emit_runtime_event_def Let_def numbered_update intro!: emitted)
  qed
  show ?thesis
  proof (cases op)
    case (OpDelta d)
    let ?q = "if current_message_id p = None then fst (start_message (recording env) p) else p"
    have "numbered s ?q (sequence p)" "sequence ?q = sequence p"
      using assms start_message_numbered by auto
    then show ?thesis
      using OpDelta live assms
      by (auto simp: emit_message_delta_def Let_def numbered_update simp del: if_split_asm
          intro!: emitted)
  next
    case (OpMessage m)
    then show ?thesis
      using assms by (auto simp: emit_message_def Let_def numbered_update intro!: emitted)
  next
    case (OpOmission e m b)
    then show ?thesis
      using assms
      by (auto simp: report_image_omission_def Let_def numbered_update intro!: runtime)
  next
    case (OpFinalize stack status)
    then show ?thesis
      using assms live by (auto simp: finalize_run_def Let_def numbered_update intro!: emitted)
  next
    case (OpScript t)
    then show ?thesis
      using assms by (auto simp: emit_script_output_def Let_def numbered_update intro!: emitted)
  qed (use assms runtime in \<open>auto simp: numbered_update start_message_numbered\<close>)
qed

section \<open>Properties\<close>

text \<open>
  C14. A sink that is attached first receives, in every run, events numbered 1, 2, 3 and so on
  without a gap, whatever operations the run performs, in whatever order, and whichever sinks
  raise: the start of the run is number 1 and the pipe's counter is the last number delivered.
\<close>

theorem events_are_numbered:
  assumes "s \<notin> set ss"
  shows "let p0 = fst (initialize (recording env) stack (Some False) name description endpoint
               (event_pipe (s # ss) ([], w)));
             p = fold (apply_operation (recording env)) ops p0
         in map event_sequence (received s p) = [1..<Suc (sequence p)]"
proof -
  let ?p0 = "fst (initialize (recording env) stack (Some False) name description endpoint
      (event_pipe (s # ss) ([], w)))"
  have start: "numbered s ?p0 (sequence ?p0)"
  proof -
    let ?q = "(event_pipe (s # ss) ([], w))\<lparr>dry_run := False, sequence := 0,
        current_agent_name := (case name of None \<Rightarrow> ''unknown''
                               | Some n \<Rightarrow> if n = [] then ''unknown'' else n),
        current_agent_description := description, current_endpoint := endpoint,
        current_message_id := None, current_message_chunk_index := 0, image_omission := None,
        cancel_signal := False, interrupt_signal := False\<rparr>"
    have q: "numbered s (advance ?q) 0"
      using assms by (simp add: numbered_update) (simp add: numbered_def event_pipe_def received_def)
    define event where "event = RunLifecycleEvent
        \<lparr>lc_kind = Started, lc_agent_name = current_agent_name (advance ?q), lc_sequence = Suc 0,
         lc_agent_description = current_agent_description (advance ?q),
         lc_parent_agent_name = last_of stack, lc_status = None,
         lc_endpoint = current_endpoint (advance ?q)\<rparr>"
    have p0: "?p0 = fst (emit (recording env) event (advance ?q))"
      by (simp add: initialize_def Let_def event_pipe_def advance_def event_def)
    have "sequence (advance ?q) = Suc 0" "event_sequence event = Suc 0"
      by (simp_all add: event_def)
    with emit_numbered[OF q, of event env] show ?thesis unfolding p0 by simp
  qed
  have "numbered s (fold (apply_operation (recording env)) ops p)
      (sequence (fold (apply_operation (recording env)) ops p))"
    if "numbered s p (sequence p)" for p
    using that by (induction ops arbitrary: p) (auto intro: apply_operation_numbered)
  from this[OF start] show ?thesis by (simp add: numbered_def Let_def)
qed

definition quiet_environment :: "nat environment" where
  "quiet_environment =
     \<lparr>deliver = (\<lambda>s event w. (Suc w, if s = 2 then Some (OtherException ''disk full'') else None)),
      new_uuid = (\<lambda>w. (Suc w, show_int (int w))), arrivals = (\<lambda>w. (w, []))\<rparr>"

theorem events_are_numbered_witness:
  "map event_sequence (received 1 (fold (apply_operation (recording quiet_environment))
      [OpDelta ''par'', OpDelta ''tial'', OpCancel, OpOmission ''e'' ''m'' True, OpFinalize [] CANCELLED]
      (fst (initialize (recording quiet_environment) [] (Some False) None None no_endpoint
        (event_pipe [1, 2] ([], 0)))))) = [1, 2, 3, 4, 5]"
proof -
  let ?p = "fold (apply_operation (recording quiet_environment))
      [OpDelta ''par'', OpDelta ''tial'', OpCancel, OpOmission ''e'' ''m'' True, OpFinalize [] CANCELLED]
      (fst (initialize (recording quiet_environment) [] (Some False) None None no_endpoint
        (event_pipe [1, 2] ([], 0))))"
  have "sequence ?p = 5" by code_simp
  moreover have "(1::nat) \<notin> set [2]" by simp
  ultimately show ?thesis
    using events_are_numbered[of 1 "[2]" quiet_environment "[]" None None no_endpoint 0
      "[OpDelta ''par'', OpDelta ''tial'', OpCancel, OpOmission ''e'' ''m'' True, OpFinalize [] CANCELLED]"]
    by (simp add: Let_def upt_rec)
qed

end
