(* ===== verification/Roboz_Tooling.thy ===== *)
theory Roboz_Tooling
  imports Roboz_Pipe Roboz_UserIO
begin

text \<open>
  Tools (\<open>tooling/core.py\<close>, \<open>_naming.py\<close>, \<open>tools/control.py\<close>), the values that travel between
  them (\<open>models/core.py\<close>), the message made of a value (\<open>models/_serialization.py\<close>) and the
  observed call of a tool (\<open>agent/_tool_observer.py\<close>). A Python class is its name with the
  names of its bases. A value is its class, its payload fields in order (of any type \<open>'v\<close>) and
  its runtime metadata; the pydantic constructor of an input model is a function of the tool.
  Provider telemetry on values is left out.
\<close>

section \<open>Types and values\<close>

record model_type =
  mt_name :: string
  mt_bases :: "string list"

definition issubclass :: "model_type \<Rightarrow> string \<Rightarrow> bool" where
  "issubclass t name \<longleftrightarrow> mt_name t = name \<or> name \<in> set (mt_bases t)"

definition EMPTY :: string where "EMPTY = ''Empty''"
definition INVOKE :: string where "INVOKE = ''Invoke''"
definition STOP :: string where "STOP = ''Stop''"

record 'v tool_value =
  tv_type :: model_type
  tv_fields :: "(string \<times> 'v) list"
  tv_images :: "string list"
  tv_truncation :: truncation_spec
  tv_kind :: "message_kind option"

text \<open>\<open>Invoke | Empty | Stop\<close>; an invocation carries its action.\<close>

datatype 'v tool_output =
    InvokeOut string "'v tool_value"
  | DataOut "'v tool_value"
  | StopOut "'v tool_value"

fun value_of :: "'v tool_output \<Rightarrow> 'v tool_value" where
  "value_of (InvokeOut action v) = v"
| "value_of (DataOut v) = v"
| "value_of (StopOut v) = v"

fun is_stop :: "'v tool_output \<Rightarrow> bool" where
  "is_stop (StopOut v) = True"
| "is_stop _ = False"

section \<open>Names\<close>

definition name_char :: "char \<Rightarrow> bool" where "name_char c \<longleftrightarrow> is_lower c \<or> is_digit c"

text \<open>\<open>[a-z][a-z0-9]*(?:_[a-z0-9]+)*\<close>: non-empty runs joined by single underscores.\<close>

definition public_name :: "string \<Rightarrow> bool" where
  "public_name name \<longleftrightarrow>
     name \<noteq> [] \<and> is_lower (hd name) \<and>
     list_all (\<lambda>part. part \<noteq> [] \<and> list_all name_char part) (split_on (CHR ''_'') name)"

definition validate_public_name :: "string \<Rightarrow> exn + string" where
  "validate_public_name name =
     (if public_name name then Inr name
      else Inl (OtherException ''name must be lowercase ASCII snake_case''))"

section \<open>Tools\<close>

text \<open>What an invocation binds in the context variables of its thread.\<close>

record 'w execution_context =
  ec_interaction :: "'w interaction"
  ec_agent_stack :: "string list"
  ec_agent_endpoint :: "string option option"

text \<open>\<open>chained_to\<close> is the ids of the parents; \<open>t_object\<close> is the identity of the Python object.\<close>

record ('w, 'v) tool =
  t_object :: nat
  t_id :: string
  t_name :: string
  t_input :: model_type
  t_fields :: "string list"
  t_outputs :: "model_type list"
  t_description :: string
  t_chained_to :: "string list option"
  t_condition :: "'v tool_output \<Rightarrow> bool"
  t_validate :: "(string \<times> 'v) list \<Rightarrow> truncation_spec \<Rightarrow> message_kind option \<Rightarrow> exn + 'v tool_value"
  t_caller :: "'v tool_value \<Rightarrow> message list \<Rightarrow> 'w execution_context \<Rightarrow> 'w pipe
    \<Rightarrow> ('w pipe \<times> message list) \<times> (exn + 'v tool_output)"

text \<open>\<open>if t.chained_to\<close>: neither \<open>None\<close> nor the empty list.\<close>

definition is_chained :: "('w, 'v) tool \<Rightarrow> bool" where
  "is_chained t \<longleftrightarrow> (case t_chained_to t of None \<Rightarrow> False | Some ids \<Rightarrow> ids \<noteq> [])"

definition chain ::
  "string list option \<Rightarrow> ('v tool_output \<Rightarrow> bool) option \<Rightarrow> ('w, 'v) tool \<Rightarrow> ('w, 'v) tool" where
  "chain parents condition t =
     (let t1 = t\<lparr>t_chained_to :=
            (case parents of
               None \<Rightarrow> None
             | Some ids \<Rightarrow> Some ((case t_chained_to t of None \<Rightarrow> [] | Some old \<Rightarrow> old) @ ids))\<rparr>
      in case condition of None \<Rightarrow> t1 | Some c \<Rightarrow> t1\<lparr>t_condition := c\<rparr>)"

text \<open>The copy is a new object with a new id.\<close>

definition copy_tool ::
  "nat \<Rightarrow> string \<Rightarrow> string option \<Rightarrow> string list option \<Rightarrow> ('v tool_output \<Rightarrow> bool) option \<Rightarrow> string
    \<Rightarrow> ('w, 'v) tool \<Rightarrow> exn + ('w, 'v) tool" where
  "copy_tool object uuid name parents condition description t =
     (let given = (case parents of None \<Rightarrow> False | Some ids \<Rightarrow> ids \<noteq> []);
          fresh = chain (if given then parents else t_chained_to t)
                    (Some (case condition of None \<Rightarrow> t_condition t | Some c \<Rightarrow> c))
                    (t\<lparr>t_object := object, t_id := uuid, t_chained_to := None,
                       t_description := (if description = [] then t_description t else description)\<rparr>)
      in rbind (validate_public_name (case name of None \<Rightarrow> t_name t | Some n \<Rightarrow> n))
           (\<lambda>n. Inr (fresh\<lparr>t_name := n\<rparr>)))"

definition get_tool_signature :: "('w, 'v) tool \<Rightarrow> exn + (model_type \<times> model_type list)" where
  "get_tool_signature t =
     (if \<not> issubclass (t_input t) EMPTY then Inl (OtherException ''input must be subclass of Empty'')
      else if \<not> list_all (\<lambda>o1. issubclass o1 EMPTY \<or> issubclass o1 INVOKE \<or> issubclass o1 STOP) (t_outputs t)
        then Inl (OtherException ''output must be subclass of Empty, Invoke or Stop'')
      else Inr (t_input t, t_outputs t))"

text \<open>\<open>Tool.to_tool_list\<close>: an item is a tool or a sequence of tools.\<close>

definition to_tool_list ::
  "(('w, 'v) tool + ('w, 'v) tool list) list option \<Rightarrow> ('w, 'v) tool list" where
  "to_tool_list items =
     (case items of
        None \<Rightarrow> []
      | Some xs \<Rightarrow> concat (map (\<lambda>item. case item of Inl t \<Rightarrow> [t] | Inr ts \<Rightarrow> ts) xs))"

text \<open>\<open>Tool.__call__\<close>: project the fields the input model knows, validate, call.\<close>

definition call_tool ::
  "('w, 'v) tool \<Rightarrow> 'v tool_output \<Rightarrow> message list \<Rightarrow> 'w execution_context \<Rightarrow> 'w pipe
    \<Rightarrow> ('w pipe \<times> message list) \<times> (exn + 'v tool_output)" where
  "call_tool t inp messages c p =
     (let v = value_of inp
      in case t_validate t (filter (\<lambda>kv. fst kv \<in> set (t_fields t)) (tv_fields v))
                (tv_truncation v) (tv_kind v) of
           Inl e \<Rightarrow> ((p, messages), Inl e)
         | Inr reduced \<Rightarrow> t_caller t reduced messages c p)"

section \<open>Messages made of values\<close>

text \<open>\<open>to_json\<close> is pydantic's JSON dump of a field, \<open>now\<close> the clock of a new message.\<close>

definition get_finalized_message ::
  "('v \<Rightarrow> json) \<Rightarrow> string \<Rightarrow> 'v tool_output \<Rightarrow> string option \<Rightarrow> message_kind option \<Rightarrow> message" where
  "get_finalized_message to_json now out caller_name kind =
     (let v = value_of out;
          payload = map (\<lambda>kv. (fst kv, to_json (snd kv))) (tv_fields v);
          kind' = (if kind \<noteq> None then kind else tv_kind v)
      in case out of
           InvokeOut action _ \<Rightarrow>
             \<lparr>msg_role = ASSISTANT, content = dumps False (JObj payload), images = [],
              caller = None, timestamp = now, msg_truncation = tv_truncation v,
              message_kind = kind'\<rparr>
         | _ \<Rightarrow>
             \<lparr>msg_role = USER, content = dumps False (JObj payload), images = tv_images v,
              caller = caller_name, timestamp = now, msg_truncation = tv_truncation v,
              message_kind = kind'\<rparr>)"

section \<open>Observed calls\<close>

definition event_kind_text :: "event_kind \<Rightarrow> string" where
  "event_kind_text k =
     (case k of
        EvStarted \<Rightarrow> ''started'' | EvRetrying \<Rightarrow> ''retrying'' | EvSucceeded \<Rightarrow> ''succeeded''
      | EvFailed \<Rightarrow> ''failed'' | EvTimedOut \<Rightarrow> ''timed_out'' | EvCancelled \<Rightarrow> ''cancelled''
      | EvInterrupted \<Rightarrow> ''interrupted'' | ImagesOmitted \<Rightarrow> ''images_omitted'')"

text \<open>The parameters of a run that are not agent code.\<close>

record ('w, 'v) agent_environment =
  pipe_environment :: "'w environment"
  to_json :: "'v \<Rightarrow> json"
  clock :: "'w \<Rightarrow> string"
  exception_name :: "exn \<Rightarrow> string"

definition emit_tool_event ::
  "('w, 'v, 'x) agent_environment_scheme \<Rightarrow> ('w, 'v) tool \<Rightarrow> event_kind \<Rightarrow> event_level \<Rightarrow> string
    \<Rightarrow> (string \<times> string) list \<Rightarrow> 'w pipe \<Rightarrow> 'w pipe \<times> (exn + unit)" where
  "emit_tool_event env t kind level text data p =
     emit_runtime_event (pipe_environment env) TOOL kind level (text @ '': '' @ t_name t)
       ((''tool'', t_name t) # data) p"

text \<open>
  \<open>ToolInvocationObserver.invoke\<close>; durations and sizes in the event data are left out. A sink
  that raises while a failure is reported replaces the failure.
\<close>

definition invoke_observed ::
  "('w, 'v, 'x) agent_environment_scheme \<Rightarrow> ('w, 'v) tool \<Rightarrow> 'v tool_output \<Rightarrow> message list
    \<Rightarrow> 'w execution_context \<Rightarrow> 'w pipe \<Rightarrow> ('w pipe \<times> message list) \<times> (exn + 'v tool_output)" where
  "invoke_observed env t inp messages c p =
     (case emit_tool_event env t EvStarted LevelInfo ''Tool call started'' [] p of
        (p1, Inl e) \<Rightarrow> ((p1, messages), Inl e)
      | (p1, Inr _) \<Rightarrow>
          (case call_tool t inp messages c p1 of
             ((p2, messages'), Inl e) \<Rightarrow>
               (let failure = failure_for e
                in case emit_tool_event env t (of_kind failure) (of_level failure)
                          (''Tool call '' @ event_kind_text (of_kind failure))
                          [(''error_type'', exception_name env e)] p2 of
                     (p3, Inl e') \<Rightarrow> ((p3, messages'), Inl e')
                   | (p3, Inr _) \<Rightarrow> ((p3, messages'), Inl e))
           | ((p2, messages'), Inr out) \<Rightarrow>
               (case emit_tool_event env t EvSucceeded LevelInfo ''Tool call succeeded''
                       [(''output_type'', mt_name (tv_type (value_of out)))] p2 of
                  (p3, Inl e) \<Rightarrow> ((p3, messages'), Inl e)
                | (p3, Inr _) \<Rightarrow> ((p3, messages'), Inr out))))"

text \<open>An observed call ends as the call itself, when no sink raises.\<close>

lemma invoke_observed_transparent:
  assumes "\<And>k l text data q. snd (emit_tool_event env t k l text data q) = Inr ()"
  shows "\<exists>p1. snd (invoke_observed env t inp messages c p) = snd (call_tool t inp messages c p1)"
proof -
  obtain p1 where p1: "emit_tool_event env t EvStarted LevelInfo ''Tool call started'' [] p = (p1, Inr ())"
    using assms by (metis prod.collapse)
  have "snd (invoke_observed env t inp messages c p) = snd (call_tool t inp messages c p1)"
  proof (cases "call_tool t inp messages c p1")
    case (Pair pm out)
    obtain p2 ms where pm: "pm = (p2, ms)" by (cases pm)
    have emitted: "\<exists>q'. emit_tool_event env t k l s data q = (q', Inr ())" for k l s data q
      using assms by (metis prod.collapse)
    show ?thesis
    proof (cases out)
      case (Inl e)
      with emitted[of "of_kind (failure_for e)" "of_level (failure_for e)"
          "''Tool call '' @ event_kind_text (of_kind (failure_for e))"
          "[(''error_type'', exception_name env e)]" p2] Pair pm p1
      show ?thesis by (auto simp: invoke_observed_def Let_def)
    next
      case (Inr r)
      with emitted[of EvSucceeded LevelInfo "''Tool call succeeded''"
          "[(''output_type'', mt_name (tv_type (value_of r)))]" p2] Pair pm p1
      show ?thesis by (auto simp: invoke_observed_def Let_def)
    qed
  qed
  then show ?thesis by blast
qed

end
