(* ===== verification/Roboz_Agent.thy ===== *)
theory Roboz_Agent
  imports Roboz_Tooling Roboz_Patterns
begin

text \<open>
  The agent runtime of \<open>agent/core.py\<close>: the tool registry and its validation, skill loading
  (\<open>skill/core.py\<close>), selection of the next tool, one step with its error handling, and
  \<open>invoke\<close> with its bindings (\<open>agent/_execution_context.py\<close>). The loop may run forever and
  takes fuel; \<open>None\<close> is a run that has not ended yet. Iteration over a \<open>set\<close> of tools is taken
  in list order. Texts of prompts, endpoint resolution and stored messages are parameters.
\<close>

section \<open>State\<close>

datatype agent_mode = DETERMINISTIC | STEERABLE | AUTONOMOUS

definition allows_user_interaction :: "agent_mode \<Rightarrow> bool" where
  "allows_user_interaction mode \<longleftrightarrow> mode \<noteq> AUTONOMOUS"

record ('w, 'v) skill =
  sk_object :: nat
  sk_name :: string
  sk_tools :: "('w, 'v) tool list"
  sk_depends_on :: "nat option"
  sk_as_tool :: "('w, 'v) tool"

record ('w, 'v) agent =
  a_name :: string
  a_description :: string
  a_mode :: agent_mode
  a_system_prompt :: string
  a_automatic_tool_prompt :: bool
  a_skills :: "(string \<times> ('w, 'v) skill) list"
  a_auto_loaded_skills :: "(string \<times> ('w, 'v) skill) list"
  a_default_tools :: "('w, 'v) tool list"
  a_prompt_user_tool :: "('w, 'v) tool option"
  a_endpoint :: "string option"
  a_initial_messages :: "(path + string) list"
  a_pipe :: "'w pipe"
  a_active_tools :: "(string \<times> ('w, 'v) tool) list"
  a_passive_tools :: "(string \<times> ('w, 'v) tool) list"
  a_messages :: "message list"
  a_loaded_skills :: "nat list"
  a_full_system_prompt :: string
  a_prompt_llm_tool :: "('w, 'v) tool option"
  a_ephemeral_default_tools :: "('w, 'v) tool list"

text \<open>
  \<open>make_prompt_llm\<close> is \<open>prompt_llm(PromptLLMContext(...))\<close> of the registered tools; \<open>str_value\<close>
  builds \<open>Str(value=...)\<close>, \<open>invoke_value\<close> the validated \<open>Invoke\<close> of a name and a rationale.
\<close>

record ('w, 'v) agent_parameters = "('w, 'v) agent_environment" +
  make_prompt_llm :: "('w, 'v) tool list \<Rightarrow> string \<Rightarrow> ('w, 'v) tool"
  render_prompt :: "string \<Rightarrow> ('w, 'v) tool list \<Rightarrow> ('w, 'v) skill list \<Rightarrow> bool \<Rightarrow> string"
  str_value :: "string \<Rightarrow> 'v tool_value"
  empty_value :: "'v tool_value"
  stop_value :: "'v tool_value"
  invoke_value :: "string \<Rightarrow> string \<Rightarrow> 'v tool_value"
  resolve_endpoint :: "string \<Rightarrow> 'w \<Rightarrow> exn + endpoint_info"
  stored_message :: "path \<Rightarrow> 'w \<Rightarrow> exn + string option"

section \<open>The registry\<close>

text \<open>A set of tools: one per Python object, in order.\<close>

fun tool_set :: "('w, 'v) tool list \<Rightarrow> ('w, 'v) tool list" where
  "tool_set [] = []"
| "tool_set (t # ts) = t # tool_set (filter (\<lambda>u. t_object u \<noteq> t_object t) ts)"

definition register :: "('w, 'v) tool \<Rightarrow> ('w, 'v) agent \<Rightarrow> ('w, 'v) agent" where
  "register t a =
     (if is_chained t then a\<lparr>a_passive_tools := dict_set (t_id t) t (a_passive_tools a)\<rparr>
      else a\<lparr>a_active_tools := dict_set (t_id t) t (a_active_tools a)\<rparr>)"

definition check_default_tool :: "('w, 'v) tool \<Rightarrow> exn + unit" where
  "check_default_tool t =
     (if is_chained t then Inl (OtherException ''Default tool cannot declare chained_to'')
      else if list_ex (\<lambda>out. issubclass out INVOKE) (t_outputs t)
        then Inl (OtherException ''Default tool cannot return Invoke'')
      else Inr ())"

fun check_all :: "('a \<Rightarrow> exn + unit) \<Rightarrow> 'a list \<Rightarrow> exn + unit" where
  "check_all f [] = Inr ()"
| "check_all f (x # xs) = rbind (f x) (\<lambda>_. check_all f xs)"

definition validate_link :: "('w, 'v) tool \<Rightarrow> ('w, 'v) tool \<Rightarrow> exn + unit" where
  "validate_link parent t =
     (let types = filter (\<lambda>out. \<not> issubclass out STOP) (t_outputs parent)
      in if \<not> list_all (\<lambda>out. issubclass out EMPTY) types
           then Inl (OtherException ''Chained tool must have output that is a subclass of Empty'')
         else if types \<noteq> [] \<and> \<not> list_ex (\<lambda>out. issubclass out (mt_name (t_input t))) types
           then Inl (OtherException ''Chained tool must have output that is a subclass of tool input'')
         else Inr ())"

definition check_parent ::
  "(string \<times> ('w, 'v) tool) list \<Rightarrow> ('w, 'v) tool \<Rightarrow> string \<Rightarrow> exn + unit" where
  "check_parent all_tools t parent_id =
     (case map_of all_tools parent_id of
        None \<Rightarrow> Inl (OtherException ''Chained tool does not exist in agent tools'')
      | Some parent \<Rightarrow> validate_link parent t)"

definition validate_tool_chains :: "('w, 'v) tool list \<Rightarrow> exn + unit" where
  "validate_tool_chains tools =
     (if \<not> distinct (map t_name (filter (\<lambda>t. \<not> is_chained t) tools))
        then Inl (OtherException ''Duplicate tool name'')
      else if \<not> distinct (map t_id tools) then Inl (OtherException ''Duplicate tool id'')
      else check_all (\<lambda>t. check_all (check_parent (map (\<lambda>u. (t_id u, u)) tools) t)
                            (case t_chained_to t of None \<Rightarrow> [] | Some ids \<Rightarrow> ids)) tools)"

definition init_prompt_llm_tool ::
  "('w, 'v) agent_parameters \<Rightarrow> ('w, 'v) agent \<Rightarrow> ('w, 'v) agent \<times> (exn + unit)" where
  "init_prompt_llm_tool env a =
     (if a_mode a = DETERMINISTIC then (a\<lparr>a_prompt_llm_tool := None\<rparr>, Inr ())
      else case a_endpoint a of
        None \<Rightarrow> (a, Inl (OtherException ''model-driven instance has no endpoint''))
      | Some endpoint \<Rightarrow>
          (a\<lparr>a_prompt_llm_tool :=
               Some (make_prompt_llm env (map snd (a_active_tools a)) endpoint)\<rparr>, Inr ()))"

text \<open>The registry is changed before it is validated; an error leaves the change in place.\<close>

definition init_tools ::
  "('w, 'v) agent_parameters \<Rightarrow> ('w, 'v) tool list \<Rightarrow> ('w, 'v) skill option \<Rightarrow> ('w, 'v) agent
    \<Rightarrow> ('w, 'v) agent \<times> (exn + unit)" where
  "init_tools env tools skill a =
     (case check_all check_default_tool (a_default_tools a) of
        Inl e \<Rightarrow> (a, Inl e)
      | Inr _ \<Rightarrow>
          (let registered = tool_set (tools @ (case skill of None \<Rightarrow> [] | Some s \<Rightarrow> sk_tools s));
               a1 = fold register registered a
           in case init_prompt_llm_tool env a1 of
                (a2, Inl e) \<Rightarrow> (a2, Inl e)
              | (a2, Inr _) \<Rightarrow>
                  (a2, validate_tool_chains (tool_set (registered @ a_default_tools a)))))"

definition get_full_system_prompt ::
  "('w, 'v) agent_parameters \<Rightarrow> bool \<Rightarrow> ('w, 'v) agent \<Rightarrow> string" where
  "get_full_system_prompt env generated a =
     (if generated \<and> a_system_prompt a \<noteq> []
      then render_prompt env (a_system_prompt a)
             (filter (\<lambda>t. t_name t \<notin> set (map fst (a_auto_loaded_skills a)))
               (map snd (a_active_tools a)))
             (map snd (a_skills a)) (allows_user_interaction (a_mode a))
      else a_system_prompt a)"

definition add ::
  "('w, 'v) agent_parameters \<Rightarrow> ('w, 'v) tool list \<Rightarrow> ('w, 'v) skill option \<Rightarrow> ('w, 'v) agent
    \<Rightarrow> ('w, 'v) agent \<times> (exn + unit)" where
  "add env tools skill a =
     (let current = map snd (a_active_tools a) @ map snd (a_passive_tools a)
      in case init_tools env (current @ tools) skill a of
           (a1, Inl e) \<Rightarrow> (a1, Inl e)
         | (a1, Inr _) \<Rightarrow>
             (if a_automatic_tool_prompt a1 \<and> a_system_prompt a1 \<noteq> []
              then a1\<lparr>a_full_system_prompt := get_full_system_prompt env True a1\<rparr> else a1, Inr ()))"

section \<open>Construction\<close>

record ('w, 'v) agent_inputs =
  i_name :: string
  i_description :: string
  i_tools :: "(('w, 'v) tool + ('w, 'v) tool list) list option"
  i_skills :: "('w, 'v) skill list"
  i_system_prompt :: string
  i_auto_loaded_skills :: "('w, 'v) skill list"
  i_automatic_tool_prompt :: bool
  i_mode :: agent_mode
  i_default_tools :: "('w, 'v) tool list"
  i_custom_prompt_user_tool :: "('w, 'v) tool option"
  i_agent_endpoint :: "string option"
  i_initial_messages :: "(path + string) list"

text \<open>
  \<open>default_prompt_user\<close> is the tool \<open>prompt_user(NO_REPLY)\<close>; \<open>valid_name\<close> is
  \<open>validate_agent_name\<close>, whose identifier and keyword tests are Python's.
\<close>

definition init_execution_mode ::
  "('w, 'v) tool \<Rightarrow> ('w, 'v) agent_inputs \<Rightarrow> exn + ('w, 'v) tool option" where
  "init_execution_mode default_prompt_user i =
     (if i_mode i \<noteq> DETERMINISTIC \<and> py_strip (i_system_prompt i) = []
        then Inl (OtherException ''Model-driven flows require a non-empty system_prompt.'')
      else if i_mode i = DETERMINISTIC \<and> i_default_tools i = []
        then Inl (OtherException ''No default tools for a deterministic instance.'')
      else if \<not> allows_user_interaction (i_mode i) \<and> i_custom_prompt_user_tool i \<noteq> None
        then Inl (OtherException ''autonomous agents cannot configure custom_prompt_user_tool'')
      else if i_mode i \<noteq> DETERMINISTIC \<and> i_agent_endpoint i = None
        then Inl (OtherException ''model-driven instances require agent_endpoint'')
      else Inr (if \<not> allows_user_interaction (i_mode i) then None
                else case i_custom_prompt_user_tool i of
                       None \<Rightarrow> Some default_prompt_user
                     | Some t \<Rightarrow> Some t))"

definition skill_dict :: "('w, 'v) skill list \<Rightarrow> (string \<times> ('w, 'v) skill) list" where
  "skill_dict skills = dict_of (map (\<lambda>s. (sk_name s, s)) skills)"

definition make_agent ::
  "('w, 'v) agent_parameters \<Rightarrow> (string \<Rightarrow> exn + string) \<Rightarrow> ('w, 'v) tool \<Rightarrow> ('w, 'v) agent_inputs
    \<Rightarrow> 'w pipe \<Rightarrow> exn + ('w, 'v) agent" where
  "make_agent env valid_name default_prompt_user i p =
     rbind (valid_name (i_name i)) (\<lambda>name.
     rbind (init_execution_mode default_prompt_user i) (\<lambda>prompt_user_tool.
       let a0 = \<lparr>a_name = name, a_description = i_description i, a_mode = i_mode i,
                 a_system_prompt = i_system_prompt i,
                 a_automatic_tool_prompt = i_automatic_tool_prompt i, a_skills = [],
                 a_auto_loaded_skills = [], a_default_tools = i_default_tools i,
                 a_prompt_user_tool = prompt_user_tool, a_endpoint = i_agent_endpoint i,
                 a_initial_messages = i_initial_messages i, a_pipe = p, a_active_tools = [],
                 a_passive_tools = [], a_messages = [], a_loaded_skills = [],
                 a_full_system_prompt = [], a_prompt_llm_tool = None,
                 a_ephemeral_default_tools = []\<rparr>;
           all_tools = to_tool_list (i_tools i) @
                       (case prompt_user_tool of None \<Rightarrow> [] | Some t \<Rightarrow> [t]) @
                       map sk_as_tool (i_skills i) @ map sk_as_tool (i_auto_loaded_skills i)
       in case init_tools env all_tools None a0 of
            (a1, Inl e) \<Rightarrow> Inl e
          | (a1, Inr _) \<Rightarrow>
              (let a2 = a1\<lparr>a_skills := skill_dict (i_skills i),
                           a_auto_loaded_skills := skill_dict (i_auto_loaded_skills i)\<rparr>
               in Inr (a2\<lparr>a_full_system_prompt :=
                      get_full_system_prompt env (a_automatic_tool_prompt a2) a2\<rparr>))))"

section \<open>Skills and selection\<close>

definition init_skill ::
  "('w, 'v) agent_parameters \<Rightarrow> 'v tool_output \<Rightarrow> ('w, 'v) agent \<Rightarrow> ('w, 'v) agent \<times> (exn + unit)"
where
  "init_skill env out a =
     (case out of
        InvokeOut action _ \<Rightarrow>
          (case map_of (dict_union (a_skills a) (a_auto_loaded_skills a)) action of
             None \<Rightarrow> (a, Inr ())
           | Some skill \<Rightarrow>
               if sk_object skill \<in> set (a_loaded_skills a) then (a, Inr ())
               else if (case sk_depends_on skill of None \<Rightarrow> False
                        | Some d \<Rightarrow> d \<notin> set (a_loaded_skills a))
                 then (a, Inl (OtherException ''The skill depends on a skill which has not been loaded.''))
               else add env [] (Some skill)
                      (a\<lparr>a_loaded_skills := a_loaded_skills a @ [sk_object skill]\<rparr>))
      | _ \<Rightarrow> (a, Inr ()))"

definition pop_ephemeral_default_tool ::
  "('w, 'v) agent \<Rightarrow> ('w, 'v) agent \<times> (exn + ('w, 'v) tool)" where
  "pop_ephemeral_default_tool a =
     (let tools = (if a_ephemeral_default_tools a = []
                   then a_default_tools a @
                        (case a_prompt_llm_tool a of None \<Rightarrow> [] | Some t \<Rightarrow> [t])
                   else a_ephemeral_default_tools a)
      in case tools of
           [] \<Rightarrow> (a\<lparr>a_ephemeral_default_tools := []\<rparr>, Inl (OtherException ''pop from empty list''))
         | t # ts \<Rightarrow> (a\<lparr>a_ephemeral_default_tools := ts\<rparr>, Inr t))"

text \<open>One entry for every parent edge from the current tool whose condition holds.\<close>

definition chained_successors ::
  "('w, 'v) agent \<Rightarrow> ('w, 'v) tool option \<Rightarrow> 'v tool_output \<Rightarrow> ('w, 'v) tool list" where
  "chained_successors a tool out =
     (case tool of
        None \<Rightarrow> []
      | Some current \<Rightarrow>
          concat (map (\<lambda>passive.
              map (\<lambda>_. passive)
                (filter (\<lambda>parent. parent = t_id current \<and> t_condition passive out)
                  (case t_chained_to passive of None \<Rightarrow> [] | Some ids \<Rightarrow> ids)))
            (map snd (a_passive_tools a))))"

definition get_next_tool ::
  "('w, 'v) agent_parameters \<Rightarrow> ('w, 'v) tool option \<Rightarrow> 'v tool_output \<Rightarrow> ('w, 'v) agent
    \<Rightarrow> ('w, 'v) agent \<times> (exn + ('w, 'v) tool)" where
  "get_next_tool env tool out a =
     (case out of
        InvokeOut action _ \<Rightarrow>
          (case init_skill env out a of
             (a1, Inl e) \<Rightarrow> (a1, Inl e)
           | (a1, Inr _) \<Rightarrow>
               (case find (\<lambda>t. t_name t = action) (map snd (a_active_tools a1)) of
                  None \<Rightarrow> (a1, Inl (OtherException ''Called tool does not exist!''))
                | Some t \<Rightarrow> (a1, Inr t)))
      | _ \<Rightarrow>
          (case chained_successors a tool out of
             [] \<Rightarrow> pop_ephemeral_default_tool a
           | [t] \<Rightarrow> (a, Inr t)
           | _ \<Rightarrow> (a, Inl (OtherException ''Many True next links''))))"

section \<open>The registry is typed\<close>

definition tools_of :: "('w, 'v) agent \<Rightarrow> ('w, 'v) tool list" where
  "tools_of a = map snd (a_active_tools a) @ map snd (a_passive_tools a)"

definition parents_of_tool :: "('w, 'v) tool \<Rightarrow> string list" where
  "parents_of_tool t = (case t_chained_to t of None \<Rightarrow> [] | Some ids \<Rightarrow> ids)"

text \<open>An output a link may carry: it can end the run or enter the next tool's input class.\<close>

definition link_ok :: "('w, 'v) tool \<Rightarrow> ('w, 'v) tool \<Rightarrow> bool" where
  "link_ok parent t \<longleftrightarrow>
     (\<forall>out \<in> set (t_outputs parent). issubclass out STOP \<or> issubclass out EMPTY) \<and>
     ((\<exists>out \<in> set (t_outputs parent). \<not> issubclass out STOP) \<longrightarrow>
      (\<exists>out \<in> set (t_outputs parent). \<not> issubclass out STOP \<and>
         issubclass out (mt_name (t_input t))))"

definition tables_ok :: "('w, 'v) agent \<Rightarrow> bool" where
  "tables_ok a \<longleftrightarrow>
     (\<forall>(k, t) \<in> set (a_active_tools a). k = t_id t \<and> \<not> is_chained t) \<and>
     (\<forall>(k, t) \<in> set (a_passive_tools a). k = t_id t \<and> is_chained t) \<and>
     distinct (map fst (a_active_tools a)) \<and> distinct (map fst (a_passive_tools a))"

definition registry_typed :: "('w, 'v) agent \<Rightarrow> bool" where
  "registry_typed a \<longleftrightarrow>
     tables_ok a \<and> distinct (map t_object (tools_of a)) \<and> distinct (map t_id (tools_of a)) \<and>
     distinct (map t_name (map snd (a_active_tools a))) \<and>
     (\<forall>t \<in> set (tools_of a). \<forall>i \<in> set (parents_of_tool t).
        \<exists>parent \<in> set (tools_of a @ a_default_tools a). t_id parent = i \<and> link_ok parent t) \<and>
     (\<forall>t \<in> set (tools_of a). \<forall>u \<in> set (tools_of a). t_id u \<in> set (parents_of_tool t) \<longrightarrow> link_ok u t)"

lemma check_all_Inr: "check_all f xs = Inr () \<longleftrightarrow> (\<forall>x \<in> set xs. f x = Inr ())"
  by (induction xs) (auto simp: rbind_Inr_iff)

lemma validate_link_Inr: "validate_link parent t = Inr () \<longleftrightarrow> link_ok parent t"
  by (auto simp: validate_link_def link_ok_def Let_def list_all_iff list_ex_iff filter_empty_conv)

lemma check_parent_Inr:
  "check_parent table t i = Inr () \<longleftrightarrow> (\<exists>parent. map_of table i = Some parent \<and> link_ok parent t)"
  by (simp add: check_parent_def validate_link_Inr split: option.split)

lemma tool_set_subset: "set (tool_set ts) \<subseteq> set ts"
  by (induction ts rule: tool_set.induct) auto

lemma tool_set_objects: "t_object ` set (tool_set ts) = t_object ` set ts"
  by (induction ts rule: tool_set.induct) auto

lemma tool_set_filter:
  "tool_set (filter (\<lambda>u. t_object u \<noteq> x) ts) = filter (\<lambda>u. t_object u \<noteq> x) (tool_set ts)"
  by (induction ts rule: tool_set.induct) (auto simp: filter_filter conj_commute)

lemma tool_set_distinct: "distinct (map t_object (tool_set ts))"
  by (induction ts rule: tool_set.induct) (auto simp: tool_set_filter distinct_map inj_on_def)

lemma tool_set_id: "distinct (map t_object ts) \<Longrightarrow> tool_set ts = ts"
  by (induction ts) (auto simp: tool_set_filter image_iff intro!: filter_True)

lemma tool_set_Cons: "tool_set (t # ts) = t # filter (\<lambda>u. t_object u \<noteq> t_object t) (tool_set ts)"
  by (simp add: tool_set_filter)

lemma tool_set_append:
  "tool_set (ts @ us) = tool_set ts @ filter (\<lambda>u. t_object u \<notin> t_object ` set ts) (tool_set us)"
  by (induction ts)
    (auto simp: tool_set_Cons filter_filter simp del: tool_set.simps(2) intro!: filter_cong)

lemma mem_dict_set:
  "kv \<in> set (dict_set k v d) \<Longrightarrow> kv = (k, v) \<or> kv \<in> set d"
  by (induction d) (auto split: if_splits)

lemma dict_set_mem: "(k, v) \<in> set (dict_set k v d)"
  by (induction d) auto

lemma dict_set_keeps: "kv \<in> set d \<Longrightarrow> fst kv \<noteq> k \<Longrightarrow> kv \<in> set (dict_set k v d)"
  by (induction d) auto

lemma tools_of_iff:
  "t \<in> set (tools_of a) \<longleftrightarrow>
   (\<exists>k. (k, t) \<in> set (a_active_tools a)) \<or> (\<exists>k. (k, t) \<in> set (a_passive_tools a))"
  by (force simp: tools_of_def)

lemma register_tables: "tables_ok a \<Longrightarrow> tables_ok (register t a)"
  by (auto simp: tables_ok_def register_def distinct_dict_set dest: mem_dict_set)

lemma register_tools:
  assumes "tables_ok a" and "inj_on t_id (set (tools_of a) \<union> {t})"
  shows "set (tools_of (register t a)) = insert t (set (tools_of a))"
proof (rule set_eqI)
  fix u
  have same: "u = t" if "t_id u = t_id t" "u \<in> set (tools_of a)"
    by (rule inj_onD[OF assms(2)]) (use that in auto)
  have keys: "k = t_id u" if "(k, u) \<in> set (a_active_tools a) \<or> (k, u) \<in> set (a_passive_tools a)" for k
    using assms(1) that by (auto simp: tables_ok_def)
  show "u \<in> set (tools_of (register t a)) \<longleftrightarrow> u \<in> insert t (set (tools_of a))"
  proof
    assume "u \<in> set (tools_of (register t a))"
    then show "u \<in> insert t (set (tools_of a))"
      by (auto simp: tools_of_iff register_def split: if_splits dest: mem_dict_set)
  next
    assume u: "u \<in> insert t (set (tools_of a))"
    show "u \<in> set (tools_of (register t a))"
    proof (cases "u = t")
      case True
      have "(t_id t, t) \<in> set (a_active_tools (register t a)) \<or>
            (t_id t, t) \<in> set (a_passive_tools (register t a))"
        by (simp add: register_def dict_set_mem)
      with True show ?thesis unfolding tools_of_iff by blast
    next
      case False
      with u have old: "u \<in> set (tools_of a)" by simp
      then obtain k where k: "(k, u) \<in> set (a_active_tools a) \<or> (k, u) \<in> set (a_passive_tools a)"
        by (auto simp: tools_of_iff)
      have "k \<noteq> t_id t" using same[OF _ old] keys[OF k] False by auto
      then have kept: "(k, u) \<in> set (dict_set (t_id t) t d)" if "(k, u) \<in> set d" for d
        using that by (simp add: dict_set_keeps)
      from k have "(k, u) \<in> set (a_active_tools (register t a)) \<or>
                   (k, u) \<in> set (a_passive_tools (register t a))"
        by (auto simp: register_def kept)
      then show ?thesis unfolding tools_of_iff by blast
    qed
  qed
qed

lemma fold_register:
  "tables_ok a \<Longrightarrow> inj_on t_id (set (tools_of a) \<union> set ts) \<Longrightarrow>
   tables_ok (fold register ts a) \<and> set (tools_of (fold register ts a)) = set (tools_of a) \<union> set ts"
proof (induction ts arbitrary: a)
  case (Cons t ts)
  have step: "set (tools_of (register t a)) = insert t (set (tools_of a))"
    by (rule register_tools[OF Cons.prems(1)]) (rule inj_on_subset[OF Cons.prems(2)], auto)
  have "inj_on t_id (set (tools_of (register t a)) \<union> set ts)"
    unfolding step by (rule inj_on_subset[OF Cons.prems(2)]) auto
  from Cons.IH[OF register_tables[OF Cons.prems(1)] this] step show ?case by auto
qed simp

lemma register_frame [simp]:
  "a_default_tools (register t a) = a_default_tools a"
  "a_loaded_skills (register t a) = a_loaded_skills a"
  "a_skills (register t a) = a_skills a"
  "a_auto_loaded_skills (register t a) = a_auto_loaded_skills a"
  by (simp_all add: register_def)

lemma fold_register_frame [simp]:
  "a_default_tools (fold register ts a) = a_default_tools a"
  "a_loaded_skills (fold register ts a) = a_loaded_skills a"
  "a_skills (fold register ts a) = a_skills a"
  "a_auto_loaded_skills (fold register ts a) = a_auto_loaded_skills a"
  by (induction ts arbitrary: a) simp_all

lemma init_prompt_llm_tool_frame:
  "init_prompt_llm_tool env a = (a', r) \<Longrightarrow>
   tools_of a' = tools_of a \<and> a_active_tools a' = a_active_tools a \<and>
   a_passive_tools a' = a_passive_tools a \<and> a_default_tools a' = a_default_tools a \<and>
   a_loaded_skills a' = a_loaded_skills a \<and> a_skills a' = a_skills a \<and>
   a_auto_loaded_skills a' = a_auto_loaded_skills a"
  by (auto simp: init_prompt_llm_tool_def tools_of_def split: if_splits option.splits)

lemma distinct_table:
  assumes "distinct (map fst d)" and "\<forall>(k, t) \<in> set d. k = t_id t"
  shows "distinct (map t_id (map snd d))"
proof -
  have "map fst d = map t_id (map snd d)"
    using assms(2) by (induction d) auto
  with assms(1) show ?thesis by simp
qed

lemma tables_distinct:
  assumes "tables_ok a"
  shows "distinct (tools_of a)"
proof -
  have act: "distinct (map t_id (map snd (a_active_tools a)))"
    and pas: "distinct (map t_id (map snd (a_passive_tools a)))"
    using assms by (auto simp: tables_ok_def intro!: distinct_table simp del: map_map)
  have "\<not> is_chained t" if "t \<in> snd ` set (a_active_tools a)" for t
    using assms that by (auto simp: tables_ok_def)
  moreover have "is_chained t" if "t \<in> snd ` set (a_passive_tools a)" for t
    using assms that by (auto simp: tables_ok_def)
  ultimately have "snd ` set (a_active_tools a) \<inter> snd ` set (a_passive_tools a) = {}" by blast
  with act pas show ?thesis
    by (simp add: tools_of_def distinct_map del: map_map)
qed

lemma distinct_via: "distinct xs \<Longrightarrow> inj_on f A \<Longrightarrow> set xs \<subseteq> A \<Longrightarrow> distinct (map f xs)"
  by (simp add: distinct_map inj_on_subset)

lemma init_tools_cases:
  assumes "init_tools env tools skill a = (a', r)"
  obtains (default) e where "r = Inl e" "a' = a"
  | (prompt) e where "r = Inl e" "\<exists>ts. init_prompt_llm_tool env (fold register ts a) = (a', r)"
  | (checked) "list_all (\<lambda>t. check_default_tool t = Inr ()) (a_default_tools a)"
      "init_prompt_llm_tool env
         (fold register (tool_set (tools @ (case skill of None \<Rightarrow> [] | Some s \<Rightarrow> sk_tools s))) a) = (a', Inr ())"
      "r = validate_tool_chains (tool_set
         (tool_set (tools @ (case skill of None \<Rightarrow> [] | Some s \<Rightarrow> sk_tools s)) @ a_default_tools a))"
proof (cases "check_all check_default_tool (a_default_tools a)")
  case (Inl e)
  with assms have "r = Inl e" "a' = a" by (simp_all add: init_tools_def)
  then show ?thesis by (rule default)
next
  case (Inr u)
  let ?reg = "tool_set (tools @ (case skill of None \<Rightarrow> [] | Some s \<Rightarrow> sk_tools s))"
  obtain a2 q where q: "init_prompt_llm_tool env (fold register ?reg a) = (a2, q)" by fastforce
  from Inr have def: "list_all (\<lambda>t. check_default_tool t = Inr ()) (a_default_tools a)"
    by (simp add: check_all_Inr list_all_iff)
  show ?thesis
  proof (cases q)
    case (Inl e)
    with assms Inr q have "r = Inl e" "a' = a2" by (auto simp: init_tools_def Let_def)
    with prompt q Inl show ?thesis by blast
  next
    case q': (Inr v)
    with assms Inr q have "a' = a2"
      and r: "r = validate_tool_chains (tool_set (?reg @ a_default_tools a))"
      by (auto simp: init_tools_def Let_def)
    with q q' have "init_prompt_llm_tool env (fold register ?reg a) = (a', Inr ())" by simp
    with def show ?thesis using r by (rule checked)
  qed
qed

lemma init_tools_typed:
  assumes "init_tools env (tools_of a @ extra) skill a = (a', Inr ())"
    and "tables_ok a" and "distinct (map t_object (tools_of a))"
  shows "registry_typed a' \<and>
    t_object ` set (tools_of a') =
      t_object ` set ((tools_of a @ extra) @ (case skill of None \<Rightarrow> [] | Some s \<Rightarrow> sk_tools s))"
proof -
  let ?reg = "tool_set ((tools_of a @ extra) @ (case skill of None \<Rightarrow> [] | Some s \<Rightarrow> sk_tools s))"
  let ?all = "tool_set (?reg @ a_default_tools a)"
  from assms(1) obtain
    def: "list_all (\<lambda>t. check_default_tool t = Inr ()) (a_default_tools a)" and
    fin: "init_prompt_llm_tool env (fold register ?reg a) = (a', Inr ())" and
    val: "validate_tool_chains ?all = Inr ()"
    by (cases rule: init_tools_cases) auto
  have all: "?all = ?reg @ filter (\<lambda>u. t_object u \<notin> t_object ` set ?reg) (tool_set (a_default_tools a))"
    by (simp only: tool_set_append[of ?reg] tool_set_id[OF tool_set_distinct])
  from val have names: "distinct (map t_name (filter (\<lambda>t. \<not> is_chained t) ?all))"
    and ids: "distinct (map t_id ?all)"
    and parents: "\<forall>t \<in> set ?all. \<forall>i \<in> set (parents_of_tool t).
      \<exists>parent. map_of (map (\<lambda>u. (t_id u, u)) ?all) i = Some parent \<and> link_ok parent t"
    by (auto simp: validate_tool_chains_def check_all_Inr check_parent_Inr parents_of_tool_def
        split: if_splits)
  have reg_ids: "inj_on t_id (set ?reg)"
    using ids unfolding all by (simp add: distinct_map)
  have current: "set (tools_of a) \<subseteq> set ?reg"
    using tool_set_append[of "tools_of a" "extra @ (case skill of None \<Rightarrow> [] | Some s \<Rightarrow> sk_tools s)"]
      tool_set_id[OF assms(3)] by auto
  then have union: "set (tools_of a) \<union> set ?reg = set ?reg" by blast
  from fold_register[OF assms(2), of ?reg] reg_ids union
  have folded: "tables_ok (fold register ?reg a)" "set (tools_of (fold register ?reg a)) = set ?reg"
    by auto
  note frame = init_prompt_llm_tool_frame[OF fin]
  have tables: "tables_ok a'" using folded(1) frame by (simp add: tables_ok_def)
  have tools: "set (tools_of a') = set ?reg" using folded(2) frame by simp
  have objects: "inj_on t_object (set ?reg)"
    using tool_set_distinct[where ts = "(tools_of a @ extra) @ (case skill of None \<Rightarrow> [] | Some s \<Rightarrow> sk_tools s)"]
    by (simp only: distinct_map)
  have actives: "set (map snd (a_active_tools a')) \<subseteq> set (filter (\<lambda>t. \<not> is_chained t) ?all)"
  proof
    fix t assume "t \<in> set (map snd (a_active_tools a'))"
    with tables tools have "\<not> is_chained t" "t \<in> set ?reg"
      by (auto simp: tables_ok_def tools_of_def)
    then show "t \<in> set (filter (\<lambda>t. \<not> is_chained t) ?all)" unfolding all by simp
  qed
  have "distinct (map snd (a_active_tools a'))"
    using tables_distinct[OF tables] by (simp add: tools_of_def)
  then have act_names: "distinct (map t_name (map snd (a_active_tools a')))"
    by (rule distinct_via[OF _ _ actives]) (use names in \<open>simp add: distinct_map\<close>)
  have links: "\<exists>parent \<in> set (tools_of a' @ a_default_tools a'). t_id parent = i \<and> link_ok parent t"
    if t: "t \<in> set (tools_of a')" and i: "i \<in> set (parents_of_tool t)" for t i
  proof -
    have "t \<in> set ?all" using t tools unfolding all by simp
    with parents i obtain parent where p: "map_of (map (\<lambda>u. (t_id u, u)) ?all) i = Some parent"
      "link_ok parent t" by blast
    then have "t_id parent = i" "parent \<in> set ?all" by (auto dest!: map_of_SomeD)
    moreover have "set ?all \<subseteq> set ?reg \<union> set (a_default_tools a)"
      using tool_set_subset by fastforce
    ultimately show ?thesis using p(2) tools frame by auto
  qed
  have own: "link_ok u t" if "t \<in> set (tools_of a')" "u \<in> set (tools_of a')"
      "t_id u \<in> set (parents_of_tool t)" for t u
  proof -
    have "t \<in> set ?all" "u \<in> set ?all" using that tools unfolding all by simp_all
    with parents that(3) obtain parent where p: "map_of (map (\<lambda>v. (t_id v, v)) ?all) (t_id u) = Some parent"
      "link_ok parent t" by blast
    then have "t_id parent = t_id u" "parent \<in> set ?all" by (auto dest!: map_of_SomeD)
    with \<open>u \<in> set ?all\<close> ids have "parent = u" by (auto simp: distinct_map inj_on_def)
    with p(2) show ?thesis by simp
  qed
  from tables tables_distinct[OF tables] tools objects reg_ids act_names links own have "registry_typed a'"
    by (auto simp: registry_typed_def intro: distinct_via simp del: map_map)
  with tools tool_set_objects show ?thesis by metis
qed


end
