(* ===== verification/Roboz_Run.thy ===== *)
theory Roboz_Run
  imports Roboz_Agent
begin

text \<open>
  The run of an agent (\<open>agent/core.py\<close>: messages, automatic skills, steps, \<open>invoke\<close>) with the
  context bindings of \<open>agent/_execution_context.py\<close> and the texts of \<open>agent/_notifications.py\<close>.
\<close>

section \<open>Bindings\<close>

definition bind_agent_endpoint ::
  "string option \<Rightarrow> 'w execution_context \<Rightarrow> string option option \<times> 'w execution_context" where
  "bind_agent_endpoint endpoint c = (ec_agent_endpoint c, c\<lparr>ec_agent_endpoint := Some endpoint\<rparr>)"

definition reset_agent_endpoint ::
  "string option option \<Rightarrow> 'w execution_context \<Rightarrow> 'w execution_context" where
  "reset_agent_endpoint token c = c\<lparr>ec_agent_endpoint := token\<rparr>"

definition get_active_agent_endpoint :: "'w execution_context \<Rightarrow> string option" where
  "get_active_agent_endpoint c =
     (case ec_agent_endpoint c of None \<Rightarrow> None | Some endpoint \<Rightarrow> endpoint)"

definition push_active_agent ::
  "string \<Rightarrow> 'w execution_context \<Rightarrow> string list \<times> 'w execution_context" where
  "push_active_agent name c =
     (ec_agent_stack c, c\<lparr>ec_agent_stack := ec_agent_stack c @ [name]\<rparr>)"

definition pop_active_agent :: "string list \<Rightarrow> 'w execution_context \<Rightarrow> 'w execution_context" where
  "pop_active_agent token c = c\<lparr>ec_agent_stack := token\<rparr>"

definition bind_context_output ::
  "output_channel option \<Rightarrow> 'w execution_context \<Rightarrow> output_channel option \<times> 'w execution_context" where
  "bind_context_output channel c =
     (case bind_output channel (ec_interaction c) of
        (token, interaction) \<Rightarrow> (token, c\<lparr>ec_interaction := interaction\<rparr>))"

definition reset_context_output ::
  "output_channel option \<Rightarrow> 'w execution_context \<Rightarrow> 'w execution_context" where
  "reset_context_output token c = c\<lparr>ec_interaction := reset_output token (ec_interaction c)\<rparr>"

section \<open>Texts\<close>

definition AUTO_LOAD_SKILLS_BANNER :: string where
  "AUTO_LOAD_SKILLS_BANNER = ''Here are skills that *I* have chosen to invoke automatically '' @
     ''and the respective instructions on how to use '' @
     ''them. They are from this point onwards freely at your disposal.''"

definition INTERRUPT_PROMPT_TO_USER :: string where
  "INTERRUPT_PROMPT_TO_USER = ''Action interrupted!''"

definition INTERRUPTED_GENERATION_CONTEXT :: string where
  "INTERRUPTED_GENERATION_CONTEXT =
     ''The previous assistant generation was interrupted by the user before it '' @
     ''completed. Treat the user's next message as a change of direction.''"

definition LLM_PROVIDER_REQUEST_RETRY_PROMPT :: string where
  "LLM_PROVIDER_REQUEST_RETRY_PROMPT =
     ''The selected model could not complete the request. Choose another model, '' @
     ''then enter retry and Send.''"

definition LLM_CONTENT_FILTER_RETRY_PROMPT :: string where
  "LLM_CONTENT_FILTER_RETRY_PROMPT =
     ''The model provider's content filter refused this request. Choose another '' @
     ''model, then enter retry and Send.''"

definition auto_load_skill_rationale :: "string \<Rightarrow> string" where
  "auto_load_skill_rationale skill_name = ''Loading the '' @ skill_name @ '' skill''"

section \<open>State and exceptions\<close>

type_synonym ('w, 'v, 'a) action = "('w, 'v) agent \<times> (exn + 'a)"

definition and_then ::
  "('w, 'v, 'a) action \<Rightarrow> ('a \<Rightarrow> ('w, 'v) agent \<Rightarrow> ('w, 'v, 'b) action) \<Rightarrow> ('w, 'v, 'b) action" where
  "and_then r f = (case r of (a, Inl e) \<Rightarrow> (a, Inl e) | (a, Inr x) \<Rightarrow> f x a)"

lemma and_then_simps [simp]:
  "and_then (a, Inl e) f = (a, Inl e)"
  "and_then (a, Inr x) f = f x a"
  by (simp_all add: and_then_def)

lemma and_then_Inr:
  "and_then r f = (a', Inr y) \<longleftrightarrow> (\<exists>a x. r = (a, Inr x) \<and> f x a = (a', Inr y))"
  by (cases r; cases "snd r") (auto simp: and_then_def)

definition append_and_pipe ::
  "('w, 'v) agent_parameters \<Rightarrow> message \<Rightarrow> ('w, 'v) agent \<Rightarrow> ('w, 'v, unit) action" where
  "append_and_pipe env m a =
     (case emit_message (pipe_environment env) m (a_pipe a) of
        (p, r) \<Rightarrow> (a\<lparr>a_messages := a_messages a @ [m], a_pipe := p\<rparr>, r))"

definition finalized ::
  "('w, 'v) agent_parameters \<Rightarrow> 'v tool_output \<Rightarrow> string option \<Rightarrow> message_kind option
    \<Rightarrow> ('w, 'v) agent \<Rightarrow> message" where
  "finalized env out caller_name kind a =
     get_finalized_message (to_json env) (clock env (outside (a_pipe a))) out caller_name kind"

definition call_in_agent ::
  "('w, 'v) tool \<Rightarrow> 'v tool_output \<Rightarrow> 'w execution_context \<Rightarrow> ('w, 'v) agent
    \<Rightarrow> ('w, 'v, 'v tool_output) action" where
  "call_in_agent t inp c a =
     (case call_tool t inp (a_messages a) c (a_pipe a) of
        ((p, ms), r) \<Rightarrow> (a\<lparr>a_pipe := p, a_messages := ms\<rparr>, r))"

definition observed_in_agent ::
  "('w, 'v) agent_parameters \<Rightarrow> ('w, 'v) tool \<Rightarrow> 'v tool_output \<Rightarrow> 'w execution_context
    \<Rightarrow> ('w, 'v) agent \<Rightarrow> ('w, 'v, 'v tool_output) action" where
  "observed_in_agent env t inp c a =
     (case invoke_observed env t inp (a_messages a) c (a_pipe a) of
        ((p, ms), r) \<Rightarrow> (a\<lparr>a_pipe := p, a_messages := ms\<rparr>, r))"

definition check_cancelled ::
  "('w, 'v) agent_parameters \<Rightarrow> ('w, 'v) agent \<Rightarrow> ('w, 'v, unit) action" where
  "check_cancelled env a =
     (case raise_if_cancelled (pipe_environment env) (a_pipe a) of (p, r) \<Rightarrow> (a\<lparr>a_pipe := p\<rparr>, r))"

section \<open>Messages of a new run\<close>

definition startup_message :: "('w, 'v) agent_parameters \<Rightarrow> role \<Rightarrow> string \<Rightarrow> message_kind \<Rightarrow> ('w, 'v) agent \<Rightarrow> message" where
  "startup_message env role body kind a =
     \<lparr>msg_role = role, content = body, images = [], caller = None,
      timestamp = clock env (outside (a_pipe a)), msg_truncation = DEFAULT,
      message_kind = Some kind\<rparr>"

definition append_initial ::
  "('w, 'v) agent_parameters \<Rightarrow> path + string \<Rightarrow> ('w, 'v) agent \<Rightarrow> ('w, 'v, unit) action" where
  "append_initial env initial a =
     (case initial of
        Inl location \<Rightarrow>
          (case stored_message env location (outside (a_pipe a)) of
             Inl e \<Rightarrow> (a, Inl e)
           | Inr None \<Rightarrow> (a, Inr ())
           | Inr (Some body) \<Rightarrow>
               append_and_pipe env
                 (finalized env (DataOut (str_value env body)) None (Some STARTUP_CONTEXT) a) a)
      | Inr body \<Rightarrow> append_and_pipe env (startup_message env USER body STARTUP_CONTEXT a) a)"

fun append_initials ::
  "('w, 'v) agent_parameters \<Rightarrow> (path + string) list \<Rightarrow> ('w, 'v) agent \<Rightarrow> ('w, 'v, unit) action" where
  "append_initials env [] a = (a, Inr ())"
| "append_initials env (i # is) a =
     and_then (append_initial env i a) (\<lambda>_. append_initials env is)"

definition init_messages ::
  "('w, 'v) agent_parameters \<Rightarrow> ('w, 'v) agent \<Rightarrow> ('w, 'v, unit) action" where
  "init_messages env a =
     (let a1 = a\<lparr>a_messages := []\<rparr>
      in and_then
           (if a_full_system_prompt a1 \<noteq> []
            then append_and_pipe env
                   (startup_message env SYSTEM (a_full_system_prompt a1) SYSTEM_MESSAGE a1) a1
            else (a1, Inr ()))
           (\<lambda>_ a2. append_initials env (a_initial_messages a2) a2))"

definition auto_load_skill ::
  "('w, 'v) agent_parameters \<Rightarrow> 'w execution_context \<Rightarrow> string \<Rightarrow> ('w, 'v) agent
    \<Rightarrow> ('w, 'v, unit) action" where
  "auto_load_skill env c skill_name a =
     (let out = InvokeOut skill_name (invoke_value env skill_name (auto_load_skill_rationale skill_name))
      in and_then (init_skill env out a) (\<lambda>_ a1.
         and_then (get_next_tool env (a_prompt_llm_tool a1) out a1) (\<lambda>t a2.
         and_then (call_in_agent t out c a2) (\<lambda>out' a3.
           append_and_pipe env
             (finalized env out' (Some (t_name t)) (Some AUTO_LOADED_SKILL) a3) a3))))"

fun auto_load_each ::
  "('w, 'v) agent_parameters \<Rightarrow> 'w execution_context \<Rightarrow> string list \<Rightarrow> ('w, 'v) agent
    \<Rightarrow> ('w, 'v, unit) action" where
  "auto_load_each env c [] a = (a, Inr ())"
| "auto_load_each env c (s # ss) a =
     and_then (auto_load_skill env c s a) (\<lambda>_. auto_load_each env c ss)"

definition auto_load_skills ::
  "('w, 'v) agent_parameters \<Rightarrow> 'w execution_context \<Rightarrow> ('w, 'v) agent \<Rightarrow> ('w, 'v, unit) action" where
  "auto_load_skills env c a =
     and_then
       (if a_auto_loaded_skills a \<noteq> []
        then append_and_pipe env
               (finalized env (DataOut (str_value env AUTO_LOAD_SKILLS_BANNER)) None
                 (Some AUTO_LOAD_BANNER) a) a
        else (a, Inr ()))
       (\<lambda>_ a1. auto_load_each env c (map (sk_name \<circ> snd) (a_auto_loaded_skills a1)) a1)"

section \<open>One step\<close>

definition ask_user ::
  "('w, 'v) agent_parameters \<Rightarrow> 'w execution_context \<Rightarrow> string \<Rightarrow> ('w, 'v) agent
    \<Rightarrow> ('w, 'v, unit) action" where
  "ask_user env c prompt a =
     (case a_prompt_user_tool a of
        None \<Rightarrow> (a, Inl (OtherException ''user interaction tool is unavailable''))
      | Some t \<Rightarrow>
          (case t_validate t (tv_fields (str_value env prompt)) DEFAULT None of
             Inl e \<Rightarrow> (a, Inl e)
           | Inr v \<Rightarrow>
               and_then (call_in_agent t (DataOut v) c a) (\<lambda>out a1.
                 append_and_pipe env (finalized env out (Some (t_name t)) None a1) a1)))"

definition restart_cycle ::
  "('w, 'v) agent_parameters \<Rightarrow> ('w, 'v) agent
    \<Rightarrow> ('w, 'v, ('w, 'v) tool option \<times> 'v tool_output) action" where
  "restart_cycle env a =
     (a\<lparr>a_ephemeral_default_tools := []\<rparr>, Inr (None, DataOut (empty_value env)))"

definition handle_interrupt ::
  "('w, 'v) agent_parameters \<Rightarrow> 'w execution_context \<Rightarrow> ('w, 'v) agent
    \<Rightarrow> ('w, 'v, ('w, 'v) tool option \<times> 'v tool_output) action" where
  "handle_interrupt env c a =
     (let a1 = a\<lparr>a_pipe := clear_interrupt (a_pipe a)\<rparr>
      in and_then
           (append_and_pipe env
             (finalized env (DataOut (str_value env INTERRUPTED_GENERATION_CONTEXT)) None
               (Some INTERRUPTED_GENERATION) a1) a1)
           (\<lambda>_ a2. and_then (ask_user env c INTERRUPT_PROMPT_TO_USER a2)
              (\<lambda>_ a3. restart_cycle env a3)))"

definition handle_provider_request_error ::
  "('w, 'v) agent_parameters \<Rightarrow> 'w execution_context \<Rightarrow> exn \<Rightarrow> ('w, 'v) agent
    \<Rightarrow> ('w, 'v, ('w, 'v) tool option \<times> 'v tool_output) action" where
  "handle_provider_request_error env c e a =
     and_then
       (ask_user env c (if e = ProviderRequest True then LLM_CONTENT_FILTER_RETRY_PROMPT
                        else LLM_PROVIDER_REQUEST_RETRY_PROMPT) a)
       (\<lambda>_ a1. restart_cycle env a1)"

definition handle_step_error ::
  "('w, 'v) agent_parameters \<Rightarrow> 'w execution_context \<Rightarrow> exn \<Rightarrow> ('w, 'v) agent
    \<Rightarrow> ('w, 'v, ('w, 'v) tool option \<times> 'v tool_output) action" where
  "handle_step_error env c e a =
     (if \<not> allows_user_interaction (a_mode a) then (a, Inl e)
      else case e of
        ProviderRequest _ \<Rightarrow> handle_provider_request_error env c e a
      | ImageInputError \<Rightarrow> handle_provider_request_error env c e a
      | ExternalCallInterrupted _ \<Rightarrow> handle_interrupt env c a
      | KeyboardInterrupt \<Rightarrow>
          (let a1 = a\<lparr>a_pipe := observe (pipe_environment env) (a_pipe a)\<rparr>
           in if interrupt_signal (a_pipe a1) then handle_interrupt env c a1
              else (a1, Inl KeyboardInterrupt))
      | _ \<Rightarrow> (a, Inl e))"

definition attempt_step ::
  "('w, 'v) agent_parameters \<Rightarrow> 'w execution_context \<Rightarrow> ('w, 'v) tool option \<Rightarrow> 'v tool_output
    \<Rightarrow> ('w, 'v) agent \<Rightarrow> ('w, 'v, ('w, 'v) tool \<times> 'v tool_output) action" where
  "attempt_step env c tool out a =
     and_then (check_cancelled env a) (\<lambda>_ a1.
     and_then (get_next_tool env tool out a1) (\<lambda>t a2.
     and_then (check_cancelled env a2) (\<lambda>_ a3.
     and_then (observed_in_agent env t out c a3) (\<lambda>out' a4. (a4, Inr (t, out'))))))"

definition advance_by_step ::
  "('w, 'v) agent_parameters \<Rightarrow> 'w execution_context \<Rightarrow> ('w, 'v) tool option \<Rightarrow> 'v tool_output
    \<Rightarrow> ('w, 'v) agent \<Rightarrow> ('w, 'v, ('w, 'v) tool option \<times> 'v tool_output) action" where
  "advance_by_step env c tool out a =
     (case attempt_step env c tool out a of
        (a1, Inl e) \<Rightarrow> handle_step_error env c e a1
      | (a1, Inr (t, out')) \<Rightarrow>
          and_then (append_and_pipe env (finalized env out' (Some (t_name t)) None a1) a1)
            (\<lambda>_ a2. (a2, Inr (Some t, out'))))"

fun agent_loop ::
  "nat \<Rightarrow> ('w, 'v) agent_parameters \<Rightarrow> 'w execution_context \<Rightarrow> ('w, 'v) tool option \<Rightarrow> 'v tool_output
    \<Rightarrow> ('w, 'v) agent \<Rightarrow> ('w, 'v, 'v tool_value) action option" where
  "agent_loop 0 env c tool out a = None"
| "agent_loop (Suc n) env c tool out a =
     (case advance_by_step env c tool out a of
        (a1, Inl e) \<Rightarrow> Some (a1, Inl e)
      | (a1, Inr (tool', StopOut v)) \<Rightarrow> Some (a1, Inr v)
      | (a1, Inr (tool', out')) \<Rightarrow> agent_loop n env c tool' out' a1)"

section \<open>Invoke\<close>

definition initialize_pipe_for_invoke ::
  "('w, 'v) agent_parameters \<Rightarrow> 'w execution_context \<Rightarrow> bool \<Rightarrow> ('w, 'v) agent \<Rightarrow> ('w, 'v, unit) action"
where
  "initialize_pipe_for_invoke env c dry a =
     (let endpoint = (if a_mode a = DETERMINISTIC then Inr no_endpoint
                      else case a_endpoint a of
                        None \<Rightarrow> Inl (OtherException ''model-driven instance has no endpoint'')
                      | Some e \<Rightarrow> resolve_endpoint env e (outside (a_pipe a)))
      in case endpoint of
           Inl e \<Rightarrow> (a, Inl e)
         | Inr info \<Rightarrow>
             (case initialize (pipe_environment env) (ec_agent_stack c) (Some dry) (Some (a_name a))
                     (if a_description a = [] then None else Some (a_description a)) info (a_pipe a) of
                (p, r) \<Rightarrow> (a\<lparr>a_pipe := p\<rparr>, r)))"

definition run_body ::
  "nat \<Rightarrow> ('w, 'v) agent_parameters \<Rightarrow> 'w execution_context \<Rightarrow> 'v tool_value option \<Rightarrow> ('w, 'v) agent
    \<Rightarrow> ('w, 'v, 'v tool_value) action option" where
  "run_body fuel env c inp a =
     (case and_then (init_messages env a) (\<lambda>_ a1.
             and_then (auto_load_skills env c (a1\<lparr>a_loaded_skills := []\<rparr>)) (\<lambda>_ a2.
               (a2\<lparr>a_ephemeral_default_tools := []\<rparr>, Inr ()))) of
        (a3, Inl e) \<Rightarrow> Some (a3, Inl e)
      | (a3, Inr _) \<Rightarrow>
          agent_loop fuel env c None
            (DataOut (case inp of None \<Rightarrow> empty_value env | Some v \<Rightarrow> v)) a3)"

datatype 'v outcome = Returned "'v tool_value" | Raised exn

definition conclude :: "('w, 'v) agent_parameters \<Rightarrow> exn + 'v tool_value \<Rightarrow> run_status \<times> 'v outcome" where
  "conclude env r =
     (case r of
        Inr v \<Rightarrow> (COMPLETED, Returned v)
      | Inl StopAgent \<Rightarrow> (CANCELLED, Returned (stop_value env))
      | Inl (ExternalCallCancelled m) \<Rightarrow> (CANCELLED, Returned (stop_value env))
      | Inl KeyboardInterrupt \<Rightarrow> (CANCELLED, Raised KeyboardInterrupt)
      | Inl e \<Rightarrow> (FAILED, Raised e))"

definition finish ::
  "('w, 'v) agent_parameters \<Rightarrow> 'w execution_context \<Rightarrow> ('w, 'v, 'v tool_value) action
    \<Rightarrow> ('w, 'v) agent \<times> 'v outcome" where
  "finish env c result =
     (case result of (a, r) \<Rightarrow>
        (case conclude env r of (status, out) \<Rightarrow>
           (case finalize_run (pipe_environment env) (ec_agent_stack c) status (a_pipe a) of
              (p, Inr _) \<Rightarrow> (a\<lparr>a_pipe := p\<rparr>, out)
            | (p, Inl e) \<Rightarrow> (a\<lparr>a_pipe := p\<rparr>, Raised e))))"

text \<open>
  \<open>invoke\<close>: the result, the agent with its conversation, and the context with every binding
  reset; \<open>None\<close> while the run goes on.
\<close>

definition invoke ::
  "nat \<Rightarrow> ('w, 'v) agent_parameters \<Rightarrow> 'v tool_value option \<Rightarrow> bool \<Rightarrow> 'w execution_context
    \<Rightarrow> ('w, 'v) agent \<Rightarrow> ('w execution_context \<times> ('w, 'v) agent \<times> 'v outcome) option" where
  "invoke fuel env inp dry c a =
     (case bind_agent_endpoint (a_endpoint a) c of (endpoint_token, c1) \<Rightarrow>
      (case bind_context_output
              (if allows_user_interaction (a_mode a)
               then get_bound_output (Some CLI) (ec_interaction c1) else None) c1 of
         (output_token, c2) \<Rightarrow>
         (let restore = (\<lambda>c. reset_agent_endpoint endpoint_token (reset_context_output output_token c))
          in case initialize_pipe_for_invoke env c2 dry a of
               (a1, Inl e) \<Rightarrow>
                 (case finish env c2 (a1, Inl e) of (a2, out) \<Rightarrow> Some (restore c2, a2, out))
             | (a1, Inr _) \<Rightarrow>
                 (case (if dry then (None, c2) else apfst Some (push_active_agent (a_name a1) c2)) of
                    (stack_token, c3) \<Rightarrow>
                      map_option
                        (\<lambda>result. case finish env c3 result of
                           (a2, out) \<Rightarrow>
                             ((case stack_token of None \<Rightarrow> restore c3
                               | Some token \<Rightarrow> pop_active_agent token (restore c3)), a2, out))
                        (run_body fuel env c3 inp a1)))))"

end
