(* ===== verification/Roboz_Lifecycle.thy ===== *)
theory Roboz_Lifecycle
  imports Roboz_Run
begin

text \<open>
  What holds of an agent over its life: construction, additions and runs. \<open>run_invariant\<close> lists
  what a property has to satisfy to survive a run; it is interpreted for the typing of the tool
  registry and for the order in which skills load.
\<close>

section \<open>Runs\<close>

lemma invoke_cases:
  assumes "invoke fuel env inp dry c a = Some (c', a', out)"
  obtains
    (failed) e a1 c2 where "initialize_pipe_for_invoke env c2 dry a = (a1, Inl e)"
      "finish env c2 (a1, Inl e) = (a', out)"
  | (ran) a1 c2 c3 r where "initialize_pipe_for_invoke env c2 dry a = (a1, Inr ())"
      "run_body fuel env c3 inp a1 = Some r" "finish env c3 r = (a', out)"
proof -
  obtain t1 c1 where c1: "bind_agent_endpoint (a_endpoint a) c = (t1, c1)" by fastforce
  obtain t2 c2 where c2: "bind_context_output
      (if allows_user_interaction (a_mode a) then get_bound_output (Some CLI) (ec_interaction c1) else None) c1
      = (t2, c2)" by fastforce
  obtain a1 q where q: "initialize_pipe_for_invoke env c2 dry a = (a1, q)" by fastforce
  show ?thesis
  proof (cases q)
    case (Inl e)
    with assms c1 c2 q have "finish env c2 (a1, Inl e) = (a', out)"
      by (auto simp: invoke_def Let_def split: prod.splits)
    with q Inl show ?thesis by (blast intro: failed)
  next
    case (Inr u)
    obtain t3 c3 where c3: "(if dry then (None, c2) else apfst Some (push_active_agent (a_name a1) c2)) = (t3, c3)"
      by fastforce
    with assms c1 c2 q Inr obtain r where "run_body fuel env c3 inp a1 = Some r" "finish env c3 r = (a', out)"
      by (auto simp: invoke_def Let_def split: prod.splits)
    moreover from q Inr have "initialize_pipe_for_invoke env c2 dry a = (a1, Inr ())" by simp
    ultimately show ?thesis by (blast intro: ran)
  qed
qed

section \<open>Invariants of a run\<close>

definition fatal :: "exn \<Rightarrow> bool" where
  "fatal e \<longleftrightarrow> (\<exists>m. e = OtherException m)"

text \<open>
  \<open>P\<close> holds unless the action failed with an exception no handler of the step catches, and \<open>W\<close>
  holds even then.
\<close>

definition keeps ::
  "(('w, 'v) agent \<Rightarrow> bool) \<Rightarrow> (('w, 'v) agent \<Rightarrow> bool) \<Rightarrow> ('w, 'v, 'a) action \<Rightarrow> bool" where
  "keeps P W r \<longleftrightarrow>
     (case r of (a, Inr _) \<Rightarrow> P a | (a, Inl e) \<Rightarrow> W a \<and> (P a \<or> fatal e))"

lemma keeps_simps [simp]:
  "keeps P W (a, Inr x) \<longleftrightarrow> P a"
  "keeps P W (a, Inl e) \<longleftrightarrow> W a \<and> (P a \<or> fatal e)"
  by (simp_all add: keeps_def)

lemma keeps_and_then:
  assumes "keeps P W r" and "\<And>a x. P a \<Longrightarrow> keeps P W (f x a)"
  shows "keeps P W (and_then r f)"
  using assms by (cases r; cases "snd r") auto

locale run_invariant =
  fixes P :: "('w, 'v) agent \<Rightarrow> bool" and W :: "('w, 'v) agent \<Rightarrow> bool"
    and env :: "('w, 'v) agent_parameters"
  assumes weaken: "P a \<Longrightarrow> W a"
    and pipe_frame [simp]: "P (a\<lparr>a_pipe := p\<rparr>) = P a" "W (a\<lparr>a_pipe := p\<rparr>) = W a"
    and messages_frame [simp]: "P (a\<lparr>a_messages := ms\<rparr>) = P a" "W (a\<lparr>a_messages := ms\<rparr>) = W a"
    and cycle_frame [simp]:
      "P (a\<lparr>a_ephemeral_default_tools := ts\<rparr>) = P a" "W (a\<lparr>a_ephemeral_default_tools := ts\<rparr>) = W a"
    and cleared: "P a \<Longrightarrow> P (a\<lparr>a_loaded_skills := []\<rparr>)"
    and skill: "P a \<Longrightarrow> keeps P W (init_skill env out a)"
begin

lemma keeps_unchanged: "P a \<Longrightarrow> keeps P W (a, r)"
  by (cases r) (simp_all add: weaken)

lemma keeps_append: "P a \<Longrightarrow> keeps P W (append_and_pipe env m a)"
  by (simp add: append_and_pipe_def keeps_unchanged split: prod.split)

lemma keeps_call: "P a \<Longrightarrow> keeps P W (call_in_agent t inp c a)"
  by (simp add: call_in_agent_def keeps_unchanged split: prod.split)

lemma keeps_observed: "P a \<Longrightarrow> keeps P W (observed_in_agent env t inp c a)"
  by (simp add: observed_in_agent_def keeps_unchanged split: prod.split)

lemma keeps_check: "P a \<Longrightarrow> keeps P W (check_cancelled env a)"
  by (simp add: check_cancelled_def keeps_unchanged split: prod.split)

lemma keeps_pop: "P a \<Longrightarrow> keeps P W (pop_ephemeral_default_tool a)"
  by (simp add: pop_ephemeral_default_tool_def Let_def keeps_unchanged weaken split: list.split)

lemma keeps_next:
  assumes "P a"
  shows "keeps P W (get_next_tool env tool out a)"
proof (cases out)
  case (InvokeOut action v)
  with skill[OF assms, of out] show ?thesis
    by (cases "init_skill env out a"; cases "snd (init_skill env out a)")
      (auto simp: get_next_tool_def weaken split: option.split)
qed (auto simp: get_next_tool_def keeps_pop keeps_unchanged assms weaken split: list.split)

lemma keeps_initial: "P a \<Longrightarrow> keeps P W (append_initial env i a)"
  by (simp add: append_initial_def keeps_append weaken split: sum.split option.split)

lemma keeps_initials: "P a \<Longrightarrow> keeps P W (append_initials env is a)"
  by (induction "is" arbitrary: a) (simp_all add: keeps_and_then keeps_initial)

lemma keeps_messages: "P a \<Longrightarrow> keeps P W (init_messages env a)"
  by (simp add: init_messages_def Let_def keeps_and_then keeps_append keeps_initials)

lemma keeps_auto_load: "P a \<Longrightarrow> keeps P W (auto_load_skill env c s a)"
  unfolding auto_load_skill_def Let_def
  by (intro keeps_and_then skill keeps_next keeps_call keeps_append)

lemma keeps_auto_each: "P a \<Longrightarrow> keeps P W (auto_load_each env c ss a)"
  by (induction ss arbitrary: a) (simp_all add: keeps_and_then keeps_auto_load)

lemma keeps_auto_loads: "P a \<Longrightarrow> keeps P W (auto_load_skills env c a)"
  by (simp add: auto_load_skills_def keeps_and_then keeps_append keeps_auto_each)

lemma keeps_ask: "P a \<Longrightarrow> keeps P W (ask_user env c prompt a)"
  by (auto simp: ask_user_def weaken keeps_and_then keeps_call keeps_append
      split: option.split sum.split)

lemma keeps_restart: "P a \<Longrightarrow> keeps P W (restart_cycle env a)"
  by (simp add: restart_cycle_def)

lemma keeps_interrupt: "P a \<Longrightarrow> keeps P W (handle_interrupt env c a)"
  by (simp add: handle_interrupt_def Let_def keeps_and_then keeps_append keeps_ask keeps_restart)

lemma keeps_provider: "P a \<Longrightarrow> keeps P W (handle_provider_request_error env c e a)"
  by (simp add: handle_provider_request_error_def keeps_and_then keeps_ask keeps_restart)

lemma keeps_handled: "keeps P W (a, Inl e) \<Longrightarrow> keeps P W (handle_step_error env c e a)"
  by (cases e)
    (auto simp: handle_step_error_def fatal_def Let_def weaken keeps_provider keeps_interrupt)

lemma keeps_attempt: "P a \<Longrightarrow> keeps P W (attempt_step env c tool out a)"
  unfolding attempt_step_def
  by (intro keeps_and_then keeps_check keeps_next keeps_observed) simp_all

lemma keeps_advance:
  assumes "P a"
  shows "keeps P W (advance_by_step env c tool out a)"
proof (cases "attempt_step env c tool out a")
  case (Pair a1 r)
  with keeps_attempt[OF assms, of c tool out] have kept: "keeps P W (a1, r)" by simp
  show ?thesis
  proof (cases r)
    case (Inl e)
    with Pair kept show ?thesis by (simp add: advance_by_step_def keeps_handled)
  next
    case (Inr x)
    obtain t out' where "x = (t, out')" by (cases x)
    with Inr Pair kept show ?thesis
      by (simp add: advance_by_step_def keeps_and_then keeps_append)
  qed
qed

lemma keeps_loop: "P a \<Longrightarrow> agent_loop n env c tool out a = Some r \<Longrightarrow> keeps P W r"
proof (induction n arbitrary: tool out a)
  case (Suc n)
  from keeps_advance[OF Suc.prems(1), of c tool out] Suc.prems(2) show ?case
    by (cases "advance_by_step env c tool out a")
      (auto split: sum.splits tool_output.splits dest: Suc.IH)
qed simp

lemma keeps_body: "P a \<Longrightarrow> run_body fuel env c inp a = Some r \<Longrightarrow> keeps P W r"
proof -
  assume P: "P a" and run: "run_body fuel env c inp a = Some r"
  let ?start = "and_then (init_messages env a) (\<lambda>_ a1.
    and_then (auto_load_skills env c (a1\<lparr>a_loaded_skills := []\<rparr>)) (\<lambda>_ a2.
      (a2\<lparr>a_ephemeral_default_tools := []\<rparr>, Inr ())))"
  obtain a3 q where q: "?start = (a3, q)" by (cases ?start)
  have "keeps P W ?start"
    by (intro keeps_and_then keeps_messages[OF P] keeps_auto_loads cleared) simp_all
  with run q show ?thesis
    by (cases q) (auto simp: run_body_def intro: keeps_loop)
qed

lemma finish_keeps:
  assumes "keeps P W r" and "finish env c r = (a', out)"
  shows "W a' \<and> (\<forall>v. out = Returned v \<longrightarrow> P a')"
proof -
  obtain a q where r: "r = (a, q)" by (cases r)
  obtain p z where p: "finalize_run (pipe_environment env) (ec_agent_stack c)
      (fst (conclude env q)) (a_pipe a) = (p, z)" by fastforce
  have a': "a' = a\<lparr>a_pipe := p\<rparr>" and "\<forall>v. out = Returned v \<longrightarrow> snd (conclude env q) = Returned v"
    using assms(2) p r by (auto simp: finish_def split: prod.splits sum.splits)
  moreover have "\<not> fatal e" if "q = Inl e" "snd (conclude env q) = Returned v" for e v
    using that by (auto simp: conclude_def fatal_def split: exn.splits)
  ultimately show ?thesis using assms(1) r by (cases q) (auto simp: weaken)
qed

lemma invoke_keeps:
  assumes "P a" and "invoke fuel env inp dry c a = Some (c', a', out)"
  shows "W a' \<and> (\<forall>v. out = Returned v \<longrightarrow> P a')"
proof -
  have start: "keeps P W (initialize_pipe_for_invoke env c2 dry a)" for c2
    using assms(1)
    by (auto simp: initialize_pipe_for_invoke_def Let_def keeps_unchanged weaken
        split: sum.split prod.split)
  from assms(2) show ?thesis
  proof (cases rule: invoke_cases)
    case (failed e a1 c2)
    with start[of c2] have kept: "W a1 \<and> (P a1 \<or> fatal e)" by simp
    show ?thesis by (rule finish_keeps[OF _ failed(2)]) (simp add: kept)
  next
    case (ran a1 c2 c3 r)
    with start[of c2] have "P a1" by simp
    show ?thesis by (rule finish_keeps[OF keeps_body[OF \<open>P a1\<close> ran(2)] ran(3)])
  qed
qed

end


section \<open>Loading of skills\<close>

lemma check_all_fatal: "(\<And>x e. f x = Inl e \<Longrightarrow> fatal e) \<Longrightarrow> check_all f xs = Inl e \<Longrightarrow> fatal e"
proof (induction xs)
  case (Cons x xs)
  then show ?case by (cases "f x") auto
qed simp

lemma init_tools_fatal:
  assumes "init_tools env ts s a = (a', Inl e)"
  shows "fatal e"
proof -
  have link: "validate_link u t = Inl e \<Longrightarrow> fatal e" for u t :: "('a, 'b) tool" and e
    by (auto simp: validate_link_def fatal_def Let_def split: if_splits)
  have parent: "check_parent d t i = Inl e \<Longrightarrow> fatal e" for d and t :: "('a, 'b) tool" and i e
    by (auto simp: check_parent_def fatal_def link split: option.splits)
       (auto simp: link fatal_def[symmetric])
  have chains: "validate_tool_chains us = Inl e \<Longrightarrow> fatal e" for us :: "('a, 'b) tool list" and e
    by (auto simp: validate_tool_chains_def split: if_splits
        intro: check_all_fatal[OF check_all_fatal[OF parent]]) (simp_all add: fatal_def)
  have default: "check_default_tool t = Inl e \<Longrightarrow> fatal e" for t :: "('a, 'b) tool" and e
    by (auto simp: check_default_tool_def fatal_def split: if_splits)
  have prompt: "init_prompt_llm_tool env b = (b', Inl e) \<Longrightarrow> fatal e" for b b' e
    by (auto simp: init_prompt_llm_tool_def fatal_def split: if_splits option.splits)
  from assms show ?thesis
    by (auto simp: init_tools_def Let_def split: sum.splits prod.splits
        intro: check_all_fatal[OF default] chains prompt)
qed

lemma add_fatal: "add env ts s a = (a', Inl e) \<Longrightarrow> fatal e"
  by (auto simp: add_def Let_def split: prod.splits sum.splits intro: init_tools_fatal)

lemma init_skill_cases:
  assumes "init_skill env out a = (a', r)"
  obtains (same) "a' = a" "case r of Inr _ \<Rightarrow> True | Inl e \<Rightarrow> fatal e"
  | (loads) s where "s \<in> snd ` set (a_skills a @ a_auto_loaded_skills a)"
      "sk_object s \<notin> set (a_loaded_skills a)"
      "\<forall>d. sk_depends_on s = Some d \<longrightarrow> d \<in> set (a_loaded_skills a)"
      "add env [] (Some s) (a\<lparr>a_loaded_skills := a_loaded_skills a @ [sk_object s]\<rparr>) = (a', r)"
proof (cases out)
  case (InvokeOut action v)
  show ?thesis
  proof (cases "map_of (dict_union (a_skills a) (a_auto_loaded_skills a)) action")
    case None
    with assms InvokeOut show ?thesis by (intro same) (auto simp: init_skill_def)
  next
    case (Some s)
    then consider "map_of (rev (a_auto_loaded_skills a)) action = Some s"
      | "map_of (a_skills a) action = Some s"
      by (auto simp: map_of_dict_union map_add_Some_iff)
    then have mem: "s \<in> snd ` set (a_skills a @ a_auto_loaded_skills a)"
      by cases (force dest: map_of_SomeD)+
    show ?thesis
    proof (cases "sk_object s \<in> set (a_loaded_skills a) \<or>
        (\<exists>d. sk_depends_on s = Some d \<and> d \<notin> set (a_loaded_skills a))")
      case True
      with assms InvokeOut Some show ?thesis
        by (intro same) (auto simp: init_skill_def fatal_def split: option.splits if_splits)
    next
      case False
      with assms InvokeOut Some mem show ?thesis
        by (intro loads[of s]) (auto simp: init_skill_def split: option.splits)
    qed
  qed
next
  case (DataOut v)
  with assms show ?thesis by (intro same) (auto simp: init_skill_def)
next
  case (StopOut v)
  with assms show ?thesis by (intro same) (auto simp: init_skill_def)
qed

text \<open>
  The loaded skills are skills of the agent, each loaded once and after the skill it depends on;
  when \<open>available\<close>, the tools of each are registered.
\<close>

definition loads_in_order :: "bool \<Rightarrow> ('w, 'v) agent \<Rightarrow> bool" where
  "loads_in_order available a \<longleftrightarrow>
     distinct (a_loaded_skills a) \<and>
     (\<forall>i < length (a_loaded_skills a).
        \<exists>s \<in> snd ` set (a_skills a @ a_auto_loaded_skills a).
          sk_object s = a_loaded_skills a ! i \<and>
          (\<forall>d. sk_depends_on s = Some d \<longrightarrow> d \<in> set (take i (a_loaded_skills a))) \<and>
          (available \<longrightarrow> t_object ` set (sk_tools s) \<subseteq> t_object ` set (tools_of a)))"

lemma loads_in_order_empty: "a_loaded_skills a = [] \<Longrightarrow> loads_in_order available a"
  by (simp add: loads_in_order_def)

lemma loads_in_order_extend:
  assumes old: "loads_in_order available a" and new: "available' \<longrightarrow> available"
    and loaded: "a_loaded_skills a' = a_loaded_skills a @ [sk_object s]"
    and fresh: "sk_object s \<notin> set (a_loaded_skills a)"
    and dep: "\<forall>d. sk_depends_on s = Some d \<longrightarrow> d \<in> set (a_loaded_skills a)"
    and skills: "a_skills a' = a_skills a" "a_auto_loaded_skills a' = a_auto_loaded_skills a"
    and s: "s \<in> snd ` set (a_skills a @ a_auto_loaded_skills a)"
    and tools: "available' \<Longrightarrow> t_object ` set (tools_of a) \<union> t_object ` set (sk_tools s)
                  \<subseteq> t_object ` set (tools_of a')"
  shows "loads_in_order available' a'"
proof -
  have "\<exists>u \<in> snd ` set (a_skills a' @ a_auto_loaded_skills a').
      sk_object u = a_loaded_skills a' ! i \<and>
      (\<forall>d. sk_depends_on u = Some d \<longrightarrow> d \<in> set (take i (a_loaded_skills a'))) \<and>
      (available' \<longrightarrow> t_object ` set (sk_tools u) \<subseteq> t_object ` set (tools_of a'))"
    if i: "i < length (a_loaded_skills a')" for i
  proof (cases "i < length (a_loaded_skills a)")
    case True
    with old obtain u where u: "u \<in> snd ` set (a_skills a @ a_auto_loaded_skills a)"
      "sk_object u = a_loaded_skills a ! i"
      "\<forall>d. sk_depends_on u = Some d \<longrightarrow> d \<in> set (take i (a_loaded_skills a))"
      "available \<longrightarrow> t_object ` set (sk_tools u) \<subseteq> t_object ` set (tools_of a)"
      unfolding loads_in_order_def by blast
    then have "available' \<longrightarrow> t_object ` set (sk_tools u) \<subseteq> t_object ` set (tools_of a')"
      using new tools by blast
    with True u skills loaded show ?thesis by (intro bexI[of _ u]) (simp_all add: nth_append)
  next
    case False
    with i loaded have "i = length (a_loaded_skills a)" by simp
    with s dep tools skills loaded show ?thesis by (intro bexI[of _ s]) auto
  qed
  moreover have "distinct (a_loaded_skills a')" using old fresh loaded by (simp add: loads_in_order_def)
  ultimately show ?thesis by (simp add: loads_in_order_def)
qed

definition sound :: "('w, 'v) agent \<Rightarrow> bool" where
  "sound a \<longleftrightarrow> registry_typed a \<and> loads_in_order True a"

lemma init_tools_frame:
  "init_tools env ts s a = (a', r) \<Longrightarrow>
   a_loaded_skills a' = a_loaded_skills a \<and> a_skills a' = a_skills a \<and>
   a_auto_loaded_skills a' = a_auto_loaded_skills a"
  by (erule init_tools_cases) (auto dest: init_prompt_llm_tool_frame)

lemma registry_typed_prompt [simp]:
  "registry_typed (a\<lparr>a_full_system_prompt := x\<rparr>) = registry_typed a"
  "tools_of (a\<lparr>a_full_system_prompt := x\<rparr>) = tools_of a"
  by (simp_all add: registry_typed_def tables_ok_def tools_of_def)

lemma add_frame:
  "add env ts s a = (a', r) \<Longrightarrow>
   a_loaded_skills a' = a_loaded_skills a \<and> a_skills a' = a_skills a \<and>
   a_auto_loaded_skills a' = a_auto_loaded_skills a"
  by (auto simp: add_def Let_def split: prod.splits sum.splits if_splits dest: init_tools_frame)

lemma add_typed:
  assumes "add env extra s a = (a', Inr ())" and "registry_typed a"
  shows "registry_typed a' \<and> t_object ` set (tools_of a') =
    t_object ` set ((tools_of a @ extra) @ (case s of None \<Rightarrow> [] | Some s \<Rightarrow> sk_tools s))"
proof -
  from assms(1) obtain a1 where "init_tools env (tools_of a @ extra) s a = (a1, Inr ())"
    and a': "a' = a1 \<or> a' = a1\<lparr>a_full_system_prompt := get_full_system_prompt env True a1\<rparr>"
    by (auto simp: add_def tools_of_def Let_def split: prod.splits sum.splits if_splits)
  moreover have "tables_ok a" "distinct (map t_object (tools_of a))"
    using assms(2) by (simp_all add: registry_typed_def)
  ultimately show ?thesis using init_tools_typed by fastforce
qed

lemma skill_sound:
  assumes "sound a"
  shows "keeps sound (loads_in_order False) (init_skill env out a)"
proof -
  obtain a' r where r: "init_skill env out a = (a', r)" by fastforce
  from assms have weak: "loads_in_order False a"
    by (auto simp: sound_def loads_in_order_def)
  from r show ?thesis
  proof (cases rule: init_skill_cases)
    case same
    with assms weak r show ?thesis by (cases r) auto
  next
    case (loads s)
    let ?b = "a\<lparr>a_loaded_skills := a_loaded_skills a @ [sk_object s]\<rparr>"
    have b: "tools_of ?b = tools_of a" by (simp add: tools_of_def)
    note frame = add_frame[OF loads(4)]
    show ?thesis
    proof (cases r)
      case (Inl e)
      have "loads_in_order False a'"
        by (rule loads_in_order_extend[OF weak _ _ loads(2) loads(3) _ _ loads(1)]) (use frame in auto)
      moreover have "fatal e" by (rule add_fatal[OF loads(4)[unfolded Inl]])
      ultimately show ?thesis using r Inl by simp
    next
      case (Inr u)
      with loads(4) have add: "add env [] (Some s) ?b = (a', Inr ())" by simp
      have "registry_typed ?b"
        using assms by (simp add: sound_def registry_typed_def tables_ok_def b)
      from add_typed[OF add this] b have typed: "registry_typed a'"
        and objects: "t_object ` set (tools_of a') = t_object ` set (tools_of a @ sk_tools s)" by auto
      have "loads_in_order True a'"
        by (rule loads_in_order_extend[where available = True, OF _ _ _ loads(2) loads(3) _ _ loads(1)])
          (use assms frame objects in \<open>auto simp: sound_def\<close>)
      with typed r Inr show ?thesis by (simp add: sound_def)
    qed
  qed
qed

interpretation loading: run_invariant sound "loads_in_order False" env
  for env :: "('w, 'v) agent_parameters"
proof unfold_locales
  fix a :: "('w, 'v) agent" and p ms ts out
  show "sound a \<Longrightarrow> loads_in_order False a"
    by (auto simp: sound_def loads_in_order_def)
  show "sound a \<Longrightarrow> keeps sound (loads_in_order False) (init_skill env out a)" by (rule skill_sound)
qed (simp_all add: sound_def registry_typed_def tables_ok_def loads_in_order_def tools_of_def)

section \<open>The life of an agent\<close>

text \<open>Constructed, extended, and run to the end of \<open>invoke\<close> without an exception.\<close>

inductive live ::
  "('w, 'v) agent_parameters \<Rightarrow> (string \<Rightarrow> exn + string) \<Rightarrow> ('w, 'v) tool \<Rightarrow> ('w, 'v) agent \<Rightarrow> bool"
  for env valid_name default_prompt_user
where
  made: "make_agent env valid_name default_prompt_user i p = Inr a \<Longrightarrow>
    live env valid_name default_prompt_user a"
| added: "live env valid_name default_prompt_user a \<Longrightarrow> add env ts None a = (a', Inr ()) \<Longrightarrow>
    live env valid_name default_prompt_user a'"
| run: "live env valid_name default_prompt_user a \<Longrightarrow>
    invoke fuel env inp dry c a = Some (c', a', Returned v) \<Longrightarrow>
    live env valid_name default_prompt_user a'"

lemma make_agent_sound:
  assumes "make_agent env valid_name dpu i p = Inr a"
  shows "sound a"
proof -
  from assms obtain nm tool where nm: "valid_name (i_name i) = Inr nm"
    and tool: "init_execution_mode dpu i = Inr tool"
    by (cases "valid_name (i_name i)"; cases "init_execution_mode dpu i") (auto simp: make_agent_def)
  define a0 where "a0 = \<lparr>a_name = nm, a_description = i_description i, a_mode = i_mode i,
    a_system_prompt = i_system_prompt i, a_automatic_tool_prompt = i_automatic_tool_prompt i,
    a_skills = [], a_auto_loaded_skills = [], a_default_tools = i_default_tools i,
    a_prompt_user_tool = tool, a_endpoint = i_agent_endpoint i,
    a_initial_messages = i_initial_messages i, a_pipe = p, a_active_tools = [],
    a_passive_tools = [], a_messages = [], a_loaded_skills = [], a_full_system_prompt = [],
    a_prompt_llm_tool = None, a_ephemeral_default_tools = []\<rparr>"
  define extra where "extra = to_tool_list (i_tools i) @ (case tool of None \<Rightarrow> [] | Some t \<Rightarrow> [t]) @
    map sk_as_tool (i_skills i) @ map sk_as_tool (i_auto_loaded_skills i)"
  obtain a1 q where q: "init_tools env extra None a0 = (a1, q)" by fastforce
  have made: "make_agent env valid_name dpu i p =
      (case q of Inl e \<Rightarrow> Inl e
       | Inr _ \<Rightarrow> (let a2 = a1\<lparr>a_skills := skill_dict (i_skills i),
                           a_auto_loaded_skills := skill_dict (i_auto_loaded_skills i)\<rparr>
               in Inr (a2\<lparr>a_full_system_prompt :=
                      get_full_system_prompt env (a_automatic_tool_prompt a2) a2\<rparr>)))"
    unfolding make_agent_def nm tool rbind.simps a0_def[symmetric] extra_def[symmetric] Let_def q
    by (simp split: sum.split)
  with assms obtain u where "q = Inr u" by (cases q) auto
  with q have init: "init_tools env extra None a0 = (a1, Inr ())" by simp
  from made assms \<open>q = Inr u\<close> have a: "\<exists>sk au x. a = a1\<lparr>a_skills := sk, a_auto_loaded_skills := au, a_full_system_prompt := x\<rparr>"
    by (auto simp: Let_def)
  have a0: "a_active_tools a0 = []" "a_passive_tools a0 = []" "a_loaded_skills a0 = []"
    by (simp_all add: a0_def)
  from a0 have "tools_of a0 = []" "tables_ok a0" by (simp_all add: tools_of_def tables_ok_def)
  with init_tools_typed[of env a0 extra None a1] init have "registry_typed a1" by simp
  moreover have "a_loaded_skills a1 = []" using init_tools_frame[OF init] a0(3) by simp
  moreover from a obtain sk au x
    where "a = a1\<lparr>a_skills := sk, a_auto_loaded_skills := au, a_full_system_prompt := x\<rparr>" by blast
  ultimately show ?thesis
    by (simp add: sound_def registry_typed_def tables_ok_def tools_of_def loads_in_order_empty)
qed

lemma live_sound: "live env valid_name dpu a \<Longrightarrow> sound a"
proof (induction rule: live.induct)
  case (made i p a)
  then show ?case by (rule make_agent_sound)
next
  case (added a ts a')
  from added.hyps(2) have frame: "a_loaded_skills a' = a_loaded_skills a" "a_skills a' = a_skills a"
      "a_auto_loaded_skills a' = a_auto_loaded_skills a"
    by (simp_all add: add_frame)
  from added.IH have "registry_typed a" "loads_in_order True a" by (simp_all add: sound_def)
  with add_typed[OF added.hyps(2)] have "registry_typed a'"
    and "t_object ` set (tools_of a) \<subseteq> t_object ` set (tools_of a')" by auto
  with \<open>loads_in_order True a\<close> frame show ?case
    unfolding sound_def loads_in_order_def by (metis (no_types, lifting) order_trans)
next
  case (run a fuel inp dry c c' a' v)
  then show ?case using loading.invoke_keeps by blast
qed


section \<open>An example agent\<close>

definition plain_type :: "string \<Rightarrow> model_type" where
  "plain_type name = \<lparr>mt_name = name, mt_bases = [EMPTY]\<rparr>"

definition plain_value :: "string \<Rightarrow> int \<Rightarrow> int tool_value" where
  "plain_value name n = \<lparr>tv_type = plain_type name, tv_fields = [(''value'', n)], tv_images = [],
     tv_truncation = DEFAULT, tv_kind = None\<rparr>"

text \<open>A tool named \<open>name\<close> that answers every call with \<open>answer\<close>.\<close>

definition fixed_tool ::
  "nat \<Rightarrow> string \<Rightarrow> string list option \<Rightarrow> model_type \<Rightarrow> int tool_output \<Rightarrow> ('w, int) tool" where
  "fixed_tool object name parents out_type answer =
     \<lparr>t_object = object, t_id = ''id-'' @ name, t_name = name, t_input = plain_type EMPTY,
      t_fields = [], t_outputs = [out_type], t_description = name, t_chained_to = parents,
      t_condition = (\<lambda>_. True), t_validate = (\<lambda>_ _ _. Inr (plain_value EMPTY 0)),
      t_caller = (\<lambda>_ ms _ p. ((p, ms), Inr answer))\<rparr>"

definition demo_skill :: "('w, int) skill" where
  "demo_skill = \<lparr>sk_object = 9, sk_name = ''search'',
     sk_tools = [fixed_tool 5 ''lookup'' None (plain_type ''Str'') (DataOut (plain_value ''Str'' 7))],
     sk_depends_on = None,
     sk_as_tool = fixed_tool 6 ''search'' None (plain_type ''Str'') (DataOut (plain_value ''Str'' 8))\<rparr>"

definition demo_parameters :: "((nat \<times> pipe_event) list \<times> nat, int) agent_parameters" where
  "demo_parameters =
     \<lparr>pipe_environment = recording quiet_environment, to_json = JInt, clock = (\<lambda>_. ''now''),
      exception_name = (\<lambda>_. ''error''),
      make_prompt_llm = (\<lambda>_ _. fixed_tool 0 ''prompt_llm'' None (plain_type ''Str'') (DataOut (plain_value ''Str'' 0))),
      render_prompt = (\<lambda>s _ _ _. s), str_value = (\<lambda>_. plain_value ''Str'' 1),
      empty_value = plain_value EMPTY 0, stop_value = plain_value STOP 0,
      invoke_value = (\<lambda>_ _. plain_value INVOKE 2), resolve_endpoint = (\<lambda>_ _. Inr no_endpoint),
      stored_message = (\<lambda>_ _. Inr None)\<rparr>"

definition demo_inputs :: "agent_mode \<Rightarrow> ((nat \<times> pipe_event) list \<times> nat, int) agent_inputs" where
  "demo_inputs mode =
     \<lparr>i_name = ''demo'', i_description = [],
      i_tools = Some [Inl (fixed_tool 1 ''greet'' None (plain_type ''Str'') (DataOut (plain_value ''Str'' 3))),
        Inr [fixed_tool 2 ''answer'' (Some [''id-greet'']) (plain_type ''Str'') (DataOut (plain_value ''Str'' 4))]],
      i_skills = [demo_skill], i_system_prompt = ''be brief'', i_auto_loaded_skills = [demo_skill],
      i_automatic_tool_prompt = True, i_mode = mode,
      i_default_tools = [fixed_tool 3 ''tick'' None (plain_type ''Str'') (DataOut (plain_value ''Str'' 5)),
        fixed_tool 4 ''halt'' None (plain_type STOP) (StopOut (plain_value STOP 0))],
      i_custom_prompt_user_tool = None, i_agent_endpoint = Some ''e'', i_initial_messages = []\<rparr>"

definition demo_prompt_user :: "((nat \<times> pipe_event) list \<times> nat, int) tool" where
  "demo_prompt_user = fixed_tool 7 ''prompt_user'' None (plain_type ''Str'') (DataOut (plain_value ''Str'' 6))"

definition demo_context :: "((nat \<times> pipe_event) list \<times> nat) execution_context" where
  "demo_context =
     \<lparr>ec_interaction = \<lparr>current_api_user_io = None, current_output = Some API\<rparr>,
      ec_agent_stack = [''caller''], ec_agent_endpoint = None\<rparr>"

definition demo_agent :: "agent_mode \<Rightarrow> exn + ((nat \<times> pipe_event) list \<times> nat, int) agent" where
  "demo_agent mode =
     make_agent demo_parameters Inr demo_prompt_user (demo_inputs mode) (event_pipe [1] ([], 0))"

definition demo_run :: "agent_mode \<Rightarrow>
    (((nat \<times> pipe_event) list \<times> nat) execution_context \<times>
     ((nat \<times> pipe_event) list \<times> nat, int) agent \<times> int outcome) option" where
  "demo_run mode =
     (case demo_agent mode of
        Inl _ \<Rightarrow> None
      | Inr a \<Rightarrow> invoke 3 demo_parameters None False demo_context a)"

fun returned :: "'v outcome \<Rightarrow> bool" where
  "returned (Returned v) = True"
| "returned (Raised e) = False"

lemma returned_iff: "returned out \<longleftrightarrow> (\<exists>v. out = Returned v)"
  by (cases out) simp_all

lemma demo_run_returns:
  "case demo_run STEERABLE of None \<Rightarrow> False
   | Some (c', a', out) \<Rightarrow> returned out \<and> a_loaded_skills a' = [9] \<and>
       map fst (a_active_tools a') = [''id-greet'', ''id-prompt_user'', ''id-search'', ''id-lookup''] \<and>
       map fst (a_passive_tools a') = [''id-answer'']"
  by code_simp

lemma demo_run_ends:
  obtains a c' a' v where "demo_agent STEERABLE = Inr a"
    "invoke 3 demo_parameters None False demo_context a = Some (c', a', Returned v)"
  using demo_run_returns
  by (auto simp: demo_run_def returned_iff split: sum.splits option.splits)

section \<open>Properties\<close>

text \<open>
  C11. The registry of an agent that has been constructed, extended and run is well typed: a tool
  stands under its own id in the table its chaining names, no object, id or active name occurs
  twice, and every chained tool has parents whose outputs can enter its input class.
\<close>

theorem registry_stays_typed: "live env valid_name dpu a \<Longrightarrow> registry_typed a"
  using live_sound by (auto simp: sound_def)

theorem registry_stays_typed_witness:
  "\<exists>a c' a' v. demo_agent STEERABLE = Inr a \<and>
     invoke 3 demo_parameters None False demo_context a = Some (c', a', Returned v) \<and> registry_typed a'"
  using demo_run_ends registry_stays_typed[OF live.run[OF live.made]] unfolding demo_agent_def by metis

text \<open>
  However a run of such an agent ends, its loaded skills are skills of the agent, each loaded
  once and only after the skill it depends on; if the run returned, their tools are registered.
\<close>

theorem skills_load_in_order:
  assumes "live env valid_name dpu a" and "invoke fuel env inp dry c a = Some (c', a', out)"
  shows "loads_in_order False a' \<and> (\<forall>v. out = Returned v \<longrightarrow> loads_in_order True a')"
  using loading.invoke_keeps[OF live_sound[OF assms(1)] assms(2)] by (simp add: sound_def)

theorem skills_load_in_order_witness:
  "\<exists>c' a' v. demo_run STEERABLE = Some (c', a', Returned v) \<and> loads_in_order True a' \<and>
     a_loaded_skills a' = [9]"
proof -
  obtain a c' a' v where a: "demo_agent STEERABLE = Inr a"
    and run: "invoke 3 demo_parameters None False demo_context a = Some (c', a', Returned v)"
    by (rule demo_run_ends)
  have "live demo_parameters Inr demo_prompt_user a"
    using a unfolding demo_agent_def by (rule live.made)
  from skills_load_in_order[OF this run] have "loads_in_order True a'" by simp
  with a run demo_run_returns show ?thesis by (auto simp: demo_run_def)
qed

end
