(* ===== verification/Roboz_Steps.thy ===== *)
theory Roboz_Steps
  imports Roboz_Lifecycle
begin

text \<open>
  Properties of the agent's steps: the order in which default tools run, the tool a chain picks,
  what a cancellation stops, how a run is closed and what an autonomous run can reach.
\<close>

section \<open>The cycle of default tools\<close>

definition default_cycle :: "('w, 'v) agent \<Rightarrow> ('w, 'v) tool list" where
  "default_cycle a =
     a_default_tools a @ (case a_prompt_llm_tool a of None \<Rightarrow> [] | Some t \<Rightarrow> [t])"

text \<open>The tools picked for a sequence of outputs, each pick being the current tool of the next.\<close>

fun picks ::
  "('w, 'v) agent_parameters \<Rightarrow> ('w, 'v) tool option \<Rightarrow> 'v tool_value list \<Rightarrow> ('w, 'v) agent
    \<Rightarrow> exn + ('w, 'v) tool list" where
  "picks env current [] a = Inr []"
| "picks env current (v # vs) a =
     (case get_next_tool env current (DataOut v) a of
        (a1, Inl e) \<Rightarrow> Inl e
      | (a1, Inr t) \<Rightarrow>
          (case picks env (Some t) vs a1 of Inl e \<Rightarrow> Inl e | Inr ts \<Rightarrow> Inr (t # ts)))"

lemma pop_cycle:
  assumes "j < length cycle" and "a_ephemeral_default_tools a = (if j = 0 then [] else drop j cycle)"
    and "default_cycle a = cycle"
  shows "\<exists>a'. pop_ephemeral_default_tool a = (a', Inr (cycle ! j)) \<and> default_cycle a' = cycle \<and>
    a_passive_tools a' = a_passive_tools a \<and>
    a_ephemeral_default_tools a' =
      (if Suc j mod length cycle = 0 then [] else drop (Suc j mod length cycle) cycle)"
proof -
  have "(if a_ephemeral_default_tools a = [] then default_cycle a else a_ephemeral_default_tools a)
      = drop j cycle"
    using assms by auto
  also have "\<dots> = cycle ! j # drop (Suc j) cycle" using assms(1) by (rule Cons_nth_drop_Suc[symmetric])
  finally have "pop_ephemeral_default_tool a =
      (a\<lparr>a_ephemeral_default_tools := drop (Suc j) cycle\<rparr>, Inr (cycle ! j))"
    unfolding pop_ephemeral_default_tool_def default_cycle_def[symmetric] Let_def by simp
  moreover have "drop (Suc j) cycle =
      (if Suc j mod length cycle = 0 then [] else drop (Suc j mod length cycle) cycle)"
    using assms(1) by (cases "Suc j = length cycle") auto
  ultimately show ?thesis using assms(3) by (simp add: default_cycle_def)
qed

lemma picks_cycle:
  assumes "j < length cycle" and "a_ephemeral_default_tools a = (if j = 0 then [] else drop j cycle)"
    and "default_cycle a = cycle" and "a_passive_tools a = []"
  shows "picks env current vs a = Inr (map (\<lambda>i. cycle ! ((j + i) mod length cycle)) [0..<length vs])"
  using assms
proof (induction vs arbitrary: j a current)
  case (Cons v vs)
  from pop_cycle[OF Cons.prems(1-3)] obtain a' where
    pop: "pop_ephemeral_default_tool a = (a', Inr (cycle ! j))" and
    next_state: "a_ephemeral_default_tools a' =
      (if Suc j mod length cycle = 0 then [] else drop (Suc j mod length cycle) cycle)"
      "default_cycle a' = cycle" "a_passive_tools a' = []"
    using Cons.prems(4) by auto
  have "chained_successors a current (DataOut v) = []"
    using Cons.prems(4) by (simp add: chained_successors_def split: option.split)
  with pop have step: "get_next_tool env current (DataOut v) a = (a', Inr (cycle ! j))"
    by (simp add: get_next_tool_def)
  have "Suc j mod length cycle < length cycle"
    using Cons.prems(1) by (cases cycle) (simp_all del: mod_Suc)
  from Cons.IH[OF this next_state] have rest: "picks env (Some (cycle ! j)) vs a' =
      Inr (map (\<lambda>i. cycle ! ((Suc j + i) mod length cycle)) [0..<length vs])"
    by (simp add: mod_simps)
  have "[0..<Suc (length vs)] = 0 # map Suc [0..<length vs]"
    by (simp add: map_Suc_upt upt_conv_Cons del: upt_Suc)
  with step rest Cons.prems(1) show ?case by (simp del: upt_Suc)
qed simp

section \<open>Chains\<close>

lemma get_next_chained:
  assumes "get_next_tool env (Some tool) (DataOut v) a = (a', Inr t)"
    and "chained_successors a (Some tool) (DataOut v) \<noteq> []"
  shows "a' = a \<and> t \<in> snd ` set (a_passive_tools a) \<and> t_id tool \<in> set (parents_of_tool t) \<and>
    t_condition t (DataOut v)"
proof -
  from assms have "chained_successors a (Some tool) (DataOut v) = [t]" and "a' = a"
    by (auto simp: get_next_tool_def split: list.splits)
  then have "t \<in> set (chained_successors a (Some tool) (DataOut v))" by simp
  then show ?thesis using \<open>a' = a\<close>
    by (auto simp: chained_successors_def parents_of_tool_def split: option.splits)
qed

section \<open>Cancellation\<close>

text \<open>The state of the loop after \<open>k\<close> steps, when none of them ended it.\<close>

fun loop_state ::
  "nat \<Rightarrow> ('w, 'v) agent_parameters \<Rightarrow> 'w execution_context \<Rightarrow> ('w, 'v) tool option \<Rightarrow> 'v tool_output
    \<Rightarrow> ('w, 'v) agent \<Rightarrow> (('w, 'v) tool option \<times> 'v tool_output \<times> ('w, 'v) agent) option" where
  "loop_state 0 env c tool out a = Some (tool, out, a)"
| "loop_state (Suc k) env c tool out a =
     (case advance_by_step env c tool out a of
        (a1, Inl e) \<Rightarrow> None
      | (a1, Inr (tool', StopOut v)) \<Rightarrow> None
      | (a1, Inr (tool', out')) \<Rightarrow> loop_state k env c tool' out' a1)"

lemma loop_resumes:
  "loop_state k env c tool out a = Some (tool', out', a') \<Longrightarrow>
   agent_loop (k + n) env c tool out a = agent_loop n env c tool' out' a'"
  by (induction k env c tool out a rule: loop_state.induct)
    (auto split: prod.splits sum.splits tool_output.splits)

lemma observe_cancelled: "cancel_signal p \<Longrightarrow> cancel_signal (observe env p)"
proof -
  have "cancel_signal q \<Longrightarrow> cancel_signal (fold request rs q)" for rs and q :: "'a pipe"
  proof (induction rs arbitrary: q)
    case (Cons r rs)
    then show ?case by (cases r) (simp_all add: cancel_def interrupt_def)
  qed simp
  then show "cancel_signal p \<Longrightarrow> cancel_signal (observe env p)"
    by (simp add: observe_def split: prod.split)
qed

lemma cancelled_step:
  assumes "cancel_signal (a_pipe a)"
  shows "advance_by_step env c tool out a =
    (a\<lparr>a_pipe := observe (pipe_environment env) (a_pipe a)\<rparr>,
     Inl (ExternalCallCancelled ''External call cancelled''))"
  using observe_cancelled[OF assms]
  by (simp add: advance_by_step_def attempt_step_def check_cancelled_def raise_if_cancelled_def
      Let_def handle_step_error_def)

section \<open>Closing a run\<close>

text \<open>What the status of the last event says of the outcome of \<open>invoke\<close>.\<close>

definition status_tells :: "'v tool_value \<Rightarrow> run_status option \<Rightarrow> 'v outcome \<Rightarrow> bool" where
  "status_tells stop status out =
     (case status of
        Some COMPLETED \<Rightarrow> returned out
      | Some CANCELLED \<Rightarrow> out = Returned stop \<or> out = Raised KeyboardInterrupt
      | Some FAILED \<Rightarrow> \<not> returned out \<and> out \<noteq> Raised KeyboardInterrupt
      | _ \<Rightarrow> False)"

lemma conclude_tells: "status_tells (stop_value env) (Some (fst (conclude env r))) (snd (conclude env r))"
  by (auto simp: conclude_def status_tells_def split: sum.split exn.split)

lemma finish_stops:
  assumes "finish env c r = (a', out)" and "pipe_environment env = recording e"
    and "\<not> dry_run (a_pipe a')" and "sinks (a_pipe a') = s # ss" and "s \<notin> set ss"
  shows "\<exists>pre l. received s (a_pipe a') = pre @ [RunLifecycleEvent l] \<and> lc_kind l = Stopped \<and>
    lc_agent_name l = current_agent_name (a_pipe a') \<and>
    (status_tells (stop_value env) (lc_status l) out \<or> (\<exists>x. out = Raised x \<and> sink_raised e s (a_pipe a') x))"
proof -
  obtain a q where r: "r = (a, q)" by (cases r)
  define status where "status = fst (conclude env q)"
  obtain p z where p: "finalize_run (recording e) (ec_agent_stack c) status (a_pipe a) = (p, z)"
    by fastforce
  have a': "a' = a\<lparr>a_pipe := p\<rparr>"
    using assms(1,2) p r by (auto simp: finish_def status_def split: prod.splits sum.splits)
  have live: "\<not> dry_run (a_pipe a)"
    using p assms(3) a' by (cases "dry_run (a_pipe a)") (auto simp: finalize_run_def)
  define l where "l = \<lparr>lc_kind = Stopped, lc_agent_name = current_agent_name (a_pipe a),
      lc_sequence = Suc (sequence (a_pipe a)),
      lc_agent_description = current_agent_description (a_pipe a),
      lc_parent_agent_name = (if 2 \<le> length (ec_agent_stack c)
        then Some (ec_agent_stack c ! (length (ec_agent_stack c) - 2)) else None),
      lc_status = Some status, lc_endpoint = current_endpoint (a_pipe a)\<rparr>"
  have fin: "emit (recording e) (RunLifecycleEvent l) (advance (a_pipe a)) = (p, z)"
    using p live by (simp add: finalize_run_def Let_def l_def advance_def)
  from emit_frame[of "recording e" "RunLifecycleEvent l" "advance (a_pipe a)"] fin assms(4) a'
  have all_sinks: "sinks (advance (a_pipe a)) = s # ss" by simp
  have raised: "sink_raised e s p x" if "z = Inl x" for x
    by (rule emit_refused[OF all_sinks assms(5)]) (use fin that in simp)
  from emit_received[OF all_sinks assms(5), of e "RunLifecycleEvent l"] fin a'
  have "received s (a_pipe a') = received s (advance (a_pipe a)) @ [RunLifecycleEvent l]" by simp
  moreover have "current_agent_name p = current_agent_name (a_pipe a)"
    using fin by (auto simp: emit_def advance_def split: prod.splits option.splits)
  moreover have "out = snd (conclude env q) \<or> (\<exists>x. out = Raised x \<and> sink_raised e s p x)"
    using assms(1,2) p r raised by (cases z) (auto simp: finish_def status_def split: prod.splits)
  ultimately show ?thesis
    using conclude_tells[of env q] a' by (auto simp: l_def status_def)
qed

lemma invoke_restores_context:
  "invoke fuel env inp dry c a = Some (c', a', out) \<Longrightarrow> c' = c"
  by (auto simp: invoke_def Let_def bind_agent_endpoint_def bind_context_output_def bind_output_def
      reset_agent_endpoint_def reset_context_output_def reset_output_def push_active_agent_def
      pop_active_agent_def split: prod.splits sum.splits if_splits)

section \<open>Autonomy\<close>

text \<open>The context the tools of a run see.\<close>

definition run_context :: "bool \<Rightarrow> 'w execution_context \<Rightarrow> ('w, 'v) agent \<Rightarrow> 'w execution_context" where
  "run_context dry c a =
     (let c1 = snd (bind_agent_endpoint (a_endpoint a) c);
          c2 = snd (bind_context_output
                 (if allows_user_interaction (a_mode a)
                  then get_bound_output (Some CLI) (ec_interaction c1) else None) c1)
      in if dry then c2 else snd (push_active_agent (a_name a) c2))"

lemma invoke_runs_in_context:
  assumes "initialize_pipe_for_invoke env c2 dry a = (a1, Inr ())" and "c2 = run_context True c a"
  shows "map_option snd (invoke fuel env inp dry c a) =
    map_option (finish env (run_context dry c a)) (run_body fuel env (run_context dry c a) inp a1)"
proof -
  have name: "a_name a1 = a_name a"
    using assms(1) by (auto simp: initialize_pipe_for_invoke_def Let_def split: sum.splits prod.splits)
  obtain t1 c1 where c1: "bind_agent_endpoint (a_endpoint a) c = (t1, c1)" by fastforce
  obtain t2 c2' where c2': "bind_context_output
      (if allows_user_interaction (a_mode a) then get_bound_output (Some CLI) (ec_interaction c1) else None) c1
      = (t2, c2')" by fastforce
  have c2: "c2 = c2'" using assms(2) c1 c2' by (simp add: run_context_def Let_def)
  have c3: "run_context dry c a = (if dry then c2 else snd (push_active_agent (a_name a) c2))"
    using c1 c2' c2 by (simp add: run_context_def Let_def)
  show ?thesis
    using assms(1) c1 c2' unfolding c3 c2
    by (cases dry) (simp_all add: invoke_def Let_def case_prod_beta name option.map_comp comp_def)
qed

lemma run_context_autonomous:
  assumes "a_mode a = AUTONOMOUS"
  shows "current_output (ec_interaction (run_context dry c a)) = None"
  using assms by (simp add: run_context_def Let_def allows_user_interaction_def bind_context_output_def
      bind_output_def push_active_agent_def)

section \<open>Properties\<close>

text \<open>
  Default tools run in turns: whatever values the tools give, as long as nothing is invoked
  and no tool is chained, the \<open>i\<close>-th tool is number \<open>i\<close> modulo the number of default tools (the
  model prompt being the last of them).
\<close>

theorem default_tools_take_turns:
  assumes "default_cycle a \<noteq> []" and "a_ephemeral_default_tools a = []" and "a_passive_tools a = []"
  shows "picks env current vs a =
    Inr (map (\<lambda>i. default_cycle a ! (i mod length (default_cycle a))) [0..<length vs])"
  using picks_cycle[of 0 "default_cycle a" a env current vs] assms by simp

theorem default_tools_take_turns_witness:
  "\<exists>a. demo_agent STEERABLE = Inr a \<and>
     picks demo_parameters None (replicate 4 (plain_value EMPTY 0)) (a\<lparr>a_passive_tools := []\<rparr>) =
       Inr (map (\<lambda>i. default_cycle (a\<lparr>a_passive_tools := []\<rparr>) ! (i mod 3)) [0..<4])"
proof -
  have "case demo_agent STEERABLE of Inl _ \<Rightarrow> False
     | Inr a \<Rightarrow> length (default_cycle (a\<lparr>a_passive_tools := []\<rparr>)) = 3 \<and>
         length (a_ephemeral_default_tools a) = 0" by code_simp
  then obtain a where "demo_agent STEERABLE = Inr a"
    "length (default_cycle (a\<lparr>a_passive_tools := []\<rparr>)) = 3" "a_ephemeral_default_tools a = []"
    by (auto split: sum.splits)
  with default_tools_take_turns[of "a\<lparr>a_passive_tools := []\<rparr>" demo_parameters None
      "replicate 4 (plain_value EMPTY 0)"]
  show ?thesis by force
qed

text \<open>
  In a live agent a tool that is picked by a chain accepts what it is given: when the tool
  before it has one output class that does not end the run, a value of that class is in the input
  class of the tool the chain picks.
\<close>

theorem chained_tool_accepts_output:
  assumes "live env valid_name dpu a" and "tool \<in> set (tools_of a)"
    and "filter (\<lambda>out. \<not> issubclass out STOP) (t_outputs tool) = [tv_type v]"
    and "get_next_tool env (Some tool) (DataOut v) a = (a', Inr t)"
    and "chained_successors a (Some tool) (DataOut v) \<noteq> []"
  shows "issubclass (tv_type v) (mt_name (t_input t))"
proof -
  note t = get_next_chained[OF assms(4,5)]
  then have "t \<in> set (tools_of a)" by (simp add: tools_of_def)
  with live_sound[OF assms(1)] assms(2) t have "link_ok tool t"
    by (simp add: sound_def registry_typed_def)
  moreover have "tv_type v \<in> set (filter (\<lambda>out. \<not> issubclass out STOP) (t_outputs tool))"
    unfolding assms(3) by simp
  then have "tv_type v \<in> set (t_outputs tool)" "\<not> issubclass (tv_type v) STOP" by simp_all
  ultimately obtain out where out: "out \<in> set (t_outputs tool)" "\<not> issubclass out STOP"
    "issubclass out (mt_name (t_input t))" unfolding link_ok_def by blast
  then have "out \<in> set (filter (\<lambda>out. \<not> issubclass out STOP) (t_outputs tool))" by simp
  with assms(3) out show ?thesis by simp
qed

theorem chained_tool_accepts_output_witness:
  "\<exists>a tool a' t. demo_agent STEERABLE = Inr a \<and>
     get_next_tool demo_parameters (Some tool) (DataOut (plain_value ''Str'' 3)) a = (a', Inr t) \<and>
     issubclass (plain_type ''Str'') (mt_name (t_input t))"
proof -
  let ?v = "plain_value ''Str'' 3"
  let ?good = "\<lambda>a tool. filter (\<lambda>out. \<not> issubclass out STOP) (t_outputs tool) = [tv_type ?v] \<and>
      length (chained_successors a (Some tool) (DataOut ?v)) = 1 \<and>
      (case snd (get_next_tool demo_parameters (Some tool) (DataOut ?v) a) of
         Inl _ \<Rightarrow> False | Inr _ \<Rightarrow> True)"
  have "case demo_agent STEERABLE of Inl _ \<Rightarrow> False | Inr a \<Rightarrow> list_ex (?good a) (tools_of a)"
    by code_simp
  then obtain a where a: "demo_agent STEERABLE = Inr a" and "list_ex (?good a) (tools_of a)"
    by (cases "demo_agent STEERABLE") auto
  then obtain tool where tool: "tool \<in> set (tools_of a)" and good: "?good a tool"
    unfolding list_ex_iff by blast
  then have types: "filter (\<lambda>out. \<not> issubclass out STOP) (t_outputs tool) = [tv_type ?v]"
    and one: "length (chained_successors a (Some tool) (DataOut ?v)) = 1" by blast+
  obtain a' r where "get_next_tool demo_parameters (Some tool) (DataOut ?v) a = (a', r)" by fastforce
  with good obtain t where t: "get_next_tool demo_parameters (Some tool) (DataOut ?v) a = (a', Inr t)"
    by (cases r) auto
  from one have "chained_successors a (Some tool) (DataOut ?v) \<noteq> []" by auto
  moreover have "live demo_parameters Inr demo_prompt_user a"
    using a unfolding demo_agent_def by (rule live.made)
  ultimately have "issubclass (tv_type ?v) (mt_name (t_input t))"
    by (intro chained_tool_accepts_output[OF _ tool types t])
  moreover have "tv_type ?v = plain_type ''Str''" by (simp add: plain_value_def)
  ultimately show ?thesis using a t by metis
qed

text \<open>
  C13. Cancellation ends a run: from whatever state the loop has reached, a pipe that has been
  cancelled makes the next step the last one, without calling a tool or adding a message, and
  \<open>invoke\<close> then reports the run as cancelled.
\<close>

theorem cancellation_ends_the_loop:
  assumes "loop_state k env c tool out a = Some (tool', out', a')" and "cancel_signal (a_pipe a')"
  shows "\<exists>a'' e. agent_loop (k + Suc n) env c tool out a = Some (a'', Inl e) \<and>
    a'' = a'\<lparr>a_pipe := observe (pipe_environment env) (a_pipe a')\<rparr> \<and>
    conclude env (Inl e) = (CANCELLED, Returned (stop_value env))"
  using loop_resumes[OF assms(1), of "Suc n"] cancelled_step[OF assms(2)]
  by (simp add: conclude_def)

definition cancelling_tool :: "((nat \<times> pipe_event) list \<times> nat, int) tool" where
  "cancelling_tool = (fixed_tool 11 ''stop_me'' None (plain_type ''Str'') (DataOut (plain_value ''Str'' 5)))
     \<lparr>t_caller := (\<lambda>_ ms _ p. ((cancel p, ms), Inr (DataOut (plain_value ''Str'' 5))))\<rparr>"

theorem cancellation_ends_the_loop_witness:
  "\<exists>a a'' e. demo_agent STEERABLE = Inr a \<and>
     agent_loop (1 + Suc 4) demo_parameters demo_context None (DataOut (plain_value EMPTY 0))
       (a\<lparr>a_ephemeral_default_tools := [cancelling_tool]\<rparr>) = Some (a'', Inl e) \<and>
     conclude demo_parameters (Inl e) = (CANCELLED, Returned (plain_value STOP 0))"
proof -
  have "case demo_agent STEERABLE of Inl _ \<Rightarrow> False
     | Inr a \<Rightarrow>
         (case loop_state 1 demo_parameters demo_context None (DataOut (plain_value EMPTY 0))
                 (a\<lparr>a_ephemeral_default_tools := [cancelling_tool]\<rparr>) of
            None \<Rightarrow> False | Some (_, _, a') \<Rightarrow> cancel_signal (a_pipe a'))" by code_simp
  then obtain a tool out a' where "demo_agent STEERABLE = Inr a" and
    "loop_state 1 demo_parameters demo_context None (DataOut (plain_value EMPTY 0))
       (a\<lparr>a_ephemeral_default_tools := [cancelling_tool]\<rparr>) = Some (tool, out, a')"
    "cancel_signal (a_pipe a')"
    by (auto split: sum.splits option.splits)
  moreover have "stop_value demo_parameters = plain_value STOP 0" by (simp add: demo_parameters_def)
  ultimately show ?thesis using cancellation_ends_the_loop[where n = 4] by metis
qed

text \<open>
  C12. Every run that is not dry is closed truthfully: whatever its tools did and whatever the sinks
  raised, the context is as before, and the last event the first sink received says that the agent
  stopped, with the status of the outcome that \<open>invoke\<close> has; only when a sink raises on that very
  event does the run end with the sink's exception instead. (The first sink is subscribed once.)
\<close>

theorem run_is_closed_truthfully:
  assumes "invoke fuel env inp dry c a = Some (c', a', out)" and "pipe_environment env = recording e"
    and "\<not> dry_run (a_pipe a')" and "sinks (a_pipe a') = s # ss" and "s \<notin> set ss"
  shows "c' = c \<and>
    (\<exists>pre l. received s (a_pipe a') = pre @ [RunLifecycleEvent l] \<and> lc_kind l = Stopped \<and>
       lc_agent_name l = current_agent_name (a_pipe a') \<and>
       (status_tells (stop_value env) (lc_status l) out \<or> (\<exists>x. out = Raised x \<and> sink_raised e s (a_pipe a') x)))"
proof -
  obtain c3 r where "finish env c3 r = (a', out)"
    using assms(1) by (rule invoke_cases) blast+
  from finish_stops[OF this assms(2-5)] invoke_restores_context[OF assms(1)] show ?thesis by blast
qed

theorem run_is_closed_truthfully_witness:
  "\<exists>c' a' v pre l. demo_run STEERABLE = Some (c', a', Returned v) \<and> c' = demo_context \<and>
     received 1 (a_pipe a') = pre @ [RunLifecycleEvent l] \<and> lc_kind l = Stopped \<and>
     status_tells (plain_value STOP 0) (lc_status l) (Returned v)"
proof -
  obtain a c' a' v where a: "demo_agent STEERABLE = Inr a"
    and run: "invoke 3 demo_parameters None False demo_context a = Some (c', a', Returned v)"
    by (rule demo_run_ends)
  have "case demo_run STEERABLE of None \<Rightarrow> False
     | Some (_, a', _) \<Rightarrow> \<not> dry_run (a_pipe a') \<and> sinks (a_pipe a') = [1]" by code_simp
  with a run have pipe: "\<not> dry_run (a_pipe a')" "sinks (a_pipe a') = [1]" by (simp_all add: demo_run_def)
  have env: "pipe_environment demo_parameters = recording quiet_environment"
    "stop_value demo_parameters = plain_value STOP 0" by (simp_all add: demo_parameters_def)
  with run_is_closed_truthfully[OF run env(1) pipe] env a run show ?thesis
    by (fastforce simp: demo_run_def)
qed

text \<open>
  An autonomous agent cannot reach a user: the context its tools run in has no output, so an
  interaction fails without a prompt, and its runs are the same whatever output the caller bound.
\<close>

theorem autonomous_run_has_no_user:
  assumes "a_mode a = AUTONOMOUS"
  shows "(\<exists>e. interact_with_user term (ec_interaction (run_context dry c a)) prompt with_reply timeout accepts h
           = (h, Inl (UserInputUnavailableError e))) \<and>
    map_option snd (invoke fuel env inp dry (c\<lparr>ec_interaction := (ec_interaction c)\<lparr>current_output := channel\<rparr>\<rparr>) a) =
    map_option snd (invoke fuel env inp dry c a)"
proof
  show "\<exists>e. interact_with_user term (ec_interaction (run_context dry c a)) prompt with_reply timeout accepts h
      = (h, Inl (UserInputUnavailableError e))"
    by (rule interact_unbound) (rule run_context_autonomous[OF assms])
  show "map_option snd (invoke fuel env inp dry (c\<lparr>ec_interaction := (ec_interaction c)\<lparr>current_output := channel\<rparr>\<rparr>) a)
      = map_option snd (invoke fuel env inp dry c a)"
    using assms
    by (simp add: invoke_def Let_def allows_user_interaction_def bind_agent_endpoint_def
        bind_context_output_def bind_output_def push_active_agent_def option.map_comp comp_def
        case_prod_beta split: sum.split)
qed

theorem autonomous_run_has_no_user_witness:
  "\<exists>a. demo_agent AUTONOMOUS = Inr a \<and>
     map_option snd (invoke 3 demo_parameters None False
       (demo_context\<lparr>ec_interaction := (ec_interaction demo_context)\<lparr>current_output := None\<rparr>\<rparr>) a) =
     map_option snd (invoke 3 demo_parameters None False demo_context a)"
proof -
  have "case demo_agent AUTONOMOUS of Inl _ \<Rightarrow> False | Inr a \<Rightarrow> a_mode a = AUTONOMOUS" by code_simp
  then obtain a where "demo_agent AUTONOMOUS = Inr a" "a_mode a = AUTONOMOUS" by (auto split: sum.splits)
  moreover from this(2) have "map_option snd (invoke 3 demo_parameters None False
       (demo_context\<lparr>ec_interaction := (ec_interaction demo_context)\<lparr>current_output := None\<rparr>\<rparr>) a) =
     map_option snd (invoke 3 demo_parameters None False demo_context a)"
    by (rule autonomous_run_has_no_user[THEN conjunct2])
  ultimately show ?thesis by blast
qed

end
