(* ===== verification/Roboz_Persist.thy ===== *)
theory Roboz_Persist
  imports Roboz_Pipe
begin

text \<open>
  The persistence sink: run documents and rows (\<open>runtime/persistence/schema.py\<close>), activity
  markers (\<open>runtime/persistence/activity.py\<close>), run paths (\<open>runtime/_paths.py\<close>) and
  \<open>PersistenceSink\<close> (\<open>runtime/sinks.py\<close>). The disk keeps documents as values and markers as
  paths; \<open>uuid4\<close>, the clock and the errors of the disk are a host of any type \<open>'w\<close>. Directories
  hold no links. Telemetry of messages is left out.
\<close>

section \<open>Rows and documents\<close>

record logged_message_row =
  lm_message_id :: string
  lm_sequence :: nat
  lm_created_at :: string
  lm_role :: role
  lm_content :: string
  lm_caller :: "string option"
  lm_image_names :: "string list"
  lm_truncation :: truncation_spec
  lm_message_kind :: "message_kind option"

record runtime_event_row =
  er_event_id :: string
  er_sequence :: nat
  er_created_at :: string
  er_category :: event_category
  er_kind :: event_kind
  er_level :: event_level
  er_message :: string
  er_agent_name :: string
  er_data :: "(string \<times> string) list"

record conversation_run =
  conversation_id :: string
  run_agent_name :: string
  started_at :: string
  ended_at :: "string option"
  run_status_of :: run_status
  run_description :: "string option"
  run_messages :: "logged_message_row list"
  run_events :: "runtime_event_row list"

record instant =
  in_year :: nat
  in_month :: nat
  in_day :: nat
  in_hour :: nat
  in_minute :: nat
  in_second :: nat
  in_milli :: nat

text \<open>\<open>f"{n:0wd}"\<close>.\<close>

definition zero_padded :: "nat \<Rightarrow> nat \<Rightarrow> string" where
  "zero_padded w n =
     (let digits = show_int (int n) in replicate (w - length digits) (CHR ''0'') @ digits)"

definition utc_iso_z :: "instant \<Rightarrow> string" where
  "utc_iso_z t =
     zero_padded 4 (in_year t) @ ''-'' @ zero_padded 2 (in_month t) @ ''-'' @
     zero_padded 2 (in_day t) @ ''T'' @ zero_padded 2 (in_hour t) @ '':'' @
     zero_padded 2 (in_minute t) @ '':'' @ zero_padded 2 (in_second t) @ ''.'' @
     zero_padded 3 (in_milli t) @ ''Z''"

text \<open>
  \<open>image.filename\<close> is a parameter; the time stamp of a message is its ISO text, on which
  \<open>fromisoformat\<close> and \<open>isoformat\<close> are inverse.
\<close>

definition image_names :: "(string \<Rightarrow> string option) \<Rightarrow> string list \<Rightarrow> string list" where
  "image_names filename imgs =
     map (\<lambda>(i, image).
            case filename image of
              Some name \<Rightarrow> if name \<noteq> [] then name else ''image-'' @ show_int (int i)
            | None \<Rightarrow> ''image-'' @ show_int (int i))
       (zip [1..<Suc (length imgs)] imgs)"

definition message_to_logged_row ::
  "(string \<Rightarrow> string option) \<Rightarrow> message \<Rightarrow> string \<Rightarrow> nat \<Rightarrow> logged_message_row" where
  "message_to_logged_row filename m identifier n =
     \<lparr>lm_message_id = identifier, lm_sequence = n, lm_created_at = timestamp m,
      lm_role = msg_role m, lm_content = content m, lm_caller = caller m,
      lm_image_names = image_names filename (images m), lm_truncation = msg_truncation m,
      lm_message_kind = message_kind m\<rparr>"

definition logged_row_to_message :: "logged_message_row \<Rightarrow> message" where
  "logged_row_to_message row =
     \<lparr>msg_role = lm_role row, content = lm_content row, images = [], caller = lm_caller row,
      timestamp = lm_created_at row, msg_truncation = lm_truncation row,
      message_kind = lm_message_kind row\<rparr>"

definition runtime_event_to_logged_row ::
  "runtime_event \<Rightarrow> string \<Rightarrow> instant \<Rightarrow> runtime_event_row" where
  "runtime_event_to_logged_row e identifier created =
     \<lparr>er_event_id = identifier, er_sequence = re_sequence e, er_created_at = utc_iso_z created,
      er_category = re_category e, er_kind = re_kind e, er_level = re_level e,
      er_message = re_message e, er_agent_name = re_agent_name e, er_data = re_data e\<rparr>"

section \<open>The disk\<close>

type_synonym location = "string list"

record 'w host =
  fresh_uuid :: "'w \<Rightarrow> 'w \<times> string"
  utc_now :: "'w \<Rightarrow> 'w \<times> instant"
  disk_error :: "'w \<Rightarrow> 'w \<times> exn option"

record 'w disk =
  documents :: "location \<Rightarrow> conversation_run option"
  markers :: "location list"
  surroundings :: 'w

text \<open>The temporary file never shows: a failed write leaves the old document.\<close>

definition atomic_write_json ::
  "'w host \<Rightarrow> location \<Rightarrow> conversation_run \<Rightarrow> 'w disk \<Rightarrow> 'w disk \<times> (exn + unit)" where
  "atomic_write_json h path run d =
     (case disk_error h (surroundings d) of
        (w, Some e) \<Rightarrow> (d\<lparr>surroundings := w\<rparr>, Inl e)
      | (w, None) \<Rightarrow>
          (d\<lparr>documents := (documents d)(path := Some run), surroundings := w\<rparr>, Inr ()))"

text \<open>
  The tests for absolute paths of both kinds are left out: such a text holds a separator.
\<close>

definition conversation_marker_path :: "location \<Rightarrow> string \<Rightarrow> exn + location" where
  "conversation_marker_path agent_dir identifier =
     (if identifier = [] \<or> identifier = ''.'' \<or> identifier = ''..'' \<or>
         CHR ''/'' \<in> set identifier \<or> CHR 0x5C \<in> set identifier
      then Inl (OtherException ''conversation_id must be one non-empty path component'')
      else Inr (agent_dir @ [''.lifecycle'', ''active'', identifier @ ''.run'']))"

definition mark_conversation_active ::
  "'w host \<Rightarrow> location \<Rightarrow> string \<Rightarrow> 'w disk \<Rightarrow> 'w disk \<times> (exn + unit)" where
  "mark_conversation_active h agent_dir identifier d =
     (case conversation_marker_path agent_dir identifier of
        Inl e \<Rightarrow> (d, Inl e)
      | Inr marker \<Rightarrow>
          (case disk_error h (surroundings d) of
             (w, Some e) \<Rightarrow> (d\<lparr>surroundings := w\<rparr>, Inl e)
           | (w, None) \<Rightarrow>
               if marker \<in> set (markers d)
               then (d\<lparr>surroundings := w\<rparr>, Inl (OtherException ''FileExistsError''))
               else (d\<lparr>markers := marker # markers d, surroundings := w\<rparr>, Inr ())))"

definition clear_conversation_active ::
  "'w host \<Rightarrow> location \<Rightarrow> string \<Rightarrow> 'w disk \<Rightarrow> 'w disk \<times> (exn + unit)" where
  "clear_conversation_active h agent_dir identifier d =
     (case conversation_marker_path agent_dir identifier of
        Inl e \<Rightarrow> (d, Inl e)
      | Inr marker \<Rightarrow>
          (case disk_error h (surroundings d) of
             (w, Some e) \<Rightarrow> (d\<lparr>surroundings := w\<rparr>, Inl e)
           | (w, None) \<Rightarrow>
               (d\<lparr>markers := removeAll marker (markers d), surroundings := w\<rparr>, Inr ())))"

text \<open>Markers of agents directly below a root, found without reading documents.\<close>

definition is_marker_of :: "location \<Rightarrow> string \<Rightarrow> location \<Rightarrow> bool" where
  "is_marker_of directory name marker \<longleftrightarrow>
     length marker = length directory + 4 \<and> take (length directory) marker = directory \<and>
     marker ! length directory = name \<and>
     marker ! (length directory + 1) = ''.lifecycle'' \<and> marker ! (length directory + 2) = ''active'' \<and>
     suffix ''.run'' (last marker)"

definition direct_child :: "string \<Rightarrow> bool" where
  "direct_child name \<longleftrightarrow>
     name \<noteq> [] \<and> name \<noteq> ''.'' \<and> name \<noteq> ''..'' \<and> CHR ''/'' \<notin> set name"

definition active_marker_paths :: "location \<Rightarrow> string list \<Rightarrow> 'w disk \<Rightarrow> location list" where
  "active_marker_paths directory names d =
     concat (map (\<lambda>name. filter (is_marker_of directory name) (markers d))
       (filter direct_child (remdups names)))"

definition active_agent_names :: "location \<Rightarrow> string list \<Rightarrow> 'w disk \<Rightarrow> string list" where
  "active_agent_names directory names d =
     remdups (map (\<lambda>marker. marker ! (length marker - 4)) (active_marker_paths directory names d))"

definition get_conversation_run_path :: "location \<Rightarrow> instant \<Rightarrow> string \<Rightarrow> location" where
  "get_conversation_run_path data_folder started identifier =
     data_folder @ [zero_padded 4 (in_year started), zero_padded 2 (in_month started),
       zero_padded 2 (in_day started), identifier @ ''.json'']"

section \<open>The sink\<close>

record persistence_sink =
  data_path :: location
  detail_predicate :: "(pipe_event \<Rightarrow> bool) option"
  conversations_location :: "location option"
  conversation_run_of :: "conversation_run option"

type_synonym 'w store = "persistence_sink \<times> 'w disk"

definition reset_run :: "persistence_sink \<Rightarrow> persistence_sink" where
  "reset_run s = s\<lparr>conversations_location := None, conversation_run_of := None\<rparr>"

definition should_persist_detail :: "persistence_sink \<Rightarrow> pipe_event \<Rightarrow> bool" where
  "should_persist_detail s event =
     (case detail_predicate s of None \<Rightarrow> True | Some predicate \<Rightarrow> predicate event)"

definition write_run ::
  "'w host \<Rightarrow> location \<Rightarrow> conversation_run \<Rightarrow> 'w store \<Rightarrow> 'w store \<times> (exn + unit)" where
  "write_run h path run st =
     (case atomic_write_json h path run (snd st) of
        (d, r) \<Rightarrow> (((fst st)\<lparr>conversation_run_of := Some run\<rparr>, d), r))"

definition start_run ::
  "'w host \<Rightarrow> run_lifecycle \<Rightarrow> 'w store \<Rightarrow> 'w store \<times> (exn + unit)" where
  "start_run h l st =
     (case st of (s, d) \<Rightarrow>
      (case fresh_uuid h (surroundings d) of (w1, cid) \<Rightarrow>
       (case utc_now h w1 of (w2, started) \<Rightarrow>
         (let path = get_conversation_run_path (data_path s) started cid;
              run = \<lparr>conversation_id = cid, run_agent_name = lc_agent_name l,
                     started_at = utc_iso_z started, ended_at = None, run_status_of = RUNNING,
                     run_description = lc_agent_description l, run_messages = [], run_events = []\<rparr>;
              s1 = (reset_run s)\<lparr>conversations_location := Some path\<rparr>
          in case write_run h path run (s1, d\<lparr>surroundings := w2\<rparr>) of
               (st', Inl e) \<Rightarrow> (st', Inl e)
             | ((s', d'), Inr _) \<Rightarrow>
                 (case mark_conversation_active h (data_path s) cid d' of
                    (d'', r) \<Rightarrow> ((s', d''), r))))))"

definition save_message ::
  "'w host \<Rightarrow> (string \<Rightarrow> string option) \<Rightarrow> message \<Rightarrow> nat \<Rightarrow> 'w store \<Rightarrow> 'w store \<times> (exn + unit)"
where
  "save_message h filename m n st =
     (case (conversation_run_of (fst st), conversations_location (fst st)) of
        (Some run, Some path) \<Rightarrow>
          (case fresh_uuid h (surroundings (snd st)) of (w, identifier) \<Rightarrow>
             write_run h path
               (run\<lparr>run_messages := run_messages run @ [message_to_logged_row filename m identifier n]\<rparr>)
               (fst st, (snd st)\<lparr>surroundings := w\<rparr>))
      | _ \<Rightarrow> (st, Inr ()))"

definition save_runtime_event ::
  "'w host \<Rightarrow> runtime_event \<Rightarrow> 'w store \<Rightarrow> 'w store \<times> (exn + unit)" where
  "save_runtime_event h e st =
     (case (conversation_run_of (fst st), conversations_location (fst st)) of
        (Some run, Some path) \<Rightarrow>
          (case fresh_uuid h (surroundings (snd st)) of (w1, identifier) \<Rightarrow>
           (case utc_now h w1 of (w2, created) \<Rightarrow>
             write_run h path
               (run\<lparr>run_events := run_events run @ [runtime_event_to_logged_row e identifier created]\<rparr>)
               (fst st, (snd st)\<lparr>surroundings := w2\<rparr>)))
      | _ \<Rightarrow> (st, Inr ()))"

definition stop_run ::
  "'w host \<Rightarrow> run_status option \<Rightarrow> 'w store \<Rightarrow> 'w store \<times> (exn + unit)" where
  "stop_run h status st =
     (case (conversation_run_of (fst st), conversations_location (fst st), status) of
        (Some run, Some path, Some final) \<Rightarrow>
          (case utc_now h (surroundings (snd st)) of (w, ended) \<Rightarrow>
             (case write_run h path (run\<lparr>run_status_of := final, ended_at := Some (utc_iso_z ended)\<rparr>)
                     (fst st, (snd st)\<lparr>surroundings := w\<rparr>) of
                (st', Inl e) \<Rightarrow> (st', Inl e)
              | ((s', d'), Inr _) \<Rightarrow>
                  (case clear_conversation_active h (data_path s') (conversation_id run) d' of
                     (d'', r) \<Rightarrow> ((s', d''), r))))
      | _ \<Rightarrow> (st, Inr ()))"

fun persist ::
  "'w host \<Rightarrow> (string \<Rightarrow> string option) \<Rightarrow> pipe_event \<Rightarrow> 'w store \<Rightarrow> 'w store \<times> (exn + unit)" where
  "persist h filename (MessageEvent m n i) st =
     (if should_persist_detail (fst st) (MessageEvent m n i) then save_message h filename m n st
      else (st, Inr ()))"
| "persist h filename (ScriptOutputEvent text n) st = (st, Inr ())"
| "persist h filename (MessageDeltaEvent delta) st = (st, Inr ())"
| "persist h filename (RuntimeEvent e) st =
     (if should_persist_detail (fst st) (RuntimeEvent e) then save_runtime_event h e st
      else (st, Inr ()))"
| "persist h filename (RunLifecycleEvent l) st =
     (case lc_kind l of Started \<Rightarrow> start_run h l st | Stopped \<Rightarrow> stop_run h (lc_status l) st)"

section \<open>Sequences of events\<close>

text \<open>A sink that raises ends the sequence.\<close>

fun persist_all ::
  "'w host \<Rightarrow> (string \<Rightarrow> string option) \<Rightarrow> pipe_event list \<Rightarrow> 'w store \<Rightarrow> 'w store \<times> (exn + unit)"
where
  "persist_all h filename [] st = (st, Inr ())"
| "persist_all h filename (e # es) st =
     (case persist h filename e st of
        (st', Inl x) \<Rightarrow> (st', Inl x)
      | (st', Inr _) \<Rightarrow> persist_all h filename es st')"

definition persistence_sink_for :: "location \<Rightarrow> (pipe_event \<Rightarrow> bool) option \<Rightarrow> persistence_sink" where
  "persistence_sink_for path predicate =
     \<lparr>data_path = path, detail_predicate = predicate, conversations_location = None,
      conversation_run_of = None\<rparr>"

definition empty_disk :: "'w \<Rightarrow> 'w disk" where
  "empty_disk w = \<lparr>documents = Map.empty, markers = [], surroundings = w\<rparr>"

definition quiet_host :: "'w host \<Rightarrow> bool" where
  "quiet_host h \<longleftrightarrow> (\<forall>w. snd (disk_error h w) = None)"

definition component_text :: "string \<Rightarrow> bool" where
  "component_text u \<longleftrightarrow>
     u \<noteq> [] \<and> u \<noteq> ''.'' \<and> u \<noteq> ''..'' \<and> CHR ''/'' \<notin> set u \<and> CHR 0x5C \<notin> set u"

text \<open>\<open>uuid4\<close> never repeats: \<open>issued\<close> collects what it has given.\<close>

definition issues_fresh :: "'w host \<Rightarrow> ('w \<Rightarrow> string set) \<Rightarrow> bool" where
  "issues_fresh h issued \<longleftrightarrow>
     (\<forall>w. snd (fresh_uuid h w) \<notin> issued w \<and> component_text (snd (fresh_uuid h w)) \<and>
          insert (snd (fresh_uuid h w)) (issued w) \<subseteq> issued (fst (fresh_uuid h w)) \<and>
          issued w \<subseteq> issued (fst (utc_now h w)) \<and> issued w \<subseteq> issued (fst (disk_error h w)))"

definition marker_of :: "location \<Rightarrow> string \<Rightarrow> location" where
  "marker_of agent_dir identifier = agent_dir @ [''.lifecycle'', ''active'', identifier @ ''.run'']"

lemma marker_path: "component_text u \<Longrightarrow> conversation_marker_path agent_dir u = Inr (marker_of agent_dir u)"
  by (simp add: component_text_def conversation_marker_path_def marker_of_def)

lemma marker_of_inject [simp]: "marker_of agent_dir u = marker_of agent_dir v \<longleftrightarrow> u = v"
  by (simp add: marker_of_def)

definition running_ids :: "'w disk \<Rightarrow> string set" where
  "running_ids d = {conversation_id r | r path. documents d path = Some r \<and> run_status_of r = RUNNING}"

definition consistent :: "location \<Rightarrow> ('w \<Rightarrow> string set) \<Rightarrow> 'w store \<Rightarrow> bool" where
  "consistent agent_dir issued st \<longleftrightarrow>
     (case st of (s, d) \<Rightarrow>
        data_path s = agent_dir \<and>
        (\<forall>p r. documents d p = Some r \<longrightarrow>
           conversation_id r \<in> issued (surroundings d) \<and> component_text (conversation_id r) \<and>
           last p = conversation_id r @ ''.json'') \<and>
        (\<forall>p q r u. documents d p = Some r \<longrightarrow> documents d q = Some u \<longrightarrow>
           conversation_id r = conversation_id u \<longrightarrow> p = q) \<and>
        set (markers d) = marker_of agent_dir ` running_ids d \<and>
        (\<forall>r. conversation_run_of s = Some r \<longrightarrow>
           (\<exists>p. conversations_location s = Some p \<and> documents d p = Some r)))"

lemma write_quiet:
  assumes "quiet_host h"
  shows "write_run h path run (s, d) =
    ((s\<lparr>conversation_run_of := Some run\<rparr>,
      d\<lparr>documents := (documents d)(path := Some run), surroundings := fst (disk_error h (surroundings d))\<rparr>),
     Inr ())"
proof -
  obtain w e where "disk_error h (surroundings d) = (w, e)" by fastforce
  moreover from this assms have "e = None" unfolding quiet_host_def by (metis snd_conv)
  ultimately show ?thesis by (simp add: write_run_def atomic_write_json_def)
qed

text \<open>Rewriting the current document with the same id.\<close>

lemma consistent_rewrite:
  assumes "consistent agent_dir issued (s, d)" and "documents d p = Some r"
    and "conversation_id r' = conversation_id r" and "conversations_location s = Some p"
    and "issued (surroundings d) \<subseteq> issued w"
    and "set ms = marker_of agent_dir ` running_ids (d\<lparr>documents := (documents d)(p := Some r')\<rparr>)"
  shows "consistent agent_dir issued
    (s\<lparr>conversation_run_of := Some r'\<rparr>,
     d\<lparr>documents := (documents d)(p := Some r'), markers := ms, surroundings := w\<rparr>)"
  using assms unfolding consistent_def running_ids_def by (auto split: if_splits)

lemma ex_rewrite:
  assumes "f p = Some r" and "Q r' \<longleftrightarrow> Q r"
  shows "(\<exists>x q. (f(p := Some r')) q = Some x \<and> Q x) \<longleftrightarrow> (\<exists>x q. f q = Some x \<and> Q x)"
proof
  assume "\<exists>x q. (f(p := Some r')) q = Some x \<and> Q x"
  then show "\<exists>x q. f q = Some x \<and> Q x" using assms by (auto split: if_splits)
next
  assume "\<exists>x q. f q = Some x \<and> Q x"
  then obtain x q where x: "f q = Some x" "Q x" by blast
  show "\<exists>x q. (f(p := Some r')) q = Some x \<and> Q x"
  proof (cases "q = p")
    case True
    with x assms have "(f(p := Some r')) p = Some r' \<and> Q r'" by simp
    then show ?thesis by blast
  next
    case False
    with x have "(f(p := Some r')) q = Some x \<and> Q x" by simp
    then show ?thesis by blast
  qed
qed

lemma ex_insert:
  assumes "f p = None"
  shows "(\<exists>x q. (f(p := Some r)) q = Some x \<and> Q x) \<longleftrightarrow> Q r \<or> (\<exists>x q. f q = Some x \<and> Q x)"
proof
  assume "\<exists>x q. (f(p := Some r)) q = Some x \<and> Q x"
  then show "Q r \<or> (\<exists>x q. f q = Some x \<and> Q x)" by (auto split: if_splits)
next
  assume "Q r \<or> (\<exists>x q. f q = Some x \<and> Q x)"
  then show "\<exists>x q. (f(p := Some r)) q = Some x \<and> Q x"
  proof
    assume "Q r"
    then have "(f(p := Some r)) p = Some r \<and> Q r" by simp
    then show ?thesis by blast
  next
    assume "\<exists>x q. f q = Some x \<and> Q x"
    then obtain x q where x: "f q = Some x" "Q x" by blast
    with assms have "q \<noteq> p" by auto
    with x have "(f(p := Some r)) q = Some x \<and> Q x" by simp
    then show ?thesis by blast
  qed
qed

lemma running_ids_iff:
  "u \<in> running_ids d \<longleftrightarrow>
   (\<exists>r p. documents d p = Some r \<and> (conversation_id r = u \<and> run_status_of r = RUNNING))"
  by (auto simp: running_ids_def)

lemma running_rewrite_same:
  assumes "documents d p = Some r" and "conversation_id r' = conversation_id r"
    and "run_status_of r' = run_status_of r"
  shows "running_ids (d\<lparr>documents := (documents d)(p := Some r')\<rparr>) = running_ids d"
proof (rule set_eqI)
  fix u
  have "(\<exists>x q. ((documents d)(p := Some r')) q = Some x \<and> (conversation_id x = u \<and> run_status_of x = RUNNING)) \<longleftrightarrow>
      (\<exists>x q. documents d q = Some x \<and> (conversation_id x = u \<and> run_status_of x = RUNNING))"
    by (rule ex_rewrite[where r = r]) (simp_all add: assms)
  then show "u \<in> running_ids (d\<lparr>documents := (documents d)(p := Some r')\<rparr>) \<longleftrightarrow> u \<in> running_ids d"
    by (simp add: running_ids_iff del: fun_upd_apply)
qed

lemma running_stopped:
  assumes "documents d p = Some r" and "conversation_id r' = conversation_id r"
    and "run_status_of r' \<noteq> RUNNING"
    and "\<And>q u. documents d q = Some u \<Longrightarrow> conversation_id u = conversation_id r \<Longrightarrow> q = p"
  shows "running_ids (d\<lparr>documents := (documents d)(p := Some r')\<rparr>) =
    running_ids d - {conversation_id r}"
proof (rule set_eqI)
  fix u
  show "u \<in> running_ids (d\<lparr>documents := (documents d)(p := Some r')\<rparr>) \<longleftrightarrow>
      u \<in> running_ids d - {conversation_id r}"
  proof (cases "u = conversation_id r")
    case True
    have "\<not> (((documents d)(p := Some r')) q = Some x \<and> (conversation_id x = u \<and> run_status_of x = RUNNING))"
      for x q
      using assms(3,4) True by (cases "q = p") auto
    then have "u \<notin> running_ids (d\<lparr>documents := (documents d)(p := Some r')\<rparr>)"
      by (simp add: running_ids_iff del: fun_upd_apply) blast
    with True show ?thesis by simp
  next
    case False
    have "(\<exists>x q. ((documents d)(p := Some r')) q = Some x \<and> (conversation_id x = u \<and> run_status_of x = RUNNING)) \<longleftrightarrow>
        (\<exists>x q. documents d q = Some x \<and> (conversation_id x = u \<and> run_status_of x = RUNNING))"
      by (rule ex_rewrite[where r = r]) (use False assms(1,2) in auto)
    with False show ?thesis by (simp add: running_ids_iff del: fun_upd_apply)
  qed
qed

lemma running_started:
  assumes "documents d p = None" and "run_status_of r = RUNNING"
  shows "running_ids (d\<lparr>documents := (documents d)(p := Some r)\<rparr>) =
    insert (conversation_id r) (running_ids d)"
proof (rule set_eqI)
  fix u
  have "(\<exists>x q. ((documents d)(p := Some r)) q = Some x \<and> (conversation_id x = u \<and> run_status_of x = RUNNING)) \<longleftrightarrow>
      (conversation_id r = u \<and> run_status_of r = RUNNING) \<or>
      (\<exists>x q. documents d q = Some x \<and> (conversation_id x = u \<and> run_status_of x = RUNNING))"
    by (rule ex_insert) (rule assms(1))
  with assms(2) show "u \<in> running_ids (d\<lparr>documents := (documents d)(p := Some r)\<rparr>) \<longleftrightarrow>
      u \<in> insert (conversation_id r) (running_ids d)"
    by (auto simp add: running_ids_iff simp del: fun_upd_apply)
qed

text \<open>Statuses that end a run, as \<open>finalize_run\<close> sends them.\<close>

definition final_event :: "pipe_event \<Rightarrow> bool" where
  "final_event e \<longleftrightarrow>
     (case e of
        RunLifecycleEvent l \<Rightarrow>
          lc_kind l = Stopped \<longrightarrow> (\<exists>x. lc_status l = Some x \<and> x \<noteq> RUNNING)
      | _ \<Rightarrow> True)"

lemma fresh_steps:
  assumes "issues_fresh h issued"
  shows "fresh_uuid h w = (w', u) \<Longrightarrow>
      u \<notin> issued w \<and> component_text u \<and> u \<in> issued w' \<and> issued w \<subseteq> issued w'"
    and "utc_now h w = (w', t) \<Longrightarrow> issued w \<subseteq> issued w'"
    and "issued w \<subseteq> issued (fst (disk_error h w))"
  using assms unfolding issues_fresh_def by (metis fst_conv snd_conv insert_subset)+

lemma save_message_consistent:
  assumes "quiet_host h" and "issues_fresh h issued" and "consistent agent_dir issued st"
  shows "\<exists>st'. save_message h filename m n st = (st', Inr ()) \<and> consistent agent_dir issued st'"
proof -
  obtain s d where st: "st = (s, d)" by fastforce
  show ?thesis
  proof (cases "conversation_run_of s")
    case None
    with st assms show ?thesis by (simp add: save_message_def)
  next
    case (Some r)
    with assms(3) st obtain p where p: "conversations_location s = Some p" "documents d p = Some r"
      by (auto simp: consistent_def)
    obtain w u where u: "fresh_uuid h (surroundings d) = (w, u)" by fastforce
    let ?r = "r\<lparr>run_messages := run_messages r @ [message_to_logged_row filename m u n]\<rparr>"
    have "issued (surroundings d) \<subseteq> issued (fst (disk_error h w))"
      using fresh_steps(1)[OF assms(2) u] fresh_steps(3)[OF assms(2)] by blast
    with assms(3) p st have "consistent agent_dir issued
        (s\<lparr>conversation_run_of := Some ?r\<rparr>,
         d\<lparr>documents := (documents d)(p := Some ?r), markers := markers d,
           surroundings := fst (disk_error h w)\<rparr>)"
      by (intro consistent_rewrite[where r = r])
        (simp_all add: running_rewrite_same consistent_def)
    then show ?thesis
      using Some p u st by (simp add: save_message_def write_quiet[OF assms(1)])
  qed
qed

lemma save_runtime_event_consistent:
  assumes "quiet_host h" and "issues_fresh h issued" and "consistent agent_dir issued st"
  shows "\<exists>st'. save_runtime_event h e st = (st', Inr ()) \<and> consistent agent_dir issued st'"
proof -
  obtain s d where st: "st = (s, d)" by fastforce
  show ?thesis
  proof (cases "conversation_run_of s")
    case None
    with st assms show ?thesis by (simp add: save_runtime_event_def)
  next
    case (Some r)
    with assms(3) st obtain p where p: "conversations_location s = Some p" "documents d p = Some r"
      by (auto simp: consistent_def)
    obtain w u where u: "fresh_uuid h (surroundings d) = (w, u)" by fastforce
    obtain w2 t where t: "utc_now h w = (w2, t)" by fastforce
    let ?r = "r\<lparr>run_events := run_events r @ [runtime_event_to_logged_row e u t]\<rparr>"
    have "issued (surroundings d) \<subseteq> issued (fst (disk_error h w2))"
      using fresh_steps(1)[OF assms(2) u] fresh_steps(2)[OF assms(2) t] fresh_steps(3)[OF assms(2)]
      by blast
    with assms(3) p st have "consistent agent_dir issued
        (s\<lparr>conversation_run_of := Some ?r\<rparr>,
         d\<lparr>documents := (documents d)(p := Some ?r), markers := markers d,
           surroundings := fst (disk_error h w2)\<rparr>)"
      by (intro consistent_rewrite[where r = r])
        (simp_all add: running_rewrite_same consistent_def)
    then show ?thesis
      using Some p u t st by (simp add: save_runtime_event_def write_quiet[OF assms(1)])
  qed
qed

lemma clear_quiet:
  assumes "quiet_host h" and "component_text u"
  shows "clear_conversation_active h agent_dir u d =
    (d\<lparr>markers := removeAll (marker_of agent_dir u) (markers d),
       surroundings := fst (disk_error h (surroundings d))\<rparr>, Inr ())"
proof -
  obtain w e where "disk_error h (surroundings d) = (w, e)" by fastforce
  moreover from this assms(1) have "e = None" unfolding quiet_host_def by (metis snd_conv)
  ultimately show ?thesis by (simp add: clear_conversation_active_def marker_path[OF assms(2)])
qed

lemma mark_quiet:
  assumes "quiet_host h" and "component_text u" and "marker_of agent_dir u \<notin> set (markers d)"
  shows "mark_conversation_active h agent_dir u d =
    (d\<lparr>markers := marker_of agent_dir u # markers d,
       surroundings := fst (disk_error h (surroundings d))\<rparr>, Inr ())"
proof -
  obtain w e where "disk_error h (surroundings d) = (w, e)" by fastforce
  moreover from this assms(1) have "e = None" unfolding quiet_host_def by (metis snd_conv)
  ultimately show ?thesis
    using assms(3) by (simp add: mark_conversation_active_def marker_path[OF assms(2)])
qed

lemma stop_run_consistent:
  assumes "quiet_host h" and "issues_fresh h issued" and "consistent agent_dir issued st"
    and "final \<noteq> RUNNING"
  shows "\<exists>st'. stop_run h (Some final) st = (st', Inr ()) \<and> consistent agent_dir issued st'"
proof -
  obtain s d where st: "st = (s, d)" by fastforce
  show ?thesis
  proof (cases "conversation_run_of s")
    case None
    with st assms show ?thesis by (simp add: stop_run_def)
  next
    case (Some r)
    with assms(3) st obtain p where p: "conversations_location s = Some p" "documents d p = Some r"
      by (auto simp: consistent_def)
    obtain w t where t: "utc_now h (surroundings d) = (w, t)" by fastforce
    let ?r = "r\<lparr>run_status_of := final, ended_at := Some (utc_iso_z t)\<rparr>"
    let ?w = "fst (disk_error h (fst (disk_error h w)))"
    let ?u = "conversation_id r"
    from assms(3) st p have u: "component_text ?u" and dir: "data_path s = agent_dir"
      and unique: "\<And>q x. documents d q = Some x \<Longrightarrow> conversation_id x = ?u \<Longrightarrow> q = p"
      and marks: "set (markers d) = marker_of agent_dir ` running_ids d"
      by (auto simp: consistent_def)
    have "issued (surroundings d) \<subseteq> issued ?w"
      using fresh_steps(2)[OF assms(2) t] fresh_steps(3)[OF assms(2)] by blast
    moreover have "running_ids (d\<lparr>documents := (documents d)(p := Some ?r)\<rparr>) = running_ids d - {?u}"
      by (rule running_stopped[OF p(2)]) (use assms(4) unique in auto)
    then have "set (removeAll (marker_of agent_dir ?u) (markers d)) =
        marker_of agent_dir ` running_ids (d\<lparr>documents := (documents d)(p := Some ?r)\<rparr>)"
      using marks by auto
    ultimately have "consistent agent_dir issued
        (s\<lparr>conversation_run_of := Some ?r\<rparr>,
         d\<lparr>documents := (documents d)(p := Some ?r),
           markers := removeAll (marker_of agent_dir ?u) (markers d), surroundings := ?w\<rparr>)"
      using assms(3) p st by (intro consistent_rewrite[where r = r]) simp_all
    then show ?thesis
      using Some p t st dir
      by (simp add: stop_run_def write_quiet[OF assms(1)] clear_quiet[OF assms(1) u])
  qed
qed

lemma start_run_consistent:
  assumes "quiet_host h" and "issues_fresh h issued" and "consistent agent_dir issued st"
  shows "\<exists>st'. start_run h l st = (st', Inr ()) \<and> consistent agent_dir issued st'"
proof -
  obtain s d where st: "st = (s, d)" by fastforce
  obtain w u where u: "fresh_uuid h (surroundings d) = (w, u)" by fastforce
  obtain w2 t where t: "utc_now h w = (w2, t)" by fastforce
  note fresh = fresh_steps(1)[OF assms(2) u]
  let ?p = "get_conversation_run_path agent_dir t u"
  let ?r = "\<lparr>conversation_id = u, run_agent_name = lc_agent_name l, started_at = utc_iso_z t,
    ended_at = None, run_status_of = RUNNING, run_description = lc_agent_description l,
    run_messages = [], run_events = []\<rparr>"
  let ?w = "fst (disk_error h (fst (disk_error h w2)))"
  have last: "last ?p = u @ ''.json''" by (simp add: get_conversation_run_path_def)
  from assms(3) st have dir: "data_path s = agent_dir"
    and ids: "\<And>q x. documents d q = Some x \<Longrightarrow> conversation_id x \<in> issued (surroundings d) \<and>
        component_text (conversation_id x) \<and> last q = conversation_id x @ ''.json''"
    and marks: "set (markers d) = marker_of agent_dir ` running_ids d"
    and unique: "\<And>q q' x y. documents d q = Some x \<Longrightarrow> documents d q' = Some y \<Longrightarrow>
        conversation_id x = conversation_id y \<Longrightarrow> q = q'"
    by (auto simp: consistent_def)
  have new: "documents d ?p = None"
  proof (cases "documents d ?p")
    case (Some x)
    from ids[OF this] last fresh show ?thesis by auto
  qed
  have other: "conversation_id x \<noteq> u" if "documents d q = Some x" for q x
    using ids[OF that] fresh by auto
  have "u \<notin> running_ids d" using other by (auto simp: running_ids_def)
  with marks have unmarked: "marker_of agent_dir u \<notin> set (markers d)" by auto
  have grows: "issued (surroundings d) \<subseteq> issued ?w" "u \<in> issued ?w"
    using fresh fresh_steps(2)[OF assms(2) t] fresh_steps(3)[OF assms(2)] by blast+
  let ?d = "d\<lparr>documents := (documents d)(?p := Some ?r), markers := marker_of agent_dir u # markers d,
      surroundings := ?w\<rparr>"
  have running: "running_ids ?d = insert u (running_ids d)"
    using running_started[OF new, of ?r] by (simp add: running_ids_def)
  have "consistent agent_dir issued
      (s\<lparr>conversations_location := Some ?p, conversation_run_of := Some ?r\<rparr>, ?d)"
    unfolding consistent_def
    using dir fresh grows last ids other unique running marks
    by (auto split: if_splits)
  then show ?thesis
    using st u t dir unmarked
    by (simp add: start_run_def Let_def reset_run_def write_quiet[OF assms(1)]
        mark_quiet[OF assms(1)] fresh)
qed

lemma persist_consistent:
  assumes "quiet_host h" and "issues_fresh h issued" and "consistent agent_dir issued st"
    and "final_event e"
  shows "\<exists>st'. persist h filename e st = (st', Inr ()) \<and> consistent agent_dir issued st'"
proof (cases e)
  case (RunLifecycleEvent l)
  with assms(4) start_run_consistent[OF assms(1-3)] stop_run_consistent[OF assms(1-3)] show ?thesis
    by (cases "lc_kind l") (auto simp: final_event_def simp del: split_paired_Ex)
qed (use assms(3) save_message_consistent[OF assms(1-3)] save_runtime_event_consistent[OF assms(1-3)]
     in \<open>auto simp del: split_paired_Ex\<close>)

lemma persist_all_consistent:
  assumes "quiet_host h" and "issues_fresh h issued"
  shows "consistent agent_dir issued st \<Longrightarrow> \<forall>e \<in> set es. final_event e \<Longrightarrow>
    \<exists>st'. persist_all h filename es st = (st', Inr ()) \<and> consistent agent_dir issued st'"
proof (induction es arbitrary: st)
  case (Cons e es)
  from persist_consistent[OF assms Cons.prems(1), of e filename] Cons.prems(2)
  obtain st' where "persist h filename e st = (st', Inr ())" "consistent agent_dir issued st'" by auto
  with Cons.IH[of st'] Cons.prems(2) show ?case by simp
qed simp

section \<open>The conversation in a document\<close>

definition message_view :: "logged_message_row \<Rightarrow> nat \<times> message" where
  "message_view row = (lm_sequence row, logged_row_to_message row)"

definition event_view :: "runtime_event_row \<Rightarrow> runtime_event" where
  "event_view row =
     \<lparr>re_category = er_category row, re_kind = er_kind row, re_level = er_level row,
      re_message = er_message row, re_sequence = er_sequence row,
      re_agent_name = er_agent_name row, re_data = er_data row\<rparr>"

text \<open>What a run said, read off its events: the messages without their images, and the observations.\<close>

definition message_log :: "(pipe_event \<Rightarrow> bool) \<Rightarrow> pipe_event list \<Rightarrow> (nat \<times> message) list" where
  "message_log keep es =
     concat (map (\<lambda>e. case e of
         MessageEvent m n i \<Rightarrow> if keep e then [(n, m\<lparr>images := []\<rparr>)] else []
       | _ \<Rightarrow> []) es)"

definition runtime_log :: "(pipe_event \<Rightarrow> bool) \<Rightarrow> pipe_event list \<Rightarrow> runtime_event list" where
  "runtime_log keep es =
     concat (map (\<lambda>e. case e of RuntimeEvent r \<Rightarrow> if keep e then [r] else [] | _ \<Rightarrow> []) es)"

definition is_lifecycle :: "pipe_event \<Rightarrow> bool" where
  "is_lifecycle e \<longleftrightarrow> (case e of RunLifecycleEvent l \<Rightarrow> True | _ \<Rightarrow> False)"

text \<open>The document of the current run is at \<open>p\<close>, holds \<open>ms\<close> and \<open>es\<close> and agrees with the run.\<close>

definition holds_run ::
  "location \<Rightarrow> conversation_run \<Rightarrow> (nat \<times> message) list \<Rightarrow> runtime_event list \<Rightarrow> 'w store \<Rightarrow> bool"
where
  "holds_run p r0 ms es st \<longleftrightarrow>
     (\<exists>r. conversation_run_of (fst st) = Some r \<and> conversations_location (fst st) = Some p \<and>
        documents (snd st) p = Some r \<and> conversation_id r = conversation_id r0 \<and>
        run_agent_name r = run_agent_name r0 \<and> run_status_of r = run_status_of r0 \<and>
        ended_at r = ended_at r0 \<and>
        map message_view (run_messages r) = ms \<and> map event_view (run_events r) = es)"

lemma rows_view [simp]:
  "message_view (message_to_logged_row filename m u n) = (n, m\<lparr>images := []\<rparr>)"
  "event_view (runtime_event_to_logged_row e u t) = e"
  by (simp_all add: message_view_def event_view_def message_to_logged_row_def
      logged_row_to_message_def runtime_event_to_logged_row_def)

lemma persist_detail:
  assumes "quiet_host h" and "holds_run p r0 ms es st" and "\<not> is_lifecycle e"
  shows "\<exists>st'. persist h filename e st = (st', Inr ()) \<and>
    detail_predicate (fst st') = detail_predicate (fst st) \<and> data_path (fst st') = data_path (fst st) \<and>
    holds_run p r0 (ms @ message_log (should_persist_detail (fst st)) [e])
      (es @ runtime_log (should_persist_detail (fst st)) [e]) st'"
proof -
  obtain s d where st: "st = (s, d)" by fastforce
  show ?thesis
    using assms(2,3) unfolding st
    by (cases e)
      (auto simp: holds_run_def is_lifecycle_def message_log_def runtime_log_def save_message_def
        save_runtime_event_def write_quiet[OF assms(1)] split: prod.splits)
qed

lemma persist_details:
  assumes "quiet_host h"
  shows "holds_run p r0 ms xs st \<Longrightarrow> \<forall>e \<in> set es. \<not> is_lifecycle e \<Longrightarrow>
    \<exists>st'. persist_all h filename es st = (st', Inr ()) \<and> data_path (fst st') = data_path (fst st) \<and>
      holds_run p r0 (ms @ message_log (should_persist_detail (fst st)) es)
        (xs @ runtime_log (should_persist_detail (fst st)) es) st'"
proof (induction es arbitrary: st ms xs)
  case Nil
  then show ?case by (simp add: message_log_def runtime_log_def)
next
  case (Cons e es)
  let ?keep = "should_persist_detail (fst st)"
  from persist_detail[OF assms Cons.prems(1), of e filename] Cons.prems(2)
  obtain st1 where st1: "persist h filename e st = (st1, Inr ())"
    "detail_predicate (fst st1) = detail_predicate (fst st)" "data_path (fst st1) = data_path (fst st)"
    "holds_run p r0 (ms @ message_log ?keep [e]) (xs @ runtime_log ?keep [e]) st1" by auto
  have keep: "should_persist_detail (fst st1) = ?keep"
    using st1(2) by (auto simp: should_persist_detail_def fun_eq_iff)
  have split: "message_log ?keep (e # es) = message_log ?keep [e] @ message_log ?keep es"
    "runtime_log ?keep (e # es) = runtime_log ?keep [e] @ runtime_log ?keep es"
    by (simp_all add: message_log_def runtime_log_def)
  from Cons.IH[OF st1(4)] Cons.prems(2) st1 show ?case by (auto simp: keep split)
qed

lemma persist_all_append:
  "persist_all h filename (xs @ ys) st =
     (case persist_all h filename xs st of
        (st', Inl e) \<Rightarrow> (st', Inl e)
      | (st', Inr _) \<Rightarrow> persist_all h filename ys st')"
  by (induction xs arbitrary: st) (auto split: prod.split sum.split)

lemma start_run_holds:
  assumes "quiet_host h" and "start_run h l st = (st', Inr ())"
  shows "\<exists>p r. holds_run p r [] [] st' \<and> run_agent_name r = lc_agent_name l"
proof -
  obtain s d where st: "st = (s, d)" by fastforce
  have frame: "mark_conversation_active h x y d1 = (d2, r) \<Longrightarrow> documents d2 = documents d1" for x y d1 d2 r
    by (auto simp: mark_conversation_active_def split: sum.splits prod.splits option.splits if_splits)
  from assms(2) obtain p r where "conversation_run_of (fst st') = Some r"
    "conversations_location (fst st') = Some p" "documents (snd st') p = Some r"
    "run_messages r = []" "run_events r = []" "run_agent_name r = lc_agent_name l"
    unfolding st start_run_def
    by (auto simp: Let_def write_quiet[OF assms(1)] split: prod.splits dest!: frame)
  then have "holds_run p r [] [] st' \<and> run_agent_name r = lc_agent_name l"
    by (simp add: holds_run_def)
  then show ?thesis by blast
qed

lemma persist_predicate:
  "persist h filename e st = (st', r) \<Longrightarrow> detail_predicate (fst st') = detail_predicate (fst st)"
  by (cases e)
    (auto simp: start_run_def stop_run_def save_message_def save_runtime_event_def write_run_def
      reset_run_def Let_def
      split: prod.splits option.splits sum.splits if_splits lifecycle_kind.splits)

lemma persist_all_predicate:
  "persist_all h filename es st = (st', r) \<Longrightarrow> detail_predicate (fst st') = detail_predicate (fst st)"
proof (induction es arbitrary: st)
  case (Cons e es)
  obtain st1 q where q: "persist h filename e st = (st1, q)" by fastforce
  with Cons show ?case by (cases q) (auto dest: persist_predicate)
qed simp

lemma stop_run_holds:
  assumes "quiet_host h" and "holds_run p r0 ms xs st" and "component_text (conversation_id r0)"
    and "data_path (fst st) = agent_dir"
  shows "\<exists>st' r. stop_run h (Some final) st = (st', Inr ()) \<and>
    conversations_location (fst st') = Some p \<and> documents (snd st') p = Some r \<and>
    run_agent_name r = run_agent_name r0 \<and> run_status_of r = final \<and> ended_at r \<noteq> None \<and>
    map message_view (run_messages r) = ms \<and> map event_view (run_events r) = xs \<and>
    marker_of agent_dir (conversation_id r) \<notin> set (markers (snd st'))"
proof -
  obtain s d where st: "st = (s, d)" by fastforce
  from assms(2) st obtain r where r: "conversation_run_of s = Some r" "conversations_location s = Some p"
    "conversation_id r = conversation_id r0" "run_agent_name r = run_agent_name r0"
    "map message_view (run_messages r) = ms" "map event_view (run_events r) = xs"
    by (auto simp: holds_run_def)
  obtain w t where t: "utc_now h (surroundings d) = (w, t)" by fastforce
  from r t assms(3,4) st show ?thesis
    by (simp add: stop_run_def write_quiet[OF assms(1)] clear_quiet[OF assms(1)])
qed

lemma consistent_start: "consistent agent_dir issued (persistence_sink_for agent_dir keep, empty_disk w)"
  by (simp add: consistent_def persistence_sink_for_def empty_disk_def running_ids_def)

text \<open>A host that numbers its identifiers.\<close>

definition counting_host :: "nat host" where
  "counting_host =
     \<lparr>fresh_uuid = (\<lambda>w. (Suc w, replicate (Suc w) (CHR ''a''))),
      utc_now = (\<lambda>w. (w, \<lparr>in_year = 26, in_month = 7, in_day = 1, in_hour = 9, in_minute = 5,
                          in_second = 0, in_milli = 7\<rparr>)),
      disk_error = (\<lambda>w. (w, None))\<rparr>"

definition counted :: "nat \<Rightarrow> string set" where
  "counted w = {replicate (Suc k) (CHR ''a'') | k. k < w}"

lemma counting_host_fresh: "quiet_host counting_host" "issues_fresh counting_host counted"
proof -
  show "quiet_host counting_host" by (simp add: quiet_host_def counting_host_def)
  have "component_text (replicate (Suc k) (CHR ''a''))" for k
    by (cases k) (auto simp: component_text_def)
  moreover have "replicate (Suc w) (CHR ''a'') \<notin> counted w" for w
    by (auto simp: counted_def dest: arg_cong[of _ _ length])
  moreover have "insert (replicate (Suc w) (CHR ''a'')) (counted w) \<subseteq> counted (Suc w)" for w
    by (auto simp: counted_def intro: less_SucI)
  ultimately show "issues_fresh counting_host counted"
    by (simp add: issues_fresh_def counting_host_def del: replicate_Suc)
qed

section \<open>Properties\<close>

text \<open>
  C15. Activity markers are the running documents: for whatever events the runs of an agent send,
  as long as every stop has a final status, no step of the sink fails on a working disk, and at
  the end an agent directory has exactly one marker for every document that says it is running.
\<close>

theorem markers_track_running_documents:
  assumes "quiet_host h" and "issues_fresh h issued" and "\<forall>e \<in> set es. final_event e"
  shows "\<exists>s d. persist_all h filename es (persistence_sink_for agent_dir keep, empty_disk w) = ((s, d), Inr ()) \<and>
    set (markers d) = marker_of agent_dir ` running_ids d"
proof -
  from persist_all_consistent[OF assms(1,2) consistent_start assms(3)] obtain s d where
    "persist_all h filename es (persistence_sink_for agent_dir keep, empty_disk w) = ((s, d), Inr ())"
    "consistent agent_dir issued (s, d)" by force
  then show ?thesis by (auto simp: consistent_def)
qed

definition sample_lifecycle :: "lifecycle_kind \<Rightarrow> run_status option \<Rightarrow> run_lifecycle" where
  "sample_lifecycle kind status =
     \<lparr>lc_kind = kind, lc_agent_name = ''demo'', lc_sequence = 1, lc_agent_description = None,
      lc_parent_agent_name = None, lc_status = status, lc_endpoint = no_endpoint\<rparr>"

definition sample_message :: message where
  "sample_message = \<lparr>msg_role = USER, content = ''hello'', images = [], caller = None,
     timestamp = ''t'', msg_truncation = DEFAULT, message_kind = None\<rparr>"

definition sample_events :: "pipe_event list" where
  "sample_events =
     [RunLifecycleEvent (sample_lifecycle Started None), MessageEvent sample_message 2 None,
      RunLifecycleEvent (sample_lifecycle Stopped (Some COMPLETED)),
      RunLifecycleEvent (sample_lifecycle Started None)]"

theorem markers_track_running_documents_witness:
  "\<exists>s d. persist_all counting_host (\<lambda>_. None) sample_events
       (persistence_sink_for [''data''] None, empty_disk 0) = ((s, d), Inr ()) \<and>
     set (markers d) = marker_of [''data''] ` running_ids d"
  by (rule markers_track_running_documents[OF counting_host_fresh])
    (simp add: sample_events_def final_event_def sample_lifecycle_def)

text \<open>
  C16. The document of a finished run is its conversation: after any earlier events, a run that
  starts, sends messages and observations and stops leaves a document under the name of the agent
  with the status of the stop, whose rows give back exactly the messages of the run, without
  images, and its observations, as far as the predicate keeps them, in order and with their
  numbers; its marker is gone.
\<close>

theorem run_document_is_the_conversation:
  assumes "quiet_host h" and "issues_fresh h issued" and "\<forall>e \<in> set before. final_event e"
    and "\<forall>e \<in> set es. \<not> is_lifecycle e"
    and "lc_kind l = Started" and "lc_kind l' = Stopped" and "lc_status l' = Some final"
    and "final \<noteq> RUNNING"
  shows "\<exists>s d p r.
    persist_all h filename (before @ RunLifecycleEvent l # es @ [RunLifecycleEvent l'])
      (persistence_sink_for agent_dir keep, empty_disk w) = ((s, d), Inr ()) \<and>
    conversations_location s = Some p \<and> documents d p = Some r \<and>
    run_agent_name r = lc_agent_name l \<and> run_status_of r = final \<and> ended_at r \<noteq> None \<and>
    map message_view (run_messages r) =
      message_log (case keep of None \<Rightarrow> (\<lambda>_. True) | Some f \<Rightarrow> f) es \<and>
    map event_view (run_events r) =
      runtime_log (case keep of None \<Rightarrow> (\<lambda>_. True) | Some f \<Rightarrow> f) es \<and>
    marker_of agent_dir (conversation_id r) \<notin> set (markers d)"
proof -
  let ?st0 = "(persistence_sink_for agent_dir keep, empty_disk w)"
  from persist_all_consistent[OF assms(1,2) consistent_start assms(3)] obtain st1 where
    st1: "persist_all h filename before ?st0 = (st1, Inr ())" "consistent agent_dir issued st1" by metis
  from start_run_consistent[OF assms(1,2) st1(2)] obtain st2 where
    st2: "start_run h l st1 = (st2, Inr ())" "consistent agent_dir issued st2" by metis
  from start_run_holds[OF assms(1) st2(1)] obtain p r where
    r: "holds_run p r [] [] st2" "run_agent_name r = lc_agent_name l" by blast
  from st2(1) have begun: "persist h filename (RunLifecycleEvent l) st1 = (st2, Inr ())"
    using assms(5) by simp
  have "detail_predicate (fst st2) = keep"
    using persist_predicate[OF begun] persist_all_predicate[OF st1(1)]
    by (simp add: persistence_sink_for_def)
  then have keep: "should_persist_detail (fst st2) = (case keep of None \<Rightarrow> (\<lambda>_. True) | Some f \<Rightarrow> f)"
    by (auto simp: should_persist_detail_def fun_eq_iff split: option.split)
  from persist_details[OF assms(1) r(1) assms(4), of filename] obtain st3 where
    st3: "persist_all h filename es st2 = (st3, Inr ())"
    and holds: "holds_run p r (message_log (should_persist_detail (fst st2)) es)
      (runtime_log (should_persist_detail (fst st2)) es) st3" by auto
  have "\<forall>e \<in> set es. final_event e"
    using assms(4) by (auto simp: is_lifecycle_def final_event_def split: pipe_event.splits)
  from persist_all_consistent[OF assms(1,2) st2(2) this, of filename] st3
  have "consistent agent_dir issued st3" by auto
  with holds have "component_text (conversation_id r)" "data_path (fst st3) = agent_dir"
    by (auto simp: consistent_def holds_run_def split: prod.splits) force
  from stop_run_holds[OF assms(1) holds this, of final] obtain st4 r' where
    st4: "stop_run h (Some final) st3 = (st4, Inr ())" and
    "conversations_location (fst st4) = Some p" "documents (snd st4) p = Some r'"
    "run_agent_name r' = run_agent_name r" "run_status_of r' = final" "ended_at r' \<noteq> None"
    "map message_view (run_messages r') = message_log (should_persist_detail (fst st2)) es"
    "map event_view (run_events r') = runtime_log (should_persist_detail (fst st2)) es"
    "marker_of agent_dir (conversation_id r') \<notin> set (markers (snd st4))" by metis
  moreover have "persist_all h filename (before @ RunLifecycleEvent l # es @ [RunLifecycleEvent l']) ?st0
      = (st4, Inr ())"
    using st1(1) st2(1) st3 st4 assms(5-7) by (simp add: persist_all_append)
  ultimately show ?thesis using r(2) keep by (cases st4) auto
qed

theorem run_document_is_the_conversation_witness:
  "\<exists>s d p r. persist_all counting_host (\<lambda>_. None)
      ([] @ RunLifecycleEvent (sample_lifecycle Started None) # [MessageEvent sample_message 2 None] @
        [RunLifecycleEvent (sample_lifecycle Stopped (Some FAILED))])
      (persistence_sink_for [''data''] None, empty_disk 0) = ((s, d), Inr ()) \<and>
    documents d p = Some r \<and> run_status_of r = FAILED \<and>
    map message_view (run_messages r) = [(2, sample_message)]"
proof -
  have "\<forall>e \<in> set [MessageEvent sample_message 2 None]. \<not> is_lifecycle e" by (simp add: is_lifecycle_def)
  moreover have "message_log (\<lambda>_. True) [MessageEvent sample_message 2 None] = [(2, sample_message)]"
    by (simp add: message_log_def sample_message_def)
  ultimately show ?thesis
    using run_document_is_the_conversation[OF counting_host_fresh, of "[]" "[MessageEvent sample_message 2 None]"
      "sample_lifecycle Started None" "sample_lifecycle Stopped (Some FAILED)" FAILED "\<lambda>_. None"
      "[''data'']" None 0]
    by (fastforce simp: sample_lifecycle_def)
qed

section \<open>A dry run after a run\<close>

definition persisting_environment :: "nat store environment" where
  "persisting_environment =
     \<lparr>deliver = (\<lambda>_ e st. case persist counting_host (\<lambda>_. None) e st of
                   (st', Inl x) \<Rightarrow> (st', Some x) | (st', Inr _) \<Rightarrow> (st', None)),
      new_uuid = (\<lambda>st. (st, ''id'')), arrivals = (\<lambda>st. (st, []))\<rparr>"

text \<open>
  A message of a dry run is written into the document of the run that finished before it:
  \<open>emit_message\<close> does not look at \<open>dry_run\<close> and the sink keeps its run after the stop.
\<close>

lemma dry_run_message_reaches_finished_run:
  "(let p0 = event_pipe [1] (persistence_sink_for [''data''] None, empty_disk 0);
        p1 = fst (initialize persisting_environment [] (Some False) (Some ''demo'') None no_endpoint p0);
        p2 = fst (finalize_run persisting_environment [] COMPLETED p1);
        p3 = fst (initialize persisting_environment [] (Some True) (Some ''demo'') None no_endpoint p2);
        p4 = fst (emit_message persisting_environment sample_message p3);
        (s, d) = outside p4
    in dry_run p4 \<and>
       (case documents d (the (conversations_location s)) of
          None \<Rightarrow> False
        | Some r \<Rightarrow> run_status_of r = COMPLETED \<and> map lm_content (run_messages r) = [''hello'']))"
  by code_simp

end
