(* ===== verification/Roboz_External.thy ===== *)
theory Roboz_External
  imports Roboz_Pipe
begin

text \<open>
  Cancellable external calls (\<open>runtime/_external.py\<close>): callers that wait for one of eight slots
  and for the result of their worker thread, the workers, the control signals and the clock, as a
  system whose steps interleave in any order. A caller's loop is split where other threads can
  come between: the look at signals and deadline, and the wait with its poll interval, which may
  end without success at any time. A label of \<open>external_event\<close> names the thread that moves.
  Log records and call ids are left out.
\<close>

section \<open>State\<close>

definition DEFAULT_MAX_WORKERS :: nat where "DEFAULT_MAX_WORKERS = 8"

record control_signal =
  error_raised :: exn
  is_set :: bool

datatype 'a worker_outcome = CallSucceeded 'a | CallFailed exn

datatype 'a call_phase =
    WaitingForSlot
  | AcquiringSlot
  | StartingWorker
  | AwaitingResult
  | PollingResult
  | Ended "exn + 'a"

datatype worker_state = NotStarted | Working | Releasing | Gone

record 'a external_call =
  xc_signals :: "nat list"
  xc_deadline :: "nat option"
  xc_phase :: "'a call_phase"
  xc_worker :: worker_state
  xc_queue :: "'a worker_outcome option"
  xc_abandoned :: bool

record 'a external_system =
  free_slots :: nat
  now :: nat
  control_signals :: "control_signal list"
  calls :: "'a external_call list"

definition external_system :: "control_signal list \<Rightarrow> 'a external_system" where
  "external_system signals =
     \<lparr>free_slots = DEFAULT_MAX_WORKERS, now = 0, control_signals = signals, calls = []\<rparr>"

section \<open>Steps\<close>

text \<open>The error of the first signal that is set.\<close>

fun first_set :: "control_signal list \<Rightarrow> nat list \<Rightarrow> exn option" where
  "first_set signals [] = None"
| "first_set signals (k # ks) =
     (if k < length signals \<and> is_set (signals ! k) then Some (error_raised (signals ! k))
      else first_set signals ks)"

definition time_is_up :: "'a external_system \<Rightarrow> 'a external_call \<Rightarrow> bool" where
  "time_is_up s c \<longleftrightarrow> (case xc_deadline c of None \<Rightarrow> False | Some deadline \<Rightarrow> deadline \<le> now s)"

definition abandon :: "exn \<Rightarrow> 'a external_call \<Rightarrow> 'a external_call" where
  "abandon e c = c\<lparr>xc_abandoned := True, xc_phase := Ended (Inl e)\<rparr>"

text \<open>The top of both loops: signals, then the deadline, then the wait.\<close>

definition look :: "'a external_system \<Rightarrow> string \<Rightarrow> 'a call_phase \<Rightarrow> 'a external_call \<Rightarrow> 'a external_call"
where
  "look s timeout_text waiting c =
     (case first_set (control_signals s) (xc_signals c) of
        Some e \<Rightarrow> abandon e c
      | None \<Rightarrow>
          if time_is_up s c then abandon (ExternalCallTimeout timeout_text) c
          else c\<lparr>xc_phase := waiting\<rparr>)"

definition put_outcome :: "'a worker_outcome \<Rightarrow> 'a external_call \<Rightarrow> 'a external_call" where
  "put_outcome r c = (if xc_queue c = None then c\<lparr>xc_queue := Some r\<rparr> else c)"

definition outcome_result :: "'a worker_outcome \<Rightarrow> exn + 'a" where
  "outcome_result r = (case r of CallSucceeded v \<Rightarrow> Inr v | CallFailed e \<Rightarrow> Inl e)"

datatype 'a external_event =
    NewCall "nat list" "nat option"
  | TimePasses nat
  | SetSignal nat
  | ClearSignal nat
  | CheckSlot nat
  | AcquireSlot nat
  | SlotPollExpires nat
  | WorkerStarts nat
  | WorkerStartFails nat exn
  | CheckResult nat
  | TakeResult nat
  | ResultPollExpires nat
  | WorkerFinishes nat "'a worker_outcome"
  | WorkerReleases nat

definition new_call :: "nat list \<Rightarrow> nat option \<Rightarrow> 'a external_system \<Rightarrow> 'a external_call" where
  "new_call signals timeout s =
     \<lparr>xc_signals = signals, xc_deadline = map_option (\<lambda>t. now s + t) timeout,
      xc_phase = WaitingForSlot, xc_worker = NotStarted, xc_queue = None, xc_abandoned = False\<rparr>"

definition set_signal :: "nat \<Rightarrow> bool \<Rightarrow> 'a external_system \<Rightarrow> 'a external_system" where
  "set_signal k b s =
     (if k < length (control_signals s)
      then s\<lparr>control_signals := (control_signals s)[k := (control_signals s ! k)\<lparr>is_set := b\<rparr>]\<rparr>
      else s)"

text \<open>A step of the thread of one call: the change of the call, and of the free slots.\<close>

fun call_step ::
  "'a external_system \<Rightarrow> 'a external_event \<Rightarrow> 'a external_call \<Rightarrow> ('a external_call \<times> nat) option"
where
  "call_step s (CheckSlot i) c =
     (if xc_phase c = WaitingForSlot
      then Some (look s ''Timed out waiting for external call slot'' AcquiringSlot c, free_slots s)
      else None)"
| "call_step s (AcquireSlot i) c =
     (if xc_phase c = AcquiringSlot \<and> 0 < free_slots s
      then Some (c\<lparr>xc_phase := StartingWorker\<rparr>, free_slots s - 1) else None)"
| "call_step s (SlotPollExpires i) c =
     (if xc_phase c = AcquiringSlot then Some (c\<lparr>xc_phase := WaitingForSlot\<rparr>, free_slots s) else None)"
| "call_step s (WorkerStarts i) c =
     (if xc_phase c = StartingWorker
      then Some (c\<lparr>xc_phase := AwaitingResult, xc_worker := Working\<rparr>, free_slots s) else None)"
| "call_step s (WorkerStartFails i e) c =
     (if xc_phase c = StartingWorker
      then Some (c\<lparr>xc_phase := Ended (Inl e)\<rparr>, free_slots s + 1) else None)"
| "call_step s (CheckResult i) c =
     (if xc_phase c = AwaitingResult
      then Some (look s ''External call timed out'' PollingResult c, free_slots s) else None)"
| "call_step s (TakeResult i) c =
     (if xc_phase c = PollingResult
      then (case xc_queue c of
              None \<Rightarrow> None
            | Some r \<Rightarrow> Some (c\<lparr>xc_queue := None, xc_phase := Ended (outcome_result r)\<rparr>, free_slots s))
      else None)"
| "call_step s (ResultPollExpires i) c =
     (if xc_phase c = PollingResult \<and> xc_queue c = None
      then Some (c\<lparr>xc_phase := AwaitingResult\<rparr>, free_slots s) else None)"
| "call_step s (WorkerFinishes i r) c =
     (if xc_worker c = Working
      then Some ((put_outcome r c)\<lparr>xc_worker := Releasing\<rparr>, free_slots s) else None)"
| "call_step s (WorkerReleases i) c =
     (if xc_worker c = Releasing then Some (c\<lparr>xc_worker := Gone\<rparr>, free_slots s + 1) else None)"
| "call_step s _ c = None"

fun call_index :: "'a external_event \<Rightarrow> nat option" where
  "call_index (CheckSlot i) = Some i"
| "call_index (AcquireSlot i) = Some i"
| "call_index (SlotPollExpires i) = Some i"
| "call_index (WorkerStarts i) = Some i"
| "call_index (WorkerStartFails i e) = Some i"
| "call_index (CheckResult i) = Some i"
| "call_index (TakeResult i) = Some i"
| "call_index (ResultPollExpires i) = Some i"
| "call_index (WorkerFinishes i r) = Some i"
| "call_index (WorkerReleases i) = Some i"
| "call_index _ = None"

definition external_step :: "'a external_event \<Rightarrow> 'a external_system \<Rightarrow> 'a external_system option" where
  "external_step ev s =
     (case call_index ev of
        Some i \<Rightarrow>
          (if i < length (calls s)
           then (case call_step s ev (calls s ! i) of
                   None \<Rightarrow> None
                 | Some (c, free) \<Rightarrow> Some (s\<lparr>calls := (calls s)[i := c], free_slots := free\<rparr>))
           else None)
      | None \<Rightarrow>
          (case ev of
             NewCall signals timeout \<Rightarrow> Some (s\<lparr>calls := calls s @ [new_call signals timeout s]\<rparr>)
           | TimePasses n \<Rightarrow> Some (s\<lparr>now := now s + n\<rparr>)
           | SetSignal k \<Rightarrow> Some (set_signal k True s)
           | ClearSignal k \<Rightarrow> Some (set_signal k False s)
           | _ \<Rightarrow> None))"

inductive reaches :: "'a external_system \<Rightarrow> 'a external_event list \<Rightarrow> 'a external_system \<Rightarrow> bool"
  for s0
where
  start: "reaches s0 [] s0"
| move: "reaches s0 evs s \<Longrightarrow> external_step ev s = Some s' \<Longrightarrow> reaches s0 (evs @ [ev]) s'"

inductive_cases reachesE: "reaches s0 evs s"

section \<open>Slots\<close>

definition holds_slot :: "'a external_call \<Rightarrow> bool" where
  "holds_slot c \<longleftrightarrow> xc_phase c = StartingWorker \<or> xc_worker c = Working \<or> xc_worker c = Releasing"

definition call_ok :: "'a external_call \<Rightarrow> bool" where
  "call_ok c \<longleftrightarrow>
     (case xc_phase c of
        WaitingForSlot \<Rightarrow> xc_worker c = NotStarted
      | AcquiringSlot \<Rightarrow> xc_worker c = NotStarted
      | StartingWorker \<Rightarrow> xc_worker c = NotStarted
      | AwaitingResult \<Rightarrow> xc_worker c \<noteq> NotStarted
      | PollingResult \<Rightarrow> xc_worker c \<noteq> NotStarted
      | Ended r \<Rightarrow> True) \<and>
     (xc_queue c \<noteq> None \<longrightarrow> xc_worker c = Releasing \<or> xc_worker c = Gone)"

definition holding :: "'a external_call list \<Rightarrow> nat" where
  "holding cs = length (filter holds_slot cs)"

lemma holding_update:
  "i < length cs \<Longrightarrow>
   holding (cs[i := c]) + (if holds_slot (cs ! i) then 1 else 0) = holding cs + (if holds_slot c then 1 else 0)"
proof (induction cs arbitrary: i)
  case (Cons x xs)
  then show ?case by (cases i) (auto simp: holding_def)
qed simp

lemma call_step_ok:
  assumes "call_ok c" and "call_step s ev c = Some (c', free)"
  shows "call_ok c'"
  using assms
  by (cases ev)
    (auto simp: call_ok_def look_def abandon_def put_outcome_def
      split: if_splits option.splits call_phase.splits)

lemma call_step_slots:
  assumes "call_ok c" and "call_step s ev c = Some (c', free)"
  shows "free + (if holds_slot c' then 1 else 0) = free_slots s + (if holds_slot c then 1 else 0)"
  using assms
  by (cases ev)
    (auto simp: call_ok_def look_def abandon_def put_outcome_def holds_slot_def
      split: if_splits option.splits call_phase.splits)

lemma external_step_cases:
  assumes "external_step ev s = Some s'"
  obtains (call) i c free where "call_index ev = Some i" "i < length (calls s)"
      "call_step s ev (calls s ! i) = Some (c, free)"
      "s' = s\<lparr>calls := (calls s)[i := c], free_slots := free\<rparr>"
  | (new) signals timeout where "ev = NewCall signals timeout"
      "s' = s\<lparr>calls := calls s @ [new_call signals timeout s]\<rparr>"
  | (time) n where "ev = TimePasses n" "s' = s\<lparr>now := now s + n\<rparr>"
  | (signal) k b where "ev = (if b then SetSignal k else ClearSignal k)" "s' = set_signal k b s"
proof (cases "call_index ev")
  case (Some i)
  with assms call show ?thesis
    by (auto simp: external_step_def split: if_splits option.splits)
next
  case None
  with assms new time signal[of True] signal[of False] show ?thesis
    by (cases ev) (auto simp: external_step_def)
qed

lemma set_signal_frame [simp]:
  "calls (set_signal k b s) = calls s" "free_slots (set_signal k b s) = free_slots s"
  "now (set_signal k b s) = now s"
  "length (control_signals (set_signal k b s)) = length (control_signals s)"
  by (simp_all add: set_signal_def)

lemma new_call_ok: "call_ok (new_call signals timeout s)" "\<not> holds_slot (new_call signals timeout s)"
  by (simp_all add: new_call_def call_ok_def holds_slot_def)

lemma slots_kept:
  assumes "\<forall>c \<in> set (calls s). call_ok c" and "external_step ev s = Some s'"
  shows "(\<forall>c \<in> set (calls s'). call_ok c) \<and>
    free_slots s' + holding (calls s') = free_slots s + holding (calls s)"
  using assms(2)
proof (cases rule: external_step_cases)
  case (call i c free)
  have ok: "call_ok (calls s ! i)" using assms(1) call(2) by simp
  from call_step_slots[OF ok call(3)] holding_update[OF call(2), of c]
  have "free + holding ((calls s)[i := c]) = free_slots s + holding (calls s)" by linarith
  with assms(1) call_step_ok[OF ok call(3)] call(4) show ?thesis
    by (auto dest!: set_update_subset_insert[THEN subsetD])
next
  case (new signals timeout)
  with assms(1) show ?thesis by (auto simp: holding_def new_call_ok)
qed (use assms(1) in auto)

lemma slots_invariant:
  "reaches (external_system signals) evs s \<Longrightarrow>
   (\<forall>c \<in> set (calls s). call_ok c) \<and> free_slots s + holding (calls s) = DEFAULT_MAX_WORKERS"
proof (induction rule: reaches.induct)
  case start
  show ?case by (simp add: external_system_def holding_def)
next
  case (move evs s ev s')
  with slots_kept[of s ev s'] show ?case by simp
qed

section \<open>Outcomes\<close>

text \<open>What makes a call end with \<open>e\<close> before its worker has: a signal of the call, or its deadline.\<close>

definition released_early ::
  "control_signal list \<Rightarrow> 'a external_event list \<Rightarrow> 'a external_system \<Rightarrow> 'a external_call \<Rightarrow> exn \<Rightarrow> bool"
where
  "released_early signals evs s c e \<longleftrightarrow>
     xc_abandoned c \<and>
     ((\<exists>k \<in> set (xc_signals c). k < length signals \<and> e = error_raised (signals ! k) \<and>
         (is_set (signals ! k) \<or> SetSignal k \<in> set evs)) \<or>
      (\<exists>text. e = ExternalCallTimeout text) \<and> time_is_up s c)"

definition justified ::
  "control_signal list \<Rightarrow> 'a external_event list \<Rightarrow> 'a external_system \<Rightarrow> nat \<Rightarrow> exn + 'a \<Rightarrow> bool" where
  "justified signals evs s i result \<longleftrightarrow>
     (case result of
        Inr v \<Rightarrow> WorkerFinishes i (CallSucceeded v) \<in> set evs
      | Inl e \<Rightarrow>
          WorkerFinishes i (CallFailed e) \<in> set evs \<or> WorkerStartFails i e \<in> set evs \<or>
          released_early signals evs s (calls s ! i) e)"

definition history ::
  "control_signal list \<Rightarrow> 'a external_event list \<Rightarrow> 'a external_system \<Rightarrow> bool" where
  "history signals evs s \<longleftrightarrow>
     length (control_signals s) = length signals \<and>
     (\<forall>k < length signals. error_raised (control_signals s ! k) = error_raised (signals ! k) \<and>
        (is_set (control_signals s ! k) \<longrightarrow> is_set (signals ! k) \<or> SetSignal k \<in> set evs)) \<and>
     (\<forall>i < length (calls s).
        (\<forall>r. xc_queue (calls s ! i) = Some r \<longrightarrow> WorkerFinishes i r \<in> set evs) \<and>
        (\<forall>result. xc_phase (calls s ! i) = Ended result \<longrightarrow> justified signals evs s i result))"

lemma first_set_Some:
  "first_set sigs ks = Some e \<Longrightarrow>
   \<exists>k \<in> set ks. k < length sigs \<and> is_set (sigs ! k) \<and> e = error_raised (sigs ! k)"
  by (induction ks) (auto split: if_splits)

lemma justified_mono:
  assumes "justified signals evs s i result" and "set evs \<subseteq> set evs'"
    and "xc_signals (calls s' ! i) = xc_signals (calls s ! i)"
    and "xc_abandoned (calls s' ! i) = xc_abandoned (calls s ! i)"
    and "time_is_up s (calls s ! i) \<Longrightarrow> time_is_up s' (calls s' ! i)"
  shows "justified signals evs' s' i result"
  using assms unfolding justified_def released_early_def by (auto split: sum.splits)

lemma call_step_frame:
  assumes "call_step s ev c = Some (c', free)"
  shows "xc_signals c' = xc_signals c" and "xc_deadline c' = xc_deadline c"
  using assms
  by (cases ev; auto simp: look_def abandon_def put_outcome_def split: if_splits option.splits)+

lemma call_step_queue:
  assumes "call_step s ev c = Some (c', free)" and "call_index ev = Some i" and "xc_queue c' = Some r"
  shows "xc_queue c = Some r \<or> ev = WorkerFinishes i r"
  using assms
  by (cases ev) (auto simp: look_def abandon_def put_outcome_def split: if_splits option.splits)

lemma call_step_ended:
  assumes "call_step s ev c = Some (c', free)" and "call_index ev = Some i"
    and "xc_phase c' = Ended result"
  shows "xc_phase c = Ended result \<and> xc_abandoned c' = xc_abandoned c \<or>
    (\<exists>e. ev = WorkerStartFails i e \<and> result = Inl e) \<or>
    (\<exists>r. xc_queue c = Some r \<and> result = outcome_result r) \<or>
    (\<exists>e. result = Inl e \<and> xc_abandoned c' \<and>
       (first_set (control_signals s) (xc_signals c) = Some e \<or>
        (\<exists>text. e = ExternalCallTimeout text) \<and> time_is_up s c))"
  using assms
  by (cases ev) (auto simp: look_def abandon_def put_outcome_def split: if_splits option.splits)

lemma time_is_up_frame:
  "xc_deadline c' = xc_deadline c \<Longrightarrow> now s \<le> now s' \<Longrightarrow> time_is_up s c \<Longrightarrow> time_is_up s' c'"
  by (auto simp: time_is_up_def split: option.splits)

lemma history_call:
  assumes hist: "history signals evs s" and i: "call_index ev = Some i" "i < length (calls s)"
    and step: "call_step s ev (calls s ! i) = Some (c, free)"
  shows "history signals (evs @ [ev]) (s\<lparr>calls := (calls s)[i := c], free_slots := free\<rparr>)"
proof -
  let ?s' = "s\<lparr>calls := (calls s)[i := c], free_slots := free\<rparr>"
  note frame = call_step_frame[OF step]
  have old: "justified signals (evs @ [ev]) ?s' j result"
    if "j < length (calls s)" "xc_phase (calls s ! j) = Ended result"
      "j = i \<Longrightarrow> xc_abandoned c = xc_abandoned (calls s ! i)" for j result
    by (rule justified_mono[where evs = evs and s = s])
      (use that hist frame i(2) in \<open>auto simp: history_def nth_list_update intro: time_is_up_frame\<close>)
  have queue: "WorkerFinishes j r \<in> set (evs @ [ev])"
    if "j < length (calls s)" "xc_queue ((calls s)[i := c] ! j) = Some r" for j r
    using that hist call_step_queue[OF step i(1)] i(2)
    by (cases "j = i") (auto simp: history_def)
  have result: "justified signals (evs @ [ev]) ?s' j result"
    if j: "j < length (calls s)" and ended: "xc_phase ((calls s)[i := c] ! j) = Ended result" for j result
  proof (cases "j = i")
    case False
    with ended have "xc_phase (calls s ! j) = Ended result" by simp
    with j False show ?thesis by (intro old) auto
  next
    case True
    with ended i(2) have "xc_phase c = Ended result" by simp
    from call_step_ended[OF step i(1) this] consider
        "xc_phase (calls s ! i) = Ended result" "xc_abandoned c = xc_abandoned (calls s ! i)"
      | e where "ev = WorkerStartFails i e" "result = Inl e"
      | r where "xc_queue (calls s ! i) = Some r" "result = outcome_result r"
      | e where "result = Inl e" "xc_abandoned c"
          "first_set (control_signals s) (xc_signals (calls s ! i)) = Some e"
      | msg where "result = Inl (ExternalCallTimeout msg)" "xc_abandoned c" "time_is_up s (calls s ! i)"
      by blast
    then show ?thesis
    proof cases
      case 1
      with True i(2) show ?thesis by (intro old) auto
    next
      case (2 e)
      with True show ?thesis by (simp add: justified_def)
    next
      case (3 r)
      with hist i(2) have "WorkerFinishes i r \<in> set evs" by (auto simp: history_def)
      with 3 True show ?thesis by (cases r) (simp_all add: justified_def outcome_result_def)
    next
      case (4 e)
      from first_set_Some[OF 4(3)] obtain k where k: "k \<in> set (xc_signals (calls s ! i))"
        "k < length (control_signals s)" "is_set (control_signals s ! k)"
        "e = error_raised (control_signals s ! k)" by blast
      with hist have "k < length signals" "e = error_raised (signals ! k)"
        "is_set (signals ! k) \<or> SetSignal k \<in> set evs" by (auto simp: history_def)
      with 4 True k i(2) frame show ?thesis
        by (auto simp: justified_def released_early_def)
    next
      case (5 msg)
      then have "time_is_up ?s' c" by (auto intro: time_is_up_frame[OF frame(2)])
      with 5 True i(2) show ?thesis by (auto simp: justified_def released_early_def)
    qed
  qed
  from hist queue result show ?thesis by (simp add: history_def) blast
qed

lemma history_kept:
  assumes hist: "history signals evs s" and step: "external_step ev s = Some s'"
  shows "history signals (evs @ [ev]) s'"
  using step
proof (cases rule: external_step_cases)
  case (call i c free)
  with history_call[OF hist call(1-3)] show ?thesis by simp
next
  case (new sigs timeout)
  have "justified signals (evs @ [ev]) s' j result"
    if "j < length (calls s)" "xc_phase (calls s ! j) = Ended result" for j result
    by (rule justified_mono[where evs = evs and s = s])
      (use that hist new in \<open>auto simp: history_def nth_append time_is_up_def split: option.splits\<close>)
  with hist new show ?thesis
    by (auto simp: history_def nth_append new_call_def less_Suc_eq)
next
  case (time n)
  have "justified signals (evs @ [ev]) s' j result"
    if "j < length (calls s)" "xc_phase (calls s ! j) = Ended result" for j result
    by (rule justified_mono[where evs = evs and s = s])
      (use that hist time in \<open>auto simp: history_def time_is_up_def split: option.splits\<close>)
  with hist time show ?thesis by (auto simp: history_def)
next
  case (signal k b)
  have "justified signals (evs @ [ev]) s' j result"
    if "j < length (calls s)" "xc_phase (calls s ! j) = Ended result" for j result
    by (rule justified_mono[where evs = evs and s = s])
      (use that hist signal in \<open>auto simp: history_def time_is_up_def split: option.splits\<close>)
  with hist signal show ?thesis
    by (auto simp: history_def set_signal_def nth_list_update split: if_splits)
qed

lemma history_reached: "reaches (external_system signals) evs s \<Longrightarrow> history signals evs s"
proof (induction rule: reaches.induct)
  case start
  show ?case by (simp add: history_def external_system_def)
next
  case (move evs s ev s')
  then show ?case by (blast intro: history_kept)
qed

lemma ended_step:
  assumes "external_step ev s = Some s'" and "i < length (calls s)" and "xc_phase (calls s ! i) = Ended r"
  shows "i < length (calls s') \<and> xc_phase (calls s' ! i) = Ended r"
  using assms(1)
proof (cases rule: external_step_cases)
  case (call j c free)
  show ?thesis
  proof (cases "j = i")
    case True
    with call(3) assms(3) have "xc_phase c = Ended r"
      by (cases ev) (auto simp: put_outcome_def split: if_splits)
    with call assms True show ?thesis by simp
  qed (use call assms in simp)
qed (use assms in \<open>auto simp: nth_append\<close>)

lemma ended_reached:
  "reaches s evs s' \<Longrightarrow> i < length (calls s) \<Longrightarrow> xc_phase (calls s ! i) = Ended r \<Longrightarrow>
   i < length (calls s') \<and> xc_phase (calls s' ! i) = Ended r"
  by (induction rule: reaches.induct) (use ended_step in blast)+

section \<open>Properties\<close>

text \<open>
  C17. At most eight workers run: however callers, workers, signals and the clock interleave, the
  free slots and the calls that hold one always add up to eight, so a slot is never released twice
  nor lost, not even by a call whose caller left or whose thread could not start.
\<close>

theorem slots_are_conserved:
  assumes "reaches (external_system signals) evs s"
  shows "free_slots s + holding (calls s) = DEFAULT_MAX_WORKERS \<and>
    length (filter (\<lambda>c. xc_worker c = Working) (calls s)) \<le> DEFAULT_MAX_WORKERS"
proof -
  have "length (filter (\<lambda>c. xc_worker c = Working) cs) \<le> holding cs" for cs :: "'a external_call list"
    by (induction cs) (auto simp: holding_def holds_slot_def)
  with slots_invariant[OF assms] show ?thesis by (metis le_add2 le_trans)
qed

text \<open>
  C18. A call ends once and truthfully: a value it returns is what its own worker computed; an
  error is that of its worker or of starting it, or the error of one of its signals that was set,
  or a timeout after its deadline; and whatever the worker does later is ignored.
\<close>

theorem outcomes_are_justified:
  assumes "reaches (external_system signals) evs s" and "i < length (calls s)"
    and "xc_phase (calls s ! i) = Ended result"
  shows "justified signals evs s i result \<and>
    (\<forall>later s'. reaches s later s' \<longrightarrow> xc_phase (calls s' ! i) = Ended result)"
  using history_reached[OF assms(1)] assms(2,3) ended_reached[OF _ assms(2,3)]
  by (auto simp: history_def)

fun run_events_of :: "'a external_event list \<Rightarrow> 'a external_system \<Rightarrow> 'a external_system option" where
  "run_events_of [] s = Some s"
| "run_events_of (ev # evs) s =
     (case external_step ev s of None \<Rightarrow> None | Some s' \<Rightarrow> run_events_of evs s')"

lemma run_events_reach: "run_events_of evs s = Some s' \<Longrightarrow> reaches s evs s'"
proof -
  have "reaches s0 past s \<Longrightarrow> run_events_of evs s = Some s' \<Longrightarrow> reaches s0 (past @ evs) s'" for s0 past
  proof (induction evs arbitrary: s past)
    case (Cons ev evs)
    from Cons.prems(2) obtain s1 where s1: "external_step ev s = Some s1" "run_events_of evs s1 = Some s'"
      by (auto split: option.splits)
    from Cons.IH[OF reaches.move[OF Cons.prems(1) s1(1)] s1(2)] show ?case by simp
  qed simp
  from this[of s "[]", OF reaches.start] show "run_events_of evs s = Some s' \<Longrightarrow> reaches s evs s'" by simp
qed

text \<open>A caller that is cancelled while its worker runs; the worker finishes later.\<close>

definition late_worker :: "nat external_event list" where
  "late_worker =
     [NewCall [0] (Some 3), CheckSlot 0, AcquireSlot 0, WorkerStarts 0, CheckResult 0,
      ResultPollExpires 0, SetSignal 0, CheckResult 0, WorkerFinishes 0 (CallSucceeded 7),
      WorkerReleases 0]"

definition one_signal :: "control_signal list" where
  "one_signal = [\<lparr>error_raised = ExternalCallCancelled ''x'', is_set = False\<rparr>]"

theorem slots_are_conserved_witness:
  "\<exists>s. run_events_of (take 8 late_worker) (external_system one_signal) = Some s \<and>
     free_slots s = 7 \<and> free_slots s + holding (calls s) = DEFAULT_MAX_WORKERS"
proof -
  have "map_option free_slots (run_events_of (take 8 late_worker) (external_system one_signal)) = Some 7"
    by code_simp
  then obtain s where "run_events_of (take 8 late_worker) (external_system one_signal) = Some s"
    "free_slots s = 7" by auto
  with slots_are_conserved[OF run_events_reach] show ?thesis by blast
qed

theorem outcomes_are_justified_witness:
  "\<exists>s. run_events_of late_worker (external_system one_signal) = Some s \<and>
     xc_phase (calls s ! 0) = Ended (Inl (ExternalCallCancelled ''x'')) \<and>
     justified one_signal late_worker s 0 (Inl (ExternalCallCancelled ''x''))"
proof -
  have "case run_events_of late_worker (external_system one_signal) of None \<Rightarrow> False
      | Some s \<Rightarrow> length (calls s) = 1 \<and> xc_phase (calls s ! 0) = Ended (Inl (ExternalCallCancelled ''x''))"
    by code_simp
  then obtain s where "run_events_of late_worker (external_system one_signal) = Some s"
    "length (calls s) = 1" "xc_phase (calls s ! 0) = Ended (Inl (ExternalCallCancelled ''x''))"
    by (auto split: option.splits)
  with outcomes_are_justified[OF run_events_reach, of late_worker one_signal s 0] show ?thesis by auto
qed

end
