(* ===== verification/Roboz_Provider.thy ===== *)
theory Roboz_Provider
  imports Roboz_Pipe "HOL-Library.Sublist"
begin

text \<open>
  Errors of model calls (\<open>exceptions.py\<close>) and their diagnosis (\<open>llm/_diagnostics.py\<close>): the
  classification of provider exceptions, the chain of their causes, what a failure is reported
  as, and the response diagnostics that keep counts but no text. Attributes of provider objects
  are values of \<open>py_object\<close>; \<open>str\<close> of a value that is neither a string nor an integer is a
  parameter. Attribute access that raises is left out.
\<close>

section \<open>Values\<close>

datatype py_object =
    PyNone
  | PyBool bool
  | PyInt int
  | PyStr string
  | PyList "py_object list"
  | PyDict "(string \<times> py_object) list"
  | PyObj string "(string \<times> py_object) list"

text \<open>\<open>value.get(name)\<close> of a dict and \<open>getattr(value, name, None)\<close> of anything else.\<close>

fun field :: "py_object \<Rightarrow> string \<Rightarrow> py_object" where
  "field (PyDict kvs) name = (case map_of kvs name of None \<Rightarrow> PyNone | Some v \<Rightarrow> v)"
| "field (PyObj cls attrs) name = (case map_of attrs name of None \<Rightarrow> PyNone | Some v \<Rightarrow> v)"
| "field _ name = PyNone"

fun is_attr :: "py_object \<Rightarrow> bool" where
  "is_attr PyNone = False"
| "is_attr _ = True"

section \<open>Errors\<close>

datatype llm_class =
    LLMError | LLMProviderRequestError | LLMCallCancelledError | LLMCallInterruptedError
  | LLMCallTimeoutError | LLMAuthError | LLMInsufficientFundsError | LLMRateLimitExceededError
  | LLMContextLimitExceededError | LLMContentFilteredError | LLMProviderUnavailableError
  | LLMUnknownProviderError | LLMClientError | LLMImageInputClass | RateLimitExceededError
  | ContextLimitExceededError | LLMOutputFormatError

fun llm_parent :: "llm_class \<Rightarrow> llm_class option" where
  "llm_parent LLMError = None"
| "llm_parent LLMAuthError = Some LLMProviderRequestError"
| "llm_parent LLMInsufficientFundsError = Some LLMProviderRequestError"
| "llm_parent LLMRateLimitExceededError = Some LLMProviderRequestError"
| "llm_parent LLMContextLimitExceededError = Some LLMProviderRequestError"
| "llm_parent LLMContentFilteredError = Some LLMProviderRequestError"
| "llm_parent LLMImageInputClass = Some LLMClientError"
| "llm_parent RateLimitExceededError = Some LLMRateLimitExceededError"
| "llm_parent ContextLimitExceededError = Some LLMContextLimitExceededError"
| "llm_parent _ = Some LLMError"

text \<open>\<open>isinstance\<close> among the classes of the module; the hierarchy has four levels.\<close>

definition llm_isinstance :: "llm_class \<Rightarrow> llm_class \<Rightarrow> bool" where
  "llm_isinstance c d \<longleftrightarrow>
     (let up = (\<lambda>x. case x of None \<Rightarrow> None | Some k \<Rightarrow> llm_parent k);
          p1 = llm_parent c; p2 = up p1; p3 = up p2
      in c = d \<or> p1 = Some d \<or> p2 = Some d \<or> p3 = Some d)"

type_synonym llm_error = "llm_class \<times> string"

datatype llm_error_kind =
    KIND_INTERRUPTED | KIND_CANCELLED | KIND_TIMEOUT | KIND_AUTH | KIND_INSUFFICIENT_FUNDS
  | KIND_RATE_LIMIT | KIND_CONTEXT_LIMIT | KIND_CONTENT_FILTER | KIND_PROVIDER_REQUEST
  | KIND_PROVIDER_UNAVAILABLE | KIND_UNKNOWN_PROVIDER_ERROR

fun first_kind :: "llm_class \<Rightarrow> (llm_class \<times> llm_error_kind) list \<Rightarrow> llm_error_kind" where
  "first_kind c [] = KIND_UNKNOWN_PROVIDER_ERROR"
| "first_kind c ((d, k) # cases) = (if llm_isinstance c d then k else first_kind c cases)"

definition error_kind :: "llm_class \<Rightarrow> llm_error_kind" where
  "error_kind c = first_kind c
     [(LLMCallInterruptedError, KIND_INTERRUPTED), (LLMCallCancelledError, KIND_CANCELLED),
      (LLMCallTimeoutError, KIND_TIMEOUT), (LLMAuthError, KIND_AUTH),
      (LLMInsufficientFundsError, KIND_INSUFFICIENT_FUNDS),
      (LLMRateLimitExceededError, KIND_RATE_LIMIT),
      (LLMContextLimitExceededError, KIND_CONTEXT_LIMIT),
      (LLMContentFilteredError, KIND_CONTENT_FILTER),
      (LLMProviderRequestError, KIND_PROVIDER_REQUEST),
      (LLMProviderUnavailableError, KIND_PROVIDER_UNAVAILABLE)]"

definition observed_llm_failure :: "llm_class \<Rightarrow> observed_failure" where
  "observed_llm_failure c =
     (let level = (if llm_isinstance c LLMProviderRequestError then LevelWarning else LevelError)
      in if llm_isinstance c LLMCallInterruptedError then \<lparr>of_kind = EvInterrupted, of_level = level\<rparr>
         else if llm_isinstance c LLMCallCancelledError then \<lparr>of_kind = EvCancelled, of_level = level\<rparr>
         else if llm_isinstance c LLMCallTimeoutError then \<lparr>of_kind = EvTimedOut, of_level = level\<rparr>
         else \<lparr>of_kind = EvFailed, of_level = level\<rparr>)"

section \<open>Provider exceptions\<close>

text \<open>
  The exceptions of a process by identity: the classes of the method resolution order with the
  first component of their modules, \<open>str\<close> of the exception, its attributes, its \<open>errno\<close> when it
  is an \<open>OSError\<close>, its cause and its context.
\<close>

record provider_error =
  pe_mro :: "(string \<times> string) list"
  pe_text :: string
  pe_attrs :: "(string \<times> py_object) list"
  pe_errno :: "int option"
  pe_cause :: "nat option"
  pe_context :: "nat option"

text \<open>The endpoint's own exception classes, \<open>None\<close> for the default \<open>Exception\<close>.\<close>

record endpoint_errors =
  rate_limit_error :: "(string \<times> string) option"
  context_length_error :: "(string \<times> string) option"

definition next_cause :: "provider_error \<Rightarrow> nat option" where
  "next_cause e = (case pe_cause e of Some j \<Rightarrow> Some j | None \<Rightarrow> pe_context e)"

function cause_chain :: "provider_error list \<Rightarrow> nat list \<Rightarrow> nat option \<Rightarrow> nat list" where
  "cause_chain store seen None = []"
| "cause_chain store seen (Some i) =
     (if length store \<le> i \<or> i \<in> set seen then []
      else i # cause_chain store (i # seen) (next_cause (store ! i)))"
  by pat_completeness auto
termination
proof (relation "measure (\<lambda>(store, seen, current). card ({..<length store} - set seen))")
  fix store :: "provider_error list" and seen and i
  assume "\<not> (length store \<le> i \<or> i \<in> set seen)"
  then have "i \<in> {..<length store} - set seen" by simp
  moreover have "{..<length store} - set (i # seen) = ({..<length store} - set seen) - {i}" by auto
  ultimately have "card ({..<length store} - set (i # seen)) < card ({..<length store} - set seen)"
    by (simp only: card_Diff1_less finite_Diff finite_lessThan)
  then show "((store, i # seen, next_cause (store ! i)), store, seen, Some i)
      \<in> measure (\<lambda>(store, seen, current). card ({..<length store} - set seen))" by simp
qed simp

definition TRANSPORT_ERROR_MODULES :: "string list" where
  "TRANSPORT_ERROR_MODULES = [''httpx'', ''httpcore'']"

definition TRANSPORT_ERROR_NAMES :: "string list" where
  "TRANSPORT_ERROR_NAMES = [''TransportError'', ''NetworkError'', ''TimeoutException'']"

definition TRANSIENT_OS_ERRNOS :: "int list" where
  "TRANSIENT_OS_ERRNOS = [32, 54, 60, 104, 110, 111]"

definition transport_failure :: "provider_error \<Rightarrow> bool" where
  "transport_failure e \<longleftrightarrow>
     (case pe_errno e of None \<Rightarrow> False | Some n \<Rightarrow> n \<in> set TRANSIENT_OS_ERRNOS) \<or>
     list_ex (\<lambda>(m, name). m \<in> set TRANSPORT_ERROR_MODULES \<and> name \<in> set TRANSPORT_ERROR_NAMES)
       (pe_mro e)"

definition is_transport_error :: "provider_error list \<Rightarrow> nat \<Rightarrow> bool" where
  "is_transport_error store i =
     list_ex (\<lambda>k. transport_failure (store ! k)) (cause_chain store [] (Some i))"

definition matches_endpoint_error :: "provider_error \<Rightarrow> (string \<times> string) option \<Rightarrow> bool" where
  "matches_endpoint_error e error_type \<longleftrightarrow>
     (case error_type of None \<Rightarrow> False | Some t \<Rightarrow> t \<in> set (pe_mro e))"

fun error_attr :: "(string \<times> py_object) list \<Rightarrow> string list \<Rightarrow> py_object \<Rightarrow> py_object" where
  "error_attr attrs [] fallback = fallback"
| "error_attr attrs (name # names) fallback =
     (let v = field (PyObj [] attrs) name
      in if is_attr v then v else error_attr attrs names fallback)"

definition py_lower :: "string \<Rightarrow> string" where "py_lower s = map lower_char s"

definition has_any :: "string \<Rightarrow> string list \<Rightarrow> bool" where
  "has_any haystack needles = list_ex (\<lambda>needle. sublist needle haystack) needles"

definition status_in :: "py_object \<Rightarrow> int list \<Rightarrow> bool" where
  "status_in status codes = (case status of PyInt n \<Rightarrow> n \<in> set codes | _ \<Rightarrow> False)"

definition status_between :: "py_object \<Rightarrow> int \<Rightarrow> int \<Rightarrow> bool" where
  "status_between status lo hi = (case status of PyInt n \<Rightarrow> lo \<le> n \<and> n < hi | _ \<Rightarrow> False)"

definition code_text :: "(py_object \<Rightarrow> string) \<Rightarrow> py_object \<Rightarrow> string" where
  "code_text str v = (case v of PyStr s \<Rightarrow> s | PyInt n \<Rightarrow> show_int n | _ \<Rightarrow> str v)"

definition haystack_of :: "(py_object \<Rightarrow> string) \<Rightarrow> provider_error \<Rightarrow> string" where
  "haystack_of str e =
     (let provider_code = py_lower (code_text str (error_attr (pe_attrs e) [''code'', ''type''] (PyStr [])));
          body = py_lower (pe_text e)
      in join_with '' '' (filter (\<lambda>part. part \<noteq> []) [provider_code, body]))"

definition classify_llm_provider_error ::
  "(py_object \<Rightarrow> string) \<Rightarrow> endpoint_errors \<Rightarrow> provider_error list \<Rightarrow> nat \<Rightarrow> llm_error" where
  "classify_llm_provider_error str endpoint store i =
     (let e = store ! i;
          status = error_attr (pe_attrs e) [''status_code'', ''status''] PyNone;
          haystack = haystack_of str e
      in (if matches_endpoint_error e (rate_limit_error endpoint) then LLMRateLimitExceededError
          else if matches_endpoint_error e (context_length_error endpoint)
            then LLMContextLimitExceededError
          else if status_between status 500 600 then LLMProviderUnavailableError
          else if status_in status [401, 403] \<or>
                  has_any haystack [''auth'', ''api key'', ''unauthorized'', ''forbidden'']
            then LLMAuthError
          else if status_in status [402] \<or>
                  has_any haystack [''insufficient'', ''funds'', ''balance'', ''quota_exceeded'']
            then LLMInsufficientFundsError
          else if status_in status [429] \<or>
                  (has_any haystack [''rate''] \<and> has_any haystack [''limit''])
            then LLMRateLimitExceededError
          else if has_any haystack [''context'', ''maximum context'', ''token limit'', ''too many tokens'']
            then LLMContextLimitExceededError
          else if has_any haystack [''unavailable'', ''overloaded'', ''timeout''] \<or>
                  is_transport_error store i
            then LLMProviderUnavailableError
          else if status_between status 400 500 then LLMProviderRequestError
          else LLMUnknownProviderError, pe_text e))"

text \<open>What a call can raise: a typed error, an error of the call boundary, or another exception.\<close>

datatype raised =
    RaisedLLM llm_error
  | RaisedInterrupted
  | RaisedCancelled
  | RaisedTimeout
  | RaisedProvider nat
  | RaisedOther exn

text \<open>\<open>describe\<close> is an exception of the runtime as an object of Python.\<close>

definition classify_call_error ::
  "(py_object \<Rightarrow> string) \<Rightarrow> (exn \<Rightarrow> provider_error) \<Rightarrow> endpoint_errors \<Rightarrow> provider_error list \<Rightarrow> raised
    \<Rightarrow> llm_error" where
  "classify_call_error str describe endpoint store r =
     (case r of
        RaisedLLM e \<Rightarrow> e
      | RaisedInterrupted \<Rightarrow> (LLMCallInterruptedError, ''LLM call was interrupted'')
      | RaisedCancelled \<Rightarrow> (LLMCallCancelledError, ''LLM call was cancelled'')
      | RaisedTimeout \<Rightarrow> (LLMCallTimeoutError, ''LLM call timed out'')
      | RaisedProvider i \<Rightarrow> classify_llm_provider_error str endpoint store i
      | RaisedOther e \<Rightarrow> classify_llm_provider_error str endpoint [describe e] 0)"

definition RETRYABLE_LLM_ERRORS :: "llm_class list" where
  "RETRYABLE_LLM_ERRORS = [LLMRateLimitExceededError, LLMProviderUnavailableError]"

definition retryable :: "llm_class \<Rightarrow> bool" where
  "retryable c = list_ex (llm_isinstance c) RETRYABLE_LLM_ERRORS"

section \<open>Response diagnostics\<close>

record llm_diagnostics =
  reasoning_chars :: nat
  reasoning_chunks :: nat
  reasoning_tokens :: "int option"
  finish_reason :: "string option"
  provider_generation_id :: "string option"
  stream_chunks :: "nat option"
  content_chunks :: "nat option"

definition no_diagnostics :: llm_diagnostics where
  "no_diagnostics =
     \<lparr>reasoning_chars = 0, reasoning_chunks = 0, reasoning_tokens = None, finish_reason = None,
      provider_generation_id = None, stream_chunks = None, content_chunks = None\<rparr>"

definition for_stream :: llm_diagnostics where
  "for_stream = no_diagnostics\<lparr>stream_chunks := Some 0, content_chunks := Some 0\<rparr>"

fun nonempty_text :: "py_object \<Rightarrow> string option" where
  "nonempty_text (PyStr s) = (if s = [] then None else Some s)"
| "nonempty_text _ = None"

fun first_text :: "py_object \<Rightarrow> string list \<Rightarrow> string option" where
  "first_text v [] = None"
| "first_text v (name # names) =
     (case nonempty_text (field v name) of Some s \<Rightarrow> Some s | None \<Rightarrow> first_text v names)"

definition first_choice :: "py_object \<Rightarrow> py_object" where
  "first_choice response =
     (case field response ''choices'' of PyList (c # cs) \<Rightarrow> c | _ \<Rightarrow> PyNone)"

definition observe_reasoning :: "py_object \<Rightarrow> llm_diagnostics \<Rightarrow> llm_diagnostics" where
  "observe_reasoning v d =
     (case first_text v [''reasoning'', ''reasoning_content''] of
        Some s \<Rightarrow> d\<lparr>reasoning_chars := reasoning_chars d + length s,
                    reasoning_chunks := Suc (reasoning_chunks d)\<rparr>
      | None \<Rightarrow>
          (case field v ''reasoning_details'' of
             PyList (detail # details) \<Rightarrow>
               d\<lparr>reasoning_chunks := Suc (reasoning_chunks d),
                 reasoning_chars := reasoning_chars d +
                   sum_list (map (\<lambda>x. case first_text x [''text'', ''summary''] of
                                        None \<Rightarrow> 0 | Some s \<Rightarrow> length s) (detail # details))\<rparr>
           | _ \<Rightarrow> d))"

definition observe_usage :: "py_object \<Rightarrow> llm_diagnostics \<Rightarrow> llm_diagnostics" where
  "observe_usage usage d =
     (case field (field usage ''completion_tokens_details'') ''reasoning_tokens'' of
        PyInt n \<Rightarrow> d\<lparr>reasoning_tokens := Some n\<rparr>
      | _ \<Rightarrow> d)"

definition observe_finish :: "py_object \<Rightarrow> llm_diagnostics \<Rightarrow> llm_diagnostics" where
  "observe_finish choice d =
     (case nonempty_text (field choice ''finish_reason'') of
        None \<Rightarrow> d | Some r \<Rightarrow> d\<lparr>finish_reason := Some r\<rparr>)"

definition from_response :: "py_object \<Rightarrow> py_object \<Rightarrow> llm_diagnostics" where
  "from_response response usage =
     (let choice = first_choice response;
          d1 = observe_finish choice
                 (observe_usage usage (observe_reasoning (field choice ''message'') no_diagnostics))
      in case nonempty_text (field response ''id'') of
           None \<Rightarrow> d1 | Some g \<Rightarrow> d1\<lparr>provider_generation_id := Some g\<rparr>)"

definition observe_chunk :: "py_object \<Rightarrow> bool \<Rightarrow> llm_diagnostics \<Rightarrow> llm_diagnostics" where
  "observe_chunk chunk has_content d =
     (let d1 = d\<lparr>stream_chunks := map_option Suc (stream_chunks d),
                 content_chunks := map_option (\<lambda>n. n + (if has_content then 1 else 0)) (content_chunks d)\<rparr>;
          d2 = (if provider_generation_id d1 = None
                then (case nonempty_text (field chunk ''id'') of
                        None \<Rightarrow> d1 | Some g \<Rightarrow> d1\<lparr>provider_generation_id := Some g\<rparr>)
                else d1);
          choice = first_choice chunk
      in observe_reasoning (field choice ''delta'') (observe_finish choice d2))"

section \<open>Lemmas\<close>

lemma cause_chain_distinct:
  "distinct (cause_chain store seen current) \<and> set (cause_chain store seen current) \<inter> set seen = {} \<and>
   set (cause_chain store seen current) \<subseteq> {..<length store}"
proof (induction store seen current rule: cause_chain.induct)
  case (2 store seen i)
  then show ?case by (cases "length store \<le> i \<or> i \<in> set seen") auto
qed simp

lemma cause_chain_head: "i < length store \<Longrightarrow> i \<in> set (cause_chain store [] (Some i))"
  by simp

lemma retryable_iff:
  "retryable c \<longleftrightarrow> c \<in> {LLMRateLimitExceededError, LLMProviderUnavailableError, RateLimitExceededError}"
  by (cases c) (simp_all add: retryable_def RETRYABLE_LLM_ERRORS_def llm_isinstance_def)

definition free_of :: "string \<Rightarrow> string list \<Rightarrow> bool" where
  "free_of haystack needles \<longleftrightarrow> \<not> has_any haystack needles"

definition AUTH_WORDS :: "string list" where
  "AUTH_WORDS = [''auth'', ''api key'', ''unauthorized'', ''forbidden'']"

definition FUNDS_WORDS :: "string list" where
  "FUNDS_WORDS = [''insufficient'', ''funds'', ''balance'', ''quota_exceeded'']"

text \<open>
  The status code decides: for an endpoint without error classes of its own, a server error
  is retried whatever its text says; 401 and 403 are authorization failures; and unless the text
  speaks of authorization or funds, 402 is a lack of funds and 429 a rate limit that is retried.
\<close>

theorem status_decides_classification:
  assumes "rate_limit_error endpoint = None" and "context_length_error endpoint = None"
    and "error_attr (pe_attrs (store ! i)) [''status_code'', ''status''] PyNone = PyInt n"
  shows "let c = fst (classify_llm_provider_error str endpoint store i);
             words = haystack_of str (store ! i)
    in (500 \<le> n \<and> n < 600 \<longrightarrow> c = LLMProviderUnavailableError \<and> retryable c) \<and>
       (n = 401 \<or> n = 403 \<longrightarrow> c = LLMAuthError \<and> \<not> retryable c) \<and>
       (free_of words AUTH_WORDS \<longrightarrow> n = 402 \<longrightarrow> c = LLMInsufficientFundsError \<and> \<not> retryable c) \<and>
       (free_of words (AUTH_WORDS @ FUNDS_WORDS) \<longrightarrow> n = 429 \<longrightarrow>
          c = LLMRateLimitExceededError \<and> retryable c)"
proof -
  have none: "matches_endpoint_error e None = False" for e
    by (simp add: matches_endpoint_error_def)
  have free: "free_of w (xs @ ys) \<longleftrightarrow> free_of w xs \<and> free_of w ys" for w xs ys
    by (auto simp: free_of_def has_any_def)
  let ?words = "haystack_of str (store ! i)"
  note unfolded = classify_llm_provider_error_def Let_def assms none if_False py_object.case fst_conv
    status_between_def status_in_def free_of_def AUTH_WORDS_def FUNDS_WORDS_def
  let ?c = "fst (classify_llm_provider_error str endpoint store i)"
  have "500 \<le> n \<and> n < 600 \<Longrightarrow> ?c = LLMProviderUnavailableError"
    unfolding unfolded by (simp only: if_True simp_thms)
  moreover have "n = 401 \<or> n = 403 \<Longrightarrow> ?c = LLMAuthError"
    unfolding unfolded by auto
  moreover have "free_of ?words AUTH_WORDS \<Longrightarrow> n = 402 \<Longrightarrow> ?c = LLMInsufficientFundsError"
    unfolding unfolded by (simp only:) simp
  moreover have "free_of ?words AUTH_WORDS \<Longrightarrow> free_of ?words FUNDS_WORDS \<Longrightarrow> n = 429 \<Longrightarrow>
      ?c = LLMRateLimitExceededError"
    unfolding unfolded by (simp only:) simp
  moreover
  have "retryable LLMProviderUnavailableError" "\<not> retryable LLMAuthError"
    "\<not> retryable LLMInsufficientFundsError" "retryable LLMRateLimitExceededError"
    by (simp_all add: retryable_iff)
  ultimately show ?thesis unfolding Let_def free by metis
qed

definition sample_error :: "int \<Rightarrow> string \<Rightarrow> provider_error" where
  "sample_error status body =
     \<lparr>pe_mro = [(''openai'', ''APIStatusError'')], pe_text = body,
      pe_attrs = [(''status_code'', PyInt status)], pe_errno = None, pe_cause = None,
      pe_context = None\<rparr>"

definition plain_endpoint :: endpoint_errors where
  "plain_endpoint = \<lparr>rate_limit_error = None, context_length_error = None\<rparr>"

theorem status_decides_classification_witness:
  "fst (classify_llm_provider_error (\<lambda>_. []) plain_endpoint [sample_error 503 ''auth service down''] 0)
     = LLMProviderUnavailableError"
  using status_decides_classification[of plain_endpoint "[sample_error 503 ''auth service down'']" 0 503 "\<lambda>_. []"]
  by (simp add: plain_endpoint_def sample_error_def Let_def)

text \<open>
  A rate limit whose text mentions authentication is taken for an authorization failure and is
  not retried.
\<close>

lemma rate_limit_taken_for_auth:
  "classify_llm_provider_error (\<lambda>_. []) plain_endpoint
     [sample_error 429 ''Rate limit reached for authenticated requests''] 0
   = (LLMAuthError, ''Rate limit reached for authenticated requests'') \<and> \<not> retryable LLMAuthError"
  by code_simp

end
