(* ===== verification/Roboz_Images.thy ===== *)
theory Roboz_Images
  imports Roboz_Messages
begin

text \<open>
  Images of a chat request (\<open>llm/calls.py\<close>): the notes that stand for omitted images, the window
  of the latest eight, and the encoding of scrubbed records. A record is the part of a Python
  dict the code reads; its other keys travel along. The ellipsis is one code point, which
  \<open>ELLIPSIS\<close> stands for; \<open>Image.filename\<close> is a parameter.
\<close>

section \<open>Records\<close>

record wire_image =
  wi_url :: string
  wi_name :: "string option"
  wi_detail :: "string option"

datatype wire_part = TextPart string | ImagePart string "string option"

text \<open>The content of a record: a string, parts already encoded, or another value.\<close>

datatype wire_content = TextContent string | PartsContent "wire_part list" | OtherContent json

record wire_record =
  wr_role :: "role option"
  wr_content :: "wire_content option"
  wr_images :: "wire_image list"
  wr_others :: "(string \<times> json) list"

record encoded_message =
  em_role :: "role option"
  em_content :: "wire_content option"
  em_others :: "(string \<times> json) list"

datatype image_error = LLMImageInputError string

definition MAX_REQUEST_IMAGES :: nat where "MAX_REQUEST_IMAGES = 8"
definition IMAGE_NAME_MAX_CHARS :: int where "IMAGE_NAME_MAX_CHARS = 256"
definition IMAGE_OMISSION_MAX_CHARS :: int where "IMAGE_OMISSION_MAX_CHARS = 2048"
definition ELLIPSIS :: char where "ELLIPSIS = CHR 0x85"

definition IMAGE_WINDOW_OMISSION_REASON :: string where
  "IMAGE_WINDOW_OMISSION_REASON =
     ''Older images omitted; only the latest 8 images are included. Omitted images:''"

definition UNSUPPORTED_IMAGES_REASON :: string where
  "UNSUPPORTED_IMAGES_REASON = ''Images omitted because this model cannot read images:''"

section \<open>The note of an omission\<close>

definition len :: "'a list \<Rightarrow> int" where
  "len xs = int (length xs)"

definition image_reference :: "(wire_image \<Rightarrow> string option) \<Rightarrow> nat \<Rightarrow> wire_image \<Rightarrow> string" where
  "image_reference filename index img =
     (let name = (case filename img of
                    Some n \<Rightarrow> if n \<noteq> [] then n else ''image-'' @ show_int (int index)
                  | None \<Rightarrow> ''image-'' @ show_int (int index))
      in json_quote False
           (if IMAGE_NAME_MAX_CHARS < len name
            then take (nat (IMAGE_NAME_MAX_CHARS - 1)) name @ [ELLIPSIS] else name))"

text \<open>The loop over \<open>enumerate(images, 1)\<close>, with the characters that are left.\<close>

fun reference_loop ::
  "(wire_image \<Rightarrow> string option) \<Rightarrow> nat \<Rightarrow> wire_image list \<Rightarrow> int \<Rightarrow> string list \<Rightarrow> string list" where
  "reference_loop filename index [] remaining references = references"
| "reference_loop filename index (img # imgs) remaining references =
     (let reference = image_reference filename index img;
          size = len reference + (if references = [] then 0 else 2)
      in if remaining < size then references
         else reference_loop filename (Suc index) imgs (remaining - size) (references @ [reference]))"

definition note_prefix :: "string \<Rightarrow> string" where
  "note_prefix reason = [CHR 0x0A] @ ''['' @ reason @ '' ''"

definition note_suffix :: string where
  "note_suffix = ''. Use the conversation text; do not infer image contents.]''"

definition image_omission_note ::
  "(wire_image \<Rightarrow> string option) \<Rightarrow> wire_image list \<Rightarrow> string \<Rightarrow> string" where
  "image_omission_note filename imgs reason =
     (let remaining_chars =
            IMAGE_OMISSION_MAX_CHARS - len (note_prefix reason) - len note_suffix -
            len ('', and '' @ show_int (len imgs) @ '' more images'');
          references = reference_loop filename 1 imgs remaining_chars [];
          remaining = length imgs - length references;
          references' = (if remaining \<noteq> 0
                         then references @ [''and '' @ show_int (int remaining) @ '' more images'']
                         else references)
      in note_prefix reason @ join_with '', '' references' @ note_suffix)"

section \<open>Encoding\<close>

definition omit_older_images ::
  "(wire_image \<Rightarrow> string option) \<Rightarrow> string \<Rightarrow> wire_image list \<Rightarrow> nat \<Rightarrow> string \<times> wire_image list \<times> nat"
where
  "omit_older_images filename text imgs images_to_omit =
     (let omitted_count = min (length imgs) images_to_omit
      in (text @ image_omission_note filename (take omitted_count imgs) IMAGE_WINDOW_OMISSION_REASON,
          drop omitted_count imgs, images_to_omit - omitted_count))"

definition image_part :: "wire_image \<Rightarrow> wire_part" where
  "image_part img = ImagePart (wi_url img) (wi_detail img)"

text \<open>One record: the message, whether images were dropped for lack of the capability, the budget.\<close>

definition encode_record ::
  "(wire_image \<Rightarrow> string option) \<Rightarrow> bool \<Rightarrow> nat \<Rightarrow> wire_record
    \<Rightarrow> image_error + (encoded_message \<times> bool \<times> nat)" where
  "encode_record filename accepts_images images_to_omit r =
     (let message = (\<lambda>content. \<lparr>em_role = wr_role r, em_content = content, em_others = wr_others r\<rparr>)
      in if wr_images r = [] then Inr (message (wr_content r), False, images_to_omit)
         else case wr_content r of
           Some (TextContent text) \<Rightarrow>
             if \<not> accepts_images
             then Inr (message (Some (TextContent
                    (text @ image_omission_note filename (wr_images r) UNSUPPORTED_IMAGES_REASON))),
                    True, images_to_omit)
             else if wr_role r \<noteq> Some USER
               then Inl (LLMImageInputError ''Image inputs require a user message'')
             else
               (let (text', imgs, budget) =
                      (if images_to_omit \<noteq> 0
                       then omit_older_images filename text (wr_images r) images_to_omit
                       else (text, wr_images r, images_to_omit))
                in Inr (message (Some (if imgs = [] then TextContent text'
                                       else PartsContent (TextPart text' # map image_part imgs))),
                        False, budget))
         | _ \<Rightarrow>
             Inl (LLMImageInputError
               (''Message text must be a string; '' @
                ''use an empty string for image-only messages.'')))"

fun encode_records ::
  "(wire_image \<Rightarrow> string option) \<Rightarrow> bool \<Rightarrow> nat \<Rightarrow> wire_record list
    \<Rightarrow> image_error + (encoded_message list \<times> bool)" where
  "encode_records filename accepts_images budget [] = Inr ([], False)"
| "encode_records filename accepts_images budget (r # rs) =
     rbind (encode_record filename accepts_images budget r) (\<lambda>(m, omitted, budget').
     rbind (encode_records filename accepts_images budget' rs) (\<lambda>(ms, omitted').
       Inr (m # ms, omitted \<or> omitted')))"

definition encode_image_messages ::
  "(wire_image \<Rightarrow> string option) \<Rightarrow> bool \<Rightarrow> wire_record list
    \<Rightarrow> image_error + (encoded_message list \<times> bool)" where
  "encode_image_messages filename accepts_images records =
     encode_records filename accepts_images
       (if accepts_images
        then sum_list (map (length \<circ> wr_images) records) - MAX_REQUEST_IMAGES else 0)
       records"

section \<open>The bound of a note\<close>

lemma len_simps [simp]: "len [] = 0" "len (x # xs) = 1 + len xs" "len (xs @ ys) = len xs + len ys"
  "0 \<le> len xs"
  by (simp_all add: len_def)

text \<open>The characters of the references with their separators.\<close>

definition joined_len :: "string list \<Rightarrow> int" where
  "joined_len refs = len (join_with '', '' refs)"

lemma joined_snoc:
  "joined_len (refs @ [r]) = joined_len refs + len r + (if refs = [] then 0 else 2)"
proof (induction refs)
  case (Cons x xs)
  then show ?case by (cases xs) (auto simp: joined_len_def)
qed (simp add: joined_len_def)

lemma reference_loop_bound:
  "joined_len (reference_loop filename index imgs remaining refs) \<le> joined_len refs + max 0 remaining"
proof (induction filename index imgs remaining refs rule: reference_loop.induct)
  case (2 filename index img imgs remaining refs)
  let ?r = "image_reference filename index img"
  let ?size = "len ?r + (if refs = [] then 0 else 2)"
  have size: "0 \<le> ?size" by simp
  show ?case
  proof (cases "remaining < ?size")
    case False
    with 2[OF refl refl False]
    have "joined_len (reference_loop filename (Suc index) imgs (remaining - ?size) (refs @ [?r]))
        \<le> joined_len (refs @ [?r]) + max 0 (remaining - ?size)" by simp
    also have "\<dots> = joined_len refs + remaining" using False by (simp add: joined_snoc)
    also have "\<dots> \<le> joined_len refs + max 0 remaining" by simp
    finally show ?thesis using False by (simp add: Let_def)
  qed simp
qed simp

lemma reference_loop_length:
  "length (reference_loop filename index imgs remaining refs) \<le> length refs + length imgs"
  by (induction filename index imgs remaining refs rule: reference_loop.induct) (auto simp: Let_def)

lemma digits_mono: "m \<le> n \<Longrightarrow> length (digits_of m) \<le> length (digits_of n)"
proof (induction n arbitrary: m rule: digits_of.induct)
  case (1 n)
  then show ?case
    by (cases "n < 10"; cases "m < 10") (auto simp: digits_of.simps[of n] digits_of.simps[of m] div_le_mono)
qed

lemma show_int_mono: "m \<le> n \<Longrightarrow> len (show_int (int m)) \<le> len (show_int (int n))"
  using digits_mono by (simp add: show_int_def len_def)

definition note_overhead :: "string \<Rightarrow> nat \<Rightarrow> int" where
  "note_overhead reason n =
     len (note_prefix reason) + len note_suffix + len ('', and '' @ show_int (int n) @ '' more images'')"

lemma note_bounded:
  assumes "note_overhead reason (length imgs) \<le> IMAGE_OMISSION_MAX_CHARS"
  shows "len (image_omission_note filename imgs reason) \<le> IMAGE_OMISSION_MAX_CHARS"
proof -
  define budget where "budget = IMAGE_OMISSION_MAX_CHARS - note_overhead reason (length imgs)"
  define refs where "refs = reference_loop filename 1 imgs budget []"
  define rest where "rest = length imgs - length refs"
  define more where "more = ''and '' @ show_int (int rest) @ '' more images''"
  have text_of_note: "image_omission_note filename imgs reason =
      note_prefix reason @ join_with '', '' (if rest \<noteq> 0 then refs @ [more] else refs) @ note_suffix"
    by (simp add: image_omission_note_def Let_def refs_def rest_def more_def budget_def
        note_overhead_def len_def algebra_simps)
  have "0 \<le> budget" using assms by (simp add: budget_def)
  with reference_loop_bound[of filename 1 imgs budget "[]"]
  have refs: "joined_len refs \<le> budget" by (simp add: refs_def joined_len_def)
  define reserve where "reserve = len ('', and '' @ show_int (int (length imgs)) @ '' more images'')"
  have "len more + 2 \<le> reserve"
    using show_int_mono[of rest "length imgs"] by (simp add: more_def rest_def reserve_def)
  moreover have "joined_len (refs @ [more]) \<le> joined_len refs + len more + 2"
    by (simp add: joined_snoc)
  moreover have "0 \<le> reserve" unfolding reserve_def by (rule len_simps)
  ultimately have "joined_len (if rest \<noteq> 0 then refs @ [more] else refs) \<le> budget + reserve"
    using refs by (auto split: if_split)
  then show ?thesis
    unfolding text_of_note by (simp add: joined_len_def budget_def reserve_def note_overhead_def)
qed

section \<open>What a request holds\<close>

definition parts_of :: "encoded_message \<Rightarrow> wire_part list" where
  "parts_of m = (case em_content m of Some (PartsContent (p # ps)) \<Rightarrow> ps | _ \<Rightarrow> [])"

fun content_text :: "wire_content option \<Rightarrow> string option" where
  "content_text (Some (TextContent s)) = Some s"
| "content_text (Some (PartsContent (TextPart s # ps))) = Some s"
| "content_text _ = None"

text \<open>A message keeps its role, its other keys and its text, to which a bounded note may be added.\<close>

definition keeps_text :: "wire_record \<Rightarrow> encoded_message \<Rightarrow> bool" where
  "keeps_text r m \<longleftrightarrow>
     em_role m = wr_role r \<and> em_others m = wr_others r \<and>
     (em_content m = wr_content r \<or>
      (\<exists>s note. content_text (wr_content r) = Some s \<and> content_text (em_content m) = Some (s @ note) \<and>
         len note \<le> IMAGE_OMISSION_MAX_CHARS))"

definition is_parts :: "wire_content option \<Rightarrow> bool" where
  "is_parts c \<longleftrightarrow> (case c of Some (PartsContent ps) \<Rightarrow> True | _ \<Rightarrow> False)"

lemma encode_record_vision:
  assumes "encode_record filename True budget r = Inr (m, omitted, budget')"
    and "\<not> is_parts (wr_content r)"
  shows "parts_of m = map image_part (drop budget (wr_images r)) \<and>
    budget' = budget - length (wr_images r) \<and> \<not> omitted"
  using assms
  by (auto simp: encode_record_def omit_older_images_def Let_def parts_of_def is_parts_def
      split: if_splits option.splits wire_content.splits)

lemma encode_records_ConsE:
  assumes "encode_records filename a budget (r # rs) = Inr (ms, omitted)"
  obtains m o1 b ms' o2 where "encode_record filename a budget r = Inr (m, o1, b)"
    "encode_records filename a b rs = Inr (ms', o2)" "ms = m # ms'" "omitted = (o1 \<or> o2)"
proof -
  from assms obtain x where x: "encode_record filename a budget r = Inr x"
    by (auto simp: rbind_Inr_iff)
  obtain m o1 b where xs: "x = (m, o1, b)" by (cases x)
  from assms x xs obtain y where y: "encode_records filename a b rs = Inr y"
    by (auto simp: rbind_Inr_iff)
  obtain ms' o2 where "y = (ms', o2)" by (cases y)
  with assms x xs y show ?thesis by (intro that[of m o1 b ms' o2]) auto
qed

lemma encode_records_vision:
  "encode_records filename True budget rs = Inr (ms, omitted) \<Longrightarrow>
   \<forall>r \<in> set rs. \<not> is_parts (wr_content r) \<Longrightarrow>
   concat (map parts_of ms) = map image_part (drop budget (concat (map wr_images rs))) \<and> \<not> omitted"
proof (induction rs arbitrary: budget ms omitted)
  case (Cons r rs)
  from Cons.prems(1) obtain m o1 b ms' o2 where
    m: "encode_record filename True budget r = Inr (m, o1, b)" and
    ms: "encode_records filename True b rs = Inr (ms', o2)" and
    res: "ms = m # ms'" "omitted = (o1 \<or> o2)"
    by (rule encode_records_ConsE)
  from encode_record_vision[OF m] Cons.prems(2)
  have "parts_of m = map image_part (drop budget (wr_images r))" "b = budget - length (wr_images r)" "\<not> o1"
    by auto
  with Cons.IH[OF ms] Cons.prems(2) res show ?case by (simp add: drop_append)
qed simp

lemma encode_record_keeps:
  assumes "encode_record filename a budget r = Inr (m, omitted, budget')"
    and "note_overhead UNSUPPORTED_IMAGES_REASON n \<le> IMAGE_OMISSION_MAX_CHARS"
    and "note_overhead IMAGE_WINDOW_OMISSION_REASON n \<le> IMAGE_OMISSION_MAX_CHARS"
    and "length (wr_images r) \<le> n"
  shows "keeps_text r m"
proof -
  have bound: "len (image_omission_note filename imgs reason) \<le> IMAGE_OMISSION_MAX_CHARS"
    if "length imgs \<le> n" "note_overhead reason n \<le> IMAGE_OMISSION_MAX_CHARS" for imgs reason
  proof (rule note_bounded)
    have "note_overhead reason (length imgs) \<le> note_overhead reason n"
      using show_int_mono[OF that(1)] by (simp add: note_overhead_def)
    with that(2) show "note_overhead reason (length imgs) \<le> IMAGE_OMISSION_MAX_CHARS" by simp
  qed
  have short: "length (take k (wr_images r)) \<le> n" for k using assms(4) by simp
  have none: "\<exists>note. s = s @ note \<and> len note \<le> IMAGE_OMISSION_MAX_CHARS" for s :: string
    by (intro exI[of _ "[]"]) (simp add: IMAGE_OMISSION_MAX_CHARS_def)
  show ?thesis
    using assms(1) bound[OF assms(4,2)] bound[OF assms(4,3)] bound[OF short assms(3)] none
    by (auto simp: encode_record_def omit_older_images_def Let_def keeps_text_def
        split: if_splits option.splits wire_content.splits)
qed

lemma encode_records_keep:
  "encode_records filename a budget rs = Inr (ms, omitted) \<Longrightarrow>
   note_overhead UNSUPPORTED_IMAGES_REASON n \<le> IMAGE_OMISSION_MAX_CHARS \<Longrightarrow>
   note_overhead IMAGE_WINDOW_OMISSION_REASON n \<le> IMAGE_OMISSION_MAX_CHARS \<Longrightarrow>
   \<forall>r \<in> set rs. length (wr_images r) \<le> n \<Longrightarrow> list_all2 keeps_text rs ms"
proof (induction rs arbitrary: budget ms omitted)
  case (Cons r rs)
  from Cons.prems(1) obtain m o1 b ms' o2 where
    m: "encode_record filename a budget r = Inr (m, o1, b)" and
    ms: "encode_records filename a b rs = Inr (ms', o2)" and "ms = m # ms'"
    by (rule encode_records_ConsE)
  with encode_record_keeps[OF m Cons.prems(2,3)] Cons.IH[OF ms Cons.prems(2,3)] Cons.prems(4)
  show ?case by simp
qed simp

section \<open>Properties\<close>

text \<open>
  A request to a vision model carries exactly the latest eight images, in message and
  attachment order, and reports no omission for lack of the capability.
\<close>

theorem latest_images_are_sent:
  assumes "encode_image_messages filename True records = Inr (ms, omitted)"
    and "\<forall>r \<in> set records. \<not> is_parts (wr_content r)"
  shows "let every = concat (map wr_images records)
    in concat (map parts_of ms) = map image_part (drop (length every - MAX_REQUEST_IMAGES) every) \<and>
       length (concat (map parts_of ms)) \<le> MAX_REQUEST_IMAGES \<and> \<not> omitted"
proof -
  have "sum_list (map (length \<circ> wr_images) records) = length (concat (map wr_images records))"
    by (simp add: length_concat comp_def)
  with encode_records_vision[OF _ assms(2), of filename _ ms omitted] assms(1)
  show ?thesis by (auto simp: encode_image_messages_def Let_def)
qed

text \<open>
  Encoding keeps the conversation: every record becomes one message with its role, its other
  keys and its text, to which at most one note of at most 2048 characters is added, as long as no
  record has so many images that their count leaves no room for the note.
\<close>

theorem encoding_keeps_conversation:
  assumes "encode_image_messages filename accepts_images records = Inr (ms, omitted)"
    and "\<forall>r \<in> set records. length (wr_images r) \<le> n"
    and "note_overhead UNSUPPORTED_IMAGES_REASON n \<le> IMAGE_OMISSION_MAX_CHARS"
    and "note_overhead IMAGE_WINDOW_OMISSION_REASON n \<le> IMAGE_OMISSION_MAX_CHARS"
  shows "list_all2 keeps_text records ms"
  using encode_records_keep assms unfolding encode_image_messages_def by blast

definition sample_records :: "wire_record list" where
  "sample_records =
     [\<lparr>wr_role = Some USER, wr_content = Some (TextContent ''look''),
       wr_images = map (\<lambda>c. \<lparr>wi_url = ''https://h/'' @ [c], wi_name = Some [c], wi_detail = None\<rparr>)
         ''abcdefghij'', wr_others = []\<rparr>]"

theorem latest_images_are_sent_witness:
  "\<exists>ms. encode_image_messages wi_name True sample_records = Inr (ms, False) \<and>
     concat (map parts_of ms) = map (\<lambda>c. ImagePart (''https://h/'' @ [c]) None) ''cdefghij''"
proof -
  have "case encode_image_messages wi_name True sample_records of Inl _ \<Rightarrow> False | Inr _ \<Rightarrow> True"
    by code_simp
  then obtain ms omitted where ms: "encode_image_messages wi_name True sample_records = Inr (ms, omitted)"
    by (auto split: sum.splits)
  moreover have "\<forall>r \<in> set sample_records. \<not> is_parts (wr_content r)"
    by (simp add: sample_records_def is_parts_def)
  ultimately show ?thesis
    using latest_images_are_sent[of wi_name sample_records ms omitted]
    by (simp add: Let_def sample_records_def MAX_REQUEST_IMAGES_def image_part_def)
qed

theorem encoding_keeps_conversation_witness:
  "\<exists>ms omitted. encode_image_messages wi_name False sample_records = Inr (ms, omitted) \<and>
     list_all2 keeps_text sample_records ms"
proof -
  have "case encode_image_messages wi_name False sample_records of Inl _ \<Rightarrow> False | Inr _ \<Rightarrow> True"
    by code_simp
  then obtain ms omitted where ms: "encode_image_messages wi_name False sample_records = Inr (ms, omitted)"
    by (auto split: sum.splits)
  moreover have "\<forall>r \<in> set sample_records. length (wr_images r) \<le> 10" by (simp add: sample_records_def)
  moreover have "note_overhead UNSUPPORTED_IMAGES_REASON 10 \<le> IMAGE_OMISSION_MAX_CHARS"
    "note_overhead IMAGE_WINDOW_OMISSION_REASON 10 \<le> IMAGE_OMISSION_MAX_CHARS" by code_simp+
  ultimately show ?thesis using encoding_keeps_conversation by blast
qed

end
