(* ===== verification/Roboz_Retry.thy ===== *)
theory Roboz_Retry
  imports Complex_Main
begin

text \<open>
  Retry with capped exponential backoff (\<open>llm/_retry.py\<close>). The rest of the process is a state of
  any type \<open>'w\<close>; a look at the control signals may find an error, the clock is read and slept on
  through a host. Errors have any type \<open>'e\<close>. An attempt reports whether it emitted output. The
  sleep polls and takes fuel: \<open>None\<close> is a sleep that has not ended yet.
\<close>

section \<open>Backoff\<close>

record ('w, 'e) retry_host =
  set_signal_error :: "'w \<Rightarrow> 'w \<times> 'e option"
  monotonic :: "'w \<Rightarrow> rat"
  sleep_for :: "rat \<Rightarrow> 'w \<Rightarrow> 'w"

record retry_policy =
  max_attempts :: int
  base_delay :: rat
  max_delay :: rat
  poll_interval :: rat

fun backoff_sleep ::
  "nat \<Rightarrow> ('w, 'e) retry_host \<Rightarrow> rat \<Rightarrow> rat \<Rightarrow> 'w \<Rightarrow> ('w \<times> ('e + unit)) option" where
  "backoff_sleep 0 h deadline poll w = None"
| "backoff_sleep (Suc n) h deadline poll w =
     (case set_signal_error h w of
        (w1, Some e) \<Rightarrow> Some (w1, Inl e)
      | (w1, None) \<Rightarrow>
          (let remaining = deadline - monotonic h w1
           in if remaining \<le> 0 then Some (w1, Inr ())
              else backoff_sleep n h deadline poll (sleep_for h (min poll remaining) w1)))"

definition cancellable_backoff_sleep ::
  "nat \<Rightarrow> ('w, 'e) retry_host \<Rightarrow> rat \<Rightarrow> rat \<Rightarrow> 'w \<Rightarrow> ('w \<times> ('e + unit)) option" where
  "cancellable_backoff_sleep fuel h delay poll w =
     backoff_sleep fuel h (monotonic h w + delay) poll w"

section \<open>The loop\<close>

definition retry_delay :: "retry_policy \<Rightarrow> nat \<Rightarrow> rat" where
  "retry_delay pol attempt = min (max_delay pol) (base_delay pol * 2 ^ (attempt - 1))"

type_synonym ('w, 'e, 'a) attempt = "nat \<Rightarrow> 'w \<Rightarrow> 'w \<times> bool \<times> ('e + 'a)"
type_synonym ('w, 'e) prepare = "'e \<Rightarrow> nat \<Rightarrow> int \<Rightarrow> bool \<Rightarrow> 'w \<Rightarrow> 'w \<times> ('e + bool)"

text \<open>May the failed attempt be followed by another?\<close>

definition may_retry ::
  "('w, 'e) prepare option \<Rightarrow> 'e \<Rightarrow> nat \<Rightarrow> int \<Rightarrow> bool \<Rightarrow> 'w \<Rightarrow> 'w \<times> ('e + bool)" where
  "may_retry prepare e attempt limit emitted w =
     (case prepare of None \<Rightarrow> (w, Inr (\<not> emitted)) | Some p \<Rightarrow> p e attempt limit emitted w)"

function retry_from ::
  "nat \<Rightarrow> ('w, 'e) retry_host \<Rightarrow> retry_policy \<Rightarrow> ('e \<Rightarrow> bool) \<Rightarrow> ('w, 'e) prepare option
    \<Rightarrow> ('w, 'e, 'a) attempt \<Rightarrow> nat \<Rightarrow> 'w \<Rightarrow> ('w \<times> ('e + 'a)) option" where
  "retry_from fuel h pol retryable prepare fn attempt w =
     (case fn attempt w of
        (w1, emitted, Inr v) \<Rightarrow> Some (w1, Inr v)
      | (w1, emitted, Inl e) \<Rightarrow>
          if \<not> retryable e \<or> max_attempts pol \<le> int attempt then Some (w1, Inl e)
          else
            (case may_retry prepare e attempt (max_attempts pol) emitted w1 of
               (w2, Inl e') \<Rightarrow> Some (w2, Inl e')
             | (w2, Inr False) \<Rightarrow> Some (w2, Inl e)
             | (w2, Inr True) \<Rightarrow>
                 (case cancellable_backoff_sleep fuel h (retry_delay pol attempt) (poll_interval pol) w2 of
                    None \<Rightarrow> None
                  | Some (w3, Inl e') \<Rightarrow> Some (w3, Inl e')
                  | Some (w3, Inr _) \<Rightarrow>
                      retry_from fuel h pol retryable prepare fn (Suc attempt) w3)))"
  by pat_completeness auto
termination
  by (relation "measure (\<lambda>(fuel, h, pol, retryable, prepare, fn, attempt, w).
    nat (max_attempts pol - int attempt))") auto

declare retry_from.simps [simp del]

definition run_with_retry ::
  "nat \<Rightarrow> ('w, 'e) retry_host \<Rightarrow> retry_policy \<Rightarrow> ('e \<Rightarrow> bool) \<Rightarrow> ('w, 'e) prepare option
    \<Rightarrow> ('w, 'e, 'a) attempt \<Rightarrow> 'w \<Rightarrow> ('w \<times> ('e + 'a)) option" where
  "run_with_retry fuel h pol retryable prepare fn w = retry_from fuel h pol retryable prepare fn 1 w"

section \<open>The sleep ends\<close>

text \<open>A clock that a sleep moves forward by at least its length, and that looking does not move back.\<close>

definition clock_advances :: "('w, 'e) retry_host \<Rightarrow> bool" where
  "clock_advances h \<longleftrightarrow>
     (\<forall>w d. monotonic h w + d \<le> monotonic h (sleep_for h d w)) \<and>
     (\<forall>w. monotonic h w \<le> monotonic h (fst (set_signal_error h w)))"

lemma backoff_sleep_ends:
  assumes "clock_advances h" and "0 < poll"
  shows "deadline - monotonic h w \<le> of_nat n * poll \<Longrightarrow> backoff_sleep (Suc n) h deadline poll w \<noteq> None"
proof (induction n arbitrary: w)
  case (0 w)
  obtain w1 e where w1: "set_signal_error h w = (w1, e)" by fastforce
  have "monotonic h w \<le> monotonic h w1"
    using assms(1) w1 unfolding clock_advances_def by (metis fst_conv)
  with 0 w1 show ?case by (cases e) (auto simp: Let_def)
next
  case (Suc n w)
  obtain w1 e where w1: "set_signal_error h w = (w1, e)" by fastforce
  let ?remaining = "deadline - monotonic h w1"
  let ?w2 = "sleep_for h (min poll ?remaining) w1"
  have look: "monotonic h w \<le> monotonic h w1"
    using assms(1) w1 unfolding clock_advances_def by (metis fst_conv)
  have slept: "monotonic h w1 + min poll ?remaining \<le> monotonic h ?w2"
    using assms(1) by (simp add: clock_advances_def)
  have "deadline - monotonic h ?w2 \<le> of_nat n * poll"
  proof (cases "poll \<le> ?remaining")
    case True
    with slept look Suc.prems show ?thesis by (simp add: algebra_simps)
  next
    case False
    with slept have "deadline - monotonic h ?w2 \<le> 0" by simp
    also have "0 \<le> of_nat n * poll" using assms(2) by simp
    finally show ?thesis .
  qed
  from Suc.IH[OF this] w1 show ?case
    by (cases e) (auto simp: Let_def simp del: backoff_sleep.simps(2)
        simp: backoff_sleep.simps(2)[of "Suc n"])
qed

definition enough_polls :: "retry_policy \<Rightarrow> nat \<Rightarrow> bool" where
  "enough_polls pol n \<longleftrightarrow> 0 < poll_interval pol \<and> max_delay pol \<le> of_nat n * poll_interval pol"

lemma cancellable_backoff_sleep_ends:
  assumes "clock_advances h" and "enough_polls pol n"
  shows "cancellable_backoff_sleep (Suc n) h (retry_delay pol k) (poll_interval pol) w \<noteq> None"
proof -
  have "retry_delay pol k \<le> max_delay pol" by (simp add: retry_delay_def)
  with assms(2) have "monotonic h w + retry_delay pol k - monotonic h w \<le> of_nat n * poll_interval pol"
    by (simp add: enough_polls_def)
  from backoff_sleep_ends[OF assms(1) _ this] assms(2) show ?thesis
    by (simp add: cancellable_backoff_sleep_def enough_polls_def)
qed

lemma retry_from_ends:
  assumes "clock_advances h" and "enough_polls pol n"
  shows "retry_from (Suc n) h pol retryable prepare fn attempt w \<noteq> None"
proof (induction "nat (max_attempts pol - int attempt)" arbitrary: attempt w rule: less_induct)
  case less
  obtain w1 emitted r where fn: "fn attempt w = (w1, emitted, r)" by (cases "fn attempt w") auto
  show ?case
  proof (cases r)
    case (Inr v)
    with fn show ?thesis by (simp add: retry_from.simps)
  next
    case (Inl e)
    show ?thesis
    proof (cases "\<not> retryable e \<or> max_attempts pol \<le> int attempt")
      case True
      with fn Inl show ?thesis by (simp add: retry_from.simps)
    next
      case False
      obtain w2 q where q: "may_retry prepare e attempt (max_attempts pol) emitted w1 = (w2, q)" by fastforce
      from cancellable_backoff_sleep_ends[OF assms, of attempt w2] obtain w3 z where
        sleep: "cancellable_backoff_sleep (Suc n) h (retry_delay pol attempt) (poll_interval pol) w2 = Some (w3, z)"
        by auto
      from False have "retry_from (Suc n) h pol retryable prepare fn (Suc attempt) w3 \<noteq> None"
        by (intro less) auto
      with fn Inl False q sleep show ?thesis
        by (subst retry_from.simps) (auto split: sum.split bool.split)
    qed
  qed
qed

section \<open>The attempts\<close>

text \<open>The attempt function with a log of its calls.\<close>

definition logged ::
  "('w, 'e, 'a) attempt \<Rightarrow> ((nat \<times> bool \<times> ('e + 'a)) list \<times> 'w, 'e, 'a) attempt" where
  "logged fn k = (\<lambda>(tr, w). case fn k w of (w1, emitted, r) \<Rightarrow> ((tr @ [(k, emitted, r)], w1), emitted, r))"

definition logged_host :: "('w, 'e) retry_host \<Rightarrow> ('l \<times> 'w, 'e) retry_host" where
  "logged_host h =
     \<lparr>set_signal_error = (\<lambda>(tr, w). case set_signal_error h w of (w1, e) \<Rightarrow> ((tr, w1), e)),
      monotonic = (\<lambda>(tr, w). monotonic h w),
      sleep_for = (\<lambda>d (tr, w). (tr, sleep_for h d w))\<rparr>"

definition logged_prepare :: "('w, 'e) prepare \<Rightarrow> ('l \<times> 'w, 'e) prepare" where
  "logged_prepare p e k limit emitted =
     (\<lambda>(tr, w). case p e k limit emitted w of (w1, r) \<Rightarrow> ((tr, w1), r))"

definition failed_retryably :: "('e \<Rightarrow> bool) \<Rightarrow> bool \<Rightarrow> nat \<times> bool \<times> ('e + 'a) \<Rightarrow> bool" where
  "failed_retryably retryable guarded entry \<longleftrightarrow>
     (\<exists>e. snd (snd entry) = Inl e \<and> retryable e \<and> (guarded \<longrightarrow> \<not> fst (snd entry)))"

text \<open>The log of a loop that began with attempt \<open>k\<close>.\<close>

definition proper_log ::
  "nat \<Rightarrow> retry_policy \<Rightarrow> ('e \<Rightarrow> bool) \<Rightarrow> bool \<Rightarrow> (nat \<times> bool \<times> ('e + 'a)) list \<Rightarrow> 'e + 'a \<Rightarrow> bool" where
  "proper_log k pol retryable guarded tr result \<longleftrightarrow>
     tr \<noteq> [] \<and> map fst tr = [k..<k + length tr] \<and>
     (1 < length tr \<longrightarrow> int (k + length tr) \<le> max_attempts pol + 1) \<and>
     list_all (failed_retryably retryable guarded) (butlast tr) \<and>
     (\<forall>v. result = Inr v \<longrightarrow> snd (snd (last tr)) = Inr v) \<and>
     (\<forall>v. snd (snd (last tr)) = Inr v \<longrightarrow> result = Inr v) \<and>
     (\<forall>e. snd (snd (last tr)) = Inl e \<longrightarrow> \<not> retryable e \<longrightarrow> result = Inl e)"

lemma backoff_logged:
  "backoff_sleep n (logged_host h) deadline poll (tr, w) = Some ((tr', w'), r) \<Longrightarrow> tr' = tr"
proof (induction n arbitrary: w)
  case (Suc n)
  obtain w1 e where "set_signal_error h w = (w1, e)" by fastforce
  with Suc show ?case
    by (cases e) (auto simp: logged_host_def Let_def split: if_splits)
qed simp

lemma may_retry_logged:
  "may_retry (map_option logged_prepare prepare) e k limit emitted (tr, w) = ((tr', w'), r) \<Longrightarrow>
   tr' = tr \<and> (prepare = None \<longrightarrow> r = Inr (\<not> emitted))"
  by (cases prepare) (auto simp: may_retry_def logged_prepare_def split: prod.splits)

lemma proper_single:
  assumes "\<And>v. r = Inr v \<longleftrightarrow> result = Inr v" and "\<And>e. r = Inl e \<Longrightarrow> \<not> retryable e \<Longrightarrow> result = Inl e"
  shows "proper_log k pol retryable guarded [(k, emitted, r)] result"
  using assms by (auto simp: proper_log_def)

lemma proper_Cons:
  assumes proper: "proper_log (Suc k) pol retryable guarded tr result"
    and more: "int k < max_attempts pol" and "retryable e" and "guarded \<Longrightarrow> \<not> emitted"
  shows "proper_log k pol retryable guarded ((k, emitted, Inl e) # tr) result"
proof -
  let ?tr = "(k, emitted, Inl e) # tr"
  have tr: "tr \<noteq> []" and numbers: "map fst tr = [Suc k..<Suc k + length tr]"
    and bound: "1 < length tr \<longrightarrow> int (Suc k + length tr) \<le> max_attempts pol + 1"
    and old: "list_all (failed_retryably retryable guarded) (butlast tr)"
    and outcome: "(\<forall>v. result = Inr v \<longrightarrow> snd (snd (last tr)) = Inr v) \<and>
      (\<forall>v. snd (snd (last tr)) = Inr v \<longrightarrow> result = Inr v) \<and>
      (\<forall>e. snd (snd (last tr)) = Inl e \<longrightarrow> \<not> retryable e \<longrightarrow> result = Inl e)"
    using proper unfolding proper_log_def by blast+
  have "k + length ?tr = Suc k + length tr" by simp
  then have "map fst ?tr = [k..<k + length ?tr]"
    unfolding list.map numbers by (simp only: upt_conv_Cons[of k "Suc k + length tr"] fst_conv)
  moreover have "int (k + length ?tr) \<le> max_attempts pol + 1"
  proof (cases "1 < length tr")
    case True
    with bound show ?thesis by simp
  next
    case False
    with tr have "length tr = 1" by (cases tr) auto
    with more show ?thesis by simp
  qed
  moreover have "list_all (failed_retryably retryable guarded) (butlast ?tr)"
    using old tr assms(3,4) by (simp add: failed_retryably_def)
  moreover have "last ?tr = last tr" using tr by simp
  ultimately show ?thesis
    unfolding proper_log_def using outcome by (metis list.distinct(1))
qed

lemma retry_from_log:
  "retry_from fuel (logged_host h) pol retryable (map_option logged_prepare prepare) (logged fn) k (tr0, w)
     = Some ((tr, w'), result) \<Longrightarrow>
   \<exists>tr1. tr = tr0 @ tr1 \<and> proper_log k pol retryable (prepare = None) tr1 result"
proof (induction "nat (max_attempts pol - int k)" arbitrary: k tr0 w rule: less_induct)
  case less
  obtain w1 emitted r where fn: "fn k w = (w1, emitted, r)" by (cases "fn k w") auto
  then have step: "logged fn k (tr0, w) = ((tr0 @ [(k, emitted, r)], w1), emitted, r)"
    by (simp add: logged_def)
  note unfold_once = retry_from.simps[of fuel "logged_host h" pol retryable
      "map_option logged_prepare prepare" "logged fn" k "(tr0, w)"]
  show ?case
  proof (cases r)
    case (Inr v)
    with less.prems step have "tr = tr0 @ [(k, emitted, r)]" "result = Inr v"
      by (auto simp add: unfold_once)
    with Inr show ?thesis by (auto intro!: proper_single)
  next
    case (Inl e)
    show ?thesis
    proof (cases "\<not> retryable e \<or> max_attempts pol \<le> int k")
      case True
      with less.prems step Inl have "tr = tr0 @ [(k, emitted, r)]" "result = Inl e"
        by (auto simp add: unfold_once)
      with Inl show ?thesis by (auto intro!: proper_single)
    next
      case False
      obtain tr2 w2 q where q: "may_retry (map_option logged_prepare prepare) e k (max_attempts pol) emitted
          (tr0 @ [(k, emitted, r)], w1) = ((tr2, w2), q)" by (metis surj_pair)
      note asked = may_retry_logged[OF q]
      show ?thesis
      proof (cases "q = Inr True")
        case False': False
        with less.prems step Inl False q have "tr = tr2" "\<exists>e'. result = Inl e'"
          by (cases q; auto simp: unfold_once)+
        with asked Inl False show ?thesis by (auto intro!: proper_single)
      next
        case True
        with less.prems step Inl False q obtain s where
          s: "cancellable_backoff_sleep fuel (logged_host h) (retry_delay pol k) (poll_interval pol) (tr2, w2) = Some s"
          by (auto simp: unfold_once split: option.splits)
        obtain tr3 w3 z where s3: "s = ((tr3, w3), z)" by (metis surj_pair)
        have kept: "tr3 = tr2"
          using s s3 backoff_logged by (fastforce simp: cancellable_backoff_sleep_def)
        show ?thesis
        proof (cases z)
          case (Inl e')
          with less.prems step \<open>r = Inl e\<close> False q True s s3 have "tr = tr3" "result = Inl e'"
            by (simp_all add: unfold_once)
          with asked kept \<open>r = Inl e\<close> False show ?thesis by (auto intro!: proper_single)
        next
          case (Inr u)
          with less.prems step \<open>r = Inl e\<close> False q True s s3 have
            "retry_from fuel (logged_host h) pol retryable (map_option logged_prepare prepare)
               (logged fn) (Suc k) (tr3, w3) = Some ((tr, w'), result)"
            by (simp add: unfold_once)
          from less.hyps[OF _ this] False obtain tr4 where
            "tr = tr3 @ tr4" "proper_log (Suc k) pol retryable (prepare = None) tr4 result" by auto
          with asked kept \<open>r = Inl e\<close> False True
            proper_Cons[of k pol retryable "prepare = None" tr4 result e emitted]
          show ?thesis by auto
        qed
      qed
    qed
  qed
qed

lemma logged_clock: "clock_advances h \<Longrightarrow> clock_advances (logged_host h)"
  by (auto simp: clock_advances_def logged_host_def split: prod.split) (metis fst_conv)

section \<open>Properties\<close>

text \<open>
  C19. Retry keeps its contract: it always ends when the clock moves; its attempts are numbered
  from one and there are at most \<open>max_attempts\<close> of them (one at least); every attempt but the
  last failed with a retryable error, and without output when no one prepares retries; a value
  is that of the last attempt, and an error that is not retryable ends it at once.
\<close>

theorem retry_contract:
  assumes "clock_advances h" and "enough_polls pol n"
  shows "\<exists>tr w' result.
    run_with_retry (Suc n) (logged_host h) pol retryable (map_option logged_prepare prepare) (logged fn) ([], w)
      = Some ((tr, w'), result) \<and>
    proper_log 1 pol retryable (prepare = None) tr result"
proof -
  from retry_from_ends[OF logged_clock[OF assms(1)] assms(2)] obtain tr w' result where
    run: "retry_from (Suc n) (logged_host h) pol retryable (map_option logged_prepare prepare) (logged fn) 1 ([], w)
      = Some ((tr, w'), result)"
    by (metis option.exhaust surj_pair)
  from retry_from_log[OF run] run show ?thesis by (simp add: run_with_retry_def)
qed

definition ticking_host :: "(rat, string) retry_host" where
  "ticking_host =
     \<lparr>set_signal_error = (\<lambda>w. (w, None)), monotonic = (\<lambda>w. w), sleep_for = (\<lambda>d w. w + d)\<rparr>"

definition default_policy :: retry_policy where
  "default_policy = \<lparr>max_attempts = 3, base_delay = 1/2, max_delay = 4, poll_interval = 1/20\<rparr>"

theorem retry_contract_witness:
  "\<exists>tr w' result.
    run_with_retry (Suc 80) (logged_host ticking_host) default_policy (\<lambda>e. e = ''busy'')
      (map_option logged_prepare None) (logged (\<lambda>k w. (w, False, Inl ''busy'' :: string + nat))) ([], 0)
      = Some ((tr, w'), result) \<and>
    proper_log 1 default_policy (\<lambda>e. e = ''busy'') ((None :: (rat, string) prepare option) = None) tr result"
  by (rule retry_contract)
    (simp_all add: clock_advances_def ticking_host_def enough_polls_def default_policy_def)

end
