(* ===== verification/Roboz_Calls.thy ===== *)
theory Roboz_Calls
  imports Roboz_Provider Roboz_Images Roboz_Retry "HOL-Library.Word"
begin

text \<open>
  Chat and transcription calls (\<open>llm/calls.py\<close>) over the event pipe: the request, streaming with
  its gate, one attempt behind the cancellable boundary, retry, and the events that report a call.
  A provider answers with \<open>py_object\<close>s; a stream is a finite list of chunks that may end in an
  error. The boundary may take the caller away after any number of chunks. A call without a pipe
  is one whose pipe has no sinks. Log records are left out, and of the
  data of the events the durations, the tokens, the diagnostics and the names of error classes.
\<close>

section \<open>Endpoints and requests\<close>

record llm_endpoint =
  le_api_name :: string
  le_model_name :: string
  le_temperature :: json
  le_json_output :: bool
  le_accepts_temperature :: bool
  le_accepts_images :: bool
  le_stream :: bool
  le_extra_body :: "(string \<times> json) list option"
  le_errors :: endpoint_errors

datatype response_format = FormatJson | FormatText

record chat_request =
  cr_model :: string
  cr_messages :: "encoded_message list"
  cr_response_format :: response_format
  cr_temperature :: "json option"
  cr_extra_body :: "(string \<times> json) list option"

definition role_to_user_mapper :: "role list \<Rightarrow> message list \<Rightarrow> message list" where
  "role_to_user_mapper mapped_roles ms =
     map (\<lambda>m. if msg_role m \<in> set mapped_roles then m\<lparr>msg_role := USER\<rparr> else m) ms"

definition chat_completion_request :: "llm_endpoint \<Rightarrow> encoded_message list \<Rightarrow> chat_request" where
  "chat_completion_request ep ms =
     \<lparr>cr_model = le_model_name ep, cr_messages = ms,
      cr_response_format = (if le_json_output ep then FormatJson else FormatText),
      cr_temperature = (if le_accepts_temperature ep then Some (le_temperature ep) else None),
      cr_extra_body = (case le_extra_body ep of None \<Rightarrow> None | Some b \<Rightarrow> if b = [] then None else Some b)\<rparr>"

record llm_telemetry =
  tel_endpoint :: string
  tel_model :: string
  tel_input :: py_object
  tel_output :: py_object

record completion_result =
  res_content :: string
  res_telemetry :: "llm_telemetry option"
  res_diagnostics :: llm_diagnostics

text \<open>The world of a call; \<open>None\<close> of \<open>open_stream\<close> is the \<open>TypeError\<close> of an unknown option.\<close>

record 'w call_environment =
  call_pipe_environment :: "'w environment"
  create_completion :: "chat_request \<Rightarrow> 'w pipe \<Rightarrow> 'w pipe \<times> (raised + py_object)"
  open_stream ::
    "bool \<Rightarrow> chat_request \<Rightarrow> 'w pipe \<Rightarrow> 'w pipe \<times> (raised + (raised + py_object) list) option"
  on_delta :: "(string \<Rightarrow> 'w pipe \<Rightarrow> 'w pipe \<times> (exn + unit)) option"
  start_replacement_stream :: "('w pipe \<Rightarrow> 'w pipe \<times> (exn + unit)) option"
  leaves_after :: "nat \<Rightarrow> (nat \<times> raised) option"
  error_store :: "provider_error list"
  describe_exn :: "exn \<Rightarrow> provider_error"
  str_of :: "py_object \<Rightarrow> string"
  map_messages :: "message list \<Rightarrow> message list"
  scrub_messages :: "message list \<Rightarrow> wire_record list"
  image_filename :: "wire_image \<Rightarrow> string option"
  notify_omission :: bool
  new_call_id :: string
  call_clock :: "('w pipe, raised) retry_host"
  call_policy :: retry_policy

section \<open>Signals\<close>

text \<open>The first of the pipe's two signals that is set.\<close>

definition signal_error :: "'w pipe \<Rightarrow> raised option" where
  "signal_error p =
     (if cancel_signal p then Some RaisedCancelled
      else if interrupt_signal p then Some RaisedInterrupted else None)"

definition look_at_signals :: "'w call_environment \<Rightarrow> 'w pipe \<Rightarrow> 'w pipe \<times> raised option" where
  "look_at_signals env p =
     (let p1 = observe (call_pipe_environment env) p in (p1, signal_error p1))"

section \<open>Responses\<close>

definition stream_chunk_usage :: "py_object \<Rightarrow> py_object" where
  "stream_chunk_usage chunk = field chunk ''usage''"

definition string_or_empty :: "py_object \<Rightarrow> string" where
  "string_or_empty v = (case v of PyStr s \<Rightarrow> s | _ \<Rightarrow> [])"

definition stream_delta_content :: "py_object \<Rightarrow> string" where
  "stream_delta_content chunk =
     (case field chunk ''choices'' of
        PyList (c # cs) \<Rightarrow> string_or_empty (field (field c ''delta'') ''content'')
      | _ \<Rightarrow> [])"

definition telemetry_from_usage :: "llm_endpoint \<Rightarrow> py_object \<Rightarrow> llm_telemetry" where
  "telemetry_from_usage ep usage =
     \<lparr>tel_endpoint = le_api_name ep, tel_model = le_model_name ep,
      tel_input = field usage ''prompt_tokens'', tel_output = field usage ''completion_tokens''\<rparr>"

text \<open>\<open>response.choices[0].message.content\<close>; \<open>None\<close> when an attribute or an entry is missing.\<close>

definition attribute :: "py_object \<Rightarrow> string \<Rightarrow> py_object option" where
  "attribute v name = (case v of PyObj cls attrs \<Rightarrow> map_of attrs name | _ \<Rightarrow> None)"

definition response_content :: "py_object \<Rightarrow> py_object option" where
  "response_content response =
     (case attribute response ''choices'' of
        Some (PyList (c # cs)) \<Rightarrow>
          (case attribute c ''message'' of Some m \<Rightarrow> attribute m ''content'' | None \<Rightarrow> None)
      | _ \<Rightarrow> None)"

definition call_non_streaming ::
  "'w call_environment \<Rightarrow> llm_endpoint \<Rightarrow> chat_request \<Rightarrow> 'w pipe \<Rightarrow> 'w pipe \<times> (raised + completion_result)"
where
  "call_non_streaming env ep req p =
     (case create_completion env req p of
        (p1, Inl e) \<Rightarrow> (p1, Inl e)
      | (p1, Inr response) \<Rightarrow>
          (case response_content response of
             None \<Rightarrow> (p1, Inl (RaisedOther (OtherException ''malformed response'')))
           | Some body \<Rightarrow>
               (let usage = field response ''usage''
                in (p1, Inr \<lparr>res_content = string_or_empty body,
                      res_telemetry = Some (telemetry_from_usage ep usage),
                      res_diagnostics = from_response response usage\<rparr>))))"

section \<open>Streaming\<close>

record stream_state =
  st_chunks :: "string list"
  st_usage :: py_object
  st_diagnostics :: llm_diagnostics
  st_emitted :: bool

text \<open>The gate: a set signal drops the delta; otherwise output counts as emitted.\<close>

definition gate ::
  "'w call_environment \<Rightarrow> string \<Rightarrow> stream_state \<Rightarrow> 'w pipe \<Rightarrow> 'w pipe \<times> stream_state \<times> (raised + unit)"
where
  "gate env delta st p =
     (case look_at_signals env p of
        (p1, Some _) \<Rightarrow> (p1, st, Inr ())
      | (p1, None) \<Rightarrow>
          (case on_delta env of
             None \<Rightarrow> (p1, st\<lparr>st_emitted := True\<rparr>, Inr ())
           | Some f \<Rightarrow>
               (case f delta p1 of
                  (p2, Inl e) \<Rightarrow> (p2, st\<lparr>st_emitted := True\<rparr>, Inl (RaisedOther e))
                | (p2, Inr _) \<Rightarrow> (p2, st\<lparr>st_emitted := True\<rparr>, Inr ()))))"

fun stream_loop ::
  "'w call_environment \<Rightarrow> (raised + py_object) list \<Rightarrow> stream_state \<Rightarrow> 'w pipe
    \<Rightarrow> 'w pipe \<times> stream_state \<times> (raised + unit)" where
  "stream_loop env [] st p = (p, st, Inr ())"
| "stream_loop env (Inl e # items) st p = (p, st, Inl e)"
| "stream_loop env (Inr chunk # items) st p =
     (case look_at_signals env p of
        (p1, Some _) \<Rightarrow> (p1, st, Inr ())
      | (p1, None) \<Rightarrow>
          (let usage = stream_chunk_usage chunk;
               delta = stream_delta_content chunk;
               st1 = st\<lparr>st_usage := (if is_attr usage then usage else st_usage st),
                        st_diagnostics := observe_chunk chunk (delta \<noteq> []) (st_diagnostics st)\<rparr>
           in if delta = [] then stream_loop env items st1 p1
              else
                (case gate env delta (st1\<lparr>st_chunks := st_chunks st1 @ [delta]\<rparr>) p1 of
                   (p2, st2, Inl e) \<Rightarrow> (p2, st2, Inl e)
                 | (p2, st2, Inr _) \<Rightarrow> stream_loop env items st2 p2)))"

definition empty_stream :: stream_state where
  "empty_stream =
     \<lparr>st_chunks = [], st_usage = PyNone, st_diagnostics = for_stream, st_emitted = False\<rparr>"

definition stream_result :: "llm_endpoint \<Rightarrow> stream_state \<Rightarrow> completion_result" where
  "stream_result ep st =
     \<lparr>res_content = concat (st_chunks st), res_telemetry = Some (telemetry_from_usage ep (st_usage st)),
      res_diagnostics = observe_usage (st_usage st) (st_diagnostics st)\<rparr>"

text \<open>The chunks are tried with usage first; \<open>limit\<close> is the number of chunks the caller waits for.\<close>

definition call_streaming ::
  "'w call_environment \<Rightarrow> llm_endpoint \<Rightarrow> chat_request \<Rightarrow> nat option \<Rightarrow> 'w pipe
    \<Rightarrow> 'w pipe \<times> bool \<times> (raised + completion_result)" where
  "call_streaming env ep req limit p =
     (case (case open_stream env True req p of
              (p1, None) \<Rightarrow> open_stream env False req p1
            | opened \<Rightarrow> opened) of
        (p1, None) \<Rightarrow> (p1, False, Inl (RaisedOther (OtherException ''TypeError'')))
      | (p1, Some (Inl e)) \<Rightarrow> (p1, False, Inl e)
      | (p1, Some (Inr items)) \<Rightarrow>
          (case stream_loop env (case limit of None \<Rightarrow> items | Some k \<Rightarrow> take k items) empty_stream p1 of
             (p2, st, Inl e) \<Rightarrow> (p2, st_emitted st, Inl e)
           | (p2, st, Inr _) \<Rightarrow> (p2, st_emitted st, Inr (stream_result ep st))))"

section \<open>One attempt\<close>

definition call_chat_completion ::
  "'w call_environment \<Rightarrow> llm_endpoint \<Rightarrow> chat_request \<Rightarrow> nat option \<Rightarrow> 'w pipe
    \<Rightarrow> 'w pipe \<times> bool \<times> (raised + completion_result)" where
  "call_chat_completion env ep req limit p =
     (case look_at_signals env p of
        (p1, Some e) \<Rightarrow> (p1, False, Inl e)
      | (p1, None) \<Rightarrow>
          if on_delta env \<noteq> None \<and> le_stream ep then call_streaming env ep req limit p1
          else (case call_non_streaming env ep req p1 of (p2, r) \<Rightarrow> (p2, False, r)))"

definition classify_raised :: "'w call_environment \<Rightarrow> endpoint_errors \<Rightarrow> raised \<Rightarrow> llm_error" where
  "classify_raised env errors r =
     classify_call_error (str_of env) (describe_exn env) errors (error_store env) r"

text \<open>\<open>except Exception\<close>: a \<open>KeyboardInterrupt\<close> passes.\<close>

definition is_exception :: "raised \<Rightarrow> bool" where
  "is_exception r \<longleftrightarrow> r \<noteq> RaisedOther KeyboardInterrupt"

definition typed_error :: "'w call_environment \<Rightarrow> endpoint_errors \<Rightarrow> raised \<Rightarrow> raised" where
  "typed_error env errors r =
     (if is_exception r then RaisedLLM (classify_raised env errors r) else r)"

definition run_attempt ::
  "'w call_environment \<Rightarrow> llm_endpoint \<Rightarrow> chat_request
    \<Rightarrow> ('w pipe, raised, completion_result) attempt" where
  "run_attempt env ep req attempt p =
     (let left = leaves_after env attempt
      in case call_chat_completion env ep req (map_option fst left) p of
           (p1, emitted, r) \<Rightarrow>
             (case left of
                Some (k, e) \<Rightarrow> (p1, emitted, Inl (typed_error env (le_errors ep) e))
              | None \<Rightarrow>
                  (case r of
                     Inl e \<Rightarrow> (p1, emitted, Inl (typed_error env (le_errors ep) e))
                   | Inr v \<Rightarrow> (p1, emitted, Inr v))))"

section \<open>The call\<close>

definition llm_event_data :: "llm_endpoint \<Rightarrow> string \<Rightarrow> (string \<times> string) list" where
  "llm_event_data ep call_id =
     [(''call_id'', call_id), (''endpoint'', le_api_name ep), (''model'', le_model_name ep)]"

definition endpoint_label :: "llm_endpoint \<Rightarrow> string" where
  "endpoint_label ep = le_api_name ep @ ''/'' @ le_model_name ep"

definition emit_call_event ::
  "'w call_environment \<Rightarrow> llm_endpoint \<Rightarrow> event_kind \<Rightarrow> event_level \<Rightarrow> string \<Rightarrow> (string \<times> string) list
    \<Rightarrow> 'w pipe \<Rightarrow> 'w pipe \<times> (exn + unit)" where
  "emit_call_event env ep kind level verb data p =
     emit_runtime_event (call_pipe_environment env) LLM kind level
       (''LLM call '' @ verb @ '': '' @ endpoint_label ep) (llm_event_data ep (new_call_id env) @ data) p"

fun error_kind_value :: "llm_error_kind \<Rightarrow> string" where
  "error_kind_value KIND_INTERRUPTED = ''interrupted''"
| "error_kind_value KIND_CANCELLED = ''cancelled''"
| "error_kind_value KIND_TIMEOUT = ''timeout''"
| "error_kind_value KIND_AUTH = ''auth''"
| "error_kind_value KIND_INSUFFICIENT_FUNDS = ''insufficient_funds''"
| "error_kind_value KIND_RATE_LIMIT = ''rate_limit''"
| "error_kind_value KIND_CONTEXT_LIMIT = ''context_limit''"
| "error_kind_value KIND_CONTENT_FILTER = ''content_filter''"
| "error_kind_value KIND_PROVIDER_REQUEST = ''provider_request''"
| "error_kind_value KIND_PROVIDER_UNAVAILABLE = ''provider_unavailable''"
| "error_kind_value KIND_UNKNOWN_PROVIDER_ERROR = ''unknown_provider_error''"

definition error_data :: "llm_class \<Rightarrow> (string \<times> string) list" where
  "error_data c = [(''error_kind'', error_kind_value (error_kind c))]"

definition show_bool :: "bool \<Rightarrow> string" where
  "show_bool b = (if b then ''True'' else ''False'')"

definition started_data :: "string \<Rightarrow> bool \<Rightarrow> message list \<Rightarrow> (string \<times> string) list" where
  "started_data format streams ms =
     [(''message_count'', show_int (int (length ms))),
      (''message_chars'', show_int (int (sum_list (map (length \<circ> content) ms)))),
      (''output_format'', format), (''stream'', show_bool streams)]"

definition kind_verb :: "event_kind \<Rightarrow> string" where
  "kind_verb k =
     (case k of
        EvTimedOut \<Rightarrow> ''timed_out'' | EvCancelled \<Rightarrow> ''cancelled'' | EvInterrupted \<Rightarrow> ''interrupted''
      | _ \<Rightarrow> ''failed'')"

definition prepare_retry ::
  "'w call_environment \<Rightarrow> llm_endpoint \<Rightarrow> ('w pipe, raised) prepare" where
  "prepare_retry env ep e failed_attempt limit partial_output p =
     (if partial_output \<and> start_replacement_stream env = None then (p, Inr False)
      else
        (case emit_call_event env ep EvRetrying LevelInfo ''retrying''
                ([(''attempt'', show_int (int (failed_attempt + 1))), (''max_attempts'', show_int limit)] @
                 (case e of RaisedLLM (c, message) \<Rightarrow> error_data c | _ \<Rightarrow> []) @
                 [(''partial_output_abandoned'', show_bool partial_output)]) p of
           (p1, Inl x) \<Rightarrow> (p1, Inl (RaisedOther x))
         | (p1, Inr _) \<Rightarrow>
             (case (if partial_output then start_replacement_stream env else None) of
                None \<Rightarrow> (p1, Inr True)
              | Some f \<Rightarrow>
                  (case f p1 of
                     (p2, Inl x) \<Rightarrow> (p2, Inl (RaisedOther x))
                   | (p2, Inr _) \<Rightarrow> (p2, Inr True)))))"

definition retryable_raised :: "raised \<Rightarrow> bool" where
  "retryable_raised r = (case r of RaisedLLM (c, text) \<Rightarrow> retryable c | _ \<Rightarrow> False)"

text \<open>The messages of the request, and the notice of omitted images.\<close>

definition chat_completion_messages ::
  "'w call_environment \<Rightarrow> string \<Rightarrow> string \<Rightarrow> bool \<Rightarrow> message list \<Rightarrow> 'w pipe
    \<Rightarrow> 'w pipe \<times> (raised + encoded_message list)" where
  "chat_completion_messages env api model accepts_images ms p =
     (case encode_image_messages (image_filename env) accepts_images
             (scrub_messages env (map_messages env ms)) of
        Inl (LLMImageInputError text) \<Rightarrow> (p, Inl (RaisedLLM (LLMImageInputClass, text)))
      | Inr (encoded, omitted) \<Rightarrow>
          if notify_omission env
          then (case report_image_omission (call_pipe_environment env) api model omitted p of
                  (p1, Inl e) \<Rightarrow> (p1, Inl (RaisedOther e))
                | (p1, Inr _) \<Rightarrow> (p1, Inr encoded))
          else (p, Inr encoded))"

definition CONTENT_FILTER_FINISH_REASON :: string where
  "CONTENT_FILTER_FINISH_REASON = ''content_filter''"

definition raise_for_content_filter :: "completion_result \<Rightarrow> raised + completion_result" where
  "raise_for_content_filter r =
     (if finish_reason (res_diagnostics r) = Some CONTENT_FILTER_FINISH_REASON
      then Inl (RaisedLLM (LLMContentFilteredError,
             ''response was stopped by the provider's content filter''))
      else Inr r)"

text \<open>The retried request: \<open>None\<close> while a backoff sleep has not ended.\<close>

definition request_with_retry ::
  "nat \<Rightarrow> 'w call_environment \<Rightarrow> llm_endpoint \<Rightarrow> message list \<Rightarrow> 'w pipe
    \<Rightarrow> ('w pipe \<times> (raised + completion_result)) option" where
  "request_with_retry fuel env ep ms p =
     (case chat_completion_messages env (le_api_name ep) (le_model_name ep) (le_accepts_images ep) ms p of
        (p1, Inl e) \<Rightarrow> Some (p1, Inl e)
      | (p1, Inr encoded) \<Rightarrow>
          run_with_retry fuel (call_clock env) (call_policy env) retryable_raised
            (Some (prepare_retry env ep)) (run_attempt env ep (chat_completion_request ep encoded)) p1)"

datatype call_outcome = Answer string "llm_telemetry option" | CallFailedWith llm_error | CallRaised exn

definition report_failure ::
  "'w call_environment \<Rightarrow> llm_endpoint \<Rightarrow> raised \<Rightarrow> 'w pipe \<Rightarrow> 'w pipe \<times> call_outcome" where
  "report_failure env ep r p =
     (case typed_error env (le_errors ep) r of
        RaisedLLM e \<Rightarrow>
          (let failure = observed_llm_failure (fst e)
           in case emit_call_event env ep (of_kind failure) (of_level failure)
                     (kind_verb (of_kind failure)) (error_data (fst e)) p of
                (p1, Inl x) \<Rightarrow> (p1, CallRaised x)
              | (p1, Inr _) \<Rightarrow> (p1, CallFailedWith e))
      | _ \<Rightarrow> (p, CallRaised KeyboardInterrupt))"

definition report_succeeded ::
  "'w call_environment \<Rightarrow> llm_endpoint \<Rightarrow> completion_result \<Rightarrow> 'w pipe \<Rightarrow> 'w pipe \<times> call_outcome" where
  "report_succeeded env ep r p =
     (case emit_call_event env ep EvSucceeded LevelInfo ''succeeded''
             [(''response_chars'', show_int (int (length (res_content r))))] p of
        (p1, Inl x) \<Rightarrow> (p1, CallRaised x)
      | (p1, Inr _) \<Rightarrow> (p1, Answer (res_content r) (res_telemetry r)))"

text \<open>What \<open>run\<close> does with the result of the request.\<close>

definition settle ::
  "'w call_environment \<Rightarrow> llm_endpoint \<Rightarrow> 'w pipe \<times> (raised + completion_result) \<Rightarrow> 'w pipe \<times> call_outcome"
where
  "settle env ep result =
     (case result of
        (p, Inl e) \<Rightarrow> report_failure env ep e p
      | (p, Inr r) \<Rightarrow>
          (case raise_for_content_filter r of
             Inl e \<Rightarrow> report_failure env ep e p
           | Inr r' \<Rightarrow>
               (case look_at_signals env p of
                  (p1, Some e) \<Rightarrow> report_failure env ep e p1
                | (p1, None) \<Rightarrow> report_succeeded env ep r' p1)))"

definition call_llm_api ::
  "nat \<Rightarrow> 'w call_environment \<Rightarrow> llm_endpoint \<Rightarrow> message list \<Rightarrow> 'w pipe
    \<Rightarrow> ('w pipe \<times> call_outcome) option" where
  "call_llm_api fuel env ep ms p =
     (case emit_call_event env ep EvStarted LevelInfo ''started''
             (started_data (if le_json_output ep then ''json'' else ''text'') (le_stream ep) ms) p of
        (p1, Inl x) \<Rightarrow> Some (p1, CallRaised x)
      | (p1, Inr _) \<Rightarrow> map_option (settle env ep) (request_with_retry fuel env ep ms p1))"

section \<open>Mock endpoints\<close>

fun text_chunks :: "nat \<Rightarrow> string \<Rightarrow> string list" where
  "text_chunks 0 s = []"
| "text_chunks (Suc n) s = (if s = [] then [] else take 24 s # text_chunks n (drop 24 s))"

definition iter_text_chunks :: "string \<Rightarrow> string list" where
  "iter_text_chunks s = text_chunks (length s) s"

fun deliver_chunks ::
  "'w call_environment \<Rightarrow> string list \<Rightarrow> stream_state \<Rightarrow> 'w pipe \<Rightarrow> 'w pipe \<times> (raised + unit)" where
  "deliver_chunks env [] st p = (p, Inr ())"
| "deliver_chunks env (d # ds) st p =
     (case gate env d st p of
        (p1, st1, Inl e) \<Rightarrow> (p1, Inl e)
      | (p1, st1, Inr _) \<Rightarrow> deliver_chunks env ds st1 p1)"

text \<open>The scripted responses are popped: an error, or a text.\<close>

definition call_mock ::
  "'w call_environment \<Rightarrow> string \<Rightarrow> string \<Rightarrow> bool \<Rightarrow> (raised + string) list \<Rightarrow> message list \<Rightarrow> 'w pipe
    \<Rightarrow> ('w pipe \<times> (raised + completion_result)) \<times> (raised + string) list" where
  "call_mock env api model accepts_images responses ms p =
     (case look_at_signals env p of
        (p1, Some e) \<Rightarrow> ((p1, Inl e), responses)
      | (p1, None) \<Rightarrow>
          (case chat_completion_messages
                  (env\<lparr>map_messages := role_to_user_mapper [ERROR]\<rparr>) api model accepts_images ms p1 of
             (p2, Inl e) \<Rightarrow> ((p2, Inl e), responses)
           | (p2, Inr _) \<Rightarrow>
               (case responses of
                  [] \<Rightarrow> ((p2, Inl (RaisedOther (OtherException ''Mock script exhausted before stop''))), [])
                | r # rest \<Rightarrow>
                    (case look_at_signals env p2 of
                       (p3, Some e) \<Rightarrow> ((p3, Inl e), rest)
                     | (p3, None) \<Rightarrow>
                         (case r of
                            Inl e \<Rightarrow> ((p3, Inl e), rest)
                          | Inr text \<Rightarrow>
                              (let result = \<lparr>res_content = text, res_telemetry = None,
                                             res_diagnostics = no_diagnostics\<rparr>
                               in if on_delta env = None then ((p3, Inr result), rest)
                                  else (case deliver_chunks env (iter_text_chunks text) empty_stream p3 of
                                          (p4, Inl e) \<Rightarrow> ((p4, Inl e), rest)
                                        | (p4, Inr _) \<Rightarrow> ((p4, Inr result), rest))))))))"

text \<open>\<open>run\<close> on a mock endpoint, which has a name, a model and \<open>accepts_images\<close>.\<close>

definition call_mock_llm_api ::
  "'w call_environment \<Rightarrow> llm_endpoint \<Rightarrow> (raised + string) list \<Rightarrow> message list \<Rightarrow> 'w pipe
    \<Rightarrow> ('w pipe \<times> call_outcome) \<times> (raised + string) list" where
  "call_mock_llm_api env ep responses ms p =
     (case emit_call_event env ep EvStarted LevelInfo ''started''
             (started_data ''mock'' False ms) p of
        (p1, Inl x) \<Rightarrow> ((p1, CallRaised x), responses)
      | (p1, Inr _) \<Rightarrow>
          (case call_mock env (le_api_name ep) (le_model_name ep) (le_accepts_images ep) responses ms p1 of
             (result, rest) \<Rightarrow> (settle env ep result, rest)))"

section \<open>Transcription\<close>

record transcription_endpoint =
  te_api_name :: string
  te_model_name :: string
  te_language :: "string option"
  te_temperature :: json
  te_prompt :: "string option"
  te_errors :: endpoint_errors

record transcription_request =
  tr_file :: "string \<times> 8 word list \<times> string"
  tr_model :: string
  tr_temperature :: json
  tr_language :: "string option"
  tr_prompt :: "string option"

definition first_some :: "'a option \<Rightarrow> 'a option \<Rightarrow> 'a option" where
  "first_some x y = (case x of None \<Rightarrow> y | Some v \<Rightarrow> Some v)"

definition transcription_request ::
  "transcription_endpoint \<Rightarrow> 8 word list \<Rightarrow> string \<Rightarrow> string \<Rightarrow> string option \<Rightarrow> json option \<Rightarrow> string option
    \<Rightarrow> transcription_request" where
  "transcription_request ep audio file_name content_type language temp prompt =
     \<lparr>tr_file = (file_name, audio, content_type), tr_model = te_model_name ep,
      tr_temperature = (case temp of None \<Rightarrow> te_temperature ep | Some t \<Rightarrow> t),
      tr_language = first_some language (te_language ep),
      tr_prompt = first_some prompt (te_prompt ep)\<rparr>"

text \<open>The signal of a transcription is its own and never set; \<open>leaves_after\<close> is its deadline.\<close>

definition transcription_attempt ::
  "'w call_environment \<Rightarrow> (transcription_request \<Rightarrow> 'w pipe \<Rightarrow> 'w pipe \<times> (raised + py_object))
    \<Rightarrow> transcription_endpoint \<Rightarrow> transcription_request \<Rightarrow> ('w pipe, raised, string) attempt" where
  "transcription_attempt env transcribe ep req attempt p =
     (case transcribe req p of
        (p1, r) \<Rightarrow>
          (p1, False,
             case leaves_after env attempt of
               Some (k, e) \<Rightarrow> Inl (typed_error env (te_errors ep) e)
             | None \<Rightarrow>
                 (case r of
                    Inl e \<Rightarrow> Inl (typed_error env (te_errors ep) e)
                  | Inr response \<Rightarrow>
                      (case attribute response ''text'' of
                         Some (PyStr s) \<Rightarrow> Inr (py_strip s)
                       | _ \<Rightarrow> Inl (typed_error env (te_errors ep) (RaisedOther (OtherException ''AttributeError'')))))))"

definition call_transcription_api ::
  "nat \<Rightarrow> 'w call_environment \<Rightarrow> (transcription_request \<Rightarrow> 'w pipe \<Rightarrow> 'w pipe \<times> (raised + py_object))
    \<Rightarrow> transcription_endpoint \<Rightarrow> transcription_request \<Rightarrow> 'w pipe \<Rightarrow> ('w pipe \<times> (raised + string)) option"
where
  "call_transcription_api fuel env transcribe ep req p =
     run_with_retry fuel (call_clock env) (call_policy env) retryable_raised None
       (transcription_attempt env transcribe ep req) p"

definition mock_transcription :: "string list \<Rightarrow> (exn + string) \<times> string list" where
  "mock_transcription responses =
     (case responses of
        [] \<Rightarrow> (Inl (OtherException ''Mock transcription script exhausted''), [])
      | r # rest \<Rightarrow> (Inr (py_strip r), rest))"

section \<open>The delivered text\<close>

lemma concat_text_chunks: "length s \<le> n \<Longrightarrow> concat (text_chunks n s) = s"
  by (induction n arbitrary: s) auto

lemma concat_iter_text_chunks: "concat (iter_text_chunks s) = s"
  by (simp add: iter_text_chunks_def concat_text_chunks)

text \<open>A callback that notes what it is given, and an environment that leaves the notes alone.\<close>

definition note_delta :: "string \<Rightarrow> (string list \<times> 'w) pipe \<Rightarrow> (string list \<times> 'w) pipe \<times> (exn + unit)" where
  "note_delta delta p = (p\<lparr>outside := (fst (outside p) @ [delta], snd (outside p))\<rparr>, Inr ())"

definition delivered :: "(string list \<times> 'w) pipe \<Rightarrow> string list" where
  "delivered p = fst (outside p)"

definition keeps_notes :: "(string list \<times> 'w) call_environment \<Rightarrow> bool" where
  "keeps_notes env \<longleftrightarrow>
     (\<forall>w. fst (fst (arrivals (call_pipe_environment env) w)) = fst w) \<and>
     (\<forall>b req p. delivered (fst (open_stream env b req p)) = delivered p)"

lemma fold_request_frame:
  "outside (fold request reqs p) = outside p \<and> sinks (fold request reqs p) = sinks p \<and>
   dry_run (fold request reqs p) = dry_run p"
proof (induction reqs arbitrary: p)
  case (Cons r reqs)
  then show ?case by (cases r) (auto simp: cancel_def interrupt_def)
qed simp

lemma request_sets: "signal_error p \<noteq> None \<Longrightarrow> signal_error (fold request reqs p) \<noteq> None"
proof (induction reqs arbitrary: p)
  case (Cons r reqs)
  then show ?case by (cases r) (auto simp: signal_error_def cancel_def interrupt_def)
qed simp

lemma look_signal: "look_at_signals env p = (p1, e) \<Longrightarrow> signal_error p1 = e"
  by (auto simp: look_at_signals_def Let_def)

lemma look_keeps:
  assumes "look_at_signals env p = (p1, e)"
  shows "signal_error p1 = e" and "keeps_notes env \<Longrightarrow> delivered p1 = delivered p"
    and "signal_error p \<noteq> None \<Longrightarrow> e \<noteq> None"
proof -
  obtain w' reqs where a: "arrivals (call_pipe_environment env) (outside p) = (w', reqs)" by fastforce
  from assms a have p1: "p1 = fold request reqs (p\<lparr>outside := w'\<rparr>)" and e: "e = signal_error p1"
    by (auto simp: look_at_signals_def observe_def Let_def)
  show "signal_error p1 = e" by (simp add: e)
  show "delivered p1 = delivered p" if "keeps_notes env"
  proof -
    from that have "fst (fst (arrivals (call_pipe_environment env) (outside p))) = fst (outside p)"
      unfolding keeps_notes_def by (elim conjE allE)
    then show ?thesis by (simp add: p1 delivered_def fold_request_frame a)
  qed
  show "e \<noteq> None" if "signal_error p \<noteq> None"
  proof -
    have "signal_error (p\<lparr>outside := w'\<rparr>) = signal_error p" by (simp add: signal_error_def)
    with that show ?thesis using request_sets[of "p\<lparr>outside := w'\<rparr>" reqs] by (simp add: e p1)
  qed
qed

text \<open>The chunks of a stream against what was delivered from \<open>p0\<close> on.\<close>

definition in_step :: "(string list \<times> 'w) pipe \<Rightarrow> stream_state \<Rightarrow> (string list \<times> 'w) pipe \<Rightarrow> bool" where
  "in_step p0 st p \<longleftrightarrow>
     (\<exists>ds. delivered p = delivered p0 @ ds \<and> st_emitted st = (ds \<noteq> []) \<and> [] \<notin> set ds \<and>
        (st_chunks st = ds \<or> (signal_error p \<noteq> None \<and> (\<exists>d. st_chunks st = ds @ [d]))))"

lemma gate_in_step:
  assumes "on_delta env = Some note_delta" and "keeps_notes env"
    and "in_step p0 st p" and "signal_error p = None" and "delta \<noteq> []"
    and "gate env delta (st\<lparr>st_chunks := st_chunks st @ [delta]\<rparr>) p = (p2, st2, r)"
  shows "in_step p0 st2 p2 \<and> r = Inr ()"
proof -
  obtain p1 e where look: "look_at_signals env p = (p1, e)" by fastforce
  from assms(3,4) obtain ds where ds: "delivered p = delivered p0 @ ds" "st_emitted st = (ds \<noteq> [])"
    "[] \<notin> set ds" "st_chunks st = ds" by (auto simp: in_step_def)
  note l = look_keeps(1)[OF look] look_keeps(2)[OF look assms(2)]
  show ?thesis
  proof (cases e)
    case None
    with assms(1,6) look have "p2 = fst (note_delta delta p1)" "r = Inr ()"
      "st2 = st\<lparr>st_chunks := st_chunks st @ [delta], st_emitted := True\<rparr>"
      by (auto simp: gate_def note_delta_def)
    then show ?thesis using ds l(2) assms(5)
      by (auto simp: in_step_def note_delta_def delivered_def intro!: exI[of _ "ds @ [delta]"])
  next
    case (Some x)
    with assms(6) look have "p2 = p1" "r = Inr ()" "st2 = st\<lparr>st_chunks := st_chunks st @ [delta]\<rparr>"
      by (auto simp: gate_def)
    then show ?thesis using ds l Some by (auto simp: in_step_def intro!: exI[of _ ds])
  qed
qed

lemma stream_loop_in_step:
  assumes env: "on_delta env = Some note_delta" "keeps_notes env"
  shows "in_step p0 st p \<Longrightarrow> stream_loop env items st p = (p', st', r) \<Longrightarrow> in_step p0 st' p'"
proof (induction items arbitrary: st p)
  case Nil
  then show ?case by simp
next
  case (Cons item items)
  show ?case
  proof (cases item)
    case (Inl e)
    with Cons.prems show ?thesis by simp
  next
    case (Inr chunk)
    obtain p1 e where look: "look_at_signals env p = (p1, e)" by fastforce
    have keep: "in_step p0 st p1 \<and> (e = None \<longrightarrow> signal_error p1 = None)"
      using Cons.prems(1) look_keeps(1,3)[OF look] look_keeps(2)[OF look env(2)]
      unfolding in_step_def by (metis option.exhaust)
    show ?thesis
    proof (cases e)
      case (Some x)
      with Cons.prems Inr look keep show ?thesis by simp
    next
      case None
      let ?st1 = "st\<lparr>st_usage := (if is_attr (stream_chunk_usage chunk) then stream_chunk_usage chunk else st_usage st),
        st_diagnostics := observe_chunk chunk (stream_delta_content chunk \<noteq> []) (st_diagnostics st)\<rparr>"
      have st1: "in_step p0 ?st1 p1" using keep by (simp add: in_step_def)
      show ?thesis
      proof (cases "stream_delta_content chunk = []")
        case True
        with Cons.prems(2) Inr look None Cons.IH[OF st1] show ?thesis by (simp add: Let_def)
      next
        case False
        obtain p2 st2 q where g:
          "gate env (stream_delta_content chunk) (?st1\<lparr>st_chunks := st_chunks ?st1 @ [stream_delta_content chunk]\<rparr>) p1
             = (p2, st2, q)" by (metis prod.exhaust)
        from gate_in_step[OF env st1 _ False g] keep None have "in_step p0 st2 p2" "q = Inr ()" by simp_all
        with Cons.prems(2) Inr look None False g Cons.IH[of st2 p2] show ?thesis
          by (simp add: Let_def)
      qed
    qed
  qed
qed

text \<open>
  C20. What a stream shows is the answer: the deltas handed to the callback, joined, are the
  content of the answer when no signal is set, and a prefix of it otherwise; an attempt counts as
  having emitted output exactly when the callback was called, with a non-empty delta.
\<close>

theorem streamed_deltas_are_the_answer:
  assumes "on_delta env = Some note_delta" and "keeps_notes env"
    and "call_streaming env ep req limit p = (p', emitted, r)"
  shows "\<exists>ds. delivered p' = delivered p @ ds \<and> emitted = (ds \<noteq> []) \<and> [] \<notin> set ds \<and>
    (\<forall>v. r = Inr v \<longrightarrow> prefix (concat ds) (res_content v) \<and>
       (signal_error p' = None \<longrightarrow> concat ds = res_content v))"
proof -
  define opened where "opened =
    (case open_stream env True req p of (p1, None) \<Rightarrow> open_stream env False req p1 | o' \<Rightarrow> o')"
  obtain p1 q where o: "opened = (p1, q)" by fastforce
  have d: "delivered p1 = delivered p"
    using o assms(2) unfolding opened_def keeps_notes_def
    by (auto split: prod.splits option.splits) (metis fst_conv)+
  have call: "call_streaming env ep req limit p =
    (case opened of (p1, None) \<Rightarrow> (p1, False, Inl (RaisedOther (OtherException ''TypeError'')))
      | (p1, Some (Inl e)) \<Rightarrow> (p1, False, Inl e)
      | (p1, Some (Inr items)) \<Rightarrow>
          (case stream_loop env (case limit of None \<Rightarrow> items | Some k \<Rightarrow> take k items) empty_stream p1 of
             (p2, st, Inl e) \<Rightarrow> (p2, st_emitted st, Inl e)
           | (p2, st, Inr _) \<Rightarrow> (p2, st_emitted st, Inr (stream_result ep st))))"
    unfolding call_streaming_def opened_def ..
  show ?thesis
  proof (cases "\<exists>items. q = Some (Inr items)")
    case False
    with assms(3) call o d show ?thesis by (auto split: option.splits sum.splits)
  next
    case True
    then obtain items where q: "q = Some (Inr items)" by blast
    obtain st r' where loop:
      "stream_loop env (case limit of None \<Rightarrow> items | Some k \<Rightarrow> take k items) empty_stream p1 = (p', st, r')"
      and emitted: "emitted = st_emitted st" and r: "\<And>v. r = Inr v \<Longrightarrow> res_content v = concat (st_chunks st)"
      using assms(3) call o q by (auto simp: stream_result_def split: prod.splits sum.splits)
    have "in_step p1 empty_stream p1" by (simp add: in_step_def empty_stream_def)
    from stream_loop_in_step[OF assms(1,2) this loop] obtain ds where
      ds: "delivered p' = delivered p @ ds" "st_emitted st = (ds \<noteq> [])" "[] \<notin> set ds"
        "st_chunks st = ds \<or> (signal_error p' \<noteq> None \<and> (\<exists>d. st_chunks st = ds @ [d]))"
      by (auto simp: in_step_def d)
    then have "prefix (concat ds) (concat (st_chunks st)) \<and>
        (signal_error p' = None \<longrightarrow> concat ds = concat (st_chunks st))" by auto
    with ds emitted r show ?thesis by (intro exI[of _ ds]) simp
  qed
qed

section \<open>What a call reports\<close>

lemma look_frame:
  "look_at_signals env p = (p1, e) \<Longrightarrow> sinks p1 = sinks p \<and> dry_run p1 = dry_run p"
  by (auto simp: look_at_signals_def observe_def Let_def fold_request_frame split: prod.splits)

lemma emit_call_event_frame:
  assumes "emit_call_event env ep kind level verb data p = (p', r)"
  shows "sinks p' = sinks p" and "dry_run p' = dry_run p" and "signal_error p' = signal_error p"
  using assms
  by (auto simp: emit_call_event_def emit_runtime_event_def emit_def advance_def Let_def signal_error_def
      split: if_splits prod.splits option.splits)

definition reports ::
  "nat \<Rightarrow> ((nat \<times> pipe_event) list \<times> 'w) pipe \<Rightarrow> event_kind \<Rightarrow> event_level \<Rightarrow> (string \<times> string) list \<Rightarrow> bool" where
  "reports s p kind level data \<longleftrightarrow>
     (\<exists>pre ev. received s p = pre @ [RuntimeEvent ev] \<and> re_category ev = LLM \<and> re_kind ev = kind \<and>
        re_level ev = level \<and> set data \<subseteq> set (re_data ev))"

lemma emit_call_event_reports:
  assumes "call_pipe_environment env = recording e" and "\<not> dry_run p" and "sinks p = s # ss" and "s \<notin> set ss"
    and "emit_call_event env ep kind level verb data p = (p', r)"
  shows "reports s p' kind level (llm_event_data ep (new_call_id env) @ data) \<and>
    (\<forall>x. r = Inl x \<longrightarrow> sink_raised e s p' x)"
proof -
  let ?p = "advance p"
  obtain event where emit: "emit (recording e) (RuntimeEvent event) ?p = (p', r)"
    and event: "re_category event = LLM" "re_kind event = kind" "re_level event = level"
      "re_data event = llm_event_data ep (new_call_id env) @ data"
    using assms(1,2,5) by (auto simp: emit_call_event_def emit_runtime_event_def Let_def)
  have sinks: "sinks ?p = s # ss" using assms(3) by (simp add: advance_def)
  have "sink_raised e s p' x" if "r = Inl x" for x
    by (rule emit_refused[OF sinks assms(4)]) (use emit that in simp)
  moreover from emit_received[OF sinks assms(4), of e "RuntimeEvent event"] emit event
  have "reports s p' kind level (llm_event_data ep (new_call_id env) @ data)"
    by (auto simp: reports_def)
  ultimately show ?thesis by simp
qed

lemma report_failure_reports:
  assumes "call_pipe_environment env = recording e" and "\<not> dry_run p" and "sinks p = s # ss" and "s \<notin> set ss"
    and "report_failure env ep r p = (p', out)"
  shows "(\<exists>x. out = CallRaised x \<and> (x = KeyboardInterrupt \<or> sink_raised e s p' x)) \<or>
    (\<exists>f. out = CallFailedWith f \<and>
       reports s p' (of_kind (observed_llm_failure (fst f))) (of_level (observed_llm_failure (fst f)))
         (llm_event_data ep (new_call_id env) @ error_data (fst f)))"
proof (cases "typed_error env (le_errors ep) r")
  case (RaisedLLM f)
  obtain c message where f: "f = (c, message)" by fastforce
  let ?failure = "observed_llm_failure (fst f)"
  obtain p1 q where emit:
    "emit_call_event env ep (of_kind ?failure) (of_level ?failure) (kind_verb (of_kind ?failure)) (error_data (fst f)) p = (p1, q)"
    by fastforce
  from emit_call_event_reports[OF assms(1-4) emit] assms(5) RaisedLLM emit f show ?thesis
    by (cases q) (auto simp: report_failure_def Let_def)
qed (use assms(5) in \<open>auto simp: report_failure_def\<close>)

lemma report_failure_frame:
  assumes "report_failure env ep r p = (p', out)"
  shows "sinks p' = sinks p" and "dry_run p' = dry_run p"
  using assms
  by (auto simp: report_failure_def Let_def split: raised.splits prod.splits sum.splits
      dest: emit_call_event_frame(1,2))

lemma settle_frame:
  assumes "settle env ep (p, r) = (p', out)"
  shows "sinks p' = sinks p" and "dry_run p' = dry_run p"
  using assms
  by (auto simp: settle_def report_succeeded_def split: sum.splits prod.splits option.splits
      dest!: look_frame dest: emit_call_event_frame(1,2) report_failure_frame)

definition told :: "'v environment \<Rightarrow> 'w call_environment \<Rightarrow> llm_endpoint \<Rightarrow> nat
    \<Rightarrow> ((nat \<times> pipe_event) list \<times> 'v) pipe \<Rightarrow> call_outcome \<Rightarrow> bool" where
  "told e env ep s p out =
     (case out of
        Answer body tel \<Rightarrow> signal_error p = None \<and>
          reports s p EvSucceeded LevelInfo
            (llm_event_data ep (new_call_id env) @ [(''response_chars'', show_int (int (length body)))])
      | CallFailedWith f \<Rightarrow>
          reports s p (of_kind (observed_llm_failure (fst f))) (of_level (observed_llm_failure (fst f)))
            (llm_event_data ep (new_call_id env) @ error_data (fst f))
      | CallRaised x \<Rightarrow> x = KeyboardInterrupt \<or> sink_raised e s p x)"

lemma settle_reports:
  assumes "call_pipe_environment env = recording e" and "\<not> dry_run p" and "sinks p = s # ss" and "s \<notin> set ss"
    and "settle env ep (p, r) = (p', out)"
  shows "told e env ep s p' out"
proof -
  have failed: "told e env ep s p' out"
    if "report_failure env ep x q = (p', out)" "\<not> dry_run q" "sinks q = s # ss" for x q
    using report_failure_reports[OF assms(1) that(2,3) assms(4) that(1)] by (auto simp: told_def)
  show ?thesis
  proof (cases "\<exists>v v'. r = Inr v \<and> raise_for_content_filter v = Inr v'")
    case False
    with assms(5) failed[of _ p] assms(2,3) show ?thesis
      by (auto simp: settle_def split: sum.splits)
  next
    case True
    then obtain v v' where v: "r = Inr v" "raise_for_content_filter v = Inr v'" by blast
    obtain p1 x where look: "look_at_signals env p = (p1, x)" by fastforce
    from look_frame[OF look] assms(2,3) have p1: "\<not> dry_run p1" "sinks p1 = s # ss" by simp_all
    show ?thesis
    proof (cases x)
      case (Some y)
      with assms(5) v look failed[OF _ p1] show ?thesis by (simp add: settle_def)
    next
      case None
      let ?data = "[(''response_chars'', show_int (int (length (res_content v'))))]"
      obtain p2 q where emit: "emit_call_event env ep EvSucceeded LevelInfo ''succeeded'' ?data p1 = (p2, q)"
        by fastforce
      note sent = emit_call_event_reports[OF assms(1) p1 assms(4) emit]
      show ?thesis
      proof (cases q)
        case (Inl y)
        with sent assms(5) v look None emit show ?thesis
          by (auto simp: settle_def report_succeeded_def told_def)
      next
        case (Inr u)
        from assms(5) v look None emit Inr have "p' = p2" "out = Answer (res_content v') (res_telemetry v')"
          by (simp_all add: settle_def report_succeeded_def)
        moreover from emit_call_event_frame(3)[OF emit] look_signal[OF look] None
        have "signal_error p2 = None" by simp
        ultimately show ?thesis using sent by (simp add: told_def)
      qed
    qed
  qed
qed

text \<open>
  C21. Calls are reported truthfully: when a call ends, the last event the first sink received is
  that of its outcome, under the call's identifier. An answer is reported as succeeded with its
  length and is returned only when no signal was set; an error is reported with the kind, the level
  and the error kind of its class; nothing else leaves the call but a \<open>KeyboardInterrupt\<close>, which is not
  reported, and the exception of a sink that raised on the last event. (The pipe is not dry, and
  its first sink is subscribed once.)
\<close>

theorem call_is_reported_truthfully:
  assumes "call_llm_api fuel env ep ms p = Some (p', out)" and "call_pipe_environment env = recording e"
    and "\<not> dry_run p'" and "sinks p' = s # ss" and "s \<notin> set ss"
  shows "told e env ep s p' out"
proof -
  let ?data = "started_data (if le_json_output ep then ''json'' else ''text'') (le_stream ep) ms"
  obtain p1 q where start: "emit_call_event env ep EvStarted LevelInfo ''started'' ?data p = (p1, q)"
    by fastforce
  show ?thesis
  proof (cases q)
    case (Inl x)
    with assms(1) start have "p' = p1" by (simp add: call_llm_api_def)
    with emit_call_event_frame(1,2)[OF start] assms(3,4) have "\<not> dry_run p" "sinks p = s # ss" by simp_all
    from emit_call_event_reports[OF assms(2) this assms(5) start] Inl assms(1) start show ?thesis
      by (auto simp: call_llm_api_def told_def)
  next
    case (Inr u)
    with assms(1) start obtain p2 r where
      "request_with_retry fuel env ep ms p1 = Some (p2, r)" and settled: "settle env ep (p2, r) = (p', out)"
      by (auto simp: call_llm_api_def)
    from settle_frame[OF settled] assms(3,4) have "\<not> dry_run p2" "sinks p2 = s # ss" by simp_all
    from settle_reports[OF assms(2) this assms(5) settled] show ?thesis .
  qed
qed

section \<open>Examples\<close>

definition sample_call ::
  "'w environment \<Rightarrow> (raised + py_object) list \<Rightarrow> (string \<Rightarrow> 'w pipe \<Rightarrow> 'w pipe \<times> (exn + unit)) option
    \<Rightarrow> 'w call_environment" where
  "sample_call env items callback =
     \<lparr>call_pipe_environment = env, create_completion = (\<lambda>req p. (p, Inl RaisedTimeout)),
      open_stream = (\<lambda>with_usage req p. (p, Some (Inr items))), on_delta = callback,
      start_replacement_stream = None, leaves_after = (\<lambda>attempt. None), error_store = [],
      describe_exn = (\<lambda>x. sample_error 0 []), str_of = (\<lambda>v. []),
      map_messages = role_to_user_mapper [ERROR], scrub_messages = (\<lambda>ms. []), image_filename = (\<lambda>i. None),
      notify_omission = False, new_call_id = ''call'',
      call_clock = \<lparr>set_signal_error = (\<lambda>p. (p, signal_error p)), monotonic = (\<lambda>p. 0),
        sleep_for = (\<lambda>d p. p)\<rparr>,
      call_policy = default_policy\<rparr>"

definition sample_endpoint :: llm_endpoint where
  "sample_endpoint =
     \<lparr>le_api_name = ''api'', le_model_name = ''m'', le_temperature = JInt 0, le_json_output = False,
      le_accepts_temperature = True, le_accepts_images = False, le_stream = True,
      le_extra_body = None, le_errors = plain_endpoint\<rparr>"

definition content_chunk :: "string \<Rightarrow> py_object" where
  "content_chunk s =
     PyDict [(''choices'', PyList [PyDict [(''delta'', PyDict [(''content'', PyStr s)])]])]"

definition silent :: "'w environment" where
  "silent = \<lparr>deliver = (\<lambda>s event w. (w, None)), new_uuid = (\<lambda>w. (w, ''id'')), arrivals = (\<lambda>w. (w, []))\<rparr>"

theorem streamed_deltas_are_the_answer_witness:
  "\<exists>p' emitted v. call_streaming
       (sample_call silent [Inr (content_chunk ''ab''), Inr (content_chunk []), Inr (content_chunk ''c'')]
         (Some note_delta))
       sample_endpoint (chat_completion_request sample_endpoint []) None (event_pipe [] ([], 0 :: int))
     = (p', emitted, Inr v) \<and> delivered p' \<noteq> [] \<and> concat (delivered p') = res_content v"
proof -
  let ?env = "sample_call silent [Inr (content_chunk ''ab''), Inr (content_chunk []), Inr (content_chunk ''c'')]
      (Some note_delta)"
  let ?p = "event_pipe [] ([], 0 :: int)"
  let ?call = "call_streaming ?env sample_endpoint (chat_completion_request sample_endpoint []) None ?p"
  have "case ?call of (p', emitted, Inr v) \<Rightarrow> emitted \<and> \<not> cancel_signal p' \<and> \<not> interrupt_signal p' | _ \<Rightarrow> False"
    by code_simp
  then obtain p' emitted v where call: "?call = (p', emitted, Inr v)" and e: "emitted"
    and unset: "signal_error p' = None"
    by (auto simp: signal_error_def split: prod.splits sum.splits)
  have env: "on_delta ?env = Some note_delta" "keeps_notes ?env"
    by (simp_all add: sample_call_def keeps_notes_def silent_def)
  have "delivered ?p = []" by (simp add: delivered_def event_pipe_def)
  with streamed_deltas_are_the_answer[OF env call] e unset call show ?thesis by auto
qed

theorem call_is_reported_truthfully_witness:
  "\<exists>p' f. call_llm_api 2 (sample_call (recording silent) [] None) sample_endpoint [] (event_pipe [7] ([], 0 :: int))
     = Some (p', CallFailedWith f) \<and> reports 7 p' EvTimedOut LevelError [(''call_id'', ''call''), (''error_kind'', ''timeout'')]"
proof -
  let ?env = "sample_call (recording silent) [] None :: ((nat \<times> pipe_event) list \<times> int) call_environment"
  let ?call = "call_llm_api 2 ?env sample_endpoint [] (event_pipe [7] ([], 0 :: int))"
  have "case ?call of Some (p', CallFailedWith f) \<Rightarrow> \<not> dry_run p' \<and> sinks p' = [7] \<and> fst f = LLMCallTimeoutError
     | _ \<Rightarrow> False"
    by code_simp
  then obtain p' f where call: "?call = Some (p', CallFailedWith f)"
    and p': "\<not> dry_run p'" "sinks p' = [7]" and f: "fst f = LLMCallTimeoutError"
    by (auto split: option.splits prod.splits call_outcome.splits)
  have env: "call_pipe_environment ?env = recording silent" by (simp add: sample_call_def)
  have "told silent ?env sample_endpoint 7 p' (CallFailedWith f)"
    by (rule call_is_reported_truthfully[OF call env p']) simp
  then have "reports 7 p' EvTimedOut LevelError [(''call_id'', ''call''), (''error_kind'', ''timeout'')]"
    by (auto simp: told_def f observed_llm_failure_def llm_isinstance_def Let_def reports_def
        llm_event_data_def sample_call_def error_data_def error_kind_def)
  with call show ?thesis by blast
qed

end
