(* ===== verification/Roboz_Strings.thy ===== *)
theory Roboz_Strings
  imports Roboz_Base
begin

text \<open>
  Python's \<open>str.split\<close>, \<open>str.count\<close> and \<open>str.replace\<close> with a separator that is a string, and
  the translation of line ends that text files get when they are read.
\<close>

section \<open>Literal replacement\<close>

text \<open>The pieces between the occurrences of \<open>old\<close>, found from the left without overlap.\<close>

fun grow :: "'a \<Rightarrow> 'a list list \<Rightarrow> 'a list list" where
  "grow c [] = [[c]]"
| "grow c (p # ps) = (c # p) # ps"

function pieces :: "string \<Rightarrow> string \<Rightarrow> string list" where
  "pieces old s =
     (if old = [] then [s]
      else if prefix old s then [] # pieces old (drop (length old) s)
      else (case s of
              [] \<Rightarrow> [[]]
            | c # cs \<Rightarrow> grow c (pieces old cs)))"
  by pat_completeness auto
termination
proof (relation "measure (\<lambda>(old, s). length s)", goal_cases)
  case (2 old s)
  then show ?case by (cases s; cases old) auto
qed auto

declare pieces.simps [simp del]

text \<open>\<open>str.count\<close> and \<open>str.replace\<close> of a string that is not empty.\<close>

definition py_count :: "string \<Rightarrow> string \<Rightarrow> nat" where
  "py_count old s = length (pieces old s) - 1"

definition py_replace :: "string \<Rightarrow> string \<Rightarrow> string \<Rightarrow> string" where
  "py_replace old new s = join_with new (pieces old s)"

lemma grow_eq: "ps \<noteq> [] \<Longrightarrow> grow c ps = (c # hd ps) # tl ps"
  by (cases ps) simp_all

lemma grow_not_Nil [simp]: "grow c ps \<noteq> []"
  by (cases ps) simp_all

lemma pieces_not_Nil [simp]: "pieces old s \<noteq> []"
  by (subst pieces.simps) (simp split: list.split)

lemma join_with_Cons: "xs \<noteq> [] \<Longrightarrow> join_with sep (x # xs) = x @ sep @ join_with sep xs"
  by (cases xs) simp_all

lemma join_with_grow:
  "xs \<noteq> [] \<Longrightarrow> join_with sep ((c # hd xs) # tl xs) = c # join_with sep xs"
  by (cases xs; cases "tl xs") simp_all

lemma join_pieces: "join_with old (pieces old s) = s"
proof (induction old s rule: pieces.induct)
  case (1 old s)
  show ?case
  proof (cases "old = []")
    case True
    then show ?thesis by (simp add: pieces.simps)
  next
    case False
    show ?thesis
    proof (cases "prefix old s")
      case True
      then obtain t where t: "s = old @ t" by (auto simp: prefix_def)
      with 1(1) False True have "join_with old (pieces old t) = t" by simp
      with t False True show ?thesis
        by (subst pieces.simps) (simp add: join_with_Cons)
    next
      case prefix_free: False
      show ?thesis
      proof (cases s)
        case Nil
        with False prefix_free show ?thesis by (subst pieces.simps) simp
      next
        case (Cons c cs)
        with 1(2) False prefix_free have "join_with old (pieces old cs) = cs" by simp
        with Cons False prefix_free show ?thesis
          by (subst pieces.simps) (simp add: join_with_grow grow_eq)
      qed
    qed
  qed
qed

lemma hd_pieces_prefix: "prefix (hd (pieces old s)) s"
proof -
  have "prefix (hd xs) (join_with old xs)" if "xs \<noteq> []" for xs
    using that by (cases xs; cases "tl xs") simp_all
  from this[of "pieces old s"] show ?thesis by (simp add: join_pieces)
qed

text \<open>No piece holds an occurrence of \<open>old\<close>.\<close>

lemma pieces_free: "old \<noteq> [] \<Longrightarrow> p \<in> set (pieces old s) \<Longrightarrow> \<not> sublist old p"
proof (induction old s arbitrary: p rule: pieces.induct)
  case (1 old s)
  show ?case
  proof (cases "prefix old s")
    case True
    then have "pieces old s = [] # pieces old (drop (length old) s)"
      using 1(3) by (subst pieces.simps) simp
    with 1(1)[OF 1(3) True 1(3)] 1(3,4) show ?thesis by auto
  next
    case False
    show ?thesis
    proof (cases s)
      case Nil
      with 1(3) False have "pieces old s = [[]]" by (subst pieces.simps) simp
      with 1(3,4) show ?thesis by simp
    next
      case (Cons c cs)
      have split: "pieces old s = (c # hd (pieces old cs)) # tl (pieces old cs)"
        using 1(3) False Cons by (subst pieces.simps) (simp add: grow_eq)
      have IH: "q \<in> set (pieces old cs) \<Longrightarrow> \<not> sublist old q" for q
        using 1(2)[OF 1(3) False Cons] 1(3) by blast
      have "\<not> prefix old (c # hd (pieces old cs))"
      proof
        assume "prefix old (c # hd (pieces old cs))"
        moreover have "prefix (c # hd (pieces old cs)) s" using hd_pieces_prefix Cons by simp
        ultimately show False using False prefix_order.trans by blast
      qed
      then have "\<not> sublist old (c # hd (pieces old cs))"
        using IH[of "hd (pieces old cs)"] by (simp add: sublist_Cons_right)
      with 1(4) IH show ?thesis unfolding split by (auto dest: list.set_sel(2)[rotated])
    qed
  qed
qed

text \<open>\<open>replace\<close> puts \<open>new\<close> where \<open>old\<close> stood and keeps the rest.\<close>

definition replaces :: "string \<Rightarrow> string \<Rightarrow> nat \<Rightarrow> string \<Rightarrow> string \<Rightarrow> bool" where
  "replaces old new n text updated \<longleftrightarrow>
     (\<exists>ps. length ps = Suc n \<and> text = join_with old ps \<and> updated = join_with new ps \<and>
        (\<forall>p \<in> set ps. \<not> sublist old p))"

lemma py_replace_replaces: "old \<noteq> [] \<Longrightarrow> replaces old new (py_count old s) s (py_replace old new s)"
  unfolding replaces_def py_count_def py_replace_def
  by (rule exI[of _ "pieces old s"]) (auto simp: join_pieces pieces_free)

lemma count_zero_iff: "old \<noteq> [] \<Longrightarrow> py_count old s = 0 \<longleftrightarrow> \<not> sublist old s"
proof
  assume old: "old \<noteq> []" and "py_count old s = 0"
  then obtain p where "pieces old s = [p]"
    using pieces_not_Nil[of old s] by (cases "pieces old s") (simp_all add: py_count_def)
  with join_pieces[of old s] pieces_free[OF old, of p s] show "\<not> sublist old s" by simp
next
  assume "\<not> sublist old s"
  show "py_count old s = 0"
  proof (rule ccontr)
    assume "py_count old s \<noteq> 0"
    then obtain p q ps where "pieces old s = p # q # ps"
      unfolding py_count_def by (cases "pieces old s"; cases "tl (pieces old s)") auto
    with join_pieces[of old s] have "s = p @ old @ join_with old (q # ps)" by simp
    with \<open>\<not> sublist old s\<close> show False by (metis sublist_appendI)
  qed
qed

text \<open>The last piece, when \<open>old\<close> cannot overlap itself.\<close>

definition border_free :: "string \<Rightarrow> bool" where
  "border_free old \<longleftrightarrow> old \<noteq> [] \<and> list_all (\<lambda>n. take n old \<noteq> drop (length old - n) old) [1..<length old]"

lemma border_freeD: "border_free old \<Longrightarrow> 0 < n \<Longrightarrow> n < length old \<Longrightarrow> take n old \<noteq> drop (length old - n) old"
  by (auto simp: border_free_def list_all_iff)

lemma pieces_single: "old \<noteq> [] \<Longrightarrow> \<not> sublist old s \<Longrightarrow> pieces old s = [s]"
  using count_zero_iff[of old s] join_pieces[of old s]
  by (cases "pieces old s"; cases "tl (pieces old s)") (auto simp: py_count_def)

lemma last_pieces:
  assumes "border_free old" and "\<not> sublist old x"
  shows "last (pieces old (a @ old @ x)) = x"
proof (induction a rule: length_induct)
  case (1 a)
  have old: "old \<noteq> []" using assms(1) by (simp add: border_free_def)
  show ?case
  proof (cases "prefix old (a @ old @ x)")
    case True
    then have step: "pieces old (a @ old @ x) = [] # pieces old (drop (length old) (a @ old @ x))"
      using old by (subst pieces.simps) simp
    consider "a = []" | "0 < length a" "length a < length old" | "length old \<le> length a" by fastforce
    then show ?thesis
    proof cases
      case 1
      then show ?thesis using step pieces_single[OF old assms(2)] by simp
    next
      case 2
      let ?n = "length old - length a"
      from True have "old = take (length old) (a @ old @ x)" by (metis append_eq_conv_conj prefixE)
      then have "old = a @ take ?n old" using 2 by simp
      then have "drop (length a) old = take ?n old" by (metis append_eq_conv_conj)
      moreover have "length old - ?n = length a" "0 < ?n" "?n < length old" using 2 by linarith+
      ultimately show ?thesis using border_freeD[OF assms(1), of ?n] by simp
    next
      case 3
      then have "drop (length old) (a @ old @ x) = drop (length old) a @ old @ x" by simp
      moreover have "length (drop (length old) a) < length a" using 3 old by (cases a) auto
      ultimately show ?thesis using 1 step by simp
    qed
  next
    case False
    with old obtain c cs where a: "a = c # cs" by (cases a) auto
    have step: "pieces old (a @ old @ x) = (c # hd (pieces old (cs @ old @ x))) # tl (pieces old (cs @ old @ x))"
      using False old a by (subst pieces.simps) (simp add: grow_eq)
    have "sublist old (cs @ old @ x)" by (metis sublist_appendI)
    then have "py_count old (cs @ old @ x) \<noteq> 0" by (simp add: count_zero_iff[OF old])
    then have "tl (pieces old (cs @ old @ x)) \<noteq> []"
      by (cases "pieces old (cs @ old @ x)") (auto simp: py_count_def)
    then have "last (pieces old (a @ old @ x)) = last (pieces old (cs @ old @ x))"
      unfolding step by (simp add: last_tl)
    then show ?thesis using 1 a by simp
  qed
qed

section \<open>Line ends\<close>

text \<open>Universal newlines.\<close>

fun translate_from :: "bool \<Rightarrow> string \<Rightarrow> string" where
  "translate_from after_cr [] = []"
| "translate_from after_cr (c # cs) =
     (if c = CHR 0x0D then CHR 0x0A # translate_from True cs
      else if c = CHR 0x0A \<and> after_cr then translate_from False cs
      else c # translate_from False cs)"

definition translate_newlines :: "string \<Rightarrow> string" where
  "translate_newlines s = translate_from False s"

end
