(* ===== verification/Roboz_Patch.thy ===== *)
theory Roboz_Patch
  imports Roboz_Execute Roboz_Strings
begin

text \<open>
  The patch tool (\<open>shed/tools/apply_patch.py\<close>): preparation of the permissions, the guard, and
  the literal replacement in one file. A text file is decoded from UTF-8 and its line ends are
  translated, as \<open>Path.read_text\<close> does; it is written without translation, as on Linux. The
  operating system is the record \<open>patch_host\<close> over a world of any type; the errors of its
  operations are their texts, and a file that is not UTF-8 raises.
\<close>

section \<open>The edit\<close>

record 'w patch_host =
  patch_tree :: "'w \<Rightarrow> node"
  read_bytes :: "path \<Rightarrow> 'w \<Rightarrow> 'w \<times> (string + bytes)"
  write_bytes :: "path \<Rightarrow> bytes \<Rightarrow> 'w \<Rightarrow> 'w \<times> (string + unit)"
  make_parents :: "path \<Rightarrow> 'w \<Rightarrow> 'w \<times> (string + unit)"
  utf8_decode :: "bytes \<Rightarrow> string option"
  utf8_encode :: "string \<Rightarrow> bytes"
  patch_error_text :: "cli_error \<Rightarrow> string"

record apply_patch =
  ap_path :: string
  ap_old_string :: string
  ap_new_string :: string
  ap_replace_all :: bool

text \<open>What \<open>read_text\<close> raises: an \<open>OSError\<close> that is caught, or a decoding error that is not.\<close>

datatype read_error = ReadFailed string | NotText

definition read_text :: "'w patch_host \<Rightarrow> path \<Rightarrow> 'w \<Rightarrow> 'w \<times> (read_error + string)" where
  "read_text h file w =
     (case read_bytes h file w of
        (w1, Inl e) \<Rightarrow> (w1, Inl (ReadFailed e))
      | (w1, Inr bs) \<Rightarrow>
          (case utf8_decode h bs of
             None \<Rightarrow> (w1, Inl NotText)
           | Some s \<Rightarrow> (w1, Inr (translate_newlines s))))"

definition write_text :: "'w patch_host \<Rightarrow> path \<Rightarrow> string \<Rightarrow> 'w \<Rightarrow> 'w \<times> (string + unit)" where
  "write_text h file s w = write_bytes h file (utf8_encode h s) w"

definition rewrite_file :: "'w patch_host \<Rightarrow> path \<Rightarrow> string \<Rightarrow> 'w \<Rightarrow> 'w \<times> bool \<times> string" where
  "rewrite_file h file new w =
     (case make_parents h file w of
        (w1, Inl e) \<Rightarrow> (w1, False, ''apply_patch: could not write file: '' @ e)
      | (w1, Inr _) \<Rightarrow>
          (case write_text h file new w1 of
             (w2, Inl e) \<Rightarrow> (w2, False, ''apply_patch: could not write file: '' @ e)
           | (w2, Inr _) \<Rightarrow> (w2, True, ''[success] via full-file rewrite.'')))"

text \<open>\<open>_perform_replace\<close>; a decoding error leaves it.\<close>

definition perform_replace ::
  "'w patch_host \<Rightarrow> path \<Rightarrow> string \<Rightarrow> string \<Rightarrow> bool \<Rightarrow> 'w \<Rightarrow> 'w \<times> (io_error + bool \<times> string)" where
  "perform_replace h file old new all w =
     (if old = [] then (case rewrite_file h file new w of (w1, r) \<Rightarrow> (w1, Inr r))
      else
        (case read_text h file w of
           (w1, Inl (ReadFailed e)) \<Rightarrow> (w1, Inr (False, ''apply_patch: could not read file: '' @ e))
         | (w1, Inl NotText) \<Rightarrow> (w1, Inl (ValueError ''UnicodeDecodeError''))
         | (w1, Inr text) \<Rightarrow>
             (let n = py_count old text
              in if n = 0 then (w1, Inr (False, ''apply_patch: old_string not found''))
                 else if \<not> all \<and> 1 < n
                   then (w1, Inr (False,
                     ''apply_patch: old_string matched '' @ show_int (int n) @
                     '' times; use replace_all=true to replace all, or include more context so the match is unique''))
                 else (case write_text h file (py_replace old new text) w1 of
                         (w2, Inl e) \<Rightarrow> (w2, Inr (False, ''apply_patch: could not write file: '' @ e))
                       | (w2, Inr _) \<Rightarrow>
                           (w2, Inr (True, ''[success] Replaced '' @ show_int (int n) @ '' occurrence(s).''))))))"

section \<open>The guarded chain\<close>

datatype patch_output =
    PatchParseError string
  | PatchDenied "(apply_patch, apply_patch) guard_files_result"
  | PatchReport string

definition prepare_patch ::
  "'w patch_host \<Rightarrow> path \<Rightarrow> apply_patch \<Rightarrow> 'w
    \<Rightarrow> cli_error + (apply_patch, apply_patch) resolved_file_command" where
  "prepare_patch h base inp w =
     rbind (resolve_single_file_path (patch_tree h w) (ap_path inp) base) (\<lambda>_.
       rbind (write_operations (patch_tree h w) (ap_path inp) base False False True) (\<lambda>ops.
         Inr \<lparr>rfc_original_input = inp,
           rfc_items = map (\<lambda>(op, location).
             \<lparr>item_operation = op, item_location = location, item_value = inp\<rparr>) ops\<rparr>))"

definition with_guard_message :: "string option \<Rightarrow> string \<Rightarrow> string" where
  "with_guard_message message body =
     (case message of None \<Rightarrow> body | Some m \<Rightarrow> if m = [] then body else m @ newline @ body)"

definition execute_patch ::
  "'w patch_host \<Rightarrow> (apply_patch, apply_patch) guard_files_result \<Rightarrow> 'w
    \<Rightarrow> 'w \<times> (io_error + patch_output)" where
  "execute_patch h inp w =
     (if gr_status inp \<noteq> ALLOWED
      then (w, Inr (PatchReport (py_strip (framed_cli_output ''apply_patch string-replace''
              (case gr_message inp of
                 None \<Rightarrow> ''apply_patch: unexpected guard status denied''
               | Some m \<Rightarrow> if m = [] then ''apply_patch: unexpected guard status denied'' else m)))))
      else
        (case gr_items inp of
           [] \<Rightarrow> (w, Inl (OtherError ''IndexError''))
         | item # items \<Rightarrow>
             (let payload = res_value item
              in case perform_replace h (res_location item) (ap_old_string payload)
                     (ap_new_string payload) (ap_replace_all payload) w of
                   (w1, Inl e) \<Rightarrow> (w1, Inl e)
                 | (w1, Inr (ok, out)) \<Rightarrow>
                     (w1, Inr (PatchReport (py_strip (framed_cli_output
                        (''apply_patch string-replace '' @ ap_path payload)
                        (with_guard_message (gr_message inp) out))))))))"

text \<open>Resolve, guard, execute: a denial ends the chain.\<close>

definition run_apply_patch ::
  "'w patch_host \<Rightarrow> 'w terminal \<Rightarrow> 'w interaction \<Rightarrow> 'w guard_context \<Rightarrow> path \<Rightarrow> apply_patch \<Rightarrow> 'w
    \<Rightarrow> 'w \<times> (io_error + patch_output)" where
  "run_apply_patch h tm c ctx base inp w =
     (case prepare_patch h base inp w of
        Inl e \<Rightarrow> (w, Inr (PatchParseError (patch_error_text h e)))
      | Inr resolved \<Rightarrow>
          guarded_step
            (guard_items tm c (rfc_items resolved) (rfc_original_input resolved) ctx)
            is_allowed (execute_patch h) (\<lambda>denial w1. (w1, Inr (PatchDenied denial))) w)"

section \<open>Properties\<close>

lemma perform_replace_result:
  assumes "old \<noteq> []" and "perform_replace h file old new all w = (w', r)"
    and "read_text h file w = (w1, Inr text)" and "n = py_count old text"
  shows "if n = 0 \<or> (\<not> all \<and> 1 < n) then w' = w1 \<and> (\<exists>m. r = Inr (False, m))
    else (\<exists>q. write_text h file (py_replace old new text) w1 = (w', q) \<and>
      (\<exists>m. r = Inr (q = Inr (), m)))"
  using assms
  by (auto simp: perform_replace_def Let_def split: if_splits prod.splits sum.splits)

text \<open>
  C22. An edit is exact. The file is rewritten only after it was read as text; then it is written
  once, with \<open>old\<close> replaced by \<open>new\<close> wherever it stood, found from the left without overlap, and
  everything between kept; unless all occurrences were asked for there is exactly one. The tool
  reports success exactly when this write succeeded, and otherwise has written nothing else.
\<close>

theorem patch_edits_exactly:
  assumes "old \<noteq> []" and "perform_replace h file old new all w = (w', r)"
  shows "(w' = fst (read_text h file w) \<and> (\<nexists>m. r = Inr (True, m))) \<or>
    (\<exists>w1 text updated n q m. read_text h file w = (w1, Inr text) \<and>
       replaces old new n text updated \<and> 0 < n \<and> (\<not> all \<longrightarrow> n = 1) \<and>
       write_text h file updated w1 = (w', q) \<and> r = Inr (q = Inr (), m))"
proof (cases "\<exists>w1 text. read_text h file w = (w1, Inr text)")
  case False
  with assms show ?thesis
    by (auto simp: perform_replace_def split: prod.splits sum.splits read_error.splits)
next
  case True
  then obtain w1 body where read: "read_text h file w = (w1, Inr body)" by blast
  let ?n = "py_count old body"
  note result = perform_replace_result[OF assms read refl]
  show ?thesis
  proof (cases "?n = 0 \<or> (\<not> all \<and> 1 < ?n)")
    case True
    with result read show ?thesis by auto
  next
    case False
    with result obtain q m where
      "write_text h file (py_replace old new body) w1 = (w', q)" "r = Inr (q = Inr (), m)" by auto
    moreover from False have "0 < ?n" "\<not> all \<longrightarrow> ?n = 1" by auto
    ultimately show ?thesis using read py_replace_replaces[OF assms(1), of new body] by blast
  qed
qed

lemma prepare_patch_items:
  assumes "prepare_patch h base inp w = Inr resolved"
  obtains ops where
    "write_operations (patch_tree h w) (ap_path inp) base False False True = Inr ops"
    "rfc_items resolved = map (\<lambda>(op, location).
       \<lparr>item_operation = op, item_location = location, item_value = inp\<rparr>) ops"
    "rfc_original_input resolved = inp"
  using assms by (auto simp: prepare_patch_def result_simps)

text \<open>
  A patch is guarded: all its requirements name one location, CREATE is among them, and READ
  and DELETE as well when there is an entry at the path. Unless the policy permits them all and the
  user approved what must be asked, the call is the same whatever the file operations would do:
  none of them is called.
\<close>

theorem unapproved_patch_is_not_applied:
  assumes "prepare_patch h base inp w = Inr resolved"
  shows "\<exists>location present.
    {(item_operation i, item_location i) | i. i \<in> set (rfc_items resolved)} =
      {(CREATE, location)} \<union> (if present then {(READ, location), (DELETE, location)} else {}) \<and>
    (\<exists>entry. inspect_file_path (patch_tree h w) (ap_path inp) base = Inr (location, entry) \<and>
       present = (entry \<noteq> None)) \<and>
    (\<not> (policy_permits ctx (rfc_items resolved) w \<and>
        (\<exists>w1. asked_and_approved tm c ctx (rfc_items resolved) w w1)) \<longrightarrow>
      run_apply_patch (h\<lparr>read_bytes := rd, write_bytes := wr, make_parents := mk\<rparr>) tm c ctx base inp w =
      run_apply_patch h tm c ctx base inp w)"
proof -
  let ?h = "h\<lparr>read_bytes := rd, write_bytes := wr, make_parents := mk\<rparr>"
  let ?q = "(rfc_original_input resolved, rfc_items resolved)"
  let ?allowed = "policy_permits ctx (rfc_items resolved) w \<and>
    (\<exists>w1. asked_and_approved tm c ctx (rfc_items resolved) w w1)"
  from assms obtain ops where
    ops: "write_operations (patch_tree h w) (ap_path inp) base False False True = Inr ops"
    and items: "rfc_items resolved = map (\<lambda>(op, location).
       \<lparr>item_operation = op, item_location = location, item_value = inp\<rparr>) ops"
    by (rule prepare_patch_items)
  obtain location entry where
    inspect: "inspect_file_path (patch_tree h w) (ap_path inp) base = Inr (location, entry)"
    using ops by (cases "inspect_file_path (patch_tree h w) (ap_path inp) base")
      (auto simp: write_operations_def)
  then have set: "set ops = {(CREATE, location)} \<union>
      (if entry \<noteq> None then {(READ, location), (DELETE, location)} else {})"
    using ops by (cases entry) (auto simp: write_operations_def split: if_splits)
  have "{(item_operation i, item_location i) | i. i \<in> set (rfc_items resolved)} = set ops"
    unfolding items by (force simp: image_iff)
  moreover have "run_apply_patch ?h tm c ctx base inp w = run_apply_patch h tm c ctx base inp w"
    if "\<not> ?allowed"
  proof -
    have prepared: "prepare_patch ?h base inp w = Inr resolved"
      using assms by (simp add: prepare_patch_def)
    from that have "\<not> policy_permits ctx (snd ?q) w \<or>
        (\<nexists>w1. asked_and_approved tm c ctx (snd ?q) w w1)" by auto
    then show ?thesis
      using guard.effect_needs_permission[of ctx ?q w tm c "execute_patch ?h"
          "\<lambda>denial w1. (w1, Inr (PatchDenied denial))" "execute_patch h"]
        guard.effect_needs_approval[of tm c ctx ?q w "execute_patch ?h"
          "\<lambda>denial w1. (w1, Inr (PatchDenied denial))" "execute_patch h"]
      by (auto simp: run_apply_patch_def assms prepared)
  qed
  ultimately show ?thesis using inspect set by (intro exI[of _ location] exI[of _ "entry \<noteq> None"]) auto
qed

section \<open>Examples\<close>

text \<open>A host whose world is one file, and one whose file operations are never called.\<close>

definition one_file :: "bytes patch_host" where
  "one_file =
     \<lparr>patch_tree = (\<lambda>w. example_tree), read_bytes = (\<lambda>file w. (w, Inr w)),
      write_bytes = (\<lambda>file bs w. (bs, Inr ())), make_parents = (\<lambda>file w. (w, Inr ())),
      utf8_decode = (\<lambda>bs. Some (map char_of bs)), utf8_encode = map of_char,
      patch_error_text = (\<lambda>e. ''error'')\<rparr>"

theorem patch_edits_exactly_witness:
  "\<exists>updated m. perform_replace one_file [''a''] ''cat'' ''dog'' False (map of_char ''a cat sat'') =
       (updated, Inr (True, m)) \<and> updated = map of_char ''a dog sat'' \<and>
     replaces ''cat'' ''dog'' 1 ''a cat sat'' ''a dog sat''"
proof -
  let ?w = "map of_char ''a cat sat'' :: bytes"
  let ?run = "perform_replace one_file [''a''] ''cat'' ''dog'' False ?w"
  have "fst ?run = map of_char ''a dog sat''" by code_simp
  moreover have "case snd ?run of Inr (ok, m) \<Rightarrow> ok | Inl e \<Rightarrow> False" by code_simp
  ultimately obtain m where run: "?run = (map of_char ''a dog sat'', Inr (True, m))"
    by (cases ?run) (auto split: sum.splits)
  have read: "read_text one_file [''a''] ?w = (?w, Inr ''a cat sat'')" by code_simp
  have inj: "updated = v" if "map of_char updated = (map of_char v :: bytes)" for updated v
    using that by (simp add: inj_map_eq_map inj_def)
  have "(''cat'' :: string) \<noteq> []" by simp
  from patch_edits_exactly[OF this run] obtain updated where
    "replaces ''cat'' ''dog'' 1 ''a cat sat'' updated"
    "write_text one_file [''a''] updated ?w = (map of_char ''a dog sat'', Inr ())"
    unfolding read by auto
  then have "replaces ''cat'' ''dog'' 1 ''a cat sat'' ''a dog sat''"
    using inj[of updated "''a dog sat''"] by (simp add: write_text_def one_file_def)
  with run show ?thesis by blast
qed

definition untouched :: "(string list \<times> string list) patch_host" where
  "untouched =
     \<lparr>patch_tree = (\<lambda>w. example_tree), read_bytes = (\<lambda>file w. (w, Inl ''unreadable'')),
      write_bytes = (\<lambda>file bs w. (w, Inl ''unwritable'')), make_parents = (\<lambda>file w. (w, Inr ())),
      utf8_decode = (\<lambda>bs. None), utf8_encode = map of_char, patch_error_text = (\<lambda>e. ''error'')\<rparr>"

definition sample_patch :: apply_patch where
  "sample_patch = \<lparr>ap_path = ''/a/x.py'', ap_old_string = ''x'', ap_new_string = ''y'', ap_replace_all = True\<rparr>"

theorem unapproved_patch_is_not_applied_witness:
  "run_apply_patch (untouched\<lparr>read_bytes := \<lambda>file w. (w, Inr []), write_bytes := \<lambda>file bs w. (([], []), Inr ()),
       make_parents := \<lambda>file w. (([], []), Inr ())\<rparr>)
     scripted on_terminal example_rules [] sample_patch ([], []) =
   run_apply_patch untouched scripted on_terminal example_rules [] sample_patch ([], [])"
proof -
  let ?prepared = "prepare_patch untouched [] sample_patch ([], [])"
  have "case ?prepared of Inl e \<Rightarrow> False
    | Inr r \<Rightarrow> \<not> policy_permits example_rules (rfc_items r) ([] :: string list, [] :: string list)"
    by code_simp
  then obtain r where r: "?prepared = Inr r"
    "\<not> policy_permits example_rules (rfc_items r) ([] :: string list, [] :: string list)"
    by (auto split: sum.splits)
  from unapproved_patch_is_not_applied[OF r(1), where tm = scripted and c = on_terminal and ctx = example_rules
      and rd = "\<lambda>file w. (w, Inr [])" and wr = "\<lambda>file bs w. (([], []), Inr ())"
      and mk = "\<lambda>file w. (([], []), Inr ())"] r(2)
  show ?thesis by blast
qed

text \<open>
  An edit rewrites the line ends of the whole file: of a file with CRLF line ends one letter is
  replaced, and every CRLF becomes LF.
\<close>

lemma edit_rewrites_line_ends:
  "fst (perform_replace one_file [''a''] ''b'' ''c'' False
     [97, 13, 10, 98, 13, 10]) = [97, 10, 99, 10]"
  by code_simp

end
