(* ===== verification/Roboz_Roundtrip.thy ===== *)
theory Roboz_Roundtrip
  imports Roboz_Json
begin

text \<open>
  Reading back what \<open>json.dumps\<close> wrote: the parser returns the printed value and leaves what
  follows it, with either setting of \<open>ensure_ascii\<close>. A number with a fraction or an exponent is the
  text \<open>float.__repr__\<close> gives it, which the parser reads as one number; \<open>NaN\<close> and the infinities are
  left out, and the keys of an object have to be distinct, as those of a dictionary are.
\<close>

section \<open>Strings\<close>

lemma hex_value_digit: "n < 16 \<Longrightarrow> hex_value (hex_digit n) = Some n"
proof -
  have "\<forall>n \<in> set [0..<16]. hex_value (hex_digit n) = Some n" by code_simp
  then show "n < 16 \<Longrightarrow> ?thesis" by simp
qed

lemma char_below: "(of_char c :: nat) < 256"
  by (rule nat_of_char_less_256)

lemma parse_u_escape:
  assumes "n < 256"
  shows "parse_string (u_escape n @ s) = map_option (apfst (Cons (char_of n))) (parse_string s)"
proof -
  have "n div 16 < 16" "n mod 16 < 16" using assms by auto
  moreover have "hex_value (CHR ''0'') = Some 0" by code_simp
  ultimately show ?thesis by (simp add: u_escape_def hex_value_digit)
qed

lemma parse_escape:
  assumes "simple_escape e = Some c" and "e \<noteq> CHR ''u''"
  shows "parse_string (char_of (92 :: nat) # e # s) = map_option (apfst (Cons c)) (parse_string s)"
  using assms by simp

lemma parse_json_char:
  "parse_string (json_char ea c @ s) = map_option (apfst (Cons c)) (parse_string s)"
proof -
  define n where "n = (of_char c :: nat)"
  have c: "c = char_of n" by (simp add: n_def)
  have small: "n < 256" using char_below by (simp add: n_def)
  have plain: "parse_string (c # s) = map_option (apfst (Cons c)) (parse_string s)"
    if "n \<noteq> 34" "n \<noteq> 92" "\<not> n < 32"
    using that by (simp add: n_def)
  have escapes: "simple_escape (char_of (34 :: nat)) = Some (char_of (34 :: nat))"
    "simple_escape (char_of (92 :: nat)) = Some (char_of (92 :: nat))"
    "simple_escape (CHR ''n'') = Some (char_of (10 :: nat))"
    "simple_escape (CHR ''r'') = Some (char_of (13 :: nat))"
    "simple_escape (CHR ''t'') = Some (char_of (9 :: nat))"
    "simple_escape (CHR ''b'') = Some (char_of (8 :: nat))"
    "simple_escape (CHR ''f'') = Some (char_of (12 :: nat))"
    by code_simp+
  have other: "char_of (34 :: nat) \<noteq> CHR ''u''" "char_of (92 :: nat) \<noteq> CHR ''u''" by code_simp+
  show ?thesis
    unfolding json_char_def Let_def n_def[symmetric]
    using parse_u_escape[OF small] plain escapes other
    by (auto simp: c parse_escape simp del: parse_string.simps)
qed

lemma parse_string_quoted:
  "parse_string (concat (map (json_char ea) s) @ char_of (34 :: nat) # rest) = Some (s, rest)"
  by (induction s) (simp_all add: parse_json_char del: parse_string.simps(2) add: parse_string.simps(2)[of "char_of (34 :: nat)"])

section \<open>Numbers\<close>

lemma digit_char: "n < 10 \<Longrightarrow> is_digit (char_of (48 + n :: nat)) \<and> of_char (char_of (48 + n :: nat)) = (48 + n :: nat)"
  by (simp add: is_digit_def)

lemma digits_of_digits: "\<forall>c \<in> set (digits_of n). is_digit c"
proof (induction n rule: digits_of.induct)
  case (1 n)
  then show ?case using digit_char[of n] digit_char[of "n mod 10"]
    by (subst digits_of.simps) auto
qed

lemma digits_of_not_Nil [simp]: "digits_of n \<noteq> []"
  by (subst digits_of.simps) simp

lemma parse_nat_snoc: "parse_nat (s @ [c]) = 10 * parse_nat s + (of_char c - 48)"
  by (simp add: parse_nat_def)

lemma parse_nat_digits: "parse_nat (digits_of n) = n"
proof (induction n rule: digits_of.induct)
  case (1 n)
  show ?case
  proof (cases "n < 10")
    case True
    then show ?thesis using digit_char[of n] by (subst digits_of.simps) (simp add: parse_nat_def)
  next
    case False
    then show ?thesis using digit_char[of "n mod 10"] 1[OF False]
      by (subst digits_of.simps) (simp add: parse_nat_snoc)
  qed
qed

lemma digits_of_zero: "hd (digits_of n) = CHR ''0'' \<Longrightarrow> n = 0"
proof (induction n rule: digits_of.induct)
  case (1 n)
  show ?case
  proof (cases "n < 10")
    case True
    with 1(2) have "char_of (48 + n :: nat) = CHR ''0''" by (subst (asm) digits_of.simps) simp
    then have "of_char (char_of (48 + n :: nat)) = (of_char (CHR ''0'') :: nat)" by (rule arg_cong)
    then show ?thesis using True by simp
  next
    case False
    with 1(2) have "hd (digits_of (n div 10)) = CHR ''0''" by (subst (asm) digits_of.simps) simp
    from 1(1)[OF False this] False show ?thesis by simp
  qed
qed

text \<open>What may follow a number so that it ends there.\<close>

definition ends_number :: "string \<Rightarrow> bool" where
  "ends_number rest \<longleftrightarrow>
     (\<forall>c r. rest = c # r \<longrightarrow> \<not> is_digit c \<and> c \<noteq> CHR ''.'' \<and> c \<noteq> CHR ''e'' \<and> c \<noteq> CHR ''E'')"

lemma takeWhile_digits:
  "ends_number rest \<Longrightarrow> takeWhile is_digit (digits_of n @ rest) = digits_of n"
  using digits_of_digits[of n] by (cases rest) (auto simp: ends_number_def takeWhile_append2)

lemma parse_number_show:
  assumes "ends_number rest"
  shows "parse_number (show_int i @ rest) = Some (JInt i, rest)"
proof -
  define n where "n = nat \<bar>i\<bar>"
  have show_i: "show_int i = (if i < 0 then ''-'' else []) @ digits_of n"
    by (simp add: show_int_def n_def)
  obtain d ds where d: "digits_of n = d # ds" using digits_of_not_Nil by (cases "digits_of n") auto
  have "is_digit d" using digits_of_digits[of n] by (simp add: d)
  then have not_minus: "d \<noteq> CHR ''-''" by (auto simp: is_digit_def)
  have zero: "ds = []" if "d = CHR ''0''"
  proof -
    have "n = 0" using digits_of_zero[of n] that by (simp add: d)
    then show ?thesis using d by (subst (asm) digits_of.simps) simp
  qed
  have neg: "(show_int i @ rest \<noteq> [] \<and> hd (show_int i @ rest) = CHR ''-'') = (i < 0)"
    using not_minus by (simp add: show_i d)
  have tail: "(if i < 0 then tl (show_int i @ rest) else show_int i @ rest) = digits_of n @ rest"
    by (simp add: show_i)
  have digits: "(if digits_of n @ rest \<noteq> [] \<and> hd (digits_of n @ rest) = CHR ''0'' then ''0''
      else takeWhile is_digit (digits_of n @ rest)) = digits_of n"
    using takeWhile_digits[OF assms, of n] zero by (auto simp: d)
  have left: "drop (length (digits_of n)) (digits_of n @ rest) = rest" by simp
  have frac: "(case rest of [] \<Rightarrow> [] | [c] \<Rightarrow> [] | c # d # r \<Rightarrow>
      if c = CHR ''.'' \<and> is_digit d then c # takeWhile is_digit (d # r) else []) = []"
    and sign: "(case rest of [] \<Rightarrow> [] | [c] \<Rightarrow> [] | c # d # r \<Rightarrow>
        if (c = CHR ''e'' \<or> c = CHR ''E'') \<and> (d = CHR ''+'' \<or> d = CHR ''-'') then [c, d]
        else if c = CHR ''e'' \<or> c = CHR ''E'' then [c] else []) = []"
    using assms by (auto simp: ends_number_def split: list.split)
  show ?thesis
    unfolding parse_number_def Let_def neg tail digits left frac list.size(3) drop_0 sign
    using digits_of_not_Nil by (simp add: parse_nat_digits n_def)
qed

text \<open>The text of a finite \<open>float\<close>: the parser takes all of it, and keeps it.\<close>

definition float_text :: "string \<Rightarrow> bool" where
  "float_text s \<longleftrightarrow> parse_number s = Some (JFloat s, [])"

lemma takeWhile_ends: "ends_number rest \<Longrightarrow> takeWhile is_digit (s @ rest) = takeWhile is_digit s"
  by (induction s) (cases rest; auto simp: ends_number_def)+

definition fraction_of :: "string \<Rightarrow> string" where
  "fraction_of s = (case s of c # d # r \<Rightarrow>
     if c = CHR ''.'' \<and> is_digit d then c # takeWhile is_digit (d # r) else [] | _ \<Rightarrow> [])"

definition exponent_sign :: "string \<Rightarrow> string" where
  "exponent_sign s = (case s of c # d # r \<Rightarrow>
     if (c = CHR ''e'' \<or> c = CHR ''E'') \<and> (d = CHR ''+'' \<or> d = CHR ''-'') then [c, d]
     else if c = CHR ''e'' \<or> c = CHR ''E'' then [c] else [] | _ \<Rightarrow> [])"

lemma fraction_append:
  assumes "ends_number rest"
  shows "fraction_of (s @ rest) = fraction_of s" "length (fraction_of s) \<le> length s"
proof -
  show "length (fraction_of s) \<le> length s"
    by (auto simp: fraction_of_def length_takeWhile_le split: list.splits)
  show "fraction_of (s @ rest) = fraction_of s"
  proof (cases s)
    case Nil
    with assms show ?thesis by (auto simp: fraction_of_def ends_number_def split: list.splits)
  next
    case (Cons c r)
    with assms takeWhile_ends[OF assms, of "tl r"] show ?thesis
      by (cases r; cases rest) (auto simp: fraction_of_def ends_number_def)
  qed
qed

lemma exponent_append: "s \<noteq> [] \<Longrightarrow> tl s \<noteq> [] \<Longrightarrow> exponent_sign (s @ rest) = exponent_sign s"
  by (cases s; cases "tl s") (auto simp: exponent_sign_def)

lemma exponent_ends: "ends_number rest \<Longrightarrow> exponent_sign rest = []"
  by (auto simp: exponent_sign_def ends_number_def split: list.splits)

lemma exponent_long: "exponent_sign s \<noteq> [] \<Longrightarrow> s \<noteq> [] \<and> tl s \<noteq> [] \<and> length (exponent_sign s) \<le> length s"
  by (auto simp: exponent_sign_def split: list.splits)

text \<open>The exponent the parser takes from what follows the fraction.\<close>

definition exponent_of :: "string \<Rightarrow> string" where
  "exponent_of s = (let sign = exponent_sign s; eds = takeWhile is_digit (drop (length sign) s)
     in if sign = [] \<or> eds = [] then [] else sign @ eds)"

lemma exponent_short: "length (exponent_of s) \<le> length s"
proof -
  let ?sign = "exponent_sign s"
  have "length (takeWhile is_digit (drop (length ?sign) s)) \<le> length (drop (length ?sign) s)"
    by (rule length_takeWhile_le)
  with exponent_long[of s] show ?thesis by (auto simp: exponent_of_def Let_def)
qed

lemma exponent_of_append:
  assumes "ends_number rest" and "drop (length (exponent_of s)) s = []"
  shows "exponent_of (s @ rest) = exponent_of s"
proof (cases "s = []")
  case True
  moreover have "exponent_sign [] = []" by (simp add: exponent_sign_def)
  ultimately show ?thesis using exponent_ends[OF assms(1)] by (simp add: exponent_of_def Let_def)
next
  case False
  with assms(2) have "exponent_of s \<noteq> []" by auto
  then have "exponent_sign s \<noteq> []" by (auto simp: exponent_of_def Let_def)
  with exponent_long[OF this] show ?thesis
    by (simp add: exponent_of_def Let_def exponent_append takeWhile_ends[OF assms(1)])
qed

definition number_parts :: "string \<Rightarrow> (string \<times> string \<times> string) \<times> string" where
  "number_parts s1 =
     (let ds = (if s1 \<noteq> [] \<and> hd s1 = CHR ''0'' then ''0'' else takeWhile is_digit s1);
          frac = fraction_of (drop (length ds) s1);
          s3 = drop (length frac) (drop (length ds) s1)
      in ((ds, frac, exponent_of s3), drop (length (exponent_of s3)) s3))"

lemma parse_number_parts:
  "parse_number s =
     (let neg = (s \<noteq> [] \<and> hd s = CHR ''-'')
      in case number_parts (if neg then tl s else s) of ((ds, frac, expo), rest) \<Rightarrow>
        if ds = [] then None
        else if frac = [] \<and> expo = []
          then Some (JInt (if neg then - int (parse_nat ds) else int (parse_nat ds)), rest)
        else Some (JFloat ((if neg then ''-'' else []) @ ds @ frac @ expo), rest))"
  unfolding parse_number_def number_parts_def fraction_of_def exponent_sign_def exponent_of_def Let_def prod.case ..

lemma number_parts_append:
  assumes "ends_number rest" and "number_parts s = ((ds, frac, expo), [])" and "ds \<noteq> []"
  shows "number_parts (s @ rest) = ((ds, frac, expo), rest)"
proof -
  let ?ds = "\<lambda>s. if s \<noteq> [] \<and> hd s = CHR ''0'' then ''0'' else takeWhile is_digit s"
  have ds: "ds = ?ds s" using assms(2) unfolding number_parts_def Let_def by blast
  with assms(3) have "s \<noteq> []" by auto
  with takeWhile_ends[OF assms(1), of s] ds have ds': "?ds (s @ rest) = ds" by simp
  define s2 where "s2 = drop (length ds) s"
  have "length ds \<le> length s" using \<open>s \<noteq> []\<close> by (cases s) (auto simp: ds length_takeWhile_le)
  then have s2: "drop (length ds) (s @ rest) = s2 @ rest" by (simp add: s2_def)
  have frac: "frac = fraction_of s2" using assms(2) ds unfolding number_parts_def Let_def s2_def by auto
  define s3 where "s3 = drop (length frac) s2"
  have s3: "drop (length frac) (s2 @ rest) = s3 @ rest"
    using fraction_append(2)[OF assms(1), of s2] by (simp add: s3_def frac)
  have expo: "expo = exponent_of s3" "drop (length expo) s3 = []"
    using assms(2) ds frac unfolding number_parts_def Let_def s3_def s2_def by auto
  have "exponent_of (s3 @ rest) = expo" using exponent_of_append[OF assms(1), of s3] expo by simp
  moreover have "drop (length expo) (s3 @ rest) = rest"
    using expo exponent_short[of s3] by simp
  moreover have "fraction_of (s2 @ rest) = frac" using fraction_append(1)[OF assms(1), of s2] frac by simp
  ultimately show ?thesis
    unfolding number_parts_def Let_def ds' s2 by (simp only: s3)
qed

lemma parse_float_text:
  assumes "float_text s" and "ends_number rest"
  shows "parse_number (s @ rest) = Some (JFloat s, rest)"
proof -
  define neg where "neg = (s \<noteq> [] \<and> hd s = CHR ''-'')"
  obtain ds frac expo r where parts: "number_parts (if neg then tl s else s) = ((ds, frac, expo), r)"
    by (metis prod.exhaust)
  have read: "parse_number s = Some (JFloat s, [])" using assms(1) by (simp add: float_text_def)
  then have ds: "ds \<noteq> []" "\<not> (frac = [] \<and> expo = [])" "r = []" "(if neg then ''-'' else []) @ ds @ frac @ expo = s"
    using parts unfolding parse_number_parts Let_def neg_def[symmetric] by (auto split: if_splits)
  then have "s \<noteq> []" by auto
  then have more: "(s @ rest \<noteq> [] \<and> hd (s @ rest) = CHR ''-'') = neg"
    "(if neg then tl (s @ rest) else s @ rest) = (if neg then tl s else s) @ rest"
    by (simp_all add: neg_def)
  have "number_parts ((if neg then tl s else s) @ rest) = ((ds, frac, expo), rest)"
    using number_parts_append[OF assms(2)] parts ds(1,3) by simp
  with ds show ?thesis
    unfolding parse_number_parts[of "s @ rest"] Let_def more by simp
qed

lemma float_text_head:
  assumes "float_text s"
  shows "s \<noteq> []" "hd s = CHR ''-'' \<or> is_digit (hd s)" "\<not> prefix ''-Infinity'' (s @ rest)"
proof -
  define neg where "neg = (s \<noteq> [] \<and> hd s = CHR ''-'')"
  obtain ds frac expo r where parts: "number_parts (if neg then tl s else s) = ((ds, frac, expo), r)"
    by (metis prod.exhaust)
  have read: "parse_number s = Some (JFloat s, [])" using assms(1) by (simp add: float_text_def)
  then have ds: "ds \<noteq> []" "(if neg then ''-'' else []) @ ds @ frac @ expo = s"
    using parts unfolding parse_number_parts Let_def neg_def[symmetric] by (auto split: if_splits)
  let ?s = "if neg then tl s else s"
  have "ds = (if ?s \<noteq> [] \<and> hd ?s = CHR ''0'' then ''0'' else takeWhile is_digit ?s)"
    using parts unfolding number_parts_def Let_def by blast
  then have "\<forall>c \<in> set ds. is_digit c" by (auto simp: is_digit_def dest: set_takeWhileD split: if_splits)
  then obtain d ds' where d: "ds = d # ds'" "is_digit d" using ds(1) by (cases ds) auto
  show "s \<noteq> []" "hd s = CHR ''-'' \<or> is_digit (hd s)" using ds(2) d by (auto split: if_splits)
  have "d \<noteq> CHR ''I''" "d \<noteq> CHR ''-''" using d(2) by (auto simp: is_digit_def)
  with ds(2) d show "\<not> prefix ''-Infinity'' (s @ rest)" by (auto split: if_splits)
qed

section \<open>Values\<close>

text \<open>Values whose numbers are finite and whose objects have distinct keys.\<close>

fun printable :: "json \<Rightarrow> bool" where
  "printable (JFloat s) = float_text s"
| "printable (JList js) = list_all printable js"
| "printable (JObj kvs) = (distinct (map fst kvs) \<and> list_all (\<lambda>kv. printable (snd kv)) kvs)"
| "printable _ = True"

text \<open>The first character of a printed value starts no other kind of value.\<close>

definition starts_value :: "string \<Rightarrow> bool" where
  "starts_value s \<longleftrightarrow> s \<noteq> [] \<and> \<not> json_space (hd s) \<and> hd s \<noteq> CHR '']'' \<and> hd s \<noteq> CHR ''}''"

lemma skip_value [simp]: "starts_value s \<Longrightarrow> skip_space (s @ t) = s @ t"
  by (cases s) (auto simp: starts_value_def skip_space_def)

lemma show_int_head:
  "show_int i \<noteq> [] \<and> (hd (show_int i) = CHR ''-'' \<or> is_digit (hd (show_int i)))"
  using digits_of_digits[of "nat i"] by (auto simp: show_int_def hd_in_set)

lemma digit_starts: "is_digit c \<or> c = CHR ''-'' \<Longrightarrow> \<not> json_space c \<and> of_char c \<noteq> (34 :: nat) \<and>
    c \<notin> {CHR ''{'', CHR ''['', CHR '']'', CHR ''}'', CHR ''n'', CHR ''t'', CHR ''f'', CHR ''N'', CHR ''I''}"
  by (auto simp: is_digit_def json_space_def)

lemma quote_char: "char_of (34 :: nat) = CHR 0x22"
  by code_simp

lemma dumps_starts: "printable j \<Longrightarrow> starts_value (dumps ea j)"
proof (cases j)
  case (JInt i)
  then show ?thesis using show_int_head[of i] digit_starts[of "hd (show_int i)"]
    by (auto simp: starts_value_def)
next
  case (JFloat t)
  assume "printable j"
  with JFloat have t: "float_text t" by simp
  show ?thesis using float_text_head(1,2)[OF t] digit_starts[of "hd t"] by (auto simp: JFloat starts_value_def)
qed (auto simp: starts_value_def json_space_def json_quote_def quote_char)

lemma skip_punctuation [simp]:
  "skip_space (CHR '']'' # s) = CHR '']'' # s" "skip_space (CHR ''}'' # s) = CHR ''}'' # s"
  "skip_space (CHR '','' # s) = CHR '','' # s" "skip_space (CHR '':'' # s) = CHR '':'' # s"
  "skip_space (CHR '' '' # s) = skip_space s"
  by (simp_all add: skip_space_def json_space_def)

definition reads_back :: "bool \<Rightarrow> json \<Rightarrow> bool" where
  "reads_back ea j \<longleftrightarrow>
     (\<forall>f rest. 2 * length (dumps ea j @ rest) + 1 \<le> f \<longrightarrow> ends_number rest \<longrightarrow>
        parse_value f (dumps ea j @ rest) = Some (j, rest))"

lemma reads_backD:
  "reads_back ea j \<Longrightarrow> 2 * length (dumps ea j @ rest) + 1 \<le> f \<Longrightarrow> ends_number rest \<Longrightarrow>
   parse_value f (dumps ea j @ rest) = Some (j, rest)"
  by (simp add: reads_back_def)

lemma ends_number_punctuation [simp]:
  "ends_number []" "ends_number (CHR '']'' # s)" "ends_number (CHR ''}'' # s)" "ends_number (CHR '','' # s)"
  by (simp_all add: ends_number_def is_digit_def)

lemma parse_items_join:
  assumes "js \<noteq> []" and "\<And>j. j \<in> set js \<Longrightarrow> reads_back ea j \<and> printable j"
  shows "2 * length (join_with '', '' (map (dumps ea) js) @ '']'' @ rest) + 2 \<le> f \<Longrightarrow>
    parse_items f (join_with '', '' (map (dumps ea) js) @ '']'' @ rest) = Some (js, rest)"
  using assms
proof (induction js arbitrary: f)
  case (Cons j js)
  then obtain f' where f: "f = Suc f'" by (cases f) auto
  show ?case
  proof (cases js)
    case Nil
    with Cons.prems f have "parse_value f' (dumps ea j @ '']'' @ rest) = Some (j, '']'' @ rest)"
      by (intro reads_backD) auto
    with Nil f show ?thesis by simp
  next
    case (Cons j' js')
    let ?more = "join_with '', '' (map (dumps ea) js) @ '']'' @ rest"
    have join: "join_with '', '' (map (dumps ea) (j # js)) @ '']'' @ rest = dumps ea j @ '', '' @ ?more"
      by (simp add: Cons)
    from Cons.prems(1) f have long: "2 * length (dumps ea j @ '', '' @ ?more) + 1 \<le> f'"
      unfolding join by simp
    then have first: "parse_value f' (dumps ea j @ '', '' @ ?more) = Some (j, '', '' @ ?more)"
      using Cons.prems(3) by (intro reads_backD) auto
    from long have "2 * length ?more + 2 \<le> f'" by simp
    with Cons.IH Cons.prems(3) have items: "parse_items f' ?more = Some (js, rest)"
      by (simp add: Cons)
    have "starts_value (dumps ea j')" using Cons.prems(3)[of j'] dumps_starts by (simp add: Cons)
    then have "skip_space ?more = ?more"
      by (cases js') (simp_all add: Cons)
    with first items show ?thesis unfolding join f by simp
  qed
qed simp

definition member_text :: "bool \<Rightarrow> string \<times> json \<Rightarrow> string" where
  "member_text ea kv = json_quote ea (fst kv) @ '': '' @ dumps ea (snd kv)"

lemma parse_members_step:
  assumes "reads_back ea j" and "printable j" and "ends_number rest"
    and "2 * length (member_text ea (k, j) @ rest) + 2 \<le> Suc f"
  shows "parse_members (Suc f) (member_text ea (k, j) @ rest) =
    (case skip_space rest of
       d # r \<Rightarrow>
         if d = CHR ''}'' then Some ([(k, j)], r)
         else if d = CHR '','' then map_option (apfst (Cons (k, j))) (parse_members f (skip_space r))
         else None
     | [] \<Rightarrow> None)"
proof -
  have key: "parse_string (concat (map (json_char ea) k) @ char_of (34 :: nat) # '': '' @ dumps ea j @ rest)
      = Some (k, '': '' @ dumps ea j @ rest)"
    by (rule parse_string_quoted)
  have skip: "skip_space (dumps ea j @ rest) = dumps ea j @ rest"
    using dumps_starts[OF assms(2)] by simp
  have "parse_value f (dumps ea j @ rest) = Some (j, rest)"
    using assms(4) by (intro reads_backD assms(1,3)) (simp add: member_text_def)
  with key skip show ?thesis by (simp add: member_text_def json_quote_def)
qed

lemma member_starts: "starts_value (member_text ea kv)"
  by (simp add: member_text_def json_quote_def starts_value_def quote_char json_space_def)

lemma parse_members_join:
  assumes "kvs \<noteq> []" and "\<And>kv. kv \<in> set kvs \<Longrightarrow> reads_back ea (snd kv) \<and> printable (snd kv)"
  shows "2 * length (join_with '', '' (map (member_text ea) kvs) @ ''}'' @ rest) + 2 \<le> f \<Longrightarrow>
    parse_members f (join_with '', '' (map (member_text ea) kvs) @ ''}'' @ rest) = Some (kvs, rest)"
  using assms
proof (induction kvs arbitrary: f)
  case (Cons kv kvs)
  then obtain f' where f: "f = Suc f'" by (cases f) auto
  obtain k j where kv: "kv = (k, j)" by fastforce
  from Cons.prems(3)[of kv] kv have j: "reads_back ea j" "printable j" by simp_all
  show ?case
  proof (cases kvs)
    case Nil
    with Cons.prems(1) f kv show ?thesis
      using parse_members_step[OF j, of "''}'' @ rest" k f'] by simp
  next
    case (Cons kv' kvs')
    let ?more = "join_with '', '' (map (member_text ea) kvs) @ ''}'' @ rest"
    have join: "join_with '', '' (map (member_text ea) (kv # kvs)) @ ''}'' @ rest =
        member_text ea (k, j) @ '', '' @ ?more"
      by (simp add: Cons kv)
    from Cons.prems(1) f have long: "2 * length (member_text ea (k, j) @ '', '' @ ?more) + 2 \<le> Suc f'"
      unfolding join by simp
    then have "2 * length ?more + 2 \<le> f'" by simp
    with Cons.IH Cons.prems(3) have members: "parse_members f' ?more = Some (kvs, rest)"
      by (simp add: Cons)
    have "skip_space ?more = ?more"
      using member_starts[of ea kv'] by (cases kvs') (simp_all add: Cons)
    with parse_members_step[OF j _ long] members show ?thesis
      unfolding join f by (simp add: kv del: parse_members.simps)
  qed
qed simp

lemma dict_set_new: "k \<notin> fst ` set d \<Longrightarrow> dict_set k v d = d @ [(k, v)]"
  by (induction k v d rule: dict_set.induct) auto

lemma dict_of_distinct: "distinct (map fst kvs) \<Longrightarrow> dict_of kvs = kvs"
proof -
  have "distinct (map fst (d @ kvs)) \<Longrightarrow> foldl (\<lambda>d (k, v). dict_set k v d) d kvs = d @ kvs" for d
  proof (induction kvs arbitrary: d)
    case (Cons kv kvs)
    then have "fst kv \<notin> fst ` set d" by auto
    then have "dict_set (fst kv) (snd kv) d = d @ [kv]" by (simp add: dict_set_new)
    with Cons show ?case by (simp add: case_prod_beta)
  qed simp
  from this[of "[]"] show "distinct (map fst kvs) \<Longrightarrow> ?thesis" by (simp add: dict_of_def)
qed

lemma dumps_object: "dumps ea (JObj kvs) = ''{'' @ join_with '', '' (map (member_text ea) kvs) @ ''}''"
proof -
  have "map (member_text ea) kvs = map (\<lambda>kv. json_quote ea (fst kv) @ '': '' @ dumps ea (snd kv)) kvs"
    by (rule map_cong) (simp_all add: member_text_def)
  then show ?thesis by (simp only: dumps.simps)
qed

lemma join_starts: "kvs \<noteq> [] \<Longrightarrow> starts_value (join_with '', '' (map (member_text ea) kvs))"
  using member_starts[of ea "hd kvs"]
  by (cases kvs; cases "tl kvs") (auto simp: starts_value_def)

lemma join_items_start:
  "js \<noteq> [] \<Longrightarrow> list_all printable js \<Longrightarrow> starts_value (join_with '', '' (map (dumps ea) js))"
  using dumps_starts[of "hd js" ea]
  by (cases js; cases "tl js") (auto simp: starts_value_def)

lemma parse_number_value:
  assumes "s \<noteq> []" "hd s = CHR ''-'' \<or> is_digit (hd s)" "\<not> prefix ''-Infinity'' (s @ rest)"
  shows "parse_value (Suc f) (s @ rest) = parse_number (s @ rest)"
proof -
  obtain c r where c: "s = c # r" using assms(1) by (cases s) auto
  with assms(2) have "is_digit c \<or> c = CHR ''-''" by auto
  moreover from digit_starts[OF this] have "of_char c \<noteq> (34 :: nat)"
    "c \<noteq> CHR ''{''" "c \<noteq> CHR ''[''" "c \<noteq> CHR ''n''" "c \<noteq> CHR ''t''" "c \<noteq> CHR ''f''"
    "c \<noteq> CHR ''N''" "c \<noteq> CHR ''I''" by simp_all
  ultimately show ?thesis using assms(3) by (auto simp: c)
qed

lemma show_int_finite: "\<not> prefix ''-Infinity'' (show_int i @ rest)"
proof (cases "i < 0")
  case True
  obtain d ds where d: "digits_of (nat (- i)) = d # ds"
    using digits_of_not_Nil by (cases "digits_of (nat (- i))") auto
  with digits_of_digits[of "nat (- i)"] have "is_digit d" by simp
  then have "d \<noteq> CHR ''I''" by (auto simp: is_digit_def)
  with True d show ?thesis by (simp add: show_int_def)
next
  case False
  with digits_of_digits[of "nat i"] show ?thesis
    by (cases "digits_of (nat i)") (auto simp: show_int_def is_digit_def)
qed

lemma printable_reads_back: "printable j \<Longrightarrow> reads_back ea j"
proof (induction j)
  case (JInt i)
  then show ?case
    unfolding reads_back_def
    using show_int_head[of i] show_int_finite[of i]
    by (auto simp: parse_number_value parse_number_show simp del: parse_value.simps dest!: Suc_le_D)
next
  case (JFloat t)
  then have t: "float_text t" by simp
  show ?case
    unfolding reads_back_def
    using float_text_head[OF t]
    by (auto simp: parse_number_value parse_float_text[OF t] simp del: parse_value.simps dest!: Suc_le_D)
next
  case (JBool b)
  have "parse_value f (dumps ea (JBool b) @ rest) = Some (JBool b, rest)"
    if "2 * length (dumps ea (JBool b) @ rest) + 1 \<le> f" for f rest
    using that by (cases f; cases b) simp_all
  then show ?case by (simp add: reads_back_def)
next
  case (JList js)
  show ?case unfolding reads_back_def
  proof (intro allI impI)
    fix f rest
    assume long: "2 * length (dumps ea (JList js) @ rest) + 1 \<le> f"
    then obtain f' where f: "f = Suc f'" by (cases f) auto
    show "parse_value f (dumps ea (JList js) @ rest) = Some (JList js, rest)"
    proof (cases "js = []")
      case False
      let ?items = "join_with '', '' (map (dumps ea) js)"
      have start: "starts_value ?items" using JList.prems False by (intro join_items_start) auto
      then obtain d r where d: "?items = d # r" "d \<noteq> CHR '']''" by (cases ?items) (auto simp: starts_value_def)
      have "parse_items f' (?items @ '']'' @ rest) = Some (js, rest)"
        using long f JList False by (intro parse_items_join) (auto simp: list_all_iff)
      moreover have "skip_space (?items @ '']'' @ rest) = ?items @ '']'' @ rest" using start by simp
      ultimately show ?thesis using d by (simp add: f)
    qed (simp add: f)
  qed
next
  case (JObj kvs)
  show ?case unfolding reads_back_def
  proof (intro allI impI)
    fix f rest
    assume long: "2 * length (dumps ea (JObj kvs) @ rest) + 1 \<le> f"
    then obtain f' where f: "f = Suc f'" by (cases f) auto
    show "parse_value f (dumps ea (JObj kvs) @ rest) = Some (JObj kvs, rest)"
    proof (cases "kvs = []")
      case False
      let ?members = "join_with '', '' (map (member_text ea) kvs)"
      have start: "starts_value ?members" using False by (rule join_starts)
      then obtain d r where d: "?members = d # r" "d \<noteq> CHR ''}''"
        by (cases ?members) (auto simp: starts_value_def)
      have "reads_back ea (snd kv) \<and> printable (snd kv)" if "kv \<in> set kvs" for kv
        using JObj that by (cases kv) (fastforce simp: list_all_iff)
      then have "parse_members f' (?members @ ''}'' @ rest) = Some (kvs, rest)"
        using long f False unfolding dumps_object by (intro parse_members_join) auto
      moreover have "skip_space (?members @ ''}'' @ rest) = ?members @ ''}'' @ rest" using start by simp
      ultimately show ?thesis using d JObj.prems dict_of_distinct[of kvs] unfolding dumps_object
        by (simp add: f)
    qed (simp add: f)
  qed
qed (auto simp: reads_back_def json_quote_def parse_string_quoted dest!: Suc_le_D)

lemma loads_dumps:
  assumes "printable j"
  shows "loads (dumps ea j) = Some j"
proof -
  have "parse_value (2 * length (dumps ea j) + 2) (dumps ea j @ []) = Some (j, [])"
    using printable_reads_back[OF assms] by (rule reads_backD) simp_all
  moreover have "skip_space (dumps ea j @ []) = dumps ea j @ []" using dumps_starts[OF assms] by (rule skip_value)
  moreover have "skip_space [] = []" by (simp add: skip_space_def)
  ultimately show ?thesis by (simp add: loads_def del: parse_value.simps)
qed

end
