(* ===== verification/Roboz_Completion.thy ===== *)
theory Roboz_Completion
  imports Roboz_Provider Roboz_Roundtrip Roboz_Strings
begin

text \<open>
  Completions (\<open>llm/completion.py\<close>): the JSON object in a model's answer, its validation
  against an output model or the tools of an agent, and the loop that sends the answer back with
  the error until it validates. The pydantic models are functions that give the text of a
  validation error, the transport is a function on the pipe, and the messages of the JSON decoder
  are a parameter. Texts are Latin-1, so the second of the two thinking tags never occurs, and the
  dash of a prompt is a hyphen. A call without an error pipe has one without sinks.
\<close>

section \<open>The object in an answer\<close>

definition backtick :: char where "backtick = CHR 0x60"
definition acute :: char where "acute = CHR 0xB4"

definition FENCES :: "string list" where
  "FENCES = [replicate 3 backtick, replicate 3 acute]"

text \<open>\<open>(?:json)?\<close> with IGNORECASE at the front or the end of a text.\<close>

definition drop_json :: "string \<Rightarrow> string" where
  "drop_json s = (if map lower_char (take 4 s) = ''json'' then drop 4 s else s)"

definition open_fence :: "string \<Rightarrow> string" where
  "open_fence s =
     (if list_ex (\<lambda>f. prefix f s) FENCES then dropWhile py_space (drop_json (drop 3 s)) else s)"

definition close_fence :: "string \<Rightarrow> string" where
  "close_fence s =
     (if list_ex (\<lambda>f. suffix f s) FENCES
      then (let t = rev (drop 3 (rev s));
                u = (if map lower_char (rev (take 4 (rev t))) = ''json'' then rev (drop 4 (rev t)) else t)
            in if suffix [CHR 0x0A] u then butlast u else u)
      else s)"

definition strip_outer_code_fences :: "string \<Rightarrow> string" where
  "strip_outer_code_fences s = py_strip (close_fence (open_fence (py_strip s)))"

definition THINK_TAGS :: "string list" where "THINK_TAGS = [''</think>'']"

definition after_tag :: "string \<Rightarrow> string \<Rightarrow> string" where
  "after_tag tag s = last (pieces tag s)"

definition find_char :: "char \<Rightarrow> string \<Rightarrow> nat option" where
  "find_char c s = (let n = length (takeWhile (\<lambda>d. d \<noteq> c) s) in if n < length s then Some n else None)"

text \<open>\<open>JSONDecoder().raw_decode\<close> from the start of the text.\<close>

definition raw_decode :: "string \<Rightarrow> json option" where
  "raw_decode s = map_option fst (parse_value (2 * length s + 2) s)"

type_synonym dict = "(string \<times> json) list"

definition expect_object :: "json \<Rightarrow> string + dict" where
  "expect_object j =
     (case j of JObj d \<Rightarrow> Inr d | _ \<Rightarrow> Inl ''Expected a JSON object: line 1 column 1 (char 0)'')"

definition decode_raw_json :: "(string \<Rightarrow> string) \<Rightarrow> string \<Rightarrow> string + dict" where
  "decode_raw_json json_error raw =
     (let cleaned = dropWhile py_space (strip_outer_code_fences (fold after_tag THINK_TAGS raw))
      in case raw_decode cleaned of
           Some j \<Rightarrow> expect_object j
         | None \<Rightarrow>
             (case find_char (CHR ''{'') cleaned of
                Some (Suc n) \<Rightarrow>
                  (case raw_decode (drop (Suc n) cleaned) of
                     Some j \<Rightarrow> expect_object j
                   | None \<Rightarrow> Inl (json_error (drop (Suc n) cleaned)))
              | _ \<Rightarrow> Inl (json_error cleaned)))"

section \<open>Validation\<close>

text \<open>A validator gives the text of the error, \<open>None\<close> when the object is accepted.\<close>

type_synonym validator = "dict \<Rightarrow> string option"

datatype completion_error =
    NonexistentToolError
  | JsonDecodeError string
  | ValidationError string
  | OutputFormatError
  | BadRequest string
  | Passed raised

record completion_request =
  active_tools :: "(string \<times> validator) list option"
  output_model :: "validator option"
  invoke_model :: validator
  json_error_text :: "string \<Rightarrow> string"
  include_raw_response :: bool

definition validated :: "validator \<Rightarrow> dict \<Rightarrow> dict \<Rightarrow> completion_error + dict" where
  "validated v d result = (case v d of None \<Rightarrow> Inr result | Some e \<Rightarrow> Inl (ValidationError e))"

definition without_action :: "dict \<Rightarrow> dict" where
  "without_action d = filter (\<lambda>kv. fst kv \<noteq> ''action'' \<and> fst kv \<noteq> ''rationale'') d"

definition find_tool :: "(string \<times> validator) list \<Rightarrow> dict \<Rightarrow> validator option" where
  "find_tool tools d =
     (case map_of d ''action'' of Some (JStr name) \<Rightarrow> map_of tools name | _ \<Rightarrow> None)"

definition parse_response :: "completion_request \<Rightarrow> string \<Rightarrow> completion_error + dict" where
  "parse_response req raw =
     (let tools = (case active_tools req of None \<Rightarrow> [] | Some ts \<Rightarrow> ts)
      in if tools \<noteq> [] \<and> output_model req \<noteq> None
         then Inl (BadRequest ''active_tools and LlmOutputModel cannot both be given'')
         else
           (case decode_raw_json (json_error_text req) raw of
              Inl e \<Rightarrow> Inl (JsonDecodeError e)
            | Inr d \<Rightarrow>
                (case output_model req of
                   Some v \<Rightarrow> validated v d d
                 | None \<Rightarrow>
                     if tools = [] then Inl NonexistentToolError
                     else
                       rbind (validated (invoke_model req) d d) (\<lambda>_.
                         case find_tool tools d of
                           None \<Rightarrow> Inl NonexistentToolError
                         | Some v \<Rightarrow> validated v (without_action d) d))))"

section \<open>Repair\<close>

text \<open>A run of backslashes before a quote or an \<open>n\<close> becomes one.\<close>

fun reduce_from :: "nat \<Rightarrow> string \<Rightarrow> string" where
  "reduce_from k [] = replicate k (CHR 0x5C)"
| "reduce_from k (c # cs) =
     (if c = CHR 0x5C then reduce_from (Suc k) cs
      else if 0 < k \<and> c \<in> {CHR 0x22, CHR 0x27, CHR ''n''} then CHR 0x5C # c # reduce_from 0 cs
      else replicate k (CHR 0x5C) @ c # reduce_from 0 cs)"

definition reduce_escapes :: "string \<Rightarrow> string" where
  "reduce_escapes s = reduce_from 0 s"

definition line_break :: string where "line_break = [CHR 0x0A]"

definition JSON_FIX_PROMPT :: string where
  "JSON_FIX_PROMPT =
     ''Your previous output contained unparsable JSON. Importantly, everything you output must be parsable with python'' @
     [CHR 0x27] @
     ''s json.loads() function. Specifically, two top-level JSON objects in one assistant message are *strictly prohibited* '' @
     ''- for example when `}{` appears, or when a complete second JSON object follows the first '' @
     ''(including on the next line after its closing brace).'' @ line_break @ line_break @
     ''The error trace:'' @ line_break"

definition PYDANTIC_FIX_PROMPT :: string where
  "PYDANTIC_FIX_PROMPT =
     ''Your previous output did not adhere to the designated Pydantic models. Review them from the '' @
     ''instructions and try again'' @ line_break @ line_break @ ''The error trace:'' @ line_break"

definition ACTION_FIX_PROMPT :: string where
  "ACTION_FIX_PROMPT =
     ''Your previous output invoked a tool or a skill that does not exist or did not include a name in the `action` field. '' @
     ''Review the available tools and skills from the provided instructions and try again'' @
     line_break @ line_break @ ''The error trace:'' @ line_break"

text \<open>The prompt and the trace of an error that is sent back; the others are raised.\<close>

fun fix_prompt :: "completion_error \<Rightarrow> (string \<times> string) option" where
  "fix_prompt NonexistentToolError = Some (ACTION_FIX_PROMPT, ''NonexistentTool: '')"
| "fix_prompt (JsonDecodeError e) = Some (JSON_FIX_PROMPT, ''JSONDecodeError: '' @ e)"
| "fix_prompt (ValidationError e) = Some (PYDANTIC_FIX_PROMPT, ''ValidationError: '' @ e)"
| "fix_prompt _ = None"

definition repair_message :: "string \<Rightarrow> bool \<Rightarrow> string \<Rightarrow> string \<times> string \<Rightarrow> message" where
  "repair_message now include raw prompt =
     \<lparr>msg_role = ERROR,
      content = reduce_escapes
        ((if include then ''Previous message: '' @ [CHR 0x27] @ raw @ [CHR 0x27] @ line_break else []) @
         fst prompt @ line_break @ snd prompt),
      images = [], caller = None, timestamp = now, msg_truncation = ERROR_RETRY, message_kind = None\<rparr>"

section \<open>The loop\<close>

record 'w completion_host =
  ch_environment :: "'w environment"
  ch_transport :: "message list \<Rightarrow> 'w pipe \<Rightarrow> 'w pipe \<times> (completion_error + string \<times> (string \<times> json option) list)"
  ch_truncate :: "message list \<Rightarrow> message list"
  ch_attempt_start :: "'w pipe \<Rightarrow> 'w pipe \<times> (exn + unit)"
  ch_now :: "'w \<Rightarrow> string"

fun with_meta :: "(string \<times> json option) list \<Rightarrow> dict \<Rightarrow> dict" where
  "with_meta [] d = d"
| "with_meta ((k, None) # kvs) d = with_meta kvs d"
| "with_meta ((k, Some v) # kvs) d = with_meta kvs (dict_set k v d)"

text \<open>One attempt: the response that was seen last, and the error or the validated object.\<close>

definition attempt_completion ::
  "'w completion_host \<Rightarrow> completion_request \<Rightarrow> message list \<Rightarrow> string \<Rightarrow> 'w pipe
    \<Rightarrow> 'w pipe \<times> string \<times> (completion_error + dict)" where
  "attempt_completion h req ms raw p =
     (case ch_attempt_start h p of
        (p1, Inl e) \<Rightarrow> (p1, raw, Inl (Passed (RaisedOther e)))
      | (p1, Inr _) \<Rightarrow>
          (case ch_transport h (ch_truncate h ms) p1 of
             (p2, Inl e) \<Rightarrow> (p2, raw, Inl e)
           | (p2, Inr (response, meta)) \<Rightarrow>
               (p2, response,
                case parse_response req response of
                  Inl e \<Rightarrow> Inl e
                | Inr d \<Rightarrow> Inr (with_meta meta d))))"

definition reprompt_on_error ::
  "'w completion_host \<Rightarrow> completion_request \<Rightarrow> string \<Rightarrow> completion_error \<Rightarrow> 'w pipe
    \<Rightarrow> 'w pipe \<times> (completion_error + message)" where
  "reprompt_on_error h req raw e p =
     (case fix_prompt e of
        None \<Rightarrow> (p, Inl e)
      | Some prompt \<Rightarrow>
          (let m = repair_message (ch_now h (outside p)) (include_raw_response req) raw prompt
           in case emit_message (ch_environment h) m p of
                (p1, Inl x) \<Rightarrow> (p1, Inl (Passed (RaisedOther x)))
              | (p1, Inr _) \<Rightarrow> (p1, Inr m)))"

fun completion_loop ::
  "nat \<Rightarrow> 'w completion_host \<Rightarrow> completion_request \<Rightarrow> message list \<Rightarrow> string \<Rightarrow> 'w pipe
    \<Rightarrow> 'w pipe \<times> (completion_error + dict)" where
  "completion_loop 0 h req ms raw p = (p, Inl OutputFormatError)"
| "completion_loop (Suc n) h req ms raw p =
     (case attempt_completion h req ms raw p of
        (p1, raw1, Inr d) \<Rightarrow> (p1, Inr d)
      | (p1, raw1, Inl e) \<Rightarrow>
          (case reprompt_on_error h req raw1 e p1 of
             (p2, Inl e') \<Rightarrow> (p2, Inl e')
           | (p2, Inr m) \<Rightarrow> completion_loop n h req (ms @ [m]) raw1 p2))"

text \<open>\<open>Inl\<close> of the answer is the text of the raw mode.\<close>

definition get_completion ::
  "'w completion_host \<Rightarrow> completion_request \<Rightarrow> int \<Rightarrow> message list \<Rightarrow> 'w pipe
    \<Rightarrow> 'w pipe \<times> (completion_error + (string + dict))" where
  "get_completion h req tries ms p =
     (if ms = [] then (p, Inl (BadRequest ''Messages cannot be empty.''))
      else if active_tools req = None \<and> output_model req = None \<and> 0 < tries
      then
        (case ch_attempt_start h p of
           (p1, Inl e) \<Rightarrow> (p1, Inl (Passed (RaisedOther e)))
         | (p1, Inr _) \<Rightarrow>
             (case ch_transport h (ch_truncate h ms) p1 of
                (p2, Inl e) \<Rightarrow> (p2, Inl e)
              | (p2, Inr (response, meta)) \<Rightarrow> (p2, Inr (Inl response))))
      else
        (case completion_loop (nat tries) h req ms [] p of
           (p1, Inl e) \<Rightarrow> (p1, Inl e)
         | (p1, Inr d) \<Rightarrow> (p1, Inr (Inr d))))"

section \<open>Validated answers\<close>

definition accepts :: "completion_request \<Rightarrow> dict \<Rightarrow> bool" where
  "accepts req d \<longleftrightarrow>
     (case output_model req of
        Some v \<Rightarrow> v d = None
      | None \<Rightarrow> invoke_model req d = None \<and>
          (\<exists>tools name v. active_tools req = Some tools \<and> map_of d ''action'' = Some (JStr name) \<and>
             map_of tools name = Some v \<and> v (without_action d) = None))"

lemma parse_response_accepts:
  assumes "parse_response req raw = Inr d"
  shows "decode_raw_json (json_error_text req) raw = Inr d \<and> accepts req d"
proof (cases "decode_raw_json (json_error_text req) raw")
  case (Inl e)
  with assms show ?thesis by (auto simp: parse_response_def Let_def split: if_splits)
next
  case (Inr d')
  show ?thesis
  proof (cases "output_model req")
    case (Some v)
    with assms Inr show ?thesis
      by (auto simp: parse_response_def Let_def accepts_def validated_def split: if_splits option.splits)
  next
    case None
    define tools where "tools = (case active_tools req of None \<Rightarrow> [] | Some ts \<Rightarrow> ts)"
    have parsed: "parse_response req raw =
      (if tools = [] then Inl NonexistentToolError
       else rbind (validated (invoke_model req) d' d') (\<lambda>_.
              case find_tool tools d' of None \<Rightarrow> Inl NonexistentToolError
              | Some v \<Rightarrow> validated v (without_action d') d'))"
      using Inr None by (simp add: parse_response_def tools_def[symmetric] Let_def)
    have "tools \<noteq> []" using assms unfolding parsed by (cases tools) simp_all
    then have some: "active_tools req = Some tools" by (auto simp: tools_def split: option.splits)
    have invoked: "invoke_model req d' = None"
      using assms \<open>tools \<noteq> []\<close> unfolding parsed
      by (cases "invoke_model req d'") (simp_all add: validated_def)
    with assms \<open>tools \<noteq> []\<close> obtain v where
      v: "find_tool tools d' = Some v" "validated v (without_action d') d' = Inr d"
      unfolding parsed by (cases "find_tool tools d'") (simp_all add: validated_def)
    then have "v (without_action d') = None" "d = d'"
      by (cases "v (without_action d')"; simp add: validated_def)+
    note found = some invoked v(1) this
    from v(1) obtain name where "map_of d' ''action'' = Some (JStr name)" "map_of tools name = Some v"
      unfolding find_tool_def by (cases "map_of d' ''action''") (auto split: json.splits)
    with found None Inr show ?thesis by (auto simp: accepts_def)
  qed
qed

lemma attempt_completion_valid:
  assumes "attempt_completion h req ms raw p = (p', raw', Inr d)"
  shows "\<exists>q q' response meta object. ch_transport h (ch_truncate h ms) q = (q', Inr (response, meta)) \<and>
    decode_raw_json (json_error_text req) response = Inr object \<and> accepts req object \<and>
    d = with_meta meta object"
  using assms
  by (fastforce simp: attempt_completion_def split: prod.splits sum.splits dest: parse_response_accepts)

lemma completion_loop_valid:
  "completion_loop n h req ms raw p = (p', Inr d) \<Longrightarrow>
   \<exists>repairs q q' response meta object.
     ch_transport h (ch_truncate h (ms @ repairs)) q = (q', Inr (response, meta)) \<and>
     decode_raw_json (json_error_text req) response = Inr object \<and> accepts req object \<and>
     d = with_meta meta object"
proof (induction n arbitrary: ms raw p)
  case (Suc n)
  obtain p1 raw1 r where a: "attempt_completion h req ms raw p = (p1, raw1, r)" by (metis prod.exhaust)
  show ?case
  proof (cases r)
    case (Inr d')
    with Suc.prems a have "d' = d" by simp
    with attempt_completion_valid[of h req ms raw p p1 raw1 d'] a Inr show ?thesis
      by (metis append_Nil2)
  next
    case (Inl e)
    with Suc.prems a obtain p2 m where
      "completion_loop n h req (ms @ [m]) raw1 p2 = (p', Inr d)"
      by (auto split: prod.splits sum.splits)
    from Suc.IH[OF this] show ?thesis by (metis append.assoc)
  qed
qed simp

section \<open>Attempts\<close>

text \<open>A transport that notes the messages of every request, with everything else leaving the notes.\<close>

definition notes_requests :: "(message list list \<times> 'w) completion_host \<Rightarrow> bool" where
  "notes_requests h \<longleftrightarrow>
     (\<forall>ms p. fst (outside (fst (ch_transport h ms p))) = fst (outside p) @ [ms]) \<and>
     (\<forall>p. fst (outside (fst (ch_attempt_start h p))) = fst (outside p)) \<and>
     (\<forall>s e w. fst (fst (deliver (ch_environment h) s e w)) = fst w)"

lemma deliver_all_notes:
  assumes "\<And>s w. fst (fst (deliver env s e w)) = fst w"
  shows "fst (fst (deliver_all env e ss w)) = fst w"
proof (induction ss arbitrary: w)
  case (Cons s ss)
  obtain w' x where d: "deliver env s e w = (w', x)" by fastforce
  with assms[of s w] have "fst w' = fst w" by simp
  with d Cons show ?case by (cases x) simp_all
qed simp

lemma emit_message_notes:
  assumes "\<And>s e w. fst (fst (deliver env s e w)) = fst w"
  shows "fst (outside (fst (emit_message env m p))) = fst (outside p)"
proof -
  have "fst (outside (fst (emit env e q))) = fst (outside q)" for e q
    using deliver_all_notes[OF assms, of e "sinks q" "outside q"]
    by (auto simp: emit_def split: prod.split option.split)
  then show ?thesis by (simp add: emit_message_def Let_def advance_def)
qed

lemma attempt_notes:
  assumes "notes_requests h" and "attempt_completion h req ms raw p = (p', raw', r)"
  shows "fst (outside p') = fst (outside p) @ [ch_truncate h ms] \<or>
    (fst (outside p') = fst (outside p) \<and> (\<exists>x. r = Inl (Passed x)))"
proof -
  obtain p1 s where start: "ch_attempt_start h p = (p1, s)" by fastforce
  have p1: "fst (outside p1) = fst (outside p)"
    using assms(1) start unfolding notes_requests_def by (metis fst_conv)
  obtain p2 t where send: "ch_transport h (ch_truncate h ms) p1 = (p2, t)" by fastforce
  have p2: "fst (outside p2) = fst (outside p1) @ [ch_truncate h ms]"
    using assms(1) send unfolding notes_requests_def by (metis fst_conv)
  show ?thesis
    using assms(2) start send p1 p2
    by (cases s; cases t) (auto simp: attempt_completion_def split: prod.splits)
qed

lemma reprompt_notes:
  assumes "notes_requests h" and "reprompt_on_error h req raw e p = (p', r)"
  shows "fst (outside p') = fst (outside p)"
    and "\<And>m. r = Inr m \<Longrightarrow> msg_role m = ERROR \<and> msg_truncation m = ERROR_RETRY \<and> (\<nexists>x. e = Passed x)"
proof -
  have env: "\<And>s e w. fst (fst (deliver (ch_environment h) s e w)) = fst w"
    using assms(1) unfolding notes_requests_def by blast
  show "fst (outside p') = fst (outside p)"
  proof (cases "fix_prompt e")
    case None
    with assms(2) show ?thesis by (simp add: reprompt_on_error_def)
  next
    case (Some prompt)
    let ?m = "repair_message (ch_now h (outside p)) (include_raw_response req) raw prompt"
    have "p' = fst (emit_message (ch_environment h) ?m p)"
      using assms(2) Some by (auto simp: reprompt_on_error_def Let_def split: prod.splits sum.splits)
    then show ?thesis using emit_message_notes[OF env] by simp
  qed
  show "\<And>m. r = Inr m \<Longrightarrow> msg_role m = ERROR \<and> msg_truncation m = ERROR_RETRY \<and> (\<nexists>x. e = Passed x)"
    using assms(2)
    by (auto simp: reprompt_on_error_def Let_def repair_message_def split: option.splits prod.splits sum.splits)
qed

definition proper_requests ::
  "'w completion_host \<Rightarrow> message list \<Rightarrow> message list list \<Rightarrow> message list \<Rightarrow> bool" where
  "proper_requests h ms sent repairs \<longleftrightarrow>
     length sent \<le> Suc (length repairs) \<and>
     (\<forall>k < length sent. sent ! k = ch_truncate h (ms @ take k repairs)) \<and>
     (\<forall>m \<in> set repairs. msg_role m = ERROR \<and> msg_truncation m = ERROR_RETRY)"

lemma proper_requests_Cons:
  assumes "proper_requests h (ms @ [m]) sent repairs"
    and "msg_role m = ERROR" and "msg_truncation m = ERROR_RETRY"
  shows "proper_requests h ms (ch_truncate h ms # sent) (m # repairs)"
  using assms by (auto simp: proper_requests_def nth_Cons' less_Suc_eq_0_disj)

lemma completion_loop_requests:
  assumes "notes_requests h"
  shows "completion_loop n h req ms raw p = (p', r) \<Longrightarrow>
    \<exists>sent repairs. fst (outside p') = fst (outside p) @ sent \<and> length sent \<le> n \<and>
      proper_requests h ms sent repairs"
proof (induction n arbitrary: ms raw p)
  case 0
  then have "fst (outside p') = fst (outside p) @ []" "proper_requests h ms [] []"
    by (simp_all add: proper_requests_def)
  then show ?case by (metis le0 list.size(3))
next
  case (Suc n)
  obtain p1 raw1 q where a: "attempt_completion h req ms raw p = (p1, raw1, q)" by (metis prod.exhaust)
  have single: "proper_requests h ms [ch_truncate h ms] []" and none: "proper_requests h ms [] []"
    by (simp_all add: proper_requests_def)
  have ended: ?case if "fst (outside p') = fst (outside p1)"
    using attempt_notes[OF assms a] that single none
    by (elim disjE conjE)
      (rule exI[of _ "[ch_truncate h ms]"], rule exI[of _ "[]"], simp,
       rule exI[of _ "[]"], rule exI[of _ "[]"], simp)
  show ?case
  proof (cases q)
    case (Inr d)
    with Suc.prems a have "p' = p1" by simp
    then show ?thesis using ended by simp
  next
    case (Inl e)
    obtain p2 t where t: "reprompt_on_error h req raw1 e p1 = (p2, t)" by fastforce
    note kept = reprompt_notes[OF assms t]
    show ?thesis
    proof (cases t)
      case (Inl e')
      with Suc.prems a \<open>q = Inl e\<close> t have "p' = p2" by simp
      then show ?thesis using ended kept(1) by simp
    next
      case (Inr m)
      with Suc.prems a \<open>q = Inl e\<close> t have "completion_loop n h req (ms @ [m]) raw1 p2 = (p', r)" by simp
      from Suc.IH[OF this] obtain sent repairs where
        more: "fst (outside p') = fst (outside p2) @ sent" "length sent \<le> n"
          "proper_requests h (ms @ [m]) sent repairs" by blast
      from kept(2)[OF Inr] have m: "msg_role m = ERROR" "msg_truncation m = ERROR_RETRY" "\<nexists>x. e = Passed x"
        by simp_all
      from attempt_notes[OF assms a] \<open>q = Inl e\<close> m(3)
      have "fst (outside p1) = fst (outside p) @ [ch_truncate h ms]" by auto
      with more kept(1) have "fst (outside p') = fst (outside p) @ ch_truncate h ms # sent" by simp
      with more(2) proper_requests_Cons[OF more(3) m(1,2)] show ?thesis
        by (intro exI[of _ "ch_truncate h ms # sent"] exI[of _ "m # repairs"]) simp
    qed
  qed
qed
section \<open>Reading an answer back\<close>

lemma py_strip_bounds:
  assumes "list_all py_space pre" and "s \<noteq> []" and "\<not> py_space (hd s)" and "\<not> py_space (last s)"
  shows "py_strip (pre @ s) = s"
proof -
  have "dropWhile py_space (pre @ s) = s"
    using assms by (cases s) (simp_all add: dropWhile_append2 list_all_iff)
  moreover have "dropWhile py_space (rev s) = rev s"
    using assms by (cases s rule: rev_cases) simp_all
  ultimately show ?thesis by (simp add: py_strip_def)
qed

definition fenced :: "string \<Rightarrow> string" where
  "fenced body = replicate 3 backtick @ ''json'' @ [CHR 0x0A] @ body @ [CHR 0x0A] @ replicate 3 backtick"

lemma strip_fenced:
  assumes "list_all py_space pre" and "body \<noteq> []" and "\<not> py_space (hd body)" and "\<not> py_space (last body)"
  shows "strip_outer_code_fences (pre @ fenced body) = body"
proof -
  have stripped: "py_strip (pre @ fenced body) = fenced body"
    by (rule py_strip_bounds) (simp_all add: assms(1) fenced_def backtick_def py_space_def numeral_3_eq_3)
  have "prefix (replicate 3 backtick) (fenced body)" by (simp add: fenced_def)
  moreover have "drop_json (drop 3 (fenced body)) = [CHR 0x0A] @ body @ [CHR 0x0A] @ replicate 3 backtick"
    by (simp add: fenced_def drop_json_def lower_char_def)
  moreover have "dropWhile py_space ([CHR 0x0A] @ body @ [CHR 0x0A] @ replicate 3 backtick) =
      body @ [CHR 0x0A] @ replicate 3 backtick"
    using assms(2,3) by (cases body) (simp_all add: py_space_def)
  ultimately have "open_fence (fenced body) = body @ [CHR 0x0A] @ replicate 3 backtick"
    by (simp add: open_fence_def FENCES_def)
  moreover have "close_fence (body @ [CHR 0x0A] @ replicate 3 backtick) = body"
  proof -
    have fence: "suffix (replicate 3 backtick) (body @ [CHR 0x0A] @ replicate 3 backtick)"
      by (simp add: suffix_def)
    have cut_off: "rev (drop 3 (rev (body @ [CHR 0x0A] @ replicate 3 backtick))) = body @ [CHR 0x0A]" by simp
    have "last (map lower_char (rev (take 4 (rev (body @ [CHR 0x0A]))))) = CHR 0x0A"
      by (simp add: last_map last_rev lower_char_def)
    then have "map lower_char (rev (take 4 (rev (body @ [CHR 0x0A])))) \<noteq> ''json''" by (auto dest: arg_cong[of _ _ last])
    then show ?thesis using fence
      unfolding close_fence_def cut_off Let_def by (simp add: FENCES_def suffix_def lower_char_def)
  qed
  moreover have "py_strip body = body" using py_strip_bounds[of "[]" body] assms by simp
  ultimately show ?thesis by (simp add: strip_outer_code_fences_def stripped)
qed

lemma strip_bare:
  assumes "list_all py_space pre" and "body \<noteq> []" and "\<not> py_space (hd body)" and "\<not> py_space (last body)"
    and "hd body \<notin> {backtick, acute}" and "last body \<notin> {backtick, acute}"
  shows "strip_outer_code_fences (pre @ body) = body"
proof -
  have "\<not> prefix f body" if "f \<in> set FENCES" for f
    using that assms(2,5) by (cases body) (auto simp: FENCES_def numeral_3_eq_3)
  then have "open_fence body = body" by (auto simp: open_fence_def list_ex_iff)
  moreover have "\<not> suffix f body" if "f \<in> set FENCES" for f
    using that assms(2,6) by (cases body rule: rev_cases) (auto simp: FENCES_def numeral_3_eq_3 suffix_def)
  then have "close_fence body = body" by (auto simp: close_fence_def list_ex_iff)
  moreover have "py_strip (pre @ body) = body" "py_strip body = body"
    using py_strip_bounds[OF assms(1-4)] py_strip_bounds[of "[]" body] assms(2-4) by simp_all
  ultimately show ?thesis by (simp add: strip_outer_code_fences_def)
qed

text \<open>
  A model's answer is read back whatever surrounds it: after any reasoning that ends in the
  thinking tag and any white space, fenced or not, the printed object is what is decoded, unless
  it contains the tag itself.
\<close>

theorem answer_is_read_back:
  assumes "printable (JObj d)" and "\<not> sublist ''</think>'' (pre @ wrap (dumps ea (JObj d)))"
    and "list_all py_space pre" and "wrap = fenced \<or> wrap = id"
  shows "decode_raw_json json_error (thoughts @ ''</think>'' @ pre @ wrap (dumps ea (JObj d))) = Inr d"
proof -
  let ?body = "dumps ea (JObj d)"
  have "border_free ''</think>''" by code_simp
  from last_pieces[OF this assms(2)]
  have tag: "fold after_tag THINK_TAGS (thoughts @ ''</think>'' @ pre @ wrap ?body) = pre @ wrap ?body"
    by (simp add: THINK_TAGS_def after_tag_def)
  have body: "?body \<noteq> []" "hd ?body = CHR ''{''" "last ?body = CHR ''}''" by simp_all
  then have ends: "\<not> py_space (hd ?body)" "\<not> py_space (last ?body)" by (simp_all add: py_space_def)
  have bare: "strip_outer_code_fences (pre @ ?body) = ?body"
    using body ends by (intro strip_bare assms(3)) (simp_all add: backtick_def acute_def)
  have "strip_outer_code_fences (pre @ wrap ?body) = ?body"
    using assms(4) strip_fenced[OF assms(3) body(1) ends] bare by auto
  moreover have "dropWhile py_space ?body = ?body" using body ends by (cases ?body) simp_all
  moreover have "parse_value (2 * length ?body + 2) (?body @ []) = Some (JObj d, [])"
    using printable_reads_back[OF assms(1)] by (rule reads_backD) simp_all
  then have "raw_decode ?body = Some (JObj d)"
    by (simp add: raw_decode_def del: parse_value.simps dumps.simps)
  ultimately show ?thesis
    unfolding decode_raw_json_def Let_def tag by (simp add: expect_object_def del: dumps.simps)
qed

text \<open>
  A validated completion is what the model answered: some request made with the conversation
  and the repair messages so far got a response whose object the output model accepts, or that
  names an active tool which accepts its other fields; only telemetry is added to it.
\<close>

theorem completion_is_validated:
  assumes "get_completion h req tries ms p = (p', Inr (Inr d))"
  shows "\<exists>repairs q q' response meta object.
    ch_transport h (ch_truncate h (ms @ repairs)) q = (q', Inr (response, meta)) \<and>
    decode_raw_json (json_error_text req) response = Inr object \<and> accepts req object \<and>
    d = with_meta meta object"
proof -
  from assms obtain p1 where "completion_loop (nat tries) h req ms [] p = (p1, Inr d)"
    by (auto simp: get_completion_def split: if_splits prod.splits sum.splits)
  then show ?thesis by (rule completion_loop_valid)
qed

text \<open>
  C23. A completion makes at most \<open>tries\<close> requests: the first sends the conversation, and each of
  the others the conversation followed by one more repair message, which is short-lived and of the
  error role; the caller's messages are never dropped or reordered.
\<close>

theorem completion_requests_are_bounded:
  assumes "notes_requests h" and "get_completion h req tries ms p = (p', r)"
  shows "\<exists>sent repairs. fst (outside p') = fst (outside p) @ sent \<and> int (length sent) \<le> max 0 tries \<and>
    proper_requests h ms sent repairs"
proof -
  consider "p' = p" | p1 where "p' = p1" "ch_attempt_start h p = (p1, snd (ch_attempt_start h p))" "0 < tries"
    | p1 where "p1 = fst (ch_attempt_start h p)" "p' = fst (ch_transport h (ch_truncate h ms) p1)" "0 < tries"
    | q where "completion_loop (nat tries) h req ms [] p = (p', q)"
    using assms(2) by (auto simp: get_completion_def split: if_splits prod.splits sum.splits)
  then show ?thesis
  proof cases
    case 1
    then show ?thesis by (intro exI[of _ "[]"]) (simp add: proper_requests_def)
  next
    case 2
    then have "fst (outside p') = fst (outside p)"
      using assms(1) unfolding notes_requests_def by (metis fst_conv)
    then show ?thesis by (intro exI[of _ "[]"]) (simp add: proper_requests_def)
  next
    case 3
    then have "fst (outside p') = fst (outside p) @ [ch_truncate h ms]"
      using assms(1) unfolding notes_requests_def by simp
    then show ?thesis using 3(3)
      by (intro exI[of _ "[ch_truncate h ms]"] exI[of _ "[]"]) (simp add: proper_requests_def)
  next
    case 4
    from completion_loop_requests[OF assms(1) 4] show ?thesis by (auto simp: max_def)
  qed
qed

section \<open>Examples\<close>

text \<open>A model that first answers with a text, then with an object; both requests are noted.\<close>

definition notes_environment :: "(message list list \<times> nat) environment" where
  "notes_environment =
     \<lparr>deliver = (\<lambda>s event w. (w, None)), new_uuid = (\<lambda>w. (w, ''id'')), arrivals = (\<lambda>w. (w, []))\<rparr>"

definition sample_answer :: dict where "sample_answer = [(''value'', JStr ''ok'')]"

definition learning_host :: "(message list list \<times> nat) completion_host" where
  "learning_host =
     \<lparr>ch_environment = notes_environment,
      ch_transport = (\<lambda>ms p. (p\<lparr>outside := (fst (outside p) @ [ms], snd (outside p))\<rparr>,
        Inr (if fst (outside p) = [] then ''let me see'' else fenced (dumps True (JObj sample_answer)), []))),
      ch_truncate = (\<lambda>ms. ms), ch_attempt_start = (\<lambda>p. (p, Inr ())), ch_now = (\<lambda>w. ''now'')\<rparr>"

definition value_request :: completion_request where
  "value_request =
     \<lparr>active_tools = None, output_model = Some (\<lambda>d. if map_of d ''value'' = None then Some ''missing'' else None),
      invoke_model = (\<lambda>d. None), json_error_text = (\<lambda>s. ''Expecting value''), include_raw_response = True\<rparr>"

definition question :: message where
  "question = \<lparr>msg_role = USER, content = ''ready?'', images = [], caller = None, timestamp = ''now'',
     msg_truncation = DEFAULT, message_kind = None\<rparr>"

theorem answer_is_read_back_witness:
  "decode_raw_json (\<lambda>s. s) (''hm'' @ ''</think>'' @ [CHR 0x0A] @ fenced (dumps True (JObj sample_answer))) =
     Inr sample_answer"
proof (rule answer_is_read_back[where wrap = fenced])
  show "printable (JObj sample_answer)" by (simp add: sample_answer_def)
  have "py_count ''</think>'' ([CHR 0x0A] @ fenced (dumps True (JObj sample_answer))) = 0" by code_simp
  then show "\<not> sublist ''</think>'' ([CHR 0x0A] @ fenced (dumps True (JObj sample_answer)))"
    using count_zero_iff[of "''</think>''"] by blast
qed (simp_all add: py_space_def)

lemma sample_completion:
  "case get_completion learning_host value_request 3 [question] (event_pipe [] ([], 0)) of
     (p', Inr (Inr d)) \<Rightarrow> d = sample_answer \<and> length (fst (outside p')) = 2
   | _ \<Rightarrow> False"
  by code_simp

theorem completion_is_validated_witness:
  "\<exists>p' repairs q q' response meta object.
     get_completion learning_host value_request 3 [question] (event_pipe [] ([], 0)) =
       (p', Inr (Inr sample_answer)) \<and>
     ch_transport learning_host ([question] @ repairs) q = (q', Inr (response, meta)) \<and>
     accepts value_request object \<and> sample_answer = with_meta meta object"
proof -
  obtain p' where run: "get_completion learning_host value_request 3 [question] (event_pipe [] ([], 0)) =
      (p', Inr (Inr sample_answer))"
    using sample_completion by (auto split: prod.splits sum.splits)
  from completion_is_validated[OF run] run show ?thesis by (fastforce simp: learning_host_def)
qed

theorem completion_requests_are_bounded_witness:
  "\<exists>p' r sent repairs.
     get_completion learning_host value_request 3 [question] (event_pipe [] ([], 0)) = (p', r) \<and>
     fst (outside p') = sent \<and> length sent = 2 \<and> proper_requests learning_host [question] sent repairs"
proof -
  obtain p' d where run: "get_completion learning_host value_request 3 [question] (event_pipe [] ([], 0)) =
      (p', Inr (Inr d))" and two: "length (fst (outside p')) = 2"
    using sample_completion by (auto split: prod.splits sum.splits)
  have "notes_requests learning_host"
    by (simp add: notes_requests_def learning_host_def notes_environment_def)
  from completion_requests_are_bounded[OF this run] run two show ?thesis by (auto simp: event_pipe_def)
qed

text \<open>
  An object whose text quotes the thinking tag is cut at the tag: although it is valid JSON, what
  is left is not.
\<close>

lemma quoted_tag_breaks_answer:
  "decode_raw_json (\<lambda>s. s) (dumps True (JObj [(''value'', JStr ''use </think> here'')])) =
     Inl (''here'' @ [CHR 0x22] @ ''}'')"
  by code_simp

end
