(* ===== verification/Roboz_Compact.thy ===== *)
theory Roboz_Compact
  imports Complex_Main Roboz_Completion
begin

text \<open>
  Compaction of a conversation (\<open>shed/tools/compactification/compactify_messages.py\<close>) and the
  summaries it is made of (\<open>summarize.py\<close>, \<open>summary_prompts.py\<close>). A call may change the messages,
  the count of compactions and the pipe. Percentages are rationals, \<open>None\<close> one that is not finite;
  \<open>repr\<close> of a float, \<open>str\<close> of a decoded value and the system prompt around a schema are
  parameters. The status keeps the numbers that the source formats; log records are left out.
\<close>

section \<open>Errors and controls\<close>

definition value_error :: "string \<Rightarrow> completion_error" where
  "value_error m = BadRequest m"

definition lift_exn :: "exn + 'a \<Rightarrow> completion_error + 'a" where
  "lift_exn r = (case r of Inl x \<Rightarrow> Inl (Passed (RaisedOther x)) | Inr v \<Rightarrow> Inr v)"

definition check_controls :: "'w environment \<Rightarrow> 'w pipe \<Rightarrow> 'w pipe \<times> (completion_error + unit)" where
  "check_controls env p =
     (case raise_if_cancelled env p of
        (p1, Inl e) \<Rightarrow> (p1, Inl (Passed (RaisedOther e)))
      | (p1, Inr _) \<Rightarrow> (case raise_if_interrupted env p1 of (p2, r) \<Rightarrow> (p2, lift_exn r)))"

section \<open>Summaries\<close>

record 'w summarizer =
  sm_host :: "'w completion_host"
  sm_request :: completion_request
  sm_str :: "json \<Rightarrow> string"
  sm_basic_prompt :: "string \<Rightarrow> string"

definition SUMMARY_LENGTH_ATTEMPTS :: nat where "SUMMARY_LENGTH_ATTEMPTS = 3"

definition fresh_message :: "string \<Rightarrow> role \<Rightarrow> string \<Rightarrow> message" where
  "fresh_message now r body =
     \<lparr>msg_role = r, content = body, images = [], caller = None, timestamp = now,
      msg_truncation = DEFAULT, message_kind = None\<rparr>"

text \<open>The text of a conversation, with references to its images.\<close>

definition image_line :: "nat \<Rightarrow> string \<Rightarrow> string" where
  "image_line index url =
     ''[image '' @ show_int (int index) @ '': '' @
     (if prefix ''data:'' url then ''embedded image; data in original message'' else url) @ '']''"

fun role_heading :: "role \<Rightarrow> string" where
  "role_heading SYSTEM = ''SYSTEM''"
| "role_heading ASSISTANT = ''ASSISTANT''"
| "role_heading USER = ''USER''"
| "role_heading ERROR = ''ERROR''"

definition message_section :: "message \<Rightarrow> render_error + string" where
  "message_section m =
     rbind (render_content m) (\<lambda>body.
       Inr (join_with line_break
         ([''## '' @ role_heading (msg_role m), body] @
          map (\<lambda>(i, url). image_line i url) (enumerate 1 (images m)))))"

definition conversation_text :: "message list \<Rightarrow> render_error + string" where
  "conversation_text ms =
     rbind (traverse message_section ms) (\<lambda>sections. Inr (join_with (line_break @ line_break) sections))"

definition accepted_max_chars :: "int \<Rightarrow> rat \<Rightarrow> int" where
  "accepted_max_chars max_chars tolerance = \<lceil>of_int max_chars * (100 + tolerance) / 100\<rceil>"

definition build_summary_user_prompt :: "string \<Rightarrow> string \<Rightarrow> int option \<Rightarrow> string" where
  "build_summary_user_prompt instructions conversation max_chars =
     ''## Instructions'' @ line_break @ line_break @ instructions @
     (case max_chars of
        None \<Rightarrow> []
      | Some n \<Rightarrow>
          line_break @ line_break @ ''## Output size'' @ line_break @ line_break @
          ''The requested budget for the decoded `value` string is '' @ show_int n @
          '' characters. Do not count characters or pack the response to the '' @
          ''boundary. Select decisively, drop the least important content first, '' @
          ''and aim comfortably below the budget.'') @
     line_break @ line_break @ ''## Conversation content'' @ line_break @ line_break @ conversation"

text \<open>\<open>round\<close>, halves to the even neighbour.\<close>

definition py_round :: "rat \<Rightarrow> int" where
  "py_round x =
     (let f = \<lfloor>x\<rfloor>; d = x - of_int f
      in if d < 1 / 2 then f else if 1 / 2 < d then f + 1 else if even f then f else f + 1)"

definition build_summary_length_feedback :: "int \<Rightarrow> int \<Rightarrow> string" where
  "build_summary_length_feedback response_chars max_chars =
     ''The response was '' @
     (if 0 < max_chars
      then ''roughly '' @ show_int (max 1 (py_round (of_int (response_chars - max_chars) / of_int max_chars * 100))) @
           ''% over''
      else ''over'') @
     '' the requested budget. '' @
     ''Rewrite it substantially shorter. Use that percentage only as a rough '' @
     ''guide; do not count characters or preserve content merely because it '' @
     ''appeared before. Remove complete low-priority items first and leave '' @
     ''comfortable headroom.''"

definition initial_messages :: "'w summarizer \<Rightarrow> string \<Rightarrow> string \<Rightarrow> string \<Rightarrow> string \<Rightarrow> int option \<Rightarrow> message list" where
  "initial_messages s now system_prompt instructions conversation max_chars =
     [fresh_message now SYSTEM (sm_basic_prompt s system_prompt),
      (fresh_message now USER (build_summary_user_prompt instructions conversation max_chars))
        \<lparr>msg_truncation := NO_TRUNCATION\<rparr>]"

fun emit_messages :: "'w environment \<Rightarrow> message list \<Rightarrow> 'w pipe \<Rightarrow> 'w pipe \<times> (completion_error + unit)" where
  "emit_messages env [] p = (p, Inr ())"
| "emit_messages env (m # ms) p =
     (case emit_message env m p of
        (p1, Inl e) \<Rightarrow> (p1, Inl (Passed (RaisedOther e)))
      | (p1, Inr _) \<Rightarrow> emit_messages env ms p1)"

definition complete_summary ::
  "'w summarizer \<Rightarrow> message list \<Rightarrow> 'w pipe \<Rightarrow> 'w pipe \<times> (completion_error + string)" where
  "complete_summary s ms p =
     (case get_completion (sm_host s) (sm_request s) 5 ms p of
        (p1, Inl e) \<Rightarrow> (p1, Inl e)
      | (p1, Inr (Inl body)) \<Rightarrow> (p1, Inl (Passed (RaisedOther (OtherException ''TypeError''))))
      | (p1, Inr (Inr d)) \<Rightarrow>
          (case map_of d ''value'' of
             None \<Rightarrow> (p1, Inl (Passed (RaisedOther (OtherException ''KeyError''))))
           | Some v \<Rightarrow>
               (case raise_if_cancelled (ch_environment (sm_host s)) p1 of
                  (p2, Inl e) \<Rightarrow> (p2, Inl (Passed (RaisedOther e)))
                | (p2, Inr _) \<Rightarrow> (p2, Inr (case v of JStr t \<Rightarrow> t | _ \<Rightarrow> sm_str s v)))))"

definition length_feedback :: "string \<Rightarrow> string \<Rightarrow> int \<Rightarrow> message list" where
  "length_feedback now response max_chars =
     [fresh_message now ASSISTANT (dumps False (JObj [(''value'', JStr response)])),
      fresh_message now USER (build_summary_length_feedback (int (length response)) max_chars)]"

text \<open>The attempts that are left, and the shortest response so far.\<close>

fun length_loop ::
  "nat \<Rightarrow> 'w summarizer \<Rightarrow> int \<Rightarrow> int \<Rightarrow> string \<Rightarrow> message list \<Rightarrow> 'w pipe
    \<Rightarrow> 'w pipe \<times> (completion_error + string)" where
  "length_loop 0 s max_chars accepted shortest ms p = (p, Inr shortest)"
| "length_loop (Suc n) s max_chars accepted shortest ms p =
     (case complete_summary s ms p of
        (p1, Inl e) \<Rightarrow> (p1, Inl e)
      | (p1, Inr response) \<Rightarrow>
          if int (length response) \<le> accepted then (p1, Inr response)
          else
            (let shortest' = (if shortest = [] \<or> length response < length shortest then response else shortest);
                 feedback = length_feedback (ch_now (sm_host s) (outside p1)) response max_chars
             in case emit_messages (ch_environment (sm_host s)) feedback p1 of
                  (p2, Inl e) \<Rightarrow> (p2, Inl e)
                | (p2, Inr _) \<Rightarrow> length_loop n s max_chars accepted shortest' (ms @ feedback) p2))"

definition complete_with_length_limit ::
  "'w summarizer \<Rightarrow> message list \<Rightarrow> int option \<Rightarrow> rat option \<Rightarrow> 'w pipe
    \<Rightarrow> 'w pipe \<times> (completion_error + string)" where
  "complete_with_length_limit s ms max_chars tolerance p =
     (case tolerance of
        None \<Rightarrow> (p, Inl (value_error ''max_chars_tolerance_percent must be finite and non-negative''))
      | Some t \<Rightarrow>
          if t < 0 then (p, Inl (value_error ''max_chars_tolerance_percent must be finite and non-negative''))
          else (case max_chars of
                  None \<Rightarrow> complete_summary s ms p
                | Some n \<Rightarrow> length_loop SUMMARY_LENGTH_ATTEMPTS s n (accepted_max_chars n t) [] ms p))"

definition summarize_conversation_segment ::
  "'w summarizer \<Rightarrow> string \<Rightarrow> string \<Rightarrow> string \<Rightarrow> int option \<Rightarrow> rat option \<Rightarrow> 'w pipe
    \<Rightarrow> 'w pipe \<times> (completion_error + string)" where
  "summarize_conversation_segment s system_prompt instructions conversation max_chars tolerance p =
     (if py_strip instructions = [] then (p, Inl (value_error ''instructions must be a non-empty string''))
      else
        (let ms = initial_messages s (ch_now (sm_host s) (outside p)) system_prompt (py_strip instructions)
                    conversation max_chars
         in case emit_messages (ch_environment (sm_host s)) ms p of
              (p1, Inl e) \<Rightarrow> (p1, Inl e)
            | (p1, Inr _) \<Rightarrow> complete_with_length_limit s ms max_chars tolerance p1))"

section \<open>Compaction\<close>

record 'w compaction_context =
  cc_summarizer :: "'w summarizer"
  cc_threshold_percent :: "rat option"
  cc_timeout :: "rat option option"
  cc_system_prompt :: string
  cc_skill_message :: string
  cc_max_tokens :: int
  cc_show_float :: "rat \<Rightarrow> string"

datatype compaction_status = StatusOk | StatusBlocked | StatusCompacted string

record compactify_status =
  cs_status :: compaction_status
  cs_consumed :: int
  cs_max_tokens :: int
  cs_headroom :: int
  cs_compactions :: nat

definition compaction_report ::
  "compaction_status \<Rightarrow> int \<Rightarrow> int \<Rightarrow> int \<Rightarrow> nat \<Rightarrow> compactify_status" where
  "compaction_report status consumed threshold_tokens max_tokens n =
     \<lparr>cs_status = status, cs_consumed = consumed, cs_max_tokens = max_tokens,
      cs_headroom = max 0 (threshold_tokens - consumed), cs_compactions = n\<rparr>"

definition is_bootstrap :: "message \<Rightarrow> bool" where
  "is_bootstrap m = (case message_kind m of None \<Rightarrow> False | Some k \<Rightarrow> k \<in> set BOOTSTRAP_MESSAGE_KINDS)"

definition bootstrap_prefix_len :: "message list \<Rightarrow> nat" where
  "bootstrap_prefix_len ms = length (takeWhile is_bootstrap ms)"

definition COMPACTIFY_MESSAGES_TOOL_NAME :: string where
  "COMPACTIFY_MESSAGES_TOOL_NAME = ''compactify_messages_when_needed''"

definition compacted_message :: "'w compaction_context \<Rightarrow> string \<Rightarrow> string \<Rightarrow> rat \<Rightarrow> rat \<Rightarrow> message" where
  "compacted_message c now summary percent_used bound_percent =
     \<lparr>msg_role = USER,
      content = dumps True (JObj
        [(''value'', JStr ''Context compactified for continuation.''),
         (''summary_markdown'', JStr summary),
         (''percent_used_before'', JFloat (cc_show_float c percent_used)),
         (''threshold_percent'', JFloat (cc_show_float c bound_percent))]),
      images = [], caller = Some COMPACTIFY_MESSAGES_TOOL_NAME, timestamp = now,
      msg_truncation = DEFAULT, message_kind = Some COMPACTED_CONTEXT\<rparr>"

definition estimated :: "'w compaction_context \<Rightarrow> message list \<Rightarrow> completion_error + int" where
  "estimated c ms =
     (case estimate_conversation_tokens (sm_str (cc_summarizer c)) ms of
        Inl e \<Rightarrow> Inl (Passed (RaisedOther (OtherException ''render_content'')))
      | Inr n \<Rightarrow> Inr (int n))"

text \<open>\<open>int(max_tokens * bound_percent / 100.0)\<close>, which cuts towards zero.\<close>

definition threshold_tokens_of :: "int \<Rightarrow> rat \<Rightarrow> int" where
  "threshold_tokens_of max_tokens bound_percent =
     (let x = of_int max_tokens * bound_percent / 100 in if 0 \<le> x then \<lfloor>x\<rfloor> else \<lceil>x\<rceil>)"

definition percent_of :: "int \<Rightarrow> int \<Rightarrow> rat" where
  "percent_of consumed max_tokens =
     (if max_tokens \<le> 0 then 0 else of_int consumed / of_int max_tokens * 100)"

text \<open>The messages after the call, the count and the report or the error.\<close>

type_synonym 'w compaction =
  "'w pipe \<times> message list \<times> nat \<times> (completion_error + compactify_status)"

text \<open>The replacement once a summary was returned.\<close>

definition install_summary ::
  "'w compaction_context \<Rightarrow> rat \<Rightarrow> int \<Rightarrow> int \<Rightarrow> message list \<Rightarrow> nat \<Rightarrow> rat \<Rightarrow> compactify_status \<Rightarrow> string
    \<Rightarrow> 'w pipe \<Rightarrow> 'w compaction" where
  "install_summary c bound_percent threshold_tokens max_chars ms n percent_used blocked summary p =
     (let env = ch_environment (sm_host (cc_summarizer c));
          target = min threshold_tokens (cc_max_tokens c) - 1
      in case check_controls env p of
           (p1, Inl e) \<Rightarrow> (p1, ms, n, Inl e)
         | (p1, Inr _) \<Rightarrow>
             (let candidate = take (bootstrap_prefix_len ms) ms @
                    [compacted_message c (ch_now (sm_host (cc_summarizer c)) (outside p1)) summary
                       percent_used bound_percent]
              in case estimated c candidate of
                   Inl e \<Rightarrow> (p1, ms, n, Inl e)
                 | Inr compacted_tokens \<Rightarrow>
                     if max_chars < int (length summary) \<or> target < compacted_tokens
                     then (p1, ms, n, Inr blocked)
                     else
                       (case check_controls env p1 of
                          (p2, Inl e) \<Rightarrow> (p2, ms, n, Inl e)
                        | (p2, Inr _) \<Rightarrow>
                            (p2, candidate, n + 1,
                             Inr (compaction_report (StatusCompacted summary) compacted_tokens
                                    threshold_tokens (cc_max_tokens c) (n + 1))))))"

text \<open>The summary within the room that the prefix and an empty replacement leave.\<close>

definition summarize_history ::
  "'w compaction_context \<Rightarrow> rat \<Rightarrow> int \<Rightarrow> int \<Rightarrow> message list \<Rightarrow> nat \<Rightarrow> rat \<Rightarrow> compactify_status \<Rightarrow> 'w pipe
    \<Rightarrow> 'w compaction" where
  "summarize_history c bound_percent threshold_tokens max_chars ms n percent_used blocked p =
     (if max_chars \<le> 0 then (p, ms, n, Inr blocked)
      else
        (case conversation_text (drop (bootstrap_prefix_len ms) ms) of
           Inl e \<Rightarrow> (p, ms, n, Inl (Passed (RaisedOther (OtherException ''render_content''))))
         | Inr conversation \<Rightarrow>
             (case summarize_conversation_segment (cc_summarizer c) (cc_system_prompt c)
                     (py_strip (cc_skill_message c)) conversation (Some max_chars) (Some 0) p of
                (p1, Inl e) \<Rightarrow> (p1, ms, n, Inl e)
              | (p1, Inr summary) \<Rightarrow>
                  install_summary c bound_percent threshold_tokens max_chars ms n percent_used
                    blocked summary p1)))"

definition replace_history ::
  "'w compaction_context \<Rightarrow> rat \<Rightarrow> int \<Rightarrow> message list \<Rightarrow> nat \<Rightarrow> rat \<Rightarrow> compactify_status \<Rightarrow> 'w pipe
    \<Rightarrow> 'w compaction" where
  "replace_history c bound_percent threshold_tokens ms n percent_used blocked p =
     (if py_strip (cc_skill_message c) = []
      then (p, ms, n, Inl (value_error ''skill_message must be a non-empty string''))
      else
        (case estimated c
                (take (bootstrap_prefix_len ms) ms @
                 [compacted_message c (ch_now (sm_host (cc_summarizer c)) (outside p)) [] percent_used
                    bound_percent]) of
           Inl e \<Rightarrow> (p, ms, n, Inl e)
         | Inr tokens \<Rightarrow>
             summarize_history c bound_percent threshold_tokens
               ((min threshold_tokens (cc_max_tokens c) - 1 - tokens) * 4) ms n percent_used blocked p))"

definition positive :: "rat option \<Rightarrow> bool" where
  "positive x = (case x of None \<Rightarrow> False | Some r \<Rightarrow> 0 < r)"

definition compactify_messages_when_needed ::
  "'w compaction_context \<Rightarrow> message list \<Rightarrow> nat \<Rightarrow> 'w pipe \<Rightarrow> 'w compaction" where
  "compactify_messages_when_needed c ms n p =
     (if \<not> positive (cc_threshold_percent c)
      then (p, ms, n, Inl (value_error ''threshold_percent must be finite and greater than 0''))
      else if (case cc_timeout c of None \<Rightarrow> False | Some t \<Rightarrow> \<not> positive t)
      then (p, ms, n, Inl (value_error ''timeout_s must be finite and greater than 0''))
      else
        (let bound_percent = the (cc_threshold_percent c)
         in case check_controls (ch_environment (sm_host (cc_summarizer c))) p of
              (p1, Inl e) \<Rightarrow> (p1, ms, n, Inl e)
            | (p1, Inr _) \<Rightarrow>
                (case estimated c ms of
                   Inl e \<Rightarrow> (p1, ms, n, Inl e)
                 | Inr consumed \<Rightarrow>
                     (let percent_used = percent_of consumed (cc_max_tokens c);
                          threshold_tokens = threshold_tokens_of (cc_max_tokens c) bound_percent;
                          report = (\<lambda>status. compaction_report status consumed threshold_tokens (cc_max_tokens c) n)
                      in if percent_used < bound_percent then (p1, ms, n, Inr (report StatusOk))
                         else if length ms \<le> bootstrap_prefix_len ms then (p1, ms, n, Inr (report StatusBlocked))
                         else replace_history c bound_percent threshold_tokens ms n percent_used
                                (report StatusBlocked) p1))))"


section \<open>The length of a summary\<close>

text \<open>Responses that the model gave in turn, each after the feedback on the one before.\<close>

fun answered_in_turn :: "'w summarizer \<Rightarrow> int \<Rightarrow> message list \<Rightarrow> string list \<Rightarrow> bool" where
  "answered_in_turn s max_chars ms [] = True"
| "answered_in_turn s max_chars ms (r # rs) =
     ((\<exists>q q'. complete_summary s ms q = (q', Inr r)) \<and>
      (rs = [] \<or> (\<exists>now. answered_in_turn s max_chars (ms @ length_feedback now r max_chars) rs)))"

definition settled_on :: "int \<Rightarrow> nat \<Rightarrow> string \<Rightarrow> string list \<Rightarrow> string \<Rightarrow> bool" where
  "settled_on accepted n shortest rs s =
     ((rs \<noteq> [] \<and> s = last rs \<and> int (length s) \<le> accepted \<and> (\<forall>r\<in>set (butlast rs). accepted < int (length r))) \<or>
      (length rs = n \<and> (\<forall>r\<in>set rs. accepted < int (length r)) \<and>
       (s \<in> set rs \<or> s = shortest \<and> (shortest \<noteq> [] \<or> rs = [])) \<and>
       (\<forall>r\<in>set rs. length s \<le> length r) \<and> (shortest \<noteq> [] \<longrightarrow> length s \<le> length shortest)))"

lemma settled_on_accepted:
  assumes "int (length r) \<le> accepted"
  shows "settled_on accepted n shortest [r] r"
  using assms by (simp add: settled_on_def)

lemma settled_on_next:
  assumes "0 \<le> accepted" and "accepted < int (length r)"
    and "settled_on accepted n (if shortest = [] \<or> length r < length shortest then r else shortest) rs s"
  shows "settled_on accepted (Suc n) shortest (r # rs) s"
proof -
  have "r \<noteq> []" using assms(1,2) by auto
  then show ?thesis
    using assms(2,3) unfolding settled_on_def by (auto split: if_splits)
qed

lemma length_loop_settles:
  assumes "0 \<le> accepted" and "length_loop n s max_chars accepted shortest ms p = (p', Inr out)"
  shows "\<exists>rs. length rs \<le> n \<and> answered_in_turn s max_chars ms rs \<and> settled_on accepted n shortest rs out"
  using assms(2)
proof (induction n arbitrary: shortest ms p)
  case 0
  then show ?case by (intro exI[of _ "[]"]) (simp add: settled_on_def)
next
  case (Suc n)
  obtain p1 response where first: "complete_summary s ms p = (p1, Inr response)"
    using Suc.prems by (auto split: prod.splits sum.splits)
  show ?case
  proof (cases "int (length response) \<le> accepted")
    case True
    with Suc.prems first have "out = response" by simp
    with first settled_on_accepted[OF True] show ?thesis
      by (intro exI[of _ "[response]"]) auto
  next
    case False
    define now where "now = ch_now (sm_host s) (outside p1)"
    obtain p2 where rest: "length_loop n s max_chars accepted
        (if shortest = [] \<or> length response < length shortest then response else shortest)
        (ms @ length_feedback now response max_chars) p2 = (p', Inr out)"
      using Suc.prems first False by (auto simp: Let_def now_def split: prod.splits sum.splits)
    from Suc.IH[OF this] obtain rs where "length rs \<le> n"
      and turn: "answered_in_turn s max_chars (ms @ length_feedback now response max_chars) rs"
      and settled: "settled_on accepted n (if shortest = [] \<or> length response < length shortest
        then response else shortest) rs out" by blast
    moreover have "settled_on accepted (Suc n) shortest (response # rs) out"
      using settled_on_next[OF assms(1) _ settled] False by simp
    ultimately show ?thesis using first by (intro exI[of _ "response # rs"]) auto
  qed
qed

text \<open>
  A summary with a budget is the last of at most three responses when that one is within the
  accepted length, every earlier one being longer; otherwise three responses were all too long, and
  the summary is a shortest of them. Each response is to the conversation and the feedback so far.
\<close>

theorem summary_is_short_enough:
  assumes "complete_with_length_limit s ms (Some max_chars) (Some tolerance) p = (p', Inr summary)"
    and "0 \<le> max_chars"
  shows "\<exists>rs. rs \<noteq> [] \<and> length rs \<le> 3 \<and> answered_in_turn s max_chars ms rs \<and> summary \<in> set rs \<and>
    (if int (length summary) \<le> accepted_max_chars max_chars tolerance
     then summary = last rs \<and> (\<forall>r\<in>set (butlast rs). accepted_max_chars max_chars tolerance < int (length r))
     else length rs = 3 \<and> (\<forall>r\<in>set rs. accepted_max_chars max_chars tolerance < int (length r) \<and> length summary \<le> length r))"
proof -
  let ?accepted = "accepted_max_chars max_chars tolerance"
  from assms(1) have t: "\<not> tolerance < 0"
    and loop: "length_loop 3 s max_chars ?accepted [] ms p = (p', Inr summary)"
    by (auto simp: complete_with_length_limit_def SUMMARY_LENGTH_ATTEMPTS_def simp del: length_loop.simps
        split: if_splits)
  from t assms(2) have "0 \<le> (of_int max_chars * (100 + tolerance) / 100 :: rat)" by simp
  then have pos: "0 \<le> ?accepted" by (simp add: accepted_max_chars_def)
  from length_loop_settles[OF pos loop] obtain rs where "length rs \<le> 3"
    and "answered_in_turn s max_chars ms rs" and "settled_on ?accepted 3 [] rs summary" by blast
  then show ?thesis by (intro exI[of _ rs]) (auto simp: settled_on_def)
qed

section \<open>What a compaction changes\<close>

lemma percent_below_threshold:
  assumes "0 < r" and "0 < mx" and "k < threshold_tokens_of mx r"
  shows "percent_of k mx < r"
proof -
  have "0 \<le> of_int mx * r / 100" using assms(1,2) by simp
  then have "of_int (threshold_tokens_of mx r) \<le> of_int mx * r / 100"
    unfolding threshold_tokens_of_def Let_def by (simp only: if_True of_int_floor_le)
  moreover have "(of_int k :: rat) < of_int (threshold_tokens_of mx r)" using assms(3) by simp
  ultimately have "of_int k < of_int mx * r / 100" by (rule less_le_trans[rotated])
  then show ?thesis using assms(2) by (simp add: percent_of_def field_simps)
qed

lemma estimated_nonneg: "estimated c ms = Inr k \<Longrightarrow> 0 \<le> k"
  by (auto simp: estimated_def split: sum.splits)

definition installed ::
  "'w compaction_context \<Rightarrow> message list \<Rightarrow> nat \<Rightarrow> message list \<Rightarrow> nat \<Rightarrow> compactify_status \<Rightarrow> bool" where
  "installed c ms n ms' n' report =
     (\<exists>summary now percent_used bound_percent.
        cc_threshold_percent c = Some bound_percent \<and> 0 < bound_percent \<and> \<not> percent_used < bound_percent \<and>
        ms' = takeWhile is_bootstrap ms @ [compacted_message c now summary percent_used bound_percent] \<and>
        n' = n + 1 \<and> cs_status report = StatusCompacted summary \<and> cs_compactions report = n' \<and>
        estimated c ms' = Inr (cs_consumed report) \<and> cs_consumed report < cc_max_tokens c \<and>
        cs_consumed report < threshold_tokens_of (cc_max_tokens c) bound_percent)"

definition unchanged :: "message list \<Rightarrow> nat \<Rightarrow> 'w compaction \<Rightarrow> bool" where
  "unchanged ms n out =
     (fst (snd out) = ms \<and> fst (snd (snd out)) = n \<and>
      (case snd (snd (snd out)) of
         Inl e \<Rightarrow> True
       | Inr report \<Rightarrow> cs_status report \<in> {StatusOk, StatusBlocked} \<and> cs_compactions report = n))"

lemma take_bootstrap_prefix: "take (bootstrap_prefix_len ms) ms = takeWhile is_bootstrap ms"
  by (metis bootstrap_prefix_len_def takeWhile_eq_take)

lemma compaction_report_simps [simp]:
  "cs_status (compaction_report st k tt mx n) = st" "cs_compactions (compaction_report st k tt mx n) = n"
  "cs_consumed (compaction_report st k tt mx n) = k"
  by (simp_all add: compaction_report_def)

lemma below_target: "\<not> min a b - 1 < x \<Longrightarrow> x < a \<and> x < b" for a b x :: int
  by (auto simp: min_def split: if_splits)

lemma install_summary_outcome:
  assumes "install_summary c t (threshold_tokens_of (cc_max_tokens c) t) max_chars ms n used blocked summary p = out"
    and "cc_threshold_percent c = Some t" "0 < t" "\<not> used < t"
    and "cs_status blocked = StatusBlocked" "cs_compactions blocked = n"
  shows "(\<exists>p' ms' n' report. out = (p', ms', n', Inr report) \<and> installed c ms n ms' n' report) \<or> unchanged ms n out"
  using assms unfolding install_summary_def Let_def take_bootstrap_prefix
  by (auto simp: unchanged_def installed_def dest!: below_target split: prod.splits sum.splits if_splits)

lemma replace_history_outcome:
  assumes "replace_history c t (threshold_tokens_of (cc_max_tokens c) t) ms n used blocked p = out"
    and "cc_threshold_percent c = Some t" "0 < t" "\<not> used < t"
    and "cs_status blocked = StatusBlocked" "cs_compactions blocked = n"
  shows "(\<exists>p' ms' n' report. out = (p', ms', n', Inr report) \<and> installed c ms n ms' n' report) \<or> unchanged ms n out"
proof (cases "unchanged ms n out")
  case False
  then obtain max_chars summary p1 where
    "install_summary c t (threshold_tokens_of (cc_max_tokens c) t) max_chars ms n used blocked summary p1 = out"
    using assms(1,5,6) unfolding replace_history_def summarize_history_def
    by (auto simp: unchanged_def split: prod.splits sum.splits if_splits)
  from install_summary_outcome[OF this assms(2-)] show ?thesis .
qed simp

lemma compaction_outcome:
  "(\<exists>p' ms' n' report. compactify_messages_when_needed c ms n p = (p', ms', n', Inr report) \<and>
      takeWhile is_bootstrap ms \<noteq> ms \<and> installed c ms n ms' n' report) \<or>
   unchanged ms n (compactify_messages_when_needed c ms n p)"
proof (cases "unchanged ms n (compactify_messages_when_needed c ms n p)")
  case False
  then obtain t used p1 blocked where call: "replace_history c t (threshold_tokens_of (cc_max_tokens c) t) ms n used
      blocked p1 = compactify_messages_when_needed c ms n p"
      "cc_threshold_percent c = Some t" "0 < t" "\<not> used < t" "cs_status blocked = StatusBlocked"
      "cs_compactions blocked = n" and "\<not> length ms \<le> bootstrap_prefix_len ms"
    unfolding compactify_messages_when_needed_def Let_def
    by (auto simp: unchanged_def positive_def split: prod.splits sum.splits if_splits option.splits)
  then have "takeWhile is_bootstrap ms \<noteq> ms" by (metis bootstrap_prefix_len_def order_refl)
  with replace_history_outcome[OF call] False show ?thesis by fast
qed simp

text \<open>
  C24. A compaction either succeeds, and then keeps exactly the leading startup messages, puts one
  message with the summary behind them, counts once more and fits below both the threshold and the
  context of the endpoint; or the conversation and the count are as they were, whatever was raised.
\<close>

theorem compaction_keeps_bootstrap:
  assumes "compactify_messages_when_needed c ms n p = (p', ms', n', r)"
  shows "(\<exists>report. r = Inr report \<and> takeWhile is_bootstrap ms \<noteq> ms \<and> installed c ms n ms' n' report) \<or>
    ms' = ms \<and> n' = n \<and> (\<forall>report. r = Inr report \<longrightarrow> cs_status report \<in> {StatusOk, StatusBlocked})"
  using compaction_outcome[of c ms n p] assms by (auto simp: unchanged_def)

text \<open>
  A compaction is not repeated: right after one the same tool finds the conversation below
  its threshold, reports the estimate of the compaction and leaves everything as it is.
\<close>

theorem compaction_is_stable:
  assumes "compactify_messages_when_needed c ms n p = (p', ms', n', Inr report)"
    and "cs_status report = StatusCompacted summary"
    and "check_controls (ch_environment (sm_host (cc_summarizer c))) q = (q', Inr ())"
  shows "\<exists>again. compactify_messages_when_needed c ms' n' q = (q', ms', n', Inr again) \<and>
    cs_status again = StatusOk \<and> cs_consumed again = cs_consumed report \<and> cs_compactions again = n + 1"
proof -
  have "installed c ms n ms' n' report"
    using compaction_outcome[of c ms n p] assms(1,2) by (auto simp: unchanged_def)
  then obtain t where t: "cc_threshold_percent c = Some t" "0 < t" "n' = n + 1"
    and e: "estimated c ms' = Inr (cs_consumed report)" "cs_consumed report < cc_max_tokens c"
      "cs_consumed report < threshold_tokens_of (cc_max_tokens c) t"
    unfolding installed_def by blast
  have "0 < cc_max_tokens c" using estimated_nonneg[OF e(1)] e(2) by simp
  then have "percent_of (cs_consumed report) (cc_max_tokens c) < t"
    using percent_below_threshold[OF t(2) _ e(3)] by simp
  moreover have "\<not> (case cc_timeout c of None \<Rightarrow> False | Some x \<Rightarrow> \<not> positive x)"
    using assms(1) t by (auto simp: compactify_messages_when_needed_def positive_def)
  ultimately show ?thesis
    using t e(1) assms(3) by (simp add: compactify_messages_when_needed_def positive_def Let_def)
qed

section \<open>Examples\<close>

text \<open>The same cut with the limit compared as an integer, which evaluates faster.\<close>

fun cut_values :: "int \<Rightarrow> json \<Rightarrow> json" where
  "cut_values limit (JStr s) = JStr (if limit < int (length s) then take (nat limit) s @ ''...'' else s)"
| "cut_values limit (JObj kvs) = JObj (map (\<lambda>kv. (fst kv, cut_values limit (snd kv))) kvs)"
| "cut_values limit (JList js) = JList (map (cut_values limit) js)"
| "cut_values limit j = j"

lemma cut_values_eq: "truncate_str_values limit j = cut_values (int limit) j"
  by (induction limit j rule: truncate_str_values.induct) auto

lemma truncate_content_code [code]:
  "truncate_content str text sev =
     (case sev of
        REMOVE \<Rightarrow> None
      | STUB \<Rightarrow>
          Some (case loads text of
                  Some (JObj kvs) \<Rightarrow>
                    dumps True (JObj ((''truncated'', JStr TRUNCATED_PLACEHOLDER) #
                      (case map_of kvs ''action'' of
                         Some action \<Rightarrow> [(''action'', JStr (str action))]
                       | None \<Rightarrow> [])))
                | _ \<Rightarrow> TRUNCATED_PLACEHOLDER)
      | LIGHT \<Rightarrow>
          Some (case loads text of
                  Some data \<Rightarrow> dumps True (cut_values 40000 data)
                | None \<Rightarrow> if 40000 < int (length text) then take LIGHT_MAX_CHARS text @ ''...'' else text))"
proof -
  have "(40000 < int (length text)) = (LIGHT_MAX_CHARS < length text)"
    by (simp add: LIGHT_MAX_CHARS_def flip: of_nat_less_iff)
  moreover have "cut_values 40000 = truncate_str_values LIGHT_MAX_CHARS"
    by (rule ext) (simp add: cut_values_eq LIGHT_MAX_CHARS_def)
  ultimately show ?thesis by (simp only: truncate_content_def)
qed

definition small_context :: "(message list list \<times> nat) compaction_context" where
  "small_context =
     \<lparr>cc_summarizer = \<lparr>sm_host = learning_host, sm_request = value_request, sm_str = (\<lambda>j. []),
        sm_basic_prompt = (\<lambda>s. s)\<rparr>,
      cc_threshold_percent = Some 80, cc_timeout = None, cc_system_prompt = ''s'',
      cc_skill_message = ''h'', cc_max_tokens = 90, cc_show_float = (\<lambda>r. ''80.0'')\<rparr>"

definition long_history :: "message list" where
  "long_history =
     [(fresh_message ''now'' SYSTEM ''a'')\<lparr>message_kind := Some (hd BOOTSTRAP_MESSAGE_KINDS)\<rparr>,
      fresh_message ''now'' USER (replicate 290 CHR ''x'')]"

lemma sample_compaction:
  "case compactify_messages_when_needed small_context long_history 0 (event_pipe [] ([], 0)) of
     (p', ms', n', Inr report) \<Rightarrow> cs_status report = StatusCompacted ''ok'' \<and>
       (case check_controls notes_environment p' of (q', Inl e) \<Rightarrow> False | (q', Inr u) \<Rightarrow> True)
   | _ \<Rightarrow> False"
  by code_simp

theorem compaction_keeps_bootstrap_witness:
  "\<exists>p' ms' n' report.
     compactify_messages_when_needed small_context long_history 0 (event_pipe [] ([], 0)) = (p', ms', n', Inr report) \<and>
     installed small_context long_history 0 ms' n' report"
proof -
  obtain p' ms' n' report where run:
    "compactify_messages_when_needed small_context long_history 0 (event_pipe [] ([], 0)) = (p', ms', n', Inr report)"
    and "cs_status report = StatusCompacted ''ok''"
    using sample_compaction by (auto split: prod.splits sum.splits)
  with compaction_keeps_bootstrap[OF run] show ?thesis by (intro exI conjI) auto
qed

theorem compaction_is_stable_witness:
  "\<exists>p' ms' n' report q' again.
     compactify_messages_when_needed small_context long_history 0 (event_pipe [] ([], 0)) = (p', ms', n', Inr report) \<and>
     compactify_messages_when_needed small_context ms' n' p' = (q', ms', n', Inr again) \<and> cs_status again = StatusOk"
proof -
  obtain p' ms' n' report where run:
    "compactify_messages_when_needed small_context long_history 0 (event_pipe [] ([], 0)) = (p', ms', n', Inr report)"
    and kept: "cs_status report = StatusCompacted ''ok''"
    and quiet: "case check_controls notes_environment p' of (q', Inl e) \<Rightarrow> False | (q', Inr u) \<Rightarrow> True"
    using sample_compaction by (auto split: prod.splits sum.splits)
  have env: "ch_environment (sm_host (cc_summarizer small_context)) = notes_environment"
    by (simp add: small_context_def learning_host_def)
  from quiet obtain q' where "check_controls notes_environment p' = (q', Inr ())"
    by (auto split: prod.splits sum.splits)
  with compaction_is_stable[OF run kept, unfolded env] run show ?thesis by blast
qed

theorem summary_is_short_enough_witness:
  "\<exists>p' rs. complete_with_length_limit (cc_summarizer small_context) [question] (Some 50) (Some 0) (event_pipe [] ([], 0))
      = (p', Inr ''ok'') \<and> answered_in_turn (cc_summarizer small_context) 50 [question] rs \<and> last rs = ''ok''"
proof -
  have "case complete_with_length_limit (cc_summarizer small_context) [question] (Some 50) (Some 0)
      (event_pipe [] ([], 0)) of (p', Inr d) \<Rightarrow> d = ''ok'' | _ \<Rightarrow> False"
    by code_simp
  then obtain p' where run: "complete_with_length_limit (cc_summarizer small_context) [question] (Some 50) (Some 0)
      (event_pipe [] ([], 0)) = (p', Inr ''ok'')"
    by (auto split: prod.splits sum.splits)
  have "accepted_max_chars 50 0 = 50" by code_simp
  with summary_is_short_enough[OF run] run show ?thesis by auto
qed

end
