(* ===== verification/Roboz_Frames.thy ===== *)
theory Roboz_Frames
  imports Complex_Main Roboz_Pipe Roboz_Control
begin

text \<open>
  The wire protocol of the script helper (\<open>shed/tools/safe_scripts/protocol.py\<close>): its messages,
  their frames and the reader that puts frames together from what a socket delivers. The JSON text
  that pydantic gives a message is a parameter, \<open>wire_codec\<close>; the clock, \<open>select\<close>, \<open>recv\<close> and
  the check of the caller are the record \<open>reader_host\<close> over a world of any type. Times are
  rationals. The reader polls and takes fuel: \<open>None\<close> is a read that has not ended yet.
\<close>

section \<open>Messages\<close>

datatype script_status = Listed | Success | Refused | Busy | ScriptFailed | ScriptTimeout | OutputLimit

text \<open>What the transport catches (\<open>OSError\<close>, \<open>ValueError\<close>) and what passes through it.\<close>

datatype script_error = OsFailure string | BadValue string | Unhandled exn

record completed =
  co_status :: script_status
  co_exit_code :: "int option"
  co_diagnostic :: string

datatype response = OutputChunk string | ScriptEntryMessage string string | Completed completed

record greeting =
  gr_protocol :: int
  gr_roboz :: string
  gr_timeout :: rat
  gr_max_output :: int

datatype wire = GreetingFrame greeting | RequestFrame "string option" | ResponseFrame response

definition MAX_DIAGNOSTIC_CHARS :: int where "MAX_DIAGNOSTIC_CHARS = 4096"
definition PROTOCOL_VERSION :: int where "PROTOCOL_VERSION = 2"
definition MAX_FRAME_BYTES :: int where "MAX_FRAME_BYTES = 524288"
definition HANDSHAKE_TIMEOUT_S :: rat where "HANDSHAKE_TIMEOUT_S = 3"
definition CLEANUP_DELIVERY_ALLOWANCE_S :: rat where "CLEANUP_DELIVERY_ALLOWANCE_S = 10"
definition STALLED_DELIVERY_TIMEOUT_S :: rat where "STALLED_DELIVERY_TIMEOUT_S = 5"

text \<open>\<open>Completed.validate_outcome\<close> and the bound of the field.\<close>

definition valid_completed :: "completed \<Rightarrow> bool" where
  "valid_completed c \<longleftrightarrow>
     (case co_status c of
        Success \<Rightarrow> co_exit_code c = Some 0
      | ScriptFailed \<Rightarrow> co_exit_code c \<noteq> Some 0
      | _ \<Rightarrow> co_exit_code c = None) \<and>
     int (length (co_diagnostic c)) \<le> MAX_DIAGNOSTIC_CHARS"

definition completed_outcome :: "script_status \<Rightarrow> int option \<Rightarrow> string \<Rightarrow> script_error + completed" where
  "completed_outcome status exit_code diagnostic =
     (let c = \<lparr>co_status = status, co_exit_code = exit_code,
               co_diagnostic = take (nat MAX_DIAGNOSTIC_CHARS) diagnostic\<rparr>
      in if valid_completed c then Inr c else Inl (BadValue ''validation error for Completed''))"

record execution_policy =
  po_timeout :: rat
  po_max_output :: int
  po_env_allowlist :: "string list"

definition RESERVED_SCRIPT_ENV :: "string list" where
  "RESERVED_SCRIPT_ENV =
     [''PATH'', ''BASH_ENV'', ''ENV'', ''SHELLOPTS'', ''BASHOPTS'', ''LD_PRELOAD'', ''LD_LIBRARY_PATH'',
      ''PYTHONPATH'']"

definition allowed_env_name :: "string \<Rightarrow> bool" where
  "allowed_env_name name \<longleftrightarrow>
     name \<noteq> [] \<and> CHR ''='' \<notin> set name \<and> CHR 0x00 \<notin> set name \<and> name \<notin> set RESERVED_SCRIPT_ENV"

definition execution_policy_of :: "rat \<Rightarrow> int \<Rightarrow> string list \<Rightarrow> script_error + execution_policy" where
  "execution_policy_of timeout max_output allowlist =
     (if timeout \<le> 0 \<or> max_output \<le> 0 then Inl (BadValue ''validation error for ExecutionPolicy'')
      else if list_ex (\<lambda>name. \<not> allowed_env_name name) allowlist
        then Inl (BadValue ''env_allowlist contains an invalid or reserved name'')
      else Inr \<lparr>po_timeout = timeout, po_max_output = max_output, po_env_allowlist = allowlist\<rparr>)"

definition greeting_policy :: "greeting \<Rightarrow> script_error + execution_policy" where
  "greeting_policy g =
     (if gr_protocol g \<noteq> PROTOCOL_VERSION then Inl (BadValue ''script helper protocol mismatch'')
      else execution_policy_of (gr_timeout g) (gr_max_output g) [])"

section \<open>Frames\<close>

record wire_codec =
  dump_json :: "wire \<Rightarrow> bytes"
  validate_json :: "bytes \<Rightarrow> wire option"

definition newline_byte :: nat where "newline_byte = 10"

definition frame_too_long :: script_error where
  "frame_too_long = BadValue ''script socket frame exceeds the transport limit''"

definition encode_frame :: "wire_codec \<Rightarrow> wire \<Rightarrow> script_error + bytes" where
  "encode_frame codec m =
     (let frame = dump_json codec m @ [newline_byte]
      in if MAX_FRAME_BYTES < int (length frame) then Inl frame_too_long else Inr frame)"

record 'w reader_host =
  rh_check :: "'w \<Rightarrow> 'w \<times> script_error option"
  rh_now :: "'w \<Rightarrow> rat"
  rh_ready :: "'w \<Rightarrow> 'w \<times> bool"
  rh_recv :: "'w \<Rightarrow> 'w \<times> (script_error + bytes)"

text \<open>The bytes before the first newline, and those behind it.\<close>

fun split_line :: "bytes \<Rightarrow> (bytes \<times> bytes) option" where
  "split_line [] = None"
| "split_line (b # bs) =
     (if b = newline_byte then Some ([], bs) else map_option (apfst (Cons b)) (split_line bs))"

definition decode_line :: "wire_codec \<Rightarrow> bytes \<Rightarrow> script_error + wire" where
  "decode_line codec line =
     (case validate_json codec line of
        None \<Rightarrow> Inl (BadValue ''validation error for the message'') | Some m \<Rightarrow> Inr m)"

fun read_frame ::
  "nat \<Rightarrow> 'w reader_host \<Rightarrow> wire_codec \<Rightarrow> rat \<Rightarrow> bytes \<Rightarrow> 'w
    \<Rightarrow> ('w \<times> bytes \<times> (script_error + wire)) option" where
  "read_frame 0 h codec deadline pending w = None"
| "read_frame (Suc n) h codec deadline pending w =
     (case rh_check h w of
        (w1, Some e) \<Rightarrow> Some (w1, pending, Inl e)
      | (w1, None) \<Rightarrow>
          if deadline \<le> rh_now h w1
          then Some (w1, pending, Inl (OsFailure ''script socket deadline expired''))
          else
            (case split_line pending of
               Some (line, rest) \<Rightarrow>
                 if MAX_FRAME_BYTES < int (length line) + 1 then Some (w1, pending, Inl frame_too_long)
                 else Some (w1, rest, decode_line codec line)
             | None \<Rightarrow>
                 if MAX_FRAME_BYTES \<le> int (length pending) then Some (w1, pending, Inl frame_too_long)
                 else
                   (case rh_ready h w1 of
                      (w2, False) \<Rightarrow> read_frame n h codec deadline pending w2
                    | (w2, True) \<Rightarrow>
                        (case rh_recv h w2 of
                           (w3, Inl e) \<Rightarrow> Some (w3, pending, Inl e)
                         | (w3, Inr []) \<Rightarrow> Some (w3, pending, Inl (OsFailure ''script helper disconnected''))
                         | (w3, Inr (b # bs)) \<Rightarrow> read_frame n h codec deadline (pending @ b # bs) w3))))"

declare read_frame.simps(2) [simp del]

section \<open>Lemmas\<close>

lemma split_line_Some: "split_line bs = Some (line, rest) \<longleftrightarrow> bs = line @ newline_byte # rest \<and> newline_byte \<notin> set line"
proof (induction bs arbitrary: line)
  case (Cons b bs)
  then show ?case by (cases line) (auto simp: apfst_def map_prod_def)
qed simp

lemma split_line_None: "split_line bs = None \<longleftrightarrow> newline_byte \<notin> set bs"
  by (induction bs) auto

text \<open>A socket that delivers, in order and at some chunking, the bytes that are to come.\<close>

definition delivers :: "'w reader_host \<Rightarrow> rat \<Rightarrow> ('w \<Rightarrow> bytes) \<Rightarrow> bool" where
  "delivers h deadline incoming \<longleftrightarrow>
     (\<forall>w. snd (rh_check h w) = None \<and> incoming (fst (rh_check h w)) = incoming w \<and> rh_now h w < deadline) \<and>
     (\<forall>w. incoming (fst (rh_ready h w)) = incoming w) \<and>
     (\<forall>w. incoming w \<noteq> [] \<longrightarrow> (\<exists>w' c. rh_recv h w = (w', Inr c) \<and> c \<noteq> [] \<and> incoming w = c @ incoming w'))"

definition sound_codec :: "wire_codec \<Rightarrow> wire \<Rightarrow> bool" where
  "sound_codec codec m \<longleftrightarrow> newline_byte \<notin> set (dump_json codec m) \<and> validate_json codec (dump_json codec m) = Some m"

lemma split_frame:
  assumes "newline_byte \<notin> set body" and "pending @ coming = body @ newline_byte # rest"
  shows "split_line pending = None \<and> length pending \<le> length body \<and> coming \<noteq> [] \<or>
    (\<exists>rest'. split_line pending = Some (body, rest') \<and> rest = rest' @ coming)"
proof (cases "length pending \<le> length body")
  case True
  then have p: "pending = take (length pending) body" and "coming \<noteq> []"
    using assms(2) by (auto simp: append_eq_append_conv_if split: if_splits)
  have "newline_byte \<notin> set pending" using assms(1) p by (metis in_set_takeD)
  with True \<open>coming \<noteq> []\<close> show ?thesis by (simp add: split_line_None)
next
  case False
  then have "take (length body) pending = body" and tl: "drop (length body) pending @ coming = newline_byte # rest"
    using assms(2) by (auto simp: append_eq_append_conv_if split: if_splits)
  moreover from tl False obtain rest' where "drop (length body) pending = newline_byte # rest'" "rest = rest' @ coming"
    by (cases "drop (length body) pending") auto
  ultimately have "pending = body @ newline_byte # rest'" "rest = rest' @ coming"
    by (metis append_take_drop_id)+
  with assms(1) show ?thesis by (auto simp: split_line_Some)
qed

text \<open>
  C25. However the socket cuts the bytes, a read returns the message whose frame is the first of
  the bytes read before and those to come, and leaves what is behind that frame.
\<close>

theorem frame_is_read_back:
  assumes "delivers h deadline incoming" and "sound_codec codec m"
    and "encode_frame codec m = Inr frame" and "pending @ incoming w = frame @ rest"
    and "read_frame n h codec deadline pending w = Some (w', pending', r)"
  shows "r = Inr m \<and> pending' @ incoming w' = rest"
  using assms(4,5)
proof (induction n arbitrary: pending w)
  case (Suc n)
  let ?body = "dump_json codec m"
  have frame: "frame = ?body @ [newline_byte]" and short: "int (length ?body) + 1 \<le> MAX_FRAME_BYTES"
    using assms(3) by (auto simp: encode_frame_def Let_def split: if_splits)
  have fresh: "newline_byte \<notin> set ?body" and decoded: "decode_line codec ?body = Inr m"
    using assms(2) by (auto simp: sound_codec_def decode_line_def)
  obtain w1 where w1: "rh_check h w = (w1, None)" "incoming w1 = incoming w" "\<not> deadline \<le> rh_now h w1"
    using assms(1) unfolding delivers_def by (metis not_le prod.collapse)
  have coming: "pending @ incoming w1 = ?body @ newline_byte # rest" using Suc.prems(1) frame w1(2) by simp
  from split_frame[OF fresh this] show ?case
  proof (elim disjE exE conjE)
    fix rest' assume "split_line pending = Some (?body, rest')" "rest = rest' @ incoming w1"
    with Suc.prems(2) w1 short decoded show ?thesis by (simp add: read_frame.simps(2))
  next
    assume none: "split_line pending = None" "length pending \<le> length ?body" "incoming w1 \<noteq> []"
    obtain w2 ready where w2: "rh_ready h w1 = (w2, ready)" "incoming w2 = incoming w1"
      using assms(1) unfolding delivers_def by (metis prod.collapse)
    with none(3) obtain w3 c where w3: "rh_recv h w2 = (w3, Inr c)" "c \<noteq> []" "incoming w2 = c @ incoming w3"
      using assms(1) unfolding delivers_def by metis
    from w3(2) obtain b bs where c: "c = b # bs" by (cases c) auto
    have "\<not> MAX_FRAME_BYTES \<le> int (length pending)" using none(2) short by simp
    then have "read_frame n h codec deadline (if ready then pending @ c else pending) (if ready then w3 else w2) =
        Some (w', pending', r)"
      using Suc.prems(2) w1 none(1) w2(1) w3(1) c by (cases ready) (simp_all add: read_frame.simps(2))
    moreover have "(if ready then pending @ c else pending) @ incoming (if ready then w3 else w2) = frame @ rest"
      using coming frame w2(2) w3(3) by auto
    ultimately show ?thesis by (rule Suc.IH[rotated])
  qed
qed simp

section \<open>A read ends\<close>

text \<open>
  A clock that no operation moves back and that a \<open>select\<close> which finds nothing moves forward by
  its timeout, and a \<open>recv\<close> that returns at most what it was asked for.
\<close>

definition ticking :: "'w reader_host \<Rightarrow> bool" where
  "ticking h \<longleftrightarrow>
     (\<forall>w. rh_now h w \<le> rh_now h (fst (rh_check h w))) \<and>
     (\<forall>w. rh_now h w + (if snd (rh_ready h w) then 0 else 1 / 10) \<le> rh_now h (fst (rh_ready h w))) \<and>
     (\<forall>w. rh_now h w \<le> rh_now h (fst (rh_recv h w)))"

definition recv_bounded :: "'w reader_host \<Rightarrow> bool" where
  "recv_bounded h \<longleftrightarrow> (\<forall>w w' c. rh_recv h w = (w', Inr c) \<longrightarrow> length c \<le> 65536)"

lemma tickingD:
  assumes "ticking h"
  shows "rh_check h w = (w1, e) \<Longrightarrow> rh_now h w \<le> rh_now h w1"
    and "rh_ready h w = (w1, True) \<Longrightarrow> rh_now h w \<le> rh_now h w1"
    and "rh_ready h w = (w1, False) \<Longrightarrow> rh_now h w + 1 / 10 \<le> rh_now h w1"
    and "rh_recv h w = (w1, r) \<Longrightarrow> rh_now h w \<le> rh_now h w1"
  using assms unfolding ticking_def by (metis fst_conv snd_conv add_0_right)+

lemma read_frame_ends:
  assumes "ticking h"
  shows "10 * (deadline - rh_now h w) \<le> of_nat a \<Longrightarrow> MAX_FRAME_BYTES - int (length pending) \<le> int b \<Longrightarrow>
    read_frame (Suc (a + b)) h codec deadline pending w \<noteq> None"
proof (induction "a + b" arbitrary: a b pending w)
  case 0
  obtain w1 e where "rh_check h w = (w1, e)" by fastforce
  with tickingD(1)[OF assms this] 0 show ?case by (cases e) (auto simp: read_frame.simps(2))
next
  case (Suc n)
  note step = read_frame.simps(2)
  obtain w1 e where w1: "rh_check h w = (w1, e)" by fastforce
  note look = tickingD(1)[OF assms w1]
  show ?case
  proof (cases "e = None \<and> \<not> deadline \<le> rh_now h w1 \<and> split_line pending = None \<and>
      \<not> MAX_FRAME_BYTES \<le> int (length pending)")
    case True
    then obtain a' b' where a': "a = Suc a'" and b': "b = Suc b'"
      using Suc.prems look by (cases a; cases b) auto
    obtain w2 ready where w2: "rh_ready h w1 = (w2, ready)" by fastforce
    show ?thesis
    proof (cases ready)
      case False
      then have "10 * (deadline - rh_now h w2) \<le> of_nat a'"
        using tickingD(3)[OF assms] w2 look Suc.prems(1) a' by fastforce
      from Suc.hyps(1)[OF _ this Suc.prems(2)] Suc.hyps(2) a' True w1 w2 False show ?thesis
        by (simp add: step[of "Suc (a' + b)"])
    next
      case ready: True
      obtain w3 r where w3: "rh_recv h w2 = (w3, r)" by fastforce
      have "rh_now h w \<le> rh_now h w3"
        using tickingD(2)[OF assms w2[unfolded eqTrueI[OF ready]]] tickingD(4)[OF assms w3] look by linarith
      then have later: "10 * (deadline - rh_now h w3) \<le> of_nat a" using Suc.prems(1) by (simp add: algebra_simps)
      show ?thesis
      proof (cases "\<exists>c cs. r = Inr (c # cs)")
        case True
        then obtain c cs where r: "r = Inr (c # cs)" by blast
        have "MAX_FRAME_BYTES - int (length (pending @ c # cs)) \<le> int b'" using Suc.prems(2) b' by simp
        from Suc.hyps(1)[OF _ later this] Suc.hyps(2) b' \<open>e = None \<and> _\<close> w1 w2 ready w3 r show ?thesis
          by (simp add: step[of "Suc (a + b')"])
      next
        case False
        then show ?thesis using \<open>e = None \<and> _\<close> w1 w2 ready w3
          by (auto simp: step split: sum.splits list.splits)
      qed
    qed
  next
    case False
    with w1 show ?thesis by (auto simp: step split: option.splits)
  qed
qed

lemma read_frame_bounded:
  assumes "recv_bounded h"
  shows "read_frame n h codec deadline pending w = Some (w', pending', r) \<Longrightarrow>
    int (length pending) < MAX_FRAME_BYTES + 65536 \<Longrightarrow> int (length pending') < MAX_FRAME_BYTES + 65536"
proof (induction n arbitrary: pending w)
  case (Suc n)
  have "int (length (pending @ c)) < MAX_FRAME_BYTES + 65536"
    if "\<not> MAX_FRAME_BYTES \<le> int (length pending)" "rh_recv h w2 = (w3, Inr c)" for c w2 w3
    using that assms unfolding recv_bounded_def by fastforce
  moreover have "length rest \<le> length pending" if "split_line pending = Some (line, rest)" for line rest
    using that by (auto simp: split_line_Some)
  ultimately show ?case using Suc.prems Suc.IH
    by (auto simp: read_frame.simps(2) split: prod.splits option.splits if_splits bool.splits sum.splits list.splits)
      (fastforce)+
qed simp

text \<open>
  A read ends, with a message or an error: ten polls for every second that is left and one for
  every byte that a frame may have are enough; and no peer makes the reader keep more than a frame
  and one chunk.
\<close>

theorem reading_ends_bounded:
  assumes "ticking h" and "recv_bounded h"
    and "int (length pending) < MAX_FRAME_BYTES + 65536"
    and "fuel = Suc (nat \<lceil>10 * (deadline - rh_now h w)\<rceil> + nat MAX_FRAME_BYTES)"
  shows "\<exists>w' pending' r. read_frame fuel h codec deadline pending w = Some (w', pending', r) \<and>
    int (length pending') < MAX_FRAME_BYTES + 65536"
proof -
  have "10 * (deadline - rh_now h w) \<le> of_nat (nat \<lceil>10 * (deadline - rh_now h w)\<rceil>)"
    by (rule of_nat_ceiling)
  moreover have "MAX_FRAME_BYTES - int (length pending) \<le> int (nat MAX_FRAME_BYTES)" by simp
  ultimately have "read_frame fuel h codec deadline pending w \<noteq> None"
    unfolding assms(4) by (rule read_frame_ends[OF assms(1)])
  then obtain w' pending' r where "read_frame fuel h codec deadline pending w = Some (w', pending', r)"
    by (metis option.exhaust prod_cases3)
  with read_frame_bounded[OF assms(2) this assms(3)] show ?thesis by blast
qed

section \<open>Examples\<close>

text \<open>A socket whose world is the list of the chunks that were sent.\<close>

definition chunk_recv :: "bytes list \<Rightarrow> bytes list \<times> (script_error + bytes)" where
  "chunk_recv w =
     (case filter (\<lambda>c. c \<noteq> []) w of
        [] \<Rightarrow> ([], Inr [])
      | c # cs \<Rightarrow> (drop 65536 c # cs, Inr (take 65536 c)))"

definition chunk_socket :: "bytes list reader_host" where
  "chunk_socket =
     \<lparr>rh_check = (\<lambda>w. (w, None)), rh_now = (\<lambda>w. 0), rh_ready = (\<lambda>w. (w, True)), rh_recv = chunk_recv\<rparr>"

definition tiny_codec :: wire_codec where
  "tiny_codec = \<lparr>dump_json = (\<lambda>m. [7]), validate_json = (\<lambda>bs. Some (RequestFrame None))\<rparr>"

lemma concat_nonempty: "concat (filter (\<lambda>c. c \<noteq> []) w) = concat w"
  by (induction w) auto

lemma chunk_socket_delivers: "delivers chunk_socket 3 concat"
proof -
  have "\<exists>w' c. chunk_recv w = (w', Inr c) \<and> c \<noteq> [] \<and> concat w = c @ concat w'" if "concat w \<noteq> []" for w
  proof -
    from that concat_nonempty[of w] obtain c cs where w: "filter (\<lambda>c. c \<noteq> []) w = c # cs"
      by (cases "filter (\<lambda>c. c \<noteq> []) w") auto
    then have "c \<noteq> []" by (metis (mono_tags, lifting) list.set_intros(1) mem_Collect_eq set_filter)
    moreover have "concat w = c @ concat cs" using concat_nonempty[of w] w by simp
    ultimately show ?thesis using w by (auto simp: chunk_recv_def)
  qed
  then show ?thesis by (simp add: delivers_def chunk_socket_def)
qed

theorem frame_is_read_back_witness:
  "\<exists>w'. read_frame 4 chunk_socket tiny_codec 3 [] [[7], [10, 8]] = Some (w', [8], Inr (RequestFrame None))"
proof -
  have four: "(4 :: nat) = Suc (Suc (Suc (Suc 0)))" by simp
  have "read_frame 4 chunk_socket tiny_codec 3 [] [[7], [10, 8]] \<noteq> None"
    unfolding four
    by (simp add: read_frame.simps(2) chunk_socket_def chunk_recv_def MAX_FRAME_BYTES_def newline_byte_def)
  then obtain w' pending r where run: "read_frame 4 chunk_socket tiny_codec 3 [] [[7], [10, 8]] = Some (w', pending, r)"
    by (metis option.exhaust prod_cases3)
  have "encode_frame tiny_codec (RequestFrame None) = Inr [7, 10]"
    by (simp add: encode_frame_def tiny_codec_def newline_byte_def MAX_FRAME_BYTES_def)
  moreover have "sound_codec tiny_codec (RequestFrame None)"
    by (simp add: sound_codec_def tiny_codec_def newline_byte_def)
  ultimately have "r = Inr (RequestFrame None) \<and> pending @ concat w' = [8]"
    using frame_is_read_back[OF chunk_socket_delivers _ _ _ run, of "RequestFrame None" "[7, 10]" "[8]"] by simp
  moreover from run have "pending \<noteq> []"
    unfolding four
    by (auto simp: read_frame.simps(2) chunk_socket_def chunk_recv_def MAX_FRAME_BYTES_def newline_byte_def)
  ultimately show ?thesis using run by (cases pending) auto
qed

theorem reading_ends_bounded_witness:
  "\<exists>w' pending' r. read_frame (Suc (30 + nat MAX_FRAME_BYTES)) chunk_socket tiny_codec 3 [] [[1], [2]] =
    Some (w', pending', r)"
proof -
  have "ticking chunk_socket" by (simp add: ticking_def chunk_socket_def)
  moreover have "recv_bounded chunk_socket"
    by (auto simp: recv_bounded_def chunk_socket_def chunk_recv_def split: list.splits)
  ultimately show ?thesis
    using reading_ends_bounded[of chunk_socket "[]" "Suc (30 + nat MAX_FRAME_BYTES)" 3 "[[1], [2]]" tiny_codec]
    by (auto simp: MAX_FRAME_BYTES_def chunk_socket_def)
qed

end
