(* ===== verification/Roboz_Scripts.thy ===== *)
theory Roboz_Scripts
  imports Roboz_Frames Roboz_Paths Roboz_Strings
begin

text \<open>
  Discovery and execution of trusted scripts (\<open>shed/tools/safe_scripts/server.py\<close>). The event
  generator is a function that hands each event to its consumer, which says whether it goes on;
  a consumer that does not closes the generator at that event. The process, the clock, the gate,
  the text decoder and the check of the caller are the record \<open>script_host\<close> over a world of any
  type; loops take fuel, and \<open>OutOfFuel\<close> is a generator that is still running.
\<close>

section \<open>Generators\<close>

datatype 'a gen_end = Finished 'a | Failing script_error | Expired | Abandoned | StillRunning

definition gbind :: "'w \<times> 'a gen_end \<Rightarrow> ('w \<Rightarrow> 'a \<Rightarrow> 'w \<times> 'b gen_end) \<Rightarrow> 'w \<times> 'b gen_end" where
  "gbind m f =
     (case m of
        (w, Finished x) \<Rightarrow> f w x
      | (w, Failing e) \<Rightarrow> (w, Failing e)
      | (w, Expired) \<Rightarrow> (w, Expired)
      | (w, Abandoned) \<Rightarrow> (w, Abandoned)
      | (w, StillRunning) \<Rightarrow> (w, StillRunning))"

definition glift :: "'w \<Rightarrow> script_error + 'a \<Rightarrow> 'w \<times> 'a gen_end" where
  "glift w r = (case r of Inl e \<Rightarrow> (w, Failing e) | Inr x \<Rightarrow> (w, Finished x))"

datatype kill_signal = SIGTERM | SIGKILL | Probe

record 'w script_host =
  sh_check_cancelled :: "'w \<Rightarrow> 'w \<times> script_error option"
  sh_now :: "'w \<Rightarrow> rat"
  sh_tree :: "'w \<Rightarrow> node"
  sh_acquire :: "'w \<Rightarrow> 'w \<times> bool"
  sh_release :: "'w \<Rightarrow> 'w"
  sh_environ :: "'w \<Rightarrow> (string \<times> string) list"
  sh_require_bash :: "'w \<Rightarrow> 'w \<times> (script_error + string)"
  sh_spawn :: "string list \<Rightarrow> (string \<times> string) list \<Rightarrow> 'w \<Rightarrow> 'w \<times> (script_error + unit)"
  sh_poll :: "'w \<Rightarrow> 'w \<times> int option"
  sh_select :: "bool \<Rightarrow> 'w \<Rightarrow> 'w \<times> (script_error + bool)"
  sh_read :: "'w \<Rightarrow> 'w \<times> (script_error + bytes)"
  sh_decode :: "bytes \<Rightarrow> bool \<Rightarrow> 'w \<Rightarrow> 'w \<times> string"
  sh_killpg :: "kill_signal \<Rightarrow> 'w \<Rightarrow> 'w \<times> bool"
  sh_sleep :: "rat \<Rightarrow> 'w \<Rightarrow> 'w"
  sh_close :: "'w \<Rightarrow> 'w"
  sh_path_prefix :: string

type_synonym 'w consumer = "response \<Rightarrow> 'w \<Rightarrow> 'w \<times> bool"

definition yield_event :: "'w consumer \<Rightarrow> response \<Rightarrow> 'w \<Rightarrow> 'w \<times> unit gen_end" where
  "yield_event consume ev w = (case consume ev w of (w1, True) \<Rightarrow> (w1, Finished ()) | (w1, False) \<Rightarrow> (w1, Abandoned))"

text \<open>The \<open>check\<close> of \<open>events\<close>.\<close>

definition script_check :: "'w script_host \<Rightarrow> rat \<Rightarrow> 'w \<Rightarrow> 'w \<times> unit gen_end" where
  "script_check h deadline w =
     (case sh_check_cancelled h w of
        (w1, Some e) \<Rightarrow> (w1, Failing e)
      | (w1, None) \<Rightarrow> if deadline \<le> sh_now h w1 then (w1, Expired) else (w1, Finished ()))"

section \<open>Installed scripts\<close>

text \<open>\<open>PureWindowsPath(name).is_absolute()\<close>.\<close>

definition windows_absolute :: "string \<Rightarrow> bool" where
  "windows_absolute name =
     (let s = map (\<lambda>c. if c = CHR ''/'' then CHR 0x5C else c) (take 3 name)
      in prefix [CHR 0x5C, CHR 0x5C] s \<or> prefix [CHR '':'', CHR 0x5C] (drop 1 s))"

definition sh_suffix :: "string list \<Rightarrow> bool" where
  "sh_suffix parts \<longleftrightarrow> parts \<noteq> [] \<and> suffix ''.sh'' (last parts) \<and> 3 < length (last parts)"

definition valid_script :: "node \<Rightarrow> path \<Rightarrow> string \<Rightarrow> path option" where
  "valid_script fs base name =
     (let parts = pure_parts name
      in if name = [] \<or> prefix [slash] name \<or> windows_absolute name \<or> ''..'' \<in> set parts \<or>
            \<not> sh_suffix parts \<or> is_symlink fs base
         then None
         else if list_ex (\<lambda>i. is_symlink fs (base @ take (Suc i) parts)) [0..<length parts] then None
         else if is_file fs (base @ parts) \<and> prefix (resolve fs base) (resolve fs (base @ parts))
           then Some (base @ parts)
         else None)"

section \<open>Descriptions\<close>

definition OUTPUT_CHUNK_BYTES :: int where "OUTPUT_CHUNK_BYTES = 4096"
definition DESCRIPTION_CHARS :: nat where "DESCRIPTION_CHARS = 512"

definition line_end :: char where "line_end = CHR 0x0A"

text \<open>\<open>readline(limit)\<close>, on the text that is left.\<close>

fun readline :: "int \<Rightarrow> string \<Rightarrow> string" where
  "readline limit [] = []"
| "readline limit (c # cs) =
     (if limit \<le> 0 then [] else if c = line_end then [c] else c # readline (limit - 1) cs)"

text \<open>What a line says: \<open>None\<close> lets the loop go on.\<close>

definition describe_line :: "nat \<Rightarrow> string \<Rightarrow> string option" where
  "describe_line index line =
     (if index = 0 \<and> prefix ''#!'' line then None
      else if prefix ''#'' line
        then (if py_strip (tl line) = [] then None else Some (take DESCRIPTION_CHARS (py_strip (tl line))))
      else if py_strip line = [] then None
      else Some [])"

lemma readline_pos: "0 < limit \<Longrightarrow> readline limit s = [] \<longleftrightarrow> s = []"
  by (cases s) auto

function description_loop ::
  "'w script_host \<Rightarrow> rat \<Rightarrow> nat \<Rightarrow> string \<Rightarrow> string \<Rightarrow> 'w \<Rightarrow> 'w \<times> string gen_end" where
  "description_loop h deadline index parts s w =
     (case script_check h deadline w of
        (w1, Finished _) \<Rightarrow>
          if readline OUTPUT_CHUNK_BYTES s \<noteq> [] \<and> last (readline OUTPUT_CHUNK_BYTES s) \<noteq> line_end
          then description_loop h deadline index (parts @ readline OUTPUT_CHUNK_BYTES s)
                 (drop (length (readline OUTPUT_CHUNK_BYTES s)) s) w1
          else
            (case describe_line index (parts @ readline OUTPUT_CHUNK_BYTES s) of
               Some d \<Rightarrow> (w1, Finished d)
             | None \<Rightarrow>
                 if readline OUTPUT_CHUNK_BYTES s = [] then (w1, Finished [])
                 else description_loop h deadline (Suc index) []
                        (drop (length (readline OUTPUT_CHUNK_BYTES s)) s) w1)
      | (w1, Failing e) \<Rightarrow> (w1, Failing e)
      | (w1, Expired) \<Rightarrow> (w1, Expired)
      | (w1, Abandoned) \<Rightarrow> (w1, Abandoned)
      | (w1, StillRunning) \<Rightarrow> (w1, StillRunning))"
  by pat_completeness auto
termination
  by (relation "measure (\<lambda>(h, deadline, index, parts, s, w). length s)")
    (auto simp: readline_pos OUTPUT_CHUNK_BYTES_def length_greater_0_conv
      simp del: length_greater_0_conv intro!: diff_less)

declare description_loop.simps [simp del]

definition description_of :: "'w script_host \<Rightarrow> rat \<Rightarrow> path \<Rightarrow> 'w \<Rightarrow> 'w \<times> string gen_end" where
  "description_of h deadline file w =
     (case stat (sh_tree h w) file of
        Inr (Reg d i n body) \<Rightarrow> description_loop h deadline 0 [] (translate_newlines body) w
      | _ \<Rightarrow> (w, Failing (OsFailure ''No such file or directory'')))"

section \<open>Discovery\<close>

definition scandir_items :: "node \<Rightarrow> path \<Rightarrow> script_error + (string \<times> node) list" where
  "scandir_items fs dir =
     (case stat fs dir of
        Inr (Dir d i es) \<Rightarrow>
          Inr (concat (map (\<lambda>c. case child (Dir d i es) c of None \<Rightarrow> [] | Some n \<Rightarrow> [(c, n)]) (entry_names es)))
      | _ \<Rightarrow> Inl (OsFailure ''cannot read the directory''))"

fun scan_items ::
  "'w script_host \<Rightarrow> 'w consumer \<Rightarrow> rat \<Rightarrow> path \<Rightarrow> string list \<Rightarrow> (string \<times> node) list \<Rightarrow> string list list \<Rightarrow> 'w
    \<Rightarrow> 'w \<times> string list list gen_end" where
  "scan_items h consume deadline base rel [] directories w = (w, Finished directories)"
| "scan_items h consume deadline base rel ((c, n) # items) directories w =
     gbind (script_check h deadline w) (\<lambda>w1 _.
       if is_dir_node n then scan_items h consume deadline base rel items (directories @ [rel @ [c]]) w1
       else if is_reg_node n then
         (case valid_script (sh_tree h w1) base (join_with [slash] (rel @ [c])) of
            None \<Rightarrow> scan_items h consume deadline base rel items directories w1
          | Some file \<Rightarrow>
              gbind (description_of h deadline file w1) (\<lambda>w2 d.
                gbind (yield_event consume (ScriptEntryMessage (join_with [slash] (rel @ [c])) d) w2) (\<lambda>w3 _.
                  scan_items h consume deadline base rel items directories w3)))
       else scan_items h consume deadline base rel items directories w1)"

fun discover_loop ::
  "nat \<Rightarrow> 'w script_host \<Rightarrow> 'w consumer \<Rightarrow> rat \<Rightarrow> path \<Rightarrow> string list list \<Rightarrow> 'w \<Rightarrow> 'w \<times> completed gen_end" where
  "discover_loop 0 h consume deadline base directories w = (w, StillRunning)"
| "discover_loop (Suc n) h consume deadline base directories w =
     (if directories = [] then
        gbind (script_check h deadline w) (\<lambda>w1 _. glift w1 (completed_outcome Listed None []))
      else
        gbind (script_check h deadline w) (\<lambda>w1 _.
          gbind (glift w1 (scandir_items (sh_tree h w1) (base @ last directories))) (\<lambda>w2 items.
            gbind (scan_items h consume deadline base (last directories) items (butlast directories) w2)
              (\<lambda>w3 ds. discover_loop n h consume deadline base ds w3))))"

definition discover ::
  "nat \<Rightarrow> 'w script_host \<Rightarrow> 'w consumer \<Rightarrow> rat \<Rightarrow> path \<Rightarrow> 'w \<Rightarrow> 'w \<times> completed gen_end" where
  "discover fuel h consume deadline base w =
     (if is_symlink (sh_tree h w) base
      then glift w (completed_outcome Refused None ''script directory is a symlink'')
      else if \<not> is_dir (sh_tree h w) base
      then glift w (completed_outcome Listed None ''script directory is absent; install trusted .sh files'')
      else discover_loop fuel h consume deadline base [[]] w)"

section \<open>Execution\<close>

definition script_environment ::
  "string \<Rightarrow> (string \<times> string) list \<Rightarrow> string list \<Rightarrow> (string \<times> string) list" where
  "script_environment search_path environ allowlist =
     foldl (\<lambda>env key. case map_of environ key of None \<Rightarrow> env | Some v \<Rightarrow> dict_set key v env)
       [(''PATH'', search_path), (''LANG'', ''C.UTF-8'')] allowlist"

definition PROCESS_CLEANUP_TIMEOUT_S :: rat where "PROCESS_CLEANUP_TIMEOUT_S = 2"

text \<open>Wait for the group to go; \<open>killpg\<close> that finds no process ends the cleanup.\<close>

fun await_group :: "nat \<Rightarrow> 'w script_host \<Rightarrow> rat \<Rightarrow> 'w \<Rightarrow> 'w \<times> bool option" where
  "await_group 0 h deadline w = (w, None)"
| "await_group (Suc n) h deadline w =
     (if sh_now h w < deadline
      then (case sh_killpg h Probe (fst (sh_poll h w)) of
              (w1, False) \<Rightarrow> (w1, Some False)
            | (w1, True) \<Rightarrow> await_group n h deadline (sh_sleep h (1 / 20) w1))
      else (w, Some True))"

definition terminate :: "nat \<Rightarrow> 'w script_host \<Rightarrow> 'w \<Rightarrow> 'w \<times> unit gen_end" where
  "terminate fuel h w =
     (case sh_killpg h SIGTERM w of
        (w1, False) \<Rightarrow> (w1, Finished ())
      | (w1, True) \<Rightarrow>
          (case await_group fuel h (sh_now h w1 + PROCESS_CLEANUP_TIMEOUT_S) w1 of
             (w2, None) \<Rightarrow> (w2, StillRunning)
           | (w2, Some False) \<Rightarrow> (w2, Finished ())
           | (w2, Some True) \<Rightarrow> (fst (sh_killpg h SIGKILL w2), Finished ())))"

text \<open>
  How the loop over the output ends: the process exited, or the code cut it off. One iteration
  says whether there is another, with the stream open or not and how many bytes remain.
\<close>

datatype run_end = Exited int | CutOff completed
datatype loop_step = Again bool int | Ended run_end

definition cut_off :: "'w \<Rightarrow> script_status \<Rightarrow> string \<Rightarrow> 'w \<times> loop_step gen_end" where
  "cut_off w status diagnostic =
     gbind (glift w (completed_outcome status None diagnostic)) (\<lambda>w1 c. (w1, Finished (Ended (CutOff c))))"

definition chunk_step ::
  "'w script_host \<Rightarrow> 'w consumer \<Rightarrow> bool \<Rightarrow> int \<Rightarrow> bytes \<Rightarrow> 'w \<Rightarrow> 'w \<times> loop_step gen_end" where
  "chunk_step h consume streaming remaining chunk w =
     (if chunk = [] then (w, Finished (Again False remaining))
      else
        (case sh_decode h (take (nat remaining) chunk) False w of
           (w1, txt) \<Rightarrow>
             gbind (if txt = [] then (w1, Finished ()) else yield_event consume (OutputChunk txt) w1) (\<lambda>w2 _.
               if remaining - int (length chunk) < 0 then cut_off w2 OutputLimit []
               else (w2, Finished (Again streaming (remaining - int (length chunk)))))))"

definition read_step ::
  "'w script_host \<Rightarrow> 'w consumer \<Rightarrow> bool \<Rightarrow> int \<Rightarrow> 'w \<Rightarrow> 'w \<times> loop_step gen_end" where
  "read_step h consume streaming remaining w =
     (case sh_select h streaming w of
        (w1, Inl e) \<Rightarrow> (w1, Failing e)
      | (w1, Inr False) \<Rightarrow> (w1, Finished (Again streaming remaining))
      | (w1, Inr True) \<Rightarrow>
          (case sh_read h w1 of
             (w2, Inl e) \<Rightarrow> (w2, Failing e)
           | (w2, Inr chunk) \<Rightarrow> chunk_step h consume streaming remaining chunk w2))"

text \<open>The \<open>except\<close> clauses around the loop.\<close>

definition caught :: "'w \<times> loop_step gen_end \<Rightarrow> 'w \<times> loop_step gen_end" where
  "caught m =
     (case m of
        (w, Expired) \<Rightarrow> cut_off w ScriptTimeout []
      | (w, Failing (OsFailure e)) \<Rightarrow> cut_off w ScriptFailed e
      | _ \<Rightarrow> m)"

definition output_step ::
  "'w script_host \<Rightarrow> 'w consumer \<Rightarrow> rat \<Rightarrow> bool \<Rightarrow> int \<Rightarrow> 'w \<Rightarrow> 'w \<times> loop_step gen_end" where
  "output_step h consume deadline streaming remaining w =
     (case (if streaming then (w, None) else sh_poll h w) of
        (w1, Some code) \<Rightarrow> (w1, Finished (Ended (Exited code)))
      | (w1, None) \<Rightarrow>
          caught (gbind (script_check h deadline w1) (\<lambda>w2 _. read_step h consume streaming remaining w2)))"

fun output_loop ::
  "nat \<Rightarrow> 'w script_host \<Rightarrow> 'w consumer \<Rightarrow> rat \<Rightarrow> bool \<Rightarrow> int \<Rightarrow> 'w \<Rightarrow> 'w \<times> run_end gen_end" where
  "output_loop 0 h consume deadline streaming remaining w = (w, StillRunning)"
| "output_loop (Suc n) h consume deadline streaming remaining w =
     gbind (output_step h consume deadline streaming remaining w) (\<lambda>w1 next.
       case next of
         Ended r \<Rightarrow> (w1, Finished r)
       | Again streaming' remaining' \<Rightarrow> output_loop n h consume deadline streaming' remaining' w1)"

definition final_tail :: "'w script_host \<Rightarrow> 'w consumer \<Rightarrow> run_end \<Rightarrow> 'w \<Rightarrow> 'w \<times> completed gen_end" where
  "final_tail h consume r w =
     (case sh_decode h [] True w of
        (w1, tail) \<Rightarrow>
          gbind (if tail = [] then (w1, Finished ()) else yield_event consume (OutputChunk tail) w1) (\<lambda>w2 _.
            case r of
              CutOff c \<Rightarrow> (w2, Finished c)
            | Exited code \<Rightarrow> glift w2 (completed_outcome (if code = 0 then Success else ScriptFailed) (Some code) [])))"

text \<open>The callbacks of the exit stack, however the block was left.\<close>

definition with_process :: "nat \<Rightarrow> 'w script_host \<Rightarrow> 'w \<times> 'a gen_end \<Rightarrow> 'w \<times> 'a gen_end" where
  "with_process fuel h m =
     (case m of
        (w, StillRunning) \<Rightarrow> (w, StillRunning)
      | (w, r) \<Rightarrow>
          (case terminate fuel h w of
             (w1, StillRunning) \<Rightarrow> (w1, StillRunning)
           | (w1, _) \<Rightarrow> (sh_close h w1, r)))"

definition with_gate :: "'w script_host \<Rightarrow> 'w \<times> 'a gen_end \<Rightarrow> 'w \<times> 'a gen_end" where
  "with_gate h m = (case m of (w, StillRunning) \<Rightarrow> (w, StillRunning) | (w, r) \<Rightarrow> (sh_release h w, r))"

definition start_process :: "'w script_host \<Rightarrow> execution_policy \<Rightarrow> path \<Rightarrow> (string \<times> string) list \<Rightarrow> 'w \<Rightarrow> 'w \<times> unit gen_end" where
  "start_process h pol file env w =
     gbind (case sh_require_bash h w of (w1, r) \<Rightarrow> glift w1 r) (\<lambda>w1 bash.
       case sh_spawn h [bash, ''--noprofile'', ''--norc'', posix_abs file] env w1 of (w2, r) \<Rightarrow> glift w2 r)"

definition execute_script ::
  "nat \<Rightarrow> 'w script_host \<Rightarrow> 'w consumer \<Rightarrow> execution_policy \<Rightarrow> rat \<Rightarrow> path \<Rightarrow> 'w \<Rightarrow> 'w \<times> completed gen_end" where
  "execute_script fuel h consume pol deadline file w =
     (let env = script_environment (sh_path_prefix h) (sh_environ h w) (po_env_allowlist pol)
      in case sh_acquire h w of
           (w1, False) \<Rightarrow> glift w1 (completed_outcome Busy None ''another script is running'')
         | (w1, True) \<Rightarrow>
             with_gate h
               (gbind (script_check h deadline w1) (\<lambda>w2 _.
                  gbind (start_process h pol file env w2) (\<lambda>w3 _.
                    with_process fuel h
                      (gbind (output_loop fuel h consume deadline True (po_max_output pol) w3) (\<lambda>w4 r.
                         final_tail h consume r w4))))))"

section \<open>The event stream\<close>

definition script_body ::
  "nat \<Rightarrow> 'w script_host \<Rightarrow> 'w consumer \<Rightarrow> execution_policy \<Rightarrow> path \<Rightarrow> string option \<Rightarrow> rat \<Rightarrow> 'w
    \<Rightarrow> 'w \<times> completed gen_end" where
  "script_body fuel h consume pol base wanted deadline w =
     gbind (script_check h deadline w) (\<lambda>w1 _.
       case wanted of
         None \<Rightarrow> discover fuel h consume deadline base w1
       | Some name \<Rightarrow>
           (case valid_script (sh_tree h w1) base name of
              None \<Rightarrow> glift w1 (completed_outcome Refused None ''only installed .sh files may run'')
            | Some file \<Rightarrow> execute_script fuel h consume pol deadline file w1))"

text \<open>The \<open>except\<close> clauses of \<open>events\<close>.\<close>

definition settle_events :: "'w \<times> completed gen_end \<Rightarrow> 'w \<times> completed gen_end" where
  "settle_events m =
     (case m of
        (w, Expired) \<Rightarrow> glift w (completed_outcome ScriptTimeout None [])
      | (w, Failing (OsFailure e)) \<Rightarrow> glift w (completed_outcome ScriptFailed None e)
      | (w, Failing (BadValue e)) \<Rightarrow> glift w (completed_outcome ScriptFailed None e)
      | _ \<Rightarrow> m)"

definition script_events ::
  "nat \<Rightarrow> 'w script_host \<Rightarrow> 'w consumer \<Rightarrow> execution_policy \<Rightarrow> path \<Rightarrow> string option \<Rightarrow> 'w \<Rightarrow> 'w \<times> unit gen_end" where
  "script_events fuel h consume pol base wanted w =
     gbind (settle_events (script_body fuel h consume pol base wanted (sh_now h w + po_timeout pol) w))
       (\<lambda>w1 c. yield_event consume (Completed c) w1)"

section \<open>What a host notes\<close>

datatype script_action =
    Yielded response
  | Gate bool
  | Spawned
  | Signalled kill_signal
  | ProcessClosed
  | GateReleased

text \<open>A world that notes, in order, the events it was handed and what was done to gate and process.\<close>

definition notes_actions :: "'w script_host \<Rightarrow> 'w consumer \<Rightarrow> ('w \<Rightarrow> script_action list) \<Rightarrow> bool" where
  "notes_actions h consume seen \<longleftrightarrow>
     (\<forall>w ev. seen (fst (consume ev w)) = seen w @ [Yielded ev]) \<and>
     (\<forall>w. seen (fst (sh_check_cancelled h w)) = seen w) \<and>
     (\<forall>w. seen (fst (sh_acquire h w)) = seen w @ [Gate (snd (sh_acquire h w))]) \<and>
     (\<forall>w. seen (sh_release h w) = seen w @ [GateReleased]) \<and>
     (\<forall>w. seen (fst (sh_require_bash h w)) = seen w) \<and>
     (\<forall>w args env. seen (fst (sh_spawn h args env w)) =
        seen w @ (if isl (snd (sh_spawn h args env w)) then [] else [Spawned])) \<and>
     (\<forall>w. seen (fst (sh_poll h w)) = seen w) \<and>
     (\<forall>w b. seen (fst (sh_select h b w)) = seen w) \<and>
     (\<forall>w. seen (fst (sh_read h w)) = seen w) \<and>
     (\<forall>w bs b. seen (fst (sh_decode h bs b w)) = seen w) \<and>
     (\<forall>w s. seen (fst (sh_killpg h s w)) = seen w @ [Signalled s]) \<and>
     (\<forall>w d. seen (sh_sleep h d w) = seen w) \<and>
     (\<forall>w. seen (sh_close h w) = seen w @ [ProcessClosed])"

lemma notesD:
  assumes "notes_actions h consume seen"
  shows "consume ev w = (w', b) \<Longrightarrow> seen w' = seen w @ [Yielded ev]"
    and "sh_check_cancelled h w = (w', e) \<Longrightarrow> seen w' = seen w"
    and "sh_acquire h w = (w', b) \<Longrightarrow> seen w' = seen w @ [Gate b]"
    and "seen (sh_release h w) = seen w @ [GateReleased]"
    and "sh_require_bash h w = (w', q) \<Longrightarrow> seen w' = seen w"
    and "sh_spawn h args env w = (w', Inr u) \<Longrightarrow> seen w' = seen w @ [Spawned]"
    and "sh_spawn h args env w = (w', Inl e') \<Longrightarrow> seen w' = seen w"
    and "sh_poll h w = (w', c) \<Longrightarrow> seen w' = seen w"
    and "seen (fst (sh_poll h w)) = seen w"
    and "sh_select h b w = (w', r) \<Longrightarrow> seen w' = seen w"
    and "sh_read h w = (w', r') \<Longrightarrow> seen w' = seen w"
    and "sh_decode h bs b w = (w', t) \<Longrightarrow> seen w' = seen w"
    and "sh_killpg h s w = (w', b) \<Longrightarrow> seen w' = seen w @ [Signalled s]"
    and "seen (fst (sh_killpg h s w)) = seen w @ [Signalled s]"
    and "seen (sh_sleep h d w) = seen w"
    and "seen (sh_close h w) = seen w @ [ProcessClosed]"
  using assms unfolding notes_actions_def by (auto simp: prod_eq_iff split: sum.splits)

text \<open>Only actions of one kind happen in a computation that starts at \<open>w\<close>.\<close>

definition only :: "('w \<Rightarrow> script_action list) \<Rightarrow> (script_action \<Rightarrow> bool) \<Rightarrow> 'w \<Rightarrow> 'w \<times> 'a gen_end \<Rightarrow> bool" where
  "only seen Q w m \<longleftrightarrow> (\<exists>acts. seen (fst m) = seen w @ acts \<and> list_all Q acts)"

lemma only_same: "seen w' = seen w \<Longrightarrow> only seen Q w (w', r)"
  by (simp add: only_def)

lemma only_trans: "only seen Q w (w1, r1) \<Longrightarrow> only seen Q w1 m \<Longrightarrow> only seen Q w m"
  by (auto simp: only_def)

lemma only_gbind:
  assumes "only seen Q w m" and "\<And>w1 x. m = (w1, Finished x) \<Longrightarrow> only seen Q w1 (f w1 x)"
  shows "only seen Q w (gbind m f)"
  using assms by (cases m; cases "snd m") (auto simp: gbind_def only_def)

lemma only_glift: "seen w' = seen w \<Longrightarrow> only seen Q w (glift w' r)"
  by (simp add: glift_def only_def split: sum.splits)

lemma only_check: "notes_actions h consume seen \<Longrightarrow> only seen Q w (script_check h deadline w)"
  unfolding script_check_def
  by (auto split: prod.splits option.splits intro!: only_same dest: notesD(2))

lemma only_yield:
  "notes_actions h consume seen \<Longrightarrow> Q (Yielded ev) \<Longrightarrow> only seen Q w (yield_event consume ev w)"
  unfolding yield_event_def only_def by (auto split: prod.splits bool.splits dest: notesD(1))

lemma only_cut_off: "seen w' = seen w \<Longrightarrow> only seen Q w (cut_off w' st d)"
  unfolding cut_off_def by (rule only_gbind) (auto intro: only_glift only_same)

lemma only_caught: "only seen Q w m \<Longrightarrow> only seen Q w (caught m)"
proof -
  assume m: "only seen Q w m"
  have "only seen Q w (cut_off (fst m) st d)" for st d
    using m only_cut_off[where w = "fst m" and w' = "fst m" and seen = seen and Q = Q] unfolding only_def by fastforce
  with m show ?thesis
    by (cases m; cases "snd m") (auto simp: caught_def split: script_error.split)
qed

abbreviation is_chunk :: "script_action \<Rightarrow> bool" where
  "is_chunk a \<equiv> (case a of Yielded (OutputChunk t) \<Rightarrow> True | _ \<Rightarrow> False)"

abbreviation is_entry :: "script_action \<Rightarrow> bool" where
  "is_entry a \<equiv> (case a of Yielded (ScriptEntryMessage s d) \<Rightarrow> True | _ \<Rightarrow> False)"

abbreviation is_signal :: "script_action \<Rightarrow> bool" where
  "is_signal a \<equiv> (case a of Signalled s \<Rightarrow> True | _ \<Rightarrow> False)"

lemma only_decoded:
  assumes "notes_actions h consume seen" and "sh_decode h bs b w = (w1, t)"
  shows "only seen is_chunk w (yield_event consume (OutputChunk t) w1)"
proof -
  have "only seen is_chunk w (w1, Finished ())" using notesD(12)[OF assms] by (rule only_same)
  then show ?thesis by (rule only_trans) (rule only_yield[OF assms(1)], simp)
qed

lemma chunk_step_chunks:
  assumes "notes_actions h consume seen"
  shows "only seen is_chunk w (chunk_step h consume streaming remaining chunk w)"
  unfolding chunk_step_def
  by (auto intro!: only_gbind only_same only_cut_off only_decoded[OF assms] split: prod.split
      dest: notesD(12)[OF assms])

lemma read_step_chunks:
  assumes "notes_actions h consume seen"
  shows "only seen is_chunk w (read_step h consume streaming remaining w)"
proof -
  have step: "only seen is_chunk w (chunk_step h consume streaming remaining chunk w2)" if "seen w2 = seen w" for w2 chunk
    using chunk_step_chunks[OF assms, of w2] that by (simp add: only_def)
  show ?thesis unfolding read_step_def
    by (auto intro!: only_same step split: prod.split sum.split bool.split dest!: notesD(10,11)[OF assms])
qed

lemma output_step_chunks:
  assumes "notes_actions h consume seen"
  shows "only seen is_chunk w (output_step h consume deadline streaming remaining w)"
proof -
  obtain w1 c where w1: "(if streaming then (w, None) else sh_poll h w) = (w1, c)" by fastforce
  then have same: "seen w1 = seen w" by (auto split: if_splits dest: notesD(8)[OF assms])
  have "only seen is_chunk w1 (caught (gbind (script_check h deadline w1) (\<lambda>w2 _. read_step h consume streaming remaining w2)))"
    by (intro only_caught only_gbind only_check[OF assms] read_step_chunks[OF assms])
  with same w1 show ?thesis by (cases c) (auto simp: output_step_def only_def)
qed

lemma output_loop_chunks:
  assumes "notes_actions h consume seen"
  shows "only seen is_chunk w (output_loop n h consume deadline streaming remaining w)"
proof (induction n arbitrary: streaming remaining w)
  case (Suc n)
  show ?case
    by (auto intro!: only_gbind output_step_chunks[OF assms] Suc.IH only_same split: loop_step.split)
qed (simp add: only_same)

lemma final_tail_chunks:
  assumes "notes_actions h consume seen"
  shows "only seen is_chunk w (final_tail h consume r w)"
  unfolding final_tail_def
  by (auto intro!: only_gbind only_same only_glift only_decoded[OF assms]
      split: prod.split run_end.split dest: notesD(12)[OF assms])

lemma await_group_signals:
  assumes "notes_actions h consume seen"
  shows "\<exists>acts. seen (fst (await_group n h deadline w)) = seen w @ acts \<and> list_all is_signal acts"
proof (induction n arbitrary: w)
  case (Suc n)
  note N = notesD[OF assms]
  obtain w1 b where w1: "sh_killpg h Probe (fst (sh_poll h w)) = (w1, b)" by fastforce
  then have "seen w1 = seen w @ [Signalled Probe]" using N(13) N(9) by simp
  then show ?case using Suc[of "sh_sleep h (1 / 20) w1"] w1 N(15) by (auto split: bool.split)
qed simp

lemma terminate_signals:
  assumes "notes_actions h consume seen"
  shows "only seen is_signal w (terminate n h w)"
proof -
  note N = notesD[OF assms]
  obtain w1 b where w1: "sh_killpg h SIGTERM w = (w1, b)" by fastforce
  then have s1: "seen w1 = seen w @ [Signalled SIGTERM]" by (rule N(13))
  obtain w2 r where w2: "await_group n h (sh_now h w1 + PROCESS_CLEANUP_TIMEOUT_S) w1 = (w2, r)" by fastforce
  with await_group_signals[OF assms, of n "sh_now h w1 + PROCESS_CLEANUP_TIMEOUT_S" w1] obtain acts
    where s2: "seen w2 = seen w1 @ acts" "list_all is_signal acts" by auto
  from s1 s2 w1 w2 N(14) show ?thesis
    by (auto simp: terminate_def only_def split: bool.split option.split)
qed

lemma terminate_ends: "snd (terminate n h w) = Finished () \<or> snd (terminate n h w) = StillRunning"
  by (auto simp: terminate_def split: prod.split bool.split option.split)

text \<open>What one execution does to the gate and to the process, and what it yields between.\<close>

definition execution_shape :: "script_action list \<Rightarrow> bool" where
  "execution_shape acts \<longleftrightarrow>
     acts = [Gate False] \<or> acts = [Gate True, GateReleased] \<or>
     (\<exists>chunks signals. acts = [Gate True, Spawned] @ chunks @ signals @ [ProcessClosed, GateReleased] \<and>
        list_all is_chunk chunks \<and> list_all is_signal signals)"

lemma with_process_shape:
  assumes "notes_actions h consume seen" and "only seen is_chunk w m"
    and "with_process n h m = (w', r)" and "r \<noteq> StillRunning"
  shows "\<exists>chunks signals. seen w' = seen w @ chunks @ signals @ [ProcessClosed] \<and>
    list_all is_chunk chunks \<and> list_all is_signal signals"
proof -
  obtain w1 r1 where m: "m = (w1, r1)" by fastforce
  with assms(2) obtain chunks where c: "seen w1 = seen w @ chunks" "list_all is_chunk chunks" by (auto simp: only_def)
  obtain w2 r2 where t: "terminate n h w1 = (w2, r2)" by fastforce
  with terminate_signals[OF assms(1), of w1 n] obtain signals
    where s: "seen w2 = seen w1 @ signals" "list_all is_signal signals" by (auto simp: only_def)
  from assms(3,4) m t have "w' = sh_close h w2"
    by (auto simp: with_process_def split: gen_end.splits)
  with c s notesD(16)[OF assms(1)] show ?thesis by auto
qed

lemma execute_script_shape:
  assumes "notes_actions h consume seen" and "execute_script n h consume pol deadline file w = (w', r)"
    and "r \<noteq> StillRunning"
  shows "\<exists>acts. seen w' = seen w @ acts \<and> execution_shape acts"
proof -
  note N = notesD[OF assms(1)]
  obtain w1 b where w1: "sh_acquire h w = (w1, b)" by fastforce
  then have s1: "seen w1 = seen w @ [Gate b]" by (rule N(3))
  show ?thesis
  proof (cases b)
    case False
    with assms(2) w1 have "w' = w1" by (auto simp: execute_script_def glift_def split: sum.splits)
    with s1 False show ?thesis by (auto simp: execution_shape_def)
  next
    case True
    let ?run = "\<lambda>w3. with_process n h (gbind (output_loop n h consume deadline True (po_max_output pol) w3)
      (\<lambda>w4 r. final_tail h consume r w4))"
    let ?env = "script_environment (sh_path_prefix h) (sh_environ h w) (po_env_allowlist pol)"
    obtain w2 r2 where w2: "gbind (script_check h deadline w1) (\<lambda>w2 _.
        gbind (start_process h pol file ?env w2) (\<lambda>w3 _. ?run w3)) = (w2, r2)" by fastforce
    with assms(2,3) w1 True have r2: "r2 \<noteq> StillRunning" and w': "w' = sh_release h w2"
      by (auto simp: execute_script_def with_gate_def Let_def split: gen_end.splits)
    obtain w3 r3 where w3: "script_check h deadline w1 = (w3, r3)" by fastforce
    then have s3: "seen w3 = seen w1"
      by (auto simp: script_check_def split: prod.splits option.splits if_splits dest: N(2))
    obtain w4 r4 where w4: "start_process h pol file ?env w3 = (w4, r4)" by fastforce
    then have s4: "seen w4 = seen w3 @ (if r4 = Finished () then [Spawned] else [])"
      by (auto simp: start_process_def gbind_def glift_def split: prod.splits sum.splits dest!: N(5-7))
    show ?thesis
    proof (cases "r3 = Finished () \<and> r4 = Finished ()")
      case True
      then have "?run w4 = (w2, r2)" using w2 w3 w4 by (simp add: gbind_def)
      moreover have "only seen is_chunk w4 (gbind (output_loop n h consume deadline True (po_max_output pol) w4)
          (\<lambda>w4 r. final_tail h consume r w4))"
        by (rule only_gbind[OF output_loop_chunks[OF assms(1)]]) (rule final_tail_chunks[OF assms(1)])
      ultimately obtain chunks signals where "seen w2 = seen w4 @ chunks @ signals @ [ProcessClosed]"
          "list_all is_chunk chunks" "list_all is_signal signals"
        using with_process_shape[OF assms(1) _ _ r2] by blast
      moreover have "seen w' = seen w2 @ [GateReleased]" using w' N(4) by simp
      ultimately have "seen w' = seen w @ [Gate True, Spawned] @ chunks @ signals @ [ProcessClosed, GateReleased] \<and>
          execution_shape ([Gate True, Spawned] @ chunks @ signals @ [ProcessClosed, GateReleased])"
        using s1 s3 s4 True \<open>b\<close> unfolding execution_shape_def by auto
      then show ?thesis by blast
    next
      case False
      then have "seen w2 = seen w1"
        using w2 w3 w4 s3 s4 by (cases r3; cases r4) (auto simp: gbind_def)
      then have "seen w' = seen w @ [Gate True, GateReleased]" using w' N(4) s1 \<open>b\<close> by simp
      then show ?thesis by (auto simp: execution_shape_def)
    qed
  qed
qed

lemma script_check_seen:
  "notes_actions h consume seen \<Longrightarrow> script_check h deadline w = (w', r) \<Longrightarrow> seen w' = seen w"
  by (auto simp: script_check_def split: prod.splits option.splits if_splits dest: notesD(2))

lemma description_silent:
  assumes "notes_actions h consume seen"
  shows "seen (fst (description_loop h deadline index parts s w)) = seen w"
  using assms
proof (induction h deadline index parts s w rule: description_loop.induct)
  case 1
  then show ?case
    by (subst description_loop.simps)
      (auto split: prod.split gen_end.split option.split dest: script_check_seen)
qed

lemma description_of_only: "notes_actions h consume seen \<Longrightarrow> only seen Q w (description_of h deadline file w)"
  unfolding description_of_def only_def
  by (auto split: sum.split node.split intro!: exI[of _ "[]"] simp: description_silent)

lemma scan_items_entries:
  assumes "notes_actions h consume seen"
  shows "only seen is_entry w (scan_items h consume deadline base rel items ds w)"
proof (induction items arbitrary: ds w)
  case (Cons item items)
  show ?case
    by (cases item) (auto intro!: only_gbind only_check[OF assms] only_yield[OF assms] Cons.IH
      description_of_only[OF assms] split: option.split)
qed (simp add: only_same)

lemma discover_loop_entries:
  assumes "notes_actions h consume seen"
  shows "only seen is_entry w (discover_loop n h consume deadline base ds w)"
proof (induction n arbitrary: ds w)
  case (Suc n)
  show ?case
    by (auto intro!: only_gbind only_check[OF assms] only_glift scan_items_entries[OF assms] Suc.IH)
qed (simp add: only_same)

lemma outcomeD: "completed_outcome st code d = Inr c \<Longrightarrow> valid_completed c \<and> co_status c = st \<and> co_exit_code c = code"
  by (auto simp: completed_outcome_def Let_def split: if_splits)

lemma outcome_ok [simp]: "st \<noteq> Success \<Longrightarrow> completed_outcome st None d \<noteq> Inl e"
  by (cases st) (auto simp: completed_outcome_def Let_def valid_completed_def MAX_DIAGNOSTIC_CHARS_def)

lemma gbind_Finished:
  "gbind m f = (w', Finished y) \<longleftrightarrow> (\<exists>w1 x. m = (w1, Finished x) \<and> f w1 x = (w', Finished y))"
  by (cases m; cases "snd m") (auto simp: gbind_def)

lemma glift_Finished: "glift w r = (w', Finished x) \<longleftrightarrow> w' = w \<and> r = Inr x"
  by (auto simp: glift_def split: sum.splits)

definition completes :: "string option \<Rightarrow> completed \<Rightarrow> bool" where
  "completes wanted c \<longleftrightarrow> valid_completed c \<and>
     (if wanted = None
      then co_status c \<in> {Listed, Refused, ScriptFailed, ScriptTimeout} \<and> co_exit_code c = None
      else co_status c \<noteq> Listed)"

lemma discover_loop_completes:
  "discover_loop n h consume deadline base ds w = (w', Finished c) \<Longrightarrow> completes None c"
  by (induction n arbitrary: ds w) (auto simp: gbind_Finished glift_Finished completes_def dest: outcomeD split: if_splits)

lemma cut_off_Finished:
  "cut_off w st d = (w', Finished r) \<Longrightarrow> st \<noteq> Listed \<Longrightarrow> \<exists>c. r = Ended (CutOff c) \<and> completes (Some []) c"
  by (auto simp: cut_off_def gbind_Finished glift_Finished completes_def dest: outcomeD)

lemma output_step_completes:
  "output_step h consume deadline streaming remaining w = (w', Finished (Ended (CutOff c))) \<Longrightarrow> completes (Some []) c"
  by (auto simp: output_step_def caught_def gbind_Finished read_step_def chunk_step_def
      dest!: cut_off_Finished split: prod.splits option.splits gen_end.splits script_error.splits sum.splits bool.splits if_splits)

lemma output_loop_completes:
  "output_loop n h consume deadline streaming remaining w = (w', Finished (CutOff c)) \<Longrightarrow> completes (Some []) c"
proof (induction n arbitrary: streaming remaining w)
  case (Suc n)
  then obtain w1 x where "output_step h consume deadline streaming remaining w = (w1, Finished x)"
    and "(case x of Ended r \<Rightarrow> (w1, Finished r) | Again st re \<Rightarrow> output_loop n h consume deadline st re w1) =
      (w', Finished (CutOff c))"
    by (auto simp: gbind_Finished)
  with Suc.IH show ?case by (cases x) (auto dest: output_step_completes)
qed simp

lemma execute_script_completes:
  assumes "execute_script n h consume pol deadline file w = (w', Finished c)"
  shows "completes (Some []) c"
proof (cases "snd (sh_acquire h w)")
  case False
  with assms show ?thesis
    by (auto simp: execute_script_def Let_def glift_Finished completes_def split: prod.splits dest: outcomeD)
next
  case True
  have gate: "\<exists>w1. m = (w1, Finished c)" if "with_gate h m = (w', Finished c)" for m
    using that by (auto simp: with_gate_def split: prod.splits gen_end.splits)
  have proc: "\<exists>w1. m = (w1, Finished c)" if "with_process n h m = (w2, Finished c)" for m w2
    using that by (auto simp: with_process_def split: prod.splits gen_end.splits)
  from True assms obtain w3 r w5 w4 where loop: "output_loop n h consume deadline True (po_max_output pol) w3 = (w4, Finished r)"
    and tail: "final_tail h consume r w4 = (w5, Finished c)"
    by (auto simp: execute_script_def Let_def gbind_Finished split: prod.splits dest!: gate proc)
  show ?thesis
  proof (cases r)
    case (CutOff c')
    with tail have "c' = c" by (auto simp: final_tail_def gbind_Finished split: prod.splits)
    with loop CutOff show ?thesis by (auto intro: output_loop_completes)
  next
    case (Exited code)
    with tail show ?thesis
      by (auto simp: final_tail_def gbind_Finished glift_Finished completes_def split: prod.splits if_splits dest: outcomeD)
  qed
qed

text \<open>A stream: entries for a discovery, chunks within gate and process for an execution.\<close>

definition stream_shape :: "string option \<Rightarrow> script_action list \<Rightarrow> bool" where
  "stream_shape wanted acts \<longleftrightarrow>
     (if wanted = None then list_all is_entry acts else acts = [] \<or> execution_shape acts)"

lemma script_body_shape:
  assumes "notes_actions h consume seen" and "script_body n h consume pol base wanted deadline w = (w', r)"
    and "r \<noteq> StillRunning"
  shows "(\<exists>acts. seen w' = seen w @ acts \<and> stream_shape wanted acts) \<and> (\<forall>c. r = Finished c \<longrightarrow> completes wanted c)"
proof -
  obtain w1 q where w1: "script_check h deadline w = (w1, q)" by fastforce
  note same = script_check_seen[OF assms(1) w1]
  show ?thesis
  proof (cases "q = Finished ()")
    case False
    with assms(2) w1 have "w' = w1 \<and> (\<forall>c. r \<noteq> Finished c)"
      by (cases q) (auto simp: script_body_def gbind_def)
    with same show ?thesis by (auto simp: stream_shape_def)
  next
    case True
    show ?thesis
    proof (cases wanted)
      case None
      with True assms(2) w1 have run: "discover n h consume deadline base w1 = (w', r)"
        by (simp add: script_body_def gbind_def)
      have "only seen is_entry w1 (discover n h consume deadline base w1)"
        by (auto simp: discover_def intro: only_glift discover_loop_entries[OF assms(1)])
      moreover have "\<forall>c. r = Finished c \<longrightarrow> completes None c"
        using run by (auto simp: discover_def glift_Finished completes_def split: if_splits
            dest: outcomeD discover_loop_completes[unfolded completes_def])
      ultimately show ?thesis using run same None by (auto simp: only_def stream_shape_def)
    next
      case (Some name)
      show ?thesis
      proof (cases "valid_script (sh_tree h w1) base name")
        case None
        with True Some assms(2) w1 have "w' = w1 \<and> (\<forall>c. r = Finished c \<longrightarrow> completes wanted c)"
          by (auto simp: script_body_def gbind_def glift_def completes_def split: sum.splits dest: outcomeD)
        with same Some show ?thesis by (auto simp: stream_shape_def)
      next
        case (Some script)
        with True \<open>wanted = Some name\<close> assms(2) w1
        have run: "execute_script n h consume pol deadline script w1 = (w', r)"
          by (simp add: script_body_def gbind_def)
        from execute_script_shape[OF assms(1) this assms(3)] same \<open>wanted = Some name\<close>
        have "\<exists>acts. seen w' = seen w @ acts \<and> stream_shape wanted acts" by (auto simp: stream_shape_def)
        moreover have "\<forall>c. r = Finished c \<longrightarrow> completes wanted c"
          using execute_script_completes[of n h consume pol deadline script w1 w'] run \<open>wanted = Some name\<close>
          by (auto simp: completes_def)
        ultimately show ?thesis by blast
      qed
    qed
  qed
qed

lemma settle_events_fst: "fst (settle_events m) = fst m"
  by (cases m; cases "snd m")
    (auto simp: settle_events_def glift_def split: script_error.splits sum.splits)

text \<open>
  The event stream of a request that ended has at most one completion, and it is last: behind
  every entry or chunk, and behind the signals to the process group, the end of the process and
  the release of the gate, which happens exactly if the gate was taken. A stream whose consumer
  went on to the end has one, and it fits the request; only an error that is neither an
  \<open>OSError\<close> nor a \<open>ValueError\<close>, such as a cancellation, leaves the stream.
\<close>

theorem script_stream_is_closed:
  assumes "notes_actions h consume seen" and "script_events n h consume pol base wanted w = (w', r)"
    and "r \<noteq> StillRunning"
  shows "\<exists>acts fin. seen w' = seen w @ acts @ fin \<and> stream_shape wanted acts \<and>
    (fin = [] \<or> (\<exists>c. fin = [Yielded (Completed c)] \<and> completes wanted c)) \<and>
    (r = Finished () \<and> fin \<noteq> [] \<or> r = Abandoned \<or> (\<exists>e. r = Failing (Unhandled e) \<and> fin = []))"
proof -
  let ?d = "sh_now h w + po_timeout pol"
  obtain w1 q where w1: "script_body n h consume pol base wanted ?d w = (w1, q)" by fastforce
  obtain q' where q': "settle_events (w1, q) = (w1, q')"
    using settle_events_fst[of "(w1, q)"] by (metis fst_conv prod.collapse)
  have q: "q \<noteq> StillRunning"
    using assms(2,3) w1 by (auto simp: script_events_def settle_events_def gbind_def)
  from script_body_shape[OF assms(1) w1 this] obtain acts
    where acts: "seen w1 = seen w @ acts" "stream_shape wanted acts" and c: "\<forall>c. q = Finished c \<longrightarrow> completes wanted c"
    by blast
  have c': "completes wanted c" if "q' = Finished c" for c
    using q' that c by (auto simp: settle_events_def glift_Finished completes_def
        split: gen_end.splits script_error.splits dest: outcomeD)
  have bad: "q' = Abandoned \<or> (\<exists>e. q' = Failing (Unhandled e))" if "\<forall>c. q' \<noteq> Finished c"
    using q' that q
    by (auto simp: settle_events_def glift_def split: gen_end.splits script_error.splits sum.splits)
  show ?thesis
  proof (cases "\<exists>c. q' = Finished c")
    case True
    then obtain c where "q' = Finished c" by blast
    moreover from this assms(2) w1 q' have "yield_event consume (Completed c) w1 = (w', r)"
      by (simp add: script_events_def gbind_def)
    ultimately have "seen w' = seen w1 @ [Yielded (Completed c)]" "r = Finished () \<or> r = Abandoned"
      by (auto simp: yield_event_def split: prod.splits bool.splits dest: notesD(1)[OF assms(1)])
    with acts c'[OF \<open>q' = Finished c\<close>] show ?thesis
      by (intro exI[of _ acts] exI[of _ "[Yielded (Completed c)]"]) auto
  next
    case False
    with bad assms(2) w1 q' have "w' = w1 \<and> (r = Abandoned \<or> (\<exists>e. r = Failing (Unhandled e)))"
      by (auto simp: script_events_def gbind_def)
    with acts show ?thesis by (intro exI[of _ acts] exI[of _ "[]"]) auto
  qed
qed

section \<open>The script that is run\<close>

lemma pure_parts_proper: "c \<in> set (pure_parts name) \<Longrightarrow> c \<noteq> ''..'' \<Longrightarrow> proper_name c"
  by (auto simp: pure_parts_def components_def proper_name_def skips_def dest: split_on_no_sep)

lemma fwalk_snoc:
  assumes "fwalk fs cs = Inr q" and "proper_name c" and "fwalk fs (cs @ [c]) = Inr r" and "\<not> is_symlink fs (cs @ [c])"
  shows "r = q @ [c]"
proof -
  obtain k j where tr: "trace fs LINK_LIMIT [] cs = Inr (q, k)" "trace fs k q [c] = Inr (r, j)"
    using assms(1,3) by (auto simp: fwalk_Inr trace_append)
  from assms(2) have plain: "\<not> skips c" "c \<noteq> ''..''" by (auto simp: proper_name_def skips_def)
  from tr(2) plain obtain d m where d: "node_at fs q = Some d" "is_dir_node d" "child d c = Some m"
    by (auto simp: trace.simps(2) split: option.splits if_splits)
  then have "lwalk fs (cs @ [c]) = Inr (q @ [c])" using assms(1) plain by (simp add: lwalk_def)
  with assms(4) d have "\<not> is_lnk_node m"
    by (simp add: is_symlink_def lstat_def node_of_def holds_def node_at_snoc)
  with tr(2) plain d show ?thesis by (cases m) (auto simp: trace.simps(2))
qed

lemma fwalk_prefix: "fwalk fs (xs @ ys) = Inr r \<Longrightarrow> \<exists>q. fwalk fs xs = Inr q"
  by (auto simp: fwalk_Inr trace_append split: sum.splits)

text \<open>
  A script that is run is an installed one: a regular \<open>.sh\<close> file that is reached from the
  directory of the scripts through names only, so that no link and no step upwards is followed.
\<close>

theorem valid_script_is_inside:
  assumes "valid_script fs base name = Some file" and "fwalk fs base = Inr q"
  shows "\<exists>parts. parts \<noteq> [] \<and> (\<forall>c \<in> set parts. proper_name c) \<and> suffix ''.sh'' (last parts) \<and>
    fwalk fs file = Inr (q @ parts) \<and> (\<exists>n. node_at fs (q @ parts) = Some n \<and> is_reg_node n)"
proof -
  let ?parts = "pure_parts name"
  from assms(1) have installed: "file = base @ ?parts" and sh: "sh_suffix ?parts" and up: "''..'' \<notin> set ?parts"
    and links: "\<forall>i < length ?parts. \<not> is_symlink fs (base @ take (Suc i) ?parts)" and reg: "is_file fs (base @ ?parts)"
    by (auto simp: valid_script_def Let_def list_ex_iff split: if_splits)
  from reg obtain r where r: "fwalk fs (base @ ?parts) = Inr r"
    by (auto simp: is_file_def holds_def stat_def node_of_def split: sum.splits)
  have "fwalk fs (base @ take i ?parts) = Inr (q @ take i ?parts)" if "i \<le> length ?parts" for i
    using that
  proof (induction i)
    case (Suc i)
    then have next_part: "take (Suc i) ?parts = take i ?parts @ [?parts ! i]" by (simp add: take_Suc_conv_app_nth)
    obtain s where s: "fwalk fs (base @ take (Suc i) ?parts) = Inr s"
      using fwalk_prefix[of fs "base @ take (Suc i) ?parts" "drop (Suc i) ?parts" r] r by auto
    have "proper_name (?parts ! i)" using up Suc.prems nth_mem[of i ?parts]
      by (metis Suc_le_eq pure_parts_proper)
    moreover have "\<not> is_symlink fs (base @ take (Suc i) ?parts)" using links Suc.prems by simp
    ultimately show ?case
      using fwalk_snoc[of fs "base @ take i ?parts" "q @ take i ?parts" "?parts ! i" s] Suc s
       by (simp add: next_part)
  qed (simp add: assms(2))
  from this[of "length ?parts"] have "fwalk fs file = Inr (q @ ?parts)" by (simp add: installed)
  with reg installed sh up show ?thesis
    by (intro exI[of _ ?parts])
      (auto simp: sh_suffix_def is_file_def stat_def node_of_def holds_def intro: pure_parts_proper split: option.splits)
qed

section \<open>The environment of a script\<close>

lemma script_environment_other:
  "k \<notin> set allowlist \<Longrightarrow> map_of (script_environment search_path environ allowlist) k =
    map_of [(''PATH'', search_path), (''LANG'', ''C.UTF-8'')] k"
  unfolding script_environment_def
  by (induction allowlist rule: rev_induct) (auto split: option.split)

text \<open>
  A script runs with the search path of the service: whatever the environment of the service
  and an accepted allowlist are, \<open>PATH\<close> is the given one and no other variable that controls the
  start of a shell is set.
\<close>

theorem script_environment_is_clean:
  assumes "execution_policy_of timeout max_output allowlist = Inr pol" and "k \<in> set RESERVED_SCRIPT_ENV"
  shows "map_of (script_environment search_path environ (po_env_allowlist pol)) k =
    (if k = ''PATH'' then Some search_path else None)"
proof -
  from assms have "k \<notin> set (po_env_allowlist pol)"
    by (auto simp: execution_policy_of_def list_ex_iff allowed_env_name_def split: if_splits)
  from script_environment_other[OF this] assms(2) show ?thesis
    by (auto simp: RESERVED_SCRIPT_ENV_def)
qed

section \<open>An execution ends\<close>

definition clock_of_script :: "'w script_host \<Rightarrow> 'w consumer \<Rightarrow> bool" where
  "clock_of_script h consume \<longleftrightarrow>
     (\<forall>w. sh_now h w \<le> sh_now h (fst (sh_check_cancelled h w))) \<and>
     (\<forall>w ev. sh_now h w \<le> sh_now h (fst (consume ev w))) \<and>
     (\<forall>w. sh_now h w \<le> sh_now h (fst (sh_poll h w))) \<and>
     (\<forall>w b. sh_now h w \<le> sh_now h (fst (sh_select h b w))) \<and>
     (\<forall>w b w'. sh_select h b w = (w', Inr False) \<longrightarrow> sh_now h w + 1 / 10 \<le> sh_now h w') \<and>
     (\<forall>w w'. sh_select h False w \<noteq> (w', Inr True)) \<and>
     (\<forall>w. sh_now h w \<le> sh_now h (fst (sh_read h w))) \<and>
     (\<forall>w bs b. sh_now h w \<le> sh_now h (fst (sh_decode h bs b w))) \<and>
     (\<forall>w s. sh_now h w \<le> sh_now h (fst (sh_killpg h s w))) \<and>
     (\<forall>w. sh_now h w \<le> sh_now h (fst (sh_acquire h w))) \<and>
     (\<forall>w. sh_now h w \<le> sh_now h (fst (sh_require_bash h w))) \<and>
     (\<forall>w args env. sh_now h w \<le> sh_now h (fst (sh_spawn h args env w))) \<and>
     (\<forall>w d. sh_now h w + d \<le> sh_now h (sh_sleep h d w))"

lemma clockD:
  assumes "clock_of_script h consume"
  shows "sh_check_cancelled h w = (w', e) \<Longrightarrow> sh_now h w \<le> sh_now h w'"
    and "consume ev w = (w', b) \<Longrightarrow> sh_now h w \<le> sh_now h w'"
    and "sh_poll h w = (w', c) \<Longrightarrow> sh_now h w \<le> sh_now h w'"
    and "sh_now h w \<le> sh_now h (fst (sh_poll h w))"
    and "sh_select h b w = (w', r) \<Longrightarrow> sh_now h w \<le> sh_now h w'"
    and "sh_select h b w = (w', Inr False) \<Longrightarrow> sh_now h w + 1 / 10 \<le> sh_now h w'"
    and "sh_select h False w \<noteq> (w', Inr True)"
    and "sh_read h w = (w', q) \<Longrightarrow> sh_now h w \<le> sh_now h w'"
    and "sh_decode h bs b w = (w', t) \<Longrightarrow> sh_now h w \<le> sh_now h w'"
    and "sh_killpg h s w = (w', b) \<Longrightarrow> sh_now h w \<le> sh_now h w'"
    and "sh_now h w + d \<le> sh_now h (sh_sleep h d w)"
    and "sh_acquire h w = (w', b) \<Longrightarrow> sh_now h w \<le> sh_now h w'"
    and "sh_require_bash h w = (w', q') \<Longrightarrow> sh_now h w \<le> sh_now h w'"
    and "sh_spawn h args env w = (w', u) \<Longrightarrow> sh_now h w \<le> sh_now h w'"
  using assms unfolding clock_of_script_def by (metis fst_conv)+

lemma gbind_StillRunning:
  "snd (gbind m f) = StillRunning \<Longrightarrow>
    snd m = StillRunning \<or> (\<exists>w1 x. m = (w1, Finished x) \<and> snd (f w1 x) = StillRunning)"
  by (cases m; cases "snd m") (auto simp: gbind_def)

lemma glift_running [simp]: "snd (glift w r) \<noteq> StillRunning"
  by (simp add: glift_def split: sum.split)

lemma script_check_time:
  assumes "clock_of_script h consume" and "script_check h deadline w = (w', r)"
  shows "sh_now h w \<le> sh_now h w'" and "r \<noteq> StillRunning" and "r = Finished () \<Longrightarrow> sh_now h w' < deadline"
  using assms(2) clockD(1)[OF assms(1)]
  by (auto simp: script_check_def split: prod.splits option.splits if_splits)

lemma yield_event_time:
  assumes "clock_of_script h consume" and "yield_event consume ev w = (w', r)"
  shows "sh_now h w \<le> sh_now h w'" and "r \<noteq> StillRunning"
  using assms(2) clockD(2)[OF assms(1)] by (auto simp: yield_event_def split: prod.splits bool.splits)

text \<open>How much an iteration can still do: tenths of a second, bytes, and the end of the stream.\<close>

definition progress :: "'w script_host \<Rightarrow> rat \<Rightarrow> 'w \<Rightarrow> bool \<Rightarrow> int \<Rightarrow> rat" where
  "progress h deadline w streaming remaining =
     10 * (deadline - sh_now h w) + of_int remaining + (if streaming then 1 else 0)"

lemma cut_off_ends [simp]: "snd (cut_off w st d) \<noteq> StillRunning" "snd (cut_off w st d) \<noteq> Finished (Again b n)"
    "cut_off w st d \<noteq> (w', StillRunning)" "cut_off w st d \<noteq> (w', Finished (Again b n))"
  by (auto simp: cut_off_def gbind_def glift_def split: sum.splits)

lemma chunk_step_progress:
  assumes "clock_of_script h consume" and "chunk_step h consume True remaining chunk w = (w', r)"
  shows "r \<noteq> StillRunning" and "r = Finished (Again st re) \<Longrightarrow> (0 \<le> remaining \<longrightarrow> 0 \<le> re) \<and>
    progress h deadline w' st re \<le> progress h deadline w True remaining - 1"
proof -
  obtain w1 t where w1: "sh_decode h (take (nat remaining) chunk) False w = (w1, t)" by fastforce
  obtain w2 r2 where w2: "(if t = [] then (w1, Finished ()) else yield_event consume (OutputChunk t) w1) = (w2, r2)"
    by fastforce
  have later: "sh_now h w \<le> sh_now h w2" and r2: "r2 \<noteq> StillRunning"
    using clockD(9)[OF assms(1) w1] w2 yield_event_time[OF assms(1), of "OutputChunk t" w1 w2 r2]
    by (auto split: if_splits)
  show "r \<noteq> StillRunning"
    using assms(2) w1 w2 r2 by (cases r2) (auto simp: chunk_step_def gbind_def split: if_splits)
  assume again: "r = Finished (Again st re)"
  show "(0 \<le> remaining \<longrightarrow> 0 \<le> re) \<and> progress h deadline w' st re \<le> progress h deadline w True remaining - 1"
  proof (cases "chunk = []")
    case True
    with assms(2) again show ?thesis by (auto simp: chunk_step_def progress_def)
  next
    case False
    with assms(2) again w1 w2 have "w' = w2" "st = True" "re = remaining - int (length chunk)"
      "\<not> remaining - int (length chunk) < 0"
      by (cases r2; auto simp: chunk_step_def gbind_def split: if_splits)+
    moreover have "1 \<le> int (length chunk)" using False by (cases chunk) auto
    then have "(1 :: rat) \<le> of_int (int (length chunk))" by (simp only: of_int_1_le_iff)
    ultimately show ?thesis using later by (simp add: progress_def)
  qed
qed

lemma read_step_progress:
  assumes "clock_of_script h consume" and "read_step h consume streaming remaining w = (w', r)"
  shows "r \<noteq> StillRunning" and "r = Finished (Again st re) \<Longrightarrow> (0 \<le> remaining \<longrightarrow> 0 \<le> re) \<and>
    progress h deadline w' st re \<le> progress h deadline w streaming remaining - 1"
proof -
  obtain w1 q where w1: "sh_select h streaming w = (w1, q)" by fastforce
  note t1 = clockD(5)[OF assms(1) w1]
  consider e where "q = Inl e" | "q = Inr False" | "q = Inr True" "streaming"
    using clockD(7)[OF assms(1), of w w1] w1 by (cases q; cases streaming) auto
  then have "r \<noteq> StillRunning \<and> (r = Finished (Again st re) \<longrightarrow> (0 \<le> remaining \<longrightarrow> 0 \<le> re) \<and>
      progress h deadline w' st re \<le> progress h deadline w streaming remaining - 1)"
  proof cases
    case 1
    then show ?thesis using assms(2) w1 by (auto simp: read_step_def)
  next
    case 2
    then show ?thesis using assms(2) w1 clockD(6)[OF assms(1), of streaming w w1]
      by (auto simp: read_step_def progress_def)
  next
    case 3
    obtain w2 c where w2: "sh_read h w1 = (w2, c)" by fastforce
    note t2 = clockD(8)[OF assms(1) w2]
    show ?thesis
    proof (cases c)
      case (Inl e)
      with 3 assms(2) w1 w2 show ?thesis by (auto simp: read_step_def)
    next
      case (Inr chunk)
      with 3 assms(2) w1 w2 have run: "chunk_step h consume True remaining chunk w2 = (w', r)"
        by (simp add: read_step_def)
      have less: "progress h deadline w2 True remaining \<le> progress h deadline w streaming remaining"
        using t1 t2 3(2) by (simp add: progress_def)
      show ?thesis
      proof (intro conjI impI)
        assume again: "r = Finished (Again st re)"
        note chunk = chunk_step_progress(2)[OF assms(1) run again, of deadline]
        show "0 \<le> re" if "0 \<le> remaining" using chunk that by blast
        show "progress h deadline w' st re \<le> progress h deadline w streaming remaining - 1"
          using chunk less by linarith
      qed (rule chunk_step_progress(1)[OF assms(1) run])
    qed
  qed
  then show "r \<noteq> StillRunning" and "r = Finished (Again st re) \<Longrightarrow> (0 \<le> remaining \<longrightarrow> 0 \<le> re) \<and>
    progress h deadline w' st re \<le> progress h deadline w streaming remaining - 1" by blast+
qed

lemma caught_cases:
  shows "snd (caught m) = StillRunning \<Longrightarrow> snd m = StillRunning"
    and "snd (caught m) = Finished (Again st re) \<Longrightarrow> caught m = m \<and> snd m = Finished (Again st re)"
proof -
  obtain w r where m: "m = (w, r)" by fastforce
  show "snd (caught m) = StillRunning \<Longrightarrow> snd m = StillRunning"
    and "snd (caught m) = Finished (Again st re) \<Longrightarrow> caught m = m \<and> snd m = Finished (Again st re)"
    unfolding m by (cases r; simp add: caught_def split: script_error.splits)+
qed

lemma output_step_progress:
  assumes "clock_of_script h consume" and "0 \<le> remaining"
    and "output_step h consume deadline streaming remaining w = (w', r)"
  shows "r \<noteq> StillRunning" and "r = Finished (Again st re) \<Longrightarrow> 0 \<le> re \<and> 0 < progress h deadline w streaming remaining \<and>
    progress h deadline w' st re \<le> progress h deadline w streaming remaining - 1"
proof -
  obtain w1 c where w1: "(if streaming then (w, None) else sh_poll h w) = (w1, c)" by fastforce
  then have t1: "sh_now h w \<le> sh_now h w1" using clockD(3)[OF assms(1), of w w1] by (auto split: if_splits)
  obtain w2 q where w2: "script_check h deadline w1 = (w2, q)" by fastforce
  note look = script_check_time[OF assms(1) w2]
  let ?m = "gbind (script_check h deadline w1) (\<lambda>w2 _. read_step h consume streaming remaining w2)"
  have running: "snd ?m \<noteq> StillRunning"
    using w2 look(2) read_step_progress(1)[OF assms(1)]
    by (cases q) (auto simp: gbind_def, metis prod.collapse)
  have r: "c = None \<Longrightarrow> caught ?m = (w', r)" using assms(3) w1 by (simp add: output_step_def)
  show "r \<noteq> StillRunning"
    using running caught_cases(1)[of ?m] r assms(3) w1 by (cases c) (auto simp: output_step_def)
  assume again: "r = Finished (Again st re)"
  with assms(3) w1 have "c = None" by (cases c) (auto simp: output_step_def)
  with caught_cases(2)[of ?m st re] r again have "?m = (w', Finished (Again st re))" by auto
  with w2 have q: "q = Finished ()" and run: "read_step h consume streaming remaining w2 = (w', Finished (Again st re))"
    by (cases q; auto simp: gbind_def)+
  have "progress h deadline w2 streaming remaining \<le> progress h deadline w streaming remaining"
    and "0 < progress h deadline w streaming remaining"
    using t1 look(1) look(3)[OF q] assms(2) by (auto simp: progress_def)
  with read_step_progress(2)[OF assms(1) run refl, of deadline] assms(2)
  show "0 \<le> re \<and> 0 < progress h deadline w streaming remaining \<and>
    progress h deadline w' st re \<le> progress h deadline w streaming remaining - 1" by auto
qed

lemma output_loop_ends:
  assumes "clock_of_script h consume"
  shows "progress h deadline w streaming remaining \<le> of_nat n \<Longrightarrow> 0 \<le> remaining \<Longrightarrow>
    snd (output_loop (Suc n) h consume deadline streaming remaining w) \<noteq> StillRunning"
proof (induction n arbitrary: streaming remaining w)
  case 0
  obtain w1 r where w1: "output_step h consume deadline streaming remaining w = (w1, r)" by fastforce
  from output_step_progress[OF assms 0(2) w1] 0 have "r \<noteq> StillRunning" "\<And>st re. r \<noteq> Finished (Again st re)"
    by fastforce+
  with w1 show ?case by (cases r) (auto simp: gbind_def split: loop_step.split)
next
  case (Suc n)
  obtain w1 r where w1: "output_step h consume deadline streaming remaining w = (w1, r)" by fastforce
  note step = output_step_progress[OF assms Suc.prems(2) w1]
  have next_loop: "snd (output_loop (Suc n) h consume deadline st re w1) \<noteq> StillRunning" if "r = Finished (Again st re)" for st re
    using step(2)[OF that] Suc.prems(1) by (intro Suc.IH) auto
  show ?case
    using step(1) next_loop w1 by (cases r) (auto simp: gbind_def simp del: output_loop.simps(2)
        simp: output_loop.simps(2)[of "Suc n"] split: loop_step.split)
qed

lemma await_group_ends:
  assumes "clock_of_script h consume"
  shows "20 * (deadline - sh_now h w) \<le> of_nat n \<Longrightarrow> snd (await_group (Suc n) h deadline w) \<noteq> None"
proof (induction n arbitrary: w)
  case (Suc n)
  obtain w1 b where w1: "sh_killpg h Probe (fst (sh_poll h w)) = (w1, b)" by fastforce
  have "sh_now h w + 1 / 20 \<le> sh_now h (sh_sleep h (1 / 20) w1)"
    using clockD(4)[OF assms, of w] clockD(10)[OF assms w1] clockD(11)[OF assms, of w1 "1 / 20"] by linarith
  with Suc.prems have "20 * (deadline - sh_now h (sh_sleep h (1 / 20) w1)) \<le> of_nat n" by simp
  from Suc.IH[OF this] w1 show ?case
    by (auto split: bool.split simp del: await_group.simps(2) simp: await_group.simps(2)[of "Suc n"])
qed (auto split: prod.split)

text \<open>Computations that do not run out of fuel.\<close>

definition ends :: "'w \<times> 'a gen_end \<Rightarrow> bool" where
  "ends m \<longleftrightarrow> snd m \<noteq> StillRunning"

lemma ends_gbind: "ends m \<Longrightarrow> (\<And>w1 x. m = (w1, Finished x) \<Longrightarrow> ends (f w1 x)) \<Longrightarrow> ends (gbind m f)"
  by (cases m; cases "snd m") (auto simp: gbind_def ends_def)

lemma ends_glift [simp]: "ends (glift w r)"
  by (simp add: glift_def ends_def split: sum.split)

lemma ends_pair [simp]: "ends (w, r) \<longleftrightarrow> r \<noteq> StillRunning"
  by (simp add: ends_def)

lemma ends_check [simp]: "ends (script_check h deadline w)"
  by (simp add: script_check_def split: prod.split option.split)

lemma ends_yield [simp]: "ends (yield_event consume ev w)"
  by (simp add: yield_event_def split: prod.split bool.split)

lemma ends_final_tail: "ends (final_tail h consume r w)"
  unfolding final_tail_def by (auto intro!: ends_gbind split: prod.split run_end.split)

lemma ends_start: "ends (start_process h pol file env w)"
  unfolding start_process_def by (auto intro!: ends_gbind split: prod.split)

lemma ends_with_gate: "ends m \<Longrightarrow> ends (with_gate h m)"
  by (cases m; cases "snd m") (auto simp: with_gate_def)

lemma ends_settle: "ends m \<Longrightarrow> ends (settle_events m)"
  by (cases m; cases "snd m") (auto simp: settle_events_def split: script_error.split)

lemma terminate_finishes:
  assumes "clock_of_script h consume" and "40 \<le> n"
  shows "ends (terminate (Suc n) h w)"
proof -
  obtain w1 b where w1: "sh_killpg h SIGTERM w = (w1, b)" by fastforce
  have "20 * (sh_now h w1 + PROCESS_CLEANUP_TIMEOUT_S - sh_now h w1) \<le> of_nat n"
    using assms(2) by (simp add: PROCESS_CLEANUP_TIMEOUT_S_def)
  from await_group_ends[OF assms(1) this] obtain w2 b2
    where "await_group (Suc n) h (sh_now h w1 + PROCESS_CLEANUP_TIMEOUT_S) w1 = (w2, Some b2)"
    by (metis option.exhaust prod.collapse snd_conv)
  with w1 show ?thesis by (cases b; cases b2) (simp_all add: terminate_def)
qed

lemma ends_with_process: "ends m \<Longrightarrow> ends (terminate n h (fst m)) \<Longrightarrow> ends (with_process n h m)"
  by (cases m; cases "snd m") (auto simp: with_process_def split: prod.split gen_end.split)

definition enough_fuel :: "execution_policy \<Rightarrow> nat \<Rightarrow> bool" where
  "enough_fuel pol n \<longleftrightarrow> 40 \<le> n \<and> 10 * po_timeout pol + of_int (po_max_output pol) + 1 \<le> of_nat n"

lemma start_process_time:
  assumes "clock_of_script h consume" and "start_process h pol file env w = (w', r)"
  shows "sh_now h w \<le> sh_now h w'"
proof -
  obtain w1 q where w1: "sh_require_bash h w = (w1, q)" by fastforce
  note t1 = clockD(13)[OF assms(1) w1]
  show ?thesis
  proof (cases q)
    case (Inr bash)
    obtain w2 u where w2: "sh_spawn h [bash, ''--noprofile'', ''--norc'', posix_abs file] env w1 = (w2, u)" by fastforce
    from assms(2) w1 w2 Inr have "w' = w2" by (auto simp: start_process_def gbind_def glift_def split: sum.splits)
    with t1 clockD(14)[OF assms(1) w2] show ?thesis by simp
  qed (use assms(2) w1 t1 in \<open>auto simp: start_process_def gbind_def glift_def\<close>)
qed

lemma execute_script_ends:
  assumes "clock_of_script h consume" and "0 < po_max_output pol" and "enough_fuel pol n"
    and "deadline \<le> sh_now h w + po_timeout pol"
  shows "ends (execute_script (Suc n) h consume pol deadline file w)"
proof -
  obtain w1 b where w1: "sh_acquire h w = (w1, b)" by fastforce
  let ?env = "script_environment (sh_path_prefix h) (sh_environ h w) (po_env_allowlist pol)"
  have "ends (gbind (script_check h deadline w1) (\<lambda>w2 _. gbind (start_process h pol file ?env w2) (\<lambda>w3 _.
      with_process (Suc n) h (gbind (output_loop (Suc n) h consume deadline True (po_max_output pol) w3)
        (\<lambda>w4 r. final_tail h consume r w4)))))"
  proof (intro ends_gbind ends_check ends_start ends_with_process ends_final_tail)
    fix w2 u w3 v
    assume w2: "script_check h deadline w1 = (w2, Finished u)" and w3: "start_process h pol file ?env w2 = (w3, Finished v)"
    have "sh_now h w \<le> sh_now h w3"
      using clockD(12)[OF assms(1) w1] script_check_time(1)[OF assms(1) w2] start_process_time[OF assms(1) w3]
      by linarith
    then have "progress h deadline w3 True (po_max_output pol) \<le> of_nat n"
      using assms(3,4) by (simp add: progress_def enough_fuel_def)
    then show "ends (output_loop (Suc n) h consume deadline True (po_max_output pol) w3)"
      unfolding ends_def using assms(2) by (intro output_loop_ends[OF assms(1)]) simp_all
  qed (use assms(1,3) in \<open>auto simp: enough_fuel_def intro: terminate_finishes\<close>)
  then show ?thesis
    using w1 by (cases b) (auto simp: execute_script_def Let_def simp del: output_loop.simps intro: ends_with_gate)
qed

text \<open>
  An execution ends: with a loop turn for every tenth of a second until the timeout, one for
  every byte of the budget and one for the end of the output, and forty for the end of the process
  group, its stream has come to an end.
\<close>

theorem script_execution_ends:
  assumes "clock_of_script h consume" and "0 < po_max_output pol" and "enough_fuel pol n"
  shows "snd (script_events (Suc n) h consume pol base (Some name) w) \<noteq> StillRunning"
proof -
  have "ends (script_body (Suc n) h consume pol base (Some name) (sh_now h w + po_timeout pol) w)"
    unfolding script_body_def
  proof (intro ends_gbind ends_check)
    fix w1 u
    assume w1: "script_check h (sh_now h w + po_timeout pol) w = (w1, Finished u)"
    have "sh_now h w + po_timeout pol \<le> sh_now h w1 + po_timeout pol"
      using script_check_time(1)[OF assms(1) w1] by simp
    then show "ends (case Some name of None \<Rightarrow> discover (Suc n) h consume (sh_now h w + po_timeout pol) base w1
        | Some name \<Rightarrow>
           (case valid_script (sh_tree h w1) base name of
              None \<Rightarrow> glift w1 (completed_outcome Refused None ''only installed .sh files may run'')
            | Some file \<Rightarrow> execute_script (Suc n) h consume pol (sh_now h w + po_timeout pol) file w1))"
      using execute_script_ends[OF assms] by (auto split: option.split)
  qed
  then have "ends (script_events (Suc n) h consume pol base (Some name) w)"
    unfolding script_events_def by (intro ends_gbind ends_settle ends_yield)
  then show ?thesis by (simp add: ends_def)
qed

section \<open>Examples\<close>

text \<open>
  A world of notes, a clock, the gate and the output that is left; every look at the output moves
  the clock on. The script prints two bytes and exits.
\<close>

record sample_world =
  sw_notes :: "script_action list"
  sw_time :: nat
  sw_held :: bool
  sw_output :: "bytes list"

definition sw_note :: "script_action \<Rightarrow> sample_world \<Rightarrow> sample_world" where
  "sw_note a w = w\<lparr>sw_notes := sw_notes w @ [a]\<rparr>"

definition scripts_tree :: node where
  "scripts_tree = Dir 1 1 [(''s'', Dir 1 2 [(''run.sh'', Reg 1 3 1 ''# Runs.''), (''l.sh'', Lnk ''run.sh'')])]"

definition sample_script_host :: "sample_world script_host" where
  "sample_script_host =
     \<lparr>sh_check_cancelled = (\<lambda>w. (w, None)),
      sh_now = (\<lambda>w. of_nat (sw_time w)),
      sh_tree = (\<lambda>w. scripts_tree),
      sh_acquire = (\<lambda>w. (sw_note (Gate (\<not> sw_held w)) w\<lparr>sw_held := True\<rparr>, \<not> sw_held w)),
      sh_release = (\<lambda>w. sw_note GateReleased w\<lparr>sw_held := False\<rparr>),
      sh_environ = (\<lambda>w. []),
      sh_require_bash = (\<lambda>w. (w, Inr ''/bin/bash'')),
      sh_spawn = (\<lambda>args env w. (sw_note Spawned w, Inr ())),
      sh_poll = (\<lambda>w. (w, Some 0)),
      sh_select = (\<lambda>streaming w. if streaming then (w, Inr True) else (w\<lparr>sw_time := Suc (sw_time w)\<rparr>, Inr False)),
      sh_read = (\<lambda>w. case sw_output w of [] \<Rightarrow> (w, Inr []) | c # cs \<Rightarrow> (w\<lparr>sw_output := cs\<rparr>, Inr c)),
      sh_decode = (\<lambda>bs final w. (w, map char_of bs)),
      sh_killpg = (\<lambda>s w. (sw_note (Signalled s) w, False)),
      sh_sleep = (\<lambda>d w. w\<lparr>sw_time := sw_time w + nat \<lceil>d\<rceil>\<rparr>),
      sh_close = (\<lambda>w. sw_note ProcessClosed w),
      sh_path_prefix = ''/usr/bin''\<rparr>"

definition patient_consumer :: "sample_world consumer" where
  "patient_consumer ev w = (sw_note (Yielded ev) w, True)"

definition sample_policy :: execution_policy where
  "sample_policy = \<lparr>po_timeout = 5, po_max_output = 10, po_env_allowlist = []\<rparr>"

definition script_world :: sample_world where
  "script_world = \<lparr>sw_notes = [], sw_time = 0, sw_held = False, sw_output = [[104, 105]]\<rparr>"

lemma sample_notes: "notes_actions sample_script_host patient_consumer sw_notes"
  by (simp add: notes_actions_def sample_script_host_def patient_consumer_def sw_note_def split: list.split)

lemma sample_clock: "clock_of_script sample_script_host patient_consumer"
  by (auto simp: clock_of_script_def sample_script_host_def patient_consumer_def sw_note_def split: list.split)
    (meson le_of_int_ceiling of_nat_ceiling)

lemma sample_run:
  "case script_events 43 sample_script_host patient_consumer sample_policy [''s''] (Some ''run.sh'') script_world of
     (w', r) \<Rightarrow> r = Finished () \<and> sw_notes w' =
       [Gate True, Spawned, Yielded (OutputChunk ''hi''), Signalled SIGTERM, ProcessClosed, GateReleased,
        Yielded (Completed \<lparr>co_status = Success, co_exit_code = Some 0, co_diagnostic = []\<rparr>)]"
  by code_simp

theorem script_stream_is_closed_witness:
  "\<exists>w' r acts c. script_events 43 sample_script_host patient_consumer sample_policy [''s''] (Some ''run.sh'') script_world =
      (w', r) \<and> sw_notes w' = acts @ [Yielded (Completed c)] \<and> stream_shape (Some ''run.sh'') acts"
proof -
  obtain w' where run: "script_events 43 sample_script_host patient_consumer sample_policy [''s''] (Some ''run.sh'')
      script_world = (w', Finished ())"
    using sample_run by (auto split: prod.splits)
  from script_stream_is_closed[OF sample_notes this] obtain acts fin
    where "sw_notes w' = acts @ fin" "stream_shape (Some ''run.sh'') acts" "fin \<noteq> []"
      "fin = [] \<or> (\<exists>c. fin = [Yielded (Completed c)] \<and> completes (Some ''run.sh'') c)"
    by (auto simp: script_world_def)
  with run show ?thesis by auto
qed

theorem valid_script_is_inside_witness:
  "\<exists>file parts. valid_script scripts_tree [''s''] ''run.sh'' = Some file \<and> fwalk scripts_tree file = Inr ([''s''] @ parts)
    \<and> suffix ''.sh'' (last parts) \<and> valid_script scripts_tree [''s''] ''l.sh'' = None"
proof -
  have "valid_script scripts_tree [''s''] ''run.sh'' = Some [''s'', ''run.sh'']" by code_simp
  moreover have "fwalk scripts_tree [''s''] = Inr [''s'']" by code_simp
  moreover have "valid_script scripts_tree [''s''] ''l.sh'' = None" by code_simp
  ultimately show ?thesis using valid_script_is_inside by blast
qed

theorem script_environment_is_clean_witness:
  "\<exists>pol. execution_policy_of 5 10 [''HOME''] = Inr pol \<and>
    map_of (script_environment ''/usr/bin'' [(''PATH'', ''/evil''), (''HOME'', ''/h'')] (po_env_allowlist pol)) ''PATH'' =
      Some ''/usr/bin''"
proof -
  have "\<exists>pol. execution_policy_of 5 10 [''HOME''] = Inr pol"
    by (simp add: execution_policy_of_def allowed_env_name_def RESERVED_SCRIPT_ENV_def)
  then obtain pol where pol: "execution_policy_of 5 10 [''HOME''] = Inr pol" by blast
  have "''PATH'' \<in> set RESERVED_SCRIPT_ENV" by (simp add: RESERVED_SCRIPT_ENV_def)
  from script_environment_is_clean[OF pol this] pol show ?thesis by auto
qed

theorem script_execution_ends_witness:
  "snd (script_events (Suc 61) sample_script_host patient_consumer sample_policy [''s''] (Some ''run.sh'') script_world)
    \<noteq> StillRunning"
  by (rule script_execution_ends[OF sample_clock]) (simp_all add: enough_fuel_def sample_policy_def)

end
