(* ===== verification/Roboz_Client.thy ===== *)
theory Roboz_Client
  imports Roboz_Scripts
begin

text \<open>
  The two ends of the script socket: the client (\<open>shed/tools/safe_scripts/client.py\<close>) and the
  session and listener of the service (\<open>server.py\<close>, \<open>_Session\<close>, \<open>_ScriptServer\<close>). Reading and
  the event stream are those of the two theories below; sockets are a record of operations over a
  world of any type, the octets of a text in UTF-8 is a parameter.
\<close>

section \<open>Responses\<close>

definition invalid :: "string \<Rightarrow> script_error + 'a" where
  "invalid m = Inl (BadValue m)"

text \<open>One response checked: the bytes of output so far, or why the stream is rejected.\<close>

definition check_response ::
  "(string \<Rightarrow> nat) \<Rightarrow> bool \<Rightarrow> int \<Rightarrow> bytes \<Rightarrow> nat \<Rightarrow> response \<Rightarrow> script_error + nat" where
  "check_response octets discovery max_output pending sofar ev =
     (case ev of
        OutputChunk t \<Rightarrow>
          if discovery then invalid ''invalid script helper response''
          else if max_output * 3 < int (sofar + octets t)
            then invalid ''script helper output exceeds advertised limit''
          else Inr (sofar + octets t)
      | ScriptEntryMessage s d \<Rightarrow>
          if discovery then Inr sofar else invalid ''invalid script helper response''
      | Completed c \<Rightarrow>
          if discovery \<and> (co_status c \<notin> {Listed, Refused, ScriptFailed, ScriptTimeout} \<or> co_exit_code c \<noteq> None)
            then invalid ''invalid discovery completion''
          else if \<not> discovery \<and> co_status c = Listed then invalid ''invalid execution completion''
          else if pending \<noteq> [] then invalid ''data after script helper completion''
          else Inr sofar)"

definition is_completion :: "response \<Rightarrow> bool" where
  "is_completion ev = (case ev of Completed c \<Rightarrow> True | _ \<Rightarrow> False)"

fun responses_loop ::
  "nat \<Rightarrow> 'w reader_host \<Rightarrow> wire_codec \<Rightarrow> (string \<Rightarrow> nat) \<Rightarrow> 'w consumer \<Rightarrow> bool \<Rightarrow> int \<Rightarrow> rat \<Rightarrow> nat \<Rightarrow> bytes \<Rightarrow> 'w
    \<Rightarrow> 'w \<times> unit gen_end" where
  "responses_loop 0 h codec octets consume discovery max_output deadline sofar pending w = (w, StillRunning)"
| "responses_loop (Suc n) h codec octets consume discovery max_output deadline sofar pending w =
     (case read_frame n h codec deadline pending w of
        None \<Rightarrow> (w, StillRunning)
      | Some (w1, pending1, Inl e) \<Rightarrow> (w1, Failing e)
      | Some (w1, pending1, Inr m) \<Rightarrow>
          (case m of
             ResponseFrame ev \<Rightarrow>
               gbind (glift w1 (check_response octets discovery max_output pending1 sofar ev)) (\<lambda>w2 sofar'.
                 gbind (yield_event consume ev w2) (\<lambda>w3 _.
                   if is_completion ev then (w3, Finished ())
                   else responses_loop n h codec octets consume discovery max_output deadline sofar' pending1 w3))
           | _ \<Rightarrow> (w1, Failing (BadValue ''invalid script helper response''))))"

section \<open>The request\<close>

record 'w client_host =
  cl_reader :: "'w reader_host"
  cl_connect :: "'w \<Rightarrow> 'w \<times> script_error option"
  cl_send :: "bytes \<Rightarrow> 'w \<Rightarrow> 'w \<times> script_error option"
  cl_close :: "'w \<Rightarrow> 'w"

definition effect :: "'w \<times> script_error option \<Rightarrow> 'w \<times> unit gen_end" where
  "effect m = (case m of (w, None) \<Rightarrow> (w, Finished ()) | (w, Some e) \<Rightarrow> (w, Failing e))"

text \<open>\<open>_greeting\<close>: the greeting, its policy checked, and the bytes behind it.\<close>

definition read_greeting ::
  "nat \<Rightarrow> 'w reader_host \<Rightarrow> wire_codec \<Rightarrow> 'w \<Rightarrow> 'w \<times> (greeting \<times> bytes) gen_end" where
  "read_greeting n h codec w =
     (case read_frame n h codec (rh_now h w + HANDSHAKE_TIMEOUT_S) [] w of
        None \<Rightarrow> (w, StillRunning)
      | Some (w1, pending, Inl e) \<Rightarrow> (w1, Failing e)
      | Some (w1, pending, Inr (GreetingFrame g)) \<Rightarrow>
          gbind (glift w1 (greeting_policy g)) (\<lambda>w2 _. (w2, Finished (g, pending)))
      | Some (w1, pending, Inr _) \<Rightarrow> (w1, Failing (BadValue ''expected script helper greeting'')))"

text \<open>The block within the socket; the result says whether the request may have been sent.\<close>

definition client_exchange ::
  "nat \<Rightarrow> 'w client_host \<Rightarrow> wire_codec \<Rightarrow> (string \<Rightarrow> nat) \<Rightarrow> 'w consumer \<Rightarrow> string option \<Rightarrow> 'w
    \<Rightarrow> ('w \<times> unit gen_end) \<times> bool" where
  "client_exchange n h codec octets consume wanted w =
     (case gbind (effect (rh_check (cl_reader h) w)) (\<lambda>w1 _.
             gbind (effect (cl_connect h w1)) (\<lambda>w2 _.
               gbind (read_greeting n (cl_reader h) codec w2) (\<lambda>w3 gp.
                 gbind (glift w3 (encode_frame codec (RequestFrame wanted))) (\<lambda>w4 frame.
                   (w4, Finished (gp, frame)))))) of
        (w4, Finished ((g, pending), frame)) \<Rightarrow>
          (gbind (effect (cl_send h frame w4)) (\<lambda>w5 _.
             responses_loop n (cl_reader h) codec octets consume (wanted = None) (gr_max_output g)
               (rh_now (cl_reader h) w5 + gr_timeout g + CLEANUP_DELIVERY_ALLOWANCE_S) 0 pending w5), True)
      | (w4, Failing e) \<Rightarrow> ((w4, Failing e), False)
      | (w4, Expired) \<Rightarrow> ((w4, Expired), False)
      | (w4, Abandoned) \<Rightarrow> ((w4, Abandoned), False)
      | (w4, StillRunning) \<Rightarrow> ((w4, StillRunning), False))"

definition failure_diagnostic :: "bool \<Rightarrow> string \<Rightarrow> string" where
  "failure_diagnostic attempted message =
     ''Script helper transport failure'' @
     (if attempted then ''; execution outcome is unknown'' else []) @ '': '' @ message"

definition client_events ::
  "nat \<Rightarrow> 'w client_host \<Rightarrow> wire_codec \<Rightarrow> (string \<Rightarrow> nat) \<Rightarrow> 'w consumer \<Rightarrow> string option \<Rightarrow> 'w \<Rightarrow> 'w \<times> unit gen_end" where
  "client_events n h codec octets consume wanted w =
     (case client_exchange n h codec octets consume wanted w of
        ((w1, StillRunning), attempted) \<Rightarrow> (w1, StillRunning)
      | ((w1, Failing (OsFailure m)), attempted) \<Rightarrow>
          gbind (glift (cl_close h w1) (completed_outcome ScriptFailed None (failure_diagnostic attempted m)))
            (\<lambda>w2 c. yield_event consume (Completed c) w2)
      | ((w1, Failing (BadValue m)), attempted) \<Rightarrow>
          gbind (glift (cl_close h w1) (completed_outcome ScriptFailed None (failure_diagnostic attempted m)))
            (\<lambda>w2 c. yield_event consume (Completed c) w2)
      | ((w1, r), attempted) \<Rightarrow> (cl_close h w1, r))"

text \<open>\<open>ScriptSocketDependency.check\<close>: the greeting only.\<close>

definition socket_dependency_check :: "nat \<Rightarrow> 'w client_host \<Rightarrow> wire_codec \<Rightarrow> 'w \<Rightarrow> 'w \<times> script_error option" where
  "socket_dependency_check n h codec w =
     (case gbind (effect (cl_connect h w)) (\<lambda>w1 _. read_greeting n (cl_reader h) codec w1) of
        (w2, Finished _) \<Rightarrow> (cl_close h w2, None)
      | (w2, Failing e) \<Rightarrow> (cl_close h w2, Some e)
      | (w2, _) \<Rightarrow> (w2, Some (OsFailure ''script socket deadline expired'')))"

section \<open>The result\<close>

record script_result =
  sr_status :: script_status
  sr_scripts :: "(string \<times> string) list"
  sr_exit_code :: "int option"
  sr_output :: string

text \<open>\<open>collect\<close>, on the events that the generator yields; a sink may raise.\<close>

definition script_transcript :: "string list \<Rightarrow> string \<Rightarrow> string" where
  "script_transcript chunks diagnostic =
     (let s = concat chunks
      in if diagnostic = [] then s
         else s @ (if s \<noteq> [] \<and> last s \<noteq> line_end then [line_end] else []) @ diagnostic)"

fun collect ::
  "(string \<Rightarrow> 'w \<Rightarrow> 'w \<times> exn option) \<Rightarrow> string list \<Rightarrow> (string \<times> string) list \<Rightarrow> response list \<Rightarrow> 'w
    \<Rightarrow> 'w \<times> (exn + script_result)" where
  "collect sink chunks listed [] w =
     (w, Inl (OtherException ''script stream ended without completion''))"
| "collect sink chunks listed (Completed c # evs) w =
     (w, Inr \<lparr>sr_status = co_status c, sr_scripts = sort_key fst listed, sr_exit_code = co_exit_code c,
              sr_output = script_transcript chunks (co_diagnostic c)\<rparr>)"
| "collect sink chunks listed (ScriptEntryMessage s d # evs) w =
     collect sink chunks (listed @ [(s, d)]) evs w"
| "collect sink chunks listed (OutputChunk t # evs) w =
     (case sink t w of
        (w1, Some e) \<Rightarrow> (w1, Inl e)
      | (w1, None) \<Rightarrow> collect sink (chunks @ [t]) listed evs w1)"

section \<open>The session\<close>

text \<open>\<open>_handshake\<close>: the greeting is sent; a peer that goes away without a byte wanted nothing.\<close>

definition session_handshake ::
  "nat \<Rightarrow> 'w client_host \<Rightarrow> wire_codec \<Rightarrow> string \<Rightarrow> execution_policy \<Rightarrow> 'w \<Rightarrow> 'w \<times> string option option gen_end" where
  "session_handshake n h codec version pol w =
     gbind (glift w (encode_frame codec (GreetingFrame
         \<lparr>gr_protocol = PROTOCOL_VERSION, gr_roboz = version, gr_timeout = po_timeout pol,
          gr_max_output = po_max_output pol\<rparr>))) (\<lambda>w1 frame.
       gbind (effect (cl_send h frame w1)) (\<lambda>w2 _.
         case read_frame n (cl_reader h) codec (rh_now (cl_reader h) w2 + HANDSHAKE_TIMEOUT_S) [] w2 of
           None \<Rightarrow> (w2, StillRunning)
         | Some (w3, pending, Inl e) \<Rightarrow>
             if e = OsFailure ''script helper disconnected''
             then (if pending \<noteq> [] then (w3, Failing (BadValue ''incomplete script request''))
                   else (w3, Finished None))
             else (w3, Failing e)
         | Some (w3, pending, Inr m) \<Rightarrow>
             (case m of
                RequestFrame wanted \<Rightarrow>
                  if pending \<noteq> [] then (w3, Failing (BadValue ''expected one script request''))
                  else (w3, Finished (Some wanted))
              | _ \<Rightarrow> (w3, Failing (BadValue ''expected one script request'')))))"

text \<open>Delivery of one event: check the peer, send the frame; a failure ends the session.\<close>

definition deliver_event ::
  "'w client_host \<Rightarrow> wire_codec \<Rightarrow> ('w \<Rightarrow> 'w \<times> script_error option) \<Rightarrow> 'w consumer" where
  "deliver_event h codec session_check ev w =
     (case session_check w of
        (w1, Some e) \<Rightarrow> (w1, False)
      | (w1, None) \<Rightarrow>
          (case encode_frame codec (ResponseFrame ev) of
             Inl e \<Rightarrow> (w1, False)
           | Inr frame \<Rightarrow> (case cl_send h frame w1 of (w2, None) \<Rightarrow> (w2, True) | (w2, Some e) \<Rightarrow> (w2, False))))"

definition session_handle ::
  "nat \<Rightarrow> 'w client_host \<Rightarrow> 'w script_host \<Rightarrow> wire_codec \<Rightarrow> string \<Rightarrow> execution_policy \<Rightarrow> path
    \<Rightarrow> ('w \<Rightarrow> 'w \<times> script_error option) \<Rightarrow> 'w \<Rightarrow> 'w \<times> bool" where
  "session_handle n h sh codec version pol base session_check w =
     (case session_handshake n h codec version pol w of
        (w1, Finished (Some wanted)) \<Rightarrow>
          (case session_check w1 of
             (w2, Some e) \<Rightarrow> (w2, True)
           | (w2, None) \<Rightarrow>
               (case script_events n (sh\<lparr>sh_check_cancelled := session_check\<rparr>)
                       (deliver_event h codec session_check) pol base wanted w2 of
                  (w3, r) \<Rightarrow> (w3, r \<noteq> StillRunning)))
      | (w1, r) \<Rightarrow> (w1, r \<noteq> StillRunning))"

section \<open>What the service sends is accepted\<close>

text \<open>The events of a whole stream, checked as the client does when nothing is behind the last.\<close>

fun accepted :: "(string \<Rightarrow> nat) \<Rightarrow> bool \<Rightarrow> int \<Rightarrow> nat \<Rightarrow> response list \<Rightarrow> bool" where
  "accepted octets discovery max_output sofar [] = False"
| "accepted octets discovery max_output sofar (ev # evs) =
     (case check_response octets discovery max_output [] sofar ev of
        Inl e \<Rightarrow> False
      | Inr sofar' \<Rightarrow> if is_completion ev then evs = [] else accepted octets discovery max_output sofar' evs)"

fun yielded :: "script_action list \<Rightarrow> response list" where
  "yielded [] = []"
| "yielded (Yielded ev # acts) = ev # yielded acts"
| "yielded (a # acts) = yielded acts"

lemma yielded_append [simp]: "yielded (xs @ ys) = yielded xs @ yielded ys"
  by (induction xs rule: yielded.induct) auto

definition output_octets :: "(string \<Rightarrow> nat) \<Rightarrow> response list \<Rightarrow> nat" where
  "output_octets octets evs = sum_list (map (\<lambda>ev. case ev of OutputChunk t \<Rightarrow> octets t | _ \<Rightarrow> 0) evs)"

lemma output_octets_simps [simp]:
  "output_octets octets [] = 0"
  "output_octets octets (ev # evs) = (case ev of OutputChunk t \<Rightarrow> octets t | _ \<Rightarrow> 0) + output_octets octets evs"
  "output_octets octets (evs @ evs') = output_octets octets evs + output_octets octets evs'"
  by (simp_all add: output_octets_def)

text \<open>
  An incremental decoder that writes at most three bytes for a byte it was given, counting those it
  still holds, and that holds none for a new process.
\<close>

definition expanding :: "'w script_host \<Rightarrow> 'w consumer \<Rightarrow> (string \<Rightarrow> nat) \<Rightarrow> ('w \<Rightarrow> nat) \<Rightarrow> bool" where
  "expanding h consume octets held \<longleftrightarrow>
     (\<forall>w bs b. octets (snd (sh_decode h bs b w)) + 3 * held (fst (sh_decode h bs b w)) \<le> 3 * (held w + length bs)) \<and>
     (\<forall>w args env. \<not> isl (snd (sh_spawn h args env w)) \<longrightarrow> held (fst (sh_spawn h args env w)) = 0) \<and>
     (\<forall>w ev. held (fst (consume ev w)) = held w) \<and>
     (\<forall>w. held (fst (sh_check_cancelled h w)) = held w) \<and>
     (\<forall>w. held (fst (sh_poll h w)) = held w) \<and>
     (\<forall>w b. held (fst (sh_select h b w)) = held w) \<and>
     (\<forall>w. held (fst (sh_read h w)) = held w)"

lemma expandingD:
  assumes "expanding h consume octets held"
  shows "sh_decode h bs b w = (w', t) \<Longrightarrow> octets t + 3 * held w' \<le> 3 * (held w + length bs)"
    and "sh_spawn h args env w = (w', Inr u) \<Longrightarrow> held w' = 0"
    and "consume ev w = (w', c) \<Longrightarrow> held w' = held w"
    and "sh_check_cancelled h w = (w', e) \<Longrightarrow> held w' = held w"
    and "sh_poll h w = (w', x) \<Longrightarrow> held w' = held w"
    and "sh_select h b w = (w', y) \<Longrightarrow> held w' = held w"
    and "sh_read h w = (w', z) \<Longrightarrow> held w' = held w"
  using assms unfolding expanding_def by (metis fst_conv snd_conv isl_def sum.simps(4) Inr_Inl_False)+

text \<open>From \<open>w\<close> on, at most \<open>3 * k\<close> bytes of output, counting what the decoder holds.\<close>

definition spends ::
  "('w \<Rightarrow> script_action list) \<Rightarrow> (string \<Rightarrow> nat) \<Rightarrow> ('w \<Rightarrow> nat) \<Rightarrow> int \<Rightarrow> 'w \<Rightarrow> 'w \<Rightarrow> bool" where
  "spends seen octets held k w w' \<longleftrightarrow>
     (\<exists>acts. seen w' = seen w @ acts \<and>
        int (output_octets octets (yielded acts)) + 3 * int (held w') \<le> 3 * (int (held w) + k))"

lemma spends_same: "seen w' = seen w \<Longrightarrow> held w' = held w \<Longrightarrow> 0 \<le> k \<Longrightarrow> spends seen octets held k w w'"
  by (simp add: spends_def)

lemma spends_trans:
  "spends seen octets held k1 w w1 \<Longrightarrow> spends seen octets held k2 w1 w2 \<Longrightarrow> spends seen octets held (k1 + k2) w w2"
  by (force simp: spends_def)

lemma spends_mono: "spends seen octets held k w w' \<Longrightarrow> k \<le> k' \<Longrightarrow> spends seen octets held k' w w'"
  by (force simp: spends_def)

lemma cut_off_world: "fst (cut_off w st d) = w"
  by (simp add: cut_off_def gbind_def glift_def split: sum.split)

lemma decoded_spends:
  assumes "notes_actions h consume seen" and "expanding h consume octets held"
    and "sh_decode h bs b w = (w1, t)"
    and "(if t = [] then (w1, Finished ()) else yield_event consume (OutputChunk t) w1) = (w2, r)"
  shows "spends seen octets held (int (length bs)) w w2"
proof -
  have same: "seen w1 = seen w" using assms(1,3) by (rule notesD(12))
  have cost: "octets t + 3 * held w1 \<le> 3 * (held w + length bs)" using assms(2,3) by (rule expandingD(1))
  show ?thesis
  proof (cases "t = []")
    case True
    with assms(4) same cost show ?thesis by (auto simp: spends_def)
  next
    case False
    obtain w3 c where w3: "consume (OutputChunk t) w1 = (w3, c)" by fastforce
    with assms(4) False have "w2 = w3" by (auto simp: yield_event_def split: bool.splits)
    with same cost notesD(1)[OF assms(1) w3] expandingD(3)[OF assms(2) w3] show ?thesis
      by (auto simp: spends_def)
  qed
qed

text \<open>A step of the loop pays for the bytes it takes from the budget.\<close>

definition pays ::
  "('w \<Rightarrow> script_action list) \<Rightarrow> (string \<Rightarrow> nat) \<Rightarrow> ('w \<Rightarrow> nat) \<Rightarrow> int \<Rightarrow> 'w \<Rightarrow> 'w \<times> loop_step gen_end \<Rightarrow> bool" where
  "pays seen octets held remaining w m \<longleftrightarrow>
     spends seen octets held
       (case snd m of Finished (Again st re) \<Rightarrow> remaining - re | _ \<Rightarrow> remaining) w (fst m) \<and>
     (\<forall>st re. snd m = Finished (Again st re) \<longrightarrow> 0 \<le> re)"

lemma chunk_step_pays:
  assumes "notes_actions h consume seen" and "expanding h consume octets held" and "0 \<le> remaining"
  shows "pays seen octets held remaining w (chunk_step h consume streaming remaining chunk w)"
proof (cases "chunk = []")
  case True
  with assms(3) show ?thesis by (simp add: chunk_step_def pays_def spends_same)
next
  case False
  let ?bs = "take (nat remaining) chunk"
  obtain w1 t where w1: "sh_decode h ?bs False w = (w1, t)" by fastforce
  obtain w2 r where w2: "(if t = [] then (w1, Finished ()) else yield_event consume (OutputChunk t) w1) = (w2, r)"
    by fastforce
  note cost = decoded_spends[OF assms(1,2) w1 w2]
  have all: "spends seen octets held remaining w w2"
    using assms(3) by (intro spends_mono[OF cost]) simp
  show ?thesis
  proof (cases "r = Finished () \<and> int (length chunk) \<le> remaining")
    case True
    then have "chunk_step h consume streaming remaining chunk w =
        (w2, Finished (Again streaming (remaining - int (length chunk))))"
      using False w1 w2 by (simp add: chunk_step_def gbind_def)
    moreover have "spends seen octets held (int (length chunk)) w w2"
      by (intro spends_mono[OF cost]) simp
    ultimately show ?thesis using True by (simp add: pays_def)
  next
    case stopped: False
    then have "fst (chunk_step h consume streaming remaining chunk w) = w2 \<and>
        (\<forall>st re. snd (chunk_step h consume streaming remaining chunk w) \<noteq> Finished (Again st re))"
      using False w1 w2 by (cases r) (auto simp: chunk_step_def gbind_def cut_off_world)
    with all show ?thesis by (auto simp: pays_def split: gen_end.split loop_step.split)
  qed
qed

lemma read_step_pays:
  assumes "notes_actions h consume seen" and "expanding h consume octets held" and "0 \<le> remaining"
  shows "pays seen octets held remaining w (read_step h consume streaming remaining w)"
proof -
  obtain w1 q where w1: "sh_select h streaming w = (w1, q)" by fastforce
  have s1: "seen w1 = seen w" "held w1 = held w"
    using notesD(10)[OF assms(1) w1] expandingD(6)[OF assms(2) w1] by auto
  obtain w2 c where w2: "sh_read h w1 = (w2, c)" by fastforce
  have s2: "seen w2 = seen w" "held w2 = held w"
    using notesD(11)[OF assms(1) w2] expandingD(7)[OF assms(2) w2] s1 by auto
  have "pays seen octets held remaining w (chunk_step h consume streaming remaining chunk w2)" for chunk
    using chunk_step_pays[OF assms, of w2 streaming chunk] s2 by (simp add: pays_def spends_def)
  then show ?thesis
    using w1 w2 s1 s2 assms(3)
    by (auto simp: read_step_def pays_def spends_same split: sum.split bool.split)
qed

lemma pays_caught: "pays seen octets held remaining w m \<Longrightarrow> pays seen octets held remaining w (caught m)"
proof -
  obtain w1 r where m: "m = (w1, r)" by fastforce
  assume "pays seen octets held remaining w m"
  then show ?thesis
    unfolding m by (cases r) (auto simp: pays_def caught_def cut_off_world split: script_error.split gen_end.split loop_step.split)
qed

lemma output_step_pays:
  assumes "notes_actions h consume seen" and "expanding h consume octets held" and "0 \<le> remaining"
  shows "pays seen octets held remaining w (output_step h consume deadline streaming remaining w)"
proof -
  obtain w1 c where w1: "(if streaming then (w, None) else sh_poll h w) = (w1, c)" by fastforce
  then have s1: "seen w1 = seen w" "held w1 = held w"
    by (auto split: if_splits dest: notesD(8)[OF assms(1)] expandingD(5)[OF assms(2)])
  obtain w2 q where w2: "script_check h deadline w1 = (w2, q)" by fastforce
  have s2: "seen w2 = seen w" "held w2 = held w"
    using script_check_seen[OF assms(1) w2] w2 s1 expandingD(4)[OF assms(2)]
    by (auto simp: script_check_def split: prod.splits option.splits if_splits)
  have "pays seen octets held remaining w (read_step h consume streaming remaining w2)"
    using read_step_pays[OF assms, of w2 streaming] s2 by (simp add: pays_def spends_def)
  then have "pays seen octets held remaining w (gbind (script_check h deadline w1) (\<lambda>w2 _. read_step h consume streaming remaining w2))"
    using w2 s2 assms(3) by (cases q) (simp_all add: gbind_def pays_def spends_same)
  then have "pays seen octets held remaining w
      (caught (gbind (script_check h deadline w1) (\<lambda>w2 _. read_step h consume streaming remaining w2)))"
    by (rule pays_caught)
  then show ?thesis
    using w1 s1 assms(3) by (cases c) (simp_all add: output_step_def pays_def spends_same)
qed

lemma output_loop_spends:
  assumes "notes_actions h consume seen" and "expanding h consume octets held"
  shows "0 \<le> remaining \<Longrightarrow>
    spends seen octets held remaining w (fst (output_loop n h consume deadline streaming remaining w))"
proof (induction n arbitrary: streaming remaining w)
  case (Suc n)
  obtain w1 r where w1: "output_step h consume deadline streaming remaining w = (w1, r)" by fastforce
  note step = output_step_pays[OF assms Suc.prems, of w deadline streaming, unfolded w1 pays_def fst_conv snd_conv]
  show ?case
  proof (cases "\<exists>st re. r = Finished (Again st re)")
    case True
    then obtain st re where r: "r = Finished (Again st re)" by blast
    with step have "spends seen octets held (remaining - re) w w1" "0 \<le> re" by auto
    with spends_trans[OF this(1) Suc.IH[OF this(2), of w1 st]] w1 r show ?thesis by (simp add: gbind_def)
  next
    case False
    with step have "spends seen octets held remaining w w1" by (auto split: gen_end.splits loop_step.splits)
    with False w1 show ?thesis by (auto simp: gbind_def split: gen_end.split loop_step.split)
  qed
qed (simp add: spends_same)

text \<open>At most \<open>3 * k\<close> bytes of output from \<open>w\<close> on.\<close>

definition outputs ::
  "('w \<Rightarrow> script_action list) \<Rightarrow> (string \<Rightarrow> nat) \<Rightarrow> int \<Rightarrow> 'w \<Rightarrow> 'w \<Rightarrow> bool" where
  "outputs seen octets k w w' \<longleftrightarrow>
     (\<exists>acts. seen w' = seen w @ acts \<and> int (output_octets octets (yielded acts)) \<le> 3 * k)"

lemma outputs_silent: "seen w' = seen w @ acts \<Longrightarrow> yielded acts = [] \<Longrightarrow> 0 \<le> k \<Longrightarrow> outputs seen octets k w w'"
  by (auto simp: outputs_def)

lemma outputs_before: "seen w1 = seen w @ acts \<Longrightarrow> yielded acts = [] \<Longrightarrow> outputs seen octets k w1 w' \<Longrightarrow> outputs seen octets k w w'"
  unfolding outputs_def by (metis append.assoc append_Nil yielded_append)

lemma outputs_after: "outputs seen octets k w w1 \<Longrightarrow> seen w' = seen w1 @ acts \<Longrightarrow> yielded acts = [] \<Longrightarrow> outputs seen octets k w w'"
  unfolding outputs_def by (metis append.assoc append_Nil2 yielded_append)

lemma outputs_spends: "spends seen octets held k w w' \<Longrightarrow> held w = 0 \<Longrightarrow> outputs seen octets k w w'"
  by (force simp: spends_def outputs_def)

lemma yielded_signals: "list_all is_signal acts \<Longrightarrow> yielded acts = []"
  by (induction acts rule: yielded.induct) (auto split: script_action.splits)

lemma final_tail_spends:
  assumes "notes_actions h consume seen" and "expanding h consume octets held"
  shows "spends seen octets held 0 w (fst (final_tail h consume r w))"
proof -
  obtain w1 t where w1: "sh_decode h [] True w = (w1, t)" by fastforce
  obtain w2 q where w2: "(if t = [] then (w1, Finished ()) else yield_event consume (OutputChunk t) w1) = (w2, q)"
    by fastforce
  have "fst (final_tail h consume r w) = w2"
    using w1 w2 by (cases q) (auto simp: final_tail_def gbind_def glift_def split: run_end.split sum.split)
  with decoded_spends[OF assms w1 w2] show ?thesis by simp
qed

lemma process_outputs:
  assumes "notes_actions h consume seen" and "expanding h consume octets held" and "held w = 0" and "0 \<le> k"
  shows "outputs seen octets k w (fst (with_process m h (gbind (output_loop n h consume deadline True k w)
    (\<lambda>w4 r. final_tail h consume r w4))))"
proof -
  let ?m = "gbind (output_loop n h consume deadline True k w) (\<lambda>w4 r. final_tail h consume r w4)"
  obtain w4 r where loop: "output_loop n h consume deadline True k w = (w4, r)" by fastforce
  have "spends seen octets held k w (fst (output_loop n h consume deadline True k w))"
    by (rule output_loop_spends[OF assms(1,2,4)])
  then have s4: "spends seen octets held k w w4" by (simp add: loop)
  have "spends seen octets held k w (fst (final_tail h consume x w4))" for x
    using spends_trans[OF s4 final_tail_spends[OF assms(1,2)]] by simp
  with s4 loop have "spends seen octets held k w (fst ?m)" by (cases r) (auto simp: gbind_def)
  then have out: "outputs seen octets k w (fst ?m)" using assms(3) by (rule outputs_spends)
  obtain w1 r1 where m: "?m = (w1, r1)" by fastforce
  obtain w2 r2 where t: "terminate m h w1 = (w2, r2)" by fastforce
  with terminate_signals[OF assms(1), of w1 m] obtain acts where s: "seen w2 = seen w1 @ acts" "list_all is_signal acts"
    by (auto simp: only_def)
  have "seen (sh_close h w2) = seen w2 @ [ProcessClosed]" by (rule notesD(16)[OF assms(1)])
  then have "outputs seen octets k w w2 \<and> outputs seen octets k w (sh_close h w2)"
    using out m s yielded_signals[OF s(2)] outputs_after[of seen octets k w w1 w2 acts]
      outputs_after[of seen octets k w w2 "sh_close h w2" "[ProcessClosed]"] by simp
  with out m t show ?thesis by (cases r1; cases r2) (simp_all add: with_process_def)
qed

lemma gate_outputs:
  assumes "notes_actions h consume seen" and "outputs seen octets k w (fst m)"
  shows "outputs seen octets k w (fst (with_gate h m))"
  using assms(2) outputs_after[OF assms(2) notesD(4)[OF assms(1)]]
  by (cases m; cases "snd m") (auto simp: with_gate_def)

lemma execute_outputs:
  assumes "notes_actions h consume seen" and "expanding h consume octets held" and "0 \<le> po_max_output pol"
  shows "outputs seen octets (po_max_output pol) w (fst (execute_script n h consume pol deadline file w))"
proof -
  let ?k = "po_max_output pol" and ?env = "script_environment (sh_path_prefix h) (sh_environ h w) (po_env_allowlist pol)"
  let ?run = "\<lambda>w3. with_process n h (gbind (output_loop n h consume deadline True ?k w3) (\<lambda>w4 r. final_tail h consume r w4))"
  obtain w1 b where w1: "sh_acquire h w = (w1, b)" by fastforce
  note s1 = notesD(3)[OF assms(1) w1]
  obtain w2 q where w2: "script_check h deadline w1 = (w2, q)" by fastforce
  note s2 = script_check_seen[OF assms(1) w2]
  obtain w3 r3 where w3: "start_process h pol file ?env w2 = (w3, r3)" by fastforce
  then have s3: "\<exists>acts. seen w3 = seen w2 @ acts \<and> yielded acts = []"
    by (auto simp: start_process_def gbind_def glift_def split: prod.splits sum.splits
        dest!: notesD(5-7)[OF assms(1)])
  from w3 have h3: "held w3 = 0" if "r3 = Finished ()"
    using that by (auto simp: start_process_def gbind_def glift_def split: prod.splits sum.splits
        dest!: expandingD(2)[OF assms(2)])
  have run: "outputs seen octets ?k w3 (fst (?run w3))" if "r3 = Finished ()"
    using process_outputs[OF assms(1,2) h3[OF that] assms(3)] .
  have silent1: "outputs seen octets ?k w1 w1" and silent3: "outputs seen octets ?k w1 w3"
    using s2 s3 assms(3) by (auto intro: outputs_silent)
  have body: "outputs seen octets ?k w1 (fst (gbind (script_check h deadline w1) (\<lambda>w2 _.
      gbind (start_process h pol file ?env w2) (\<lambda>w3 _. ?run w3))))"
    using w2 w3 s2 s3 run silent1 silent3
    by (cases q; cases r3) (auto simp: gbind_def outputs_def intro: outputs_before[unfolded outputs_def])
  have "outputs seen octets ?k w1 (fst (execute_script n h consume pol deadline file w))"
    using w1 gate_outputs[OF assms(1) body] silent1 by (cases b) (auto simp: execute_script_def Let_def glift_def split: sum.split)
  then show ?thesis using outputs_before[of seen w1 w "[Gate b]"] s1 by simp
qed

lemma accepted_entries:
  "list_all is_entry acts \<Longrightarrow> completes None c \<Longrightarrow>
    accepted octets True max_output sofar (yielded acts @ [Completed c])"
proof (induction acts)
  case Nil
  then show ?case by (auto simp: check_response_def completes_def is_completion_def invalid_def)
next
  case (Cons a acts)
  then obtain s d where "a = Yielded (ScriptEntryMessage s d)"
    by (auto split: script_action.splits response.splits)
  with Cons show ?case by (simp add: check_response_def is_completion_def)
qed

lemma accepted_chunks:
  "list_all is_chunk acts \<Longrightarrow> completes (Some name) c \<Longrightarrow>
    int (sofar + output_octets octets (yielded acts)) \<le> 3 * max_output \<Longrightarrow>
    accepted octets False max_output sofar (yielded acts @ [Completed c])"
proof (induction acts arbitrary: sofar)
  case Nil
  then show ?case by (auto simp: check_response_def completes_def is_completion_def)
next
  case (Cons a acts)
  then obtain t where a: "a = Yielded (OutputChunk t)"
    by (auto split: script_action.splits response.splits)
  have "accepted octets False max_output (sofar + octets t) (yielded acts @ [Completed c])"
    using Cons a by (intro Cons.IH) auto
  with Cons.prems a show ?case by (simp add: check_response_def is_completion_def)
qed

lemma execution_shape_yielded:
  assumes "execution_shape acts"
  shows "\<exists>chunks. yielded acts = yielded chunks \<and> list_all is_chunk chunks"
proof -
  consider "acts = [Gate False]" | "acts = [Gate True, GateReleased]"
    | chunks signals where "acts = [Gate True, Spawned] @ chunks @ signals @ [ProcessClosed, GateReleased]"
      "list_all is_chunk chunks" "list_all is_signal signals"
    using assms by (auto simp: execution_shape_def)
  then show ?thesis
  proof cases
    case (3 chunks signals)
    then show ?thesis by (intro exI[of _ chunks]) (simp add: yielded_signals)
  qed (auto intro: exI[of _ "[]"])
qed

text \<open>
  C26. A client never rejects what the service sends: the events of a stream that was consumed to
  its end pass the client's checks for the same request and the advertised limit, in order, with
  the completion last; in particular the output stays within three bytes for a byte of the limit.
\<close>

theorem served_stream_is_accepted:
  assumes "notes_actions h consume seen" and "expanding h consume octets held" and "0 < po_max_output pol"
    and "script_events n h consume pol base wanted w = (w', Finished ())"
  shows "\<exists>acts. seen w' = seen w @ acts \<and> accepted octets (wanted = None) (po_max_output pol) 0 (yielded acts)"
proof -
  from script_stream_is_closed[OF assms(1,4)] obtain acts c where acts: "seen w' = seen w @ acts @ [Yielded (Completed c)]"
    and shape: "stream_shape wanted acts" and c: "completes wanted c"
    by auto
  have "accepted octets (wanted = None) (po_max_output pol) 0 (yielded acts @ [Completed c])"
  proof (cases wanted)
    case None
    with shape c show ?thesis by (auto simp: stream_shape_def intro: accepted_entries)
  next
    case (Some name)
    let ?d = "sh_now h w + po_timeout pol"
    obtain w1 q where w1: "script_body n h consume pol base wanted ?d w = (w1, q)" by fastforce
    have "outputs seen octets (po_max_output pol) w w1"
    proof -
      obtain w2 u where w2: "script_check h ?d w = (w2, u)" by fastforce
      note s2 = script_check_seen[OF assms(1) w2]
      have "outputs seen octets (po_max_output pol) w2 (fst (execute_script n h consume pol ?d script w2))" for script
        using assms(3) by (intro execute_outputs[OF assms(1,2)]) simp
      moreover have "outputs seen octets (po_max_output pol) w2 w2"
        using assms(3) by (auto intro: outputs_silent)
      moreover have "w1 = w2 \<or> (\<exists>script. execute_script n h consume pol ?d script w2 = (w1, q))"
        using w1 w2 Some
        by (cases u; cases "valid_script (sh_tree h w2) base name")
          (auto simp: script_body_def gbind_def glift_def split: sum.splits)
      ultimately have "outputs seen octets (po_max_output pol) w2 w1" by (metis fst_conv)
      with s2 show ?thesis by (simp add: outputs_def)
    qed
    moreover have "seen w1 = seen w @ acts"
    proof -
      obtain q' where q': "settle_events (w1, q) = (w1, q')"
        using settle_events_fst[of "(w1, q)"] by (metis fst_conv prod.collapse)
      with assms(4) w1 obtain c' where "yield_event consume (Completed c') w1 = (w', Finished ())"
        by (auto simp: script_events_def gbind_Finished)
      then have "seen w' = seen w1 @ [Yielded (Completed c')]"
        by (auto simp: yield_event_def split: prod.splits bool.splits dest: notesD(1)[OF assms(1)])
      with acts show ?thesis by simp
    qed
    ultimately have bound: "int (output_octets octets (yielded acts)) \<le> 3 * po_max_output pol"
      by (auto simp: outputs_def)
    from shape Some have "acts = [] \<or> execution_shape acts" by (simp add: stream_shape_def)
    then obtain chunks where "yielded acts = yielded chunks" "list_all is_chunk chunks"
      using execution_shape_yielded by (cases "acts = []") (auto intro: that[of "[]"])
    with accepted_chunks[of chunks name c 0 octets "po_max_output pol"] bound c Some show ?thesis by simp
  qed
  with acts show ?thesis by (intro exI[of _ "acts @ [Yielded (Completed c)]"]) simp
qed

section \<open>Delivery\<close>

text \<open>
  What an accepted stream was is what the client sees: from a socket that delivers the frames
  of its events, however they are cut, a client that reads to the end hands exactly these events,
  in order, to its consumer.
\<close>

theorem accepted_stream_is_delivered:
  assumes "delivers h deadline incoming" and "\<forall>w ev. \<exists>w'. consume ev w = (w', True) \<and>
      incoming w' = incoming w \<and> got w' = got w @ [ev]"
    and "\<forall>w w' pending r m. read_frame m h codec deadline pending w = Some (w', r) \<longrightarrow> got w' = got w"
    and "\<forall>ev \<in> set events. sound_codec codec (ResponseFrame ev) \<and>
      encode_frame codec (ResponseFrame ev) = Inr (frame ev)"
  shows "accepted octets discovery max_output sofar events \<Longrightarrow>
    pending @ incoming w = concat (map frame events) \<Longrightarrow>
    responses_loop n h codec octets consume discovery max_output deadline sofar pending w = (w', r) \<Longrightarrow>
    r = StillRunning \<or> r = Finished () \<and> got w' = got w @ events"
  using assms(4)
proof (induction n arbitrary: events sofar pending w)
  case (Suc n)
  from Suc.prems(1) obtain ev evs where evs: "events = ev # evs" by (cases events) auto
  show ?case
  proof (cases "read_frame n h codec deadline pending w")
    case None
    with Suc.prems(3) show ?thesis by simp
  next
    case (Some res)
    obtain w1 pending1 q where res: "res = (w1, pending1, q)" by (cases res) auto
    have "pending @ incoming w = frame ev @ concat (map frame evs)" using Suc.prems(2) evs by simp
    with frame_is_read_back[OF assms(1) _ _ this] Some res Suc.prems(4) evs
    have q: "q = Inr (ResponseFrame ev)" and rest: "pending1 @ incoming w1 = concat (map frame evs)" by auto
    have got1: "got w1 = got w" using assms(3) Some res by blast
    obtain sofar' where ok: "check_response octets discovery max_output [] sofar ev = Inr sofar'"
      and more: "if is_completion ev then evs = []
        else accepted octets discovery max_output sofar' evs"
      using Suc.prems(1) evs by (auto split: sum.splits if_splits)
    have "check_response octets discovery max_output pending1 sofar ev = Inr sofar'"
    proof (cases "is_completion ev")
      case True
      with more rest have "pending1 = []" by simp
      with ok show ?thesis by simp
    next
      case False
      with ok show ?thesis by (cases ev) (auto simp: check_response_def is_completion_def)
    qed
    moreover obtain w2 where w2: "consume ev w1 = (w2, True)" "incoming w2 = incoming w1" "got w2 = got w1 @ [ev]"
      using assms(2) by blast
    ultimately have step: "(if is_completion ev then (w2, Finished ())
        else responses_loop n h codec octets consume discovery max_output deadline sofar' pending1 w2) = (w', r)"
      using Suc.prems(3) Some res q by (simp add: glift_def gbind_def yield_event_def)
    show ?thesis
    proof (cases "is_completion ev")
      case True
      with step more evs w2 got1 show ?thesis by auto
    next
      case False
      with more step rest w2(2) Suc.prems(4) evs
      have "r = StillRunning \<or> r = Finished () \<and> got w' = got w2 @ evs"
        by (intro Suc.IH[of sofar' evs pending1 w2]) auto
      with w2(3) got1 evs show ?thesis by auto
    qed
  qed
qed simp

section \<open>The listener\<close>

text \<open>
  \<open>verify_request\<close> takes a slot before \<open>socketserver\<close> starts the thread of the session, and the
  thread gives it back. A thread that cannot be started is an error that \<open>socketserver\<close> handles
  and goes on from.
\<close>

definition MAX_CONNECTIONS :: nat where "MAX_CONNECTIONS = 16"

record listener =
  ln_free :: nat
  ln_active :: nat
  ln_lost :: nat
  ln_stopping :: bool

definition verify_request :: "listener \<Rightarrow> listener option" where
  "verify_request s =
     (if ln_stopping s \<or> ln_free s = 0 then None else Some (s\<lparr>ln_free := ln_free s - 1\<rparr>))"

definition session_done :: "listener \<Rightarrow> listener" where
  "session_done s = s\<lparr>ln_free := ln_free s + 1\<rparr>"

inductive listener_step :: "listener \<Rightarrow> listener \<Rightarrow> bool" where
  start: "verify_request s = Some s' \<Longrightarrow> listener_step s (s'\<lparr>ln_active := ln_active s' + 1\<rparr>)"
| no_thread: "verify_request s = Some s' \<Longrightarrow> listener_step s (s'\<lparr>ln_lost := ln_lost s' + 1\<rparr>)"
| refuse: "verify_request s = None \<Longrightarrow> listener_step s s"
| finish: "ln_active s = Suc k \<Longrightarrow> listener_step s (session_done (s\<lparr>ln_active := k\<rparr>))"
| stop: "listener_step s (s\<lparr>ln_stopping := True\<rparr>)"

inductive_cases listener_stepE: "listener_step s s'"

definition listening :: listener where
  "listening = \<lparr>ln_free = MAX_CONNECTIONS, ln_active = 0, ln_lost = 0, ln_stopping = False\<rparr>"

definition slots_add_up :: "listener \<Rightarrow> bool" where
  "slots_add_up s \<longleftrightarrow> ln_free s + ln_active s + ln_lost s = MAX_CONNECTIONS"

lemma listener_step_slots: "listener_step s s' \<Longrightarrow> slots_add_up s \<Longrightarrow> slots_add_up s'"
  by (auto elim!: listener_stepE simp: slots_add_up_def verify_request_def session_done_def split: if_splits)

lemma listener_step_lost: "listener_step s s' \<Longrightarrow> ln_lost s \<le> ln_lost s'"
  by (auto elim!: listener_stepE simp: verify_request_def session_done_def split: if_splits)

lemma sessions_slots: "listener_step\<^sup>*\<^sup>* listening s \<Longrightarrow> slots_add_up s"
proof (induction rule: rtranclp_induct)
  case base
  show ?case by (simp add: slots_add_up_def listening_def)
qed (rule listener_step_slots)

text \<open>
  Never more than sixteen sessions run, and free slots, sessions and slots lost to threads
  that could not be started add up to sixteen; after a stop no session starts.
\<close>

theorem sessions_are_bounded:
  assumes "listener_step\<^sup>*\<^sup>* listening s"
  shows "ln_active s \<le> MAX_CONNECTIONS \<and> slots_add_up s \<and>
    (\<forall>s'. ln_stopping s \<longrightarrow> listener_step s s' \<longrightarrow> ln_active s' \<le> ln_active s)"
proof -
  have "slots_add_up s" using assms by (rule sessions_slots)
  then show ?thesis
    by (auto simp: slots_add_up_def verify_request_def session_done_def elim!: listener_stepE)
qed

text \<open>A slot whose thread could not be started is never given back.\<close>

lemma failed_thread_loses_slot:
  assumes "listener_step\<^sup>*\<^sup>* listening s" and "verify_request s = Some s'"
    and "listener_step\<^sup>*\<^sup>* (s'\<lparr>ln_lost := ln_lost s' + 1\<rparr>) s2"
  shows "ln_free s2 + ln_active s2 < MAX_CONNECTIONS"
proof -
  let ?s1 = "s'\<lparr>ln_lost := ln_lost s' + 1\<rparr>"
  have "listener_step s ?s1" using assms(2) by (rule no_thread)
  then have "slots_add_up ?s1" using sessions_slots[OF assms(1)] listener_step_slots by blast
  with assms(3) have "slots_add_up s2 \<and> ln_lost ?s1 \<le> ln_lost s2"
  proof (induction rule: rtranclp_induct)
    case (step y z)
    then show ?case using listener_step_slots listener_step_lost order_trans by blast
  qed simp
  then show ?thesis by (auto simp: slots_add_up_def)
qed

section \<open>Examples\<close>

lemma sample_expanding: "expanding sample_script_host patient_consumer length (\<lambda>w. 0)"
  by (simp add: expanding_def sample_script_host_def patient_consumer_def)

theorem served_stream_is_accepted_witness:
  "\<exists>w'. script_events 43 sample_script_host patient_consumer sample_policy [''s''] (Some ''run.sh'') script_world =
      (w', Finished ()) \<and> accepted length False 10 0 (yielded (sw_notes w'))"
proof -
  obtain w' where run: "script_events 43 sample_script_host patient_consumer sample_policy [''s''] (Some ''run.sh'')
      script_world = (w', Finished ())"
    using sample_run by (auto split: prod.splits)
  from served_stream_is_accepted[OF sample_notes sample_expanding _ this] run show ?thesis
    by (auto simp: sample_policy_def script_world_def)
qed

definition done_event :: response where
  "done_event = Completed \<lparr>co_status = Refused, co_exit_code = None, co_diagnostic = []\<rparr>"

definition done_codec :: wire_codec where
  "done_codec = \<lparr>dump_json = (\<lambda>m. [7]), validate_json = (\<lambda>bs. Some (ResponseFrame done_event))\<rparr>"

definition noting_socket :: "(bytes list \<times> response list) reader_host" where
  "noting_socket =
     \<lparr>rh_check = (\<lambda>w. (w, None)), rh_now = (\<lambda>w. 0), rh_ready = (\<lambda>w. (w, True)),
      rh_recv = (\<lambda>w. case chunk_recv (fst w) of (cs, r) \<Rightarrow> ((cs, snd w), r))\<rparr>"

definition noting_consumer :: "(bytes list \<times> response list) consumer" where
  "noting_consumer ev w = ((fst w, snd w @ [ev]), True)"

lemma noting_socket_delivers: "delivers noting_socket 3 (\<lambda>w. concat (fst w))"
proof -
  have "\<exists>w' c. chunk_recv cs = (w', Inr c) \<and> c \<noteq> [] \<and> concat cs = c @ concat w'" if "concat cs \<noteq> []" for cs
    using chunk_socket_delivers that by (simp add: delivers_def chunk_socket_def)
  then show ?thesis by (fastforce simp: delivers_def noting_socket_def)
qed

lemma noting_socket_keeps:
  "read_frame m noting_socket codec deadline pending w = Some (w', r) \<Longrightarrow> snd w' = snd w"
  by (induction m arbitrary: pending w)
    (auto simp: read_frame.simps(2) noting_socket_def
      split: prod.splits option.splits if_splits sum.splits list.splits)

theorem accepted_stream_is_delivered_witness:
  "\<exists>w'. responses_loop 6 noting_socket done_codec length noting_consumer True 10 3 0 [] ([[7], [10]], []) =
      (w', Finished ()) \<and> snd w' = [done_event]"
proof -
  have six: "(6 :: nat) = Suc 5" "(5 :: nat) = Suc (Suc (Suc (Suc (Suc 0))))" by simp_all
  obtain w' r where run: "responses_loop 6 noting_socket done_codec length noting_consumer True 10 3 0 []
      ([[7], [10]], []) = (w', r)" by fastforce
  then have "r \<noteq> StillRunning"
    unfolding six
    by (auto simp: read_frame.simps(2) noting_socket_def chunk_recv_def MAX_FRAME_BYTES_def newline_byte_def
        decode_line_def done_codec_def glift_def gbind_def check_response_def done_event_def noting_consumer_def
        yield_event_def is_completion_def)
  moreover have "accepted length True 10 0 [done_event]"
    by (simp add: check_response_def done_event_def is_completion_def)
  moreover have "\<forall>ev \<in> set [done_event]. sound_codec done_codec (ResponseFrame ev) \<and>
      encode_frame done_codec (ResponseFrame ev) = Inr [7, 10]"
    by (simp add: sound_codec_def done_codec_def encode_frame_def newline_byte_def MAX_FRAME_BYTES_def)
  ultimately have "r = Finished () \<and> snd w' = [done_event]"
    using accepted_stream_is_delivered[OF noting_socket_delivers, of noting_consumer snd done_codec
        "[done_event]" "\<lambda>ev. [7, 10]" length True 10 0 "[]" "([[7], [10]], [])" 6 w' r] run noting_socket_keeps
    by (auto simp: noting_consumer_def)
  with run show ?thesis by simp
qed

theorem sessions_are_bounded_witness:
  "\<exists>s. listener_step listening s \<and> ln_active s = 1 \<and> ln_free s = 15 \<and> slots_add_up s"
proof -
  let ?s = "listening\<lparr>ln_free := 15, ln_active := 1\<rparr>"
  have "verify_request listening = Some (listening\<lparr>ln_free := 15\<rparr>)"
    by (simp add: verify_request_def listening_def MAX_CONNECTIONS_def)
  from listener_step.start[OF this] have step: "listener_step listening ?s" by (simp add: listening_def)
  with sessions_are_bounded[of ?s] show ?thesis by (intro exI[of _ ?s]) auto
qed

end
