(* ===== verification/Roboz_Url.thy ===== *)
theory Roboz_Url
  imports Complex_Main Roboz_Roundtrip
begin

text \<open>
  What the endpoint settings use of Python's library, and the settings themselves: floating-point
  numbers as exact rationals with the rounding of \<open>float(int)\<close>, the splitting of URLs by
  \<open>urllib.parse.urlsplit\<close> with its host, user and port, the tests for identifiers and keywords,
  and the validation of \<open>endpoints/adapters/openai_compatible.py\<close>. The check of a host in
  brackets, which differs between releases of Python, is a parameter.
\<close>

section \<open>Floating-point numbers\<close>

datatype pyfloat = Finite rat | PosInf | NegInf | NaN

fun bit_length :: "nat \<Rightarrow> nat" where
  "bit_length n = (if n = 0 then 0 else Suc (bit_length (n div 2)))"

declare bit_length.simps [simp del]

definition FLOAT_LIMIT :: nat where
  "FLOAT_LIMIT = 2 ^ 1024"

text \<open>\<open>float(i)\<close> of an integer: the 53 leading bits, ties to even; \<open>None\<close> is \<open>OverflowError\<close>.\<close>

definition float_of_int :: "int \<Rightarrow> rat option" where
  "float_of_int i =
     (let n = nat \<bar>i\<bar>; e = bit_length n - 53; q = n div 2 ^ e; r = n mod 2 ^ e;
          q' = (if 2 ^ e < 2 * r \<or> 2 ^ e = 2 * r \<and> odd q then Suc q else q);
          m = q' * 2 ^ e
      in if FLOAT_LIMIT \<le> m then None else Some (of_int (sgn i) * of_nat m))"

lemma bit_length_small: "n < 2 ^ k \<Longrightarrow> bit_length n \<le> k"
proof (induction k arbitrary: n)
  case 0
  then show ?case by (simp add: bit_length.simps)
next
  case (Suc k)
  have "n div 2 < 2 ^ k" using Suc.prems by simp
  with Suc.IH[of "n div 2"] show ?case by (subst bit_length.simps) simp
qed

lemma float_of_int_exact:
  assumes "\<bar>i\<bar> < 2 ^ 53" shows "float_of_int i = Some (of_int i)"
proof -
  define n where "n = nat \<bar>i\<bar>"
  have n: "n < 2 ^ 53" using assms by (simp add: n_def nat_less_iff)
  then have e: "bit_length n - 53 = 0" using bit_length_small[of n 53] by simp
  have "n < FLOAT_LIMIT"
    unfolding FLOAT_LIMIT_def by (rule less_le_trans[OF n power_increasing]) simp_all
  then have "float_of_int i = Some (of_int (sgn i) * of_nat n)"
    unfolding float_of_int_def Let_def n_def[symmetric] e by simp
  moreover have "sgn i * int n = i" by (simp add: n_def sgn_mult_abs)
  then have "(of_int (sgn i * int n) :: rat) = of_int i" by (rule arg_cong)
  ultimately show ?thesis by simp
qed

section \<open>Splitting URLs\<close>

definition partition_at :: "char \<Rightarrow> string \<Rightarrow> string \<times> bool \<times> string" where
  "partition_at c s =
     (if c \<in> set s then (takeWhile (\<lambda>d. d \<noteq> c) s, True, tl (dropWhile (\<lambda>d. d \<noteq> c) s)) else (s, False, []))"

definition rpartition_at :: "char \<Rightarrow> string \<Rightarrow> string \<times> bool \<times> string" where
  "rpartition_at c s =
     (case partition_at c (rev s) of (b, found, a) \<Rightarrow> if found then (rev a, True, rev b) else ([], False, s))"

definition ascii_letter :: "char \<Rightarrow> bool" where
  "ascii_letter c \<longleftrightarrow> is_lower (lower_char c)"

record split_url =
  su_scheme :: string
  su_netloc :: string
  su_path :: string
  su_query :: string
  su_fragment :: string

definition clean_url :: "string \<Rightarrow> string" where
  "clean_url url =
     filter (\<lambda>c. c \<noteq> CHR 0x09 \<and> c \<noteq> CHR 0x0A \<and> c \<noteq> CHR 0x0D) (dropWhile (\<lambda>c. of_char c \<le> (32 :: nat)) url)"

definition split_scheme :: "string \<Rightarrow> string \<times> string" where
  "split_scheme url =
     (case partition_at CHR '':'' url of (before, found, after) \<Rightarrow>
        if found \<and> before \<noteq> [] \<and> ascii_letter (hd before)
             \<and> list_all (\<lambda>c. ascii_letter c \<or> is_digit c \<or> c \<in> set ''+-.'') before
        then (map lower_char before, after) else ([], url))"

definition split_netloc :: "string \<Rightarrow> string \<times> string" where
  "split_netloc url =
     (if prefix ''//'' url
      then (takeWhile (\<lambda>c. c \<notin> set ''/?#'') (drop 2 url), dropWhile (\<lambda>c. c \<notin> set ''/?#'') (drop 2 url))
      else ([], url))"

text \<open>\<open>brackets_ok\<close> is the check of a netloc that has both brackets.\<close>

definition urlsplit :: "(string \<Rightarrow> bool) \<Rightarrow> string \<Rightarrow> split_url option" where
  "urlsplit brackets_ok url =
     (case split_scheme (clean_url url) of (scheme, url1) \<Rightarrow>
      case split_netloc url1 of (netloc, url2) \<Rightarrow>
        if (CHR ''['' \<in> set netloc) \<noteq> (CHR '']'' \<in> set netloc) then None
        else if CHR ''['' \<in> set netloc \<and> \<not> brackets_ok netloc then None
        else (case partition_at CHR ''#'' url2 of (url3, _, fragment) \<Rightarrow>
              case partition_at CHR ''?'' url3 of (path, _, query) \<Rightarrow>
                Some \<lparr>su_scheme = scheme, su_netloc = netloc, su_path = path, su_query = query,
                      su_fragment = fragment\<rparr>))"

definition url_hostinfo :: "split_url \<Rightarrow> string \<times> string option" where
  "url_hostinfo u =
     (let hostinfo = snd (snd (rpartition_at CHR ''@'' (su_netloc u))) in
      case partition_at CHR ''['' hostinfo of (_, have_open, bracketed) \<Rightarrow>
        let (hostname, port) =
          (if have_open
           then (case partition_at CHR '']'' bracketed of (hostname, _, rest) \<Rightarrow>
                   (hostname, snd (snd (partition_at CHR '':'' rest))))
           else (case partition_at CHR '':'' hostinfo of (hostname, _, port) \<Rightarrow> (hostname, port)))
        in (hostname, if port = [] then None else Some port))"

text \<open>The host, \<open>''\<close> for none (the code only tests it), the user data and the port.\<close>

definition url_hostname :: "split_url \<Rightarrow> string" where
  "url_hostname u =
     (case partition_at CHR 0x25 (fst (url_hostinfo u)) of (hostname, found, zone) \<Rightarrow>
        map lower_char hostname @ (if found then CHR 0x25 # zone else []))"

definition url_username :: "split_url \<Rightarrow> string" where
  "url_username u =
     (case rpartition_at CHR ''@'' (su_netloc u) of (userinfo, have_info, _) \<Rightarrow>
        if have_info then fst (partition_at CHR '':'' userinfo) else [])"

definition url_password :: "split_url \<Rightarrow> string" where
  "url_password u =
     (case rpartition_at CHR ''@'' (su_netloc u) of (userinfo, have_info, _) \<Rightarrow>
        if have_info then snd (snd (partition_at CHR '':'' userinfo)) else [])"

definition url_port :: "split_url \<Rightarrow> unit + nat option" where
  "url_port u =
     (case snd (url_hostinfo u) of
        None \<Rightarrow> Inr None
      | Some port \<Rightarrow>
          if list_all is_digit port \<and> parse_nat port \<le> 65535 then Inr (Some (parse_nat port)) else Inl ())"

section \<open>Service settings\<close>

record adapter =
  ad_api_name :: string
  ad_base_url :: string
  ad_api_key :: "string option"
  ad_api_key_env :: string
  ad_timeout_s :: pyfloat

datatype settings_error =
    BlankModel | BlankName | BadTimeout | NotHttpUrl | UrlHasExtras | BadUrl | BadContextLimit

text \<open>The copy of an adapter with other credentials and timeout.\<close>

definition configured :: "string option \<Rightarrow> pyfloat \<Rightarrow> adapter \<Rightarrow> adapter" where
  "configured key timeout a = a\<lparr>ad_api_key := key, ad_timeout_s := timeout\<rparr>"

definition positive_float :: "pyfloat \<Rightarrow> bool" where
  "positive_float x = (case x of Finite q \<Rightarrow> 0 < q | _ \<Rightarrow> False)"

definition validate_url :: "split_url \<Rightarrow> settings_error + unit" where
  "validate_url url =
     rbind (require (su_scheme url \<in> {''http'', ''https''} \<and> url_hostname url \<noteq> []) NotHttpUrl) (\<lambda>_.
     require (url_username url = [] \<and> url_password url = [] \<and> su_query url = [] \<and> su_fragment url = [])
       UrlHasExtras)"

definition validate_service_settings :: "(string \<Rightarrow> bool) \<Rightarrow> adapter \<Rightarrow> settings_error + unit" where
  "validate_service_settings brackets_ok a =
     rbind (require (py_strip (ad_api_name a) \<noteq> [] \<and> py_strip (ad_api_key_env a) \<noteq> []) BlankName) (\<lambda>_.
     rbind (require (positive_float (ad_timeout_s a)) BadTimeout) (\<lambda>_.
     (case urlsplit brackets_ok (ad_base_url a) of
        None \<Rightarrow> Inl BadUrl
      | Some url \<Rightarrow> validate_url url)))"

definition validate_settings :: "(string \<Rightarrow> bool) \<Rightarrow> string \<Rightarrow> adapter \<Rightarrow> settings_error + unit" where
  "validate_settings brackets_ok model a =
     rbind (require (py_strip model \<noteq> []) BlankModel) (\<lambda>_. validate_service_settings brackets_ok a)"

section \<open>Identifiers\<close>

text \<open>\<open>str.isidentifier\<close> and NFKC normal form on the characters up to U+00FF.\<close>

definition id_start :: "char \<Rightarrow> bool" where
  "id_start c \<longleftrightarrow>
     (let n = (of_char c :: nat) in
        ascii_letter c \<or> n = 95 \<or> n = 170 \<or> n = 181 \<or> n = 186 \<or> (192 \<le> n \<and> n \<noteq> 215 \<and> n \<noteq> 247))"

definition id_continue :: "char \<Rightarrow> bool" where
  "id_continue c \<longleftrightarrow> id_start c \<or> is_digit c \<or> of_char c = (183 :: nat)"

definition py_isidentifier :: "string \<Rightarrow> bool" where
  "py_isidentifier s = (case s of [] \<Rightarrow> False | c # cs \<Rightarrow> id_start c \<and> list_all id_continue cs)"

definition nfkc_normal :: "string \<Rightarrow> bool" where
  "nfkc_normal s \<longleftrightarrow>
     list_all (\<lambda>c. of_char c \<notin> {160, 168, 170, 175, 178, 179, 180, 181, 184, 185, 186, 188, 189, 190 :: nat}) s"

definition py_keywords :: "string list" where
  "py_keywords =
     [''False'', ''None'', ''True'', ''and'', ''as'', ''assert'', ''async'', ''await'', ''break'', ''class'',
      ''continue'', ''def'', ''del'', ''elif'', ''else'', ''except'', ''finally'', ''for'', ''from'', ''global'',
      ''if'', ''import'', ''in'', ''is'', ''lambda'', ''nonlocal'', ''not'', ''or'', ''pass'', ''raise'', ''return'',
      ''try'', ''while'', ''with'', ''yield'']"

definition public_identifier :: "string \<Rightarrow> bool" where
  "public_identifier s \<longleftrightarrow> py_isidentifier s \<and> \<not> prefix ''_'' s \<and> s \<notin> set py_keywords"

lemma openrouter_url:
  "urlsplit (\<lambda>_. False) ''https://openrouter.ai/api/v1'' =
     Some \<lparr>su_scheme = ''https'', su_netloc = ''openrouter.ai'', su_path = ''/api/v1'', su_query = [], su_fragment = []\<rparr>"
  by (simp add: urlsplit_def clean_url_def split_scheme_def split_netloc_def partition_at_def ascii_letter_def
      is_lower_def is_digit_def lower_char_def Let_def)

end
