(* ===== verification/Roboz_Inventory.thy ===== *)
theory Roboz_Inventory
  imports Roboz_Url
begin

text \<open>
  The endpoint inventory: the model specifications of \<open>endpoints/specs.py\<close>, the codec of
  \<open>endpoints/_inventory_codec.py\<close> on documents as Python holds them after JSON, the catalogues of
  \<open>endpoints/catalog.py\<close> with their cached endpoints, the bundled data of
  \<open>endpoints/inventory.py\<close> and the declarations of \<open>endpoints/_inventory_codegen.py\<close>. A
  dictionary is the list of its items.
\<close>

datatype doc =
    DNull | DBool bool | DInt int | DFloat pyfloat | DStr string
  | DList "doc list" | DObj "(string \<times> doc) list"

datatype inventory_error = InventoryValue string | InventoryType string

section \<open>Model specifications\<close>

datatype model_spec =
    ChatModelSpec string int bool bool
  | TranscriptionModelSpec string

definition endpoint_type :: "model_spec \<Rightarrow> string" where
  "endpoint_type m = (case m of ChatModelSpec _ _ _ _ \<Rightarrow> ''llm'' | TranscriptionModelSpec _ \<Rightarrow> ''transcription'')"

definition model_post_init :: "model_spec \<Rightarrow> inventory_error + model_spec" where
  "model_post_init m =
     (case m of
        ChatModelSpec model_id context_tokens _ _ \<Rightarrow>
          if py_strip model_id = [] then Inl (InventoryValue ''model_id must be non-empty'')
          else if context_tokens \<le> 0 then Inl (InventoryValue ''max_context_tokens must be positive'')
          else Inr m
      | TranscriptionModelSpec model_id \<Rightarrow>
          if py_strip model_id = [] then Inl (InventoryValue ''model_id must be non-empty'') else Inr m)"

record provider =
  pv_base_url :: string
  pv_api_key_env :: string
  pv_timeout_s :: pyfloat
  pv_stream :: bool
  pv_models :: "(string \<times> model_spec) list"

type_synonym inventory = "(string \<times> provider) list"

section \<open>Decoding of records\<close>

definition inventory_fault :: "string \<Rightarrow> string \<Rightarrow> inventory_error + 'a" where
  "inventory_fault field what = Inl (InventoryValue (field @ '': '' @ what))"

definition checked_identifier :: "string \<Rightarrow> string \<Rightarrow> inventory_error + string" where
  "checked_identifier s field =
     (if \<not> public_identifier s \<or> \<not> nfkc_normal s
      then inventory_fault field (''use a public Python identifier, not '' @ py_repr s) else Inr s)"

definition object_of :: "doc \<Rightarrow> string \<Rightarrow> inventory_error + (string \<times> doc) list" where
  "object_of d field =
     (case d of DObj kvs \<Rightarrow> Inr kvs | _ \<Rightarrow> inventory_fault field ''expected an object with named entries'')"

definition check_fields ::
  "(string \<times> doc) list \<Rightarrow> string list \<Rightarrow> string list \<Rightarrow> string \<Rightarrow> inventory_error + unit" where
  "check_fields record required optional field =
     (let missing = filter (\<lambda>k. k \<notin> fst ` set record) required;
          unknown = filter (\<lambda>k. k \<notin> set required \<and> k \<notin> set optional) (map fst record)
      in if missing \<noteq> [] then inventory_fault field (''missing fields '' @ join_with '', '' (sort missing))
         else if unknown \<noteq> [] then inventory_fault field (''unknown fields '' @ join_with '', '' (sort unknown))
         else Inr ())"

datatype annotation = AStr | ABool | AInt | AFloat | AOther

definition scalar_float :: "doc \<Rightarrow> string \<Rightarrow> inventory_error + doc" where
  "scalar_float d field =
     (case (case d of DInt i \<Rightarrow> map_option Finite (float_of_int i) | DFloat x \<Rightarrow> Some x | _ \<Rightarrow> None) of
        None \<Rightarrow> inventory_fault field ''expected a finite positive number''
      | Some x \<Rightarrow> if positive_float x then Inr (DFloat x)
                else inventory_fault field ''expected a finite positive number'')"

definition scalar :: "doc \<Rightarrow> annotation \<Rightarrow> string \<Rightarrow> inventory_error + doc" where
  "scalar d a field =
     (case a of
        AStr \<Rightarrow>
          (case d of
             DStr s \<Rightarrow> if py_strip s = [] then inventory_fault field ''expected a nonblank string'' else Inr d
           | _ \<Rightarrow> inventory_fault field ''expected a nonblank string'')
      | ABool \<Rightarrow> (case d of DBool _ \<Rightarrow> Inr d | _ \<Rightarrow> inventory_fault field ''expected a boolean'')
      | AInt \<Rightarrow>
          (case d of
             DInt i \<Rightarrow> if i \<le> 0 then inventory_fault field ''expected a positive integer'' else Inr d
           | _ \<Rightarrow> inventory_fault field ''expected a positive integer'')
      | AFloat \<Rightarrow> scalar_float d field
      | AOther \<Rightarrow> Inl (InventoryType (field @ '': unsupported inventory scalar type'')))"

text \<open>The declared fields of a dataclass: name, annotation and default.\<close>

type_synonym schema = "(string \<times> annotation \<times> doc option) list"

definition PROVIDER_FIELDS :: schema where
  "PROVIDER_FIELDS =
     [(''base_url'', AStr, None), (''api_key_env'', AStr, None),
      (''timeout_s'', AFloat, Some (DFloat (Finite 60))), (''stream'', ABool, Some (DBool True)),
      (''models'', AOther, None)]"

definition CHAT_FIELDS :: schema where
  "CHAT_FIELDS =
     [(''model_id'', AStr, None), (''max_context_tokens'', AInt, None),
      (''accepts_images'', ABool, Some (DBool False)), (''accepts_temperature'', ABool, Some (DBool True))]"

definition TRANSCRIPTION_FIELDS :: schema where
  "TRANSCRIPTION_FIELDS = [(''model_id'', AStr, None)]"

definition MODEL_KIND_FIELD :: string where "MODEL_KIND_FIELD = ''endpoint_type''"

text \<open>\<open>record.get(name, default)\<close>; a field without default is there, or the check has failed.\<close>

definition field_value :: "(string \<times> doc) list \<Rightarrow> string \<Rightarrow> doc option \<Rightarrow> doc" where
  "field_value record name default_value =
     (case map_of record name of Some d \<Rightarrow> d
      | None \<Rightarrow> (case default_value of Some d \<Rightarrow> d | None \<Rightarrow> DNull))"

definition record_values ::
  "(string \<times> doc) list \<Rightarrow> schema \<Rightarrow> string \<Rightarrow> string list \<Rightarrow> string list
     \<Rightarrow> inventory_error + (string \<times> doc) list" where
  "record_values record declared field nested metadata =
     rbind (check_fields record
              (map fst (filter (\<lambda>(_, _, dv). dv = None) declared) @ metadata)
              (map fst (filter (\<lambda>(_, _, dv). dv \<noteq> None) declared)) field) (\<lambda>_.
     traverse (\<lambda>(name, a, dv).
         rbind (scalar (field_value record name dv) a (field @ ''.'' @ name)) (\<lambda>d. Inr (name, d)))
       (filter (\<lambda>(name, _, _). name \<notin> set nested) declared))"

text \<open>The constructor call \<open>spec(**values)\<close>.\<close>

definition build_spec :: "string \<Rightarrow> (string \<times> doc) list \<Rightarrow> inventory_error + model_spec" where
  "build_spec kind vals =
     (if kind = ''llm'' then
        (case (map_of vals ''model_id'', map_of vals ''max_context_tokens'', map_of vals ''accepts_images'',
               map_of vals ''accepts_temperature'') of
           (Some (DStr m), Some (DInt n), Some (DBool i), Some (DBool t)) \<Rightarrow>
             model_post_init (ChatModelSpec m n i t)
         | _ \<Rightarrow> Inl (InventoryType ''unexpected arguments''))
      else (case map_of vals ''model_id'' of
              Some (DStr m) \<Rightarrow> model_post_init (TranscriptionModelSpec m)
            | _ \<Rightarrow> Inl (InventoryType ''unexpected arguments'')))"

definition model_fields :: "string \<Rightarrow> schema option" where
  "model_fields kind =
     (if kind = ''llm'' then Some CHAT_FIELDS
      else if kind = ''transcription'' then Some TRANSCRIPTION_FIELDS else None)"

definition model_kind :: "(string \<times> doc) list \<Rightarrow> (string \<times> schema) option" where
  "model_kind record =
     (case map_of record MODEL_KIND_FIELD of
        Some (DStr kind) \<Rightarrow> map_option (Pair kind) (model_fields kind)
      | _ \<Rightarrow> None)"

definition parse_model :: "doc \<Rightarrow> string \<Rightarrow> inventory_error + model_spec" where
  "parse_model d field =
     rbind (object_of d field) (\<lambda>record.
       (case model_kind record of
          None \<Rightarrow> inventory_fault (field @ ''.'' @ MODEL_KIND_FIELD)
                   (''expected '' @ py_repr ''llm'' @ '' or '' @ py_repr ''transcription'')
        | Some (kind, declared) \<Rightarrow>
            rbind (record_values record declared field [] [MODEL_KIND_FIELD]) (build_spec kind)))"

definition parse_models :: "doc \<Rightarrow> string \<Rightarrow> inventory_error + (string \<times> model_spec) list" where
  "parse_models d field =
     rbind (object_of d field)
       (traverse (\<lambda>(name, record).
          rbind (checked_identifier name (field @ ''.'' @ name)) (\<lambda>attribute.
          rbind (parse_model record (field @ ''.'' @ name)) (\<lambda>m. Inr (attribute, m)))))"

section \<open>Catalogues\<close>

text \<open>Public names that a catalogue already has: of its instances, of its class and of classes.\<close>

definition CATALOG_NAMES :: "string list" where
  "CATALOG_NAMES = [''api_name'', ''models_by_attribute'', ''models'', ''configured'', ''mro'']"

definition catalog_attribute :: "string \<Rightarrow> bool" where
  "catalog_attribute name \<longleftrightarrow> public_identifier name \<and> name \<notin> set CATALOG_NAMES"

definition check_catalog :: "string list \<Rightarrow> inventory_error + unit" where
  "check_catalog names =
     (case find (\<lambda>n. \<not> catalog_attribute n) names of
        None \<Rightarrow> Inr ()
      | Some n \<Rightarrow> Inl (InventoryValue (''Invalid model attribute: '' @ py_repr n)))"

section \<open>Providers and documents\<close>

definition settings_message :: "settings_error \<Rightarrow> string" where
  "settings_message e =
     (case e of
        BlankModel \<Rightarrow> ''model, api_name, and api_key_env must be non-empty''
      | BlankName \<Rightarrow> ''api_name and api_key_env must be non-empty''
      | BadTimeout \<Rightarrow> ''timeout_s must be finite and positive''
      | NotHttpUrl \<Rightarrow> ''base_url must be an HTTP(S) URL''
      | UrlHasExtras \<Rightarrow> ''base_url must not contain credentials, query, or fragment''
      | BadUrl \<Rightarrow> ''Invalid URL''
      | BadContextLimit \<Rightarrow> ''max_context_tokens must be positive'')"

definition provider_adapter :: "string \<Rightarrow> provider \<Rightarrow> adapter" where
  "provider_adapter name p =
     \<lparr>ad_api_name = name, ad_base_url = pv_base_url p, ad_api_key = None,
      ad_api_key_env = pv_api_key_env p, ad_timeout_s = pv_timeout_s p\<rparr>"

definition check_service :: "(string \<Rightarrow> bool) \<Rightarrow> string \<Rightarrow> string \<Rightarrow> provider \<Rightarrow> inventory_error + unit" where
  "check_service brackets_ok field name p =
     (case validate_service_settings brackets_ok (provider_adapter name p) of
        Inl e \<Rightarrow> inventory_fault (field @ ''.base_url'') (settings_message e)
      | Inr _ \<Rightarrow>
          (case urlsplit brackets_ok (pv_base_url p) of
             Some url \<Rightarrow>
               (case url_port url of
                  Inl _ \<Rightarrow> inventory_fault (field @ ''.base_url'') ''Port out of range 0-65535''
                | Inr _ \<Rightarrow> Inr ())
           | None \<Rightarrow> inventory_fault (field @ ''.base_url'') ''Invalid URL''))"

definition build_provider ::
  "(string \<times> doc) list \<Rightarrow> (string \<times> model_spec) list \<Rightarrow> inventory_error + provider" where
  "build_provider settings models =
     (case (map_of settings ''base_url'', map_of settings ''api_key_env'', map_of settings ''timeout_s'',
            map_of settings ''stream'') of
        (Some (DStr b), Some (DStr k), Some (DFloat t), Some (DBool s)) \<Rightarrow>
          Inr \<lparr>pv_base_url = b, pv_api_key_env = k, pv_timeout_s = t, pv_stream = s, pv_models = models\<rparr>
      | _ \<Rightarrow> Inl (InventoryType ''unexpected arguments''))"

definition check_models :: "string \<Rightarrow> provider \<Rightarrow> inventory_error + unit" where
  "check_models field p =
     (case check_catalog (map fst (pv_models p)) of
        Inl (InventoryValue message) \<Rightarrow> inventory_fault (field @ ''.models'') message
      | r \<Rightarrow> r)"

definition parse_provider :: "(string \<Rightarrow> bool) \<Rightarrow> string \<Rightarrow> doc \<Rightarrow> inventory_error + provider" where
  "parse_provider brackets_ok name d =
     (let field = ''providers.'' @ name in
      rbind (checked_identifier name field) (\<lambda>_.
      rbind (object_of d field) (\<lambda>record.
      rbind (record_values record PROVIDER_FIELDS field [''models''] []) (\<lambda>settings.
      rbind (parse_models (field_value record ''models'' None) (field @ ''.models'')) (\<lambda>models.
      rbind (build_provider settings models) (\<lambda>p.
      rbind (check_service brackets_ok field name p) (\<lambda>_.
      rbind (check_models field p) (\<lambda>_. Inr p))))))))"

definition SCHEMA_VERSION :: int where "SCHEMA_VERSION = 1"

definition parse_document :: "(string \<Rightarrow> bool) \<Rightarrow> doc \<Rightarrow> inventory_error + inventory" where
  "parse_document brackets_ok d =
     rbind (object_of d ''inventory'') (\<lambda>root_object.
     rbind (check_fields root_object [''schema_version'', ''providers''] [] ''inventory'') (\<lambda>_.
     if map_of root_object ''schema_version'' \<noteq> Some (DInt SCHEMA_VERSION)
     then inventory_fault ''schema_version'' (''expected supported version '' @ show_int SCHEMA_VERSION)
     else rbind (object_of (field_value root_object ''providers'' None) ''providers'')
       (traverse (\<lambda>(name, record). rbind (parse_provider brackets_ok name record) (\<lambda>p. Inr (name, p))))))"

section \<open>Encoding\<close>

text \<open>\<open>{**asdict(model), "endpoint_type": model.endpoint_type}\<close>\<close>

definition model_document :: "model_spec \<Rightarrow> doc" where
  "model_document m =
     DObj ((case m of
              ChatModelSpec model_id n i t \<Rightarrow>
                [(''model_id'', DStr model_id), (''max_context_tokens'', DInt n),
                 (''accepts_images'', DBool i), (''accepts_temperature'', DBool t)]
            | TranscriptionModelSpec model_id \<Rightarrow> [(''model_id'', DStr model_id)])
           @ [(MODEL_KIND_FIELD, DStr (endpoint_type m))])"

definition provider_document :: "provider \<Rightarrow> doc" where
  "provider_document p =
     DObj [(''base_url'', DStr (pv_base_url p)), (''api_key_env'', DStr (pv_api_key_env p)),
           (''timeout_s'', DFloat (pv_timeout_s p)), (''stream'', DBool (pv_stream p)),
           (''models'', DObj (map (\<lambda>(attribute, m). (attribute, model_document m)) (pv_models p)))]"

definition document_from_inventory :: "inventory \<Rightarrow> doc" where
  "document_from_inventory snapshot =
     DObj [(''schema_version'', DInt SCHEMA_VERSION),
           (''providers'', DObj (map (\<lambda>(name, p). (name, provider_document p)) snapshot))]"

section \<open>What is read back\<close>

definition model_ok :: "model_spec \<Rightarrow> bool" where
  "model_ok m =
     (case m of ChatModelSpec model_id n _ _ \<Rightarrow> py_strip model_id \<noteq> [] \<and> 0 < n
      | TranscriptionModelSpec model_id \<Rightarrow> py_strip model_id \<noteq> [])"

definition provider_ok :: "(string \<Rightarrow> bool) \<Rightarrow> string \<Rightarrow> provider \<Rightarrow> bool" where
  "provider_ok brackets_ok name p \<longleftrightarrow>
     public_identifier name \<and> nfkc_normal name \<and>
     py_strip (pv_base_url p) \<noteq> [] \<and> py_strip (pv_api_key_env p) \<noteq> [] \<and> positive_float (pv_timeout_s p) \<and>
     check_service brackets_ok [] name p = Inr () \<and>
     (\<forall>(attribute, m) \<in> set (pv_models p). catalog_attribute attribute \<and> nfkc_normal attribute \<and> model_ok m)"

definition inventory_ok :: "(string \<Rightarrow> bool) \<Rightarrow> inventory \<Rightarrow> bool" where
  "inventory_ok brackets_ok snapshot \<longleftrightarrow> (\<forall>(name, p) \<in> set snapshot. provider_ok brackets_ok name p)"

lemmas codec_eval = record_values_def check_fields_def field_value_def scalar_def scalar_float_def
  PROVIDER_FIELDS_def CHAT_FIELDS_def TRANSCRIPTION_FIELDS_def MODEL_KIND_FIELD_def SCHEMA_VERSION_def

lemma traverse_map_pairs:
  assumes "\<forall>(k, v) \<in> set kvs. f (k, g v) = Inr (k, v)"
  shows "traverse f (map (\<lambda>(k, v). (k, g v)) kvs) = Inr kvs"
  using assms by (induction kvs) auto

lemma identifier_Inr [simp]:
  "checked_identifier s field = Inr u \<longleftrightarrow> public_identifier s \<and> nfkc_normal s \<and> u = s"
  by (auto simp: checked_identifier_def inventory_fault_def)

lemma chat_values:
  assumes "py_strip model_id \<noteq> []" "0 < n"
  shows "record_values
     [(''model_id'', DStr model_id), (''max_context_tokens'', DInt n), (''accepts_images'', DBool i),
      (''accepts_temperature'', DBool t), (''endpoint_type'', k)] CHAT_FIELDS field [] [''endpoint_type''] =
   Inr [(''model_id'', DStr model_id), (''max_context_tokens'', DInt n), (''accepts_images'', DBool i),
      (''accepts_temperature'', DBool t)]"
  using assms by (simp add: codec_eval)

lemma transcription_values:
  assumes "py_strip model_id \<noteq> []"
  shows "record_values [(''model_id'', DStr model_id), (''endpoint_type'', k)] TRANSCRIPTION_FIELDS field []
     [''endpoint_type''] = Inr [(''model_id'', DStr model_id)]"
  using assms by (simp add: codec_eval)

lemma model_kind_of:
  "model_kind [(''model_id'', a), (''max_context_tokens'', b), (''accepts_images'', c), (''accepts_temperature'', d),
     (''endpoint_type'', DStr ''llm'')] = Some (''llm'', CHAT_FIELDS)"
  "model_kind [(''model_id'', a), (''endpoint_type'', DStr ''transcription'')]
     = Some (''transcription'', TRANSCRIPTION_FIELDS)"
  by (simp_all add: model_kind_def model_fields_def MODEL_KIND_FIELD_def)

lemma build_spec_of:
  "build_spec ''llm'' [(''model_id'', DStr m), (''max_context_tokens'', DInt n), (''accepts_images'', DBool i),
     (''accepts_temperature'', DBool t)] = model_post_init (ChatModelSpec m n i t)"
  "build_spec ''transcription'' [(''model_id'', DStr m)] = model_post_init (TranscriptionModelSpec m)"
  by (simp_all add: build_spec_def)

lemma model_reads_back:
  assumes "model_ok m" shows "parse_model (model_document m) field = Inr m"
proof (cases m)
  case (ChatModelSpec model_id n i t)
  with assms have ok: "py_strip model_id \<noteq> []" "0 < n" by (simp_all add: model_ok_def)
  show ?thesis
    unfolding ChatModelSpec parse_model_def model_document_def object_of_def endpoint_type_def
      MODEL_KIND_FIELD_def model_spec.case append.simps doc.case rbind.simps model_kind_of option.case prod.case
      chat_values[OF ok] build_spec_of
    using ok by (simp add: model_post_init_def)
next
  case (TranscriptionModelSpec model_id)
  with assms have ok: "py_strip model_id \<noteq> []" by (simp add: model_ok_def)
  show ?thesis
    unfolding TranscriptionModelSpec parse_model_def model_document_def object_of_def endpoint_type_def
      MODEL_KIND_FIELD_def model_spec.case append.simps doc.case rbind.simps model_kind_of option.case prod.case
      transcription_values[OF ok] build_spec_of
    using ok by (simp add: model_post_init_def)
qed

lemma check_service_field: "check_service brackets_ok field name p = Inr () \<longleftrightarrow> check_service brackets_ok [] name p = Inr ()"
  by (auto simp: check_service_def inventory_fault_def split: sum.splits option.splits)

lemma check_catalog_Inr: "check_catalog names = Inr () \<longleftrightarrow> (\<forall>n \<in> set names. catalog_attribute n)"
  by (auto simp: check_catalog_def find_None_iff find_Some_iff split: option.splits)

lemma check_models_Inr [simp]:
  "check_models field p = Inr () \<longleftrightarrow> (\<forall>(attribute, m) \<in> set (pv_models p). catalog_attribute attribute)"
  using check_catalog_Inr[of "map fst (pv_models p)"]
  by (auto simp: check_models_def inventory_fault_def split: sum.splits inventory_error.splits)

lemma provider_reads_back:
  assumes ok: "provider_ok brackets_ok name p"
  shows "parse_provider brackets_ok name (provider_document p) = Inr p"
proof -
  have models: "parse_models (DObj (map (\<lambda>(attribute, m). (attribute, model_document m)) (pv_models p))) field
      = Inr (pv_models p)" for field
  proof -
    let ?f = "\<lambda>(name, record). rbind (checked_identifier name (field @ ''.'' @ name)) (\<lambda>attribute.
      rbind (parse_model record (field @ ''.'' @ name)) (\<lambda>m. Inr (attribute, m)))"
    have "?f (attribute, model_document m) = Inr (attribute, m)" if "(attribute, m) \<in> set (pv_models p)"
      for attribute m
    proof -
      have "catalog_attribute attribute" "nfkc_normal attribute" "model_ok m"
        using ok that by (auto simp: provider_ok_def)
      then show ?thesis
        by (simp add: catalog_attribute_def checked_identifier_def model_reads_back)
    qed
    then have "traverse ?f (map (\<lambda>(k, v). (k, model_document v)) (pv_models p)) = Inr (pv_models p)"
      by (intro traverse_map_pairs) blast
    then show ?thesis by (simp add: parse_models_def object_of_def)
  qed
  have settings: "record_values
      [(''base_url'', DStr (pv_base_url p)), (''api_key_env'', DStr (pv_api_key_env p)),
       (''timeout_s'', DFloat (pv_timeout_s p)), (''stream'', DBool (pv_stream p)), (''models'', M)]
      PROVIDER_FIELDS field [''models''] [] =
      Inr [(''base_url'', DStr (pv_base_url p)), (''api_key_env'', DStr (pv_api_key_env p)),
       (''timeout_s'', DFloat (pv_timeout_s p)), (''stream'', DBool (pv_stream p))]" for field M
    using ok by (simp add: codec_eval provider_ok_def)
  have build: "build_provider
      [(''base_url'', DStr (pv_base_url p)), (''api_key_env'', DStr (pv_api_key_env p)),
       (''timeout_s'', DFloat (pv_timeout_s p)), (''stream'', DBool (pv_stream p))] (pv_models p) = Inr p"
    by (simp add: build_provider_def)
  have checks: "checked_identifier name field = Inr name" "check_service brackets_ok field name p = Inr ()"
    "check_models field p = Inr ()" for field
    using ok check_service_field[of brackets_ok field name p] by (auto simp: provider_ok_def)
  show ?thesis
    by (simp add: parse_provider_def provider_document_def object_of_def settings field_value_def models
        build checks Let_def)
qed

lemma inventory_reads_back:
  "inventory_ok brackets_ok snapshot \<Longrightarrow> parse_document brackets_ok (document_from_inventory snapshot) = Inr snapshot"
  by (simp add: parse_document_def document_from_inventory_def object_of_def check_fields_def field_value_def,
      intro traverse_map_pairs)
    (auto simp: inventory_ok_def provider_reads_back)

section \<open>What is accepted\<close>

definition scalar_ok :: "annotation \<Rightarrow> doc \<Rightarrow> bool" where
  "scalar_ok a d =
     (case a of
        AStr \<Rightarrow> (\<exists>s. d = DStr s \<and> py_strip s \<noteq> [])
      | ABool \<Rightarrow> (\<exists>b. d = DBool b)
      | AInt \<Rightarrow> (\<exists>i. d = DInt i \<and> 0 < i)
      | AFloat \<Rightarrow> (\<exists>x. d = DFloat x \<and> positive_float x)
      | AOther \<Rightarrow> False)"

lemma scalar_is_ok: "scalar d a field = Inr d' \<Longrightarrow> scalar_ok a d'"
  by (cases a)
    (auto simp: scalar_def scalar_ok_def scalar_float_def inventory_fault_def
      split: doc.splits if_splits option.splits)

lemma record_values_typed:
  assumes "record_values record declared field nested metadata = Inr vals"
  shows "list_all2 (\<lambda>(name, a, dv) (name', d). name' = name \<and> scalar_ok a d)
    (filter (\<lambda>(name, _, _). name \<notin> set nested) declared) vals"
proof -
  let ?f = "\<lambda>(name, a, dv). rbind (scalar (field_value record name dv) a (field @ ''.'' @ name)) (\<lambda>d. Inr (name, d))"
  from assms have "traverse ?f (filter (\<lambda>(name, _, _). name \<notin> set nested) declared) = Inr vals"
    by (simp add: record_values_def rbind_Inr_iff)
  then have "list_all2 (\<lambda>x y. ?f x = Inr y) (filter (\<lambda>(name, _, _). name \<notin> set nested) declared) vals"
    by (simp only: traverse_Inr_iff)
  then show ?thesis
    by (rule list_all2_mono) (auto simp: result_simps dest: scalar_is_ok)
qed

lemma model_post_init_ok: "model_post_init m = Inr m' \<Longrightarrow> m' = m \<and> model_ok m"
  by (cases m) (auto simp: model_post_init_def model_ok_def split: if_splits)

lemma parse_model_ok: "parse_model d field = Inr m \<Longrightarrow> model_ok m"
  using model_post_init_ok
  by (auto simp: parse_model_def inventory_fault_def result_simps build_spec_def
      split: option.splits if_splits doc.splits prod.splits)

lemma traverse_pairs:
  assumes "traverse (\<lambda>(k, x). rbind (f k x) (\<lambda>k'. rbind (g k x) (\<lambda>y. Inr (k', y)))) kvs = Inr ys"
    and "(k', y) \<in> set ys"
  shows "\<exists>k x. f k x = Inr k' \<and> g k x = Inr y"
  using assms
proof (induction kvs arbitrary: ys)
  case (Cons kx kvs)
  obtain k x where kx: "kx = (k, x)" by (cases kx)
  from Cons.prems obtain a b ys' where "f k x = Inr a" "g k x = Inr b" "ys = (a, b) # ys'"
    and "traverse (\<lambda>(k, x). rbind (f k x) (\<lambda>k'. rbind (g k x) (\<lambda>y. Inr (k', y)))) kvs = Inr ys'"
    by (auto simp: kx rbind_Inr_iff)
  with Cons show ?case by auto
qed simp

lemma parse_models_ok:
  assumes "parse_models d field = Inr models" "(attribute, m) \<in> set models"
  shows "nfkc_normal attribute \<and> model_ok m"
proof -
  from assms(1) obtain kvs where
    "traverse (\<lambda>(name, record). rbind (checked_identifier name (field @ ''.'' @ name)) (\<lambda>attribute.
       rbind (parse_model record (field @ ''.'' @ name)) (\<lambda>m. Inr (attribute, m)))) kvs = Inr models"
    unfolding parse_models_def by (auto simp only: rbind_Inr_iff)
  from traverse_pairs[OF this assms(2)] obtain k x where
    "checked_identifier k (field @ ''.'' @ k) = Inr attribute" "parse_model x (field @ ''.'' @ k) = Inr m" by blast
  then show ?thesis using parse_model_ok by (auto simp only: identifier_Inr)
qed

lemma parse_provider_ok:
  assumes "parse_provider brackets_ok name d = Inr p" shows "provider_ok brackets_ok name p"
proof -
  let ?field = "''providers.'' @ name"
  from assms obtain obj settings models where
    name: "public_identifier name" "nfkc_normal name"
    and settings: "record_values obj PROVIDER_FIELDS ?field [''models''] [] = Inr settings"
    and models: "parse_models (field_value obj ''models'' None) (?field @ ''.models'') = Inr models"
    and p: "build_provider settings models = Inr p"
    and service: "check_service brackets_ok ?field name p = Inr ()"
    and catalog: "check_models ?field p = Inr ()"
    unfolding parse_provider_def Let_def by (simp only: rbind_Inr_iff identifier_Inr) auto
  from record_values_typed[OF settings] obtain b k t st where "settings =
      [(''base_url'', b), (''api_key_env'', k), (''timeout_s'', t), (''stream'', st)]"
    "scalar_ok AStr b" "scalar_ok AStr k" "scalar_ok AFloat t" "scalar_ok ABool st"
    by (auto simp: PROVIDER_FIELDS_def list_all2_Cons1)
  with p have "py_strip (pv_base_url p) \<noteq> []" "py_strip (pv_api_key_env p) \<noteq> []"
    "positive_float (pv_timeout_s p)" "pv_models p = models"
    by (auto simp: build_provider_def scalar_ok_def)
  with name service catalog parse_models_ok[OF models] check_service_field[of _ ?field] show ?thesis
    by (auto simp: provider_ok_def)
qed

lemma parse_document_ok:
  assumes "parse_document brackets_ok d = Inr snapshot" shows "inventory_ok brackets_ok snapshot"
proof -
  let ?f = "\<lambda>(name, record). rbind (parse_provider brackets_ok name record) (\<lambda>p. Inr (name, p))"
  from assms obtain kvs where "traverse ?f kvs = Inr snapshot"
    unfolding parse_document_def inventory_fault_def by (auto simp: rbind_Inr_iff split: if_splits)
  then have "list_all2 (\<lambda>x y. ?f x = Inr y) kvs snapshot" by (simp only: traverse_Inr_iff)
  then show ?thesis
    unfolding inventory_ok_def
    by (induction kvs snapshot rule: list_all2_induct) (auto simp: rbind_Inr_iff parse_provider_ok)
qed

text \<open>C28. An inventory that was accepted is written and read back unchanged: decoding the document
  of an inventory that came out of \<open>parse_document\<close> gives the same providers, with the same
  settings and models, in the same order.\<close>

theorem accepted_inventory_is_stable:
  assumes "parse_document brackets_ok d = Inr snapshot"
  shows "parse_document brackets_ok (document_from_inventory snapshot) = Inr snapshot"
  by (rule inventory_reads_back[OF parse_document_ok[OF assms]])

text \<open>C29. An accepted inventory is safe to use: every provider has an HTTP(S) address with a host and
  without credentials, query or fragment, a port within range and a finite positive timeout;
  every model has a name that no attribute of a catalogue shadows, and a positive limit.\<close>

theorem accepted_inventory_is_safe:
  assumes "parse_document brackets_ok d = Inr snapshot" "(name, p) \<in> set snapshot"
  shows "(\<exists>url. urlsplit brackets_ok (pv_base_url p) = Some url \<and> su_scheme url \<in> {''http'', ''https''} \<and>
      url_hostname url \<noteq> [] \<and> url_username url = [] \<and> url_password url = [] \<and> su_query url = [] \<and>
      su_fragment url = [] \<and> (case url_port url of Inr (Some n) \<Rightarrow> n \<le> 65535 | r \<Rightarrow> r = Inr None)) \<and>
    (\<exists>q. pv_timeout_s p = Finite q \<and> 0 < q) \<and>
    (\<forall>(attribute, m) \<in> set (pv_models p). catalog_attribute attribute \<and> model_ok m)"
proof -
  have ok: "provider_ok brackets_ok name p"
    using parse_document_ok[OF assms(1)] assms(2) by (auto simp: inventory_ok_def)
  then obtain q where q: "pv_timeout_s p = Finite q" "0 < q"
    by (auto simp: provider_ok_def positive_float_def split: pyfloat.splits)
  have "check_service brackets_ok [] name p = Inr ()" using ok by (simp add: provider_ok_def)
  then have "\<exists>url. urlsplit brackets_ok (pv_base_url p) = Some url \<and> validate_url url = Inr () \<and> (\<exists>r. url_port url = Inr r)"
    by (auto simp: check_service_def inventory_fault_def validate_service_settings_def result_simps
        provider_adapter_def split: sum.splits option.splits)
  then have "\<exists>url. urlsplit brackets_ok (pv_base_url p) = Some url \<and> su_scheme url \<in> {''http'', ''https''} \<and>
      url_hostname url \<noteq> [] \<and> url_username url = [] \<and> url_password url = [] \<and> su_query url = [] \<and>
      su_fragment url = [] \<and> (case url_port url of Inr (Some n) \<Rightarrow> n \<le> 65535 | r \<Rightarrow> r = Inr None)"
    by (auto simp: validate_url_def result_simps url_port_def split: option.splits if_splits sum.splits)
  with ok q show ?thesis by (auto simp: provider_ok_def)
qed

section \<open>Duplicate keys\<close>

text \<open>
  \<open>_unpack\<close> of what \<open>json.loads\<close> returns with the hook that keeps the pairs of an object: here
  \<open>DObj\<close> of a value to unpack is the list of pairs, duplicates included.
\<close>

fun unpack :: "string \<Rightarrow> doc \<Rightarrow> inventory_error + doc"
and unpack_pairs :: "string \<Rightarrow> (string \<times> doc) list \<Rightarrow> (string \<times> doc) list \<Rightarrow> inventory_error + (string \<times> doc) list"
and unpack_items :: "string \<Rightarrow> doc list \<Rightarrow> inventory_error + doc list" where
  "unpack field (DObj kvs) = rbind (unpack_pairs field [] kvs) (\<lambda>result. Inr (DObj result))"
| "unpack field (DList ds) = rbind (unpack_items field ds) (\<lambda>result. Inr (DList result))"
| "unpack field DNull = Inr DNull"
| "unpack field (DBool b) = Inr (DBool b)"
| "unpack field (DInt i) = Inr (DInt i)"
| "unpack field (DFloat x) = Inr (DFloat x)"
| "unpack field (DStr s) = Inr (DStr s)"
| "unpack_pairs field result [] = Inr result"
| "unpack_pairs field result ((key, child) # kvs) =
     (if key \<in> fst ` set result then inventory_fault (field @ ''.'' @ key) ''duplicate JSON key''
      else rbind (unpack (field @ ''.'' @ key) child) (\<lambda>d.
        unpack_pairs field (dict_set key d result) kvs))"
| "unpack_items field [] = Inr []"
| "unpack_items field (d # ds) =
     rbind (unpack field d) (\<lambda>d'. rbind (unpack_items field ds) (\<lambda>ds'. Inr (d' # ds')))"

fun no_duplicates :: "doc \<Rightarrow> bool" where
  "no_duplicates (DObj kvs) \<longleftrightarrow> distinct (map fst kvs) \<and> (\<forall>d \<in> snd ` set kvs. no_duplicates d)"
| "no_duplicates (DList ds) \<longleftrightarrow> (\<forall>d \<in> set ds. no_duplicates d)"
| "no_duplicates d \<longleftrightarrow> True"

text \<open>Unpacking finds every duplicate, however deep, and changes nothing else.\<close>

lemma unpack_cases:
  "(if no_duplicates d then unpack field d = Inr d else isl (unpack field d))"
  "(if distinct (map fst (result @ kvs)) \<and> (\<forall>d \<in> snd ` set kvs. no_duplicates d)
    then unpack_pairs field result kvs = Inr (result @ kvs)
    else distinct (map fst result) \<longrightarrow> isl (unpack_pairs field result kvs))"
  "(if \<forall>d \<in> set ds. no_duplicates d then unpack_items field ds = Inr ds else isl (unpack_items field ds))"
proof (induction field d and field result kvs and field ds rule: unpack_unpack_pairs_unpack_items.induct)
  case (1 field kvs)
  then show ?case by (cases "unpack_pairs field [] kvs") (auto split: if_splits)
next
  case (2 field ds)
  then show ?case by (cases "unpack_items field ds") (auto split: if_splits)
next
  case (9 field result key child kvs)
  show ?case
  proof (cases "key \<in> fst ` set result")
    case True
    then show ?thesis by (auto simp: inventory_fault_def image_iff)
  next
    case False
    note child = 9(1)[OF False]
    show ?thesis
    proof (cases "no_duplicates child")
      case True
      then have u: "unpack (field @ ''.'' @ key) child = Inr child" using child by simp
      show ?thesis
        using 9(2)[OF False u] True False u by (auto simp: dict_set_new split: if_splits)
    next
      case bad: False
      then obtain e where "unpack (field @ ''.'' @ key) child = Inl e"
        using child by (auto simp: isl_def)
      with bad False show ?thesis by simp
    qed
  qed
next
  case (11 field d ds)
  then show ?case by (cases "unpack field d"; cases "unpack_items field ds") (auto split: if_splits)
qed (simp_all add: split: if_splits)

text \<open>A file with a repeated key is refused, at whatever depth the key is, and any other document
  reaches the decoder as it was written.\<close>

theorem duplicate_keys_are_refused:
  "(case unpack field d of Inl _ \<Rightarrow> \<not> no_duplicates d | Inr d' \<Rightarrow> no_duplicates d \<and> d' = d)"
  using unpack_cases(1)[of d field] by (cases "no_duplicates d") (auto simp: isl_def split: sum.splits)

section \<open>Catalogues in use\<close>

text \<open>An endpoint is a fresh object each time one is described; it is known by its number.\<close>

datatype endpoint_description =
    ChatEndpoint string int bool bool bool
  | TranscriptionRoute string

record catalog =
  ct_adapter :: adapter
  ct_models :: "(string \<times> model_spec) list"
  ct_stream :: bool
  ct_cache :: "(string \<times> nat \<times> endpoint_description) list"

definition new_catalog :: "adapter \<Rightarrow> (string \<times> model_spec) list \<Rightarrow> bool \<Rightarrow> inventory_error + catalog" where
  "new_catalog a models stream =
     rbind (check_catalog (map fst models)) (\<lambda>_.
       Inr \<lparr>ct_adapter = a, ct_models = models, ct_stream = stream, ct_cache = []\<rparr>)"

definition catalog_configured ::
  "string option \<Rightarrow> pyfloat \<Rightarrow> bool \<Rightarrow> catalog \<Rightarrow> inventory_error + catalog" where
  "catalog_configured key timeout stream c =
     new_catalog (configured key timeout (ct_adapter c)) (ct_models c) stream"

text \<open>\<open>chat_endpoint\<close> and \<open>transcription_endpoint\<close> of the adapter.\<close>

definition describe_endpoint ::
  "(string \<Rightarrow> bool) \<Rightarrow> catalog \<Rightarrow> model_spec \<Rightarrow> settings_error + endpoint_description" where
  "describe_endpoint brackets_ok c m =
     (case m of
        ChatModelSpec model_id n i t \<Rightarrow>
          rbind (require (0 < n) BadContextLimit) (\<lambda>_.
          rbind (validate_settings brackets_ok model_id (ct_adapter c)) (\<lambda>_.
            Inr (ChatEndpoint model_id n i t (ct_stream c))))
      | TranscriptionModelSpec model_id \<Rightarrow>
          rbind (validate_settings brackets_ok model_id (ct_adapter c)) (\<lambda>_.
            Inr (TranscriptionRoute model_id)))"

datatype attribute_error = NoAttribute string | BadSettings settings_error

text \<open>\<open>__getattr__\<close> with the number of the next object.\<close>

definition catalog_getattr ::
  "(string \<Rightarrow> bool) \<Rightarrow> string \<Rightarrow> catalog \<times> nat \<Rightarrow> (catalog \<times> nat) \<times> (attribute_error + nat \<times> endpoint_description)" where
  "catalog_getattr brackets_ok name s =
     (case s of (c, n) \<Rightarrow>
        (case map_of (ct_models c) name of
           None \<Rightarrow> ((c, n), Inl (NoAttribute name))
         | Some m \<Rightarrow>
             (case map_of (ct_cache c) name of
                Some e \<Rightarrow> ((c, n), Inr e)
              | None \<Rightarrow>
                  (case describe_endpoint brackets_ok c m of
                     Inl e \<Rightarrow> ((c, n), Inl (BadSettings e))
                   | Inr d \<Rightarrow> ((c\<lparr>ct_cache := dict_set name (n, d) (ct_cache c)\<rparr>, Suc n), Inr (n, d))))))"

fun catalog_run ::
  "(string \<Rightarrow> bool) \<Rightarrow> string list \<Rightarrow> catalog \<times> nat
     \<Rightarrow> (catalog \<times> nat) \<times> (attribute_error + nat \<times> endpoint_description) list" where
  "catalog_run brackets_ok [] s = (s, [])"
| "catalog_run brackets_ok (name # names) s =
     (case catalog_getattr brackets_ok name s of
        (s', r) \<Rightarrow> apsnd (Cons r) (catalog_run brackets_ok names s'))"

definition cache_ok :: "(string \<Rightarrow> bool) \<Rightarrow> catalog \<times> nat \<Rightarrow> bool" where
  "cache_ok brackets_ok s \<longleftrightarrow>
     (case s of (c, n) \<Rightarrow>
        distinct (map (fst \<circ> snd) (ct_cache c)) \<and> (\<forall>(name, i, e) \<in> set (ct_cache c). i < n) \<and>
        (\<forall>name i e. map_of (ct_cache c) name = Some (i, e) \<longrightarrow>
           (\<exists>m. map_of (ct_models c) name = Some m \<and> describe_endpoint brackets_ok c m = Inr e)))"

lemma describe_cache [simp]: "describe_endpoint brackets_ok (c\<lparr>ct_cache := cache\<rparr>) = describe_endpoint brackets_ok c"
  by (rule ext) (simp add: describe_endpoint_def split: model_spec.split)

lemma getattr_frame:
  "catalog_getattr brackets_ok name (c, n) = ((c', n'), r) \<Longrightarrow>
     ct_models c' = ct_models c \<and> describe_endpoint brackets_ok c' = describe_endpoint brackets_ok c \<and>
     (\<forall>other. map_of (ct_cache c) other \<noteq> None \<longrightarrow> map_of (ct_cache c') other = map_of (ct_cache c) other)"
  by (auto simp: catalog_getattr_def split: option.splits sum.splits)

lemma getattr_cache_ok:
  assumes "cache_ok brackets_ok (c, n)" "catalog_getattr brackets_ok name (c, n) = ((c', n'), r)"
  shows "cache_ok brackets_ok (c', n')"
proof (cases "map_of (ct_models c) name")
  case None
  with assms show ?thesis by (simp add: catalog_getattr_def)
next
  case (Some m)
  show ?thesis
  proof (cases "map_of (ct_cache c) name")
    case None
    then have "name \<notin> fst ` set (ct_cache c)" by (simp add: map_of_eq_None_iff)
    then have append: "dict_set name e (ct_cache c) = ct_cache c @ [(name, e)]" for e by (rule dict_set_new)
    show ?thesis
    proof (cases "describe_endpoint brackets_ok c m")
      case (Inl e)
      with assms Some None show ?thesis by (simp add: catalog_getattr_def)
    next
      case (Inr e)
      with assms Some None have c': "c' = c\<lparr>ct_cache := ct_cache c @ [(name, n, e)]\<rparr>" "n' = Suc n"
        by (simp_all add: catalog_getattr_def append)
      have same: "describe_endpoint brackets_ok c' = describe_endpoint brackets_ok c"
        by (simp add: c')
      show ?thesis
        using assms(1) Some Inr None unfolding cache_ok_def prod.case same
        by (fastforce simp: c' map_add_def split: option.splits if_splits)
    qed
  next
    case cached: (Some e)
    with assms Some show ?thesis by (simp add: catalog_getattr_def)
  qed
qed

text \<open>A model attribute is described at most once: every later use returns the same object.\<close>

lemma getattr_result:
  assumes "cache_ok brackets_ok (c, n)" "catalog_getattr brackets_ok name (c, n) = ((c', n'), Inr e)"
  shows "map_of (ct_cache c') name = Some e \<and>
    (\<exists>m. map_of (ct_models c) name = Some m \<and> describe_endpoint brackets_ok c m = Inr (snd e))"
  using assms
  by (cases e) (fastforce simp: catalog_getattr_def cache_ok_def split: option.splits sum.splits)

text \<open>A model of a catalogue is described once: whichever attributes are read in between, reading
  one again returns the very object that the first successful reading made, which describes the
  model that the catalogue has under that name.\<close>

theorem selected_endpoints_are_cached:
  assumes "new_catalog a models stream = Inr c"
    and "catalog_run brackets_ok names (c, n) = (s, rs)" "i < j" "j < length names"
    and "names ! i = name" "names ! j = name" "rs ! i = Inr e"
  shows "rs ! j = Inr e \<and>
    (\<exists>m. map_of models name = Some m \<and> describe_endpoint brackets_ok c m = Inr (snd e))"
proof -
  have later: "cache_ok brackets_ok (c, n) \<Longrightarrow> map_of (ct_cache c) name = Some e \<Longrightarrow>
      catalog_run brackets_ok names (c, n) = (s, rs) \<Longrightarrow> j < length names \<Longrightarrow> names ! j = name \<Longrightarrow> rs ! j = Inr e"
    for c n names s rs j
  proof (induction names arbitrary: c n rs j)
    case (Cons other names)
    obtain c' n' r where get: "catalog_getattr brackets_ok other (c, n) = ((c', n'), r)"
      by (metis prod.exhaust_sel)
    obtain rs' where run: "catalog_run brackets_ok names (c', n') = (s, rs')" "rs = r # rs'"
      using Cons.prems(3) get by (cases "catalog_run brackets_ok names (c', n')") auto
    have kept: "map_of (ct_cache c') name = Some e"
      using getattr_frame[OF get] Cons.prems(2) by auto
    show ?case
    proof (cases j)
      case 0
      from Cons.prems(1,2) obtain m where "map_of (ct_models c) name = Some m"
        by (cases e) (fastforce simp: cache_ok_def)
      with 0 get Cons.prems(2,5) show ?thesis by (simp add: run(2) catalog_getattr_def)
    next
      case (Suc k)
      with Cons.IH[OF getattr_cache_ok[OF Cons.prems(1) get] kept run(1)] Cons.prems show ?thesis
        by (simp add: run(2))
    qed
  qed simp
  have "cache_ok brackets_ok (c, n) \<Longrightarrow> catalog_run brackets_ok names (c, n) = (s, rs) \<Longrightarrow> i < j \<Longrightarrow>
      j < length names \<Longrightarrow> names ! i = name \<Longrightarrow> names ! j = name \<Longrightarrow> rs ! i = Inr e \<Longrightarrow>
      rs ! j = Inr e \<and> (\<exists>m. map_of (ct_models c) name = Some m \<and> describe_endpoint brackets_ok c m = Inr (snd e))"
    for c n names s rs i j
  proof (induction names arbitrary: c n rs i j)
    case (Cons other names)
    obtain c' n' r where get: "catalog_getattr brackets_ok other (c, n) = ((c', n'), r)"
      by (metis prod.exhaust_sel)
    obtain rs' where run: "catalog_run brackets_ok names (c', n') = (s, rs')" "rs = r # rs'"
      using Cons.prems(2) get by (cases "catalog_run brackets_ok names (c', n')") auto
    note ok = getattr_cache_ok[OF Cons.prems(1) get]
    obtain k where j: "j = Suc k" using Cons.prems(3) by (cases j) auto
    show ?case
    proof (cases i)
      case 0
      with get run(2) Cons.prems(5,7) have get': "catalog_getattr brackets_ok name (c, n) = ((c', n'), Inr e)" by simp
      from later[OF ok _ run(1), of k] getattr_result[OF Cons.prems(1) get'] Cons.prems(4,6)
      show ?thesis by (simp add: run(2) j)
    next
      case (Suc i')
      with Cons.IH[OF ok run(1), of i' k] getattr_frame[OF get] Cons.prems(3-) show ?thesis
        by (simp add: run(2) j)
    qed
  qed simp
  moreover have "ct_models c = models" and "cache_ok brackets_ok (c, n)"
    using assms(1) by (auto simp: new_catalog_def rbind_Inr_iff cache_ok_def)
  ultimately show ?thesis using assms(2-) by blast
qed

section \<open>The bundled inventory\<close>

definition CATALOGS :: inventory where
  "CATALOGS =
     [(''openrouter'',
        \<lparr>pv_base_url = ''https://openrouter.ai/api/v1'', pv_api_key_env = ''OPENROUTER_API_KEY'',
         pv_timeout_s = Finite 60, pv_stream = True,
         pv_models = [(''z_ai__glm_5_3'', ChatModelSpec ''z-ai/glm-5.3'' 1310720 False True),
                      (''z_ai__glm_5_3_flash'', ChatModelSpec ''z-ai/glm-5.3-flash'' 1310720 True True)]\<rparr>),
      (''cerebras'',
        \<lparr>pv_base_url = ''https://api.cerebras.ai/v1'', pv_api_key_env = ''CEREBRAS_API_KEY'',
         pv_timeout_s = Finite 60, pv_stream = True,
         pv_models = [(''gpt_oss_120b'', ChatModelSpec ''gpt-oss-120b'' 131072 False True)]\<rparr>),
      (''groq'',
        \<lparr>pv_base_url = ''https://api.groq.com/openai/v1'', pv_api_key_env = ''GROQ_API_KEY'',
         pv_timeout_s = Finite 60, pv_stream = True,
         pv_models = [(''whisper_large_v3_turbo'', TranscriptionModelSpec ''whisper-large-v3-turbo'')]\<rparr>)]"

definition bundled_inventory :: "(string \<Rightarrow> bool) \<Rightarrow> inventory_error + inventory" where
  "bundled_inventory brackets_ok = parse_document brackets_ok (document_from_inventory CATALOGS)"

lemmas url_eval = urlsplit_def clean_url_def split_scheme_def split_netloc_def partition_at_def rpartition_at_def
  ascii_letter_def is_lower_def is_digit_def lower_char_def Let_def url_hostinfo_def url_hostname_def
  url_username_def url_password_def url_port_def

lemmas identifier_eval = public_identifier_def py_isidentifier_def id_start_def id_continue_def nfkc_normal_def
  py_keywords_def catalog_attribute_def CATALOG_NAMES_def

definition groq :: "string \<times> provider" where "groq = CATALOGS ! 2"

lemma groq_ok: "inventory_ok (\<lambda>_. False) [groq]"
proof -
  have url: "urlsplit (\<lambda>_. False) ''https://api.groq.com/openai/v1'' =
     Some \<lparr>su_scheme = ''https'', su_netloc = ''api.groq.com'', su_path = ''/openai/v1'', su_query = [], su_fragment = []\<rparr>"
    by (simp add: url_eval)
  have valid: "validate_url \<lparr>su_scheme = ''https'', su_netloc = ''api.groq.com'', su_path = p, su_query = [], su_fragment = []\<rparr> = Inr ()"
    "url_port \<lparr>su_scheme = ''https'', su_netloc = ''api.groq.com'', su_path = p, su_query = [], su_fragment = []\<rparr> = Inr None" for p
    by (simp_all add: validate_url_def url_eval require_def)
  have names: "public_identifier ''groq''" "nfkc_normal ''groq''" "catalog_attribute ''whisper_large_v3_turbo''"
    "nfkc_normal ''whisper_large_v3_turbo''"
    by (simp_all add: identifier_eval url_eval)
  show ?thesis
    by (simp add: inventory_ok_def groq_def CATALOGS_def provider_ok_def names model_ok_def positive_float_def
        check_service_def validate_service_settings_def provider_adapter_def require_def py_strip_def
        py_space_def url valid)
qed

theorem accepted_inventory_is_stable_witness:
  "parse_document (\<lambda>_. False) (document_from_inventory [groq]) = Inr [groq]"
  using accepted_inventory_is_stable[OF inventory_reads_back[OF groq_ok]] .

theorem accepted_inventory_is_safe_witness:
  "\<exists>q. pv_timeout_s (snd groq) = Finite q \<and> 0 < q"
  using accepted_inventory_is_safe[OF inventory_reads_back[OF groq_ok], of "fst groq" "snd groq"] by simp

definition sample_catalog :: catalog where
  "sample_catalog =
     \<lparr>ct_adapter = provider_adapter ''groq'' (snd groq), ct_models = pv_models (snd groq), ct_stream = True, ct_cache = []\<rparr>"

theorem selected_endpoints_are_cached_witness:
  "\<exists>s e. catalog_run (\<lambda>_. False) [''whisper_large_v3_turbo'', ''other'', ''whisper_large_v3_turbo''] (sample_catalog, 0)
     = (s, [Inr e, Inl (NoAttribute ''other''), Inr e])"
proof -
  let ?name = "''whisper_large_v3_turbo''"
  let ?run = "catalog_run (\<lambda>_. False) [?name, ''other'', ?name] (sample_catalog, 0)"
  have models: "ct_models sample_catalog = [(?name, TranscriptionModelSpec ''whisper-large-v3-turbo'')]"
    by (simp add: sample_catalog_def groq_def CATALOGS_def)
  have "provider_ok (\<lambda>_. False) ''groq'' (snd groq)"
    using groq_ok by (simp add: inventory_ok_def groq_def CATALOGS_def)
  then have "validate_service_settings (\<lambda>_. False) (ct_adapter sample_catalog) = Inr ()" and attribute: "catalog_attribute ?name"
    by (auto simp: provider_ok_def check_service_def inventory_fault_def sample_catalog_def groq_def CATALOGS_def
        split: sum.splits)
  then have described: "describe_endpoint (\<lambda>_. False) sample_catalog (TranscriptionModelSpec ''whisper-large-v3-turbo'')
      = Inr (TranscriptionRoute ''whisper-large-v3-turbo'')"
    by (simp add: describe_endpoint_def validate_settings_def require_def py_strip_def py_space_def)
  have new: "new_catalog (ct_adapter sample_catalog) (ct_models sample_catalog) True = Inr sample_catalog"
    using attribute by (simp add: new_catalog_def models check_catalog_def) (simp add: sample_catalog_def groq_def CATALOGS_def)
  obtain s r where run: "?run = (s, [Inr (0, TranscriptionRoute ''whisper-large-v3-turbo''), Inl (NoAttribute ''other''), r])"
    using models described by (simp add: catalog_getattr_def sample_catalog_def[THEN arg_cong[of _ _ ct_cache]])
  from selected_endpoints_are_cached[OF new run, of 0 2 ?name "(0, TranscriptionRoute ''whisper-large-v3-turbo'')"]
  have "r = Inr (0, TranscriptionRoute ''whisper-large-v3-turbo'')" by simp
  with run show ?thesis by blast
qed

section \<open>Generated declarations\<close>

definition spec_class :: "model_spec \<Rightarrow> string" where
  "spec_class m = (case m of ChatModelSpec _ _ _ _ \<Rightarrow> ''ChatModelSpec'' | TranscriptionModelSpec _ \<Rightarrow> ''TranscriptionModelSpec'')"

definition endpoint_class :: "model_spec \<Rightarrow> string" where
  "endpoint_class m = (case m of ChatModelSpec _ _ _ _ \<Rightarrow> ''LLMEndpoint'' | TranscriptionModelSpec _ \<Rightarrow> ''TranscriptionEndpoint'')"

definition spec_type_name :: "(string \<times> model_spec) list \<Rightarrow> string" where
  "spec_type_name models =
     (case dedupe (map (\<lambda>(_, m). spec_class m) models) of [name] \<Rightarrow> name | _ \<Rightarrow> ''ModelSpec'')"

definition collection_declaration :: "string \<Rightarrow> (string \<times> model_spec) list \<Rightarrow> string \<Rightarrow> string list" where
  "collection_declaration name models pre =
     (let class_name = ''_'' @ name @ ''_Catalog'';
          base = pre @ ''Catalog['' @ pre @ spec_type_name models @ '']''
      in [''class '' @ class_name @ ''('' @ base @ ''):'']
         @ map (\<lambda>(attribute, m). ''    '' @ attribute @ '': '' @ pre @ endpoint_class m) models
         @ (if models = [] then [''    ...''] else [])
         @ [[], name @ '': '' @ class_name])"

text \<open>A homogeneous collection is declared with the type of its models, any other with the union.\<close>

lemma spec_type_name_precise:
  "models \<noteq> [] \<Longrightarrow> \<forall>(_, m) \<in> set models. spec_class m = name \<Longrightarrow> spec_type_name models = name"
proof -
  assume "models \<noteq> []" and same: "\<forall>(_, m) \<in> set models. spec_class m = name"
  then obtain am rest where models: "models = am # rest" by (cases models) auto
  have "map (\<lambda>(_, m). spec_class m) models = replicate (length models) name"
    using same by (intro replicate_eqI) auto
  moreover have "dedupe (replicate (Suc k) name) = [name]" for k by (induction k) auto
  ultimately show ?thesis by (simp add: spec_type_name_def models del: replicate.simps list.map)
qed

end
