(* ===== verification/Roboz_Env.thy ===== *)
theory Roboz_Env
  imports Roboz_Url "HOL-Library.Word"
begin

text \<open>
  The encrypted environment files of \<open>endpoints/env.py\<close> and the clients of
  \<open>endpoints/adapters/openai_compatible.py\<close> that take their keys from the environment. The
  names, the encryption and decryption of values, the dotenv text, the loading of secrets into
  the process environment and the writing of the encrypted file follow the code branch by
  branch. Base64 and UTF-8 are those of Python. Argon2, Fernet and the random generator are a
  parameter, and so is the reader of dotenv files.
\<close>

type_synonym octets = "8 word list"
type_synonym env_values = "(string \<times> string option) list"
type_synonym environ = "(string \<times> string) list"

datatype env_error =
    MissingSelected | NotPlaintext | SelectedWithoutValue | PasswordRequired
  | InvalidName | ReservedName | InvalidEncryptedName | NamesCollide | InvalidSecret
  | LegacyName | NulInValue | NotRegularFile | OutputIsLink | WriteFailed | KeyMissing string

section \<open>Text and bytes\<close>

text \<open>\<open>str.encode("ascii")\<close> fails beyond U+007F; a decoded text has to fit U+00FF.\<close>

definition is_ascii :: "string \<Rightarrow> bool" where
  "is_ascii s \<longleftrightarrow> list_all (\<lambda>c. of_char c < (128 :: nat)) s"

definition utf8_char :: "char \<Rightarrow> octets" where
  "utf8_char c =
     (let n = (of_char c :: nat) in
        if n < 128 then [of_nat n] else [of_nat (192 + n div 64), of_nat (128 + n mod 64)])"

definition utf8 :: "string \<Rightarrow> octets" where
  "utf8 s = concat (map utf8_char s)"

fun from_utf8 :: "octets \<Rightarrow> string option" where
  "from_utf8 [] = Some []"
| "from_utf8 (a # bs) =
     (if unat a < 128 then map_option (Cons (char_of (unat a))) (from_utf8 bs)
      else (case bs of
              [] \<Rightarrow> None
            | b # bs' \<Rightarrow>
                if unat a \<in> {194, 195} \<and> 128 \<le> unat b \<and> unat b < 192
                then map_option (Cons (char_of ((unat a - 192) * 64 + (unat b - 128)))) (from_utf8 bs')
                else None))"

lemma of_char_less: "(of_char c :: nat) < 256"
  by (rule char_below)

lemma from_utf8_char [simp]: "from_utf8 (utf8_char c @ bs) = map_option (Cons c) (from_utf8 bs)"
proof (cases "of_char c < (128 :: nat)")
  case True
  then show ?thesis by (simp add: utf8_char_def unat_of_nat)
next
  case False
  define n where "n = (of_char c :: nat)"
  have n: "128 \<le> n" "n < 256" using False of_char_less[of c] by (simp_all add: n_def)
  then have q: "n div 64 = 2 \<or> n div 64 = 3" by auto
  then have a: "unat (of_nat (192 + n div 64) :: 8 word) = 192 + n div 64"
    by (auto simp: unat_of_nat)
  have b: "unat (of_nat (128 + n mod 64) :: 8 word) = 128 + n mod 64"
    using mod_less_divisor[of 64 n] by (simp only: unat_of_nat) simp
  have "char_of (n div 64 * 64 + n mod 64) = c"
    by (simp add: n_def)
  then show ?thesis
    using n q unfolding utf8_char_def n_def[symmetric] Let_def
    by (auto simp: a b simp del: of_nat_add)
qed

lemma from_utf8_utf8: "from_utf8 (utf8 s) = Some s"
  by (induction s) (simp_all add: utf8_def)

subsection \<open>URL-safe base64\<close>

definition b64_alphabet :: string where
  "b64_alphabet = ''ABCDEFGHIJKLMNOPQRSTUVWXYZabcdefghijklmnopqrstuvwxyz0123456789-_''"

definition b64_digit :: "nat \<Rightarrow> char" where
  "b64_digit n = b64_alphabet ! n"

text \<open>The decoder translates \<open>-\<close> and \<open>_\<close> first, so it reads both alphabets.\<close>

definition b64_value :: "char \<Rightarrow> nat option" where
  "b64_value c =
     (if c = CHR ''+'' then Some 62 else if c = CHR ''/'' then Some 63
      else map_of (zip b64_alphabet [0..<64]) c)"

fun urlsafe_b64encode :: "octets \<Rightarrow> string" where
  "urlsafe_b64encode [] = []"
| "urlsafe_b64encode [a] = [b64_digit (unat a div 4), b64_digit (unat a mod 4 * 16), CHR ''='', CHR ''='']"
| "urlsafe_b64encode [a, b] =
     [b64_digit (unat a div 4), b64_digit (unat a mod 4 * 16 + unat b div 16),
      b64_digit (unat b mod 16 * 4), CHR ''='']"
| "urlsafe_b64encode (a # b # c # bs) =
     [b64_digit (unat a div 4), b64_digit (unat a mod 4 * 16 + unat b div 16),
      b64_digit (unat b mod 16 * 4 + unat c div 64), b64_digit (unat c mod 64)]
     @ urlsafe_b64encode bs"

text \<open>
  The lenient scanner behind \<open>b64decode\<close>: characters outside the alphabet are skipped, and a
  complete padding ends the input.
\<close>

fun b64_scan :: "nat \<Rightarrow> nat \<Rightarrow> nat \<Rightarrow> string \<Rightarrow> octets option" where
  "b64_scan quad left pads [] = (if quad = 0 then Some [] else None)"
| "b64_scan quad left pads (c # s) =
     (if c = CHR ''='' then
        (if 2 \<le> quad \<and> 4 \<le> quad + Suc pads then Some []
         else b64_scan quad left (if 2 \<le> quad then Suc pads else pads) s)
      else (case b64_value c of
              None \<Rightarrow> b64_scan quad left pads s
            | Some v \<Rightarrow>
                if quad = 0 then b64_scan 1 v 0 s
                else if quad = 1 then
                  map_option (Cons (of_nat (left * 4 + v div 16))) (b64_scan 2 (v mod 16) 0 s)
                else if quad = 2 then
                  map_option (Cons (of_nat (left * 16 + v div 4))) (b64_scan 3 (v mod 4) 0 s)
                else map_option (Cons (of_nat (left * 64 + v))) (b64_scan 0 0 0 s)))"

definition urlsafe_b64decode :: "string \<Rightarrow> octets option" where
  "urlsafe_b64decode s = b64_scan 0 0 0 s"

lemma b64_digits:
  "list_all (\<lambda>n. b64_value (b64_digit n) = Some n \<and> b64_digit n \<noteq> CHR ''='' \<and> b64_digit n \<noteq> CHR '':''
     \<and> b64_digit n \<noteq> CHR 0x00 \<and> of_char (b64_digit n) < (128 :: nat)) [0..<64]"
  by code_simp

lemma b64_digit_facts:
  assumes "n < 64"
  shows "b64_value (b64_digit n) = Some n" "b64_digit n \<noteq> CHR ''=''" "b64_digit n \<noteq> CHR '':''"
    "b64_digit n \<noteq> CHR 0x00" "of_char (b64_digit n) < (128 :: nat)"
  using assms b64_digits by (simp_all add: list_all_iff)

lemma octet: "unat (a :: 8 word) < 256"
  by (rule order.strict_trans2[OF unsigned_less]) simp

lemma split_digits: "v < k \<Longrightarrow> (x * k + v) div k = x \<and> (x * k + v) mod k = (v :: nat)"
  by simp

lemma decode_encode: "urlsafe_b64decode (urlsafe_b64encode bs) = Some bs"
  unfolding urlsafe_b64decode_def
proof (induction bs rule: urlsafe_b64encode.induct)
  case (2 a)
  have "unat a div 4 < 64" "unat a mod 4 * 16 < 64" using octet[of a] by linarith+
  then show ?case by (simp add: b64_digit_facts)
next
  case (3 a b)
  have d: "unat a div 4 < 64" "unat a mod 4 * 16 + unat b div 16 < 64" "unat b mod 16 * 4 < 64"
    using octet[of a] octet[of b] by linarith+
  have "unat b div 16 < 16" using octet[of b] by simp
  note this[THEN split_digits]
  then show ?case using d by (simp add: b64_digit_facts flip: of_nat_add of_nat_mult)
next
  case (4 a b c bs)
  have d: "unat a div 4 < 64" "unat a mod 4 * 16 + unat b div 16 < 64"
    "unat b mod 16 * 4 + unat c div 64 < 64" "unat c mod 64 < 64"
    using octet[of a] octet[of b] octet[of c] by linarith+
  have "unat b div 16 < 16" "unat c div 64 < 4" using octet[of b] octet[of c] by simp_all
  note this[THEN split_digits]
  then show ?case using d 4 by (simp add: b64_digit_facts flip: of_nat_add of_nat_mult)
qed simp

definition b64_text :: "string \<Rightarrow> bool" where
  "b64_text s \<longleftrightarrow> list_all (\<lambda>c. c \<in> set b64_alphabet \<or> c = CHR ''='') s"

lemma length_b64_alphabet: "length b64_alphabet = 64"
  by code_simp

lemma b64_digit_text [simp]: "n < 64 \<Longrightarrow> b64_digit n \<in> set b64_alphabet"
  by (simp add: b64_digit_def length_b64_alphabet)

lemma b64_text_plain:
  assumes "b64_text s"
  shows "is_ascii s" "CHR '':'' \<notin> set s" "CHR 0x00 \<notin> set s"
proof -
  have "of_char c < (128 :: nat) \<and> c \<noteq> CHR '':'' \<and> c \<noteq> CHR 0x00" if "c \<in> set s" for c
  proof (cases "c = CHR ''=''")
    case False
    with assms that have "c \<in> set b64_alphabet" by (auto simp: b64_text_def list_all_iff)
    then obtain n where "n < 64" "c = b64_digit n"
      by (auto simp: in_set_conv_nth b64_digit_def length_b64_alphabet)
    then show ?thesis by (simp add: b64_digit_facts)
  qed simp
  then show "is_ascii s" "CHR '':'' \<notin> set s" "CHR 0x00 \<notin> set s"
    by (auto simp: is_ascii_def list_all_iff)
qed

lemma encode_text: "b64_text (urlsafe_b64encode bs)"
proof (induction bs rule: urlsafe_b64encode.induct)
  case (2 a)
  have "unat a div 4 < 64" "unat a mod 4 * 16 < 64" using octet[of a] by linarith+
  then show ?case by (simp add: b64_text_def)
next
  case (3 a b)
  have "unat a div 4 < 64" "unat a mod 4 * 16 + unat b div 16 < 64" "unat b mod 16 * 4 < 64"
    using octet[of a] octet[of b] by linarith+
  then show ?case by (simp add: b64_text_def)
next
  case (4 a b c bs)
  have "unat a div 4 < 64" "unat a mod 4 * 16 + unat b div 16 < 64"
    "unat b mod 16 * 4 + unat c div 64 < 64" "unat c mod 64 < 64"
    using octet[of a] octet[of b] octet[of c] by linarith+
  then show ?case using 4 by (simp add: b64_text_def)
qed (simp add: b64_text_def)

section \<open>Names\<close>

definition ENCRYPTED_SUFFIX :: string where "ENCRYPTED_SUFFIX = ''_ENCRYPTED''"
definition ENCRYPTED_NAMESPACE :: string where "ENCRYPTED_NAMESPACE = ''roboz:''"
definition ENCRYPTED_PREFIX :: string where "ENCRYPTED_PREFIX = ENCRYPTED_NAMESPACE @ ''v1:''"
definition PASSWORD_ENV :: string where "PASSWORD_ENV = ''ROBOZ_ENV_PASSWORD''"
definition SALT_BYTES :: nat where "SALT_BYTES = 16"

definition is_encrypted :: "string \<Rightarrow> bool" where
  "is_encrypted v \<longleftrightarrow> prefix ENCRYPTED_NAMESPACE v"

definition has_usable_key :: "string option \<Rightarrow> bool" where
  "has_usable_key v = (case v of None \<Rightarrow> False | Some s \<Rightarrow> py_strip s \<noteq> [] \<and> \<not> is_encrypted s)"

definition name_start :: "char \<Rightarrow> bool" where
  "name_start c \<longleftrightarrow> is_lower (lower_char c) \<or> c = CHR ''_''"

definition env_name :: "string \<Rightarrow> bool" where
  "env_name s = (case s of [] \<Rightarrow> False
     | c # cs \<Rightarrow> name_start c \<and> list_all (\<lambda>d. name_start d \<or> is_digit d) cs)"

definition upper_char :: "char \<Rightarrow> char" where
  "upper_char c = (if is_lower c then char_of (of_char c - 32 :: nat) else c)"

text \<open>\<open>name.upper()\<close> is only taken of names, which are ASCII.\<close>

definition reserved_name :: "string \<Rightarrow> bool" where
  "reserved_name s \<longleftrightarrow> suffix ENCRYPTED_SUFFIX (map upper_char s)"

definition marked :: "string \<Rightarrow> bool" where
  "marked s \<longleftrightarrow> suffix ENCRYPTED_SUFFIX s"

definition base_name :: "string \<Rightarrow> string" where
  "base_name s = take (length s - length ENCRYPTED_SUFFIX) s"

definition validate_name :: "bool \<Rightarrow> string \<Rightarrow> env_error + string" where
  "validate_name stored name =
     (if \<not> env_name name then Inl InvalidName
      else if reserved_name name then
        (if \<not> stored \<or> \<not> marked name then Inl ReservedName
         else if \<not> env_name (base_name name) \<or> reserved_name (base_name name)
           then Inl InvalidEncryptedName
         else Inr (base_name name))
      else Inr name)"

lemma upper_suffix: "map upper_char ENCRYPTED_SUFFIX = ENCRYPTED_SUFFIX"
  by code_simp

lemma marked_reserved: "marked s \<Longrightarrow> reserved_name s"
  unfolding marked_def reserved_name_def by (metis map_mono_suffix upper_suffix)

lemma marked_append [simp]: "marked (s @ ENCRYPTED_SUFFIX)"
  unfolding marked_def by (rule suffixI) (rule refl)

lemma base_name_append [simp]: "base_name (s @ ENCRYPTED_SUFFIX) = s"
  by (simp add: base_name_def)

lemma marked_base: "marked s \<Longrightarrow> base_name s @ ENCRYPTED_SUFFIX = s"
  by (auto simp: marked_def base_name_def suffix_def)

lemma validate_name_Inr_iff:
  "validate_name stored name = Inr base \<longleftrightarrow>
     env_name name \<and>
     (if reserved_name name
      then stored \<and> marked name \<and> base = base_name name \<and> env_name base \<and> \<not> reserved_name base
      else base = name)"
  by (auto simp: validate_name_def)

lemma env_name_encrypted: "env_name name \<Longrightarrow> env_name (name @ ENCRYPTED_SUFFIX)"
proof -
  have "list_all (\<lambda>d. name_start d \<or> is_digit d) ENCRYPTED_SUFFIX"
    by (simp add: ENCRYPTED_SUFFIX_def name_start_def is_lower_def lower_char_def is_digit_def Let_def)
  then show "env_name name \<Longrightarrow> ?thesis" by (cases name) (simp_all add: env_name_def)
qed

lemma validate_encrypted:
  "validate_name False name = Inr base \<Longrightarrow> validate_name True (name @ ENCRYPTED_SUFFIX) = Inr name"
  using env_name_encrypted[of name] marked_reserved[OF marked_append, of name]
  by (simp add: validate_name_Inr_iff split: if_splits)

section \<open>Encryption of values\<close>

text \<open>
  \<open>os.urandom\<close> by the number of the call, \<open>Argon2id(salt).derive(password)\<close>, and the
  \<open>encrypt\<close> (which draws its own randomness) and \<open>decrypt\<close> of a \<open>Fernet\<close> key.
\<close>

record 'k sealing =
  urandom :: "nat \<Rightarrow> octets"
  derive_key :: "octets \<Rightarrow> octets \<Rightarrow> 'k"
  fernet_encrypt :: "'k \<Rightarrow> nat \<Rightarrow> octets \<Rightarrow> string"
  fernet_decrypt :: "'k \<Rightarrow> string \<Rightarrow> octets option"

text \<open>What the packages document: salts have the length asked for, and a token is
  URL-safe base64 and is opened by the key that made it.\<close>

definition sealing_ok :: "'k sealing \<Rightarrow> bool" where
  "sealing_ok S \<longleftrightarrow>
     (\<forall>n. length (urandom S n) = SALT_BYTES) \<and>
     (\<forall>k n m. b64_text (fernet_encrypt S k n m) \<and> fernet_decrypt S k (fernet_encrypt S k n m) = Some m)"

definition require_password :: "string option \<Rightarrow> env_error + string" where
  "require_password p = (case p of None \<Rightarrow> Inl PasswordRequired
     | Some s \<Rightarrow> if s = [] then Inl PasswordRequired else Inr s)"

definition seal_value :: "'k sealing \<Rightarrow> string \<Rightarrow> nat \<Rightarrow> string \<Rightarrow> string" where
  "seal_value S password n v =
     (let salt = urandom S n;
          token = fernet_encrypt S (derive_key S salt (utf8 password)) n (utf8 v)
      in ENCRYPTED_PREFIX @ urlsafe_b64encode salt @ '':'' @ token)"

definition open_token :: "'k sealing \<Rightarrow> string \<Rightarrow> string \<Rightarrow> string \<Rightarrow> string option" where
  "open_token S password encoded_salt token =
     (if \<not> is_ascii encoded_salt then None
      else Option.bind (urlsafe_b64decode encoded_salt) (\<lambda>salt.
        if length salt \<noteq> SALT_BYTES \<or> \<not> is_ascii token then None
        else Option.bind (fernet_decrypt S (derive_key S salt (utf8 password)) token) from_utf8))"

definition decrypt_value :: "'k sealing \<Rightarrow> string \<Rightarrow> string \<Rightarrow> env_error + string" where
  "decrypt_value S v password =
     (if \<not> prefix ENCRYPTED_PREFIX v then Inl InvalidSecret
      else let rest = drop (length ENCRYPTED_PREFIX) v; salt = takeWhile (\<lambda>c. c \<noteq> CHR '':'') rest in
        if CHR '':'' \<notin> set rest then Inl InvalidSecret
        else (case open_token S password salt (drop (Suc (length salt)) rest) of
                None \<Rightarrow> Inl InvalidSecret
              | Some plain \<Rightarrow> Inr plain))"

lemma decrypt_sealed:
  assumes ok: "sealing_ok S"
  shows "decrypt_value S (seal_value S password n v) password = Inr v"
proof -
  define salt where "salt = urlsafe_b64encode (urandom S n)"
  define token where "token = fernet_encrypt S (derive_key S (urandom S n) (utf8 password)) n (utf8 v)"
  have colon: "CHR '':'' \<notin> set salt" and ascii: "is_ascii salt"
    using b64_text_plain[OF encode_text] unfolding salt_def by blast+
  have sealed: "seal_value S password n v = ENCRYPTED_PREFIX @ salt @ CHR '':'' # token"
    by (simp add: seal_value_def salt_def token_def Let_def)
  have upto: "takeWhile (\<lambda>c. c \<noteq> CHR '':'') (salt @ CHR '':'' # token) = salt"
    using colon by (subst takeWhile_append2) auto
  have "open_token S password salt token = Some v"
    using ok ascii by (simp add: open_token_def salt_def token_def decode_encode sealing_ok_def b64_text_plain(1) from_utf8_utf8)
  with upto show ?thesis
    unfolding sealed by (simp add: decrypt_value_def)
qed

lemma sealed_without_nul: "sealing_ok S \<Longrightarrow> CHR 0x00 \<notin> set (seal_value S password n v)"
  using b64_text_plain(3)[OF encode_text] b64_text_plain(3)[of "fernet_encrypt S k n m" for k m]
  by (simp add: seal_value_def sealing_ok_def ENCRYPTED_PREFIX_def ENCRYPTED_NAMESPACE_def Let_def)

lemma sealed_is_encrypted: "is_encrypted (seal_value S password n v)"
  by (simp add: is_encrypted_def seal_value_def ENCRYPTED_PREFIX_def Let_def)

subsection \<open>The assignments of a file\<close>

definition checked_entry :: "string list \<Rightarrow> string \<times> string option \<Rightarrow> env_error + unit" where
  "checked_entry selected entry =
     (case entry of (name, v) \<Rightarrow>
        rbind (validate_name False name) (\<lambda>_.
        rbind (require (case v of None \<Rightarrow> True
                 | Some s \<Rightarrow> CHR 0x00 \<notin> set s \<and> \<not> is_encrypted s) NotPlaintext) (\<lambda>_.
        require (\<not> (name \<in> set selected \<and> v = None)) SelectedWithoutValue)))"

fun encrypt_from ::
  "'k sealing \<Rightarrow> string list \<Rightarrow> string \<Rightarrow> nat \<Rightarrow> env_values \<Rightarrow> env_values \<Rightarrow> env_values" where
  "encrypt_from S selected secret n result [] = result"
| "encrypt_from S selected secret n result ((name, v) # vals) =
     (case v of
        Some s \<Rightarrow>
          if name \<in> set selected
          then encrypt_from S selected secret (Suc n)
                 (dict_set (name @ ENCRYPTED_SUFFIX) (Some (seal_value S secret n s)) result) vals
          else encrypt_from S selected secret n (dict_set name v result) vals
      | None \<Rightarrow> encrypt_from S selected secret n (dict_set name v result) vals)"

definition encrypt_env_values ::
  "'k sealing \<Rightarrow> env_values \<Rightarrow> string list \<Rightarrow> string option \<Rightarrow> env_error + env_values" where
  "encrypt_env_values S vals selected password =
     rbind (require (set selected \<subseteq> fst ` set vals) MissingSelected) (\<lambda>_.
     rbind (traverse (checked_entry selected) vals) (\<lambda>_.
     rbind (if selected = [] then Inr [] else require_password password) (\<lambda>secret.
     Inr (encrypt_from S selected secret 0 [] vals))))"

definition decrypt_entry ::
  "'k sealing \<Rightarrow> string option \<Rightarrow> env_values \<Rightarrow> string \<Rightarrow> string option \<Rightarrow> env_error + env_values" where
  "decrypt_entry S password result name v =
     rbind (validate_name True name) (\<lambda>base.
     if base \<in> fst ` set result then Inl NamesCollide
     else if marked name then
       (case v of
          None \<Rightarrow> Inl InvalidSecret
        | Some s \<Rightarrow>
            rbind (require_password password) (\<lambda>secret.
            rbind (decrypt_value S s secret) (\<lambda>plain. Inr (dict_set base (Some plain) result))))
     else if (case v of None \<Rightarrow> False | Some s \<Rightarrow> is_encrypted s) then Inl LegacyName
     else Inr (dict_set base v result))"

fun decrypt_from :: "'k sealing \<Rightarrow> string option \<Rightarrow> env_values \<Rightarrow> env_values \<Rightarrow> env_error + env_values" where
  "decrypt_from S password result [] = Inr result"
| "decrypt_from S password result ((name, v) # vals) =
     rbind (decrypt_entry S password result name v) (\<lambda>result'. decrypt_from S password result' vals)"

definition decrypt_env_values :: "'k sealing \<Rightarrow> env_values \<Rightarrow> string option \<Rightarrow> env_error + env_values" where
  "decrypt_env_values S vals password = decrypt_from S password [] vals"

text \<open>The entries of the encrypted file, one for each value, in the order of the values.\<close>

fun sealed_entries :: "'k sealing \<Rightarrow> string list \<Rightarrow> string \<Rightarrow> nat \<Rightarrow> env_values \<Rightarrow> env_values" where
  "sealed_entries S selected secret n [] = []"
| "sealed_entries S selected secret n ((name, v) # vals) =
     (case v of
        Some s \<Rightarrow>
          if name \<in> set selected
          then (name @ ENCRYPTED_SUFFIX, Some (seal_value S secret n s))
                 # sealed_entries S selected secret (Suc n) vals
          else (name, v) # sealed_entries S selected secret n vals
      | None \<Rightarrow> (name, v) # sealed_entries S selected secret n vals)"

definition plain_name :: "string \<Rightarrow> bool" where
  "plain_name name \<longleftrightarrow> env_name name \<and> \<not> reserved_name name"

lemma plain_name_iff: "plain_name name \<longleftrightarrow> validate_name False name = Inr name"
  by (auto simp: plain_name_def validate_name_Inr_iff)

lemma plain_not_marked: "plain_name name \<Longrightarrow> \<not> marked name \<and> name \<noteq> other @ ENCRYPTED_SUFFIX"
  using marked_reserved marked_append by (auto simp: plain_name_def)

lemma encrypt_from_entries:
  assumes "distinct (map fst vals)" "\<forall>name \<in> fst ` set vals. plain_name name"
    "\<forall>name \<in> fst ` set vals. name \<notin> fst ` set result \<and> name @ ENCRYPTED_SUFFIX \<notin> fst ` set result"
  shows "encrypt_from S selected secret n result vals = result @ sealed_entries S selected secret n vals"
  using assms
proof (induction S selected secret n result vals rule: encrypt_from.induct)
  case (2 S selected secret n result name v vals)
  have plain: "other @ ENCRYPTED_SUFFIX \<noteq> name" "name \<noteq> other @ ENCRYPTED_SUFFIX" for other
    using 2(5) plain_not_marked[of name other] by auto
  have others: "other \<noteq> name @ ENCRYPTED_SUFFIX" if "other \<in> fst ` set vals" for other
    using 2(5) that plain_not_marked[of other name] by auto
  show ?case
  proof (cases v)
    case None
    then show ?thesis using 2 plain others by (auto simp: dict_set_new)
  next
    case (Some s)
    then show ?thesis using 2 plain others by (auto simp: dict_set_new)
  qed
qed simp

lemma traverse_checked: "traverse f xs = Inr us \<Longrightarrow> x \<in> set xs \<Longrightarrow> f x = Inr ()"
  by (auto simp: result_simps list_all2_conv_all_nth in_set_conv_nth)

text \<open>How an entry of the file stands for an entry of the environment.\<close>

fun stands_for :: "'k sealing \<Rightarrow> string \<Rightarrow> string \<times> string option \<Rightarrow> string \<times> string option \<Rightarrow> bool" where
  "stands_for S secret (name', v') (name, v) \<longleftrightarrow>
     plain_name name \<and> (case v of None \<Rightarrow> True | Some s \<Rightarrow> CHR 0x00 \<notin> set s \<and> \<not> is_encrypted s) \<and>
     ((name', v') = (name, v)
      \<or> name' = name @ ENCRYPTED_SUFFIX \<and> (\<exists>n s. v = Some s \<and> v' = Some (seal_value S secret n s)))"

lemma checked_entryD:
  "checked_entry selected (name, v) = Inr () \<Longrightarrow>
     plain_name name \<and> (case v of None \<Rightarrow> True | Some s \<Rightarrow> CHR 0x00 \<notin> set s \<and> \<not> is_encrypted s)"
  by (auto simp: checked_entry_def result_simps plain_name_def validate_name_Inr_iff split: if_splits)

lemma sealed_entries_stand:
  "\<forall>e \<in> set vals. checked_entry selected e = Inr () \<Longrightarrow>
     list_all2 (stands_for S secret) (sealed_entries S sel secret n vals) vals"
proof (induction S sel secret n vals rule: sealed_entries.induct)
  case (2 S sel secret n name v vals)
  have entry: "plain_name name \<and> (case v of None \<Rightarrow> True | Some s \<Rightarrow> CHR 0x00 \<notin> set s \<and> \<not> is_encrypted s)"
    using 2(4) checked_entryD[of selected name v] by simp
  show ?case
  proof (cases v)
    case None
    with 2 entry show ?thesis by simp
  next
    case (Some s)
    with 2 entry show ?thesis by (cases "name \<in> set sel") auto
  qed
qed simp

lemma stands_validates:
  assumes "stands_for S secret stored (name, v)"
  shows "validate_name True (fst stored) = Inr name"
proof -
  have plain: "validate_name False name = Inr name"
    using assms by (cases stored) (auto simp: plain_name_iff)
  then have "validate_name True name = Inr name"
    by (auto simp: validate_name_Inr_iff split: if_splits)
  with assms validate_encrypted[OF plain] show ?thesis by (cases stored) auto
qed

text \<open>A reader passes any password when nothing is encrypted.\<close>

lemma decrypt_stands:
  assumes ok: "sealing_ok S" and secret: "secret \<noteq> []"
    and pw: "pw = Some secret \<or> (\<forall>e \<in> set stored. \<not> marked (fst e))"
    and stands: "list_all2 (stands_for S secret) stored vals" and names: "distinct (map fst vals)"
  shows "decrypt_env_values S stored pw = Inr vals"
proof -
  have "fst ` set vals \<inter> fst ` set result = {} \<Longrightarrow>
    decrypt_from S pw result stored = Inr (result @ vals)" for result
    using stands names pw
  proof (induction stored vals arbitrary: result rule: list_all2_induct)
    case (Cons e stored entry vals)
    obtain name' v' name v where e: "e = (name', v')" and entry: "entry = (name, v)"
      by (cases e; cases entry)
    have stored: "validate_name True name' = Inr name"
      using stands_validates[OF Cons.hyps(1)[unfolded entry]] by (simp add: e)
    have fresh: "name \<notin> fst ` set result" using Cons.prems by (auto simp: entry)
    have plain: "plain_name name" using Cons.hyps(1) by (simp add: e entry)
    have "decrypt_entry S pw result name' v' = Inr (result @ [(name, v)])"
      using Cons.hyps(1) Cons.prems(3) stored fresh secret plain_not_marked[OF plain] decrypt_sealed[OF ok]
      by (auto simp: e entry decrypt_entry_def dict_set_new require_password_def split: option.splits)
    then show ?case
      using Cons.IH[of "result @ [(name, v)]"] Cons.prems by (auto simp: e entry)
  qed simp
  from this[of "[]"] show ?thesis by (simp add: decrypt_env_values_def)
qed

lemma unselected_entries: "sealed_entries S [] secret n vals = vals"
  by (induction S "[] :: string list" secret n vals rule: sealed_entries.induct)
    (auto split: option.splits)

lemma encrypted_stands:
  assumes names: "distinct (map fst vals)"
    and encrypted: "encrypt_env_values S vals selected (Some password) = Inr stored"
  shows "list_all2 (stands_for S password) stored vals" "password = [] \<Longrightarrow> selected = []"
    "stored = sealed_entries S selected password 0 vals"
proof -
  from encrypted obtain us secret where checks: "traverse (checked_entry selected) vals = Inr us"
    and secret: "(if selected = [] then Inr [] else require_password (Some password)) = Inr secret"
    and stored: "stored = encrypt_from S selected secret 0 [] vals"
    unfolding encrypt_env_values_def by (simp only: rbind_Inr_iff sum.inject) blast
  from checks have checked: "\<forall>e \<in> set vals. checked_entry selected e = Inr ()"
    by (blast intro: traverse_checked[OF checks])
  then have "\<forall>name \<in> fst ` set vals. plain_name name"
    using checked_entryD by (metis (no_types, lifting) imageE prod.collapse)
  then have entries: "stored = sealed_entries S selected secret 0 vals"
    using names by (simp add: stored encrypt_from_entries)
  show "password = [] \<Longrightarrow> selected = []"
    using secret by (auto simp: require_password_def split: if_splits)
  have "sealed_entries S selected secret 0 vals = sealed_entries S selected password 0 vals"
    using secret by (auto simp: unselected_entries require_password_def split: if_splits)
  then show "list_all2 (stands_for S password) stored vals" "stored = sealed_entries S selected password 0 vals"
    using sealed_entries_stand[OF checked] entries by simp_all
qed

text \<open>Decrypting what \<open>encrypt_env_values\<close> returns, with the same password, gives back every
  name with its value, in the same order, whatever names were selected.\<close>

lemma encrypted_values_open:
  assumes "sealing_ok S" "distinct (map fst vals)"
    and "encrypt_env_values S vals selected (Some password) = Inr stored" "password \<noteq> []"
  shows "decrypt_env_values S stored (Some password) = Inr vals"
  using decrypt_stands[OF assms(1,4)] encrypted_stands(1)[OF assms(2,3)] assms(2) by blast

section \<open>Loading secrets into the process environment\<close>

definition dict_pop :: "'k \<Rightarrow> ('k \<times> 'v) list \<Rightarrow> ('k \<times> 'v) list" where
  "dict_pop k d = filter (\<lambda>e. fst e \<noteq> k) d"

text \<open>\<open>os.environ[name] = value\<close> refuses a NUL; what was assigned before stays.\<close>

fun update_environ :: "environ \<Rightarrow> env_values \<Rightarrow> environ \<times> (env_error + unit)" where
  "update_environ environ [] = (environ, Inr ())"
| "update_environ environ ((name, v) # vals) =
     (case v of
        None \<Rightarrow> update_environ environ vals
      | Some s \<Rightarrow>
          if CHR 0x00 \<in> set s then (environ, Inl NulInValue)
          else update_environ (dict_set name s environ) vals)"

text \<open>\<open>_password\<close>: a password from the environment is taken out of it.\<close>

definition take_password :: "string option \<Rightarrow> environ \<Rightarrow> environ \<times> (env_error + string)" where
  "take_password explicit environ =
     (case explicit of
        Some p \<Rightarrow> (environ, require_password (Some p))
      | None \<Rightarrow> (dict_pop PASSWORD_ENV environ, require_password (map_of environ PASSWORD_ENV)))"

fun overlay :: "env_values \<Rightarrow> env_values \<Rightarrow> env_error + env_values" where
  "overlay vals [] = Inr vals"
| "overlay vals ((name, v) # manual) =
     rbind (validate_name True name) (\<lambda>base.
       overlay (dict_set name v (dict_pop (base @ ENCRYPTED_SUFFIX) (dict_pop base vals))) manual)"

fun pending_from :: "environ \<Rightarrow> env_values \<Rightarrow> env_values \<Rightarrow> env_error + env_values" where
  "pending_from environ pending [] = Inr pending"
| "pending_from environ pending ((name, v) # vals) =
     rbind (validate_name True name) (\<lambda>base.
       pending_from environ (if base \<in> fst ` set environ then pending else dict_set name v pending) vals)"

definition DEFAULT_ENCRYPTED_ENV_PATH :: string where "DEFAULT_ENCRYPTED_ENV_PATH = ''.env.encrypt''"
definition DEFAULT_SOURCE :: string where "DEFAULT_SOURCE = ''.env''"

text \<open>The assignments of the files and of the environment, the manual file last.\<close>

definition collected_values ::
  "(string \<Rightarrow> env_values) \<Rightarrow> (string \<Rightarrow> bool) \<Rightarrow> string option \<Rightarrow> environ \<Rightarrow> env_error + env_values" where
  "collected_values dotenv is_file path environ =
     (let stored = dict_of (dotenv (case path of Some p \<Rightarrow> p | None \<Rightarrow> DEFAULT_ENCRYPTED_ENV_PATH));
          vals = dict_union stored (map (\<lambda>(k, v). (k, Some v)) (filter (\<lambda>e. marked (fst e)) environ))
      in if path = None \<and> is_file DEFAULT_SOURCE then overlay vals (dotenv DEFAULT_SOURCE) else Inr vals)"

definition pending_password :: "string option \<Rightarrow> env_values \<Rightarrow> environ \<Rightarrow> environ \<times> (env_error + string option)" where
  "pending_password password encrypted environ =
     (if encrypted = [] then (environ, Inr None)
      else apsnd (\<lambda>r. rbind r (\<lambda>p. Inr (Some p))) (take_password password environ))"

definition install_secrets :: "env_values \<Rightarrow> env_values \<Rightarrow> environ \<Rightarrow> environ \<times> (env_error + unit)" where
  "install_secrets resolved encrypted environ =
     (case update_environ environ resolved of
        (environ', Inl e) \<Rightarrow> (environ', Inl e)
      | (environ', Inr _) \<Rightarrow> update_environ environ' encrypted)"

definition load_secrets ::
  "'k sealing \<Rightarrow> (string \<Rightarrow> env_values) \<Rightarrow> (string \<Rightarrow> bool) \<Rightarrow> string option \<Rightarrow> string option \<Rightarrow> environ
     \<Rightarrow> environ \<times> (env_error + unit)" where
  "load_secrets S dotenv is_file path password environ =
     (case rbind (collected_values dotenv is_file path environ) (pending_from environ []) of
        Inl e \<Rightarrow> (environ, Inl e)
      | Inr pending \<Rightarrow>
          let encrypted = filter (\<lambda>e. marked (fst e)) pending in
          (case pending_password password encrypted environ of
             (environ', Inl e) \<Rightarrow> (environ', Inl e)
           | (environ', Inr pw) \<Rightarrow>
               (case decrypt_env_values S pending pw of
                  Inl e \<Rightarrow> (environ', Inl e)
                | Inr resolved \<Rightarrow> install_secrets resolved encrypted environ')))"

subsection \<open>What loading leaves alone\<close>

lemma map_of_dict_pop: "map_of (dict_pop k d) = (map_of d)(k := None)"
  by (induction d) (auto simp: dict_pop_def fun_eq_iff)

lemma update_environ_other:
  "name \<notin> fst ` set vals \<Longrightarrow> map_of (fst (update_environ environ vals)) name = map_of environ name"
  by (induction environ vals rule: update_environ.induct) (auto split: option.splits)

lemma update_environ_error: "snd (update_environ environ vals) = Inl e \<Longrightarrow> e = NulInValue"
  by (induction environ vals rule: update_environ.induct) (auto split: option.splits if_splits)

lemma pending_fresh:
  "pending_from environ pending vals = Inr pending' \<Longrightarrow>
     \<forall>e \<in> set pending. \<exists>base. validate_name True (fst e) = Inr base \<and> base \<notin> fst ` set environ \<Longrightarrow>
     \<forall>e \<in> set pending'. \<exists>base. validate_name True (fst e) = Inr base \<and> base \<notin> fst ` set environ"
proof (induction environ pending vals rule: pending_from.induct)
  case (2 environ pending name v vals)
  from 2(2) obtain base where base: "validate_name True name = Inr base"
    and rest: "pending_from environ (if base \<in> fst ` set environ then pending else dict_set name v pending) vals
      = Inr pending'"
    by (auto simp: result_simps)
  have "set (dict_set name v pending) \<subseteq> insert (name, v) (set pending)"
    by (induction name v pending rule: dict_set.induct) auto
  with 2(3) base show ?case
    by (intro 2(1)[OF base rest]) (auto split: if_splits)
qed simp

lemma decrypt_from_names:
  "decrypt_from S pw result vals = Inr resolved \<Longrightarrow>
     fst ` set resolved \<subseteq> fst ` set result \<union> {base. \<exists>e \<in> set vals. validate_name True (fst e) = Inr base}"
proof (induction S pw result vals arbitrary: resolved rule: decrypt_from.induct)
  case (2 S pw result name v vals)
  then obtain result' where entry: "decrypt_entry S pw result name v = Inr result'"
    and rest: "decrypt_from S pw result' vals = Inr resolved"
    by (auto simp: result_simps)
  have "fst ` set result' \<subseteq> fst ` set result \<union> {base. validate_name True name = Inr base}"
    using entry by (auto simp: decrypt_entry_def result_simps dict_set_new split: if_splits option.splits)
  moreover have "fst ` set resolved
      \<subseteq> fst ` set result' \<union> {base. \<exists>e \<in> set vals. validate_name True (fst e) = Inr base}"
    by (rule 2(1)[OF entry rest])
  ultimately have "fst ` set resolved \<subseteq> fst ` set result \<union> {base. validate_name True name = Inr base}
      \<union> {base. \<exists>e \<in> set vals. validate_name True (fst e) = Inr base}"
    by (meson Un_mono dual_order.trans subset_refl)
  also have "\<dots> \<subseteq> fst ` set result \<union> {base. \<exists>e \<in> set ((name, v) # vals). validate_name True (fst e) = Inr base}"
    by auto
  finally show ?case .
qed simp

lemma decrypt_names:
  "decrypt_env_values S vals pw = Inr resolved \<Longrightarrow> name \<in> fst ` set resolved \<Longrightarrow>
     \<exists>e \<in> set vals. validate_name True (fst e) = Inr name"
  using decrypt_from_names[of S pw "[]" vals resolved] by (auto simp: decrypt_env_values_def)

lemma pending_password_environ:
  "fst (pending_password password encrypted environ) \<in> {environ, dict_pop PASSWORD_ENV environ}"
  by (cases password) (auto simp: pending_password_def take_password_def)

text \<open>The ways a loading ends.\<close>

lemma load_secrets_cases:
  assumes "load_secrets S dotenv is_file path password environ = (environ', r)"
  obtains e where "environ' = environ" "r = Inl e"
  | e where "r = Inl e" "environ' \<in> {environ, dict_pop PASSWORD_ENV environ}"
  | pending environ1 pw resolved where
      "\<forall>e \<in> set pending. \<exists>base. validate_name True (fst e) = Inr base \<and> base \<notin> fst ` set environ"
      "environ1 \<in> {environ, dict_pop PASSWORD_ENV environ}"
      "decrypt_env_values S pending pw = Inr resolved"
      "install_secrets resolved (filter (\<lambda>e. marked (fst e)) pending) environ1 = (environ', r)"
proof (cases "rbind (collected_values dotenv is_file path environ) (pending_from environ [])")
  case (Inl e)
  with assms that(1)[of e] show ?thesis by (auto simp: load_secrets_def)
next
  case (Inr pending)
  define encrypted where "encrypted = filter (\<lambda>e. marked (fst e)) pending"
  obtain environ1 pw where pw: "pending_password password encrypted environ = (environ1, pw)"
    by fastforce
  have environ1: "environ1 \<in> {environ, dict_pop PASSWORD_ENV environ}"
    using pending_password_environ[of password encrypted environ] by (simp add: pw)
  have fresh: "\<forall>e \<in> set pending. \<exists>base. validate_name True (fst e) = Inr base \<and> base \<notin> fst ` set environ"
  proof -
    from Inr obtain vals where "pending_from environ [] vals = Inr pending" by (auto simp: result_simps)
    from pending_fresh[OF this] show ?thesis by simp
  qed
  show ?thesis
  proof (cases pw)
    case (Inl e)
    with assms Inr pw environ1 that(2)[of e] show ?thesis by (auto simp: load_secrets_def encrypted_def)
  next
    case opened: (Inr opener)
    show ?thesis
    proof (cases "decrypt_env_values S pending opener")
      case (Inl e)
      with assms \<open>rbind _ _ = Inr pending\<close> pw opened environ1 that(2)[of e] show ?thesis
        by (auto simp: load_secrets_def encrypted_def)
    next
      case (Inr resolved)
      with assms \<open>rbind _ _ = Inr pending\<close> pw opened environ1 fresh that(3) show ?thesis
        by (simp add: load_secrets_def encrypted_def)
    qed
  qed
qed

lemma install_other:
  assumes "install_secrets resolved encrypted environ = (environ', r)"
    and "name \<notin> fst ` set resolved" "name \<notin> fst ` set encrypted"
  shows "map_of environ' name = map_of environ name"
proof (cases "update_environ environ resolved")
  case (Pair environ1 r1)
  then have "map_of environ1 name = map_of environ name"
    using update_environ_other[OF assms(2), of environ] by simp
  with Pair assms(1) update_environ_other[OF assms(3), of environ1] show ?thesis
    by (cases r1) (auto simp: install_secrets_def)
qed

text \<open>Loading secrets never touches what the process already has: a variable that is set,
  empty or not, keeps its value whatever the files hold and however the loading ends, unless it
  is the password variable or ciphertext.\<close>

theorem load_secrets_keeps_environment:
  assumes "load_secrets S dotenv is_file path password environ = (environ', r)"
    and "name \<in> fst ` set environ" "\<not> marked name" "name \<noteq> PASSWORD_ENV"
  shows "map_of environ' name = map_of environ name"
  using assms(1)
proof (cases rule: load_secrets_cases)
  case (3 pending environ1 pw resolved)
  have "name \<notin> fst ` set resolved"
    using decrypt_names[OF 3(3)] 3(1) assms(2) by (metis sum.inject(2))
  then have "map_of environ' name = map_of environ1 name"
    using assms(3) by (intro install_other[OF 3(4)]) auto
  with 3(2) assms(4) show ?thesis by (auto simp: map_of_dict_pop)
qed (use assms(4) in \<open>auto simp: map_of_dict_pop\<close>)

text \<open>A loading that fails for another reason than a NUL byte changes nothing but the password
  variable.\<close>

lemma failed_load_changes_nothing:
  assumes "load_secrets S dotenv is_file path password environ = (environ', Inl e)" "e \<noteq> NulInValue"
  shows "environ' \<in> {environ, dict_pop PASSWORD_ENV environ}"
  using assms(1)
proof (cases rule: load_secrets_cases)
  case (3 pending environ1 pw resolved)
  then show ?thesis
    using assms(2) update_environ_error[of environ1 resolved]
      update_environ_error[of "fst (update_environ environ1 resolved)" "filter (\<lambda>e. marked (fst e)) pending"]
    by (cases "update_environ environ1 resolved"; cases "snd (update_environ environ1 resolved)")
      (simp_all add: install_secrets_def)
qed auto

subsection \<open>What loading brings in\<close>

lemma list_all2_left: "list_all2 R xs ys \<Longrightarrow> x \<in> set xs \<Longrightarrow> \<exists>y \<in> set ys. R x y"
  by (induction xs ys rule: list_all2_induct) auto

lemma list_all2_right: "list_all2 R xs ys \<Longrightarrow> y \<in> set ys \<Longrightarrow> \<exists>x \<in> set xs. R x y"
  by (induction xs ys rule: list_all2_induct) auto

lemma stands_plain:
  assumes "list_all2 (stands_for S secret) stored vals" "(name, v) \<in> set vals"
  shows "plain_name name \<and> (case v of None \<Rightarrow> True | Some s \<Rightarrow> CHR 0x00 \<notin> set s)"
proof -
  from list_all2_right[OF assms] obtain e where "stands_for S secret e (name, v)" by blast
  then show ?thesis by (cases e) (auto split: option.splits)
qed

lemma stored_distinct:
  assumes "list_all2 (stands_for S secret) stored vals" "distinct (map fst vals)"
  shows "distinct (map fst stored)"
  using assms
proof (induction stored vals rule: list_all2_induct)
  case (Cons e stored entry vals)
  have "fst e \<noteq> fst e'" if "e' \<in> set stored" for e'
  proof
    assume same: "fst e = fst e'"
    from list_all2_left[OF Cons.hyps(2) that] obtain entry' where
      "entry' \<in> set vals" and "stands_for S secret e' entry'" by blast
    then have "fst entry = fst entry'"
      using stands_validates[of S secret e "fst entry" "snd entry"] Cons.hyps(1) same
        stands_validates[of S secret e' "fst entry'" "snd entry'"] by simp
    with \<open>entry' \<in> set vals\<close> Cons.prems show False by auto
  qed
  with Cons show ?case by auto
qed simp

lemma pending_stands:
  assumes "list_all2 (stands_for S secret) stored vals" "distinct (map fst stored)"
    "fst ` set pending \<inter> fst ` set stored = {}"
  shows "\<exists>p. pending_from environ pending stored = Inr (pending @ p) \<and> set p \<subseteq> set stored \<and>
    list_all2 (stands_for S secret) p (filter (\<lambda>e. fst e \<notin> fst ` set environ) vals)"
  using assms
proof (induction stored vals arbitrary: pending rule: list_all2_induct)
  case (Cons e stored entry vals)
  obtain name v where entry: "entry = (name, v)" by (cases entry)
  have valid: "validate_name True (fst e) = Inr name"
    using stands_validates[OF Cons.hyps(1)[unfolded entry]] .
  obtain name' v' where e: "e = (name', v')" by (cases e)
  show ?case
  proof (cases "name \<in> fst ` set environ")
    case True
    from Cons.IH[of pending] Cons.prems obtain p where
      "pending_from environ pending stored = Inr (pending @ p)" "set p \<subseteq> set stored"
      "list_all2 (stands_for S secret) p (filter (\<lambda>e. fst e \<notin> fst ` set environ) vals)"
      by auto
    with True valid show ?thesis by (auto simp: e entry)
  next
    case False
    from Cons.IH[of "pending @ [e]"] Cons.prems obtain p where
      p: "pending_from environ (pending @ [e]) stored = Inr ((pending @ [e]) @ p)" "set p \<subseteq> set stored"
      "list_all2 (stands_for S secret) p (filter (\<lambda>e. fst e \<notin> fst ` set environ) vals)"
      by (auto simp: e)
    have "dict_set name' v' pending = pending @ [e]"
      using Cons.prems by (auto simp: e dict_set_new)
    with p False valid Cons.hyps(1) show ?thesis
      by (intro exI[of _ "e # p"]) (auto simp: e entry)
  qed
qed simp

lemma update_environ_sets:
  assumes "distinct (map fst vals)" "\<forall>(name, v) \<in> set vals. case v of None \<Rightarrow> True | Some s \<Rightarrow> CHR 0x00 \<notin> set s"
  shows "snd (update_environ environ vals) = Inr () \<and>
    (\<forall>(name, v) \<in> set vals. map_of (fst (update_environ environ vals)) name =
       (case v of None \<Rightarrow> map_of environ name | Some s \<Rightarrow> Some s))"
  using assms
proof (induction environ vals rule: update_environ.induct)
  case (2 environ name v vals)
  show ?case
  proof (cases v)
    case None
    with 2 update_environ_other[of name vals environ] show ?thesis by (auto simp: image_iff)
  next
    case (Some s)
    with 2 have nul: "CHR 0x00 \<notin> set s" by simp
    have "(\<forall>(n, u) \<in> set vals. n \<noteq> name)" using 2(3) by (auto simp: image_iff)
    moreover have "map_of (fst (update_environ (dict_set name s environ) vals)) name = Some s"
      using 2(3) update_environ_other[of name vals "dict_set name s environ"] by simp
    ultimately show ?thesis
      using 2(2)[OF Some nul] 2(3,4) Some nul by (fastforce split: option.splits)
  qed
qed simp

lemma stands_without_nul:
  assumes "sealing_ok S" "list_all2 (stands_for S secret) stored vals"
  shows "\<forall>(name, v) \<in> set stored. case v of None \<Rightarrow> True | Some s \<Rightarrow> CHR 0x00 \<notin> set s"
  using assms(2)
proof (induction stored vals rule: list_all2_induct)
  case (Cons e stored entry vals)
  then show ?case
    using sealed_without_nul[OF assms(1)] by (cases e; cases entry) (auto split: option.splits)
qed simp

text \<open>
  Ciphertext in the process counts as settled when its variable is there too, as a previous
  loading leaves it: neither then takes part in a loading.
\<close>

definition settled_environ :: "environ \<Rightarrow> bool" where
  "settled_environ environ \<longleftrightarrow>
     (\<forall>name \<in> fst ` set environ. marked name \<longrightarrow>
        (\<exists>base. validate_name True name = Inr base \<and> base \<in> fst ` set environ))"

lemma pending_set_settled:
  assumes "validate_name True k = Inr base" "base \<in> fst ` set environ"
  shows "pending_from environ pending (dict_set k v d) = pending_from environ pending d"
  using assms
proof (induction d arbitrary: pending)
  case (Cons e d)
  obtain k' v' where e: "e = (k', v')" by (cases e)
  show ?case
  proof (cases "k' = k")
    case False
    with Cons e show ?thesis by (cases "validate_name True k'") simp_all
  qed (use Cons e in simp)
qed simp

lemma pending_union_settled:
  assumes "\<forall>(k, v) \<in> set extra. \<exists>base. validate_name True k = Inr base \<and> base \<in> fst ` set environ"
  shows "pending_from environ pending (dict_union d extra) = pending_from environ pending d"
  using assms
proof (induction extra arbitrary: d)
  case (Cons e d')
  obtain k v where e: "e = (k, v)" by (cases e)
  with Cons.prems obtain base where "validate_name True k = Inr base" "base \<in> fst ` set environ" by auto
  with Cons.IH[of "dict_set k v d"] Cons.prems pending_set_settled[of k base environ pending v d] show ?case
    by (simp add: e dict_union_def)
qed (simp add: dict_union_def)

text \<open>Loading a file that holds what \<open>encrypt_env_values\<close> made.\<close>

lemma stored_values_are_loaded:
  assumes ok: "sealing_ok S" and names: "distinct (map fst vals)"
    and encrypted: "encrypt_env_values S vals selected (Some password) = Inr stored"
    and password: "password \<noteq> []" and reads: "dotenv path = stored"
    and settled: "settled_environ environ"
  shows "\<exists>environ'. load_secrets S dotenv is_file (Some path) (Some password) environ = (environ', Inr ()) \<and>
    (\<forall>(name, v) \<in> set vals. map_of environ' name =
       (case map_of environ name of Some old \<Rightarrow> Some old | None \<Rightarrow> v))"
proof -
  note stands = encrypted_stands(1)[OF names encrypted]
  note keys = stored_distinct[OF stands names]
  define union where "union = dict_union stored (map (\<lambda>(k, v). (k, Some v)) (filter (\<lambda>e. marked (fst e)) environ))"
  have collected: "collected_values dotenv is_file (Some path) environ = Inr union"
    by (simp add: collected_values_def reads dict_of_distinct[OF keys] union_def Let_def)
  have same: "pending_from environ [] union = pending_from environ [] stored"
    unfolding union_def
  proof (rule pending_union_settled, clarsimp)
    fix k v assume "(k, v) \<in> set environ" "marked k"
    then have "k \<in> fst ` set environ" by force
    with settled \<open>marked k\<close> show "\<exists>base. validate_name True k = Inr base \<and> base \<in> fst ` set environ"
      unfolding settled_environ_def by blast
  qed
  have vals: "plain_name name" if "name \<in> fst ` set vals" for name
    using stands_plain[OF stands] that by auto
  define missing where "missing = filter (\<lambda>e. fst e \<notin> fst ` set environ) vals"
  obtain p where pending: "pending_from environ [] stored = Inr p" and sub: "set p \<subseteq> set stored"
    and p: "list_all2 (stands_for S password) p missing"
    using pending_stands[OF stands keys, of "[]" environ] by (auto simp: missing_def)
  have missing: "distinct (map fst missing)" using names by (simp add: missing_def distinct_map_filter)
  define encrypted where "encrypted = filter (\<lambda>e. marked (fst e)) p"
  obtain pw where pw: "pending_password (Some password) encrypted environ = (environ, Inr pw)"
    and opens: "pw = Some password \<or> (\<forall>e \<in> set p. \<not> marked (fst e))"
  proof (cases "encrypted = []")
    case True
    then show thesis by (intro that[of None]) (auto simp: pending_password_def encrypted_def filter_empty_conv)
  next
    case False
    with password show thesis
      by (intro that[of "Some password"]) (simp_all add: pending_password_def take_password_def require_password_def)
  qed
  have resolved: "decrypt_env_values S p pw = Inr missing"
    by (rule decrypt_stands[OF ok password opens p missing])
  have entries: "plain_name name \<and> (case v of None \<Rightarrow> True | Some s \<Rightarrow> CHR 0x00 \<notin> set s)"
    if "(name, v) \<in> set missing" for name v
    by (rule stands_plain[OF p that])
  have nul: "\<forall>(name, v) \<in> set encrypted. case v of None \<Rightarrow> True | Some s \<Rightarrow> CHR 0x00 \<notin> set s"
    using stands_without_nul[OF ok p] by (auto simp: encrypted_def)
  have distinct: "distinct (map fst encrypted)"
    using stored_distinct[OF p missing] by (simp add: encrypted_def distinct_map_filter)
  define environ1 where "environ1 = fst (update_environ environ missing)"
  define environ' where "environ' = fst (update_environ environ1 encrypted)"
  have no_nul: "\<forall>(name, v) \<in> set missing. case v of None \<Rightarrow> True | Some s \<Rightarrow> CHR 0x00 \<notin> set s"
    using entries by blast
  have first: "update_environ environ missing = (environ1, Inr ())"
    and brought: "\<forall>(name, v) \<in> set missing. map_of environ1 name =
       (case v of None \<Rightarrow> map_of environ name | Some s \<Rightarrow> Some s)"
    using update_environ_sets[OF missing no_nul, of environ] by (auto simp: environ1_def prod_eq_iff)
  have second: "update_environ environ1 encrypted = (environ', Inr ())"
    using update_environ_sets[OF distinct nul, of environ1] by (auto simp: environ'_def prod_eq_iff)
  have "load_secrets S dotenv is_file (Some path) (Some password) environ = (environ', Inr ())"
    using pw first second by (simp add: load_secrets_def collected same pending encrypted_def[symmetric]
        resolved install_secrets_def Let_def)
  moreover have "map_of environ' name = (case map_of environ name of Some old \<Rightarrow> Some old | None \<Rightarrow> v)"
    if entry: "(name, v) \<in> set vals" for name v
  proof -
    have "name \<in> fst ` set vals" using entry by force
    then have "name \<notin> fst ` set encrypted"
      using plain_not_marked[OF vals[of name]] by (auto simp: encrypted_def)
    then have same: "map_of environ' name = map_of environ1 name"
      using update_environ_other by (simp add: environ'_def)
    show ?thesis
    proof (cases "map_of environ name")
      case None
      then have "(name, v) \<in> set missing" using entry by (simp add: missing_def map_of_eq_None_iff)
      with brought None same show ?thesis by (auto split: option.splits)
    next
      case (Some old)
      then have "name \<notin> fst ` set missing"
        by (auto simp: missing_def dest!: map_of_SomeD intro: rev_image_eqI)
      with Some same show ?thesis using update_environ_other by (simp add: environ1_def)
    qed
  qed
  ultimately show ?thesis by blast
qed

section \<open>The encrypted file\<close>

definition escape_quoted :: "char \<Rightarrow> string" where
  "escape_quoted c = (if c = CHR 0x5C \<or> c = CHR 0x27 then [CHR 0x5C, c] else [c])"

text \<open>\<open>replace("\\", "\\\\").replace("'", "\\'")\<close> escapes each of the two characters once.\<close>

definition quoted :: "string \<Rightarrow> string" where
  "quoted s = CHR 0x27 # concat (map escape_quoted s) @ [CHR 0x27]"

definition env_line :: "string \<times> string option \<Rightarrow> env_error + string" where
  "env_line entry =
     (case entry of (name, v) \<Rightarrow>
        rbind (validate_name True name) (\<lambda>_.
        (case v of
           None \<Rightarrow> Inr (name @ [CHR 0x0A])
         | Some s \<Rightarrow> if CHR 0x00 \<in> set s then Inl NulInValue
                   else Inr (name @ ''='' @ quoted s @ [CHR 0x0A]))))"

definition serialize_env :: "env_values \<Rightarrow> env_error + string" where
  "serialize_env vals = rbind (traverse env_line vals) (\<lambda>lines. Inr (concat lines))"

text \<open>
  What python-dotenv documents of such text, without interpolation: a line is a name alone, or a
  name with a value in single quotes, where a backslash escapes a quote and a backslash and every
  other character stands for itself. A carriage return is a line end to the reader, and its closing
  quote is one that no backslash precedes, so a value has neither the one nor a last backslash.
\<close>

definition literal_value :: "string \<Rightarrow> bool" where
  "literal_value s \<longleftrightarrow> CHR 0x0D \<notin> set s \<and> (s = [] \<or> last s \<noteq> CHR 0x5C)"

inductive single_quoted :: "string \<Rightarrow> string \<Rightarrow> bool" where
  end_quoted: "single_quoted [] []"
| plain_quoted: "single_quoted b s \<Longrightarrow> c \<noteq> CHR 0x5C \<Longrightarrow> c \<noteq> CHR 0x27 \<Longrightarrow> single_quoted (c # b) (c # s)"
| escaped: "single_quoted b s \<Longrightarrow> c = CHR 0x5C \<or> c = CHR 0x27 \<Longrightarrow> single_quoted (CHR 0x5C # c # b) (c # s)"

inductive dotenv_text :: "string \<Rightarrow> env_values \<Rightarrow> bool" where
  no_line: "dotenv_text [] []"
| bare_line: "dotenv_text t vals \<Longrightarrow> env_name name \<Longrightarrow> dotenv_text (name @ CHR 0x0A # t) ((name, None) # vals)"
| value_line: "dotenv_text t vals \<Longrightarrow> env_name name \<Longrightarrow> single_quoted b s \<Longrightarrow> literal_value s \<Longrightarrow>
    dotenv_text (name @ ''='' @ CHR 0x27 # b @ CHR 0x27 # CHR 0x0A # t) ((name, Some s) # vals)"

definition reads_dotenv :: "(string \<Rightarrow> env_values) \<Rightarrow> bool" where
  "reads_dotenv parse_dotenv \<longleftrightarrow>
     (\<forall>text vals. dotenv_text text vals \<and> distinct (map fst vals) \<longrightarrow> parse_dotenv text = vals)"

lemma quoted_escapes: "single_quoted (concat (map escape_quoted s)) s"
proof (induction s)
  case (Cons c s)
  then show ?case
    by (cases "c = CHR 0x5C \<or> c = CHR 0x27") (simp_all add: escape_quoted_def single_quoted.intros)
qed (simp add: end_quoted)

lemma serialized_is_dotenv:
  assumes "serialize_env vals = Inr text" and "\<forall>(name, v) \<in> set vals. case v of None \<Rightarrow> True | Some s \<Rightarrow> literal_value s"
  shows "dotenv_text text vals"
proof -
  from assms(1) obtain lines where "traverse env_line vals = Inr lines" and whole: "text = concat lines"
    by (auto simp: serialize_env_def result_simps)
  then have "list_all2 (\<lambda>e line. env_line e = Inr line) vals lines" by (simp add: result_simps)
  then have "dotenv_text (concat lines) vals"
    using assms(2)
  proof (induction vals lines rule: list_all2_induct)
    case (Cons e vals line lines)
    obtain name v where e: "e = (name, v)" by (cases e)
    have name: "env_name name" using Cons.hyps(1)
      by (auto simp: e env_line_def result_simps validate_name_Inr_iff)
    have rest: "dotenv_text (concat lines) vals" using Cons by auto
    show ?case
    proof (cases v)
      case None
      with Cons.hyps(1) have "line = name @ [CHR 0x0A]" by (auto simp: e env_line_def result_simps)
      with bare_line[OF rest name] None show ?thesis by (simp add: e)
    next
      case (Some s)
      with Cons.hyps(1) have "line = name @ ''='' @ quoted s @ [CHR 0x0A]"
        by (auto simp: e env_line_def result_simps split: if_splits)
      moreover have "literal_value s" using Cons.prems Some by (simp add: e)
      ultimately show ?thesis using value_line[OF rest name quoted_escapes[of s]] Some
        by (simp add: e quoted_def)
    qed
  qed (simp add: no_line)
  then show ?thesis by (simp add: whole)
qed

lemma sealed_is_literal:
  assumes "sealing_ok S" shows "literal_value (seal_value S password n v)"
proof -
  have b64: "c \<noteq> CHR 0x0D \<and> c \<noteq> CHR 0x5C" if "b64_text t" "c \<in> set t" for t c
  proof -
    have "CHR 0x0D \<notin> set b64_alphabet" "CHR 0x5C \<notin> set b64_alphabet" by code_simp+
    with that show ?thesis by (auto simp: b64_text_def list_all_iff)
  qed
  have "CHR 0x0D \<notin> set (seal_value S password n v) \<and> CHR 0x5C \<notin> set (seal_value S password n v)"
    using b64[OF encode_text] b64[of "fernet_encrypt S (derive_key S (urandom S n) (utf8 password)) n (utf8 v)"] assms
    by (auto simp: seal_value_def sealing_ok_def ENCRYPTED_PREFIX_def ENCRYPTED_NAMESPACE_def Let_def)
  then show ?thesis by (metis last_in_set literal_value_def)
qed

lemma stored_is_literal:
  assumes "sealing_ok S"
    and "\<forall>(name, v) \<in> set vals. name \<notin> set selected \<longrightarrow> (case v of None \<Rightarrow> True | Some s \<Rightarrow> literal_value s)"
  shows "\<forall>(name, v) \<in> set (sealed_entries S selected secret n vals). case v of None \<Rightarrow> True | Some s \<Rightarrow> literal_value s"
  using assms
  by (induction S selected secret n vals rule: sealed_entries.induct)
    (auto simp: sealed_is_literal split: option.splits)

text \<open>
  \<open>encrypt_env\<close> on a directory of regular files and links. A fault is the operating-system call
  that fails, if any; the name of the temporary file is the one \<open>mkstemp\<close> picked.
\<close>

datatype write_fault = CreateFails | WriteFails | SyncFails | ReplaceFails

record env_files =
  env_content :: "string \<Rightarrow> string option"
  env_link :: "string \<Rightarrow> bool"

definition put_file :: "string \<Rightarrow> string option \<Rightarrow> env_files \<Rightarrow> env_files" where
  "put_file path v files = files\<lparr>env_content := (env_content files)(path := v)\<rparr>"

text \<open>The body of the \<open>try\<close>, which leaves the temporary file behind unless it was moved.\<close>

definition write_temporary ::
  "write_fault option \<Rightarrow> string \<Rightarrow> string \<Rightarrow> env_values \<Rightarrow> env_files \<Rightarrow> env_files \<times> (env_error + unit)" where
  "write_temporary fault temporary out stored files =
     (case serialize_env stored of
        Inl e \<Rightarrow> (files, Inl e)
      | Inr text \<Rightarrow>
          if fault = Some WriteFails then (files, Inl WriteFailed)
          else let written = put_file temporary (Some text) files in
            if fault = Some SyncFails \<or> fault = Some ReplaceFails then (written, Inl WriteFailed)
            else (put_file temporary None (put_file out (Some text) written), Inr ()))"

definition write_encrypted ::
  "write_fault option \<Rightarrow> string \<Rightarrow> string \<Rightarrow> env_values \<Rightarrow> env_files \<Rightarrow> env_files \<times> (env_error + unit)" where
  "write_encrypted fault temporary out stored files =
     (if fault = Some CreateFails then (files, Inl WriteFailed)
      else apfst (put_file temporary None)
             (write_temporary fault temporary out stored (put_file temporary (Some []) files)))"

definition encrypt_env ::
  "'k sealing \<Rightarrow> (string \<Rightarrow> env_values) \<Rightarrow> write_fault option \<Rightarrow> string \<Rightarrow> string \<Rightarrow> string list
     \<Rightarrow> string option \<Rightarrow> environ \<Rightarrow> env_files \<Rightarrow> env_files \<times> environ \<times> (env_error + string)" where
  "encrypt_env S parse_dotenv fault temporary path selected password environ files =
     (case (env_link files path, env_content files path) of
        (False, Some source) \<Rightarrow>
          (case (if selected = [] then (environ, Inr None)
                 else apsnd (\<lambda>r. rbind r (\<lambda>p. Inr (Some p))) (take_password password environ)) of
             (environ', pw) \<Rightarrow>
               (case rbind pw (encrypt_env_values S (dict_of (parse_dotenv source)) selected) of
                  Inl e \<Rightarrow> (files, environ', Inl e)
                | Inr stored \<Rightarrow>
                    let out = path @ ''.encrypt'' in
                    if env_link files out then (files, environ', Inl OutputIsLink)
                    else (case write_encrypted fault temporary out stored files of
                            (files', r) \<Rightarrow> (files', environ', rbind r (\<lambda>_. Inr out)))))
      | _ \<Rightarrow> (files, environ, Inl NotRegularFile))"

lemma env_link_put [simp]: "env_link (put_file path v files) = env_link files"
  by (simp add: put_file_def)

text \<open>What \<open>encrypt_env_values\<close> returns can be written down.\<close>

lemma stands_serializes:
  assumes "sealing_ok S" "list_all2 (stands_for S secret) stored vals"
  shows "\<exists>text. serialize_env stored = Inr text"
proof -
  have "\<exists>lines. traverse env_line stored = Inr lines"
    using assms(2)
  proof (induction stored vals rule: list_all2_induct)
    case (Cons e stored entry vals)
    obtain name v where entry: "entry = (name, v)" by (cases entry)
    have "\<exists>line. env_line e = Inr line"
      using stands_validates[OF Cons.hyps(1)[unfolded entry]]
        stands_without_nul[OF assms(1), of secret "[e]" "[entry]"] Cons.hyps(1)
      by (cases e) (auto simp: env_line_def split: option.splits)
    with Cons.IH show ?case by auto
  qed simp
  then show ?thesis by (auto simp: serialize_env_def)
qed

lemma put_back: "env_content files path = None \<Longrightarrow> put_file path None (put_file path v files) = files"
  by (simp add: put_file_def fun_upd_idem)

lemma put_absent: "env_content files path = None \<Longrightarrow> put_file path None files = files"
  by (simp add: put_file_def fun_upd_idem)

lemma env_content_put [simp]:
  "env_content (put_file path v files) other = (if other = path then v else env_content files other)"
  by (simp add: put_file_def)

lemma put_twice [simp]: "put_file path v (put_file path u files) = put_file path v files"
  by (simp add: put_file_def)

lemma put_swap: "a \<noteq> b \<Longrightarrow> put_file a u (put_file b v files) = put_file b v (put_file a u files)"
  by (simp add: put_file_def fun_upd_twist)

lemma write_encrypted_cases:
  assumes run: "write_encrypted fault temporary out stored files = (files', r)"
    and temporary: "env_content files temporary = None" "temporary \<noteq> out"
  shows "files' = files \<and> (\<exists>e. r = Inl e) \<or>
    (\<exists>text. serialize_env stored = Inr text \<and> r = Inr () \<and> files' = put_file out (Some text) files)"
proof (cases "fault = Some CreateFails")
  case True
  with run show ?thesis by (auto simp: write_encrypted_def)
next
  case False
  obtain written r' where body:
    "write_temporary fault temporary out stored (put_file temporary (Some []) files) = (written, r')"
    by fastforce
  with run False have result: "files' = put_file temporary None written" "r = r'"
    by (auto simp: write_encrypted_def)
  show ?thesis
  proof (cases "serialize_env stored")
    case (Inl e)
    with body result temporary show ?thesis by (auto simp: write_temporary_def put_back put_absent)
  next
    case (Inr text')
    show ?thesis
      using body result temporary Inr
      by (auto simp: write_temporary_def put_back put_absent Let_def put_swap[of out temporary] split: if_splits)
  qed
qed

text \<open>Writing the encrypted file is atomic: whatever call of the operating system fails and
  whatever is wrong with the values, the directory is as it was, or its only change is that the
  output holds the complete text of the encrypted values; the plaintext source and links are
  never written, and no temporary file stays.\<close>

theorem encrypted_file_is_whole:
  assumes run: "encrypt_env S parse_dotenv fault temporary path selected password environ files = (files', environ', r)"
    and temporary: "env_content files temporary = None" "temporary \<noteq> path @ ''.encrypt''"
  shows "files' = files \<and> (\<exists>e. r = Inl e) \<or>
    (\<exists>source stored text pw. env_content files path = Some source \<and> r = Inr (path @ ''.encrypt'') \<and>
       \<not> env_link files (path @ ''.encrypt'') \<and> serialize_env stored = Inr text \<and>
       files' = put_file (path @ ''.encrypt'') (Some text) files \<and>
       encrypt_env_values S (dict_of (parse_dotenv source)) selected pw = Inr stored)"
proof (cases "env_link files path \<or> env_content files path = None")
  case True
  with run show ?thesis by (auto simp: encrypt_env_def split: option.splits bool.splits)
next
  case False
  then obtain source where source: "env_content files path = Some source" and "\<not> env_link files path" by auto
  obtain environ1 pw where taken: "(if selected = [] then (environ, Inr None)
      else apsnd (\<lambda>r. rbind r (\<lambda>p. Inr (Some p))) (take_password password environ)) = (environ1, pw)"
    by fastforce
  note run = run[unfolded encrypt_env_def taken source, simplified \<open>\<not> env_link files path\<close>]
  show ?thesis
  proof (cases "rbind pw (encrypt_env_values S (dict_of (parse_dotenv source)) selected)")
    case (Inl e)
    with run \<open>\<not> env_link files path\<close> show ?thesis by auto
  next
    case (Inr stored)
    then obtain opener where "encrypt_env_values S (dict_of (parse_dotenv source)) selected opener = Inr stored"
      by (auto simp: result_simps)
    then show ?thesis
      using run source Inr \<open>\<not> env_link files path\<close>
        write_encrypted_cases[OF _ temporary, where fault = fault and stored = stored]
      by (fastforce simp: Let_def split: if_splits prod.splits)
  qed
qed

lemma explicit_password:
  "password \<noteq> [] \<Longrightarrow> (if selected = [] then (environ, Inr None)
      else apsnd (\<lambda>r. rbind r (\<lambda>p. Inr (Some p))) (take_password (Some password) environ))
    = (environ, Inr (if selected = [] then None else Some password))"
  "encrypt_env_values S vals selected (if selected = [] then None else Some password) =
     encrypt_env_values S vals selected (Some password)"
  by (auto simp: take_password_def require_password_def encrypt_env_values_def)

lemma encrypt_env_writes:
  assumes run: "encrypt_env S parse_dotenv fault temporary path selected (Some password) environ files = (files', environ', Inr out)"
    and password: "password \<noteq> []"
    and temporary: "env_content files temporary = None" "temporary \<noteq> path @ ''.encrypt''"
  obtains source stored body where "env_content files path = Some source" "out = path @ ''.encrypt''"
    "encrypt_env_values S (dict_of (parse_dotenv source)) selected (Some password) = Inr stored"
    "serialize_env stored = Inr body" "env_content files' out = Some body"
proof -
  note run = run[unfolded encrypt_env_def explicit_password(1)[OF password]]
  from run obtain source where source: "env_content files path = Some source" and link: "\<not> env_link files path"
    by (auto split: option.splits bool.splits)
  note same = explicit_password(2)[of S "dict_of (parse_dotenv source)" selected password]
  from run source link obtain stored where
    stored: "encrypt_env_values S (dict_of (parse_dotenv source)) selected (Some password) = Inr stored"
    by (cases "encrypt_env_values S (dict_of (parse_dotenv source)) selected (Some password)") (simp_all add: same)
  obtain files1 r where wrote: "write_encrypted fault temporary (path @ ''.encrypt'') stored files = (files1, r)" by fastforce
  from run source link stored wrote have out: "out = path @ ''.encrypt''" "files' = files1" "r = Inr ()"
    by (auto simp: Let_def result_simps same split: if_splits)
  from write_encrypted_cases[OF wrote temporary] out(2,3) obtain body where
    "serialize_env stored = Inr body" "env_content files' (path @ ''.encrypt'') = Some body" by auto
  with that source out(1) stored show thesis by blast
qed

text \<open>\<open>dotenv_values\<close> of a path: what its file holds, and nothing where there is none.\<close>

definition dotenv_files :: "(string \<Rightarrow> env_values) \<Rightarrow> env_files \<Rightarrow> string \<Rightarrow> env_values" where
  "dotenv_files parse_dotenv files path = (case env_content files path of None \<Rightarrow> [] | Some text \<Rightarrow> parse_dotenv text)"

lemma distinct_dict_of: "distinct (map fst (dict_of kvs))"
proof (induction kvs rule: rev_induct)
  case (snoc kv kvs)
  then show ?case by (cases kv) (simp add: dict_of_def distinct_dict_set)
qed (simp add: dict_of_def)

text \<open>
  C27. An encrypted file restores its environment: when \<open>encrypt_env\<close> has written the file of a
  plaintext source, a process that loads that file, with the password it was made with, ends
  without error and has every variable that the source gives a value, except that those it already
  had keep the value they had. Argon2, Fernet and the reader of dotenv text are those documented
  (\<open>sealing_ok\<close>, \<open>reads_dotenv\<close>); the values that are not selected as secrets hold no carriage
  return and no last backslash, which that reader does not give back; and ciphertext that the
  loading process already has comes with its variable, as an earlier loading leaves it: other
  ciphertext would be opened too, and its failure would end the loading.
\<close>

theorem stored_secrets_are_restored:
  assumes ok: "sealing_ok S" and reader: "reads_dotenv parse_dotenv"
    and written: "encrypt_env S parse_dotenv fault temporary path selected (Some password) environ0 files =
      (files', environ1, Inr out)"
    and temporary: "env_content files temporary = None" "temporary \<noteq> path @ ''.encrypt''"
    and source: "env_content files path = Some source"
    and literal: "\<forall>(name, v) \<in> set (dict_of (parse_dotenv source)). name \<notin> set selected \<longrightarrow>
      (case v of None \<Rightarrow> True | Some s \<Rightarrow> literal_value s)"
    and password: "password \<noteq> []" and settled: "settled_environ environ"
  shows "\<exists>environ'. load_secrets S (dotenv_files parse_dotenv files') is_file (Some out) (Some password) environ
      = (environ', Inr ()) \<and>
    (\<forall>(name, v) \<in> set (dict_of (parse_dotenv source)). map_of environ' name =
       (case map_of environ name of Some old \<Rightarrow> Some old | None \<Rightarrow> v))"
proof -
  obtain source' stored body where source': "env_content files path = Some source'"
    and encrypted': "encrypt_env_values S (dict_of (parse_dotenv source')) selected (Some password) = Inr stored"
    and body: "serialize_env stored = Inr body" "env_content files' out = Some body"
    by (rule encrypt_env_writes[OF written password temporary])
  have encrypted: "encrypt_env_values S (dict_of (parse_dotenv source)) selected (Some password) = Inr stored"
    using encrypted' source source' by simp
  note names = distinct_dict_of[of "parse_dotenv source"]
  have "dotenv_text body stored"
    using serialized_is_dotenv[OF body(1)] stored_is_literal[OF ok literal] encrypted_stands(3)[OF names encrypted]
    by simp
  moreover have "distinct (map fst stored)"
    by (rule stored_distinct[OF encrypted_stands(1)[OF names encrypted] names])
  ultimately have "dotenv_files parse_dotenv files' out = stored"
    using reader body(2) by (simp add: reads_dotenv_def dotenv_files_def)
  from stored_values_are_loaded[where dotenv = "dotenv_files parse_dotenv files'" and path = out, OF ok names encrypted password this settled] show ?thesis .
qed

section \<open>Keys of clients\<close>

text \<open>\<open>_create_client\<close> up to the construction of the client of the package: its key.\<close>

definition client_key ::
  "'k sealing \<Rightarrow> (string \<Rightarrow> env_values) \<Rightarrow> (string \<Rightarrow> bool) \<Rightarrow> adapter \<Rightarrow> environ
     \<Rightarrow> environ \<times> (env_error + string)" where
  "client_key S dotenv is_file a environ =
     (case (if ad_api_key a = None \<and> \<not> has_usable_key (map_of environ (ad_api_key_env a))
            then load_secrets S dotenv is_file None None environ else (environ, Inr ())) of
        (environ', Inl e) \<Rightarrow> (environ', Inl e)
      | (environ', Inr _) \<Rightarrow>
          (case (case ad_api_key a of Some k \<Rightarrow> Some k | None \<Rightarrow> map_of environ' (ad_api_key_env a)) of
             Some key \<Rightarrow> if has_usable_key (Some key) then (environ', Inr key)
                       else (environ', Inl (KeyMissing (ad_api_key_env a)))
           | None \<Rightarrow> (environ', Inl (KeyMissing (ad_api_key_env a)))))"

text \<open>A client is never made with a blank or an encrypted key: its key is the explicit one, or
  the one of the environment, which is read from the files only when the environment has no
  usable one.\<close>

theorem client_key_is_usable:
  assumes "client_key S dotenv is_file a environ = (environ', Inr key)"
  shows "py_strip key \<noteq> [] \<and> \<not> prefix ''roboz:'' key \<and>
    (case ad_api_key a of Some k \<Rightarrow> key = k \<and> environ' = environ
     | None \<Rightarrow> map_of environ' (ad_api_key_env a) = Some key \<and>
         (has_usable_key (map_of environ (ad_api_key_env a)) \<longrightarrow> environ' = environ))"
  using assms
  by (auto simp: client_key_def has_usable_key_def is_encrypted_def ENCRYPTED_NAMESPACE_def
      split: prod.splits sum.splits option.splits if_splits)

section \<open>Deferred clients\<close>

text \<open>\<open>_DeferredOpenAIClient\<close> under its lock; \<open>create\<close> may fail and may change the world.\<close>

record 'c deferred =
  df_client :: "'c option"
  df_closed :: bool

datatype ('c, 'e) client_reply = Client 'c | CreateFailed 'e | ClientClosed | Released "'c option"
datatype client_call = GetClient | CloseClient

definition fresh_client :: "'c deferred" where
  "fresh_client = \<lparr>df_client = None, df_closed = False\<rparr>"

definition get_client :: "('w \<Rightarrow> 'w \<times> ('e + 'c)) \<Rightarrow> 'c deferred \<times> 'w \<Rightarrow> ('c deferred \<times> 'w) \<times> ('c, 'e) client_reply" where
  "get_client create s =
     (case s of (d, w) \<Rightarrow>
        if df_closed d then ((d, w), ClientClosed)
        else (case df_client d of
                Some c \<Rightarrow> ((d, w), Client c)
              | None \<Rightarrow>
                  (case create w of
                     (w', Inl e) \<Rightarrow> ((d, w'), CreateFailed e)
                   | (w', Inr c) \<Rightarrow> ((d\<lparr>df_client := Some c\<rparr>, w'), Client c))))"

text \<open>The reply of a close is the client whose own \<open>close\<close> is called.\<close>

definition close_client :: "'c deferred \<times> 'w \<Rightarrow> ('c deferred \<times> 'w) \<times> ('c, 'e) client_reply" where
  "close_client s =
     (case s of (d, w) \<Rightarrow>
        if df_closed d then ((d, w), Released None)
        else ((d\<lparr>df_closed := True\<rparr>, w), Released (df_client d)))"

fun client_calls ::
  "('w \<Rightarrow> 'w \<times> ('e + 'c)) \<Rightarrow> 'c deferred \<times> 'w \<Rightarrow> client_call list
     \<Rightarrow> ('c deferred \<times> 'w) \<times> ('c, 'e) client_reply list" where
  "client_calls create s [] = (s, [])"
| "client_calls create s (call # calls) =
     (case (case call of GetClient \<Rightarrow> get_client create s | CloseClient \<Rightarrow> close_client s) of
        (s', reply) \<Rightarrow> apsnd (Cons reply) (client_calls create s' calls))"

text \<open>One client is handed out and closed at most once, and a close after it was handed out
  closes it.\<close>

definition one_client :: "client_call list \<Rightarrow> ('c, 'e) client_reply list \<Rightarrow> 'c \<Rightarrow> bool" where
  "one_client calls replies c \<longleftrightarrow>
     (\<forall>x. Client x \<in> set replies \<or> Released (Some x) \<in> set replies \<longrightarrow> x = c) \<and>
     length (filter (\<lambda>r. \<exists>x. r = Released (Some x)) replies) \<le> 1 \<and>
     (CloseClient \<in> set calls \<and> Client c \<in> set replies \<longrightarrow> Released (Some c) \<in> set replies)"

lemma calls_of_closed:
  "df_closed d \<Longrightarrow> fst (client_calls create (d, w) calls) = (d, w) \<and>
     set (snd (client_calls create (d, w) calls)) \<subseteq> {ClientClosed, Released None}"
  by (induction calls)
    (auto simp: get_client_def close_client_def split: client_call.splits prod.splits)

lemma filter_no_release:
  "set rs \<subseteq> {ClientClosed, Released None} \<Longrightarrow> filter (\<lambda>r. \<exists>x. r = Released (Some x)) rs = []"
  by (auto simp: filter_empty_conv)

lemma calls_of_open:
  assumes "df_client d = Some c" "\<not> df_closed d"
  shows "one_client calls (snd (client_calls create (d, w) calls)) c \<and>
    (CloseClient \<in> set calls \<longrightarrow> Released (Some c) \<in> set (snd (client_calls create (d, w) calls)))"
proof (induction calls)
  case (Cons call calls)
  show ?case
  proof (cases call)
    case GetClient
    with Cons assms show ?thesis
      by (auto simp: get_client_def one_client_def split: prod.splits)
  next
    case CloseClient
    let ?d = "d\<lparr>df_closed := True\<rparr>"
    have "set (snd (client_calls create (?d, w) calls)) \<subseteq> {ClientClosed, Released None}"
      using calls_of_closed[of ?d create w calls] by simp
    with CloseClient assms filter_no_release[OF this] show ?thesis
      by (auto simp: close_client_def one_client_def split: prod.splits)
  qed
qed (simp add: one_client_def)

lemma client_is_owned_once:
  "\<exists>c. one_client calls (snd (client_calls create (fresh_client, w) calls)) c"
proof (induction calls arbitrary: w)
  case (Cons call calls)
  show ?case
  proof (cases call)
    case CloseClient
    let ?d = "fresh_client\<lparr>df_closed := True\<rparr>"
    have "set (snd (client_calls create (?d, w) calls)) \<subseteq> {ClientClosed, Released None}"
      using calls_of_closed[of ?d create w calls] by simp
    with CloseClient filter_no_release[OF this] show ?thesis
      by (auto simp: close_client_def fresh_client_def one_client_def split: prod.splits)
  next
    case GetClient
    show ?thesis
    proof (cases "create w")
      case (Pair w' r)
      show ?thesis
      proof (cases r)
        case (Inl e)
        with Cons[of w'] Pair GetClient show ?thesis
          by (auto simp: get_client_def fresh_client_def one_client_def split: prod.splits)
      next
        case (Inr c)
        let ?d = "fresh_client\<lparr>df_client := Some c\<rparr>"
        have "one_client calls (snd (client_calls create (?d, w') calls)) c \<and>
          (CloseClient \<in> set calls \<longrightarrow> Released (Some c) \<in> set (snd (client_calls create (?d, w') calls)))"
          by (rule calls_of_open) (simp_all add: fresh_client_def)
        with Inr Pair GetClient show ?thesis
          by (auto simp: get_client_def fresh_client_def one_client_def split: prod.splits intro!: exI[of _ c])
      qed
    qed
  qed
qed (auto simp: one_client_def)

section \<open>The laws at concrete inputs\<close>

text \<open>A sealing whose token carries its key, so that it opens with no other.\<close>

definition sample_sealing :: "octets sealing" where
  "sample_sealing =
     \<lparr>urandom = (\<lambda>n. replicate SALT_BYTES (of_nat n)), derive_key = (\<lambda>salt pw. salt @ pw),
      fernet_encrypt = (\<lambda>k n m. urlsafe_b64encode (k @ m)),
      fernet_decrypt = (\<lambda>k t. Option.bind (urlsafe_b64decode t)
        (\<lambda>bs. if take (length k) bs = k then Some (drop (length k) bs) else None))\<rparr>"

lemma sample_sealing_ok: "sealing_ok sample_sealing"
  by (simp add: sealing_ok_def sample_sealing_def encode_text decode_encode)

definition sample_values :: env_values where
  "sample_values = [(''KEY'', Some ''abc''), (''HOST'', Some []), (''UNSET'', None)]"

lemmas name_eval = validate_name_def env_name_def reserved_name_def marked_def base_name_def suffix_to_prefix
  ENCRYPTED_SUFFIX_def name_start_def is_lower_def is_digit_def lower_char_def upper_char_def Let_def

lemma sample_stored: "\<exists>stored. encrypt_env_values sample_sealing sample_values [''KEY''] (Some ''pw'') = Inr stored"
  by (simp add: encrypt_env_values_def sample_values_def checked_entry_def require_def require_password_def
      is_encrypted_def ENCRYPTED_NAMESPACE_def name_eval)

text \<open>A reader of dotenv text, for the lines \<open>serialize_env\<close> writes.\<close>

fun scan_quoted :: "string \<Rightarrow> string \<times> string" where
  "scan_quoted [] = ([], [])"
| "scan_quoted (c # s) =
     (if c = CHR 0x27 then ([], s)
      else if c = CHR 0x5C \<and> s \<noteq> [] then apfst (Cons (hd s)) (scan_quoted (tl s))
      else apfst (Cons c) (scan_quoted s))"

definition dotenv_char :: "char \<Rightarrow> bool" where
  "dotenv_char c \<longleftrightarrow> name_start c \<or> is_digit c"

fun read_lines :: "nat \<Rightarrow> string \<Rightarrow> env_values" where
  "read_lines 0 text = []"
| "read_lines (Suc n) text =
     (if text = [] then []
      else let name = takeWhile dotenv_char text; rest = dropWhile dotenv_char text in
        if rest \<noteq> [] \<and> hd rest = CHR ''=''
        then (case scan_quoted (drop 2 rest) of (v, t) \<Rightarrow> (name, Some v) # read_lines n (drop 1 t))
        else (name, None) # read_lines n (drop 1 rest))"

definition simple_dotenv :: "string \<Rightarrow> env_values" where
  "simple_dotenv text = read_lines (length text) text"

lemma scan_single_quoted: "single_quoted b s \<Longrightarrow> scan_quoted (b @ CHR 0x27 # t) = (s, t)"
  by (induction rule: single_quoted.induct) auto

lemma read_dotenv_text: "dotenv_text text vals \<Longrightarrow> length text \<le> n \<Longrightarrow> read_lines n text = vals"
proof (induction arbitrary: n rule: dotenv_text.induct)
  case no_line
  then show ?case by (cases n) simp_all
next
  case (bare_line t vals name)
  obtain k where n: "n = Suc k" using bare_line.prems by (cases n) simp_all
  have "list_all dotenv_char name" "\<not> dotenv_char (CHR 0x0A)"
    using bare_line.hyps(2) by (auto simp: env_name_def list_all_iff dotenv_char_def name_start_def is_lower_def
        is_digit_def lower_char_def split: list.splits)
  then have "takeWhile dotenv_char (name @ CHR 0x0A # t) = name" "dropWhile dotenv_char (name @ CHR 0x0A # t) = CHR 0x0A # t"
    by (auto simp: list_all_iff takeWhile_append2 dropWhile_append2)
  with bare_line.IH[of k] bare_line.prems show ?case by (simp add: n)
next
  case (value_line t vals name b s)
  obtain k where n: "n = Suc k" using value_line.prems by (cases n) simp_all
  let ?rest = "CHR ''='' # CHR 0x27 # b @ CHR 0x27 # CHR 0x0A # t"
  have "list_all dotenv_char name" "\<not> dotenv_char (CHR ''='')"
    using value_line.hyps(2) by (auto simp: env_name_def list_all_iff dotenv_char_def name_start_def is_lower_def
        is_digit_def lower_char_def split: list.splits)
  then have "takeWhile dotenv_char (name @ ?rest) = name" "dropWhile dotenv_char (name @ ?rest) = ?rest"
    by (auto simp: list_all_iff takeWhile_append2 dropWhile_append2)
  with value_line.IH[of k] value_line.prems scan_single_quoted[OF value_line.hyps(3), of "CHR 0x0A # t"]
  show ?case by (simp add: n)
qed

lemma simple_dotenv_reads: "reads_dotenv simple_dotenv"
  by (auto simp: reads_dotenv_def simple_dotenv_def read_dotenv_text)

definition sample_source :: string where
  "sample_source = ''KEY='' @ CHR 0x27 # ''abc'' @ CHR 0x27 # CHR 0x0A # ''HOST='' @ CHR 0x27 # CHR 0x27 # CHR 0x0A # ''UNSET'' @ [CHR 0x0A]"

lemma sample_source_values: "dict_of (simple_dotenv sample_source) = sample_values"
  by code_simp

theorem stored_secrets_are_restored_witness:
  "\<exists>files' environ'.
     encrypt_env sample_sealing simple_dotenv None ''.t'' ''.env'' [''KEY''] (Some ''pw'') []
       \<lparr>env_content = [''.env'' \<mapsto> sample_source], env_link = (\<lambda>_. False)\<rparr> = (files', [], Inr ''.env.encrypt'') \<and>
     load_secrets sample_sealing (dotenv_files simple_dotenv files') (\<lambda>_. False) (Some ''.env.encrypt'') (Some ''pw'')
       [(''HOST'', ''mine'')] = (environ', Inr ()) \<and>
     map_of environ' ''KEY'' = Some ''abc'' \<and> map_of environ' ''HOST'' = Some ''mine''"
proof -
  let ?files = "\<lparr>env_content = [''.env'' \<mapsto> sample_source], env_link = (\<lambda>_. False)\<rparr>"
  from sample_stored obtain stored where
    stored: "encrypt_env_values sample_sealing sample_values [''KEY''] (Some ''pw'') = Inr stored" ..
  have "distinct (map fst sample_values)" by (simp add: sample_values_def)
  from stands_serializes[OF sample_sealing_ok encrypted_stands(1)[OF this stored]] obtain body where
    "serialize_env stored = Inr body" ..
  then obtain files' where run: "encrypt_env sample_sealing simple_dotenv None ''.t'' ''.env'' [''KEY''] (Some ''pw'') []
      ?files = (files', [], Inr ''.env.encrypt'')"
    by (simp add: encrypt_env_def take_password_def require_password_def sample_source_values stored
        write_encrypted_def write_temporary_def Let_def)
  have literal: "\<forall>(name, v) \<in> set (dict_of (simple_dotenv sample_source)). name \<notin> set [''KEY''] \<longrightarrow>
      (case v of None \<Rightarrow> True | Some s \<Rightarrow> literal_value s)"
    by (simp add: sample_source_values sample_values_def literal_value_def)
  have settled: "settled_environ [(''HOST'', ''mine'')]" by (simp add: settled_environ_def name_eval)
  have "\<exists>environ'. load_secrets sample_sealing (dotenv_files simple_dotenv files') (\<lambda>_. False) (Some ''.env.encrypt'')
        (Some ''pw'') [(''HOST'', ''mine'')] = (environ', Inr ()) \<and>
      (\<forall>(name, v) \<in> set (dict_of (simple_dotenv sample_source)). map_of environ' name =
         (case map_of [(''HOST'', ''mine'')] name of Some old \<Rightarrow> Some old | None \<Rightarrow> v))"
    by (rule stored_secrets_are_restored[OF sample_sealing_ok simple_dotenv_reads run _ _ _ literal _ settled]) simp_all
  with run show ?thesis by (auto simp: sample_source_values sample_values_def)
qed

theorem load_secrets_keeps_environment_witness:
  "map_of (fst (load_secrets sample_sealing (\<lambda>_. [(''HOST'', Some ''x'')]) (\<lambda>_. False) (Some ''f'') None
     [(''HOST'', [])])) ''HOST'' = Some []"
proof -
  have "\<not> marked ''HOST''" "''HOST'' \<noteq> PASSWORD_ENV" by (simp_all add: name_eval PASSWORD_ENV_def)
  then show ?thesis
    using load_secrets_keeps_environment[OF prod.collapse[symmetric], where environ = "[(''HOST'', [])]"
      and name = "''HOST''"] by simp
qed

definition sample_env_files :: env_files where
  "sample_env_files = \<lparr>env_content = (\<lambda>p. if p = ''.env'' then Some ''KEY=abc'' else None), env_link = (\<lambda>_. False)\<rparr>"

theorem encrypted_file_is_whole_witness:
  "let r = encrypt_env sample_sealing (\<lambda>_. sample_values) (Some SyncFails) ''.t'' ''.env'' [''KEY'']
     (Some ''pw'') [] sample_env_files
   in fst r = sample_env_files \<or> fst r = put_file ''.env.encrypt'' (env_content (fst r) ''.env.encrypt'') sample_env_files"
proof -
  let ?r = "encrypt_env sample_sealing (\<lambda>_. sample_values) (Some SyncFails) ''.t'' ''.env'' [''KEY'']
     (Some ''pw'') [] sample_env_files"
  have "env_content sample_env_files ''.t'' = None" by (simp add: sample_env_files_def)
  then show ?thesis
    using encrypted_file_is_whole[where files' = "fst ?r" and environ' = "fst (snd ?r)" and r = "snd (snd ?r)"
      and files = sample_env_files and temporary = "''.t''" and path = "''.env''" and S = sample_sealing
      and parse_dotenv = "\<lambda>_. sample_values" and fault = "Some SyncFails" and selected = "[''KEY'']"
      and password = "Some ''pw''" and environ = "[]"]
    by (auto simp: Let_def)
qed

definition sample_adapter :: adapter where
  "sample_adapter =
     \<lparr>ad_api_name = ''groq'', ad_base_url = ''https://api.groq.com/openai/v1'', ad_api_key = None,
      ad_api_key_env = ''KEY'', ad_timeout_s = Finite 60\<rparr>"

lemma sample_client_key:
  "snd (client_key sample_sealing (\<lambda>_. [(''KEY'', Some ''abc'')]) (\<lambda>_. False) sample_adapter [(''KEY'', '' '')]) =
     Inl (KeyMissing ''KEY'')"
  "client_key sample_sealing (\<lambda>_. [(''KEY'', Some ''abc'')]) (\<lambda>_. False) sample_adapter [] = ([(''KEY'', ''abc'')], Inr ''abc'')"
  by (simp_all add: client_key_def sample_adapter_def has_usable_key_def py_strip_def py_space_def load_secrets_def
      collected_values_def pending_password_def decrypt_env_values_def decrypt_entry_def install_secrets_def
      dict_of_def dict_union_def is_encrypted_def ENCRYPTED_NAMESPACE_def name_eval DEFAULT_SOURCE_def)

theorem client_key_is_usable_witness:
  "py_strip ''abc'' \<noteq> [] \<and> map_of [(''KEY'', ''abc'')] ''KEY'' = Some ''abc''"
  using client_key_is_usable[OF sample_client_key(2)] by (simp add: sample_adapter_def)

text \<open>
  The documentation of \<open>load_secrets\<close> says that values of the process win. A ciphertext of the
  process is replaced by the one of the manual \<open>.env\<close> file.
\<close>

lemma manual_file_replaces_process_ciphertext:
  "collected_values (\<lambda>p. if p = ''.env'' then [(''KEY_ENCRYPTED'', Some ''file'')] else []) (\<lambda>_. True) None
     [(''KEY_ENCRYPTED'', ''process'')] = Inr [(''KEY_ENCRYPTED'', Some ''file'')]"
  by (simp add: collected_values_def dict_of_def dict_union_def dict_pop_def DEFAULT_SOURCE_def
      DEFAULT_ENCRYPTED_ENV_PATH_def name_eval)

end
