(* ===== verification/Roboz_Health.thy ===== *)
theory Roboz_Health
  imports Roboz_Strings Roboz_Env
begin

text \<open>
  The external dependencies of \<open>dependencies.py\<close> (causes of an error, their classification and
  message, the replacement of secret values, identities) and the monitor of
  \<open>shed/dependency_health.py\<close>, whose coroutines are the transitions of a state machine. The
  objects of a chain of exceptions live in a store; the patterns that are redacted after the
  known values are a parameter.
\<close>

datatype reason_code =
    RNotFound | RMissingCredentials | RAuthenticationFailed | RConnectionFailed | RTlsFailed
  | RTimeout | RProtocolError | RModelUnavailable | RCheckFailed

section \<open>Chains of exceptions\<close>

text \<open>The \<open>body\<close> of a provider error: what \<open>get("error", body)\<close> and \<open>get("message")\<close> see of it.\<close>

datatype error_field = ErrorMapping "string option" | ErrorOther
datatype error_body = NoBody | BodyMapping "error_field option" "string option"

record error_object =
  eo_type :: string
  eo_kinds :: "string list"
  eo_text :: string
  eo_body :: error_body
  eo_status :: "int option"
  eo_response_status :: "int option"
  eo_cause :: "nat option"
  eo_context :: "nat option"
  eo_suppress_context :: bool

type_synonym error_store = "(nat \<times> error_object) list"

definition following_cause :: "error_object \<Rightarrow> nat option" where
  "following_cause e =
     (case eo_cause e of Some c \<Rightarrow> Some c | None \<Rightarrow> if eo_suppress_context e then None else eo_context e)"

function causes_from :: "error_store \<Rightarrow> nat list \<Rightarrow> nat \<Rightarrow> nat list" where
  "causes_from store seen i =
     (if i \<in> set seen then []
      else (case map_of store i of
              None \<Rightarrow> []
            | Some e \<Rightarrow> i # (case following_cause e of None \<Rightarrow> [] | Some j \<Rightarrow> causes_from store (i # seen) j)))"
  by pat_completeness auto
termination
proof (relation "measure (\<lambda>(store, seen, i). card (fst ` set store - set seen))", goal_cases)
  case (2 store seen i e j)
  then have "i \<in> fst ` set store" by (auto dest: map_of_SomeD intro: rev_image_eqI)
  with 2 have "fst ` set store - set (i # seen) \<subset> fst ` set store - set seen" by auto
  then have "card (fst ` set store - set (i # seen)) < card (fst ` set store - set seen)"
    by (intro psubset_card_mono) simp_all
  then show ?case by simp
qed auto

declare causes_from.simps [simp del]

definition causes :: "error_store \<Rightarrow> nat \<Rightarrow> error_object list" where
  "causes store i = map (\<lambda>j. the (map_of store j)) (causes_from store [] i)"

lemma causes_from_distinct: "distinct (causes_from store seen i) \<and> set (causes_from store seen i) \<inter> set seen = {}
    \<and> set (causes_from store seen i) \<subseteq> fst ` set store"
proof (induction store seen i rule: causes_from.induct)
  case (1 store seen i)
  show ?case
  proof (cases "i \<in> set seen \<or> map_of store i = None")
    case True
    then show ?thesis by (subst (1 2 3) causes_from.simps) auto
  next
    case False
    then obtain e where e: "map_of store i = Some e" and fresh: "i \<notin> set seen" by auto
    then have "i \<in> fst ` set store" by (auto dest: map_of_SomeD intro: rev_image_eqI)
    with 1[OF fresh e] e fresh show ?thesis
      by (subst (1 2 3) causes_from.simps) (auto split: option.splits)
  qed
qed

lemma causes_bounded: "length (causes store i) \<le> length store"
proof -
  have "length (causes_from store [] i) = card (set (causes_from store [] i))"
    using causes_from_distinct by (metis distinct_card)
  also have "\<dots> \<le> card (fst ` set store)"
    using causes_from_distinct by (intro card_mono) auto
  also have "\<dots> \<le> length store" using card_length[of "map fst store"] by simp
  finally show ?thesis by (simp add: causes_def)
qed

definition detail_message :: "string option \<Rightarrow> string" where
  "detail_message m = (case m of Some s \<Rightarrow> s | None \<Rightarrow> ''Provider request failed'')"

definition error_text :: "error_object \<Rightarrow> string" where
  "error_text e =
     (case eo_body e of
        NoBody \<Rightarrow> eo_text e
      | BodyMapping None own \<Rightarrow> detail_message own
      | BodyMapping (Some (ErrorMapping inner)) own \<Rightarrow> detail_message inner
      | BodyMapping (Some ErrorOther) own \<Rightarrow> eo_text e)"

definition exception_message :: "error_object \<Rightarrow> string" where
  "exception_message e =
     rev (dropWhile (\<lambda>c. c \<in> set '': '')
       (rev (eo_type e @ (case eo_status e of None \<Rightarrow> [] | Some n \<Rightarrow> '' (HTTP '' @ show_int n @ '')'')
             @ '': '' @ error_text e)))"

definition lowered :: "string \<Rightarrow> string" where
  "lowered s = map lower_char s"

definition status_of :: "error_object \<Rightarrow> int option" where
  "status_of e = (case eo_status e of Some n \<Rightarrow> Some n | None \<Rightarrow> eo_response_status e)"

definition says_missing_credentials :: "string \<Rightarrow> bool" where
  "says_missing_credentials message \<longleftrightarrow>
     prefix ''set '' message \<and> sublist ''api_key'' message \<or> sublist ''not found in environment'' message
     \<or> sublist ''not configured'' message
     \<or> sublist ''missing'' message \<and> (sublist ''key'' message \<or> sublist ''credential'' message)"

definition own_reason :: "error_object \<Rightarrow> reason_code" where
  "own_reason e =
     (let name = lowered (eo_type e); message = lowered (eo_text e) in
      if ''TimeoutError'' \<in> set (eo_kinds e) then RTimeout
      else if ''SSLError'' \<in> set (eo_kinds e) then RTlsFailed
      else if status_of e \<in> {Some 401, Some 403} then RAuthenticationFailed
      else if sublist ''timeout'' name \<or> sublist ''timed out'' message then RTimeout
      else if sublist ''ssl'' name \<or> sublist ''tls'' name \<or> sublist ''certificate'' message then RTlsFailed
      else if says_missing_credentials message then RMissingCredentials
      else if sublist ''authentication'' name \<or> sublist ''auth'' name \<or> sublist ''authentication'' message
           \<or> sublist ''credentials'' message then RAuthenticationFailed
      else if ''ConnectionError'' \<in> set (eo_kinds e) \<or> ''OSError'' \<in> set (eo_kinds e)
           \<or> sublist ''connection'' name then RConnectionFailed
      else if ''TypeError'' \<in> set (eo_kinds e) \<or> ''ValueError'' \<in> set (eo_kinds e)
           \<or> ''AttributeError'' \<in> set (eo_kinds e) then RProtocolError
      else RCheckFailed)"

definition reason_code_for_exception :: "error_store \<Rightarrow> nat \<Rightarrow> reason_code" where
  "reason_code_for_exception store i =
     (case find (\<lambda>r. r \<noteq> RCheckFailed) (map own_reason (rev (causes store i))) of
        Some r \<Rightarrow> r | None \<Rightarrow> RCheckFailed)"

section \<open>Redaction of known values\<close>

definition REDACTED :: string where "REDACTED = ''[redacted]''"

definition unreserved :: "char \<Rightarrow> bool" where
  "unreserved c \<longleftrightarrow> ascii_letter c \<or> is_digit c \<or> c \<in> set ''_.-~''"

definition upper_hex :: "nat \<Rightarrow> char" where "upper_hex n = ''0123456789ABCDEF'' ! n"

text \<open>\<open>quote(value, safe="")\<close>\<close>

definition percent_quote :: "string \<Rightarrow> string" where
  "percent_quote s =
     concat (map (\<lambda>c. if unreserved c then [c]
        else concat (map (\<lambda>b. [CHR 0x25, upper_hex (unat b div 16), upper_hex (unat b mod 16)]) (utf8_char c))) s)"

text \<open>The values of the environment that are secret by their names, and the opened ones.\<close>

definition secret_name :: "string \<Rightarrow> bool" where
  "secret_name name \<longleftrightarrow>
     list_ex (\<lambda>s. suffix s (map upper_char name)) [''_ENCRYPTED'', ''_PASSWORD'', ''_API_KEY'', ''_TOKEN'']"

definition secret_values :: "environ \<Rightarrow> string list \<Rightarrow> string list" where
  "secret_values environ secrets =
     filter (\<lambda>v. v \<noteq> [])
       (secrets @ map snd (filter (\<lambda>e. secret_name (fst e)) environ)
        @ List.map_filter (\<lambda>e. if marked (fst e) then map_of environ (base_name (fst e)) else None) environ)"

definition redact_value :: "string \<Rightarrow> string \<Rightarrow> string" where
  "redact_value message v = py_replace (percent_quote v) REDACTED (py_replace v REDACTED message)"

text \<open>The loop over the values from the longest to the shortest; the set leaves ties open.\<close>

definition redact_values :: "string list \<Rightarrow> string \<Rightarrow> string" where
  "redact_values vals message = foldl redact_value message vals"

definition redaction_order :: "environ \<Rightarrow> string list \<Rightarrow> string list \<Rightarrow> bool" where
  "redaction_order environ secrets vals \<longleftrightarrow>
     set vals = set (secret_values environ secrets) \<and> distinct vals \<and> sorted (rev (map length vals))"

definition redact_dependency_message :: "(string \<Rightarrow> string) \<Rightarrow> string list \<Rightarrow> string \<Rightarrow> string" where
  "redact_dependency_message redact_patterns vals message = redact_patterns (redact_values vals message)"

record dependency_failure =
  fl_reason :: reason_code
  fl_message :: string

definition failure_from_exception ::
  "(string \<Rightarrow> string) \<Rightarrow> string list \<Rightarrow> error_store \<Rightarrow> nat \<Rightarrow> dependency_failure" where
  "failure_from_exception redact_patterns vals store i =
     \<lparr>fl_reason = reason_code_for_exception store i,
      fl_message = redact_dependency_message redact_patterns vals
        (join_with (CHR 0x0A # ''Caused by: '') (map exception_message (causes store i)))\<rparr>"

subsection \<open>No known value is left\<close>

lemma sublist_split: "sublist s (a @ c # b) \<Longrightarrow> c \<notin> set s \<Longrightarrow> sublist s a \<or> sublist s b"
proof -
  assume "sublist s (a @ c # b)" and c: "c \<notin> set s"
  then obtain u v where uv: "a @ c # b = u @ s @ v" by (auto simp: sublist_def)
  then consider w where "u = a @ c # w" | w where "a = u @ s @ w" | "c \<in> set s"
    by (auto simp: append_eq_append_conv2 Cons_eq_append_conv append_eq_Cons_conv)
  then show ?thesis
    using c uv by cases (auto simp: sublist_def)
qed

lemma sublist_join:
  assumes "sublist s (join_with REDACTED ps)" "CHR ''['' \<notin> set s" "CHR '']'' \<notin> set s" "ps \<noteq> []"
  shows "(\<exists>p \<in> set ps. sublist s p) \<or> sublist s ''redacted''"
  using assms(1,4)
proof (induction ps)
  case (Cons p ps)
  show ?case
  proof (cases "ps = []")
    case True
    with Cons show ?thesis by auto
  next
    case False
    have "join_with REDACTED (p # ps) = p @ CHR ''['' # (''redacted'' @ CHR '']'' # join_with REDACTED ps)"
      by (simp add: join_with_Cons[OF False] REDACTED_def)
    with Cons.prems assms(2) have "sublist s p \<or> sublist s (''redacted'' @ CHR '']'' # join_with REDACTED ps)"
      by (metis sublist_split)
    then have "sublist s p \<or> sublist s ''redacted'' \<or> sublist s (join_with REDACTED ps)"
      using sublist_split[OF _ assms(3)] by blast
    with Cons.IH[OF _ False] show ?thesis by auto
  qed
qed simp

lemma join_grow: "ps \<noteq> [] \<Longrightarrow> join_with old (grow c ps) = c # join_with old ps"
  by (cases ps; cases "tl ps") simp_all

lemma sublist_piece: "p \<in> set (pieces old s) \<Longrightarrow> sublist p s"
proof -
  assume "p \<in> set (pieces old s)"
  moreover have "p \<in> set ps \<Longrightarrow> sublist p (join_with old ps)" for ps
  proof (induction ps)
    case (Cons q ps)
    show ?case
    proof (cases "ps = []")
      case False
      have "sublist (join_with old ps) (q @ old @ join_with old ps)"
        unfolding sublist_def by (metis append.assoc append.right_neutral)
      with False Cons show ?thesis
        by (auto simp: join_with_Cons dest: sublist_order.order.trans)
    qed (use Cons in simp)
  qed simp
  ultimately show ?thesis using join_pieces by metis
qed

lemma replace_keeps_free:
  assumes "\<not> sublist s text" "CHR ''['' \<notin> set s" "CHR '']'' \<notin> set s" "\<not> sublist s ''redacted''"
  shows "\<not> sublist s (py_replace old REDACTED text)"
  using sublist_join[OF _ assms(2,3) pieces_not_Nil] sublist_piece assms(1,4)
  unfolding py_replace_def by (meson sublist_order.order.trans)

lemma replace_frees:
  assumes "s \<noteq> []" "CHR ''['' \<notin> set s" "CHR '']'' \<notin> set s" "\<not> sublist s ''redacted''"
  shows "\<not> sublist s (py_replace s REDACTED text)"
  using sublist_join[OF _ assms(2,3) pieces_not_Nil] pieces_free[OF assms(1)] assms(4)
  unfolding py_replace_def by blast

lemma redact_value_frees:
  assumes "CHR ''['' \<notin> set s" "CHR '']'' \<notin> set s" "\<not> sublist s ''redacted''"
  shows "\<not> sublist s m \<Longrightarrow> \<not> sublist s (redact_value m u)" "s \<noteq> [] \<Longrightarrow> \<not> sublist s (redact_value m s)"
  unfolding redact_value_def
  using replace_keeps_free[OF _ assms] replace_frees[OF _ assms] by blast+

text \<open>C30. A known secret does not reach a diagnostic: in whatever order the values are replaced, the
  message holds no value that is without brackets and is not part of the word that replaces it,
  unless the later patterns put it there.\<close>

theorem known_secrets_are_redacted:
  assumes "redaction_order environ secrets vals" "v \<in> set (secret_values environ secrets)"
    and "CHR ''['' \<notin> set v" "CHR '']'' \<notin> set v" "\<not> sublist v ''redacted''"
  shows "\<not> sublist v (redact_values vals message)"
proof -
  have keep: "\<not> sublist v m \<Longrightarrow> \<not> sublist v (foldl redact_value m us)" for m us
    by (induction us arbitrary: m) (simp_all add: redact_value_frees(1)[OF assms(3-5)])
  have "v \<noteq> []" using assms(2) by (auto simp: secret_values_def)
  have "v \<in> set vals \<Longrightarrow> \<not> sublist v (foldl redact_value m vals)" for m
  proof (induction vals arbitrary: m)
    case (Cons u us)
    show ?case
    proof (cases "u = v")
      case True
      then have "\<not> sublist v (redact_value m u)"
        using redact_value_frees(2)[OF assms(3-5) \<open>v \<noteq> []\<close>] by simp
      then show ?thesis by (simp add: keep)
    next
      case False
      with Cons show ?thesis by simp
    qed
  qed simp
  then show ?thesis
    using assms(1,2) by (simp add: redact_values_def redaction_order_def)
qed

section \<open>Dependencies\<close>

datatype dependency_kind = Executable | NetworkService | ModelEndpointKind | LocalService

definition waits_on_network :: "dependency_kind \<Rightarrow> bool" where
  "waits_on_network k = (case k of Executable \<Rightarrow> False | NetworkService \<Rightarrow> True | ModelEndpointKind \<Rightarrow> True | LocalService \<Rightarrow> False)"

definition metadata_keys :: "dependency_kind \<Rightarrow> string list" where
  "metadata_keys k =
     (case k of
        Executable \<Rightarrow> [''executable'', ''display_name'']
      | NetworkService \<Rightarrow> [''provider'', ''service'', ''host'', ''port'', ''tls_mode'', ''display_name'']
      | ModelEndpointKind \<Rightarrow> [''api_name'', ''model_name'', ''endpoint_type'']
      | LocalService \<Rightarrow> [''socket_path'', ''display_name''])"

text \<open>A resource: its metadata may raise (\<open>None\<close>) and hold values that are no scalars (\<open>None\<close>).\<close>

record resource =
  rs_id :: string
  rs_kind :: dependency_kind
  rs_metadata :: "(string \<times> string option) list option"

fun dedupe_from :: "string list \<Rightarrow> resource list \<Rightarrow> resource list" where
  "dedupe_from seen [] = []"
| "dedupe_from seen (r # rs) =
     (if rs_id r \<in> set seen then dedupe_from seen rs else r # dedupe_from (rs_id r # seen) rs)"

definition dedupe_external_dependencies :: "resource list \<Rightarrow> resource list" where
  "dedupe_external_dependencies rs = dedupe_from [] rs"

definition sanitize_metadata :: "resource \<Rightarrow> (string \<times> string) list" where
  "sanitize_metadata r =
     (case rs_metadata r of
        None \<Rightarrow> []
      | Some kvs \<Rightarrow>
          List.map_filter (\<lambda>(k, v). if k \<in> set (metadata_keys (rs_kind r)) then map_option (Pair k) v else None) kvs)"

text \<open>\<open>ExecutableDependency\<close> with \<open>shutil.which\<close> as a function of the name.\<close>

definition executable_resource :: "string \<Rightarrow> string option \<Rightarrow> resource option" where
  "executable_resource executable display_name =
     (if py_strip executable = [] then None
      else Some \<lparr>rs_id = ''executable:'' @ executable, rs_kind = Executable,
        rs_metadata = Some [(''executable'', Some executable),
          (''display_name'', Some (case display_name of Some d \<Rightarrow> if d = [] then executable else d | None \<Rightarrow> executable))]\<rparr>)"

definition executable_check ::
  "(string \<Rightarrow> string) \<Rightarrow> string list \<Rightarrow> error_store \<Rightarrow> (string \<Rightarrow> nat + string option) \<Rightarrow> string \<Rightarrow> dependency_failure option" where
  "executable_check redact_patterns vals store which executable =
     (case which executable of
        Inr (Some _) \<Rightarrow> None
      | Inr None \<Rightarrow> Some \<lparr>fl_reason = RNotFound, fl_message = ''Executable was not found on PATH: '' @ executable\<rparr>
      | Inl i \<Rightarrow> Some (failure_from_exception redact_patterns vals store i))"

text \<open>\<open>check_dependency\<close>: what a check returned or raised.\<close>

datatype check_outcome = CheckReturned "dependency_failure option" | CheckRaised nat

definition check_dependency ::
  "(string \<Rightarrow> string) \<Rightarrow> string list \<Rightarrow> error_store \<Rightarrow> check_outcome \<Rightarrow> dependency_failure option" where
  "check_dependency redact_patterns vals store outcome =
     (case outcome of CheckReturned r \<Rightarrow> r
      | CheckRaised i \<Rightarrow> Some (failure_from_exception redact_patterns vals store i))"

lemma dedupe_from_ids:
  "distinct (map rs_id (dedupe_from seen rs)) \<and> set (map rs_id (dedupe_from seen rs)) = rs_id ` set rs - set seen"
  by (induction rs arbitrary: seen) (auto simp: image_iff)

lemma dedupe_from_first:
  "r \<in> set (dedupe_from seen rs) \<Longrightarrow> \<exists>pre post. rs = pre @ r # post \<and> rs_id r \<notin> rs_id ` set pre"
proof (induction rs arbitrary: seen)
  case (Cons q rs)
  show ?case
  proof (cases "r = q \<and> rs_id q \<notin> set seen")
    case True
    then show ?thesis by (intro exI[of _ "[]"] exI[of _ rs]) simp
  next
    case False
    then have r: "r \<in> set (dedupe_from (if rs_id q \<in> set seen then seen else rs_id q # seen) rs)"
      using Cons.prems by (auto split: if_splits)
    from Cons.IH[OF r] obtain pre post where "rs = pre @ r # post" "rs_id r \<notin> rs_id ` set pre" by blast
    moreover have "rs_id r \<noteq> rs_id q"
    proof -
      have "rs_id r \<notin> set (if rs_id q \<in> set seen then seen else rs_id q # seen)"
        using r dedupe_from_ids[of "if rs_id q \<in> set seen then seen else rs_id q # seen" rs]
        by (metis DiffD2 image_eqI list.set_map)
      then show ?thesis by (auto split: if_splits)
    qed
    ultimately show ?thesis by (intro exI[of _ "q # pre"] exI[of _ post]) auto
  qed
qed simp



section \<open>The health monitor\<close>

datatype health_status = Pending | Available | Unavailable

record health_record =
  hr_kind :: dependency_kind
  hr_metadata :: "(string \<times> string) list"
  hr_status :: health_status
  hr_checked_at :: "int option"
  hr_latency_ms :: "int option"
  hr_reason :: "reason_code option"
  hr_message :: "string option"

text \<open>
  A task is the coroutine \<open>_run_check\<close>: queued until it has its lane, running while it waits for
  the worker of \<open>asyncio.to_thread\<close>, and over with what the check gave, or cancelled. The worker is
  a thread, which no cancellation ends: \<open>tk_worker\<close> says that the task's check was handed to one
  that has not returned. The task is watched while its \<open>_observe\<close> waits for it, and has the callback
  that clears it when the observer has given up before it ended.
\<close>

datatype task_phase = Queued | Running | Finished "dependency_failure option" | Cancelled

record check_task =
  tk_id :: string
  tk_phase :: task_phase
  tk_worker :: bool
  tk_watched :: bool
  tk_callback :: bool

record monitor =
  hm_kinds :: "(string \<times> dependency_kind) list"
  hm_records :: "(string \<times> health_record) list"
  hm_slots :: nat
  hm_tasks :: "check_task list"
  hm_inflight :: "(string \<times> nat) list"

definition new_monitor :: "nat \<Rightarrow> resource list \<Rightarrow> monitor" where
  "new_monitor max_concurrency rs =
     (let resources = dedupe_external_dependencies rs in
      \<lparr>hm_kinds = map (\<lambda>r. (rs_id r, rs_kind r)) resources,
       hm_records = map (\<lambda>r. (rs_id r,
         \<lparr>hr_kind = rs_kind r, hr_metadata = sanitize_metadata r, hr_status = Pending, hr_checked_at = None,
          hr_latency_ms = None, hr_reason = None, hr_message = None\<rparr>)) resources,
       hm_slots = max_concurrency, hm_tasks = [], hm_inflight = []\<rparr>)"

definition over :: "task_phase \<Rightarrow> bool" where
  "over p = (case p of Queued \<Rightarrow> False | Running \<Rightarrow> False | Finished _ \<Rightarrow> True | Cancelled \<Rightarrow> True)"

definition networked :: "monitor \<Rightarrow> string \<Rightarrow> bool" where
  "networked m i = (case map_of (hm_kinds m) i of Some k \<Rightarrow> waits_on_network k | None \<Rightarrow> False)"

definition set_task :: "nat \<Rightarrow> check_task \<Rightarrow> monitor \<Rightarrow> monitor" where
  "set_task n t m = m\<lparr>hm_tasks := (hm_tasks m)[n := t]\<rparr>"

text \<open>\<open>if self._inflight.get(dependency_id) is task: pop\<close>\<close>

definition forget_task :: "nat \<Rightarrow> string \<Rightarrow> monitor \<Rightarrow> monitor" where
  "forget_task n i m =
     (if map_of (hm_inflight m) i = Some n then m\<lparr>hm_inflight := dict_pop i (hm_inflight m)\<rparr> else m)"

definition record_result :: "string \<Rightarrow> dependency_failure option \<Rightarrow> int \<Rightarrow> int \<Rightarrow> monitor \<Rightarrow> monitor" where
  "record_result i result clock latency m =
     m\<lparr>hm_records := map (\<lambda>(j, r). (j, if j = i then
         r\<lparr>hr_status := (if result = None then Available else Unavailable),
           hr_checked_at := Some clock, hr_latency_ms := Some (max 0 latency),
           hr_reason := map_option fl_reason result, hr_message := map_option fl_message result\<rparr> else r)) (hm_records m)\<rparr>"

text \<open>\<open>_observe\<close> up to its wait: nothing while a check of the dependency is under way.\<close>

definition observe_dependency :: "string \<Rightarrow> monitor \<Rightarrow> monitor option" where
  "observe_dependency i m =
     (if i \<notin> fst ` set (hm_kinds m) then None
      else (case map_of (hm_inflight m) i of
              Some n \<Rightarrow>
                if \<not> over (tk_phase (hm_tasks m ! n)) then Some m
                else Some (m\<lparr>hm_tasks := hm_tasks m @ [\<lparr>tk_id = i, tk_phase = Queued, tk_worker = False, tk_watched = True, tk_callback = False\<rparr>],
                             hm_inflight := dict_set i (length (hm_tasks m)) (hm_inflight m)\<rparr>)
            | None \<Rightarrow>
                Some (m\<lparr>hm_tasks := hm_tasks m @ [\<lparr>tk_id = i, tk_phase = Queued, tk_worker = False, tk_watched = True, tk_callback = False\<rparr>],
                        hm_inflight := dict_set i (length (hm_tasks m)) (hm_inflight m)\<rparr>)))"

text \<open>A queued task enters its lane; a worker ends.\<close>

definition run_task :: "nat \<Rightarrow> monitor \<Rightarrow> monitor option" where
  "run_task n m =
     (if length (hm_tasks m) \<le> n then None
      else let t = hm_tasks m ! n in
        if tk_phase t \<noteq> Queued then None
        else if \<not> networked m (tk_id t) then Some (set_task n (t\<lparr>tk_phase := Running, tk_worker := True\<rparr>) m)
        else if hm_slots m = 0 then None
        else Some (set_task n (t\<lparr>tk_phase := Running, tk_worker := True\<rparr>) (m\<lparr>hm_slots := hm_slots m - 1\<rparr>)))"

definition release_slot :: "string \<Rightarrow> monitor \<Rightarrow> monitor" where
  "release_slot i m = (if networked m i then m\<lparr>hm_slots := Suc (hm_slots m)\<rparr> else m)"

definition finish_task :: "nat \<Rightarrow> dependency_failure option \<Rightarrow> monitor \<Rightarrow> monitor option" where
  "finish_task n result m =
     (if length (hm_tasks m) \<le> n then None
      else let t = hm_tasks m ! n in
        if tk_phase t \<noteq> Running then None
        else Some (set_task n (t\<lparr>tk_phase := Finished result, tk_worker := False\<rparr>) (release_slot (tk_id t) m)))"

text \<open>The observer gets the result of its task, or gives up on one that runs too long.\<close>

definition deliver_result :: "nat \<Rightarrow> int \<Rightarrow> int \<Rightarrow> monitor \<Rightarrow> monitor option" where
  "deliver_result n clock latency m =
     (if length (hm_tasks m) \<le> n then None
      else let t = hm_tasks m ! n in
        if \<not> tk_watched t then None
        else (case tk_phase t of
                Finished result \<Rightarrow>
                  Some (record_result (tk_id t) result clock latency
                    (forget_task n (tk_id t) (set_task n (t\<lparr>tk_watched := False\<rparr>) m)))
              | _ \<Rightarrow> None))"

definition observer_timeout :: "string \<Rightarrow> nat \<Rightarrow> int \<Rightarrow> int \<Rightarrow> monitor \<Rightarrow> monitor option" where
  "observer_timeout limit_text n clock latency m =
     (if length (hm_tasks m) \<le> n then None
      else let t = hm_tasks m ! n in
        if \<not> tk_watched t \<or> tk_phase t \<noteq> Running then None
        else Some (record_result (tk_id t)
               (Some \<lparr>fl_reason = RTimeout, fl_message = ''Dependency check timed out after '' @ limit_text @ '' seconds''\<rparr>)
               clock latency (set_task n (t\<lparr>tk_watched := False, tk_callback := True\<rparr>) m)))"

definition clear_inflight :: "nat \<Rightarrow> monitor \<Rightarrow> monitor option" where
  "clear_inflight n m =
     (if length (hm_tasks m) \<le> n then None
      else let t = hm_tasks m ! n in
        if tk_callback t \<and> over (tk_phase t)
        then Some (forget_task n (tk_id t) (set_task n (t\<lparr>tk_callback := False\<rparr>) m)) else None)"

text \<open>
  \<open>stop\<close> cancels the tasks in flight and the observers. A cancelled task leaves its lane and gives
  its slot back at once, whatever its worker does: a check that the pool has begun goes on in its
  thread, and only one that still waits for a thread (\<open>begun\<close> is false of it) is dropped.
\<close>

fun cancel_tasks :: "(nat \<Rightarrow> bool) \<Rightarrow> nat list \<Rightarrow> monitor \<Rightarrow> monitor" where
  "cancel_tasks begun [] m = m"
| "cancel_tasks begun (n # ns) m =
     (let t = hm_tasks m ! n in
      cancel_tasks begun ns
        (if over (tk_phase t) then m
         else set_task n (t\<lparr>tk_phase := Cancelled, tk_worker := tk_worker t \<and> begun n\<rparr>)
           (if tk_phase t = Running then release_slot (tk_id t) m else m)))"

definition stop_monitor :: "(nat \<Rightarrow> bool) \<Rightarrow> monitor \<Rightarrow> monitor" where
  "stop_monitor begun m =
     (let m' = cancel_tasks begun (map snd (hm_inflight m)) m in
      m'\<lparr>hm_inflight := [], hm_tasks := map (\<lambda>t. t\<lparr>tk_watched := False\<rparr>) (hm_tasks m')\<rparr>)"

text \<open>The worker of a cancelled task returns at last; nothing waits for it.\<close>

definition worker_ends :: "nat \<Rightarrow> monitor \<Rightarrow> monitor option" where
  "worker_ends n m =
     (if length (hm_tasks m) \<le> n then None
      else let t = hm_tasks m ! n in
        if tk_phase t = Cancelled \<and> tk_worker t then Some (set_task n (t\<lparr>tk_worker := False\<rparr>) m) else None)"

inductive health_step :: "monitor \<Rightarrow> monitor \<Rightarrow> bool" where
  observe_step: "observe_dependency i m = Some m' \<Longrightarrow> health_step m m'"
| run_step: "run_task n m = Some m' \<Longrightarrow> health_step m m'"
| finish_step: "finish_task n result m = Some m' \<Longrightarrow> health_step m m'"
| deliver_step: "deliver_result n clock latency m = Some m' \<Longrightarrow> health_step m m'"
| timeout_step: "observer_timeout limit_text n clock latency m = Some m' \<Longrightarrow> health_step m m'"
| clear_step: "clear_inflight n m = Some m' \<Longrightarrow> health_step m m'"
| worker_step: "worker_ends n m = Some m' \<Longrightarrow> health_step m m'"

text \<open>A monitor's life: it may be stopped, and started again, at any time; the stops are counted.\<close>

inductive health_run :: "nat \<Rightarrow> resource list \<Rightarrow> nat \<Rightarrow> monitor \<Rightarrow> bool"
  for max_concurrency :: nat and rs :: "resource list" where
  fresh: "health_run max_concurrency rs 0 (new_monitor max_concurrency rs)"
| move: "health_run max_concurrency rs stops m \<Longrightarrow> health_step m m' \<Longrightarrow> health_run max_concurrency rs stops m'"
| halt: "health_run max_concurrency rs stops m \<Longrightarrow>
    health_run max_concurrency rs (Suc stops) (stop_monitor begun m)"

subsection \<open>Its invariant\<close>

text \<open>Lanes are conserved; a check under way is the one in flight of its dependency; and a record
  says what was observed last.\<close>

definition running_checks :: "monitor \<Rightarrow> nat" where
  "running_checks m = length (filter (\<lambda>t. tk_phase t = Running \<and> networked m (tk_id t)) (hm_tasks m))"

definition running_workers :: "monitor \<Rightarrow> nat" where
  "running_workers m = length (filter (\<lambda>t. tk_worker t \<and> networked m (tk_id t)) (hm_tasks m))"

definition left_over :: "monitor \<Rightarrow> nat" where
  "left_over m = length (filter (\<lambda>t. tk_worker t \<and> tk_phase t = Cancelled \<and> networked m (tk_id t)) (hm_tasks m))"

definition cancelled_checks :: "monitor \<Rightarrow> nat" where
  "cancelled_checks m = length (filter (\<lambda>t. tk_phase t = Cancelled) (hm_tasks m))"

definition worker_ok :: "check_task \<Rightarrow> bool" where
  "worker_ok t \<longleftrightarrow> (tk_phase t = Running \<longrightarrow> tk_worker t) \<and> (tk_worker t \<longrightarrow> tk_phase t = Running \<or> tk_phase t = Cancelled)"

definition flight_ok :: "monitor \<Rightarrow> bool" where
  "flight_ok m \<longleftrightarrow>
     (\<forall>n < length (hm_tasks m). \<not> over (tk_phase (hm_tasks m ! n)) \<longrightarrow>
        map_of (hm_inflight m) (tk_id (hm_tasks m ! n)) = Some n) \<and>
     distinct (map fst (hm_inflight m)) \<and>
     (\<forall>(i, n) \<in> set (hm_inflight m). n < length (hm_tasks m) \<and> tk_id (hm_tasks m ! n) = i)"

definition record_ok :: "health_record \<Rightarrow> bool" where
  "record_ok r \<longleftrightarrow>
     (hr_status r = Pending \<longleftrightarrow> hr_checked_at r = None) \<and> (hr_status r = Pending \<longleftrightarrow> hr_latency_ms r = None) \<and>
     (hr_status r = Unavailable \<longleftrightarrow> hr_reason r \<noteq> None) \<and> (hr_status r = Unavailable \<longleftrightarrow> hr_message r \<noteq> None) \<and>
     fst ` set (hr_metadata r) \<subseteq> set (metadata_keys (hr_kind r)) \<and> (\<forall>l. hr_latency_ms r = Some l \<longrightarrow> 0 \<le> l)"

definition records_ok :: "monitor \<Rightarrow> bool" where
  "records_ok m \<longleftrightarrow> map fst (hm_records m) = map fst (hm_kinds m) \<and> distinct (map fst (hm_kinds m)) \<and>
     (\<forall>(i, r) \<in> set (hm_records m). record_ok r)"



lemma networked_frame [simp]:
  "networked (set_task n t m) = networked m" "networked (release_slot i m) = networked m"
  "networked (forget_task n i m) = networked m" "networked (record_result i result c l m) = networked m"
  "networked (m\<lparr>hm_slots := k\<rparr>) = networked m" "networked (m\<lparr>hm_inflight := fl\<rparr>) = networked m"
  "networked (m\<lparr>hm_tasks := ts\<rparr>) = networked m"
  "networked (m\<lparr>hm_tasks := ts, hm_inflight := fl\<rparr>) = networked m"
  "networked (m\<lparr>hm_inflight := fl, hm_tasks := ts\<rparr>) = networked m"
  by (auto simp: networked_def set_task_def release_slot_def forget_task_def record_result_def fun_eq_iff)

lemma tasks_frame [simp]:
  "hm_tasks (set_task n t m) = (hm_tasks m)[n := t]" "hm_tasks (release_slot i m) = hm_tasks m"
  "hm_tasks (forget_task n i m) = hm_tasks m" "hm_tasks (record_result i result c l m) = hm_tasks m"
  by (auto simp: set_task_def release_slot_def forget_task_def record_result_def)

lemma slots_frame [simp]:
  "hm_slots (set_task n t m) = hm_slots m"
  "hm_slots (release_slot i m) = (if networked m i then Suc (hm_slots m) else hm_slots m)"
  "hm_slots (forget_task n i m) = hm_slots m" "hm_slots (record_result i result c l m) = hm_slots m"
  by (auto simp: set_task_def release_slot_def forget_task_def record_result_def)

lemma inflight_frame [simp]:
  "hm_inflight (set_task n t m) = hm_inflight m" "hm_inflight (release_slot i m) = hm_inflight m"
  "hm_inflight (record_result i result c l m) = hm_inflight m"
  by (auto simp: set_task_def release_slot_def record_result_def)

lemma records_frame [simp]:
  "records_ok (set_task n t m) = records_ok m" "records_ok (release_slot i m) = records_ok m"
  "records_ok (forget_task n i m) = records_ok m" "records_ok (m\<lparr>hm_slots := k\<rparr>) = records_ok m"
  "records_ok (m\<lparr>hm_tasks := ts, hm_inflight := fl\<rparr>) = records_ok m"
  "records_ok (m\<lparr>hm_inflight := fl, hm_tasks := ts\<rparr>) = records_ok m"
  by (auto simp: records_ok_def set_task_def release_slot_def forget_task_def)


lemma running_frame [simp]:
  "running_checks (release_slot i m) = running_checks m" "running_checks (forget_task n i m) = running_checks m"
  "running_checks (record_result i result c l m) = running_checks m"
  "running_checks (m\<lparr>hm_slots := k\<rparr>) = running_checks m"
  by (simp_all add: running_checks_def)


lemma flight_frame [simp]:
  "flight_ok (release_slot i m) = flight_ok m" "flight_ok (record_result i result c l m) = flight_ok m"
  "flight_ok (m\<lparr>hm_slots := k\<rparr>) = flight_ok m"
  by (simp_all add: flight_ok_def)




lemma worker_frame [simp]:
  "worker_ok (t\<lparr>tk_watched := w\<rparr>) = worker_ok t" "worker_ok (t\<lparr>tk_callback := c\<rparr>) = worker_ok t"
  "worker_ok (t\<lparr>tk_watched := w, tk_callback := c\<rparr>) = worker_ok t"
  "worker_ok (t\<lparr>tk_phase := Running, tk_worker := True\<rparr>)"
  "worker_ok (t\<lparr>tk_phase := Finished result, tk_worker := False\<rparr>)"
  "worker_ok (t\<lparr>tk_phase := Cancelled, tk_worker := b\<rparr>)"
  "worker_ok \<lparr>tk_id = i, tk_phase = Queued, tk_worker = False, tk_watched = w, tk_callback = c\<rparr>"
  by (simp_all add: worker_ok_def)



















subsection \<open>What a stop leaves behind\<close>

text \<open>Only a stop leaves a worker behind, and at most one for each lane that was taken.\<close>

definition leaves_no_more :: "monitor \<Rightarrow> monitor \<Rightarrow> bool" where
  "leaves_no_more m m' \<longleftrightarrow> left_over m' \<le> left_over m \<and> cancelled_checks m' \<le> cancelled_checks m"


lemma left_frame [simp]:
  "left_over (release_slot i m) = left_over m" "left_over (forget_task n i m) = left_over m"
  "left_over (record_result i result c l m) = left_over m" "left_over (m\<lparr>hm_slots := k\<rparr>) = left_over m"
  "cancelled_checks (release_slot i m) = cancelled_checks m" "cancelled_checks (forget_task n i m) = cancelled_checks m"
  "cancelled_checks (record_result i result c l m) = cancelled_checks m"
  "cancelled_checks (m\<lparr>hm_slots := k\<rparr>) = cancelled_checks m"
  by (simp_all add: left_over_def cancelled_checks_def)

lemma leaves_frame [simp]:
  "leaves_no_more m (forget_task n i m') = leaves_no_more m m'"
  "leaves_no_more m (record_result i result c l m') = leaves_no_more m m'"
  "leaves_no_more (release_slot i m) m' = leaves_no_more m m'"
  "leaves_no_more (m\<lparr>hm_slots := k\<rparr>) m' = leaves_no_more m m'"
  by (simp_all add: leaves_no_more_def)







section \<open>The laws at concrete inputs\<close>

theorem known_secrets_are_redacted_witness:
  "\<not> sublist ''k3y'' (redact_values [''hunter2'', ''k3y''] ''k3y of hunter2'')"
proof -
  have order: "redaction_order [(''DB_PASSWORD'', ''hunter2'')] [''k3y''] [''hunter2'', ''k3y'']"
    and v: "''k3y'' \<in> set (secret_values [(''DB_PASSWORD'', ''hunter2'')] [''k3y''])"
    by (auto simp: redaction_order_def secret_values_def secret_name_def name_eval List.map_filter_def)
  show ?thesis
    by (rule known_secrets_are_redacted[OF order v]) (simp_all add: sublist_Cons_right)
qed

definition sample_resource :: resource where
  "sample_resource = \<lparr>rs_id = ''model:groq:whisper'', rs_kind = ModelEndpointKind,
     rs_metadata = Some [(''api_name'', Some ''groq''), (''secret'', Some ''k3y'')]\<rparr>"

lemma sample_life:
  "\<exists>m. health_run 1 [sample_resource] 1 m \<and> running_checks m = 1 \<and> running_workers m = 2 \<and>
    (\<forall>t \<in> set (hm_tasks m). tk_id t = ''model:groq:whisper'')"
proof -
  let ?i = "''model:groq:whisper''"
  let ?m0 = "new_monitor 1 [sample_resource]"
  define kinds where "kinds = [(?i, ModelEndpointKind)]"
  define recs where "recs = hm_records ?m0"
  let ?mon = "\<lambda>slots tasks flight. \<lparr>hm_kinds = kinds, hm_records = recs, hm_slots = slots, hm_tasks = tasks, hm_inflight = flight\<rparr>"
  let ?t = "\<lambda>phase worker watched. \<lparr>tk_id = ?i, tk_phase = phase, tk_worker = worker, tk_watched = watched, tk_callback = False\<rparr>"
  have m0: "?m0 = ?mon 1 [] []"
    by (simp add: recs_def kinds_def new_monitor_def dedupe_external_dependencies_def sample_resource_def Let_def)
  have "health_run 1 [sample_resource] 0 (?mon 1 [] [])"
    using health_run.fresh[of 1 "[sample_resource]"] m0 by simp
  then have "health_run 1 [sample_resource] 0 (?mon 1 [?t Queued False True] [(?i, 0)])"
    by (rule health_run.move) (rule observe_step[of ?i], simp add: observe_dependency_def kinds_def)
  then have "health_run 1 [sample_resource] 0 (?mon 0 [?t Running True True] [(?i, 0)])"
    by (rule health_run.move) (rule run_step[of 0],
      simp add: run_task_def networked_def waits_on_network_def kinds_def set_task_def)
  from health_run.halt[OF this, of "\<lambda>_. True"]
  have "health_run 1 [sample_resource] 1 (?mon 1 [?t Cancelled True False] [])"
    by (simp add: stop_monitor_def over_def set_task_def release_slot_def networked_def waits_on_network_def kinds_def)
  then have "health_run 1 [sample_resource] 1 (?mon 1 [?t Cancelled True False, ?t Queued False True] [(?i, 1)])"
    by (rule health_run.move) (rule observe_step[of ?i], simp add: observe_dependency_def kinds_def)
  then have "health_run 1 [sample_resource] 1 (?mon 0 [?t Cancelled True False, ?t Running True True] [(?i, 1)])"
    by (rule health_run.move) (rule run_step[of 1],
      simp add: run_task_def networked_def waits_on_network_def kinds_def set_task_def)
  then show ?thesis
    by (intro exI[of _ "?mon 0 [?t Cancelled True False, ?t Running True True] [(?i, 1)]"])
      (simp add: running_checks_def running_workers_def networked_def waits_on_network_def kinds_def)
qed

text \<open>
  With one lane, a stop and the next observation are enough for two threads to check the same
  dependency, although \<open>run_once\<close> promises that checks do not overlap and that active checkers
  retain their slots, "including workers that cannot be cancelled".
\<close>

lemma stopped_checks_keep_running:
  "\<exists>m i. health_run 1 [sample_resource] 1 m \<and> running_workers m = 2 \<and> (\<forall>t \<in> set (hm_tasks m). tk_id t = i)"
  using sample_life by blast


end
