(* ===== verification/Roboz_Sandbox.thy ===== *)
theory Roboz_Sandbox
  imports Roboz_Guard Roboz_Paths
begin

text \<open>
  The sandbox of \<open>shed/sandbox.py\<close>: its areas and projects over the modelled file tree, its
  persistence folders, and the permission policy that it hands to the modelled guard of
  \<open>shed/tools/guard.py\<close>. The root is the list of the components of its absolute path.
\<close>

datatype sandbox_error =
    OutsideRoot | AreasOverlap | ScopeNotSingle | ProjectIsLink | PersistenceOverlap | ScopeMissing

record sandbox =
  sb_root :: "string list"
  sb_readonly :: string
  sb_shared :: string
  sb_projects :: string
  sb_logs :: string
  sb_snapshots :: string
  sb_memory :: string
  sb_scope :: "string option"

definition within_folder :: "node \<Rightarrow> path \<Rightarrow> string \<Rightarrow> sandbox_error + path" where
  "within_folder fs base name =
     (let p = resolve fs (path_div base name) in
      if name = [] \<or> prefix [slash] name \<or> p = base \<or> \<not> is_relative_to p base then Inl OutsideRoot else Inr p)"

definition resolved_root :: "node \<Rightarrow> sandbox \<Rightarrow> path" where
  "resolved_root fs sb = resolve fs (sb_root sb)"

definition readonly_dir :: "node \<Rightarrow> sandbox \<Rightarrow> sandbox_error + path" where
  "readonly_dir fs sb = within_folder fs (resolved_root fs sb) (sb_readonly sb)"

definition shared_dir :: "node \<Rightarrow> sandbox \<Rightarrow> sandbox_error + path" where
  "shared_dir fs sb = within_folder fs (resolved_root fs sb) (sb_shared sb)"

definition projects_dir :: "node \<Rightarrow> sandbox \<Rightarrow> sandbox_error + path" where
  "projects_dir fs sb = within_folder fs (resolved_root fs sb) (sb_projects sb)"

text \<open>\<open>len(Path(folder).parts)\<close>: the root counts as a part.\<close>

definition part_count :: "string \<Rightarrow> nat" where
  "part_count folder = (if prefix [slash] folder then 1 else 0) + length (pure_parts folder)"

definition resolve_project :: "node \<Rightarrow> sandbox \<Rightarrow> string \<Rightarrow> sandbox_error + path" where
  "resolve_project fs sb folder =
     rbind (require (part_count folder = 1) ScopeNotSingle) (\<lambda>_.
     rbind (projects_dir fs sb) (\<lambda>projects.
     rbind (require (\<not> is_symlink fs (path_div projects folder)) ProjectIsLink) (\<lambda>_.
     within_folder fs projects folder)))"

text \<open>\<open>any(a.is_relative_to(b) or b.is_relative_to(a) ...)\<close> over the pairs of a list.\<close>

fun some_overlap :: "path list \<Rightarrow> bool" where
  "some_overlap [] = False"
| "some_overlap (a # ps) =
     (list_ex (\<lambda>b. is_relative_to a b \<or> is_relative_to b a) ps \<or> some_overlap ps)"

definition persistence_path :: "node \<Rightarrow> path \<Rightarrow> string \<Rightarrow> sandbox_error + path" where
  "persistence_path fs project folder =
     (if prefix [slash] folder then Inr (resolve fs (pure_parts folder)) else within_folder fs project folder)"

definition persistence_paths :: "node \<Rightarrow> sandbox \<Rightarrow> path \<Rightarrow> sandbox_error + path list" where
  "persistence_paths fs sb project =
     rbind (traverse (persistence_path fs project) [sb_logs sb, sb_snapshots sb, sb_memory sb]) (\<lambda>paths.
       if some_overlap paths then Inl PersistenceOverlap else Inr paths)"

definition sandbox_areas :: "node \<Rightarrow> sandbox \<Rightarrow> sandbox_error + path list" where
  "sandbox_areas fs sb =
     rbind (readonly_dir fs sb) (\<lambda>r. rbind (shared_dir fs sb) (\<lambda>s. rbind (projects_dir fs sb) (\<lambda>p.
       Inr [r, s, p])))"

definition select_scope :: "node \<Rightarrow> sandbox \<Rightarrow> string \<Rightarrow> sandbox_error + unit" where
  "select_scope fs sb folder =
     rbind (resolve_project fs sb folder) (\<lambda>project.
     rbind (persistence_paths fs sb project) (\<lambda>_. Inr ()))"

definition sandbox_post_init :: "node \<Rightarrow> sandbox \<Rightarrow> sandbox_error + unit" where
  "sandbox_post_init fs sb =
     rbind (sandbox_areas fs sb) (\<lambda>areas.
     if some_overlap areas then Inl AreasOverlap
     else (case sb_scope sb of None \<Rightarrow> Inr () | Some folder \<Rightarrow> select_scope fs sb folder))"

definition configure_scope :: "node \<Rightarrow> string \<Rightarrow> sandbox \<Rightarrow> sandbox \<times> (sandbox_error + unit)" where
  "configure_scope fs folder sb =
     (case select_scope fs sb folder of
        Inl e \<Rightarrow> (sb, Inl e) | Inr _ \<Rightarrow> (sb\<lparr>sb_scope := Some folder\<rparr>, Inr ()))"

definition for_project :: "node \<Rightarrow> string \<Rightarrow> sandbox \<Rightarrow> sandbox_error + sandbox" where
  "for_project fs slug sb =
     (let sb' = sb\<lparr>sb_scope := Some slug\<rparr> in rbind (sandbox_post_init fs sb') (\<lambda>_. Inr sb'))"

definition project_dir :: "node \<Rightarrow> sandbox \<Rightarrow> sandbox_error + path" where
  "project_dir fs sb =
     (case sb_scope sb of None \<Rightarrow> Inl ScopeMissing | Some folder \<Rightarrow> resolve_project fs sb folder)"

definition persistence_dir :: "nat \<Rightarrow> node \<Rightarrow> sandbox \<Rightarrow> sandbox_error + path" where
  "persistence_dir k fs sb =
     rbind (project_dir fs sb) (\<lambda>project.
     rbind (persistence_paths fs sb project) (\<lambda>paths. Inr (paths ! k)))"

definition artifact_dir :: "string \<Rightarrow> node \<Rightarrow> sandbox \<Rightarrow> sandbox_error + path" where
  "artifact_dir name fs sb = rbind (project_dir fs sb) (\<lambda>project. within_folder fs project name)"

section \<open>Policies\<close>

record 'h permission_policy =
  pp_base :: path
  pp_allow :: "'h permission_rule list"
  pp_deny :: "'h permission_rule list"
  pp_ask :: "'h permission_rule list"
  pp_default :: action_verdict
  pp_precedence :: action_verdict

definition fixed_rule :: "string \<Rightarrow> operation list \<Rightarrow> 'h permission_rule" where
  "fixed_rule pattern ops = \<lparr>pr_pattern = Fixed pattern, pr_operations = ops\<rparr>"

definition local_policy :: "node \<Rightarrow> string list \<Rightarrow> 'h permission_policy" where
  "local_policy fs base =
     \<lparr>pp_base = resolve fs base, pp_allow = [fixed_rule ''**'' [READ, CREATE, DELETE]], pp_deny = [], pp_ask = [],
      pp_default = Deny, pp_precedence = Deny\<rparr>"

definition tool_options :: "'h permission_policy \<Rightarrow> bool \<Rightarrow> 'h guard_context" where
  "tool_options p pipe =
     \<lparr>gc_base = Some (pp_base p), takes_precedence = pp_precedence p, deny_rules = pp_deny p,
      allow_rules = pp_allow p, ask_rules = pp_ask p, default_verdict = pp_default p, gc_pipe = pipe\<rparr>"

text \<open>The rules for one folder of the root and everything below it, its name taken literally.\<close>

definition folder_rules :: "path \<Rightarrow> path \<Rightarrow> operation list \<Rightarrow> 'h permission_rule list" where
  "folder_rules base folder ops =
     (let pattern = glob_escape (posix_rel (drop (length base) folder))
      in [fixed_rule pattern ops, fixed_rule (pattern @ ''/**'') ops])"

definition sandbox_permissions :: "node \<Rightarrow> sandbox \<Rightarrow> sandbox_error + 'h permission_policy" where
  "sandbox_permissions fs sb =
     rbind (project_dir fs sb) (\<lambda>project.
     rbind (shared_dir fs sb) (\<lambda>shared.
       let base = resolved_root fs sb; writes = [CREATE, DELETE] in
       Inr \<lparr>pp_base = base,
            pp_allow = [fixed_rule ''**'' [READ]] @ folder_rules base project writes @ folder_rules base shared writes,
            pp_deny = [], pp_ask = folder_rules base shared writes, pp_default = Deny, pp_precedence = Allow\<rparr>))"

section \<open>Resolved paths have proper components\<close>

definition no_slash :: "rest_item \<Rightarrow> bool" where
  "no_slash r = (case r of Name c \<Rightarrow> slash \<notin> set c | Resolved _ \<Rightarrow> True)"

lemma no_slash_simps [simp]: "no_slash (Name c) \<longleftrightarrow> slash \<notin> set c" "no_slash (Resolved q)"
  by (simp_all add: no_slash_def)

lemma proper_butlast: "list_all proper_name p \<Longrightarrow> list_all proper_name (butlast p)"
  by (auto simp: list_all_iff dest: in_set_butlastD)

lemma realpath_loop_proper:
  "list_all proper_name p \<Longrightarrow> list_all no_slash rest \<Longrightarrow>
   \<forall>(l, r) \<in> set seen. \<forall>q. r = Some q \<longrightarrow> list_all proper_name q \<Longrightarrow>
   list_all proper_name (realpath_loop fs seen p rest)"
proof (induction fs seen p rest rule: realpath_loop.induct)
  case (3 fs seen p c rest)
  have names: "list_all no_slash (map Name (split_on slash t))" for t
    by (auto simp: list_all_iff dest: split_on_no_sep)
  have c: "slash \<notin> set c" and rest: "list_all no_slash rest" using "3.prems"(2) by simp_all
  show ?case
  proof (cases "skips c")
    case True
    with 3 rest show ?thesis by (subst realpath_loop.simps) simp
  next
    case False
    note unskipped = this
    show ?thesis
    proof (cases "c = ''..''")
      case True
      with 3 unskipped rest proper_butlast show ?thesis by (subst realpath_loop.simps) simp
    next
      case False
      then have pc: "list_all proper_name (p @ [c])"
        using "3.prems"(1) c unskipped False by (simp add: proper_name_def[of c] skips_def)
      show ?thesis
      proof (cases "\<exists>t. node_at fs (p @ [c]) = Some (Lnk t)")
        case True
        then obtain t where t: "node_at fs (p @ [c]) = Some (Lnk t)" ..
        show ?thesis
        proof (cases "map_of seen (p @ [c])")
          case None
          have "list_all proper_name (realpath_loop fs ((p @ [c], None) # seen) (link_start t p)
              (map Name (split_on slash t) @ Resolved (p @ [c]) # rest))"
            using "3.prems" rest names
            by (intro "3.IH"(6)[OF unskipped False t refl None]) (auto simp: link_start_def)
          with t None unskipped False show ?thesis by (subst realpath_loop.simps) simp
        next
          case (Some r)
          show ?thesis
          proof (cases r)
            case None
            with Some t unskipped False pc rest "3.prems"(3) show ?thesis
              by (subst realpath_loop.simps) (simp add: "3.IH")
          next
            case (Some q)
            have "list_all proper_name q"
              using "3.prems"(3) \<open>map_of seen (p @ [c]) = Some r\<close> Some by (auto dest: map_of_SomeD)
            with Some \<open>map_of seen (p @ [c]) = Some r\<close> t unskipped False rest "3.prems"(3) show ?thesis
              by (subst realpath_loop.simps) (simp add: "3.IH")
          qed
        qed
      next
        case notlink: False
        then have "realpath_loop fs seen p (Name c # rest) = realpath_loop fs seen (p @ [c]) rest"
          using unskipped False by (subst realpath_loop.simps) (auto split: option.splits node.splits)
        moreover have "list_all proper_name (realpath_loop fs seen (p @ [c]) rest)"
        proof (cases "node_at fs (p @ [c])")
          case None
          with "3.IH" unskipped False pc rest "3.prems"(3) show ?thesis by blast
        next
          case (Some n)
          with notlink "3.IH" unskipped False pc rest "3.prems"(3) show ?thesis by (cases n) blast+
        qed
        ultimately show ?thesis by simp
      qed
    qed
  qed
qed auto

lemma resolve_proper:
  "list_all (\<lambda>c. slash \<notin> set c) cs \<Longrightarrow> list_all proper_name (resolve fs cs)"
  unfolding resolve_def by (rule realpath_loop_proper) (auto simp: list_all_iff)

lemma pure_parts_no_slash: "list_all (\<lambda>c. slash \<notin> set c) (pure_parts t)"
  by (auto simp: pure_parts_def components_def list_all_iff dest: split_on_no_sep)

lemma path_div_no_slash: "list_all proper_name base \<Longrightarrow> list_all (\<lambda>c. slash \<notin> set c) (path_div base t)"
  using pure_parts_no_slash[of t] by (auto simp: path_div_def proper_name_def list_all_iff)

lemma within_inside:
  "within_folder fs base name = Inr p \<Longrightarrow> list_all proper_name base \<Longrightarrow>
     \<exists>rel. p = base @ rel \<and> rel \<noteq> [] \<and> list_all proper_name rel"
  using resolve_proper[OF path_div_no_slash[of base name], of fs]
  by (auto simp: within_folder_def Let_def is_relative_to_def prefix_def split: if_splits)

section \<open>Rules of a folder\<close>

lemma escape_append: "glob_escape (a @ b) = glob_escape a @ glob_escape b"
  by (simp add: glob_escape_def)

lemma escape_slash: "glob_escape [slash] = [slash]"
  by (simp add: glob_escape_def escape_char_def)

lemma escape_join: "glob_escape (join_with [slash] ps) = join_with [slash] (map glob_escape ps)"
proof (induction ps)
  case (Cons p ps)
  then show ?case
    by (cases ps) (simp_all add: escape_append escape_slash glob_escape_def escape_char_def)
qed (simp add: glob_escape_def)

lemma escape_no_slash: "slash \<notin> set w \<Longrightarrow> slash \<notin> set (glob_escape w)"
  by (induction w) (auto simp: glob_escape_def escape_char_def)

lemma escape_dot: "glob_escape w = ''.'' \<longleftrightarrow> w = ''.''"
proof (cases w)
  case (Cons c cs)
  then show ?thesis by (cases cs) (auto simp: glob_escape_def escape_char_def split: if_splits)
qed (simp add: glob_escape_def)

text \<open>The text of a proper relative path splits into its components again.\<close>

lemma pure_text_join:
  assumes "ws \<noteq> []" "\<forall>w \<in> set ws. w \<noteq> [] \<and> w \<noteq> ''.'' \<and> slash \<notin> set w"
  shows "split_on slash (pure_path_text (join_with [slash] ws)) = ws"
proof -
  have split: "split_on slash (join_with [slash] ws) = ws"
    using assms by (intro split_join) auto
  obtain w ws' where ws: "ws = w # ws'" using assms(1) by (cases ws) auto
  then obtain c cs where w: "w = c # cs" "c \<noteq> slash" using assms(2) by (cases w) auto
  then have "hd (join_with [slash] ws) = c" "join_with [slash] ws \<noteq> []" using ws by (cases ws'; simp)+
  then have "\<not> prefix ''/'' (join_with [slash] ws)" "\<not> prefix ''//'' (join_with [slash] ws)"
    using w(2) by (cases "join_with [slash] ws"; auto)+
  moreover have "filter (\<lambda>w. w \<noteq> [] \<and> w \<noteq> ''.'') ws = ws" using assms(2) by (simp add: filter_True)
  ultimately show ?thesis by (simp add: pure_path_text_def split Let_def)
qed

lemma proper_pure_text:
  "ws \<noteq> [] \<Longrightarrow> list_all proper_name ws \<Longrightarrow> split_on slash (pure_path_text (posix_rel ws)) = ws"
  using pure_text_join[of ws] by (auto simp: posix_rel_def list_all_iff proper_name_def)

lemma root_pure_text: "split_on slash (pure_path_text (posix_rel [])) = [[]]"
  by (simp add: posix_rel_def pure_path_text_def)

lemma full_match_folder:
  assumes "list_all proper_name ws" "ws \<noteq> []" "list_all proper_name rel"
  shows "full_match (posix_rel rel) (glob_escape (posix_rel ws)) \<longleftrightarrow> rel = ws"
proof -
  have "split_on slash (pure_path_text (glob_escape (posix_rel ws))) = map glob_escape ws"
    using assms(1,2) escape_no_slash escape_dot
    by (simp add: posix_rel_def escape_join) (intro pure_text_join, auto simp: list_all_iff proper_name_def)
  moreover have "match_components (map glob_escape ws) [[]] = False"
  proof -
    have "[[]] \<noteq> ws" using assms(1) by (auto simp: proper_name_def)
    then show ?thesis using match_components_escape[OF assms(2), of "[[]]"] by simp
  qed
  moreover have "match_components (map glob_escape ws) rel \<longleftrightarrow> rel = ws"
    by (rule match_components_escape[OF assms(2)])
  ultimately show ?thesis
    using assms(2) proper_pure_text[OF _ assms(3)] root_pure_text
    by (cases "rel = []") (simp_all only: full_match_def, simp_all)
qed

lemma full_match_below:
  assumes "list_all proper_name ws" "ws \<noteq> []" "list_all proper_name rel"
  shows "full_match (posix_rel rel) (glob_escape (posix_rel ws) @ ''/**'') \<longleftrightarrow> (\<exists>ys. ys \<noteq> [] \<and> rel = ws @ ys)"
proof -
  have "glob_escape (posix_rel ws) @ ''/**'' = join_with [slash] (map glob_escape ws @ [''**''])"
  proof -
    have "join_with [slash] (us @ [''**'']) = join_with [slash] us @ ''/**''" if "us \<noteq> []" for us :: "string list"
      using that
    proof (induction us)
      case (Cons u us)
      then show ?case by (cases us) simp_all
    qed simp
    then show ?thesis using assms(2) by (simp add: posix_rel_def escape_join)
  qed
  moreover have "split_on slash (pure_path_text (join_with [slash] (map glob_escape ws @ [''**'']))) = map glob_escape ws @ [''**'']"
    using assms(1) escape_no_slash escape_dot
    by (intro pure_text_join) (auto simp: list_all_iff proper_name_def)
  ultimately have "full_match (posix_rel rel) (glob_escape (posix_rel ws) @ ''/**'')
      = match_components (map glob_escape ws @ [''**'']) (split_on slash (pure_path_text (posix_rel rel)))"
    by (simp only: full_match_def)
  then show ?thesis
    using assms by (cases "rel = []")
      (auto simp: root_pure_text proper_pure_text match_components_escape_below list_all_iff proper_name_def Cons_eq_append_conv)
qed

lemma full_match_all: "full_match text ''**''"
proof -
  have "split_on slash (pure_path_text ''**'') = [''**'']" by (simp add: pure_path_text_def)
  then show ?thesis by (simp add: full_match_def)
qed

text \<open>\<open>plain_folder\<close>: no component has a metacharacter, so that escaping changes nothing.\<close>

definition plain_folder :: "path \<Rightarrow> bool" where
  "plain_folder p \<longleftrightarrow> list_all (\<lambda>w. set w \<inter> set ''*?['' = {}) p"

lemma plain_escape: "plain_folder ws \<Longrightarrow> glob_escape (posix_rel ws) = posix_rel ws"
proof -
  assume plain: "plain_folder ws"
  have "glob_escape w = w" if "set w \<inter> set ''*?['' = {}" for w
    using that by (induction w) (auto simp: glob_escape_def escape_char_def)
  then have "map glob_escape ws = ws" using plain by (intro map_idI) (auto simp: plain_folder_def list_all_iff)
  then show ?thesis by (simp add: posix_rel_def escape_join) (simp add: glob_escape_def escape_char_def)
qed

lemma posix_rel_inject:
  assumes "list_all proper_name ws" "list_all proper_name rel" "ws \<noteq> []" "posix_rel rel = posix_rel ws"
  shows "rel = ws"
proof (cases "rel = []")
  case True
  with assms root_pure_text proper_pure_text[of ws] show ?thesis by (auto simp: proper_name_def)
next
  case False
  with assms proper_pure_text[of ws] proper_pure_text[of rel] show ?thesis by metis
qed

lemma folder_patterns_match:
  assumes ws: "list_all proper_name ws" "ws \<noteq> []" "plain_folder ws" and rel: "list_all proper_name rel"
  shows "path_matches (posix_rel rel) (glob_escape (posix_rel ws)) \<or>
    path_matches (posix_rel rel) (glob_escape (posix_rel ws) @ ''/**'') \<longleftrightarrow> is_relative_to rel ws"
proof -
  have "CHR ''*'' \<notin> set (posix_rel ws)"
  proof -
    have "c \<in> set (join_with [slash] us) \<Longrightarrow> c = slash \<or> (\<exists>u \<in> set us. c \<in> set u)" for c and us :: path
    proof (induction us)
      case (Cons u us)
      then show ?case by (cases us) auto
    qed simp
    then show ?thesis using ws by (fastforce simp: posix_rel_def plain_folder_def list_all_iff)
  qed
  then have "\<not> suffix ''/**'' (posix_rel ws)" by (auto simp: suffix_def)
  then have "path_matches (posix_rel rel) (glob_escape (posix_rel ws)) \<longleftrightarrow> rel = ws"
    using full_match_folder[OF ws(1,2) rel] by (simp add: path_matches_def plain_escape[OF ws(3)])
  moreover have "path_matches (posix_rel rel) (glob_escape (posix_rel ws) @ ''/**'') \<longleftrightarrow>
      posix_rel rel = posix_rel ws \<or> (\<exists>ys. ys \<noteq> [] \<and> rel = ws @ ys)"
    using full_match_below[OF ws(1,2) rel] by (simp add: path_matches_def plain_escape[OF ws(3)] suffix_def)
  ultimately show ?thesis
    using posix_rel_inject[OF ws(1) rel ws(2)] by (auto simp: is_relative_to_def prefix_def)
qed

lemma folder_pattern_relative:
  assumes "list_all proper_name ws" "ws \<noteq> []" "plain_folder ws"
  shows "\<not> prefix ''/'' (glob_escape (posix_rel ws))" "\<not> prefix ''/'' (glob_escape (posix_rel ws) @ r)"
proof -
  obtain w ws' where ws: "ws = w # ws'" using assms(2) by (cases ws) auto
  then obtain c cs where "w = c # cs" "c \<noteq> slash" using assms(1) by (cases w) (auto simp: proper_name_def)
  then have "\<exists>r. posix_rel ws = c # r" "c \<noteq> slash" by (cases ws'; simp add: posix_rel_def ws)+
  then show "\<not> prefix ''/'' (glob_escape (posix_rel ws))" "\<not> prefix ''/'' (glob_escape (posix_rel ws) @ r)"
    by (auto simp: plain_escape[OF assms(3)])
qed

lemma folder_rules_match:
  assumes loc: "list_all proper_name (item_location item)"
    and ws: "list_all proper_name ws" "ws \<noteq> []" "plain_folder ws"
  shows "matches h (folder_rules base (base @ ws) ops) item base \<longleftrightarrow>
    item_operation item \<in> set ops \<and> is_relative_to (item_location item) (base @ ws)"
proof (cases "relative_to (item_location item) base")
  case None
  then have "\<not> is_relative_to (item_location item) (base @ ws)"
    using relative_to_None[of "item_location item" base] by (auto simp: is_relative_to_def dest: append_prefixD)
  with None show ?thesis
    by (simp add: matches_def folder_rules_def Let_def rule_matches_def fixed_rule_def folder_pattern_relative[OF ws])
next
  case (Some rel)
  then have location: "item_location item = base @ rel" by (simp add: relative_to_Some)
  then have "list_all proper_name rel" using loc by simp
  with folder_patterns_match[OF ws this] Some show ?thesis
    by (auto simp: matches_def folder_rules_def Let_def rule_matches_def fixed_rule_def location
        folder_pattern_relative[OF ws] is_relative_to_def)
qed

lemma read_rule_matches:
  "matches h [fixed_rule ''**'' ops] item base \<longleftrightarrow>
     item_operation item \<in> set ops \<and> is_relative_to (item_location item) base"
  using relative_to_None[of "item_location item" base]
  by (auto simp: matches_def rule_matches_def fixed_rule_def path_matches_def full_match_all Let_def
      split: option.splits)

lemma matches_append: "matches h (rs @ rs') item base \<longleftrightarrow> matches h rs item base \<or> matches h rs' item base"
  by (simp add: matches_def)

section \<open>What the policy of a sandbox allows\<close>

lemma project_inside:
  assumes "resolve_project fs sb folder = Inr project" "list_all proper_name (resolved_root fs sb)"
  shows "\<exists>projects ws. projects_dir fs sb = Inr projects \<and> project = projects @ ws \<and> ws \<noteq> [] \<and>
    list_all proper_name projects \<and> list_all proper_name ws"
proof -
  from assms(1) obtain projects where projects: "projects_dir fs sb = Inr projects"
    and project: "within_folder fs projects folder = Inr project"
    unfolding resolve_project_def by (auto simp: rbind_Inr_iff)
  from within_inside[OF projects[unfolded projects_dir_def] assms(2)] have "list_all proper_name projects"
    using assms(2) by auto
  with within_inside[OF project this] projects show ?thesis by blast
qed

lemma root_proper: "list_all (\<lambda>c. slash \<notin> set c) (sb_root sb) \<Longrightarrow> list_all proper_name (resolved_root fs sb)"
  by (simp add: resolved_root_def resolve_proper)

text \<open>C32. The policy of a sandbox with plain folder names confines effects: the guard lets an
  operation through exactly when its location is in the sandbox and it is a read, or it creates
  or deletes inside the chosen project or the shared area; exactly the latter of these ask the
  user; and nothing but a read is ever allowed in the read-only area.\<close>

theorem sandbox_confines_writes:
  assumes root: "list_all (\<lambda>c. slash \<notin> set c) (sb_root sb)"
    and valid: "sandbox_post_init fs sb = Inr ()"
    and policy: "sandbox_permissions fs sb = Inr policy"
    and dirs: "project_dir fs sb = Inr project" "shared_dir fs sb = Inr shared" "readonly_dir fs sb = Inr readonly"
    and plain: "plain_folder project" "plain_folder shared"
    and loc: "list_all proper_name (item_location item)"
  shows "(item_verdict (tool_options policy pipe) (resolved_root fs sb) h item = Allow \<longleftrightarrow>
      is_relative_to (item_location item) (resolved_root fs sb) \<and>
      (item_operation item = READ \<or> item_operation item \<in> {CREATE, DELETE} \<and>
        (is_relative_to (item_location item) project \<or> is_relative_to (item_location item) shared))) \<and>
    (matches h (ask_rules (tool_options policy pipe)) item (resolved_root fs sb) \<longleftrightarrow>
      item_operation item \<in> {CREATE, DELETE} \<and> is_relative_to (item_location item) shared) \<and>
    (is_relative_to (item_location item) readonly \<and> item_operation item \<noteq> READ \<longrightarrow>
      item_verdict (tool_options policy pipe) (resolved_root fs sb) h item = Deny)"
proof -
  let ?root = "resolved_root fs sb"
  note proper = root_proper[OF root, of fs]
  from dirs(1) obtain folder where folder: "resolve_project fs sb folder = Inr project"
    by (auto simp: project_dir_def split: option.splits)
  from project_inside[OF folder proper] obtain projects ws where
    projects: "projects_dir fs sb = Inr projects" and project: "project = projects @ ws" "ws \<noteq> []" "list_all proper_name ws"
    by blast
  from within_inside[OF projects[unfolded projects_dir_def] proper] obtain ps where
    ps: "projects = ?root @ ps" "list_all proper_name ps" "ps \<noteq> []" by blast
  from within_inside[OF dirs(2)[unfolded shared_dir_def] proper] obtain ss where
    ss: "shared = ?root @ ss" "ss \<noteq> []" "list_all proper_name ss" by blast
  have plains: "plain_folder (ps @ ws)" "plain_folder ss"
    using plain by (auto simp: plain_folder_def project ps ss)
  have apart: "\<not> is_relative_to readonly shared" "\<not> is_relative_to shared readonly"
    "\<not> is_relative_to readonly projects" "\<not> is_relative_to projects readonly"
    using valid dirs(2,3) projects
    by (auto simp: sandbox_post_init_def sandbox_areas_def split: if_splits)
  have policy': "policy = \<lparr>pp_base = ?root,
      pp_allow = [fixed_rule ''**'' [READ]] @ folder_rules ?root project [CREATE, DELETE] @ folder_rules ?root shared [CREATE, DELETE],
      pp_deny = [], pp_ask = folder_rules ?root shared [CREATE, DELETE], pp_default = Deny, pp_precedence = Allow\<rparr>"
    using policy dirs by (simp add: sandbox_permissions_def Let_def)
  have in_project: "matches h (folder_rules ?root project [CREATE, DELETE]) item ?root \<longleftrightarrow>
      item_operation item \<in> {CREATE, DELETE} \<and> is_relative_to (item_location item) project"
    using folder_rules_match[OF loc, of "ps @ ws" h ?root "[CREATE, DELETE]"] project ps plains by simp
  have in_shared: "matches h (folder_rules ?root shared [CREATE, DELETE]) item ?root \<longleftrightarrow>
      item_operation item \<in> {CREATE, DELETE} \<and> is_relative_to (item_location item) shared"
    using folder_rules_match[OF loc ss(3,2) plains(2), of h ?root "[CREATE, DELETE]"] ss by simp
  have verdict: "item_verdict (tool_options policy pipe) ?root h item = Allow \<longleftrightarrow>
      is_relative_to (item_location item) ?root \<and>
      (item_operation item = READ \<or> item_operation item \<in> {CREATE, DELETE} \<and>
        (is_relative_to (item_location item) project \<or> is_relative_to (item_location item) shared))"
  proof -
    have "is_relative_to (item_location item) ?root"
      if "is_relative_to (item_location item) project \<or> is_relative_to (item_location item) shared"
      using that by (auto simp: is_relative_to_def project ps ss dest: append_prefixD)
    then show ?thesis
      using in_project in_shared read_rule_matches[of h "[READ]" item ?root]
      by (auto simp: item_verdict_def tool_options_def policy' policy_verdict_def matches_append)
        (auto simp: matches_def)
  qed
  moreover have "item_verdict (tool_options policy pipe) ?root h item = Deny"
    if readonly: "is_relative_to (item_location item) readonly" and "item_operation item \<noteq> READ"
  proof -
    have "\<not> is_relative_to (item_location item) shared" "\<not> is_relative_to (item_location item) project"
      using readonly apart prefix_same_cases[of readonly "item_location item"]
      by (auto simp: is_relative_to_def project dest: append_prefixD)
    with verdict that(2) show ?thesis
      by (cases "item_verdict (tool_options policy pipe) ?root h item") auto
  qed
  ultimately show ?thesis
    using in_shared by (auto simp: tool_options_def policy')
qed

text \<open>A sandbox \<open>/w\<close> with the default areas and the project \<open>app\<close>.\<close>

definition example_sandbox :: sandbox where
  "example_sandbox = \<lparr>sb_root = [''w''], sb_readonly = ''readonly'', sb_shared = ''shared'', sb_projects = ''projects'',
     sb_logs = ''logs'', sb_snapshots = ''snapshots'', sb_memory = ''memory'', sb_scope = Some ''app''\<rparr>"

theorem sandbox_confines_writes_witness:
  "item_verdict (tool_options
      \<lparr>pp_base = [''w''], pp_allow = [fixed_rule ''**'' [READ]] @
         folder_rules [''w''] [''w'', ''projects'', ''app''] [CREATE, DELETE] @
         folder_rules [''w''] [''w'', ''shared''] [CREATE, DELETE],
       pp_deny = [], pp_ask = folder_rules [''w''] [''w'', ''shared''] [CREATE, DELETE],
       pp_default = Deny, pp_precedence = Allow\<rparr> True) [''w''] ()
     (item_at DELETE [''w'', ''projects'', ''app'', ''x'']) = Allow"
proof -
  let ?fs = "Dir 0 2 []"
  let ?item = "item_at DELETE [''w'', ''projects'', ''app'', ''x'']"
  have valid: "sandbox_post_init ?fs example_sandbox = Inr ()" by code_simp
  have dirs: "project_dir ?fs example_sandbox = Inr [''w'', ''projects'', ''app'']"
    "shared_dir ?fs example_sandbox = Inr [''w'', ''shared'']"
    "readonly_dir ?fs example_sandbox = Inr [''w'', ''readonly'']"
    and base: "resolved_root ?fs example_sandbox = [''w'']" by code_simp+
  from dirs base have policy: "sandbox_permissions ?fs example_sandbox = Inr
      \<lparr>pp_base = [''w''], pp_allow = [fixed_rule ''**'' [READ]] @
         folder_rules [''w''] [''w'', ''projects'', ''app''] [CREATE, DELETE] @
         folder_rules [''w''] [''w'', ''shared''] [CREATE, DELETE],
       pp_deny = [], pp_ask = folder_rules [''w''] [''w'', ''shared''] [CREATE, DELETE],
       pp_default = Deny, pp_precedence = Allow\<rparr>"
    by (simp add: sandbox_permissions_def Let_def)
  have root: "list_all (\<lambda>c. slash \<notin> set c) (sb_root example_sandbox)"
    and plain: "plain_folder [''w'', ''projects'', ''app'']" "plain_folder [''w'', ''shared'']"
    and loc: "list_all proper_name (item_location ?item)"
    by (simp_all add: example_sandbox_def plain_folder_def item_at_def proper_name_def)
  show ?thesis
    using sandbox_confines_writes[OF root valid policy dirs plain loc, of True "()"] base
    by (simp add: item_at_def is_relative_to_def)
qed

section \<open>Metacharacters in folder names\<close>

text \<open>
  The name of a folder with a metacharacter is not taken literally in full: the shortcut of
  \<open>_matches\<close> compares the escaped text of the rule for what is below the folder with the location
  itself, so that the project \<open>a*\<close> may also delete its neighbour \<open>a[*]\<close>.
\<close>

lemma escaped_folder_admits_neighbour:
  "item_verdict (tool_options
      \<lparr>pp_base = [''w''], pp_allow = folder_rules [''w''] [''w'', ''projects'', ''a*''] [CREATE, DELETE],
       pp_deny = [], pp_ask = [], pp_default = Deny, pp_precedence = Allow\<rparr> True) [''w''] ()
     (item_at DELETE [''w'', ''projects'', ''a[*]'']) = Allow"
  by code_simp

end
