(* ===== verification/Roboz_Stamps.thy ===== *)
theory Roboz_Stamps
  imports Roboz_Persist Roboz_Roundtrip "HOL-Library.Product_Lexorder"
begin

text \<open>
  Files named by the time they were written (\<open>shed/tools/memory_files.py\<close>) and the coverage marker
  of a snapshot (\<open>shed/tools/_snapshot_metadata.py\<close>). A time is the tuple of its fields, so that
  tuples compare like \<open>datetime\<close>; \<open>strftime\<close>, \<open>strptime\<close> and \<open>int\<close> are written out for what the
  code asks of them. Files are artifacts of UTF-8 text; no directory or link has such a name.
\<close>

section \<open>Times\<close>

type_synonym stamp = "nat \<times> nat \<times> nat \<times> nat \<times> nat \<times> nat \<times> nat"

definition leap_year :: "nat \<Rightarrow> bool" where
  "leap_year y \<longleftrightarrow> 4 dvd y \<and> (\<not> 100 dvd y \<or> 400 dvd y)"

definition days_in_month :: "nat \<Rightarrow> nat \<Rightarrow> nat" where
  "days_in_month y m =
     (if m = 2 then if leap_year y then 29 else 28 else if m \<in> {4, 6, 9, 11} then 30 else 31)"

fun valid_stamp :: "stamp \<Rightarrow> bool" where
  "valid_stamp (y, mo, d, h, mi, s, u) \<longleftrightarrow>
     1 \<le> y \<and> y \<le> 9999 \<and> 1 \<le> mo \<and> mo \<le> 12 \<and> 1 \<le> d \<and> d \<le> days_in_month y mo \<and>
     h \<le> 23 \<and> mi \<le> 59 \<and> s \<le> 59 \<and> u \<le> 999999"

text \<open>One microsecond later; \<open>OverflowError\<close> behind the last one.\<close>

fun next_stamp :: "stamp \<Rightarrow> stamp option" where
  "next_stamp (y, mo, d, h, mi, s, u) =
     (if u < 999999 then Some (y, mo, d, h, mi, s, Suc u)
      else if s < 59 then Some (y, mo, d, h, mi, Suc s, 0)
      else if mi < 59 then Some (y, mo, d, h, Suc mi, 0, 0)
      else if h < 23 then Some (y, mo, d, Suc h, 0, 0, 0)
      else if d < days_in_month y mo then Some (y, mo, Suc d, 0, 0, 0, 0)
      else if mo < 12 then Some (y, Suc mo, 1, 0, 0, 0, 0)
      else if y < 9999 then Some (Suc y, 1, 1, 0, 0, 0, 0)
      else None)"

text \<open>\<open>%Y%m%dT%H%M%S%fZ\<close>.\<close>

fun format_stamp :: "stamp \<Rightarrow> string" where
  "format_stamp (y, mo, d, h, mi, s, u) =
     zero_padded 4 y @ zero_padded 2 mo @ zero_padded 2 d @ ''T'' @
     zero_padded 2 h @ zero_padded 2 mi @ zero_padded 2 s @ zero_padded 6 u @ ''Z''"

text \<open>
  \<open>strptime\<close> turns the format into a regular expression: each directive is a list of alternatives,
  each alternative a list of character classes, in the order in which they are tried. The first
  match counts, and what it leaves over is an error.
\<close>

definition DIGITS :: string where "DIGITS = ''0123456789''"

fun match_classes :: "string list \<Rightarrow> string \<Rightarrow> (string \<times> string) option" where
  "match_classes [] s = Some ([], s)"
| "match_classes (k # ks) [] = None"
| "match_classes (k # ks) (c # cs) =
     (if c \<in> set k then map_option (apfst (Cons c)) (match_classes ks cs) else None)"

fun read_directive :: "string list list \<Rightarrow> string \<Rightarrow> (string \<times> string) list" where
  "read_directive [] s = []"
| "read_directive (ks # alts) s =
     (case match_classes ks s of
        None \<Rightarrow> read_directive alts s | Some r \<Rightarrow> r # read_directive alts s)"

fun read_directives :: "string list list list \<Rightarrow> string \<Rightarrow> (string list \<times> string) list" where
  "read_directives [] s = [([], s)]"
| "read_directives (d # ds) s =
     concat (map (\<lambda>(t, rest). map (apfst (Cons t)) (read_directives ds rest)) (read_directive d s))"

definition YEAR :: "string list list" where "YEAR = [[DIGITS, DIGITS, DIGITS, DIGITS]]"
definition MONTH :: "string list list" where "MONTH = [[''1'', ''012''], [''0'', ''123456789''], [''123456789'']]"
definition DAY :: "string list list" where
  "DAY = [[''3'', ''01''], [''12'', DIGITS], [''0'', ''123456789''], [''123456789''], ['' '', ''123456789'']]"
definition HOUR :: "string list list" where "HOUR = [[''2'', ''0123''], [''01'', DIGITS], [DIGITS]]"
definition MINUTE :: "string list list" where "MINUTE = [[''012345'', DIGITS], [DIGITS]]"
definition SECOND :: "string list list" where "SECOND = [[''6'', ''01''], [''012345'', DIGITS], [DIGITS]]"
definition MICRO :: "string list list" where
  "MICRO = [replicate 6 DIGITS, replicate 5 DIGITS, replicate 4 DIGITS, replicate 3 DIGITS, replicate 2 DIGITS, [DIGITS]]"

definition STAMP_FORMAT :: "string list list list" where
  "STAMP_FORMAT = [YEAR, MONTH, DAY, [[''Tt'']], HOUR, MINUTE, SECOND, MICRO, [[''Zz'']]]"

text \<open>\<open>%f\<close> is padded on the right; the day may have a space.\<close>

definition stamp_of_fields :: "string list \<Rightarrow> stamp option" where
  "stamp_of_fields ts =
     (case ts of
        [y, mo, d, _, h, mi, s, u, _] \<Rightarrow>
          (let st = (parse_nat y, parse_nat mo, parse_nat (dropWhile (\<lambda>c. c = CHR '' '') d), parse_nat h,
                     parse_nat mi, parse_nat s, parse_nat (u @ replicate (6 - length u) (CHR ''0'')))
           in if valid_stamp st then Some st else None)
      | _ \<Rightarrow> None)"

definition parse_stamp :: "string \<Rightarrow> stamp option" where
  "parse_stamp s =
     (case read_directives STAMP_FORMAT s of
        [] \<Rightarrow> None
      | (ts, rest) # _ \<Rightarrow> if rest \<noteq> [] then None else stamp_of_fields ts)"

text \<open>\<open>Path.stem\<close> of a name, and \<open>parse_timestamp_stem\<close>.\<close>

definition path_stem :: "string \<Rightarrow> string" where
  "path_stem name =
     (let ext = takeWhile (\<lambda>c. c \<noteq> CHR ''.'') (rev name); front = drop (Suc (length ext)) (rev name)
      in if length ext < length name \<and> ext \<noteq> [] \<and> front \<noteq> [] then rev front else name)"

definition parse_timestamp_stem :: "location \<Rightarrow> stamp option" where
  "parse_timestamp_stem path = parse_stamp (path_stem (last path))"

section \<open>A written time is read back\<close>

definition digit :: "nat \<Rightarrow> char" where "digit k = char_of (48 + k)"

fun fixed_digits :: "nat \<Rightarrow> nat \<Rightarrow> string" where
  "fixed_digits 0 n = []"
| "fixed_digits (Suc w) n = fixed_digits w (n div 10) @ [digit (n mod 10)]"

lemma length_fixed_digits [simp]: "length (fixed_digits w n) = w"
  by (induction w arbitrary: n) simp_all

lemma digit_0: "digit 0 = CHR ''0''"
  by (simp add: digit_def char_of_def bit_numeral_rec bit_Suc bit_0)

lemma fixed_digits_0: "fixed_digits w 0 = replicate w (CHR ''0'')"
  by (induction w) (simp_all add: digit_0 replicate_append_same)

lemma zero_padded_fixed: "n < 10 ^ w \<Longrightarrow> 0 < w \<Longrightarrow> zero_padded w n = fixed_digits w n"
proof (induction w arbitrary: n)
  case (Suc w)
  have show_n: "zero_padded k m = replicate (k - length (digits_of m)) (CHR ''0'') @ digits_of m" for k m
    by (simp add: zero_padded_def show_int_def Let_def)
  show ?case
  proof (cases "n < 10")
    case True
    then have "digits_of n = [digit n]" by (subst digits_of.simps) (simp add: digit_def)
    with True show ?thesis by (simp add: show_n fixed_digits_0)
  next
    case False
    then have d: "digits_of n = digits_of (n div 10) @ [digit (n mod 10)]"
      by (subst digits_of.simps) (simp add: digit_def)
    from False Suc.prems(1) have "0 < w" by (cases w) simp_all
    with Suc.IH[of "n div 10"] Suc.prems have "zero_padded w (n div 10) = fixed_digits w (n div 10)"
      by (simp add: div_less_iff_less_mult mult.commute)
    then show ?thesis by (simp add: show_n d)
  qed
qed simp

lemma fixed_two: "fixed_digits 2 n = [digit (n div 10 mod 10), digit (n mod 10)]"
  by (simp add: numeral_2_eq_2)

lemma of_digit: "k < 10 \<Longrightarrow> of_char (digit k) = 48 + k"
  by (simp add: digit_def)

lemma parse_fixed: "n < 10 ^ w \<Longrightarrow> parse_nat (fixed_digits w n) = n"
proof (induction w arbitrary: n)
  case (Suc w)
  then have "parse_nat (fixed_digits w (n div 10)) = n div 10" by (simp add: div_less_iff_less_mult mult.commute)
  then show ?case by (simp add: parse_nat_snoc of_digit)
qed (simp add: parse_nat_def)

lemma digit_member: "k < 10 \<Longrightarrow> digit k \<in> set s \<longleftrightarrow> 48 + k \<in> (of_char :: char \<Rightarrow> nat) ` set s"
proof
  assume "k < 10" "48 + k \<in> (of_char :: char \<Rightarrow> nat) ` set s"
  then obtain c where "c \<in> set s" "of_char c = 48 + k" by auto
  moreover from this have "digit k = c" by (metis char_of_char digit_def)
  ultimately show "digit k \<in> set s" by simp
qed (metis image_eqI of_digit)

lemma digit_class:
  assumes "map of_char s = [48 + a ..< 48 + b]" "k < 10"
  shows "digit k \<in> set s \<longleftrightarrow> a \<le> k \<and> k < b"
proof -
  have "(of_char :: char \<Rightarrow> nat) ` set s = {48 + a ..< 48 + b}" using assms(1) by (metis list.set_map set_upt)
  then show ?thesis using assms(2) by (simp add: digit_member)
qed

lemma digit_classes:
  assumes "k < 10"
  shows "digit k \<in> set DIGITS" "digit k \<in> set ''123456789'' \<longleftrightarrow> 1 \<le> k" "digit k \<in> set ''012345'' \<longleftrightarrow> k < 6"
    "digit k \<in> set ''0123'' \<longleftrightarrow> k < 4" "digit k \<in> set ''012'' \<longleftrightarrow> k < 3" "digit k \<in> set ''01'' \<longleftrightarrow> k < 2"
    "digit k \<in> set ''12'' \<longleftrightarrow> 1 \<le> k \<and> k < 3"
    "digit k \<in> set ''0'' \<longleftrightarrow> k = 0" "digit k \<in> set ''1'' \<longleftrightarrow> k = 1" "digit k \<in> set ''2'' \<longleftrightarrow> k = 2"
    "digit k \<in> set ''3'' \<longleftrightarrow> k = 3" "digit k \<in> set ''6'' \<longleftrightarrow> k = 6"
proof -
  note c = digit_class[OF _ assms]
  show "digit k \<in> set DIGITS" using assms by (subst c[of _ 0 10]) (simp_all add: DIGITS_def upt_rec)
  show "digit k \<in> set ''123456789'' \<longleftrightarrow> 1 \<le> k" using assms by (subst c[of _ 1 10]) (simp_all add: upt_rec)
  show "digit k \<in> set ''012345'' \<longleftrightarrow> k < 6" by (subst c[of _ 0 6]) (simp_all add: upt_rec)
  show "digit k \<in> set ''0123'' \<longleftrightarrow> k < 4" by (subst c[of _ 0 4]) (simp_all add: upt_rec)
  show "digit k \<in> set ''012'' \<longleftrightarrow> k < 3" by (subst c[of _ 0 3]) (simp_all add: upt_rec)
  show "digit k \<in> set ''01'' \<longleftrightarrow> k < 2" by (subst c[of _ 0 2]) (simp_all add: upt_rec)
  show "digit k \<in> set ''12'' \<longleftrightarrow> 1 \<le> k \<and> k < 3" by (subst c[of _ 1 3]) (simp_all add: upt_rec)
  show "digit k \<in> set ''0'' \<longleftrightarrow> k = 0" by (subst c[of _ 0 1]) (auto simp: upt_rec)
  show "digit k \<in> set ''1'' \<longleftrightarrow> k = 1" by (subst c[of _ 1 2]) (auto simp: upt_rec)
  show "digit k \<in> set ''2'' \<longleftrightarrow> k = 2" by (subst c[of _ 2 3]) (auto simp: upt_rec)
  show "digit k \<in> set ''3'' \<longleftrightarrow> k = 3" by (subst c[of _ 3 4]) (auto simp: upt_rec)
  show "digit k \<in> set ''6'' \<longleftrightarrow> k = 6" by (subst c[of _ 6 7]) (auto simp: upt_rec)
qed

lemma match_all: "list_all2 (\<lambda>k c. c \<in> set k) ks cs \<Longrightarrow> match_classes ks (cs @ s) = Some (cs, s)"
  by (induction rule: list_all2_induct) simp_all

lemma fixed_match: "match_classes (replicate w DIGITS) (fixed_digits w n @ s) = Some (fixed_digits w n, s)"
proof -
  have "list_all2 (\<lambda>k c. c \<in> set k) (replicate w DIGITS) (fixed_digits w n)"
  proof (induction w arbitrary: n)
    case (Suc w)
    then have "list_all2 (\<lambda>k c. c \<in> set k) (replicate w DIGITS @ [DIGITS]) (fixed_digits (Suc w) n)"
      by (simp add: list_all2_append digit_classes(1))
    then show ?case by (simp add: replicate_append_same)
  qed simp
  then show ?thesis by (rule match_all)
qed

text \<open>The first match of a directive decides.\<close>

lemma read_directives_first:
  assumes "\<exists>xs. read_directive d s = (t, r) # xs" "\<exists>ys. read_directives ds r = (ts, r') # ys"
  shows "\<exists>zs. read_directives (d # ds) s = (t # ts, r') # zs"
  using assms by auto

text \<open>A directive of two digits: \<open>a\<close> are the alternatives that fail before the one that matches.\<close>

lemma read_two:
  assumes "alts = a @ [[k, l]] @ b" "n < 100" "digit (n div 10) \<in> set k" "digit (n mod 10) \<in> set l"
    and "list_all (\<lambda>x. x \<noteq> [] \<and> (digit (n div 10) \<notin> set (hd x) \<or> length x = 2 \<and> digit (n mod 10) \<notin> set (x ! 1))) a"
  shows "\<exists>xs. read_directive alts (fixed_digits 2 n @ s) = (fixed_digits 2 n, s) # xs"
proof -
  have fixed: "fixed_digits 2 n = [digit (n div 10), digit (n mod 10)]"
    using assms(2) by (simp add: fixed_two div_less_iff_less_mult)
  have "match_classes [k, l] (fixed_digits 2 n @ s) = Some (fixed_digits 2 n, s)"
    using assms(3,4) by (intro match_all) (simp add: fixed)
  then have "read_directive (a' @ [[k, l]] @ b) (fixed_digits 2 n @ s) = (fixed_digits 2 n, s) # read_directive b (fixed_digits 2 n @ s)"
    if "\<forall>x \<in> set a'. match_classes x (fixed_digits 2 n @ s) = None" for a'
    using that by (induction a') simp_all
  moreover have "match_classes x (fixed_digits 2 n @ s) = None" if "x \<in> set a" for x
  proof -
    from assms(5) that have x: "x \<noteq> []"
      "digit (n div 10) \<notin> set (hd x) \<or> length x = 2 \<and> digit (n mod 10) \<notin> set (x ! 1)"
      by (auto simp: list_all_iff)
    then obtain u us where "x = u # us" by (cases x) auto
    with x(2) show ?thesis by (cases us) (auto simp: fixed)
  qed
  ultimately show ?thesis using assms(1) by simp
qed

lemma read_year: "\<exists>xs. read_directive YEAR (fixed_digits 4 y @ s) = (fixed_digits 4 y, s) # xs"
proof -
  have "YEAR = [replicate 4 DIGITS]" by (simp add: YEAR_def eval_nat_numeral)
  moreover have "read_directive [replicate 4 DIGITS] (fixed_digits 4 y @ s) = [(fixed_digits 4 y, s)]"
    by (simp only: read_directive.simps fixed_match option.case)
  ultimately show ?thesis by simp
qed

lemma read_micro: "\<exists>xs. read_directive MICRO (fixed_digits 6 u @ s) = (fixed_digits 6 u, s) # xs"
  by (simp add: MICRO_def fixed_match)

lemma tens: "n < 100 \<Longrightarrow> n div 10 < (10 :: nat)" "n mod 10 < (10 :: nat)"
  by (simp_all add: div_less_iff_less_mult)

lemma read_month:
  assumes "1 \<le> m" "m \<le> 12"
  shows "\<exists>xs. read_directive MONTH (fixed_digits 2 m @ s) = (fixed_digits 2 m, s) # xs"
proof (cases "m < 10")
  case True
  with assms show ?thesis
    by (intro read_two[where a = "[[''1'', ''012'']]" and k = "''0''" and l = "''123456789''"])
      (simp_all add: MONTH_def digit_classes tens del: set_simps)
next
  case False
  with assms have "m div 10 = 1" "m mod 10 < 3" by presburger+
  with assms show ?thesis
    by (intro read_two[where a = "[]" and k = "''1''" and l = "''012''"])
      (simp_all add: MONTH_def digit_classes tens del: set_simps)
qed


lemma read_day:
  assumes "1 \<le> d" "d \<le> 31"
  shows "\<exists>xs. read_directive DAY (fixed_digits 2 d @ s) = (fixed_digits 2 d, s) # xs"
proof -
  consider "d < 10" | "10 \<le> d" "d < 30" | "30 \<le> d" by linarith
  then show ?thesis
  proof cases
    case 1
    with assms show ?thesis
      by (intro read_two[where a = "[[''3'', ''01''], [''12'', DIGITS]]" and k = "''0''" and l = "''123456789''"])
        (simp_all add: DAY_def digit_classes tens del: set_simps)
  next
    case 2
    then have "1 \<le> d div 10" "d div 10 < 3" by auto
    with assms show ?thesis
      by (intro read_two[where a = "[[''3'', ''01'']]" and k = "''12''" and l = DIGITS])
        (simp_all add: DAY_def digit_classes tens del: set_simps)
  next
    case 3
    with assms have "d div 10 = 3" "d mod 10 < 2" by presburger+
    with assms show ?thesis
      by (intro read_two[where a = "[]" and k = "''3''" and l = "''01''"])
        (simp_all add: DAY_def digit_classes tens del: set_simps)
  qed
qed

lemma read_hour:
  assumes "h \<le> 23"
  shows "\<exists>xs. read_directive HOUR (fixed_digits 2 h @ s) = (fixed_digits 2 h, s) # xs"
proof (cases "h < 20")
  case True
  then have "h div 10 < 2" by auto
  with assms show ?thesis
    by (intro read_two[where a = "[[''2'', ''0123'']]" and k = "''01''" and l = DIGITS])
      (simp_all add: HOUR_def digit_classes tens del: set_simps)
next
  case False
  with assms have "h div 10 = 2" "h mod 10 < 4" by presburger+
  with assms show ?thesis
    by (intro read_two[where a = "[]" and k = "''2''" and l = "''0123''"])
      (simp_all add: HOUR_def digit_classes tens del: set_simps)
qed

lemma read_minute:
  assumes "n \<le> 59"
  shows "\<exists>xs. read_directive MINUTE (fixed_digits 2 n @ s) = (fixed_digits 2 n, s) # xs"
proof -
  have "n div 10 < 6" using assms by auto
  with assms show ?thesis
    by (intro read_two[where a = "[]" and k = "''012345''" and l = DIGITS])
      (simp_all add: MINUTE_def digit_classes tens del: set_simps)
qed

lemma read_second:
  assumes "n \<le> 59"
  shows "\<exists>xs. read_directive SECOND (fixed_digits 2 n @ s) = (fixed_digits 2 n, s) # xs"
proof -
  have "n div 10 < 6" using assms by auto
  with assms show ?thesis
    by (intro read_two[where a = "[[''6'', ''01'']]" and k = "''012345''" and l = DIGITS])
      (simp_all add: SECOND_def digit_classes tens del: set_simps)
qed

lemma days_in_month_31: "days_in_month y m \<le> 31"
  by (simp add: days_in_month_def)

lemma format_stamp_fixed:
  "valid_stamp (y, mo, d, h, mi, s, u) \<Longrightarrow> format_stamp (y, mo, d, h, mi, s, u) =
     fixed_digits 4 y @ fixed_digits 2 mo @ fixed_digits 2 d @ ''T'' @
     fixed_digits 2 h @ fixed_digits 2 mi @ fixed_digits 2 s @ fixed_digits 6 u @ ''Z''"
  using days_in_month_31[of y mo] by (simp add: zero_padded_fixed)

text \<open>A time that was written into a name is read back from it.\<close>

lemma parse_format_stamp: "valid_stamp st \<Longrightarrow> parse_stamp (format_stamp st) = Some st"
proof (cases st)
  case (fields y mo d h mi s u)
  assume valid: "valid_stamp st"
  note [simp] = fields
  have d: "d \<le> 31" using valid days_in_month_31[of y mo] by simp
  have ranges: "1 \<le> mo" "mo \<le> 12" "1 \<le> d" "h \<le> 23" "mi \<le> 59" "s \<le> 59" using valid by simp_all
  have mark: "\<exists>xs. read_directive [[''Tt'']] (''T'' @ r) = (''T'', r) # xs"
    "\<exists>xs. read_directive [[''Zz'']] ''Z'' = (''Z'', []) # xs" "\<exists>ys. read_directives [] [] = ([], []) # ys" for r
    by simp_all
  have "\<exists>zs. read_directives STAMP_FORMAT (format_stamp st) =
      ([fixed_digits 4 y, fixed_digits 2 mo, fixed_digits 2 d, ''T'', fixed_digits 2 h, fixed_digits 2 mi,
        fixed_digits 2 s, fixed_digits 6 u, ''Z''], []) # zs"
    unfolding STAMP_FORMAT_def fields format_stamp_fixed[OF valid[unfolded fields]]
    by (rule read_directives_first read_year read_month[OF ranges(1,2)] read_day[OF ranges(3) d] read_hour[OF ranges(4)]
        read_minute[OF ranges(5)] read_second[OF ranges(6)] read_micro mark)+
  moreover have "dropWhile (\<lambda>c. c = CHR '' '') (fixed_digits 2 d) = fixed_digits 2 d"
    using d digit_member[of "d div 10" "'' ''"] by (simp add: fixed_two tens)
  ultimately show ?thesis
    using valid d by (auto simp: parse_stamp_def stamp_of_fields_def parse_fixed)
qed


lemma stem_of_artifact:
  assumes "name \<noteq> []" "CHR ''.'' \<notin> set ext" "ext \<noteq> []"
  shows "path_stem (name @ CHR ''.'' # ext) = name"
proof -
  have "takeWhile (\<lambda>c. c \<noteq> CHR ''.'') (rev ext @ CHR ''.'' # rev name) = rev ext"
    using assms(2) by (subst takeWhile_append2) auto
  then show ?thesis using assms by (simp add: path_stem_def Let_def)
qed

lemma format_stamp_not_Nil [simp]: "format_stamp st \<noteq> []"
  by (cases st) simp

lemma artifact_stamp: "valid_stamp st \<Longrightarrow> parse_timestamp_stem (folder @ [format_stamp st @ ''.md'']) = Some st"
  using stem_of_artifact[of "format_stamp st" "''md''"]
  by (simp add: parse_timestamp_stem_def parse_format_stamp)

section \<open>Names sort like times\<close>

lemma lex_append:
  fixes x x' y y' :: string
  assumes "length x = length x'"
  shows "x @ y < x' @ y' \<longleftrightarrow> x < x' \<or> x = x' \<and> y < y'"
  using assms by (induction x x' rule: list_induct2) auto

lemma digit_less: "j < 10 \<Longrightarrow> k < 10 \<Longrightarrow> digit j < digit k \<longleftrightarrow> j < k"
  by (simp add: less_char_def of_digit)

lemma fixed_inject: "m < 10 ^ w \<Longrightarrow> n < 10 ^ w \<Longrightarrow> fixed_digits w m = fixed_digits w n \<longleftrightarrow> m = n"
  by (metis parse_fixed)

lemma fixed_less: "m < 10 ^ w \<Longrightarrow> n < 10 ^ w \<Longrightarrow> fixed_digits w m < fixed_digits w n \<longleftrightarrow> m < n"
proof (induction w arbitrary: m n)
  case (Suc w)
  then have tens: "m div 10 < 10 ^ w" "n div 10 < 10 ^ w" by (simp_all add: div_less_iff_less_mult mult.commute)
  have "m = 10 * (m div 10) + m mod 10" "n = 10 * (n div 10) + n mod 10" "m mod 10 < 10" "n mod 10 < 10" by simp_all
  then have "m div 10 < n div 10 \<or> m div 10 = n div 10 \<and> m mod 10 < n mod 10 \<longleftrightarrow> m < n" by linarith
  moreover have "fixed_digits (Suc w) m < fixed_digits (Suc w) n \<longleftrightarrow>
      m div 10 < n div 10 \<or> m div 10 = n div 10 \<and> m mod 10 < n mod 10"
    by (simp only: fixed_digits.simps lex_append length_fixed_digits Suc.IH[OF tens] fixed_inject[OF tens]) (simp add: digit_less)
  ultimately show ?case by simp
qed simp

lemma less_or_le: "(a :: nat) < b \<or> a \<le> b \<and> P \<longleftrightarrow> a < b \<or> a = b \<and> P"
  by auto

lemma format_stamp_less:
  assumes "valid_stamp st" "valid_stamp st'"
  shows "format_stamp st < format_stamp st' \<longleftrightarrow> st < st'"
proof (cases st)
  case first: (fields y mo d h mi s u)
  show ?thesis
  proof (cases st')
    case (fields y' mo' d' h' mi' s' u')
    have days: "d \<le> 31" "d' \<le> 31"
      using assms days_in_month_31[of y mo] days_in_month_31[of y' mo'] by (simp_all add: first fields)
    show ?thesis
      using assms days
      by (simp add: first fields format_stamp_fixed lex_append fixed_less fixed_inject less_prod_def less_prod_simp less_or_le
          del: format_stamp.simps fixed_digits.simps)
  qed
qed

lemma length_format_stamp: "valid_stamp st \<Longrightarrow> length (format_stamp st) = 22"
proof (cases st)
  case (fields y mo d h mi s u)
  assume "valid_stamp st"
  then show ?thesis by (simp add: fields format_stamp_fixed del: format_stamp.simps fixed_digits.simps)
qed

lemma format_stamp_inject: "valid_stamp st \<Longrightarrow> valid_stamp st' \<Longrightarrow> format_stamp st = format_stamp st' \<longleftrightarrow> st = st'"
  using parse_format_stamp by (metis option.inject)

lemma next_stamp_valid: "valid_stamp st \<Longrightarrow> next_stamp st = Some st' \<Longrightarrow> valid_stamp st' \<and> st < st'"
proof (cases st)
  case (fields y mo d h mi s u)
  assume "valid_stamp st" "next_stamp st = Some st'"
  then show ?thesis
    by (auto simp: fields less_prod_def split: if_splits) (auto simp: days_in_month_def)
qed

lemma next_stamp_later: "next_stamp st = Some st' \<Longrightarrow> st < st'"
proof (cases st)
  case (fields y mo d h mi s u)
  assume "next_stamp st = Some st'"
  then show ?thesis by (auto simp: fields less_prod_def split: if_splits)
qed

end
