(* ===== verification/Roboz_Artifacts.thy ===== *)
theory Roboz_Artifacts
  imports Roboz_Stamps Roboz_Completion Roboz_Url
begin

text \<open>
  The folders of artifacts that the maintenance tools write into: the newest file of a folder, the
  publication of a file under a fresh time (\<open>shed/tools/memory_files.py\<close>), and the text of a
  snapshot with its coverage marker (\<open>shed/tools/_snapshot_metadata.py\<close>). The world is the files
  with their texts, the clock, the calls of the operating system that fail, and the identifier that
  \<open>uuid4\<close> gives next; whatever is asked of the pipe may change it.
\<close>

declare format_stamp.simps [simp del] valid_stamp.simps [simp del] next_stamp.simps [simp del]
declare split_paired_Ex [simp del] split_paired_All [simp del]

section \<open>The world\<close>

datatype artifact_call =
    MakeFolder | CreateTemporary | WriteTemporary | SyncTemporary | LinkArtifact | RemoveTemporary | RemoveReplaced

record artifact_world =
  artifact_files :: "(location \<times> string) list"
  world_clock :: stamp
  failing_calls :: "artifact_call list"
  next_uuid :: string
  run_disk :: "unit disk"
  run_sources :: "location list"

type_synonym maintenance_pipe = "artifact_world pipe"

definition os_error :: exn where "os_error = OtherException ''OSError''"

definition artifact_exists :: "location \<Rightarrow> artifact_world \<Rightarrow> bool" where
  "artifact_exists path w \<longleftrightarrow> map_of (artifact_files w) path \<noteq> None"

definition put_artifact :: "location \<Rightarrow> string \<Rightarrow> artifact_world \<Rightarrow> artifact_world" where
  "put_artifact path body w = w\<lparr>artifact_files := dict_set path body (artifact_files w)\<rparr>"

definition unlink_artifact :: "location \<Rightarrow> artifact_world \<Rightarrow> artifact_world" where
  "unlink_artifact path w = w\<lparr>artifact_files := filter (\<lambda>e. fst e \<noteq> path) (artifact_files w)\<rparr>"

text \<open>\<open>path.read_text(encoding="utf-8")\<close>.\<close>

definition read_artifact :: "location \<Rightarrow> artifact_world \<Rightarrow> exn + string" where
  "read_artifact path w =
     (case map_of (artifact_files w) path of
        None \<Rightarrow> Inl os_error | Some body \<Rightarrow> Inr (translate_newlines body))"

text \<open>\<open>f"*{suffix}"\<close> directly in a folder, and anywhere below it.\<close>

definition glob_suffix :: "location \<Rightarrow> string \<Rightarrow> artifact_world \<Rightarrow> string list" where
  "glob_suffix folder ext w =
     map last (filter (\<lambda>p. p \<noteq> [] \<and> butlast p = folder \<and> suffix ext (last p)) (map fst (artifact_files w)))"

definition rglob_suffix :: "location \<Rightarrow> string \<Rightarrow> location list \<Rightarrow> location list" where
  "rglob_suffix folder ext = filter (\<lambda>p. strict_prefix folder p \<and> suffix ext (last p))"

section \<open>Files named by time\<close>

text \<open>The first name, in descending order, that is a time.\<close>

definition latest_timestamped_file :: "location \<Rightarrow> string \<Rightarrow> artifact_world \<Rightarrow> (stamp \<times> location) option" where
  "latest_timestamped_file folder ext w =
     (case List.map_filter (\<lambda>name. map_option (\<lambda>st. (st, folder @ [name])) (parse_timestamp_stem (folder @ [name])))
             (rev (sort (glob_suffix folder ext w))) of
        [] \<Rightarrow> None | found # _ \<Rightarrow> Some found)"

text \<open>The candidates of \<open>count()\<close>, until a name is free or the calendar ends.\<close>

function link_candidate ::
  "location \<Rightarrow> string \<Rightarrow> location \<Rightarrow> stamp \<Rightarrow> artifact_world \<Rightarrow> artifact_world \<times> (exn + location)" where
  "link_candidate folder ext temporary st w =
     (let path = folder @ [format_stamp st @ ext]
      in if LinkArtifact \<in> set (failing_calls w) then (w, Inl os_error)
         else if artifact_exists path w then
           (case next_stamp st of
              None \<Rightarrow> (w, Inl (OtherException ''OverflowError''))
            | Some st' \<Rightarrow> link_candidate folder ext temporary st' w)
         else (case map_of (artifact_files w) temporary of
                 None \<Rightarrow> (w, Inl os_error)
               | Some body \<Rightarrow> (put_artifact path body w, Inr path)))"
  by pat_completeness auto
termination
proof (relation "measures (map (\<lambda>f (_, _, _, st, _). f st)
    [\<lambda>(y, mo, d, h, mi, s, u). 9999 - y, \<lambda>(y, mo, d, h, mi, s, u). 12 - mo, \<lambda>(y, mo, d, h, mi, s, u). 31 - d,
     \<lambda>(y, mo, d, h, mi, s, u). 23 - h, \<lambda>(y, mo, d, h, mi, s, u). 59 - mi, \<lambda>(y, mo, d, h, mi, s, u). 59 - s,
     \<lambda>(y, mo, d, h, mi, s, u). 999999 - u])")
  fix folder ext temporary st w path and st' :: stamp
  assume next_st: "next_stamp st = Some st'"
  obtain y mo d h mi s u where st: "st = (y, mo, d, h, mi, s, u)" by (cases st)
  show "((folder, ext, temporary, st', w), (folder, ext, temporary, st, w)) \<in> measures (map (\<lambda>f (_, _, _, st, _). f st)
    [\<lambda>(y, mo, d, h, mi, s, u). 9999 - y, \<lambda>(y, mo, d, h, mi, s, u). 12 - mo, \<lambda>(y, mo, d, h, mi, s, u). 31 - d,
     \<lambda>(y, mo, d, h, mi, s, u). 23 - h, \<lambda>(y, mo, d, h, mi, s, u). 59 - mi, \<lambda>(y, mo, d, h, mi, s, u). 59 - s,
     \<lambda>(y, mo, d, h, mi, s, u). 999999 - u])"
    using next_st days_in_month_31[of y mo] by (auto simp: st next_stamp.simps split: if_splits)
qed simp

text \<open>The body of the \<open>try\<close>: the temporary file, the look at the signals, the link.\<close>

definition publish_artifact ::
  "artifact_world environment \<Rightarrow> location \<Rightarrow> string \<Rightarrow> string \<Rightarrow> location \<Rightarrow> maintenance_pipe
    \<Rightarrow> maintenance_pipe \<times> (exn + location)" where
  "publish_artifact env folder body ext temporary p =
     (let w = outside p; fails = (\<lambda>c. c \<in> set (failing_calls w))
      in if fails CreateTemporary \<or> artifact_exists temporary w then (p, Inl os_error)
         else if fails WriteTemporary then (p\<lparr>outside := put_artifact temporary [] w\<rparr>, Inl os_error)
         else (let p1 = p\<lparr>outside := put_artifact temporary body w\<rparr>
               in if fails SyncTemporary then (p1, Inl os_error)
                  else (case raise_if_cancelled env p1 of
                          (p2, Inl e) \<Rightarrow> (p2, Inl e)
                        | (p2, Inr _) \<Rightarrow>
                            (case link_candidate folder ext temporary (world_clock (outside p2)) (outside p2) of
                               (w', r) \<Rightarrow> (p2\<lparr>outside := w'\<rparr>, r)))))"

text \<open>\<open>finally: temporary_path.unlink(missing_ok=True)\<close>, and the file that is replaced.\<close>

definition write_timestamped_file ::
  "artifact_world environment \<Rightarrow> location \<Rightarrow> string \<Rightarrow> string \<Rightarrow> location option \<Rightarrow> maintenance_pipe
    \<Rightarrow> maintenance_pipe \<times> (exn + location)" where
  "write_timestamped_file env folder body ext replaced p =
     (if MakeFolder \<in> set (failing_calls (outside p)) then (p, Inl os_error)
      else
        (let temporary = folder @ [''.librarian-'' @ next_uuid (outside p) @ ''.tmp'']
         in case publish_artifact env folder body ext temporary p of
              (p1, r) \<Rightarrow>
                if RemoveTemporary \<in> set (failing_calls (outside p1)) then (p1, Inl os_error)
                else
                  (let p2 = p1\<lparr>outside := unlink_artifact temporary (outside p1)\<rparr>
                   in case (r, replaced) of
                        (Inr path, Some old) \<Rightarrow>
                          if RemoveReplaced \<in> set (failing_calls (outside p2)) then (p2, Inl os_error)
                          else (p2\<lparr>outside := unlink_artifact old (outside p2)\<rparr>, Inr path)
                      | _ \<Rightarrow> (p2, r))))"

section \<open>Snapshot documents\<close>

definition SNAPSHOT_COVERAGE_TAG :: string where "SNAPSHOT_COVERAGE_TAG = ''librarian:snapshot-coverage''"
definition COVERAGE_ANY_VERSION_PREFIX :: string where
  "COVERAGE_ANY_VERSION_PREFIX = ''<!-- '' @ SNAPSHOT_COVERAGE_TAG @ '' ''"
definition COVERAGE_PREFIX :: string where
  "COVERAGE_PREFIX = COVERAGE_ANY_VERSION_PREFIX @ ''v1 '' @ ''sequence=''"
definition COVERAGE_SUFFIX :: string where "COVERAGE_SUFFIX = '' -->''"

record snapshot_document =
  sd_content :: string
  covered_through :: "int option"
  coverage_marker_present :: bool

definition format_snapshot_document :: "string \<Rightarrow> int \<Rightarrow> exn + string" where
  "format_snapshot_document text covered =
     (if covered < 0 then Inl (OtherException ''ValueError'')
      else Inr (py_rstrip text @ line_break @ line_break @
             COVERAGE_PREFIX @ show_int covered @ COVERAGE_SUFFIX @ line_break))"

text \<open>\<open>int(text)\<close>: white space around, a sign, digits with single underscores between them.\<close>

definition MAX_STR_DIGITS :: nat where "MAX_STR_DIGITS = 4300"

definition py_int :: "string \<Rightarrow> int option" where
  "py_int text =
     (let t = py_strip text;
          signed = t \<noteq> [] \<and> (hd t = CHR ''-'' \<or> hd t = CHR ''+'');
          groups = split_on (CHR ''_'') (if signed then tl t else t);
          n = int (parse_nat (concat groups))
      in if list_all (\<lambda>g. g \<noteq> [] \<and> list_all is_digit g) groups \<and> length (concat groups) \<le> MAX_STR_DIGITS
         then Some (if signed \<and> hd t = CHR ''-'' then - n else n) else None)"

definition covered_sequence :: "string \<Rightarrow> int option" where
  "covered_sequence candidate =
     (case py_int (drop (length COVERAGE_PREFIX) (take (length candidate - length COVERAGE_SUFFIX) candidate)) of
        None \<Rightarrow> None | Some n \<Rightarrow> if n < 0 then None else Some n)"

definition parse_snapshot_document :: "string \<Rightarrow> snapshot_document" where
  "parse_snapshot_document text =
     (let stripped = py_rstrip text in
      case rpartition_at (CHR 0x0A) stripped of
        (front, separator, final_line) \<Rightarrow>
          let candidate = py_strip final_line; human = (if separator then py_rstrip front else [])
          in if \<not> prefix COVERAGE_ANY_VERSION_PREFIX candidate
             then \<lparr>sd_content = stripped, covered_through = None, coverage_marker_present = False\<rparr>
             else if \<not> (prefix COVERAGE_PREFIX candidate \<and> suffix COVERAGE_SUFFIX candidate)
             then \<lparr>sd_content = human, covered_through = None, coverage_marker_present = True\<rparr>
             else \<lparr>sd_content = human, covered_through = covered_sequence candidate, coverage_marker_present = True\<rparr>)"

section \<open>A marker is read back\<close>

lemma translate_append:
  "translate_from b (x @ y) = translate_from b x @ translate_from (if x = [] then b else last x = CHR 0x0D) y"
  by (induction b x rule: translate_from.induct) auto

lemma translate_plain: "CHR 0x0D \<notin> set s \<Longrightarrow> translate_from False s = s"
  by (induction s) auto

lemma translate_last:
  "x \<noteq> [] \<Longrightarrow> \<not> py_space (last x) \<Longrightarrow> translate_from b x \<noteq> [] \<and> last (translate_from b x) = last x"
proof -
  assume x: "x \<noteq> []" "\<not> py_space (last x)"
  then obtain y c where "x = y @ [c]" by (cases x rule: rev_cases) auto
  with x(2) show ?thesis by (auto simp: translate_append py_space_def)
qed

lemma py_rstrip_fixed: "x = [] \<or> \<not> py_space (last x) \<Longrightarrow> py_rstrip x = x"
  by (cases x rule: rev_cases) (auto simp: py_rstrip_def)

lemma py_rstrip_last: "py_rstrip x = [] \<or> \<not> py_space (last (py_rstrip x))"
proof -
  have "dropWhile py_space (rev x) = [] \<or> \<not> py_space (hd (dropWhile py_space (rev x)))"
    using hd_dropWhile by blast
  then show ?thesis by (auto simp: py_rstrip_def last_rev)
qed

lemma py_rstrip_spaces: "list_all py_space y \<Longrightarrow> py_rstrip (x @ y) = py_rstrip x"
  by (simp add: py_rstrip_def list_all_iff) (subst dropWhile_append2, auto)

lemma py_rstrip_end: "\<not> py_space (last y) \<Longrightarrow> y \<noteq> [] \<Longrightarrow> py_rstrip (x @ y) = x @ y"
  by (intro py_rstrip_fixed) simp

lemma rpartition_last:
  assumes "c \<notin> set b"
  shows "rpartition_at c (a @ c # b) = (a, True, b)"
proof -
  have "takeWhile (\<lambda>d. d \<noteq> c) (rev b @ c # rev a) = rev b @ takeWhile (\<lambda>d. d \<noteq> c) (c # rev a)"
    by (rule takeWhile_append2) (use assms in auto)
  moreover have "dropWhile (\<lambda>d. d \<noteq> c) (rev b @ c # rev a) = dropWhile (\<lambda>d. d \<noteq> c) (c # rev a)"
    by (rule dropWhile_append2) (use assms in auto)
  ultimately have "takeWhile (\<lambda>d. d \<noteq> c) (rev b @ c # rev a) = rev b" "dropWhile (\<lambda>d. d \<noteq> c) (rev b @ c # rev a) = c # rev a"
    by simp_all
  then show ?thesis by (simp add: rpartition_at_def partition_at_def)
qed

lemma digits_no_underscore: "split_on (CHR ''_'') (digits_of n) = [digits_of n]"
proof -
  have "CHR ''_'' \<notin> set (digits_of n)" using digits_of_digits[of n] by (auto simp: is_digit_def)
  then show ?thesis by (rule split_on_word)
qed

lemma py_int_show: "length (digits_of n) \<le> MAX_STR_DIGITS \<Longrightarrow> py_int (digits_of n) = Some (int n)"
proof -
  assume short: "length (digits_of n) \<le> MAX_STR_DIGITS"
  have digits: "\<forall>c \<in> set (digits_of n). is_digit c" by (rule digits_of_digits)
  then have ends: "is_digit (hd (digits_of n))" "is_digit (last (digits_of n))" by simp_all
  have space: "\<not> py_space c" if "is_digit c" for c using that by (auto simp: py_space_def is_digit_def less_eq_char_def)
  have "py_strip ([] @ digits_of n) = digits_of n" using ends space by (intro py_strip_bounds) auto
  moreover have "hd (digits_of n) \<noteq> CHR ''-''" "hd (digits_of n) \<noteq> CHR ''+''" using ends(1) by (auto simp: is_digit_def less_eq_char_def)
  ultimately show ?thesis using short digits by (simp add: py_int_def Let_def digits_no_underscore parse_nat_digits list_all_iff)
qed

text \<open>The text of a snapshot gives back its content and its coverage.\<close>

lemma snapshot_document_is_read_back:
  assumes "format_snapshot_document text (int n) = Inr body" "length (digits_of n) \<le> MAX_STR_DIGITS"
  shows "parse_snapshot_document (translate_newlines body) =
    \<lparr>sd_content = translate_newlines (py_rstrip text), covered_through = Some (int n), coverage_marker_present = True\<rparr>"
proof -
  let ?x = "py_rstrip text"
  let ?x' = "translate_from False ?x"
  let ?marker = "COVERAGE_PREFIX @ digits_of n @ COVERAGE_SUFFIX"
  have body: "body = ?x @ [CHR 0x0A, CHR 0x0A] @ ?marker @ [CHR 0x0A]"
    using assms(1) by (simp add: format_snapshot_document_def line_break_def show_int_def)
  have digits: "\<forall>c \<in> set (digits_of n). is_digit c" by (rule digits_of_digits)
  have plain: "CHR 0x0A \<notin> set ?marker" "CHR 0x0D \<notin> set ?marker"
    using digits by (auto simp: COVERAGE_PREFIX_def COVERAGE_ANY_VERSION_PREFIX_def SNAPSHOT_COVERAGE_TAG_def
        COVERAGE_SUFFIX_def is_digit_def less_eq_char_def)
  have x_last: "?x = [] \<or> last ?x \<noteq> CHR 0x0D" using py_rstrip_last[of "text"] by (auto simp: py_space_def)
  then have "translate_newlines body = ?x' @ [CHR 0x0A, CHR 0x0A] @ ?marker @ [CHR 0x0A]"
  proof -
    have cr: "CHR 0x0D \<notin> set ([CHR 0x0A, CHR 0x0A] @ ?marker @ [CHR 0x0A])" using plain by simp
    have "(if ?x = [] then False else last ?x = CHR 0x0D) = False" using x_last by auto
    then show ?thesis
      unfolding translate_newlines_def body translate_append[of False ?x] by (simp only: translate_plain[OF cr])
  qed
  moreover have "py_rstrip (?x' @ [CHR 0x0A, CHR 0x0A] @ ?marker @ [CHR 0x0A]) = ?x' @ [CHR 0x0A, CHR 0x0A] @ ?marker"
  proof -
    have "py_rstrip ((?x' @ [CHR 0x0A, CHR 0x0A] @ ?marker) @ [CHR 0x0A]) = py_rstrip (?x' @ [CHR 0x0A, CHR 0x0A] @ ?marker)"
      by (rule py_rstrip_spaces) (simp add: py_space_def)
    moreover have "py_rstrip (?x' @ [CHR 0x0A, CHR 0x0A] @ ?marker) = ?x' @ [CHR 0x0A, CHR 0x0A] @ ?marker"
      by (intro py_rstrip_fixed) (simp add: COVERAGE_SUFFIX_def py_space_def)
    ultimately show ?thesis by simp
  qed
  moreover have "rpartition_at (CHR 0x0A) (?x' @ [CHR 0x0A, CHR 0x0A] @ ?marker) = (?x' @ [CHR 0x0A], True, ?marker)"
    using rpartition_last[OF plain(1), of "?x' @ [CHR 0x0A]"] by simp
  moreover have "py_strip ([] @ ?marker) = ?marker"
    by (intro py_strip_bounds) (simp_all add: COVERAGE_PREFIX_def COVERAGE_ANY_VERSION_PREFIX_def COVERAGE_SUFFIX_def py_space_def)
  moreover have "py_rstrip (?x' @ [CHR 0x0A]) = ?x'"
  proof -
    have "py_rstrip (?x' @ [CHR 0x0A]) = py_rstrip ?x'" by (rule py_rstrip_spaces) (simp add: py_space_def)
    moreover have "?x' = [] \<or> \<not> py_space (last ?x')"
      using py_rstrip_last[of "text"] translate_last[of ?x False] by (cases "?x = []") auto
    ultimately show ?thesis by (simp add: py_rstrip_fixed)
  qed
  moreover have "covered_sequence ?marker = Some (int n)"
    using py_int_show[OF assms(2)] by (simp add: covered_sequence_def)
  moreover have "prefix COVERAGE_ANY_VERSION_PREFIX ?marker" "prefix COVERAGE_PREFIX ?marker" "suffix COVERAGE_SUFFIX ?marker"
    by (auto simp: COVERAGE_PREFIX_def prefix_def suffix_def)
  ultimately show ?thesis
    by (simp add: parse_snapshot_document_def translate_newlines_def Let_def)
qed

section \<open>Publication\<close>

text \<open>An environment whose messages leave the artifacts alone and do not turn the clock back.\<close>

definition keeps_artifacts :: "artifact_world environment \<Rightarrow> bool" where
  "keeps_artifacts env \<longleftrightarrow>
     (\<forall>w. artifact_files (fst (arrivals env w)) = artifact_files w \<and>
          world_clock w \<le> world_clock (fst (arrivals env w)) \<and>
          (valid_stamp (world_clock w) \<longrightarrow> valid_stamp (world_clock (fst (arrivals env w)))))"

lemma outside_request [simp]: "outside (request r p) = outside p"
  by (cases r) (simp_all add: cancel_def interrupt_def)

lemma outside_fold_request [simp]: "outside (fold request rs p) = outside p"
  by (induction rs arbitrary: p) simp_all

lemma check_keeps_artifacts:
  assumes "keeps_artifacts env" "raise_if_cancelled env p = (p', r)"
  shows "artifact_files (outside p') = artifact_files (outside p)"
    "world_clock (outside p) \<le> world_clock (outside p')"
    "valid_stamp (world_clock (outside p)) \<Longrightarrow> valid_stamp (world_clock (outside p'))"
proof -
  have "outside p' = fst (arrivals env (outside p))"
    using assms(2) by (auto simp: raise_if_cancelled_def Let_def observe_def split: prod.splits if_splits)
  then show "artifact_files (outside p') = artifact_files (outside p)"
    "world_clock (outside p) \<le> world_clock (outside p')"
    "valid_stamp (world_clock (outside p)) \<Longrightarrow> valid_stamp (world_clock (outside p'))"
    using assms(1) by (simp_all add: keeps_artifacts_def)
qed

lemma unlink_simps [simp]:
  "map_of (artifact_files (unlink_artifact path w)) q = (if q = path then None else map_of (artifact_files w) q)"
  "world_clock (unlink_artifact path w) = world_clock w" "failing_calls (unlink_artifact path w) = failing_calls w"
proof -
  have "map_of (filter (\<lambda>e. fst e \<noteq> path) es) q = (if q = path then None else map_of es q)" for es :: "(location \<times> string) list"
    by (induction es) auto
  then show "map_of (artifact_files (unlink_artifact path w)) q = (if q = path then None else map_of (artifact_files w) q)"
    by (simp add: unlink_artifact_def)
qed (simp_all add: unlink_artifact_def)

lemma put_artifact_simps [simp]:
  "map_of (artifact_files (put_artifact path body w)) = (map_of (artifact_files w))(path \<mapsto> body)"
  "world_clock (put_artifact path body w) = world_clock w" "failing_calls (put_artifact path body w) = failing_calls w"
  by (simp_all add: put_artifact_def)

lemma link_candidate_result:
  "link_candidate folder ext temporary st w = (w', r) \<Longrightarrow>
     (case r of
        Inl e \<Rightarrow> w' = w
      | Inr path \<Rightarrow> \<exists>st' body. path = folder @ [format_stamp st' @ ext] \<and> st \<le> st' \<and>
          (valid_stamp st \<longrightarrow> valid_stamp st') \<and> map_of (artifact_files w) path = None \<and>
          map_of (artifact_files w) temporary = Some body \<and> w' = put_artifact path body w)"
proof (induction folder ext temporary st w rule: link_candidate.induct)
  case (1 folder ext temporary st w)
  let ?path = "folder @ [format_stamp st @ ext]"
  consider (broken) "LinkArtifact \<in> set (failing_calls w)"
    | (taken) "LinkArtifact \<notin> set (failing_calls w)" "artifact_exists ?path w"
    | (free) "LinkArtifact \<notin> set (failing_calls w)" "\<not> artifact_exists ?path w" by blast
  then show ?case
  proof cases
    case broken
    with "1.prems" show ?thesis by (auto simp: link_candidate.simps[of folder])
  next
    case taken
    show ?thesis
    proof (cases "next_stamp st")
      case None
      with taken "1.prems" show ?thesis by (auto simp: link_candidate.simps[of folder])
    next
      case (Some st')
      with taken "1.prems" have "link_candidate folder ext temporary st' w = (w', r)"
        by (simp add: link_candidate.simps[of folder ext temporary st])
      from "1.IH"[OF refl taken(1) taken(2) Some this] show ?thesis
        using next_stamp_valid[OF _ Some] next_stamp_later[OF Some] by (fastforce split: sum.splits)
    qed
  next
    case free
    with "1.prems" show ?thesis
      by (auto simp: link_candidate.simps[of folder] artifact_exists_def Let_def split: option.splits)
  qed
qed

text \<open>What \<open>publish_artifact\<close> leaves apart from its temporary file.\<close>

lemma publish_artifact_result:
  assumes env: "keeps_artifacts env" and run: "publish_artifact env folder body ext temporary p = (p', r)"
    and fresh: "\<not> artifact_exists temporary (outside p)"
  shows "case r of
      Inl e \<Rightarrow> \<forall>q. q \<noteq> temporary \<longrightarrow> map_of (artifact_files (outside p')) q = map_of (artifact_files (outside p)) q
    | Inr path \<Rightarrow> \<exists>st. path = folder @ [format_stamp st @ ext] \<and> path \<noteq> temporary \<and>
        world_clock (outside p) \<le> st \<and> (valid_stamp (world_clock (outside p)) \<longrightarrow> valid_stamp st) \<and>
        map_of (artifact_files (outside p)) path = None \<and>
        (\<forall>q. q \<noteq> temporary \<longrightarrow>
           map_of (artifact_files (outside p')) q = ((map_of (artifact_files (outside p)))(path \<mapsto> body)) q)"
proof (cases "CreateTemporary \<in> set (failing_calls (outside p)) \<or> WriteTemporary \<in> set (failing_calls (outside p)) \<or>
    SyncTemporary \<in> set (failing_calls (outside p))")
  case True
  with run fresh show ?thesis by (auto simp: publish_artifact_def Let_def split: if_splits)
next
  case False
  let ?p1 = "p\<lparr>outside := put_artifact temporary body (outside p)\<rparr>"
  obtain p2 c where check: "raise_if_cancelled env ?p1 = (p2, c)" by fastforce
  note kept = check_keeps_artifacts[OF env check]
  show ?thesis
  proof (cases c)
    case (Inl e)
    with False run fresh check kept show ?thesis by (auto simp: publish_artifact_def Let_def)
  next
    case (Inr u)
    obtain w' r' where link: "link_candidate folder ext temporary (world_clock (outside p2)) (outside p2) = (w', r')" by fastforce
    with Inr False run fresh check have p': "p' = p2\<lparr>outside := w'\<rparr>" "r = r'"
      by (auto simp: publish_artifact_def Let_def)
    have files: "map_of (artifact_files (outside p2)) = (map_of (artifact_files (outside p)))(temporary \<mapsto> body)"
      using kept(1) by simp
    from link_candidate_result[OF link] show ?thesis
    proof (cases r')
      case (Inl e)
      with link_candidate_result[OF link] p' files show ?thesis by simp
    next
      case (Inr path)
      with link_candidate_result[OF link] obtain st b where st: "path = folder @ [format_stamp st @ ext]"
        "world_clock (outside p2) \<le> st" "valid_stamp (world_clock (outside p2)) \<longrightarrow> valid_stamp st"
        "map_of (artifact_files (outside p2)) path = None" "map_of (artifact_files (outside p2)) temporary = Some b"
        "w' = put_artifact path b (outside p2)" by auto
      have "b = body" "path \<noteq> temporary" using st(4,5) files by auto
      moreover have "world_clock (outside p) \<le> st" using kept(2) st(2) by (simp add: order_trans)
      moreover have "valid_stamp (world_clock (outside p)) \<longrightarrow> valid_stamp st" using kept(3) st(3) by simp
      ultimately show ?thesis using Inr st files p' by auto
    qed
  qed
qed

text \<open>
  C33. An artifact is published whole or not at all: whatever call of the operating system fails and
  whenever the run is cancelled, no file that was there is lost or changed, other than the one that
  is replaced, and only after the new file is there; the new file is named by a time not before
  the clock, had no file under its name, and holds the complete text; and unless its own removal
  fails, the temporary file is gone.
\<close>

theorem artifact_is_published_whole:
  assumes env: "keeps_artifacts env" and run: "write_timestamped_file env folder body ext replaced p = (p', r)"
    and temporary: "temporary = folder @ [''.librarian-'' @ next_uuid (outside p) @ ''.tmp'']"
    and fresh: "\<not> artifact_exists temporary (outside p)"
  shows "(RemoveTemporary \<notin> set (failing_calls (outside p')) \<longrightarrow> \<not> artifact_exists temporary (outside p')) \<and>
    (case r of
       Inr path \<Rightarrow> (\<exists>st. path = folder @ [format_stamp st @ ext] \<and> world_clock (outside p) \<le> st) \<and>
         \<not> artifact_exists path (outside p) \<and>
         (\<forall>q. q \<noteq> temporary \<longrightarrow> map_of (artifact_files (outside p')) q =
            (if replaced = Some q then None else if q = path then Some body else map_of (artifact_files (outside p)) q))
     | Inl e \<Rightarrow> \<forall>q. q \<noteq> temporary \<longrightarrow>
         map_of (artifact_files (outside p')) q = map_of (artifact_files (outside p)) q \<or>
         map_of (artifact_files (outside p)) q = None \<and> map_of (artifact_files (outside p')) q = Some body)"
proof (cases "MakeFolder \<in> set (failing_calls (outside p))")
  case True
  with run fresh show ?thesis by (auto simp: write_timestamped_file_def)
next
  case False
  obtain p1 r1 where publish: "publish_artifact env folder body ext temporary p = (p1, r1)" by fastforce
  note result = publish_artifact_result[OF env publish fresh]
  show ?thesis
  proof (cases "RemoveTemporary \<in> set (failing_calls (outside p1))")
    case True
    with False run publish temporary have "p' = p1" "r = Inl os_error" by (auto simp: write_timestamped_file_def Let_def)
    with True result show ?thesis by (cases r1) (auto split: if_splits)
  next
    case removed: False
    let ?p2 = "p1\<lparr>outside := unlink_artifact temporary (outside p1)\<rparr>"
    show ?thesis
    proof (cases r1)
      case (Inl e)
      with False removed run publish temporary have "p' = ?p2" "r = Inl e" by (auto simp: write_timestamped_file_def Let_def)
      with result Inl show ?thesis by (simp add: artifact_exists_def)
    next
      case (Inr path)
      with False removed run publish temporary have
        "p' = ?p2 \<and> r = Inr path \<and> replaced = None \<or> p' = ?p2 \<and> r = Inl os_error \<or>
         (\<exists>old. replaced = Some old \<and> p' = ?p2\<lparr>outside := unlink_artifact old (outside ?p2)\<rparr> \<and> r = Inr path)"
        by (cases replaced) (auto simp: write_timestamped_file_def Let_def split: if_splits)
      with result Inr show ?thesis by (auto simp: artifact_exists_def)
    qed
  qed
qed

section \<open>The newest file\<close>

lemma parse_stamp_valid: "parse_stamp s = Some st \<Longrightarrow> valid_stamp st"
  by (auto simp: parse_stamp_def stamp_of_fields_def Let_def split: list.splits if_splits)

lemma glob_member:
  "name \<in> set (glob_suffix folder ext w) \<longleftrightarrow> suffix ext name \<and> map_of (artifact_files w) (folder @ [name]) \<noteq> None"
proof -
  have "name \<in> set (glob_suffix folder ext w) \<longleftrightarrow> suffix ext name \<and> folder @ [name] \<in> fst ` set (artifact_files w)"
    unfolding glob_suffix_def by (force simp: image_iff snoc_eq_iff_butlast)
  then show ?thesis by (simp add: map_of_eq_None_iff)
qed

lemma map_filter_greatest:
  fixes f :: "'a :: linorder \<Rightarrow> 'b option"
  assumes "n \<in> set xs" "f n = Some v" "\<And>m. m \<in> set xs \<Longrightarrow> f m \<noteq> None \<Longrightarrow> m \<le> n"
  shows "\<exists>ys. List.map_filter f (rev (sort xs)) = v # ys"
proof -
  have "n \<in> set (rev (sort xs))" using assms(1) by simp
  then obtain a b where split: "rev (sort xs) = a @ n # b" "n \<notin> set a" by (metis split_list_first)
  have "sorted (rev (a @ n # b))" by (metis rev_rev_ident sorted_sort split(1))
  then have "n \<le> m" if "m \<in> set a" for m using that by (auto simp: sorted_append)
  moreover have "m \<in> set xs" if "m \<in> set a" for m using that split(1) by (metis UnI1 set_append set_rev set_sort)
  ultimately have "f m = None" if "m \<in> set a" for m
    using that assms(3)[of m] split(2) by (cases "m = n") (auto intro: antisym)
  then have "List.map_filter f a = []" by (induction a) (simp_all add: List.map_filter_simps)
  then show ?thesis using assms(2) by (simp add: split(1) map_filter_def)
qed

text \<open>Every timestamped file of the folder was named by \<open>write_timestamped_file\<close> before now.\<close>

definition timely :: "location \<Rightarrow> string \<Rightarrow> artifact_world \<Rightarrow> bool" where
  "timely folder ext w \<longleftrightarrow>
     list_all (\<lambda>name. case parse_timestamp_stem (folder @ [name]) of
         None \<Rightarrow> True | Some st \<Rightarrow> name = format_stamp st @ ext \<and> st < world_clock w) (glob_suffix folder ext w)"

text \<open>The file that was written is the newest one.\<close>

lemma written_is_latest:
  assumes env: "keeps_artifacts env" and run: "write_timestamped_file env folder body ''.md'' None p = (p', Inr path)"
    and fresh: "\<not> artifact_exists (folder @ [''.librarian-'' @ next_uuid (outside p) @ ''.tmp'']) (outside p)"
    and clock: "valid_stamp (world_clock (outside p))" and timely: "timely folder ''.md'' (outside p)"
  shows "\<exists>st. latest_timestamped_file folder ''.md'' (outside p') = Some (st, path) \<and>
    read_artifact path (outside p') = Inr (translate_newlines body) \<and>
    world_clock (outside p) \<le> st"
proof -
  let ?temporary = "folder @ [''.librarian-'' @ next_uuid (outside p) @ ''.tmp'']"
  have "MakeFolder \<notin> set (failing_calls (outside p))" using run by (auto simp: write_timestamped_file_def split: if_splits)
  then obtain p1 where publish: "publish_artifact env folder body ''.md'' ?temporary p = (p1, Inr path)"
    and p': "p' = p1\<lparr>outside := unlink_artifact ?temporary (outside p1)\<rparr>"
    using run by (auto simp: write_timestamped_file_def Let_def split: prod.splits if_splits sum.splits)
  from publish_artifact_result[OF env publish fresh, unfolded sum.case] clock obtain st where
    st: "path = folder @ [format_stamp st @ ''.md'']"
    "path \<noteq> ?temporary" "world_clock (outside p) \<le> st" "valid_stamp st" "map_of (artifact_files (outside p)) path = None"
    and all: "\<forall>q. q \<noteq> ?temporary \<longrightarrow> map_of (artifact_files (outside p1)) q = ((map_of (artifact_files (outside p)))(path \<mapsto> body)) q"
    by metis
  have files: "map_of (artifact_files (outside p1)) q = ((map_of (artifact_files (outside p)))(path \<mapsto> body)) q"
    if "q \<noteq> ?temporary" for q using all that by blast
  let ?found = "\<lambda>name. map_option (\<lambda>st. (st, folder @ [name])) (parse_timestamp_stem (folder @ [name]))"
  have stamp: "parse_timestamp_stem path = Some st" using artifact_stamp[OF st(4)] by (simp add: st(1))
  have here: "map_of (artifact_files (outside p')) path = Some body" using files[OF st(2)] st(2) by (simp add: p')
  have "m \<le> format_stamp st @ ''.md''" if m: "m \<in> set (glob_suffix folder ''.md'' (outside p'))" "?found m \<noteq> None" for m
  proof (cases "folder @ [m] = path")
    case False
    from m(2) obtain t where t: "parse_timestamp_stem (folder @ [m]) = Some t" by auto
    from m(1) have "suffix ''.md'' m" "folder @ [m] \<noteq> ?temporary" "map_of (artifact_files (outside p1)) (folder @ [m]) \<noteq> None"
      by (auto simp: glob_member p' split: if_splits)
    with files False have "m \<in> set (glob_suffix folder ''.md'' (outside p))" by (auto simp: glob_member)
    with timely t have "m = format_stamp t @ ''.md''" "t < world_clock (outside p)" by (auto simp: timely_def list_all_iff)
    moreover have "valid_stamp t" using t parse_stamp_valid by (auto simp: parse_timestamp_stem_def)
    moreover from calculation st(3) have "t < st" by order
    ultimately have "format_stamp t < format_stamp st" "length (format_stamp t) = length (format_stamp st)"
      using st(4) by (simp_all add: format_stamp_less length_format_stamp)
    with \<open>m = format_stamp t @ ''.md''\<close> show ?thesis by (simp add: lex_append less_imp_le)
  qed (simp add: st(1))
  moreover have "format_stamp st @ ''.md'' \<in> set (glob_suffix folder ''.md'' (outside p'))"
    using here by (simp add: glob_member st(1) suffix_def)
  ultimately have "\<exists>ys. List.map_filter ?found (rev (sort (glob_suffix folder ''.md'' (outside p')))) = (st, path) # ys"
    using stamp by (intro map_filter_greatest) (auto simp: st(1))
  then have "latest_timestamped_file folder ''.md'' (outside p') = Some (st, path)"
    by (auto simp: latest_timestamped_file_def)
  then show ?thesis using here st(3) by (simp add: read_artifact_def)
qed

section \<open>Concrete worlds\<close>

definition still_environment :: "artifact_world environment" where
  "still_environment = \<lparr>deliver = (\<lambda>_ _ w. (w, None)), new_uuid = (\<lambda>w. (w, ''u'')), arrivals = (\<lambda>w. (w, []))\<rparr>"

definition sample_world :: "artifact_call list \<Rightarrow> artifact_world" where
  "sample_world broken =
     \<lparr>artifact_files = [([''s'', ''20260203T040506000007Z.md''], ''old'')], world_clock = (2026, 2, 3, 4, 5, 6, 7),
      failing_calls = broken, next_uuid = ''u'',
      run_disk = \<lparr>documents = (\<lambda>_. None), markers = [], surroundings = ()\<rparr>, run_sources = []\<rparr>"

lemma still_keeps_artifacts: "keeps_artifacts still_environment"
  by (simp add: keeps_artifacts_def still_environment_def)

text \<open>Evaluation of stamps and names.\<close>

lemmas stamp_eval = format_stamp.simps next_stamp.simps zero_padded_def show_int_def digits_of.simps valid_stamp.simps
  days_in_month_def leap_year_def

lemma sample_name: "format_stamp (2026, 2, 3, 4, 5, 6, 7) = ''20260203T040506000007Z''"
  "format_stamp (2026, 2, 3, 4, 5, 6, 8) = ''20260203T040506000008Z''"
proof -
  have zeros: "replicate 5 c = [c, c, c, c, c]" for c :: char by (simp add: numeral_eq_Suc)
  have chars: "map char_of [48, 50, 51, 52, 53, 54, 55, 56 :: nat] = ''02345678''" by code_simp
  then show "format_stamp (2026, 2, 3, 4, 5, 6, 7) = ''20260203T040506000007Z''"
    "format_stamp (2026, 2, 3, 4, 5, 6, 8) = ''20260203T040506000008Z''"
    by (simp_all add: stamp_eval zeros)
qed

lemma sample_write:
  "case write_timestamped_file still_environment [''s''] ''new'' ''.md'' None (event_pipe [] (sample_world [])) of
     (p', Inr path) \<Rightarrow> path = [''s'', ''20260203T040506000008Z.md''] | _ \<Rightarrow> False"
proof -
  have "next_stamp (2026, 2, 3, 4, 5, 6, 7) = Some (2026, 2, 3, 4, 5, 6, 8)" by (simp add: next_stamp.simps)
  then show ?thesis
    by (simp add: write_timestamped_file_def publish_artifact_def event_pipe_def sample_world_def artifact_exists_def
        raise_if_cancelled_def observe_def still_environment_def put_artifact_def sample_name Let_def
        link_candidate.simps[of _ _ _ "(2026, 2, 3, 4, 5, 6, 7)"] link_candidate.simps[of _ _ _ "(2026, 2, 3, 4, 5, 6, 8)"])
qed

theorem artifact_is_published_whole_witness:
  "\<exists>p'. write_timestamped_file still_environment [''s''] ''new'' ''.md'' None (event_pipe [] (sample_world [])) =
       (p', Inr [''s'', ''20260203T040506000008Z.md'']) \<and>
     map_of (artifact_files (outside p')) [''s'', ''20260203T040506000008Z.md''] = Some ''new''"
proof -
  obtain p' where run: "write_timestamped_file still_environment [''s''] ''new'' ''.md'' None (event_pipe [] (sample_world [])) =
      (p', Inr [''s'', ''20260203T040506000008Z.md''])"
    using sample_write by (auto split: prod.splits sum.splits)
  have "\<not> artifact_exists ([''s''] @ [''.librarian-'' @ next_uuid (outside (event_pipe [] (sample_world []))) @ ''.tmp''])
      (outside (event_pipe [] (sample_world [])))"
    by (simp add: artifact_exists_def event_pipe_def sample_world_def)
  from artifact_is_published_whole[OF still_keeps_artifacts run refl this] run show ?thesis
    by (simp add: event_pipe_def sample_world_def)
qed

end
