(* ===== verification/Roboz_Librarian.thy ===== *)
theory Roboz_Librarian
  imports Roboz_Artifacts Roboz_Compact Roboz_Patterns
begin

text \<open>
  Snapshots of persisted conversations (\<open>shed/tools/snapshot_conversations.py\<close>,
  \<open>snapshot_normalize.py\<close>), which the theory of memory consolidates. The world of the pipe is the
  one of the artifacts, with the modelled disk of conversations; a summary is the modelled call of
  \<open>summarize_conversation_segment\<close>, which may change all of it. The pipe of a context is always
  given; log records and the fixed prompts are left out. Conversation identifiers are file names.
\<close>

declare format_stamp.simps [simp del] valid_stamp.simps [simp del] next_stamp.simps [simp del]
declare split_paired_Ex [simp del] split_paired_All [simp del]

section \<open>Errors\<close>

definition raised_error :: "exn \<Rightarrow> completion_error" where
  "raised_error e = Passed (RaisedOther e)"

definition lift_render :: "render_error + 'a \<Rightarrow> completion_error + 'a" where
  "lift_render r =
     (case r of
        Inl JSONDecodeError \<Rightarrow> Inl (raised_error (OtherException ''JSONDecodeError''))
      | Inl TypeError \<Rightarrow> Inl (raised_error (OtherException ''TypeError''))
      | Inr v \<Rightarrow> Inr v)"

text \<open>\<open>except LLMProviderRequestError\<close>.\<close>

definition librarian_failure :: "completion_error \<Rightarrow> completion_error" where
  "librarian_failure e =
     (case e of
        Passed (RaisedOther (ProviderRequest _)) \<Rightarrow> raised_error (OtherException ''LibrarianProviderRequestFailure'')
      | _ \<Rightarrow> e)"

section \<open>The rows a snapshot covers\<close>

definition uncovered_rows :: "logged_message_row list \<Rightarrow> snapshot_document option \<Rightarrow> logged_message_row list" where
  "uncovered_rows rows doc =
     (case doc of
        None \<Rightarrow> rows
      | Some d \<Rightarrow>
          if coverage_marker_present d then
            (case covered_through d of
               None \<Rightarrow> rows | Some n \<Rightarrow> filter (\<lambda>row. n < int (lm_sequence row)) rows)
          else rows)"

definition persisted_snapshot_covers :: "location \<Rightarrow> nat \<Rightarrow> artifact_world \<Rightarrow> bool" where
  "persisted_snapshot_covers path n w =
     (case read_artifact path w of
        Inl _ \<Rightarrow> False
      | Inr body \<Rightarrow>
          (let d = parse_snapshot_document body
           in coverage_marker_present d \<and> (case covered_through d of None \<Rightarrow> False | Some c \<Rightarrow> int n \<le> c)))"

section \<open>The messages that are summarized\<close>

definition marker_message :: "message \<Rightarrow> string \<Rightarrow> message" where
  "marker_message m t =
     \<lparr>msg_role = msg_role m, content = t, images = [], caller = None, timestamp = timestamp m,
      msg_truncation = msg_truncation m, message_kind = None\<rparr>"

definition normalize_message :: "string \<Rightarrow> string option \<Rightarrow> message \<Rightarrow> message option" where
  "normalize_message agent description m =
     (case message_kind m of
        Some AUTO_LOAD_BANNER \<Rightarrow> None
      | Some SYSTEM_MESSAGE \<Rightarrow>
          Some (marker_message m (''[system prompt omitted] '' @ agent @ '': '' @
            (case description of None \<Rightarrow> ''no persisted agent description''
             | Some d \<Rightarrow> if d = [] then ''no persisted agent description'' else d)))
      | Some STARTUP_CONTEXT \<Rightarrow> Some (marker_message m ''[startup context omitted: persistent memory injected]'')
      | Some AUTO_LOADED_SKILL \<Rightarrow>
          Some (marker_message m (''[auto-loaded skill omitted: '' @
            (case caller m of None \<Rightarrow> ''unknown'' | Some c \<Rightarrow> if c = [] then ''unknown'' else c) @ '']''))
      | _ \<Rightarrow> Some m)"

definition normalize_messages_for_snapshot :: "string \<Rightarrow> string option \<Rightarrow> message list \<Rightarrow> message list" where
  "normalize_messages_for_snapshot agent description = List.map_filter (normalize_message agent description)"

definition image_references :: "string list \<Rightarrow> string" where
  "image_references names =
     concat (map (\<lambda>(i, name). line_break @ ''[image '' @ show_int (int i) @ '': '' @ name @ '']'') (enumerate 1 names))"

definition temporal_messages ::
  "(json \<Rightarrow> string) \<Rightarrow> nat \<Rightarrow> nat \<times> logged_message_row \<times> message \<Rightarrow> completion_error + message list" where
  "temporal_messages str n entry =
     (case entry of (i, row, m) \<Rightarrow>
        let selected = select_truncation (int n - int i - 1) (msg_truncation m);
            stubbed = (case selected of None \<Rightarrow> False | Some rule \<Rightarrow> severity rule = STUB);
            names = (if msg_role m \<noteq> SYSTEM \<and> stubbed then [] else lm_image_names row)
        in traverse
             (\<lambda>visible. rbind (lift_render (render_content visible)) (\<lambda>body.
                Inr (visible\<lparr>content := ''[sequence='' @ show_int (int (lm_sequence row)) @ '' created_at='' @
                               lm_created_at row @ '']'' @ line_break @ body @ image_references names,
                             caller := None, msg_truncation := NO_TRUNCATION\<rparr>)))
             (get_truncated_messages_for_context (\<lambda>_ _. selected) (truncate_content str) [m]))"

definition normalize_temporal_messages ::
  "(json \<Rightarrow> string) \<Rightarrow> string \<Rightarrow> string option \<Rightarrow> logged_message_row list \<Rightarrow> completion_error + message list" where
  "normalize_temporal_messages str agent description rows =
     (let pending = concat (map (\<lambda>row. map (Pair row)
            (normalize_messages_for_snapshot agent description [logged_row_to_message row])) rows)
      in rbind (traverse (temporal_messages str (length pending)) (enumerate 0 pending)) (\<lambda>mss. Inr (concat mss)))"

section \<open>The input of a summary\<close>

fun snapshot_mode :: "run_status \<Rightarrow> string" where
  "snapshot_mode COMPLETED = ''terminal-completed''"
| "snapshot_mode FAILED = ''terminal-failed''"
| "snapshot_mode RUNNING = ''incremental''"
| "snapshot_mode CANCELLED = ''incremental''"

fun status_text :: "run_status \<Rightarrow> string" where
  "status_text RUNNING = ''running''"
| "status_text COMPLETED = ''completed''"
| "status_text FAILED = ''failed''"
| "status_text CANCELLED = ''cancelled''"

text \<open>\<open>datetime.isoformat\<close> in UTC.\<close>

fun iso_format :: "stamp \<Rightarrow> string" where
  "iso_format (y, mo, d, h, mi, s, u) =
     zero_padded 4 y @ ''-'' @ zero_padded 2 mo @ ''-'' @ zero_padded 2 d @ ''T'' @
     zero_padded 2 h @ '':'' @ zero_padded 2 mi @ '':'' @ zero_padded 2 s @
     (if u = 0 then [] else ''.'' @ zero_padded 6 u) @ ''+00:00''"

definition snapshot_summary_input ::
  "conversation_run \<Rightarrow> string option \<Rightarrow> stamp option \<Rightarrow> message list \<Rightarrow> completion_error + string" where
  "snapshot_summary_input run previous recorded uncovered =
     (let nl = line_break;
          source = ''## Source conversation'' @ nl @ nl @
            ''- Agent: '' @ run_agent_name run @ nl @
            ''- Conversation: '' @ conversation_id run @ nl @
            ''- Run status: '' @ status_text (run_status_of run) @ nl @
            ''- Snapshot mode: '' @ snapshot_mode (run_status_of run) @ nl @
            ''- Run started at: '' @ started_at run @ nl @
            ''- Run ended at: '' @ (case ended_at run of None \<Rightarrow> ''not ended'' | Some t \<Rightarrow> if t = [] then ''not ended'' else t) @ nl @
            ''- Message ordering: ascending sequence; created_at is local time.'' @ nl @ nl
      in rbind (lift_render (conversation_text uncovered)) (\<lambda>segment.
           Inr (case previous of
                  None \<Rightarrow> source @ ''## New conversation segment'' @ nl @ nl @ segment
                | Some body \<Rightarrow>
                    source @ ''## Previous snapshot (recorded_at='' @
                    (case recorded of None \<Rightarrow> ''unknown'' | Some t \<Rightarrow> iso_format t) @ '')'' @ nl @ nl @
                    py_strip body @ nl @ nl @ ''## New conversation segment'' @ nl @ nl @ segment)))"

definition should_snapshot :: "run_status \<Rightarrow> int \<Rightarrow> nat \<Rightarrow> bool" where
  "should_snapshot status limit new_tokens \<longleftrightarrow>
     status \<noteq> CANCELLED \<and> (limit \<le> int new_tokens \<or> status \<in> {COMPLETED, FAILED} \<and> 0 < new_tokens)"

section \<open>One snapshot\<close>

record snapshot_context =
  sc_summarizer :: "artifact_world summarizer"
  sc_conversation_root :: location
  sc_snapshot_root :: location
  sc_agent_names :: "string list"
  sc_token_growth :: int
  sc_max_chars :: int
  sc_tolerance :: "rat option"
  sc_system_prompt :: string
  sc_instructions :: string

record snapshot_plan =
  sp_covered :: nat
  sp_conversation :: string
  sp_previous :: "stamp option"

definition snapshot_folder :: "snapshot_context \<Rightarrow> conversation_run \<Rightarrow> location" where
  "snapshot_folder ctx run = sc_snapshot_root ctx @ [conversation_id run]"

definition read_snapshot :: "(stamp \<times> location) option \<Rightarrow> artifact_world \<Rightarrow> completion_error + snapshot_document option" where
  "read_snapshot found w =
     (case found of
        None \<Rightarrow> Inr None
      | Some (_, path) \<Rightarrow>
          (case read_artifact path w of
             Inl e \<Rightarrow> Inl (raised_error e) | Inr body \<Rightarrow> Inr (Some (parse_snapshot_document body))))"

text \<open>Up to the call of the model: \<open>None\<close> where \<open>_snapshot_one_run\<close> returns early.\<close>

definition plan_snapshot ::
  "snapshot_context \<Rightarrow> int \<Rightarrow> conversation_run \<Rightarrow> artifact_world \<Rightarrow> completion_error + snapshot_plan option" where
  "plan_snapshot ctx limit run w =
     (let found = latest_timestamped_file (snapshot_folder ctx run) ''.md'' w; str = sm_str (sc_summarizer ctx) in
      rbind (read_snapshot found w) (\<lambda>doc.
      let rows = uncovered_rows (run_messages run) doc in
      if rows = [] then Inr None
      else
        rbind (normalize_temporal_messages str (run_agent_name run) (run_description run) rows) (\<lambda>visible.
        rbind (lift_render (estimate_conversation_tokens str visible)) (\<lambda>new_tokens.
        if \<not> should_snapshot (run_status_of run) limit new_tokens then Inr None
        else
          rbind (snapshot_summary_input run (map_option sd_content doc) (map_option fst found) visible) (\<lambda>conversation.
          Inr (Some \<lparr>sp_covered = Max (set (map lm_sequence rows)), sp_conversation = conversation,
                     sp_previous = map_option fst found\<rparr>))))))"

definition superseded :: "snapshot_plan \<Rightarrow> (stamp \<times> location) option \<Rightarrow> artifact_world \<Rightarrow> bool" where
  "superseded plan found w =
     (case found of
        None \<Rightarrow> False
      | Some (st, path) \<Rightarrow>
          (case sp_previous plan of None \<Rightarrow> True | Some t \<Rightarrow> t < st) \<and>
          persisted_snapshot_covers path (sp_covered plan) w)"

text \<open>Behind the call of the model.\<close>

definition publish_snapshot ::
  "snapshot_context \<Rightarrow> conversation_run \<Rightarrow> snapshot_plan \<Rightarrow> string \<Rightarrow> maintenance_pipe
    \<Rightarrow> maintenance_pipe \<times> (completion_error + bool)" where
  "publish_snapshot ctx run plan summary p =
     (let env = ch_environment (sm_host (sc_summarizer ctx)); folder = snapshot_folder ctx run in
      case raise_if_cancelled env p of
        (p1, Inl e) \<Rightarrow> (p1, Inl (raised_error e))
      | (p1, Inr _) \<Rightarrow>
          if superseded plan (latest_timestamped_file folder ''.md'' (outside p1)) (outside p1) then (p1, Inr False)
          else (case format_snapshot_document
                       (''# Conversation Snapshot: '' @ run_agent_name run @ line_break @ line_break @ py_strip summary)
                       (int (sp_covered plan)) of
                  Inl e \<Rightarrow> (p1, Inl (raised_error e))
                | Inr body \<Rightarrow>
                    (case write_timestamped_file env folder body ''.md'' None p1 of
                       (p2, Inl e) \<Rightarrow> (p2, Inl (raised_error e))
                     | (p2, Inr _) \<Rightarrow> (p2, Inr True))))"

definition snapshot_one_run ::
  "snapshot_context \<Rightarrow> int \<Rightarrow> conversation_run \<Rightarrow> maintenance_pipe \<Rightarrow> maintenance_pipe \<times> (completion_error + bool)" where
  "snapshot_one_run ctx limit run p =
     (case plan_snapshot ctx limit run (outside p) of
        Inl e \<Rightarrow> (p, Inl e)
      | Inr None \<Rightarrow> (p, Inr False)
      | Inr (Some plan) \<Rightarrow>
          (case summarize_conversation_segment (sc_summarizer ctx) (sc_system_prompt ctx) (sc_instructions ctx)
                  (sp_conversation plan) (Some (sc_max_chars ctx)) (sc_tolerance ctx) p of
             (p1, Inl e) \<Rightarrow> (p1, Inl (librarian_failure e))
           | (p1, Inr summary) \<Rightarrow> publish_snapshot ctx run plan summary p1))"

section \<open>All conversations\<close>

record snapshot_counts =
  ct_parsed :: nat
  ct_created :: nat
  ct_invalid :: nat
  ct_other_agent :: nat

fun snapshot_files ::
  "snapshot_context \<Rightarrow> int \<Rightarrow> location list \<Rightarrow> snapshot_counts \<Rightarrow> maintenance_pipe
    \<Rightarrow> maintenance_pipe \<times> (completion_error + snapshot_counts)" where
  "snapshot_files ctx limit [] n p = (p, Inr n)"
| "snapshot_files ctx limit (path # paths) n p =
     (case raise_if_cancelled (ch_environment (sm_host (sc_summarizer ctx))) p of
        (p1, Inl e) \<Rightarrow> (p1, Inl (raised_error e))
      | (p1, Inr _) \<Rightarrow>
          if prefix (sc_snapshot_root ctx) path then snapshot_files ctx limit paths n p1
          else (case documents (run_disk (outside p1)) path of
                  None \<Rightarrow> snapshot_files ctx limit paths (n\<lparr>ct_invalid := Suc (ct_invalid n)\<rparr>) p1
                | Some run \<Rightarrow>
                    (let n1 = n\<lparr>ct_parsed := Suc (ct_parsed n)\<rparr>
                     in if run_agent_name run \<notin> set (sc_agent_names ctx)
                        then snapshot_files ctx limit paths (n1\<lparr>ct_other_agent := Suc (ct_other_agent n1)\<rparr>) p1
                        else (case snapshot_one_run ctx limit run p1 of
                                (p2, Inl e) \<Rightarrow> (p2, Inl e)
                              | (p2, Inr made) \<Rightarrow>
                                  snapshot_files ctx limit paths
                                    (if made then n1\<lparr>ct_created := Suc (ct_created n1)\<rparr> else n1) p2))))"

definition snapshot_conversations ::
  "snapshot_context \<Rightarrow> maintenance_pipe \<Rightarrow> maintenance_pipe \<times> (completion_error + string)" where
  "snapshot_conversations ctx p =
     (case raise_if_cancelled (ch_environment (sm_host (sc_summarizer ctx))) p of
        (p1, Inl e) \<Rightarrow> (p1, Inl (raised_error e))
      | (p1, Inr _) \<Rightarrow>
          (let paths = rglob_suffix (sc_conversation_root ctx) ''.json'' (run_sources (outside p1)) in
           case snapshot_files ctx (max 0 (sc_token_growth ctx)) paths
                  \<lparr>ct_parsed = 0, ct_created = 0, ct_invalid = 0, ct_other_agent = 0\<rparr> p1 of
             (p2, Inl e) \<Rightarrow> (p2, Inl e)
           | (p2, Inr n) \<Rightarrow>
               (p2, Inr (''snapshot_conversations: scanned='' @ show_int (int (length paths)) @
                  '', parsed='' @ show_int (int (ct_parsed n)) @ '', created='' @ show_int (int (ct_created n)) @
                  '', skipped_invalid='' @ show_int (int (ct_invalid n)) @
                  '', skipped_agent='' @ show_int (int (ct_other_agent n))))))"

section \<open>Every message is summarized once\<close>

lemma plan_covers_all:
  assumes "plan_snapshot ctx limit run w = Inr (Some plan)" "row \<in> set (run_messages run)"
  shows "lm_sequence row \<le> sp_covered plan"
proof -
  from assms(1) obtain doc where rows: "uncovered_rows (run_messages run) doc \<noteq> []"
    and covered: "sp_covered plan = Max (set (map lm_sequence (uncovered_rows (run_messages run) doc)))"
    by (auto simp: plan_snapshot_def Let_def rbind_Inr_iff split: if_splits)
  let ?rows = "uncovered_rows (run_messages run) doc"
  have member: "lm_sequence r \<le> sp_covered plan" if "r \<in> set ?rows" for r using that by (simp add: covered)
  show ?thesis
  proof (cases "row \<in> set ?rows")
    case False
    with assms(2) have "\<exists>n. int (lm_sequence row) \<le> n \<and> ?rows = filter (\<lambda>r. n < int (lm_sequence r)) (run_messages run)"
      by (auto simp: uncovered_rows_def not_less split: option.splits if_splits)
    then obtain n where n: "int (lm_sequence row) \<le> n" "?rows = filter (\<lambda>r. n < int (lm_sequence r)) (run_messages run)"
      by blast
    obtain r where r: "r \<in> set ?rows" using rows by (meson last_in_set)
    then have "n < int (lm_sequence r)" using n(2) by simp
    with n(1) member[OF r] show ?thesis by linarith
  qed (rule member)
qed

definition no_temporaries :: "location \<Rightarrow> artifact_world \<Rightarrow> bool" where
  "no_temporaries folder w \<longleftrightarrow>
     list_all (\<lambda>e. \<not> (butlast (fst e) = folder \<and> prefix ''.librarian-'' (last (fst e)))) (artifact_files w)"

lemma no_temporaries_fresh:
  "no_temporaries folder w \<Longrightarrow> \<not> artifact_exists (folder @ [''.librarian-'' @ u @ ''.tmp'']) w"
  by (force simp: no_temporaries_def artifact_exists_def list_all_iff prefix_def dest!: map_of_SomeD)

lemma glob_same_files: "artifact_files w = artifact_files w' \<Longrightarrow> glob_suffix folder ext w = glob_suffix folder ext w'"
  by (simp add: glob_suffix_def)

lemma timely_later:
  "timely folder ext w \<Longrightarrow> artifact_files w' = artifact_files w \<Longrightarrow> world_clock w \<le> world_clock w' \<Longrightarrow> timely folder ext w'"
  unfolding timely_def using glob_same_files[of w' w]
  by (fastforce simp: list_all_iff split: option.splits)

lemma nothing_uncovered:
  assumes "latest_timestamped_file (snapshot_folder ctx run) ''.md'' w = Some (st, path)"
    "read_artifact path w = Inr body" "parse_snapshot_document body = d" "coverage_marker_present d"
    "covered_through d = Some n" "\<forall>row \<in> set (run_messages run). int (lm_sequence row) \<le> n"
  shows "plan_snapshot ctx limit run w = Inr None"
proof -
  have "uncovered_rows (run_messages run) (Some d) = []"
    using assms(4,5,6) by (auto simp: uncovered_rows_def filter_empty_conv)
  then show ?thesis using assms(1,2,3) by (simp add: plan_snapshot_def read_snapshot_def)
qed

text \<open>
  C34. No message is summarized twice and none is skipped: once a planned snapshot was published, or
  found superseded, another look at the same run changes nothing and calls no model; and behind a
  published snapshot, what is left to cover of any later state of the run is exactly the messages
  beyond the newest one that the plan covered. This holds where the clock has not gone back behind a
  snapshot of the run that is there already (\<open>timely\<close>: files of the folder that a stamp can be read
  from have the name that is written for it, and it is earlier than the clock), where no temporary
  file of an earlier write is left in the folder, and where other agents leave the artifacts alone
  and the clock runs on while the signal is looked at (\<open>keeps_artifacts\<close>). The sequence number has at most
  the 4300 digits that Python reads.
\<close>

theorem snapshot_is_not_repeated:
  assumes plan: "plan_snapshot ctx limit run w = Inr (Some plan)"
    and publish: "publish_snapshot ctx run plan summary p = (p', Inr made)"
    and env: "keeps_artifacts (ch_environment (sm_host (sc_summarizer ctx)))"
    and clock: "valid_stamp (world_clock (outside p))"
    and timely: "timely (snapshot_folder ctx run) ''.md'' (outside p)"
    and quiet: "no_temporaries (snapshot_folder ctx run) (outside p)"
    and short: "length (digits_of (sp_covered plan)) \<le> MAX_STR_DIGITS"
  shows "snapshot_one_run ctx limit' run p' = (p', Inr False) \<and>
    (made \<longrightarrow> (\<exists>doc. read_snapshot (latest_timestamped_file (snapshot_folder ctx run) ''.md'' (outside p')) (outside p') = Inr (Some doc) \<and>
      (\<forall>rows. uncovered_rows rows (Some doc) = filter (\<lambda>row. sp_covered plan < lm_sequence row) rows)))"
proof -
  let ?env = "ch_environment (sm_host (sc_summarizer ctx))"
  let ?folder = "snapshot_folder ctx run"
  note below = plan_covers_all[OF plan]
  obtain p1 c where check: "raise_if_cancelled ?env p = (p1, c)" by fastforce
  note kept = check_keeps_artifacts[OF env check]
  have c: "c = Inr ()" using publish check by (cases c) (auto simp: publish_snapshot_def Let_def)
  show ?thesis
  proof (cases "superseded plan (latest_timestamped_file ?folder ''.md'' (outside p1)) (outside p1)")
    case True
    then have p': "p' = p1" "\<not> made" using publish check c by (auto simp: publish_snapshot_def Let_def)
    from True obtain found where found: "latest_timestamped_file ?folder ''.md'' (outside p1) = Some found"
      "persisted_snapshot_covers (snd found) (sp_covered plan) (outside p1)"
      by (auto simp: superseded_def split: option.splits prod.splits)
    then obtain body n where old: "read_artifact (snd found) (outside p1) = Inr body" "coverage_marker_present (parse_snapshot_document body)"
      "covered_through (parse_snapshot_document body) = Some n" "int (sp_covered plan) \<le> n"
      by (auto simp: persisted_snapshot_covers_def Let_def split: option.splits sum.splits)
    have "int (lm_sequence row) \<le> n" if "row \<in> set (run_messages run)" for row
      using below[OF that] old(4) by linarith
    with found(1) old have "plan_snapshot ctx limit' run (outside p1) = Inr None"
      by (intro nothing_uncovered[where st = "fst found" and path = "snd found"]) auto
    then show ?thesis using p' by (simp add: snapshot_one_run_def)
  next
    case False
    let ?text = "''# Conversation Snapshot: '' @ run_agent_name run @ line_break @ line_break @ py_strip summary"
    obtain body where body: "format_snapshot_document ?text (int (sp_covered plan)) = Inr body"
      by (simp add: format_snapshot_document_def)
    obtain path where written: "write_timestamped_file ?env ?folder body ''.md'' None p1 = (p', Inr path)" and made
      using publish check c False body by (auto simp: publish_snapshot_def Let_def split: prod.splits sum.splits)
    have "no_temporaries ?folder (outside p1)" using quiet kept(1) by (simp add: no_temporaries_def)
    note fresh = no_temporaries_fresh[OF this, of "next_uuid (outside p1)"]
    from written_is_latest[OF env written fresh] kept clock timely_later[OF timely] obtain st where
      latest: "latest_timestamped_file ?folder ''.md'' (outside p') = Some (st, path)"
      and reading: "read_artifact path (outside p') = Inr (translate_newlines body)" by blast
    let ?doc = "parse_snapshot_document (translate_newlines body)"
    note reread = snapshot_document_is_read_back[OF body short]
    have "plan_snapshot ctx limit' run (outside p') = Inr None"
      using below by (intro nothing_uncovered[OF latest reading refl]) (auto simp: reread)
    then have "snapshot_one_run ctx limit' run p' = (p', Inr False)" by (simp add: snapshot_one_run_def)
    moreover have "read_snapshot (latest_timestamped_file ?folder ''.md'' (outside p')) (outside p') = Inr (Some ?doc)"
      by (simp add: latest reading read_snapshot_def)
    moreover have "\<forall>rows. uncovered_rows rows (Some ?doc) = filter (\<lambda>row. sp_covered plan < lm_sequence row) rows"
      by (simp add: uncovered_rows_def reread)
    ultimately show ?thesis by blast
  qed
qed

definition still_summarizer :: "artifact_world summarizer" where
  "still_summarizer =
     \<lparr>sm_host = \<lparr>ch_environment = still_environment, ch_transport = (\<lambda>ms p. (p, Inl OutputFormatError)),
        ch_truncate = (\<lambda>ms. ms), ch_attempt_start = (\<lambda>p. (p, Inr ())), ch_now = (\<lambda>w. ''now'')\<rparr>,
      sm_request = value_request, sm_str = (\<lambda>j. []), sm_basic_prompt = (\<lambda>s. s)\<rparr>"

definition sample_snapshots :: snapshot_context where
  "sample_snapshots =
     \<lparr>sc_summarizer = still_summarizer, sc_conversation_root = [''l''], sc_snapshot_root = [''s''],
      sc_agent_names = [''writer''], sc_token_growth = 2, sc_max_chars = 9, sc_tolerance = Some 0,
      sc_system_prompt = ''p'', sc_instructions = ''i''\<rparr>"

definition sample_run :: conversation_run where
  "sample_run =
     \<lparr>conversation_id = ''c'', run_agent_name = ''writer'', started_at = ''t'', ended_at = None,
      run_status_of = RUNNING, run_description = None,
      run_messages = [\<lparr>lm_message_id = ''m'', lm_sequence = 3, lm_created_at = ''t'', lm_role = USER, lm_content = ''hello'',
        lm_caller = None, lm_image_names = [], lm_truncation = NO_TRUNCATION, lm_message_kind = None\<rparr>],
      run_events = []\<rparr>"

lemma sample_plan:
  "case plan_snapshot sample_snapshots 2 sample_run (sample_world []) of
     Inr (Some plan) \<Rightarrow> sp_covered plan = 3 \<and> sp_previous plan = None | _ \<Rightarrow> False"
  by code_simp

lemma sample_latest: "latest_timestamped_file [''s'', ''c''] ''.md'' (sample_world []) = None"
  by (simp add: latest_timestamped_file_def glob_suffix_def sample_world_def List.map_filter_simps)

theorem snapshot_is_not_repeated_witness:
  "\<exists>plan p'. plan_snapshot sample_snapshots 2 sample_run (sample_world []) = Inr (Some plan) \<and>
     publish_snapshot sample_snapshots sample_run plan ''summary'' (event_pipe [] (sample_world [])) = (p', Inr True) \<and>
     snapshot_one_run sample_snapshots 2 sample_run p' = (p', Inr False)"
proof -
  let ?p = "event_pipe [] (sample_world [])"
  obtain plan where plan: "plan_snapshot sample_snapshots 2 sample_run (sample_world []) = Inr (Some plan)"
    and covered: "sp_covered plan = 3" "sp_previous plan = None"
    using sample_plan by (auto split: sum.splits option.splits)
  have world: "outside ?p = sample_world []" by (simp add: event_pipe_def)
  have env: "ch_environment (sm_host (sc_summarizer sample_snapshots)) = still_environment"
    by (simp add: sample_snapshots_def still_summarizer_def)
  have folder: "snapshot_folder sample_snapshots sample_run = [''s'', ''c'']"
    by (simp add: snapshot_folder_def sample_snapshots_def sample_run_def)
  have calm: "raise_if_cancelled still_environment q = (q, Inr ())" if "\<not> cancel_signal q" for q
    using that by (simp add: raise_if_cancelled_def observe_def still_environment_def)
  have "\<exists>p' path. write_timestamped_file still_environment [''s'', ''c''] body ''.md'' None ?p = (p', Inr path)" for body
  proof -
    have "\<not> cancel_signal (?p\<lparr>outside := w\<rparr>)" for w by (simp add: event_pipe_def)
    note calm[OF this, simp]
    show ?thesis
      by (simp add: write_timestamped_file_def publish_artifact_def world Let_def link_candidate.simps artifact_exists_def)
        (simp add: sample_world_def put_artifact_def sample_name)
  qed
  note writes = this
  obtain body where body: "format_snapshot_document
      (''# Conversation Snapshot: '' @ run_agent_name sample_run @ line_break @ line_break @ py_strip ''summary'')
      (int (sp_covered plan)) = Inr body" by (simp add: format_snapshot_document_def)
  obtain p' path where "write_timestamped_file still_environment [''s'', ''c''] body ''.md'' None ?p = (p', Inr path)"
    using writes by blast
  moreover have "raise_if_cancelled still_environment ?p = (?p, Inr ())" by (rule calm) (simp add: event_pipe_def)
  ultimately have publish: "publish_snapshot sample_snapshots sample_run plan ''summary'' ?p = (p', Inr True)"
    unfolding publish_snapshot_def env folder Let_def
    by (simp only: prod.case sum.case world sample_latest superseded_def option.case if_False body)
  have "length (digits_of (sp_covered plan)) \<le> MAX_STR_DIGITS" by (simp add: covered digits_of.simps MAX_STR_DIGITS_def)
  moreover have "timely (snapshot_folder sample_snapshots sample_run) ''.md'' (outside ?p)"
    "no_temporaries (snapshot_folder sample_snapshots sample_run) (outside ?p)" "valid_stamp (world_clock (outside ?p))"
    unfolding world folder by (simp_all add: timely_def glob_suffix_def no_temporaries_def sample_world_def stamp_eval)
  ultimately have "snapshot_one_run sample_snapshots 2 sample_run p' = (p', Inr False)"
    using snapshot_is_not_repeated[OF plan publish] still_keeps_artifacts by (simp add: env)
  with plan publish show ?thesis by blast
qed

end
