(* ===== verification/Roboz_Memory.thy ===== *)
theory Roboz_Memory
  imports Roboz_Librarian
begin

text \<open>
  Persistent memory (\<open>shed/tools/consolidate_memory.py\<close>) in the world of the artifacts: the snapshots
  behind the watermark of the newest memory file are folded into a new file. The tools that pace and
  end the sweeps are \<open>sleep_between_runs.py\<close> and \<open>stop_when_watched_agents_inactive.py\<close>. Seconds are
  rationals; numbers that the code rounds as floats are exact here.
\<close>

declare format_stamp.simps [simp del] valid_stamp.simps [simp del] next_stamp.simps [simp del]
declare split_paired_Ex [simp del] split_paired_All [simp del]

section \<open>Lines and times\<close>

definition line_end :: "char \<Rightarrow> bool" where
  "line_end c \<longleftrightarrow> of_char c \<in> {10, 11, 12, 13, 28, 29, 30, 133 :: nat}"

text \<open>\<open>str.splitlines\<close>; the first argument is the line so far, reversed.\<close>

fun lines_from :: "string \<Rightarrow> string \<Rightarrow> string list" where
  "lines_from acc [] = (if acc = [] then [] else [rev acc])"
| "lines_from acc (c # cs) =
     (if c = CHR 0x0D then rev acc # (case cs of d # ds \<Rightarrow> if d = CHR 0x0A then lines_from [] ds else lines_from [] cs
                                     | [] \<Rightarrow> [])
      else if line_end c then rev acc # lines_from [] cs
      else lines_from (c # acc) cs)"

definition splitlines :: "string \<Rightarrow> string list" where
  "splitlines = lines_from []"

definition py_lstrip :: "string \<Rightarrow> string" where
  "py_lstrip = dropWhile py_space"

text \<open>\<open>datetime.toordinal\<close>, and the seconds since the first day.\<close>

definition days_before_year :: "nat \<Rightarrow> nat" where
  "days_before_year y = (y - 1) * 365 + (y - 1) div 4 - (y - 1) div 100 + (y - 1) div 400"

definition day_number :: "nat \<Rightarrow> nat \<Rightarrow> nat \<Rightarrow> nat" where
  "day_number y m d = days_before_year y + sum_list (map (days_in_month y) [1 ..< m]) + d"

fun stamp_seconds :: "stamp \<Rightarrow> rat" where
  "stamp_seconds (y, mo, d, h, mi, s, u) =
     of_nat (day_number y mo d * 86400 + h * 3600 + mi * 60 + s) + of_nat u / 1000000"

definition elapsed_seconds :: "stamp \<Rightarrow> stamp \<Rightarrow> rat" where
  "elapsed_seconds now earlier = stamp_seconds now - stamp_seconds earlier"

section \<open>The snapshots that are pending\<close>

record memory_context =
  mc_summarizer :: "artifact_world summarizer"
  mc_snapshot_root :: location
  mc_memory_root :: location
  mc_conversation_root :: location
  mc_agent_names :: "string list"
  mc_min_pending :: int
  mc_max_age :: rat
  mc_max_chars :: int
  mc_tolerance :: "rat option"
  mc_system_prompt :: string
  mc_instructions :: string

definition pending_snapshots :: "location \<Rightarrow> stamp option \<Rightarrow> artifact_world \<Rightarrow> (stamp \<times> location) list" where
  "pending_snapshots snapshots watermark w =
     sort (List.map_filter
       (\<lambda>path. case parse_timestamp_stem path of
          None \<Rightarrow> None
        | Some st \<Rightarrow> if (case watermark of None \<Rightarrow> True | Some t \<Rightarrow> t < st) then Some (st, path) else None)
       (rglob_suffix snapshots ''.md'' (map fst (artifact_files w))))"

definition should_consolidate :: "(stamp \<times> location) list \<Rightarrow> int \<Rightarrow> rat \<Rightarrow> stamp \<Rightarrow> bool \<Rightarrow> bool" where
  "should_consolidate pending min_pending max_age now idle \<longleftrightarrow>
     pending \<noteq> [] \<and>
     (idle \<or> min_pending \<le> int (length pending) \<or> max_age \<le> elapsed_seconds now (fst (hd pending)))"

definition lift_os :: "exn + 'a \<Rightarrow> completion_error + 'a" where
  "lift_os r = (case r of Inl e \<Rightarrow> Inl (raised_error e) | Inr v \<Rightarrow> Inr v)"

definition snapshot_section :: "location \<Rightarrow> artifact_world \<Rightarrow> stamp \<times> location \<Rightarrow> completion_error + string" where
  "snapshot_section snapshots w entry =
     rbind (lift_os (read_artifact (snd entry) w)) (\<lambda>body.
       Inr (''### Snapshot: '' @ posix_rel (drop (length snapshots) (butlast (snd entry))) @ line_break @ line_break @
            sd_content (parse_snapshot_document body)))"

definition snapshot_text :: "location \<Rightarrow> (stamp \<times> location) list \<Rightarrow> artifact_world \<Rightarrow> completion_error + string" where
  "snapshot_text snapshots pending w =
     rbind (traverse (snapshot_section snapshots w) pending) (\<lambda>sections.
       Inr (join_with (line_break @ line_break) sections))"

definition memory_summary_input ::
  "location \<Rightarrow> string option \<Rightarrow> (stamp \<times> location) list \<Rightarrow> artifact_world \<Rightarrow> completion_error + string" where
  "memory_summary_input snapshots previous pending w =
     rbind (snapshot_text snapshots pending w) (\<lambda>sections.
       let fresh = ''## New conversation snapshots'' @ line_break @ line_break @ sections in
       Inr (case previous of
              None \<Rightarrow> fresh
            | Some body \<Rightarrow> ''## Previous memory'' @ line_break @ line_break @ py_strip body @ line_break @ line_break @ fresh))"

section \<open>Provenance\<close>

definition PROVENANCE_MARKER :: string where "PROVENANCE_MARKER = ''<!-- librarian:provenance v1 -->''"
definition PERSISTENT_MEMORY_TITLE :: string where "PERSISTENT_MEMORY_TITLE = ''# Persistent Memory''"
definition SNAPSHOT_TITLE_PREFIX :: string where "SNAPSHOT_TITLE_PREFIX = ''# Conversation Snapshot: ''"

definition strip_provenance :: "string \<Rightarrow> string" where
  "strip_provenance body =
     (let ls = splitlines body; kept = takeWhile (\<lambda>l. py_strip l \<noteq> PROVENANCE_MARKER) ls
      in if length kept < length ls then py_rstrip (join_with line_break kept) else py_rstrip body)"

definition strip_leading_memory_title :: "string \<Rightarrow> string" where
  "strip_leading_memory_title body =
     (let ls = splitlines (py_strip body)
      in py_lstrip (join_with line_break (if ls \<noteq> [] \<and> py_strip (hd ls) = PERSISTENT_MEMORY_TITLE then tl ls else ls)))"

definition relative_or_absolute :: "location \<Rightarrow> location \<Rightarrow> string" where
  "relative_or_absolute path base =
     (case relative_to path base of None \<Rightarrow> posix_abs path | Some rel \<Rightarrow> posix_rel rel)"

definition snapshot_agent :: "artifact_world \<Rightarrow> location \<Rightarrow> string option" where
  "snapshot_agent w path =
     (let line = (case read_artifact path w of Inl _ \<Rightarrow> [] | Inr body \<Rightarrow> (case splitlines body of [] \<Rightarrow> [] | l # _ \<Rightarrow> l));
          name = py_strip (drop (length SNAPSHOT_TITLE_PREFIX) line)
      in if prefix SNAPSHOT_TITLE_PREFIX line \<and> name \<noteq> [] then Some name else None)"

definition provenance_line :: "location \<Rightarrow> artifact_world \<Rightarrow> location \<Rightarrow> string" where
  "provenance_line snapshots w path =
     ''- `'' @ relative_or_absolute path (butlast snapshots) @ ''` - '' @
     (case snapshot_agent w path of None \<Rightarrow> [] | Some name \<Rightarrow> name @ '', '') @
     ''conversation `'' @ last (butlast path) @ ''`''"

definition build_provenance_block ::
  "location \<Rightarrow> location \<Rightarrow> (stamp \<times> location) list \<Rightarrow> location option \<Rightarrow> artifact_world \<Rightarrow> string" where
  "build_provenance_block snapshots memory pending previous w =
     join_with line_break
       ([PROVENANCE_MARKER, ''## Sources''] @ map (provenance_line snapshots w \<circ> snd) pending @
        (case previous of
           None \<Rightarrow> [] | Some path \<Rightarrow> [''Previous memory: `'' @ relative_or_absolute path (butlast memory) @ ''`'']))"

section \<open>Consolidation\<close>

text \<open>Up to the call of the model: the snapshots, the watermark and the conversation; \<open>Inl\<close> a result without one.\<close>

record memory_plan =
  mp_found :: "(stamp \<times> location) option"
  mp_pending :: "(stamp \<times> location) list"
  mp_conversation :: string

definition plan_consolidation :: "memory_context \<Rightarrow> artifact_world \<Rightarrow> completion_error + nat + memory_plan" where
  "plan_consolidation ctx w =
     (let found = latest_timestamped_file (mc_memory_root ctx) ''.md'' w;
          pending = pending_snapshots (mc_snapshot_root ctx) (map_option fst found) w;
          idle = active_marker_paths (mc_conversation_root ctx) (mc_agent_names ctx) (run_disk w) = []
      in if \<not> should_consolidate pending (max 1 (mc_min_pending ctx)) (mc_max_age ctx) (world_clock w) idle
         then Inr (Inl (length pending))
         else
           rbind (case found of
                    None \<Rightarrow> Inr None
                  | Some (_, path) \<Rightarrow> rbind (lift_os (read_artifact path w)) (\<lambda>body. Inr (Some (strip_provenance body))))
             (\<lambda>previous.
           rbind (memory_summary_input (mc_snapshot_root ctx) previous pending w) (\<lambda>conversation.
           Inr (Inr \<lparr>mp_found = found, mp_pending = pending, mp_conversation = conversation\<rparr>))))"

datatype memory_result = NotConsolidated nat | Superseded nat | Consolidated nat location

fun memory_report :: "memory_result \<Rightarrow> string" where
  "memory_report (NotConsolidated n) = ''consolidate_memory: pending='' @ show_int (int n) @ '', consolidated=0''"
| "memory_report (Superseded n) = ''consolidate_memory: pending='' @ show_int (int n) @ '', superseded, consolidated=0''"
| "memory_report (Consolidated n path) = ''consolidate_memory: pending='' @ show_int (int n) @ '', consolidated=1''"

definition publish_memory ::
  "memory_context \<Rightarrow> memory_plan \<Rightarrow> string \<Rightarrow> maintenance_pipe \<Rightarrow> maintenance_pipe \<times> (completion_error + memory_result)" where
  "publish_memory ctx plan summary p =
     (let env = ch_environment (sm_host (mc_summarizer ctx)) in
      case raise_if_cancelled env p of
        (p1, Inl e) \<Rightarrow> (p1, Inl (raised_error e))
      | (p1, Inr _) \<Rightarrow>
          if (case latest_timestamped_file (mc_memory_root ctx) ''.md'' (outside p1) of
                None \<Rightarrow> False
              | Some (st, _) \<Rightarrow> (case mp_found plan of None \<Rightarrow> True | Some (t, _) \<Rightarrow> t < st))
          then (p1, Inr (Superseded (length (mp_pending plan))))
          else
            (let provenance = build_provenance_block (mc_snapshot_root ctx) (mc_memory_root ctx) (mp_pending plan)
                   (map_option snd (mp_found plan)) (outside p1);
                 body = PERSISTENT_MEMORY_TITLE @ line_break @ line_break @ strip_leading_memory_title summary @
                   line_break @ line_break @ provenance @ line_break
             in case write_timestamped_file env (mc_memory_root ctx) body ''.md'' None p1 of
                  (p2, Inl e) \<Rightarrow> (p2, Inl (raised_error e))
                | (p2, Inr path) \<Rightarrow> (p2, Inr (Consolidated (length (mp_pending plan)) path))))"

definition consolidate_memory ::
  "memory_context \<Rightarrow> maintenance_pipe \<Rightarrow> maintenance_pipe \<times> (completion_error + memory_result)" where
  "consolidate_memory ctx p =
     (case raise_if_cancelled (ch_environment (sm_host (mc_summarizer ctx))) p of
        (p1, Inl e) \<Rightarrow> (p1, Inl (raised_error e))
      | (p1, Inr _) \<Rightarrow>
          (case plan_consolidation ctx (outside p1) of
             Inl e \<Rightarrow> (p1, Inl e)
           | Inr (Inl n) \<Rightarrow> (p1, Inr (NotConsolidated n))
           | Inr (Inr plan) \<Rightarrow>
               (case summarize_conversation_segment (mc_summarizer ctx) (mc_system_prompt ctx) (mc_instructions ctx)
                       (mp_conversation plan) (Some (mc_max_chars ctx)) (mc_tolerance ctx) p1 of
                  (p2, Inl e) \<Rightarrow> (p2, Inl (librarian_failure e))
                | (p2, Inr summary) \<Rightarrow> publish_memory ctx plan summary p2)))"

section \<open>Pacing the sweeps\<close>

datatype sleep_result = WatchedInactive | RunEnded | Slept rat

text \<open>
  \<open>alive\<close> is what the second look at the markers finds, \<open>cancelled\<close> the look at the signal; both take
  the world. The loop has slept \<open>slept\<close> of \<open>seconds\<close>.
\<close>

function sleep_loop ::
  "('w \<Rightarrow> bool) \<Rightarrow> ('w \<Rightarrow> bool) \<Rightarrow> (rat \<Rightarrow> 'w \<Rightarrow> 'w) \<Rightarrow> rat \<Rightarrow> rat \<Rightarrow> 'w \<Rightarrow> 'w \<times> (exn + sleep_result)" where
  "sleep_loop alive cancelled rest_for seconds slept w =
     (if slept < seconds then
        if cancelled w then (w, Inl (ExternalCallCancelled ''Sleep cancelled''))
        else
          (let chunk = min 1 (seconds - slept); w1 = rest_for chunk w
           in if cancelled w1 then (w1, Inl (ExternalCallCancelled ''Sleep cancelled''))
              else if \<not> alive w1 then (w1, Inr RunEnded)
              else sleep_loop alive cancelled rest_for seconds (slept + chunk) w1)
      else (w, Inr (Slept seconds)))"
  by pat_completeness auto
termination
proof (relation "measure (\<lambda>(_, _, _, seconds, slept, _). nat \<lceil>seconds - slept\<rceil>)")
  fix alive :: "'w \<Rightarrow> bool" and cancelled :: "'w \<Rightarrow> bool" and rest_for :: "rat \<Rightarrow> 'w \<Rightarrow> 'w" and w x w1 :: 'w
    and seconds slept chunk :: rat
  assume "slept < seconds" "chunk = min 1 (seconds - slept)"
  then have "\<lceil>seconds - (slept + chunk)\<rceil> < \<lceil>seconds - slept\<rceil> \<and> 0 < \<lceil>seconds - slept\<rceil>"
    by (auto simp: min_def) linarith+
  then show "((alive, cancelled, rest_for, seconds, slept + chunk, w1), alive, cancelled, rest_for, seconds, slept, w)
      \<in> measure (\<lambda>(_, _, _, seconds, slept, _). nat \<lceil>seconds - slept\<rceil>)"
    by simp
qed simp

declare sleep_loop.simps [simp del]

definition sleep_between_runs ::
  "location option \<Rightarrow> string list \<Rightarrow> rat \<Rightarrow> ('w disk \<Rightarrow> bool) \<Rightarrow> (rat \<Rightarrow> 'w disk \<Rightarrow> 'w disk) \<Rightarrow> 'w disk
    \<Rightarrow> 'w disk \<times> (exn + sleep_result)" where
  "sleep_between_runs directory names seconds cancelled rest_for d =
     (if cancelled d then (d, Inl (ExternalCallCancelled ''Sleep cancelled''))
      else
        (let found = (case directory of None \<Rightarrow> [] | Some r \<Rightarrow> active_marker_paths r names d)
         in if directory \<noteq> None \<and> found = [] then (d, Inr WatchedInactive)
            else sleep_loop (\<lambda>d'. list_all (\<lambda>m. m \<in> set (markers d')) found) cancelled rest_for (max 0 seconds) 0 d))"

datatype sweep_result = WatchedActive | FinalSweepRequired | StopAgents

definition STOP_TOOL_NAME :: string where "STOP_TOOL_NAME = ''stop_when_watched_agents_inactive''"
definition FINAL_SWEEP_REQUIRED :: string where "FINAL_SWEEP_REQUIRED = STOP_TOOL_NAME @ '': final sweep required''"

text \<open>\<open>json.loads(previous_checks[-1].content).get("value")\<close>.\<close>

definition last_check :: "message list \<Rightarrow> completion_error + json option" where
  "last_check messages =
     (case rev (filter_messages messages None None (Some STOP_TOOL_NAME)) of
        [] \<Rightarrow> Inr None
      | m # _ \<Rightarrow>
          (case loads (content m) of
             Some (JObj kvs) \<Rightarrow> Inr (map_of kvs ''value'')
           | Some _ \<Rightarrow> Inl (raised_error (OtherException ''AttributeError''))
           | None \<Rightarrow> Inl (raised_error (OtherException ''JSONDecodeError''))))"

definition stop_when_watched_agents_inactive ::
  "location \<Rightarrow> string list \<Rightarrow> message list \<Rightarrow> 'w disk \<Rightarrow> completion_error + sweep_result" where
  "stop_when_watched_agents_inactive directory names messages d =
     (if active_marker_paths directory names d \<noteq> [] then Inr WatchedActive
      else rbind (last_check messages) (\<lambda>result.
        Inr (if result = Some (JStr FINAL_SWEEP_REQUIRED) then StopAgents else FinalSweepRequired)))"

section \<open>Every snapshot is consolidated once\<close>

lemma map_filter_member: "y \<in> set (List.map_filter f xs) \<longleftrightarrow> (\<exists>x \<in> set xs. f x = Some y)"
  by (force simp: map_filter_def)

lemma pending_member:
  "(t, q) \<in> set (pending_snapshots snapshots watermark w) \<longleftrightarrow>
     q \<in> fst ` set (artifact_files w) \<and> strict_prefix snapshots q \<and> suffix ''.md'' (last q) \<and>
     parse_timestamp_stem q = Some t \<and> (case watermark of None \<Rightarrow> True | Some u \<Rightarrow> u < t)"
proof -
  have "(case parse_timestamp_stem x of None \<Rightarrow> None
      | Some st \<Rightarrow> if (case watermark of None \<Rightarrow> True | Some u \<Rightarrow> u < st) then Some (st, x) else None) = Some (t, q) \<longleftrightarrow>
      x = q \<and> parse_timestamp_stem q = Some t \<and> (case watermark of None \<Rightarrow> True | Some u \<Rightarrow> u < t)" for x
    by (cases "parse_timestamp_stem x") auto
  then show ?thesis unfolding pending_snapshots_def set_sort map_filter_member rglob_suffix_def by auto
qed

lemma published_memory_is_latest:
  assumes publish: "publish_memory ctx plan summary p = (p', Inr (Consolidated n path))"
    and env: "keeps_artifacts (ch_environment (sm_host (mc_summarizer ctx)))"
    and clock: "valid_stamp (world_clock (outside p))"
    and timely: "timely (mc_memory_root ctx) ''.md'' (outside p)"
    and quiet: "no_temporaries (mc_memory_root ctx) (outside p)"
  shows "\<exists>st. latest_timestamped_file (mc_memory_root ctx) ''.md'' (outside p') = Some (st, path) \<and>
    world_clock (outside p) \<le> st"
proof -
  let ?env = "ch_environment (sm_host (mc_summarizer ctx))"
  let ?folder = "mc_memory_root ctx"
  obtain p1 c where check: "raise_if_cancelled ?env p = (p1, c)" by fastforce
  note kept = check_keeps_artifacts[OF env check]
  obtain body where written: "write_timestamped_file ?env ?folder body ''.md'' None p1 = (p', Inr path)"
    using publish check
    by (cases c) (auto simp: publish_memory_def Let_def split: option.splits prod.splits sum.splits if_splits)
  have "no_temporaries ?folder (outside p1)" using quiet kept(1) by (simp add: no_temporaries_def)
  note fresh = no_temporaries_fresh[OF this, of "next_uuid (outside p1)"]
  from written_is_latest[OF env written fresh] kept clock timely_later[OF timely] show ?thesis
    by (meson order_trans)
qed

lemma planned_conversation:
  assumes "plan_consolidation ctx w = Inr (Inr plan)"
  shows "\<exists>bodies. list_all2 (\<lambda>e body. read_artifact (snd e) w = Inr body) (mp_pending plan) bodies \<and>
    (\<exists>prior. (case latest_timestamped_file (mc_memory_root ctx) ''.md'' w of
        None \<Rightarrow> prior = []
      | Some (u, old) \<Rightarrow> \<exists>memory. read_artifact old w = Inr memory \<and>
          prior = ''## Previous memory'' @ line_break @ line_break @ py_strip (strip_provenance memory) @ line_break @ line_break) \<and>
      mp_conversation plan = prior @ ''## New conversation snapshots'' @ line_break @ line_break @
        join_with (line_break @ line_break)
          (map2 (\<lambda>e body. ''### Snapshot: '' @ posix_rel (drop (length (mc_snapshot_root ctx)) (butlast (snd e))) @
             line_break @ line_break @ sd_content (parse_snapshot_document body)) (mp_pending plan) bodies))"
proof -
  let ?head = "\<lambda>e body. ''### Snapshot: '' @ posix_rel (drop (length (mc_snapshot_root ctx)) (butlast (snd e))) @
    line_break @ line_break @ sd_content (parse_snapshot_document body)"
  have read: "lift_os r = Inr v \<longleftrightarrow> r = Inr v" for r :: "exn + string" and v
    by (cases r) (simp_all add: lift_os_def)
  have sections: "\<exists>bodies. list_all2 (\<lambda>e body. read_artifact (snd e) w = Inr body) es bodies \<and> sections = map2 ?head es bodies"
    if "list_all2 (\<lambda>e sec. snapshot_section (mc_snapshot_root ctx) w e = Inr sec) es sections" for es sections
    using that
  proof (induction es sections rule: list_all2_induct)
    case (Cons e es sec secs)
    then obtain bodies where rest: "list_all2 (\<lambda>e body. read_artifact (snd e) w = Inr body) es bodies" "secs = map2 ?head es bodies"
      by blast
    from Cons.hyps(1) obtain body where "read_artifact (snd e) w = Inr body" "sec = ?head e body"
      by (auto simp: snapshot_section_def rbind_Inr_iff read)
    with rest show ?case by (intro exI[of _ "body # bodies"]) simp
  qed simp
  let ?found = "latest_timestamped_file (mc_memory_root ctx) ''.md'' w"
  from assms obtain previous where
    previous: "(case ?found of None \<Rightarrow> Inr None
      | Some (_, path) \<Rightarrow> rbind (lift_os (read_artifact path w)) (\<lambda>body. Inr (Some (strip_provenance body)))) = Inr previous"
    and input: "memory_summary_input (mc_snapshot_root ctx) previous (mp_pending plan) w = Inr (mp_conversation plan)"
    by (auto simp: plan_consolidation_def Let_def rbind_Inr_iff split: if_splits)
  from input obtain secs where traversed: "traverse (snapshot_section (mc_snapshot_root ctx) w) (mp_pending plan) = Inr secs"
    and conversation: "mp_conversation plan = (case previous of None \<Rightarrow> []
      | Some body \<Rightarrow> ''## Previous memory'' @ line_break @ line_break @ py_strip body @ line_break @ line_break) @
        ''## New conversation snapshots'' @ line_break @ line_break @ join_with (line_break @ line_break) secs"
    by (auto simp: memory_summary_input_def snapshot_text_def rbind_Inr_iff Let_def split: option.splits)
  from traversed have "list_all2 (\<lambda>e sec. snapshot_section (mc_snapshot_root ctx) w e = Inr sec) (mp_pending plan) secs"
    by (simp add: result_simps)
  from sections[OF this] obtain bodies where
    bodies: "list_all2 (\<lambda>e body. read_artifact (snd e) w = Inr body) (mp_pending plan) bodies"
    and secs: "secs = map2 ?head (mp_pending plan) bodies" by blast
  show ?thesis
  proof (cases ?found)
    case None
    with previous have "previous = None" by simp
    with None show ?thesis
      by (intro exI[of _ bodies] conjI[OF bodies] exI[of _ "[]"]) (simp add: conversation secs)
  next
    case (Some found)
    obtain u old where found: "found = (u, old)" by (cases found)
    from previous Some found obtain memory where memory: "read_artifact old w = Inr memory"
      "previous = Some (strip_provenance memory)"
      by (auto simp: rbind_Inr_iff read)
    show ?thesis
      unfolding Some found option.case prod.case
      by (intro exI[of _ bodies] conjI[OF bodies] exI conjI, rule memory(1), rule refl)
        (simp only: conversation secs memory(2) option.case append.assoc)
  qed
qed

text \<open>
  C35. Consolidation reads every pending snapshot and advances past what it read: the plan holds every
  snapshot behind the old watermark, in the order of their times, and the text for the model is the
  previous memory, without its provenance, followed by the section of each of these snapshots, in that
  order, with the whole content that its file had; once the new memory is published it is the newest
  one, and of the snapshots of the plan only one that is stamped later than the clock showed when the
  publication began can be pending again. The publication starts where no memory file is stamped at or
  behind the clock (\<open>timely\<close>) and no temporary file is left in the memory folder, and other agents
  leave the artifacts alone and the clock runs on while the signal is looked at (\<open>keeps_artifacts\<close>);
  what happened between the plan and the publication is open.
\<close>

theorem snapshots_are_consolidated_once:
  assumes plan: "plan_consolidation ctx w = Inr (Inr plan)"
    and publish: "publish_memory ctx plan summary p = (p', Inr (Consolidated n path))"
    and env: "keeps_artifacts (ch_environment (sm_host (mc_summarizer ctx)))"
    and clock: "valid_stamp (world_clock (outside p))"
    and timely: "timely (mc_memory_root ctx) ''.md'' (outside p)"
    and quiet: "no_temporaries (mc_memory_root ctx) (outside p)"
  shows "sorted (mp_pending plan) \<and>
    (\<forall>t q. (t, q) \<in> set (mp_pending plan) \<longleftrightarrow>
       q \<in> fst ` set (artifact_files w) \<and> strict_prefix (mc_snapshot_root ctx) q \<and> suffix ''.md'' (last q) \<and>
       parse_timestamp_stem q = Some t \<and>
       (case latest_timestamped_file (mc_memory_root ctx) ''.md'' w of None \<Rightarrow> True | Some (u, _) \<Rightarrow> u < t)) \<and>
    (\<exists>bodies. list_all2 (\<lambda>e body. read_artifact (snd e) w = Inr body) (mp_pending plan) bodies \<and>
       (\<exists>prior. (case latest_timestamped_file (mc_memory_root ctx) ''.md'' w of
           None \<Rightarrow> prior = []
         | Some (u, old) \<Rightarrow> \<exists>memory. read_artifact old w = Inr memory \<and>
             prior = ''## Previous memory'' @ line_break @ line_break @ py_strip (strip_provenance memory) @ line_break @ line_break) \<and>
         mp_conversation plan = prior @ ''## New conversation snapshots'' @ line_break @ line_break @
           join_with (line_break @ line_break)
             (map2 (\<lambda>e body. ''### Snapshot: '' @ posix_rel (drop (length (mc_snapshot_root ctx)) (butlast (snd e))) @
                line_break @ line_break @ sd_content (parse_snapshot_document body)) (mp_pending plan) bodies))) \<and>
    (\<exists>st. latest_timestamped_file (mc_memory_root ctx) ''.md'' (outside p') = Some (st, path) \<and>
       (\<forall>e \<in> set (pending_snapshots (mc_snapshot_root ctx) (Some st) (outside p')) \<inter> set (mp_pending plan).
          world_clock (outside p) < fst e))"
proof -
  let ?found = "latest_timestamped_file (mc_memory_root ctx) ''.md'' w"
  have pending: "mp_pending plan = pending_snapshots (mc_snapshot_root ctx) (map_option fst ?found) w"
    using plan by (auto simp: plan_consolidation_def Let_def rbind_Inr_iff split: if_splits)
  have "sorted (mp_pending plan)" by (simp add: pending pending_snapshots_def)
  moreover have "\<forall>t q. (t, q) \<in> set (mp_pending plan) \<longleftrightarrow>
       q \<in> fst ` set (artifact_files w) \<and> strict_prefix (mc_snapshot_root ctx) q \<and> suffix ''.md'' (last q) \<and>
       parse_timestamp_stem q = Some t \<and> (case ?found of None \<Rightarrow> True | Some (u, _) \<Rightarrow> u < t)"
    by (auto simp: pending pending_member split: option.splits)
  moreover obtain st where st: "latest_timestamped_file (mc_memory_root ctx) ''.md'' (outside p') = Some (st, path)"
    "world_clock (outside p) \<le> st"
    using published_memory_is_latest[OF publish env clock timely quiet] by blast
  moreover have "world_clock (outside p) < fst e"
    if "e \<in> set (pending_snapshots (mc_snapshot_root ctx) (Some st) (outside p'))" for e
  proof -
    obtain t q where "e = (t, q)" by (cases e) blast
    with that have "st < fst e" using pending_member[of t q] by simp
    with st(2) show ?thesis by order
  qed
  ultimately show ?thesis using planned_conversation[OF plan] by blast
qed

text \<open>
  The watermark is the time of the memory file, not of the snapshots that were read: a snapshot that
  another agent publishes while the summary is made, behind the look at the folder, is older than the
  memory file and is never pending again, though no summary has seen it.
\<close>

lemma unread_snapshot_is_hidden:
  assumes "publish_memory ctx plan summary p = (p', Inr (Consolidated n path))"
    and "keeps_artifacts (ch_environment (sm_host (mc_summarizer ctx)))" "valid_stamp (world_clock (outside p))"
    and "timely (mc_memory_root ctx) ''.md'' (outside p)" "no_temporaries (mc_memory_root ctx) (outside p)"
    and unread: "parse_timestamp_stem q = Some t" "t < world_clock (outside p)" "(t, q) \<notin> set (mp_pending plan)"
  shows "\<exists>st. latest_timestamped_file (mc_memory_root ctx) ''.md'' (outside p') = Some (st, path) \<and>
    (t, q) \<notin> set (pending_snapshots (mc_snapshot_root ctx) (Some st) (outside p'))"
proof -
  obtain st where "latest_timestamped_file (mc_memory_root ctx) ''.md'' (outside p') = Some (st, path)"
    "world_clock (outside p) \<le> st"
    using published_memory_is_latest[OF assms(1-5)] by blast
  moreover from this unread(2) have "\<not> st < t" by order
  ultimately show ?thesis by (auto simp: pending_member)
qed

text \<open>A sleep that is neither cancelled nor woken rests for exactly its time, in steps of one second at most.\<close>

lemma sleep_loop_complete:
  "sleep_loop alive cancelled rest_for seconds slept w = (w', Inr r) \<Longrightarrow> slept \<le> seconds \<Longrightarrow>
     r = RunEnded \<and> \<not> alive w' \<or>
     r = Slept seconds \<and> (\<exists>chunks. sum_list chunks = seconds - slept \<and> list_all (\<lambda>c. 0 < c \<and> c \<le> 1) chunks \<and>
       w' = fold rest_for chunks w)"
proof (induction alive cancelled rest_for seconds slept w rule: sleep_loop.induct)
  case (1 alive cancelled rest_for seconds slept w)
  show ?case
  proof (cases "slept < seconds")
    case False
    with "1.prems" have "w' = w" "r = Slept seconds" "seconds = slept" by (auto simp: sleep_loop.simps[of alive])
    then show ?thesis by (intro disjI2) (auto intro!: exI[of _ "[]"])
  next
    case True
    let ?chunk = "min 1 (seconds - slept)"
    have chunk: "0 < ?chunk" "?chunk \<le> 1" "slept + ?chunk \<le> seconds" using True by auto
    show ?thesis
    proof (cases "alive (rest_for ?chunk w)")
      case False
      with True "1.prems" show ?thesis by (auto simp: sleep_loop.simps[of alive] Let_def split: if_splits)
    next
      case alive: True
      with True "1.prems" have quiet: "\<not> cancelled w" "\<not> cancelled (rest_for ?chunk w)"
        and rest: "sleep_loop alive cancelled rest_for seconds (slept + ?chunk) (rest_for ?chunk w) = (w', Inr r)"
        by (auto simp: sleep_loop.simps[of alive _ _ _ slept] Let_def split: if_splits)
      from "1.IH"[OF True quiet(1) refl refl quiet(2) _ rest chunk(3)] alive
      consider "r = RunEnded" "\<not> alive w'"
        | cs where "r = Slept seconds" "sum_list cs = seconds - (slept + ?chunk)" "list_all (\<lambda>c. 0 < c \<and> c \<le> 1) cs"
          "w' = fold rest_for cs (rest_for ?chunk w)" by blast
      then show ?thesis
      proof cases
        case (2 cs)
        then have "sum_list (?chunk # cs) = seconds - slept" "list_all (\<lambda>c. 0 < c \<and> c \<le> 1) (?chunk # cs)"
          "w' = fold rest_for (?chunk # cs) w" using chunk by (simp_all add: algebra_simps)
        with 2(1) show ?thesis by blast
      qed simp
    qed
  qed
qed

section \<open>A concrete consolidation\<close>

definition sample_memory :: memory_context where
  "sample_memory =
     \<lparr>mc_summarizer = still_summarizer, mc_snapshot_root = [''s''], mc_memory_root = [''m''],
      mc_conversation_root = [''l''], mc_agent_names = [''writer''], mc_min_pending = 2, mc_max_age = 60,
      mc_max_chars = 9, mc_tolerance = Some 0, mc_system_prompt = ''p'', mc_instructions = ''i''\<rparr>"

definition later_world :: artifact_world where
  "later_world = (sample_world [])\<lparr>world_clock := (2026, 2, 3, 4, 5, 6, 8)\<rparr>"

lemma later_pending:
  "pending_snapshots [''s''] None later_world = [((2026, 2, 3, 4, 5, 6, 7), [''s'', ''20260203T040506000007Z.md''])]"
proof -
  have "valid_stamp (2026, 2, 3, 4, 5, 6, 7)" by (simp add: stamp_eval)
  from artifact_stamp[OF this, of "[''s'']"] show ?thesis
    by (simp add: pending_snapshots_def rglob_suffix_def later_world_def sample_world_def sample_name map_filter_def
        strict_prefix_def suffix_def)
qed

lemma later_latest: "latest_timestamped_file [''m''] ''.md'' later_world = None"
  by (simp add: latest_timestamped_file_def glob_suffix_def later_world_def sample_world_def List.map_filter_simps)

lemma later_reads: "read_artifact [''s'', ''20260203T040506000007Z.md''] later_world = Inr (translate_newlines ''old'')"
  "active_marker_paths directory names (run_disk later_world) = []"
  by (simp_all add: read_artifact_def later_world_def sample_world_def active_marker_paths_def)

lemma written_case:
  "\<exists>p' path. W = (p', Inr path) \<Longrightarrow>
     \<exists>p' path. (case W of (p2, Inl e) \<Rightarrow> F p2 e | (p2, Inr q) \<Rightarrow> (p2, Inr (Consolidated n q))) = (p', Inr (Consolidated n path))"
  by auto

theorem snapshots_are_consolidated_once_witness:
  "\<exists>plan p' path. plan_consolidation sample_memory later_world = Inr (Inr plan) \<and> length (mp_pending plan) = 1 \<and>
     publish_memory sample_memory plan ''summary'' (event_pipe [] later_world) = (p', Inr (Consolidated 1 path)) \<and>
     (\<exists>st. set (pending_snapshots [''s''] (Some st) (outside p')) \<inter> set (mp_pending plan) = {}) \<and>
     suffix ''old'' (mp_conversation plan)"
proof -
  let ?p = "event_pipe [] later_world"
  obtain plan where plan: "plan_consolidation sample_memory later_world = Inr (Inr plan)"
    and found: "mp_found plan = None"
    and pending: "mp_pending plan = [((2026, 2, 3, 4, 5, 6, 7), [''s'', ''20260203T040506000007Z.md''])]"
    by (simp add: plan_consolidation_def sample_memory_def later_latest later_pending later_reads should_consolidate_def
        memory_summary_input_def snapshot_text_def snapshot_section_def lift_os_def Let_def)
  have world: "outside ?p = later_world" by (simp add: event_pipe_def)
  have env: "ch_environment (sm_host (mc_summarizer sample_memory)) = still_environment"
    by (simp add: sample_memory_def still_summarizer_def)
  have folder: "mc_memory_root sample_memory = [''m'']" "mc_snapshot_root sample_memory = [''s'']"
    by (simp_all add: sample_memory_def)
  have calm: "raise_if_cancelled still_environment q = (q, Inr ())" if "\<not> cancel_signal q" for q
    using that by (simp add: raise_if_cancelled_def observe_def still_environment_def)
  have "\<exists>p' path. write_timestamped_file still_environment [''m''] body ''.md'' None ?p = (p', Inr path)" for body
  proof -
    have "\<not> cancel_signal (?p\<lparr>outside := w\<rparr>)" for w by (simp add: event_pipe_def)
    note calm[OF this, simp]
    show ?thesis
      by (simp add: write_timestamped_file_def publish_artifact_def world Let_def link_candidate.simps artifact_exists_def)
        (simp add: later_world_def sample_world_def put_artifact_def sample_name)
  qed
  note writes = this
  have "raise_if_cancelled still_environment ?p = (?p, Inr ())" by (rule calm) (simp add: event_pipe_def)
  then have "\<exists>p' path. publish_memory sample_memory plan ''summary'' ?p = (p', Inr (Consolidated (length (mp_pending plan)) path))"
    unfolding publish_memory_def env folder Let_def
    by (simp only: prod.case sum.case world later_latest option.case if_False) (rule written_case, rule writes)
  then obtain p' path where publish:
    "publish_memory sample_memory plan ''summary'' ?p = (p', Inr (Consolidated (length (mp_pending plan)) path))" by blast
  have "timely (mc_memory_root sample_memory) ''.md'' (outside ?p)" "no_temporaries (mc_memory_root sample_memory) (outside ?p)"
    "valid_stamp (world_clock (outside ?p))" and named: "list_all (\<lambda>e. fst e < world_clock (outside ?p)) (mp_pending plan)"
    unfolding world folder
    by (simp_all add: timely_def glob_suffix_def no_temporaries_def later_world_def sample_world_def stamp_eval pending less_prod_simp)
  note once = snapshots_are_consolidated_once[OF plan publish _ this(3,1,2), unfolded env folder, OF still_keeps_artifacts]
  from once obtain st where again: "\<forall>e \<in> set (pending_snapshots [''s''] (Some st) (outside p')) \<inter> set (mp_pending plan).
      world_clock (outside ?p) < fst e" by blast
  have "set (pending_snapshots [''s''] (Some st) (outside p')) \<inter> set (mp_pending plan) = {}"
  proof (rule ccontr)
    assume "\<not> ?thesis"
    then obtain e where e: "e \<in> set (pending_snapshots [''s''] (Some st) (outside p')) \<inter> set (mp_pending plan)" by blast
    with again have "world_clock (outside ?p) < fst e" by blast
    moreover from e named have "fst e < world_clock (outside ?p)" by (simp add: list_all_iff)
    ultimately show False by order
  qed
  moreover have "suffix ''old'' (mp_conversation plan)"
  proof -
    from once obtain bodies prior where bodies: "list_all2 (\<lambda>e body. read_artifact (snd e) later_world = Inr body) (mp_pending plan) bodies"
      and conversation: "mp_conversation plan = prior @ ''## New conversation snapshots'' @ line_break @ line_break @
           join_with (line_break @ line_break)
             (map2 (\<lambda>e body. ''### Snapshot: '' @ posix_rel (drop (length [''s'']) (butlast (snd e))) @
                line_break @ line_break @ sd_content (parse_snapshot_document body)) (mp_pending plan) bodies)"
      by blast
    from bodies have "bodies = [translate_newlines ''old'']"
      by (auto simp: pending later_reads list_all2_Cons1)
    moreover have "sd_content (parse_snapshot_document (translate_newlines ''old'')) = ''old''" by code_simp
    ultimately show ?thesis by (simp add: conversation pending suffix_def)
  qed
  ultimately show ?thesis using plan publish pending by auto
qed

end
