(* ===== verification/Roboz_Endpoints.thy ===== *)
theory Roboz_Endpoints
  imports Roboz_Calls Roboz_Roundtrip Roboz_Health
begin

text \<open>
  Selection and binding of endpoints (\<open>llm/endpoints.py\<close>, \<open>llm/binding.py\<close>,
  \<open>llm/openrouter.py\<close>): request options, the model listing, the selector, routes that follow it. A
  getter is a function of the state it reads; \<open>None\<close> stands for an object of another type.
\<close>

section \<open>Request options\<close>

datatype endpoint_failure =
    ProtectedOptions "string list" | OptionsNotJson | GetterResultType | OptionsNeedEndpoint | NotAnEndpoint
  | UnknownModel string | ModelIdsNotUnique | DefaultNotSelectable

type_synonym request_options = "(string \<times> json) list"

definition FRAMEWORK_OWNED :: "string list" where
  "FRAMEWORK_OWNED = [''messages'', ''model'', ''response_format'', ''stream'', ''stream_options'', ''temperature'']"

text \<open>\<open>allow_nan=False\<close>; a float is the text that \<open>json\<close> writes for it.\<close>

fun finite_numbers :: "json \<Rightarrow> bool" where
  "finite_numbers (JFloat t) \<longleftrightarrow> t \<notin> {''NaN'', ''Infinity'', ''-Infinity''}"
| "finite_numbers (JList xs) \<longleftrightarrow> list_all finite_numbers xs"
| "finite_numbers (JObj kvs) \<longleftrightarrow> list_all (\<lambda>kv. finite_numbers (snd kv)) kvs"
| "finite_numbers JNull \<longleftrightarrow> True"
| "finite_numbers (JBool b) \<longleftrightarrow> True"
| "finite_numbers (JInt i) \<longleftrightarrow> True"
| "finite_numbers (JStr s) \<longleftrightarrow> True"

definition copy_request_options :: "request_options \<Rightarrow> endpoint_failure + request_options" where
  "copy_request_options extra_body =
     (let protected = filter (\<lambda>k. k \<in> fst ` set extra_body) FRAMEWORK_OWNED
      in if protected \<noteq> [] then Inl (ProtectedOptions (sort protected))
         else if \<not> finite_numbers (JObj extra_body) then Inl OptionsNotJson
         else (case loads (dumps True (JObj extra_body)) of
                 Some (JObj kvs) \<Rightarrow> Inr kvs | _ \<Rightarrow> Inl OptionsNotJson))"

definition framework_free :: "request_options \<Rightarrow> bool" where
  "framework_free body \<longleftrightarrow> list_all (\<lambda>k. k \<notin> fst ` set body) FRAMEWORK_OWNED"

lemma copy_accepts:
  "printable (JObj body) \<Longrightarrow> copy_request_options body =
     (if \<not> framework_free body then Inl (ProtectedOptions (sort (filter (\<lambda>k. k \<in> fst ` set body) FRAMEWORK_OWNED)))
      else if finite_numbers (JObj body) then Inr body else Inl OptionsNotJson)"
  by (simp add: copy_request_options_def framework_free_def loads_dumps filter_empty_conv list_all_iff Let_def
      del: dumps.simps finite_numbers.simps printable.simps)

section \<open>The model listing\<close>

text \<open>\<open>models.list\<close> raises, returns no list of data, or a list of entries with their ids.\<close>

datatype discovery = DiscoveryRaised nat | NoDataList | DataList "string option list"

definition type_error :: "string \<Rightarrow> error_store" where
  "type_error message =
     [(0, \<lparr>eo_type = ''TypeError'', eo_kinds = [''TypeError''], eo_text = message, eo_body = NoBody, eo_status = None,
           eo_response_status = None, eo_cause = None, eo_context = None, eo_suppress_context = False\<rparr>)]"

definition check_openai_compatible_model ::
  "(string \<Rightarrow> string) \<Rightarrow> string list \<Rightarrow> error_store \<Rightarrow> discovery \<Rightarrow> string \<Rightarrow> dependency_failure option" where
  "check_openai_compatible_model redact_patterns vals store response wanted =
     (case response of
        DiscoveryRaised i \<Rightarrow> Some (failure_from_exception redact_patterns vals store i)
      | NoDataList \<Rightarrow>
          Some (failure_from_exception redact_patterns vals (type_error ''model discovery response must contain a data list'') 0)
      | DataList ids \<Rightarrow>
          if None \<in> set ids
          then Some (failure_from_exception redact_patterns vals (type_error ''model discovery entries must have string IDs'') 0)
          else if Some wanted \<in> set ids \<or> Some (takeWhile (\<lambda>c. c \<noteq> CHR '':'') wanted) \<in> set ids then None
          else Some \<lparr>fl_reason = RModelUnavailable,
                 fl_message = ''Configured model was not found in the provider's model listing: '' @ wanted\<rparr>)"

definition endpoint_id :: "llm_endpoint \<Rightarrow> string" where
  "endpoint_id ep = ''model:'' @ le_api_name ep @ '':'' @ le_model_name ep"

definition redacted_metadata :: "llm_endpoint \<Rightarrow> (string \<times> string) list" where
  "redacted_metadata ep =
     [(''api_name'', le_api_name ep), (''model_name'', le_model_name ep), (''endpoint_type'', ''llm'')]"

section \<open>The selector\<close>

record model_selector =
  sl_models :: "(string \<times> llm_endpoint) list"
  sl_by_id :: "(string \<times> llm_endpoint) list"
  sl_selected :: string

definition keyed_by_id :: "(string \<times> llm_endpoint) list \<Rightarrow> (string \<times> llm_endpoint) list" where
  "keyed_by_id models = map (\<lambda>(_, ep). (endpoint_id ep, ep)) models"

definition new_selector ::
  "(string \<times> llm_endpoint) list \<Rightarrow> llm_endpoint \<Rightarrow> endpoint_failure + model_selector" where
  "new_selector models default_ep =
     (let by_id = dict_of (keyed_by_id models)
      in if length by_id \<noteq> length models then Inl ModelIdsNotUnique
         else if endpoint_id default_ep \<notin> fst ` set by_id then Inl DefaultNotSelectable
         else Inr \<lparr>sl_models = models, sl_by_id = by_id, sl_selected = endpoint_id default_ep\<rparr>)"

definition find_endpoint :: "string \<Rightarrow> model_selector \<Rightarrow> endpoint_failure + llm_endpoint" where
  "find_endpoint model_id s =
     (case map_of (sl_by_id s) model_id of None \<Rightarrow> Inl (UnknownModel model_id) | Some ep \<Rightarrow> Inr ep)"

definition selected_endpoint :: "model_selector \<Rightarrow> endpoint_failure + llm_endpoint" where
  "selected_endpoint s = find_endpoint (sl_selected s) s"

definition select_model :: "string \<Rightarrow> model_selector \<Rightarrow> model_selector \<times> (endpoint_failure + unit)" where
  "select_model model_id s =
     (if model_id \<notin> fst ` set (sl_by_id s) then (s, Inl (UnknownModel model_id))
      else (s\<lparr>sl_selected := model_id\<rparr>, Inr ()))"

section \<open>Routes\<close>

record mock_endpoint =
  me_api_name :: string
  me_model_name :: string
  me_accepts_images :: bool

datatype 's endpoint_like =
    Direct llm_endpoint | Scripted mock_endpoint
  | Route "'s \<Rightarrow> (llm_endpoint + mock_endpoint) option" "request_options option" | OtherEndpoint

definition new_route ::
  "('s \<Rightarrow> (llm_endpoint + mock_endpoint) option) \<Rightarrow> request_options option \<Rightarrow> endpoint_failure + 's endpoint_like" where
  "new_route getter extra_body =
     (case extra_body of
        None \<Rightarrow> Inr (Route getter None)
      | Some body \<Rightarrow> rbind (copy_request_options body) (\<lambda>options. Inr (Route getter (Some options))))"

definition resolve_route ::
  "('s \<Rightarrow> (llm_endpoint + mock_endpoint) option) \<Rightarrow> request_options option \<Rightarrow> 's
    \<Rightarrow> endpoint_failure + (llm_endpoint + mock_endpoint)" where
  "resolve_route getter extra_body s =
     (case getter s of
        None \<Rightarrow> Inl GetterResultType
      | Some ep \<Rightarrow>
          (case extra_body of
             None \<Rightarrow> Inr ep
           | Some body \<Rightarrow>
               (case ep of
                  Inr _ \<Rightarrow> Inl OptionsNeedEndpoint
                | Inl llm \<Rightarrow> rbind (copy_request_options body) (\<lambda>options. Inr (Inl (llm\<lparr>le_extra_body := Some options\<rparr>))))))"

definition resolve_endpoint :: "'s endpoint_like \<Rightarrow> 's \<Rightarrow> endpoint_failure + (llm_endpoint + mock_endpoint)" where
  "resolve_endpoint ep s =
     (case ep of
        Direct llm \<Rightarrow> Inr (Inl llm)
      | Scripted mock \<Rightarrow> Inr (Inr mock)
      | Route getter extra_body \<Rightarrow> resolve_route getter extra_body s
      | OtherEndpoint \<Rightarrow> Inl NotAnEndpoint)"

definition with_request_options :: "'s endpoint_like \<Rightarrow> request_options \<Rightarrow> endpoint_failure + 's endpoint_like" where
  "with_request_options ep extra_body =
     rbind (copy_request_options extra_body) (\<lambda>options.
       (case ep of
          Route getter _ \<Rightarrow> new_route getter (Some options)
        | Direct llm \<Rightarrow> Inr (Direct (llm\<lparr>le_extra_body := Some options\<rparr>))
        | _ \<Rightarrow> Inl NotAnEndpoint))"

definition openrouter_request_options :: "string option \<Rightarrow> string list \<Rightarrow> request_options" where
  "openrouter_request_options reasoning_effort ignored_providers =
     (''provider'', JObj ([(''sort'', JStr ''throughput''), (''require_parameters'', JBool True)] @
        (if ignored_providers \<noteq> [] then [(''ignore'', JList (map JStr ignored_providers))] else []))) #
     (case reasoning_effort of None \<Rightarrow> [] | Some effort \<Rightarrow> [(''reasoning'', JObj [(''effort'', JStr effort)])])"

definition with_openrouter_policy ::
  "'s endpoint_like \<Rightarrow> string option \<Rightarrow> string list \<Rightarrow> endpoint_failure + 's endpoint_like" where
  "with_openrouter_policy ep reasoning_effort ignored_providers =
     with_request_options ep (openrouter_request_options reasoning_effort ignored_providers)"

text \<open>A route over a selector, and the state after requests to select models.\<close>

definition selector_getter :: "model_selector \<Rightarrow> (llm_endpoint + mock_endpoint) option" where
  "selector_getter s = (case selected_endpoint s of Inr ep \<Rightarrow> Some (Inl ep) | Inl _ \<Rightarrow> None)"

definition after_selections :: "string list \<Rightarrow> model_selector \<Rightarrow> model_selector" where
  "after_selections = fold (\<lambda>model_id s. fst (select_model model_id s))"

section \<open>Lemmas\<close>

lemma dict_of_keys: "set (map fst (dict_of kvs)) = set (map fst kvs) \<and> distinct (map fst (dict_of kvs))"
proof (induction kvs rule: rev_induct)
  case (snoc kv kvs)
  have "dict_of (kvs @ [kv]) = dict_set (fst kv) (snd kv) (dict_of kvs)" by (simp add: dict_of_def split_beta)
  with snoc show ?case by (auto simp: keys_dict_set)
qed (simp add: dict_of_def)

lemma dict_of_length: "length (dict_of kvs) = length kvs \<Longrightarrow> dict_of kvs = kvs"
  by (metis card_distinct dict_of_distinct dict_of_keys distinct_card length_map)

lemma keyed_keys: "fst ` set (keyed_by_id models) = (endpoint_id \<circ> snd) ` set models"
  by (force simp: keyed_by_id_def)

lemma keyed_entry: "k \<in> fst ` set (keyed_by_id models) \<Longrightarrow> \<exists>ep \<in> snd ` set models. endpoint_id ep = k \<and> (k, ep) \<in> set (keyed_by_id models)"
  by (force simp: keyed_by_id_def)

definition selector_ok :: "(string \<times> llm_endpoint) list \<Rightarrow> model_selector \<Rightarrow> bool" where
  "selector_ok models s \<longleftrightarrow>
     sl_models s = models \<and> sl_by_id s = keyed_by_id models \<and>
     distinct (map fst (sl_by_id s)) \<and> sl_selected s \<in> fst ` set (sl_by_id s)"

lemma new_selector_ok:
  assumes "new_selector models default_ep = Inr s"
  shows "selector_ok models s \<and> sl_selected s = endpoint_id default_ep"
proof -
  from assms have len: "length (dict_of (keyed_by_id models)) = length (keyed_by_id models)"
    and s: "s = \<lparr>sl_models = models, sl_by_id = dict_of (keyed_by_id models), sl_selected = endpoint_id default_ep\<rparr>"
      "endpoint_id default_ep \<in> fst ` set (dict_of (keyed_by_id models))"
    by (auto simp: new_selector_def keyed_by_id_def Let_def split: if_splits)
  from dict_of_length[OF len] dict_of_keys[of "keyed_by_id models"] s show ?thesis by (simp add: selector_ok_def)
qed

lemma after_selections_ok:
  "selector_ok models s \<Longrightarrow> selector_ok models (after_selections ids s) \<and>
     sl_selected (after_selections ids s) = last (sl_selected s # filter (\<lambda>i. i \<in> (endpoint_id \<circ> snd) ` set models) ids)"
proof (induction ids arbitrary: s)
  case (Cons i ids)
  have "fst ` set (sl_by_id s) = (endpoint_id \<circ> snd) ` set models"
    using Cons.prems by (simp add: selector_ok_def keyed_keys)
  then have "selector_ok models (fst (select_model i s)) \<and>
      sl_selected (fst (select_model i s)) = (if i \<in> (endpoint_id \<circ> snd) ` set models then i else sl_selected s)"
    using Cons.prems by (auto simp: selector_ok_def select_model_def)
  with Cons.IH[of "fst (select_model i s)"] show ?case by (simp add: after_selections_def)
qed (simp add: after_selections_def)

lemma selected_of_ok:
  assumes "selector_ok models s"
  obtains ep where "ep \<in> snd ` set models" "endpoint_id ep = sl_selected s" "selected_endpoint s = Inr ep"
proof -
  from assms have "sl_selected s \<in> fst ` set (keyed_by_id models)" and same: "sl_by_id s = keyed_by_id models"
    unfolding selector_ok_def by (elim conjE, simp)+
  from keyed_entry[OF this(1)] obtain ep where ep: "ep \<in> snd ` set models" "endpoint_id ep = sl_selected s"
    "(sl_selected s, ep) \<in> set (sl_by_id s)" unfolding same by blast
  have "distinct (map fst (sl_by_id s))" using assms unfolding selector_ok_def by blast
  then have "map_of (sl_by_id s) (sl_selected s) = Some ep" using ep(3) by (rule map_of_is_SomeI)
  with ep that show thesis by (simp add: selected_endpoint_def find_endpoint_def)
qed

lemma policy_replaces_options:
  assumes "with_request_options (Route getter old) body = Inr route" "printable (JObj body)"
  shows "route = Route getter (Some body) \<and> framework_free body \<and> copy_request_options body = Inr body"
  using assms
  by (auto simp: with_request_options_def new_route_def copy_accepts rbind_Inr_iff split: if_splits
      simp del: printable.simps finite_numbers.simps)

section \<open>Properties\<close>

text \<open>
  C38. A route over a selector, given request options, resolves after any requests to select models to
  the configured endpoint of the last known identity that was asked for, or of the default; its
  identity is unchanged, its options are exactly those given, fractions included, and they override
  no part of the request that the framework owns. The options are a JSON value that is printed and
  read back, as the code copies it: its numbers are finite, and the keys of each object distinct.
\<close>

theorem route_follows_selection:
  assumes "new_selector models default_ep = Inr s"
    and "with_request_options (Route selector_getter old) body = Inr route" and "printable (JObj body)"
  shows "\<exists>ep \<in> snd ` set models.
    endpoint_id ep = last (endpoint_id default_ep # filter (\<lambda>i. i \<in> (endpoint_id \<circ> snd) ` set models) ids) \<and>
    resolve_endpoint route (after_selections ids s) = Inr (Inl (ep\<lparr>le_extra_body := Some body\<rparr>)) \<and>
    endpoint_id (ep\<lparr>le_extra_body := Some body\<rparr>) = endpoint_id ep \<and>
    (\<forall>k \<in> fst ` set body. k \<notin> set FRAMEWORK_OWNED)"
proof -
  from new_selector_ok[OF assms(1)] have s: "selector_ok models s" "sl_selected s = endpoint_id default_ep" by auto
  from after_selections_ok[OF s(1), of ids] have t: "selector_ok models (after_selections ids s)"
    "sl_selected (after_selections ids s) = last (endpoint_id default_ep # filter (\<lambda>i. i \<in> (endpoint_id \<circ> snd) ` set models) ids)"
    by (simp_all only: s(2))
  from selected_of_ok[OF t(1)] obtain ep where ep: "ep \<in> snd ` set models"
    "endpoint_id ep = sl_selected (after_selections ids s)" "selected_endpoint (after_selections ids s) = Inr ep" .
  from policy_replaces_options[OF assms(2,3)] have r: "route = Route selector_getter (Some body)" "framework_free body"
    "copy_request_options body = Inr body" by auto
  have "\<forall>k \<in> fst ` set body. k \<notin> set FRAMEWORK_OWNED" using r(2) by (auto simp: framework_free_def list_all_iff)
  with ep t(2) r(1,3) show ?thesis
    by (intro bexI[of _ ep]) (simp_all add: resolve_endpoint_def resolve_route_def selector_getter_def endpoint_id_def)
qed

definition sample_llm :: "string \<Rightarrow> llm_endpoint" where
  "sample_llm name = \<lparr>le_api_name = ''a'', le_model_name = name, le_temperature = JInt 2, le_json_output = False,
     le_accepts_temperature = True, le_accepts_images = False, le_stream = True, le_extra_body = None,
     le_errors = \<lparr>rate_limit_error = None, context_length_error = None\<rparr>\<rparr>"

definition sample_options :: request_options where
  "sample_options = openrouter_request_options (Some ''low'') [] @ [(''top_p'', JFloat ''0.9'')]"

theorem route_follows_selection_witness:
  "\<exists>s route. new_selector [(''x'', sample_llm ''m''), (''y'', sample_llm ''n'')] (sample_llm ''m'') = Inr s \<and>
     with_request_options (Route selector_getter None) sample_options = Inr route \<and>
     (\<exists>ep. endpoint_id ep = ''model:a:n'' \<and>
        resolve_endpoint route (after_selections [''model:a:n'', ''model:a:z''] s) = Inr (Inl (ep\<lparr>le_extra_body := Some sample_options\<rparr>)))"
proof -
  let ?models = "[(''x'', sample_llm ''m''), (''y'', sample_llm ''n'')]"
  have ids: "endpoint_id (sample_llm name) = ''model:a:'' @ name" for name by (simp add: endpoint_id_def sample_llm_def)
  obtain s where s: "new_selector ?models (sample_llm ''m'') = Inr s"
    by (simp add: new_selector_def keyed_by_id_def ids dict_of_def Let_def)
  have "float_text ''0.9''" by code_simp
  then have print: "printable (JObj sample_options)" by (simp add: sample_options_def openrouter_request_options_def)
  have "framework_free sample_options" "finite_numbers (JObj sample_options)"
    by (simp_all add: framework_free_def FRAMEWORK_OWNED_def sample_options_def openrouter_request_options_def)
  then have "with_request_options (Route selector_getter None) sample_options = Inr (Route selector_getter (Some sample_options))"
    by (simp add: with_request_options_def new_route_def copy_accepts[OF print])
  moreover from route_follows_selection[OF s this print, of "[''model:a:n'', ''model:a:z'']"] obtain ep where
    "endpoint_id ep = last (''model:a:m'' # filter (\<lambda>i. i \<in> (endpoint_id \<circ> snd) ` set ?models) [''model:a:n'', ''model:a:z''])"
    "resolve_endpoint (Route selector_getter (Some sample_options)) (after_selections [''model:a:n'', ''model:a:z''] s) =
       Inr (Inl (ep\<lparr>le_extra_body := Some sample_options\<rparr>))"
    unfolding ids by auto
  ultimately show ?thesis using s by (auto simp: ids)
qed

end
