(* ===== verification/Roboz_Deploy.thy ===== *)
theory Roboz_Deploy
  imports Roboz_Agent "HOL-Library.Multiset"
begin

text \<open>
  Agent definitions and their capabilities (\<open>deployment.py\<close>). Definitions are objects that attach each
  other, so a heap holds them and a child is a position in it: graphs may be shared and cyclic until
  they are validated. Tools, skills and attribute values are of any type; a test of types is a
  predicate on values, and what a capability builds is a function of the attributes of its owner.
  Each agent of the graph is made by the modelled constructor \<open>make_agent\<close>, which may refuse its
  arguments; a built agent is the arguments that it accepted.
\<close>

section \<open>Capabilities\<close>

datatype skill_loading = OnDemand | Automatic

datatype label_kind = ToolKind (tool_default: bool) | SkillKind (skill_mode: skill_loading)

record capability_label =
  cl_name :: string
  cl_selectable :: bool
  cl_kind :: label_kind

datatype deployment_error =
    EmptyCapabilityName | LabelMismatch | EmptyDefaultChain | NotBuilt
  | UnknownCapability string | CapabilityFixed string | CapabilityNotSkill string
  | DuplicateCapability | NotADefinition | CyclicGraph | DuplicateAgent | ProtectedAttribute string
  | InvalidConfiguration "(string \<times> string \<times> string) list" | BuildFailed string | AgentRefused exn | OutOfFuel

datatype ('t, 's) payload = ToolValue 't | ChainValue "'t list" | SkillValue 's

record ('t, 's, 'v) capability =
  cap_label :: capability_label
  cap_required :: "(string \<times> ('v \<Rightarrow> bool)) list"
  cap_build :: "(string \<Rightarrow> 'v option option) \<Rightarrow> deployment_error + ('t, 's) payload list"

definition check_label :: "capability_label \<Rightarrow> deployment_error + capability_label" where
  "check_label label = (if py_strip (cl_name label) = [] then Inl EmptyCapabilityName else Inr label)"

definition validate_value :: "capability_label \<Rightarrow> ('t, 's) payload \<Rightarrow> deployment_error + ('t, 's) payload" where
  "validate_value label v =
     (case (cl_kind label, v) of
        (SkillKind _, SkillValue s) \<Rightarrow> Inr v
      | (SkillKind _, _) \<Rightarrow> Inl LabelMismatch
      | (ToolKind _, ToolValue t) \<Rightarrow> Inr v
      | (ToolKind default_root, ChainValue ts) \<Rightarrow> if default_root \<and> ts = [] then Inl EmptyDefaultChain else Inr v
      | (ToolKind _, SkillValue s) \<Rightarrow> Inl LabelMismatch)"

text \<open>A capability with a value of its own; the value is validated when it is declared.\<close>

definition valued_capability ::
  "capability_label \<Rightarrow> ('t, 's) payload option \<Rightarrow> deployment_error + ('t, 's, 'v) capability" where
  "valued_capability label v =
     (case v of
        None \<Rightarrow> Inr \<lparr>cap_label = label, cap_required = [], cap_build = (\<lambda>_. Inl NotBuilt)\<rparr>
      | Some value \<Rightarrow>
          rbind (validate_value label value) (\<lambda>value'.
            Inr \<lparr>cap_label = label, cap_required = [], cap_build = (\<lambda>_. Inr [value'])\<rparr>))"

datatype choice = Chosen bool | Mode skill_loading

record ('t, 's) built_inputs =
  ai_tools :: "'t list"
  ai_default_tools :: "'t list"
  ai_skills :: "'s list"
  ai_auto_loaded :: "'s list"

definition no_inputs :: "('t, 's) built_inputs" where
  "no_inputs = \<lparr>ai_tools = [], ai_default_tools = [], ai_skills = [], ai_auto_loaded = []\<rparr>"

fun chain_of :: "('t, 's) payload \<Rightarrow> 't list" where
  "chain_of (ToolValue t) = [t]"
| "chain_of (ChainValue ts) = ts"
| "chain_of (SkillValue s) = []"

fun skill_of :: "('t, 's) payload \<Rightarrow> 's list" where
  "skill_of (SkillValue s) = [s]"
| "skill_of (ToolValue t) = []"
| "skill_of (ChainValue ts) = []"

definition build_inputs ::
  "('t, 's, 'v) capability \<Rightarrow> (string \<Rightarrow> 'v option option) \<Rightarrow> choice \<Rightarrow> deployment_error + ('t, 's) built_inputs" where
  "build_inputs cap attributes chosen =
     (if chosen = Chosen False then Inr no_inputs
      else
        rbind (cap_build cap attributes) (\<lambda>built.
        rbind (traverse (validate_value (cap_label cap)) built) (\<lambda>vs.
        Inr (case cl_kind (cap_label cap) of
               SkillKind declared \<Rightarrow>
                 if (case chosen of Mode m \<Rightarrow> m | Chosen _ \<Rightarrow> declared) = Automatic
                 then no_inputs\<lparr>ai_auto_loaded := concat (map skill_of vs)\<rparr>
                 else no_inputs\<lparr>ai_skills := concat (map skill_of vs)\<rparr>
             | ToolKind default_root \<Rightarrow>
                 if default_root
                 then no_inputs\<lparr>ai_default_tools := map (hd \<circ> chain_of) vs, ai_tools := concat (map (tl \<circ> chain_of) vs)\<rparr>
                 else no_inputs\<lparr>ai_tools := concat (map chain_of vs)\<rparr>))))"

section \<open>Definitions\<close>

record ('t, 's, 'v) deployable =
  dp_name :: string
  dp_description :: string
  dp_system_prompt :: string
  dp_mode :: agent_mode
  dp_automatic_tool_prompt :: bool
  dp_initial_messages :: "(path + string) list"
  dp_capabilities :: "('t, 's, 'v) capability list"
  dp_selection :: "(string \<times> choice) list option"
  dp_nested :: "nat list"
  dp_background :: "nat list"
  dp_endpoint :: "'v option"
  dp_attributes :: "(string \<times> 'v option) list"

type_synonym ('t, 's, 'v) definitions = "('t, 's, 'v) deployable list"

text \<open>\<open>getattr\<close> for the attributes that capabilities ask for.\<close>

definition attribute_of :: "('t, 's, 'v) deployable \<Rightarrow> string \<Rightarrow> 'v option option" where
  "attribute_of d name = (if name = ''agent_endpoint'' then Some (dp_endpoint d) else map_of (dp_attributes d) name)"

definition set_attributes ::
  "string list \<Rightarrow> (string \<times> 'v option) list \<Rightarrow> ('t, 's, 'v) deployable
    \<Rightarrow> ('t, 's, 'v) deployable \<times> (deployment_error + unit)" where
  "set_attributes structure values d =
     (case find (\<lambda>(name, _). prefix ''_'' name \<or> name \<in> set structure) values of
        Some (name, _) \<Rightarrow> (d, Inl (ProtectedAttribute name))
      | None \<Rightarrow> (d\<lparr>dp_attributes := fold (\<lambda>(k, v). dict_set k v) values (dp_attributes d)\<rparr>, Inr ()))"

definition capability_names :: "('t, 's, 'v) capability list \<Rightarrow> string list" where
  "capability_names = map (cl_name \<circ> cap_label)"

definition add_capabilities ::
  "('t, 's, 'v) capability list \<Rightarrow> ('t, 's, 'v) deployable \<Rightarrow> ('t, 's, 'v) deployable \<times> (deployment_error + unit)" where
  "add_capabilities caps d =
     (let combined = dp_capabilities d @ caps
      in if distinct (capability_names combined) then (d\<lparr>dp_capabilities := combined\<rparr>, Inr ())
         else (d, Inl DuplicateCapability))"

definition check_choice :: "capability_label list \<Rightarrow> string \<times> choice \<Rightarrow> deployment_error + unit" where
  "check_choice labels entry =
     (case entry of (name, chosen) \<Rightarrow>
        (case find (\<lambda>l. cl_name l = name) labels of
           None \<Rightarrow> Inl (UnknownCapability name)
         | Some label \<Rightarrow>
             if \<not> cl_selectable label \<and> chosen \<noteq> Chosen True then Inl (CapabilityFixed name)
             else (case (chosen, cl_kind label) of
                     (Mode _, ToolKind _) \<Rightarrow> Inl (CapabilityNotSkill name) | _ \<Rightarrow> Inr ())))"

definition set_capability_selection ::
  "(string \<times> choice) list option \<Rightarrow> ('t, 's, 'v) deployable \<Rightarrow> ('t, 's, 'v) deployable \<times> (deployment_error + unit)" where
  "set_capability_selection selection d =
     (case selection of
        None \<Rightarrow> (d\<lparr>dp_selection := None\<rparr>, Inr ())
      | Some choices \<Rightarrow>
          (case traverse (check_choice (map cap_label (dp_capabilities d))) choices of
             Inl e \<Rightarrow> (d, Inl e)
           | Inr _ \<Rightarrow> (d\<lparr>dp_selection := Some choices\<rparr>, Inr ())))"

definition resolve_choice :: "(string \<times> choice) list option \<Rightarrow> capability_label \<Rightarrow> choice" where
  "resolve_choice selection label =
     (let chosen = (case selection of
            None \<Rightarrow> Chosen True
          | Some choices \<Rightarrow> (case map_of choices (cl_name label) of None \<Rightarrow> Chosen False | Some c \<Rightarrow> c))
      in if \<not> cl_selectable label then Chosen True
         else (case (cl_kind label, chosen) of (SkillKind m, Chosen True) \<Rightarrow> Mode m | _ \<Rightarrow> chosen))"

definition resolve_capabilities :: "('t, 's, 'v) deployable \<Rightarrow> (string \<times> choice) list" where
  "resolve_capabilities d =
     map (\<lambda>cap. (cl_name (cap_label cap), resolve_choice (dp_selection d) (cap_label cap))) (dp_capabilities d)"

definition add_children ::
  "bool \<Rightarrow> nat list \<Rightarrow> nat \<Rightarrow> ('t, 's, 'v) definitions \<Rightarrow> ('t, 's, 'v) definitions \<times> (deployment_error + unit)" where
  "add_children nested children i heap =
     (if list_all (\<lambda>c. c < length heap) children \<and> i < length heap
      then (heap[i := (if nested then (heap ! i)\<lparr>dp_nested := dp_nested (heap ! i) @ children\<rparr>
                       else (heap ! i)\<lparr>dp_background := dp_background (heap ! i) @ children\<rparr>)], Inr ())
      else (heap, Inl NotADefinition))"

section \<open>The graph\<close>

definition definition_at :: "('t, 's, 'v) definitions \<Rightarrow> nat \<Rightarrow> ('t, 's, 'v) deployable option" where
  "definition_at heap i = (if i < length heap then Some (heap ! i) else None)"

definition next_pending ::
  "('t, 's, 'v) deployable \<Rightarrow> nat \<Rightarrow> bool \<Rightarrow> nat list \<Rightarrow> (nat \<times> bool \<times> nat list) list" where
  "next_pending d i foreground ancestors =
     map (\<lambda>c. (c, foreground, i # ancestors)) (dp_nested d) @ map (\<lambda>c. (c, False, i # ancestors)) (dp_background d)"

lemma fresh_name_less:
  "definition_at heap i = Some d \<Longrightarrow> dp_name d \<notin> set names \<Longrightarrow>
     card (dp_name ` set heap - insert (dp_name d) (set names)) < card (dp_name ` set heap - set names)"
  by (rule psubset_card_mono) (auto simp: definition_at_def split: if_splits)

text \<open>The queue of \<open>_walk\<close>: the agent, whether its branch is in the foreground, and its ancestors.\<close>

function walk_from ::
  "('t, 's, 'v) definitions \<Rightarrow> bool \<Rightarrow> (nat \<times> bool \<times> nat list) list \<Rightarrow> string list \<Rightarrow> nat list
    \<Rightarrow> deployment_error + nat list" where
  "walk_from heap everything [] names walked = Inr walked"
| "walk_from heap everything ((i, foreground, ancestors) # pending) names walked =
     (case definition_at heap i of
        None \<Rightarrow> Inl NotADefinition
      | Some d \<Rightarrow>
          if i \<in> set ancestors then Inl CyclicGraph
          else if dp_name d \<in> set names then Inl DuplicateAgent
          else walk_from heap everything (pending @ next_pending d i foreground ancestors) (dp_name d # names)
                 (if everything \<or> foreground then walked @ [i] else walked))"
  by pat_completeness auto
termination
  by (relation "measure (\<lambda>(heap, _, _, names, _). card (dp_name ` set heap - set names))")
    (auto simp: fresh_name_less)

definition walk :: "('t, 's, 'v) definitions \<Rightarrow> bool \<Rightarrow> nat \<Rightarrow> deployment_error + nat list" where
  "walk heap everything i = walk_from heap everything [(i, True, [])] [] []"

definition agent_names :: "('t, 's, 'v) definitions \<Rightarrow> bool \<Rightarrow> nat \<Rightarrow> deployment_error + string list" where
  "agent_names heap everything i = rbind (walk heap everything i) (\<lambda>ws. Inr (map (\<lambda>j. dp_name (heap ! j)) ws))"

section \<open>Requirements\<close>

definition unmet :: "('t, 's, 'v) deployable \<Rightarrow> ('t, 's, 'v) capability \<Rightarrow> (string \<times> string \<times> string) list" where
  "unmet d cap =
     concat (map (\<lambda>(name, fits).
       (case attribute_of d name of
          Some (Some v) \<Rightarrow> if fits v then [] else [(dp_name d, name, ''got another type'')]
        | Some None \<Rightarrow> [(dp_name d, name, ''it is None'')]
        | None \<Rightarrow> [(dp_name d, name, ''it is missing'')])) (cap_required cap))"

definition capability_errors :: "bool \<Rightarrow> ('t, 's, 'v) deployable \<Rightarrow> (string \<times> string \<times> string) list" where
  "capability_errors include_all d =
     concat (map (\<lambda>cap.
       if \<not> include_all \<and> resolve_choice (dp_selection d) (cap_label cap) = Chosen False then [] else unmet d cap)
       (dp_capabilities d))"

definition validate :: "('t, 's, 'v) definitions \<Rightarrow> nat \<Rightarrow> deployment_error + unit" where
  "validate heap i =
     rbind (walk heap True i) (\<lambda>ws.
       let errors = concat (map (\<lambda>j. capability_errors False (heap ! j)) ws)
       in if errors \<noteq> [] then Inl (InvalidConfiguration errors) else Inr ())"

section \<open>Building\<close>

datatype ('t, 's, 'k) built_agent =
  Built (built_name: string) (built_sinks: "'k list") (built_tools: "('t, 's, 'k) bound_tool list")
    (built_defaults: "('t, 's, 'k) bound_tool list") (built_skills: "'s list") (built_auto_loaded: "'s list")
and ('t, 's, 'k) bound_tool = Declared 't | RunNested "('t, 's, 'k) built_agent" | StartBackground "('t, 's, 'k) built_agent"

definition capability_inputs :: "('t, 's, 'v) deployable \<Rightarrow> deployment_error + ('t, 's) built_inputs list" where
  "capability_inputs d =
     traverse (\<lambda>cap. build_inputs cap (attribute_of d) (resolve_choice (dp_selection d) (cap_label cap))) (dp_capabilities d)"

definition assemble ::
  "('t, 's, 'v) deployable \<Rightarrow> 'k list \<Rightarrow> ('t, 's) built_inputs list \<Rightarrow> ('t, 's, 'k) built_agent list
    \<Rightarrow> ('t, 's, 'k) built_agent list \<Rightarrow> ('t, 's, 'k) built_agent" where
  "assemble d event_sinks inputs nested background =
     Built (dp_name d) event_sinks
       (map Declared (concat (map ai_tools inputs)) @ map RunNested nested)
       (map Declared (concat (map ai_default_tools inputs)) @ map StartBackground background)
       (concat (map ai_skills inputs)) (concat (map ai_auto_loaded inputs))"

text \<open>
  What a build needs beside the definitions: the identity that \<open>uuid4\<close> and the allocator give to a
  tool or a skill by its place in its agent, what a call of a tool does, the tool \<open>prompt_user(NO_REPLY)\<close>,
  \<open>validate_agent_name\<close>, the endpoint that an attribute value is (\<open>None\<close> for another type), and the
  pipe over a list of sinks.
\<close>

datatype tool_place = DeclaredTool nat | NestedTool nat | BackgroundTool nat | SkillTool nat | UserTool

record ('w, 'x) tool_behaviour =
  tb_fields :: "string list"
  tb_condition :: "'x tool_output \<Rightarrow> bool"
  tb_validate :: "(string \<times> 'x) list \<Rightarrow> truncation_spec \<Rightarrow> message_kind option \<Rightarrow> exn + 'x tool_value"
  tb_caller :: "'x tool_value \<Rightarrow> message list \<Rightarrow> 'w execution_context \<Rightarrow> 'w pipe
    \<Rightarrow> ('w pipe \<times> message list) \<times> (exn + 'x tool_output)"

record tool_face =
  tf_name :: string
  tf_input :: string
  tf_outputs :: "string list"
  tf_description :: string

definition empty_model :: "string \<Rightarrow> model_type" where
  "empty_model name = \<lparr>mt_name = name, mt_bases = (if name = STOP then [] else [EMPTY])\<rparr>"

definition faced_tool :: "nat \<times> string \<Rightarrow> tool_face \<Rightarrow> ('w, 'x) tool_behaviour \<Rightarrow> ('w, 'x) tool" where
  "faced_tool ident face behaviour =
     \<lparr>t_object = fst ident, t_id = snd ident, t_name = tf_name face, t_input = empty_model (tf_input face),
      t_fields = tb_fields behaviour, t_outputs = map empty_model (tf_outputs face),
      t_description = tf_description face, t_chained_to = None, t_condition = tb_condition behaviour,
      t_validate = tb_validate behaviour, t_caller = tb_caller behaviour\<rparr>"

record ('t, 's, 'v, 'k, 'w, 'x) agent_runtime =
  rt_identity :: "tool_place \<Rightarrow> nat \<times> string"
  rt_declared :: "nat \<Rightarrow> 't \<Rightarrow> ('w, 'x) tool"
  rt_nested :: "('t, 's, 'k) built_agent \<Rightarrow> ('w, 'x) tool_behaviour"
  rt_background :: "('t, 's, 'k) built_agent \<Rightarrow> ('w, 'x) tool_behaviour"
  rt_skill :: "nat \<Rightarrow> 's \<Rightarrow> ('w, 'x) skill"
  rt_endpoint :: "'v \<Rightarrow> string option"
  rt_parameters :: "('w, 'x) agent_parameters"
  rt_valid_name :: "string \<Rightarrow> exn + string"
  rt_prompt_user :: "('w, 'x) tool"
  rt_pipe :: "'k list \<Rightarrow> 'w pipe"

definition refuse :: "exn + 'a \<Rightarrow> deployment_error + 'a" where
  "refuse r = (case r of Inl e \<Rightarrow> Inl (AgentRefused e) | Inr x \<Rightarrow> Inr x)"

text \<open>
  The tools that start a child: \<open>run_nested_agent(child).copy(name=child.name, ...)\<close> and
  \<open>run_background_agent(...).copy(name="start_background_agent_...")\<close>. The name of a tool is
  lowercase snake case, which the name of an agent need not be.
\<close>

definition nested_face :: tool_face where
  "nested_face = \<lparr>tf_name = ''run_nested_agent'', tf_input = EMPTY, tf_outputs = [''Str''],
     tf_description = ''Run the configured nested agent, wait for completion, and return its result.''\<rparr>"

definition background_face :: tool_face where
  "background_face = \<lparr>tf_name = ''run_background_agent'', tf_input = EMPTY, tf_outputs = [''BackgroundAgentStatus''],
     tf_description = ''Start a background agent in a daemon thread and return a heartbeat.''\<rparr>"

definition child_tool ::
  "('t, 's, 'v, 'k, 'w, 'x) agent_runtime \<Rightarrow> tool_place \<Rightarrow> string \<Rightarrow> string \<Rightarrow> tool_face
    \<Rightarrow> ('w, 'x) tool_behaviour \<Rightarrow> ('t, 's, 'k) built_agent \<Rightarrow> deployment_error + ('w, 'x) tool" where
  "child_tool rt place prefix_text description face behaviour a =
     refuse (rbind (rt_valid_name rt (built_name a)) (\<lambda>name.
       copy_tool (fst (rt_identity rt place)) (snd (rt_identity rt place)) (Some (prefix_text @ name)) None None description
         (faced_tool (rt_identity rt place) face behaviour)))"

definition nested_tool ::
  "('t, 's, 'v, 'k, 'w, 'x) agent_runtime \<Rightarrow> ('t, 's, 'v) definitions \<Rightarrow> nat \<Rightarrow> ('t, 's, 'k) built_agent
    \<Rightarrow> deployment_error + ('w, 'x) tool" where
  "nested_tool rt heap c a =
     child_tool rt (NestedTool c) [] (dp_description (heap ! c)) nested_face (rt_nested rt a) a"

definition background_tool ::
  "('t, 's, 'v, 'k, 'w, 'x) agent_runtime \<Rightarrow> nat \<Rightarrow> ('t, 's, 'k) built_agent \<Rightarrow> deployment_error + ('w, 'x) tool" where
  "background_tool rt c a =
     child_tool rt (BackgroundTool c) ''start_background_agent_'' [] background_face (rt_background rt a) a"

definition user_face :: tool_face where
  "user_face = \<lparr>tf_name = ''prompt_user'', tf_input = ''PromptUser'', tf_outputs = [''Str'', ''StrImage''],
     tf_description = ''Send the user a message and wait for their reply.''\<rparr>"

text \<open>The call of the constructor; an endpoint of another type is refused in \<open>_init_execution_mode\<close>.\<close>

definition declared_tools ::
  "('t, 's, 'v, 'k, 'w, 'x) agent_runtime \<Rightarrow> nat \<Rightarrow> 't list \<Rightarrow> ('w, 'x) tool list" where
  "declared_tools rt n ts = map (\<lambda>(k, t). rt_declared rt k t) (enumerate n ts)"

definition agent_arguments ::
  "('t, 's, 'v, 'k, 'w, 'x) agent_runtime \<Rightarrow> ('t, 's, 'v) deployable \<Rightarrow> ('t, 's) built_inputs list
    \<Rightarrow> ('w, 'x) tool list \<Rightarrow> ('w, 'x) tool list \<Rightarrow> string option \<Rightarrow> ('w, 'x) agent_inputs" where
  "agent_arguments rt d inputs nested background endpoint =
     (let tools = concat (map ai_tools inputs); defaults = concat (map ai_default_tools inputs);
          skills = concat (map ai_skills inputs); autos = concat (map ai_auto_loaded inputs)
      in \<lparr>i_name = dp_name d, i_description = dp_description d,
          i_tools = Some (map Inl (declared_tools rt 0 tools @ nested)),
          i_skills = map (\<lambda>(k, s). rt_skill rt k s) (enumerate 0 skills),
          i_system_prompt = dp_system_prompt d,
          i_auto_loaded_skills = map (\<lambda>(k, s). rt_skill rt k s) (enumerate (length skills) autos),
          i_automatic_tool_prompt = dp_automatic_tool_prompt d, i_mode = dp_mode d,
          i_default_tools = declared_tools rt (length tools) defaults @ background,
          i_custom_prompt_user_tool = None, i_agent_endpoint = endpoint,
          i_initial_messages = dp_initial_messages d\<rparr>)"

definition construct ::
  "('t, 's, 'v, 'k, 'w, 'x) agent_runtime \<Rightarrow> ('t, 's, 'v) deployable \<Rightarrow> 'k list \<Rightarrow> ('t, 's) built_inputs list
    \<Rightarrow> ('w, 'x) tool list \<Rightarrow> ('w, 'x) tool list \<Rightarrow> deployment_error + ('w, 'x) agent" where
  "construct rt d event_sinks inputs nested background =
     (let make = (\<lambda>endpoint. make_agent (rt_parameters rt) (rt_valid_name rt) (rt_prompt_user rt)
            (agent_arguments rt d inputs nested background endpoint) (rt_pipe rt event_sinks))
      in refuse (case dp_endpoint d of
           None \<Rightarrow> make None
         | Some v \<Rightarrow>
             (case rt_endpoint rt v of
                Some e \<Rightarrow> make (Some e)
              | None \<Rightarrow>
                  rbind (rt_valid_name rt (dp_name d)) (\<lambda>_.
                  rbind (init_execution_mode (rt_prompt_user rt) (agent_arguments rt d inputs nested background (Some []))) (\<lambda>_.
                    Inl (OtherException ''TypeError''))))))"

definition with_tool ::
  "('a \<Rightarrow> deployment_error + 'b) \<Rightarrow> 'a \<times> 'c \<Rightarrow> deployment_error + 'b \<times> 'a \<times> 'c" where
  "with_tool start child = rbind (start (fst child)) (\<lambda>t. Inr (t, child))"

fun build ::
  "('t, 's, 'v, 'k, 'w, 'x) agent_runtime \<Rightarrow> nat \<Rightarrow> ('t, 's, 'v) definitions \<Rightarrow> 'k list \<Rightarrow> (string \<Rightarrow> 'k list) \<Rightarrow> nat
    \<Rightarrow> deployment_error + ('t, 's, 'k) built_agent \<times> ('t, 's, 'k) built_agent list" where
  "build rt 0 heap caller_sinks factory i = Inl OutOfFuel"
| "build rt (Suc n) heap caller_sinks factory i =
     rbind (validate heap i) (\<lambda>_.
     rbind (capability_inputs (heap ! i)) (\<lambda>inputs.
     rbind (traverse (\<lambda>c. rbind (build rt n heap caller_sinks factory c) (with_tool (nested_tool rt heap c)))
              (dp_nested (heap ! i))) (\<lambda>nested.
     rbind (traverse (\<lambda>c. rbind (build rt n heap [] factory c) (with_tool (background_tool rt c)))
              (dp_background (heap ! i))) (\<lambda>background.
     rbind (construct rt (heap ! i) (factory (dp_name (heap ! i)) @ caller_sinks) inputs (map fst nested) (map fst background)) (\<lambda>_.
     Inr (assemble (heap ! i) (factory (dp_name (heap ! i)) @ caller_sinks) inputs
            (map (fst \<circ> snd) nested) (map (fst \<circ> snd) background),
          concat (map (snd \<circ> snd) nested) @ concat (map (\<lambda>(_, a, handles). a # handles) background)))))))"

section \<open>Unfolding the graph\<close>

text \<open>A definition with its children, as far as it is a tree; \<open>True\<close> marks a foreground branch.\<close>

datatype agent_tree = ATree nat "agent_tree list" "agent_tree list"

fun root_of :: "agent_tree \<Rightarrow> nat" where
  "root_of (ATree i ns bs) = i"

fun fits :: "('t, 's, 'v) definitions \<Rightarrow> agent_tree \<Rightarrow> bool" where
  "fits heap (ATree i ns bs) \<longleftrightarrow>
     (case definition_at heap i of
        None \<Rightarrow> False | Some d \<Rightarrow> dp_nested d = map root_of ns \<and> dp_background d = map root_of bs) \<and>
     list_all (fits heap) ns \<and> list_all (fits heap) bs"

fun tree_nodes :: "bool \<Rightarrow> agent_tree \<Rightarrow> (nat \<times> bool) list" where
  "tree_nodes fg (ATree i ns bs) =
     (i, fg) # concat (map (tree_nodes fg) ns) @ concat (map (tree_nodes False) bs)"

fun count_nodes :: "agent_tree \<Rightarrow> nat" where
  "count_nodes (ATree i ns bs) = Suc (sum_list (map count_nodes ns) + sum_list (map count_nodes bs))"

lemma length_tree_nodes: "length (tree_nodes fg t) = count_nodes t"
  by (induction fg t rule: tree_nodes.induct) (simp add: length_concat comp_def cong: map_cong)

function breadth_first :: "(bool \<times> agent_tree) list \<Rightarrow> (nat \<times> bool) list" where
  "breadth_first [] = []"
| "breadth_first ((fg, ATree i ns bs) # ts) = (i, fg) # breadth_first (ts @ map (Pair fg) ns @ map (Pair False) bs)"
  by pat_completeness auto
termination
  by (relation "measure (\<lambda>ts. sum_list (map (count_nodes \<circ> snd) ts))") (simp_all add: comp_def)

lemma mset_breadth_first: "mset (breadth_first ts) = mset (concat (map (\<lambda>(fg, t). tree_nodes fg t) ts))"
  by (induction ts rule: breadth_first.induct) (simp_all add: comp_def mset_concat)

definition name_at :: "('t, 's, 'v) definitions \<Rightarrow> nat \<times> bool \<Rightarrow> string" where
  "name_at heap e = dp_name (heap ! fst e)"

definition selected_nodes :: "bool \<Rightarrow> (nat \<times> bool) list \<Rightarrow> nat list" where
  "selected_nodes everything es = map fst (filter (\<lambda>e. everything \<or> snd e) es)"

lemma selected_Cons: "selected_nodes everything (e # es) =
    (if everything \<or> snd e then [fst e] else []) @ selected_nodes everything es"
  by (simp add: selected_nodes_def)

text \<open>A forest of distinct names is walked to its end.\<close>

lemma walk_forest:
  "map (\<lambda>(j, fg, anc). (j, fg)) pending = map (\<lambda>(fg, t). (root_of t, fg)) ts \<Longrightarrow>
   list_all (\<lambda>(fg, t). fits heap t) ts \<Longrightarrow> distinct (map (name_at heap) (breadth_first ts)) \<Longrightarrow>
   set (map (name_at heap) (breadth_first ts)) \<inter> set names = {} \<Longrightarrow>
   list_all (\<lambda>(j, fg, anc). \<forall>a \<in> set anc. dp_name (heap ! a) \<in> set names) pending \<Longrightarrow>
   walk_from heap everything pending names walked = Inr (walked @ selected_nodes everything (breadth_first ts))"
proof (induction heap everything pending names walked arbitrary: ts rule: walk_from.induct)
  case (1 heap everything names walked)
  then show ?case by (simp add: selected_nodes_def)
next
  case (2 heap everything i foreground ancestors pending names walked)
  from "2.prems"(1) obtain t ts' where ts: "ts = (foreground, t) # ts'" "root_of t = i"
    and rest: "map (\<lambda>(j, fg, anc). (j, fg)) pending = map (\<lambda>(fg, t). (root_of t, fg)) ts'"
    by (cases ts) auto
  obtain ns bs where t: "t = ATree i ns bs" using ts(2) by (cases t) auto
  from "2.prems"(2) obtain d where d: "definition_at heap i = Some d" "dp_nested d = map root_of ns"
    "dp_background d = map root_of bs" and sub: "list_all (fits heap) ns" "list_all (fits heap) bs"
    by (auto simp: ts t split: option.splits)
  then have at: "heap ! i = d" by (auto simp: definition_at_def split: if_splits)
  let ?ts = "ts' @ map (Pair foreground) ns @ map (Pair False) bs"
  have order: "breadth_first ts = (i, foreground) # breadth_first ?ts" by (simp add: ts t)
  have fresh: "dp_name d \<notin> set names" using "2.prems"(4) by (simp add: order name_at_def at)
  then have acyclic: "i \<notin> set ancestors" using "2.prems"(5) at by auto
  have "walk_from heap everything (pending @ next_pending d i foreground ancestors) (dp_name d # names)
      (if everything \<or> foreground then walked @ [i] else walked) =
    Inr ((if everything \<or> foreground then walked @ [i] else walked) @ selected_nodes everything (breadth_first ?ts))"
  proof (rule "2.IH"[OF d(1) acyclic fresh])
    show "map (\<lambda>(j, fg, anc). (j, fg)) (pending @ next_pending d i foreground ancestors) = map (\<lambda>(fg, t). (root_of t, fg)) ?ts"
      by (simp add: rest next_pending_def d comp_def)
    show "list_all (\<lambda>(fg, t). fits heap t) ?ts" using "2.prems"(2) sub by (auto simp: ts list_all_iff)
    show "distinct (map (name_at heap) (breadth_first ?ts))" using "2.prems"(3) by (simp add: order)
    show "set (map (name_at heap) (breadth_first ?ts)) \<inter> set (dp_name d # names) = {}"
      using "2.prems"(3,4) by (auto simp: order name_at_def at)
    show "list_all (\<lambda>(j, fg, anc). \<forall>a \<in> set anc. dp_name (heap ! a) \<in> set (dp_name d # names))
        (pending @ next_pending d i foreground ancestors)"
      using "2.prems"(5) by (auto simp: list_all_iff next_pending_def at)
  qed
  then show ?case using d(1) acyclic fresh by (simp add: order selected_Cons)
qed

text \<open>What was walked is a forest.\<close>

lemma walked_forest:
  "walk_from heap everything pending names walked = Inr ws \<Longrightarrow>
   \<exists>ts. map (\<lambda>(j, fg, anc). (j, fg)) pending = map (\<lambda>(fg, t). (root_of t, fg)) ts \<and>
     list_all (\<lambda>(fg, t). fits heap t) ts \<and> distinct (map (name_at heap) (breadth_first ts)) \<and>
     set (map (name_at heap) (breadth_first ts)) \<inter> set names = {}"
proof (induction heap everything pending names walked rule: walk_from.induct)
  case (1 heap everything names walked)
  then show ?case by (intro exI[of _ "[]"]) simp
next
  case (2 heap everything i foreground ancestors pending names walked)
  from "2.prems" obtain d where d: "definition_at heap i = Some d" "i \<notin> set ancestors" "dp_name d \<notin> set names"
    and go: "walk_from heap everything (pending @ next_pending d i foreground ancestors) (dp_name d # names)
      (if everything \<or> foreground then walked @ [i] else walked) = Inr ws"
    by (auto split: option.splits if_splits)
  from "2.IH"[OF d go] obtain ts where
    shape: "map (\<lambda>(j, fg, anc). (j, fg)) (pending @ next_pending d i foreground ancestors) = map (\<lambda>(fg, t). (root_of t, fg)) ts"
    and all: "list_all (\<lambda>(fg, t). fits heap t) ts" "distinct (map (name_at heap) (breadth_first ts))"
      "set (map (name_at heap) (breadth_first ts)) \<inter> set (dp_name d # names) = {}" by blast
  have at: "heap ! i = d" using d(1) by (auto simp: definition_at_def split: if_splits)
  from shape obtain ts1 ts2 ts3 where ts: "ts = ts1 @ ts2 @ ts3"
    and parts: "map (\<lambda>(fg, t). (root_of t, fg)) ts1 = map (\<lambda>(j, fg, anc). (j, fg)) pending"
      "map (\<lambda>(fg, t). (root_of t, fg)) ts2 = map (\<lambda>c. (c, foreground)) (dp_nested d)"
      "map (\<lambda>(fg, t). (root_of t, fg)) ts3 = map (\<lambda>c. (c, False)) (dp_background d)"
    by (auto simp: next_pending_def comp_def map_eq_append_conv append_eq_map_conv)
  have pairs: "us = map (Pair fg) (map snd us) \<and> map root_of (map snd us) = cs"
    if "map (\<lambda>(fg, t). (root_of t, fg)) us = map (\<lambda>c. (c, fg)) cs" for us fg cs
    using that by (induction us arbitrary: cs) auto
  note nested = pairs[OF parts(2)] and background = pairs[OF parts(3)]
  let ?t = "ATree i (map snd ts2) (map snd ts3)"
  have order: "breadth_first ((foreground, ?t) # ts1) = (i, foreground) # breadth_first ts"
    using nested background ts by (metis breadth_first.simps(2))
  have "fits heap ?t" using all(1) nested background d(1) by (auto simp: ts list_all_iff)
  moreover have "list_all (\<lambda>(fg, t). fits heap t) ts1" using all(1) by (simp add: ts)
  moreover have "distinct (map (name_at heap) (breadth_first ((foreground, ?t) # ts1)))"
    using all(2,3) by (auto simp only: order list.map distinct.simps name_at_def fst_conv at) (auto simp: name_at_def)
  moreover have "set (map (name_at heap) (breadth_first ((foreground, ?t) # ts1))) \<inter> set names = {}"
    using all(3) d(3) by (simp only: order) (auto simp: name_at_def at)
  ultimately show ?case using parts(1) by (intro exI[of _ "(foreground, ?t) # ts1"]) simp
qed

lemma walk_tree:
  "walk heap everything i = Inr ws \<longleftrightarrow>
     (\<exists>t. root_of t = i \<and> fits heap t \<and> distinct (map (name_at heap) (tree_nodes True t)) \<and>
        ws = selected_nodes everything (breadth_first [(True, t)]))"
  (is "?walk \<longleftrightarrow> ?tree")
proof
  have names: "distinct (map (name_at heap) (breadth_first [(True, t)])) \<longleftrightarrow> distinct (map (name_at heap) (tree_nodes True t))" for t
  proof -
    have "mset (map (name_at heap) (breadth_first [(True, t)])) = mset (map (name_at heap) (tree_nodes True t))"
      using mset_breadth_first[of "[(True, t)]"] by simp
    then show ?thesis by (rule mset_eq_imp_distinct_iff)
  qed
  have forward: "walk heap everything i = Inr (selected_nodes everything (breadth_first [(True, t)]))"
    if "root_of t = i" "fits heap t" "distinct (map (name_at heap) (tree_nodes True t))" for t
    using walk_forest[of "[(i, True, [])]" "[(True, t)]" heap "[]" everything "[]"] that names[of t] by (simp add: walk_def)
  show ?walk if ?tree using that forward by blast
  assume ?walk
  then have "walk_from heap everything [(i, True, [])] [] [] = Inr ws" by (simp only: walk_def)
  from walked_forest[OF this] obtain ts where
    ts: "map (\<lambda>(j, fg, anc). (j, fg)) [(i, True, [] :: nat list)] = map (\<lambda>(fg, t). (root_of t, fg)) ts" "list_all (\<lambda>(fg, t). fits heap t) ts"
      "distinct (map (name_at heap) (breadth_first ts))"
    by (elim exE conjE) (rule that)
  then obtain t where "ts = [(True, t)]" "root_of t = i" by (cases ts) auto
  with ts names[of t] have "root_of t = i \<and> fits heap t \<and> distinct (map (name_at heap) (tree_nodes True t))" by simp
  with forward[of t] \<open>?walk\<close> show ?tree by auto
qed

text \<open>
  C36. A graph of definitions is accepted exactly if it is a tree of distinct names below its root: it
  unfolds to one, with every attached child in its place, and then the walk returns its definitions
  breadth first, those of the foreground branches alone if background ones are left out.
\<close>

theorem walk_accepts_trees:
  "walk heap everything i = Inr ws \<longleftrightarrow>
     (\<exists>t. root_of t = i \<and> fits heap t \<and> distinct (map (name_at heap) (tree_nodes True t)) \<and>
        ws = selected_nodes everything (breadth_first [(True, t)]))"
  by (rule walk_tree)

section \<open>What is built\<close>

fun built_nodes :: "bool \<Rightarrow> ('t, 's, 'k) built_agent \<Rightarrow> (string \<times> 'k list \<times> bool) list"
and bound_nodes :: "bool \<Rightarrow> ('t, 's, 'k) bound_tool \<Rightarrow> (string \<times> 'k list \<times> bool) list" where
  "built_nodes fg (Built name caller_sinks tools defaults skills autos) =
     (name, caller_sinks, fg) # concat (map (bound_nodes fg) tools) @ concat (map (bound_nodes fg) defaults)"
| "bound_nodes fg (Declared t) = []"
| "bound_nodes fg (RunNested a) = built_nodes fg a"
| "bound_nodes fg (StartBackground a) = built_nodes False a"

fun tree_handles :: "agent_tree \<Rightarrow> nat list" where
  "tree_handles (ATree i ns bs) =
     concat (map tree_handles ns) @ concat (map (\<lambda>b. root_of b # tree_handles b) bs)"

lemma declared_nodes [simp]: "concat (map (bound_nodes fg \<circ> Declared) ts) = []"
  by (induction ts) simp_all

lemma nodes_of_assembled:
  "built_nodes fg (assemble d caller_sinks inputs nested background) =
     (dp_name d, caller_sinks, fg) # concat (map (built_nodes fg) nested) @ concat (map (built_nodes False) background)"
proof -
  have "concat (map (bound_nodes fg) (map RunNested as)) = concat (map (built_nodes fg) as)"
    "concat (map (bound_nodes fg) (map StartBackground as)) = concat (map (built_nodes False) as)"
    for as :: "('b, 'c, 'a) built_agent list"
    by (simp_all add: comp_def)
  then show ?thesis by (simp add: assemble_def)
qed

lemma map_Cons_pairs:
  "map f xs = map g ys \<Longrightarrow> map h xs = map k ys \<Longrightarrow> map (\<lambda>x. f x # h x) xs = map (\<lambda>y. g y # k y) ys"
  by (induction xs arbitrary: ys) auto

definition routed :: "('t, 's, 'v) definitions \<Rightarrow> (string \<Rightarrow> 'k list) \<Rightarrow> 'k list \<Rightarrow> nat \<times> bool \<Rightarrow> string \<times> 'k list \<times> bool" where
  "routed heap factory caller_sinks e =
     (name_at heap e, factory (name_at heap e) @ (if snd e then caller_sinks else []), snd e)"

lemma routed_background: "snd e = False \<Longrightarrow> routed heap factory [] e = routed heap factory caller_sinks e"
  by (simp add: routed_def)

lemma background_nodes: "e \<in> set (tree_nodes False t) \<Longrightarrow> snd e = False"
  by (induction "False" t rule: tree_nodes.induct) auto

text \<open>The children apart from the tools that start them.\<close>

lemma with_tool_Inr: "with_tool start child = Inr r \<longleftrightarrow> (\<exists>t. start (fst child) = Inr t \<and> r = (t, child))"
  by (auto simp: with_tool_def rbind_Inr_iff)

lemma build_InrE:
  assumes "build rt (Suc n) heap caller_sinks factory i = Inr (a, handles)"
  obtains inputs nested background made where "validate heap i = Inr ()" "capability_inputs (heap ! i) = Inr inputs"
    "traverse (\<lambda>c. rbind (build rt n heap caller_sinks factory c) (with_tool (nested_tool rt heap c)))
       (dp_nested (heap ! i)) = Inr nested"
    "traverse (\<lambda>c. rbind (build rt n heap [] factory c) (with_tool (background_tool rt c)))
       (dp_background (heap ! i)) = Inr background"
    "construct rt (heap ! i) (factory (dp_name (heap ! i)) @ caller_sinks) inputs (map fst nested) (map fst background) = Inr made"
    "a = assemble (heap ! i) (factory (dp_name (heap ! i)) @ caller_sinks) inputs
       (map (fst \<circ> snd) nested) (map (fst \<circ> snd) background)"
    "handles = concat (map (snd \<circ> snd) nested) @ concat (map (\<lambda>(_, b, hs). b # hs) background)"
  using assms by (auto simp: rbind_Inr_iff)

lemma children_alone:
  "list_all2 (\<lambda>c y. rbind (b c) (with_tool (start c)) = Inr y) cs ys \<Longrightarrow> list_all2 (\<lambda>c y. b c = Inr y) cs (map snd ys)"
  by (induction cs ys rule: list_all2_induct) (auto simp: rbind_Inr_iff with_tool_Inr)

lemma children_built:
  assumes "list_all2 (\<lambda>c y. build rt n heap caller_sinks factory c = Inr y) (map root_of ts) ys"
    and "\<And>t a hs. t \<in> set ts \<Longrightarrow> build rt n heap caller_sinks factory (root_of t) = Inr (a, hs) \<Longrightarrow>
      f a = g t \<and> map built_name hs = h t \<and> built_name a = k t"
  shows "map f (map fst ys) = map g ts \<and> map (map built_name) (map snd ys) = map h ts \<and> map (built_name \<circ> fst) ys = map k ts"
  using assms
proof (induction ts arbitrary: ys)
  case (Cons t ts)
  then obtain a hs ys' where ys: "ys = (a, hs) # ys'" "build rt n heap caller_sinks factory (root_of t) = Inr (a, hs)"
    "list_all2 (\<lambda>c y. build rt n heap caller_sinks factory c = Inr y) (map root_of ts) ys'"
    by (auto simp: list_all2_Cons1)
  from Cons.IH[OF ys(3)] Cons.prems(2) ys(1,2) show ?case by simp
qed simp

lemma built_tree:
  "build rt n heap (if fg then caller_sinks else []) factory (root_of t) = Inr (a, handles) \<Longrightarrow> fits heap t \<Longrightarrow>
     built_nodes fg a = map (routed heap factory caller_sinks) (tree_nodes fg t) \<and>
     map built_name handles = map (\<lambda>j. dp_name (heap ! j)) (tree_handles t) \<and>
     built_name a = dp_name (heap ! root_of t)"
proof (induction n arbitrary: fg caller_sinks t a handles)
  case (Suc n)
  obtain i ns bs where t: "t = ATree i ns bs" by (cases t)
  let ?d = "heap ! i"
  let ?sinks = "if fg then caller_sinks else []"
  from Suc.prems(2) have fits: "dp_nested ?d = map root_of ns" "dp_background ?d = map root_of bs"
    "list_all (fits heap) ns" "list_all (fits heap) bs"
    by (auto simp: t definition_at_def split: option.splits if_splits)
  obtain inputs nested0 background0 where
    nested0: "list_all2 (\<lambda>c y. rbind (build rt n heap ?sinks factory c) (with_tool (nested_tool rt heap c)) = Inr y)
      (map root_of ns) nested0"
    and background0: "list_all2 (\<lambda>c y. rbind (build rt n heap [] factory c) (with_tool (background_tool rt c)) = Inr y)
      (map root_of bs) background0"
    and a0: "a = assemble ?d (factory (dp_name ?d) @ ?sinks) inputs (map (fst \<circ> snd) nested0) (map (fst \<circ> snd) background0)"
    and handles0: "handles = concat (map (snd \<circ> snd) nested0) @ concat (map (\<lambda>(_, b, hs). b # hs) background0)"
    by (rule build_InrE[OF Suc.prems(1)[unfolded t root_of.simps]])
      (rule that, auto simp: fits(1,2) simp del: build.simps simp flip: traverse_Inr_iff)
  define nested where "nested = map snd nested0"
  define background where "background = map snd background0"
  have nested: "list_all2 (\<lambda>c y. build rt n heap ?sinks factory c = Inr y) (map root_of ns) nested"
    and background: "list_all2 (\<lambda>c y. build rt n heap [] factory c = Inr y) (map root_of bs) background"
    unfolding nested_def background_def by (rule children_alone, rule nested0) (rule children_alone, rule background0)
  have a: "a = assemble ?d (factory (dp_name ?d) @ ?sinks) inputs (map fst nested) (map fst background)"
    by (simp add: a0 nested_def background_def)
  have handles: "handles = concat (map snd nested) @ concat (map (\<lambda>(b, hs). b # hs) background)"
    by (simp add: handles0 nested_def background_def comp_def split_beta')
  have n_ok: "built_nodes fg b = map (routed heap factory caller_sinks) (tree_nodes fg u) \<and>
      map built_name hs = map (\<lambda>j. dp_name (heap ! j)) (tree_handles u) \<and> built_name b = dp_name (heap ! root_of u)"
    if "u \<in> set ns" "build rt n heap ?sinks factory (root_of u) = Inr (b, hs)" for u b hs
    using Suc.IH[of fg caller_sinks u b hs] that fits(3) by (simp add: list_all_iff)
  have b_ok: "built_nodes False b = map (routed heap factory caller_sinks) (tree_nodes False u) \<and>
      map built_name hs = map (\<lambda>j. dp_name (heap ! j)) (tree_handles u) \<and> built_name b = dp_name (heap ! root_of u)"
    if "u \<in> set bs" "build rt n heap [] factory (root_of u) = Inr (b, hs)" for u b hs
    using Suc.IH[of False caller_sinks u b hs] that fits(4) by (simp add: list_all_iff)
  note N = children_built[OF nested n_ok] and B = children_built[OF background b_ok]
  have "built_nodes fg a = map (routed heap factory caller_sinks) (tree_nodes fg t)"
    using N B by (simp add: a nodes_of_assembled t map_concat comp_def routed_def name_at_def)
  moreover have "map built_name (concat (map snd nested)) = map (\<lambda>j. dp_name (heap ! j)) (concat (map tree_handles ns))"
    using N by (simp add: map_concat comp_def)
  moreover have "map built_name (concat (map (\<lambda>(b, hs). b # hs) background)) =
      map (\<lambda>j. dp_name (heap ! j)) (concat (map (\<lambda>u. root_of u # tree_handles u) bs))"
  proof -
    have "map (\<lambda>y. built_name (fst y) # map built_name (snd y)) background =
        map (\<lambda>u. dp_name (heap ! root_of u) # map (\<lambda>j. dp_name (heap ! j)) (tree_handles u)) bs"
      by (rule map_Cons_pairs) (use B in \<open>simp_all add: comp_def\<close>)
    then show ?thesis by (simp add: map_concat comp_def split_beta)
  qed
  moreover have "built_name a = dp_name ?d" by (simp add: a assemble_def)
  ultimately show ?case by (simp add: handles t)
qed simp

lemma handles_are_attached:
  "fits heap t \<Longrightarrow> mset (tree_handles t) = mset (concat (map (\<lambda>e. dp_background (heap ! fst e)) (tree_nodes fg t)))"
proof (induction t arbitrary: fg rule: tree_handles.induct)
  case (1 i ns bs)
  then have d: "dp_background (heap ! i) = map root_of bs" by (auto simp: definition_at_def split: option.splits if_splits)
  have sub: "mset (concat (map tree_handles ts)) = mset (concat (map (\<lambda>e. dp_background (heap ! fst e)) (concat (map (tree_nodes b) ts))))"
    if "\<And>t. t \<in> set ts \<Longrightarrow> mset (tree_handles t) = mset (concat (map (\<lambda>e. dp_background (heap ! fst e)) (tree_nodes b t)))" for ts b
    using that by (induction ts) simp_all
  have "mset (concat (map (\<lambda>b. root_of b # tree_handles b) ts)) = mset (map root_of ts) + mset (concat (map tree_handles ts))" for ts
    by (induction ts) simp_all
  moreover have "mset (concat (map tree_handles ns)) = mset (concat (map (\<lambda>e. dp_background (heap ! fst e)) (concat (map (tree_nodes fg) ns))))"
    using 1 by (intro sub) (auto simp: list_all_iff)
  moreover have "mset (concat (map tree_handles bs)) = mset (concat (map (\<lambda>e. dp_background (heap ! fst e)) (concat (map (tree_nodes False) bs))))"
    using 1 by (intro sub) (auto simp: list_all_iff)
  ultimately show ?case by (simp add: d)
qed

section \<open>Enough fuel\<close>

lemma count_nodes_child: "t \<in> set ts \<Longrightarrow> count_nodes t \<le> sum_list (map count_nodes ts)"
  by (simp add: member_le_sum_list)

lemma build_fuel:
  "fits heap t \<Longrightarrow> count_nodes t \<le> n \<Longrightarrow> count_nodes t \<le> m \<Longrightarrow>
     build rt n heap caller_sinks factory (root_of t) = build rt m heap caller_sinks factory (root_of t)"
proof (induction n arbitrary: m t caller_sinks)
  case 0
  then show ?case by (cases t) simp
next
  case (Suc n)
  obtain i ns bs where t: "t = ATree i ns bs" by (cases t)
  from Suc.prems(3) obtain m' where m: "m = Suc m'" by (cases m) (simp_all add: t)
  from Suc.prems(1) have d: "dp_nested (heap ! i) = map root_of ns" "dp_background (heap ! i) = map root_of bs"
    and sub: "list_all (fits heap) ns" "list_all (fits heap) bs"
    by (auto simp: t definition_at_def split: option.splits if_splits)
  have same: "build rt n heap ss factory (root_of u) = build rt m' heap ss factory (root_of u)"
    if "u \<in> set ns \<or> u \<in> set bs" for u ss
    using that Suc.prems(2,3) sub count_nodes_child[of u ns] count_nodes_child[of u bs]
    by (intro Suc.IH) (auto simp: t m list_all_iff)
  have "traverse (\<lambda>c. rbind (build rt n heap ss factory c) (with_tool (start c))) (map root_of us) =
      traverse (\<lambda>c. rbind (build rt m' heap ss factory c) (with_tool (start c))) (map root_of us)"
    if "set us \<subseteq> set ns \<union> set bs" for us ss and start :: "nat \<Rightarrow> _ \<Rightarrow> deployment_error + (_, _) tool"
    by (rule traverse_cong[OF refl]) (use that same in auto)
  from this[of ns caller_sinks "nested_tool rt heap"] this[of bs "[]" "background_tool rt"]
  show ?case by (simp add: t m d)
qed

lemma fitting_nodes: "fits heap t \<Longrightarrow> e \<in> set (tree_nodes fg t) \<Longrightarrow> fst e < length heap"
  by (induction fg t rule: tree_nodes.induct)
    (auto simp: definition_at_def list_all_iff split: option.splits if_splits)

lemma count_nodes_bound:
  assumes "fits heap t" "distinct (map (name_at heap) (tree_nodes True t))"
  shows "count_nodes t \<le> length heap"
proof -
  have "map (name_at heap) (tree_nodes True t) = map (\<lambda>i. dp_name (heap ! i)) (map fst (tree_nodes True t))"
    by (simp add: name_at_def)
  with assms(2) have "distinct (map fst (tree_nodes True t))" by (metis distinct_map)
  moreover have "set (map fst (tree_nodes True t)) \<subseteq> {..<length heap}" using fitting_nodes[OF assms(1)] by auto
  ultimately have "length (map fst (tree_nodes True t)) \<le> card {..<length heap}"
    by (metis distinct_card card_mono finite_lessThan)
  then show ?thesis by (simp add: length_tree_nodes)
qed

definition build_agent ::
  "('t, 's, 'v, 'k, 'w, 'x) agent_runtime \<Rightarrow> ('t, 's, 'v) definitions \<Rightarrow> 'k list \<Rightarrow> (string \<Rightarrow> 'k list) \<Rightarrow> nat
    \<Rightarrow> deployment_error + ('t, 's, 'k) built_agent \<times> ('t, 's, 'k) built_agent list" where
  "build_agent rt heap caller_sinks factory i = build rt (Suc (length heap)) heap caller_sinks factory i"

lemma build_agent_fuel:
  assumes "length heap < n"
  shows "build rt n heap caller_sinks factory i = build_agent rt heap caller_sinks factory i"
proof (cases "walk heap True i")
  case (Inl e)
  then have "validate heap i = Inl e" by (simp add: validate_def)
  with assms show ?thesis by (cases n) (simp_all add: build_agent_def)
next
  case (Inr ws)
  then obtain t where t: "root_of t = i" "fits heap t" "distinct (map (name_at heap) (tree_nodes True t))"
    unfolding walk_tree by blast
  from build_fuel[OF t(2), of n "Suc (length heap)"] count_nodes_bound[OF t(2,3)] assms t(1)
  show ?thesis by (simp add: build_agent_def)
qed

section \<open>Properties\<close>

text \<open>
  C37. A graph that is built becomes the tree that its walk accepts, one agent for each definition,
  and the constructor accepted the arguments of each: an agent has the sinks of the factory for the
  name of its definition, and the sinks of the caller too if and only if no background edge leads to
  it; the handles that are returned are those of the definitions that background edges attach.
\<close>

theorem built_agents_follow_the_tree:
  assumes "build_agent rt heap caller_sinks factory i = Inr (a, handles)"
  shows "\<exists>t. root_of t = i \<and> fits heap t \<and> distinct (map (name_at heap) (tree_nodes True t)) \<and>
    built_nodes True a =
      map (\<lambda>(j, fg). (dp_name (heap ! j), factory (dp_name (heap ! j)) @ (if fg then caller_sinks else []), fg)) (tree_nodes True t) \<and>
    mset (map built_name handles) =
      mset (map (\<lambda>j. dp_name (heap ! j)) (concat (map (\<lambda>(j, fg). dp_background (heap ! j)) (tree_nodes True t))))"
proof -
  from assms obtain ws where "walk heap True i = Inr ws"
    by (auto simp: build_agent_def validate_def rbind_Inr_iff)
  then obtain t where t: "root_of t = i" "fits heap t" "distinct (map (name_at heap) (tree_nodes True t))"
    unfolding walk_tree by blast
  from built_tree[where fg = True, of rt "Suc (length heap)" heap caller_sinks factory t a handles] assms t
  have nodes: "built_nodes True a = map (routed heap factory caller_sinks) (tree_nodes True t)"
    and names: "map built_name handles = map (\<lambda>j. dp_name (heap ! j)) (tree_handles t)"
    by (simp_all add: build_agent_def del: build.simps)
  have "mset (map (\<lambda>j. dp_name (heap ! j)) (tree_handles t)) =
      mset (map (\<lambda>j. dp_name (heap ! j)) (concat (map (\<lambda>(j, fg). dp_background (heap ! j)) (tree_nodes True t))))"
    unfolding mset_map handles_are_attached[OF t(2), of True] by (simp only: split_def)
  with nodes names t show ?thesis by (intro exI[of _ t]) (simp add: routed_def split_beta name_at_def)
qed

definition sample_definition :: "string \<Rightarrow> nat list \<Rightarrow> nat list \<Rightarrow> (nat, nat, nat) deployable" where
  "sample_definition name nested background =
     \<lparr>dp_name = name, dp_description = [], dp_system_prompt = ''p'', dp_mode = STEERABLE, dp_automatic_tool_prompt = True,
      dp_initial_messages = [], dp_capabilities = [], dp_selection = None, dp_nested = nested, dp_background = background,
      dp_endpoint = Some 0, dp_attributes = []\<rparr>"

definition sample_heap :: "(nat, nat, nat) definitions" where
  "sample_heap = [sample_definition ''lead'' [Suc 0] [2], sample_definition ''aid'' [] [], sample_definition ''watch'' [] []]"

text \<open>A runtime whose tools answer nothing; a place of a tool is told by its identity.\<close>

fun place_number :: "tool_place \<Rightarrow> nat" where
  "place_number (DeclaredTool n) = Suc (n + n + n + n)"
| "place_number (NestedTool n) = Suc (Suc (n + n + n + n))"
| "place_number (BackgroundTool n) = Suc (Suc (Suc (n + n + n + n)))"
| "place_number (SkillTool n) = Suc (Suc (Suc (Suc (n + n + n + n))))"
| "place_number UserTool = 0"

definition sample_identity :: "tool_place \<Rightarrow> nat \<times> string" where
  "sample_identity place = (place_number place, replicate (place_number place) (CHR ''i''))"

definition silent_behaviour :: "('w, int) tool_behaviour" where
  "silent_behaviour = \<lparr>tb_fields = [], tb_condition = (\<lambda>_. True), tb_validate = (\<lambda>_ _ _. Inl KeyboardInterrupt),
     tb_caller = (\<lambda>_ ms _ p. ((p, ms), Inl KeyboardInterrupt))\<rparr>"

definition plain_parameters :: "('w, int) agent_parameters" where
  "plain_parameters =
     \<lparr>pipe_environment = \<lparr>deliver = (\<lambda>s event w. (w, None)), new_uuid = (\<lambda>w. (w, ''id'')), arrivals = (\<lambda>w. (w, []))\<rparr>,
      to_json = JInt, clock = (\<lambda>_. ''now''), exception_name = (\<lambda>_. ''error''),
      make_prompt_llm = (\<lambda>_ _. faced_tool (sample_identity UserTool) user_face silent_behaviour),
      render_prompt = (\<lambda>s _ _ _. s),
      str_value = (\<lambda>_. \<lparr>tv_type = empty_model ''Str'', tv_fields = [], tv_images = [], tv_truncation = DEFAULT, tv_kind = None\<rparr>),
      empty_value = \<lparr>tv_type = empty_model EMPTY, tv_fields = [], tv_images = [], tv_truncation = DEFAULT, tv_kind = None\<rparr>,
      stop_value = \<lparr>tv_type = empty_model STOP, tv_fields = [], tv_images = [], tv_truncation = DEFAULT, tv_kind = None\<rparr>,
      invoke_value = (\<lambda>_ _. \<lparr>tv_type = empty_model INVOKE, tv_fields = [], tv_images = [], tv_truncation = DEFAULT, tv_kind = None\<rparr>),
      resolve_endpoint = (\<lambda>_ _. Inr no_endpoint), stored_message = (\<lambda>_ _. Inr None)\<rparr>"

definition sample_runtime :: "(nat, nat, nat, char, nat, int) agent_runtime" where
  "sample_runtime =
     \<lparr>rt_identity = sample_identity,
      rt_declared = (\<lambda>k t. faced_tool (sample_identity (DeclaredTool k)) (nested_face\<lparr>tf_name := ''t''\<rparr>) silent_behaviour),
      rt_nested = (\<lambda>_. silent_behaviour), rt_background = (\<lambda>_. silent_behaviour),
      rt_skill = (\<lambda>k s. \<lparr>sk_object = k, sk_name = ''s'', sk_tools = [], sk_depends_on = None,
        sk_as_tool = faced_tool (sample_identity (SkillTool k)) (nested_face\<lparr>tf_name := ''s''\<rparr>) silent_behaviour\<rparr>),
      rt_endpoint = (\<lambda>_. Some ''e''), rt_parameters = plain_parameters, rt_valid_name = Inr,
      rt_prompt_user = faced_tool (sample_identity UserTool) user_face silent_behaviour,
      rt_pipe = (\<lambda>_. event_pipe [] 0)\<rparr>"

definition sample_agent :: "(nat, nat, char) built_agent" where
  "sample_agent = Built ''lead'' ''les'' [RunNested (Built ''aid'' ''ais'' [] [] [] [])]
     [StartBackground (Built ''watch'' ''wa'' [] [] [] [])] [] []"

lemma sample_built:
  "build_agent sample_runtime sample_heap ''s'' (\<lambda>name. take 2 name) 0 = Inr (sample_agent, [Built ''watch'' ''wa'' [] [] [] []])"
  by code_simp

text \<open>The constructor's refusals reach the caller: a name that an agent may have and a tool may not, and a
  definition without a prompt.\<close>

lemma construction_is_refused:
  "build_agent sample_runtime [sample_definition ''lead'' [Suc 0] [], sample_definition ''Aid'' [] []] ''s'' (\<lambda>_. []) 0 =
     Inl (AgentRefused (OtherException ''name must be lowercase ASCII snake_case''))"
  "build_agent sample_runtime [(sample_definition ''lead'' [] [])\<lparr>dp_system_prompt := []\<rparr>] ''s'' (\<lambda>_. []) 0 =
     Inl (AgentRefused (OtherException ''Model-driven flows require a non-empty system_prompt.''))"
  by code_simp+

theorem built_agents_follow_the_tree_witness:
  "\<exists>t. root_of t = 0 \<and> fits sample_heap t \<and> length (tree_nodes True t) = 3"
proof -
  from built_agents_follow_the_tree[OF sample_built] obtain t where
    t: "root_of t = 0" "fits sample_heap t" and
    nodes: "built_nodes True sample_agent =
      map (\<lambda>(j, fg). (dp_name (sample_heap ! j), take 2 (dp_name (sample_heap ! j)) @ (if fg then ''s'' else []), fg))
        (tree_nodes True t)"
    by (elim exE conjE) (rule that)
  from arg_cong[OF nodes, of length] have "length (tree_nodes True t) = 3" by (simp add: sample_agent_def)
  with t show ?thesis by blast
qed

end
