(* ===== verification/Roboz_Retain.thy ===== *)
theory Roboz_Retain
  imports Roboz_Patterns "HOL-Library.Product_Lexorder"
begin

text \<open>
  Retention of artifacts (\<open>shed/tools/purge_files.py\<close>). The disk is a list of physical paths with
  what is there; a link has the modification time of the file it leads to. Roots are physical
  directories, and patterns are those of one component that \<open>rglob\<close> matches against the name.
\<close>

declare split_paired_Ex [simp del] split_paired_All [simp del]

section \<open>The disk\<close>

datatype artifact_node = Folder | Artifact int | LinkToFile int | OtherLink

type_synonym artifact_disk = "(path \<times> artifact_node) list"

fun file_time :: "artifact_node \<Rightarrow> int option" where
  "file_time (Artifact t) = Some t"
| "file_time (LinkToFile t) = Some t"
| "file_time Folder = None"
| "file_time OtherLink = None"

record disk_faults =
  df_unlink :: "path \<Rightarrow> string option"
  df_rmdir :: "path \<Rightarrow> string option"

definition is_folder :: "artifact_disk \<Rightarrow> path \<Rightarrow> bool" where
  "is_folder disk p \<longleftrightarrow> (p, Folder) \<in> set disk"

definition without :: "path \<Rightarrow> artifact_disk \<Rightarrow> artifact_disk" where
  "without p = filter (\<lambda>e. fst e \<noteq> p)"

section \<open>Selection\<close>

definition matching_below :: "string \<Rightarrow> path \<Rightarrow> path \<times> artifact_node \<Rightarrow> bool" where
  "matching_below pattern folder e \<longleftrightarrow>
     strict_prefix folder (fst e) \<and> match_component pattern (last (fst e)) \<and> file_time (snd e) \<noteq> None"

definition collect_matching_files :: "path list \<Rightarrow> string \<Rightarrow> artifact_disk \<Rightarrow> path list" where
  "collect_matching_files folders pattern disk =
     concat (map (\<lambda>folder. if is_folder disk folder then map fst (filter (matching_below pattern folder) disk) else []) folders)"

definition modified :: "artifact_disk \<Rightarrow> path \<Rightarrow> int" where
  "modified disk p = (case map_of disk p of Some n \<Rightarrow> (case file_time n of Some t \<Rightarrow> t | None \<Rightarrow> 0) | None \<Rightarrow> 0)"

definition age_key :: "artifact_disk \<Rightarrow> path \<Rightarrow> int \<times> string" where
  "age_key disk p = (modified disk p, posix_abs p)"

definition oldest_first :: "path list \<Rightarrow> string \<Rightarrow> artifact_disk \<Rightarrow> path list" where
  "oldest_first folders pattern disk = sort_key (age_key disk) (collect_matching_files folders pattern disk)"

section \<open>Deletion\<close>

text \<open>\<open>unlink(missing_ok=True)\<close> for every file; the first other error ends it.\<close>

fun unlink_files :: "disk_faults \<Rightarrow> path list \<Rightarrow> artifact_disk \<Rightarrow> artifact_disk \<times> (string + unit)" where
  "unlink_files h [] disk = (disk, Inr ())"
| "unlink_files h (p # ps) disk =
     (if p \<notin> fst ` set disk then unlink_files h ps disk
      else (case df_unlink h p of
              Some e \<Rightarrow> (disk, Inl e)
            | None \<Rightarrow> unlink_files h ps (without p disk)))"

definition folders_below :: "path list \<Rightarrow> artifact_disk \<Rightarrow> path list" where
  "folders_below folders disk =
     map fst (filter (\<lambda>e. snd e = Folder \<and> list_ex (\<lambda>folder. is_folder disk folder \<and> strict_prefix folder (fst e)) folders) disk)"

definition depth_key :: "path \<Rightarrow> nat \<times> string" where
  "depth_key p = (length p, posix_abs p)"

text \<open>A folder that is missing or not empty is left to itself.\<close>

fun remove_folders :: "disk_faults \<Rightarrow> path list \<Rightarrow> nat \<Rightarrow> artifact_disk \<Rightarrow> artifact_disk \<times> (string + nat)" where
  "remove_folders h [] pruned disk = (disk, Inr pruned)"
| "remove_folders h (p # ps) pruned disk =
     (if p \<notin> fst ` set disk \<or> list_ex (\<lambda>e. strict_prefix p (fst e)) disk then remove_folders h ps pruned disk
      else (case df_rmdir h p of
              Some e \<Rightarrow> (disk, Inl e)
            | None \<Rightarrow> remove_folders h ps (Suc pruned) (without p disk)))"

definition prune_empty_directories ::
  "disk_faults \<Rightarrow> path list \<Rightarrow> artifact_disk \<Rightarrow> artifact_disk \<times> (string + nat)" where
  "prune_empty_directories h folders disk =
     remove_folders h (rev (sort_key depth_key (remdups (folders_below folders disk)))) 0 disk"

record retention =
  rn_folders :: "path list"
  rn_pattern :: string
  rn_max_files :: int
  rn_prune :: bool

definition retention_limit :: "retention \<Rightarrow> nat" where
  "retention_limit ctx = nat (max 0 (rn_max_files ctx))"

definition retention_text :: "retention \<Rightarrow> nat \<Rightarrow> nat option \<Rightarrow> string" where
  "retention_text ctx count pruned =
     (let limit = retention_limit ctx;
          note' = (case pruned of None \<Rightarrow> [] | Some n \<Rightarrow> ''; pruned_empty_dirs='' @ digits_of n)
      in if count \<le> limit then ''below threshold ('' @ digits_of count @ ''/'' @ digits_of limit @ '')'' @ note'
         else ''deleted '' @ digits_of (count - limit) @ '', kept '' @ digits_of limit @ '' of '' @ digits_of count @ note')"

definition purge_files :: "disk_faults \<Rightarrow> retention \<Rightarrow> artifact_disk \<Rightarrow> artifact_disk \<times> (string + string)" where
  "purge_files h ctx disk =
     (let files = oldest_first (rn_folders ctx) (rn_pattern ctx) disk;
          delete_count = length files - retention_limit ctx
      in case unlink_files h (take delete_count files) disk of
           (disk', Inl e) \<Rightarrow> (disk', Inl e)
         | (disk', Inr _) \<Rightarrow>
             (if rn_prune ctx
              then (case prune_empty_directories h (rn_folders ctx) disk' of
                      (disk'', Inl e) \<Rightarrow> (disk'', Inl e)
                    | (disk'', Inr n) \<Rightarrow> (disk'', Inr (retention_text ctx (length files) (Some n))))
              else (disk', Inr (retention_text ctx (length files) None))))"

section \<open>What is removed\<close>

lemma unlink_files_ok:
  "unlink_files h ps disk = (disk', Inr r) \<Longrightarrow> disk' = filter (\<lambda>e. fst e \<notin> set ps) disk"
proof (induction h ps disk rule: unlink_files.induct)
  case (2 h p ps disk)
  then show ?case
    by (auto simp: without_def split: if_splits option.splits intro!: filter_cong)
qed simp

definition hollow :: "artifact_disk \<Rightarrow> path \<Rightarrow> bool" where
  "hollow disk p \<longleftrightarrow> (\<forall>e \<in> set disk. strict_prefix p (fst e) \<longrightarrow> snd e = Folder)"

text \<open>Folders are removed children first, so that exactly those without other content disappear.\<close>

lemma remove_folders_ok:
  assumes "remove_folders h ps n (filter (\<lambda>e. \<not> (fst e \<in> set gone \<and> hollow disk (fst e))) disk) = (disk', Inr r)"
    and "distinct (map fst disk)"
    and "sorted_wrt (\<lambda>p q. length q \<le> length p) (gone @ ps)"
    and "\<forall>p \<in> set (gone @ ps). \<forall>e \<in> set disk. strict_prefix p (fst e) \<and> snd e = Folder \<longrightarrow> fst e \<in> set (gone @ ps)"
    and "\<forall>p \<in> set (gone @ ps). (p, Folder) \<in> set disk"
  shows "disk' = filter (\<lambda>e. \<not> (fst e \<in> set (gone @ ps) \<and> hollow disk (fst e))) disk"
  using assms
proof (induction ps arbitrary: gone n)
  case (Cons p ps)
  let ?disk = "filter (\<lambda>e. \<not> (fst e \<in> set gone \<and> hollow disk (fst e))) disk"
  have next_gone: "disk' = filter (\<lambda>e. \<not> (fst e \<in> set ((gone @ [p]) @ ps) \<and> hollow disk (fst e))) disk"
    if "remove_folders h ps m (filter (\<lambda>e. \<not> (fst e \<in> set (gone @ [p]) \<and> hollow disk (fst e))) disk) = (disk', Inr r)" for m
    using Cons.IH[OF that] Cons.prems(2-5) by simp
  have empty_iff: "list_ex (\<lambda>e. strict_prefix p (fst e)) ?disk \<longleftrightarrow> \<not> hollow disk p"
  proof
    assume "\<not> hollow disk p"
    then obtain e where e: "e \<in> set disk" "strict_prefix p (fst e)" "snd e \<noteq> Folder" by (auto simp: hollow_def)
    then have "fst e \<notin> set gone"
      using Cons.prems(2,5) by (metis Un_iff eq_key_imp_eq_value prod.collapse set_append)
    with e show "list_ex (\<lambda>e. strict_prefix p (fst e)) ?disk" by (auto simp: list_ex_iff)
  next
    assume "list_ex (\<lambda>e. strict_prefix p (fst e)) ?disk"
    then obtain e where e: "e \<in> set disk" "strict_prefix p (fst e)" "\<not> (fst e \<in> set gone \<and> hollow disk (fst e))"
      by (auto simp: list_ex_iff)
    show "\<not> hollow disk p"
    proof
      assume h: "hollow disk p"
      with e have "snd e = Folder" by (auto simp: hollow_def)
      with e Cons.prems(4) have "fst e \<in> set (gone @ p # ps)" by auto
      moreover have "length p < length (fst e)" using e(2) by (rule prefix_length_less)
      then have "fst e \<notin> set (p # ps)" using Cons.prems(3) by (auto simp: sorted_wrt_append)
      moreover have "hollow disk (fst e)"
        using h e(2) by (auto simp: hollow_def intro: prefix_order.less_trans)
      ultimately show False using e(3) by auto
    qed
  qed
  have there: "p \<in> fst ` set ?disk \<longleftrightarrow> \<not> (p \<in> set gone \<and> hollow disk p)"
    using Cons.prems(5) by force
  show ?case
  proof (cases "hollow disk p \<and> p \<notin> set gone")
    case True
    then have "remove_folders h ps (Suc n) (without p ?disk) = (disk', Inr r)"
      using Cons.prems(1) there empty_iff by (auto split: option.splits)
    moreover have "without p ?disk = filter (\<lambda>e. \<not> (fst e \<in> set (gone @ [p]) \<and> hollow disk (fst e))) disk"
      using True by (auto simp: without_def intro!: filter_cong)
    ultimately show ?thesis using next_gone by simp
  next
    case False
    then have "remove_folders h ps n ?disk = (disk', Inr r)"
      using Cons.prems(1) there empty_iff by (auto split: option.splits)
    moreover have "?disk = filter (\<lambda>e. \<not> (fst e \<in> set (gone @ [p]) \<and> hollow disk (fst e))) disk"
      using False by (auto intro!: filter_cong)
    ultimately show ?thesis using next_gone by simp
  qed
qed simp

lemma prune_ok:
  assumes "prune_empty_directories h folders disk = (disk', Inr n)" "distinct (map fst disk)"
  shows "disk' = filter (\<lambda>e. \<not> (fst e \<in> set (folders_below folders disk) \<and> hollow disk (fst e))) disk"
proof -
  let ?ps = "rev (sort_key depth_key (remdups (folders_below folders disk)))"
  have "sorted (map depth_key (sort_key depth_key (remdups (folders_below folders disk))))" by (rule sorted_sort_key)
  then have "sorted_wrt (\<lambda>p q. length p \<le> length q) (sort_key depth_key (remdups (folders_below folders disk)))"
    unfolding sorted_map by (rule sorted_wrt_mono_rel[rotated]) (auto simp: depth_key_def)
  then have "sorted_wrt (\<lambda>p q. length q \<le> length p) ?ps" by (simp add: sorted_wrt_rev)
  moreover have "fst e \<in> set ?ps" if "p \<in> set ?ps" "e \<in> set disk" "strict_prefix p (fst e)" "snd e = Folder" for p e
    using that by (fastforce simp: folders_below_def list_ex_iff intro: prefix_order.less_trans)
  moreover have "\<forall>p \<in> set ?ps. (p, Folder) \<in> set disk" by (auto simp: folders_below_def)
  ultimately show ?thesis
    using remove_folders_ok[of h ?ps 0 "[]" disk disk' n] assms by (simp add: prune_empty_directories_def)
qed

lemma collected: "p \<in> set (collect_matching_files folders pattern disk) \<longleftrightarrow>
    (\<exists>folder \<in> set folders. is_folder disk folder \<and> (\<exists>e \<in> set disk. matching_below pattern folder e \<and> p = fst e))"
  by (auto simp: collect_matching_files_def)

lemma sorted_split_take:
  assumes "distinct xs" "d \<in> set (take n (sort_key f xs))" "k \<in> set xs - set (take n (sort_key f xs))"
  shows "f d \<le> f k"
proof -
  have "sorted (map f (take n (sort_key f xs) @ drop n (sort_key f xs)))" by simp
  moreover from assms(3) have "k \<in> set (drop n (sort_key f xs))"
    by (metis Diff_iff Un_iff append_take_drop_id set_append set_sort)
  ultimately show ?thesis using assms(2) unfolding map_append sorted_append by auto
qed

section \<open>Properties\<close>

text \<open>
  C39. A purge that ends without error deletes exactly as many matching files as exceed the limit, none
  of them newer than a matching file that stays, and, if it prunes, exactly the folders below the
  roots that hold nothing but folders; everything else is kept. Roots that overlap are excluded.
\<close>

theorem retention_keeps_newest:
  assumes "purge_files h ctx disk = (disk', Inr message)" "distinct (map fst disk)"
    and "distinct (collect_matching_files (rn_folders ctx) (rn_pattern ctx) disk)"
  shows "\<exists>old. set old \<subseteq> set (collect_matching_files (rn_folders ctx) (rn_pattern ctx) disk) \<and> distinct old \<and>
    length old = length (collect_matching_files (rn_folders ctx) (rn_pattern ctx) disk) - nat (rn_max_files ctx) \<and>
    (\<forall>d \<in> set old. \<forall>k \<in> set (collect_matching_files (rn_folders ctx) (rn_pattern ctx) disk) - set old.
       age_key disk d \<le> age_key disk k) \<and>
    (let kept = filter (\<lambda>e. fst e \<notin> set old) disk
     in disk' = filter (\<lambda>e. \<not> (rn_prune ctx \<and> fst e \<in> set (folders_below (rn_folders ctx) kept) \<and> hollow kept (fst e))) kept)"
proof -
  let ?files = "collect_matching_files (rn_folders ctx) (rn_pattern ctx) disk"
  let ?old = "take (length ?files - retention_limit ctx) (oldest_first (rn_folders ctx) (rn_pattern ctx) disk)"
  have limit: "retention_limit ctx = nat (rn_max_files ctx)" by (simp add: retention_limit_def)
  from assms(1) obtain d1 where d1: "unlink_files h ?old disk = (d1, Inr ())"
    and rest: "if rn_prune ctx then \<exists>n. prune_empty_directories h (rn_folders ctx) d1 = (disk', Inr n) else disk' = d1"
    by (auto simp: purge_files_def oldest_first_def Let_def split: prod.splits sum.splits if_splits)
  then have kept: "d1 = filter (\<lambda>e. fst e \<notin> set ?old) disk" using unlink_files_ok by blast
  have d1': "distinct (map fst d1)" using assms(2) by (simp add: kept distinct_map_filter)
  show ?thesis
  proof (intro exI[of _ ?old] conjI ballI)
    show "set ?old \<subseteq> set ?files" using set_take_subset[of _ "oldest_first (rn_folders ctx) (rn_pattern ctx) disk"] by (simp add: oldest_first_def)
    show "distinct ?old" using assms(3) by (simp add: oldest_first_def)
    show "length ?old = length ?files - nat (rn_max_files ctx)" by (simp add: oldest_first_def limit)
    show "age_key disk d \<le> age_key disk k" if "d \<in> set ?old" "k \<in> set ?files - set ?old" for d k
      using sorted_split_take[OF assms(3)] that by (simp add: oldest_first_def)
    show "let kept = filter (\<lambda>e. fst e \<notin> set ?old) disk in disk' =
        filter (\<lambda>e. \<not> (rn_prune ctx \<and> fst e \<in> set (folders_below (rn_folders ctx) kept) \<and> hollow kept (fst e))) kept"
      using rest prune_ok[OF _ d1'] by (auto simp: kept[symmetric] Let_def split: if_splits)
  qed
qed

definition sample_disk :: artifact_disk where
  "sample_disk = [([''m''], Folder), ([''m'', ''a.md''], Artifact 5), ([''m'', ''s''], Folder), ([''m'', ''s'', ''b.md''], Artifact 3)]"

definition sample_faults :: disk_faults where "sample_faults = \<lparr>df_unlink = (\<lambda>_. None), df_rmdir = (\<lambda>_. None)\<rparr>"

definition sample_retention :: "path list \<Rightarrow> retention" where
  "sample_retention folders = \<lparr>rn_folders = folders, rn_pattern = ''*.md'', rn_max_files = 1, rn_prune = True\<rparr>"

lemma sample_collected: "collect_matching_files [[''m'']] ''*.md'' sample_disk = [[''m'', ''a.md''], [''m'', ''s'', ''b.md'']]"
  by code_simp

lemma sample_purge:
  "case purge_files sample_faults (sample_retention [[''m'']]) sample_disk of
     (disk', Inr message) \<Rightarrow> disk' = [([''m''], Folder), ([''m'', ''a.md''], Artifact 5)] | _ \<Rightarrow> False"
  by code_simp

theorem retention_keeps_newest_witness:
  "\<exists>old disk'. set old \<subseteq> {[''m'', ''a.md''], [''m'', ''s'', ''b.md'']} \<and> length old = 1 \<and>
     ([''m'', ''a.md''], Artifact 5) \<in> set disk'"
proof -
  obtain disk' message where purge: "purge_files sample_faults (sample_retention [[''m'']]) sample_disk = (disk', Inr message)"
    and disk': "disk' = [([''m''], Folder), ([''m'', ''a.md''], Artifact 5)]"
    using sample_purge by (auto split: prod.splits sum.splits)
  have ctx: "rn_folders (sample_retention [[''m'']]) = [[''m'']]" "rn_pattern (sample_retention [[''m'']]) = ''*.md''"
    "rn_max_files (sample_retention [[''m'']]) = 1" by (simp_all add: sample_retention_def)
  have "distinct (map fst sample_disk)" by (simp add: sample_disk_def)
  from retention_keeps_newest[OF purge this] obtain old where
    "set old \<subseteq> {[''m'', ''a.md''], [''m'', ''s'', ''b.md'']}" "length old = 1"
    unfolding ctx sample_collected by auto
  then show ?thesis by (intro exI[of _ old] exI[of _ disk']) (simp add: disk')
qed

text \<open>A file below two roots counts twice, and a root below another root is itself pruned.\<close>

lemma overlapping_roots_purge_the_newest:
  "case purge_files sample_faults (sample_retention [[''m''], [''m'', ''s'']]) (filter (\<lambda>e. fst e \<noteq> [''m'', ''a.md'']) sample_disk) of
     (disk', Inr message) \<Rightarrow> disk' = [([''m''], Folder)] | _ \<Rightarrow> False"
  by code_simp


end
