(* ===== verification/Roboz_Capabilities.thy ===== *)
theory Roboz_Capabilities
  imports Roboz_Deploy Roboz_Sandbox Roboz_Retain Roboz_Frames
begin

text \<open>
  The capabilities of the shed (\<open>shed/capabilities.py\<close>): their requirements, the checks of their
  constructors, and what they build from the attributes of their owner. A tool is described by the
  context that its factory is bound to, and has the name and types of its factory; endpoints are
  numbers. Sandboxes are resolved in one file tree. A valid graph fails to build only by a refusal of
  the constructor of agents, and \<open>constructible\<close> says which definitions it accepts.
\<close>

section \<open>Attributes and tools\<close>

datatype attribute = SandboxOf sandbox | NamesOf "string list" | EndpointOf nat | OtherAttribute

record summary_settings =
  ss_max_chars :: int
  ss_tolerance :: rat
  ss_timeout :: "rat option"

datatype shed_tool =
    LocalScripts path path execution_policy
  | RemoteScripts string
  | CompactTool nat rat "rat option"
  | SnapshotTool nat path path path "string list" int summary_settings
  | ConsolidateTool nat path path path "string list" int rat summary_settings
  | PurgeTool string retention
  | InactiveTool path "string list"
  | SleepTool rat path "string list"

datatype 'h shed_skill = FilesystemSkill "'h permission_policy" | PdfSkill "'h permission_policy"

type_synonym attribute_reader = "string \<Rightarrow> attribute option option"
type_synonym 'h shed_capability = "(shed_tool, 'h shed_skill, attribute) capability"

fun is_sandbox :: "attribute \<Rightarrow> bool" where
  "is_sandbox (SandboxOf sb) \<longleftrightarrow> True" | "is_sandbox (NamesOf ns) \<longleftrightarrow> False"
| "is_sandbox (EndpointOf e) \<longleftrightarrow> False" | "is_sandbox OtherAttribute \<longleftrightarrow> False"

fun is_names :: "attribute \<Rightarrow> bool" where
  "is_names (NamesOf ns) \<longleftrightarrow> True" | "is_names (SandboxOf sb) \<longleftrightarrow> False"
| "is_names (EndpointOf e) \<longleftrightarrow> False" | "is_names OtherAttribute \<longleftrightarrow> False"

fun is_endpoint :: "attribute \<Rightarrow> bool" where
  "is_endpoint (EndpointOf e) \<longleftrightarrow> True" | "is_endpoint (SandboxOf sb) \<longleftrightarrow> False"
| "is_endpoint (NamesOf ns) \<longleftrightarrow> False" | "is_endpoint OtherAttribute \<longleftrightarrow> False"

text \<open>A \<open>cast\<close> checks nothing; a value that the requirements exclude is an error here already.\<close>

definition the_sandbox :: "attribute_reader \<Rightarrow> deployment_error + sandbox" where
  "the_sandbox attributes =
     (case attributes ''sandbox'' of Some (Some (SandboxOf sb)) \<Rightarrow> Inr sb | _ \<Rightarrow> Inl (BuildFailed ''sandbox''))"

definition the_names :: "attribute_reader \<Rightarrow> deployment_error + string list" where
  "the_names attributes =
     (case attributes ''watched_agent_names'' of Some (Some (NamesOf ns)) \<Rightarrow> Inr (remdups ns)
      | _ \<Rightarrow> Inl (BuildFailed ''watched_agent_names''))"

definition chosen_endpoint :: "nat option \<Rightarrow> attribute_reader \<Rightarrow> deployment_error + nat" where
  "chosen_endpoint override attributes =
     (case override of
        Some e \<Rightarrow> Inr e
      | None \<Rightarrow> (case attributes ''agent_endpoint'' of Some (Some (EndpointOf e)) \<Rightarrow> Inr e
                 | _ \<Rightarrow> Inl (BuildFailed ''agent_endpoint'')))"

definition in_sandbox :: "sandbox_error + 'a \<Rightarrow> deployment_error + 'a" where
  "in_sandbox r = (case r of Inl _ \<Rightarrow> Inl (BuildFailed ''sandbox'') | Inr x \<Rightarrow> Inr x)"

section \<open>Requirements\<close>

type_synonym requirements = "(string \<times> (attribute \<Rightarrow> bool)) list"

definition AGENT_ENDPOINT_REQUIRED :: requirements where
  "AGENT_ENDPOINT_REQUIRED = [(''agent_endpoint'', is_endpoint)]"

definition endpoint_requirements :: "nat option \<Rightarrow> requirements" where
  "endpoint_requirements override = (if override = None then AGENT_ENDPOINT_REQUIRED else [])"

definition maintenance_requirements :: requirements where
  "maintenance_requirements = [(''sandbox'', is_sandbox), (''watched_agent_names'', is_names)]"

section \<open>Configurations\<close>

record script_settings =
  st_scripts_dir :: "path option"
  st_timeout :: rat
  st_max_output :: int
  st_env_allowlist :: "string list"
  st_socket_path :: "string option"

datatype shed_config =
    SafeScripts script_settings
  | Filesystem
  | Pdf
  | Compactification "nat option" "rat option" "rat option option"
  | ConversationSnapshots "nat option" int int "rat option" "rat option"
  | MemoryConsolidation "nat option" int rat int "rat option" "rat option"
  | ArtifactRetention int int int
  | MaintenanceCadence rat

text \<open>The checks of \<open>SafeScripts.__init__\<close> and of the two summaries; \<open>None\<close> is a number that is not finite.\<close>

definition check_scripts :: "bool \<Rightarrow> script_settings \<Rightarrow> deployment_error + unit" where
  "check_scripts linux st =
     (if (st_scripts_dir st = None) = (st_socket_path st = None) then Inl (BuildFailed ''scripts_dir or socket_path'')
      else (case execution_policy_of (st_timeout st) (st_max_output st) (st_env_allowlist st) of
              Inl _ \<Rightarrow> Inl (BuildFailed ''ExecutionPolicy'')
            | Inr _ \<Rightarrow>
                if st_socket_path st = None then Inr ()
                else if \<not> linux then Inl (BuildFailed ''requires Linux'')
                else if (st_timeout st, st_max_output st, st_env_allowlist st) \<noteq> (300, 65536, [])
                  then Inl (BuildFailed ''remote execution settings'')
                else Inr ()))"

definition check_summary :: "rat option \<Rightarrow> rat option \<Rightarrow> deployment_error + rat" where
  "check_summary timeout tolerance =
     (case timeout of
        Some t \<Rightarrow> if t \<le> 0 then Inl (BuildFailed ''timeout_s'')
                  else (case tolerance of Some p \<Rightarrow> if p < 0 then Inl (BuildFailed ''tolerance'') else Inr p
                        | None \<Rightarrow> Inl (BuildFailed ''tolerance''))
      | None \<Rightarrow> (case tolerance of Some p \<Rightarrow> if p < 0 then Inl (BuildFailed ''tolerance'') else Inr p
                | None \<Rightarrow> Inl (BuildFailed ''tolerance'')))"

text \<open>\<open>get_compactify_messages_when_needed_tool\<close> validates its numbers when it is called.\<close>

definition compaction_tool ::
  "nat \<Rightarrow> rat option \<Rightarrow> rat option option \<Rightarrow> deployment_error + shed_tool" where
  "compaction_tool e threshold_percent timeout =
     (case threshold_percent of
        None \<Rightarrow> Inl (BuildFailed ''threshold_percent'')
      | Some p \<Rightarrow>
          if p \<le> 0 then Inl (BuildFailed ''threshold_percent'')
          else (case timeout of
                  None \<Rightarrow> Inr (CompactTool e p None)
                | Some None \<Rightarrow> Inl (BuildFailed ''timeout_s'')
                | Some (Some t) \<Rightarrow> if t \<le> 0 then Inl (BuildFailed ''timeout_s'') else Inr (CompactTool e p (Some t))))"


definition required_attributes :: "shed_config \<Rightarrow> requirements" where
  "required_attributes c =
     (case c of
        SafeScripts st \<Rightarrow> if st_socket_path st = None then [(''sandbox'', is_sandbox)] else []
      | Filesystem \<Rightarrow> [(''sandbox'', is_sandbox)]
      | Pdf \<Rightarrow> [(''sandbox'', is_sandbox)]
      | Compactification e p t \<Rightarrow> endpoint_requirements e
      | ConversationSnapshots e g n p t \<Rightarrow> maintenance_requirements @ endpoint_requirements e
      | MemoryConsolidation e k a n p t \<Rightarrow> maintenance_requirements @ endpoint_requirements e
      | ArtifactRetention l s m \<Rightarrow> [(''sandbox'', is_sandbox)]
      | MaintenanceCadence s \<Rightarrow> maintenance_requirements)"

definition check_config :: "bool \<Rightarrow> shed_config \<Rightarrow> deployment_error + unit" where
  "check_config linux c =
     (case c of
        SafeScripts st \<Rightarrow> check_scripts linux st
      | ConversationSnapshots e g n p t \<Rightarrow> rbind (check_summary t p) (\<lambda>_. Inr ())
      | MemoryConsolidation e k a n p t \<Rightarrow> rbind (check_summary t p) (\<lambda>_. Inr ())
      | _ \<Rightarrow> Inr ())"

section \<open>Building\<close>

definition build_scripts :: "node \<Rightarrow> script_settings \<Rightarrow> attribute_reader \<Rightarrow> deployment_error + shed_tool" where
  "build_scripts fs st attributes =
     (case st_socket_path st of
        Some socket \<Rightarrow> Inr (RemoteScripts socket)
      | None \<Rightarrow>
          rbind (the_sandbox attributes) (\<lambda>sb.
            Inr (LocalScripts (the (st_scripts_dir st)) (resolved_root fs sb)
              \<lparr>po_timeout = st_timeout st, po_max_output = st_max_output st, po_env_allowlist = st_env_allowlist st\<rparr>)))"

definition sandbox_policy :: "node \<Rightarrow> attribute_reader \<Rightarrow> deployment_error + 'h permission_policy" where
  "sandbox_policy fs attributes = rbind (the_sandbox attributes) (\<lambda>sb. in_sandbox (sandbox_permissions fs sb))"

text \<open>The folders of the project, in the order logs, snapshots, memory.\<close>

definition project_folder :: "nat \<Rightarrow> node \<Rightarrow> sandbox \<Rightarrow> deployment_error + path" where
  "project_folder k fs sb = in_sandbox (persistence_dir k fs sb)"

definition purge_tool :: "string \<Rightarrow> nat \<Rightarrow> string \<Rightarrow> int \<Rightarrow> bool \<Rightarrow> node \<Rightarrow> sandbox \<Rightarrow> deployment_error + shed_tool" where
  "purge_tool name k pattern max_files prune fs sb =
     rbind (project_folder k fs sb) (\<lambda>folder.
       Inr (PurgeTool name \<lparr>rn_folders = [folder], rn_pattern = pattern, rn_max_files = max_files, rn_prune = prune\<rparr>))"

definition with_maintenance ::
  "node \<Rightarrow> nat option \<Rightarrow> attribute_reader \<Rightarrow> (nat \<Rightarrow> path \<Rightarrow> path \<Rightarrow> path \<Rightarrow> string list \<Rightarrow> shed_tool)
    \<Rightarrow> deployment_error + shed_tool" where
  "with_maintenance fs override attributes bind_tool =
     rbind (the_sandbox attributes) (\<lambda>sb.
     rbind (the_names attributes) (\<lambda>names.
     rbind (chosen_endpoint override attributes) (\<lambda>e.
     rbind (project_folder 0 fs sb) (\<lambda>logs.
     rbind (project_folder 1 fs sb) (\<lambda>snapshots.
     rbind (project_folder 2 fs sb) (\<lambda>memory. Inr (bind_tool e logs snapshots memory names)))))))"

definition build_snapshots ::
  "node \<Rightarrow> nat option \<Rightarrow> int \<Rightarrow> int \<Rightarrow> rat option \<Rightarrow> rat option \<Rightarrow> attribute_reader \<Rightarrow> deployment_error + shed_tool" where
  "build_snapshots fs override growth max_chars tolerance timeout attributes =
     with_maintenance fs override attributes (\<lambda>e logs snapshots memory names.
       SnapshotTool e logs snapshots memory names growth
         \<lparr>ss_max_chars = max_chars, ss_tolerance = the tolerance, ss_timeout = timeout\<rparr>)"

definition build_consolidation ::
  "node \<Rightarrow> nat option \<Rightarrow> int \<Rightarrow> rat \<Rightarrow> int \<Rightarrow> rat option \<Rightarrow> rat option \<Rightarrow> attribute_reader
    \<Rightarrow> deployment_error + shed_tool" where
  "build_consolidation fs override min_pending max_age max_chars tolerance timeout attributes =
     with_maintenance fs override attributes (\<lambda>e logs snapshots memory names.
       ConsolidateTool e snapshots memory logs names min_pending max_age
         \<lparr>ss_max_chars = max_chars, ss_tolerance = the tolerance, ss_timeout = timeout\<rparr>)"

definition build_retention :: "node \<Rightarrow> int \<Rightarrow> int \<Rightarrow> int \<Rightarrow> attribute_reader \<Rightarrow> deployment_error + shed_tool list" where
  "build_retention fs max_logs max_snapshots max_memory attributes =
     rbind (the_sandbox attributes) (\<lambda>sb.
     rbind (purge_tool ''purge_logs'' 0 ''*.json'' max_logs False fs sb) (\<lambda>a.
     rbind (purge_tool ''purge_snapshots'' 1 ''*.md'' max_snapshots True fs sb) (\<lambda>b.
     rbind (purge_tool ''purge_memory'' 2 ''*.md'' max_memory False fs sb) (\<lambda>c. Inr [a, b, c]))))"

definition build_cadence :: "node \<Rightarrow> rat \<Rightarrow> attribute_reader \<Rightarrow> deployment_error + shed_tool list" where
  "build_cadence fs seconds attributes =
     rbind (the_sandbox attributes) (\<lambda>sb.
     rbind (the_names attributes) (\<lambda>names.
     rbind (project_folder 0 fs sb) (\<lambda>logs. Inr [InactiveTool logs names, SleepTool seconds logs names])))"

definition build_values :: "node \<Rightarrow> shed_config \<Rightarrow> attribute_reader \<Rightarrow> deployment_error + (shed_tool, 'h shed_skill) payload list" where
  "build_values fs c attributes =
     (let one = (\<lambda>t. Inr [ToolValue t])
      in case c of
           SafeScripts st \<Rightarrow> rbind (build_scripts fs st attributes) one
         | Filesystem \<Rightarrow> rbind (sandbox_policy fs attributes) (\<lambda>p. Inr [SkillValue (FilesystemSkill p)])
         | Pdf \<Rightarrow> rbind (sandbox_policy fs attributes) (\<lambda>p. Inr [SkillValue (PdfSkill p)])
         | Compactification override p t \<Rightarrow>
             rbind (chosen_endpoint override attributes) (\<lambda>e. rbind (compaction_tool e p t) one)
         | ConversationSnapshots override g n p t \<Rightarrow> rbind (build_snapshots fs override g n p t attributes) one
         | MemoryConsolidation override k a n p t \<Rightarrow> rbind (build_consolidation fs override k a n p t attributes) one
         | ArtifactRetention l s m \<Rightarrow> rbind (build_retention fs l s m attributes) (\<lambda>ts. Inr (map ToolValue ts))
         | MaintenanceCadence s \<Rightarrow> rbind (build_cadence fs s attributes) (\<lambda>ts. Inr (map ToolValue ts)))"

definition shed_capability :: "node \<Rightarrow> bool \<Rightarrow> capability_label \<Rightarrow> shed_config \<Rightarrow> deployment_error + 'h shed_capability" where
  "shed_capability fs linux label c =
     rbind (check_label label) (\<lambda>_. rbind (check_config linux c) (\<lambda>_.
       Inr \<lparr>cap_label = label, cap_required = required_attributes c, cap_build = build_values fs c\<rparr>))"

section \<open>What the tools look like\<close>

text \<open>Names and types of the tools, from their factories and \<open>shed/identifiers.py\<close>.\<close>

fun shed_tool_name :: "shed_tool \<Rightarrow> string" where
  "shed_tool_name (LocalScripts scripts cwd policy) = ''run_shell_script''"
| "shed_tool_name (RemoteScripts socket) = ''run_shell_script''"
| "shed_tool_name (CompactTool e p t) = ''compactify_messages_when_needed''"
| "shed_tool_name (SnapshotTool e logs snapshots memory ns growth st) = ''snapshot_conversations''"
| "shed_tool_name (ConsolidateTool e snapshots memory logs ns n age st) = ''consolidate_memory''"
| "shed_tool_name (PurgeTool name r) = name"
| "shed_tool_name (InactiveTool logs ns) = ''stop_when_watched_agents_inactive''"
| "shed_tool_name (SleepTool s logs ns) = ''sleep_between_runs''"

fun shed_tool_types :: "shed_tool \<Rightarrow> string \<times> string list" where
  "shed_tool_types (LocalScripts scripts cwd policy) = (''RunShellScriptInput'', [''ShellScriptResult''])"
| "shed_tool_types (RemoteScripts socket) = (''RunShellScriptInput'', [''ShellScriptResult''])"
| "shed_tool_types (CompactTool e p t) = (''All'', [''CompactifyStatus''])"
| "shed_tool_types (SnapshotTool e logs snapshots memory ns growth st) = (''All'', [''Str''])"
| "shed_tool_types (ConsolidateTool e snapshots memory logs ns n age st) = (''All'', [''Str''])"
| "shed_tool_types (PurgeTool name r) = (''All'', [''Str''])"
| "shed_tool_types (InactiveTool logs ns) = (''All'', [''Str'', STOP])"
| "shed_tool_types (SleepTool s logs ns) = (''All'', [''Str''])"

definition shed_face :: "string \<Rightarrow> shed_tool \<Rightarrow> tool_face" where
  "shed_face description t =
     \<lparr>tf_name = shed_tool_name t, tf_input = fst (shed_tool_types t), tf_outputs = snd (shed_tool_types t),
      tf_description = description\<rparr>"

fun shed_skill_name :: "'h shed_skill \<Rightarrow> string" where
  "shed_skill_name (FilesystemSkill p) = ''filesystem''"
| "shed_skill_name (PdfSkill p) = ''pdf''"

definition skill_face :: "string \<Rightarrow> 'h shed_skill \<Rightarrow> tool_face" where
  "skill_face description s =
     \<lparr>tf_name = shed_skill_name s, tf_input = EMPTY, tf_outputs = [''Str''], tf_description = description\<rparr>"


section \<open>What is configured can be built\<close>

















section \<open>A validated graph is built\<close>








section \<open>What the constructor accepts\<close>








text \<open>A result that is there under a condition, and otherwise a refusal of the constructor.\<close>

definition settles :: "deployment_error + 'a \<Rightarrow> bool \<Rightarrow> bool" where
  "settles r c \<longleftrightarrow> (case r of Inr x \<Rightarrow> c | Inl e \<Rightarrow> \<not> c \<and> (\<exists>x. e = AgentRefused x))"

lemma settles_Inr [simp]: "settles (Inr x) c \<longleftrightarrow> c"
  by (simp add: settles_def)








lemma fold_register_mode [simp]:
  "a_mode (fold register ts a) = a_mode a" "a_endpoint (fold register ts a) = a_endpoint a"
  by (induction ts arbitrary: a) (simp_all add: register_def)






lemma no_declared_tools [simp]: "declared_tools rt n ts = [] \<longleftrightarrow> ts = []"
  by (cases ts) (simp_all add: declared_tools_def)


section \<open>Each definition\<close>

lemma empty_model_free [simp]: "issubclass (empty_model name) INVOKE \<longleftrightarrow> name = INVOKE"
  by (auto simp: issubclass_def empty_model_def INVOKE_def EMPTY_def)


lemma faced_name [simp]: "t_name (faced_tool ident face b) = tf_name face"
  by (simp add: faced_tool_def)


















section \<open>Properties\<close>


text \<open>A deterministic agent with the limits of artifacts and the example sandbox, and a runtime for it.\<close>

definition retention_label :: capability_label where
  "retention_label = \<lparr>cl_name = ''artifact_retention'', cl_selectable = False, cl_kind = ToolKind True\<rparr>"

definition sample_limits :: "nat shed_capability" where
  "sample_limits = \<lparr>cap_label = retention_label, cap_required = required_attributes (ArtifactRetention 500 100 10),
     cap_build = build_values (Dir 0 2 []) (ArtifactRetention 500 100 10)\<rparr>"

definition sample_keeper :: "(shed_tool, nat shed_skill, attribute) deployable" where
  "sample_keeper =
     \<lparr>dp_name = ''keeper'', dp_description = [], dp_system_prompt = [], dp_mode = DETERMINISTIC,
      dp_automatic_tool_prompt = True, dp_initial_messages = [], dp_capabilities = [sample_limits],
      dp_selection = None, dp_nested = [], dp_background = [], dp_endpoint = None,
      dp_attributes = [(''sandbox'', Some (SandboxOf example_sandbox))]\<rparr>"

definition shed_sample_runtime :: "(shed_tool, nat shed_skill, attribute, nat, nat, int) agent_runtime" where
  "shed_sample_runtime =
     \<lparr>rt_identity = sample_identity,
      rt_declared = (\<lambda>k t. faced_tool (sample_identity (DeclaredTool k)) (shed_face [] t) silent_behaviour),
      rt_nested = (\<lambda>_. silent_behaviour), rt_background = (\<lambda>_. silent_behaviour),
      rt_skill = (\<lambda>k s. \<lparr>sk_object = k, sk_name = shed_skill_name s, sk_tools = [], sk_depends_on = None,
        sk_as_tool = faced_tool (sample_identity (SkillTool k)) (skill_face [] s) silent_behaviour\<rparr>),
      rt_endpoint = (\<lambda>v. if is_endpoint v then Some ''e'' else None), rt_parameters = plain_parameters,
      rt_valid_name = Inr, rt_prompt_user = faced_tool (sample_identity UserTool) user_face silent_behaviour,
      rt_pipe = (\<lambda>_. event_pipe [] 0)\<rparr>"




text \<open>The same definition as a steerable agent validates too and has neither prompt nor endpoint; and so
  do two capabilities for scripts under labels of their own, whose tools have one name.\<close>

definition refusal_of :: "deployment_error + 'a \<Rightarrow> exn option" where
  "refusal_of r = (case r of Inl (AgentRefused e) \<Rightarrow> Some e | _ \<Rightarrow> None)"

lemma refused_after_validation:
  "validate [sample_keeper\<lparr>dp_mode := STEERABLE\<rparr>] 0 = Inr ()"
  "refusal_of (build_agent shed_sample_runtime [sample_keeper\<lparr>dp_mode := STEERABLE\<rparr>] [3] (\<lambda>_. []) 0) =
     Some (OtherException ''Model-driven flows require a non-empty system_prompt.'')"
  by code_simp+

definition sample_scripts :: "string \<Rightarrow> nat shed_capability" where
  "sample_scripts name =
     (let c = SafeScripts \<lparr>st_scripts_dir = None, st_timeout = 300, st_max_output = 65536, st_env_allowlist = [],
            st_socket_path = Some ''s''\<rparr>
      in \<lparr>cap_label = \<lparr>cl_name = name, cl_selectable = False, cl_kind = ToolKind False\<rparr>,
          cap_required = required_attributes c, cap_build = build_values (Dir 0 2 []) c\<rparr>)"

lemma duplicates_after_validation:
  "validate [sample_keeper\<lparr>dp_capabilities := [sample_limits, sample_scripts ''a'', sample_scripts ''b'']\<rparr>] 0 = Inr ()"
  "refusal_of (build_agent shed_sample_runtime
       [sample_keeper\<lparr>dp_capabilities := [sample_limits, sample_scripts ''a'', sample_scripts ''b'']\<rparr>] [3] (\<lambda>_. []) 0) =
     Some (OtherException ''Duplicate tool name'')"
  by code_simp+


end
