(* ===== verification/Roboz_Background.thy ===== *)
theory Roboz_Background
  imports Roboz_Base Complex_Main
begin

text \<open>
  Background agents (\<open>agent/background_agent.py\<close>): one call of the trigger tool, and the sequences of
  calls and of threads that end. Seconds of the monotonic clock are rationals. The calls of one
  context do not overlap; the run inside a thread is the modelled agent run and is not repeated here.
\<close>

datatype background_phase = PhaseStarted | PhaseAlive | PhaseRestarted

record background_state =
  bg_thread :: "nat option"
  bg_checks :: nat
  bg_started :: "rat option"

record background_world =
  bw_state :: background_state
  bw_live :: "nat list"
  bw_next :: nat

record background_status =
  bt_phase :: background_phase
  bt_agent :: string
  bt_checks :: nat
  bt_uptime :: string

definition padded :: "nat \<Rightarrow> string" where
  "padded n = (if n < 10 then ''0'' else []) @ digits_of n"

definition fmt_uptime :: "rat \<Rightarrow> string" where
  "fmt_uptime seconds =
     (let total = nat \<lfloor>seconds\<rfloor>; minutes = total div 60
      in if total < 60 then digits_of total @ ''s''
         else if minutes < 60 then digits_of minutes @ ''m'' @ padded (total mod 60) @ ''s''
         else digits_of (minutes div 60) @ ''h'' @ padded (minutes mod 60) @ ''m'')"

definition background_status_of :: "string \<Rightarrow> background_phase \<Rightarrow> nat \<Rightarrow> rat \<Rightarrow> rat \<Rightarrow> background_status" where
  "background_status_of name phase checks started now =
     \<lparr>bt_phase = phase, bt_agent = name, bt_checks = checks, bt_uptime = fmt_uptime (now - started)\<rparr>"

text \<open>What starting a thread comes to: its run is signalled, it is not in time, or no thread starts.\<close>

datatype start_outcome = RunSignalled | NotInTime bool | CannotStart string

datatype background_error = NoLifecycleEvent bool | StartRaised string

definition thread_alive :: "background_world \<Rightarrow> bool" where
  "thread_alive w = (case bg_thread (bw_state w) of None \<Rightarrow> False | Some t \<Rightarrow> t \<in> set (bw_live w))"

text \<open>\<open>started_monotonic or time.monotonic()\<close>: zero is false as well.\<close>

definition started_or :: "rat option \<Rightarrow> rat \<Rightarrow> rat" where
  "started_or started now = (case started of None \<Rightarrow> now | Some t \<Rightarrow> if t = 0 then now else t)"

definition spawn_thread :: "rat \<Rightarrow> start_outcome \<Rightarrow> background_world \<Rightarrow> background_world" where
  "spawn_thread now outcome w =
     w\<lparr>bw_state := (bw_state w)\<lparr>bg_thread := Some (bw_next w), bg_started := Some now\<rparr>,
       bw_live := (if outcome = RunSignalled \<or> outcome = NotInTime True then bw_next w # bw_live w else bw_live w),
       bw_next := Suc (bw_next w)\<rparr>"

definition run_background_agent ::
  "string \<Rightarrow> rat \<Rightarrow> rat \<Rightarrow> start_outcome \<Rightarrow> background_world
    \<Rightarrow> background_world \<times> (background_error + background_status)" where
  "run_background_agent name now later outcome w0 =
     (let w = w0\<lparr>bw_state := (bw_state w0)\<lparr>bg_checks := Suc (bg_checks (bw_state w0))\<rparr>\<rparr>;
          s = bw_state w; checks = bg_checks s
      in if thread_alive w
         then (w, Inr (background_status_of name PhaseAlive checks (started_or (bg_started s) now) later))
         else
           (let phase = (if bg_thread s = None then PhaseStarted else PhaseRestarted);
                w' = spawn_thread now outcome w
            in case outcome of
                 CannotStart e \<Rightarrow> (w', Inl (StartRaised e))
               | NotInTime still \<Rightarrow> (w', Inl (NoLifecycleEvent still))
               | RunSignalled \<Rightarrow> (w', Inr (background_status_of name phase checks now later))))"

definition fresh_background :: background_world where
  "fresh_background = \<lparr>bw_state = \<lparr>bg_thread = None, bg_checks = 0, bg_started = None\<rparr>, bw_live = [], bw_next = 0\<rparr>"

datatype background_event = TriggerCalled rat rat start_outcome | ThreadEnded nat

inductive background_step :: "string \<Rightarrow> background_event \<Rightarrow> background_world \<Rightarrow> background_world \<Rightarrow> bool" for name where
  Trigger: "fst (run_background_agent name now later outcome w) = w' \<Longrightarrow>
    background_step name (TriggerCalled now later outcome) w w'"
| Ended: "t \<in> set (bw_live w) \<Longrightarrow>
    background_step name (ThreadEnded t) w (w\<lparr>bw_live := remove1 t (bw_live w)\<rparr>)"

inductive_cases background_stepE: "background_step name e w w'"

inductive background_run :: "string \<Rightarrow> background_event list \<Rightarrow> background_world \<Rightarrow> bool" for name where
  Fresh: "background_run name [] fresh_background"
| Step: "background_run name es w \<Longrightarrow> background_step name e w w' \<Longrightarrow> background_run name (es @ [e]) w'"

fun is_trigger :: "background_event \<Rightarrow> bool" where
  "is_trigger (TriggerCalled now later outcome) \<longleftrightarrow> True"
| "is_trigger (ThreadEnded t) \<longleftrightarrow> False"

definition one_thread :: "background_world \<Rightarrow> bool" where
  "one_thread w \<longleftrightarrow> (bw_live w = [] \<or> (\<exists>t. bw_live w = [t] \<and> bg_thread (bw_state w) = Some t)) \<and>
     (\<forall>t. bg_thread (bw_state w) = Some t \<longrightarrow> t < bw_next w)"

lemma run_keeps_one_thread:
  "one_thread w \<Longrightarrow> one_thread (fst (run_background_agent name now later outcome w)) \<and>
     bg_checks (bw_state (fst (run_background_agent name now later outcome w))) = Suc (bg_checks (bw_state w))"
  by (auto simp: one_thread_def run_background_agent_def spawn_thread_def thread_alive_def Let_def
      split: start_outcome.splits option.splits)

lemma background_step_one_thread:
  "background_step name e w w' \<Longrightarrow> one_thread w \<Longrightarrow>
     one_thread w' \<and> bg_checks (bw_state w') = (if is_trigger e then Suc else id) (bg_checks (bw_state w))"
  by (erule background_stepE) (auto simp: run_keeps_one_thread, auto simp: one_thread_def)

lemma fresh_one_thread: "one_thread fresh_background"
  by (simp add: one_thread_def fresh_background_def)

lemma background_run_one_thread:
  "background_run name es w \<Longrightarrow> one_thread w \<and> bg_checks (bw_state w) = length (filter is_trigger es)"
  by (induction rule: background_run.induct)
    (auto simp: fresh_one_thread dest: background_step_one_thread, simp add: fresh_background_def)

text \<open>
  However calls of the trigger and ends of threads alternate, at most one thread of the agent
  lives; the next call is counted, reports an agent as alive exactly if its thread lives, and
  otherwise starts a new one, as a restart exactly if there was one before.
\<close>

theorem one_background_thread:
  assumes "background_run name es w"
  shows "length (bw_live w) \<le> 1 \<and>
    (case run_background_agent name now later RunSignalled w of
       (w', Inl e) \<Rightarrow> False
     | (w', Inr status) \<Rightarrow>
         bt_checks status = Suc (length (filter is_trigger es)) \<and> length (bw_live w') = 1 \<and>
         (bt_phase status = PhaseAlive \<longleftrightarrow> bw_live w \<noteq> []) \<and> (bw_live w \<noteq> [] \<longrightarrow> bw_live w' = bw_live w) \<and>
         (bt_phase status = PhaseStarted \<longleftrightarrow> bg_thread (bw_state w) = None))"
  using background_run_one_thread[OF assms]
  by (auto simp: one_thread_def run_background_agent_def spawn_thread_def thread_alive_def background_status_of_def Let_def
      split: option.splits)

theorem one_background_thread_witness:
  "\<exists>w. background_run ''b'' [TriggerCalled 2 3 RunSignalled, ThreadEnded 0] w \<and> length (bw_live w) \<le> 1"
proof -
  let ?w1 = "fst (run_background_agent ''b'' 2 3 RunSignalled fresh_background)"
  have live: "0 \<in> set (bw_live ?w1)"
    by (simp add: run_background_agent_def fresh_background_def spawn_thread_def thread_alive_def Let_def)
  have "background_run ''b'' ([] @ [TriggerCalled 2 3 RunSignalled]) ?w1" by (rule Step[OF Fresh Trigger[OF refl]])
  from Step[OF this Ended[OF live]] have run: "background_run ''b'' [TriggerCalled 2 3 RunSignalled, ThreadEnded 0]
      (?w1\<lparr>bw_live := remove1 0 (bw_live ?w1)\<rparr>)" by simp
  from one_background_thread[OF run] run show ?thesis by blast
qed

end
