(* ===== verification/Roboz_Interact.thy ===== *)
theory Roboz_Interact
  imports Roboz_Messages Roboz_UserIO
begin

text \<open>
  The built-in tools that talk to the user (\<open>tools/interaction.py\<close>) and the text that a nested agent
  gives back (\<open>agent/nested_agent.py\<close>), over the modelled interaction.
\<close>

definition NO_REPLY :: string where "NO_REPLY = ''The user did not respond''"

definition NESTED_AGENT_NO_OUTCOME_PLACEHOLDER :: string where
  "NESTED_AGENT_NO_OUTCOME_PLACEHOLDER = ''The agent finished without a message.''"

definition reply_or :: "string \<Rightarrow> 'h \<times> (io_error + reply option) \<Rightarrow> 'h \<times> (io_error + reply)" where
  "reply_or fallback r =
     (case r of
        (h, Inl e) \<Rightarrow> (h, Inl e)
      | (h, Inr None) \<Rightarrow> (h, Inr (Str fallback))
      | (h, Inr (Some reply)) \<Rightarrow> (h, Inr reply))"

text \<open>A timeout that is not positive is refused when the input is validated.\<close>

definition prompt_user ::
  "string \<Rightarrow> 'h terminal \<Rightarrow> 'h interaction \<Rightarrow> string \<Rightarrow> seconds option \<Rightarrow> 'h \<Rightarrow> 'h \<times> (io_error + reply)" where
  "prompt_user fallback term c message timeout h =
     reply_or fallback (interact_with_user term c message True timeout True h)"

definition message_user ::
  "string \<Rightarrow> 'h terminal \<Rightarrow> 'h interaction \<Rightarrow> 'h \<Rightarrow> 'h \<times> (io_error + reply)" where
  "message_user message term c h =
     (case interact_with_user term c message False None False h of
        (h', Inl e) \<Rightarrow> (h', Inl e) | (h', Inr _) \<Rightarrow> (h', Inr (Str message)))"

definition prompt_user_at_start ::
  "string \<Rightarrow> 'h terminal \<Rightarrow> 'h interaction \<Rightarrow> message list \<Rightarrow> 'h \<Rightarrow> 'h \<times> (io_error + reply)" where
  "prompt_user_at_start message term c messages h =
     (if list_ex (\<lambda>m. msg_role m = ASSISTANT) messages then (h, Inr (Str []))
      else reply_or NO_REPLY (interact_with_user term c message True None True h))"

definition nested_agent_text :: "string option \<Rightarrow> string" where
  "nested_agent_text value' = (case value' of Some v \<Rightarrow> v | None \<Rightarrow> NESTED_AGENT_NO_OUTCOME_PLACEHOLDER)"

text \<open>After the first answer of the model the start prompt leaves the user alone.\<close>

lemma start_prompt_is_silent:
  "ASSISTANT \<in> msg_role ` set messages \<Longrightarrow> prompt_user_at_start message term c messages h = (h, Inr (Str []))"
  by (auto simp: prompt_user_at_start_def list_ex_iff)

lemma start_prompt_needs_a_user:
  assumes "ASSISTANT \<notin> msg_role ` set messages" "current_output c = None"
  shows "\<exists>e. prompt_user_at_start message term c messages h = (h, Inl (UserInputUnavailableError e))"
proof -
  have "\<not> list_ex (\<lambda>m. msg_role m = ASSISTANT) messages" using assms(1) by (force simp: list_ex_iff)
  moreover obtain e where "interact_with_user term c message True None True h = (h, Inl (UserInputUnavailableError e))"
    using interact_unbound[OF assms(2)] by blast
  ultimately show ?thesis by (simp add: prompt_user_at_start_def reply_or_def)
qed

end
