(* ===== verification/Spec2Isabelle.thy ===== *)
theory Spec2Isabelle
  imports Roboz_Control Roboz_Syntax Roboz_Messages Roboz_Chain Roboz_Steps Roboz_Persist Roboz_External Roboz_Calls
    Roboz_Patch Roboz_Compact Roboz_Client Roboz_Inventory Roboz_Health Roboz_Sandbox Roboz_Memory Roboz_Endpoints
    Roboz_Capabilities Roboz_Background Roboz_Interact
begin

text \<open>
  A verification library for RoboZ (package \<open>roboz\<close>; all file names below are relative to
  \<open>src/src/roboz\<close>).

  RoboZ runs agents that talk to language models and act through tools. A definition of an agent
  (\<open>deployment.py\<close>) is built into an agent (\<open>agent/core.py\<close>): a registry of typed tools and skills, the
  conversation, and an event pipe (\<open>runtime/pipe.py\<close>) with its sinks and control signals. A run
  chooses tools, asks a model endpoint which one comes next (\<open>llm\<close>), and reports each step to
  the pipe, whose persistence sink writes run documents (\<open>runtime/sinks.py\<close>). The shed (\<open>shed\<close>) holds
  tools that act on the machine. They prepare the permissions they need, ask the guard, and only then
  act: the file commands, the patch tool, trusted scripts. Maintenance agents of the shed compact,
  snapshot and consolidate what was said, and purge what is old.

  \<^bold>\<open>Conventions.\<close> The definitions are translated from the source and keep its names. A class is a record
  or a datatype, a raise is a left value of a sum, and state is passed and returned, changed. What is
  not in the repository (the operating system, the terminal, pydantic validators, provider clients,
  ciphers, the uuid and clock) is a record of functions over a world of any type, or an argument. Texts
  are lists of characters; times and percentages that the code keeps as floats are rationals, except
  where the rounding of floats matters (\<open>Roboz_Url\<close>). Log records are left out.

  \<^bold>\<open>Prelude.\<close> \<open>Roboz_Base\<close>: results, their sequencing and traversal, splitting and joining, the
  collections \<open>result_simps\<close>, \<open>stream_simps\<close> and \<open>path_simps\<close>. \<open>Roboz_Strings\<close>: \<open>split\<close>, \<open>count\<close> and \<open>replace\<close>.
  \<open>Roboz_Json\<close> and \<open>Roboz_Roundtrip\<close>: \<open>json.loads\<close>, \<open>json.dumps\<close>, \<open>repr\<close>, dictionaries in insertion
  order, and that a printed value is read back.

  \<^bold>\<open>The guarded file commands\<close> (\<open>shed/tools/cli_commands\<close>).
  \<^item> \<open>Roboz_Tokens\<close>, \<open>Roboz_Syntax\<close>: \<open>tokens.py\<close> and the policies of the seventeen \<open>commands/*.py\<close>; accepted
    commands are well formed.
  \<^item> \<open>Roboz_Control\<close>: \<open>contracts.py\<close> and \<open>sequence.py\<close>. The loop that skips tokens runs exactly the
    pipelines and connectives of the reference reading, and accepted streams print and parse back.
  \<^item> \<open>Roboz_Patterns\<close>, \<open>Roboz_Files\<close>, \<open>Roboz_Paths\<close>: \<open>full_match\<close>, a file tree with links and the path
    resolution of the kernel, and \<open>paths.py\<close>; the expansion of patterns is sound and ends.
  \<^item> \<open>Roboz_Prepare\<close>, \<open>Roboz_Trees\<close>, \<open>Roboz_Transfers\<close>: the preparations of all commands. Readers
    require what they open, deletions and copies require every entry of the trees they reach, and
    sources and targets of transfers do not overlap.
  \<^item> \<open>Roboz_Guard\<close>: \<open>shed/tools/guard.py\<close>, \<open>shed/models.py\<close>. The locale \<open>authorization\<close> is what tools rely on;
    the guard allows exactly what the policy allows or the user approves, and gives the reason of a denial.
  \<^item> \<open>Roboz_Execute\<close>, \<open>Roboz_Chain\<close>: \<open>command.py\<close>, \<open>execute.py\<close>. The chain of tools refines the reference
    program, and a command that was not approved is not run.
  \<^item> \<open>Roboz_Patch\<close>: \<open>shed/tools/apply_patch.py\<close>. \<open>Roboz_Sandbox\<close>: \<open>shed/sandbox.py\<close>, whose policy is
    evaluated by the modelled guard.

  \<^bold>\<open>The runtime.\<close>
  \<^item> \<open>Roboz_Messages\<close>: messages and their truncation (\<open>models\<close>, \<open>llm/_truncation.py\<close>). \<open>Roboz_UserIO\<close>,
    \<open>Roboz_Interact\<close>: \<open>runtime/io.py\<close>, \<open>tools/interaction.py\<close>.
  \<^item> \<open>Roboz_Pipe\<close>: events are numbered in their order, whatever the sinks raise and other threads request.
    \<open>Roboz_Persist\<close>: documents and activity markers; a document is the conversation that was reported.
  \<^item> \<open>Roboz_Tooling\<close>, \<open>Roboz_Agent\<close>, \<open>Roboz_Run\<close>: \<open>tooling/core.py\<close>, \<open>agent/core.py\<close>, \<open>skill/core.py\<close>.
    \<open>Roboz_Lifecycle\<close> states in the locale \<open>run_invariant\<close> what survives a run and interprets it for the
    typing of the registry; \<open>Roboz_Steps\<close> has the order of default tools, cancellation and the closing of runs.
  \<^item> \<open>Roboz_External\<close>: \<open>runtime/_external.py\<close> as steps of callers, workers and clock that interleave; slots
    are conserved and every outcome is justified by what happened.
  \<^item> \<open>Roboz_Deploy\<close>: \<open>deployment.py\<close>, capabilities, selections, the walk over the graph of definitions and
    the build, which calls the constructor of \<open>Roboz_Agent\<close> and passes on its refusals.
    \<open>Roboz_Capabilities\<close>: \<open>shed/capabilities.py\<close>; a valid graph of them is built exactly if the constructor
    accepts every definition.
    \<open>Roboz_Background\<close>: \<open>agent/background_agent.py\<close>, at most one live thread.

  \<^bold>\<open>Models.\<close>
  \<^item> \<open>Roboz_Provider\<close>, \<open>Roboz_Images\<close>, \<open>Roboz_Retry\<close>, \<open>Roboz_Calls\<close>: \<open>exceptions.py\<close>, \<open>llm/_diagnostics.py\<close>,
    \<open>llm/_retry.py\<close>, \<open>llm/calls.py\<close>. Retries are bounded and never repeat emitted output, deltas are the
    answer, and a call is reported as it ended.
  \<^item> \<open>Roboz_Completion\<close>: \<open>llm/completion.py\<close>. \<open>Roboz_Endpoints\<close>: \<open>llm/endpoints.py\<close>, \<open>llm/binding.py\<close>,
    \<open>llm/openrouter.py\<close>; a route follows the selection and keeps its request options.
  \<^item> \<open>Roboz_Url\<close>, \<open>Roboz_Env\<close>, \<open>Roboz_Inventory\<close>, \<open>Roboz_Health\<close>: URLs and settings, encrypted environment
    files (\<open>endpoints/env.py\<close>), which a process restores from the text that was written, the endpoint
    inventory, dependencies and their monitor, whose threads a stop cannot end.

  \<^bold>\<open>The other tools of the shed.\<close>
  \<^item> \<open>Roboz_Compact\<close>: \<open>compactification\<close>; what starts a conversation survives its compaction.
  \<^item> \<open>Roboz_Frames\<close>, \<open>Roboz_Scripts\<close>, \<open>Roboz_Client\<close>: \<open>safe_scripts\<close>. Frames are read back in whatever pieces
    they arrive, the event stream of a script is closed, and the client accepts what the service sends.
  \<^item> \<open>Roboz_Stamps\<close>, \<open>Roboz_Artifacts\<close>, \<open>Roboz_Librarian\<close>, \<open>Roboz_Memory\<close>, \<open>Roboz_Retain\<close>: file names made
    of times, the atomic publication of artifacts, snapshots, consolidation, the pacing of sweeps, purges.

  \<^bold>\<open>Loops and fuel.\<close> Loops that end are total functions: over lists, or with a measure (the chains of
  causes, the walk over a graph, whose names run out). The traversals of trees, the expansion of
  patterns and the building of agents take fuel; they are called with the number of nodes below their
  start or one more than the number of definitions, and it is proved that this is never
  used up (\<open>OutOfFuel\<close> is not a result, once for all stacks in the locale \<open>traversal\<close>, or more fuel
  changes nothing). Loops that poll or that a model can prolong (runs, waits, retries, reads of a socket, scripts, the pause between sweeps)
  return an option or say that they still run; where the code bounds them, a theorem gives
  enough fuel from the clock and the limits and proves that they then end.

  \<^bold>\<open>Not modelled.\<close>
  \<^item> \<open>cli.py\<close>, \<open>runtime/_environment.py\<close>, \<open>runtime/_logging.py\<close>: argument parsing, output, logging.
  \<^item> Prompts and descriptions for the model, \<open>shed/skills\<close>, \<open>shed/agents\<close>,
    \<open>agent/prompt_llm_tool.py\<close>: fixed texts and the wiring of the modelled tools with default numbers.
  \<^item> \<open>tooling/decorators.py\<close> and its protocols, \<open>models/_fields.py\<close>, \<open>models/_schema.py\<close>: reflection on
    signatures and pydantic declarations; tools are modelled as what the decorators produce.
  \<^item> \<open>llm/openai_compatible.py\<close>, \<open>shed/tools/pdf.py\<close>, \<open>shed/tools/images.py\<close>: wrappers of provider
    clients, document libraries and image decoders.
  \<^item> \<open>tools/control.py\<close> (closures that build a chain of cleanup tools), \<open>shed/tools/runner.py\<close>, examples.
  \<^item> Of modelled parts: \<open>external_dependencies\<close> of definitions, the checks of the socket directory
    and signal handlers of the script service, the JSON and Python text of inventories, three redaction
    patterns, the loop of the health scheduler, and log records.
\<close>

end
